(* ===== verification/Prelude.thy ===== *)
theory Prelude
  imports Complex_Main "HOL-Library.AList" "HOL-Library.Sublist"
    "HOL-Library.Char_ord" "HOL-Library.List_Lexorder"
begin

text \<open>
  Shared vocabulary of the development.

  \<^item> Time: \<open>Date.now()\<close> is an \<open>int\<close> number of milliseconds, passed to every operation that
    reads the clock. One synchronous block of the code reads one instant.
  \<^item> A JavaScript \<open>Map\<close> (or a plain object used as a dictionary) is an association list in
    insertion order: \<open>map_of\<close> is \<open>get\<close>, \<open>AList.update\<close> is \<open>set\<close> (an existing key keeps its
    place, a new key goes to the end), \<open>AList.delete\<close> is \<open>delete\<close>.
  \<^item> A JavaScript string is a \<open>string\<close> with one \<open>char\<close> per UTF-16 code unit, for the text
    whose code units the Windows-1252 table lists (it has the ellipsis the code appends,
    \<open>CHR 0x85\<close>, the bullet, \<open>CHR 0x95\<close>, and the dash of its messages, \<open>CHR 0x97\<close>). Case
    folding is modelled on the letters A to Z.
  \<^item> A thrown value or a rejected promise is \<open>Inl\<close> of a sum, a returned value is \<open>Inr\<close>.
\<close>

named_theorems jsmap_simps "facts on the operations of a JavaScript Map"
named_theorems text_simps "facts on the string operations"

type_synonym time = int
type_synonym ('k, 'v) jsmap = "('k \<times> 'v) list"

definition js_has :: "('k, 'v) jsmap \<Rightarrow> 'k \<Rightarrow> bool" where
  "js_has m k = (map_of m k \<noteq> None)"

definition js_keys :: "('k, 'v) jsmap \<Rightarrow> 'k list" where
  "js_keys m = map fst m"

definition js_wf :: "('k, 'v) jsmap \<Rightarrow> bool" where
  "js_wf m = distinct (map fst m)"

text \<open>A loop over the entries that deletes those a test selects, as \<open>for (const [k, v] of m)\<close>
  with \<open>m.delete(k)\<close> in its body.\<close>

definition js_drop_where :: "('k \<Rightarrow> 'v \<Rightarrow> bool) \<Rightarrow> ('k, 'v) jsmap \<Rightarrow> ('k, 'v) jsmap" where
  "js_drop_where p m = filter (\<lambda>(k, v). \<not> p k v) m"

text \<open>Text: \<open>includes\<close>, \<open>indexOf\<close>, \<open>lastIndexOf\<close>, \<open>toLowerCase\<close>, decimal \<open>String(n)\<close>.\<close>

fun js_includes :: "string \<Rightarrow> string \<Rightarrow> bool" where
  "js_includes [] pat = (pat = [])"
| "js_includes (c # cs) pat = (prefix pat (c # cs) \<or> js_includes cs pat)"

fun js_index_of :: "string \<Rightarrow> string \<Rightarrow> nat option" where
  "js_index_of [] pat = (if pat = [] then Some 0 else None)"
| "js_index_of (c # cs) pat =
     (if prefix pat (c # cs) then Some 0 else map_option Suc (js_index_of cs pat))"

fun last_char_index :: "char \<Rightarrow> string \<Rightarrow> nat option" where
  "last_char_index d [] = None"
| "last_char_index d (c # cs) =
     (case last_char_index d cs of
        Some i \<Rightarrow> Some (Suc i)
      | None \<Rightarrow> (if c = d then Some 0 else None))"

definition lower_char :: "char \<Rightarrow> char" where
  "lower_char c =
     (let n = of_char c :: nat in if 65 \<le> n \<and> n \<le> 90 then char_of (n + 32) else c)"

definition js_lower :: "string \<Rightarrow> string" where
  "js_lower s = map lower_char s"

fun show_nat :: "nat \<Rightarrow> string" where
  "show_nat n =
     (if n < 10 then [char_of (48 + n)] else show_nat (n div 10) @ [char_of (48 + n mod 10)])"

declare show_nat.simps [simp del]

definition show_int :: "int \<Rightarrow> string" where
  "show_int i = (if i < 0 then ''-'' @ show_nat (nat (- i)) else show_nat (nat i))"

text \<open>Optional arguments: \<open>x ?? d\<close>.\<close>

definition nullish :: "'a option \<Rightarrow> 'a \<Rightarrow> 'a" where
  "nullish x d = (case x of Some v \<Rightarrow> v | None \<Rightarrow> d)"

subsection \<open>Maps\<close>

lemma map_of_js_set [simp, jsmap_simps]:
  "map_of (AList.update k v m) k' = (if k' = k then Some v else map_of m k')"
  by (simp add: update_conv')

lemma map_of_js_delete [simp, jsmap_simps]:
  "map_of (AList.delete k m) k' = (if k' = k then None else map_of m k')"
  by (simp add: delete_conv')

lemma js_wf_set [simp, intro]: "js_wf m \<Longrightarrow> js_wf (AList.update k v m)"
  by (simp add: js_wf_def distinct_update)

lemma js_wf_delete [simp, intro]: "js_wf m \<Longrightarrow> js_wf (AList.delete k m)"
  by (simp add: js_wf_def distinct_delete)

lemma js_wf_Nil [simp, intro]: "js_wf []"
  by (simp add: js_wf_def)

lemma js_wf_Cons [simp]: "js_wf ((k, v) # m) \<longleftrightarrow> k \<notin> fst ` set m \<and> js_wf m"
  by (simp add: js_wf_def)

lemma js_wf_drop_where [simp, intro]: "js_wf m \<Longrightarrow> js_wf (js_drop_where p m)"
  by (induction m) (auto simp: js_drop_where_def)

lemma map_of_js_drop_where [jsmap_simps]:
  "js_wf m \<Longrightarrow>
   map_of (js_drop_where p m) k =
     (case map_of m k of Some v \<Rightarrow> if p k v then None else Some v | None \<Rightarrow> None)"
proof (induction m)
  case (Cons e m)
  obtain k' v' where e: "e = (k', v')" by force
  have "map_of m k = None" if "k = k'"
    using Cons.prems e that by (simp add: map_of_eq_None_iff)
  then show ?case using Cons e by (auto simp: js_drop_where_def)
qed (simp add: js_drop_where_def)

lemma length_js_drop_where: "length (js_drop_where p m) \<le> length m"
  by (simp add: js_drop_where_def)

lemma length_js_set:
  "length (AList.update k v m) = (if js_has m k then length m else Suc (length m))"
  by (induction m) (auto simp: js_has_def)

lemma length_js_delete_le: "length (AList.delete k m) \<le> length m"
  by (rule length_delete_le)

lemma length_js_delete_has:
  "js_has m k \<Longrightarrow> length (AList.delete k m) < length m"
  by (induction m) (auto simp: js_has_def le_imp_less_Suc length_delete_le split: if_splits)

lemma js_has_set [simp]: "js_has (AList.update k v m) k' \<longleftrightarrow> k' = k \<or> js_has m k'"
  by (simp add: js_has_def)

lemma js_has_delete [simp]: "js_has (AList.delete k m) k' \<longleftrightarrow> k' \<noteq> k \<and> js_has m k'"
  by (simp add: js_has_def)

lemma js_has_in_keys: "js_has m k \<longleftrightarrow> k \<in> fst ` set m"
  by (auto simp: js_has_def map_of_eq_None_iff)

lemma set_js_set_subset:
  "e \<in> set (AList.update k v m) \<Longrightarrow> e = (k, v) \<or> e \<in> set m"
  by (induction m) (auto split: if_splits)

lemma set_js_delete_subset: "e \<in> set (AList.delete k m) \<Longrightarrow> e \<in> set m"
  by (simp add: AList.delete_eq)

lemma map_of_in_set: "map_of m k = Some v \<Longrightarrow> (k, v) \<in> set m"
  by (rule map_of_SomeD)

text \<open>
  The contract of a keyed store: what the components that keep a \<open>Map\<close> rely on. Its facts
  hold of any number of writes.
\<close>

locale keyed_store =
  fixes get :: "'m \<Rightarrow> 'k \<Rightarrow> 'v option"
    and put :: "'k \<Rightarrow> 'v \<Rightarrow> 'm \<Rightarrow> 'm"
    and del :: "'k \<Rightarrow> 'm \<Rightarrow> 'm"
    and wf :: "'m \<Rightarrow> bool"
  assumes get_put: "wf m \<Longrightarrow> get (put k v m) k' = (if k' = k then Some v else get m k')"
    and get_del: "wf m \<Longrightarrow> get (del k m) k' = (if k' = k then None else get m k')"
    and wf_put: "wf m \<Longrightarrow> wf (put k v m)"
    and wf_del: "wf m \<Longrightarrow> wf (del k m)"
begin

lemma wf_put_all: "wf m \<Longrightarrow> wf (foldl (\<lambda>s (k, v). put k v s) m kvs)"
  by (induction kvs arbitrary: m) (auto simp: wf_put)

lemma get_put_all_other:
  "wf m \<Longrightarrow> k \<notin> fst ` set kvs \<Longrightarrow> get (foldl (\<lambda>s (k, v). put k v s) m kvs) k = get m k"
proof (induction kvs arbitrary: m)
  case (Cons e kvs)
  obtain a b where e: "e = (a, b)" by force
  from Cons.prems e have "wf (put a b m)" "k \<notin> fst ` set kvs" "k \<noteq> a"
    by (auto simp: wf_put)
  then show ?case using Cons.IH [of "put a b m"] Cons.prems(1) e by (simp add: get_put)
qed simp

lemma get_put_all:
  "wf m \<Longrightarrow> distinct (map fst kvs) \<Longrightarrow> (k, v) \<in> set kvs \<Longrightarrow>
   get (foldl (\<lambda>s (k, v). put k v s) m kvs) k = Some v"
proof (induction kvs arbitrary: m)
  case (Cons e kvs)
  obtain a b where e: "e = (a, b)" by force
  have w: "wf (put a b m)" using Cons.prems(1) by (rule wf_put)
  show ?case
  proof (cases "(k, v) = (a, b)")
    case True
    then have "k \<notin> fst ` set kvs" using Cons.prems(2) e by auto
    then show ?thesis using get_put_all_other [OF w] True Cons.prems(1) e by (simp add: get_put)
  next
    case False
    then show ?thesis using Cons.IH [OF w] Cons.prems e by auto
  qed
qed simp

end

interpretation js: keyed_store map_of AList.update AList.delete js_wf
  by unfold_locales auto

text \<open>
  A component that answers events: if every event keeps its invariant, every run keeps it.
\<close>

locale stepper =
  fixes step :: "'s \<Rightarrow> 'e \<Rightarrow> 's"
    and inv :: "'s \<Rightarrow> bool"
  assumes inv_step: "inv s \<Longrightarrow> inv (step s e)"
begin

lemma inv_run: "inv s \<Longrightarrow> inv (foldl step s es)"
  by (induction es arbitrary: s) (auto intro: inv_step)

lemma inv_prefix: "inv s \<Longrightarrow> inv (foldl step s (take n es))"
  by (rule inv_run)

end

subsection \<open>Sums over the values of a map\<close>

definition js_sum :: "('v \<Rightarrow> 'a::cancel_comm_monoid_add) \<Rightarrow> ('k, 'v) jsmap \<Rightarrow> 'a" where
  "js_sum f m = sum_list (map (\<lambda>(k, v). f v) m)"

lemma js_sum_simps [simp]:
  "js_sum f [] = 0" "js_sum f ((k, v) # m) = f v + js_sum f m" "js_sum f (m @ m') = js_sum f m + js_sum f m'"
  by (simp_all add: js_sum_def)

lemma js_sum_new: "\<not> js_has m k \<Longrightarrow> js_sum f (AList.update k v m) = js_sum f m + f v"
proof (induction m)
  case (Cons e m)
  obtain a b where "e = (a, b)" by force
  then show ?case using Cons by (auto simp: js_has_def add.assoc split: if_splits)
qed simp

lemma js_sum_set:
  "map_of m k = Some v \<Longrightarrow> js_sum f (AList.update k v' m) + f v = js_sum f m + f v'"
proof (induction m)
  case (Cons e m)
  obtain a b where e: "e = (a, b)" by force
  show ?case
  proof (cases "a = k")
    case True
    then show ?thesis using Cons.prems e by (simp add: ac_simps)
  next
    case False
    then have "js_sum f (AList.update k v' m) + f v = js_sum f m + f v'" using Cons e by simp
    then show ?thesis using False e by (simp add: add.assoc)
  qed
qed simp

lemma js_sum_delete:
  "js_wf m \<Longrightarrow> map_of m k = Some v \<Longrightarrow> js_sum f (AList.delete k m) + f v = js_sum f m"
proof (induction m)
  case (Cons e m)
  obtain a b where e: "e = (a, b)" by force
  show ?case
  proof (cases "a = k")
    case True
    then have "AList.delete k m = m" using Cons.prems e by (simp add: delete_idem)
    then show ?thesis using True Cons.prems e by (simp add: ac_simps)
  next
    case False
    then have "js_sum f (AList.delete k m) + f v = js_sum f m" using Cons e by simp
    then show ?thesis using False e by (simp add: add.assoc)
  qed
qed simp

lemma js_sum_zero: "(\<And>k v. (k, v) \<in> set m \<Longrightarrow> f v = 0) \<Longrightarrow> js_sum f m = 0"
  by (induction m) force+

subsection \<open>Text\<close>

lemma js_includes_iff: "js_includes s pat \<longleftrightarrow> (\<exists>a b. s = a @ pat @ b)"
proof (induction s)
  case (Cons c s)
  show ?case
  proof
    assume "js_includes (c # s) pat"
    then consider "prefix pat (c # s)" | "js_includes s pat" by auto
    then show "\<exists>a b. c # s = a @ pat @ b"
    proof cases
      case 1
      then obtain b where "c # s = [] @ pat @ b" by (auto simp: prefix_def)
      then show ?thesis by blast
    next
      case 2
      then obtain a b where "s = a @ pat @ b" using Cons by blast
      then have "c # s = (c # a) @ pat @ b" by simp
      then show ?thesis by blast
    qed
  next
    assume "\<exists>a b. c # s = a @ pat @ b"
    then obtain a b where ab: "c # s = a @ pat @ b" by blast
    show "js_includes (c # s) pat"
    proof (cases a)
      case Nil
      then have "prefix pat (c # s)" using ab by simp
      then show ?thesis by simp
    next
      case (Cons d a')
      then have "s = a' @ pat @ b" using ab by simp
      then show ?thesis using \<open>js_includes s pat \<longleftrightarrow> _\<close> by auto
    qed
  qed
qed auto

lemma js_includes_append [text_simps]: "js_includes s pat \<Longrightarrow> js_includes (a @ s @ b) pat"
  by (metis append.assoc js_includes_iff)

lemma js_index_of_None: "js_index_of s pat = None \<longleftrightarrow> \<not> js_includes s pat"
  by (induction s) auto

lemma last_char_index_None [text_simps]: "last_char_index d s = None \<longleftrightarrow> d \<notin> set s"
  by (induction s) (auto split: option.splits)

lemma last_char_index_snoc [text_simps]:
  "d \<notin> set b \<Longrightarrow> last_char_index d (a @ d # b) = Some (length a)"
proof (induction a)
  case Nil
  then have "last_char_index d b = None" by (simp add: last_char_index_None)
  then show ?case by simp
qed auto

lemma js_index_of_first [text_simps]:
  "c \<notin> set a \<Longrightarrow> js_index_of (a @ c # b) [c] = Some (length a)"
  by (induction a) auto

lemma show_nat_nonempty: "show_nat n \<noteq> []"
  by (subst show_nat.simps) simp

lemma length_filter_lt: "x \<in> set xs \<Longrightarrow> \<not> P x \<Longrightarrow> length (filter P xs) < length xs"
  by (simp add: length_filter_less)

end
