(* ===== verification/Errors.thy ===== *)
theory Errors
  imports Prelude
begin

text \<open>
  The structured errors of the reliability layer and the profile that configures it:
  \<open>src/src/reliability/errors.ts\<close> and \<open>src/src/reliability/profile.ts\<close>.

  A thrown value is one of the four error classes of the layer, another \<open>Error\<close> instance
  (\<open>PlainError\<close>, with the \<open>code\<close> field Node and SDK errors carry), a non-\<open>Error\<close> object, or a
  primitive (\<open>Primitive\<close>, with the text \<open>String(x)\<close> gives).
\<close>

named_theorems error_simps "classification of thrown values"

datatype error_code = CodeString string | CodeNumber int

datatype thrown =
    MCPToolError string string string thrown
  | TimeoutError string string int int
  | RetryExhaustedError string string int thrown
  | CircuitOpenError string string int
  | PlainError string "error_code option"
  | ObjectValue "error_code option"
  | Primitive string

fun is_error_instance :: "thrown \<Rightarrow> bool" where
  "is_error_instance (ObjectValue _) = False"
| "is_error_instance (Primitive _) = False"
| "is_error_instance _ = True"

definition tool_tag :: "string \<Rightarrow> string \<Rightarrow> string" where
  "tool_tag server tool = ''['' @ server @ ''.'' @ tool @ '']''"

text \<open>The \<open>message\<close> of an \<open>Error\<close>, and \<open>String(x)\<close> for the rest.\<close>

fun err_message :: "thrown \<Rightarrow> string" where
  "err_message (MCPToolError code server tool _) = tool_tag server tool @ '' '' @ code"
| "err_message (TimeoutError server tool ms attempts) =
     tool_tag server tool @ '' timed out after '' @ show_int ms @ ''ms (attempt ''
       @ show_int attempts @ '')''"
| "err_message (RetryExhaustedError server tool attempts lastErr) =
     tool_tag server tool @ '' exhausted '' @ show_int attempts @ '' attempt(s): ''
       @ err_message lastErr"
| "err_message (CircuitOpenError server tool _) =
     tool_tag server tool @ '' circuit open '' @ [CHR 0x97] @ '' failing fast''"
| "err_message (PlainError msg _) = msg"
| "err_message (ObjectValue _) = ''[object Object]''"
| "err_message (Primitive s) = s"

definition code_text :: "error_code \<Rightarrow> string" where
  "code_text c = (case c of CodeString s \<Rightarrow> s | CodeNumber n \<Rightarrow> show_int n)"

fun extractErrorCode :: "thrown \<Rightarrow> string" where
  "extractErrorCode (MCPToolError code _ _ _) = code"
| "extractErrorCode (TimeoutError _ _ _ _) = ''TIMEOUT''"
| "extractErrorCode (CircuitOpenError _ _ _) = ''CIRCUIT_OPEN''"
| "extractErrorCode (RetryExhaustedError _ _ _ _) = ''RETRY_EXHAUSTED''"
| "extractErrorCode (PlainError msg code) =
     (case code of
        Some c \<Rightarrow> code_text c
      | None \<Rightarrow> (if msg = [] then ''ERROR'' else msg))"
| "extractErrorCode (ObjectValue code) =
     (case code of Some c \<Rightarrow> code_text c | None \<Rightarrow> ''UNKNOWN'')"
| "extractErrorCode (Primitive _) = ''UNKNOWN''"

definition retryable_words :: "string list" where
  "retryable_words =
     [''network'', ''econnreset'', ''enotfound'', ''etimedout'', ''socket'', ''timeout'',
      ''econnrefused'']"

definition isRetryable :: "thrown \<Rightarrow> bool" where
  "isRetryable err =
     (case err of
        CircuitOpenError _ _ _ \<Rightarrow> False
      | MCPToolError _ _ _ _ \<Rightarrow> False
      | TimeoutError _ _ _ _ \<Rightarrow> True
      | _ \<Rightarrow>
          (if is_error_instance err
           then (let msg = js_lower (err_message err)
                 in \<exists>w \<in> set retryable_words. js_includes msg w)
           else False))"

subsection \<open>Profiles\<close>

text \<open>A \<open>Required<ReliabilityProfile>\<close>, and the overrides of a \<open>ReliabilityProfile\<close>.\<close>

record profile =
  timeoutMs :: int
  retries :: int
  retryDelayMs :: int
  retryMaxDelayMs :: int
  circuitBreakerThreshold :: rat
  circuitBreakerWindowMs :: int
  circuitBreakerMinCalls :: int
  halfOpenProbeIntervalMs :: int

record profile_override =
  oTimeoutMs :: "int option"
  oRetries :: "int option"
  oRetryDelayMs :: "int option"
  oRetryMaxDelayMs :: "int option"
  oThreshold :: "rat option"
  oWindowMs :: "int option"
  oMinCalls :: "int option"
  oHalfOpenMs :: "int option"

definition DEFAULT_PROFILE :: profile where
  "DEFAULT_PROFILE =
     \<lparr>timeoutMs = 10000, retries = 2, retryDelayMs = 100, retryMaxDelayMs = 5000,
      circuitBreakerThreshold = 1 / 2, circuitBreakerWindowMs = 60000,
      circuitBreakerMinCalls = 10, halfOpenProbeIntervalMs = 30000\<rparr>"

definition resolveProfile :: "profile_override option \<Rightarrow> profile \<Rightarrow> profile" where
  "resolveProfile ovr base =
     (case ovr of
        None \<Rightarrow> base
      | Some p \<Rightarrow>
          \<lparr>timeoutMs = nullish (oTimeoutMs p) (timeoutMs base),
           retries = nullish (oRetries p) (retries base),
           retryDelayMs = nullish (oRetryDelayMs p) (retryDelayMs base),
           retryMaxDelayMs = nullish (oRetryMaxDelayMs p) (retryMaxDelayMs base),
           circuitBreakerThreshold = nullish (oThreshold p) (circuitBreakerThreshold base),
           circuitBreakerWindowMs = nullish (oWindowMs p) (circuitBreakerWindowMs base),
           circuitBreakerMinCalls = nullish (oMinCalls p) (circuitBreakerMinCalls base),
           halfOpenProbeIntervalMs = nullish (oHalfOpenMs p) (halfOpenProbeIntervalMs base)\<rparr>)"

definition MUTATION_SUFFIXES :: "string list" where
  "MUTATION_SUFFIXES = [''_create'', ''_update'', ''_delete'', ''_remove'', ''_write'']"

definition isMutation :: "string \<Rightarrow> bool" where
  "isMutation toolName = list_ex (\<lambda>p. suffix p toolName) MUTATION_SUFFIXES"

definition applyMutationDefault :: "string \<Rightarrow> profile \<Rightarrow> bool \<Rightarrow> profile" where
  "applyMutationDefault toolName p explicitRetries =
     (if isMutation toolName \<and> \<not> explicitRetries then p\<lparr>retries := 0\<rparr> else p)"

subsection \<open>Facts\<close>

lemma isRetryable_not_final [error_simps, simp]:
  "\<not> isRetryable (CircuitOpenError s t n)" "\<not> isRetryable (MCPToolError c s t u)"
  by (simp_all add: isRetryable_def)

lemma isRetryable_timeout [error_simps, simp]: "isRetryable (TimeoutError s t ms n)"
  by (simp add: isRetryable_def)

lemma isRetryable_is_error: "isRetryable e \<Longrightarrow> is_error_instance e"
  by (cases e) (auto simp: isRetryable_def)

lemma retries_applyMutationDefault:
  "retries (applyMutationDefault t p ex) = (if isMutation t \<and> \<not> ex then 0 else retries p)"
  by (simp add: applyMutationDefault_def)

lemma breaker_fields_applyMutationDefault [simp]:
  "timeoutMs (applyMutationDefault t p ex) = timeoutMs p"
  "retryDelayMs (applyMutationDefault t p ex) = retryDelayMs p"
  "retryMaxDelayMs (applyMutationDefault t p ex) = retryMaxDelayMs p"
  by (simp_all add: applyMutationDefault_def)

end
