(* ===== verification/Retry.thy ===== *)
theory Retry
  imports Errors
begin

text \<open>
  Deadlines and retries: \<open>src/src/reliability/timeout.ts\<close> and \<open>src/src/reliability/retry.ts\<close>.

  What the wrapped call does is an argument: the behaviour of attempt \<open>k\<close> is
  \<open>fn k\<close>, either settling after some milliseconds with a value or a thrown value, or
  never settling. A call that settles at the deadline or later loses the race.
\<close>

datatype 'a reply = Settles int "thrown + 'a" | Hangs

definition withTimeout :: "'a reply \<Rightarrow> int \<Rightarrow> string \<Rightarrow> string \<Rightarrow> int \<Rightarrow> thrown + 'a" where
  "withTimeout r deadline server tool attempt =
     (case r of
        Settles d res \<Rightarrow>
          (if d < deadline then res else Inl (TimeoutError server tool deadline attempt))
      | Hangs \<Rightarrow> Inl (TimeoutError server tool deadline attempt))"

record retry_options =
  optRetries :: int
  optDelayMs :: int
  optMaxDelayMs :: int
  optServer :: string
  optTool :: string

text \<open>What a run of \<open>withRetry\<close> did: its outcome, how often it called \<open>fn\<close>, and the delays
  it slept, in order.\<close>

record 'a retry_run =
  outcome :: "thrown + 'a"
  attempts :: nat
  sleeps :: "int list"

function retry_loop ::
  "(nat \<Rightarrow> thrown + 'a) \<Rightarrow> retry_options \<Rightarrow> int \<Rightarrow> int \<Rightarrow> thrown \<Rightarrow> int list \<Rightarrow> 'a retry_run" where
  "retry_loop fn opts attempt delay lastErr slept =
     (let maxAttempts = optRetries opts + 1 in
      if attempt \<le> maxAttempts then
        (case fn (nat attempt) of
           Inr v \<Rightarrow> \<lparr>outcome = Inr v, attempts = nat attempt, sleeps = slept\<rparr>
         | Inl err \<Rightarrow>
             if \<not> isRetryable err
             then \<lparr>outcome = Inl err, attempts = nat attempt, sleeps = slept\<rparr>
             else if attempt = maxAttempts
             then \<lparr>outcome = Inl (RetryExhaustedError (optServer opts) (optTool opts) maxAttempts err),
                   attempts = nat attempt, sleeps = slept\<rparr>
             else retry_loop fn opts (attempt + 1) (min (delay * 2) (optMaxDelayMs opts)) err
                    (slept @ [delay]))
      else \<lparr>outcome = Inl (RetryExhaustedError (optServer opts) (optTool opts) maxAttempts lastErr),
            attempts = nat (attempt - 1), sleeps = slept\<rparr>)"
  by pat_completeness auto
termination
  by (relation "measure (\<lambda>(fn, opts, attempt, _, _, _). nat (optRetries opts + 2 - attempt))") auto

declare retry_loop.simps [simp del]

definition withRetry :: "(nat \<Rightarrow> thrown + 'a) \<Rightarrow> retry_options \<Rightarrow> 'a retry_run" where
  "withRetry fn opts = retry_loop fn opts 1 (optDelayMs opts) (Primitive ''undefined'') []"

text \<open>The delay before retry \<open>i\<close> (the first is 0): doubling, under the ceiling from the second on.\<close>

fun backoff :: "int \<Rightarrow> int \<Rightarrow> nat \<Rightarrow> int" where
  "backoff d ceil 0 = d"
| "backoff d ceil (Suc i) = min (backoff d ceil i * 2) ceil"

text \<open>
  The specification: the attempt that decides is the first whose reply is a value or a thrown
  value that is not retryable, if it is among the \<open>retries + 1\<close> allowed.
\<close>

definition retried :: "(nat \<Rightarrow> thrown + 'a) \<Rightarrow> nat \<Rightarrow> bool" where
  "retried fn k = (case fn k of Inl err \<Rightarrow> isRetryable err | Inr _ \<Rightarrow> False)"

definition settled_by :: "(nat \<Rightarrow> thrown + 'a) \<Rightarrow> nat \<Rightarrow> bool" where
  "settled_by fn k = (\<forall>j \<in> {1..<k}. retried fn j)"

definition spec_outcome :: "(nat \<Rightarrow> thrown + 'a) \<Rightarrow> retry_options \<Rightarrow> nat \<Rightarrow> thrown + 'a" where
  "spec_outcome fn opts k =
     (case fn k of
        Inr v \<Rightarrow> Inr v
      | Inl err \<Rightarrow>
          (if isRetryable err
           then Inl (RetryExhaustedError (optServer opts) (optTool opts) (optRetries opts + 1) err)
           else Inl err))"

subsection \<open>Facts\<close>

lemma withTimeout_cases:
  "withTimeout r deadline s t n = Inl (TimeoutError s t deadline n)
   \<or> (\<exists>d. d < deadline \<and> r = Settles d (withTimeout r deadline s t n))"
  by (cases r) (auto simp: withTimeout_def)

lemma backoff_le: "d \<le> ceil \<Longrightarrow> backoff d ceil i \<le> ceil"
  by (cases i) auto

lemma backoff_ge: "0 \<le> d \<Longrightarrow> d \<le> ceil \<Longrightarrow> d \<le> backoff d ceil i"
  by (induction i) auto

lemma retry_loop_stop:
  assumes "int a \<le> optRetries opts + 1" "\<not> retried fn a \<or> int a = optRetries opts + 1"
  shows "retry_loop fn opts (int a) dl le slept
         = \<lparr>outcome = spec_outcome fn opts a, attempts = a, sleeps = slept\<rparr>"
proof (cases "fn a")
  case (Inr v)
  then show ?thesis
    using assms(1) by (subst retry_loop.simps) (simp add: spec_outcome_def)
next
  case (Inl err)
  then have "isRetryable err \<Longrightarrow> optRetries opts = int a - 1"
    using assms(2) by (auto simp: retried_def)
  then show ?thesis
    using assms(1) Inl
    by (cases "isRetryable err"; subst retry_loop.simps; simp add: spec_outcome_def)
qed

lemma retry_loop_again:
  assumes "int a < optRetries opts + 1" "fn a = Inl err" "isRetryable err"
  shows "retry_loop fn opts (int a) dl le slept
         = retry_loop fn opts (int (Suc a)) (min (dl * 2) (optMaxDelayMs opts)) err (slept @ [dl])"
  using assms by (subst retry_loop.simps) (simp add: add.commute)

lemma retry_loop_spec:
  assumes "1 \<le> a" "int a \<le> optRetries opts + 1" "settled_by fn a"
    "slept = map (backoff d (optMaxDelayMs opts)) [0..<a - 1]"
  shows "\<exists>k\<ge>a. int k \<le> optRetries opts + 1 \<and> settled_by fn k
           \<and> (retried fn k \<longrightarrow> int k = optRetries opts + 1)
           \<and> retry_loop fn opts (int a) (backoff d (optMaxDelayMs opts) (a - 1)) le slept
             = \<lparr>outcome = spec_outcome fn opts k, attempts = k,
                sleeps = map (backoff d (optMaxDelayMs opts)) [0..<k - 1]\<rparr>"
  using assms
proof (induction "nat (optRetries opts + 1) - a" arbitrary: a le slept)
  case 0
  then have a: "int a = optRetries opts + 1" by linarith
  then have "retry_loop fn opts (int a) (backoff d (optMaxDelayMs opts) (a - 1)) le slept
             = \<lparr>outcome = spec_outcome fn opts a, attempts = a, sleeps = slept\<rparr>"
    by (intro retry_loop_stop) auto
  then show ?case using "0.prems" a by (intro exI [of _ a]) simp
next
  case (Suc n)
  then have lt: "int a < optRetries opts + 1" by linarith
  show ?case
  proof (cases "retried fn a")
    case False
    then show ?thesis using Suc.prems by (intro exI [of _ a]) (simp add: retry_loop_stop)
  next
    case True
    then obtain err where err: "fn a = Inl err" "isRetryable err"
      by (auto simp: retried_def split: sum.splits)
    have set: "settled_by fn (Suc a)"
      using True Suc.prems(3) by (auto simp: settled_by_def less_Suc_eq)
    obtain b where b: "a = Suc b" using Suc.prems(1) by (cases a) auto
    have n: "n = nat (optRetries opts + 1) - Suc a" using Suc.hyps(2) by linarith
    have unf: "retry_loop fn opts (int a) (backoff d (optMaxDelayMs opts) (a - 1)) le slept
          = retry_loop fn opts (int (Suc a)) (backoff d (optMaxDelayMs opts) (Suc a - 1)) err
              (map (backoff d (optMaxDelayMs opts)) [0..<Suc a - 1])"
      using retry_loop_again [where a = a and fn = fn and opts = opts and err = err, OF lt err]
        Suc.prems(4) b by simp
    obtain k where "Suc a \<le> k" "int k \<le> optRetries opts + 1 \<and> settled_by fn k
           \<and> (retried fn k \<longrightarrow> int k = optRetries opts + 1)
           \<and> retry_loop fn opts (int (Suc a)) (backoff d (optMaxDelayMs opts) (Suc a - 1)) err
               (map (backoff d (optMaxDelayMs opts)) [0..<Suc a - 1])
             = \<lparr>outcome = spec_outcome fn opts k, attempts = k,
                sleeps = map (backoff d (optMaxDelayMs opts)) [0..<k - 1]\<rparr>"
      using Suc.hyps(1) [OF n _ _ set refl] lt by auto
    then show ?thesis unfolding unf by (intro exI [of _ k]) simp
  qed
qed

text \<open>Some attempt within the budget decides, and the run is exactly that attempt's.\<close>

lemma withRetry_spec:
  assumes "0 \<le> optRetries opts"
  shows "\<exists>k\<ge>1. int k \<le> optRetries opts + 1 \<and> settled_by fn k
           \<and> (retried fn k \<longrightarrow> int k = optRetries opts + 1)
           \<and> withRetry fn opts
             = \<lparr>outcome = spec_outcome fn opts k, attempts = k,
                sleeps = map (backoff (optDelayMs opts) (optMaxDelayMs opts)) [0..<k - 1]\<rparr>"
  using retry_loop_spec [of 1 opts fn "[]" "optDelayMs opts" "Primitive ''undefined''"] assms
  by (simp add: withRetry_def settled_by_def)

end
