(* ===== verification/Breaker.thy ===== *)
theory Breaker
  imports Errors
begin

text \<open>
  The circuit breaker, \<open>src/src/reliability/breaker.ts\<close>: one record per
  \<open>CircuitBreaker\<close>, one definition per method (the private \<open>_pruneWindow\<close>,
  \<open>_maybeTrip\<close> and \<open>_maybeTransitionToHalfOpen\<close> included), and a step function over
  its methods for the properties of whole runs.
\<close>

datatype circuit_state = Closed | Open | HalfOpen

record call_record =
  ts :: time
  success :: bool

record breaker =
  bState :: circuit_state
  bWindow :: "call_record list"
  bLastTrip :: "time option"
  bProbe :: bool
  bThreshold :: rat
  bWindowMs :: int
  bMinCalls :: int
  bHalfOpenMs :: int
  bServer :: string

record breaker_stats =
  sState :: circuit_state
  sTotalCalls :: nat
  sSuccesses :: nat
  sFailures :: nat
  sLastTrip :: "time option"

definition new_breaker :: "string \<Rightarrow> profile \<Rightarrow> breaker" where
  "new_breaker server p =
     \<lparr>bState = Closed, bWindow = [], bLastTrip = None, bProbe = False,
      bThreshold = circuitBreakerThreshold p, bWindowMs = circuitBreakerWindowMs p,
      bMinCalls = circuitBreakerMinCalls p, bHalfOpenMs = halfOpenProbeIntervalMs p,
      bServer = server\<rparr>"

definition pruneWindow :: "time \<Rightarrow> breaker \<Rightarrow> breaker" where
  "pruneWindow now b =
     (let cutoff = now - bWindowMs b
      in b\<lparr>bWindow := filter (\<lambda>r. ts r \<ge> cutoff) (bWindow b)\<rparr>)"

definition maybeTrip :: "time \<Rightarrow> breaker \<Rightarrow> breaker" where
  "maybeTrip now b =
     (if int (length (bWindow b)) < bMinCalls b then b
      else
        (let failures = length (filter (\<lambda>r. \<not> success r) (bWindow b));
             ratio = of_nat failures / of_nat (length (bWindow b))
         in if ratio > bThreshold b then b\<lparr>bState := Open, bLastTrip := Some now\<rparr> else b))"

definition maybeHalfOpen :: "time \<Rightarrow> breaker \<Rightarrow> breaker" where
  "maybeHalfOpen now b =
     (case (bState b, bLastTrip b) of
        (Open, Some t) \<Rightarrow>
          (if now - t \<ge> bHalfOpenMs b then b\<lparr>bState := HalfOpen, bProbe := False\<rparr> else b)
      | _ \<Rightarrow> b)"

definition getState :: "time \<Rightarrow> breaker \<Rightarrow> circuit_state \<times> breaker" where
  "getState now b = (let b' = maybeHalfOpen now b in (bState b', b'))"

definition allowCall :: "time \<Rightarrow> string \<Rightarrow> breaker \<Rightarrow> (thrown + unit) \<times> breaker" where
  "allowCall now tool b =
     (let b' = maybeHalfOpen now b in
      if bState b' = Open then (Inl (CircuitOpenError (bServer b') tool 0), b')
      else if bState b' = HalfOpen then
        (if bProbe b' then (Inl (CircuitOpenError (bServer b') tool 0), b')
         else (Inr (), b'\<lparr>bProbe := True\<rparr>))
      else (Inr (), b'))"

definition recordSuccess :: "time \<Rightarrow> breaker \<Rightarrow> breaker" where
  "recordSuccess now b =
     (let b1 = pruneWindow now b;
          b2 = b1\<lparr>bWindow := bWindow b1 @ [\<lparr>ts = now, success = True\<rparr>]\<rparr>
      in if bState b2 = HalfOpen
         then b2\<lparr>bProbe := False, bState := Closed, bWindow := []\<rparr>
         else b2)"

definition recordFailure :: "time \<Rightarrow> breaker \<Rightarrow> breaker" where
  "recordFailure now b =
     (let b1 = pruneWindow now b;
          b2 = b1\<lparr>bWindow := bWindow b1 @ [\<lparr>ts = now, success = False\<rparr>]\<rparr>
      in if bState b2 = HalfOpen
         then b2\<lparr>bProbe := False, bState := Open, bLastTrip := Some now\<rparr>
         else if bState b2 = Closed then maybeTrip now b2
         else b2)"

definition resetBreaker :: "breaker \<Rightarrow> breaker" where
  "resetBreaker b = b\<lparr>bState := Closed, bWindow := [], bLastTrip := None, bProbe := False\<rparr>"

definition getStats :: "time \<Rightarrow> breaker \<Rightarrow> breaker_stats \<times> breaker" where
  "getStats now b =
     (let b1 = pruneWindow now b; (st, b2) = getState now b1
      in (\<lparr>sState = st, sTotalCalls = length (bWindow b2),
           sSuccesses = length (filter success (bWindow b1)),
           sFailures = length (filter (\<lambda>r. \<not> success r) (bWindow b1)),
           sLastTrip = bLastTrip b2\<rparr>, b2))"

text \<open>The methods as events of a run, each with the clock it reads.\<close>

datatype breaker_event =
    AllowCall time string
  | Succeeded time
  | Failed time
  | Query time
  | QueryStats time
  | Reset

fun breaker_step :: "breaker \<Rightarrow> breaker_event \<Rightarrow> breaker" where
  "breaker_step b (AllowCall now tool) = snd (allowCall now tool b)"
| "breaker_step b (Succeeded now) = recordSuccess now b"
| "breaker_step b (Failed now) = recordFailure now b"
| "breaker_step b (Query now) = snd (getState now b)"
| "breaker_step b (QueryStats now) = snd (getStats now b)"
| "breaker_step b Reset = resetBreaker b"

text \<open>The probe flag is up only in HALF-OPEN, and a circuit that is not CLOSED knows when it
  tripped, so it always leaves OPEN.\<close>

definition breaker_inv :: "breaker \<Rightarrow> bool" where
  "breaker_inv b \<longleftrightarrow>
     (bProbe b \<longrightarrow> bState b = HalfOpen) \<and> (bState b \<noteq> Closed \<longrightarrow> bLastTrip b \<noteq> None)"

fun is_outcome :: "breaker_event \<Rightarrow> bool" where
  "is_outcome (Succeeded _) = True"
| "is_outcome (Failed _) = True"
| "is_outcome _ = False"

fun is_failure :: "breaker_event \<Rightarrow> bool" where
  "is_failure (Failed _) = True"
| "is_failure _ = False"

text \<open>No manual reset, and the clock has not reached \<open>t\<close>.\<close>

fun before :: "time \<Rightarrow> breaker_event \<Rightarrow> bool" where
  "before t (AllowCall now _) = (now < t)"
| "before t (Succeeded now) = (now < t)"
| "before t (Failed now) = (now < t)"
| "before t (Query now) = (now < t)"
| "before t (QueryStats now) = (now < t)"
| "before t Reset = False"

subsection \<open>Facts\<close>

lemmas breaker_defs = pruneWindow_def maybeTrip_def maybeHalfOpen_def getState_def allowCall_def
  recordSuccess_def recordFailure_def resetBreaker_def getStats_def Let_def

text \<open>The configuration never changes.\<close>

definition same_config :: "breaker \<Rightarrow> breaker \<Rightarrow> bool" where
  "same_config b b' \<longleftrightarrow>
     bThreshold b' = bThreshold b \<and> bWindowMs b' = bWindowMs b \<and> bMinCalls b' = bMinCalls b
     \<and> bHalfOpenMs b' = bHalfOpenMs b \<and> bServer b' = bServer b"

lemma same_config_refl [simp, intro]: "same_config b b"
  by (simp add: same_config_def)

lemma same_config_trans: "same_config a b \<Longrightarrow> same_config b c \<Longrightarrow> same_config a c"
  by (simp add: same_config_def)

lemma same_config_step: "same_config b (breaker_step b e)"
  by (cases e; cases "bState b"; cases "bLastTrip b")
     (simp_all add: same_config_def breaker_defs)

lemma same_config_run: "same_config b (foldl breaker_step b es)"
  by (induction es arbitrary: b) (auto intro: same_config_trans same_config_step)

lemma breaker_inv_step: "breaker_inv b \<Longrightarrow> breaker_inv (breaker_step b e)"
  by (cases e; cases "bState b"; cases "bLastTrip b")
     (simp_all add: breaker_inv_def breaker_defs)

lemma breaker_inv_new: "breaker_inv (new_breaker s p)"
  by (simp add: breaker_inv_def new_breaker_def)

interpretation br: stepper breaker_step breaker_inv
  by unfold_locales (rule breaker_inv_step)

text \<open>OPEN with a known trip time survives every event before the probe interval ends.\<close>

lemma open_step:
  assumes "bState b = Open" "bLastTrip b = Some t" "before (t + bHalfOpenMs b) e"
  shows "bState (breaker_step b e) = Open \<and> bLastTrip (breaker_step b e) = Some t"
  using assms by (cases e) (simp_all add: breaker_defs)

lemma open_run:
  assumes "bState b = Open" "bLastTrip b = Some t"
    "\<forall>e \<in> set es. before (t + bHalfOpenMs b) e"
  shows "bState (foldl breaker_step b es) = Open
         \<and> bLastTrip (foldl breaker_step b es) = Some t"
  using assms
proof (induction es arbitrary: b)
  case (Cons e es)
  have "bHalfOpenMs (breaker_step b e) = bHalfOpenMs b"
    using same_config_step [of b e] by (simp add: same_config_def)
  then show ?case using Cons open_step [of b t e] by simp
qed simp

text \<open>HALF-OPEN with its probe taken survives every event that is not an outcome or a reset.\<close>

lemma probe_step:
  assumes "bState b = HalfOpen" "bProbe b" "\<not> is_outcome e" "e \<noteq> Reset"
  shows "bState (breaker_step b e) = HalfOpen \<and> bProbe (breaker_step b e)"
  using assms by (cases e) (simp_all add: breaker_defs)

lemma probe_run:
  assumes "bState b = HalfOpen" "bProbe b" "\<forall>e \<in> set es. \<not> is_outcome e \<and> e \<noteq> Reset"
  shows "bState (foldl breaker_step b es) = HalfOpen \<and> bProbe (foldl breaker_step b es)"
  using assms by (induction es arbitrary: b) (auto simp: probe_step)

lemma allowCall_open:
  "bState b = Open \<Longrightarrow> bLastTrip b = Some t \<Longrightarrow> now < t + bHalfOpenMs b \<Longrightarrow>
   allowCall now tool b = (Inl (CircuitOpenError (bServer b) tool 0), b)"
  by (simp add: breaker_defs)

lemma allowCall_probe_taken:
  "bState b = HalfOpen \<Longrightarrow> bProbe b \<Longrightarrow>
   allowCall now tool b = (Inl (CircuitOpenError (bServer b) tool 0), b)"
  by (simp add: breaker_defs)

lemma allowCall_closed: "bState b = Closed \<Longrightarrow> allowCall now tool b = (Inr (), b)"
  by (simp add: breaker_defs)

text \<open>A closed breaker counts at most one call in its window per outcome recorded.\<close>

lemma closed_step:
  assumes "bState b = Closed" "length (bWindow b) \<le> n"
    "int (n + (if is_outcome e then 1 else 0)) < bMinCalls b"
  shows "bState (breaker_step b e) = Closed
         \<and> length (bWindow (breaker_step b e)) \<le> n + (if is_outcome e then 1 else 0)"
proof -
  have le: "length (filter P (bWindow b)) \<le> n" for P
    using assms(2) le_trans length_filter_le by blast
  then have "int (length (filter P (bWindow b))) \<le> int n" for P
    by simp
  then have "1 + int n < m \<Longrightarrow> 1 + int (length (filter P (bWindow b))) < m" for P m
    by (meson add_left_mono order.strict_trans1)
  then show ?thesis using assms le
    by (cases e) (simp_all add: breaker_defs)
qed

lemma closed_run:
  assumes "bState b = Closed" "length (bWindow b) \<le> n"
    "int (n + length (filter is_outcome es)) < bMinCalls b"
  shows "bState (foldl breaker_step b es) = Closed"
  using assms
proof (induction es arbitrary: b n)
  case (Cons e es)
  let ?n = "n + (if is_outcome e then 1 else 0)"
  have cfg: "bMinCalls (breaker_step b e) = bMinCalls b"
    using same_config_step [of b e] by (simp add: same_config_def)
  have "int ?n < bMinCalls b" using Cons.prems(3) by (auto split: if_splits)
  from closed_step [OF Cons.prems(1,2) this]
  show ?case using Cons.IH [of "breaker_step b e" ?n] Cons.prems(3) cfg
    by (auto split: if_splits)
qed simp

text \<open>Without failures the window holds successes only, and the ratio is 0.\<close>

lemma good_step:
  assumes "bState b = Closed" "\<forall>r \<in> set (bWindow b). success r" "\<not> is_failure e"
  shows "bState (breaker_step b e) = Closed
         \<and> (\<forall>r \<in> set (bWindow (breaker_step b e)). success r)"
  using assms by (cases e) (simp_all add: breaker_defs)

lemma good_run:
  assumes "bState b = Closed" "\<forall>r \<in> set (bWindow b). success r"
    "\<forall>e \<in> set es. \<not> is_failure e"
  shows "bState (foldl breaker_step b es) = Closed"
  using assms
proof (induction es arbitrary: b)
  case (Cons e es)
  then have "\<not> is_failure e" by simp
  with Cons.prems good_step [of b e]
  have "bState (breaker_step b e) = Closed" "\<forall>r \<in> set (bWindow (breaker_step b e)). success r"
    by blast+
  from Cons.IH [OF this] Cons.prems(3) show ?case by simp
qed simp

subsection \<open>Properties\<close>

text \<open>C1: fast failure. Once the circuit has tripped at \<open>t\<close>, whatever calls, outcomes and
  queries arrive before \<open>t\<close> plus the probe interval (no manual reset), a call in that time is
  rejected with \<open>CircuitOpenError\<close> and the breaker is still OPEN with the same trip time.\<close>

theorem breaker_cooldown:
  assumes "bState b = Open" "bLastTrip b = Some t"
    "\<forall>e \<in> set es. before (t + bHalfOpenMs b) e" "now < t + bHalfOpenMs b"
  shows "fst (allowCall now tool (foldl breaker_step b es))
           = Inl (CircuitOpenError (bServer b) tool 0)
         \<and> bLastTrip (snd (allowCall now tool (foldl breaker_step b es))) = Some t"
proof -
  let ?b = "foldl breaker_step b es"
  have "bHalfOpenMs ?b = bHalfOpenMs b" "bServer ?b = bServer b"
    using same_config_run [of b es] by (simp_all add: same_config_def)
  then show ?thesis using open_run [OF assms(1-3)] assms(4) by (simp add: allowCall_open)
qed

theorem breaker_cooldown_witness:
  "let b = (new_breaker ''s'' DEFAULT_PROFILE)\<lparr>bState := Open, bLastTrip := Some 1000\<rparr>
   in fst (allowCall 30000 ''t'' (foldl breaker_step b [Succeeded 2000, AllowCall 3000 ''u'']))
      = Inl (CircuitOpenError ''s'' ''t'' 0)"
  using breaker_cooldown [of "(new_breaker ''s'' DEFAULT_PROFILE)\<lparr>bState := Open, bLastTrip := Some 1000\<rparr>"
      1000 "[Succeeded 2000, AllowCall 3000 ''u'']" 30000 "''t''"]
  by (simp add: new_breaker_def DEFAULT_PROFILE_def)

text \<open>no trip without evidence. Starting from a new breaker and for any run of calls,
  outcomes, queries and resets, the circuit is CLOSED and admits the next call if fewer than
  \<open>circuitBreakerMinCalls\<close> outcomes were recorded, or if none of them was a failure.\<close>

theorem breaker_needs_evidence:
  assumes "int (length (filter is_outcome es)) < circuitBreakerMinCalls p
           \<or> (\<forall>e \<in> set es. \<not> is_failure e)"
  shows "bState (foldl breaker_step (new_breaker server p) es) = Closed
         \<and> fst (allowCall now tool (foldl breaker_step (new_breaker server p) es)) = Inr ()"
proof -
  have "bState (foldl breaker_step (new_breaker server p) es) = Closed"
    using assms closed_run [of "new_breaker server p" 0 es] good_run [of "new_breaker server p" es]
    by (auto simp: new_breaker_def)
  then show ?thesis by (simp add: allowCall_closed)
qed

theorem breaker_needs_evidence_witness:
  "bState (foldl breaker_step (new_breaker ''s'' DEFAULT_PROFILE) [Failed 1, Failed 2]) = Closed"
  using breaker_needs_evidence [of "[Failed 1, Failed 2]" DEFAULT_PROFILE "''s''"]
  by (simp add: DEFAULT_PROFILE_def)

text \<open>the trip itself. In every reachable CLOSED state a failure recorded at \<open>now\<close> opens the
  circuit exactly when, of the outcomes still inside the rolling window and this one, there are
  at least \<open>circuitBreakerMinCalls\<close> and the failed share exceeds the threshold; when it opens,
  the trip time is \<open>now\<close> and the very next call is rejected (the interval being positive).\<close>

theorem breaker_trip_rule:
  assumes "bState b = Closed" "0 < bHalfOpenMs b"
    and "w = filter (\<lambda>r. now - bWindowMs b \<le> ts r) (bWindow b)"
    and "f = Suc (length (filter (\<lambda>r. \<not> success r) w))" and "n = Suc (length w)"
  shows "(fst (allowCall now tool (recordFailure now b)) = Inr ())
         = (int n < bMinCalls b \<or> of_nat f \<le> bThreshold b * of_nat n)"
proof -
  have "(of_nat f / of_nat n > bThreshold b) = (of_nat f > bThreshold b * of_nat n)"
    using assms(5) by (simp add: less_divide_eq)
  then show ?thesis using assms(1,2,4,5) unfolding assms(3)
    by (auto simp: breaker_defs conj_commute not_less)
qed

theorem breaker_trip_rule_witness:
  "(fst (allowCall 50 ''t'' (recordFailure 50 (new_breaker ''s'' DEFAULT_PROFILE))) = Inr ())
   = (int 1 < 10 \<or> 1 \<le> (1 / 2 :: rat))"
  using breaker_trip_rule [of "new_breaker ''s'' DEFAULT_PROFILE" "[]" 50 1 1 "''t''"]
  by (simp add: new_breaker_def DEFAULT_PROFILE_def)

text \<open>one probe at a time. After HALF-OPEN has admitted a call, and until an outcome is
  recorded or the breaker is reset, every further call is rejected; a recorded success then
  closes the circuit with an empty window, a recorded failure reopens it at that time.\<close>

theorem breaker_single_probe:
  assumes "bState b = HalfOpen" "fst (allowCall t0 probe b) = Inr ()"
    and "\<forall>e \<in> set es. \<not> is_outcome e \<and> e \<noteq> Reset"
    and "b' = foldl breaker_step (snd (allowCall t0 probe b)) es"
  shows "fst (allowCall now tool b') = Inl (CircuitOpenError (bServer b) tool 0)
    \<and> bState (recordSuccess now b') = Closed \<and> bWindow (recordSuccess now b') = []
    \<and> bState (recordFailure now b') = Open \<and> bLastTrip (recordFailure now b') = Some now"
proof -
  have "bState (snd (allowCall t0 probe b)) = HalfOpen \<and> bProbe (snd (allowCall t0 probe b))"
    using assms(1,2) by (auto simp: breaker_defs split: if_splits)
  then have half: "bState b' = HalfOpen \<and> bProbe b'"
    using probe_run [of "snd (allowCall t0 probe b)" es] assms(3,4) by simp
  have "bServer b' = bServer b"
    using same_config_run [of "snd (allowCall t0 probe b)" es]
      same_config_step [of b "AllowCall t0 probe"] assms(4)
    by (simp add: same_config_def)
  then show ?thesis using half by (simp add: allowCall_probe_taken) (simp add: breaker_defs)
qed

theorem breaker_single_probe_witness:
  "let b = (new_breaker ''s'' DEFAULT_PROFILE)\<lparr>bState := HalfOpen, bLastTrip := Some 0\<rparr>
   in fst (allowCall 30002 ''t'' (snd (allowCall 30001 ''p'' b)))
      = Inl (CircuitOpenError ''s'' ''t'' 0)"
  using breaker_single_probe [of "(new_breaker ''s'' DEFAULT_PROFILE)\<lparr>bState := HalfOpen, bLastTrip := Some 0\<rparr>"
      30001 "''p''" "[]" _ 30002 "''t''"]
  by (simp add: new_breaker_def breaker_defs)

text \<open>The probe is not told apart from calls admitted before the trip: when such a call fails
  while a probe is running, the circuit reopens and, an interval later, admits a second probe
  although the first has no outcome yet.\<close>

lemma two_probes_in_flight:
  "let p = DEFAULT_PROFILE\<lparr>circuitBreakerMinCalls := 1\<rparr>;
       b0 = foldl breaker_step (new_breaker ''s'' p)
              [AllowCall 0 ''slow'', AllowCall 0 ''x'', Failed 1];
       (probe1, b1) = allowCall 30001 ''probe1'' b0;
       b2 = recordFailure 30002 b1;
       (probe2, b3) = allowCall 60002 ''probe2'' b2
   in bState b0 = Open \<and> probe1 = Inr () \<and> probe2 = Inr ()"
  by (simp add: new_breaker_def DEFAULT_PROFILE_def breaker_defs)

end
