(* ===== verification/Gateway.thy ===== *)
theory Gateway
  imports Retry Breaker
begin

text \<open>
  The reliability gateway, \<open>src/src/reliability/gateway.ts\<close>: profile resolution, and
  \<open>call\<close> as the code composes it, from the circuit check through the retried attempts to the
  recording of the outcome. The part of \<open>call\<close> before its first suspension is \<open>gw_begin\<close>, each
  entry of \<open>wrappedFn\<close> counts through \<open>gw_attempt\<close>, the part after \<open>withRetry\<close> settles is
  \<open>gw_finish\<close>; \<open>gw_call\<close> composes them for one call, and \<open>gw_step\<close> lets the parts of
  concurrent calls interleave.
\<close>

record mutable_stats =
  mTotalCalls :: int
  mSuccesses :: int
  mFailures :: int
  mTimeouts :: int
  mRetries :: int

record gateway_options =
  gToolLookup :: "(string \<Rightarrow> string \<Rightarrow> profile_override option) option"
  gDefaultProfile :: "profile_override option"
  gServerProfiles :: "(string, profile_override) jsmap"
  gToolProfiles :: "(string, profile_override) jsmap"

record gateway =
  gBreakers :: "(string, breaker) jsmap"
  gStats :: "(string, mutable_stats) jsmap"

definition emptyMutableStats :: mutable_stats where
  "emptyMutableStats =
     \<lparr>mTotalCalls = 0, mSuccesses = 0, mFailures = 0, mTimeouts = 0, mRetries = 0\<rparr>"

definition new_gateway :: gateway where
  "new_gateway = \<lparr>gBreakers = [], gStats = []\<rparr>"

text \<open>\<open>new ReliabilityGateway()\<close> with no options, and with a global default for \<open>retries\<close>.\<close>

definition no_options :: gateway_options where
  "no_options = \<lparr>gToolLookup = None, gDefaultProfile = None, gServerProfiles = [], gToolProfiles = []\<rparr>"

definition only_retries :: "int \<Rightarrow> profile_override" where
  "only_retries n =
     \<lparr>oTimeoutMs = None, oRetries = Some n, oRetryDelayMs = None, oRetryMaxDelayMs = None,
      oThreshold = None, oWindowMs = None, oMinCalls = None, oHalfOpenMs = None\<rparr>"

definition gw_resolveProfile :: "gateway_options \<Rightarrow> string \<Rightarrow> string \<Rightarrow> profile" where
  "gw_resolveProfile opts server tool =
     (let globalBase = resolveProfile (gDefaultProfile opts) DEFAULT_PROFILE;
          serverOverride = map_of (gServerProfiles opts) server;
          afterServer = resolveProfile serverOverride globalBase;
          registryOverride =
            (case gToolLookup opts of Some f \<Rightarrow> f server tool | None \<Rightarrow> None);
          afterRegistry = resolveProfile registryOverride afterServer;
          toolOverride = map_of (gToolProfiles opts) (server @ ''.'' @ tool);
          explicit = resolveProfile toolOverride afterRegistry;
          given = (\<lambda>ovr. case ovr of Some p \<Rightarrow> oRetries p \<noteq> None | None \<Rightarrow> False);
          explicitRetries = (given toolOverride \<or> given registryOverride \<or> given serverOverride)
      in applyMutationDefault tool explicit explicitRetries)"

definition gw_breaker :: "string \<Rightarrow> profile \<Rightarrow> gateway \<Rightarrow> breaker" where
  "gw_breaker server p g =
     (case map_of (gBreakers g) server of Some b \<Rightarrow> b | None \<Rightarrow> new_breaker server p)"

definition gw_accumulator :: "string \<Rightarrow> gateway \<Rightarrow> mutable_stats" where
  "gw_accumulator server g =
     (case map_of (gStats g) server of Some a \<Rightarrow> a | None \<Rightarrow> emptyMutableStats)"

definition gw_put :: "string \<Rightarrow> breaker \<Rightarrow> mutable_stats \<Rightarrow> gateway \<Rightarrow> gateway" where
  "gw_put server b a g =
     g\<lparr>gBreakers := AList.update server b (gBreakers g),
       gStats := AList.update server a (gStats g)\<rparr>"

definition gw_begin ::
  "gateway_options \<Rightarrow> time \<Rightarrow> string \<Rightarrow> string \<Rightarrow> gateway \<Rightarrow> (thrown + profile) \<times> gateway" where
  "gw_begin opts now server tool g =
     (let p = gw_resolveProfile opts server tool;
          acc = gw_accumulator server g;
          acc' = acc\<lparr>mTotalCalls := mTotalCalls acc + 1\<rparr>;
          (verdict, b) = allowCall now tool (gw_breaker server p g)
      in (case verdict of Inl e \<Rightarrow> Inl e | Inr _ \<Rightarrow> Inr p, gw_put server b acc' g))"

definition gw_attempt :: "string \<Rightarrow> nat \<Rightarrow> gateway \<Rightarrow> gateway" where
  "gw_attempt server attempt g =
     (if attempt > 1 then
        (let acc = gw_accumulator server g
         in g\<lparr>gStats := AList.update server (acc\<lparr>mRetries := mRetries acc + 1\<rparr>) (gStats g)\<rparr>)
      else g)"

definition surfaced :: "thrown \<Rightarrow> thrown" where
  "surfaced err =
     (case err of
        RetryExhaustedError _ _ n lastErr \<Rightarrow>
          (if n = 1 \<and> is_error_instance lastErr then lastErr else err)
      | _ \<Rightarrow> err)"

fun counts_as_timeout :: "thrown \<Rightarrow> bool" where
  "counts_as_timeout (TimeoutError _ _ _ _) = True"
| "counts_as_timeout (RetryExhaustedError _ _ _ (TimeoutError _ _ _ _)) = True"
| "counts_as_timeout _ = False"

definition gw_finish ::
  "time \<Rightarrow> string \<Rightarrow> profile \<Rightarrow> thrown + 'a \<Rightarrow> gateway \<Rightarrow> (thrown + 'a) \<times> gateway" where
  "gw_finish now server p res g =
     (let b = gw_breaker server p g; acc = gw_accumulator server g in
      case res of
        Inr v \<Rightarrow>
          (Inr v, gw_put server (recordSuccess now b) (acc\<lparr>mSuccesses := mSuccesses acc + 1\<rparr>) g)
      | Inl err \<Rightarrow>
          (Inl (surfaced err),
           gw_put server (recordFailure now b)
             (acc\<lparr>mFailures := mFailures acc + 1,
                  mTimeouts := mTimeouts acc + (if counts_as_timeout err then 1 else 0)\<rparr>) g))"

definition gw_attempts ::
  "profile \<Rightarrow> string \<Rightarrow> string \<Rightarrow> (nat \<Rightarrow> 'a reply) \<Rightarrow> 'a retry_run" where
  "gw_attempts p server tool backend =
     withRetry (\<lambda>k. withTimeout (backend k) (timeoutMs p) server tool (int k))
       \<lparr>optRetries = retries p, optDelayMs = retryDelayMs p, optMaxDelayMs = retryMaxDelayMs p,
        optServer = server, optTool = tool\<rparr>"

text \<open>One call: what it returns or throws, how often it called the backend, the state after.\<close>

definition gw_call ::
  "gateway_options \<Rightarrow> time \<Rightarrow> time \<Rightarrow> string \<Rightarrow> string \<Rightarrow> (nat \<Rightarrow> 'a reply) \<Rightarrow> gateway \<Rightarrow>
   (thrown + 'a) \<times> nat \<times> gateway" where
  "gw_call opts t0 t1 server tool backend g =
     (case gw_begin opts t0 server tool g of
        (Inl e, g1) \<Rightarrow> (Inl e, 0, g1)
      | (Inr p, g1) \<Rightarrow>
          (let run = gw_attempts p server tool backend;
               g2 = foldl (\<lambda>s k. gw_attempt server k s) g1 [1..<Suc (attempts run)];
               (res, g3) = gw_finish t1 server p (outcome run) g2
           in (res, attempts run, g3)))"

definition gw_getCircuitState :: "time \<Rightarrow> string \<Rightarrow> gateway \<Rightarrow> circuit_state \<times> gateway" where
  "gw_getCircuitState now server g =
     (case map_of (gBreakers g) server of
        None \<Rightarrow> (Closed, g)
      | Some b \<Rightarrow>
          (let (st, b') = getState now b
           in (st, g\<lparr>gBreakers := AList.update server b' (gBreakers g)\<rparr>)))"

definition gw_resetCircuit :: "string \<Rightarrow> gateway \<Rightarrow> gateway" where
  "gw_resetCircuit server g =
     (case map_of (gBreakers g) server of
        None \<Rightarrow> g
      | Some b \<Rightarrow> g\<lparr>gBreakers := AList.update server (resetBreaker b) (gBreakers g)\<rparr>)"

record server_stats =
  rTotalCalls :: int
  rSuccesses :: int
  rFailures :: int
  rTimeouts :: int
  rRetries :: int
  rCircuitState :: circuit_state
  rLastTrip :: "time option"

definition gw_server_stats :: "time \<Rightarrow> gateway \<Rightarrow> string \<Rightarrow> mutable_stats \<Rightarrow> server_stats" where
  "gw_server_stats now g server acc =
     (let bs = map_option (\<lambda>b. fst (getStats now b)) (map_of (gBreakers g) server)
      in \<lparr>rTotalCalls = mTotalCalls acc, rSuccesses = mSuccesses acc, rFailures = mFailures acc,
          rTimeouts = mTimeouts acc, rRetries = mRetries acc,
          rCircuitState = (case bs of Some s \<Rightarrow> sState s | None \<Rightarrow> Closed),
          rLastTrip = (case bs of Some s \<Rightarrow> sLastTrip s | None \<Rightarrow> None)\<rparr>)"

definition gw_getStats :: "time \<Rightarrow> gateway \<Rightarrow> (string, server_stats) jsmap \<times> gateway" where
  "gw_getStats now g =
     (map (\<lambda>(server, acc). (server, gw_server_stats now g server acc)) (gStats g),
      g\<lparr>gBreakers := map (\<lambda>(server, b).
           (server, if js_has (gStats g) server then snd (getStats now b) else b)) (gBreakers g)\<rparr>)"

text \<open>
  Concurrent calls: any interleaving of the parts of calls. With the gateway travel two
  counts per server, of calls admitted and not finished and of calls rejected; a finish or an
  attempt without an admitted call does not happen.
\<close>

datatype 'a gw_event =
    Begin time string string
  | Attempt string nat
  | Finish time string profile "thrown + 'a"
  | GetState time string
  | GetStats time
  | ResetCircuit string

type_synonym gw_world = "gateway \<times> (string \<Rightarrow> int) \<times> (string \<Rightarrow> int)"

fun gw_step :: "gateway_options \<Rightarrow> gw_world \<Rightarrow> 'a gw_event \<Rightarrow> gw_world" where
  "gw_step opts (g, fl, rej) (Begin now server tool) =
     (case gw_begin opts now server tool g of
        (Inl _, g') \<Rightarrow> (g', fl, rej(server := rej server + 1))
      | (Inr _, g') \<Rightarrow> (g', fl(server := fl server + 1), rej))"
| "gw_step opts (g, fl, rej) (Attempt server k) =
     (if fl server > 0 then (gw_attempt server k g, fl, rej) else (g, fl, rej))"
| "gw_step opts (g, fl, rej) (Finish now server p res) =
     (if fl server > 0
      then (snd (gw_finish now server p res g), fl(server := fl server - 1), rej)
      else (g, fl, rej))"
| "gw_step opts (g, fl, rej) (GetState now server) =
     (snd (gw_getCircuitState now server g), fl, rej)"
| "gw_step opts (g, fl, rej) (GetStats now) = (snd (gw_getStats now g), fl, rej)"
| "gw_step opts (g, fl, rej) (ResetCircuit server) = (gw_resetCircuit server g, fl, rej)"

definition gw_balanced :: "gw_world \<Rightarrow> bool" where
  "gw_balanced w =
     (case w of (g, fl, rej) \<Rightarrow>
        \<forall>server. let a = gw_accumulator server g in
          mTotalCalls a = mSuccesses a + mFailures a + fl server + rej server
          \<and> 0 \<le> fl server \<and> 0 \<le> mTimeouts a \<and> mTimeouts a \<le> mFailures a)"

subsection \<open>Facts\<close>

lemma gw_accumulator_put [simp]:
  "gw_accumulator s (gw_put server b a g) = (if s = server then a else gw_accumulator s g)"
  by (simp add: gw_accumulator_def gw_put_def)

lemma gw_breaker_put [simp]:
  "gw_breaker s p (gw_put server b a g) = (if s = server then b else gw_breaker s p g)"
  by (simp add: gw_breaker_def gw_put_def)

lemma gw_accumulator_attempt:
  "gw_accumulator s (gw_attempt server k g) =
     (let a = gw_accumulator s g
      in if s = server \<and> k > 1 then a\<lparr>mRetries := mRetries a + 1\<rparr> else a)"
  by (simp add: gw_accumulator_def gw_attempt_def Let_def)

lemma gw_accumulator_observers [simp]:
  "gw_accumulator s (snd (gw_getCircuitState now server g)) = gw_accumulator s g"
  "gw_accumulator s (snd (gw_getStats now g)) = gw_accumulator s g"
  "gw_accumulator s (gw_resetCircuit server g) = gw_accumulator s g"
  by (auto simp: gw_accumulator_def gw_getCircuitState_def gw_getStats_def gw_resetCircuit_def
      split: option.splits prod.splits)

lemma gw_accumulator_begin:
  "gw_accumulator s (snd (gw_begin opts now server tool g)) =
     (let a = gw_accumulator s g
      in if s = server then a\<lparr>mTotalCalls := mTotalCalls a + 1\<rparr> else a)"
  by (auto simp: gw_begin_def Let_def split: prod.splits)

lemma gw_accumulator_finish:
  "gw_accumulator s (snd (gw_finish now server p res g)) =
     (let a = gw_accumulator s g in
      if s = server then
        (case res of
           Inr _ \<Rightarrow> a\<lparr>mSuccesses := mSuccesses a + 1\<rparr>
         | Inl err \<Rightarrow> a\<lparr>mFailures := mFailures a + 1,
                        mTimeouts := mTimeouts a + (if counts_as_timeout err then 1 else 0)\<rparr>)
      else a)"
  by (auto simp: gw_finish_def Let_def split: sum.splits)

lemma gw_step_balanced: "gw_balanced w \<Longrightarrow> gw_balanced (gw_step opts w e)"
proof -
  assume bal: "gw_balanced w"
  obtain g fl rej where w: "w = (g, fl, rej)" by (cases w)
  show ?thesis
  proof (cases e)
    case (Begin now server tool)
    obtain r g' where b: "gw_begin opts now server tool g = (r, g')" by force
    have "gw_accumulator s g' = (let a = gw_accumulator s g
        in if s = server then a\<lparr>mTotalCalls := mTotalCalls a + 1\<rparr> else a)" for s
      using gw_accumulator_begin [of s opts now server tool g] b by simp
    then show ?thesis using bal Begin b w by (cases r) (auto simp: gw_balanced_def Let_def)
  next
    case (Attempt server k)
    then show ?thesis using bal w by (auto simp: gw_balanced_def gw_accumulator_attempt Let_def)
  next
    case (Finish now server p res)
    then show ?thesis using bal w
      by (cases res) (auto simp: gw_balanced_def gw_accumulator_finish Let_def add_increasing2)
  qed (use bal w in \<open>auto simp: gw_balanced_def\<close>)
qed

lemma gw_balanced_new: "gw_balanced (new_gateway, \<lambda>_. 0, \<lambda>_. 0)"
  by (simp add: gw_balanced_def new_gateway_def gw_accumulator_def emptyMutableStats_def)

interpretation gw: stepper "gw_step opts :: gw_world \<Rightarrow> 'a gw_event \<Rightarrow> gw_world" gw_balanced for opts
  by unfold_locales (rule gw_step_balanced)

lemma gw_begin_admitted:
  assumes "fst (allowCall t0 tool (gw_breaker server p g)) = Inr u"
    "p = gw_resolveProfile opts server tool"
  obtains g1 where "gw_begin opts t0 server tool g = (Inr p, g1)"
  using assms
  by (cases "allowCall t0 tool (gw_breaker server p g)") (auto simp: gw_begin_def Let_def)

lemma gw_call_rejected:
  assumes "fst (allowCall t0 tool (gw_breaker server p g)) = Inl e"
    "p = gw_resolveProfile opts server tool"
  shows "fst (gw_call opts t0 t1 server tool backend g) = Inl e
         \<and> fst (snd (gw_call opts t0 t1 server tool backend g)) = 0"
  using assms
  by (cases "allowCall t0 tool (gw_breaker server p g)") (auto simp: gw_begin_def gw_call_def Let_def)

lemma snd_gw_call_admitted:
  assumes "gw_begin opts t0 server tool g = (Inr p, g1)"
  shows "fst (gw_call opts t0 t1 server tool backend g)
           = map_sum surfaced id (outcome (gw_attempts p server tool backend))
         \<and> fst (snd (gw_call opts t0 t1 server tool backend g))
           = attempts (gw_attempts p server tool backend)"
  using assms
  by (cases "outcome (gw_attempts p server tool backend)")
     (simp_all add: gw_call_def gw_finish_def Let_def split: prod.splits)

lemma gw_begin_profile:
  "gw_begin opts t0 server tool g = (Inr p, g1) \<Longrightarrow> p = gw_resolveProfile opts server tool"
  by (auto simp: gw_begin_def Let_def split: prod.splits sum.splits)

text \<open>The fields of a resolved profile, layer by layer.\<close>

fun first_given :: "(profile_override \<Rightarrow> 'a option) \<Rightarrow> profile_override option list \<Rightarrow> 'a \<Rightarrow> 'a" where
  "first_given field [] d = d"
| "first_given field (l # ls) d =
     (case Option.bind l field of Some v \<Rightarrow> v | None \<Rightarrow> first_given field ls d)"

lemma resolveProfile_fields:
  "timeoutMs (resolveProfile v b) = nullish (Option.bind v oTimeoutMs) (timeoutMs b)"
  "retries (resolveProfile v b) = nullish (Option.bind v oRetries) (retries b)"
  "retryDelayMs (resolveProfile v b) = nullish (Option.bind v oRetryDelayMs) (retryDelayMs b)"
  "retryMaxDelayMs (resolveProfile v b) = nullish (Option.bind v oRetryMaxDelayMs) (retryMaxDelayMs b)"
  by (cases v; simp add: resolveProfile_def nullish_def)+

lemma first_given_Cons:
  "first_given field (l # ls) d = nullish (Option.bind l field) (first_given field ls d)"
  by (simp add: nullish_def)

lemma given_bind:
  "(case v of None \<Rightarrow> False | Some p \<Rightarrow> oRetries p \<noteq> None) = (Option.bind v oRetries \<noteq> None)"
  by (cases v) simp_all

subsection \<open>Properties\<close>

text \<open>C2: the retry loop. With a budget of \<open>retries + 1\<close> attempts, \<open>withRetry\<close> always ends; the
  attempt that decides is the first that returns or throws something not retryable, or the last
  one allowed, whose error is then wrapped in \<open>RetryExhaustedError\<close>; it made exactly that many
  calls, slept once between each two, and no delay exceeds the ceiling.\<close>

theorem withRetry_decides:
  assumes "0 \<le> optRetries opts" "optDelayMs opts \<le> optMaxDelayMs opts"
  shows "\<exists>k\<ge>1. int k \<le> optRetries opts + 1
           \<and> attempts (withRetry fn opts) = k
           \<and> (\<forall>j \<in> {1..<k}. retried fn j)
           \<and> (\<not> retried fn k \<and> outcome (withRetry fn opts) = fn k
              \<or> retried fn k \<and> int k = optRetries opts + 1
                \<and> outcome (withRetry fn opts)
                  = Inl (RetryExhaustedError (optServer opts) (optTool opts) (int k) (projl (fn k))))
           \<and> length (sleeps (withRetry fn opts)) = k - 1
           \<and> (\<forall>d \<in> set (sleeps (withRetry fn opts)). d \<le> optMaxDelayMs opts)"
proof -
  obtain k where k: "k \<ge> 1" "int k \<le> optRetries opts + 1" "settled_by fn k"
      "retried fn k \<longrightarrow> int k = optRetries opts + 1"
      "withRetry fn opts = \<lparr>outcome = spec_outcome fn opts k, attempts = k,
         sleeps = map (backoff (optDelayMs opts) (optMaxDelayMs opts)) [0..<k - 1]\<rparr>"
    using withRetry_spec [OF assms(1), of fn] by blast
  have "spec_outcome fn opts k = (if retried fn k
      then Inl (RetryExhaustedError (optServer opts) (optTool opts) (int k) (projl (fn k)))
      else fn k)"
    using k(4) by (auto simp: spec_outcome_def retried_def split: sum.splits)
  then show ?thesis using k assms(2)
    by (intro exI [of _ k]) (auto simp: settled_by_def backoff_le)
qed

theorem withRetry_decides_witness:
  "\<exists>k\<ge>1. int k \<le> 3
     \<and> attempts (withRetry (\<lambda>k. if k < 3 then Inl (TimeoutError ''s'' ''t'' 5 1) else Inr ''ok'')
        \<lparr>optRetries = 2, optDelayMs = 100, optMaxDelayMs = 150, optServer = ''s'', optTool = ''t''\<rparr>) = k"
  using withRetry_decides [of "\<lparr>optRetries = 2, optDelayMs = 100, optMaxDelayMs = 150,
      optServer = ''s'', optTool = ''t''\<rparr>"
      "\<lambda>k. if k < 3 then Inl (TimeoutError ''s'' ''t'' 5 1) else Inr ''ok''"]
  by auto

lemma gw_call_decides:
  assumes "p = gw_resolveProfile opts server tool" "0 \<le> retries p"
    and "fn = (\<lambda>k. withTimeout (backend k) (timeoutMs p) server tool (int k))"
    and "(res, calls, g') = gw_call opts t0 t1 server tool backend g"
  shows "case fst (allowCall t0 tool (gw_breaker server p g)) of
           Inl e \<Rightarrow> res = Inl e \<and> calls = 0
         | Inr _ \<Rightarrow> 1 \<le> calls \<and> int calls \<le> retries p + 1 \<and> settled_by fn calls
             \<and> (if retried fn calls
                then int calls = retries p + 1
                  \<and> res = Inl (if calls = 1 then projl (fn 1)
                       else RetryExhaustedError server tool (int calls) (projl (fn calls)))
                else res = map_sum surfaced id (fn calls))"
proof -
  have rc: "res = fst (gw_call opts t0 t1 server tool backend g)"
    "calls = fst (snd (gw_call opts t0 t1 server tool backend g))"
    by (simp_all add: assms(4) [symmetric])
  show ?thesis
  proof (cases "fst (allowCall t0 tool (gw_breaker server p g))")
    case (Inl e)
    then show ?thesis using gw_call_rejected [OF Inl assms(1), of t1 backend] rc by simp
  next
    case (Inr u)
    then obtain g1 where g1: "gw_begin opts t0 server tool g = (Inr p, g1)"
      using gw_begin_admitted [OF _ assms(1)] by blast
    let ?o = "\<lparr>optRetries = retries p, optDelayMs = retryDelayMs p,
        optMaxDelayMs = retryMaxDelayMs p, optServer = server, optTool = tool\<rparr>"
    have run: "gw_attempts p server tool backend = withRetry fn ?o"
      by (simp add: gw_attempts_def assms(3))
    obtain k where k: "k \<ge> 1" "int k \<le> retries p + 1" "settled_by fn k"
        "retried fn k \<longrightarrow> int k = retries p + 1"
        "outcome (withRetry fn ?o) = spec_outcome fn ?o k" "attempts (withRetry fn ?o) = k"
      using withRetry_spec [of ?o fn] assms(2) by auto
    have ck: "calls = k" and res: "res = map_sum surfaced id (spec_outcome fn ?o k)"
      using snd_gw_call_admitted [OF g1, of t1 backend] run k(5,6) rc by simp_all
    have "res = (if retried fn k then Inl (if k = 1 then projl (fn 1)
                   else RetryExhaustedError server tool (int k) (projl (fn k)))
                 else map_sum surfaced id (fn k))"
      using k(4) unfolding res
      by (cases "fn k") (auto simp: spec_outcome_def retried_def surfaced_def isRetryable_is_error)
    then show ?thesis using Inr k ck by simp
  qed
qed

text \<open>C3: what a call through the gateway does. If the circuit rejects it, the backend is never
  called and \<open>CircuitOpenError\<close> is thrown. If it is admitted, each attempt runs under the
  resolved deadline, the first attempt that does not end in a retryable error decides (the last
  allowed one at the latest), and the caller gets that attempt's value or error.\<close>

theorem gw_call_spec:
  assumes "p = gw_resolveProfile opts server tool" "0 \<le> retries p"
    and "fn = (\<lambda>k. withTimeout (backend k) (timeoutMs p) server tool (int k))"
    and "(res, calls, g') = gw_call opts t0 t1 server tool backend g"
  shows "case fst (allowCall t0 tool (gw_breaker server p g)) of
           Inl e \<Rightarrow> res = Inl e \<and> calls = 0
         | Inr _ \<Rightarrow> 1 \<le> calls \<and> int calls \<le> retries p + 1 \<and> settled_by fn calls
             \<and> (if retried fn calls
                then int calls = retries p + 1
                  \<and> res = Inl (if calls = 1 then projl (fn 1)
                       else RetryExhaustedError server tool (int calls) (projl (fn calls)))
                else res = map_sum surfaced id (fn calls))"
  using assms by (rule gw_call_decides)

theorem gw_call_spec_witness:
  "1 \<le> fst (snd (gw_call no_options 0 1 ''s'' ''list'' (\<lambda>_. Settles 1 (Inr (7::nat))) new_gateway))"
proof -
  obtain res calls g' where c: "(res, calls, g')
      = gw_call no_options 0 1 ''s'' ''list'' (\<lambda>_. Settles 1 (Inr (7::nat))) new_gateway"
    by (metis prod.exhaust)
  have "0 \<le> retries (gw_resolveProfile no_options ''s'' ''list'')"
    by (simp add: gw_resolveProfile_def no_options_def resolveProfile_def
        retries_applyMutationDefault DEFAULT_PROFILE_def)
  from gw_call_spec [OF refl this refl c]
  have "1 \<le> calls" by (simp add: gw_breaker_def new_gateway_def new_breaker_def breaker_defs)
  then show ?thesis by (metis c fst_conv snd_conv)
qed

text \<open>C4: mutations are not repeated. A tool whose name ends in \<open>_create\<close>, \<open>_update\<close>, \<open>_delete\<close>,
  \<open>_remove\<close> or \<open>_write\<close>, with no \<open>retries\<close> set for the tool or its server, reaches the backend at
  most once per call, whatever the global default says, and a failure is surfaced unwrapped.\<close>

theorem mutation_called_once:
  assumes "isMutation tool"
    and "Option.bind (map_of (gToolProfiles opts) (server @ ''.'' @ tool)) oRetries = None"
    and "Option.bind (case gToolLookup opts of Some f \<Rightarrow> f server tool | None \<Rightarrow> None) oRetries = None"
    and "Option.bind (map_of (gServerProfiles opts) server) oRetries = None"
    and "(res, calls, g') = gw_call opts t0 t1 server tool backend g"
  shows "calls \<le> 1
         \<and> (calls = 1 \<longrightarrow>
             (case withTimeout (backend 1) (timeoutMs (gw_resolveProfile opts server tool)) server tool 1 of
                Inr v \<Rightarrow> res = Inr v
              | Inl e \<Rightarrow> res = Inl (if isRetryable e then e else surfaced e)))"
proof -
  define p where "p = gw_resolveProfile opts server tool"
  have "retries p = 0"
    using assms(1-4) unfolding p_def gw_resolveProfile_def
    by (auto simp: Let_def retries_applyMutationDefault split: option.splits)
  then show ?thesis
    using gw_call_spec [OF p_def _ refl assms(5)] unfolding p_def [symmetric]
    by (auto simp: retried_def split: sum.splits if_splits)
qed

theorem mutation_called_once_witness:
  "fst (snd (gw_call (no_options\<lparr>gDefaultProfile := Some (only_retries 5)\<rparr>) 0 1 ''github''
      ''issue_create'' (\<lambda>_. Hangs :: nat reply) new_gateway)) \<le> 1"
proof -
  obtain res calls g' where c: "(res, calls, g')
      = gw_call (no_options\<lparr>gDefaultProfile := Some (only_retries 5)\<rparr>) 0 1 ''github''
          ''issue_create'' (\<lambda>_. Hangs :: nat reply) new_gateway"
    by (metis prod.exhaust)
  have "isMutation ''issue_create''"
    by (simp add: isMutation_def MUTATION_SUFFIXES_def suffix_def)
  from mutation_called_once [OF this _ _ _ c] have "calls \<le> 1" by (simp add: no_options_def)
  then show ?thesis by (metis c fst_conv snd_conv)
qed

text \<open>profile resolution. Every field comes from the most specific layer that gives it: the
  tool profile \<open>server.tool\<close>, the registry's annotation, the server profile, the global default,
  then the built-in default; only \<open>retries\<close> of a mutation without an explicit setting in the
  first three is forced to 0.\<close>

theorem profile_resolution:
  fixes opts server tool
  defines "layers \<equiv> [map_of (gToolProfiles opts) (server @ ''.'' @ tool),
       (case gToolLookup opts of Some f \<Rightarrow> f server tool | None \<Rightarrow> None),
       map_of (gServerProfiles opts) server, gDefaultProfile opts]"
  shows "timeoutMs (gw_resolveProfile opts server tool) = first_given oTimeoutMs layers 10000
       \<and> retryDelayMs (gw_resolveProfile opts server tool) = first_given oRetryDelayMs layers 100
       \<and> retryMaxDelayMs (gw_resolveProfile opts server tool) = first_given oRetryMaxDelayMs layers 5000
       \<and> retries (gw_resolveProfile opts server tool)
         = (if isMutation tool \<and> (\<forall>l \<in> set (take 3 layers). Option.bind l oRetries = None) then 0
            else first_given oRetries layers 2)"
  unfolding layers_def gw_resolveProfile_def Let_def given_bind
  by (simp add: resolveProfile_fields first_given_Cons retries_applyMutationDefault
      DEFAULT_PROFILE_def numeral_3_eq_3 del: first_given.simps(2))

theorem profile_resolution_witness:
  "timeoutMs (gw_resolveProfile (no_options\<lparr>gServerProfiles := [(''s'', only_retries 4)]\<rparr>) ''s'' ''list'')
   = 10000"
  using profile_resolution [of "no_options\<lparr>gServerProfiles := [(''s'', only_retries 4)]\<rparr>" "''s''" "''list''"]
  by (simp add: no_options_def only_retries_def)

text \<open>accounting. However the parts of concurrent calls interleave, for every server
  \<open>totalCalls\<close> is the number of successes, failures, calls still running and calls rejected by the
  circuit, and the timeouts counted never exceed the failures.\<close>

theorem gateway_accounting:
  fixes es :: "'a gw_event list"
  shows "case foldl (gw_step opts) (new_gateway, \<lambda>_. 0, \<lambda>_. 0) es of
    (g, running, rejected) \<Rightarrow>
      mTotalCalls (gw_accumulator server g)
        = mSuccesses (gw_accumulator server g) + mFailures (gw_accumulator server g)
          + running server + rejected server
      \<and> 0 \<le> running server
      \<and> mTimeouts (gw_accumulator server g) \<le> mFailures (gw_accumulator server g)"
  using gw.inv_run [OF gw_balanced_new, of opts es]
  by (auto simp: gw_balanced_def Let_def)

end
