(* ===== verification/RateLimiter.thy ===== *)
theory RateLimiter
  imports Prelude "HOL-Library.Multiset"
begin

text \<open>
  The token bucket of \<open>src/src/utils/rate-limiter.ts\<close>. A record holds the private fields; the
  promises the code settles are the list \<open>settled\<close>, in the order they are settled. A request is
  known by a number. The queue timeout of a request is armed exactly while the request is in the
  queue (it is set when the request is pushed and cleared when it leaves), so it fires only then;
  the refill timer ticks only between construction and \<open>destroy\<close>. Token amounts are rationals.
\<close>

datatype limit_mode = QueueMode | RejectMode

datatype settlement = Granted | RateExceeded | QueueFull | QueueTimeout | Destroyed

record rate_limit_config =
  cfgRequestsPerSecond :: rat
  cfgBurstSize :: "rat option"
  cfgOnLimitExceeded :: "limit_mode option"
  cfgMaxQueueTimeMs :: "int option"

record queued_request =
  reqId :: nat
  enqueuedAt :: time

record limiter =
  requestsPerSecond :: rat
  maxTokens :: rat
  mode :: limit_mode
  maxQueueTimeMs :: int
  tokens :: rat
  lastRefill :: time
  queue :: "queued_request list"
  timerOn :: bool
  totalRequests :: nat
  totalWaited :: nat
  totalRejected :: nat
  settled :: "(nat \<times> settlement) list"

definition new_limiter :: "rate_limit_config \<Rightarrow> time \<Rightarrow> limiter" where
  "new_limiter c now =
     (let burst = nullish (cfgBurstSize c) (cfgRequestsPerSecond c)
      in \<lparr>requestsPerSecond = cfgRequestsPerSecond c, maxTokens = burst,
          mode = nullish (cfgOnLimitExceeded c) QueueMode,
          maxQueueTimeMs = nullish (cfgMaxQueueTimeMs c) 30000,
          tokens = burst, lastRefill = now, queue = [], timerOn = True,
          totalRequests = 0, totalWaited = 0, totalRejected = 0, settled = []\<rparr>)"

definition settle :: "nat \<Rightarrow> settlement \<Rightarrow> limiter \<Rightarrow> limiter" where
  "settle i r l = l\<lparr>settled := settled l @ [(i, r)]\<rparr>"

definition refillTokens :: "time \<Rightarrow> limiter \<Rightarrow> limiter" where
  "refillTokens now l =
     (let elapsed = now - lastRefill l;
          tokensToAdd = (of_int elapsed / 1000) * requestsPerSecond l
      in if tokensToAdd \<ge> 1
         then l\<lparr>tokens := min (tokens l + of_int \<lfloor>tokensToAdd\<rfloor>) (maxTokens l), lastRefill := now\<rparr>
         else l)"

definition tryAcquire :: "time \<Rightarrow> limiter \<Rightarrow> bool \<times> limiter" where
  "tryAcquire now l =
     (let l' = refillTokens now l
      in if tokens l' \<ge> 1 then (True, l'\<lparr>tokens := tokens l' - 1\<rparr>) else (False, l'))"

definition enqueue :: "time \<Rightarrow> nat \<Rightarrow> limiter \<Rightarrow> limiter" where
  "enqueue now i l =
     (if length (queue l) \<ge> 100
      then settle i QueueFull (l\<lparr>totalRejected := totalRejected l + 1\<rparr>)
      else l\<lparr>queue := queue l @ [\<lparr>reqId = i, enqueuedAt = now\<rparr>]\<rparr>)"

definition acquire :: "time \<Rightarrow> nat \<Rightarrow> limiter \<Rightarrow> limiter" where
  "acquire now i l =
     (let l1 = l\<lparr>totalRequests := totalRequests l + 1\<rparr>; (ok, l2) = tryAcquire now l1 in
      if ok then settle i Granted l2
      else if mode l2 = RejectMode
      then settle i RateExceeded (l2\<lparr>totalRejected := totalRejected l2 + 1\<rparr>)
      else enqueue now i l2)"

definition release :: "limiter \<Rightarrow> limiter" where
  "release l = l\<lparr>tokens := min (tokens l + 1) (maxTokens l)\<rparr>"

text \<open>The timeout of request \<open>i\<close> fires.\<close>

definition queueTimeout :: "nat \<Rightarrow> limiter \<Rightarrow> limiter" where
  "queueTimeout i l =
     (if i \<in> reqId ` set (queue l)
      then settle i QueueTimeout
             (l\<lparr>queue := (case List.extract (\<lambda>r. reqId r = i) (queue l) of
                            Some (a, _, b) \<Rightarrow> a @ b | None \<Rightarrow> queue l),
                totalRejected := totalRejected l + 1\<rparr>)
      else l)"

text \<open>The loop of \<open>processQueue\<close>: as long as the queue is not empty and a token is there.\<close>

fun process_loop :: "queued_request list \<Rightarrow> limiter \<Rightarrow> limiter" where
  "process_loop [] l = l"
| "process_loop (r # rs) l =
     (if tokens l \<ge> 1
      then process_loop rs
             (settle (reqId r) Granted
               (l\<lparr>queue := rs, tokens := tokens l - 1, totalWaited := totalWaited l + 1\<rparr>))
      else l)"

definition processQueue :: "time \<Rightarrow> limiter \<Rightarrow> limiter" where
  "processQueue now l = (let l' = refillTokens now l in process_loop (queue l') l')"

definition destroy :: "limiter \<Rightarrow> limiter" where
  "destroy l =
     l\<lparr>timerOn := False, queue := [],
       settled := settled l @ map (\<lambda>r. (reqId r, Destroyed)) (queue l)\<rparr>"

text \<open>What the owner of the limiter and the timers can do.\<close>

datatype limiter_event = Acquire time nat | Release | Tick time | TimeoutFires nat | Destroy

fun limiter_step :: "limiter \<Rightarrow> limiter_event \<Rightarrow> limiter" where
  "limiter_step l (Acquire now i) = acquire now i l"
| "limiter_step l Release = release l"
| "limiter_step l (Tick now) = (if timerOn l then processQueue now l else l)"
| "limiter_step l (TimeoutFires i) = queueTimeout i l"
| "limiter_step l Destroy = destroy l"

fun event_time_le :: "time \<Rightarrow> limiter_event \<Rightarrow> bool" where
  "event_time_le T (Acquire now _) = (now \<le> T)"
| "event_time_le T (Tick now) = (now \<le> T)"
| "event_time_le T _ = True"

fun acquired_id :: "limiter_event \<Rightarrow> nat list" where
  "acquired_id (Acquire _ i) = [i]"
| "acquired_id _ = []"

definition granted :: "limiter \<Rightarrow> nat" where
  "granted l = length (filter (\<lambda>(_, r). r = Granted) (settled l))"

text \<open>The books of a limiter: every request made is waiting or settled, the counters count.\<close>

definition request_ids :: "limiter \<Rightarrow> nat multiset" where
  "request_ids l = mset (map reqId (queue l)) + mset (map fst (settled l))"

definition limiter_books :: "limiter \<Rightarrow> bool" where
  "limiter_books l \<longleftrightarrow>
     totalRequests l = length (queue l) + length (settled l)
     \<and> length (queue l) \<le> 100
     \<and> (0 \<le> maxTokens l \<longrightarrow> 0 \<le> tokens l \<and> tokens l \<le> maxTokens l)
     \<and> totalRejected l
        = length (filter (\<lambda>(_, r). r \<in> {RateExceeded, QueueFull, QueueTimeout}) (settled l))
     \<and> totalWaited l \<le> granted l"

subsection \<open>Facts\<close>

lemmas limiter_defs = acquire_def tryAcquire_def enqueue_def settle_def release_def
  destroy_def Let_def

lemma refill_frame [simp]:
  "queue (refillTokens now l) = queue l" "settled (refillTokens now l) = settled l"
  "mode (refillTokens now l) = mode l" "maxTokens (refillTokens now l) = maxTokens l"
  "requestsPerSecond (refillTokens now l) = requestsPerSecond l"
  "totalRequests (refillTokens now l) = totalRequests l"
  "totalRejected (refillTokens now l) = totalRejected l"
  "totalWaited (refillTokens now l) = totalWaited l" "timerOn (refillTokens now l) = timerOn l"
  by (simp_all add: refillTokens_def Let_def)

lemma refill_tokens_bounds:
  assumes "0 \<le> tokens l" "tokens l \<le> maxTokens l"
  shows "0 \<le> tokens (refillTokens now l) \<and> tokens (refillTokens now l) \<le> maxTokens l"
proof -
  have "x \<ge> 1 \<Longrightarrow> 0 \<le> (of_int \<lfloor>x\<rfloor> :: rat)" for x :: rat
    by simp
  then show ?thesis using assms by (auto simp: refillTokens_def Let_def min_def add_nonneg_nonneg)
qed

text \<open>Time bought by a refill: tokens gained never exceed the elapsed time's worth.\<close>

lemma refill_credit:
  assumes "0 \<le> requestsPerSecond l"
  shows "tokens (refillTokens now l) - tokens l
         \<le> requestsPerSecond l * of_int (lastRefill (refillTokens now l) - lastRefill l) / 1000"
proof -
  let ?a = "(of_int (now - lastRefill l) / 1000) * requestsPerSecond l"
  have "of_int \<lfloor>?a\<rfloor> \<le> ?a" by (rule of_int_floor_le)
  then show ?thesis by (auto simp: refillTokens_def Let_def min_def mult.commute)
qed

lemma refill_time:
  assumes "0 \<le> requestsPerSecond l"
  shows "lastRefill (refillTokens now l) = lastRefill l \<or> lastRefill (refillTokens now l) = now"
  by (simp add: refillTokens_def Let_def)

text \<open>The loop in closed form: with \<open>k\<close> the whole tokens there are, at most the queue's length,
  the first \<open>k\<close> requests are granted in order.\<close>

definition served :: "limiter \<Rightarrow> nat" where
  "served l = min (length (queue l)) (nat \<lfloor>tokens l\<rfloor>)"

lemma process_loop_spec:
  assumes "queue l = q"
  shows "process_loop q l =
     (let k = served l
      in l\<lparr>queue := drop k q, tokens := tokens l - of_nat k, totalWaited := totalWaited l + k,
           settled := settled l @ map (\<lambda>r. (reqId r, Granted)) (take k q)\<rparr>)"
  using assms
proof (induction q arbitrary: l)
  case Nil
  then show ?case by (simp add: served_def)
next
  case (Cons r rs)
  show ?case
  proof (cases "tokens l \<ge> 1")
    case False
    then have "served l = 0" by (simp add: served_def Cons.prems nat_le_iff)
    then show ?thesis using False Cons.prems by simp
  next
    case True
    let ?l = "settle (reqId r) Granted
       (l\<lparr>queue := rs, tokens := tokens l - 1, totalWaited := totalWaited l + 1\<rparr>)"
    have "nat \<lfloor>tokens l\<rfloor> = Suc (nat \<lfloor>tokens l - 1\<rfloor>)"
      using True by (simp add: Suc_nat_eq_nat_zadd1 nat_eq_iff)
    then have k: "served l = Suc (served ?l)"
      by (simp add: served_def Cons.prems settle_def)
    have "queue ?l = rs" by (simp add: settle_def)
    from Cons.IH [OF this] show ?thesis using True
      by (simp add: k Let_def) (simp add: settle_def)
  qed
qed

lemma processQueue_spec:
  "processQueue now l =
     (let l' = refillTokens now l; k = served l'
      in l'\<lparr>queue := drop k (queue l), tokens := tokens l' - of_nat k,
            totalWaited := totalWaited l + k,
            settled := settled l @ map (\<lambda>r. (reqId r, Granted)) (take k (queue l))\<rparr>)"
  by (simp add: processQueue_def process_loop_spec Let_def)

lemma served_le: "served l \<le> length (queue l)"
  by (simp add: served_def)

lemma served_tokens: "0 \<le> tokens l \<Longrightarrow> of_nat (served l) \<le> tokens l"
proof -
  assume "0 \<le> tokens l"
  then have "of_nat (nat \<lfloor>tokens l\<rfloor>) \<le> tokens l" by (rule of_nat_floor)
  moreover have "of_nat (served l) \<le> (of_nat (nat \<lfloor>tokens l\<rfloor>) :: rat)"
    by (simp add: served_def)
  ultimately show ?thesis by linarith
qed

lemma extract_removes:
  assumes "i \<in> reqId ` set q"
  obtains a r b where "List.extract (\<lambda>r. reqId r = i) q = Some (a, r, b)"
    "q = a @ r # b" "reqId r = i"
proof -
  have "List.extract (\<lambda>r. reqId r = i) q \<noteq> None"
    using assms by (auto simp: extract_None_iff)
  then obtain a r b where e: "List.extract (\<lambda>r. reqId r = i) q = Some (a, r, b)" by auto
  from extract_SomeE [OF this] that [of a r b] e show thesis by simp
qed

lemma queueTimeout_spec:
  assumes "i \<in> reqId ` set (queue l)"
  obtains a r b where "queue l = a @ r # b" "reqId r = i"
    "queueTimeout i l = l\<lparr>queue := a @ b, totalRejected := totalRejected l + 1,
       settled := settled l @ [(i, QueueTimeout)]\<rparr>"
proof -
  obtain a r b where "List.extract (\<lambda>r. reqId r = i) (queue l) = Some (a, r, b)"
    "queue l = a @ r # b" "reqId r = i"
    using extract_removes [OF assms] by blast
  then show thesis using that [of a r b] assms by (simp add: queueTimeout_def settle_def)
qed

lemma request_ids_timeout:
  assumes "queue l = a @ r # b" "reqId r = i" "e = TimeoutFires i"
    "queueTimeout i l = l\<lparr>queue := a @ b, totalRejected := totalRejected l + 1,
       settled := settled l @ [(i, QueueTimeout)]\<rparr>"
  shows "request_ids (limiter_step l e) = request_ids l + mset (acquired_id e)"
  using assms by (simp add: request_ids_def)

lemma request_ids_step:
  "request_ids (limiter_step l e) = request_ids l + mset (acquired_id e)"
proof (cases e)
  case (Tick now)
  have "mset (map reqId (take k q)) + mset (map reqId (drop k q)) = mset (map reqId q)"
    for k and q :: "queued_request list"
    by (metis append_take_drop_id map_append mset_append)
  then show ?thesis using Tick
    by (simp add: request_ids_def processQueue_spec Let_def comp_def add.commute union_assoc
        union_lcomm multiset.map_comp)
next
  case (TimeoutFires i)
  show ?thesis
  proof (cases "i \<in> reqId ` set (queue l)")
    case True
    then show ?thesis
    proof (rule queueTimeout_spec)
      fix a r b
      assume "queue l = a @ r # b" "reqId r = i"
        "queueTimeout i l = l\<lparr>queue := a @ b, totalRejected := totalRejected l + 1,
           settled := settled l @ [(i, QueueTimeout)]\<rparr>"
      then show ?thesis using TimeoutFires by (intro request_ids_timeout)
    qed
  next
    case False
    then show ?thesis using TimeoutFires by (simp add: queueTimeout_def)
  qed
qed (auto simp: request_ids_def limiter_defs comp_def)

lemma request_ids_run:
  "request_ids (foldl limiter_step l es) = request_ids l + mset (concat (map acquired_id es))"
  by (induction es arbitrary: l) (simp_all add: request_ids_step union_assoc)

lemma granted_simps [simp]:
  "granted (l\<lparr>settled := settled l @ xs\<rparr>)
   = granted l + length (filter (\<lambda>(_, r). r = Granted) xs)"
  by (simp add: granted_def)

lemma limiter_books_timeout:
  assumes "limiter_books l" shows "limiter_books (queueTimeout i l)"
proof (cases "i \<in> reqId ` set (queue l)")
  case True
  from queueTimeout_spec [OF this] obtain a r b where
    "queue l = a @ r # b" "queueTimeout i l = l\<lparr>queue := a @ b, totalRejected := totalRejected l + 1,
       settled := settled l @ [(i, QueueTimeout)]\<rparr>" by metis
  then show ?thesis using assms by (simp add: limiter_books_def granted_def)
qed (use assms in \<open>simp add: queueTimeout_def\<close>)

lemma limiter_books_refill: "limiter_books l \<Longrightarrow> limiter_books (refillTokens now l)"
  using refill_tokens_bounds [of l now] by (simp add: limiter_books_def granted_def)

lemma minus_count_le: "x \<le> m \<Longrightarrow> x - of_nat n \<le> (m :: rat)"
  by (rule order_trans [of _ x]) simp_all

lemma limiter_books_process: "limiter_books l \<Longrightarrow> limiter_books (processQueue now l)"
proof -
  assume "limiter_books l"
  then have bk: "limiter_books (refillTokens now l)" by (rule limiter_books_refill)
  let ?l = "refillTokens now l"
  have "0 \<le> tokens ?l \<Longrightarrow> of_nat (served ?l) \<le> tokens ?l" by (rule served_tokens)
  moreover have "served ?l \<le> length (queue l)" using served_le [of ?l] by simp
  moreover have "length (queue l) \<le> 100 \<Longrightarrow> length (queue l) - served ?l \<le> 100" by simp
  ultimately show ?thesis using bk
    by (simp add: limiter_books_def granted_def processQueue_spec Let_def comp_def minus_count_le)
qed

lemma limiter_books_step: "limiter_books l \<Longrightarrow> limiter_books (limiter_step l e)"
proof (cases e)
  case (Acquire now i)
  assume "limiter_books l"
  then have "limiter_books (refillTokens now l)" by (rule limiter_books_refill)
  moreover have "refillTokens now (l\<lparr>totalRequests := n\<rparr>) = (refillTokens now l)\<lparr>totalRequests := n\<rparr>"
    for n by (simp add: refillTokens_def Let_def)
  ultimately show ?thesis using Acquire
    by (auto simp: limiter_books_def granted_def limiter_defs)
next
  case Release
  assume "limiter_books l"
  then show ?thesis using Release by (auto simp: limiter_books_def granted_def release_def)
next
  case Destroy
  assume "limiter_books l"
  then show ?thesis using Destroy
    by (simp add: limiter_books_def granted_def destroy_def comp_def)
qed (simp_all add: limiter_books_process limiter_books_timeout)

lemma limiter_books_new: "limiter_books (new_limiter c now)"
  by (simp add: limiter_books_def new_limiter_def granted_def Let_def)

interpretation limiter: stepper limiter_step limiter_books
  by unfold_locales (rule limiter_books_step)

text \<open>One event against the token credit.\<close>

definition credit :: "limiter \<Rightarrow> rat" where
  "credit l = of_nat (granted l) + tokens l - requestsPerSecond l * of_int (lastRefill l) / 1000"

lemma credit_refill:
  assumes "0 \<le> requestsPerSecond l"
  shows "credit (refillTokens now l) \<le> credit l"
proof -
  have "granted (refillTokens now l) = granted l" by (simp add: granted_def)
  then show ?thesis using refill_credit [OF assms, of now]
    by (simp add: credit_def right_diff_distrib diff_divide_distrib)
qed

lemma credit_step:
  assumes "0 \<le> requestsPerSecond l" "lastRefill l \<le> T" "event_time_le T e"
  shows "credit (limiter_step l e) \<le> credit l + (if e = Release then 1 else 0)
         \<and> lastRefill (limiter_step l e) \<le> T
         \<and> requestsPerSecond (limiter_step l e) = requestsPerSecond l
         \<and> maxTokens (limiter_step l e) = maxTokens l"
proof (cases e)
  case (Acquire now i)
  have "refillTokens now (l\<lparr>totalRequests := n\<rparr>) = (refillTokens now l)\<lparr>totalRequests := n\<rparr>"
    for n by (simp add: refillTokens_def Let_def)
  then show ?thesis using credit_refill [OF assms(1), of now] refill_time [OF assms(1), of now]
      Acquire assms
    by (auto simp: credit_def granted_def limiter_defs)
next
  case Release
  then show ?thesis using assms by (simp add: credit_def granted_def release_def)
next
  case (Tick now)
  then show ?thesis using credit_refill [OF assms(1), of now] refill_time [OF assms(1), of now]
      assms served_le [of "refillTokens now l"]
    by (auto simp: credit_def granted_def processQueue_spec Let_def comp_def)
next
  case (TimeoutFires i)
  show ?thesis
  proof (cases "i \<in> reqId ` set (queue l)")
    case True
    from queueTimeout_spec [OF this] obtain a b where "queueTimeout i l
      = l\<lparr>queue := a @ b, totalRejected := totalRejected l + 1,
          settled := settled l @ [(i, QueueTimeout)]\<rparr>" by metis
    then show ?thesis using TimeoutFires assms by (simp add: credit_def granted_def)
  qed (use TimeoutFires assms in \<open>simp add: queueTimeout_def\<close>)
next
  case Destroy
  then show ?thesis using assms by (simp add: credit_def granted_def destroy_def comp_def)
qed

lemma credit_run:
  assumes "0 \<le> requestsPerSecond l" "lastRefill l \<le> T" "\<forall>e \<in> set es. event_time_le T e"
  shows "credit (foldl limiter_step l es)
           \<le> credit l + of_nat (length (filter (\<lambda>e. e = Release) es))
         \<and> lastRefill (foldl limiter_step l es) \<le> T
         \<and> requestsPerSecond (foldl limiter_step l es) = requestsPerSecond l
         \<and> maxTokens (foldl limiter_step l es) = maxTokens l"
  using assms
proof (induction es arbitrary: l)
  case (Cons e es)
  let ?l = "limiter_step l e"
  have s: "credit ?l \<le> credit l + (if e = Release then 1 else 0)" "lastRefill ?l \<le> T"
    "requestsPerSecond ?l = requestsPerSecond l" "maxTokens ?l = maxTokens l"
    using credit_step [OF Cons.prems(1,2), of e] Cons.prems(3) by simp_all
  have "0 \<le> requestsPerSecond ?l" using s(3) Cons.prems(1) by simp
  from Cons.IH [OF this s(2)] Cons.prems(3) s show ?case
    by (cases "e = Release") simp_all
qed simp

subsection \<open>Properties\<close>

text \<open>C5: the rate bound. Whatever is asked of a limiter created at \<open>t0\<close>, by time \<open>T\<close> it has
  granted at most its burst, the tokens handed back by \<open>release\<close>, and \<open>requestsPerSecond\<close> for
  every second elapsed.\<close>

theorem limiter_rate_bound:
  assumes "0 \<le> cfgRequestsPerSecond c" "0 \<le> nullish (cfgBurstSize c) (cfgRequestsPerSecond c)"
    and "t0 \<le> T" "\<forall>e \<in> set es. event_time_le T e"
  shows "of_nat (granted (foldl limiter_step (new_limiter c t0) es))
         \<le> nullish (cfgBurstSize c) (cfgRequestsPerSecond c)
           + of_nat (length (filter (\<lambda>e. e = Release) es))
           + cfgRequestsPerSecond c * of_int (T - t0) / 1000"
proof -
  define l0 where "l0 = new_limiter c t0"
  define l where "l = foldl limiter_step l0 es"
  have l0: "requestsPerSecond l0 = cfgRequestsPerSecond c" "lastRefill l0 = t0"
    "maxTokens l0 = nullish (cfgBurstSize c) (cfgRequestsPerSecond c)"
    "credit l0 = maxTokens l0 - cfgRequestsPerSecond c * of_int t0 / 1000"
    by (simp_all add: l0_def new_limiter_def Let_def credit_def granted_def)
  have run: "credit l \<le> credit l0 + of_nat (length (filter (\<lambda>e. e = Release) es))"
    "lastRefill l \<le> T" "requestsPerSecond l = requestsPerSecond l0" "maxTokens l = maxTokens l0"
    using credit_run [of l0 T es] assms l0(1,2) by (simp_all add: l_def)
  have "0 \<le> tokens l"
    using limiter.inv_run [OF limiter_books_new, of c t0 es] run(4) l0(3) assms(2)
    by (simp add: limiter_books_def l_def l0_def)
  moreover have "cfgRequestsPerSecond c * of_int (lastRefill l) \<le> cfgRequestsPerSecond c * of_int T"
    using run(2) assms(1) by (simp add: mult_left_mono)
  ultimately have "of_nat (granted l) \<le> maxTokens l0
      + of_nat (length (filter (\<lambda>e. e = Release) es))
      + cfgRequestsPerSecond c * of_int (T - t0) / 1000"
    using run l0 by (simp add: credit_def right_diff_distrib diff_divide_distrib)
  then show ?thesis using l0(3) by (simp add: l_def l0_def)
qed

theorem limiter_rate_bound_witness:
  "of_nat (granted (foldl limiter_step
      (new_limiter \<lparr>cfgRequestsPerSecond = 2, cfgBurstSize = Some 3, cfgOnLimitExceeded = None,
         cfgMaxQueueTimeMs = None\<rparr> 0) [Acquire 10 1, Acquire 20 2, Acquire 30 3, Acquire 40 4]))
   \<le> (3 + 0 + 2 * 40 / 1000 :: rat)"
  using limiter_rate_bound [of "\<lparr>cfgRequestsPerSecond = 2, cfgBurstSize = Some 3,
      cfgOnLimitExceeded = None, cfgMaxQueueTimeMs = None\<rparr>" 0 40
      "[Acquire 10 1, Acquire 20 2, Acquire 30 3, Acquire 40 4]"]
  by (simp add: nullish_def)

text \<open>no request is lost or settled twice, and the books balance. Over any run of a new
  limiter the requests made are, with multiplicity, those still queued and those settled; at most
  100 wait; \<open>totalRequests\<close> and \<open>totalRejected\<close> count what they say; the tokens stay between 0
  and the burst.\<close>

theorem limiter_conservation:
  fixes es c t0
  defines "l \<equiv> foldl limiter_step (new_limiter c t0) es"
  shows "mset (concat (map acquired_id es)) = mset (map reqId (queue l)) + mset (map fst (settled l))
         \<and> totalRequests l = length (queue l) + length (settled l)
         \<and> length (queue l) \<le> 100
         \<and> totalRejected l
            = length (filter (\<lambda>(_, r). r \<in> {RateExceeded, QueueFull, QueueTimeout}) (settled l))
         \<and> (maxTokens l < 0 \<or> 0 \<le> tokens l \<and> tokens l \<le> maxTokens l)"
  using limiter.inv_run [OF limiter_books_new, of c t0 es] request_ids_run [of "new_limiter c t0" es]
  by (auto simp: l_def limiter_books_def request_ids_def new_limiter_def Let_def)

text \<open>the queue is served in order. A tick grants exactly the oldest waiting requests, as many
  as there are whole tokens after the refill, and takes one token for each; a request that finds
  100 waiting is rejected at once and changes neither the queue nor the tokens left by the
  refill.\<close>

theorem limiter_queue_order:
  fixes l now i
  defines "l' \<equiv> refillTokens now l"
  defines "k \<equiv> min (length (queue l)) (nat \<lfloor>tokens l'\<rfloor>)"
  shows "queue (processQueue now l) = drop k (queue l)
         \<and> settled (processQueue now l) = settled l @ map (\<lambda>r. (reqId r, Granted)) (take k (queue l))
         \<and> tokens (processQueue now l) = tokens l' - of_nat k
         \<and> settled (acquire now i l)
           = settled l
             @ (if tokens l' \<ge> 1 then [(i, Granted)]
                else if mode l = RejectMode then [(i, RateExceeded)]
                else if length (queue l) \<ge> 100 then [(i, QueueFull)] else [])
         \<and> queue (acquire now i l)
           = queue l
             @ (if tokens l' \<ge> 1 \<or> mode l = RejectMode \<or> length (queue l) \<ge> 100 then []
                else [\<lparr>reqId = i, enqueuedAt = now\<rparr>])"
proof -
  have "refillTokens now (l\<lparr>totalRequests := n\<rparr>) = (refillTokens now l)\<lparr>totalRequests := n\<rparr>"
    for n by (simp add: refillTokens_def Let_def)
  then show ?thesis unfolding k_def l'_def
    by (simp add: processQueue_spec served_def Let_def) (simp add: limiter_defs)
qed

end
