(* ===== verification/LineFraming.thy ===== *)
theory LineFraming
  imports Prelude
begin

text \<open>
  Newline-delimited messages: the daemon server (\<open>src/src/daemon/server.ts\<close>), the backend pool
  (\<open>src/src/bridge/pool.ts\<close>) and the sandbox workers (\<open>src/src/runtime/pool/worker.ts\<close>) all cut the
  text a stream delivers in chunks into lines. The server splits the buffer and pops the last
  piece; the pool and the workers loop over \<open>indexOf\<close>. Both are here, with the proof that they
  agree and that where the chunks are cut does not matter, stated once as a contract of a line
  reader.
\<close>

definition newline :: char where "newline = CHR 0x0A"

definition is_space :: "char \<Rightarrow> bool" where
  "is_space c \<longleftrightarrow> of_char c \<in> set [9, 10, 11, 12, 13, 32, 160 :: nat]"

definition js_trim :: "string \<Rightarrow> string" where
  "js_trim s = rev (dropWhile is_space (rev (dropWhile is_space s)))"

text \<open>\<open>buffer.split('\n')\<close>\<close>

fun split_newline :: "string \<Rightarrow> string list" where
  "split_newline [] = [[]]"
| "split_newline (c # cs) =
     (if c = newline then [] # split_newline cs
      else (case split_newline cs of l # ls \<Rightarrow> (c # l) # ls | [] \<Rightarrow> [[c]]))"

text \<open>\<open>lines = buffer.split('\n'); buffer = lines.pop() ?? ''\<close>\<close>

definition split_pop :: "string \<Rightarrow> string list \<times> string" where
  "split_pop buf = (butlast (split_newline buf), last (split_newline buf))"

text \<open>\<open>while ((nl = buf.indexOf('\n')) !== -1)\<close>: the raw lines the loop takes and what it leaves.\<close>

lemma js_index_of_bound: "js_index_of s [c] = Some i \<Longrightarrow> i < length s"
  by (induction s arbitrary: i) (auto split: if_splits)

function take_lines :: "string \<Rightarrow> string list \<times> string" where
  "take_lines buf =
     (case js_index_of buf [newline] of
        None \<Rightarrow> ([], buf)
      | Some nl \<Rightarrow>
          (let (ls, rest) = take_lines (drop (nl + 1) buf) in (take nl buf # ls, rest)))"
  by pat_completeness auto
termination
  by (relation "measure length") (auto dest: js_index_of_bound)

declare take_lines.simps [simp del]

subsection \<open>Facts\<close>

lemma split_newline_nonempty [simp]: "split_newline s \<noteq> []"
  by (cases s) (auto split: list.splits)

lemma split_newline_plain: "newline \<notin> set s \<Longrightarrow> split_newline s = [s]"
  by (induction s) auto

lemma split_newline_line:
  "newline \<notin> set s \<Longrightarrow> split_newline (s @ newline # t) = s # split_newline t"
  by (induction s) auto

lemma split_pop_plain: "newline \<notin> set s \<Longrightarrow> split_pop s = ([], s)"
  by (simp add: split_pop_def split_newline_plain)

lemma split_pop_line:
  "newline \<notin> set s \<Longrightarrow> split_pop (s @ newline # t) = (s # fst (split_pop t), snd (split_pop t))"
  by (simp add: split_pop_def split_newline_line)

lemma cut_newline: "newline \<in> set s \<Longrightarrow> \<exists>a b. s = a @ newline # b \<and> newline \<notin> set a"
  by (metis split_list_first)

lemma split_pop_rest: "newline \<notin> set (snd (split_pop s))"
proof (induction s rule: length_induct)
  case (1 s)
  show ?case
  proof (cases "newline \<in> set s")
    case True
    then obtain a b where ab: "s = a @ newline # b" "newline \<notin> set a" using cut_newline by blast
    then have "length b < length s" by simp
    with 1 have "newline \<notin> set (snd (split_pop b))" by blast
    then show ?thesis using ab by (simp add: split_pop_line)
  qed (simp add: split_pop_plain)
qed

lemma length_split_pop: "length (snd (split_pop s)) \<le> length s"
proof (induction s rule: length_induct)
  case (1 s)
  show ?case
  proof (cases "newline \<in> set s")
    case True
    then obtain a b where ab: "s = a @ newline # b" "newline \<notin> set a" using cut_newline by blast
    then have "length b < length s" by simp
    with 1 have "length (snd (split_pop b)) \<le> length b" by blast
    then show ?thesis using ab by (simp add: split_pop_line)
  qed (simp add: split_pop_plain)
qed

lemma js_index_of_none_iff: "js_index_of s [c] = None \<longleftrightarrow> c \<notin> set s"
  by (induction s) auto

lemma take_lines_split_pop: "take_lines s = split_pop s"
proof (induction s rule: length_induct)
  case (1 s)
  show ?case
  proof (cases "newline \<in> set s")
    case True
    then obtain a b where ab: "s = a @ newline # b" "newline \<notin> set a" using cut_newline by blast
    then have i: "js_index_of s [newline] = Some (length a)" by (simp add: js_index_of_first)
    have "length b < length s" using ab by simp
    with 1 have "take_lines b = split_pop b" by blast
    then show ?thesis
      using ab i by (subst take_lines.simps) (simp add: split_pop_line split_beta)
  next
    case False
    then have "js_index_of s [newline] = None" by (simp add: js_index_of_none_iff)
    then show ?thesis using False by (subst take_lines.simps) (simp add: split_pop_plain)
  qed
qed

lemma split_pop_append:
  "split_pop (a @ b) =
     (fst (split_pop a) @ fst (split_pop (snd (split_pop a) @ b)), snd (split_pop (snd (split_pop a) @ b)))"
proof (induction a rule: length_induct)
  case (1 a)
  show ?case
  proof (cases "newline \<in> set a")
    case True
    then obtain c d where cd: "a = c @ newline # d" "newline \<notin> set c" using cut_newline by blast
    then have "length d < length a" by simp
    with 1 have "split_pop (d @ b) = (fst (split_pop d) @ fst (split_pop (snd (split_pop d) @ b)),
        snd (split_pop (snd (split_pop d) @ b)))" by blast
    then show ?thesis using cd by (simp add: split_pop_line)
  qed (simp add: split_pop_plain)
qed

subsection \<open>Line readers\<close>

text \<open>
  A line reader keeps the unfinished line of its stream. It takes a chunk by handing the finished
  lines to its handler, which leaves the buffer alone. Then it does not matter how the stream is
  cut into chunks.
\<close>

locale line_reader =
  fixes buf :: "'s \<Rightarrow> string"
    and set_buf :: "string \<Rightarrow> 's \<Rightarrow> 's"
    and on_line :: "string \<Rightarrow> 's \<Rightarrow> 's"
    and feed :: "string \<Rightarrow> 's \<Rightarrow> 's"
  assumes buf_set: "buf (set_buf b s) = b"
    and set_set: "set_buf b (set_buf b' s) = set_buf b s"
    and on_line_buf: "buf (on_line l s) = buf s"
    and on_line_set: "on_line l (set_buf b s) = set_buf b (on_line l s)"
    and feed_lines: "feed c s =
      fold on_line (fst (split_pop (buf s @ c))) (set_buf (snd (split_pop (buf s @ c))) s)"
begin

lemma fold_buf: "buf (fold on_line ls s) = buf s"
  by (induction ls arbitrary: s) (auto simp: on_line_buf)

lemma fold_set: "fold on_line ls (set_buf b s) = set_buf b (fold on_line ls s)"
  by (induction ls arbitrary: s) (auto simp: on_line_set)

lemma feed_append: "feed (a @ b) s = feed b (feed a s)"
proof -
  let ?a = "split_pop (buf s @ a)"
  have "split_pop (buf s @ a @ b) =
      (fst ?a @ fst (split_pop (snd ?a @ b)), snd (split_pop (snd ?a @ b)))"
    using split_pop_append [of "buf s @ a" b] by simp
  then show ?thesis by (simp add: feed_lines fold_buf buf_set fold_set set_set)
qed

lemma feed_chunks: "cs \<noteq> [] \<Longrightarrow> fold feed cs s = feed (concat cs) s"
proof (induction cs arbitrary: s)
  case (Cons c cs)
  show ?case
  proof (cases "cs = []")
    case False
    then show ?thesis using Cons by (simp add: feed_append)
  qed simp
qed simp

lemma feed_no_newline: "newline \<notin> set (buf (feed c s))"
  by (simp add: feed_lines fold_buf buf_set split_pop_rest)

end

end
