(* ===== verification/SharedKV.thy ===== *)
theory SharedKV
  imports Prelude
begin

text \<open>
  The daemon's key-value store, \<open>src/src/daemon/shared-kv.ts\<close>: entries with an optional
  expiry, the sweep that evicts them, and the snapshot file.

  The snapshot file is what \<open>JSON.parse\<close> makes of it: absent, not JSON, or a version with its
  entries. The entries are written through a plain object, on which an assignment to
  \<open>__proto__\<close> sets the prototype and adds no property (\<open>obj_put\<close>). A write to the file can fail;
  the event says whether it does.
\<close>

record 'v kv_entry =
  kvValue :: 'v
  kvExpiresAt :: "time option"

datatype 'v kv_file = NoFile | NotJson | Snapshot int "(string, 'v kv_entry) jsmap"

record 'v kv =
  kvStore :: "(string, 'v kv_entry) jsmap"
  kvFile :: "'v kv_file"
  kvDirty :: bool
  kvSweepOn :: bool

definition expired :: "time \<Rightarrow> 'v kv_entry \<Rightarrow> bool" where
  "expired now e = (case kvExpiresAt e of Some t \<Rightarrow> now > t | None \<Rightarrow> False)"

definition kv_get :: "time \<Rightarrow> string \<Rightarrow> 'v kv \<Rightarrow> 'v option \<times> 'v kv" where
  "kv_get now key s =
     (case map_of (kvStore s) key of
        None \<Rightarrow> (None, s)
      | Some e \<Rightarrow>
          (if expired now e
           then (None, s\<lparr>kvStore := AList.delete key (kvStore s), kvDirty := True\<rparr>)
           else (Some (kvValue e), s)))"

definition kv_set :: "time \<Rightarrow> string \<Rightarrow> 'v \<Rightarrow> int option \<Rightarrow> 'v kv \<Rightarrow> 'v kv" where
  "kv_set now key v ttl s =
     (let expiry = (case ttl of Some d \<Rightarrow> (if d > 0 then Some (now + d) else None) | None \<Rightarrow> None)
      in s\<lparr>kvStore := AList.update key \<lparr>kvValue = v, kvExpiresAt = expiry\<rparr> (kvStore s),
           kvDirty := True\<rparr>)"

definition kv_delete :: "string \<Rightarrow> 'v kv \<Rightarrow> 'v kv" where
  "kv_delete key s =
     (if js_has (kvStore s) key
      then s\<lparr>kvStore := AList.delete key (kvStore s), kvDirty := True\<rparr> else s)"

definition kv_list :: "time \<Rightarrow> string option \<Rightarrow> 'v kv \<Rightarrow> string list" where
  "kv_list now pre s =
     sort (map fst (filter (\<lambda>(k, e). \<not> expired now e \<and>
        (case pre of None \<Rightarrow> True | Some p \<Rightarrow> prefix p k)) (kvStore s)))"

definition kv_clear :: "string option \<Rightarrow> 'v kv \<Rightarrow> 'v kv" where
  "kv_clear pre s =
     s\<lparr>kvStore := (case pre of None \<Rightarrow> [] | Some p \<Rightarrow> js_drop_where (\<lambda>k _. prefix p k) (kvStore s)),
       kvDirty := True\<rparr>"

definition kv_size :: "'v kv \<Rightarrow> nat" where
  "kv_size s = length (kvStore s)"

definition evictExpired :: "time \<Rightarrow> 'v kv \<Rightarrow> 'v kv" where
  "evictExpired now s =
     s\<lparr>kvStore := js_drop_where (\<lambda>_ e. expired now e) (kvStore s),
       kvDirty := (kvDirty s \<or> (\<exists>(k, e) \<in> set (kvStore s). expired now e))\<rparr>"

definition obj_put :: "string \<Rightarrow> 'a \<Rightarrow> (string, 'a) jsmap \<Rightarrow> (string, 'a) jsmap" where
  "obj_put k v m = (if k = ''__proto__'' then m else AList.update k v m)"

definition snapshot_entries :: "time \<Rightarrow> (string, 'v kv_entry) jsmap \<Rightarrow> (string, 'v kv_entry) jsmap" where
  "snapshot_entries now store =
     foldl (\<lambda>m (k, e). if expired now e then m else obj_put k e m) [] store"

definition flushToDisk :: "time \<Rightarrow> bool \<Rightarrow> 'v kv \<Rightarrow> 'v kv" where
  "flushToDisk now writeOk s =
     (if writeOk
      then s\<lparr>kvFile := Snapshot 1 (snapshot_entries now (kvStore s)), kvDirty := False\<rparr>
      else s)"

definition kv_sweep :: "time \<Rightarrow> bool \<Rightarrow> 'v kv \<Rightarrow> 'v kv" where
  "kv_sweep now writeOk s =
     (if kvSweepOn s
      then (let s' = evictExpired now s in if kvDirty s' then flushToDisk now writeOk s' else s')
      else s)"

definition kv_shutdown :: "time \<Rightarrow> bool \<Rightarrow> 'v kv \<Rightarrow> 'v kv" where
  "kv_shutdown now writeOk s =
     flushToDisk now writeOk (evictExpired now (s\<lparr>kvSweepOn := False\<rparr>))"

definition loadFromDisk :: "time \<Rightarrow> 'v kv_file \<Rightarrow> (string, 'v kv_entry) jsmap" where
  "loadFromDisk now file =
     (case file of
        NoFile \<Rightarrow> []
      | NotJson \<Rightarrow> []
      | Snapshot version entries \<Rightarrow>
          (if version \<noteq> 1 then []
           else foldl (\<lambda>m (k, e). if expired now e then m else AList.update k e m) [] entries))"

definition new_kv :: "time \<Rightarrow> bool \<Rightarrow> 'v kv_file \<Rightarrow> 'v kv" where
  "new_kv now skipLoad file =
     \<lparr>kvStore = (if skipLoad then [] else loadFromDisk now file), kvFile = file,
      kvDirty = False, kvSweepOn = True\<rparr>"

subsection \<open>The promise of the store\<close>

text \<open>What a reader sees under a key at a time: the abstract view.\<close>

definition live :: "'v kv \<Rightarrow> time \<Rightarrow> string \<Rightarrow> 'v option" where
  "live s t k =
     (case map_of (kvStore s) k of
        None \<Rightarrow> None
      | Some e \<Rightarrow> (if expired t e then None else Some (kvValue e)))"

text \<open>The interface the daemon relies on. Reads at later times see the last write until its
  time-to-live is over; other keys are not disturbed.\<close>

locale ttl_store =
  fixes view :: "'s \<Rightarrow> time \<Rightarrow> 'k \<Rightarrow> 'v option"
    and put :: "time \<Rightarrow> 'k \<Rightarrow> 'v \<Rightarrow> int option \<Rightarrow> 's \<Rightarrow> 's"
    and del :: "'k \<Rightarrow> 's \<Rightarrow> 's"
    and ok :: "'s \<Rightarrow> bool"
  assumes view_put: "ok s \<Longrightarrow> view (put now k v ttl s) t k' =
      (if k' = k then (case ttl of Some d \<Rightarrow> if d > 0 \<and> t > now + d then None else Some v
                                 | None \<Rightarrow> Some v)
       else view s t k')"
    and view_del: "ok s \<Longrightarrow> view (del k s) t k' = (if k' = k then None else view s t k')"
    and ok_put: "ok s \<Longrightarrow> ok (put now k v ttl s)"
    and ok_del: "ok s \<Longrightarrow> ok (del k s)"
begin

text \<open>Writes and deletes of other keys: a list of them leaves a key as it was.\<close>

definition apply_write :: "'s \<Rightarrow> time \<times> 'k \<times> ('v \<times> int option) option \<Rightarrow> 's" where
  "apply_write s w = (case w of
     (now, k, Some (v, ttl)) \<Rightarrow> put now k v ttl s | (now, k, None) \<Rightarrow> del k s)"

lemma ok_applied: "ok s \<Longrightarrow> ok (apply_write s w)"
  by (auto simp: apply_write_def ok_put ok_del split: prod.splits option.splits)

lemma view_applied_other: "ok s \<Longrightarrow> fst (snd w) \<noteq> k \<Longrightarrow> view (apply_write s w) t k = view s t k"
  by (auto simp: apply_write_def view_put view_del split: prod.splits option.splits)

lemma view_writes_other:
  "ok s \<Longrightarrow> \<forall>w \<in> set ws. fst (snd w) \<noteq> k \<Longrightarrow> view (foldl apply_write s ws) t k = view s t k"
  by (induction ws arbitrary: s) (auto simp: ok_applied view_applied_other)

lemma last_write_wins:
  assumes "ok s" "\<forall>w \<in> set ws. fst (snd w) \<noteq> k"
  shows "view (foldl apply_write (put now k v ttl s) ws) t k =
    (case ttl of Some d \<Rightarrow> if d > 0 \<and> t > now + d then None else Some v | None \<Rightarrow> Some v)"
  using assms by (simp add: view_writes_other ok_put view_put)

end

subsection \<open>Facts\<close>

definition kv_ok :: "'v kv \<Rightarrow> bool" where
  "kv_ok s = js_wf (kvStore s)"

lemma expired_mono: "expired now e \<Longrightarrow> now \<le> t \<Longrightarrow> expired t e"
  by (auto simp: expired_def split: option.splits)

lemma live_set:
  "live (kv_set now k v ttl s) t k' =
     (if k' = k then (case ttl of Some d \<Rightarrow> if d > 0 \<and> t > now + d then None else Some v
                                | None \<Rightarrow> Some v)
      else live s t k')"
  by (auto simp: live_def kv_set_def expired_def Let_def split: option.splits)

lemma live_delete: "live (kv_delete k s) t k' = (if k' = k then None else live s t k')"
  by (auto simp: live_def kv_delete_def js_has_def split: option.splits)

lemma kv_get_live: "fst (kv_get now k s) = live s now k"
  by (auto simp: live_def kv_get_def split: option.splits)

lemma live_get: "now \<le> t \<Longrightarrow> live (snd (kv_get now k s)) t k' = live s t k'"
  by (auto simp: live_def kv_get_def expired_mono split: option.splits)

lemma live_evict:
  "kv_ok s \<Longrightarrow> now \<le> t \<Longrightarrow> live (evictExpired now s) t k = live s t k"
  by (auto simp: live_def evictExpired_def kv_ok_def map_of_js_drop_where expired_mono
      split: option.splits)

lemma live_flush [simp]: "live (flushToDisk now w s) t k = live s t k"
  by (simp add: flushToDisk_def live_def)

lemma live_sweep: "kv_ok s \<Longrightarrow> now \<le> t \<Longrightarrow> live (kv_sweep now w s) t k = live s t k"
  by (simp add: kv_sweep_def Let_def live_evict)

lemma live_clear:
  "kv_ok s \<Longrightarrow> live (kv_clear pre s) t k =
     (if (case pre of None \<Rightarrow> True | Some p \<Rightarrow> prefix p k) then None else live s t k)"
  by (auto simp: live_def kv_clear_def kv_ok_def map_of_js_drop_where split: option.splits)

lemma kv_ok_ops [simp, intro]:
  "kv_ok s \<Longrightarrow> kv_ok (snd (kv_get now k s))"
  "kv_ok s \<Longrightarrow> kv_ok (kv_set now k v ttl s)"
  "kv_ok s \<Longrightarrow> kv_ok (kv_delete k s)"
  "kv_ok s \<Longrightarrow> kv_ok (kv_clear pre s)"
  "kv_ok s \<Longrightarrow> kv_ok (evictExpired now s)"
  "kv_ok s \<Longrightarrow> kv_ok (flushToDisk now w s)"
  by (auto simp: kv_ok_def kv_get_def kv_set_def kv_delete_def kv_clear_def evictExpired_def
      flushToDisk_def Let_def split: option.splits)

lemma kv_ok_new [simp, intro]: "kv_ok (new_kv now True f)"
  by (simp add: kv_ok_def new_kv_def)

lemma kv_ok_sweep [simp, intro]: "kv_ok s \<Longrightarrow> kv_ok (kv_sweep now w s)"
  by (simp add: kv_sweep_def Let_def)

interpretation kv: ttl_store live kv_set kv_delete kv_ok
  by unfold_locales (auto simp: live_set live_delete)

lemma mem_kv_list:
  assumes "kv_ok s"
  shows "k \<in> set (kv_list now pre s) \<longleftrightarrow>
    live s now k \<noteq> None \<and> (case pre of None \<Rightarrow> True | Some p \<Rightarrow> prefix p k)"
proof -
  have "(k, e) \<in> set (kvStore s) \<longleftrightarrow> map_of (kvStore s) k = Some e" for e
    using assms by (simp add: kv_ok_def js_wf_def)
  then show ?thesis
    by (auto simp: kv_list_def live_def image_iff split: option.splits)
qed

text \<open>A pass over the entries that copies those a test keeps.\<close>

lemma fold_keep:
  assumes "js_wf (xs @ m)"
  shows "js_wf (foldl (\<lambda>m (k, e). if p k e then m else AList.update k e m) m xs) \<and>
    map_of (foldl (\<lambda>m (k, e). if p k e then m else AList.update k e m) m xs) k =
      (case map_of xs k of Some e \<Rightarrow> (if p k e then map_of m k else Some e) | None \<Rightarrow> map_of m k)"
  using assms
proof (induction xs arbitrary: m)
  case (Cons x xs)
  obtain a e where x: "x = (a, e)" by force
  let ?m = "if p a e then m else AList.update a e m"
  have fresh: "a \<notin> fst ` set xs" "a \<notin> fst ` set m" "js_wf (xs @ m)"
    using Cons.prems x by (auto simp: js_wf_def)
  have "js_wf (xs @ ?m)"
    using fresh by (auto simp: js_wf_def dom_update distinct_update)
  note IH = Cons.IH [OF this]
  have "map_of xs a = None" "map_of m a = None"
    using fresh(1,2) by (simp_all add: map_of_eq_None_iff)
  then show ?case using IH x by (cases "p a e"; cases "k = a") (simp_all split: option.split)
qed (auto simp: js_wf_def)

lemma snapshot_entries_alt:
  "snapshot_entries now store =
     foldl (\<lambda>m (k, e). if k = ''__proto__'' \<or> expired now e then m else AList.update k e m) [] store"
proof -
  have "(\<lambda>m (k, e). if expired now e then m else obj_put k e m)
      = (\<lambda>m (k, e). if k = ''__proto__'' \<or> expired now e then m else AList.update k e m)"
    by (auto simp: obj_put_def fun_eq_iff)
  then show ?thesis unfolding snapshot_entries_def by metis
qed

lemma map_of_snapshot:
  assumes "js_wf store"
  shows "js_wf (snapshot_entries now store)"
    and "map_of (snapshot_entries now store) k =
      (case map_of store k of
         Some e \<Rightarrow> (if k = ''__proto__'' \<or> expired now e then None else Some e) | None \<Rightarrow> None)"
  using fold_keep [of store "[]" "\<lambda>k e. k = ''__proto__'' \<or> expired now e"] assms
  unfolding snapshot_entries_alt by (auto split: option.splits)

lemma map_of_load:
  assumes "js_wf entries"
  shows "map_of (loadFromDisk now (Snapshot 1 entries)) k =
      (case map_of entries k of Some e \<Rightarrow> (if expired now e then None else Some e) | None \<Rightarrow> None)"
  using fold_keep [of entries "[]" "\<lambda>_ e. expired now e"] assms
  by (auto simp: loadFromDisk_def split: option.splits)

subsection \<open>Properties\<close>

text \<open>C6: the store refines a map with expiring entries. At every time from the operation's on,
  what readers see after it is the abstract update: a write is seen until its time-to-live is
  over, a delete and a clear hide what they name, a read, a sweep and a shutdown change nothing
  anyone can see; a read returns the visible value.\<close>

theorem kv_refines_expiring_map:
  assumes "kv_ok s" "now \<le> t"
  shows "fst (kv_get now k s) = live s now k
    \<and> live (snd (kv_get now k s)) t k' = live s t k'
    \<and> live (kv_set now k v ttl s) t k'
      = (if k' = k then (case ttl of Some d \<Rightarrow> if d > 0 \<and> t > now + d then None else Some v
                                   | None \<Rightarrow> Some v)
         else live s t k')
    \<and> live (kv_delete k s) t k' = (if k' = k then None else live s t k')
    \<and> live (kv_clear pre s) t k'
      = (if (case pre of None \<Rightarrow> True | Some p \<Rightarrow> prefix p k') then None else live s t k')
    \<and> live (kv_sweep now w s) t k' = live s t k'
    \<and> live (kv_shutdown now w s) t k' = live s t k'"
proof -
  have "live (kv_shutdown now w s) t k' = live (s\<lparr>kvSweepOn := False\<rparr>) t k'"
    using assms by (simp add: kv_shutdown_def live_evict kv_ok_def)
  then show ?thesis using assms
    by (simp add: kv_get_live live_get live_set live_delete live_clear live_sweep)
       (simp add: live_def)
qed

theorem kv_refines_expiring_map_witness:
  "live (kv_set 0 ''a'' (1::nat) (Some 10) (new_kv 0 True NoFile)) 11 ''a'' = None"
  using kv_refines_expiring_map [where s = "new_kv 0 True NoFile" and now = 0 and t = 11
      and k = "''a''" and k' = "''a''" and v = "1::nat" and ttl = "Some 10"]
  by simp

text \<open>the last write wins. A value written under a key, followed by any number of writes and
  deletes of other keys, is what a read returns until its time-to-live is over, and then nothing
  is; \<open>list\<close> returns, sorted and without repetition, exactly the visible keys under the prefix.\<close>

theorem kv_last_write_and_list:
  assumes "kv_ok s" "\<forall>w \<in> set ws. fst (snd w) \<noteq> k"
    and "s' = foldl (\<lambda>s (now, k, w). case w of
           Some (v, ttl) \<Rightarrow> kv_set now k v ttl s | None \<Rightarrow> kv_delete k s) (kv_set t0 k v ttl s) ws"
  shows "fst (kv_get t k s')
      = (case ttl of Some d \<Rightarrow> if d > 0 \<and> t > t0 + d then None else Some v | None \<Rightarrow> Some v)
    \<and> sorted (kv_list t pre s') \<and> distinct (kv_list t pre s')
    \<and> set (kv_list t pre s')
      = {k'. live s' t k' \<noteq> None \<and> (case pre of None \<Rightarrow> True | Some p \<Rightarrow> prefix p k')}"
proof -
  have w: "(\<lambda>s (now, k, w). case w of
           Some (v, ttl) \<Rightarrow> kv_set now k v ttl s | None \<Rightarrow> kv_delete k s) = kv.apply_write"
    by (auto simp: fun_eq_iff kv.apply_write_def split: option.splits)
  have s': "s' = foldl kv.apply_write (kv_set t0 k v ttl s) ws"
    using assms(3) unfolding w .
  have "kv_ok (foldl kv.apply_write s0 ws)" if "kv_ok s0" for s0
    using that by (induction ws arbitrary: s0) (auto simp: kv.ok_applied)
  then have ok': "kv_ok s'" using assms(1) s' by simp
  then have "distinct (kv_list t pre s')"
    by (simp add: kv_list_def kv_ok_def js_wf_def distinct_map_filter)
  then show ?thesis
    using kv.last_write_wins [OF assms(1,2), of t0 v ttl t] s' mem_kv_list [OF ok', of _ t pre]
    by (auto simp: kv_get_live) (simp_all add: kv_list_def)
qed

theorem kv_last_write_and_list_witness:
  "fst (kv_get 5 ''a'' (kv_set 1 ''b'' 2 None (kv_set 0 ''a'' (1::nat) None (new_kv 0 True NoFile))))
   = Some 1"
  using kv_last_write_and_list [where s = "new_kv 0 True NoFile" and k = "''a''" and t = 5
      and ws = "[(1, ''b'', Some (2, None))]" and v = "1::nat" and t0 = 0 and ttl = None]
  by simp

text \<open>persistence. After a shutdown whose write succeeds, a store constructed later from the
  file shows every key but \<open>__proto__\<close> exactly as the old one did; a failed write leaves the old
  file in place.\<close>

theorem kv_restart_roundtrip:
  assumes "kv_ok s" "now \<le> t0" "t0 \<le> t" "k \<noteq> ''__proto__''"
  shows "live (new_kv t0 False (kvFile (kv_shutdown now True s))) t k = live s t k
         \<and> kvFile (kv_shutdown now False s) = kvFile s"
proof -
  let ?s = "evictExpired now (s\<lparr>kvSweepOn := False\<rparr>)"
  have ws: "js_wf (kvStore ?s)" using assms(1) by (simp add: evictExpired_def kv_ok_def)
  have fl: "kvFile (kv_shutdown now True s) = Snapshot 1 (snapshot_entries now (kvStore ?s))"
    by (simp add: kv_shutdown_def flushToDisk_def)
  have "live (new_kv t0 False (kvFile (kv_shutdown now True s))) t k = live ?s t k"
    using assms map_of_snapshot(2) [OF ws, of now k]
    by (auto simp: live_def new_kv_def fl map_of_load [OF map_of_snapshot(1) [OF ws]] expired_mono
        split: option.splits)
  also have "\<dots> = live s t k"
    using assms by (simp add: live_evict kv_ok_def) (simp add: live_def)
  finally show ?thesis by (simp add: kv_shutdown_def flushToDisk_def evictExpired_def)
qed

theorem kv_restart_roundtrip_witness:
  "live (new_kv 5 False (kvFile (kv_shutdown 1 True (kv_set 0 ''a'' (7::nat) (Some 100) (new_kv 0 True NoFile)))))
     9 ''a'' = Some 7"
  using kv_restart_roundtrip [of "kv_set 0 ''a'' (7::nat) (Some 100) (new_kv 0 True NoFile)" 1 5 9 "''a''"]
  by (simp add: live_set)

text \<open>The key \<open>__proto__\<close> is lost by a restart.\<close>

lemma kv_proto_key_lost:
  "live (kv_set 0 ''__proto__'' (7::nat) None (new_kv 0 True NoFile)) 1 ''__proto__'' = Some 7
   \<and> live (new_kv 1 False (kvFile (kv_shutdown 1 True
        (kv_set 0 ''__proto__'' (7::nat) None (new_kv 0 True NoFile))))) 1 ''__proto__'' = None"
  by (simp add: live_def new_kv_def kv_set_def kv_shutdown_def flushToDisk_def evictExpired_def
      snapshot_entries_def obj_put_def loadFromDisk_def expired_def js_drop_where_def)

end
