(* ===== verification/SharedLock.thy ===== *)
theory SharedLock
  imports Prelude
begin

text \<open>
  The daemon's lock registry, \<open>src/src/daemon/shared-lock.ts\<close>. Per key the code keeps a
  promise chain: each caller of \<open>acquire\<close> appends its own promise and waits for the one before.
  A mutex is therefore the list of its callers in order, each with what has become of it: the
  promise a caller leaves behind is resolved when it is \<open>Released\<close> and only then, and the first
  caller of a fresh mutex waits for a promise that is resolved already. \<open>waiters\<close> is the code's
  counter. The waiting of a caller ends by \<open>grant\<close> (its predecessor's promise is resolved) or by
  \<open>timeout\<close> (its timer wins the race), whichever the event loop runs first.
\<close>

datatype caller_status = Waiting | Holding | TimedOut | Released

record caller =
  callerId :: nat
  status :: caller_status

record mutex_state =
  chain :: "caller list"
  waiters :: int

record lock_registry =
  locks :: "(string, mutex_state) jsmap"
  nextCaller :: nat

definition new_lock_registry :: lock_registry where
  "new_lock_registry = \<lparr>locks = [], nextCaller = 0\<rparr>"

text \<open>\<open>acquire\<close> up to its suspension; the handle is the caller's number.\<close>

definition lock_acquire :: "string \<Rightarrow> lock_registry \<Rightarrow> nat \<times> lock_registry" where
  "lock_acquire key r =
     (let current = (case map_of (locks r) key of
            Some m \<Rightarrow> m | None \<Rightarrow> \<lparr>chain = [], waiters = 0\<rparr>);
          i = nextCaller r;
          current' = current\<lparr>waiters := waiters current + 1,
                             chain := chain current @ [\<lparr>callerId = i, status = Waiting\<rparr>]\<rparr>
      in (i, r\<lparr>locks := AList.update key current' (locks r), nextCaller := i + 1\<rparr>))"

text \<open>The caller's predecessor has resolved its promise (or there is none).\<close>

fun chain_ready :: "nat \<Rightarrow> bool \<Rightarrow> caller list \<Rightarrow> bool" where
  "chain_ready i prevDone [] = False"
| "chain_ready i prevDone (c # cs) =
     (if callerId c = i then prevDone \<and> status c = Waiting
      else chain_ready i (status c = Released) cs)"

definition set_status :: "nat \<Rightarrow> caller_status \<Rightarrow> caller list \<Rightarrow> caller list" where
  "set_status i st = map (\<lambda>c. if callerId c = i then c\<lparr>status := st\<rparr> else c)"

definition status_of :: "nat \<Rightarrow> caller list \<Rightarrow> caller_status option" where
  "status_of i cs = map_option status (List.find (\<lambda>c. callerId c = i) cs)"

definition lock_grant :: "string \<Rightarrow> nat \<Rightarrow> lock_registry \<Rightarrow> lock_registry" where
  "lock_grant key i r =
     (case map_of (locks r) key of
        Some m \<Rightarrow>
          (if chain_ready i True (chain m)
           then r\<lparr>locks := AList.update key (m\<lparr>chain := set_status i Holding (chain m)\<rparr>) (locks r)\<rparr>
           else r)
      | None \<Rightarrow> r)"

text \<open>The timer of a waiting caller fires: \<open>acquire\<close> throws \<open>LockTimeoutError\<close>.\<close>

definition lock_timeout :: "string \<Rightarrow> nat \<Rightarrow> lock_registry \<Rightarrow> lock_registry" where
  "lock_timeout key i r =
     (case map_of (locks r) key of
        Some m \<Rightarrow>
          (if status_of i (chain m) = Some Waiting
           then r\<lparr>locks := AList.update key (m\<lparr>chain := set_status i TimedOut (chain m)\<rparr>) (locks r)\<rparr>
           else r)
      | None \<Rightarrow> r)"

text \<open>\<open>release\<close> of the handle \<open>acquire\<close> returned; a second release of it does nothing.\<close>

definition lock_release :: "string \<Rightarrow> nat \<Rightarrow> lock_registry \<Rightarrow> lock_registry" where
  "lock_release key i r =
     (case map_of (locks r) key of
        Some m \<Rightarrow>
          (if status_of i (chain m) = Some Holding
           then (let m' = m\<lparr>waiters := waiters m - 1, chain := set_status i Released (chain m)\<rparr>
                 in if waiters m' = 0 then r\<lparr>locks := AList.delete key (locks r)\<rparr>
                    else r\<lparr>locks := AList.update key m' (locks r)\<rparr>)
           else r)
      | None \<Rightarrow> r)"

definition waiters_of :: "string \<Rightarrow> lock_registry \<Rightarrow> int" where
  "waiters_of key r = (case map_of (locks r) key of Some m \<Rightarrow> waiters m | None \<Rightarrow> 0)"

definition hasActiveLocks :: "lock_registry \<Rightarrow> bool" where
  "hasActiveLocks r = (length (locks r) > 0)"

datatype lock_event =
    LAcquire string
  | LGrant string nat
  | LTimeout string nat
  | LRelease string nat

fun lock_step :: "lock_registry \<Rightarrow> lock_event \<Rightarrow> lock_registry" where
  "lock_step r (LAcquire key) = snd (lock_acquire key r)"
| "lock_step r (LGrant key i) = lock_grant key i r"
| "lock_step r (LTimeout key i) = lock_timeout key i r"
| "lock_step r (LRelease key i) = lock_release key i r"

text \<open>The callers of a key, and those of them that hold the lock.\<close>

definition callers :: "string \<Rightarrow> lock_registry \<Rightarrow> caller list" where
  "callers key r = (case map_of (locks r) key of Some m \<Rightarrow> chain m | None \<Rightarrow> [])"

definition holders :: "string \<Rightarrow> lock_registry \<Rightarrow> nat list" where
  "holders key r = map callerId (filter (\<lambda>c. status c = Holding) (callers key r))"

text \<open>
  The shape of a chain: callers that have released, then at most one that is not merely waiting
  or timed out behind another.
\<close>

definition pending :: "caller_status \<Rightarrow> bool" where
  "pending st \<longleftrightarrow> st = Waiting \<or> st = TimedOut"

fun chain_shape :: "caller_status list \<Rightarrow> bool" where
  "chain_shape [] = True"
| "chain_shape (s # ss) = (if s = Released then chain_shape ss else list_all pending ss)"

definition mutex_ok :: "nat \<Rightarrow> mutex_state \<Rightarrow> bool" where
  "mutex_ok n m \<longleftrightarrow>
     chain_shape (map status (chain m)) \<and> sorted_wrt (<) (map callerId (chain m))
     \<and> (\<forall>c \<in> set (chain m). callerId c < n)
     \<and> waiters m = int (length (filter (\<lambda>c. status c \<noteq> Released) (chain m)))
     \<and> 0 < waiters m"

definition registry_ok :: "lock_registry \<Rightarrow> bool" where
  "registry_ok r \<longleftrightarrow>
     js_wf (locks r) \<and> (\<forall>key m. map_of (locks r) key = Some m \<longrightarrow> mutex_ok (nextCaller r) m)"

subsection \<open>Facts\<close>

lemma map_callerId_set_status [simp]: "map callerId (set_status i st cs) = map callerId cs"
  by (induction cs) (auto simp: set_status_def)

lemma set_status_simps [simp]:
  "set_status i st [] = []"
  "set_status i st (c # cs)
   = (if callerId c = i then c\<lparr>status := st\<rparr> else c) # set_status i st cs"
  by (simp_all add: set_status_def)

lemma set_status_append [simp]: "set_status i st (a @ b) = set_status i st a @ set_status i st b"
  by (simp add: set_status_def)

lemma set_status_fresh: "i \<notin> callerId ` set cs \<Longrightarrow> set_status i st cs = cs"
  by (induction cs) auto

lemma sorted_distinct: "sorted_wrt (<) (xs :: nat list) \<Longrightarrow> distinct xs"
  by (simp add: strict_sorted_iff)

text \<open>A caller found in a chain splits it.\<close>

lemma status_of_split:
  assumes "status_of i cs = Some st" "distinct (map callerId cs)"
  obtains a c b where "cs = a @ c # b" "callerId c = i" "status c = st"
    "i \<notin> callerId ` set a" "i \<notin> callerId ` set b"
proof -
  obtain c where f: "List.find (\<lambda>c. callerId c = i) cs = Some c" and st: "status c = st"
    using assms(1) by (auto simp: status_of_def)
  then have c: "c \<in> set cs" "callerId c = i"
    by (auto simp: find_Some_iff)
  then obtain a b where "cs = a @ c # b" by (meson split_list)
  then show thesis using that [of a c b] assms(2) c st by auto
qed

lemma chain_ready_split_ex:
  "chain_ready i p cs \<Longrightarrow>
   \<exists>a c b. cs = a @ c # b \<and> callerId c = i \<and> status c = Waiting \<and> i \<notin> callerId ` set a
     \<and> (if a = [] then p else status (last a) = Released)"
proof (induction cs arbitrary: p)
  case (Cons d cs)
  show ?case
  proof (cases "callerId d = i")
    case True
    then have "d # cs = [] @ d # cs \<and> callerId d = i \<and> status d = Waiting \<and> p"
      using Cons.prems by simp
    then show ?thesis by fastforce
  next
    case False
    then have "chain_ready i (status d = Released) cs" using Cons.prems by simp
    from Cons.IH [OF this] obtain a c b where acb: "cs = a @ c # b" "callerId c = i"
      "status c = Waiting" "i \<notin> callerId ` set a"
      "if a = [] then status d = Released else status (last a) = Released"
      by blast
    have "d # cs = (d # a) @ c # b" "i \<notin> callerId ` set (d # a)"
      "status (last (d # a)) = Released"
      using acb False by (auto split: if_splits)
    then show ?thesis using acb(2,3) by (metis list.distinct(1))
  qed
qed simp

lemma chain_ready_split:
  assumes "chain_ready i p cs"
  obtains a c b where "cs = a @ c # b" "callerId c = i" "status c = Waiting"
    "i \<notin> callerId ` set a" "a = [] \<Longrightarrow> p" "a \<noteq> [] \<Longrightarrow> status (last a) = Released"
proof -
  from chain_ready_split_ex [OF assms] obtain a c b where
    "cs = a @ c # b" "callerId c = i" "status c = Waiting" "i \<notin> callerId ` set a"
    "if a = [] then p else status (last a) = Released" by blast
  then show thesis by (cases "a = []") (auto intro: that)
qed

lemma chain_shape_append:
  "chain_shape (xs @ ys) \<longleftrightarrow>
     chain_shape xs \<and> (if list_all (\<lambda>s. s = Released) xs then chain_shape ys else list_all pending ys)"
  by (induction xs) (auto simp: list_all_iff)

lemma pending_shape: "list_all pending ys \<Longrightarrow> ys = [] \<or> (\<exists>z zs. ys = z # zs \<and> chain_shape ys)"
  by (cases ys) (auto simp: pending_def)

lemma shape_released_prefix:
  "chain_shape (xs @ y # ys) \<Longrightarrow> y = Holding \<or> y = Released \<Longrightarrow> \<forall>x \<in> set xs. x = Released"
  by (induction xs) (auto simp: pending_def list_all_iff split: if_splits)

lemma shape_last_released:
  "chain_shape xs \<Longrightarrow> xs \<noteq> [] \<Longrightarrow> last xs = Released \<Longrightarrow> \<forall>x \<in> set xs. x = Released"
  using shape_released_prefix [of "butlast xs" "last xs" "[]"]
  by (metis append_butlast_last_id insert_iff list.simps(15) rotate1.simps(2) set_rotate1)

lemma holder_prefix:
  assumes "mutex_ok n m" "chain m = a @ c # b" "status c = Holding \<or> status c = Released"
  shows "\<forall>d \<in> set a. status d = Released"
  using shape_released_prefix [of "map status a" "status c" "map status b"] assms
  by (auto simp: mutex_ok_def)

lemma mutex_ok_acquire:
  assumes "mutex_ok n m \<or> m = \<lparr>chain = [], waiters = 0\<rparr>"
  shows "mutex_ok (Suc n) (m\<lparr>waiters := waiters m + 1,
           chain := chain m @ [\<lparr>callerId = n, status = Waiting\<rparr>]\<rparr>)"
  using assms
  by (auto simp: mutex_ok_def chain_shape_append pending_def less_Suc_eq sorted_wrt_append)

lemma mutex_ok_mono: "mutex_ok n m \<Longrightarrow> n \<le> k \<Longrightarrow> mutex_ok k m"
  by (auto simp: mutex_ok_def)

lemma mutex_ok_grant:
  assumes "mutex_ok n m" "chain_ready i True (chain m)"
  shows "mutex_ok n (m\<lparr>chain := set_status i Holding (chain m)\<rparr>)"
  using assms(2)
proof (rule chain_ready_split)
  fix a c b
  assume s: "chain m = a @ c # b" "callerId c = i" "status c = Waiting"
    "i \<notin> callerId ` set a" "a \<noteq> [] \<Longrightarrow> status (last a) = Released"
  have "chain_shape (map status a)" using assms(1) s(1) by (simp add: mutex_ok_def chain_shape_append)
  then have "\<forall>d \<in> set a. status d = Released"
    using shape_last_released [of "map status a"] s(5) by (cases "a = []") (auto simp: last_map)
  moreover have "distinct (map callerId (chain m))"
    using assms(1) by (simp add: mutex_ok_def sorted_distinct)
  then have "i \<notin> callerId ` set b" using s by auto
  ultimately show ?thesis using assms(1) s
    by (auto simp: mutex_ok_def chain_shape_append set_status_fresh list_all_iff)
qed

lemma mutex_ok_timeout:
  assumes "mutex_ok n m" "status_of i (chain m) = Some Waiting"
  shows "mutex_ok n (m\<lparr>chain := set_status i TimedOut (chain m)\<rparr>)"
proof -
  have "distinct (map callerId (chain m))" using assms(1) by (simp add: mutex_ok_def sorted_distinct)
  with assms(2) show ?thesis
  proof (rule status_of_split)
    fix a c b
    assume s: "chain m = a @ c # b" "callerId c = i" "status c = Waiting"
      "i \<notin> callerId ` set a" "i \<notin> callerId ` set b"
    have shape: "chain_shape (map status a @ status c # map status b)"
      using assms(1) s(1) by (simp add: mutex_ok_def)
    have "chain_shape (map status a @ TimedOut # map status b)"
      using shape s(3) unfolding chain_shape_append by (simp add: pending_def split: if_splits)
    then show ?thesis using assms(1) s
      by (simp add: mutex_ok_def set_status_fresh)
  qed
qed

lemma mutex_ok_release:
  assumes "mutex_ok n m" "status_of i (chain m) = Some Holding"
    "m' = m\<lparr>waiters := waiters m - 1, chain := set_status i Released (chain m)\<rparr>" "waiters m' \<noteq> 0"
  shows "mutex_ok n m'"
proof -
  have "distinct (map callerId (chain m))" using assms(1) by (simp add: mutex_ok_def sorted_distinct)
  with assms(2) show ?thesis
  proof (rule status_of_split)
    fix a c b
    assume s: "chain m = a @ c # b" "callerId c = i" "status c = Holding"
      "i \<notin> callerId ` set a" "i \<notin> callerId ` set b"
    have rel: "\<forall>d \<in> set a. status d = Released" using holder_prefix [OF assms(1) s(1)] s(3) by simp
    have "list_all pending (map status b)"
      using assms(1) s rel by (auto simp: mutex_ok_def chain_shape_append list_all_iff)
    then have "chain_shape (map status b)" by (cases b) (auto simp: pending_def)
    then show ?thesis using assms(1,3,4) s rel
      by (auto simp: mutex_ok_def chain_shape_append set_status_fresh list_all_iff)
  qed
qed

lemma registry_ok_new: "registry_ok new_lock_registry"
  by (simp add: registry_ok_def new_lock_registry_def)

lemma registry_okD: "registry_ok r \<Longrightarrow> map_of (locks r) key = Some m \<Longrightarrow> mutex_ok (nextCaller r) m"
  by (simp add: registry_ok_def)

lemma registry_ok_put:
  "registry_ok r \<Longrightarrow> mutex_ok (nextCaller r) m \<Longrightarrow>
   registry_ok (r\<lparr>locks := AList.update key m (locks r)\<rparr>)"
  by (simp add: registry_ok_def)

lemma registry_ok_del: "registry_ok r \<Longrightarrow> registry_ok (r\<lparr>locks := AList.delete key (locks r)\<rparr>)"
  by (simp add: registry_ok_def)

lemma registry_ok_step: "registry_ok r \<Longrightarrow> registry_ok (lock_step r e)"
proof (cases e)
  case (LAcquire key)
  assume ok: "registry_ok r"
  define cur where "cur = (case map_of (locks r) key of
    Some m \<Rightarrow> m | None \<Rightarrow> \<lparr>chain = [], waiters = 0\<rparr>)"
  define cur' where "cur' = cur\<lparr>waiters := waiters cur + 1,
    chain := chain cur @ [\<lparr>callerId = nextCaller r, status = Waiting\<rparr>]\<rparr>"
  have "mutex_ok (nextCaller r) cur \<or> cur = \<lparr>chain = [], waiters = 0\<rparr>"
    using ok by (cases "map_of (locks r) key") (auto simp: registry_ok_def cur_def)
  then have m1: "mutex_ok (Suc (nextCaller r)) cur'" unfolding cur'_def by (rule mutex_ok_acquire)
  have m2: "mutex_ok (Suc (nextCaller r)) m" if "map_of (locks r) k = Some m" for k m
    using ok that mutex_ok_mono [of "nextCaller r" m "Suc (nextCaller r)"]
    by (auto simp: registry_ok_def)
  have "lock_step r e = r\<lparr>locks := AList.update key cur' (locks r), nextCaller := Suc (nextCaller r)\<rparr>"
    unfolding LAcquire by (simp add: lock_acquire_def cur'_def cur_def Let_def)
  moreover have "js_wf (locks r)" using ok by (simp add: registry_ok_def)
  ultimately show ?thesis
    unfolding registry_ok_def using m1 m2 by simp
next
  case (LGrant key i)
  assume ok: "registry_ok r"
  show ?thesis
    unfolding LGrant lock_step.simps lock_grant_def
    by (cases "map_of (locks r) key")
       (simp_all add: ok registry_ok_put mutex_ok_grant registry_okD [OF ok])
next
  case (LTimeout key i)
  assume ok: "registry_ok r"
  show ?thesis
    unfolding LTimeout lock_step.simps lock_timeout_def
    by (cases "map_of (locks r) key")
       (simp_all add: ok registry_ok_put mutex_ok_timeout registry_okD [OF ok])
next
  case (LRelease key i)
  assume ok: "registry_ok r"
  show ?thesis
  proof (cases "map_of (locks r) key")
    case (Some m)
    define m' where "m' = m\<lparr>waiters := waiters m - 1, chain := set_status i Released (chain m)\<rparr>"
    have "registry_ok (r\<lparr>locks := AList.update key m' (locks r)\<rparr>)"
      if "status_of i (chain m) = Some Holding" "waiters m' \<noteq> 0"
      by (rule registry_ok_put [OF ok mutex_ok_release [OF registry_okD [OF ok Some] that(1) m'_def that(2)]])
    then show ?thesis
      using ok Some by (simp add: LRelease lock_release_def registry_ok_del m'_def Let_def)
  qed (simp add: LRelease lock_release_def ok)
qed

interpretation lock: stepper lock_step registry_ok
  by unfold_locales (rule registry_ok_step)

subsection \<open>Every reachable registry\<close>

lemma registry_ok_run: "registry_ok (foldl lock_step new_lock_registry es)"
  by (rule lock.inv_run [OF registry_ok_new])

lemma callers_ok:
  assumes "registry_ok r"
  shows "callers key r = [] \<or> (\<exists>m. map_of (locks r) key = Some m \<and> callers key r = chain m
           \<and> mutex_ok (nextCaller r) m)"
  using assms by (cases "map_of (locks r) key") (auto simp: callers_def registry_ok_def)

lemma callers_shape: "registry_ok r \<Longrightarrow> chain_shape (map status (callers key r))"
  using callers_ok [of r key] by (auto simp: mutex_ok_def)

lemma callers_sorted: "registry_ok r \<Longrightarrow> sorted_wrt (<) (map callerId (callers key r))"
  using callers_ok [of r key] by (auto simp: mutex_ok_def)

lemma shape_holders: "chain_shape ss \<Longrightarrow> length (filter (\<lambda>s. s = Holding) ss) \<le> 1"
proof (induction ss)
  case (Cons s ss)
  have "list_all pending ss \<Longrightarrow> filter (\<lambda>s. s = Holding) ss = []"
    by (induction ss) (auto simp: pending_def)
  then show ?case using Cons by (auto split: if_splits)
qed simp

lemma length_holders:
  "length (holders key r) = length (filter (\<lambda>s. s = Holding) (map status (callers key r)))"
  by (simp add: holders_def filter_map comp_def)

text \<open>A caller that timed out stays in its chain, and its promise is never resolved.\<close>

lemma status_of_Cons [simp]:
  "status_of i [] = None"
  "status_of i (c # cs) = (if callerId c = i then Some (status c) else status_of i cs)"
  by (simp_all add: status_of_def)

lemma status_of_set_status:
  "status_of i (set_status j st cs) =
     (if i = j \<and> status_of i cs \<noteq> None then Some st else status_of i cs)"
  by (induction cs) (auto simp: status_of_def)

lemma status_of_append:
  "status_of i (a @ b) = (case status_of i a of Some st \<Rightarrow> Some st | None \<Rightarrow> status_of i b)"
  by (induction a) (auto simp: status_of_def)

lemma status_of_in: "status_of i cs = Some st \<Longrightarrow> \<exists>c \<in> set cs. callerId c = i \<and> status c = st"
  by (induction cs) (auto simp: status_of_def split: if_splits)

lemma chain_ready_waiting: "chain_ready i p cs \<Longrightarrow> status_of i cs = Some Waiting"
  by (induction cs arbitrary: p) (auto simp: status_of_def split: if_splits)

lemma callers_simps [simp]:
  "callers key (r\<lparr>locks := AList.update k m (locks r)\<rparr>) = (if key = k then chain m else callers key r)"
  "callers key (r\<lparr>locks := AList.delete k (locks r)\<rparr>) = (if key = k then [] else callers key r)"
  "callers key (r\<lparr>nextCaller := n\<rparr>) = callers key r"
  by (auto simp: callers_def)

lemma lock_step_keeps:
  assumes ok: "registry_ok r" and t: "status_of i (callers key r) = Some st" and st: "st \<noteq> Released"
    and e: "e \<noteq> LGrant key i" "e \<noteq> LTimeout key i" "e \<noteq> LRelease key i"
  shows "status_of i (callers key (lock_step r e)) = Some st"
proof (cases e)
  case (LAcquire k)
  obtain m where m: "map_of (locks r) key = Some m"
    using t by (cases "map_of (locks r) key") (auto simp: callers_def status_of_def)
  show ?thesis
  proof (cases "k = key")
    case True
    then show ?thesis using t m unfolding LAcquire
      by (simp add: lock_acquire_def Let_def callers_def status_of_append)
  next
    case False
    then show ?thesis using t m unfolding LAcquire
      by (simp add: lock_acquire_def Let_def callers_def)
  qed
next
  case (LGrant k j)
  show ?thesis
  proof (cases "map_of (locks r) k")
    case (Some m)
    then show ?thesis using t e unfolding LGrant
      by (auto simp: lock_grant_def status_of_set_status callers_def)
  qed (simp add: LGrant lock_grant_def t)
next
  case (LTimeout k j)
  show ?thesis
  proof (cases "map_of (locks r) k")
    case (Some m)
    then show ?thesis using t e unfolding LTimeout
      by (auto simp: lock_timeout_def status_of_set_status callers_def)
  qed (simp add: LTimeout lock_timeout_def t)
next
  case (LRelease k j)
  show ?thesis
  proof (cases "map_of (locks r) k")
    case (Some m)
    show ?thesis
    proof (cases "k = key \<and> status_of j (chain m) = Some Holding")
      case True
      then have cs: "callers key r = chain m" using Some by (simp add: callers_def)
      then have ne: "i \<noteq> j" using e True LRelease by auto
      from ok Some have mok: "mutex_ok (nextCaller r) m" by (rule registry_okD)
      let ?nr = "filter (\<lambda>c. status c \<noteq> Released) (chain m)"
      obtain c where "c \<in> set (chain m)" "callerId c = i" "status c = st"
        using status_of_in [OF t] cs by auto
      moreover obtain d where "d \<in> set (chain m)" "callerId d = j" "status d = Holding"
        using status_of_in [of j "chain m" Holding] True by auto
      ultimately have "c \<in> set ?nr" "callerId c = i" "d \<in> set ?nr" "callerId d = j"
        using st by auto
      then have "card {c, d} \<le> card (set ?nr)" "c \<noteq> d" using ne by (auto intro: card_mono)
      then have "2 \<le> length ?nr" using card_length [of ?nr] by auto
      then have "waiters m - 1 \<noteq> 0" using mok by (simp add: mutex_ok_def)
      then show ?thesis using t True Some ne cs
        by (simp add: LRelease lock_release_def Let_def status_of_set_status)
    next
      case False
      then show ?thesis using t Some
        by (auto simp: LRelease lock_release_def Let_def callers_def)
    qed
  qed (simp add: LRelease lock_release_def t)
qed

lemma lock_step_idle:
  assumes "status_of i (callers key r) = Some TimedOut"
    and "e = LGrant key i \<or> e = LTimeout key i \<or> e = LRelease key i"
  shows "lock_step r e = r"
proof (cases "map_of (locks r) key")
  case (Some m)
  then have "status_of i (chain m) = Some TimedOut" using assms(1) by (simp add: callers_def)
  moreover from this have "\<not> chain_ready i True (chain m)" using chain_ready_waiting by fastforce
  ultimately show ?thesis using assms(2) Some
    by (auto simp: lock_grant_def lock_timeout_def lock_release_def)
qed (use assms(2) in \<open>auto simp: lock_grant_def lock_timeout_def lock_release_def\<close>)

lemma timedOut_stays:
  assumes "registry_ok r" "status_of i (callers key r) = Some TimedOut"
  shows "status_of i (callers key (lock_step r e)) = Some TimedOut"
  using lock_step_keeps [OF assms] lock_step_idle [OF assms(2), of e] assms(2) by fastforce

lemma timedOut_stays_run:
  "registry_ok r \<Longrightarrow> status_of i (callers key r) = Some TimedOut \<Longrightarrow>
   status_of i (callers key (foldl lock_step r es)) = Some TimedOut"
  by (induction es arbitrary: r) (auto intro: timedOut_stays registry_ok_step)

lemma holders_before_timedOut:
  assumes ok: "registry_ok r" and t: "status_of i (callers key r) = Some TimedOut"
    and j: "j \<in> set (holders key r)"
  shows "j < i"
proof -
  obtain c where c: "c \<in> set (callers key r)" "callerId c = j" "status c = Holding"
    using j by (auto simp: holders_def)
  then obtain a b where ab: "callers key r = a @ c # b" by (meson split_list)
  obtain d where d: "d \<in> set (callers key r)" "callerId d = i" "status d = TimedOut"
    using status_of_in [OF t] by blast
  have "\<forall>x \<in> set a. status x = Released"
    using shape_released_prefix [of "map status a" "status c" "map status b"]
      callers_shape [OF ok, of key] ab c(3) by auto
  then have "d \<in> set b" using d c ab by auto
  then show ?thesis using callers_sorted [OF ok, of key] ab c(2) d(2)
    by (auto simp: sorted_wrt_append)
qed

lemma chain_ready_first:
  "\<forall>x \<in> set a. status x = Released \<Longrightarrow> status c = Waiting \<Longrightarrow> callerId c \<notin> callerId ` set a
   \<Longrightarrow> p \<Longrightarrow> chain_ready (callerId c) p (a @ c # b)"
  by (induction a arbitrary: p) auto

text \<open>What a single operation does to the caller it names.\<close>

lemma lock_acquire_new:
  assumes "registry_ok r"
  shows "status_of (nextCaller r) (callers key (snd (lock_acquire key r))) = Some Waiting"
proof -
  have "status_of (nextCaller r) (callers key r) = None"
    using callers_ok [OF assms, of key]
    by (fastforce simp: mutex_ok_def status_of_def find_None_iff)
  then show ?thesis
    by (cases "map_of (locks r) key")
       (simp_all add: lock_acquire_def Let_def callers_def status_of_append)
qed

lemma fst_lock_acquire [simp]: "fst (lock_acquire key r) = nextCaller r"
  by (simp add: lock_acquire_def Let_def)

lemma lock_release_done:
  assumes "registry_ok r"
  shows "status_of i (callers key (lock_release key i r)) \<noteq> Some Holding"
proof (cases "map_of (locks r) key")
  case (Some m)
  then show ?thesis
    by (cases "status_of i (chain m) = Some Holding")
       (simp_all add: lock_release_def Let_def callers_def status_of_set_status)
qed (simp add: lock_release_def callers_def status_of_def)

lemma status_of_member:
  "c \<in> set cs \<Longrightarrow> distinct (map callerId cs) \<Longrightarrow> status_of (callerId c) cs = Some (status c)"
  by (induction cs) (auto simp: status_of_def)

lemma holders_status: "i \<in> set (holders key r) \<Longrightarrow> registry_ok r \<Longrightarrow> status_of i (callers key r) = Some Holding"
proof -
  assume i: "i \<in> set (holders key r)" and ok: "registry_ok r"
  obtain c where c: "c \<in> set (callers key r)" "callerId c = i" "status c = Holding"
    using i by (auto simp: holders_def)
  have "distinct (map callerId (callers key r))"
    using callers_sorted [OF ok] by (rule sorted_distinct)
  with c show "status_of i (callers key r) = Some Holding"
    using status_of_member [of c "callers key r"] by simp
qed

lemma status_holders: "status_of i (callers key r) = Some Holding \<Longrightarrow> i \<in> set (holders key r)"
  using status_of_in [of i "callers key r" Holding] by (force simp: holders_def)

lemma holders_unique:
  assumes "registry_ok r" "status_of i (callers key r) = Some Holding"
    "status_of j (callers key r) = Some Holding"
  shows "i = j"
proof -
  have "length (holders key r) \<le> 1"
    using shape_holders [OF callers_shape [OF assms(1), of key]] by (simp only: length_holders)
  moreover have "i \<in> set (holders key r)" "j \<in> set (holders key r)"
    using assms status_holders by auto
  ultimately show ?thesis
    by (cases "holders key r") auto
qed

subsection \<open>Properties\<close>

text \<open>C7: Mutual exclusion. Whatever the callers do (acquire, be granted, time out, release,
  release twice), and in whatever order the event loop runs it, a key has at most one holder.\<close>

theorem lock_mutual_exclusion:
  "length (holders key (foldl lock_step new_lock_registry es)) \<le> 1"
  using shape_holders [OF callers_shape [OF registry_ok_run, of key es]]
  by (simp only: length_holders)

text \<open>The lock is handed out in order of arrival: when a caller holds the lock or has held
  it, every caller that came before it in the chain has released it.\<close>

theorem lock_fifo:
  assumes "callers key (foldl lock_step new_lock_registry es) = a @ c # b"
    and "status c = Holding \<or> status c = Released"
  shows "(\<forall>d \<in> set a. status d = Released \<and> callerId d < callerId c)
         \<and> (\<forall>d \<in> set b. callerId c < callerId d)"
proof -
  let ?r = "foldl lock_step new_lock_registry es"
  have "\<forall>d \<in> set a. status d = Released"
    using shape_released_prefix [of "map status a" "status c" "map status b"]
      callers_shape [OF registry_ok_run, of key es] assms by auto
  moreover have "sorted_wrt (<) (map callerId (a @ c # b))"
    using callers_sorted [OF registry_ok_run, of key es] assms(1) by simp
  ultimately show ?thesis by (auto simp: sorted_wrt_append)
qed

theorem lock_fifo_witness:
  "list_all (\<lambda>d. status d = Released \<and> callerId d < 1) [\<lparr>callerId = 0, status = Released\<rparr>]"
  using lock_fifo [of "''k''"
      "[LAcquire ''k'', LAcquire ''k'', LGrant ''k'' 0, LRelease ''k'' 0, LGrant ''k'' 1]"
      "[\<lparr>callerId = 0, status = Released\<rparr>]" "\<lparr>callerId = 1, status = Holding\<rparr>" "[]"]
  by (simp add: new_lock_registry_def lock_acquire_def lock_grant_def lock_release_def
      status_of_def callers_def Let_def)

text \<open>A caller that can be granted waits behind callers that have all released; so there is only one.\<close>

lemma grantable_split:
  assumes ok: "mutex_ok n m" and r: "chain_ready i True (chain m)"
  shows "takeWhile (\<lambda>c. status c = Released) (chain m) \<noteq> chain m \<and>
    callerId (hd (dropWhile (\<lambda>c. status c = Released) (chain m))) = i"
  using r
proof (rule chain_ready_split)
  fix a c b
  assume s: "chain m = a @ c # b" "callerId c = i" "status c = Waiting" "i \<notin> callerId ` set a"
    "a \<noteq> [] \<Longrightarrow> status (last a) = Released"
  have "chain_shape (map status a)" using ok s(1) by (simp add: mutex_ok_def chain_shape_append)
  then have "\<forall>d \<in> set a. status d = Released"
    using shape_last_released [of "map status a"] s(5) by (cases "a = []") (auto simp: last_map)
  then show ?thesis using s(1-3) by (simp add: dropWhile_append2 takeWhile_append2)
qed

lemma grant_other:
  assumes "mutex_ok n m" "map_of (locks r) key = Some m" "chain_ready i True (chain m)" "j \<noteq> i"
  shows "lock_grant key j r = r"
  using grantable_split [OF assms(1,3)] grantable_split [OF assms(1), of j] assms(2,4)
  by (auto simp: lock_grant_def)

text \<open>C8: Progress, in order of arrival. As long as no caller of a key has timed out, a key with waiting callers and
  no holder can be granted to the one that came first of those that wait, which then holds it alone; and it can be
  granted to nobody else.\<close>

theorem lock_progress:
  assumes "\<forall>c \<in> set (callers key (foldl lock_step new_lock_registry es)). status c \<noteq> TimedOut"
    and "holders key (foldl lock_step new_lock_registry es) = []"
    and "waiters_of key (foldl lock_step new_lock_registry es) > 0"
  shows "\<exists>i. status_of i (callers key (foldl lock_step new_lock_registry es)) = Some Waiting
          \<and> holders key (lock_grant key i (foldl lock_step new_lock_registry es)) = [i]
          \<and> (\<forall>c \<in> set (callers key (foldl lock_step new_lock_registry es)). status c = Waiting \<longrightarrow> i \<le> callerId c)
          \<and> (\<forall>j. j \<noteq> i \<longrightarrow> lock_grant key j (foldl lock_step new_lock_registry es)
                            = foldl lock_step new_lock_registry es)"
proof -
  let ?r = "foldl lock_step new_lock_registry es"
  obtain m where m: "map_of (locks ?r) key = Some m"
    using assms(3) by (cases "map_of (locks ?r) key") (auto simp: waiters_of_def)
  have cs: "callers key ?r = chain m" using m by (simp add: callers_def)
  have mok: "mutex_ok (nextCaller ?r) m" using registry_okD [OF registry_ok_run m] .
  have "filter (\<lambda>c. status c \<noteq> Released) (chain m) \<noteq> []"
    using mok by (auto simp: mutex_ok_def)
  then obtain c where "c \<in> set (chain m)" "status c \<noteq> Released"
    by (auto simp: filter_empty_conv)
  then obtain a d b where split: "chain m = a @ d # b" "status d \<noteq> Released"
    "\<forall>x \<in> set a. \<not> status x \<noteq> Released"
    using split_list_first_prop [of "chain m" "\<lambda>c. status c \<noteq> Released"] by blast
  have "status d \<noteq> Holding" using assms(2) cs split(1) by (auto simp: holders_def)
  moreover have "status d \<noteq> TimedOut" using assms(1) cs split(1) by auto
  ultimately have dw: "status d = Waiting" using split(2) by (cases "status d") auto
  have dist: "distinct (map callerId (chain m))"
    using mok by (simp add: mutex_ok_def sorted_distinct)
  have ready: "chain_ready (callerId d) True (chain m)"
    using chain_ready_first [of a d True b] split dw dist by auto
  have noh: "filter (\<lambda>c. status c = Holding) (chain m) = []"
    using assms(2) cs by (simp add: holders_def)
  have granted: "holders key (lock_grant key (callerId d) ?r) = [callerId d]"
    using m ready noh split(1) dist dw
    by (simp add: lock_grant_def holders_def set_status_fresh)
  have "sorted_wrt (<) (map callerId (a @ d # b))" using mok split(1) by (simp add: mutex_ok_def)
  then have first: "\<forall>c \<in> set (chain m). status c = Waiting \<longrightarrow> callerId d \<le> callerId c"
    using split by (auto simp: sorted_wrt_append less_imp_le)
  have others: "lock_grant key j ?r = ?r" if "j \<noteq> callerId d" for j
    by (rule grant_other [OF mok m ready that])
  show ?thesis
    by (rule exI [of _ "callerId d"]) (use chain_ready_waiting [OF ready] cs granted first others in auto)
qed

theorem lock_progress_witness:
  "\<exists>i. status_of i [\<lparr>callerId = 0, status = Waiting\<rparr>, \<lparr>callerId = 1, status = Waiting\<rparr>] = Some Waiting
     \<and> holders ''k'' (lock_grant ''k'' i (foldl lock_step new_lock_registry [LAcquire ''k'', LAcquire ''k''])) = [i] \<and> i = 0"
proof -
  let ?es = "[LAcquire ''k'', LAcquire ''k'']"
  have cs: "callers ''k'' (foldl lock_step new_lock_registry ?es)
      = [\<lparr>callerId = 0, status = Waiting\<rparr>, \<lparr>callerId = 1, status = Waiting\<rparr>]"
    by (simp add: new_lock_registry_def lock_acquire_def callers_def)
  have "holders ''k'' (foldl lock_step new_lock_registry ?es) = []" "waiters_of ''k'' (foldl lock_step new_lock_registry ?es) > 0"
    using cs by (simp_all add: holders_def new_lock_registry_def lock_acquire_def waiters_of_def)
  from lock_progress [OF _ this] cs obtain i where
    "status_of i [\<lparr>callerId = 0, status = Waiting\<rparr>, \<lparr>callerId = 1, status = Waiting\<rparr>] = Some Waiting"
    "holders ''k'' (lock_grant ''k'' i (foldl lock_step new_lock_registry ?es)) = [i]" "i \<le> 0"
    by auto
  then show ?thesis by blast
qed

text \<open>A caller that timed out never resolves the promise it left in the chain and stays
  counted in \<open>waiters\<close>: from then on, whatever happens, no caller that came after it ever holds
  the lock, and the key never leaves the registry. So a single timeout under contention blocks
  the key for good, where the code's comments promise that a release unblocks the next waiter.\<close>

theorem lock_timeout_blocks_key:
  assumes "status_of i (callers key (foldl lock_step new_lock_registry es)) = Some TimedOut"
  shows "js_has (locks (foldl lock_step new_lock_registry (es @ later))) key
         \<and> (\<forall>j \<in> set (holders key (foldl lock_step new_lock_registry (es @ later))). j < i)"
proof -
  let ?r = "foldl lock_step new_lock_registry (es @ later)"
  have t: "status_of i (callers key ?r) = Some TimedOut"
    using timedOut_stays_run [OF registry_ok_run assms] by simp
  then have "map_of (locks ?r) key \<noteq> None"
    by (cases "map_of (locks ?r) key") (simp_all add: callers_def status_of_def)
  then have "js_has (locks ?r) key" unfolding js_has_def .
  moreover have "\<forall>j \<in> set (holders key ?r). j < i"
    using holders_before_timedOut [OF registry_ok_run t] by blast
  ultimately show ?thesis by (rule conjI)
qed

theorem lock_timeout_blocks_key_witness:
  "js_has (locks (foldl lock_step new_lock_registry
      ([LAcquire ''k'', LAcquire ''k'', LGrant ''k'' 0, LTimeout ''k'' 1]
       @ [LRelease ''k'' 0, LAcquire ''k'', LGrant ''k'' 2]))) ''k''"
proof -
  have "status_of 1 (callers ''k'' (foldl lock_step new_lock_registry
          [LAcquire ''k'', LAcquire ''k'', LGrant ''k'' 0, LTimeout ''k'' 1])) = Some TimedOut"
    by (simp add: new_lock_registry_def lock_acquire_def lock_grant_def lock_timeout_def
        status_of_def callers_def Let_def)
  from lock_timeout_blocks_key [OF this, of "[LRelease ''k'' 0, LAcquire ''k'', LGrant ''k'' 2]"]
  show ?thesis by (rule conjunct1)
qed

end
