(* ===== verification/DaemonServer.thy ===== *)
theory DaemonServer
  imports LineFraming SharedKV SharedLock
begin

text \<open>
  The daemon, \<open>src/src/daemon/server.ts\<close>: connections with their challenge, their buffer and
  their lock handles, the request dispatch over the shared store and the shared locks, and what
  a disconnect undoes. One event is one callback of the event loop.

  Two functions are parameters: \<open>parse\<close> is \<open>JSON.parse\<close> followed by the reads of the fields the
  server looks at (None when it throws; a JSON value that is no object is a request without any of the fields;
  the text \<open>null\<close>, on which the reads throw, is outside the model), \<open>hmac secret nonce\<close>
  is the hexadecimal HMAC-SHA256 of \<open>node:crypto\<close>. JSON values stay abstract (\<open>'j\<close>).
  A reply is recorded when its request is decided; the relative order of the replies to the
  requests of one chunk is not modelled.
\<close>

definition MAX_BUFFER_BYTES :: nat where "MAX_BUFFER_BYTES = 10 * 1024 * 1024"

record 'j rpc_request =
  reqId :: 'j
  reqMethod :: string
  p_token :: "string option"
  p_key :: string
  p_value :: 'j
  p_ttl :: "int option"
  p_prefix :: "string option"
  p_channel :: string
  p_message :: 'j

record daemon_stats =
  uptime :: time
  connectedClients :: nat
  kvKeys :: nat
  activeLocks :: bool
  handledRequests :: nat

datatype 'j rpc_result =
    RNull
  | RValue 'j
  | RKeys "string list"
  | RAcquired string
  | RReleased bool
  | RSubscribed
  | RPong
  | RStats daemon_stats
  | RAuthenticated

datatype 'j wire_message =
    Challenge string
  | Result 'j "'j rpc_result"
  | Failure 'j int string
  | Envelope string 'j

text \<open>\<open>ClientState\<close> with the variables of the closure \<open>handleConnection\<close> makes for the socket.\<close>

record client_conn =
  authenticated :: bool
  conn_buffer :: string
  conn_nonce :: string
  destroyed :: bool
  conn_closed :: bool
  lockHandles :: "(string, nat) jsmap"

record 'j daemon =
  sharedSecret :: string
  d_kv :: "'j kv"
  d_lock :: lock_registry
  conns :: "(nat, client_conn) jsmap"
  clients :: "nat list"
  requestsHandled :: nat
  running :: bool
  startTime :: time
  suspended :: "(nat, string \<times> nat \<times> 'j) jsmap"
  wire_out :: "(nat \<times> 'j wire_message) list"

definition new_daemon :: "string \<Rightarrow> time \<Rightarrow> 'j kv \<Rightarrow> 'j daemon" where
  "new_daemon secret now kv0 =
     \<lparr>sharedSecret = secret, d_kv = kv0, d_lock = new_lock_registry, conns = [], clients = [],
      requestsHandled = 0, running = False, startTime = now, suspended = [], wire_out = []\<rparr>"

text \<open>The secret: read from the file, or drawn when there is none.\<close>

datatype secret_file = FileText string | FileMissing | FileUnreadable string

definition loadOrCreateSecret ::
  "(string \<Rightarrow> string option) \<Rightarrow> string \<Rightarrow> secret_file \<Rightarrow> string + (string \<times> string option)" where
  "loadOrCreateSecret parseSecret drawn f =
     (case f of
        FileText raw \<Rightarrow>
          (case parseSecret raw of Some secret \<Rightarrow> Inr (secret, None) | None \<Rightarrow> Inl ''SyntaxError'')
      | FileUnreadable code \<Rightarrow> Inl code
      | FileMissing \<Rightarrow> Inr (drawn, Some drawn))"

text \<open>\<open>start\<close>: the socket file exists or not, a daemon answers on it or not, listening works or not.\<close>

definition daemon_start :: "bool \<Rightarrow> bool \<Rightarrow> bool \<Rightarrow> 'j daemon \<Rightarrow> (string + unit) \<times> 'j daemon" where
  "daemon_start socketExists isLive listenOk s =
     (if running s then (Inl ''DaemonServer is already running'', s)
      else if socketExists \<and> isLive
      then (Inl ''another daemon is already listening'', s\<lparr>running := False\<rparr>)
      else if \<not> listenOk then (Inl ''listen failed'', s\<lparr>running := True\<rparr>)
      else (Inr (), s\<lparr>running := True\<rparr>))"

definition upd_conn :: "nat \<Rightarrow> (client_conn \<Rightarrow> client_conn) \<Rightarrow> 'j daemon \<Rightarrow> 'j daemon" where
  "upd_conn sock f s =
     (case map_of (conns s) sock of
        Some c \<Rightarrow> s\<lparr>conns := AList.update sock (f c) (conns s)\<rparr>
      | None \<Rightarrow> s)"

definition is_destroyed :: "nat \<Rightarrow> 'j daemon \<Rightarrow> bool" where
  "is_destroyed sock s =
     (case map_of (conns s) sock of Some c \<Rightarrow> destroyed c | None \<Rightarrow> True)"

definition is_authenticated :: "nat \<Rightarrow> 'j daemon \<Rightarrow> bool" where
  "is_authenticated sock s =
     (case map_of (conns s) sock of Some c \<Rightarrow> authenticated c | None \<Rightarrow> False)"

definition handles_of :: "nat \<Rightarrow> 'j daemon \<Rightarrow> (string, nat) jsmap" where
  "handles_of sock s = (case map_of (conns s) sock of Some c \<Rightarrow> lockHandles c | None \<Rightarrow> [])"

definition set_handles :: "nat \<Rightarrow> (string, nat) jsmap \<Rightarrow> 'j daemon \<Rightarrow> 'j daemon" where
  "set_handles sock hs = upd_conn sock (\<lambda>c. c\<lparr>lockHandles := hs\<rparr>)"

definition sendRaw :: "nat \<Rightarrow> 'j wire_message \<Rightarrow> 'j daemon \<Rightarrow> 'j daemon" where
  "sendRaw sock w s =
     (if is_destroyed sock s then s else s\<lparr>wire_out := wire_out s @ [(sock, w)]\<rparr>)"

definition daemon_stats_of :: "time \<Rightarrow> 'j daemon \<Rightarrow> daemon_stats" where
  "daemon_stats_of now s =
     \<lparr>uptime = now - startTime s, connectedClients = length (clients s),
      kvKeys = kv_size (d_kv s), activeLocks = hasActiveLocks (d_lock s),
      handledRequests = requestsHandled s\<rparr>"

text \<open>\<open>dispatch\<close>: a reply, a thrown error, or the suspension of \<open>lock.acquire\<close>.\<close>

datatype 'j outcome = Reply "'j rpc_result" | Throw string | Suspend

definition dispatch_acquire :: "nat \<Rightarrow> 'j rpc_request \<Rightarrow> 'j daemon \<Rightarrow> 'j outcome \<times> 'j daemon" where
  "dispatch_acquire sock r s =
     (if js_has (handles_of sock s) (p_key r)
      then (Throw (''ALREADY_HOLDS_LOCK: Already holding lock for key '' @ CHR 0x27 # p_key r
                   @ [CHR 0x27]), s)
      else (let (i, lock') = lock_acquire (p_key r) (d_lock s)
            in (Suspend, s\<lparr>d_lock := lock',
                           suspended := AList.update i (p_key r, sock, reqId r) (suspended s)\<rparr>)))"

definition dispatch_release :: "nat \<Rightarrow> 'j rpc_request \<Rightarrow> 'j daemon \<Rightarrow> 'j outcome \<times> 'j daemon" where
  "dispatch_release sock r s =
     (case map_of (handles_of sock s) (p_key r) of
        Some i \<Rightarrow>
          (Reply (RReleased True),
           (set_handles sock (AList.delete (p_key r) (handles_of sock s)) s)
             \<lparr>d_lock := lock_release (p_key r) i (d_lock s)\<rparr>)
      | None \<Rightarrow> (Reply (RReleased False), s))"

definition broadcast_all :: "string \<Rightarrow> 'j \<Rightarrow> 'j daemon \<Rightarrow> 'j daemon" where
  "broadcast_all channel message s =
     fold (\<lambda>client. sendRaw client (Envelope channel message)) (clients s) s"

definition dispatch :: "time \<Rightarrow> nat \<Rightarrow> 'j rpc_request \<Rightarrow> 'j daemon \<Rightarrow> 'j outcome \<times> 'j daemon" where
  "dispatch now sock r s =
     (let meth = reqMethod r in
      if meth = ''kv.get'' then
        (let (v, kv') = kv_get now (p_key r) (d_kv s)
         in (Reply (case v of Some x \<Rightarrow> RValue x | None \<Rightarrow> RNull), s\<lparr>d_kv := kv'\<rparr>))
      else if meth = ''kv.set'' then
        (Reply RNull, s\<lparr>d_kv := kv_set now (p_key r) (p_value r) (p_ttl r) (d_kv s)\<rparr>)
      else if meth = ''kv.delete'' then
        (Reply RNull, s\<lparr>d_kv := kv_delete (p_key r) (d_kv s)\<rparr>)
      else if meth = ''kv.list'' then
        (Reply (RKeys (kv_list now (p_prefix r) (d_kv s))), s)
      else if meth = ''lock.acquire'' then dispatch_acquire sock r s
      else if meth = ''lock.release'' then dispatch_release sock r s
      else if meth = ''broadcast'' then
        (Reply RNull, broadcast_all (p_channel r) (p_message r) s)
      else if meth = ''subscribe'' then (Reply RSubscribed, s)
      else if meth = ''ping'' then (Reply RPong, s)
      else if meth = ''stats'' then (Reply (RStats (daemon_stats_of now s)), s)
      else if meth = ''tool.call'' then
        (Throw ''tool.call not implemented in daemon v3.0 (agents use direct mode)'', s)
      else (Throw (''Unknown method: '' @ meth), s))"

definition handleRequest :: "time \<Rightarrow> nat \<Rightarrow> 'j rpc_request \<Rightarrow> 'j daemon \<Rightarrow> 'j daemon" where
  "handleRequest now sock r s =
     (let (out, s') = dispatch now sock r (s\<lparr>requestsHandled := requestsHandled s + 1\<rparr>)
      in case out of
           Reply x \<Rightarrow> sendRaw sock (Result (reqId r) x) s'
         | Throw msg \<Rightarrow> sendRaw sock (Failure (reqId r) 500 (''Error: '' @ msg)) s'
         | Suspend \<Rightarrow> s')"

text \<open>\<open>handleAuth\<close> with the callback \<open>handleConnection\<close> gives it.\<close>

definition handleAuth ::
  "(string \<Rightarrow> string \<Rightarrow> string) \<Rightarrow> nat \<Rightarrow> 'j rpc_request \<Rightarrow> 'j daemon \<Rightarrow> 'j daemon" where
  "handleAuth hmac sock r s =
     (case map_of (conns s) sock of
        None \<Rightarrow> s
      | Some c \<Rightarrow>
          (case p_token r of
             None \<Rightarrow> upd_conn sock (\<lambda>c. c\<lparr>destroyed := True\<rparr>)
                       (sendRaw sock (Failure (reqId r) 401 ''Missing auth token'') s)
           | Some token \<Rightarrow>
               (if token = [] then
                  upd_conn sock (\<lambda>c. c\<lparr>destroyed := True\<rparr>)
                    (sendRaw sock (Failure (reqId r) 401 ''Missing auth token'') s)
                else if token = hmac (sharedSecret s) (conn_nonce c) then
                  upd_conn sock (\<lambda>c. c\<lparr>authenticated := True\<rparr>)
                    (sendRaw sock (Result (reqId r) RAuthenticated) s)
                else
                  upd_conn sock (\<lambda>c. c\<lparr>destroyed := True\<rparr>)
                    (sendRaw sock (Failure (reqId r) 401 ''Invalid auth token'') s))))"

text \<open>The loop over the lines of a chunk: \<open>return\<close> after an authentication message.\<close>

fun handle_lines ::
  "(string \<Rightarrow> 'j rpc_request option) \<Rightarrow> (string \<Rightarrow> string \<Rightarrow> string) \<Rightarrow> time \<Rightarrow> nat \<Rightarrow>
   string list \<Rightarrow> 'j daemon \<Rightarrow> 'j daemon" where
  "handle_lines parse hmac now sock [] s = s"
| "handle_lines parse hmac now sock (line # lines) s =
     (let trimmed = js_trim line in
      if trimmed = [] then handle_lines parse hmac now sock lines s
      else (case parse trimmed of
              None \<Rightarrow> handle_lines parse hmac now sock lines s
            | Some r \<Rightarrow>
                (if \<not> is_authenticated sock s then handleAuth hmac sock r s
                 else handle_lines parse hmac now sock lines (handleRequest now sock r s))))"

definition on_data ::
  "(string \<Rightarrow> 'j rpc_request option) \<Rightarrow> (string \<Rightarrow> string \<Rightarrow> string) \<Rightarrow> time \<Rightarrow> nat \<Rightarrow>
   string \<Rightarrow> 'j daemon \<Rightarrow> 'j daemon" where
  "on_data parse hmac now sock chunk s =
     (case map_of (conns s) sock of
        None \<Rightarrow> s
      | Some c \<Rightarrow>
          (if destroyed c then s
           else (let buffer = conn_buffer c @ chunk in
                 if length buffer > MAX_BUFFER_BYTES
                 then upd_conn sock (\<lambda>c. c\<lparr>conn_buffer := buffer, destroyed := True\<rparr>) s
                 else (let (lines, rest) = split_pop buffer
                       in handle_lines parse hmac now sock lines
                            (upd_conn sock (\<lambda>c. c\<lparr>conn_buffer := rest\<rparr>) s)))))"

definition handleConnection :: "nat \<Rightarrow> string \<Rightarrow> 'j daemon \<Rightarrow> 'j daemon" where
  "handleConnection sock nonce s =
     (if js_has (conns s) sock then s
      else sendRaw sock (Challenge nonce)
             (s\<lparr>conns := AList.update sock
                  \<lparr>authenticated = False, conn_buffer = [], conn_nonce = nonce, destroyed = False,
                   conn_closed = False, lockHandles = []\<rparr> (conns s),
                clients := clients s @ [sock]\<rparr>))"

definition on_auth_deadline :: "nat \<Rightarrow> 'j daemon \<Rightarrow> 'j daemon" where
  "on_auth_deadline sock s =
     (if is_authenticated sock s then s else upd_conn sock (\<lambda>c. c\<lparr>destroyed := True\<rparr>) s)"

text \<open>The \<open>close\<close> event, which a socket emits once.\<close>

definition release_all :: "(string \<times> nat) list \<Rightarrow> lock_registry \<Rightarrow> lock_registry" where
  "release_all hs lk = foldl (\<lambda>l (key, i). lock_release key i l) lk hs"

definition on_close :: "nat \<Rightarrow> 'j daemon \<Rightarrow> 'j daemon" where
  "on_close sock s =
     (case map_of (conns s) sock of
        None \<Rightarrow> s
      | Some c \<Rightarrow>
          (if conn_closed c then s
           else (upd_conn sock (\<lambda>c. c\<lparr>destroyed := True, conn_closed := True, lockHandles := []\<rparr>) s)
                  \<lparr>d_lock := release_all (lockHandles c) (d_lock s),
                   clients := filter (\<lambda>x. x \<noteq> sock) (clients s)\<rparr>))"

definition on_error :: "nat \<Rightarrow> 'j daemon \<Rightarrow> 'j daemon" where
  "on_error sock s = s\<lparr>clients := filter (\<lambda>x. x \<noteq> sock) (clients s)\<rparr>"

text \<open>The suspended \<open>lock.acquire\<close> of caller \<open>i\<close> goes on: granted, or its timer has fired.\<close>

definition resume_acquire :: "nat \<Rightarrow> 'j daemon \<Rightarrow> 'j daemon" where
  "resume_acquire i s =
     (case map_of (suspended s) i of
        None \<Rightarrow> s
      | Some (key, sock, rid) \<Rightarrow>
          (let lock' = lock_grant key i (d_lock s) in
           if status_of i (callers key lock') = Some Holding
           then sendRaw sock (Result rid (RAcquired key))
                  (set_handles sock (AList.update key i (handles_of sock s))
                    (s\<lparr>d_lock := lock', suspended := AList.delete i (suspended s)\<rparr>))
           else s))"

definition fail_acquire :: "nat \<Rightarrow> int \<Rightarrow> 'j daemon \<Rightarrow> 'j daemon" where
  "fail_acquire i timeoutMs s =
     (case map_of (suspended s) i of
        None \<Rightarrow> s
      | Some (key, sock, rid) \<Rightarrow>
          sendRaw sock
            (Failure rid 500 (''LockTimeoutError: Lock acquisition timed out for key '' @ CHR 0x22 # key
               @ CHR 0x22 # '' after '' @ show_int timeoutMs @ ''ms''))
            (s\<lparr>d_lock := lock_timeout key i (d_lock s), suspended := AList.delete i (suspended s)\<rparr>))"

definition daemon_shutdown :: "time \<Rightarrow> bool \<Rightarrow> 'j daemon \<Rightarrow> 'j daemon" where
  "daemon_shutdown now writeOk s =
     (let s' = fold on_close (clients s) (s\<lparr>running := False\<rparr>)
      in s'\<lparr>clients := [], d_kv := kv_shutdown now writeOk (d_kv s')\<rparr>)"

datatype daemon_event =
    Connect nat string
  | Data time nat string
  | AuthDeadline nat
  | SockClose nat
  | SockError nat
  | Granted nat
  | LockTimer nat int
  | KvTimer time bool

fun daemon_step ::
  "(string \<Rightarrow> 'j rpc_request option) \<Rightarrow> (string \<Rightarrow> string \<Rightarrow> string) \<Rightarrow> 'j daemon \<Rightarrow>
   daemon_event \<Rightarrow> 'j daemon" where
  "daemon_step parse hmac s (Connect sock nonce) = handleConnection sock nonce s"
| "daemon_step parse hmac s (Data now sock chunk) = on_data parse hmac now sock chunk s"
| "daemon_step parse hmac s (AuthDeadline sock) = on_auth_deadline sock s"
| "daemon_step parse hmac s (SockClose sock) = on_close sock s"
| "daemon_step parse hmac s (SockError sock) = on_error sock s"
| "daemon_step parse hmac s (Granted i) = resume_acquire i s"
| "daemon_step parse hmac s (LockTimer i ms) = fail_acquire i ms s"
| "daemon_step parse hmac s (KvTimer now ok) = s\<lparr>d_kv := kv_sweep now ok (d_kv s)\<rparr>"

subsection \<open>What the small steps leave alone\<close>

lemma map_of_upd_conn [simp]:
  "map_of (conns (upd_conn sock f s)) x =
     (if x = sock then map_option f (map_of (conns s) sock) else map_of (conns s) x)"
  by (cases "map_of (conns s) sock") (auto simp: upd_conn_def)

lemma upd_conn_frame [simp]:
  "d_lock (upd_conn sock f s) = d_lock s" "d_kv (upd_conn sock f s) = d_kv s"
  "suspended (upd_conn sock f s) = suspended s" "clients (upd_conn sock f s) = clients s"
  "requestsHandled (upd_conn sock f s) = requestsHandled s"
  "wire_out (upd_conn sock f s) = wire_out s" "sharedSecret (upd_conn sock f s) = sharedSecret s"
  by (cases "map_of (conns s) sock"; simp add: upd_conn_def)+

lemma sendRaw_frame [simp]:
  "d_lock (sendRaw sock w s) = d_lock s" "d_kv (sendRaw sock w s) = d_kv s"
  "suspended (sendRaw sock w s) = suspended s" "conns (sendRaw sock w s) = conns s"
  "requestsHandled (sendRaw sock w s) = requestsHandled s" "clients (sendRaw sock w s) = clients s"
  "sharedSecret (sendRaw sock w s) = sharedSecret s"
  by (simp_all add: sendRaw_def)

lemma sendRaw_out: "set (wire_out (sendRaw sock w s)) \<subseteq> insert (sock, w) (set (wire_out s))"
  by (auto simp: sendRaw_def)

lemma set_handles_frame [simp]:
  "d_lock (set_handles sock hs s) = d_lock s" "suspended (set_handles sock hs s) = suspended s"
  "d_kv (set_handles sock hs s) = d_kv s" "clients (set_handles sock hs s) = clients s"
  "sharedSecret (set_handles sock hs s) = sharedSecret s"
  by (simp_all add: set_handles_def)

lemma handles_of_cong: "conns s' = conns s \<Longrightarrow> handles_of x s' = handles_of x s"
  by (simp add: handles_of_def)

lemma handles_of_upd [simp]:
  "(\<And>c. lockHandles (f c) = lockHandles c) \<Longrightarrow> handles_of x (upd_conn sock f s) = handles_of x s"
  by (cases "map_of (conns s) sock"; cases "map_of (conns s) x")
    (auto simp: handles_of_def)

lemma handles_of_fields [simp]:
  "handles_of x (s\<lparr>d_lock := l\<rparr>) = handles_of x s"
  "handles_of x (s\<lparr>suspended := p\<rparr>) = handles_of x s"
  "handles_of x (s\<lparr>d_kv := k\<rparr>) = handles_of x s"
  "handles_of x (s\<lparr>clients := cl\<rparr>) = handles_of x s"
  "handles_of x (s\<lparr>requestsHandled := n\<rparr>) = handles_of x s"
  "handles_of x (sendRaw sock w s) = handles_of x s"
  by (simp_all add: handles_of_def)

lemma handles_of_set:
  "handles_of x (set_handles sock hs s) =
     (if x = sock \<and> js_has (conns s) sock then hs else handles_of x s)"
  by (cases "map_of (conns s) sock") (auto simp: handles_of_def set_handles_def js_has_def)

lemma no_conn_no_handles: "\<not> js_has (conns s) sock \<Longrightarrow> handles_of sock s = []"
  by (simp add: handles_of_def js_has_def)

lemma broadcast_frame [simp]:
  "d_lock (broadcast_all ch m s) = d_lock s" "suspended (broadcast_all ch m s) = suspended s"
  "conns (broadcast_all ch m s) = conns s" "d_kv (broadcast_all ch m s) = d_kv s"
  "sharedSecret (broadcast_all ch m s) = sharedSecret s"
proof -
  have "d_lock (fold (\<lambda>c. sendRaw c (Envelope ch m)) cs s) = d_lock s
      \<and> suspended (fold (\<lambda>c. sendRaw c (Envelope ch m)) cs s) = suspended s
      \<and> conns (fold (\<lambda>c. sendRaw c (Envelope ch m)) cs s) = conns s
      \<and> d_kv (fold (\<lambda>c. sendRaw c (Envelope ch m)) cs s) = d_kv s
      \<and> sharedSecret (fold (\<lambda>c. sendRaw c (Envelope ch m)) cs s) = sharedSecret s" for cs
    by (induction cs arbitrary: s) auto
  then show "d_lock (broadcast_all ch m s) = d_lock s" "suspended (broadcast_all ch m s) = suspended s"
    "conns (broadcast_all ch m s) = conns s" "d_kv (broadcast_all ch m s) = d_kv s"
    "sharedSecret (broadcast_all ch m s) = sharedSecret s"
    by (simp_all add: broadcast_all_def)
qed

subsection \<open>Locks and handles\<close>

text \<open>
  The books of the locks: what a connection records as held is held, no two connections record
  the same key, and what is suspended waits.
\<close>

definition locks_ok ::
  "lock_registry \<Rightarrow> (nat \<Rightarrow> (string, nat) jsmap) \<Rightarrow> (nat, string \<times> nat \<times> 'j) jsmap \<Rightarrow> bool" where
  "locks_ok lk H P \<longleftrightarrow>
     registry_ok lk \<and> (\<forall>x. js_wf (H x))
     \<and> (\<forall>x k i. map_of (H x) k = Some i \<longrightarrow> status_of i (callers k lk) = Some Holding)
     \<and> (\<forall>x y k. js_has (H x) k \<and> js_has (H y) k \<longrightarrow> x = y)
     \<and> (\<forall>i k x rid. map_of P i = Some (k, x, rid) \<longrightarrow> status_of i (callers k lk) = Some Waiting)"

definition daemon_ok :: "'j daemon \<Rightarrow> bool" where
  "daemon_ok s = locks_ok (d_lock s) (\<lambda>x. handles_of x s) (suspended s)"

lemma locks_okD:
  assumes "locks_ok lk H P"
  shows "registry_ok lk" "js_wf (H x)"
    "map_of (H x) k = Some i \<Longrightarrow> status_of i (callers k lk) = Some Holding"
    "js_has (H x) k \<Longrightarrow> js_has (H y) k \<Longrightarrow> x = y"
    "map_of P i = Some (k, x, rid) \<Longrightarrow> status_of i (callers k lk) = Some Waiting"
  using assms unfolding locks_ok_def by blast+

lemma keeps_acquire:
  "registry_ok lk \<Longrightarrow> status_of i (callers k lk) = Some st \<Longrightarrow> st \<noteq> Released \<Longrightarrow>
   status_of i (callers k (snd (lock_acquire k' lk))) = Some st"
  using lock_step_keeps [of lk i k st "LAcquire k'"] by simp

lemma keeps_release:
  "registry_ok lk \<Longrightarrow> status_of i (callers k lk) = Some st \<Longrightarrow> st \<noteq> Released \<Longrightarrow> (k, i) \<noteq> (k', j) \<Longrightarrow>
   status_of i (callers k (lock_release k' j lk)) = Some st"
  using lock_step_keeps [of lk i k st "LRelease k' j"] by auto

lemma keeps_grant:
  "registry_ok lk \<Longrightarrow> status_of i (callers k lk) = Some st \<Longrightarrow> st \<noteq> Released \<Longrightarrow> (k, i) \<noteq> (k', j) \<Longrightarrow>
   status_of i (callers k (lock_grant k' j lk)) = Some st"
  using lock_step_keeps [of lk i k st "LGrant k' j"] by auto

lemma keeps_timeout:
  "registry_ok lk \<Longrightarrow> status_of i (callers k lk) = Some st \<Longrightarrow> st \<noteq> Released \<Longrightarrow> (k, i) \<noteq> (k', j) \<Longrightarrow>
   status_of i (callers k (lock_timeout k' j lk)) = Some st"
  using lock_step_keeps [of lk i k st "LTimeout k' j"] by auto

lemma registry_ok_ops:
  assumes "registry_ok lk"
  shows "registry_ok (snd (lock_acquire k lk))" "registry_ok (lock_release k i lk)"
    "registry_ok (lock_grant k i lk)" "registry_ok (lock_timeout k i lk)"
  using registry_ok_step [OF assms, of "LAcquire k"] registry_ok_step [OF assms, of "LRelease k i"]
    registry_ok_step [OF assms, of "LGrant k i"] registry_ok_step [OF assms, of "LTimeout k i"]
  by simp_all

lemma locks_ok_acquire:
  assumes "locks_ok lk H P"
  shows "locks_ok (snd (lock_acquire k lk)) H (AList.update (nextCaller lk) (k, x, rid) P)"
proof -
  note ok = locks_okD [OF assms]
  have "status_of i (callers k' (snd (lock_acquire k lk))) = Some Waiting"
    if "map_of (AList.update (nextCaller lk) (k, x, rid) P) i = Some (k', y, rid')" for i k' y rid'
    using that ok(5) keeps_acquire [OF ok(1)] lock_acquire_new [OF ok(1)]
    by (auto split: if_splits)
  then show ?thesis using ok keeps_acquire [OF ok(1)] registry_ok_ops [OF ok(1)]
    unfolding locks_ok_def by blast
qed

lemma locks_ok_release:
  assumes "locks_ok lk H P" "map_of (H x) k = Some i"
  shows "locks_ok (lock_release k i lk) (H(x := AList.delete k (H x))) P"
proof -
  note ok = locks_okD [OF assms(1)]
  let ?H = "H(x := AList.delete k (H x))"
  have sub: "map_of (?H y) k' = Some j \<Longrightarrow> map_of (H y) k' = Some j \<and> (y = x \<longrightarrow> k' \<noteq> k)" for y k' j
    by (auto split: if_splits)
  have ne: "(k', j) \<noteq> (k, i)" if "map_of (?H y) k' = Some j" for y k' j
    using sub [OF that] ok(4) [of x k y] assms(2) by (auto simp: js_has_def)
  have h: "status_of j (callers k' (lock_release k i lk)) = Some Holding"
    if "map_of (?H y) k' = Some j" for y k' j
    using keeps_release [OF ok(1) ok(3)] sub [OF that] ne [OF that] by blast
  have p: "status_of j (callers k' (lock_release k i lk)) = Some Waiting"
    if "map_of P j = Some (k', y, rid)" for j k' y rid
  proof -
    have "(k', j) \<noteq> (k, i)" using ok(3) [OF assms(2)] ok(5) [OF that] by auto
    then show ?thesis using keeps_release [OF ok(1) ok(5) [OF that]] by simp
  qed
  have u: "y = z" if "js_has (?H y) k'" "js_has (?H z) k'" for y z k'
    using that sub ok(4) [of y k' z] unfolding js_has_def by blast
  have w: "js_wf (?H y)" for y using ok(2) by auto
  from h p u w registry_ok_ops(2) [OF ok(1)] show ?thesis unfolding locks_ok_def by blast
qed

lemma locks_ok_release_all:
  "locks_ok lk H P \<Longrightarrow> H x = hs \<Longrightarrow> locks_ok (release_all hs lk) (H(x := [])) P"
proof (induction hs arbitrary: lk H)
  case Nil
  then have "H(x := []) = H" by auto
  then show ?case using Nil by (simp add: release_all_def)
next
  case (Cons h hs)
  obtain k i where h: "h = (k, i)" by force
  have "js_wf (H x)" using locks_okD(2) [OF Cons.prems(1)] .
  then have del: "AList.delete k (H x) = hs"
    using Cons.prems(2) h by (simp add: delete_idem)
  have "locks_ok (lock_release k i lk) (H(x := hs)) P"
    using locks_ok_release [OF Cons.prems(1), of x k i] Cons.prems(2) h del by simp
  from Cons.IH [OF this] show ?case using h by (simp add: release_all_def fun_upd_def cong: if_cong)
qed

lemma locks_ok_timeout:
  assumes "locks_ok lk H P" "map_of P i = Some (k, x, rid)"
  shows "locks_ok (lock_timeout k i lk) H (AList.delete i P)"
proof -
  note ok = locks_okD [OF assms(1)]
  have w: "status_of i (callers k lk) = Some Waiting" using ok(5) assms(2) .
  have h: "status_of j (callers k' (lock_timeout k i lk)) = Some Holding"
    if "map_of (H y) k' = Some j" for y k' j
  proof -
    have "(k', j) \<noteq> (k, i)" using ok(3) [OF that] w by auto
    then show ?thesis using keeps_timeout [OF ok(1) ok(3) [OF that]] by simp
  qed
  have p: "status_of j (callers k' (lock_timeout k i lk)) = Some Waiting"
    if "map_of (AList.delete i P) j = Some (k', y, rid')" for j k' y rid'
  proof -
    have j: "j \<noteq> i" "map_of P j = Some (k', y, rid')" using that by (auto split: if_splits)
    then show ?thesis using keeps_timeout [OF ok(1) ok(5) [OF j(2)]] by simp
  qed
  from h p ok registry_ok_ops(4) [OF ok(1)] show ?thesis unfolding locks_ok_def by blast
qed

lemma locks_ok_grant:
  assumes "locks_ok lk H P" "map_of P i = Some (k, x, rid)"
    and g: "status_of i (callers k (lock_grant k i lk)) = Some Holding"
  shows "locks_ok (lock_grant k i lk) (H(x := AList.update k i (H x))) (AList.delete i P)"
    and "\<not> js_has (H y) k"
    and "locks_ok (lock_grant k i lk) H (AList.delete i P)"
proof -
  note ok = locks_okD [OF assms(1)]
  have w: "status_of i (callers k lk) = Some Waiting" using ok(5) assms(2) .
  have free: "\<not> js_has (H y) k" for y
  proof
    assume "js_has (H y) k"
    then obtain j where j: "map_of (H y) k = Some j" by (auto simp: js_has_def)
    then have "j \<noteq> i" using ok(3) w by fastforce
    then have "status_of j (callers k (lock_grant k i lk)) = Some Holding"
      using keeps_grant [OF ok(1) ok(3) [OF j]] by auto
    then show False
      using holders_unique [OF registry_ok_ops(3) [OF ok(1)] _ g] \<open>j \<noteq> i\<close> by blast
  qed
  then show "\<not> js_has (H y) k" .
  have h0: "status_of j (callers k' (lock_grant k i lk)) = Some Holding"
    if "map_of (H y) k' = Some j" for y k' j
  proof -
    have "(k', j) \<noteq> (k, i)" using ok(3) [OF that] w by auto
    then show ?thesis using keeps_grant [OF ok(1) ok(3) [OF that]] by simp
  qed
  have p: "status_of j (callers k' (lock_grant k i lk)) = Some Waiting"
    if "map_of (AList.delete i P) j = Some (k', y, rid')" for j k' y rid'
  proof -
    have j: "j \<noteq> i" "map_of P j = Some (k', y, rid')" using that by (auto split: if_splits)
    then show ?thesis using keeps_grant [OF ok(1) ok(5) [OF j(2)]] by simp
  qed
  from h0 p ok registry_ok_ops(3) [OF ok(1)]
  show "locks_ok (lock_grant k i lk) H (AList.delete i P)" unfolding locks_ok_def by blast
  let ?H = "H(x := AList.update k i (H x))"
  have h: "status_of j (callers k' (lock_grant k i lk)) = Some Holding"
    if "map_of (?H y) k' = Some j" for y k' j
    using that h0 g by (auto split: if_splits)
  have u: "y = z" if "js_has (?H y) k'" "js_has (?H z) k'" for y z k'
    using that free ok(4) by (auto split: if_splits)
  have wf: "js_wf (?H y)" for y using ok(2) by auto
  from h p u wf registry_ok_ops(3) [OF ok(1)]
  show "locks_ok (lock_grant k i lk) ?H (AList.delete i P)" unfolding locks_ok_def by blast
qed

subsection \<open>Every callback keeps the books\<close>

lemma daemon_ok_cong:
  assumes "d_lock s' = d_lock s" "suspended s' = suspended s"
    and "\<And>x. handles_of x s' = handles_of x s"
  shows "daemon_ok s' = daemon_ok s"
  using assms by (simp add: daemon_ok_def)

lemma daemon_ok_send [simp]: "daemon_ok (sendRaw sock w s) = daemon_ok s"
  by (rule daemon_ok_cong) simp_all

lemma daemon_ok_upd [simp]:
  "(\<And>c. lockHandles (f c) = lockHandles c) \<Longrightarrow> daemon_ok (upd_conn sock f s) = daemon_ok s"
  by (rule daemon_ok_cong) simp_all

lemma daemon_ok_fields [simp]:
  "daemon_ok (s\<lparr>d_kv := k\<rparr>) = daemon_ok s" "daemon_ok (s\<lparr>clients := cl\<rparr>) = daemon_ok s"
  "daemon_ok (s\<lparr>requestsHandled := n\<rparr>) = daemon_ok s"
  by (rule daemon_ok_cong; simp)+

lemma daemon_ok_set_handles:
  assumes "locks_ok lk ((\<lambda>x. handles_of x s)(sock := hs)) P"
    "\<not> js_has (conns s) sock \<Longrightarrow> locks_ok lk (\<lambda>x. handles_of x s) P"
  shows "daemon_ok ((set_handles sock hs s)\<lparr>d_lock := lk, suspended := P\<rparr>)"
proof (cases "js_has (conns s) sock")
  case True
  then have "(\<lambda>x. handles_of x ((set_handles sock hs s)\<lparr>d_lock := lk, suspended := P\<rparr>))
      = (\<lambda>x. handles_of x s)(sock := hs)"
    by (auto simp: handles_of_set)
  then show ?thesis using assms(1) by (simp add: daemon_ok_def)
next
  case False
  then show ?thesis using assms(2) by (simp add: daemon_ok_def handles_of_set)
qed

lemma daemon_ok_dispatch:
  assumes ok: "daemon_ok s"
  shows "daemon_ok (snd (dispatch now sock r s))"
proof -
  have acq: "daemon_ok (snd (dispatch_acquire sock r s))"
    using ok locks_ok_acquire [of "d_lock s" "\<lambda>x. handles_of x s" "suspended s" "p_key r" sock "reqId r"]
    by (simp add: dispatch_acquire_def split_beta daemon_ok_def)
  have rel: "daemon_ok (snd (dispatch_release sock r s))"
  proof (cases "map_of (handles_of sock s) (p_key r)")
    case (Some i)
    then have has: "js_has (conns s) sock" using no_conn_no_handles by fastforce
    have "locks_ok (lock_release (p_key r) i (d_lock s))
        ((\<lambda>x. handles_of x s)(sock := AList.delete (p_key r) (handles_of sock s))) (suspended s)"
      by (rule locks_ok_release) (use ok Some in \<open>simp_all add: daemon_ok_def\<close>)
    from daemon_ok_set_handles [OF this] has Some show ?thesis
      by (simp add: dispatch_release_def daemon_ok_def)
  qed (simp add: dispatch_release_def ok)
  have bc: "daemon_ok (broadcast_all (p_channel r) (p_message r) s)"
    using ok by (subst daemon_ok_cong [of _ s]) (simp_all add: handles_of_def)
  show ?thesis
    using ok acq rel bc by (simp add: dispatch_def Let_def split_beta)
qed

lemma daemon_ok_handleRequest: "daemon_ok s \<Longrightarrow> daemon_ok (handleRequest now sock r s)"
  using daemon_ok_dispatch [of "s\<lparr>requestsHandled := requestsHandled s + 1\<rparr>" now sock r]
  by (auto simp: handleRequest_def split_beta split: outcome.splits)

lemma daemon_ok_handleAuth: "daemon_ok s \<Longrightarrow> daemon_ok (handleAuth hmac sock r s)"
  by (cases "map_of (conns s) sock"; cases "p_token r") (simp_all add: handleAuth_def)

lemma daemon_ok_handle_lines:
  "daemon_ok s \<Longrightarrow> daemon_ok (handle_lines parse hmac now sock lines s)"
proof (induction lines arbitrary: s)
  case (Cons l ls)
  then show ?case
    by (cases "parse (js_trim l)")
       (simp_all add: Let_def daemon_ok_handleAuth daemon_ok_handleRequest)
qed simp

lemma daemon_ok_on_data: "daemon_ok s \<Longrightarrow> daemon_ok (on_data parse hmac now sock chunk s)"
  by (cases "map_of (conns s) sock")
     (simp_all add: on_data_def Let_def split_beta daemon_ok_handle_lines)

lemma daemon_ok_connect:
  assumes "daemon_ok s"
  shows "daemon_ok (handleConnection sock nonce s)"
proof (cases "js_has (conns s) sock")
  case False
  then have "handles_of sock s = []" by (rule no_conn_no_handles)
  then show ?thesis
    using assms False unfolding handleConnection_def
    by (simp, subst daemon_ok_cong [of _ s]) (simp_all add: handles_of_def)
qed (simp add: handleConnection_def assms)

lemma daemon_ok_on_close:
  assumes "daemon_ok s"
  shows "daemon_ok (on_close sock s)"
proof (cases "map_of (conns s) sock")
  case (Some c)
  let ?t = "upd_conn sock (\<lambda>c. c\<lparr>destroyed := True, conn_closed := True, lockHandles := []\<rparr>) s"
  let ?u = "?t\<lparr>d_lock := release_all (lockHandles c) (d_lock s),
               clients := filter (\<lambda>x. x \<noteq> sock) (clients s)\<rparr>"
  have hs: "handles_of sock s = lockHandles c" using Some by (simp add: handles_of_def)
  have "locks_ok (release_all (lockHandles c) (d_lock s)) ((\<lambda>x. handles_of x s)(sock := [])) (suspended s)"
    by (rule locks_ok_release_all) (use assms hs in \<open>simp_all add: daemon_ok_def\<close>)
  moreover have "(\<lambda>x. handles_of x ?u) = (\<lambda>x. handles_of x s)(sock := [])"
    using Some by (auto simp: handles_of_def)
  ultimately have "daemon_ok ?u" by (simp add: daemon_ok_def)
  then show ?thesis using Some assms by (simp add: on_close_def)
qed (simp add: on_close_def assms)

lemma daemon_ok_resume:
  assumes "daemon_ok s"
  shows "daemon_ok (resume_acquire i s)"
proof (cases "map_of (suspended s) i")
  case (Some e)
  obtain k x rid where e: "e = (k, x, rid)" by (metis prod_cases3)
  let ?lk = "lock_grant k i (d_lock s)"
  show ?thesis
  proof (cases "status_of i (callers k ?lk) = Some Holding")
    case True
    have ok: "locks_ok (d_lock s) (\<lambda>x. handles_of x s) (suspended s)"
      using assms by (simp add: daemon_ok_def)
    note g = locks_ok_grant [OF ok Some [unfolded e] True]
    let ?s = "s\<lparr>d_lock := ?lk, suspended := AList.delete i (suspended s)\<rparr>"
    have "daemon_ok ((set_handles x (AList.update k i (handles_of x s)) ?s)
            \<lparr>d_lock := ?lk, suspended := AList.delete i (suspended s)\<rparr>)"
      by (rule daemon_ok_set_handles) (use g in simp_all)
    moreover have "(set_handles x (AList.update k i (handles_of x s)) ?s)
            \<lparr>d_lock := ?lk, suspended := AList.delete i (suspended s)\<rparr>
        = set_handles x (AList.update k i (handles_of x s)) ?s"
      by (cases "map_of (conns s) x") (simp_all add: set_handles_def upd_conn_def)
    ultimately show ?thesis using Some e True by (simp add: resume_acquire_def)
  qed (use Some e assms in \<open>simp add: resume_acquire_def\<close>)
qed (simp add: resume_acquire_def assms)

lemma daemon_ok_fail:
  assumes "daemon_ok s"
  shows "daemon_ok (fail_acquire i ms s)"
proof (cases "map_of (suspended s) i")
  case (Some e)
  obtain k x rid where e: "e = (k, x, rid)" by (metis prod_cases3)
  then have "locks_ok (lock_timeout k i (d_lock s)) (\<lambda>x. handles_of x s) (AList.delete i (suspended s))"
    using locks_ok_timeout [of "d_lock s" _ "suspended s" i] assms Some by (simp add: daemon_ok_def)
  then show ?thesis using Some e by (simp add: fail_acquire_def daemon_ok_def)
qed (simp add: fail_acquire_def assms)

lemma daemon_ok_step: "daemon_ok s \<Longrightarrow> daemon_ok (daemon_step parse hmac s e)"
  by (cases e)
     (simp_all add: daemon_ok_connect daemon_ok_on_data on_auth_deadline_def daemon_ok_on_close
      on_error_def daemon_ok_resume daemon_ok_fail)

lemma daemon_ok_new: "daemon_ok (new_daemon secret now kv0)"
  by (simp add: daemon_ok_def locks_ok_def new_daemon_def handles_of_def registry_ok_new js_has_def)

interpretation daemon: stepper "daemon_step parse hmac" daemon_ok for parse hmac
  by unfold_locales (rule daemon_ok_step)

subsection \<open>Before authentication\<close>

text \<open>A message that gives nothing away: the challenge, or a refusal.\<close>

fun harmless :: "'j wire_message \<Rightarrow> bool" where
  "harmless (Challenge nonce) = True"
| "harmless (Failure rid code msg) = (code = 401)"
| "harmless _ = False"

text \<open>What a socket has delivered since the server has it, and the complete lines of that.\<close>

fun chunk_of :: "nat \<Rightarrow> daemon_event \<Rightarrow> string" where
  "chunk_of x (Data now y chunk) = (if y = x then chunk else [])"
| "chunk_of x _ = []"

fun received :: "nat \<Rightarrow> daemon_event list \<Rightarrow> string" where
  "received x [] = []"
| "received x (Connect y n # es) = (if y = x then concat (map (chunk_of x) es) else received x es)"
| "received x (e # es) = received x es"

definition lines_received :: "nat \<Rightarrow> daemon_event list \<Rightarrow> string list" where
  "lines_received x es = fst (split_pop (received x es))"

fun connected_to :: "nat \<Rightarrow> daemon_event \<Rightarrow> bool" where
  "connected_to x (Connect y n) = (y = x)"
| "connected_to x _ = False"

text \<open>None of the messages on a socket carries the token of a nonce that was drawn for it.\<close>

definition no_valid_token ::
  "(string \<Rightarrow> 'j rpc_request option) \<Rightarrow> (string \<Rightarrow> string \<Rightarrow> string) \<Rightarrow> string \<Rightarrow> daemon_event list \<Rightarrow> bool" where
  "no_valid_token parse hmac secret es \<longleftrightarrow>
     (\<forall>x nonce. Connect x nonce \<in> set es \<longrightarrow>
        (\<forall>line \<in> set (lines_received x es).
           case parse (js_trim line) of Some r \<Rightarrow> p_token r \<noteq> Some (hmac secret nonce) | None \<Rightarrow> True))"

definition locked_out :: "string \<Rightarrow> (nat \<Rightarrow> string set) \<Rightarrow> 'j daemon \<Rightarrow> bool" where
  "locked_out secret nonces s \<longleftrightarrow>
     sharedSecret s = secret \<and> requestsHandled s = 0 \<and> d_lock s = new_lock_registry
     \<and> suspended s = [] \<and> (\<forall>(x, w) \<in> set (wire_out s). harmless w)
     \<and> (\<forall>x c. map_of (conns s) x = Some c \<longrightarrow>
          \<not> authenticated c \<and> conn_nonce c \<in> nonces x \<and> lockHandles c = [])"

text \<open>The buffer of an open connection is the unfinished line of what its socket delivered.\<close>

definition framed :: "daemon_event list \<Rightarrow> 'j daemon \<Rightarrow> bool" where
  "framed es s \<longleftrightarrow>
     (\<forall>x. (map_of (conns s) x = None \<longrightarrow> \<not> list_ex (connected_to x) es) \<and>
          (\<forall>c. map_of (conns s) x = Some c \<longrightarrow> list_ex (connected_to x) es \<and>
             (destroyed c \<or> conn_buffer c = snd (split_pop (received x es)))))"

fun kv_timer :: "'j kv \<Rightarrow> daemon_event \<Rightarrow> 'j kv" where
  "kv_timer kv (KvTimer now ok) = kv_sweep now ok kv"
| "kv_timer kv _ = kv"

lemma received_snoc:
  "received x (es @ [e]) = received x es @ (if list_ex (connected_to x) es then chunk_of x e else [])"
  by (induction x es rule: received.induct) (auto, (cases e; simp)+)

lemma received_unconnected: "\<not> list_ex (connected_to x) es \<Longrightarrow> received x es = []"
  by (induction x es rule: received.induct) auto

lemma received_append: "\<exists>b. received x (es @ es') = received x es @ b"
proof (induction es' rule: rev_induct)
  case (snoc e es')
  then obtain b where "received x (es @ es') = received x es @ b" by blast
  then show ?case using received_snoc [of x "es @ es'" e] by simp
qed simp

lemma lines_received_append: "set (lines_received x es) \<subseteq> set (lines_received x (es @ es'))"
proof -
  obtain b where "received x (es @ es') = received x es @ b" using received_append by blast
  then show ?thesis using split_pop_append [of "received x es" b] by (auto simp: lines_received_def)
qed

lemma locked_out_send: "locked_out sec N s \<Longrightarrow> harmless w \<Longrightarrow> locked_out sec N (sendRaw x w s)"
  using sendRaw_out [of x w s] by (auto simp: locked_out_def)

lemma locked_out_upd:
  "locked_out sec N s \<Longrightarrow>
   (\<And>c. \<not> authenticated c \<Longrightarrow> conn_nonce c \<in> N x \<Longrightarrow> lockHandles c = [] \<Longrightarrow>
      \<not> authenticated (f c) \<and> conn_nonce (f c) \<in> N x \<and> lockHandles (f c) = []) \<Longrightarrow>
   locked_out sec N (upd_conn x f s)"
  by (auto simp: locked_out_def split: if_splits)

lemma locked_out_auth:
  assumes "locked_out sec N s" and "\<And>n. n \<in> N x \<Longrightarrow> p_token r \<noteq> Some (hmac sec n)"
  shows "locked_out sec N (handleAuth hmac x r s) \<and> d_kv (handleAuth hmac x r s) = d_kv s
    \<and> (\<forall>y. y \<noteq> x \<longrightarrow> map_of (conns (handleAuth hmac x r s)) y = map_of (conns s) y)
    \<and> (\<forall>c. map_of (conns s) x = Some c \<longrightarrow> (\<exists>c'. map_of (conns (handleAuth hmac x r s)) x = Some c' \<and> destroyed c'))"
proof (cases "map_of (conns s) x")
  case (Some c)
  then have "conn_nonce c \<in> N x" "sharedSecret s = sec" using assms(1) by (auto simp: locked_out_def)
  then have "p_token r \<noteq> Some (hmac (sharedSecret s) (conn_nonce c))" using assms(2) by metis
  then show ?thesis using Some assms(1)
    by (cases "p_token r") (auto simp: handleAuth_def locked_out_upd locked_out_send)
qed (simp add: handleAuth_def assms(1))

text \<open>The lines of a chunk: no line has a valid token, so the connection stays as it is or is destroyed.\<close>

definition same_or_destroyed :: "nat \<Rightarrow> 'j daemon \<Rightarrow> 'j daemon \<Rightarrow> bool" where
  "same_or_destroyed x s t \<longleftrightarrow>
     (\<forall>y. y \<noteq> x \<longrightarrow> map_of (conns t) y = map_of (conns s) y) \<and>
     (\<forall>c. map_of (conns s) x = Some c \<longrightarrow>
        (\<exists>c'. map_of (conns t) x = Some c' \<and> (destroyed c' \<or> conn_buffer c' = conn_buffer c)))"

lemma locked_out_lines:
  assumes "\<And>l r n. l \<in> set ls \<Longrightarrow> parse (js_trim l) = Some r \<Longrightarrow> n \<in> N x \<Longrightarrow> p_token r \<noteq> Some (hmac sec n)"
    and "locked_out sec N s"
  shows "locked_out sec N (handle_lines parse hmac now x ls s)
    \<and> d_kv (handle_lines parse hmac now x ls s) = d_kv s
    \<and> same_or_destroyed x s (handle_lines parse hmac now x ls s)"
  using assms
proof (induction ls)
  case (Cons l ls)
  have ih: "locked_out sec N (handle_lines parse hmac now x ls s) \<and> d_kv (handle_lines parse hmac now x ls s) = d_kv s
    \<and> same_or_destroyed x s (handle_lines parse hmac now x ls s)"
    by (rule Cons.IH) (use Cons.prems in auto)
  have na: "\<not> is_authenticated x s" using Cons.prems
    by (cases "map_of (conns s) x") (auto simp: is_authenticated_def locked_out_def)
  show ?case
  proof (cases "parse (js_trim l)")
    case (Some r)
    show ?thesis
    proof (cases "js_trim l = []")
      case False
      have "locked_out sec N (handleAuth hmac x r s) \<and> d_kv (handleAuth hmac x r s) = d_kv s
        \<and> (\<forall>y. y \<noteq> x \<longrightarrow> map_of (conns (handleAuth hmac x r s)) y = map_of (conns s) y)
        \<and> (\<forall>c. map_of (conns s) x = Some c \<longrightarrow> (\<exists>c'. map_of (conns (handleAuth hmac x r s)) x = Some c' \<and> destroyed c'))"
        by (rule locked_out_auth [OF Cons.prems(2)]) (use Cons.prems(1) Some in auto)
      then show ?thesis using Some na False by (auto simp: Let_def same_or_destroyed_def)
    qed (use ih in simp)
  qed (use ih in \<open>simp add: Let_def\<close>)
qed (simp add: same_or_destroyed_def)
lemma framed_data_lines:
  assumes "framed es s" "map_of (conns s) x = Some c" "\<not> destroyed c"
  shows "set (fst (split_pop (conn_buffer c @ chunk))) \<subseteq> set (lines_received x (es @ [Data now x chunk]))"
    and "snd (split_pop (conn_buffer c @ chunk)) = snd (split_pop (received x (es @ [Data now x chunk])))"
proof -
  have b: "conn_buffer c = snd (split_pop (received x es))" "list_ex (connected_to x) es"
    using assms by (auto simp: framed_def)
  then have r: "received x (es @ [Data now x chunk]) = received x es @ chunk" by (simp add: received_snoc)
  show "set (fst (split_pop (conn_buffer c @ chunk))) \<subseteq> set (lines_received x (es @ [Data now x chunk]))"
    unfolding lines_received_def r using split_pop_append [of "received x es" chunk] b by auto
  show "snd (split_pop (conn_buffer c @ chunk)) = snd (split_pop (received x (es @ [Data now x chunk])))"
    unfolding r using split_pop_append [of "received x es" chunk] b by simp
qed

lemma received_other:
  "\<not> connected_to x e \<Longrightarrow> chunk_of x e = [] \<Longrightarrow> received x (es @ [e]) = received x es
    \<and> list_ex (connected_to x) (es @ [e]) = list_ex (connected_to x) es"
  by (simp add: received_snoc)

lemma framed_same:
  assumes "framed es s" "\<And>y. y \<noteq> x \<Longrightarrow> \<not> connected_to y e \<and> chunk_of y e = []" "\<not> connected_to x e"
    and "\<And>y. y \<noteq> x \<Longrightarrow> map_of (conns t) y = map_of (conns s) y"
    and "map_of (conns s) x = None \<Longrightarrow> map_of (conns t) x = None"
    and "\<And>c. map_of (conns s) x = Some c \<Longrightarrow>
      \<exists>c'. map_of (conns t) x = Some c' \<and> (destroyed c' \<or> conn_buffer c' = snd (split_pop (received x (es @ [e]))))"
  shows "framed (es @ [e]) t"
  unfolding framed_def
proof (intro allI)
  fix y
  show "(map_of (conns t) y = None \<longrightarrow> \<not> list_ex (connected_to y) (es @ [e])) \<and>
    (\<forall>c. map_of (conns t) y = Some c \<longrightarrow> list_ex (connected_to y) (es @ [e]) \<and>
       (destroyed c \<or> conn_buffer c = snd (split_pop (received y (es @ [e])))))"
  proof (cases "y = x")
    case True
    show ?thesis
    proof (cases "map_of (conns s) x")
      case None
      then show ?thesis using assms(1,3,5) True by (simp add: framed_def)
    next
      case (Some c)
      then obtain c' where "map_of (conns t) x = Some c'" "destroyed c' \<or> conn_buffer c' = snd (split_pop (received x (es @ [e])))"
        using assms(6) by blast
      then show ?thesis using assms(1) Some True by (auto simp: framed_def)
    qed
  next
    case False
    then show ?thesis using assms(1,2,4) received_other [of y e es] by (simp add: framed_def)
  qed
qed

lemma framed_still:
  assumes "framed es s" "\<And>y. \<not> connected_to y e \<and> chunk_of y e = []"
    and "\<And>y. map_of (conns t) y = map_of (conns s) y
      \<or> (\<exists>c c'. map_of (conns s) y = Some c \<and> map_of (conns t) y = Some c' \<and> destroyed c')"
  shows "framed (es @ [e]) t"
  unfolding framed_def
proof (intro allI)
  fix y
  have r: "received y (es @ [e]) = received y es" "list_ex (connected_to y) (es @ [e]) = list_ex (connected_to y) es"
    using received_other [of y e es] assms(2) by simp_all
  have f: "(map_of (conns s) y = None \<longrightarrow> \<not> list_ex (connected_to y) es) \<and>
    (\<forall>c. map_of (conns s) y = Some c \<longrightarrow> list_ex (connected_to y) es \<and>
       (destroyed c \<or> conn_buffer c = snd (split_pop (received y es))))"
    using assms(1) unfolding framed_def by blast
  show "(map_of (conns t) y = None \<longrightarrow> \<not> list_ex (connected_to y) (es @ [e])) \<and>
    (\<forall>c. map_of (conns t) y = Some c \<longrightarrow> list_ex (connected_to y) (es @ [e]) \<and>
       (destroyed c \<or> conn_buffer c = snd (split_pop (received y (es @ [e])))))"
    unfolding r using f assms(3) [of y] by auto
qed

lemma locked_out_data:
  assumes tok: "\<And>l r n. l \<in> set (lines_received x (es @ [Data now x chunk])) \<Longrightarrow> parse (js_trim l) = Some r \<Longrightarrow> n \<in> N x
      \<Longrightarrow> p_token r \<noteq> Some (hmac sec n)"
    and lo: "locked_out sec N s" and fr: "framed es s"
  shows "locked_out sec N (on_data parse hmac now x chunk s)
    \<and> d_kv (on_data parse hmac now x chunk s) = d_kv s
    \<and> framed (es @ [Data now x chunk]) (on_data parse hmac now x chunk s)"
proof -
  let ?e = "Data now x chunk"
  have e: "\<And>y. y \<noteq> x \<Longrightarrow> \<not> connected_to y ?e \<and> chunk_of y ?e = []" "\<not> connected_to x ?e" by simp_all
  show ?thesis
  proof (cases "map_of (conns s) x")
    case None
    then have "framed (es @ [?e]) s" by (intro framed_same [OF fr e]) simp_all
    then show ?thesis using None lo by (simp add: on_data_def)
  next
    case (Some c)
    consider (dead) "destroyed c" | (big) "\<not> destroyed c" "length (conn_buffer c @ chunk) > MAX_BUFFER_BYTES"
      | (ok) "\<not> destroyed c" "\<not> length (conn_buffer c @ chunk) > MAX_BUFFER_BYTES" by blast
    then show ?thesis
    proof cases
      case dead
      then have "framed (es @ [?e]) s" using Some by (intro framed_same [OF fr e]) simp_all
      then show ?thesis using Some dead lo by (simp add: on_data_def)
    next
      case big
      let ?t = "upd_conn x (\<lambda>c. c\<lparr>conn_buffer := conn_buffer c @ chunk, destroyed := True\<rparr>) s"
      have t: "on_data parse hmac now x chunk s
          = upd_conn x (\<lambda>c'. c'\<lparr>conn_buffer := conn_buffer c @ chunk, destroyed := True\<rparr>) s"
        using Some big by (simp add: on_data_def Let_def)
      have "locked_out sec N (on_data parse hmac now x chunk s)" unfolding t by (rule locked_out_upd [OF lo]) simp
      moreover have "framed (es @ [?e]) (on_data parse hmac now x chunk s)"
        unfolding t using Some by (intro framed_same [OF fr e]) simp_all
      ultimately show ?thesis by (simp add: t)
    next
      case ok
      let ?p = "split_pop (conn_buffer c @ chunk)"
      let ?u = "upd_conn x (\<lambda>c. c\<lparr>conn_buffer := snd ?p\<rparr>) s"
      note fl = framed_data_lines [OF fr Some ok(1)]
      have t: "on_data parse hmac now x chunk s = handle_lines parse hmac now x (fst ?p) ?u"
        using Some ok by (simp add: on_data_def Let_def split_beta)
      have lu: "locked_out sec N ?u" by (rule locked_out_upd [OF lo]) simp
      have l: "locked_out sec N (handle_lines parse hmac now x (fst ?p) ?u)
        \<and> d_kv (handle_lines parse hmac now x (fst ?p) ?u) = d_kv ?u
        \<and> same_or_destroyed x ?u (handle_lines parse hmac now x (fst ?p) ?u)"
        by (rule locked_out_lines [OF _ lu]) (use tok fl(1) in blast)
      have "framed (es @ [?e]) (handle_lines parse hmac now x (fst ?p) ?u)"
        by (rule framed_same [OF fr e]) (use l Some fl(2) in \<open>auto simp: same_or_destroyed_def\<close>)
      then show ?thesis unfolding t using l by simp
    qed
  qed
qed

lemma locked_out_step:
  assumes tok: "\<And>x l r n. l \<in> set (lines_received x (es @ [e])) \<Longrightarrow> parse (js_trim l) = Some r \<Longrightarrow> n \<in> N x
      \<Longrightarrow> p_token r \<noteq> Some (hmac sec n)"
    and lo: "locked_out sec N s" and fr: "framed es s" and con: "\<And>x n. e = Connect x n \<Longrightarrow> n \<in> N x"
  shows "locked_out sec N (daemon_step parse hmac s e)
    \<and> d_kv (daemon_step parse hmac s e) = kv_timer (d_kv s) e
    \<and> framed (es @ [e]) (daemon_step parse hmac s e)"
proof (cases e)
  case (Connect x n)
  show ?thesis
  proof (cases "js_has (conns s) x")
    case False
    let ?s = "s\<lparr>conns := AList.update x \<lparr>authenticated = False, conn_buffer = [], conn_nonce = n,
      destroyed = False, conn_closed = False, lockHandles = []\<rparr> (conns s), clients := clients s @ [x]\<rparr>"
    have "locked_out sec N ?s" using lo con Connect by (auto simp: locked_out_def)
    then have "locked_out sec N (daemon_step parse hmac s e)"
      using Connect False by (simp add: handleConnection_def locked_out_send)
    moreover have "framed (es @ [e]) (daemon_step parse hmac s e)"
    proof -
      have none: "\<not> list_ex (connected_to x) es" using fr False by (auto simp: framed_def js_has_def)
      have "received y (es @ [Connect x n]) = received y es" for y by (simp add: received_snoc)
      then show ?thesis using fr Connect False received_unconnected [OF none]
        by (auto simp: framed_def handleConnection_def split_pop_plain)
    qed
    ultimately show ?thesis using Connect False by (simp add: handleConnection_def)
  next
    case True
    then have "framed (es @ [e]) s"
      using fr Connect by (auto simp: framed_def js_has_def received_snoc)
    then show ?thesis using True lo Connect by (simp add: handleConnection_def)
  qed
next
  case (Data now x chunk)
  have "locked_out sec N (on_data parse hmac now x chunk s)
    \<and> d_kv (on_data parse hmac now x chunk s) = d_kv s
    \<and> framed (es @ [Data now x chunk]) (on_data parse hmac now x chunk s)"
    by (rule locked_out_data [OF _ lo fr]) (use tok Data in blast)
  then show ?thesis using Data by simp
next
  case (AuthDeadline x)
  have "locked_out sec N (upd_conn x (\<lambda>c. c\<lparr>destroyed := True\<rparr>) s)"
    by (rule locked_out_upd [OF lo]) simp
  moreover have "map_of (conns (on_auth_deadline x s)) y = map_of (conns s) y
      \<or> (\<exists>c c'. map_of (conns s) y = Some c \<and> map_of (conns (on_auth_deadline x s)) y = Some c' \<and> destroyed c')" for y
    by (cases "map_of (conns s) x") (auto simp: on_auth_deadline_def)
  then have "framed (es @ [e]) (on_auth_deadline x s)"
    by (intro framed_still [OF fr]) (use AuthDeadline in auto)
  ultimately show ?thesis using AuthDeadline lo by (simp add: on_auth_deadline_def)
next
  case (SockClose x)
  have f: "framed (es @ [e]) (on_close x s)"
    by (rule framed_still [OF fr]) (use SockClose in \<open>auto simp: on_close_def split: option.split\<close>)
  show ?thesis
  proof (cases "map_of (conns s) x")
    case (Some c)
    then have h: "lockHandles c = []" using lo by (auto simp: locked_out_def)
    let ?u = "upd_conn x (\<lambda>c. c\<lparr>destroyed := True, conn_closed := True, lockHandles := []\<rparr>) s"
    have "locked_out sec N ?u" by (rule locked_out_upd [OF lo]) simp
    then have "locked_out sec N (?u\<lparr>d_lock := d_lock s, clients := filter (\<lambda>y. y \<noteq> x) (clients s)\<rparr>)"
      unfolding locked_out_def by simp
    then show ?thesis using SockClose Some h lo f by (simp add: on_close_def release_all_def)
  qed (use SockClose lo f in \<open>simp add: on_close_def\<close>)
next
  case (SockError x)
  have "framed (es @ [e]) (on_error x s)"
    by (rule framed_still [OF fr]) (use SockError in \<open>auto simp: on_error_def\<close>)
  then show ?thesis using SockError lo by (simp add: on_error_def locked_out_def)
next
  case (Granted i)
  have "framed (es @ [e]) s" by (rule framed_still [OF fr]) (use Granted in auto)
  then show ?thesis using Granted lo by (simp add: resume_acquire_def locked_out_def)
next
  case (LockTimer i ms)
  have "framed (es @ [e]) s" by (rule framed_still [OF fr]) (use LockTimer in auto)
  then show ?thesis using LockTimer lo by (simp add: fail_acquire_def locked_out_def)
next
  case (KvTimer now ok)
  have "framed (es @ [e]) (s\<lparr>d_kv := kv_sweep now ok (d_kv s)\<rparr>)" by (rule framed_still [OF fr]) (use KvTimer in auto)
  then show ?thesis using KvTimer lo by (simp add: locked_out_def)
qed

lemma locked_out_run:
  assumes tok: "no_valid_token parse hmac secret (es @ later)"
  shows "locked_out secret (\<lambda>x. {n. Connect x n \<in> set (es @ later)}) (foldl (daemon_step parse hmac) (new_daemon secret now kv0) es)
    \<and> d_kv (foldl (daemon_step parse hmac) (new_daemon secret now kv0) es) = foldl kv_timer kv0 es
    \<and> framed es (foldl (daemon_step parse hmac) (new_daemon secret now kv0) es)"
  using tok
proof (induction es arbitrary: later rule: rev_induct)
  case Nil
  show ?case by (simp add: locked_out_def framed_def new_daemon_def)
next
  case (snoc e es)
  let ?s = "foldl (daemon_step parse hmac) (new_daemon secret now kv0) es"
  let ?N = "\<lambda>x. {n. Connect x n \<in> set ((es @ [e]) @ later)}"
  have prev: "locked_out secret ?N ?s \<and> d_kv ?s = foldl kv_timer kv0 es \<and> framed es ?s"
    using snoc.IH [of "e # later"] snoc.prems by simp
  have "locked_out secret ?N (daemon_step parse hmac ?s e) \<and> d_kv (daemon_step parse hmac ?s e) = kv_timer (d_kv ?s) e
    \<and> framed (es @ [e]) (daemon_step parse hmac ?s e)"
  proof (rule locked_out_step)
    fix x l r n
    assume "l \<in> set (lines_received x (es @ [e]))" "parse (js_trim l) = Some r" "n \<in> ?N x"
    then show "p_token r \<noteq> Some (hmac secret n)"
      using snoc.prems lines_received_append [of x "es @ [e]" later] unfolding no_valid_token_def by fastforce
  qed (use prev in auto)
  then show ?case using prev by simp
qed

text \<open>C9: Without the secret nothing can be done. If no complete line that a socket delivers carries the token of a
  nonce drawn for that socket, then whatever else is sent, cut in whatever chunks, on however many connections: no
  request is ever handled, no lock taken, the store changes only by its own timer, and the server answers with
  nothing but challenges and 401 refusals.\<close>

theorem daemon_auth_gate:
  assumes "no_valid_token parse hmac secret es"
    and "s = foldl (daemon_step parse hmac) (new_daemon secret now kv0) es"
  shows "requestsHandled s = 0 \<and> d_lock s = new_lock_registry \<and> d_kv s = foldl kv_timer kv0 es
    \<and> (\<forall>(sock, w) \<in> set (wire_out s). harmless w)"
  using locked_out_run [of parse hmac secret es "[]" now kv0] assms by (simp add: locked_out_def)

text \<open>A parser that reads the token off the line: the guess is refused, where the right token would be accepted.\<close>

definition token_parse :: "string \<Rightarrow> unit rpc_request option" where
  "token_parse line = Some \<lparr>reqId = (), reqMethod = ''kv.set'', p_token = Some line, p_key = ''k'', p_value = (),
     p_ttl = None, p_prefix = None, p_channel = [], p_message = ()\<rparr>"

theorem daemon_auth_gate_witness:
  "requestsHandled (foldl (daemon_step token_parse (@)) (new_daemon ''s'' 0 (new_kv 0 True NoFile))
     [Connect 1 ''n'', Connect 2 ''m'', Data 5 1 ''s'', Data 6 1 (''m'' @ [newline]), Data 7 2 (''sm'')]) = 0"
proof -
  have "no_valid_token token_parse (@) ''s''
      [Connect 1 ''n'', Connect 2 ''m'', Data 5 1 ''s'', Data 6 1 (''m'' @ [newline]), Data 7 2 (''sm'')]"
    by (auto simp: no_valid_token_def token_parse_def lines_received_def split_pop_def newline_def js_trim_def is_space_def)
  from daemon_auth_gate [OF this refl] show ?thesis by blast
qed

subsection \<open>Who holds what\<close>

lemma daemon_ok_run: "daemon_ok (foldl (daemon_step parse hmac) (new_daemon secret now kv0) es)"
  by (rule daemon.inv_run [OF daemon_ok_new])

text \<open>C10: Across connections: in every reachable state a key recorded as held by a connection is
  held, by the caller recorded, and no other connection records the same key. So a client that
  was told it acquired a lock is the only one until it releases it or goes away.\<close>

theorem daemon_lock_exclusive:
  assumes "s = foldl (daemon_step parse hmac) (new_daemon secret now kv0) es"
    and "map_of (handles_of sock s) key = Some i"
  shows "holders key (d_lock s) = [i] \<and> (\<forall>other. other \<noteq> sock \<longrightarrow> \<not> js_has (handles_of other s) key)"
proof -
  have ok: "locks_ok (d_lock s) (\<lambda>x. handles_of x s) (suspended s)"
    using daemon_ok_run [of parse hmac secret now kv0 es] assms(1) by (simp add: daemon_ok_def)
  note okD = locks_okD [OF ok]
  have h: "status_of i (callers key (d_lock s)) = Some Holding" using okD(3) assms(2) by blast
  have "length (holders key (d_lock s)) \<le> 1"
    using shape_holders [OF callers_shape [OF okD(1), of key]] by (simp only: length_holders)
  with status_holders [OF h] have "holders key (d_lock s) = [i]"
    by (cases "holders key (d_lock s)") auto
  moreover have "js_has (handles_of sock s) key" using assms(2) by (simp add: js_has_def)
  ultimately show ?thesis using okD(4) by blast
qed

text \<open>A connection that has closed is never touched again.\<close>

definition gone :: "nat \<Rightarrow> 'j daemon \<Rightarrow> bool" where
  "gone sock s = (case map_of (conns s) sock of Some c \<Rightarrow> conn_closed c \<and> destroyed c | None \<Rightarrow> False)"

lemma gone_simps [simp]:
  "gone sock (sendRaw x w s) = gone sock s"
  "gone sock (s\<lparr>d_lock := l\<rparr>) = gone sock s" "gone sock (s\<lparr>suspended := p\<rparr>) = gone sock s"
  by (simp_all add: gone_def)

lemma gone_set_handles [simp]: "gone sock (set_handles x hs s) = gone sock s"
  by (cases "sock = x"; cases "map_of (conns s) sock") (simp_all add: gone_def set_handles_def)

lemma gone_dispatch: "x \<noteq> sock \<Longrightarrow> map_of (conns (snd (dispatch now x r s))) sock = map_of (conns s) sock"
  by (cases "map_of (handles_of x s) (p_key r)")
     (simp_all add: dispatch_def dispatch_acquire_def dispatch_release_def set_handles_def split_beta Let_def)

lemma gone_handleRequest:
  "x \<noteq> sock \<Longrightarrow> map_of (conns (handleRequest now x r s)) sock = map_of (conns s) sock"
  using gone_dispatch [of x sock now r "s\<lparr>requestsHandled := requestsHandled s + 1\<rparr>"]
  by (auto simp: handleRequest_def split_beta split: outcome.split)

lemma gone_handleAuth:
  "x \<noteq> sock \<Longrightarrow> map_of (conns (handleAuth hmac x r s)) sock = map_of (conns s) sock"
  by (cases "map_of (conns s) x"; cases "p_token r") (simp_all add: handleAuth_def)

lemma gone_lines:
  "x \<noteq> sock \<Longrightarrow> map_of (conns (handle_lines parse hmac now x ls s)) sock = map_of (conns s) sock"
proof (induction ls arbitrary: s)
  case (Cons l ls)
  then show ?case
    by (cases "parse (js_trim l)") (simp_all add: Let_def gone_handleAuth gone_handleRequest)
qed simp

lemma gone_data:
  "x \<noteq> sock \<Longrightarrow> map_of (conns (on_data parse hmac now x chunk s)) sock = map_of (conns s) sock"
  by (cases "map_of (conns s) x") (simp_all add: on_data_def Let_def split_beta gone_lines)

lemma gone_data_self: "gone sock s \<Longrightarrow> on_data parse hmac now sock chunk s = s"
  by (cases "map_of (conns s) sock") (simp_all add: gone_def on_data_def)

lemma gone_step:
  assumes "gone sock s" "daemon_ok s" "map_of (handles_of sock s) key = Some i"
  shows "gone sock (daemon_step parse hmac s e)
    \<and> map_of (handles_of sock (daemon_step parse hmac s e)) key = Some i"
proof (cases e)
  case (Connect x n)
  have "js_has (conns s) sock" using assms(1) by (cases "map_of (conns s) sock") (auto simp: gone_def js_has_def)
  then show ?thesis using assms Connect
    by (auto simp: handleConnection_def gone_def handles_of_def)
next
  case (Data now x chunk)
  show ?thesis
  proof (cases "x = sock")
    case True
    then show ?thesis using assms Data gone_data_self [OF assms(1)] by simp
  next
    case False
    then show ?thesis using assms Data gone_data [OF False, of parse hmac now chunk s] by (simp add: gone_def handles_of_def)
  qed
next
  case (AuthDeadline x)
  show ?thesis using assms AuthDeadline
    by (cases "map_of (conns s) sock") (auto simp: on_auth_deadline_def gone_def)
next
  case (SockClose x)
  show ?thesis
  proof (cases "x = sock")
    case True
    then show ?thesis using assms SockClose
      by (cases "map_of (conns s) sock") (simp_all add: on_close_def gone_def)
  next
    case False
    then show ?thesis using assms SockClose
      by (cases "map_of (conns s) x") (simp_all add: on_close_def gone_def handles_of_def)
  qed
next
  case (SockError x)
  then show ?thesis using assms by (simp add: on_error_def gone_def)
next
  case (Granted j)
  show ?thesis
  proof (cases "map_of (suspended s) j")
    case (Some p)
    obtain k x rid where p: "p = (k, x, rid)" by (metis prod_cases3)
    let ?lk = "lock_grant k j (d_lock s)"
    show ?thesis
    proof (cases "status_of j (callers k ?lk) = Some Holding")
      case True
      have ok: "locks_ok (d_lock s) (\<lambda>x. handles_of x s) (suspended s)"
        using assms(2) by (simp add: daemon_ok_def)
      have ne: "k \<noteq> key"
        using locks_ok_grant(2) [OF ok Some [unfolded p] True, of sock] assms(3)
        by (auto simp: js_has_def)
      show ?thesis using assms(1,3) Granted Some p True ne
        by (auto simp: resume_acquire_def handles_of_set)
    qed (use assms Granted Some p in \<open>simp add: resume_acquire_def\<close>)
  qed (use assms Granted in \<open>simp add: resume_acquire_def\<close>)
next
  case (LockTimer j ms)
  show ?thesis
  proof (cases "map_of (suspended s) j")
    case (Some p)
    obtain k x rid where p: "p = (k, x, rid)" by (metis prod_cases3)
    then show ?thesis using assms LockTimer Some by (simp add: fail_acquire_def gone_def)
  qed (use assms LockTimer in \<open>simp add: fail_acquire_def\<close>)
next
  case (KvTimer now ok)
  then show ?thesis using assms by (simp add: gone_def)
qed

lemma gone_run:
  "gone sock s \<Longrightarrow> daemon_ok s \<Longrightarrow> map_of (handles_of sock s) key = Some i \<Longrightarrow>
   map_of (handles_of sock (foldl (daemon_step parse hmac) s es)) key = Some i
   \<and> daemon_ok (foldl (daemon_step parse hmac) s es)"
proof (induction es arbitrary: s)
  case (Cons e es)
  from gone_step [OF Cons.prems, of parse hmac e] daemon_ok_step [OF Cons.prems(2), of parse hmac e]
  show ?case using Cons.IH [of "daemon_step parse hmac s e"] by simp
qed simp

text \<open>A disconnect: the locks of the connection are given up, those of the others stay.\<close>

lemma release_all_other:
  "registry_ok lk \<Longrightarrow> status_of j (callers k lk) = Some st \<Longrightarrow> st \<noteq> Released \<Longrightarrow> (k, j) \<notin> set hs \<Longrightarrow>
   status_of j (callers k (release_all hs lk)) = Some st"
proof (induction hs arbitrary: lk)
  case (Cons h hs)
  obtain k' i where h: "h = (k', i)" by force
  have "status_of j (callers k (lock_release k' i lk)) = Some st"
    using keeps_release [OF Cons.prems(1-3), of k' i] Cons.prems(4) h by auto
  then show ?case using Cons.IH [of "lock_release k' i lk"] Cons.prems registry_ok_ops(2) h
    by (simp add: release_all_def)
qed (simp add: release_all_def)

lemma lock_release_not_holding:
  assumes "registry_ok lk" "status_of j (callers k lk) \<noteq> Some Holding"
  shows "status_of j (callers k (lock_release k' i lk)) \<noteq> Some Holding"
proof (cases "map_of (locks lk) k'")
  case (Some m)
  then show ?thesis using assms(2)
    by (cases "status_of i (chain m) = Some Holding"; cases "k = k'")
       (simp_all add: lock_release_def Let_def callers_def status_of_set_status)
qed (simp add: lock_release_def assms(2))

lemma release_all_gives_up:
  "registry_ok lk \<Longrightarrow> (k, j) \<in> set hs \<or> status_of j (callers k lk) \<noteq> Some Holding \<Longrightarrow>
   status_of j (callers k (release_all hs lk)) \<noteq> Some Holding"
proof (induction hs arbitrary: lk)
  case (Cons h hs)
  obtain k' i where h: "h = (k', i)" by force
  have "(k, j) \<in> set hs \<or> status_of j (callers k (lock_release k' i lk)) \<noteq> Some Holding"
    using Cons.prems(2) h lock_release_done [OF Cons.prems(1), of i k']
      lock_release_not_holding [OF Cons.prems(1)] by auto
  then show ?case using Cons.IH [of "lock_release k' i lk"] registry_ok_ops(2) [OF Cons.prems(1)] h
    by (simp add: release_all_def)
qed (simp add: release_all_def)

text \<open>A disconnect gives up exactly the locks of the connection: no key it recorded is held
  any more by its caller, the connection records nothing, and every lock another connection
  records is still held by that connection.\<close>

theorem daemon_disconnect_releases:
  assumes "s = foldl (daemon_step parse hmac) (new_daemon secret now kv0) es"
    and "map_of (conns s) sock = Some c" and "\<not> conn_closed c"
  shows "handles_of sock (on_close sock s) = []
    \<and> (\<forall>key i. map_of (lockHandles c) key = Some i \<longrightarrow> holders key (d_lock (on_close sock s)) = [])
    \<and> (\<forall>other key i. other \<noteq> sock \<longrightarrow> map_of (handles_of other s) key = Some i \<longrightarrow>
         holders key (d_lock (on_close sock s)) = [i])"
proof -
  have dok: "daemon_ok s" unfolding assms(1) by (rule daemon_ok_run)
  then have ok: "locks_ok (d_lock s) (\<lambda>x. handles_of x s) (suspended s)" by (simp add: daemon_ok_def)
  note okD = locks_okD [OF ok]
  let ?u = "on_close sock s"
  have "daemon_ok ?u" by (rule daemon_ok_on_close [OF dok])
  then have reg: "registry_ok (d_lock ?u)" by (simp add: daemon_ok_def locks_ok_def)
  have u: "d_lock ?u = release_all (lockHandles c) (d_lock s)"
    using assms(2,3) by (simp add: on_close_def)
  have hs: "handles_of sock s = lockHandles c" using assms(2) by (simp add: handles_of_def)
  have a: "handles_of sock ?u = []" using assms(2,3) by (simp add: on_close_def handles_of_def)
  have b: "holders key (d_lock ?u) = []" if key: "map_of (lockHandles c) key = Some i" for key i
  proof (rule ccontr)
    assume "holders key (d_lock ?u) \<noteq> []"
    then obtain j where "j \<in> set (holders key (d_lock ?u))" by (cases "holders key (d_lock ?u)") auto
    then have j: "status_of j (callers key (release_all (lockHandles c) (d_lock s))) = Some Holding"
      using holders_status [OF _ reg] u by simp
    have "status_of j (callers key (d_lock s)) = Some Holding"
      using release_all_gives_up [OF okD(1), of key j "lockHandles c"] j by blast
    then have "j = i" using holders_unique [OF okD(1)] okD(3) [of sock key i] hs key by auto
    then have "(key, j) \<in> set (lockHandles c)" using map_of_in_set [OF key] by simp
    then show False using release_all_gives_up [OF okD(1), of key j "lockHandles c"] j by blast
  qed
  have d: "holders key (d_lock ?u) = [i]"
    if o: "other \<noteq> sock" "map_of (handles_of other s) key = Some i" for other key i
  proof -
    have "js_has (handles_of other s) key" using o(2) by (simp add: js_has_def)
    then have "\<not> js_has (handles_of sock s) key" using okD(4) o(1) by blast
    then have "(key, i) \<notin> set (lockHandles c)"
      using hs js_has_in_keys [of "lockHandles c" key] by force
    then have h: "status_of i (callers key (d_lock ?u)) = Some Holding"
      using release_all_other [OF okD(1) okD(3) [OF o(2)]] u by simp
    have "length (holders key (d_lock ?u)) \<le> 1"
      using shape_holders [OF callers_shape [OF reg, of key]] by (simp only: length_holders)
    with status_holders [OF h] show ?thesis by (cases "holders key (d_lock ?u)") auto
  qed
  from a b d show ?thesis by blast
qed

text \<open>A client that goes away while it waits for a lock takes the lock with it. When its turn
  comes the server still completes the acquisition and files the handle with the closed
  connection, whose \<open>close\<close> handler has run: whatever happens afterwards, the key stays held by
  the caller that is gone, so every other \<open>lock.acquire\<close> of the key can only time out.\<close>

theorem daemon_waiting_client_leaks_lock:
  assumes "s = foldl (daemon_step parse hmac) (new_daemon secret now kv0) es"
    and "map_of (suspended s) i = Some (key, sock, rid)" and "gone sock s"
    and "chain_ready i True (callers key (d_lock s))"
  shows "holders key (d_lock (foldl (daemon_step parse hmac) (resume_acquire i s) later)) = [i]"
proof -
  have dok: "daemon_ok s" unfolding assms(1) by (rule daemon_ok_run)
  let ?lk = "lock_grant key i (d_lock s)" and ?t = "resume_acquire i s"
  obtain m where m: "map_of (locks (d_lock s)) key = Some m" "callers key (d_lock s) = chain m"
    using assms(4) by (cases "map_of (locks (d_lock s)) key") (auto simp: callers_def)
  have h: "status_of i (callers key ?lk) = Some Holding"
    using assms(4) m chain_ready_waiting [OF assms(4)]
    by (simp add: lock_grant_def status_of_set_status)
  obtain c where c: "map_of (conns s) sock = Some c" "conn_closed c" "destroyed c"
    using assms(3) by (cases "map_of (conns s) sock") (auto simp: gone_def)
  have t: "gone sock ?t" "map_of (handles_of sock ?t) key = Some i"
    using assms(2) h c
    by (simp_all add: resume_acquire_def gone_def handles_of_set js_has_def set_handles_def)
      (simp_all add: handles_of_def)
  have tok: "daemon_ok ?t" by (rule daemon_ok_resume [OF dok])
  let ?f = "foldl (daemon_step parse hmac) ?t later"
  from gone_run [OF t(1) tok t(2)] have f: "map_of (handles_of sock ?f) key = Some i" "daemon_ok ?f"
    by auto
  then have ok: "locks_ok (d_lock ?f) (\<lambda>x. handles_of x ?f) (suspended ?f)"
    by (simp add: daemon_ok_def)
  have "status_of i (callers key (d_lock ?f)) = Some Holding" using locks_okD(3) [OF ok] f(1) by blast
  moreover have "length (holders key (d_lock ?f)) \<le> 1"
    using shape_holders [OF callers_shape [OF locks_okD(1) [OF ok], of key]]
    by (simp only: length_holders)
  ultimately show ?thesis
    using status_holders [of i key "d_lock ?f"] by (cases "holders key (d_lock ?f)") auto
qed

subsection \<open>Concrete runs\<close>

definition demo_request :: "string \<Rightarrow> string option \<Rightarrow> unit rpc_request" where
  "demo_request meth token = \<lparr>reqId = (), reqMethod = meth, p_token = token, p_key = ''k'',
     p_value = (), p_ttl = None, p_prefix = None, p_channel = [], p_message = ()\<rparr>"

definition demo_parse :: "string \<Rightarrow> unit rpc_request option" where
  "demo_parse line = (if line = ''auth'' then Some (demo_request ''auth'' (Some ''t''))
                      else Some (demo_request line None))"

definition demo_run :: "daemon_event list \<Rightarrow> unit daemon" where
  "demo_run es = foldl (daemon_step demo_parse (\<lambda>secret nonce. ''t'')) (new_daemon ''s'' 0 (new_kv 0 True NoFile)) es"

definition demo_line :: "string \<Rightarrow> string" where "demo_line l = l @ [newline]"

lemmas daemon_defs = demo_run_def demo_line_def demo_parse_def demo_request_def new_daemon_def
  handleConnection_def on_data_def split_pop_def newline_def js_trim_def is_space_def
  upd_conn_def sendRaw_def is_destroyed_def is_authenticated_def handleAuth_def handleRequest_def
  dispatch_def dispatch_acquire_def dispatch_release_def handles_of_def set_handles_def js_has_def
  lock_acquire_def lock_grant_def new_lock_registry_def callers_def set_status_def
  resume_acquire_def MAX_BUFFER_BYTES_def Let_def gone_def on_close_def release_all_def
  lock_release_def

lemma demo_holding:
  "map_of (handles_of 1 (demo_run [Connect 1 ''n'', Data 0 1 (demo_line ''auth''),
      Data 0 1 (demo_line ''lock.acquire''), Granted 0])) ''k'' = Some 0"
  by (simp add: daemon_defs)

theorem daemon_lock_exclusive_witness:
  "holders ''k'' (d_lock (demo_run [Connect 1 ''n'', Data 0 1 (demo_line ''auth''),
      Data 0 1 (demo_line ''lock.acquire''), Granted 0])) = [0]"
  by (rule daemon_lock_exclusive [OF _ demo_holding, THEN conjunct1]) (rule demo_run_def)

theorem daemon_disconnect_releases_witness:
  "holders ''k'' (d_lock (on_close 1 (demo_run [Connect 1 ''n'', Data 0 1 (demo_line ''auth''),
      Data 0 1 (demo_line ''lock.acquire''), Granted 0]))) = []"
proof -
  let ?s = "demo_run [Connect 1 ''n'', Data 0 1 (demo_line ''auth''),
      Data 0 1 (demo_line ''lock.acquire''), Granted 0]"
  obtain c where c: "map_of (conns ?s) 1 = Some c" "\<not> conn_closed c"
    by (simp add: daemon_defs)
  then have "map_of (lockHandles c) ''k'' = Some 0" using demo_holding by (simp add: handles_of_def)
  with daemon_disconnect_releases [OF demo_run_def c] show ?thesis by blast
qed

theorem daemon_waiting_client_leaks_lock_witness:
  "holders ''k'' (d_lock (foldl (daemon_step demo_parse (\<lambda>secret nonce. ''t''))
      (resume_acquire 1 (demo_run [Connect 1 ''n'', Data 0 1 (demo_line ''auth''),
         Connect 2 ''n'', Data 0 2 (demo_line ''auth''),
         Data 0 1 (demo_line ''lock.acquire''), Granted 0, Data 0 2 (demo_line ''lock.acquire''),
         SockClose 2, Data 0 1 (demo_line ''lock.release'')]))
      [Connect 3 ''n'', SockClose 1])) = [1]"
  by (rule daemon_waiting_client_leaks_lock [where sock = 2 and rid = "()", OF demo_run_def])
     (simp_all add: daemon_defs)

subsection \<open>Chunks\<close>

text \<open>Handling a request neither reads nor writes the buffer.\<close>

abbreviation set_buffer :: "nat \<Rightarrow> string \<Rightarrow> 'j daemon \<Rightarrow> 'j daemon" where
  "set_buffer sock b \<equiv> upd_conn sock (\<lambda>c. c\<lparr>conn_buffer := b\<rparr>)"

lemma is_destroyed_upd [simp]:
  "(\<And>c. destroyed (f c) = destroyed c) \<Longrightarrow> is_destroyed x (upd_conn sock f s) = is_destroyed x s"
  by (cases "x = sock"; cases "map_of (conns s) sock") (auto simp: is_destroyed_def)

lemma is_authenticated_upd [simp]:
  "(\<And>c. authenticated (f c) = authenticated c) \<Longrightarrow>
   is_authenticated x (upd_conn sock f s) = is_authenticated x s"
  by (cases "x = sock"; cases "map_of (conns s) sock") (auto simp: is_authenticated_def)

lemma upd_conn_upd [simp]: "upd_conn x f (upd_conn x g s) = upd_conn x (\<lambda>c. f (g c)) s"
  by (cases "map_of (conns s) x") (simp_all add: upd_conn_def update_last)

lemma upd_conn_fields:
  "upd_conn x f (s\<lparr>d_lock := l\<rparr>) = (upd_conn x f s)\<lparr>d_lock := l\<rparr>"
  "upd_conn x f (s\<lparr>d_kv := kv\<rparr>) = (upd_conn x f s)\<lparr>d_kv := kv\<rparr>"
  "upd_conn x f (s\<lparr>suspended := p\<rparr>) = (upd_conn x f s)\<lparr>suspended := p\<rparr>"
  "upd_conn x f (s\<lparr>requestsHandled := n\<rparr>) = (upd_conn x f s)\<lparr>requestsHandled := n\<rparr>"
  "upd_conn x f (s\<lparr>wire_out := w\<rparr>) = (upd_conn x f s)\<lparr>wire_out := w\<rparr>"
  by (cases "map_of (conns s) x"; simp add: upd_conn_def)+

lemma send_set_buffer: "sendRaw x w (set_buffer sock b s) = set_buffer sock b (sendRaw x w s)"
  by (simp add: sendRaw_def upd_conn_fields)

lemma broadcast_set_buffer:
  "broadcast_all ch m (set_buffer sock b s) = set_buffer sock b (broadcast_all ch m s)"
proof -
  have "fold (\<lambda>c. sendRaw c (Envelope ch m)) cs (set_buffer sock b s)
      = set_buffer sock b (fold (\<lambda>c. sendRaw c (Envelope ch m)) cs s)" for cs
    by (induction cs arbitrary: s) (simp_all add: send_set_buffer)
  then show ?thesis by (simp add: broadcast_all_def)
qed

lemma handles_set_buffer:
  "set_handles sock hs (set_buffer sock b s) = set_buffer sock b (set_handles sock hs s)"
proof -
  have "(\<lambda>c. c\<lparr>conn_buffer := b, lockHandles := hs\<rparr>) = (\<lambda>c. c\<lparr>lockHandles := hs, conn_buffer := b\<rparr>)"
    by (rule ext) simp
  then show ?thesis unfolding set_handles_def upd_conn_upd by (rule arg_cong)
qed

lemma upd_conn_startTime [simp]: "startTime (upd_conn x f s) = startTime s"
  by (cases "map_of (conns s) x") (simp_all add: upd_conn_def)

lemma dispatch_set_buffer:
  "dispatch now sock r (set_buffer sock b s)
   = (fst (dispatch now sock r s), set_buffer sock b (snd (dispatch now sock r s)))"
proof -
  have acq: "dispatch_acquire sock r (set_buffer sock b s)
      = (fst (dispatch_acquire sock r s), set_buffer sock b (snd (dispatch_acquire sock r s)))"
    by (simp add: dispatch_acquire_def split_beta upd_conn_fields)
  have rel: "dispatch_release sock r (set_buffer sock b s)
      = (fst (dispatch_release sock r s), set_buffer sock b (snd (dispatch_release sock r s)))"
    by (cases "map_of (handles_of sock s) (p_key r)")
       (simp_all add: dispatch_release_def handles_set_buffer upd_conn_fields)
  have st: "daemon_stats_of now (set_buffer sock b s) = daemon_stats_of now s"
    by (simp add: daemon_stats_of_def)
  show ?thesis
    by (simp add: dispatch_def Let_def split_beta acq rel st broadcast_set_buffer upd_conn_fields)
qed

lemma request_set_buffer:
  "handleRequest now sock r (set_buffer sock b s) = set_buffer sock b (handleRequest now sock r s)"
proof -
  have "dispatch now sock r ((set_buffer sock b s)\<lparr>requestsHandled := n\<rparr>)
      = (fst (dispatch now sock r (s\<lparr>requestsHandled := n\<rparr>)),
         set_buffer sock b (snd (dispatch now sock r (s\<lparr>requestsHandled := n\<rparr>))))" for n
    using dispatch_set_buffer [of now sock r b "s\<lparr>requestsHandled := n\<rparr>"]
    by (simp add: upd_conn_fields)
  then show ?thesis
    by (cases "fst (dispatch now sock r (s\<lparr>requestsHandled := requestsHandled s + 1\<rparr>))")
       (simp_all add: handleRequest_def split_beta send_set_buffer)
qed

text \<open>A request keeps its connection authenticated, open, and its buffer.\<close>

definition session_of :: "nat \<Rightarrow> 'j daemon \<Rightarrow> (bool \<times> bool \<times> string) option" where
  "session_of sock s =
     map_option (\<lambda>c. (authenticated c, destroyed c, conn_buffer c)) (map_of (conns s) sock)"

lemma session_of_simps [simp]:
  "session_of x (sendRaw y w s) = session_of x s" "session_of x (set_handles y hs s) = session_of x s"
  "session_of x (s\<lparr>d_lock := l\<rparr>) = session_of x s" "session_of x (s\<lparr>d_kv := k\<rparr>) = session_of x s"
  "session_of x (s\<lparr>suspended := p\<rparr>) = session_of x s"
  "session_of x (s\<lparr>requestsHandled := n\<rparr>) = session_of x s"
  "session_of x (broadcast_all ch m s) = session_of x s"
  by (simp_all add: session_of_def set_handles_def option.map_comp comp_def)

lemma session_of_dispatch [simp]: "session_of x (snd (dispatch now y r s)) = session_of x s"
  by (cases "map_of (handles_of y s) (p_key r)")
     (simp_all add: dispatch_def dispatch_acquire_def dispatch_release_def split_beta Let_def)

lemma session_of_request [simp]: "session_of x (handleRequest now y r s) = session_of x s"
  by (cases "fst (dispatch now y r (s\<lparr>requestsHandled := requestsHandled s + 1\<rparr>))")
     (simp_all add: handleRequest_def split_beta)

lemma authenticated_session:
  "is_authenticated x s \<longleftrightarrow> (case session_of x s of Some (a, d, b) \<Rightarrow> a | None \<Rightarrow> False)"
  by (cases "map_of (conns s) x") (simp_all add: is_authenticated_def session_of_def)

lemma lines_authenticated:
  assumes "is_authenticated sock s"
  shows "session_of sock (handle_lines parse hmac now sock ls s) = session_of sock s
    \<and> handle_lines parse hmac now sock (ls @ ls') s
      = handle_lines parse hmac now sock ls' (handle_lines parse hmac now sock ls s)
    \<and> handle_lines parse hmac now sock ls (set_buffer sock b s)
      = set_buffer sock b (handle_lines parse hmac now sock ls s)"
  using assms
proof (induction ls arbitrary: s)
  case (Cons l ls)
  show ?case
  proof (cases "parse (js_trim l)")
    case (Some r)
    have "is_authenticated sock (handleRequest now sock r s)"
      using Cons.prems by (simp add: authenticated_session)
    from Cons.IH [OF this] Cons.IH [OF Cons.prems] Some Cons.prems show ?thesis
      by (simp add: Let_def request_set_buffer)
  qed (use Cons in \<open>simp add: Let_def\<close>)
qed simp

text \<open>The lines of an authenticated client: two chunks in a row, with nothing in between, do what one chunk does.\<close>

lemma on_data_append:
  assumes "map_of (conns s) sock = Some c" and "authenticated c"
    and "length (conn_buffer c) + length a + length b \<le> MAX_BUFFER_BYTES"
  shows "on_data parse hmac now sock (a @ b) s
    = on_data parse hmac now sock b (on_data parse hmac now sock a s)"
proof (cases "destroyed c")
  case False
  let ?p = "split_pop (conn_buffer c @ a)"
  let ?lines = "handle_lines parse hmac now sock"
  have auth: "is_authenticated sock s" using assms(1,2) by (simp add: is_authenticated_def)
  have sess: "session_of sock s = Some (True, False, conn_buffer c)"
    using assms(1,2) False by (simp add: session_of_def)
  let ?s1 = "?lines (fst ?p) (set_buffer sock (snd ?p) s)"
  have d1: "on_data parse hmac now sock a s = ?s1"
    using assms(1,3) False by (simp add: on_data_def Let_def split_beta)
  have auth1: "is_authenticated sock (set_buffer sock x s)" for x using auth by simp
  have "session_of sock (set_buffer sock (snd ?p) s) = Some (True, False, snd ?p)"
    using assms(1,2) False by (simp add: session_of_def)
  then have sess1: "session_of sock ?s1 = Some (True, False, snd ?p)"
    using lines_authenticated [OF auth1, THEN conjunct1] by simp
  then obtain c1 where c1: "map_of (conns ?s1) sock = Some c1" "\<not> destroyed c1"
    "conn_buffer c1 = snd ?p" by (auto simp: session_of_def)
  have "length (snd ?p) \<le> length (conn_buffer c @ a)" by (rule length_split_pop)
  then have len: "length (snd ?p @ b) \<le> MAX_BUFFER_BYTES" using assms(3) by simp
  let ?q = "split_pop (snd ?p @ b)"
  have d2: "on_data parse hmac now sock b ?s1 = ?lines (fst ?q) (set_buffer sock (snd ?q) ?s1)"
    using c1 len by (simp add: on_data_def Let_def split_beta)
  have app: "split_pop (conn_buffer c @ a @ b) = (fst ?p @ fst ?q, snd ?q)"
    using split_pop_append [of "conn_buffer c @ a" b] by simp
  have "on_data parse hmac now sock (a @ b) s = ?lines (fst ?p @ fst ?q) (set_buffer sock (snd ?q) s)"
    using assms(1,3) False app by (simp add: on_data_def Let_def)
  also have "\<dots> = ?lines (fst ?q) (?lines (fst ?p) (set_buffer sock (snd ?q) s))"
    using lines_authenticated [OF auth1] by blast
  also have "?lines (fst ?p) (set_buffer sock (snd ?q) s) = set_buffer sock (snd ?q) ?s1"
    using lines_authenticated [OF auth] by simp
  finally show ?thesis using d1 d2 by simp
next
  case True
  then show ?thesis using assms(1) by (simp add: on_data_def)
qed

text \<open>A turn of the event loop ends with the waiting acquires that can go on: \<open>run_grants\<close>, after the lines of a chunk.\<close>

definition run_grants :: "'j daemon \<Rightarrow> 'j daemon" where
  "run_grants s = fold resume_acquire (map fst (suspended s)) s"

definition data_turn ::
  "(string \<Rightarrow> 'j rpc_request option) \<Rightarrow> (string \<Rightarrow> string \<Rightarrow> string) \<Rightarrow> time \<Rightarrow> nat \<Rightarrow> string \<Rightarrow> 'j daemon \<Rightarrow> 'j daemon" where
  "data_turn parse hmac now sock chunk s = run_grants (on_data parse hmac now sock chunk s)"

text \<open>C11: For an authenticated client whose buffer stays below the cap it does not matter where its stream is cut into
  chunks, as long as no lock is granted at the end of the first: two turns then do to the whole server what one turn
  with the same text does.\<close>

theorem daemon_chunking:
  assumes "map_of (conns s) sock = Some c" and "authenticated c"
    and "length (conn_buffer c) + length a + length b \<le> MAX_BUFFER_BYTES"
    and "run_grants (on_data parse hmac now sock a s) = on_data parse hmac now sock a s"
  shows "data_turn parse hmac now sock (a @ b) s
    = data_turn parse hmac now sock b (data_turn parse hmac now sock a s)"
  using on_data_append [OF assms(1-3)] assms(4) by (simp add: data_turn_def)

theorem daemon_chunking_witness:
  "data_turn demo_parse (\<lambda>secret nonce. ''t'') 0 1 (''ping'' @ [newline])
     (demo_run [Connect 1 ''n'', Data 0 1 (demo_line ''auth'')])
   = data_turn demo_parse (\<lambda>secret nonce. ''t'') 0 1 [newline]
     (data_turn demo_parse (\<lambda>secret nonce. ''t'') 0 1 ''ping''
       (demo_run [Connect 1 ''n'', Data 0 1 (demo_line ''auth'')]))"
proof -
  let ?s = "demo_run [Connect 1 ''n'', Data 0 1 (demo_line ''auth'')]"
  obtain c where c: "map_of (conns ?s) 1 = Some c" "authenticated c" "conn_buffer c = []"
    by (simp add: daemon_defs)
  have "suspended (on_data demo_parse (\<lambda>secret nonce. ''t'') 0 1 ''ping'' ?s) = []" by (simp add: daemon_defs)
  then have "run_grants (on_data demo_parse (\<lambda>secret nonce. ''t'') 0 1 ''ping'' ?s)
      = on_data demo_parse (\<lambda>secret nonce. ''t'') 0 1 ''ping'' ?s" by (simp add: run_grants_def)
  then show ?thesis using c by (intro daemon_chunking) (auto simp: MAX_BUFFER_BYTES_def)
qed

text \<open>The condition is needed: a release right behind its acquire finds the lock not yet granted when both come in one
  chunk, and releases it when a turn lies between them.\<close>

lemma acquire_release_in_one_chunk:
  "map fst (handles_of 1 (data_turn demo_parse (\<lambda>secret nonce. ''t'') 0 1 (demo_line ''lock.acquire'' @ demo_line ''lock.release'')
     (demo_run [Connect 1 ''n'', Data 0 1 (demo_line ''auth'')]))) = [''k'']"
  "handles_of 1 (data_turn demo_parse (\<lambda>secret nonce. ''t'') 0 1 (demo_line ''lock.release'')
     (data_turn demo_parse (\<lambda>secret nonce. ''t'') 0 1 (demo_line ''lock.acquire'')
       (demo_run [Connect 1 ''n'', Data 0 1 (demo_line ''auth'')]))) = []"
  by (simp_all add: data_turn_def run_grants_def daemon_defs status_of_def)

text \<open>But not around the authentication: the lines that follow the authentication message in its
  chunk are lost, where the same lines in a chunk of their own are handled.\<close>

lemma daemon_lines_after_auth_lost:
  "requestsHandled (demo_run [Connect 1 ''n'', Data 0 1 (demo_line ''auth'' @ demo_line ''ping'')]) = 0"
  "requestsHandled (demo_run [Connect 1 ''n'', Data 0 1 (demo_line ''auth''),
                              Data 0 1 (demo_line ''ping'')]) = 1"
  by (simp_all add: daemon_defs)

end
