(* ===== verification/ConnPool.thy ===== *)
theory ConnPool
  imports LineFraming "HOL-Library.Multiset"
begin

text \<open>
  The pool of backend connections, \<open>src/src/bridge/pool.ts\<close>: per server the open connections with
  the calls in flight on them, the callers waiting for one, and the timers. One event is one
  synchronous block of the code; an \<open>await\<close> ends a block, so that what other callers do in
  between is a matter of the order of events.

  Callers and calls are numbers the events carry. Connection ids (a date and random letters in
  the code) are numbers drawn from a counter. What the factory does for a spawn is an argument of the event: it
  returns a transport, it throws, or it reports an error before it returns. \<open>parse\<close> stands for
  \<open>JSON.parse\<close> with the fields the code reads (None if it throws).
\<close>

record 'j rpc_reply =
  msgId :: "nat option"
  msgError :: "string option option"
  msgResult :: 'j

record pconn =
  busy :: bool
  idleTimer :: bool
  pendingCalls :: "(nat, nat) jsmap"
  nextRequestId :: nat
  lineBuffer :: string
  hasWriteLine :: bool
  closed :: bool

record server_entry =
  connections :: "(nat, pconn) jsmap"
  waiting :: "nat list"
  spawning :: int
  respawnTimers :: nat
  nextConn :: nat

record pool_options =
  minConnections :: nat
  maxConnections :: nat

record 'j pool =
  poolOpts :: pool_options
  registered :: "string list"
  entries :: "(string, server_entry) jsmap"
  isShuttingDown :: bool
  resuming :: "(nat, string \<times> nat) jsmap"
  respawned :: "string list"
  granted :: "(nat \<times> nat) list"
  refused :: "(nat \<times> string) list"
  settled :: "(nat \<times> (string + 'j)) list"

datatype factory_result = Transport | FactoryThrows string | FactoryReports string

definition new_pool :: "pool_options \<Rightarrow> 'j pool" where
  "new_pool opts = \<lparr>poolOpts = opts, registered = [], entries = [], isShuttingDown = False,
     resuming = [], respawned = [], granted = [], refused = [], settled = []\<rparr>"

definition new_conn :: pconn where
  "new_conn = \<lparr>busy = False, idleTimer = False, pendingCalls = [], nextRequestId = 1,
     lineBuffer = [], hasWriteLine = True, closed = False\<rparr>"

definition upd_entry :: "string \<Rightarrow> (server_entry \<Rightarrow> server_entry) \<Rightarrow> 'j pool \<Rightarrow> 'j pool" where
  "upd_entry key f p =
     (case map_of (entries p) key of
        Some e \<Rightarrow> p\<lparr>entries := AList.update key (f e) (entries p)\<rparr>
      | None \<Rightarrow> p)"

definition set_conn :: "nat \<Rightarrow> pconn \<Rightarrow> server_entry \<Rightarrow> server_entry" where
  "set_conn cid c e = e\<lparr>connections := AList.update cid c (connections e)\<rparr>"

text \<open>
  \<open>_spawnConnection\<close>: the new connection, or the error its promise is rejected with. A factory that
  throws leaves \<open>spawning\<close> as it was raised; one that reports an error before it returns has it
  lowered twice and still files the connection.
\<close>

definition spawnConnection ::
  "factory_result \<Rightarrow> server_entry \<Rightarrow> (string + nat) \<times> server_entry" where
  "spawnConnection res e =
     (let cid = nextConn e; e1 = e\<lparr>spawning := spawning e + 1, nextConn := cid + 1\<rparr> in
      case res of
        FactoryThrows err \<Rightarrow> (Inl err, e1)
      | FactoryReports err \<Rightarrow>
          (Inl err,
           (set_conn cid new_conn (e1\<lparr>connections := AList.delete cid (connections e1)\<rparr>))
             \<lparr>spawning := spawning e1 - 1 - 1\<rparr>)
      | Transport \<Rightarrow> (Inr cid, (set_conn cid new_conn e1)\<lparr>spawning := spawning e1 - 1\<rparr>))"

fun spawn_all :: "factory_result list \<Rightarrow> server_entry \<Rightarrow> server_entry" where
  "spawn_all [] e = e"
| "spawn_all (res # rs) e = spawn_all rs (snd (spawnConnection res e))"

text \<open>\<open>registerServer\<close>: the list holds what the factory does for the connections it warms up.\<close>

definition registerServer :: "string \<Rightarrow> factory_result list \<Rightarrow> 'j pool \<Rightarrow> 'j pool" where
  "registerServer key spawns p =
     (if key \<in> set (registered p) then p
      else (let e0 = \<lparr>connections = [], waiting = [], spawning = 0, respawnTimers = 0, nextConn = 0\<rparr>;
                e = spawn_all (take (minConnections (poolOpts p)) spawns) e0
            in p\<lparr>registered := registered p @ [key], entries := AList.update key e (entries p)\<rparr>))"

definition findIdle :: "server_entry \<Rightarrow> nat option" where
  "findIdle e =
     map_option fst (List.find (\<lambda>(cid, c). \<not> busy c \<and> \<not> closed c) (connections e))"

definition mark_busy_conn :: "pconn \<Rightarrow> pconn" where
  "mark_busy_conn c = c\<lparr>busy := True, idleTimer := False\<rparr>"

definition upd_conn_of :: "nat \<Rightarrow> (pconn \<Rightarrow> pconn) \<Rightarrow> server_entry \<Rightarrow> server_entry" where
  "upd_conn_of cid f e =
     (case map_of (connections e) cid of Some c \<Rightarrow> set_conn cid (f c) e | None \<Rightarrow> e)"

text \<open>\<open>acquire\<close> up to its first suspension; \<open>res\<close> is used if it spawns.\<close>

definition pool_acquire ::
  "nat \<Rightarrow> string \<Rightarrow> factory_result \<Rightarrow> 'j pool \<Rightarrow> 'j pool" where
  "pool_acquire token key res p =
     (if isShuttingDown p
      then p\<lparr>refused := refused p @ [(token, ''ConnectionPool is shutting down'')]\<rparr>
      else if key \<notin> set (registered p)
      then p\<lparr>refused := refused p @ [(token, ''ConnectionPool: unknown server'')]\<rparr>
      else (case map_of (entries p) key of
              None \<Rightarrow> p
            | Some e \<Rightarrow>
                (case findIdle e of
                   Some c \<Rightarrow>
                     (upd_entry key (upd_conn_of c mark_busy_conn) p)
                       \<lparr>granted := granted p @ [(token, c)]\<rparr>
                 | None \<Rightarrow>
                     (if int (length (connections e)) + spawning e < int (maxConnections (poolOpts p))
                      then (let (r, e') = spawnConnection res e;
                                p' = upd_entry key (\<lambda>_. e') p
                            in case r of
                                 Inr c \<Rightarrow> p'\<lparr>resuming := AList.update token (key, c) (resuming p)\<rparr>
                               | Inl err \<Rightarrow> p'\<lparr>refused := refused p @ [(token, err)]\<rparr>)
                      else upd_entry key (\<lambda>e. e\<lparr>waiting := waiting e @ [token]\<rparr>) p))))"

text \<open>\<open>acquire\<close> after \<open>await this._spawnConnection(entry)\<close>.\<close>

definition pool_acquire_resumes :: "nat \<Rightarrow> 'j pool \<Rightarrow> 'j pool" where
  "pool_acquire_resumes token p =
     (case map_of (resuming p) token of
        None \<Rightarrow> p
      | Some (key, c) \<Rightarrow>
          (upd_entry key (upd_conn_of c mark_busy_conn) p)
            \<lparr>resuming := AList.delete token (resuming p), granted := granted p @ [(token, c)]\<rparr>)"

definition pool_acquire_timeout :: "nat \<Rightarrow> string \<Rightarrow> 'j pool \<Rightarrow> 'j pool" where
  "pool_acquire_timeout token key p =
     (case map_of (entries p) key of
        None \<Rightarrow> p
      | Some e \<Rightarrow>
          (if token \<in> set (waiting e)
           then (upd_entry key (\<lambda>e. e\<lparr>waiting := remove1 token (waiting e)\<rparr>) p)
                  \<lparr>refused := refused p @ [(token, ''ConnectionPool: acquire timeout'')]\<rparr>
           else p))"

definition pool_release :: "string \<Rightarrow> nat \<Rightarrow> 'j pool \<Rightarrow> 'j pool" where
  "pool_release key cid p =
     (if key \<notin> set (registered p) then p
      else (case map_of (entries p) key of
              None \<Rightarrow> p
            | Some e \<Rightarrow>
                (case map_of (connections e) cid of
                   None \<Rightarrow> p
                 | Some c \<Rightarrow>
                     (if closed c then p
                      else (case waiting e of
                              w # ws \<Rightarrow>
                                (upd_entry key (\<lambda>e. (set_conn cid (c\<lparr>busy := True\<rparr>) e)\<lparr>waiting := ws\<rparr>) p)
                                  \<lparr>granted := granted p @ [(w, cid)]\<rparr>
                            | [] \<Rightarrow>
                                upd_entry key (set_conn cid (c\<lparr>busy := False, idleTimer := True\<rparr>)) p)))))"

text \<open>Settling every call in flight on a connection that closes.\<close>

definition reject_pending :: "string \<Rightarrow> pconn \<Rightarrow> (nat \<times> (string + 'j)) list" where
  "reject_pending err c = map (\<lambda>(rid, call). (call, Inl err)) (pendingCalls c)"

definition closed_conn :: "pconn \<Rightarrow> pconn" where
  "closed_conn c = c\<lparr>closed := True, hasWriteLine := False, pendingCalls := [], idleTimer := False\<rparr>"

text \<open>\<open>_closeInternal\<close>: the connection afterwards, and the calls it rejects.\<close>

definition close_internal :: "pconn \<Rightarrow> pconn" where
  "close_internal c = (if closed c then c else closed_conn c)"

definition close_rejects :: "pconn \<Rightarrow> (nat \<times> (string + 'j)) list" where
  "close_rejects c = (if closed c then [] else reject_pending ''Connection closed'' c)"

definition pool_handle_close :: "string \<Rightarrow> nat \<Rightarrow> 'j pool \<Rightarrow> 'j pool" where
  "pool_handle_close key cid p =
     (case map_of (entries p) key of
        None \<Rightarrow> p
      | Some e \<Rightarrow>
          (case map_of (connections e) cid of
             None \<Rightarrow> p
           | Some c \<Rightarrow>
               (if closed c then p
                else (let e' = e\<lparr>connections := AList.delete cid (connections e)\<rparr>;
                          active = int (length (connections e')) + spawning e';
                          e'' = (if \<not> isShuttingDown p \<and> active < int (minConnections (poolOpts p))
                                 then e'\<lparr>respawnTimers := respawnTimers e' + 1\<rparr> else e')
                      in (upd_entry key (\<lambda>_. e'') p)
                           \<lparr>settled := settled p @ reject_pending ''Connection closed unexpectedly'' c\<rparr>))))"

text \<open>The \<open>setTimeout(\<dots>, 0)\<close> of a respawn, and the \<open>then\<close> of its spawn.\<close>

definition pool_respawn :: "string \<Rightarrow> factory_result \<Rightarrow> 'j pool \<Rightarrow> 'j pool" where
  "pool_respawn key res p =
     (case map_of (entries p) key of
        None \<Rightarrow> p
      | Some e \<Rightarrow>
          (if respawnTimers e = 0 then p
           else (let e1 = e\<lparr>respawnTimers := respawnTimers e - 1\<rparr> in
                 if isShuttingDown p then upd_entry key (\<lambda>_. e1) p
                 else (let (r, e') = spawnConnection res e1;
                           p' = upd_entry key (\<lambda>_. e') p
                       in case r of Inr c \<Rightarrow> p'\<lparr>respawned := respawned p @ [key]\<rparr> | Inl err \<Rightarrow> p'))))"

text \<open>\<open>_drainWaiters\<close>: hands idle connections to the waiters, first come first served.\<close>

fun drain_waiters :: "nat list \<Rightarrow> server_entry \<Rightarrow> server_entry \<times> (nat \<times> nat) list" where
  "drain_waiters [] e = (e\<lparr>waiting := []\<rparr>, [])"
| "drain_waiters (w # ws) e =
     (case findIdle e of
        None \<Rightarrow> (e\<lparr>waiting := w # ws\<rparr>, [])
      | Some c \<Rightarrow>
          (let (e', gs) = drain_waiters ws (upd_conn_of c (\<lambda>c. c\<lparr>busy := True\<rparr>) e)
           in (e', (w, c) # gs)))"

definition pool_respawn_resumes :: "string \<Rightarrow> 'j pool \<Rightarrow> 'j pool" where
  "pool_respawn_resumes key p =
     (if key \<notin> set (respawned p) then p
      else (case map_of (entries p) key of
              None \<Rightarrow> p
            | Some e \<Rightarrow>
                (let (e', gs) = drain_waiters (waiting e) e
                 in (upd_entry key (\<lambda>_. e') p)
                      \<lparr>respawned := remove1 key (respawned p), granted := granted p @ gs\<rparr>)))"

definition pool_idle_fires :: "string \<Rightarrow> nat \<Rightarrow> 'j pool \<Rightarrow> 'j pool" where
  "pool_idle_fires key cid p =
     (case map_of (entries p) key of
        None \<Rightarrow> p
      | Some e \<Rightarrow>
          (case map_of (connections e) cid of
             None \<Rightarrow> p
           | Some c \<Rightarrow>
               (if \<not> idleTimer c then p
                else if \<not> busy c \<and> length (connections e) > minConnections (poolOpts p)
                then (upd_entry key (\<lambda>e. e\<lparr>connections := AList.delete cid (connections e)\<rparr>) p)
                       \<lparr>settled := settled p @ close_rejects c\<rparr>
                else upd_entry key (set_conn cid (c\<lparr>idleTimer := False\<rparr>)) p)))"

text \<open>\<open>_rpcCall\<close>; \<open>ok\<close> is what the transport's write returns.\<close>

definition pool_call :: "string \<Rightarrow> nat \<Rightarrow> nat \<Rightarrow> bool \<Rightarrow> 'j pool \<Rightarrow> 'j pool" where
  "pool_call key cid call ok p =
     (case map_of (entries p) key of
        None \<Rightarrow> p\<lparr>settled := settled p @ [(call, Inl ''Connection is closed'')]\<rparr>
      | Some e \<Rightarrow>
          (case map_of (connections e) cid of
             None \<Rightarrow> p\<lparr>settled := settled p @ [(call, Inl ''Connection is closed'')]\<rparr>
           | Some c \<Rightarrow>
               (if closed c \<or> \<not> hasWriteLine c
                then p\<lparr>settled := settled p @ [(call, Inl ''Connection is closed'')]\<rparr>
                else (let rid = nextRequestId c;
                          c1 = c\<lparr>nextRequestId := rid + 1\<rparr>
                      in if ok
                         then upd_entry key
                                (set_conn cid (c1\<lparr>pendingCalls := AList.update rid call (pendingCalls c)\<rparr>)) p
                         else (upd_entry key (set_conn cid c1) p)
                                \<lparr>settled := settled p @ [(call, Inl ''Write failed'')]\<rparr>))))"

text \<open>\<open>_handleLine\<close>: the lines of a chunk, each routed by its id.\<close>

definition on_reply_line ::
  "(string \<Rightarrow> 'j rpc_reply option) \<Rightarrow> string \<Rightarrow> pconn \<times> (nat \<times> (string + 'j)) list \<Rightarrow>
   pconn \<times> (nat \<times> (string + 'j)) list" where
  "on_reply_line parse raw st =
     (let line = js_trim raw; (c, out) = st in
      if line = [] then (c, out)
      else (case parse line of
              None \<Rightarrow> (c, out)
            | Some msg \<Rightarrow>
                (case msgId msg of
                   None \<Rightarrow> (c, out)
                 | Some rid \<Rightarrow>
                     (case map_of (pendingCalls c) rid of
                        None \<Rightarrow> (c, out)
                      | Some call \<Rightarrow>
                          (c\<lparr>pendingCalls := AList.delete rid (pendingCalls c)\<rparr>,
                           out @ [(call, case msgError msg of
                                           Some m \<Rightarrow> Inl (nullish m ''RPC error'')
                                         | None \<Rightarrow> Inr (msgResult msg))])))))"

definition feed_conn ::
  "(string \<Rightarrow> 'j rpc_reply option) \<Rightarrow> string \<Rightarrow> pconn \<times> (nat \<times> (string + 'j)) list \<Rightarrow>
   pconn \<times> (nat \<times> (string + 'j)) list" where
  "feed_conn parse raw st =
     (let (lines, rest) = take_lines (lineBuffer (fst st) @ raw)
      in fold (on_reply_line parse) lines (fst st\<lparr>lineBuffer := rest\<rparr>, snd st))"

definition pool_chunk ::
  "(string \<Rightarrow> 'j rpc_reply option) \<Rightarrow> string \<Rightarrow> nat \<Rightarrow> string \<Rightarrow> 'j pool \<Rightarrow> 'j pool" where
  "pool_chunk parse key cid raw p =
     (case map_of (entries p) key of
        None \<Rightarrow> p
      | Some e \<Rightarrow>
          (case map_of (connections e) cid of
             None \<Rightarrow> p
           | Some c \<Rightarrow>
               (let (c', out) = feed_conn parse raw (c, settled p)
                in (upd_entry key (set_conn cid c') p)\<lparr>settled := out\<rparr>)))"

text \<open>\<open>shutdown\<close>: every waiter refused, every connection closed, every server forgotten.\<close>

definition shutdown_entry :: "server_entry \<Rightarrow> server_entry" where
  "shutdown_entry e =
     e\<lparr>waiting := [],
       connections := map (\<lambda>(cid, c). (cid, close_internal c)) (connections e)\<rparr>"

definition pool_shutdown :: "'j pool \<Rightarrow> 'j pool" where
  "pool_shutdown p =
     (let live = filter (\<lambda>(key, e). key \<in> set (registered p)) (entries p) in
      p\<lparr>isShuttingDown := True, registered := [],
        entries := map (\<lambda>(key, e). (key, if key \<in> set (registered p) then shutdown_entry e else e)) (entries p),
        refused := refused p @ concat (map (\<lambda>(key, e). map (\<lambda>w. (w, ''ConnectionPool shut down'')) (waiting e)) live),
        settled := settled p @ concat (map (\<lambda>(key, e). concat (map (\<lambda>(cid, c). close_rejects c) (connections e))) live)\<rparr>)"

record pool_stats =
  totalConnections :: nat
  idleConnections :: nat
  busyConnections :: nat
  serversTracked :: nat
  pendingAcquires :: nat

definition pool_stats_of :: "'j pool \<Rightarrow> pool_stats" where
  "pool_stats_of p =
     (let es = map snd (filter (\<lambda>(key, e). key \<in> set (registered p)) (entries p));
          cs = filter (\<lambda>c. \<not> closed c) (concat (map (\<lambda>e. map snd (connections e)) es))
      in \<lparr>totalConnections = length cs, idleConnections = length (filter (\<lambda>c. \<not> busy c) cs),
          busyConnections = length (filter busy cs), serversTracked = length (registered p),
          pendingAcquires = sum_list (map (\<lambda>e. length (waiting e)) es)\<rparr>)"

datatype pool_event =
    Register string "factory_result list"
  | PAcquire nat string factory_result
  | AcquireResumes nat
  | AcquireTimeout nat string
  | PRelease string nat
  | ConnClosed string nat
  | ConnError string nat
  | Respawn string factory_result
  | RespawnResumes string
  | IdleFires string nat
  | RpcCall string nat nat bool
  | Chunk string nat string
  | Shutdown

fun pool_step :: "(string \<Rightarrow> 'j rpc_reply option) \<Rightarrow> 'j pool \<Rightarrow> pool_event \<Rightarrow> 'j pool" where
  "pool_step parse p (Register key spawns) = registerServer key spawns p"
| "pool_step parse p (PAcquire t key res) = pool_acquire t key res p"
| "pool_step parse p (AcquireResumes t) = pool_acquire_resumes t p"
| "pool_step parse p (AcquireTimeout t key) = pool_acquire_timeout t key p"
| "pool_step parse p (PRelease key cid) = pool_release key cid p"
| "pool_step parse p (ConnClosed key cid) = pool_handle_close key cid p"
| "pool_step parse p (ConnError key cid) = pool_handle_close key cid p"
| "pool_step parse p (Respawn key res) = pool_respawn key res p"
| "pool_step parse p (RespawnResumes key) = pool_respawn_resumes key p"
| "pool_step parse p (IdleFires key cid) = pool_idle_fires key cid p"
| "pool_step parse p (RpcCall key cid call ok) = pool_call key cid call ok p"
| "pool_step parse p (Chunk key cid raw) = pool_chunk parse key cid raw p"
| "pool_step parse p Shutdown = pool_shutdown p"

subsection \<open>The books\<close>

definition conn_pending :: "pconn \<Rightarrow> nat multiset" where
  "conn_pending c = js_sum (\<lambda>call. {#call#}) (pendingCalls c)"

definition entry_pending :: "server_entry \<Rightarrow> nat multiset" where
  "entry_pending e = js_sum conn_pending (connections e)"

text \<open>Every call the pool knows of: settled, or in flight on some connection.\<close>

definition account :: "'j pool \<Rightarrow> nat multiset" where
  "account p = mset (map fst (settled p)) + js_sum entry_pending (entries p)"

definition conn_ok :: "pconn \<Rightarrow> bool" where
  "conn_ok c \<longleftrightarrow> js_wf (pendingCalls c)
     \<and> (\<forall>rid. js_has (pendingCalls c) rid \<longrightarrow> rid < nextRequestId c)
     \<and> (closed c \<longrightarrow> pendingCalls c = [])"

definition entry_ok :: "server_entry \<Rightarrow> bool" where
  "entry_ok e \<longleftrightarrow> js_wf (connections e)
     \<and> (\<forall>cid c. map_of (connections e) cid = Some c \<longrightarrow> conn_ok c \<and> cid < nextConn e)"

definition entry_dead :: "server_entry \<Rightarrow> bool" where
  "entry_dead e \<longleftrightarrow> (\<forall>cid c. map_of (connections e) cid = Some c \<longrightarrow> closed c)"

definition pool_ok :: "'j pool \<Rightarrow> bool" where
  "pool_ok p \<longleftrightarrow> js_wf (entries p)
     \<and> (\<forall>key e. map_of (entries p) key = Some e \<longrightarrow>
          entry_ok e \<and> (key \<notin> set (registered p) \<longrightarrow> isShuttingDown p \<and> entry_dead e))"

fun issued :: "pool_event \<Rightarrow> nat multiset" where
  "issued (RpcCall key cid call ok) = {#call#}"
| "issued _ = {#}"

lemma conn_ok_new [simp]: "conn_ok new_conn" "conn_pending new_conn = {#}" "\<not> closed new_conn"
  by (simp_all add: conn_ok_def new_conn_def conn_pending_def js_has_def)

lemma conn_ok_fields [simp]:
  "conn_ok (c\<lparr>busy := b\<rparr>) = conn_ok c" "conn_ok (c\<lparr>idleTimer := b\<rparr>) = conn_ok c"
  "conn_ok (c\<lparr>lineBuffer := l\<rparr>) = conn_ok c"
  "conn_pending (c\<lparr>busy := b\<rparr>) = conn_pending c" "conn_pending (c\<lparr>idleTimer := b\<rparr>) = conn_pending c"
  "conn_pending (c\<lparr>lineBuffer := l\<rparr>) = conn_pending c"
  "conn_pending (c\<lparr>nextRequestId := n\<rparr>) = conn_pending c"
  by (simp_all add: conn_ok_def conn_pending_def)

lemma entry_ok_fields [simp]:
  "entry_ok (e\<lparr>waiting := w\<rparr>) = entry_ok e" "entry_ok (e\<lparr>spawning := n\<rparr>) = entry_ok e"
  "entry_ok (e\<lparr>respawnTimers := k\<rparr>) = entry_ok e"
  "entry_pending (e\<lparr>waiting := w\<rparr>) = entry_pending e" "entry_pending (e\<lparr>spawning := n\<rparr>) = entry_pending e"
  "entry_pending (e\<lparr>respawnTimers := k\<rparr>) = entry_pending e"
  "entry_pending (e\<lparr>nextConn := k\<rparr>) = entry_pending e"
  "entry_dead (e\<lparr>waiting := w\<rparr>) = entry_dead e" "entry_dead (e\<lparr>respawnTimers := k\<rparr>) = entry_dead e"
  by (simp_all add: entry_ok_def entry_pending_def entry_dead_def)

lemma js_sum_mset: "js_sum (\<lambda>x. {#x#}) m = mset (map snd m)"
  by (induction m) auto

lemma dead_pending:
  assumes "entry_ok e" "entry_dead e"
  shows "entry_pending e = {#}"
  unfolding entry_pending_def
proof (rule js_sum_zero)
  fix k c
  assume "(k, c) \<in> set (connections e)"
  then have "map_of (connections e) k = Some c"
    using assms(1) by (simp add: entry_ok_def js_wf_def)
  then have "pendingCalls c = []"
    using assms unfolding entry_ok_def entry_dead_def conn_ok_def by blast
  then show "conn_pending c = {#}" by (simp add: conn_pending_def)
qed

lemma set_conn_ok:
  assumes "entry_ok e" "map_of (connections e) cid = Some c" "conn_ok c'"
  shows "entry_ok (set_conn cid c' e)"
    "entry_pending (set_conn cid c' e) + conn_pending c = entry_pending e + conn_pending c'"
    "(closed c \<longrightarrow> closed c') \<Longrightarrow> entry_dead e \<Longrightarrow> entry_dead (set_conn cid c' e)"
proof -
  show "entry_ok (set_conn cid c' e)"
    using assms unfolding entry_ok_def set_conn_def by (simp split: if_splits)
  show "entry_pending (set_conn cid c' e) + conn_pending c = entry_pending e + conn_pending c'"
    using js_sum_set [OF assms(2), of conn_pending c'] by (simp add: entry_pending_def set_conn_def)
  show "(closed c \<longrightarrow> closed c') \<Longrightarrow> entry_dead e \<Longrightarrow> entry_dead (set_conn cid c' e)"
    using assms(2) by (simp add: entry_dead_def set_conn_def)
qed

lemma spawn_ok:
  assumes "entry_ok e"
  shows "entry_ok (snd (spawnConnection res e))"
    and "entry_pending (snd (spawnConnection res e)) = entry_pending e"
proof -
  have fresh: "\<not> js_has (connections e) (nextConn e)"
    using assms unfolding entry_ok_def js_has_def by fastforce
  have ok: "entry_ok (set_conn (nextConn e) new_conn (e\<lparr>spawning := n, nextConn := Suc (nextConn e)\<rparr>))" for n
    using assms unfolding entry_ok_def set_conn_def by (auto simp: less_Suc_eq)
  have pend: "entry_pending (set_conn (nextConn e) new_conn (e\<lparr>spawning := n, nextConn := k\<rparr>)) = entry_pending e" for n k
    using js_sum_new [OF fresh, of conn_pending new_conn] by (simp add: entry_pending_def set_conn_def)
  have bump: "entry_ok (e\<lparr>spawning := n, nextConn := Suc (nextConn e)\<rparr>)" for n
    using assms unfolding entry_ok_def by (auto simp: less_Suc_eq)
  have del: "AList.delete (nextConn e) (connections e) = connections e"
    using fresh by (simp add: delete_idem js_has_in_keys)
  have noop: "e\<lparr>connections := connections e, spawning := n, nextConn := k\<rparr> = e\<lparr>spawning := n, nextConn := k\<rparr>" for n k
    by simp
  show "entry_ok (snd (spawnConnection res e))"
    using ok bump by (cases res) (simp_all add: spawnConnection_def Let_def del noop)
  show "entry_pending (snd (spawnConnection res e)) = entry_pending e"
    using pend by (cases res) (simp_all add: spawnConnection_def Let_def del noop)
qed

lemma spawn_all_ok:
  "entry_ok e \<Longrightarrow> entry_ok (spawn_all rs e) \<and> entry_pending (spawn_all rs e) = entry_pending e"
  by (induction rs arbitrary: e) (simp_all add: spawn_ok)

lemma upd_conn_of_ok:
  assumes "entry_ok e" "\<And>c. conn_ok c \<Longrightarrow> conn_ok (f c)" "\<And>c. conn_pending (f c) = conn_pending c"
    "\<And>c. closed (f c) = closed c"
  shows "entry_ok (upd_conn_of cid f e) \<and> entry_pending (upd_conn_of cid f e) = entry_pending e
    \<and> (entry_dead e \<longrightarrow> entry_dead (upd_conn_of cid f e))"
proof (cases "map_of (connections e) cid")
  case (Some c)
  then have "conn_ok (f c)" using assms(1,2) by (auto simp: entry_ok_def)
  from set_conn_ok [OF assms(1) Some this] assms(3,4) show ?thesis
    using Some by (simp add: upd_conn_of_def)
qed (simp add: upd_conn_of_def assms(1))

lemma drain_ok:
  "entry_ok e \<Longrightarrow> entry_ok (fst (drain_waiters ws e)) \<and> entry_pending (fst (drain_waiters ws e)) = entry_pending e
    \<and> (entry_dead e \<longrightarrow> entry_dead (fst (drain_waiters ws e)))"
proof (induction ws arbitrary: e)
  case (Cons w ws)
  show ?case
  proof (cases "findIdle e")
    case (Some c)
    have "entry_ok (upd_conn_of c (\<lambda>c. c\<lparr>busy := True\<rparr>) e)
        \<and> entry_pending (upd_conn_of c (\<lambda>c. c\<lparr>busy := True\<rparr>) e) = entry_pending e
        \<and> (entry_dead e \<longrightarrow> entry_dead (upd_conn_of c (\<lambda>c. c\<lparr>busy := True\<rparr>) e))"
      by (rule upd_conn_of_ok [OF Cons.prems]) simp_all
    then show ?thesis using Cons.IH Some by (simp add: split_beta)
  qed (simp add: Cons.prems)
qed simp

text \<open>Changing one entry of the pool.\<close>

lemma pool_okD:
  assumes "pool_ok p" "map_of (entries p) key = Some e"
  shows "entry_ok e" "key \<notin> set (registered p) \<Longrightarrow> isShuttingDown p" "key \<notin> set (registered p) \<Longrightarrow> entry_dead e"
  using assms by (auto simp: pool_ok_def)

lemma upd_entry_frame [simp]:
  "registered (upd_entry key f p) = registered p" "isShuttingDown (upd_entry key f p) = isShuttingDown p"
  "settled (upd_entry key f p) = settled p"
  by (cases "map_of (entries p) key"; simp add: upd_entry_def)+

lemma pool_ok_fields [simp]:
  "pool_ok (p\<lparr>granted := g\<rparr>) = pool_ok p" "pool_ok (p\<lparr>refused := r\<rparr>) = pool_ok p"
  "pool_ok (p\<lparr>settled := st\<rparr>) = pool_ok p" "pool_ok (p\<lparr>resuming := rs\<rparr>) = pool_ok p"
  "pool_ok (p\<lparr>respawned := rp\<rparr>) = pool_ok p"
  "account (p\<lparr>granted := g\<rparr>) = account p" "account (p\<lparr>refused := r\<rparr>) = account p"
  "account (p\<lparr>resuming := rs\<rparr>) = account p" "account (p\<lparr>respawned := rp\<rparr>) = account p"
  by (simp_all add: pool_ok_def account_def)

lemma upd_entry_ok:
  assumes "pool_ok p" "map_of (entries p) key = Some e" "entry_ok (f e)"
    "key \<in> set (registered p) \<or> (entry_dead e \<longrightarrow> entry_dead (f e))"
  shows "pool_ok (upd_entry key f p)"
    and "account (upd_entry key f p) + entry_pending e = account p + entry_pending (f e)"
    and "js_sum entry_pending (entries (upd_entry key f p)) + entry_pending e
       = js_sum entry_pending (entries p) + entry_pending (f e)"
proof -
  have u: "upd_entry key f p = p\<lparr>entries := AList.update key (f e) (entries p)\<rparr>"
    using assms(2) by (simp add: upd_entry_def)
  show "pool_ok (upd_entry key f p)"
    using assms pool_okD [OF assms(1,2)] unfolding u pool_ok_def by auto
  show s: "js_sum entry_pending (entries (upd_entry key f p)) + entry_pending e
       = js_sum entry_pending (entries p) + entry_pending (f e)"
    using js_sum_set [OF assms(2), of entry_pending "f e"] by (simp add: u)
  show "account (upd_entry key f p) + entry_pending e = account p + entry_pending (f e)"
    using s by (simp add: account_def add.assoc)
qed

lemma upd_entry_same:
  assumes "pool_ok p" "map_of (entries p) key = Some e" "entry_ok (f e)"
    "key \<in> set (registered p) \<or> (entry_dead e \<longrightarrow> entry_dead (f e))" "entry_pending (f e) = entry_pending e"
  shows "pool_ok (upd_entry key f p) \<and> account (upd_entry key f p) = account p"
  using upd_entry_ok [where f = f, OF assms(1-4)] assms(5) by simp

lemma books_acquire:
  assumes "pool_ok p"
  shows "pool_ok (pool_acquire t key res p) \<and> account (pool_acquire t key res p) = account p"
proof (cases "isShuttingDown p \<or> key \<notin> set (registered p) \<or> map_of (entries p) key = None")
  case False
  then obtain e where e: "map_of (entries p) key = Some e" and reg: "key \<in> set (registered p)" by auto
  note eok = pool_okD(1) [OF assms e]
  show ?thesis
  proof (cases "findIdle e")
    case (Some c)
    have m: "conn_ok c \<Longrightarrow> conn_ok (mark_busy_conn c)" "conn_pending (mark_busy_conn c) = conn_pending c"
      "closed (mark_busy_conn c) = closed c" for c
      by (simp_all add: mark_busy_conn_def)
    have "pool_ok (upd_entry key (upd_conn_of c mark_busy_conn) p)
        \<and> account (upd_entry key (upd_conn_of c mark_busy_conn) p) = account p"
      by (rule upd_entry_same [OF assms e]) (use upd_conn_of_ok [OF eok m] reg in auto)
    then show ?thesis using False e Some by (simp add: pool_acquire_def)
  next
    case None
    have sp: "pool_ok (upd_entry key (\<lambda>_. snd (spawnConnection res e)) p)
        \<and> account (upd_entry key (\<lambda>_. snd (spawnConnection res e)) p) = account p"
      by (rule upd_entry_same [OF assms e]) (use spawn_ok [OF eok] reg in auto)
    have wt: "pool_ok (upd_entry key (\<lambda>e. e\<lparr>waiting := waiting e @ [t]\<rparr>) p)
        \<and> account (upd_entry key (\<lambda>e. e\<lparr>waiting := waiting e @ [t]\<rparr>) p) = account p"
      by (rule upd_entry_same [OF assms e]) (use eok reg in auto)
    show ?thesis using False e None sp wt
      by (cases "fst (spawnConnection res e)") (simp_all add: pool_acquire_def Let_def split_beta)
  qed
qed (auto simp: pool_acquire_def assms)

lemma books_resumes:
  assumes "pool_ok p"
  shows "pool_ok (pool_acquire_resumes t p) \<and> account (pool_acquire_resumes t p) = account p"
proof (cases "map_of (resuming p) t")
  case (Some kc)
  obtain key c where kc: "kc = (key, c)" by force
  let ?f = "upd_conn_of c mark_busy_conn"
  have m: "conn_ok c \<Longrightarrow> conn_ok (mark_busy_conn c)" "conn_pending (mark_busy_conn c) = conn_pending c"
    "closed (mark_busy_conn c) = closed c" for c
    by (simp_all add: mark_busy_conn_def)
  have "pool_ok (upd_entry key ?f p) \<and> account (upd_entry key ?f p) = account p"
  proof (cases "map_of (entries p) key")
    case (Some e)
    show ?thesis
      by (rule upd_entry_same [OF assms Some])
         (use upd_conn_of_ok [OF pool_okD(1) [OF assms Some] m] in auto)
  qed (simp add: upd_entry_def assms)
  then show ?thesis using Some kc by (simp add: pool_acquire_resumes_def)
qed (simp add: pool_acquire_resumes_def assms)

lemma books_timeout:
  assumes "pool_ok p"
  shows "pool_ok (pool_acquire_timeout t key p) \<and> account (pool_acquire_timeout t key p) = account p"
proof (cases "map_of (entries p) key")
  case (Some e)
  have "pool_ok (upd_entry key (\<lambda>e. e\<lparr>waiting := remove1 t (waiting e)\<rparr>) p)
      \<and> account (upd_entry key (\<lambda>e. e\<lparr>waiting := remove1 t (waiting e)\<rparr>) p) = account p"
    by (rule upd_entry_same [OF assms Some]) (use pool_okD(1) [OF assms Some] in auto)
  then show ?thesis using Some assms by (simp add: pool_acquire_timeout_def)
qed (simp add: pool_acquire_timeout_def assms)

lemma books_release:
  assumes "pool_ok p"
  shows "pool_ok (pool_release key cid p) \<and> account (pool_release key cid p) = account p"
proof (cases "map_of (entries p) key")
  case (Some e)
  note eok = pool_okD(1) [OF assms Some]
  show ?thesis
  proof (cases "map_of (connections e) cid")
    case c: (Some c)
    have cok: "conn_ok c" using eok c by (auto simp: entry_ok_def)
    have idle: "conn_ok (c\<lparr>busy := False, idleTimer := True\<rparr>)"
      "conn_pending (c\<lparr>busy := False, idleTimer := True\<rparr>) = conn_pending c"
      and bz: "conn_ok (c\<lparr>busy := True\<rparr>)" "conn_pending (c\<lparr>busy := True\<rparr>) = conn_pending c"
      using cok by simp_all
    note i = set_conn_ok [OF eok c idle(1)] and b = set_conn_ok [OF eok c bz(1)]
    have 1: "pool_ok (upd_entry key (set_conn cid (c\<lparr>busy := False, idleTimer := True\<rparr>)) p)
        \<and> account (upd_entry key (set_conn cid (c\<lparr>busy := False, idleTimer := True\<rparr>)) p) = account p"
      by (rule upd_entry_same [OF assms Some]) (use i idle(2) in auto)
    have 2: "pool_ok (upd_entry key (\<lambda>e. (set_conn cid (c\<lparr>busy := True\<rparr>) e)\<lparr>waiting := ws\<rparr>) p)
        \<and> account (upd_entry key (\<lambda>e. (set_conn cid (c\<lparr>busy := True\<rparr>) e)\<lparr>waiting := ws\<rparr>) p) = account p" for ws
      by (rule upd_entry_same [OF assms Some]) (use b bz(2) in auto)
    show ?thesis using Some c assms 1 2 by (simp add: pool_release_def split: list.split)
  qed (use Some assms in \<open>simp add: pool_release_def\<close>)
qed (simp add: pool_release_def assms)

lemma mset_reject: "image_mset fst (mset (reject_pending err c)) = conn_pending c"
  unfolding conn_pending_def js_sum_mset mset_map [symmetric] reject_pending_def
  by (simp only: map_map comp_def split_def fst_conv)

lemma mset_cancel:
  "X + c = E + (c + d) \<Longrightarrow> X = E + (d :: 'a multiset)"
proof -
  assume "X + c = E + (c + d)"
  then have "X + c = (E + d) + c" by (simp only: ac_simps)
  then show "X = E + d" by (simp only: add_right_cancel)
qed

lemma mset_flow:
  assumes "S + e = J + e'" "e' + c = e + c'" "M' + c' = M + c"
  shows "M' + S = M + (J :: 'a multiset)"
proof (rule multiset_eqI)
  fix x
  show "count (M' + S) x = count (M + J) x"
    using assms [THEN arg_cong [where f = "\<lambda>m. count m x"]] by simp
qed

lemma mset_trade:
  assumes "X + e = P + f" "f + c = e"
  shows "X + c = (P :: 'a multiset)"
proof -
  have "X + (f + c) = P + f" using assms by simp
  moreover have "X + (f + c) = (X + c) + f" by (simp only: ac_simps)
  ultimately have "(X + c) + f = P + f" by simp
  then show ?thesis by (simp only: add_right_cancel)
qed

lemma books_close:
  assumes "pool_ok p"
  shows "pool_ok (pool_handle_close key cid p) \<and> account (pool_handle_close key cid p) = account p"
proof (cases "map_of (entries p) key")
  case (Some e)
  note eok = pool_okD(1) [OF assms Some]
  show ?thesis
  proof (cases "map_of (connections e) cid")
    case c: (Some c)
    show ?thesis
    proof (cases "closed c")
      case False
      define e' where "e' = e\<lparr>connections := AList.delete cid (connections e)\<rparr>"
      define e'' where "e'' = (if \<not> isShuttingDown p
          \<and> int (length (connections e')) + spawning e' < int (minConnections (poolOpts p))
        then e'\<lparr>respawnTimers := respawnTimers e' + 1\<rparr> else e')"
      have wf: "js_wf (connections e)" using eok by (simp add: entry_ok_def)
      have ok': "entry_ok e'" using eok by (simp add: entry_ok_def e'_def)
      have pe: "entry_pending e' + conn_pending c = entry_pending e"
        using js_sum_delete [OF wf c, of conn_pending] by (simp add: entry_pending_def e'_def)
      have dead: "entry_dead e \<longrightarrow> entry_dead e'" by (simp add: entry_dead_def e'_def)
      have x: "entry_ok e''" "entry_pending e'' = entry_pending e'" "entry_dead e \<longrightarrow> entry_dead e''"
        using ok' dead by (simp_all add: e''_def)
      note u = upd_entry_ok [where f = "\<lambda>_. e''", OF assms Some x(1) disjI2 [OF x(3)]]
      have r: "pool_handle_close key cid p = (upd_entry key (\<lambda>_. e'') p)
          \<lparr>settled := settled p @ reject_pending ''Connection closed unexpectedly'' c\<rparr>"
        using Some c False by (simp add: pool_handle_close_def e'_def e''_def Let_def)
      have "account (pool_handle_close key cid p)
          = account (upd_entry key (\<lambda>_. e'') p) + conn_pending c"
        unfolding r by (simp add: account_def mset_reject)
      also have "\<dots> = account p" using u(2) pe unfolding x(2) by (rule mset_trade)
      finally show ?thesis using u(1) unfolding r by simp
    qed (use Some c assms in \<open>simp add: pool_handle_close_def\<close>)
  qed (use Some assms in \<open>simp add: pool_handle_close_def\<close>)
qed (simp add: pool_handle_close_def assms)

lemma books_respawn:
  assumes "pool_ok p"
  shows "pool_ok (pool_respawn key res p) \<and> account (pool_respawn key res p) = account p"
proof (cases "map_of (entries p) key")
  case (Some e)
  let ?e1 = "e\<lparr>respawnTimers := respawnTimers e - 1\<rparr>"
  have ok1: "entry_ok ?e1" using pool_okD(1) [OF assms Some] by simp
  have a: "pool_ok (upd_entry key (\<lambda>_. ?e1) p) \<and> account (upd_entry key (\<lambda>_. ?e1) p) = account p"
    by (rule upd_entry_same [OF assms Some]) (use ok1 in auto)
  have b: "pool_ok (upd_entry key (\<lambda>_. snd (spawnConnection res ?e1)) p)
      \<and> account (upd_entry key (\<lambda>_. snd (spawnConnection res ?e1)) p) = account p"
    if "\<not> isShuttingDown p"
    by (rule upd_entry_same [OF assms Some])
       (use spawn_ok [OF ok1, of res] pool_okD(2) [OF assms Some] that in auto)
  show ?thesis using Some assms a b
    by (cases "fst (spawnConnection res ?e1)") (simp_all add: pool_respawn_def Let_def split_beta)
qed (simp add: pool_respawn_def assms)

lemma books_respawn_resumes:
  assumes "pool_ok p"
  shows "pool_ok (pool_respawn_resumes key p) \<and> account (pool_respawn_resumes key p) = account p"
proof (cases "map_of (entries p) key")
  case (Some e)
  have "pool_ok (upd_entry key (\<lambda>_. fst (drain_waiters (waiting e) e)) p)
      \<and> account (upd_entry key (\<lambda>_. fst (drain_waiters (waiting e) e)) p) = account p"
    by (rule upd_entry_same [OF assms Some]) (use drain_ok [OF pool_okD(1) [OF assms Some]] in auto)
  then show ?thesis using Some assms by (simp add: pool_respawn_resumes_def split_beta)
qed (simp add: pool_respawn_resumes_def assms)

lemma books_idle:
  assumes "pool_ok p"
  shows "pool_ok (pool_idle_fires key cid p) \<and> account (pool_idle_fires key cid p) = account p"
proof (cases "map_of (entries p) key")
  case (Some e)
  note eok = pool_okD(1) [OF assms Some]
  show ?thesis
  proof (cases "map_of (connections e) cid")
    case c: (Some c)
    let ?f = "\<lambda>e. e\<lparr>connections := AList.delete cid (connections e)\<rparr>"
    have cok: "conn_ok c" using eok c by (auto simp: entry_ok_def)
    have wf: "js_wf (connections e)" using eok by (simp add: entry_ok_def)
    have ok': "entry_ok (?f e)" using eok by (simp add: entry_ok_def)
    have pe: "entry_pending (?f e) + conn_pending c = entry_pending e"
      using js_sum_delete [OF wf c, of conn_pending] by (simp add: entry_pending_def)
    have dead: "entry_dead e \<longrightarrow> entry_dead (?f e)" by (simp add: entry_dead_def)
    note u = upd_entry_ok [where f = ?f, OF assms Some ok' disjI2 [OF dead]]
    have rej: "image_mset fst (mset (close_rejects c)) = conn_pending c"
      using cok mset_reject [of "''Connection closed''" c]
      by (auto simp: close_rejects_def conn_ok_def conn_pending_def)
    have acc: "account ((upd_entry key ?f p)\<lparr>settled := settled p @ close_rejects c\<rparr>) = account p"
    proof -
      have "account ((upd_entry key ?f p)\<lparr>settled := settled p @ close_rejects c\<rparr>)
          = account (upd_entry key ?f p) + conn_pending c"
        by (simp add: account_def rej)
      also have "\<dots> = account p" using u(2) pe by (rule mset_trade)
      finally show ?thesis .
    qed
    have tick: "conn_ok (c\<lparr>idleTimer := False\<rparr>)" using cok by simp
    have t: "pool_ok (upd_entry key (set_conn cid (c\<lparr>idleTimer := False\<rparr>)) p)
        \<and> account (upd_entry key (set_conn cid (c\<lparr>idleTimer := False\<rparr>)) p) = account p"
      by (rule upd_entry_same [OF assms Some]) (use set_conn_ok [OF eok c tick] in auto)
    show ?thesis using Some c assms t u(1) acc by (simp add: pool_idle_fires_def)
  qed (use Some assms in \<open>simp add: pool_idle_fires_def\<close>)
qed (simp add: pool_idle_fires_def assms)

lemma books_call:
  assumes "pool_ok p"
  shows "pool_ok (pool_call key cid call ok p) \<and> account (pool_call key cid call ok p) = account p + {#call#}"
proof (cases "map_of (entries p) key")
  case (Some e)
  note eok = pool_okD(1) [OF assms Some]
  show ?thesis
  proof (cases "map_of (connections e) cid")
    case c: (Some c)
    show ?thesis
    proof (cases "closed c \<or> \<not> hasWriteLine c")
      case False
      let ?rid = "nextRequestId c"
      let ?c1 = "c\<lparr>nextRequestId := ?rid + 1\<rparr>"
      let ?c2 = "?c1\<lparr>pendingCalls := AList.update ?rid call (pendingCalls c)\<rparr>"
      have cok: "conn_ok c" using eok c by (auto simp: entry_ok_def)
      have fresh: "\<not> js_has (pendingCalls c) ?rid" using cok unfolding conn_ok_def by blast
      have ok1: "conn_ok ?c1" using cok by (auto simp: conn_ok_def less_Suc_eq)
      have ok2: "conn_ok ?c2" using cok False by (auto simp: conn_ok_def less_Suc_eq)
      have p2: "conn_pending ?c2 = conn_pending c + {#call#}"
        using js_sum_new [OF fresh, of "\<lambda>x. {#x#}" call] by (simp add: conn_pending_def)
      note s1 = set_conn_ok [OF eok c ok1] and s2 = set_conn_ok [OF eok c ok2]
      have d1: "entry_dead e \<longrightarrow> entry_dead (set_conn cid ?c1 e)" using s1(3) by simp
      have d2: "entry_dead e \<longrightarrow> entry_dead (set_conn cid ?c2 e)" using s2(3) by simp
      note u1 = upd_entry_ok [where f = "set_conn cid ?c1", OF assms Some s1(1) disjI2 [OF d1]]
      note u2 = upd_entry_ok [where f = "set_conn cid ?c2", OF assms Some s2(1) disjI2 [OF d2]]
      have a1: "account (upd_entry key (set_conn cid ?c1) p) = account p" using u1(2) s1(2) by simp
      have "entry_pending (set_conn cid ?c2 e) = entry_pending e + {#call#}"
        using s2(2) unfolding p2 by (rule mset_cancel)
      from u2(2) [unfolded this]
      have a2: "account (upd_entry key (set_conn cid ?c2) p) = account p + {#call#}"
        by (rule mset_cancel)
      have "account ((upd_entry key (set_conn cid ?c1) p)\<lparr>settled := settled p @ [(call, x)]\<rparr>)
          = account (upd_entry key (set_conn cid ?c1) p) + {#call#}" for x
        by (simp add: account_def)
      then show ?thesis using Some c False u1(1) u2(1) a1 a2
        by (simp add: pool_call_def Let_def)
    qed (use Some c assms in \<open>auto simp: pool_call_def account_def\<close>)
  qed (use Some assms in \<open>simp add: pool_call_def account_def\<close>)
qed (simp add: pool_call_def account_def assms)

text \<open>The lines of a chunk settle calls of their own connection.\<close>

lemma on_reply_line_ok:
  "conn_ok (fst st) \<Longrightarrow>
   conn_ok (fst (on_reply_line parse l st)) \<and> closed (fst (on_reply_line parse l st)) = closed (fst st)
   \<and> mset (map fst (snd (on_reply_line parse l st))) + conn_pending (fst (on_reply_line parse l st))
     = mset (map fst (snd st)) + conn_pending (fst st)"
proof -
  assume ok: "conn_ok (fst st)"
  obtain c out where st: "st = (c, out)" by force
  have wf: "js_wf (pendingCalls c)" using ok st by (simp add: conn_ok_def)
  show ?thesis
  proof (cases "js_trim l = [] \<or> parse (js_trim l) = None")
    case False
    then obtain msg where msg: "parse (js_trim l) = Some msg" "js_trim l \<noteq> []" by auto
    show ?thesis
    proof (cases "msgId msg")
      case (Some rid)
      show ?thesis
      proof (cases "map_of (pendingCalls c) rid")
        case call: (Some call)
        let ?c = "c\<lparr>pendingCalls := AList.delete rid (pendingCalls c)\<rparr>"
        have "conn_ok ?c" using ok st by (auto simp: conn_ok_def)
        moreover have "conn_pending ?c + {#call#} = conn_pending c"
          using js_sum_delete [OF wf call, of "\<lambda>x. {#x#}"] by (simp add: conn_pending_def)
        ultimately show ?thesis using st msg Some call
          by (simp add: on_reply_line_def Let_def)
      qed (use ok st msg Some in \<open>simp add: on_reply_line_def\<close>)
    qed (use ok st msg in \<open>simp add: on_reply_line_def\<close>)
  qed (use ok st in \<open>auto simp: on_reply_line_def Let_def\<close>)
qed

lemma fold_reply_ok:
  "conn_ok (fst st) \<Longrightarrow>
   conn_ok (fst (fold (on_reply_line parse) ls st)) \<and> closed (fst (fold (on_reply_line parse) ls st)) = closed (fst st)
   \<and> mset (map fst (snd (fold (on_reply_line parse) ls st))) + conn_pending (fst (fold (on_reply_line parse) ls st))
     = mset (map fst (snd st)) + conn_pending (fst st)"
proof (induction ls arbitrary: st)
  case (Cons l ls)
  from on_reply_line_ok [OF Cons.prems, of parse l] Cons.IH [of "on_reply_line parse l st"]
  show ?case by simp
qed simp

lemma feed_conn_ok:
  assumes "conn_ok c"
  shows "conn_ok (fst (feed_conn parse raw (c, out)))"
    "closed (fst (feed_conn parse raw (c, out))) = closed c"
    "mset (map fst (snd (feed_conn parse raw (c, out)))) + conn_pending (fst (feed_conn parse raw (c, out)))
     = mset (map fst out) + conn_pending c"
  using fold_reply_ok [of "(c\<lparr>lineBuffer := b\<rparr>, out)" parse for b] assms
  by (simp_all add: feed_conn_def split_beta)

lemma books_chunk:
  assumes "pool_ok p"
  shows "pool_ok (pool_chunk parse key cid raw p) \<and> account (pool_chunk parse key cid raw p) = account p"
proof (cases "map_of (entries p) key")
  case (Some e)
  note eok = pool_okD(1) [OF assms Some]
  show ?thesis
  proof (cases "map_of (connections e) cid")
    case c: (Some c)
    have cok: "conn_ok c" using eok c by (auto simp: entry_ok_def)
    let ?r = "feed_conn parse raw (c, settled p)"
    note f = feed_conn_ok [OF cok, where parse = parse and raw = raw and out = "settled p"]
    note s = set_conn_ok [OF eok c f(1)]
    have d: "entry_dead e \<longrightarrow> entry_dead (set_conn cid (fst ?r) e)" using s(3) f(2) by simp
    note u = upd_entry_ok [where f = "set_conn cid (fst ?r)", OF assms Some s(1) disjI2 [OF d]]
    have "mset (map fst (snd ?r)) + js_sum entry_pending (entries (upd_entry key (set_conn cid (fst ?r)) p))
        = account p"
      unfolding account_def by (rule mset_flow [OF u(3) s(2) f(3)])
    then show ?thesis using Some c u(1)
      by (simp add: pool_chunk_def split_beta account_def)
  qed (use Some assms in \<open>simp add: pool_chunk_def\<close>)
qed (simp add: pool_chunk_def assms)

text \<open>Warming up, and shutting down.\<close>

lemma books_register:
  assumes "pool_ok p"
  shows "pool_ok (registerServer key spawns p) \<and> account (registerServer key spawns p) = account p"
proof (cases "key \<in> set (registered p)")
  case False
  let ?fresh = "\<lparr>connections = [], waiting = [], spawning = 0, respawnTimers = 0, nextConn = 0\<rparr>"
  let ?e = "spawn_all (take (minConnections (poolOpts p)) spawns) ?fresh"
  have e0: "entry_ok ?fresh" by (simp add: entry_ok_def)
  have e0p: "entry_pending ?fresh = {#}" by (simp add: entry_pending_def)
  have e: "entry_ok ?e" "entry_pending ?e = {#}"
    using spawn_all_ok [OF e0, of "take (minConnections (poolOpts p)) spawns"] e0p by simp_all
  have "js_sum entry_pending (AList.update key ?e (entries p)) = js_sum entry_pending (entries p)"
  proof (cases "map_of (entries p) key")
    case None
    then show ?thesis using js_sum_new [of "entries p" key entry_pending ?e] e(2) by (simp add: js_has_def)
  next
    case (Some d)
    then have "entry_pending d = {#}"
      using dead_pending pool_okD(1,3) [OF assms Some] False by blast
    then show ?thesis using js_sum_set [OF Some, of entry_pending ?e] e(2) by simp
  qed
  moreover have "pool_ok (p\<lparr>registered := registered p @ [key], entries := AList.update key ?e (entries p)\<rparr>)"
    using assms e(1) unfolding pool_ok_def by auto
  ultimately show ?thesis using False by (simp add: registerServer_def Let_def account_def)
qed (simp add: registerServer_def assms)

lemma close_internal_ok [simp]: "conn_ok c \<Longrightarrow> conn_ok (close_internal c)" "closed (close_internal c)"
  by (simp_all add: close_internal_def closed_conn_def conn_ok_def js_has_def)

lemma close_internal_pending: "conn_ok c \<Longrightarrow> conn_pending (close_internal c) = {#}"
  by (simp add: close_internal_def closed_conn_def conn_pending_def conn_ok_def)

lemma close_rejects_pending: "conn_ok c \<Longrightarrow> image_mset fst (mset (close_rejects c)) = conn_pending c"
  using mset_reject [of "''Connection closed''" c]
  by (auto simp: close_rejects_def conn_ok_def conn_pending_def)

lemma map_of_map_values: "map_of (map (\<lambda>(k, v). (k, f k v)) m) k = map_option (f k) (map_of m k)"
  by (induction m) auto

lemma js_wf_map_values [simp]: "js_wf (map (\<lambda>(k, v). (k, f k v)) m) = js_wf m"
proof -
  have "map fst (map (\<lambda>(k, v). (k, f k v)) m) = map fst m" by (induction m) auto
  then show ?thesis by (simp only: js_wf_def)
qed

lemma shutdown_entry_ok:
  assumes "entry_ok e"
  shows "entry_ok (shutdown_entry e)" "entry_dead (shutdown_entry e)"
proof -
  show "entry_ok (shutdown_entry e)" "entry_dead (shutdown_entry e)"
    using assms by (auto simp: shutdown_entry_def entry_ok_def entry_dead_def map_of_map_values)
qed

lemma conns_rejects:
  "(\<forall>(cid, c) \<in> set cs. conn_ok c) \<Longrightarrow>
   image_mset fst (mset (concat (map (\<lambda>(cid, c). close_rejects c) cs))) = js_sum conn_pending cs"
  by (induction cs) (auto simp: close_rejects_pending)

lemma entry_rejects:
  assumes "entry_ok e"
  shows "image_mset fst (mset (concat (map (\<lambda>(cid, c). close_rejects c) (connections e)))) = entry_pending e"
  unfolding entry_pending_def
proof (rule conns_rejects, clarify)
  fix cid c assume "(cid, c) \<in> set (connections e)"
  then have "map_of (connections e) cid = Some c" using assms by (simp add: entry_ok_def js_wf_def)
  then show "conn_ok c" using assms by (auto simp: entry_ok_def)
qed

lemma shutdown_rejects:
  assumes "\<forall>(key, e) \<in> set es. entry_ok e \<and> (key \<notin> R \<longrightarrow> entry_dead e)"
  shows "image_mset fst (mset (concat (map (\<lambda>(key, e). concat (map (\<lambda>(cid, c). close_rejects c) (connections e)))
           (filter (\<lambda>(key, e). key \<in> R) es))))
         + js_sum entry_pending (map (\<lambda>(key, e). (key, if key \<in> R then shutdown_entry e else e)) es)
         = js_sum entry_pending es"
  using assms
proof (induction es)
  case (Cons x es)
  obtain key e where x: "x = (key, e)" by force
  have ok: "entry_ok e" "key \<notin> R \<longrightarrow> entry_dead e" using Cons.prems x by auto
  have s0: "entry_pending (shutdown_entry e) = {#}"
    using dead_pending shutdown_entry_ok [OF ok(1)] by blast
  have "\<forall>(key, e) \<in> set es. entry_ok e \<and> (key \<notin> R \<longrightarrow> entry_dead e)"
    using Cons.prems by simp
  note ih = Cons.IH [OF this]
  show ?case
  proof (cases "key \<in> R")
    case True
    then show ?thesis using ih entry_rejects [OF ok(1)] s0 x by (simp add: add.assoc)
  next
    case False
    then show ?thesis using ih x by (simp add: ac_simps)
  qed
qed simp

lemma books_shutdown:
  assumes "pool_ok p"
  shows "pool_ok (pool_shutdown p) \<and> account (pool_shutdown p) = account p"
proof
  have wf: "js_wf (entries p)" using assms by (simp add: pool_ok_def)
  have "entry_ok e' \<and> entry_dead e'"
    if "map_of (map (\<lambda>(key, e). (key, if key \<in> set (registered p) then shutdown_entry e else e)) (entries p)) key
        = Some e'" for key e'
  proof -
    obtain e where e: "map_of (entries p) key = Some e"
      "e' = (if key \<in> set (registered p) then shutdown_entry e else e)"
      using \<open>map_of (map _ _) key = Some e'\<close> unfolding map_of_map_values by auto
    then show ?thesis using pool_okD [OF assms e(1)] shutdown_entry_ok by simp
  qed
  then show "pool_ok (pool_shutdown p)"
    using wf unfolding pool_ok_def pool_shutdown_def Let_def by simp
  have "\<forall>(key, e) \<in> set (entries p). entry_ok e \<and> (key \<notin> set (registered p) \<longrightarrow> entry_dead e)"
    using assms wf by (auto simp: pool_ok_def js_wf_def)
  from shutdown_rejects [OF this] show "account (pool_shutdown p) = account p"
    by (simp add: account_def pool_shutdown_def Let_def add.assoc)
qed

lemma books_step:
  assumes "pool_ok p"
  shows "pool_ok (pool_step parse p e) \<and> account (pool_step parse p e) = account p + issued e"
  using books_register [OF assms] books_acquire [OF assms] books_resumes [OF assms]
    books_timeout [OF assms] books_release [OF assms] books_close [OF assms] books_respawn [OF assms]
    books_respawn_resumes [OF assms] books_idle [OF assms] books_call [OF assms]
    books_chunk [OF assms] books_shutdown [OF assms]
  by (cases e) simp_all

lemma pool_ok_new: "pool_ok (new_pool opts)" "account (new_pool opts) = {#}"
  by (simp_all add: pool_ok_def new_pool_def account_def)

interpretation pool: stepper "pool_step parse" pool_ok for parse
  by unfold_locales (use books_step in blast)

lemma account_run:
  "pool_ok p \<Longrightarrow> account (foldl (pool_step parse) p es) = account p + sum_list (map issued es)"
proof (induction es arbitrary: p)
  case (Cons e es)
  then show ?case using books_step [OF Cons.prems, of parse e] Cons.IH [of "pool_step parse p e"]
    by (simp add: add.assoc)
qed simp

subsection \<open>Chunks\<close>

definition set_line_buffer :: "string \<Rightarrow> pconn \<times> 'a \<Rightarrow> pconn \<times> 'a" where
  "set_line_buffer b st = (fst st\<lparr>lineBuffer := b\<rparr>, snd st)"

lemma on_reply_line_buffer:
  "lineBuffer (fst (on_reply_line parse l st)) = lineBuffer (fst st)"
  "on_reply_line parse l (set_line_buffer b st) = set_line_buffer b (on_reply_line parse l st)"
  by (cases st, simp add: on_reply_line_def set_line_buffer_def Let_def split: option.split)+

interpretation replies: line_reader "\<lambda>st. lineBuffer (fst st)" set_line_buffer
  "on_reply_line parse" "feed_conn parse" for parse :: "string \<Rightarrow> 'j rpc_reply option"
proof
  fix s :: "pconn \<times> (nat \<times> (string + 'j)) list" and b b' c l
  show "on_reply_line parse l (set_line_buffer b s) = set_line_buffer b (on_reply_line parse l s)"
    by (rule on_reply_line_buffer)
  show "lineBuffer (fst (on_reply_line parse l s)) = lineBuffer (fst s)"
    by (rule on_reply_line_buffer)
  show "feed_conn parse c s = fold (on_reply_line parse) (fst (split_pop (lineBuffer (fst s) @ c)))
      (set_line_buffer (snd (split_pop (lineBuffer (fst s) @ c))) s)"
    by (simp add: feed_conn_def set_line_buffer_def take_lines_split_pop split_beta)
qed (simp_all add: set_line_buffer_def)

lemma upd_entry_settled:
  "upd_entry key f (q\<lparr>settled := x\<rparr>) = (upd_entry key f q)\<lparr>settled := x\<rparr>"
  by (cases "map_of (entries q) key") (simp_all add: upd_entry_def)

text \<open>The bytes of a backend arrive in arbitrary pieces. Whatever the cut, the pool ends in the
  same state: the same calls are settled, in the same order and with the same outcome, and the
  same unfinished line is kept.\<close>

theorem pool_chunks_do_not_matter:
  "pool_chunk parse key cid (a @ b) p = pool_chunk parse key cid b (pool_chunk parse key cid a p)"
proof (cases "map_of (entries p) key")
  case (Some e)
  show ?thesis
  proof (cases "map_of (connections e) cid")
    case c: (Some c)
    have r: "feed_conn parse (a @ b) (c, settled p) = feed_conn parse b (feed_conn parse a (c, settled p))"
      by (rule replies.feed_append)
    let ?a = "feed_conn parse a (c, settled p)"
    have u: "upd_entry key f (upd_entry key g p) = upd_entry key (\<lambda>e. f (g e)) p" for f g
      using Some by (simp add: upd_entry_def update_last)
    have w: "map_of (entries (upd_entry key (set_conn cid (fst ?a)) p)) key = Some (set_conn cid (fst ?a) e)"
      using Some by (simp add: upd_entry_def)
    have x: "map_of (connections (set_conn cid (fst ?a) e)) cid = Some (fst ?a)"
      by (simp add: set_conn_def)
    have y: "set_conn cid c2 (set_conn cid c1 d) = set_conn cid c2 d" for c1 c2 d
      by (simp add: set_conn_def update_last)
    show ?thesis using Some c r u w x y by (simp add: pool_chunk_def split_beta upd_entry_settled)
  qed (use Some in \<open>simp add: pool_chunk_def\<close>)
qed (simp add: pool_chunk_def)

subsection \<open>Calls\<close>

text \<open>C12: No call is lost and none is answered twice. Over any run of the pool, with connections
  crashing, respawned, idled out, replies arriving in any order or not at all, the calls made are
  exactly those settled plus those still in flight, each counted once; and once the pool has been
  shut down every call ever made has been settled, exactly once.\<close>

theorem pool_calls_settled_once:
  "mset (map fst (settled (foldl (pool_step parse) (new_pool opts) es)))
     + js_sum entry_pending (entries (foldl (pool_step parse) (new_pool opts) es))
     = sum_list (map issued es)
   \<and> mset (map fst (settled (foldl (pool_step parse) (new_pool opts) (es @ [Shutdown]))))
     = sum_list (map issued es)"
proof -
  let ?p = "foldl (pool_step parse) (new_pool opts) es"
  have ok: "pool_ok ?p" by (rule pool.inv_run [OF pool_ok_new(1)])
  have acc: "account ?p = sum_list (map issued es)"
    using account_run [OF pool_ok_new(1), where parse = parse and es = es] by (simp add: pool_ok_new(2))
  let ?q = "pool_shutdown ?p"
  have q: "pool_ok ?q" "account ?q = account ?p" using books_shutdown [OF ok] by auto
  have "js_sum entry_pending (entries ?q) = {#}"
  proof (rule js_sum_zero)
    fix k e assume "(k, e) \<in> set (entries ?q)"
    then have e: "map_of (entries ?q) k = Some e" using q(1) by (simp add: pool_ok_def js_wf_def)
    have "registered ?q = []" by (simp add: pool_shutdown_def Let_def)
    then have "entry_dead e" using pool_okD(3) [OF q(1) e] by simp
    then show "entry_pending e = {#}" using dead_pending pool_okD(1) [OF q(1) e] by blast
  qed
  then have "mset (map fst (settled ?q)) = sum_list (map issued es)"
    using q(2) acc by (simp add: account_def)
  then show ?thesis using acc by (simp add: account_def)
qed

text \<open>
  What the accounting of connections does not promise. Two callers can be given the same
  connection: a spawned connection is filed as idle before the caller that spawned it resumes, and
  a second \<open>acquire\<close> takes it in between. A respawn timer does not look at the maximum again.
  A factory that throws leaves its slot reserved for ever, so that the next caller waits although
  there is no connection at all.
\<close>

lemma pool_hands_out_twice:
  "granted (foldl (pool_step (\<lambda>_. None)) (new_pool \<lparr>minConnections = 0, maxConnections = 4\<rparr>)
     [Register ''s'' [], PAcquire 1 ''s'' Transport, PAcquire 2 ''s'' Transport, AcquireResumes 1])
   = [(2, 0), (1, 0)]"
  by (simp add: new_pool_def registerServer_def pool_acquire_def pool_acquire_resumes_def
      spawnConnection_def findIdle_def upd_entry_def upd_conn_of_def set_conn_def mark_busy_conn_def
      new_conn_def Let_def)

lemma pool_respawn_exceeds_max:
  "map (length \<circ> connections \<circ> snd) (entries
     (foldl (pool_step (\<lambda>_. None)) (new_pool \<lparr>minConnections = 1, maxConnections = 1\<rparr>)
       [Register ''s'' [Transport], ConnClosed ''s'' 0, PAcquire 1 ''s'' Transport, Respawn ''s'' Transport]))
   = [2]"
  by (simp add: new_pool_def registerServer_def pool_acquire_def pool_handle_close_def pool_respawn_def
      spawnConnection_def findIdle_def upd_entry_def set_conn_def new_conn_def Let_def)

lemma pool_throwing_factory_leaks_slot:
  "map (\<lambda>(key, e). (length (connections e), spawning e, waiting e)) (entries
     (foldl (pool_step (\<lambda>_. None)) (new_pool \<lparr>minConnections = 0, maxConnections = 1\<rparr>)
       [Register ''s'' [], PAcquire 1 ''s'' (FactoryThrows ''ENOENT''), PAcquire 2 ''s'' Transport]))
   = [(0, 1, [2])]"
  by (simp add: new_pool_def registerServer_def pool_acquire_def
      spawnConnection_def findIdle_def upd_entry_def set_conn_def new_conn_def Let_def)

end
