(* ===== verification/WorkerPool.thy ===== *)
theory WorkerPool
  imports LineFraming "HOL-Library.Multiset"
begin

text \<open>
  The pool of warm sandbox workers: \<open>src/src/runtime/pool/worker.ts\<close> (one subprocess and its
  state), \<open>recycle.ts\<close> (when a worker is replaced) and \<open>worker-pool.ts\<close> (jobs, queue,
  replacement).

  A job is its id, a number; the code and the context it carries are not looked at. An event is
  one synchronous block: when the promise of a run is settled, what \<open>_runOnWorker\<close> does next is
  an event of its own (\<open>Continue\<close>), so that other blocks may come in between. \<open>parse\<close> stands for \<open>JSON.parse\<close> of a worker's line.
  The script a worker runs and the process options are not modelled.
\<close>

datatype worker_state = Starting | Idle | Busy | Recycling | Dead

text \<open>What writing to the process does: it works, it throws, or the stream is not writable.\<close>

datatype stdin_state = Writable | WriteThrows | NotWritable

record worker =
  wstate :: worker_state
  stdin :: stdin_state
  outBuffer :: string
  runs :: "(nat, nat) jsmap"
  createdAt :: time
  jobsRun :: nat
  startTimer :: bool

record 'j worker_result =
  wr_id :: nat
  wr_success :: bool
  wr_result :: 'j
  wr_error :: "string option"

definition new_worker :: "time \<Rightarrow> worker" where
  "new_worker now = \<lparr>wstate = Starting, stdin = Writable, outBuffer = [], runs = [],
     createdAt = now, jobsRun = 0, startTimer = True\<rparr>"

text \<open>\<open>start\<close> after its pause: the state becomes idle whatever it was.\<close>

definition worker_started :: "worker \<Rightarrow> worker" where
  "worker_started w = w\<lparr>wstate := Idle, startTimer := False\<rparr>"

text \<open>\<open>execute\<close>: None if the run goes on, or the error its promise is rejected with.\<close>

definition worker_execute :: "nat \<Rightarrow> bool \<Rightarrow> worker \<Rightarrow> string option \<times> worker" where
  "worker_execute job aborted w =
     (if wstate w \<noteq> Idle then (Some ''Worker is not idle'', w)
      else if stdin w = NotWritable then (Some ''Worker stdin is not writable'', w)
      else (let w1 = w\<lparr>wstate := Busy, jobsRun := jobsRun w + 1\<rparr> in
            if aborted
            then (Some ''Job cancelled by AbortSignal'',
                  w1\<lparr>wstate := Idle, jobsRun := jobsRun w1 - 1, runs := AList.delete job (runs w1)\<rparr>)
            else if stdin w = WriteThrows
            then (Some ''write failed'', w1\<lparr>wstate := Idle, runs := AList.delete job (runs w1)\<rparr>)
            else (None, w1\<lparr>runs := AList.update job job (runs w1)\<rparr>)))"

text \<open>\<open>onAbort\<close> of a run under way.\<close>

definition worker_abort :: "nat \<Rightarrow> worker \<Rightarrow> worker" where
  "worker_abort job w = w\<lparr>runs := AList.delete job (runs w), wstate := Idle\<rparr>"

text \<open>\<open>_handleLine\<close>, on a worker and the replies it has given so far.\<close>

definition on_worker_line ::
  "(string \<Rightarrow> 'j worker_result option) \<Rightarrow> string \<Rightarrow> worker \<times> (nat \<times> 'j worker_result) list \<Rightarrow>
   worker \<times> (nat \<times> 'j worker_result) list" where
  "on_worker_line parse raw st =
     (let line = js_trim raw; (w, out) = st in
      if line = [] then (w, out)
      else (case parse line of
              None \<Rightarrow> (w, out)
            | Some msg \<Rightarrow>
                (case map_of (runs w) (wr_id msg) of
                   None \<Rightarrow> (w, out)
                 | Some job \<Rightarrow>
                     (w\<lparr>runs := AList.delete (wr_id msg) (runs w), wstate := Idle\<rparr>,
                      out @ [(job, msg)]))))"

definition worker_data ::
  "(string \<Rightarrow> 'j worker_result option) \<Rightarrow> string \<Rightarrow> worker \<times> (nat \<times> 'j worker_result) list \<Rightarrow>
   worker \<times> (nat \<times> 'j worker_result) list" where
  "worker_data parse chunk st =
     (let (lines, rest) = take_lines (outBuffer (fst st) @ chunk)
      in fold (on_worker_line parse) lines (fst st\<lparr>outBuffer := rest\<rparr>, snd st))"

text \<open>\<open>_rejectAll\<close>: the handler of each run sets the state to idle.\<close>

definition rejectAll :: "worker \<Rightarrow> worker" where
  "rejectAll w = w\<lparr>wstate := (if runs w = [] then wstate w else Idle), runs := []\<rparr>"

text \<open>\<open>_handleClose\<close>, and the handler of \<open>error\<close>, which does the same in the other order.\<close>

definition worker_close :: "worker \<Rightarrow> worker" where
  "worker_close w = rejectAll (w\<lparr>wstate := Dead, stdin := NotWritable\<rparr>)"

definition worker_error :: "worker \<Rightarrow> worker" where
  "worker_error w = (rejectAll (w\<lparr>stdin := NotWritable\<rparr>))\<lparr>wstate := Dead\<rparr>"

text \<open>\<open>shutdown(false)\<close>\<close>

definition worker_shutdown :: "worker \<Rightarrow> worker" where
  "worker_shutdown w = (if wstate w = Dead then w else w\<lparr>wstate := Recycling\<rparr>)"

datatype recycle_reason = RError | RAge | RJobCount

definition evaluateRecycle :: "time \<Rightarrow> int \<Rightarrow> nat \<Rightarrow> worker \<Rightarrow> recycle_reason option" where
  "evaluateRecycle now maxAge maxJobs w =
     (if wstate w = Dead \<or> wstate w = Recycling then Some RError
      else if now - createdAt w \<ge> maxAge then Some RAge
      else if jobsRun w \<ge> maxJobs then Some RJobCount
      else None)"

definition isEligible :: "time \<Rightarrow> int \<Rightarrow> nat \<Rightarrow> worker \<Rightarrow> bool" where
  "isEligible now maxAge maxJobs w =
     (if wstate w \<noteq> Idle then False else evaluateRecycle now maxAge maxJobs w = None)"

subsection \<open>The pool\<close>

text \<open>
  \<open>slots\<close> is the array \<open>workers\<close> of the pool, by id; \<open>procs\<close> holds every worker there ever was,
  since a worker that has been replaced still runs its callbacks. \<open>ended\<close> holds the runs whose
  promise is settled and whose continuation in \<open>_runOnWorker\<close> has not run yet.
\<close>

record 'j worker_pool =
  poolSize :: nat
  maxJobsPerWorker :: nat
  maxAgeMs :: int
  slots :: "nat list"
  procs :: "(nat, worker) jsmap"
  jobQueue :: "nat list"
  ended :: "(nat \<times> nat \<times> (string + 'j worker_result)) list"
  poolShuttingDown :: bool
  warmedUp :: bool
  workerSeq :: nat
  abortedJobs :: "nat list"
  results :: "(nat \<times> (string + 'j)) list"

definition new_worker_pool :: "nat option \<Rightarrow> nat option \<Rightarrow> int option \<Rightarrow> 'j worker_pool" where
  "new_worker_pool sz maxJobs maxAge =
     \<lparr>poolSize = nullish sz 4, maxJobsPerWorker = nullish maxJobs 100,
      maxAgeMs = nullish maxAge 600000, slots = [], procs = [], jobQueue = [], ended = [],
      poolShuttingDown = False, warmedUp = False, workerSeq = 0, abortedJobs = [], results = []\<rparr>"

definition add_proc :: "time \<Rightarrow> 'j worker_pool \<Rightarrow> 'j worker_pool" where
  "add_proc now p = p\<lparr>procs := AList.update (workerSeq p) (new_worker now) (procs p),
                      workerSeq := workerSeq p + 1\<rparr>"

definition put_proc :: "nat \<Rightarrow> worker \<Rightarrow> 'j worker_pool \<Rightarrow> 'j worker_pool" where
  "put_proc i w p = p\<lparr>procs := AList.update i w (procs p)\<rparr>"

text \<open>\<open>warmUp\<close>: the workers join the array once started.\<close>

primrec warm_workers :: "nat \<Rightarrow> time \<Rightarrow> 'j worker_pool \<Rightarrow> 'j worker_pool" where
  "warm_workers 0 now p = p"
| "warm_workers (Suc n) now p =
     warm_workers n now
       ((put_proc (workerSeq p) (worker_started (new_worker now)) (add_proc now p))
          \<lparr>slots := slots p @ [workerSeq p]\<rparr>)"

definition warmUp :: "time \<Rightarrow> 'j worker_pool \<Rightarrow> 'j worker_pool" where
  "warmUp now p = (if warmedUp p then p else (warm_workers (poolSize p) now p)\<lparr>warmedUp := True\<rparr>)"

definition in_state :: "worker_state \<Rightarrow> 'j worker_pool \<Rightarrow> nat \<Rightarrow> bool" where
  "in_state st p i = (case map_of (procs p) i of Some w \<Rightarrow> wstate w = st | None \<Rightarrow> False)"

definition find_idle_worker :: "'j worker_pool \<Rightarrow> nat option" where
  "find_idle_worker p = List.find (in_state Idle p) (slots p)"

text \<open>\<open>_maybeRecycle\<close>: the replacement takes the place of the old worker in the array.\<close>

definition maybeRecycle :: "time \<Rightarrow> nat \<Rightarrow> 'j worker_pool \<Rightarrow> 'j worker_pool" where
  "maybeRecycle now i p =
     (case map_of (procs p) i of
        None \<Rightarrow> p
      | Some w \<Rightarrow>
          (case evaluateRecycle now (maxAgeMs p) (maxJobsPerWorker p) w of
             None \<Rightarrow> p
           | Some reason \<Rightarrow>
               (let p1 = (if poolShuttingDown p then p
                          else (add_proc now p)
                                 \<lparr>slots := (if i \<in> set (slots p)
                                            then map (\<lambda>x. if x = i then workerSeq p else x) (slots p)
                                            else slots p @ [workerSeq p])\<rparr>);
                    p2 = put_proc i (worker_shutdown w) p1
                in if poolShuttingDown p then p2\<lparr>slots := remove1 i (slots p2)\<rparr> else p2)))"

text \<open>The start of a run: \<open>_runOnWorker\<close> up to its suspension.\<close>

definition begin_run :: "nat \<Rightarrow> nat \<Rightarrow> 'j worker_pool \<Rightarrow> 'j worker_pool" where
  "begin_run job i p =
     (case map_of (procs p) i of
        None \<Rightarrow> p
      | Some w \<Rightarrow>
          (let (rej, w') = worker_execute job (job \<in> set (abortedJobs p)) w;
               p' = put_proc i w' p
           in case rej of None \<Rightarrow> p' | Some err \<Rightarrow> p'\<lparr>ended := ended p @ [(i, job, Inl err)]\<rparr>))"

text \<open>\<open>_drainQueue\<close>\<close>

fun drain_loop :: "nat list \<Rightarrow> 'j worker_pool \<Rightarrow> 'j worker_pool" where
  "drain_loop [] p = p\<lparr>jobQueue := []\<rparr>"
| "drain_loop (job # q) p =
     (case find_idle_worker p of
        None \<Rightarrow> p\<lparr>jobQueue := job # q\<rparr>
      | Some i \<Rightarrow> drain_loop q (begin_run job i p))"

definition drainQueue :: "'j worker_pool \<Rightarrow> 'j worker_pool" where
  "drainQueue p = drain_loop (jobQueue p) p"

definition pool_execute :: "nat \<Rightarrow> 'j worker_pool \<Rightarrow> 'j worker_pool" where
  "pool_execute job p =
     (if poolShuttingDown p
      then p\<lparr>results := results p @ [(job, Inl ''WorkerPool is shutting down'')]\<rparr>
      else (case find_idle_worker p of
              Some i \<Rightarrow> begin_run job i p
            | None \<Rightarrow> p\<lparr>jobQueue := jobQueue p @ [job]\<rparr>))"

definition queue_timeout :: "nat \<Rightarrow> 'j worker_pool \<Rightarrow> 'j worker_pool" where
  "queue_timeout job p =
     (if job \<in> set (jobQueue p)
      then p\<lparr>jobQueue := remove1 job (jobQueue p),
             results := results p @ [(job, Inl ''WorkerPool: acquire timeout'')]\<rparr>
      else p)"

text \<open>\<open>_runOnWorker\<close> after its \<open>await\<close>: the oldest run that has ended.\<close>

definition continue_run :: "time \<Rightarrow> 'j worker_pool \<Rightarrow> 'j worker_pool" where
  "continue_run now p =
     (case ended p of
        [] \<Rightarrow> p
      | (i, job, out) # rest \<Rightarrow>
          (let p1 = maybeRecycle now i (p\<lparr>ended := rest\<rparr>) in
           case out of
             Inl err \<Rightarrow> p1\<lparr>results := results p1 @ [(job, Inl err)]\<rparr>
           | Inr r \<Rightarrow>
               (let p2 = drainQueue p1 in
                p2\<lparr>results := results p2 @
                   [(job, case wr_error r of
                            Some m \<Rightarrow> (if wr_success r then Inr (wr_result r) else Inl m)
                          | None \<Rightarrow> Inr (wr_result r))]\<rparr>)))"

definition pool_data ::
  "(string \<Rightarrow> 'j worker_result option) \<Rightarrow> nat \<Rightarrow> string \<Rightarrow> 'j worker_pool \<Rightarrow> 'j worker_pool" where
  "pool_data parse i chunk p =
     (case map_of (procs p) i of
        None \<Rightarrow> p
      | Some w \<Rightarrow>
          (let (w', rs) = worker_data parse chunk (w, [])
           in (put_proc i w' p)\<lparr>ended := ended p @ map (\<lambda>(job, r). (i, job, Inr r)) rs\<rparr>))"

text \<open>The process of a worker ends, or reports an error: its run fails.\<close>

definition pool_proc_gone :: "(worker \<Rightarrow> worker) \<Rightarrow> string \<Rightarrow> nat \<Rightarrow> 'j worker_pool \<Rightarrow> 'j worker_pool" where
  "pool_proc_gone gone err i p =
     (case map_of (procs p) i of
        None \<Rightarrow> p
      | Some w \<Rightarrow>
          (put_proc i (gone w) p)\<lparr>ended := ended p @ map (\<lambda>(k, job). (i, job, Inl err)) (runs w)\<rparr>)"

definition pool_abort :: "nat \<Rightarrow> nat \<Rightarrow> 'j worker_pool \<Rightarrow> 'j worker_pool" where
  "pool_abort i job p =
     (let p1 = p\<lparr>abortedJobs := job # abortedJobs p\<rparr> in
      case map_of (procs p) i of
        None \<Rightarrow> p1
      | Some w \<Rightarrow>
          (if js_has (runs w) job
           then (put_proc i (worker_abort job w) p1)
                  \<lparr>ended := ended p @ [(i, job, Inl ''Job cancelled by AbortSignal'')]\<rparr>
           else p1))"

definition pool_started :: "nat \<Rightarrow> 'j worker_pool \<Rightarrow> 'j worker_pool" where
  "pool_started i p =
     (case map_of (procs p) i of
        None \<Rightarrow> p
      | Some w \<Rightarrow> (if startTimer w then drainQueue (put_proc i (worker_started w) p) else p))"

text \<open>The start of a replacement fails: it leaves the array.\<close>

definition pool_start_fails :: "nat \<Rightarrow> 'j worker_pool \<Rightarrow> 'j worker_pool" where
  "pool_start_fails i p =
     (case map_of (procs p) i of
        None \<Rightarrow> p
      | Some w \<Rightarrow>
          (if startTimer w
           then (put_proc i (w\<lparr>startTimer := False\<rparr>) p)\<lparr>slots := remove1 i (slots p)\<rparr> else p))"

text \<open>\<open>shutdown\<close>: the workers that are not busy stop, the busy ones when they have finished.\<close>

definition shutdown_idle :: "'j worker_pool \<Rightarrow> 'j worker_pool" where
  "shutdown_idle p =
     foldl (\<lambda>q i. case map_of (procs q) i of
                     Some w \<Rightarrow> (if wstate w = Busy then q else put_proc i (worker_shutdown w) q)
                   | None \<Rightarrow> q) p (slots p)"

definition pool_shutdown_begin :: "'j worker_pool \<Rightarrow> 'j worker_pool" where
  "pool_shutdown_begin p =
     (shutdown_idle (p\<lparr>poolShuttingDown := True\<rparr>))
       \<lparr>jobQueue := [],
        results := results p @ map (\<lambda>job. (job, Inl ''WorkerPool shut down'')) (jobQueue p)\<rparr>"

definition pool_shutdown_end :: "'j worker_pool \<Rightarrow> 'j worker_pool" where
  "pool_shutdown_end p =
     (if poolShuttingDown p \<and> \<not> list_ex (in_state Busy p) (slots p) then (shutdown_idle p)\<lparr>slots := []\<rparr> else p)"

definition worker_counts :: "'j worker_pool \<Rightarrow> nat \<times> nat \<times> nat" where
  "worker_counts p =
     (length (filter (\<lambda>i. \<not> in_state Dead p i) (slots p)),
      length (filter (in_state Busy p) (slots p)), length (filter (in_state Idle p) (slots p)))"

datatype worker_event =
    WarmUp time
  | Execute nat
  | QueueTimer nat
  | Continue time
  | WorkerData nat string
  | ProcClose nat
  | ProcError nat
  | AbortJob nat nat
  | Started nat
  | StartFails nat
  | ShutdownBegin
  | ShutdownEnd

fun worker_step :: "(string \<Rightarrow> 'j worker_result option) \<Rightarrow> 'j worker_pool \<Rightarrow> worker_event \<Rightarrow> 'j worker_pool" where
  "worker_step parse p (WarmUp now) = warmUp now p"
| "worker_step parse p (Execute job) = pool_execute job p"
| "worker_step parse p (QueueTimer job) = queue_timeout job p"
| "worker_step parse p (Continue now) = continue_run now p"
| "worker_step parse p (WorkerData i chunk) = pool_data parse i chunk p"
| "worker_step parse p (ProcClose i) = pool_proc_gone worker_close ''Worker exited'' i p"
| "worker_step parse p (ProcError i) = pool_proc_gone worker_error ''spawn error'' i p"
| "worker_step parse p (AbortJob i job) = pool_abort i job p"
| "worker_step parse p (Started i) = pool_started i p"
| "worker_step parse p (StartFails i) = pool_start_fails i p"
| "worker_step parse p ShutdownBegin = pool_shutdown_begin p"
| "worker_step parse p ShutdownEnd = pool_shutdown_end p"

subsection \<open>The books\<close>

definition running_jobs :: "worker \<Rightarrow> nat multiset" where
  "running_jobs w = js_sum (\<lambda>job. {#job#}) (runs w)"

definition job_account :: "'j worker_pool \<Rightarrow> nat multiset" where
  "job_account p = mset (map fst (results p)) + mset (jobQueue p)
     + mset (map (\<lambda>(i, job, out). job) (ended p)) + js_sum running_jobs (procs p)"

definition proc_ok :: "worker \<Rightarrow> bool" where
  "proc_ok w \<longleftrightarrow> length (runs w) \<le> 1 \<and> (\<forall>(k, job) \<in> set (runs w). k = job)
     \<and> (wstate w = Idle \<or> startTimer w \<longrightarrow> runs w = []) \<and> (startTimer w \<longrightarrow> wstate w \<noteq> Idle)"

definition wpool_ok :: "'j worker_pool \<Rightarrow> bool" where
  "wpool_ok p \<longleftrightarrow> js_wf (procs p)
     \<and> (\<forall>i w. map_of (procs p) i = Some w \<longrightarrow> proc_ok w \<and> i < workerSeq p)"

fun jobs_issued :: "worker_event \<Rightarrow> nat multiset" where
  "jobs_issued (Execute job) = {#job#}"
| "jobs_issued _ = {#}"

lemma runs_cases:
  assumes "proc_ok w"
  obtains "runs w = []" | job where "runs w = [(job, job)]" "wstate w \<noteq> Idle" "\<not> startTimer w"
  using assms by (cases "runs w") (auto simp: proc_ok_def)

lemma wpool_okD: "wpool_ok p \<Longrightarrow> map_of (procs p) i = Some w \<Longrightarrow> proc_ok w"
  by (simp add: wpool_ok_def)

lemma wpool_ok_fields [simp]:
  "wpool_ok (p\<lparr>slots := a\<rparr>) = wpool_ok p" "wpool_ok (p\<lparr>jobQueue := b\<rparr>) = wpool_ok p"
  "wpool_ok (p\<lparr>ended := c\<rparr>) = wpool_ok p" "wpool_ok (p\<lparr>results := d\<rparr>) = wpool_ok p"
  "wpool_ok (p\<lparr>poolShuttingDown := e\<rparr>) = wpool_ok p" "wpool_ok (p\<lparr>warmedUp := f\<rparr>) = wpool_ok p"
  "wpool_ok (p\<lparr>abortedJobs := g\<rparr>) = wpool_ok p"
  by (simp_all add: wpool_ok_def)

lemma job_account_fields [simp]:
  "job_account (p\<lparr>slots := a\<rparr>) = job_account p" "job_account (p\<lparr>poolShuttingDown := e\<rparr>) = job_account p"
  "job_account (p\<lparr>warmedUp := f\<rparr>) = job_account p" "job_account (p\<lparr>abortedJobs := g\<rparr>) = job_account p"
  by (simp_all add: job_account_def)

lemma put_proc_frame [simp]:
  "ended (put_proc i w p) = ended p" "results (put_proc i w p) = results p"
  "jobQueue (put_proc i w p) = jobQueue p" "slots (put_proc i w p) = slots p"
  "workerSeq (put_proc i w p) = workerSeq p" "poolShuttingDown (put_proc i w p) = poolShuttingDown p"
  "map_of (procs (put_proc i w p)) j = (if j = i then Some w else map_of (procs p) j)"
  by (simp_all add: put_proc_def)

lemma put_proc_ok:
  assumes "wpool_ok p" "map_of (procs p) i = Some w" "proc_ok w'"
  shows "wpool_ok (put_proc i w' p)"
    "js_sum running_jobs (procs (put_proc i w' p)) + running_jobs w
     = js_sum running_jobs (procs p) + running_jobs w'"
    "job_account (put_proc i w' p) + running_jobs w = job_account p + running_jobs w'"
proof -
  show "wpool_ok (put_proc i w' p)"
    using assms unfolding wpool_ok_def put_proc_def by (simp split: if_splits)
  show s: "js_sum running_jobs (procs (put_proc i w' p)) + running_jobs w
     = js_sum running_jobs (procs p) + running_jobs w'"
    using js_sum_set [OF assms(2), of running_jobs w'] by (simp add: put_proc_def)
  show "job_account (put_proc i w' p) + running_jobs w = job_account p + running_jobs w'"
    using s by (simp add: job_account_def add.assoc)
qed

lemma put_proc_same:
  assumes "wpool_ok p" "map_of (procs p) i = Some w" "proc_ok w'" "runs w' = runs w"
  shows "wpool_ok (put_proc i w' p) \<and> job_account (put_proc i w' p) = job_account p"
  using put_proc_ok [OF assms(1-3)] assms(4) by (simp add: running_jobs_def)

lemma running_single [simp]:
  "runs w = [] \<Longrightarrow> running_jobs w = {#}" "runs w = [(k, job)] \<Longrightarrow> running_jobs w = {#job#}"
  by (simp_all add: running_jobs_def)

lemma add_proc_ok:
  assumes "wpool_ok p"
  shows "wpool_ok (add_proc now p) \<and> job_account (add_proc now p) = job_account p"
proof -
  have fresh: "\<not> js_has (procs p) (workerSeq p)"
    using assms unfolding wpool_ok_def js_has_def by fastforce
  have "wpool_ok (add_proc now p)"
    using assms unfolding wpool_ok_def add_proc_def
    by (auto simp: new_worker_def proc_ok_def less_Suc_eq)
  moreover have "js_sum running_jobs (procs (add_proc now p)) = js_sum running_jobs (procs p)"
    using js_sum_new [OF fresh, of running_jobs "new_worker now"]
    by (simp add: add_proc_def new_worker_def running_jobs_def)
  ultimately show ?thesis by (simp add: job_account_def add_proc_def)
qed

lemma add_proc_frame [simp]:
  "slots (add_proc now p) = slots p" "ended (add_proc now p) = ended p"
  "jobQueue (add_proc now p) = jobQueue p" "results (add_proc now p) = results p"
  "poolShuttingDown (add_proc now p) = poolShuttingDown p"
  "map_of (procs (add_proc now p)) j = (if j = workerSeq p then Some (new_worker now) else map_of (procs p) j)"
  by (simp_all add: add_proc_def)

lemma worker_started_ok: "proc_ok w \<Longrightarrow> startTimer w \<Longrightarrow> proc_ok (worker_started w) \<and> runs (worker_started w) = runs w"
  by (simp add: proc_ok_def worker_started_def)

lemma worker_shutdown_ok: "proc_ok w \<Longrightarrow> proc_ok (worker_shutdown w)" "runs (worker_shutdown w) = runs w"
  by (auto simp: proc_ok_def worker_shutdown_def)

lemma warm_workers_ok:
  "wpool_ok p \<Longrightarrow> wpool_ok (warm_workers n now p) \<and> job_account (warm_workers n now p) = job_account p"
proof (induction n arbitrary: p)
  case (Suc n)
  let ?a = "add_proc now p" and ?w = "new_worker now"
  have a: "wpool_ok ?a" "job_account ?a = job_account p" using add_proc_ok [OF Suc.prems] by auto
  have w: "proc_ok ?w" "startTimer ?w" by (simp_all add: new_worker_def proc_ok_def)
  have "wpool_ok (put_proc (workerSeq p) (worker_started ?w) ?a)
      \<and> job_account (put_proc (workerSeq p) (worker_started ?w) ?a) = job_account ?a"
    by (rule put_proc_same [OF a(1), where w = ?w]) (use worker_started_ok [OF w] in auto)
  then show ?case
    using Suc.IH [of "(put_proc (workerSeq p) (worker_started ?w) ?a)\<lparr>slots := slots p @ [workerSeq p]\<rparr>"] a(2)
    by simp
qed simp

lemma maybeRecycle_ok:
  assumes "wpool_ok p"
  shows "wpool_ok (maybeRecycle now i p) \<and> job_account (maybeRecycle now i p) = job_account p"
proof (cases "map_of (procs p) i")
  case (Some w)
  show ?thesis
  proof (cases "evaluateRecycle now (maxAgeMs p) (maxJobsPerWorker p) w")
    case r: (Some reason)
    have w: "proc_ok (worker_shutdown w)" using worker_shutdown_ok wpool_okD [OF assms Some] by blast
    define p1 where "p1 = (if poolShuttingDown p then p
      else (add_proc now p)\<lparr>slots := (if i \<in> set (slots p)
        then map (\<lambda>x. if x = i then workerSeq p else x) (slots p) else slots p @ [workerSeq p])\<rparr>)"
    have p1: "wpool_ok p1" "job_account p1 = job_account p"
      using assms add_proc_ok [OF assms] by (simp_all add: p1_def)
    have "i < workerSeq p" using assms Some by (simp add: wpool_ok_def)
    then have m: "map_of (procs p1) i = Some w" using Some by (simp add: p1_def)
    have "wpool_ok (put_proc i (worker_shutdown w) p1)
        \<and> job_account (put_proc i (worker_shutdown w) p1) = job_account p1"
      by (rule put_proc_same [OF p1(1) m w worker_shutdown_ok(2)])
    then show ?thesis using Some r p1(2)
      by (simp add: maybeRecycle_def p1_def [symmetric] Let_def)
  qed (use Some assms in \<open>simp add: maybeRecycle_def\<close>)
qed (simp add: maybeRecycle_def assms)

text \<open>Each step of a run keeps the count.\<close>

lemma begin_run_ok:
  assumes "wpool_ok p" "in_state Idle p i"
  shows "wpool_ok (begin_run job i p) \<and> job_account (begin_run job i p) = job_account p + {#job#}"
proof -
  obtain w where m: "map_of (procs p) i = Some w" and idle: "wstate w = Idle"
    using assms(2) by (cases "map_of (procs p) i") (auto simp: in_state_def)
  have ok: "proc_ok w" using wpool_okD [OF assms(1) m] .
  then have empty: "runs w = []" using idle by (simp add: proc_ok_def)
  define w' where "w' = snd (worker_execute job (job \<in> set (abortedJobs p)) w)"
  have w': "proc_ok w'" using ok empty idle
    by (simp add: w'_def worker_execute_def Let_def proc_ok_def)
  note u = put_proc_ok [OF assms(1) m w']
  show ?thesis
  proof (cases "fst (worker_execute job (job \<in> set (abortedJobs p)) w)")
    case None
    then have "runs w' = [(job, job)]" using idle empty
      by (auto simp: w'_def worker_execute_def Let_def split: if_splits)
    then have "job_account (put_proc i w' p) = job_account p + {#job#}" using u(3) empty by simp
    then show ?thesis using u(1) None m by (simp add: begin_run_def split_beta w'_def)
  next
    case (Some err)
    then have "runs w' = []" using idle empty
      by (auto simp: w'_def worker_execute_def Let_def split: if_splits)
    then have "job_account (put_proc i w' p) = job_account p" using u(3) empty by simp
    then have "job_account ((put_proc i w' p)\<lparr>ended := ended p @ [(i, job, Inl err)]\<rparr>) = job_account p + {#job#}"
      by (simp add: job_account_def)
    then show ?thesis using u(1) Some m by (simp add: begin_run_def split_beta w'_def)
  qed
qed

lemma find_idle_state: "find_idle_worker p = Some i \<Longrightarrow> in_state Idle p i \<and> i \<in> set (slots p)"
  by (auto simp: find_idle_worker_def find_Some_iff)

lemma begin_run_queue [simp]: "jobQueue (begin_run job i p) = jobQueue p"
  by (cases "map_of (procs p) i") (simp_all add: begin_run_def split_beta Let_def split: option.split)

lemma job_account_queue:
  "job_account (p\<lparr>jobQueue := q\<rparr>) + mset (jobQueue p) = job_account p + mset q"
  by (simp add: job_account_def ac_simps)

lemma drain_loop_ok:
  "wpool_ok p \<Longrightarrow> wpool_ok (drain_loop q p)
    \<and> job_account (drain_loop q p) + mset (jobQueue p) = job_account p + mset q"
proof (induction q arbitrary: p)
  case Nil
  then show ?case using job_account_queue [where p = p and q = "[]"] by simp
next
  case (Cons job q)
  show ?case
  proof (cases "find_idle_worker p")
    case None
    then show ?thesis using Cons.prems job_account_queue [where p = p and q = "job # q"] by simp
  next
    case (Some i)
    have b: "wpool_ok (begin_run job i p)" "job_account (begin_run job i p) = job_account p + {#job#}"
      using begin_run_ok [OF Cons.prems] find_idle_state [OF Some] by auto
    then show ?thesis using Cons.IH [OF b(1)] Some by simp
  qed
qed

lemma drainQueue_ok:
  assumes "wpool_ok p"
  shows "wpool_ok (drainQueue p) \<and> job_account (drainQueue p) = job_account p"
  using drain_loop_ok [OF assms, of "jobQueue p"] by (simp add: drainQueue_def)

lemma job_account_result: "job_account (p\<lparr>results := results p @ [(job, out)]\<rparr>) = job_account p + {#job#}"
  by (simp add: job_account_def ac_simps)

lemma jobs_continue:
  assumes "wpool_ok p"
  shows "wpool_ok (continue_run now p) \<and> job_account (continue_run now p) = job_account p"
proof (cases "ended p")
  case (Cons e rest)
  obtain i job out where e: "e = (i, job, out)" by (metis prod_cases3)
  let ?q = "p\<lparr>ended := rest\<rparr>"
  have q: "wpool_ok ?q" "job_account ?q + {#job#} = job_account p"
    using assms Cons e by (simp_all add: job_account_def ac_simps)
  let ?r = "maybeRecycle now i ?q"
  have r: "wpool_ok ?r" "job_account ?r = job_account ?q" using maybeRecycle_ok [OF q(1)] by auto
  have d: "wpool_ok (drainQueue ?r)" "job_account (drainQueue ?r) = job_account ?r"
    using drainQueue_ok [OF r(1)] by auto
  show ?thesis
  proof (cases out)
    case (Inl err)
    then show ?thesis using Cons e q r by (simp add: continue_run_def Let_def job_account_result)
  next
    case (Inr res)
    then show ?thesis using Cons e q r d by (simp add: continue_run_def Let_def job_account_result)
  qed
qed (simp add: continue_run_def assms)

lemma on_worker_line_ok:
  assumes "proc_ok (fst st)"
  shows "proc_ok (fst (on_worker_line parse l st))
    \<and> mset (map fst (snd (on_worker_line parse l st))) + running_jobs (fst (on_worker_line parse l st))
      = mset (map fst (snd st)) + running_jobs (fst st)"
proof -
  obtain w out where st: "st = (w, out)" by force
  show ?thesis
  proof (cases "js_trim l = [] \<or> parse (js_trim l) = None")
    case False
    then obtain msg where msg: "parse (js_trim l) = Some msg" "js_trim l \<noteq> []" by auto
    show ?thesis
    proof (cases "map_of (runs w) (wr_id msg)")
      case (Some job)
      from assms st have "proc_ok w" by simp
      then have "runs w = [(wr_id msg, job)]" "\<not> startTimer w"
        using Some by (cases rule: runs_cases; auto split: if_splits)+
      then show ?thesis using msg Some st
        by (simp add: on_worker_line_def Let_def proc_ok_def)
    qed (use assms st msg in \<open>simp add: on_worker_line_def\<close>)
  qed (use assms st in \<open>auto simp: on_worker_line_def Let_def\<close>)
qed

lemma fold_worker_line_ok:
  "proc_ok (fst st) \<Longrightarrow> proc_ok (fst (fold (on_worker_line parse) ls st))
    \<and> mset (map fst (snd (fold (on_worker_line parse) ls st))) + running_jobs (fst (fold (on_worker_line parse) ls st))
      = mset (map fst (snd st)) + running_jobs (fst st)"
proof (induction ls arbitrary: st)
  case (Cons l ls)
  from on_worker_line_ok [OF Cons.prems, of parse l] Cons.IH [of "on_worker_line parse l st"]
  show ?case by simp
qed simp

lemma mset_ended:
  "image_mset ((\<lambda>(i, job, out). job) \<circ> (\<lambda>(job, r). (i, job, Inr r))) M = image_mset fst M"
  by (rule image_mset_cong) auto

lemma jobs_data:
  assumes "wpool_ok p"
  shows "wpool_ok (pool_data parse i chunk p) \<and> job_account (pool_data parse i chunk p) = job_account p"
proof (cases "map_of (procs p) i")
  case (Some w)
  let ?r = "worker_data parse chunk (w, [])"
  have "proc_ok (w\<lparr>outBuffer := b\<rparr>)" "running_jobs (w\<lparr>outBuffer := b\<rparr>) = running_jobs w" for b
    using wpool_okD [OF assms Some] by (simp_all add: proc_ok_def running_jobs_def)
  with fold_worker_line_ok [of "(w\<lparr>outBuffer := b\<rparr>, [])" parse for b]
  have r: "proc_ok (fst ?r)" "mset (map fst (snd ?r)) + running_jobs (fst ?r) = running_jobs w"
    by (simp_all add: worker_data_def split_beta)
  note u = put_proc_ok [OF assms Some r(1)]
  have "job_account ((put_proc i (fst ?r) p)\<lparr>ended := ended p @ map (\<lambda>(job, r). (i, job, Inr r)) (snd ?r)\<rparr>)
      = job_account (put_proc i (fst ?r) p) + mset (map fst (snd ?r))"
    unfolding job_account_def by (simp add: ac_simps mset_ended)
  moreover have "job_account (put_proc i (fst ?r) p) + mset (map fst (snd ?r)) = job_account p"
  proof -
    have "(job_account (put_proc i (fst ?r) p) + mset (map fst (snd ?r))) + running_jobs (fst ?r)
        = job_account (put_proc i (fst ?r) p) + running_jobs w"
      using r(2) by (simp only: add.assoc)
    also have "\<dots> = job_account p + running_jobs (fst ?r)" by (rule u(3))
    finally show ?thesis by (simp only: add_right_cancel)
  qed
  ultimately show ?thesis using Some u(1) by (simp add: pool_data_def split_beta)
qed (simp add: pool_data_def assms)

lemma jobs_gone:
  assumes "wpool_ok p" "\<And>w. proc_ok w \<Longrightarrow> proc_ok (gone w) \<and> runs (gone w) = []"
  shows "wpool_ok (pool_proc_gone gone err i p) \<and> job_account (pool_proc_gone gone err i p) = job_account p"
proof (cases "map_of (procs p) i")
  case (Some w)
  have g: "proc_ok (gone w)" "runs (gone w) = []"
    using assms(2) [OF wpool_okD [OF assms(1) Some]] by auto
  note u = put_proc_ok [OF assms(1) Some g(1)]
  show ?thesis
  proof (cases rule: runs_cases [OF wpool_okD [OF assms(1) Some]])
    case 1
    then show ?thesis using u(1,3) Some g(2) by (simp add: pool_proc_gone_def job_account_def)
  next
    case (2 job)
    then have "job_account (put_proc i (gone w) p) + {#job#} = job_account p" using u(3) g(2) by simp
    then show ?thesis using u(1) 2 Some by (simp add: pool_proc_gone_def job_account_def ac_simps)
  qed
qed (simp add: pool_proc_gone_def assms(1))

lemma jobs_abort:
  assumes "wpool_ok p"
  shows "wpool_ok (pool_abort i job p) \<and> job_account (pool_abort i job p) = job_account p"
proof (cases "map_of (procs p) i")
  case (Some w)
  let ?p = "p\<lparr>abortedJobs := job # abortedJobs p\<rparr>"
  show ?thesis
  proof (cases rule: runs_cases [OF wpool_okD [OF assms Some]])
    case 1
    then show ?thesis using Some assms by (simp add: pool_abort_def Let_def js_has_def)
  next
    case (2 k)
    show ?thesis
    proof (cases "k = job")
      case True
      let ?w = "worker_abort job w"
      have m: "map_of (procs ?p) i = Some w" "wpool_ok ?p" using Some assms by simp_all
      have w: "runs ?w = []" "proc_ok ?w" using 2 True by (simp_all add: worker_abort_def proc_ok_def)
      note u = put_proc_ok [OF m(2,1) w(2)]
      have "job_account (put_proc i ?w ?p) + {#job#} = job_account p"
        using u(3) w(1) 2 True by simp
      then have "job_account ((put_proc i ?w ?p)\<lparr>ended := ended p @ [(i, job, Inl err)]\<rparr>) = job_account p" for err
        by (simp add: job_account_def ac_simps)
      then show ?thesis using u(1) 2 True Some by (simp add: pool_abort_def Let_def js_has_def)
    qed (use 2 Some assms in \<open>simp add: pool_abort_def Let_def js_has_def\<close>)
  qed
qed (simp add: pool_abort_def Let_def assms)

lemma jobs_started:
  assumes "wpool_ok p"
  shows "wpool_ok (pool_started i p) \<and> job_account (pool_started i p) = job_account p"
proof (cases "map_of (procs p) i")
  case (Some w)
  show ?thesis
  proof (cases "startTimer w")
    case True
    note w = worker_started_ok [OF wpool_okD [OF assms Some] True]
    have "wpool_ok (put_proc i (worker_started w) p)
        \<and> job_account (put_proc i (worker_started w) p) = job_account p"
      by (rule put_proc_same [OF assms Some]) (use w in auto)
    then show ?thesis using Some True by (simp add: pool_started_def drainQueue_ok)
  qed (use Some assms in \<open>simp add: pool_started_def\<close>)
qed (simp add: pool_started_def assms)

lemma jobs_start_fails:
  assumes "wpool_ok p"
  shows "wpool_ok (pool_start_fails i p) \<and> job_account (pool_start_fails i p) = job_account p"
proof (cases "map_of (procs p) i")
  case (Some w)
  have "wpool_ok (put_proc i (w\<lparr>startTimer := False\<rparr>) p)
      \<and> job_account (put_proc i (w\<lparr>startTimer := False\<rparr>) p) = job_account p"
    by (rule put_proc_same [OF assms Some]) (use wpool_okD [OF assms Some] in \<open>auto simp: proc_ok_def\<close>)
  then show ?thesis using Some assms by (simp add: pool_start_fails_def)
qed (simp add: pool_start_fails_def assms)

lemma shutdown_idle_ok:
  fixes p :: "'j worker_pool"
  assumes "wpool_ok p"
  shows "wpool_ok (shutdown_idle p) \<and> job_account (shutdown_idle p) = job_account p
    \<and> jobQueue (shutdown_idle p) = jobQueue p \<and> results (shutdown_idle p) = results p"
proof -
  define f where "f = (\<lambda>(q :: 'j worker_pool) i. case map_of (procs q) i of
     Some w \<Rightarrow> (if wstate w = Busy then q else put_proc i (worker_shutdown w) q) | None \<Rightarrow> q)"
  have step: "wpool_ok (f q i) \<and> job_account (f q i) = job_account q \<and> jobQueue (f q i) = jobQueue q
      \<and> results (f q i) = results q" if ok: "wpool_ok q" for q i
  proof (cases "map_of (procs q) i")
    case (Some w)
    note w = worker_shutdown_ok(1) [OF wpool_okD [OF ok Some]] worker_shutdown_ok(2) [of w]
    have "wpool_ok (put_proc i (worker_shutdown w) q)
        \<and> job_account (put_proc i (worker_shutdown w) q) = job_account q"
      by (rule put_proc_same [OF ok Some w])
    then show ?thesis using Some ok by (simp add: f_def)
  qed (simp add: f_def ok)
  have "wpool_ok q \<Longrightarrow> wpool_ok (foldl f q is) \<and> job_account (foldl f q is) = job_account q
      \<and> jobQueue (foldl f q is) = jobQueue q \<and> results (foldl f q is) = results q" for q "is"
    by (induction "is" arbitrary: q) (simp_all add: step)
  then show ?thesis using assms by (simp add: shutdown_idle_def f_def)
qed

lemma jobs_shutdown:
  assumes "wpool_ok p"
  shows "wpool_ok (pool_shutdown_begin p) \<and> job_account (pool_shutdown_begin p) = job_account p"
    "wpool_ok (pool_shutdown_end p) \<and> job_account (pool_shutdown_end p) = job_account p"
proof -
  let ?q = "shutdown_idle (p\<lparr>poolShuttingDown := True\<rparr>)"
  have q: "wpool_ok ?q" "job_account ?q = job_account p" "jobQueue ?q = jobQueue p" "results ?q = results p"
    using shutdown_idle_ok [of "p\<lparr>poolShuttingDown := True\<rparr>"] assms by simp_all
  have "map fst (map (\<lambda>job. (job, x)) js) = js" for js :: "nat list" and x :: "string + 'a"
    by (induction js) auto
  then have "mset (map fst (results p @ map (\<lambda>job. (job, Inl ''WorkerPool shut down'')) (jobQueue p)))
      = mset (map fst (results p)) + mset (jobQueue p)"
    by (simp only: map_append mset_append)
  then have "job_account (?q\<lparr>jobQueue := [],
        results := results p @ map (\<lambda>job. (job, Inl ''WorkerPool shut down'')) (jobQueue p)\<rparr>) = job_account ?q"
    using q(3,4) by (simp add: job_account_def)
  then show "wpool_ok (pool_shutdown_begin p) \<and> job_account (pool_shutdown_begin p) = job_account p"
    using q by (simp add: pool_shutdown_begin_def)
  show "wpool_ok (pool_shutdown_end p) \<and> job_account (pool_shutdown_end p) = job_account p"
    using shutdown_idle_ok [OF assms] assms by (simp add: pool_shutdown_end_def)
qed

lemma jobs_execute:
  assumes "wpool_ok p"
  shows "wpool_ok (pool_execute job p) \<and> job_account (pool_execute job p) = job_account p + {#job#}"
proof (cases "find_idle_worker p")
  case (Some i)
  then show ?thesis using begin_run_ok [OF assms] find_idle_state [OF Some] assms
    by (simp add: pool_execute_def job_account_result)
next
  case None
  have "job_account (p\<lparr>jobQueue := jobQueue p @ [job]\<rparr>) = job_account p + {#job#}"
    by (simp add: job_account_def)
  then show ?thesis using None assms by (simp add: pool_execute_def job_account_result)
qed

lemma jobs_timeout:
  assumes "wpool_ok p"
  shows "wpool_ok (queue_timeout job p) \<and> job_account (queue_timeout job p) = job_account p"
  using assms by (auto simp: queue_timeout_def job_account_def)

lemma gone_ok:
  "proc_ok w \<Longrightarrow> proc_ok (worker_close w) \<and> runs (worker_close w) = []"
  "proc_ok w \<Longrightarrow> proc_ok (worker_error w) \<and> runs (worker_error w) = []"
  by (auto simp: worker_close_def worker_error_def rejectAll_def proc_ok_def)

lemma jobs_step:
  assumes "wpool_ok p"
  shows "wpool_ok (worker_step parse p e) \<and> job_account (worker_step parse p e) = job_account p + jobs_issued e"
  using warm_workers_ok [OF assms] jobs_execute [OF assms] jobs_timeout [OF assms] jobs_continue [OF assms]
    jobs_data [OF assms] jobs_gone [OF assms gone_ok(1)] jobs_gone [OF assms gone_ok(2)]
    jobs_abort [OF assms] jobs_started [OF assms] jobs_start_fails [OF assms] jobs_shutdown [OF assms] assms
  by (cases e) (simp_all add: warmUp_def)

interpretation workers: stepper "worker_step parse" wpool_ok for parse
  by unfold_locales (use jobs_step in blast)

lemma job_account_run:
  "wpool_ok p \<Longrightarrow> job_account (foldl (worker_step parse) p es) = job_account p + sum_list (map jobs_issued es)"
proof (induction es arbitrary: p)
  case (Cons e es)
  then show ?case using jobs_step [OF Cons.prems, of parse e] Cons.IH [of "worker_step parse p e"]
    by (simp add: add.assoc)
qed simp

text \<open>C13: No job is lost and none is settled twice. Over any run of the pool, with workers crashing,
  replaced, aborted or shut down while they run, every job given to \<open>execute\<close> is in exactly one
  place: settled, queued, running on a worker, or ended and about to be settled.\<close>

theorem pool_jobs_settled_once:
  "mset (map fst (results (foldl (worker_step parse) (new_worker_pool sz maxJobs maxAge) es)))
     + mset (jobQueue (foldl (worker_step parse) (new_worker_pool sz maxJobs maxAge) es))
     + mset (map (\<lambda>(i, job, out). job) (ended (foldl (worker_step parse) (new_worker_pool sz maxJobs maxAge) es)))
     + js_sum running_jobs (procs (foldl (worker_step parse) (new_worker_pool sz maxJobs maxAge) es))
   = sum_list (map jobs_issued es)"
proof -
  let ?p = "new_worker_pool sz maxJobs maxAge :: 'a worker_pool"
  have "wpool_ok ?p" "job_account ?p = {#}"
    by (simp_all add: wpool_ok_def new_worker_pool_def job_account_def)
  then show ?thesis using job_account_run [of ?p parse es] unfolding job_account_def by simp
qed

subsection \<open>A crash\<close>

text \<open>A worker whose process dies under a job is not replaced. Its state is set to dead, then the
  rejection of the job sets it back to idle; the recycling check that follows sees an idle worker
  and, unless its age or its job count is due, leaves it in the array. From then on every job that
  is routed to it fails, the worker stays where it is, and nothing but its age can ever remove it
  (failed jobs are not counted).\<close>

theorem worker_crash_is_not_noticed:
  assumes "map_of (procs p) i = Some w" and "runs w = [(job, job)]" and "ended p = []"
    and "\<not> poolShuttingDown p" and "now - createdAt w < maxAgeMs p" and "jobsRun w < maxJobsPerWorker p"
    and "p1 = continue_run now (pool_proc_gone worker_close err i p)"
  shows "slots p1 = slots p \<and> in_state Idle p1 i \<and> results p1 = results p @ [(job, Inl err)]
    \<and> (find_idle_worker p1 = Some i \<longrightarrow>
        results (foldl (\<lambda>q j. continue_run now (pool_execute j q)) p1 js)
        = results p1 @ map (\<lambda>j. (j, Inl ''Worker stdin is not writable'')) js)"
proof -
  let ?w = "w\<lparr>wstate := Idle, stdin := NotWritable, runs := []\<rparr>"
  have cl: "worker_close w = ?w" using assms(2) by (simp add: worker_close_def rejectAll_def)
  have fresh: "evaluateRecycle now (maxAgeMs p) (maxJobsPerWorker p) ?w = None"
    using assms(5,6) by (simp add: evaluateRecycle_def)
  have opts: "maxAgeMs (put_proc i x q) = maxAgeMs q" "maxJobsPerWorker (put_proc i x q) = maxJobsPerWorker q" for x q
    by (simp_all add: put_proc_def)
  have p1: "p1 = (put_proc i ?w p)\<lparr>ended := [], results := results p @ [(job, Inl err)]\<rparr>"
    unfolding assms(7)
    using assms(1-4) fresh
    by (simp add: pool_proc_gone_def cl continue_run_def maybeRecycle_def opts)
  have w1: "map_of (procs p1) i = Some ?w" "ended p1 = []" "\<not> poolShuttingDown p1"
    "maxAgeMs p1 = maxAgeMs p" "maxJobsPerWorker p1 = maxJobsPerWorker p"
    using assms(4) by (simp_all add: p1 opts)
  have one: "continue_run now (pool_execute j q) = q\<lparr>results := results q @ [(j, Inl ''Worker stdin is not writable'')]\<rparr>"
    if q: "find_idle_worker q = Some i" "map_of (procs q) i = Some ?w" "ended q = []" "\<not> poolShuttingDown q"
      "maxAgeMs q = maxAgeMs p" "maxJobsPerWorker q = maxJobsPerWorker p" for q j
  proof -
    have "put_proc i ?w q = q"
      using q(2) by (simp add: put_proc_def update_triv)
    then have "pool_execute j q = q\<lparr>ended := [(i, j, Inl ''Worker stdin is not writable'')]\<rparr>"
      using q by (simp add: pool_execute_def begin_run_def worker_execute_def)
    then show ?thesis using q fresh by (simp add: continue_run_def maybeRecycle_def)
  qed
  have all: "results (foldl (\<lambda>q j. continue_run now (pool_execute j q)) q js)
      = results q @ map (\<lambda>j. (j, Inl ''Worker stdin is not writable'')) js"
    if "find_idle_worker q = Some i" "map_of (procs q) i = Some ?w" "ended q = []" "\<not> poolShuttingDown q"
      "maxAgeMs q = maxAgeMs p" "maxJobsPerWorker q = maxJobsPerWorker p" for q
    using that
  proof (induction js arbitrary: q)
    case (Cons j js)
    let ?q = "q\<lparr>results := results q @ [(j, Inl ''Worker stdin is not writable'')]\<rparr>"
    have "in_state Idle ?q = in_state Idle q" by (rule ext) (simp add: in_state_def)
    then have "find_idle_worker ?q = find_idle_worker q" by (simp add: find_idle_worker_def)
    then show ?case using one [OF Cons.prems] Cons.IH [of ?q] Cons.prems by simp
  qed simp
  show ?thesis using all [OF _ w1] by (auto simp: p1 in_state_def)
qed

theorem worker_crash_is_not_noticed_witness:
  "results (continue_run 5 (pool_proc_gone worker_close ''Worker exited'' 0
     (pool_execute 7 (warmUp 0 (new_worker_pool (Some 1) None None :: unit worker_pool)))))
   = [(7, Inl ''Worker exited'')]"
proof -
  let ?p = "pool_execute 7 (warmUp 0 (new_worker_pool (Some 1) None None :: unit worker_pool))"
  have p: "procs ?p = [(0, \<lparr>wstate = Busy, stdin = Writable, outBuffer = [], runs = [(7, 7)],
      createdAt = 0, jobsRun = 1, startTimer = False\<rparr>)]" "ended ?p = []" "results ?p = []"
    "\<not> poolShuttingDown ?p" "maxAgeMs ?p = 600000" "maxJobsPerWorker ?p = 100"
    by (simp_all add: new_worker_pool_def warmUp_def nullish_def pool_execute_def find_idle_worker_def
        in_state_def begin_run_def worker_execute_def worker_started_def new_worker_def add_proc_def
        put_proc_def Let_def)
  show ?thesis
    using worker_crash_is_not_noticed [of ?p 0 _ 7 5 _ "''Worker exited''" "[]", OF _ _ _ _ _ _ refl] p
    by simp
qed

end
