(* ===== verification/Sessions.thy ===== *)
theory Sessions
  imports Prelude
begin

text \<open>
  The sessions of the HTTP bridge, \<open>src/src/bridge/session-registry.ts\<close>: created with a random id
  (an argument here), kept alive by use, dropped when idle for too long, and bounded in number.
\<close>

record session_record =
  createdTime :: time
  lastSeenAt :: time

record session_registry =
  sessions :: "(string, session_record) jsmap"
  cleanupTimer :: bool
  ttlMs :: int
  maxSessions :: nat

text \<open>The scan for the oldest record: the first of those with the smallest \<open>lastSeenAt\<close>.\<close>

fun evict_scan :: "(string \<times> session_record) list \<Rightarrow> (string \<times> time) option \<Rightarrow> (string \<times> time) option" where
  "evict_scan [] best = best"
| "evict_scan ((i, r) # rest) best =
     (case best of
        None \<Rightarrow> evict_scan rest (Some (i, lastSeenAt r))
      | Some (j, seen) \<Rightarrow>
          evict_scan rest (if lastSeenAt r < seen then Some (i, lastSeenAt r) else best))"

definition evictIfFull :: "session_registry \<Rightarrow> session_registry" where
  "evictIfFull s =
     (if length (sessions s) < maxSessions s then s
      else (case evict_scan (sessions s) None of
              Some (oldestId, seen) \<Rightarrow>
                (if oldestId = [] then s else s\<lparr>sessions := AList.delete oldestId (sessions s)\<rparr>)
            | None \<Rightarrow> s))"

definition session_create :: "time \<Rightarrow> string \<Rightarrow> session_registry \<Rightarrow> session_registry" where
  "session_create now uuid s =
     (let s' = evictIfFull s
      in s'\<lparr>sessions := AList.update uuid \<lparr>createdTime = now, lastSeenAt = now\<rparr> (sessions s')\<rparr>)"

definition session_touch :: "time \<Rightarrow> string \<Rightarrow> session_registry \<Rightarrow> session_record option \<times> session_registry" where
  "session_touch now i s =
     (case map_of (sessions s) i of
        None \<Rightarrow> (None, s)
      | Some r \<Rightarrow>
          (if now - lastSeenAt r > ttlMs s
           then (None, s\<lparr>sessions := AList.delete i (sessions s)\<rparr>)
           else (let r' = r\<lparr>lastSeenAt := now\<rparr>
                 in (Some r', s\<lparr>sessions := AList.update i r' (sessions s)\<rparr>))))"

definition session_terminate :: "string \<Rightarrow> session_registry \<Rightarrow> bool \<times> session_registry" where
  "session_terminate i s = (js_has (sessions s) i, s\<lparr>sessions := AList.delete i (sessions s)\<rparr>)"

definition session_sweep :: "time \<Rightarrow> session_registry \<Rightarrow> nat \<times> session_registry" where
  "session_sweep now s =
     (let kept = js_drop_where (\<lambda>_ r. now - lastSeenAt r > ttlMs s) (sessions s)
      in (length (sessions s) - length kept, s\<lparr>sessions := kept\<rparr>))"

definition session_start :: "session_registry \<Rightarrow> session_registry" where
  "session_start s = s\<lparr>cleanupTimer := True\<rparr>"

definition session_stop :: "session_registry \<Rightarrow> session_registry" where
  "session_stop s = s\<lparr>cleanupTimer := False, sessions := []\<rparr>"

definition session_size :: "session_registry \<Rightarrow> nat" where
  "session_size s = length (sessions s)"

datatype session_op = SCreate time string | STouch time string | STerminate string | SSweep time
  | SStart | SStop

fun session_step :: "session_registry \<Rightarrow> session_op \<Rightarrow> session_registry" where
  "session_step s (SCreate now uuid) = session_create now uuid s"
| "session_step s (STouch now i) = snd (session_touch now i s)"
| "session_step s (STerminate i) = snd (session_terminate i s)"
| "session_step s (SSweep now) = (if cleanupTimer s then snd (session_sweep now s) else s)"
| "session_step s SStart = session_start s"
| "session_step s SStop = session_stop s"

fun good_op :: "session_op \<Rightarrow> bool" where
  "good_op (SCreate now uuid) = (uuid \<noteq> [])"
| "good_op _ = True"

subsection \<open>Facts\<close>

lemma evict_scan_min:
  "evict_scan rs best = Some (i, t) \<Longrightarrow>
   (\<forall>(j, r) \<in> set rs. t \<le> lastSeenAt r) \<and> (case best of Some (j, u) \<Rightarrow> t \<le> u | None \<Rightarrow> True)
   \<and> ((\<exists>r. (i, r) \<in> set rs \<and> lastSeenAt r = t) \<or> best = Some (i, t))"
proof (induction rs arbitrary: best)
  case (Cons e rs)
  obtain j r where e: "e = (j, r)" by force
  show ?case
  proof (cases best)
    case None
    then show ?thesis using Cons.IH [of "Some (j, lastSeenAt r)"] Cons.prems e by auto
  next
    case (Some b)
    obtain k u where b: "b = (k, u)" by force
    then show ?thesis
      using Cons.IH [of "if lastSeenAt r < u then Some (j, lastSeenAt r) else best"] Cons.prems e Some
      by (auto split: if_splits)
  qed
qed auto

lemma evict_scan_some: "best \<noteq> None \<Longrightarrow> evict_scan rs best \<noteq> None"
  by (induction rs best rule: evict_scan.induct) (auto split: option.splits)

definition session_ok :: "session_registry \<Rightarrow> bool" where
  "session_ok s \<longleftrightarrow> js_wf (sessions s) \<and> \<not> js_has (sessions s) [] \<and> 1 \<le> maxSessions s
     \<and> length (sessions s) \<le> maxSessions s"

text \<open>The victim of an eviction.\<close>

lemma evict_full:
  assumes "session_ok s" "\<not> length (sessions s) < maxSessions s"
  obtains v r where "map_of (sessions s) v = Some r"
    "\<forall>(j, q) \<in> set (sessions s). lastSeenAt r \<le> lastSeenAt q"
    "evictIfFull s = s\<lparr>sessions := AList.delete v (sessions s)\<rparr>"
proof -
  obtain e es where es: "sessions s = e # es"
    using assms by (cases "sessions s") (auto simp: session_ok_def)
  have "evict_scan (sessions s) None \<noteq> None"
    using es evict_scan_some by (cases e) simp
  then obtain v t where v: "evict_scan (sessions s) None = Some (v, t)" by (cases "evict_scan (sessions s) None") auto
  from evict_scan_min [OF v] obtain r where r: "(v, r) \<in> set (sessions s)" "lastSeenAt r = t"
    "\<forall>(j, q) \<in> set (sessions s). t \<le> lastSeenAt q" by auto
  then have m: "map_of (sessions s) v = Some r"
    using assms(1) by (simp add: session_ok_def js_wf_def)
  then have "v \<noteq> []" using assms(1) by (auto simp: session_ok_def js_has_def)
  then have "evictIfFull s = s\<lparr>sessions := AList.delete v (sessions s)\<rparr>"
    using assms(2) v by (simp add: evictIfFull_def)
  with m r show thesis using that by blast
qed

lemma evict_ok:
  assumes "session_ok s"
  shows "session_ok (evictIfFull s)" "length (sessions (evictIfFull s)) < maxSessions s"
    "maxSessions (evictIfFull s) = maxSessions s"
proof -
  consider "length (sessions s) < maxSessions s" | "\<not> length (sessions s) < maxSessions s" by blast
  then have "session_ok (evictIfFull s) \<and> length (sessions (evictIfFull s)) < maxSessions s
      \<and> maxSessions (evictIfFull s) = maxSessions s"
  proof cases
    case 1
    then show ?thesis using assms by (simp add: evictIfFull_def)
  next
    case 2
    from evict_full [OF assms this] obtain v r where v: "map_of (sessions s) v = Some r"
      "evictIfFull s = s\<lparr>sessions := AList.delete v (sessions s)\<rparr>" by blast
    then have "length (AList.delete v (sessions s)) < length (sessions s)"
      by (intro length_js_delete_has) (simp add: js_has_def)
    then show ?thesis using assms v(2) by (auto simp: session_ok_def)
  qed
  then show "session_ok (evictIfFull s)" "length (sessions (evictIfFull s)) < maxSessions s"
    "maxSessions (evictIfFull s) = maxSessions s" by auto
qed

lemma session_ok_step: "session_ok s \<Longrightarrow> good_op e \<Longrightarrow> session_ok (session_step s e)"
proof (cases e)
  case (SCreate now uuid)
  assume "session_ok s" "good_op e"
  then show ?thesis using evict_ok [of s] SCreate
    by (auto simp: session_create_def Let_def session_ok_def length_js_set)
next
  case (STouch now i)
  assume "session_ok s"
  then show ?thesis using STouch length_js_delete_le [of i "sessions s"]
    by (cases "map_of (sessions s) i")
       (auto simp: session_touch_def Let_def session_ok_def length_js_set js_has_def)
next
  case (STerminate i)
  assume "session_ok s"
  then show ?thesis using STerminate length_js_delete_le [of i "sessions s"]
    by (auto simp: session_terminate_def session_ok_def)
next
  case (SSweep now)
  assume s: "session_ok s"
  let ?m = "js_drop_where (\<lambda>_ r. now - lastSeenAt r > ttlMs s) (sessions s)"
  have "\<not> js_has ?m []" using s
    by (auto simp: session_ok_def js_has_in_keys js_drop_where_def image_iff)
  then show ?thesis using SSweep s length_js_drop_where [of "\<lambda>_ r. now - lastSeenAt r > ttlMs s" "sessions s"]
    by (auto simp: session_sweep_def Let_def session_ok_def)
qed (auto simp: session_start_def session_stop_def session_ok_def js_has_def)

interpretation sess: stepper "\<lambda>s e. if good_op e then session_step s e else s" session_ok
  by unfold_locales (auto intro: session_ok_step)

lemma sess_run:
  "list_all good_op es \<Longrightarrow>
   foldl (\<lambda>s e. if good_op e then session_step s e else s) s es = foldl session_step s es"
  by (induction es arbitrary: s) auto

text \<open>The registry of a bridge that allows at least one session never holds more than its
  maximum, whatever sessions are created, used, terminated and swept. Creating a session makes it
  known; and it pushes out another one only when the registry is full, and then one that was seen
  no later than any of the others, which all stay.\<close>

theorem session_registry_spec:
  assumes "1 \<le> m" and "list_all good_op es"
    and "s = foldl session_step \<lparr>sessions = [], cleanupTimer = False, ttlMs = ttl, maxSessions = m\<rparr> es"
    and "\<not> js_has (sessions s) uuid" and "uuid \<noteq> []"
  shows "session_size s \<le> m \<and> session_size (session_create now uuid s) \<le> m
    \<and> map_of (sessions (session_create now uuid s)) uuid = Some \<lparr>createdTime = now, lastSeenAt = now\<rparr>
    \<and> (\<forall>i r. map_of (sessions s) i = Some r \<longrightarrow>
         map_of (sessions (session_create now uuid s)) i = Some r
         \<or> session_size s = m \<and> (\<forall>(j, q) \<in> set (sessions s). lastSeenAt r \<le> lastSeenAt q))"
proof -
  let ?s0 = "\<lparr>sessions = [], cleanupTimer = False, ttlMs = ttl, maxSessions = m\<rparr>"
  have max: "maxSessions (foldl session_step t es) = maxSessions t" for t
  proof (induction es arbitrary: t)
    case (Cons e es)
    have ev: "maxSessions (evictIfFull t) = maxSessions t"
      by (cases "evict_scan (sessions t) None") (auto simp: evictIfFull_def)
    have "maxSessions (session_step t e) = maxSessions t"
      by (cases e) (auto simp: session_create_def session_touch_def session_terminate_def session_sweep_def
          session_start_def session_stop_def Let_def ev split: option.split)
    then show ?case using Cons by simp
  qed simp
  have ok: "session_ok s"
    using sess.inv_run [of ?s0 es] assms(1) unfolding assms(3) sess_run [OF assms(2)]
    by (simp add: session_ok_def js_has_def)
  have m: "maxSessions s = m" using max [of ?s0] assms(3) by simp
  have ne: "i \<noteq> uuid" if "map_of (sessions s) i = Some r" for i r using that assms(4) by (auto simp: js_has_def)
  have bound: "session_size (session_create now uuid s) \<le> m"
    using evict_ok [OF ok] m by (simp add: session_create_def Let_def session_size_def length_js_set)
  have keep: "map_of (sessions (session_create now uuid s)) i = Some r
         \<or> session_size s = m \<and> (\<forall>(j, q) \<in> set (sessions s). lastSeenAt r \<le> lastSeenAt q)"
    if i: "map_of (sessions s) i = Some r" for i r
  proof (cases "length (sessions s) < maxSessions s")
    case True
    then show ?thesis using i ne [OF i] by (simp add: session_create_def evictIfFull_def Let_def)
  next
    case False
    from evict_full [OF ok False] obtain v q where v: "map_of (sessions s) v = Some q"
      "\<forall>(j, p) \<in> set (sessions s). lastSeenAt q \<le> lastSeenAt p"
      "evictIfFull s = s\<lparr>sessions := AList.delete v (sessions s)\<rparr>" by blast
    show ?thesis
    proof (cases "i = v")
      case True
      then have "r = q" using i v(1) by simp
      moreover have "session_size s = m" using False ok m by (simp add: session_ok_def session_size_def)
      ultimately show ?thesis using v(2) by blast
    next
      case neq: False
      then show ?thesis using i ne [OF i] v(3) by (simp add: session_create_def Let_def)
    qed
  qed
  have "session_size s \<le> m" using ok m by (simp add: session_ok_def session_size_def)
  moreover have "map_of (sessions (session_create now uuid s)) uuid = Some \<lparr>createdTime = now, lastSeenAt = now\<rparr>"
    by (simp add: session_create_def Let_def)
  ultimately show ?thesis using bound keep by blast
qed

theorem session_registry_spec_witness:
  "session_size (session_create 9 ''c'' (foldl session_step
     \<lparr>sessions = [], cleanupTimer = False, ttlMs = 100, maxSessions = 2\<rparr>
     [SCreate 1 ''a'', SCreate 2 ''b'', STouch 3 ''a''])) \<le> 2"
  by (rule session_registry_spec [where m = 2 and es = "[SCreate 1 ''a'', SCreate 2 ''b'', STouch 3 ''a'']"
        and ttl = 100, OF _ _ refl, THEN conjunct2, THEN conjunct1])
     (simp_all add: session_create_def session_touch_def evictIfFull_def js_has_def Let_def)

end
