(* ===== verification/Modes.thy ===== *)
theory Modes
  imports Prelude
begin

text \<open>
  The operation modes, \<open>src/src/modes/mode-handler.ts\<close>: the choice between execution and
  passthrough, its counters, the list of recent passthrough calls, and the names under which
  passthrough tools are shown. Estimates are whole numbers; events for listeners are left out.
\<close>

datatype execution_mode = Execution | Passthrough | Hybrid

record mode_metrics =
  executionCalls :: nat
  passthroughCalls :: nat
  hybridAutoExecutions :: nat
  hybridAutoPassthroughs :: nat
  tokensSavedEstimate :: int

record passthrough_call =
  pc_server :: string
  pc_tool :: string
  pc_timestamp :: time
  pc_durationMs :: "int option"
  pc_success :: bool
  pc_error :: "string option"

record hybrid_decision =
  hd_task :: string
  hd_decision :: execution_mode
  hd_reason :: string
  hd_confidence :: rat

record mode_config =
  defaultMode :: execution_mode
  hybridToolCallThreshold :: int
  hybridDataThreshold :: int

record mode_handler =
  currentMode :: execution_mode
  mode_conf :: mode_config
  metrics :: mode_metrics
  recentPassthroughCalls :: "passthrough_call list"

record task =
  t_description :: "string option"
  t_toolCalls :: "int option"
  t_dataKb :: "int option"

definition zero_metrics :: mode_metrics where
  "zero_metrics = \<lparr>executionCalls = 0, passthroughCalls = 0, hybridAutoExecutions = 0,
     hybridAutoPassthroughs = 0, tokensSavedEstimate = 0\<rparr>"

definition new_mode_handler ::
  "execution_mode option \<Rightarrow> int option \<Rightarrow> int option \<Rightarrow> mode_handler" where
  "new_mode_handler mode calls kb =
     (let c = \<lparr>defaultMode = nullish mode Execution, hybridToolCallThreshold = nullish calls 3,
               hybridDataThreshold = nullish kb 5\<rparr>
      in \<lparr>currentMode = defaultMode c, mode_conf = c, metrics = zero_metrics,
          recentPassthroughCalls = []\<rparr>)"

definition setMode :: "execution_mode \<Rightarrow> mode_handler \<Rightarrow> execution_mode \<times> mode_handler" where
  "setMode m h = (currentMode h, h\<lparr>currentMode := m\<rparr>)"

definition processing_keywords :: "string list" where
  "processing_keywords = [''filter'', ''aggregate'', ''summarise'', ''summarize'', ''analyse'',
     ''analyze'', ''process'', ''transform'', ''combine'', ''merge'', ''calculate'', ''compute'',
     ''iterate'', ''loop'', ''multiple'', ''batch'', ''bulk'']"

definition containsProcessingKeywords :: "string \<Rightarrow> bool" where
  "containsProcessingKeywords description =
     list_ex (\<lambda>k. js_includes (js_lower description) k) processing_keywords"

definition decideMode :: "task \<Rightarrow> mode_handler \<Rightarrow> hybrid_decision \<times> mode_handler" where
  "decideMode t h =
     (let calls = nullish (t_toolCalls t) 1; kb = nullish (t_dataKb t) 0;
          description = nullish (t_description t) [];
          (d, reason, conf) =
            (if calls > hybridToolCallThreshold (mode_conf h)
             then (Execution, ''Multiple tool calls expected ('' @ show_int calls @ '')'', 8 / 10)
             else if kb > hybridDataThreshold (mode_conf h)
             then (Execution, ''Large data volume expected ('' @ show_int kb @ ''KB)'', 3 / 4)
             else if containsProcessingKeywords description
             then (Execution, ''Task involves data processing'', 7 / 10)
             else (Passthrough, ''Simple task suitable for direct tool calls'', 6 / 10));
          m = metrics h;
          m' = (if d = Execution then m\<lparr>hybridAutoExecutions := hybridAutoExecutions m + 1\<rparr>
                else m\<lparr>hybridAutoPassthroughs := hybridAutoPassthroughs m + 1\<rparr>)
      in (\<lparr>hd_task = (if description = [] then ''Unknown task'' else description), hd_decision = d,
           hd_reason = reason, hd_confidence = conf\<rparr>,
          h\<lparr>metrics := m'\<rparr>))"

definition recordExecutionCall :: "int \<Rightarrow> mode_handler \<Rightarrow> mode_handler" where
  "recordExecutionCall saved h =
     h\<lparr>metrics := (metrics h)\<lparr>executionCalls := executionCalls (metrics h) + 1,
                              tokensSavedEstimate := tokensSavedEstimate (metrics h) + saved\<rparr>\<rparr>"

definition maxRecentCalls :: nat where "maxRecentCalls = 100"

definition recordPassthroughCall :: "passthrough_call \<Rightarrow> mode_handler \<Rightarrow> mode_handler" where
  "recordPassthroughCall c h =
     (let cs = recentPassthroughCalls h @ [c]
      in h\<lparr>metrics := (metrics h)\<lparr>passthroughCalls := passthroughCalls (metrics h) + 1\<rparr>,
           recentPassthroughCalls := (if length cs > maxRecentCalls then tl cs else cs)\<rparr>)"

definition resetMetrics :: "mode_handler \<Rightarrow> mode_handler" where
  "resetMetrics h = h\<lparr>metrics := zero_metrics, recentPassthroughCalls := []\<rparr>"

definition getEffectiveMode :: "task option \<Rightarrow> mode_handler \<Rightarrow> execution_mode \<times> mode_handler" where
  "getEffectiveMode t h =
     (case currentMode h of
        Execution \<Rightarrow> (Execution, h)
      | Passthrough \<Rightarrow> (Passthrough, h)
      | Hybrid \<Rightarrow>
          (case t of
             Some task \<Rightarrow> (let (d, h') = decideMode task h in (hd_decision d, h'))
           | None \<Rightarrow> (Execution, h)))"

definition generatePassthroughToolName :: "string \<Rightarrow> string \<Rightarrow> string" where
  "generatePassthroughToolName serverName toolName = serverName @ ''__'' @ toolName"

text \<open>\<open>combinedName.split('__')\<close>\<close>

fun split_double :: "string \<Rightarrow> string list" where
  "split_double [] = [[]]"
| "split_double [c] = [[c]]"
| "split_double (c # d # cs) =
     (if c = CHR ''_'' \<and> d = CHR ''_'' then [] # split_double cs
      else (case split_double (d # cs) of p # ps \<Rightarrow> (c # p) # ps | [] \<Rightarrow> [[c]]))"

definition parsePassthroughToolName :: "string \<Rightarrow> (string \<times> string) option" where
  "parsePassthroughToolName combinedName =
     (case split_double combinedName of
        [server, tool] \<Rightarrow> (if server = [] \<or> tool = [] then None else Some (server, tool))
      | _ \<Rightarrow> None)"

subsection \<open>Names\<close>

lemma js_includes_Cons2:
  "js_includes (c # d # cs) ''__'' \<longleftrightarrow> (c = CHR ''_'' \<and> d = CHR ''_'') \<or> js_includes (d # cs) ''__''"
  by auto

lemma split_double_nonempty [simp]: "split_double s \<noteq> []"
  by (induction s rule: split_double.induct) (auto split: list.splits)

lemma split_double_single: "split_double s = [t] \<longleftrightarrow> t = s \<and> \<not> js_includes s ''__''"
proof (induction s arbitrary: t rule: split_double.induct)
  case (3 c d cs)
  show ?case
  proof (cases "c = CHR ''_'' \<and> d = CHR ''_''")
    case True
    then show ?thesis by simp
  next
    case False
    obtain p ps where p: "split_double (d # cs) = p # ps" by (cases "split_double (d # cs)") auto
    then have "split_double (c # d # cs) = (c # p) # ps" using False by auto
    moreover have "ps = [] \<longleftrightarrow> p = d # cs \<and> \<not> js_includes (d # cs) ''__''"
      using 3(2) [OF False, of p] p by auto
    ultimately show ?thesis
      using False unfolding js_includes_Cons2
      by (metis "3.IH"(2) False list.inject p)
  qed
qed auto

lemma split_double_pair:
  "split_double n = [s, t] \<longleftrightarrow>
     n = s @ ''__'' @ t \<and> \<not> js_includes s ''__'' \<and> (s = [] \<or> last s \<noteq> CHR ''_'') \<and> \<not> js_includes t ''__''"
proof (induction n arbitrary: s rule: split_double.induct)
  case 1
  then show ?case by simp
next
  case (2 c)
  then show ?case by (cases s) auto
next
  case (3 c d cs)
  show ?case
  proof (cases "c = CHR ''_'' \<and> d = CHR ''_''")
    case True
    have "split_double (c # d # cs) = [] # split_double cs" using True by simp
    then have "split_double (c # d # cs) = [s, t] \<longleftrightarrow> s = [] \<and> t = cs \<and> \<not> js_includes cs ''__''"
      using split_double_single [of cs t] by auto
    also have "\<dots> \<longleftrightarrow> c # d # cs = s @ ''__'' @ t \<and> \<not> js_includes s ''__''
        \<and> (s = [] \<or> last s \<noteq> CHR ''_'') \<and> \<not> js_includes t ''__''"
    proof (cases s)
      case Nil
      then show ?thesis using True by auto
    next
      case (Cons a s')
      show ?thesis
      proof (cases s')
        case Nil
        then show ?thesis using Cons True by auto
      next
        case (Cons b s'')
        then show ?thesis using \<open>s = a # s'\<close> True by (auto simp: js_includes_Cons2)
      qed
    qed
    finally show ?thesis .
  next
    case False
    obtain p ps where p: "split_double (d # cs) = p # ps" by (cases "split_double (d # cs)") auto
    then have sp: "split_double (c # d # cs) = (c # p) # ps" using False by auto
    show ?thesis
    proof (cases s)
      case Nil
      then show ?thesis using sp False by auto
    next
      case (Cons a s')
      have "split_double (c # d # cs) = [s, t] \<longleftrightarrow> a = c \<and> split_double (d # cs) = [s', t]"
        using sp p Cons by auto
      also have "\<dots> \<longleftrightarrow> a = c \<and> d # cs = s' @ ''__'' @ t \<and> \<not> js_includes s' ''__''
          \<and> (s' = [] \<or> last s' \<noteq> CHR ''_'') \<and> \<not> js_includes t ''__''"
        using 3(2) [OF False, of s'] by simp
      also have "\<dots> \<longleftrightarrow> c # d # cs = s @ ''__'' @ t \<and> \<not> js_includes s ''__''
          \<and> (s = [] \<or> last s \<noteq> CHR ''_'') \<and> \<not> js_includes t ''__''"
      proof (cases s')
        case Nil
        then show ?thesis using Cons False by auto
      next
        case (Cons b s'')
        then show ?thesis using \<open>s = a # s'\<close> False by (auto simp: js_includes_Cons2)
      qed
      finally show ?thesis .
    qed
  qed
qed

text \<open>What a combined name means. A name is read as the tool \<open>t\<close> of the server \<open>s\<close> exactly when
  it is the name generated for them, both are non-empty, neither contains a double underscore and
  the server's name does not end in an underscore. So reading back a generated name gives the
  same pair for those names, and for every other pair it gives nothing or another pair.\<close>

theorem passthrough_name_roundtrip:
  "parsePassthroughToolName n = Some (s, t) \<longleftrightarrow>
     n = generatePassthroughToolName s t \<and> s \<noteq> [] \<and> t \<noteq> []
     \<and> \<not> js_includes s ''__'' \<and> last s \<noteq> CHR ''_'' \<and> \<not> js_includes t ''__''"
proof -
  have "parsePassthroughToolName n = Some (s, t) \<longleftrightarrow> split_double n = [s, t] \<and> s \<noteq> [] \<and> t \<noteq> []"
    by (auto simp: parsePassthroughToolName_def split: list.splits if_splits)
  then show ?thesis unfolding split_double_pair generatePassthroughToolName_def by blast
qed

subsection \<open>The handler\<close>

lemma recent_calls_bounded:
  "length (recentPassthroughCalls h) \<le> maxRecentCalls \<Longrightarrow>
   length (recentPassthroughCalls (recordPassthroughCall c h)) \<le> maxRecentCalls"
  by (auto simp: recordPassthroughCall_def Let_def)

lemma decideMode_counts:
  "hybridAutoExecutions (metrics (snd (decideMode t h))) + hybridAutoPassthroughs (metrics (snd (decideMode t h)))
   = hybridAutoExecutions (metrics h) + hybridAutoPassthroughs (metrics h) + 1"
  by (simp add: decideMode_def Let_def)

end
