(* ===== verification/Json.thy ===== *)
theory Json
  imports Prelude
begin

text \<open>
  JSON values as the program passes them around, and \<open>JSON.stringify\<close>. The list of a \<open>JObj\<close> is
  the object's own properties in the order \<open>Object.keys\<close> gives them. Numbers are whole numbers.
\<close>

datatype json =
    JNull
  | JBool bool
  | JNum int
  | JStr string
  | JArr "json list"
  | JObj "(string \<times> json) list"

text \<open>The characters \<open>JSON.stringify\<close> escapes.\<close>

definition hex_digit :: "nat \<Rightarrow> char" where
  "hex_digit n = (if n < 10 then char_of (48 + n) else char_of (87 + n))"

definition escape_char :: "char \<Rightarrow> string" where
  "escape_char c =
     (if c = CHR 0x22 then [CHR 0x5C, CHR 0x22]
      else if c = CHR 0x5C then [CHR 0x5C, CHR 0x5C]
      else if c = CHR 0x08 then [CHR 0x5C, CHR ''b'']
      else if c = CHR 0x09 then [CHR 0x5C, CHR ''t'']
      else if c = CHR 0x0A then [CHR 0x5C, CHR ''n'']
      else if c = CHR 0x0C then [CHR 0x5C, CHR ''f'']
      else if c = CHR 0x0D then [CHR 0x5C, CHR ''r'']
      else if (of_char c :: nat) < 32
      then [CHR 0x5C, CHR ''u'', CHR ''0'', CHR ''0'', hex_digit (of_char c div 16), hex_digit (of_char c mod 16)]
      else [c])"

definition quote_string :: "string \<Rightarrow> string" where
  "quote_string s = CHR 0x22 # concat (map escape_char s) @ [CHR 0x22]"

fun join :: "string \<Rightarrow> string list \<Rightarrow> string" where
  "join sep [] = []"
| "join sep [x] = x"
| "join sep (x # y # ys) = x @ sep @ join sep (y # ys)"

lemma size_member [termination_simp]:
  "(k, v) \<in> set kvs \<Longrightarrow> size v < Suc (size_list (size_prod f size) kvs)"
  by (induction kvs) auto

lemma size_element [termination_simp]: "v \<in> set xs \<Longrightarrow> size v < Suc (size_list size xs)"
  by (induction xs) auto

fun json_stringify :: "json \<Rightarrow> string" where
  "json_stringify JNull = ''null''"
| "json_stringify (JBool b) = (if b then ''true'' else ''false'')"
| "json_stringify (JNum n) = show_int n"
| "json_stringify (JStr s) = quote_string s"
| "json_stringify (JArr xs) = ''['' @ join '','' (map json_stringify xs) @ '']''"
| "json_stringify (JObj kvs) =
     CHR 0x7B # join '','' (map (\<lambda>(k, v). quote_string k @ '':'' @ json_stringify v) kvs) @ [CHR 0x7D]"

subsection \<open>Objects\<close>

text \<open>
  The order of the own properties of an object: the keys that are array indices first, by number,
  then the others in the order they were added. An assignment to \<open>__proto__\<close> adds no property.
\<close>

definition is_digit :: "char \<Rightarrow> bool" where
  "is_digit c \<longleftrightarrow> 48 \<le> (of_char c :: nat) \<and> (of_char c :: nat) \<le> 57"

definition digits_value :: "string \<Rightarrow> nat" where
  "digits_value s = foldl (\<lambda>n c. 10 * n + (of_char c - 48)) 0 s"

definition is_array_index :: "string \<Rightarrow> bool" where
  "is_array_index k \<longleftrightarrow>
     k \<noteq> [] \<and> list_all is_digit k \<and> (hd k \<noteq> CHR ''0'' \<or> k = ''0'') \<and> digits_value k < 4294967295"

definition own_properties :: "(string \<times> 'a) list \<Rightarrow> (string \<times> 'a) list" where
  "own_properties kvs =
     (let own = filter (\<lambda>(k, v). k \<noteq> ''__proto__'') kvs in
      sort_key (\<lambda>(k, v). digits_value k) (filter (\<lambda>(k, v). is_array_index k) own)
      @ filter (\<lambda>(k, v). \<not> is_array_index k) own)"

lemma set_own_properties: "set (own_properties kvs) = {kv \<in> set kvs. fst kv \<noteq> ''__proto__''}"
  by (auto simp: own_properties_def Let_def)

subsection \<open>The text determines the value\<close>

lemma escape_char_simps: "escape_char c \<noteq> []"
  by (simp add: escape_char_def)

lemma escape_char_head: "hd (escape_char c) \<noteq> CHR 0x22"
  by (simp add: escape_char_def)

lemma hex_digit_inj: "a < 16 \<Longrightarrow> b < 16 \<Longrightarrow> hex_digit a = hex_digit b \<Longrightarrow> a = b"
proof -
  assume ab: "a < 16" "b < 16" and eq: "hex_digit a = hex_digit b"
  have v: "(of_char (hex_digit n) :: nat) = (if n < 10 then 48 + n else 87 + n)" if "n < 16" for n
    using that by (simp add: hex_digit_def of_char_of)
  from eq have "(of_char (hex_digit a) :: nat) = of_char (hex_digit b)" by simp
  then show "a = b" using v [OF ab(1)] v [OF ab(2)] ab by (simp split: if_splits)
qed

text \<open>No escape is the beginning of another.\<close>

lemma escape_char_code:
  assumes "escape_char c @ x = escape_char d @ y"
  shows "c = d \<and> x = y"
proof -
  have u: "c = d" if "(of_char c :: nat) < 32" "(of_char d :: nat) < 32"
    "hex_digit (of_char c div 16) = hex_digit (of_char d div 16)"
    "hex_digit (of_char c mod 16) = hex_digit (of_char d mod 16)"
  proof -
    have "(of_char c :: nat) div 16 = of_char d div 16"
      by (rule hex_digit_inj) (use that in auto)
    moreover have "(of_char c :: nat) mod 16 = of_char d mod 16"
      by (rule hex_digit_inj) (use that in auto)
    ultimately have "(of_char c :: nat) = of_char d"
      by (metis div_mult_mod_eq)
    then show ?thesis by simp
  qed
  show ?thesis using assms u unfolding escape_char_def
    by (simp split: if_splits)
qed

lemma escape_string_code:
  "concat (map escape_char s) @ CHR 0x22 # x = concat (map escape_char t) @ CHR 0x22 # y \<Longrightarrow> s = t \<and> x = y"
proof (induction s arbitrary: t)
  case Nil
  show ?case
  proof (cases t)
    case (Cons d ds)
    then have "hd (escape_char d) = CHR 0x22"
      using Nil escape_char_simps [of d] by (cases "escape_char d") auto
    then show ?thesis using escape_char_head by simp
  qed (use Nil in simp)
next
  case (Cons c s)
  show ?case
  proof (cases t)
    case Nil
    then have "hd (escape_char c) = CHR 0x22"
      using Cons.prems escape_char_simps [of c] by (cases "escape_char c") auto
    then show ?thesis using escape_char_head by simp
  next
    case (Cons d ds)
    have "escape_char c @ (concat (map escape_char s) @ CHR 0x22 # x)
        = escape_char d @ (concat (map escape_char ds) @ CHR 0x22 # y)"
      using Cons.prems Cons by simp
    from escape_char_code [OF this] have "c = d"
      "concat (map escape_char s) @ CHR 0x22 # x = concat (map escape_char ds) @ CHR 0x22 # y" by auto
    then show ?thesis using Cons.IH [of ds] Cons by simp
  qed
qed

lemma quote_string_code: "quote_string s @ x = quote_string t @ y \<Longrightarrow> s = t \<and> x = y"
  using escape_string_code [of s x t y] by (simp add: quote_string_def)

text \<open>Numbers.\<close>

lemma is_digit_char: "(n :: nat) < 10 \<Longrightarrow> is_digit (char_of (48 + n))"
  by (simp add: is_digit_def of_char_of)

lemma show_nat_digits: "list_all is_digit (show_nat n)"
proof (induction n rule: show_nat.induct)
  case (1 n)
  then show ?case by (subst show_nat.simps) (simp add: is_digit_char)
qed

lemma digits_value_snoc: "digits_value (s @ [c]) = 10 * digits_value s + (of_char c - 48)"
  by (simp add: digits_value_def)

lemma digits_value_show: "digits_value (show_nat n) = n"
proof (induction n rule: show_nat.induct)
  case (1 n)
  show ?case
  proof (cases "n < 10")
    case True
    then show ?thesis by (subst show_nat.simps) (simp add: digits_value_def of_char_of)
  next
    case False
    then show ?thesis using 1 by (subst show_nat.simps) (simp add: digits_value_snoc of_char_of)
  qed
qed

definition ends_value :: "string \<Rightarrow> bool" where
  "ends_value r \<longleftrightarrow> r = [] \<or> hd r \<in> {CHR '','', CHR '']'', CHR 0x7D}"

lemma ends_value_not_digit: "ends_value (c # r) \<Longrightarrow> \<not> is_digit c"
  by (auto simp: ends_value_def is_digit_def)

lemma digits_code:
  "list_all is_digit a \<Longrightarrow> list_all is_digit b \<Longrightarrow> ends_value x \<Longrightarrow> ends_value y \<Longrightarrow> a @ x = b @ y \<Longrightarrow>
   a = b \<and> x = y"
proof (induction a arbitrary: b)
  case Nil
  then show ?case
    by (cases b; cases x) (auto dest: ends_value_not_digit)
next
  case (Cons c a)
  then show ?case
    by (cases b) (auto dest: ends_value_not_digit)
qed

lemma minus_not_digit: "\<not> is_digit (CHR ''-'')"
  by (simp add: is_digit_def)

lemma show_nat_head: "is_digit (hd (show_nat n))"
  using show_nat_digits [of n] show_nat_nonempty [of n] by (cases "show_nat n") auto

lemma show_nat_inj: "show_nat a = show_nat b \<Longrightarrow> a = b"
  by (metis digits_value_show)

lemma show_int_code:
  assumes "ends_value x" "ends_value y" "show_int a @ x = show_int b @ y"
  shows "a = b \<and> x = y"
proof -
  have hd: "show_nat n @ r \<noteq> CHR ''-'' # q" for n r q
    using show_nat_head [of n] show_nat_nonempty [of n] minus_not_digit
    by (cases "show_nat n") auto
  have d: "show_nat m @ x = show_nat n @ y \<Longrightarrow> m = n \<and> x = y" for m n
    using digits_code [OF show_nat_digits show_nat_digits assms(1,2)] show_nat_inj by blast
  consider "a < 0" "b < 0" | "0 \<le> a" "0 \<le> b" | "a < 0" "0 \<le> b" | "0 \<le> a" "b < 0" by linarith
  then show ?thesis
  proof cases
    case 1
    then have "show_nat (nat (- a)) @ x = show_nat (nat (- b)) @ y"
      using assms(3) by (simp add: show_int_def)
    from d [OF this] 1 show ?thesis by (auto simp: eq_nat_nat_iff)
  next
    case 2
    then have "show_nat (nat a) @ x = show_nat (nat b) @ y"
      using assms(3) by (simp add: show_int_def)
    from d [OF this] 2 show ?thesis by (auto simp: eq_nat_nat_iff)
  next
    case 3
    then show ?thesis using assms(3) hd [of "nat b" y "show_nat (nat (- a)) @ x"]
      by (simp add: show_int_def)
  next
    case 4
    then show ?thesis using assms(3) hd [of "nat a" x "show_nat (nat (- b)) @ y"]
      by (simp add: show_int_def)
  qed
qed

text \<open>Values in sequence.\<close>

lemma join_Cons: "join '','' (x # xs) @ z = x @ (if xs = [] then z else CHR '','' # join '','' xs @ z)"
  by (cases xs) auto

definition starts_value :: "string \<Rightarrow> bool" where
  "starts_value s \<longleftrightarrow> s \<noteq> [] \<and> hd s \<notin> {CHR '','', CHR '']'', CHR 0x7D}"

lemma join_code:
  assumes e: "e \<in> {CHR '']'', CHR 0x7D}"
    and code: "\<And>a b x y. a \<in> set xs \<Longrightarrow> ends_value x \<Longrightarrow> ends_value y \<Longrightarrow> f a @ x = f b @ y \<Longrightarrow> a = b \<and> x = y"
    and starts: "\<And>a. starts_value (f a)"
  shows "join '','' (map f xs) @ e # x = join '','' (map f ys) @ e # y \<Longrightarrow> xs = ys \<and> x = y"
  using code
proof (induction xs arbitrary: ys)
  case Nil
  show ?case
  proof (cases ys)
    case (Cons b bs)
    then have "hd (f b) = e" "f b \<noteq> []" using Nil.prems(1) starts [of b]
      by (cases "f b"; auto simp: join_Cons starts_value_def)+
    then show ?thesis using starts [of b] e by (auto simp: starts_value_def)
  qed (use Nil.prems(1) in simp)
next
  case (Cons a as)
  show ?case
  proof (cases ys)
    case Nil
    then have "hd (f a) = e" using Cons.prems(1) starts [of a]
      by (cases "f a") (auto simp: join_Cons starts_value_def)
    then show ?thesis using starts [of a] e by (auto simp: starts_value_def)
  next
    case ys: (Cons b bs)
    let ?R = "if as = [] then e # x else CHR '','' # join '','' (map f as) @ e # x"
    let ?S = "if bs = [] then e # y else CHR '','' # join '','' (map f bs) @ e # y"
    have eq: "f a @ ?R = f b @ ?S" using Cons.prems(1) ys by (simp add: join_Cons split: if_splits)
    have "ends_value ?R" "ends_value ?S" using e by (auto simp: ends_value_def)
    from Cons.prems(2) [OF _ this eq] have ab: "a = b" "?R = ?S" by auto
    have ne: "e \<noteq> CHR '',''" using e by auto
    show ?thesis
    proof (cases "as = []")
      case True
      then have "bs = []" "x = y" using ab(2) ne by (auto split: if_splits)
      then show ?thesis using ab(1) True ys by simp
    next
      case False
      then have "bs \<noteq> []" using ab(2) ne by (auto split: if_splits)
      then have "join '','' (map f as) @ e # x = join '','' (map f bs) @ e # y" using ab(2) False by simp
      then have "as = bs \<and> x = y"
      proof (rule Cons.IH)
        fix a' b x y
        assume "a' \<in> set as" "ends_value x" "ends_value y" "f a' @ x = f b @ y"
        then show "a' = b \<and> x = y" using Cons.prems(2) [of a' x y b] by simp
      qed
      then show ?thesis using ab(1) ys by simp
    qed
  qed
qed

lemma show_int_head: "show_int n \<noteq> [] \<and> (is_digit (hd (show_int n)) \<or> hd (show_int n) = CHR ''-'')"
  using show_nat_head show_nat_nonempty by (auto simp: show_int_def)

definition value_kind :: "char \<Rightarrow> nat" where
  "value_kind c = (if c = CHR ''n'' then 0 else if c = CHR ''t'' then 1 else if c = CHR ''f'' then 2
     else if is_digit c \<or> c = CHR ''-'' then 3 else if c = CHR 0x22 then 4
     else if c = CHR ''['' then 5 else if c = CHR 0x7B then 6 else 7)"

fun json_kind :: "json \<Rightarrow> nat" where
  "json_kind JNull = 0" | "json_kind (JBool b) = (if b then 1 else 2)" | "json_kind (JNum n) = 3"
| "json_kind (JStr s) = 4" | "json_kind (JArr xs) = 5" | "json_kind (JObj kvs) = 6"

lemma value_kind_number: "is_digit c \<or> c = CHR ''-'' \<Longrightarrow> value_kind c = 3"
  by (auto simp: value_kind_def is_digit_def)

lemma stringify_head:
  "json_stringify v \<noteq> [] \<and> value_kind (hd (json_stringify v)) = json_kind v"
proof (cases v)
  case (JNum n)
  then show ?thesis using show_int_head [of n] value_kind_number by simp
qed (auto simp: value_kind_def quote_string_def is_digit_def)

lemma stringify_kind:
  "json_stringify a @ x = json_stringify b @ y \<Longrightarrow> json_kind a = json_kind b"
  using stringify_head [of a] stringify_head [of b] by (metis hd_append2)

lemma json_kind_0: "json_kind b = 0 \<Longrightarrow> b = JNull"
  by (cases b) (simp_all split: if_splits)

lemma json_kind_1: "json_kind b = 1 \<Longrightarrow> b = JBool True"
  by (cases b) (simp_all split: if_splits)

lemma json_kind_2: "json_kind b = 2 \<Longrightarrow> b = JBool False"
  by (cases b) (simp_all split: if_splits)

lemma json_kind_3: "json_kind b = 3 \<Longrightarrow> \<exists>n. b = JNum n"
  by (cases b) (simp_all split: if_splits)

lemma json_kind_4: "json_kind b = 4 \<Longrightarrow> \<exists>s. b = JStr s"
  by (cases b) (simp_all split: if_splits)

lemma json_kind_5: "json_kind b = 5 \<Longrightarrow> \<exists>xs. b = JArr xs"
  by (cases b) (simp_all split: if_splits)

lemma json_kind_6: "json_kind b = 6 \<Longrightarrow> \<exists>kvs. b = JObj kvs"
  by (cases b) (simp_all split: if_splits)

lemma stringify_starts: "starts_value (json_stringify v)"
proof -
  have "value_kind (CHR '','') = 7" "value_kind (CHR '']'') = 7" "value_kind (CHR 0x7D) = 7"
    by (simp_all add: value_kind_def is_digit_def)
  moreover have "json_kind v \<noteq> 7" by (cases v) auto
  ultimately show ?thesis using stringify_head [of v] by (auto simp: starts_value_def)
qed

lemma json_stringify_code:
  "ends_value x \<Longrightarrow> ends_value y \<Longrightarrow> json_stringify a @ x = json_stringify b @ y \<Longrightarrow> a = b \<and> x = y"
proof (induction a arbitrary: b x y rule: json_stringify.induct)
  case (1 b)
  have "json_kind b = 0" using stringify_kind [OF 1(3)] by simp
  then have "b = JNull" by (rule json_kind_0)
  then show ?case using 1(3) by simp
next
  case (2 t b)
  have k: "json_kind b = (if t then 1 else 2)" using stringify_kind [OF 2(3)] by simp
  have "b = JBool t"
  proof (cases t)
    case True
    then show ?thesis using json_kind_1 [of b] k by simp
  next
    case False
    then show ?thesis using json_kind_2 [of b] k by simp
  qed
  then show ?case using 2(3) by simp
next
  case (3 n b)
  have "json_kind b = 3" using stringify_kind [OF 3(3)] by simp
  then obtain m where b: "b = JNum m" using json_kind_3 by blast
  then have "show_int n @ x = show_int m @ y" using 3(3) by simp
  from show_int_code [OF 3(1,2) this] b show ?case by simp
next
  case (4 s b)
  have "json_kind b = 4" using stringify_kind [OF 4(3)] by simp
  then obtain t where b: "b = JStr t" using json_kind_4 by blast
  then have "quote_string s @ x = quote_string t @ y" using 4(3) by simp
  from quote_string_code [OF this] b show ?case by simp
next
  case (5 xs b)
  have "json_kind b = 5" using stringify_kind [OF 5(4)] by simp
  then obtain ys where b: "b = JArr ys" using json_kind_5 by blast
  have eq: "join '','' (map json_stringify xs) @ CHR '']'' # x = join '','' (map json_stringify ys) @ CHR '']'' # y"
    using 5(4) b by simp
  have "xs = ys \<and> x = y"
  proof (rule join_code [OF _ _ _ eq])
    fix a b x y
    assume "a \<in> set xs" "ends_value x" "ends_value y" "json_stringify a @ x = json_stringify b @ y"
    then show "a = b \<and> x = y" by (rule 5(1))
  qed (simp_all add: stringify_starts)
  then show ?case using b by simp
next
  case (6 kvs b)
  let ?f = "\<lambda>(k, v). quote_string k @ '':'' @ json_stringify v"
  have "json_kind b = 6" using stringify_kind [OF 6(4)] by simp
  then obtain ls where b: "b = JObj ls" using json_kind_6 by blast
  have eq: "join '','' (map ?f kvs) @ CHR 0x7D # x = join '','' (map ?f ls) @ CHR 0x7D # y"
    using 6(4) b by simp
  have "kvs = ls \<and> x = y"
  proof (rule join_code [OF _ _ _ eq])
    fix p q r t
    assume p: "p \<in> set kvs" and ends: "ends_value r" "ends_value t" and pq: "?f p @ r = ?f q @ t"
    obtain k v where kv: "p = (k, v)" by force
    obtain l w where lw: "q = (l, w)" by force
    have "quote_string k @ ('':'' @ json_stringify v @ r) = quote_string l @ ('':'' @ json_stringify w @ t)"
      using pq kv lw by simp
    from quote_string_code [OF this] have kl: "k = l" "json_stringify v @ r = json_stringify w @ t" by auto
    from 6(1) [OF p kv [symmetric] ends kl(2)] show "p = q \<and> r = t" using kl(1) kv lw by simp
  qed (auto simp: starts_value_def quote_string_def)
  then show ?case using b by simp
qed

lemma json_stringify_inj: "json_stringify a = json_stringify b \<longleftrightarrow> a = b"
  using json_stringify_code [of "[]" "[]" a b] by (auto simp: ends_value_def)

end
