(* ===== verification/CacheKey.thy ===== *)
theory CacheKey
  imports Json "HOL-Library.Multiset"
begin

text \<open>
  Cache keys, \<open>src/src/cache/key.ts\<close>: the canonical text of the arguments, its hash, and the
  textual form of a key. \<open>sha\<close> is the hexadecimal SHA-256 of \<open>node:crypto\<close>, a parameter. Keys of
  objects are sorted by code unit; on the characters 0x80 to 0x9F the order is that of this
  development's code page.
\<close>

fun sortObjectKeys :: "json \<Rightarrow> json" where
  "sortObjectKeys (JArr xs) = JArr (map sortObjectKeys xs)"
| "sortObjectKeys (JObj kvs) =
     JObj (own_properties (sort_key fst (map (\<lambda>(k, v). (k, sortObjectKeys v)) kvs)))"
| "sortObjectKeys v = v"

definition stableJsonStringify :: "json \<Rightarrow> string" where
  "stableJsonStringify v = json_stringify (sortObjectKeys v)"

definition hashArgs :: "(string \<Rightarrow> string) \<Rightarrow> json option \<Rightarrow> string" where
  "hashArgs sha args =
     sha (stableJsonStringify (case args of None \<Rightarrow> JObj [] | Some JNull \<Rightarrow> JObj [] | Some v \<Rightarrow> v))"

record cache_key =
  ck_server :: string
  ck_tool :: string
  argsHash :: string

definition buildCacheKey :: "(string \<Rightarrow> string) \<Rightarrow> string \<Rightarrow> string \<Rightarrow> json option \<Rightarrow> cache_key" where
  "buildCacheKey sha server tool args =
     \<lparr>ck_server = server, ck_tool = tool, argsHash = hashArgs sha args\<rparr>"

definition cacheKeyToString :: "cache_key \<Rightarrow> string" where
  "cacheKeyToString k = ck_server k @ '':'' @ ck_tool k @ '':'' @ argsHash k"

definition parseCacheKey :: "string \<Rightarrow> cache_key option" where
  "parseCacheKey str =
     (case js_index_of str '':'' of
        None \<Rightarrow> None
      | Some firstColon \<Rightarrow>
          (case last_char_index (CHR '':'') str of
             None \<Rightarrow> None
           | Some hashStart \<Rightarrow>
               (if hashStart \<le> firstColon then None
                else (let server = take firstColon str;
                          tool = take (hashStart - (firstColon + 1)) (drop (firstColon + 1) str);
                          h = drop (hashStart + 1) str
                      in if server = [] \<or> tool = [] \<or> length h \<noteq> 64 then None
                         else Some \<lparr>ck_server = server, ck_tool = tool, argsHash = h\<rparr>))))"

subsection \<open>Arguments that mean the same\<close>

text \<open>
  Two JSON values are the same when they differ only in the order of the properties of their
  objects, at any depth.
\<close>

lemma size_map_of [termination_simp]:
  "map_of kvs k = Some v \<Longrightarrow> size v < Suc (size_list (size_prod f size) kvs)"
  by (rule size_member) (rule map_of_SomeD)

fun json_same :: "json \<Rightarrow> json \<Rightarrow> bool" where
  "json_same (JArr xs) (JArr ys) \<longleftrightarrow>
     length xs = length ys \<and> (\<forall>i \<in> {..<length xs}. json_same (xs ! i) (ys ! i))"
| "json_same (JObj kvs) (JObj ls) \<longleftrightarrow>
     (\<forall>k. (map_of kvs k = None \<longleftrightarrow> map_of ls k = None)) \<and>
     (\<forall>(k, v) \<in> set kvs. \<forall>w. map_of ls k = Some w \<longrightarrow> json_same v w)"
| "json_same a b \<longleftrightarrow> a = b"

text \<open>Values as \<open>JSON.parse\<close> makes them: no key twice, and none that is lost on assignment.\<close>

fun json_plain :: "json \<Rightarrow> bool" where
  "json_plain (JArr xs) = (\<forall>x \<in> set xs. json_plain x)"
| "json_plain (JObj kvs) =
     (distinct (map fst kvs) \<and> ''__proto__'' \<notin> fst ` set kvs \<and> (\<forall>(k, v) \<in> set kvs. json_plain v))"
| "json_plain v = True"

lemma sorted_same:
  assumes "distinct (map fst xs)" "distinct (map fst ys)" "set xs = set (ys :: (string \<times> 'a) list)"
  shows "sort_key fst xs = sort_key fst ys"
proof (rule map_sorted_distinct_set_unique)
  show "inj_on fst (set (sort_key fst xs) \<union> set (sort_key fst ys))"
    using assms by (simp add: distinct_map)
  have d: "distinct (map fst (sort_key fst zs))" if "distinct (map fst zs)" for zs :: "(string \<times> 'a) list"
  proof -
    have "mset (map fst (sort_key fst zs)) = mset (map fst zs)" by simp
    then show ?thesis using that by (metis mset_eq_imp_distinct_iff)
  qed
  show "distinct (map fst (sort_key fst xs))" "distinct (map fst (sort_key fst ys))"
    using d assms by auto
qed (use assms in auto)

lemma map_of_values: "map_of (map (\<lambda>(k, v). (k, f v)) kvs) k = map_option f (map_of kvs k)"
  by (induction kvs) auto

lemma keys_values: "map fst (map (\<lambda>(k, v). (k, f v)) kvs) = map fst kvs"
  by (induction kvs) auto

lemma plain_own:
  assumes "''__proto__'' \<notin> fst ` set kvs"
  shows "set (own_properties (sort_key fst (map (\<lambda>(k, v). (k, f v)) kvs))) = set (map (\<lambda>(k, v). (k, f v)) kvs)"
  using assms by (force simp: set_own_properties)

lemma same_objects:
  assumes "json_plain (JObj kvs)" "json_plain (JObj ls)"
  shows "sortObjectKeys (JObj kvs) = sortObjectKeys (JObj ls) \<longleftrightarrow>
    (\<forall>k. map_option sortObjectKeys (map_of kvs k) = map_option sortObjectKeys (map_of ls k))"
proof -
  let ?f = "map (\<lambda>(k, v). (k, sortObjectKeys v))"
  have d: "distinct (map fst (?f kvs))" "distinct (map fst (?f ls))"
    using assms by (simp_all only: keys_values json_plain.simps)
  have "sortObjectKeys (JObj kvs) = sortObjectKeys (JObj ls) \<longleftrightarrow> set (?f kvs) = set (?f ls)"
  proof
    assume "sortObjectKeys (JObj kvs) = sortObjectKeys (JObj ls)"
    then have "set (own_properties (sort_key fst (?f kvs))) = set (own_properties (sort_key fst (?f ls)))"
      by simp
    then show "set (?f kvs) = set (?f ls)" using assms plain_own by (metis json_plain.simps(2))
  next
    assume "set (?f kvs) = set (?f ls)"
    from sorted_same [OF d this] show "sortObjectKeys (JObj kvs) = sortObjectKeys (JObj ls)" by simp
  qed
  also have "\<dots> \<longleftrightarrow> map_of (?f kvs) = map_of (?f ls)" by (rule map_of_inject_set [OF d, symmetric])
  finally show ?thesis by (simp add: fun_eq_iff map_of_values)
qed

lemma sortObjectKeys_same:
  "json_plain a \<Longrightarrow> json_plain b \<Longrightarrow> sortObjectKeys a = sortObjectKeys b \<longleftrightarrow> json_same a b"
proof (induction a b rule: json_same.induct)
  case (1 xs ys)
  have "map sortObjectKeys xs = map sortObjectKeys ys \<longleftrightarrow>
      length xs = length ys \<and> (\<forall>i < length xs. sortObjectKeys (xs ! i) = sortObjectKeys (ys ! i))"
    by (auto simp: list_eq_iff_nth_eq)
  also have "\<dots> \<longleftrightarrow> length xs = length ys \<and> (\<forall>i < length xs. json_same (xs ! i) (ys ! i))"
    using 1 by auto
  finally show ?case by auto
next
  case (2 kvs ls)
  have d: "distinct (map fst kvs)" using 2(2) by simp
  have "map_option sortObjectKeys (map_of kvs k) = map_option sortObjectKeys (map_of ls k) \<longleftrightarrow>
      (map_of kvs k = None \<longleftrightarrow> map_of ls k = None)
      \<and> (\<forall>v w. map_of kvs k = Some v \<longrightarrow> map_of ls k = Some w \<longrightarrow> json_same v w)" for k
  proof (cases "map_of kvs k")
    case (Some v)
    show ?thesis
    proof (cases "map_of ls k")
      case w: (Some w)
      have kv: "(k, v) \<in> set kvs" and lw: "(k, w) \<in> set ls" using Some w map_of_SomeD by fast+
      have "json_plain v" "json_plain w" using 2(2,3) kv lw by auto
      then have "sortObjectKeys v = sortObjectKeys w \<longleftrightarrow> json_same v w"
        using 2(1) [OF kv refl w] by blast
      then show ?thesis using Some w by simp
    qed (use Some in simp)
  qed (cases "map_of ls k"; simp)
  then have "sortObjectKeys (JObj kvs) = sortObjectKeys (JObj ls) \<longleftrightarrow>
      (\<forall>k. (map_of kvs k = None \<longleftrightarrow> map_of ls k = None)
        \<and> (\<forall>v w. map_of kvs k = Some v \<longrightarrow> map_of ls k = Some w \<longrightarrow> json_same v w))"
    using same_objects [OF 2(2,3)] by simp
  also have "\<dots> \<longleftrightarrow> json_same (JObj kvs) (JObj ls)"
    using d by (fastforce simp: map_of_eq_Some_iff)
  finally show ?case .
qed (case_tac b; simp; fail | case_tac a; simp; fail | simp)+

text \<open>The text that is hashed identifies the arguments exactly: two argument values have the same
  canonical text if and only if they differ only in the order of object properties, at any
  depth. So the order in which a caller writes its properties never splits a cache entry, and
  different arguments are never merged by the text.\<close>

theorem canonical_text_identifies_args:
  assumes "json_plain a" and "json_plain b"
  shows "stableJsonStringify a = stableJsonStringify b \<longleftrightarrow> json_same a b"
  using sortObjectKeys_same [OF assms] by (simp add: stableJsonStringify_def json_stringify_inj)

theorem canonical_text_identifies_args_witness:
  "stableJsonStringify (JObj [(''b'', JArr [JNum 2]), (''a'', JStr ''x'')])
   = stableJsonStringify (JObj [(''a'', JStr ''x''), (''b'', JArr [JNum 2])])"
  by (rule canonical_text_identifies_args [THEN iffD2]) auto

text \<open>A property named \<open>__proto__\<close>, which \<open>JSON.parse\<close> makes like any other, is lost: arguments
  that differ in it alone share their hash.\<close>

lemma proto_args_collide:
  "hashArgs sha (Some (JObj [(''__proto__'', JObj [(''role'', JStr ''admin'')])])) = hashArgs sha (Some (JObj []))"
  by (simp add: hashArgs_def stableJsonStringify_def own_properties_def)

subsection \<open>The textual form of a key\<close>

lemma index_split: "js_index_of s [c] = Some i \<Longrightarrow> \<exists>b. s = take i s @ c # b \<and> c \<notin> set (take i s) \<and> length (take i s) = i"
proof (induction s arbitrary: i)
  case (Cons d s)
  show ?case
  proof (cases "d = c")
    case True
    then show ?thesis using Cons.prems by simp
  next
    case False
    then obtain j where j: "js_index_of s [c] = Some j" "i = Suc j" using Cons.prems by auto
    from Cons.IH [OF j(1)] j(2) False show ?thesis by auto
  qed
qed simp

lemma last_index_split:
  "last_char_index c s = Some i \<Longrightarrow> \<exists>b. s = take i s @ c # b \<and> c \<notin> set b \<and> length (take i s) = i"
proof (induction s arbitrary: i)
  case (Cons d s)
  show ?case
  proof (cases "last_char_index c s")
    case None
    then have "d = c" "i = 0" using Cons.prems by (auto split: if_splits)
    then show ?thesis using None by (simp add: last_char_index_None)
  next
    case (Some j)
    then have "i = Suc j" using Cons.prems by simp
    with Cons.IH [OF Some] show ?thesis by auto
  qed
qed simp

lemma drop_past: "length p = n \<Longrightarrow> drop (n + 1) (p @ c # r) = r"
  by auto

lemma drop_within: "n \<le> length p \<Longrightarrow> drop n (p @ r) = drop n p @ r"
  by simp

text \<open>The textual form of a key can be read back, and nothing else can: a text is read as a key
  exactly when it is the key's textual form, the server name is not empty and has no colon, the
  tool name is not empty (it may have colons), and the hash has 64 characters and no colon.\<close>

theorem cache_key_roundtrip:
  "parseCacheKey str = Some k \<longleftrightarrow>
     str = cacheKeyToString k \<and> ck_server k \<noteq> [] \<and> CHR '':'' \<notin> set (ck_server k) \<and> ck_tool k \<noteq> []
     \<and> length (argsHash k) = 64 \<and> CHR '':'' \<notin> set (argsHash k)"
proof
  assume p: "parseCacheKey str = Some k"
  then obtain i j where ij: "js_index_of str '':'' = Some i" "last_char_index (CHR '':'') str = Some j"
    "i < j" and k: "k = \<lparr>ck_server = take i str, ck_tool = take (j - (i + 1)) (drop (i + 1) str),
      argsHash = drop (j + 1) str\<rparr>"
    and ne: "take i str \<noteq> []" "take (j - (i + 1)) (drop (i + 1) str) \<noteq> []" "length (drop (j + 1) str) = 64"
    by (auto simp: parseCacheKey_def Let_def split: option.splits if_splits)
  from index_split [OF ij(1)] obtain b where b: "str = take i str @ CHR '':'' # b"
    "CHR '':'' \<notin> set (take i str)" "length (take i str) = i" by blast
  from last_index_split [OF ij(2)] obtain h where h: "str = take j str @ CHR '':'' # h"
    "CHR '':'' \<notin> set h" "length (take j str) = j" by blast
  have drop_h: "drop (j + 1) str = h" using drop_past [OF h(3), of _ h] h(1) by metis
  have drop_b: "drop (i + 1) str = b" using drop_past [OF b(3), of _ b] b(1) by metis
  have "take (j - (i + 1)) b @ CHR '':'' # h = b"
  proof -
    have "drop (i + 1) str = drop (i + 1) (take j str) @ CHR '':'' # h"
      using drop_within [of "i + 1" "take j str" "CHR '':'' # h"] ij(3) h(1,3) by simp
    moreover have "drop (i + 1) (take j str) = take (j - (i + 1)) b"
      using drop_b by (simp add: drop_take)
    ultimately show ?thesis using drop_b by simp
  qed
  then have "str = take i str @ '':'' @ take (j - (i + 1)) b @ '':'' @ h" using b(1) by simp
  then show "str = cacheKeyToString k \<and> ck_server k \<noteq> [] \<and> CHR '':'' \<notin> set (ck_server k) \<and> ck_tool k \<noteq> []
     \<and> length (argsHash k) = 64 \<and> CHR '':'' \<notin> set (argsHash k)"
    using k ne(1) ne(2,3) [unfolded drop_h drop_b] b(2) h(2)
    by (simp only: drop_h drop_b) (simp add: cacheKeyToString_def)
next
  assume a: "str = cacheKeyToString k \<and> ck_server k \<noteq> [] \<and> CHR '':'' \<notin> set (ck_server k) \<and> ck_tool k \<noteq> []
     \<and> length (argsHash k) = 64 \<and> CHR '':'' \<notin> set (argsHash k)"
  let ?s = "ck_server k" and ?t = "ck_tool k" and ?h = "argsHash k"
  have str: "str = ?s @ CHR '':'' # ?t @ CHR '':'' # ?h" using a by (simp add: cacheKeyToString_def)
  have i: "js_index_of str '':'' = Some (length ?s)"
    unfolding str using a by (intro js_index_of_first) simp
  have j: "last_char_index (CHR '':'') str = Some (length ?s + 1 + length ?t)"
    using last_char_index_snoc [of "CHR '':''" ?h "?s @ CHR '':'' # ?t"] a by (simp add: str)
  have "?s \<noteq> []" "?t \<noteq> []" "length ?h = 64" using a by simp_all
  then show "parseCacheKey str = Some k"
    unfolding parseCacheKey_def i j by (simp add: Let_def str)
qed

end
