(* ===== verification/Registry.thy ===== *)
theory Registry
  imports Retry Json
begin

text \<open>
  The tool registry: \<open>src/src/registry/registry.ts\<close>, \<open>events.ts\<close>, \<open>snapshot.ts\<close> and the decision
  part of \<open>validator.ts\<close>. What a backend answers to \<open>getServerTools\<close> is an argument of the
  operations (\<open>None\<close> when the call throws), and \<open>ajv.validate\<close> is a parameter. A snapshot file is
  the value that was written; \<open>None\<close> stands for a file that is missing or no JSON object.
\<close>

subsection \<open>Tools\<close>

record tool_definition =
  td_server :: string
  td_name :: string
  description :: string
  inputSchema :: json
  outputSchema :: "json option"
  td_cost :: "string option"
  cacheable :: "bool option"
  cacheTtl :: "int option"
  reliability :: "profile_override option"
  routing :: "string option"
  redact :: "string list option"
  examples :: "json option"

text \<open>A tool as the backend describes it.\<close>

record raw_tool =
  raw_name :: string
  raw_description :: "string option"
  raw_inputSchema :: "json option"
  raw_outputSchema :: "json option"

text \<open>The argument of \<open>annotate\<close>: \<open>None\<close> is a field that is absent, \<open>Some None\<close> one that is
  present with the value \<open>undefined\<close>.\<close>

record tool_metadata =
  md_cost :: "string option option"
  md_cacheable :: "bool option option"
  md_cacheTtl :: "int option option"
  md_reliability :: "profile_override option option"
  md_routing :: "string option option"
  md_redact :: "string list option option"
  md_examples :: "json option option"

definition no_metadata :: tool_metadata where
  "no_metadata = \<lparr>md_cost = None, md_cacheable = None, md_cacheTtl = None, md_reliability = None,
     md_routing = None, md_redact = None, md_examples = None\<rparr>"

subsection \<open>Events\<close>

datatype registry_event_type =
    ToolAdded | ToolRemoved | ToolUpdated | ServerConnected | ServerDisconnected

record registry_event =
  ev_type :: registry_event_type
  ev_server :: string
  ev_tool :: "string option"
  ev_before :: "tool_definition option"
  ev_after :: "tool_definition option"
  ev_at :: time

text \<open>
  The registry: its catalog, whether it validates, the listeners in the order they subscribed, and
  the calls that were made to them.
\<close>

record registry =
  catalog :: "(string, tool_definition) jsmap"
  validateInputs :: bool
  listeners :: "nat list"
  delivered :: "(nat \<times> registry_event) list"

definition new_registry :: "bool option \<Rightarrow> registry" where
  "new_registry v = \<lparr>catalog = [], validateInputs = nullish v True, listeners = [], delivered = []\<rparr>"

definition registry_key :: "string \<Rightarrow> string \<Rightarrow> string" where
  "registry_key server name = server @ ''/'' @ name"

definition reg_emit :: "registry_event \<Rightarrow> registry \<Rightarrow> registry" where
  "reg_emit ev r = r\<lparr>delivered := delivered r @ map (\<lambda>l. (l, ev)) (listeners r)\<rparr>"

definition watch :: "nat \<Rightarrow> registry \<Rightarrow> registry" where
  "watch l r = r\<lparr>listeners := listeners r @ [l]\<rparr>"

text \<open>\<open>off\<close> removes the listener that was added last.\<close>

definition unwatch :: "nat \<Rightarrow> registry \<Rightarrow> registry" where
  "unwatch l r = r\<lparr>listeners := rev (remove1 l (rev (listeners r)))\<rparr>"

subsection \<open>Refresh\<close>

definition keep_annotations :: "tool_definition \<Rightarrow> tool_definition \<Rightarrow> tool_definition" where
  "keep_annotations existing def =
     def\<lparr>td_cost := td_cost existing, cacheable := cacheable existing, cacheTtl := cacheTtl existing,
       reliability := reliability existing, routing := routing existing, redact := redact existing,
       examples := examples existing\<rparr>"

definition raw_definition :: "string \<Rightarrow> raw_tool \<Rightarrow> tool_definition" where
  "raw_definition server raw =
     \<lparr>td_server = server, td_name = raw_name raw, description = nullish (raw_description raw) [],
      inputSchema = nullish (raw_inputSchema raw) (JObj []), outputSchema = raw_outputSchema raw,
      td_cost = None, cacheable = None, cacheTtl = None, reliability = None, routing = None,
      redact = None, examples = None\<rparr>"

definition tool_from_raw :: "registry \<Rightarrow> string \<Rightarrow> raw_tool \<Rightarrow> tool_definition" where
  "tool_from_raw r server raw =
     (case map_of (catalog r) (registry_key server (raw_name raw)) of
        None \<Rightarrow> raw_definition server raw
      | Some existing \<Rightarrow> keep_annotations existing (raw_definition server raw))"

definition incoming_tools :: "registry \<Rightarrow> string \<Rightarrow> raw_tool list \<Rightarrow> (string, tool_definition) jsmap" where
  "incoming_tools r server raws =
     foldl (\<lambda>m raw. AList.update (registry_key server (raw_name raw)) (tool_from_raw r server raw) m) [] raws"

definition remove_missing ::
    "time \<Rightarrow> string \<Rightarrow> (string, tool_definition) jsmap \<Rightarrow> registry \<Rightarrow> string \<Rightarrow> registry" where
  "remove_missing now server incoming r k =
     (if js_has incoming k then r
      else (case map_of (catalog r) k of
              None \<Rightarrow> r
            | Some before \<Rightarrow>
                reg_emit \<lparr>ev_type = ToolRemoved, ev_server = server, ev_tool = Some (td_name before),
                    ev_before = Some before, ev_after = None, ev_at = now\<rparr>
                  (r\<lparr>catalog := AList.delete k (catalog r)\<rparr>)))"

definition take_incoming ::
    "time \<Rightarrow> string \<Rightarrow> registry \<Rightarrow> string \<times> tool_definition \<Rightarrow> registry" where
  "take_incoming now server r = (\<lambda>(k, def).
     (let r' = r\<lparr>catalog := AList.update k def (catalog r)\<rparr> in
      case map_of (catalog r) k of
        None \<Rightarrow>
          reg_emit \<lparr>ev_type = ToolAdded, ev_server = server, ev_tool = Some (td_name def),
              ev_before = None, ev_after = Some def, ev_at = now\<rparr> r'
      | Some existing \<Rightarrow>
          (if description existing \<noteq> description def
              \<or> json_stringify (inputSchema existing) \<noteq> json_stringify (inputSchema def)
           then reg_emit \<lparr>ev_type = ToolUpdated, ev_server = server, ev_tool = Some (td_name def),
                  ev_before = Some existing, ev_after = Some def, ev_at = now\<rparr> r'
           else r')))"

definition refreshServer :: "time \<Rightarrow> string \<Rightarrow> raw_tool list option \<Rightarrow> registry \<Rightarrow> registry" where
  "refreshServer now server answer r =
     (case answer of
        None \<Rightarrow> r
      | Some raws \<Rightarrow>
          (let incoming = incoming_tools r server raws;
               currentKeys = filter (prefix (server @ ''/'')) (js_keys (catalog r));
               r1 = foldl (remove_missing now server incoming) r currentKeys;
               r2 = foldl (take_incoming now server) r1 incoming
           in reg_emit \<lparr>ev_type = ServerConnected, ev_server = server, ev_tool = None,
                ev_before = None, ev_after = None, ev_at = now\<rparr> r2))"

text \<open>\<open>refresh\<close>: every server that is connected, in the order \<open>listServers\<close> gives.\<close>

definition registry_refresh ::
    "time \<Rightarrow> (string \<times> string) list \<Rightarrow> (string \<Rightarrow> raw_tool list option) \<Rightarrow> registry \<Rightarrow> registry" where
  "registry_refresh now servers answers r =
     foldl (\<lambda>r (name, status). if status = ''connected'' then refreshServer now name (answers name) r else r)
       r servers"

definition onDisconnect :: "time \<Rightarrow> string \<Rightarrow> registry \<Rightarrow> registry" where
  "onDisconnect now server r =
     reg_emit \<lparr>ev_type = ServerDisconnected, ev_server = server, ev_tool = None, ev_before = None,
       ev_after = None, ev_at = now\<rparr> r"

subsection \<open>Lookup, validation, annotations\<close>

definition getTool :: "string \<Rightarrow> string \<Rightarrow> registry \<Rightarrow> tool_definition option" where
  "getTool server name r = map_of (catalog r) (registry_key server name)"

definition getAllTools :: "registry \<Rightarrow> tool_definition list" where
  "getAllTools r = map snd (catalog r)"

definition getServerTools :: "string \<Rightarrow> registry \<Rightarrow> tool_definition list" where
  "getServerTools server r = filter (\<lambda>t. td_server t = server) (getAllTools r)"

definition uniqueServerNames :: "registry \<Rightarrow> string list" where
  "uniqueServerNames r = rev (remdups (rev (map td_server (getAllTools r))))"

text \<open>A result is \<open>None\<close> when the arguments are valid, else the list of path and message.\<close>

type_synonym validation = "(string \<times> string) list option"

definition validateAgainstSchema ::
    "(json \<Rightarrow> 'a \<Rightarrow> (string \<times> string option) list option) \<Rightarrow> json \<Rightarrow> 'a \<Rightarrow> validation" where
  "validateAgainstSchema ajv schema args =
     (case ajv schema args of
        None \<Rightarrow> None
      | Some errors \<Rightarrow> Some (map (\<lambda>(path, msg).
          (if path = [] then ''/'' else path, nullish msg ''validation error'')) errors))"

definition validateToolInput ::
    "(json \<Rightarrow> 'a \<Rightarrow> (string \<times> string option) list option) \<Rightarrow> tool_definition option \<Rightarrow> 'a \<Rightarrow> validation" where
  "validateToolInput ajv tool args =
     (case tool of
        None \<Rightarrow> None
      | Some t \<Rightarrow> (if inputSchema t = JObj [] then None else validateAgainstSchema ajv (inputSchema t) args))"

definition validateInput ::
    "(json \<Rightarrow> 'a \<Rightarrow> (string \<times> string option) list option) \<Rightarrow> registry \<Rightarrow> string \<Rightarrow> string \<Rightarrow> 'a \<Rightarrow> validation" where
  "validateInput ajv r server name args =
     (if \<not> validateInputs r then None else validateToolInput ajv (getTool server name r) args)"

definition set_annotations :: "tool_metadata \<Rightarrow> tool_definition \<Rightarrow> tool_definition" where
  "set_annotations md t =
     t\<lparr>td_cost := nullish (md_cost md) (td_cost t),
       cacheable := nullish (md_cacheable md) (cacheable t),
       cacheTtl := nullish (md_cacheTtl md) (cacheTtl t),
       reliability := nullish (md_reliability md) (reliability t),
       routing := nullish (md_routing md) (routing t),
       redact := nullish (md_redact md) (redact t),
       examples := nullish (md_examples md) (examples t)\<rparr>"

definition annotate :: "string \<Rightarrow> string \<Rightarrow> tool_metadata \<Rightarrow> registry \<Rightarrow> registry" where
  "annotate server name md r =
     (case getTool server name r of
        None \<Rightarrow> r
      | Some existing \<Rightarrow>
          r\<lparr>catalog := AList.update (registry_key server name) (set_annotations md existing) (catalog r)\<rparr>)"

subsection \<open>Snapshots\<close>

record snapshot_file =
  version :: "string option"
  savedAt :: time
  snapshot_catalog :: "tool_definition list option"

definition saveSnapshot :: "time \<Rightarrow> registry \<Rightarrow> snapshot_file" where
  "saveSnapshot now r = \<lparr>version = Some ''1'', savedAt = now, snapshot_catalog = Some (getAllTools r)\<rparr>"

definition restoreSnapshot :: "snapshot_file option \<Rightarrow> tool_definition list option" where
  "restoreSnapshot f =
     (case f of
        None \<Rightarrow> None
      | Some s \<Rightarrow> (if version s \<noteq> Some ''1'' then None else snapshot_catalog s))"

definition load_tool :: "registry \<Rightarrow> tool_definition \<Rightarrow> registry" where
  "load_tool r def =
     (let k = registry_key (td_server def) (td_name def) in
      if js_has (catalog r) k then r else r\<lparr>catalog := AList.update k def (catalog r)\<rparr>)"

definition loadSnapshot :: "snapshot_file option \<Rightarrow> registry \<Rightarrow> registry" where
  "loadSnapshot f r =
     (case restoreSnapshot f of
        None \<Rightarrow> r
      | Some defs \<Rightarrow> foldl load_tool r defs)"

subsection \<open>What a refresh does to the catalog\<close>

lemma reg_emit_simps [simp]:
  "catalog (reg_emit ev r) = catalog r" "listeners (reg_emit ev r) = listeners r"
  "validateInputs (reg_emit ev r) = validateInputs r"
  "delivered (reg_emit ev r) = delivered r @ map (\<lambda>l. (l, ev)) (listeners r)"
  by (simp_all add: reg_emit_def)

lemma remove_missing_catalog:
  "catalog (remove_missing now server incoming r k) =
     (if js_has incoming k then catalog r else AList.delete k (catalog r))"
proof (cases "map_of (catalog r) k")
  case None
  then have "k \<notin> fst ` set (catalog r)" by (simp add: map_of_eq_None_iff)
  then show ?thesis using None by (simp add: remove_missing_def delete_idem)
qed (simp add: remove_missing_def)

lemma remove_missing_all:
  "map_of (catalog (foldl (remove_missing now server incoming) r ks)) k =
     (if k \<in> set ks \<and> \<not> js_has incoming k then None else map_of (catalog r) k)"
  by (induction ks arbitrary: r) (auto simp: remove_missing_catalog)

lemma take_incoming_catalog:
  "catalog (take_incoming now server r (k, def)) = AList.update k def (catalog r)"
  by (simp add: take_incoming_def Let_def split: option.split)

lemma take_incoming_listeners [simp]:
  "listeners (take_incoming now server r kd) = listeners r"
  by (cases kd) (simp add: take_incoming_def Let_def split: option.split)

lemma remove_missing_listeners [simp]:
  "listeners (remove_missing now server incoming r k) = listeners r"
  by (simp add: remove_missing_def split: option.split)

lemma take_incoming_all:
  "js_wf incoming \<Longrightarrow>
   map_of (catalog (foldl (take_incoming now server) r incoming)) k =
     (case map_of incoming k of Some d \<Rightarrow> Some d | None \<Rightarrow> map_of (catalog r) k)"
proof (induction incoming arbitrary: r)
  case (Cons e incoming)
  obtain a d where e: "e = (a, d)" by force
  have "map_of incoming a = None" using Cons.prems e by (simp add: map_of_eq_None_iff)
  then show ?case using Cons e by (auto simp: take_incoming_catalog split: option.splits)
qed simp

lemma registry_key_inj [simp]: "registry_key s n = registry_key s n' \<longleftrightarrow> n = n'"
  by (simp add: registry_key_def)

lemma incoming_wf_gen:
  "js_wf m \<Longrightarrow> js_wf (foldl (\<lambda>m raw. AList.update (registry_key s (raw_name raw)) (f raw) m) m raws)"
  by (induction raws arbitrary: m) auto

lemma incoming_wf: "js_wf (incoming_tools r server raws)"
  unfolding incoming_tools_def by (rule incoming_wf_gen) simp

text \<open>The description that counts for a name is the last one.\<close>

definition last_raw :: "string \<Rightarrow> raw_tool list \<Rightarrow> raw_tool option" where
  "last_raw n raws = map_of (map (\<lambda>raw. (raw_name raw, raw)) (rev raws)) n"

lemma last_raw_simps [simp]:
  "last_raw n [] = None"
  "last_raw n (raws @ [raw]) = (if n = raw_name raw then Some raw else last_raw n raws)"
  by (simp_all add: last_raw_def)

lemma last_raw_None: "last_raw n raws = None \<longleftrightarrow> (\<forall>raw \<in> set raws. raw_name raw \<noteq> n)"
  by (force simp: last_raw_def map_of_eq_None_iff image_image)

lemma incoming_gen:
  "map_of (foldl (\<lambda>m raw. AList.update (registry_key s (raw_name raw)) (f raw) m) [] raws) (registry_key s n)
   = map_option f (last_raw n raws)"
  by (induction raws rule: rev_induct) auto

lemma incoming_other_gen:
  "(\<nexists>n. k = registry_key s n) \<Longrightarrow>
   map_of (foldl (\<lambda>m raw. AList.update (registry_key s (raw_name raw)) (f raw) m) [] raws) k = None"
  by (induction raws rule: rev_induct) auto

lemma incoming_lookup:
  "map_of (incoming_tools r s raws) (registry_key s n) = map_option (tool_from_raw r s) (last_raw n raws)"
  "(\<nexists>n. k = registry_key s n) \<Longrightarrow> map_of (incoming_tools r s raws) k = None"
  by (simp_all add: incoming_tools_def incoming_gen incoming_other_gen)

lemma prefix_key: "prefix (s @ ''/'') k \<longleftrightarrow> (\<exists>n. k = registry_key s n)"
  by (auto simp: prefix_def registry_key_def)

lemma refresh_lookup_own:
  "map_of (catalog (refreshServer now s (Some raws) r)) (registry_key s n)
   = map_option (tool_from_raw r s) (last_raw n raws)"
proof -
  let ?k = "registry_key s n"
  have own: "prefix (s @ ''/'') ?k" by (auto simp: prefix_key)
  show ?thesis
  proof (cases "last_raw n raws")
    case None
    then have i: "map_of (incoming_tools r s raws) ?k = None" by (simp add: incoming_lookup)
    have "map_of (catalog r) ?k = None \<or> ?k \<in> set (filter (prefix (s @ ''/'')) (js_keys (catalog r)))"
      using own by (auto simp: js_keys_def map_of_eq_None_iff)
    then show ?thesis using i None
      by (auto simp: refreshServer_def Let_def take_incoming_all incoming_wf remove_missing_all js_has_def)
  next
    case (Some raw)
    then show ?thesis
      by (simp add: refreshServer_def Let_def take_incoming_all incoming_wf incoming_lookup)
  qed
qed

lemma refresh_lookup_other:
  assumes "\<nexists>n. k = registry_key s n"
  shows "map_of (catalog (refreshServer now s (Some raws) r)) k = map_of (catalog r) k"
proof -
  have "\<not> prefix (s @ ''/'') k" using assms by (simp add: prefix_key)
  then show ?thesis using incoming_lookup(2) [OF assms]
    by (simp add: refreshServer_def Let_def take_incoming_all incoming_wf remove_missing_all)
qed

text \<open>C16: What a refresh does to the catalog, key by key. After a server has answered, the tools under
  its name are exactly those it listed (the last one when a name comes twice), each with the new
  description and schemas and with the annotations it had before; a tool it no longer lists is
  gone; every key that does not start with the server's name and a slash is untouched. When the
  server cannot be asked, nothing changes.\<close>

theorem refresh_catalog_exact:
  "map_of (catalog (refreshServer now s answer r)) k =
     (case answer of
        None \<Rightarrow> map_of (catalog r) k
      | Some raws \<Rightarrow>
          (if prefix (s @ ''/'') k
           then (case last_raw (drop (length s + 1) k) raws of
                   None \<Rightarrow> None
                 | Some raw \<Rightarrow>
                     Some (case map_of (catalog r) k of
                             None \<Rightarrow> raw_definition s raw
                           | Some before \<Rightarrow> keep_annotations before (raw_definition s raw)))
           else map_of (catalog r) k))"
proof (cases answer)
  case None
  then show ?thesis by (simp add: refreshServer_def)
next
  case (Some raws)
  show ?thesis
  proof (cases "prefix (s @ ''/'') k")
    case True
    then obtain n where n: "k = registry_key s n" using prefix_key by blast
    then have d: "drop (length s + 1) k = n" by (simp add: registry_key_def)
    have name: "raw_name raw = n" if "last_raw n raws = Some raw" for raw
      using map_of_SomeD [OF that [unfolded last_raw_def]] by auto
    show ?thesis
    proof (cases "last_raw n raws")
      case None
      then show ?thesis using True d Some refresh_lookup_own [of now s raws r n] n by simp
    next
      case raw: (Some raw)
      then show ?thesis
        using True d Some refresh_lookup_own [of now s raws r n] n name [OF raw]
        by (simp add: tool_from_raw_def split: option.split)
    qed
  next
    case False
    then have "\<nexists>n. k = registry_key s n" by (simp add: prefix_key)
    from refresh_lookup_other [OF this, of now raws r] show ?thesis using False Some by simp
  qed
qed


subsection \<open>Runs of the registry\<close>

datatype registry_op =
    RefreshServer time string "raw_tool list option"
  | Disconnect time string
  | Annotate string string tool_metadata
  | Watch nat
  | Unwatch nat
  | LoadSnapshot "snapshot_file option"

fun registry_step :: "registry \<Rightarrow> registry_op \<Rightarrow> registry" where
  "registry_step r (RefreshServer now s answer) = refreshServer now s answer r"
| "registry_step r (Disconnect now s) = onDisconnect now s r"
| "registry_step r (Annotate s n md) = annotate s n md r"
| "registry_step r (Watch l) = watch l r"
| "registry_step r (Unwatch l) = unwatch l r"
| "registry_step r (LoadSnapshot f) = loadSnapshot f r"

definition key_of :: "tool_definition \<Rightarrow> string" where
  "key_of d = registry_key (td_server d) (td_name d)"

definition catalog_ok :: "(string, tool_definition) jsmap \<Rightarrow> bool" where
  "catalog_ok m \<longleftrightarrow> js_wf m \<and> list_all (\<lambda>(k, d). k = key_of d) m"

lemma catalog_ok_entry: "catalog_ok m \<Longrightarrow> map_of m k = Some d \<Longrightarrow> k = key_of d"
  using map_of_SomeD by (fastforce simp: catalog_ok_def list_all_iff)

lemma catalog_ok_set: "catalog_ok m \<Longrightarrow> k = key_of d \<Longrightarrow> catalog_ok (AList.update k d m)"
  using set_js_set_subset [of _ k d m] by (fastforce simp: catalog_ok_def list_all_iff)

lemma catalog_ok_delete: "catalog_ok m \<Longrightarrow> catalog_ok (AList.delete k m)"
  using set_js_delete_subset [of _ k m] by (fastforce simp: catalog_ok_def list_all_iff)

lemma tool_from_raw_fields [simp]:
  "td_server (tool_from_raw r s raw) = s" "td_name (tool_from_raw r s raw) = raw_name raw"
  by (simp_all add: tool_from_raw_def keep_annotations_def raw_definition_def split: option.split)

lemma incoming_entry:
  assumes "(k, d) \<in> set (incoming_tools r s raws)"
  shows "k = registry_key s (td_name d) \<and> td_server d = s"
proof -
  have m: "map_of (incoming_tools r s raws) k = Some d"
    using assms incoming_wf [of r s raws] by (simp add: js_wf_def map_of_eq_Some_iff)
  then obtain n where n: "k = registry_key s n" using incoming_lookup(2) by (metis option.distinct(1))
  then obtain raw where raw: "last_raw n raws = Some raw" "d = tool_from_raw r s raw"
    using m by (auto simp: incoming_lookup)
  have "raw_name raw = n" using map_of_SomeD [OF raw(1) [unfolded last_raw_def]] by auto
  then show ?thesis using n raw(2) by simp
qed

lemma remove_missing_ok: "catalog_ok (catalog r) \<Longrightarrow> catalog_ok (catalog (remove_missing now s i r k))"
  by (simp add: remove_missing_catalog catalog_ok_delete)

lemma take_incoming_ok:
  "catalog_ok (catalog r) \<Longrightarrow> k = key_of d \<Longrightarrow> catalog_ok (catalog (take_incoming now s r (k, d)))"
  by (simp add: take_incoming_catalog catalog_ok_set)

lemma remove_all_ok: "catalog_ok (catalog r) \<Longrightarrow> catalog_ok (catalog (foldl (remove_missing now s i) r ks))"
  by (induction ks arbitrary: r) (auto simp: remove_missing_ok)

lemma take_all_ok:
  "list_all (\<lambda>(k, d). k = key_of d) kds \<Longrightarrow> catalog_ok (catalog r) \<Longrightarrow>
   catalog_ok (catalog (foldl (take_incoming now s) r kds))"
  by (induction kds arbitrary: r) (auto simp: take_incoming_ok)

lemma incoming_keys: "list_all (\<lambda>(k, d). k = key_of d) (incoming_tools r s raws)"
  using incoming_entry by (fastforce simp: list_all_iff key_of_def)

lemma refresh_ok: "catalog_ok (catalog r) \<Longrightarrow> catalog_ok (catalog (refreshServer now s answer r))"
  by (simp add: refreshServer_def Let_def take_all_ok remove_all_ok incoming_keys split: option.split)

lemma annotate_ok: "catalog_ok (catalog r) \<Longrightarrow> catalog_ok (catalog (annotate s n md r))"
  using catalog_ok_entry [of "catalog r" "registry_key s n"]
  by (auto simp: annotate_def getTool_def key_of_def set_annotations_def intro!: catalog_ok_set split: option.split)

lemma load_tool_ok: "catalog_ok (catalog r) \<Longrightarrow> catalog_ok (catalog (load_tool r d))"
  by (simp add: load_tool_def Let_def catalog_ok_set key_of_def)

lemma load_ok: "catalog_ok (catalog r) \<Longrightarrow> catalog_ok (catalog (loadSnapshot f r))"
proof -
  have "catalog_ok (catalog r) \<Longrightarrow> catalog_ok (catalog (foldl load_tool r defs))" for defs
    by (induction defs arbitrary: r) (auto simp: load_tool_ok)
  then show "catalog_ok (catalog r) \<Longrightarrow> ?thesis" by (simp add: loadSnapshot_def split: option.split)
qed

interpretation registry_run: stepper registry_step "\<lambda>r. catalog_ok (catalog r)"
proof unfold_locales
  fix r :: registry and e
  show "catalog_ok (catalog r) \<Longrightarrow> catalog_ok (catalog (registry_step r e))"
    by (cases e) (auto simp: refresh_ok annotate_ok load_ok onDisconnect_def watch_def unwatch_def)
qed

lemma run_catalog_ok: "catalog_ok (catalog (foldl registry_step (new_registry v) es))"
  by (rule registry_run.inv_run) (simp add: new_registry_def catalog_ok_def)

lemma js_set_fresh: "k \<notin> fst ` set m \<Longrightarrow> AList.update k v m = m @ [(k, v)]"
  by (induction m) auto

lemma load_all_fresh:
  "catalog r = xs \<Longrightarrow> catalog_ok (xs @ ys) \<Longrightarrow> catalog (foldl load_tool r (map snd ys)) = xs @ ys"
proof (induction ys arbitrary: xs r)
  case (Cons e ys)
  obtain k d where e: "e = (k, d)" by force
  have k: "k = key_of d" "k \<notin> fst ` set xs" using Cons.prems(2) e by (auto simp: catalog_ok_def js_wf_def)
  then have "catalog (load_tool r d) = xs @ [e]"
    using Cons.prems(1) e by (simp add: load_tool_def key_of_def Let_def js_has_in_keys js_set_fresh)
  then show ?case using Cons.IH [of "load_tool r d" "xs @ [e]"] Cons.prems(2) e by simp
qed simp


text \<open>A snapshot restores the catalog. Whatever refreshes, annotations, disconnects and loads made
  the catalog, writing a snapshot and loading it into a registry that has no tools yet gives the
  same catalog, entry by entry and in the same order, annotations included.\<close>

theorem snapshot_restores_catalog:
  "catalog (loadSnapshot (Some (saveSnapshot now (foldl registry_step (new_registry v) es))) (new_registry v'))
   = catalog (foldl registry_step (new_registry v) es)"
  using load_all_fresh [of "new_registry v'" "[]"] run_catalog_ok [of v es]
  by (simp add: loadSnapshot_def restoreSnapshot_def saveSnapshot_def getAllTools_def new_registry_def)

subsection \<open>Annotations\<close>

text \<open>Annotations last, but only for tools that are known. After \<open>annotate\<close> on a tool in the catalog,
  any later refresh of its server that still lists the tool keeps the annotations, with the
  description and schemas of the new listing. On a tool that is not in the catalog \<open>annotate\<close>
  changes nothing, so the metadata is not applied when the tool appears.\<close>

theorem annotations_survive_refresh:
  "getTool s n (refreshServer now s (Some raws) (annotate s n md r)) =
     (case last_raw n raws of
        None \<Rightarrow> None
      | Some raw \<Rightarrow>
          Some (case getTool s n r of
                  None \<Rightarrow> raw_definition s raw
                | Some t \<Rightarrow> keep_annotations (set_annotations md t) (raw_definition s raw)))
   \<and> (getTool s n r = None \<longrightarrow> annotate s n md r = r)"
proof -
  have name: "raw_name raw = n" if "last_raw n raws = Some raw" for raw
    using map_of_SomeD [OF that [unfolded last_raw_def]] by auto
  have g: "getTool s n (annotate s n md r) = map_option (set_annotations md) (getTool s n r)"
    by (simp add: annotate_def getTool_def split: option.split)
  have "getTool s n (refreshServer now s (Some raws) (annotate s n md r))
      = map_option (tool_from_raw (annotate s n md r) s) (last_raw n raws)"
    by (simp add: getTool_def refresh_lookup_own)
  also have "\<dots> = (case last_raw n raws of
        None \<Rightarrow> None
      | Some raw \<Rightarrow>
          Some (case getTool s n r of
                  None \<Rightarrow> raw_definition s raw
                | Some t \<Rightarrow> keep_annotations (set_annotations md t) (raw_definition s raw)))"
    using g name by (auto simp: tool_from_raw_def getTool_def split: option.splits)
  finally show ?thesis by (simp add: annotate_def)
qed

theorem annotations_survive_refresh_witness:
  "let raw = \<lparr>raw_name = ''t'', raw_description = None, raw_inputSchema = None, raw_outputSchema = None\<rparr>;
       md = no_metadata\<lparr>md_cacheable := Some (Some False)\<rparr>
   in annotate ''s'' ''t'' md (new_registry None) = new_registry None
      \<and> getTool ''s'' ''t'' (refreshServer 0 ''s'' (Some [raw]) (annotate ''s'' ''t'' md (new_registry None)))
        = Some (raw_definition ''s'' raw)"
proof -
  have g: "getTool ''s'' ''t'' (new_registry None) = None" by (simp add: getTool_def new_registry_def)
  show ?thesis using annotations_survive_refresh [of "''s''" "''t''" 0
      "[\<lparr>raw_name = ''t'', raw_description = None, raw_inputSchema = None, raw_outputSchema = None\<rparr>]"
      "no_metadata\<lparr>md_cacheable := Some (Some False)\<rparr>" "new_registry None"]
    by (auto simp: g last_raw_def Let_def)
qed

subsection \<open>What a listener learns\<close>

text \<open>A listener that keeps the description and input schema of every tool from the events alone.\<close>

definition apply_event ::
    "(string \<Rightarrow> (string \<times> json) option) \<Rightarrow> registry_event \<Rightarrow> string \<Rightarrow> (string \<times> json) option" where
  "apply_event m ev =
     (case ev_tool ev of
        None \<Rightarrow> m
      | Some t \<Rightarrow> m(registry_key (ev_server ev) t :=
          map_option (\<lambda>d. (description d, inputSchema d)) (ev_after ev)))"

definition seen_by :: "nat \<Rightarrow> registry \<Rightarrow> registry_event list" where
  "seen_by l r = map snd (filter (\<lambda>(m, ev). m = l) (delivered r))"

definition mirror :: "nat \<Rightarrow> registry \<Rightarrow> string \<Rightarrow> (string \<times> json) option" where
  "mirror l r = foldl apply_event Map.empty (seen_by l r)"

definition catalog_view :: "registry \<Rightarrow> string \<Rightarrow> (string \<times> json) option" where
  "catalog_view r k = map_option (\<lambda>d. (description d, inputSchema d)) (map_of (catalog r) k)"

definition slash_free :: "string \<Rightarrow> bool" where
  "slash_free s \<longleftrightarrow> CHR 0x2F \<notin> set s"

definition listens :: "nat \<Rightarrow> registry \<Rightarrow> bool" where
  "listens l r \<longleftrightarrow> filter ((=) l) (listeners r) = [l]"

definition plain_servers :: "registry \<Rightarrow> bool" where
  "plain_servers r \<longleftrightarrow> (\<forall>k d. map_of (catalog r) k = Some d \<longrightarrow> slash_free (td_server d))"

definition in_step :: "nat \<Rightarrow> registry \<Rightarrow> bool" where
  "in_step l r \<longleftrightarrow> catalog_ok (catalog r) \<and> plain_servers r \<and> listens l r \<and> mirror l r = catalog_view r"

lemma slash_free_key:
  assumes "slash_free s" "slash_free s'" "registry_key s n = registry_key s' n'"
  shows "s = s'"
proof -
  have "js_index_of (registry_key s n) ''/'' = Some (length s)"
    "js_index_of (registry_key s' n') ''/'' = Some (length s')"
    using assms(1,2) by (simp_all add: registry_key_def slash_free_def js_index_of_first)
  then have "length s = length s'" using assms(3) by simp
  then show ?thesis using assms(3) by (simp add: registry_key_def)
qed

lemma mirror_catalog [simp]: "mirror l (r\<lparr>catalog := c\<rparr>) = mirror l r"
  by (simp add: mirror_def seen_by_def)

lemma mirror_emit:
  assumes "listens l r"
  shows "mirror l (reg_emit ev r) = apply_event (mirror l r) ev"
proof -
  have "map snd (filter (\<lambda>(m, e). m = l) (map (\<lambda>m. (m, ev)) ls)) = map (\<lambda>_. ev) (filter ((=) l) ls)" for ls
    by (induction ls) auto
  then show ?thesis using assms by (simp add: mirror_def seen_by_def listens_def)
qed

lemma remove_missing_in_step:
  assumes "in_step l r" "slash_free s" "prefix (s @ ''/'') k"
  shows "in_step l (remove_missing now s incoming r k)"
proof (cases "map_of (catalog r) k")
  case None
  then show ?thesis using assms(1) by (simp add: remove_missing_def)
next
  case (Some before)
  show ?thesis
  proof (cases "js_has incoming k")
    case True
    then show ?thesis using assms(1) by (simp add: remove_missing_def)
  next
    case False
    let ?r = "remove_missing now s incoming r k"
    have "k = key_of before" using assms(1) Some catalog_ok_entry by (auto simp: in_step_def)
    moreover from this obtain n where "k = registry_key s n" using assms(3) prefix_key by blast
    moreover have "slash_free (td_server before)" using assms(1) Some by (auto simp: in_step_def plain_servers_def)
    ultimately have k: "k = registry_key s (td_name before)"
      using slash_free_key [OF assms(2)] by (metis key_of_def)
    have c: "catalog ?r = AList.delete k (catalog r)" using False by (simp add: remove_missing_catalog)
    have "mirror l ?r = (mirror l r)(k := None)"
      using assms(1) False Some k mirror_emit [of l "r\<lparr>catalog := AList.delete k (catalog r)\<rparr>"]
      by (simp add: remove_missing_def apply_event_def in_step_def listens_def)
    then have "mirror l ?r = catalog_view ?r"
      using assms(1) c by (auto simp: in_step_def catalog_view_def fun_eq_iff)
    moreover have "plain_servers ?r" using assms(1) c by (auto simp: in_step_def plain_servers_def)
    ultimately show ?thesis
      using assms(1) remove_missing_ok by (simp add: in_step_def listens_def)
  qed
qed

lemma take_incoming_in_step:
  assumes "in_step l r" "slash_free s" "k = registry_key s (td_name d)" "td_server d = s"
  shows "in_step l (take_incoming now s r (k, d))"
proof -
  let ?r = "take_incoming now s r (k, d)" and ?u = "r\<lparr>catalog := AList.update k d (catalog r)\<rparr>"
  have l: "listens l ?u" using assms(1) by (simp add: in_step_def listens_def)
  have c: "catalog ?r = AList.update k d (catalog r)" by (rule take_incoming_catalog)
  have "mirror l ?r = (mirror l r)(k := Some (description d, inputSchema d))"
  proof (cases "map_of (catalog r) k")
    case None
    then show ?thesis using mirror_emit [OF l] assms(3)
      by (simp add: take_incoming_def apply_event_def)
  next
    case (Some e)
    show ?thesis
    proof (cases "description e \<noteq> description d \<or> inputSchema e \<noteq> inputSchema d")
      case True
      then show ?thesis using Some mirror_emit [OF l] assms(3)
        by (simp add: take_incoming_def apply_event_def json_stringify_inj)
    next
      case False
      then have "mirror l r k = Some (description d, inputSchema d)"
        using assms(1) Some by (simp add: in_step_def catalog_view_def)
      then show ?thesis using False Some by (auto simp: take_incoming_def json_stringify_inj)
    qed
  qed
  then have "mirror l ?r = catalog_view ?r"
    using assms(1) c by (auto simp: in_step_def catalog_view_def fun_eq_iff)
  moreover have "plain_servers ?r" using assms c by (auto simp: in_step_def plain_servers_def)
  moreover have "catalog_ok (catalog ?r)" "listens l ?r"
    using take_incoming_ok [of r k d] assms by (simp_all add: in_step_def key_of_def listens_def)
  ultimately show ?thesis by (simp add: in_step_def)
qed

lemma remove_all_in_step:
  "slash_free s \<Longrightarrow> list_all (prefix (s @ ''/'')) ks \<Longrightarrow> in_step l r \<Longrightarrow>
   in_step l (foldl (remove_missing now s i) r ks)"
  by (induction ks arbitrary: r) (auto simp: remove_missing_in_step)

lemma take_all_in_step:
  "slash_free s \<Longrightarrow> list_all (\<lambda>(k, d). k = registry_key s (td_name d) \<and> td_server d = s) kds \<Longrightarrow> in_step l r \<Longrightarrow>
   in_step l (foldl (take_incoming now s) r kds)"
  by (induction kds arbitrary: r) (auto simp: take_incoming_in_step)

lemma emit_in_step: "in_step l r \<Longrightarrow> ev_tool ev = None \<Longrightarrow> in_step l (reg_emit ev r)"
  using mirror_emit [of l r ev]
  by (simp add: in_step_def plain_servers_def listens_def catalog_view_def apply_event_def fun_eq_iff)

lemma refresh_in_step:
  assumes "in_step l r" "slash_free s"
  shows "in_step l (refreshServer now s answer r)"
proof (cases answer)
  case (Some raws)
  have "list_all (\<lambda>(k, d). k = registry_key s (td_name d) \<and> td_server d = s) (incoming_tools r s raws)"
    using incoming_entry by (fastforce simp: list_all_iff)
  moreover have "list_all (prefix (s @ ''/'')) (filter (prefix (s @ ''/'')) (js_keys (catalog r)))"
    by (simp add: list_all_iff)
  ultimately show ?thesis using assms Some
    by (simp add: refreshServer_def Let_def emit_in_step take_all_in_step remove_all_in_step)
qed (use assms in \<open>simp add: refreshServer_def\<close>)

lemma annotate_in_step:
  assumes "in_step l r"
  shows "in_step l (annotate s n md r)"
proof (cases "getTool s n r")
  case (Some t)
  then have "mirror l (annotate s n md r) = catalog_view (annotate s n md r)"
    using assms by (auto simp: annotate_def getTool_def in_step_def catalog_view_def set_annotations_def fun_eq_iff)
  moreover have "plain_servers (annotate s n md r)"
    using assms Some by (auto simp: annotate_def getTool_def in_step_def plain_servers_def set_annotations_def)
  moreover have "listens l (annotate s n md r)"
    using assms Some by (simp add: annotate_def in_step_def listens_def)
  ultimately show ?thesis using assms annotate_ok by (simp add: in_step_def)
qed (use assms in \<open>simp add: annotate_def\<close>)


text \<open>The operations a listener can follow: servers without a slash in their name, the listener's own
  subscription left alone, and no snapshot loaded meanwhile (a load makes no events).\<close>

fun followable :: "nat \<Rightarrow> registry_op \<Rightarrow> bool" where
  "followable l (RefreshServer now s answer) = slash_free s"
| "followable l (Disconnect now s) = True"
| "followable l (Annotate s n md) = True"
| "followable l (Watch m) = (m \<noteq> l)"
| "followable l (Unwatch m) = (m \<noteq> l)"
| "followable l (LoadSnapshot f) = False"

lemma filter_remove1_other: "l \<noteq> m \<Longrightarrow> filter ((=) l) (remove1 m xs) = filter ((=) l) xs"
  by (induction xs) auto

lemma unwatch_listens: "l \<noteq> m \<Longrightarrow> listens l (unwatch m r) \<longleftrightarrow> listens l r"
  by (simp add: listens_def unwatch_def rev_filter [symmetric] filter_remove1_other)

lemma step_in_step:
  assumes "in_step l r" "followable l e"
  shows "in_step l (registry_step r e)"
proof (cases e)
  case (Disconnect now s)
  then show ?thesis using assms by (simp add: onDisconnect_def emit_in_step)
next
  case (Watch m)
  then show ?thesis using assms
    by (simp add: in_step_def watch_def listens_def plain_servers_def catalog_view_def mirror_def seen_by_def fun_eq_iff)
next
  case (Unwatch m)
  then have "listens l (unwatch m r)" using assms unwatch_listens by (auto simp: in_step_def)
  then show ?thesis using assms Unwatch
    by (simp add: in_step_def unwatch_def plain_servers_def catalog_view_def mirror_def seen_by_def fun_eq_iff)
qed (use assms in \<open>simp_all add: refresh_in_step annotate_in_step\<close>)

lemma run_in_step:
  "in_step l r \<Longrightarrow> list_all (followable l) es \<Longrightarrow> in_step l (foldl registry_step r es)"
  by (induction es arbitrary: r) (auto simp: step_in_step)

text \<open>C17: The events are complete while tools change by refreshes. A listener that subscribed to a new
  registry and applies every event it is given to a table of its own has, at every moment, the
  description and the input schema of every tool in the catalog and of no other tool, over any
  run of refreshes, failed refreshes, disconnects, annotations and subscriptions of others, under
  three conditions: the listener itself stays subscribed, no refreshed server has a slash in its
  name, and no snapshot is loaded. The last two are needed: loading a snapshot puts tools into
  the catalog without an event, and the refresh of a server whose name begins another server's
  name before a slash removes that other server's tools.\<close>

theorem watcher_mirrors_catalog:
  assumes "list_all (followable l) es"
  shows "mirror l (foldl registry_step (watch l (new_registry v)) es)
       = catalog_view (foldl registry_step (watch l (new_registry v)) es)"
proof -
  have "in_step l (watch l (new_registry v))"
    by (simp add: in_step_def watch_def new_registry_def catalog_ok_def plain_servers_def listens_def
        mirror_def seen_by_def catalog_view_def fun_eq_iff)
  then show ?thesis using run_in_step [OF _ assms] by (simp add: in_step_def)
qed

definition demo_raw :: "string \<Rightarrow> string \<Rightarrow> raw_tool" where
  "demo_raw n d = \<lparr>raw_name = n, raw_description = Some d, raw_inputSchema = None, raw_outputSchema = None\<rparr>"

theorem watcher_mirrors_catalog_witness:
  "mirror 1 (foldl registry_step (watch 1 (new_registry None))
      [RefreshServer 5 ''s'' (Some [demo_raw ''t'' ''old'', demo_raw ''u'' ''x'']),
       RefreshServer 6 ''s'' (Some [demo_raw ''t'' ''new''])])
   = catalog_view (foldl registry_step (watch 1 (new_registry None))
      [RefreshServer 5 ''s'' (Some [demo_raw ''t'' ''old'', demo_raw ''u'' ''x'']),
       RefreshServer 6 ''s'' (Some [demo_raw ''t'' ''new''])])"
  by (rule watcher_mirrors_catalog) (simp add: slash_free_def)

text \<open>Slashes in server names mix servers up. A refresh of a server \<open>s\<close> removes every tool of a server
  whose name is \<open>s\<close> followed by a slash and more, unless \<open>s\<close> itself lists a tool with the remaining
  text as its name, although the other server was not asked.\<close>

theorem refresh_removes_nested_server:
  assumes "last_raw (sub @ ''/'' @ n) raws = None"
  shows "getTool (s @ ''/'' @ sub) n (refreshServer now s (Some raws) r) = None"
proof -
  have "registry_key (s @ ''/'' @ sub) n = registry_key s (sub @ ''/'' @ n)" by (simp add: registry_key_def)
  then show ?thesis using assms refresh_lookup_own [of now s raws r "sub @ ''/'' @ n"]
    by (simp add: getTool_def)
qed

theorem refresh_removes_nested_server_witness:
  "let r = refreshServer 0 ''a/b'' (Some [demo_raw ''t'' ''d'']) (new_registry None)
   in getTool ''a/b'' ''t'' r \<noteq> None \<and> getTool ''a/b'' ''t'' (refreshServer 1 ''a'' (Some []) r) = None"
proof -
  let ?r = "refreshServer 0 ''a/b'' (Some [demo_raw ''t'' ''d'']) (new_registry None)"
  have "getTool ''a/b'' ''t'' ?r \<noteq> None"
    by (simp add: getTool_def refresh_lookup_own last_raw_def demo_raw_def)
  moreover have "getTool ''a/b'' ''t'' (refreshServer 1 ''a'' (Some []) ?r) = None"
    using refresh_removes_nested_server [of "''b''" "''t''" "[]" "''a''"] by simp
  ultimately show ?thesis by (simp add: Let_def)
qed

end
