(* ===== verification/CachePolicy.thy ===== *)
theory CachePolicy
  imports Registry
begin

text \<open>
  How long a tool's result may be cached, \<open>src/src/cache/policy.ts\<close>. A time to live of 0 means that the
  result is not cached.
\<close>

definition MUTATION_SUBSTRINGS :: "string list" where
  "MUTATION_SUBSTRINGS =
    [''create'', ''update'', ''delete'', ''remove'', ''add_'', ''_add'',
     ''write'', ''push'', ''insert'', ''patch'', ''put'', ''post'',
     ''set_'', ''reset'', ''clear'', ''archive'', ''restore'', ''move'']"

definition PREFIX_TTL_TABLE :: "(string \<times> int) list" where
  "PREFIX_TTL_TABLE =
    [(''list_'', 5 * 60 * 1000), (''search_'', 5 * 60 * 1000), (''get_'', 60 * 1000),
     (''read_'', 60 * 1000), (''query_'', 30 * 1000), (''fetch_'', 30 * 1000)]"

definition DEFAULT_TTL_MS :: int where
  "DEFAULT_TTL_MS = 30 * 1000"

text \<open>The test of the loop over the mutation words, on the first occurrence of the word.\<close>

definition is_mutation_word :: "string \<Rightarrow> string \<Rightarrow> bool" where
  "is_mutation_word lower sub =
     (case js_index_of lower sub of
        None \<Rightarrow> False
      | Some idx \<Rightarrow>
          (let before = (if idx = 0 then CHR ''_'' else lower ! (idx - 1));
               after = (if idx + length sub \<ge> length lower then CHR ''_'' else lower ! (idx + length sub))
           in (before = CHR ''_'' \<or> idx = 0) \<and> (after = CHR ''_'' \<or> idx + length sub = length lower)))"

definition defaultTtlForName :: "string \<Rightarrow> int" where
  "defaultTtlForName toolName =
     (let lower = js_lower toolName in
      if list_ex (is_mutation_word lower) MUTATION_SUBSTRINGS then 0
      else (case find (\<lambda>(p, ttlMs). prefix p lower) PREFIX_TTL_TABLE of
              Some (p, ttlMs) \<Rightarrow> ttlMs
            | None \<Rightarrow> DEFAULT_TTL_MS))"

type_synonym server_policies = "(string, (string, int) jsmap) jsmap"

definition resolveTtl :: "tool_definition option \<Rightarrow> server_policies \<Rightarrow> int" where
  "resolveTtl tool serverPolicies =
     (case tool of
        None \<Rightarrow> defaultTtlForName []
      | Some t \<Rightarrow>
          (if cacheable t = Some False then 0
           else (case cacheTtl t of
                   Some ttl \<Rightarrow> ttl
                 | None \<Rightarrow>
                     (case map_of serverPolicies (td_server t) of
                        None \<Rightarrow> defaultTtlForName (td_name t)
                      | Some overrides \<Rightarrow>
                          (case map_of overrides (td_name t) of
                             Some ttl \<Rightarrow> ttl
                           | None \<Rightarrow> defaultTtlForName (td_name t))))))"

definition isCacheable :: "tool_definition option \<Rightarrow> server_policies \<Rightarrow> bool" where
  "isCacheable tool serverPolicies \<longleftrightarrow> resolveTtl tool serverPolicies > 0"

subsection \<open>Mutations\<close>

lemma js_index_of_prefix: "js_index_of (w @ r) w = Some 0"
proof (cases "w @ r")
  case (Cons c s)
  then have "prefix w (c # s)" by (metis prefixI)
  then show ?thesis using Cons by simp
qed simp

lemma mutation_word_whole: "is_mutation_word w w"
  using js_index_of_prefix [of w "[]"] by (simp add: is_mutation_word_def Let_def)

lemma mutation_word_first: "is_mutation_word (w @ CHR ''_'' # r) w"
  by (simp add: is_mutation_word_def js_index_of_prefix Let_def)

text \<open>The words of the table that stand for themselves.\<close>

definition whole_words :: "string list" where
  "whole_words =
    [''create'', ''update'', ''delete'', ''remove'', ''write'', ''push'', ''insert'', ''patch'', ''put'',
     ''post'', ''reset'', ''clear'', ''archive'', ''restore'', ''move'']"

lemma whole_words_listed: "w \<in> set whole_words \<Longrightarrow> w \<in> set MUTATION_SUBSTRINGS"
proof -
  have "list_all (List.member MUTATION_SUBSTRINGS) whole_words" by code_simp
  then show "w \<in> set whole_words \<Longrightarrow> ?thesis" by (simp add: list_all_iff)
qed

lemma mutation_word_ttl:
  "w \<in> set MUTATION_SUBSTRINGS \<Longrightarrow> is_mutation_word (js_lower name) w \<Longrightarrow> defaultTtlForName name = 0"
  by (auto simp: defaultTtlForName_def Let_def list_ex_iff)

definition undecided :: "server_policies \<Rightarrow> tool_definition \<Rightarrow> bool" where
  "undecided ps t \<longleftrightarrow> cacheTtl t = None
     \<and> (case map_of ps (td_server t) of None \<Rightarrow> True | Some o' \<Rightarrow> map_of o' (td_name t) = None)"

lemma undecided_ttl:
  "undecided ps t \<Longrightarrow> resolveTtl (Some t) ps = (if cacheable t = Some False then 0 else defaultTtlForName (td_name t))"
  by (auto simp: undecided_def resolveTtl_def split: option.splits)

text \<open>The test of the code, on the parts of the name around the first occurrence of the word.\<close>

lemma index_splits: "js_index_of s w = Some i \<Longrightarrow> \<exists>p r. s = p @ w @ r \<and> length p = i"
proof (induction s arbitrary: i)
  case (Cons c s)
  show ?case
  proof (cases "prefix w (c # s)")
    case True
    then obtain r where "c # s = w @ r" by (auto elim: prefixE)
    moreover have "i = 0" using Cons.prems True by simp
    ultimately show ?thesis by (metis append_Nil list.size(3))
  next
    case False
    then obtain j where j: "js_index_of s w = Some j" "i = Suc j" using Cons.prems by auto
    then obtain p r where "s = p @ w @ r" "length p = j" using Cons.IH by blast
    then show ?thesis using j by (intro exI [of _ "c # p"] exI [of _ r]) simp
  qed
qed (simp split: if_splits)

definition bounded_word :: "string \<Rightarrow> string \<Rightarrow> bool" where
  "bounded_word w name \<longleftrightarrow>
     (\<exists>p s. name = p @ w @ s \<and> js_index_of name w = Some (length p) \<and>
        (p = [] \<or> last p = CHR ''_'') \<and> (s = [] \<or> hd s = CHR ''_''))"

lemma mutation_word_bounded: "is_mutation_word name w \<longleftrightarrow> bounded_word w name"
proof (cases "js_index_of name w")
  case None
  then show ?thesis by (simp add: is_mutation_word_def bounded_word_def)
next
  case (Some i)
  then obtain p s where ps: "name = p @ w @ s" "length p = i" using index_splits by blast
  have bef: "(p @ w @ s) ! (length p - 1) = last p" if "p \<noteq> []" using that by (simp add: nth_append last_conv_nth)
  have aft: "(p @ w @ s) ! (length p + length w) = hd s" if "s \<noteq> []"
    using that by (simp add: nth_append hd_conv_nth)
  have "is_mutation_word name w \<longleftrightarrow> (p = [] \<or> last p = CHR ''_'') \<and> (s = [] \<or> hd s = CHR ''_'')"
    using Some ps bef aft by (cases "p = []"; cases "s = []") (auto simp: is_mutation_word_def Let_def)
  moreover have "bounded_word w name \<longleftrightarrow> (p = [] \<or> last p = CHR ''_'') \<and> (s = [] \<or> hd s = CHR ''_'')"
    using Some ps unfolding bounded_word_def by (auto simp: append_eq_append_conv)
  ultimately show ?thesis by simp
qed

lemma prefix_ttl_positive: "find (\<lambda>(p, ttlMs). prefix p lower) PREFIX_TTL_TABLE = Some (p, ttlMs) \<Longrightarrow> ttlMs > 0"
proof -
  assume f: "find (\<lambda>(p, ttlMs). prefix p lower) PREFIX_TTL_TABLE = Some (p, ttlMs)"
  have "list_all (\<lambda>(p, ttlMs). ttlMs > 0) PREFIX_TTL_TABLE" by (simp add: PREFIX_TTL_TABLE_def)
  moreover have "(p, ttlMs) \<in> set PREFIX_TTL_TABLE" using f by (auto simp: find_Some_iff in_set_conv_nth)
  ultimately show ?thesis by (auto simp: list_all_iff)
qed

lemma default_ttl_zero:
  "0 \<le> defaultTtlForName name \<and>
   (defaultTtlForName name = 0 \<longleftrightarrow> (\<exists>w \<in> set MUTATION_SUBSTRINGS. bounded_word w (js_lower name)))"
proof (cases "list_ex (is_mutation_word (js_lower name)) MUTATION_SUBSTRINGS")
  case True
  then show ?thesis by (auto simp: defaultTtlForName_def Let_def list_ex_iff mutation_word_bounded)
next
  case False
  have "defaultTtlForName name > 0"
    using False prefix_ttl_positive [of "js_lower name"]
    by (fastforce simp: defaultTtlForName_def Let_def DEFAULT_TTL_MS_def split: option.split)
  then show ?thesis using False by (auto simp: list_ex_iff mutation_word_bounded)
qed


definition named_tool :: "string \<Rightarrow> tool_definition" where
  "named_tool n = raw_definition ''s'' (demo_raw n [])"


text \<open>So for the fifteen words without an underscore of their own: a name that is the word or begins with it and an
  underscore is not cached.\<close>

lemma whole_word_not_cached:
  assumes "w \<in> set whole_words" "js_lower name = w \<or> js_lower name = w @ ''_'' @ r"
  shows "defaultTtlForName name = 0"
  using mutation_word_ttl [OF whole_words_listed [OF assms(1)]] mutation_word_whole [of w] mutation_word_first [of w r] assms(2)
  by auto

text \<open>The words of the table that have an underscore of their own match next to nothing. A name that
  begins with \<open>add_\<close> or \<open>set_\<close> passes that test only when a second underscore follows or nothing
  follows, and a name that ends with \<open>_add\<close> only when the underscore is doubled or nothing comes
  before: \<open>add_item\<close>, \<open>set_value\<close> and \<open>item_add\<close> are cached for the default time.\<close>

theorem underscore_words_do_not_match:
  "(is_mutation_word (''add_'' @ r) ''add_'' \<longleftrightarrow> r = [] \<or> hd r = CHR ''_'')
   \<and> (is_mutation_word (''set_'' @ r) ''set_'' \<longleftrightarrow> r = [] \<or> hd r = CHR ''_'')
   \<and> map defaultTtlForName [''add_item'', ''set_value'', ''item_add'', ''input_put'']
     = [DEFAULT_TTL_MS, DEFAULT_TTL_MS, DEFAULT_TTL_MS, DEFAULT_TTL_MS]"
proof -
  have f: "is_mutation_word (w @ r) w \<longleftrightarrow> r = [] \<or> hd r = CHR ''_''" for w
    using mutation_word_whole [of w]
    by (cases r) (simp_all add: is_mutation_word_def js_index_of_prefix Let_def)
  have g: "map defaultTtlForName [''add_item'', ''set_value'', ''item_add'', ''input_put'']
     = [DEFAULT_TTL_MS, DEFAULT_TTL_MS, DEFAULT_TTL_MS, DEFAULT_TTL_MS]"
    by code_simp
  show ?thesis by (simp only: f g)
qed

end
