(* ===== verification/CacheTiers.thy ===== *)
theory CacheTiers
  imports CacheKey CachePolicy
begin

text \<open>
  The tiers of the cache, \<open>src/src/cache/lru.ts\<close> and \<open>disk.ts\<close>. What \<open>lru-cache\<close> throws out to stay
  within its size when an entry is stored is an argument of the operation, \<open>ev\<close>, any list of keys
  (its own among them, when the value is larger than the whole cache); its byte and eviction
  counts are the library's. The disk is a map from the hash to the file of that hash, with the
  decoded entry (\<open>None\<close> when it does not decode to an entry) and its size; \<open>enc\<close> is the size of an
  encoded entry. File operations succeed.
\<close>

subsection \<open>Memory\<close>

record lru_entry =
  le_value :: json
  le_storedAt :: time
  le_ttlMs :: int

record memory_lru =
  lru_entries :: "(string, lru_entry) jsmap"
  lru_hits :: nat
  lru_misses :: nat

record memory_hit =
  mh_value :: json
  mh_storedAt :: time

definition new_lru :: memory_lru where
  "new_lru = \<lparr>lru_entries = [], lru_hits = 0, lru_misses = 0\<rparr>"

definition lru_get :: "time \<Rightarrow> string \<Rightarrow> memory_lru \<Rightarrow> memory_hit option \<times> memory_lru" where
  "lru_get now key m =
     (case map_of (lru_entries m) key of
        None \<Rightarrow> (None, m\<lparr>lru_misses := lru_misses m + 1\<rparr>)
      | Some e \<Rightarrow>
          (if le_ttlMs e > 0 \<and> now - le_storedAt e > le_ttlMs e
           then (None, m\<lparr>lru_entries := AList.delete key (lru_entries m), lru_misses := lru_misses m + 1\<rparr>)
           else (Some \<lparr>mh_value = le_value e, mh_storedAt = le_storedAt e\<rparr>,
                 m\<lparr>lru_hits := lru_hits m + 1\<rparr>)))"

definition lru_set ::
    "string list \<Rightarrow> time \<Rightarrow> string \<Rightarrow> json \<Rightarrow> int \<Rightarrow> memory_lru \<Rightarrow> memory_lru" where
  "lru_set ev now key v ttlMs m =
     m\<lparr>lru_entries := js_drop_where (\<lambda>k _. k \<in> set ev)
         (AList.update key \<lparr>le_value = v, le_storedAt = now, le_ttlMs = ttlMs\<rparr> (lru_entries m))\<rparr>"

definition lru_delete :: "string \<Rightarrow> memory_lru \<Rightarrow> bool \<times> memory_lru" where
  "lru_delete key m = (js_has (lru_entries m) key, m\<lparr>lru_entries := AList.delete key (lru_entries m)\<rparr>)"

definition lru_invalidateByPrefix :: "string \<Rightarrow> memory_lru \<Rightarrow> nat \<times> memory_lru" where
  "lru_invalidateByPrefix p m =
     (length (filter (\<lambda>(k, e). prefix p k) (lru_entries m)),
      m\<lparr>lru_entries := js_drop_where (\<lambda>k _. prefix p k) (lru_entries m)\<rparr>)"

definition lru_clear :: "memory_lru \<Rightarrow> memory_lru" where
  "lru_clear m = m\<lparr>lru_entries := []\<rparr>"

definition lru_resetCounters :: "memory_lru \<Rightarrow> memory_lru" where
  "lru_resetCounters m = m\<lparr>lru_hits := 0, lru_misses := 0\<rparr>"

subsection \<open>Disk\<close>

record disk_entry =
  de_value :: json
  de_storedAt :: time
  de_ttlMs :: int
  de_server :: string
  de_tool :: string

record disk_file =
  df_entry :: "disk_entry option"
  df_size :: int

record disk_cache =
  disk_files :: "(string, disk_file) jsmap"
  disk_hits :: nat
  disk_misses :: nat
  bytesOnDisk :: int
  maxDiskBytes :: int

definition new_disk :: "int \<Rightarrow> (string, disk_file) jsmap \<Rightarrow> disk_cache" where
  "new_disk maxBytes found =
     \<lparr>disk_files = found, disk_hits = 0, disk_misses = 0, bytesOnDisk = 0, maxDiskBytes = maxBytes\<rparr>"

definition disk_get :: "string \<Rightarrow> disk_cache \<Rightarrow> disk_entry option \<times> disk_cache" where
  "disk_get h d =
     (case map_of (disk_files d) h of
        None \<Rightarrow> (None, d\<lparr>disk_misses := disk_misses d + 1\<rparr>)
      | Some f \<Rightarrow>
          (case df_entry f of
             None \<Rightarrow> (None, d\<lparr>disk_misses := disk_misses d + 1\<rparr>)
           | Some e \<Rightarrow> (Some e, d\<lparr>disk_hits := disk_hits d + 1\<rparr>)))"

definition disk_unlink :: "string \<Rightarrow> int \<Rightarrow> disk_cache \<Rightarrow> disk_cache" where
  "disk_unlink h sz d =
     d\<lparr>disk_files := AList.delete h (disk_files d), bytesOnDisk := max 0 (bytesOnDisk d - sz)\<rparr>"

text \<open>\<open>rotate\<close>: the readable files, oldest first, are removed until enough is freed.\<close>

definition rotation_target :: "disk_cache \<Rightarrow> int" where
  "rotation_target d = maxDiskBytes d * 8 div 10"

definition rotation_order :: "disk_cache \<Rightarrow> (string \<times> time \<times> int) list" where
  "rotation_order d =
     sort_key (\<lambda>(h, t, sz). t)
       (List.map_filter (\<lambda>(h, f). map_option (\<lambda>e. (h, de_storedAt e, df_size f)) (df_entry f)) (disk_files d))"

fun rotate_loop :: "int \<Rightarrow> int \<Rightarrow> (string \<times> time \<times> int) list \<Rightarrow> disk_cache \<Rightarrow> disk_cache" where
  "rotate_loop freed toFree [] d = d"
| "rotate_loop freed toFree ((h, t, sz) # es) d =
     (if freed \<ge> toFree then d else rotate_loop (freed + sz) toFree es (disk_unlink h sz d))"

definition disk_rotate :: "disk_cache \<Rightarrow> disk_cache" where
  "disk_rotate d =
     (if bytesOnDisk d \<le> rotation_target d then d
      else rotate_loop 0 (bytesOnDisk d - rotation_target d) (rotation_order d) d)"

definition disk_set :: "(disk_entry \<Rightarrow> int) \<Rightarrow> string \<Rightarrow> disk_entry \<Rightarrow> disk_cache \<Rightarrow> disk_cache" where
  "disk_set enc h e d =
     (let d' = d\<lparr>disk_files := AList.update h \<lparr>df_entry = Some e, df_size = enc e\<rparr> (disk_files d),
           bytesOnDisk := bytesOnDisk d + enc e\<rparr>
      in if bytesOnDisk d' > maxDiskBytes d' then disk_rotate d' else d')"

definition disk_delete :: "string \<Rightarrow> disk_cache \<Rightarrow> bool \<times> disk_cache" where
  "disk_delete h d =
     (case map_of (disk_files d) h of
        None \<Rightarrow> (False, d)
      | Some f \<Rightarrow> (True, disk_unlink h (df_size f) d))"

text \<open>\<open>scanAndDelete\<close> with a predicate that unlinks the files of the entries it selects.\<close>

definition scan_and_delete :: "(disk_entry \<Rightarrow> bool) \<Rightarrow> disk_cache \<Rightarrow> nat \<times> disk_cache" where
  "scan_and_delete p d =
     (let hit = filter (\<lambda>(h, f). case df_entry f of None \<Rightarrow> False | Some e \<Rightarrow> p e) (disk_files d)
      in (length hit, foldl (\<lambda>d (h, f). disk_unlink h (df_size f) d) d hit))"

definition normalized_prefix :: "string \<Rightarrow> string" where
  "normalized_prefix p = (if p \<noteq> [] \<and> last p = CHR '':'' then butlast p else p)"

definition disk_invalidateByPrefix :: "string \<Rightarrow> disk_cache \<Rightarrow> nat \<times> disk_cache" where
  "disk_invalidateByPrefix p =
     scan_and_delete (\<lambda>e. prefix (normalized_prefix p) (de_server e @ '':'' @ de_tool e))"

definition disk_invalidateServer :: "string \<Rightarrow> disk_cache \<Rightarrow> nat \<times> disk_cache" where
  "disk_invalidateServer server = scan_and_delete (\<lambda>e. de_server e = server)"

definition disk_clear :: "disk_cache \<Rightarrow> disk_cache" where
  "disk_clear d =
     (snd (scan_and_delete (\<lambda>_. True) d))\<lparr>bytesOnDisk := 0\<rparr>"

subsection \<open>Memory: lookups\<close>

definition fresh_entry :: "time \<Rightarrow> lru_entry \<Rightarrow> bool" where
  "fresh_entry now e \<longleftrightarrow> \<not> (le_ttlMs e > 0 \<and> now - le_storedAt e > le_ttlMs e)"

definition mem_lookup :: "memory_lru \<Rightarrow> string \<Rightarrow> lru_entry option" where
  "mem_lookup m k = map_of (lru_entries m) k"

lemma mem_lookup_set:
  "js_wf (lru_entries m) \<Longrightarrow>
   mem_lookup (lru_set ev now key v ttl m) k =
     (if k \<in> set ev then None
      else if k = key then Some \<lparr>le_value = v, le_storedAt = now, le_ttlMs = ttl\<rparr> else mem_lookup m k)"
  by (simp add: mem_lookup_def lru_set_def map_of_js_drop_where js_wf_set split: option.split)

lemma lru_get_hit:
  "mem_lookup m k = Some e \<Longrightarrow> fresh_entry now e \<Longrightarrow>
   lru_get now k m = (Some \<lparr>mh_value = le_value e, mh_storedAt = le_storedAt e\<rparr>, m\<lparr>lru_hits := lru_hits m + 1\<rparr>)"
  by (auto simp: lru_get_def mem_lookup_def fresh_entry_def)

lemma lru_get_entries:
  "mem_lookup (snd (lru_get now k m)) k' = (if k' = k \<and> fst (lru_get now k m) = None then None else mem_lookup m k')"
  by (simp add: lru_get_def mem_lookup_def split: option.split)

lemma lru_wf [simp, intro]:
  "js_wf (lru_entries m) \<Longrightarrow> js_wf (lru_entries (lru_set ev now key v ttl m))"
  "js_wf (lru_entries m) \<Longrightarrow> js_wf (lru_entries (snd (lru_get now k m)))"
  "js_wf (lru_entries m) \<Longrightarrow> js_wf (lru_entries (snd (lru_delete k m)))"
  "js_wf (lru_entries m) \<Longrightarrow> js_wf (lru_entries (snd (lru_invalidateByPrefix p m)))"
  by (simp_all add: lru_set_def lru_get_def lru_delete_def lru_invalidateByPrefix_def split: option.split)

subsection \<open>Disk: sizes\<close>

definition disk_total :: "disk_cache \<Rightarrow> int" where
  "disk_total d = js_sum df_size (disk_files d)"

text \<open>The files are those the cache wrote itself: readable, of positive size, and counted.\<close>

definition disk_counted :: "disk_cache \<Rightarrow> bool" where
  "disk_counted d \<longleftrightarrow> js_wf (disk_files d)
     \<and> list_all (\<lambda>(h, f). df_entry f \<noteq> None \<and> 0 \<le> df_size f) (disk_files d)
     \<and> disk_total d \<le> bytesOnDisk d"

lemma js_sum_nonneg: "list_all (\<lambda>(k, v). 0 \<le> f v) m \<Longrightarrow> 0 \<le> (js_sum f m :: int)"
  by (induction m) auto

lemma list_all_delete: "list_all P m \<Longrightarrow> list_all P (AList.delete k m)"
  using set_js_delete_subset by (fastforce simp: list_all_iff)

lemma list_all_update: "list_all P m \<Longrightarrow> P (k, v) \<Longrightarrow> list_all P (AList.update k v m)"
  using set_js_set_subset by (fastforce simp: list_all_iff)

lemma disk_files_nonneg: "disk_counted d \<Longrightarrow> 0 \<le> disk_total d"
  by (auto simp: disk_counted_def disk_total_def list_all_iff intro!: js_sum_nonneg)

lemma unlink_counted:
  assumes "disk_counted d" "map_of (disk_files d) h = Some f"
  shows "disk_counted (disk_unlink h (df_size f) d)
       \<and> disk_total (disk_unlink h (df_size f) d) = disk_total d - df_size f"
proof -
  have t: "disk_total (disk_unlink h (df_size f) d) = disk_total d - df_size f"
    using js_sum_delete [of "disk_files d" h f df_size] assms
    by (simp add: disk_counted_def disk_total_def disk_unlink_def)
  then show ?thesis using assms by (auto simp: disk_counted_def disk_unlink_def list_all_delete)
qed


definition lists_files :: "(string \<times> time \<times> int) list \<Rightarrow> disk_cache \<Rightarrow> bool" where
  "lists_files es d \<longleftrightarrow> distinct (map fst es)
     \<and> list_all (\<lambda>(h, t, sz). map_option df_size (map_of (disk_files d) h) = Some sz) es"

lemma lists_files_unlink:
  "lists_files ((h, t, sz) # es) d \<Longrightarrow> lists_files es (disk_unlink h sz d)"
  by (force simp: lists_files_def disk_unlink_def list_all_iff)

lemma keys_delete: "fst ` set (AList.delete k m) = fst ` set m - {k}"
  by (force simp: AList.delete_eq)

lemma rotate_loop_counted:
  "disk_counted d \<Longrightarrow> lists_files es d \<Longrightarrow> disk_counted (rotate_loop freed toFree es d)"
proof (induction freed toFree es d rule: rotate_loop.induct)
  case (2 freed toFree h t sz es d)
  obtain f where f: "map_of (disk_files d) h = Some f" "df_size f = sz"
    using 2(3) by (auto simp: lists_files_def)
  have "disk_counted (disk_unlink h sz d)" using unlink_counted [OF 2(2) f(1)] f(2) by simp
  then show ?case using 2 lists_files_unlink by simp
qed simp

lemma rotate_loop_total:
  "disk_counted d \<Longrightarrow> lists_files es d \<Longrightarrow> fst ` set es = fst ` set (disk_files d) \<Longrightarrow>
   disk_total (rotate_loop freed toFree es d) \<le> max 0 (disk_total d + freed - toFree)"
proof (induction freed toFree es d rule: rotate_loop.induct)
  case (1 freed toFree d)
  then show ?case by (simp add: disk_total_def)
next
  case (2 freed toFree h t sz es d)
  show ?case
  proof (cases "freed \<ge> toFree")
    case True
    then show ?thesis by simp
  next
    case False
    obtain f where f: "map_of (disk_files d) h = Some f" "df_size f = sz"
      using 2(3) by (auto simp: lists_files_def)
    have u: "disk_counted (disk_unlink h sz d)" "disk_total (disk_unlink h sz d) = disk_total d - sz"
      using unlink_counted [OF 2(2) f(1)] f(2) by simp_all
    have "fst ` set es = fst ` set (disk_files (disk_unlink h sz d))"
      using 2(3,4) by (auto simp: lists_files_def disk_unlink_def keys_delete)
    from 2(1) [OF False u(1) lists_files_unlink [OF 2(3)] this] False u(2) show ?thesis by simp
  qed
qed

lemma map_filter_readable:
  "list_all (\<lambda>(h, f). df_entry f \<noteq> None \<and> Q f) m \<Longrightarrow>
   map fst (List.map_filter (\<lambda>(h, f). map_option (\<lambda>e. (h, de_storedAt e, df_size f)) (df_entry f)) m) = map fst m"
  by (induction m) (auto simp: List.map_filter_simps)

lemma rotation_order_lists:
  assumes "disk_counted d"
  shows "lists_files (rotation_order d) d" "fst ` set (rotation_order d) = fst ` set (disk_files d)"
proof -
  let ?es = "List.map_filter (\<lambda>(h, f). map_option (\<lambda>e. (h, de_storedAt e, df_size f)) (df_entry f)) (disk_files d)"
  have m: "map fst ?es = map fst (disk_files d)"
    using assms map_filter_readable by (auto simp: disk_counted_def)
  then have "distinct (map fst ?es)" using assms by (simp add: disk_counted_def js_wf_def)
  then have "distinct (map fst (rotation_order d))"
    by (simp add: rotation_order_def distinct_map)
  moreover have "\<exists>f. map_of (disk_files d) h = Some f \<and> df_size f = sz" if "(h, t, sz) \<in> set (rotation_order d)" for h t sz
  proof -
    have "(h, t, sz) \<in> set ?es" using that by (simp add: rotation_order_def)
    then obtain f where "(h, f) \<in> set (disk_files d)" "df_size f = sz"
      by (auto simp: List.map_filter_def)
    then have "map_of (disk_files d) h = Some f"
      using assms by (simp add: disk_counted_def js_wf_def map_of_eq_Some_iff)
    then show ?thesis using \<open>df_size f = sz\<close> by blast
  qed
  ultimately show "lists_files (rotation_order d) d" by (fastforce simp: lists_files_def list_all_iff)
  have "set (map fst ?es) = set (map fst (disk_files d))" using m by simp
  then show "fst ` set (rotation_order d) = fst ` set (disk_files d)"
    by (simp add: rotation_order_def)
qed

lemma rotate_counted: "disk_counted d \<Longrightarrow> disk_counted (disk_rotate d)"
  by (simp add: disk_rotate_def rotate_loop_counted rotation_order_lists)

lemma rotate_total:
  assumes "disk_counted d"
  shows "disk_total (disk_rotate d) \<le> max 0 (rotation_target d)"
proof (cases "bytesOnDisk d \<le> rotation_target d")
  case True
  then have "disk_total d \<le> rotation_target d" using assms by (simp add: disk_counted_def)
  then show ?thesis using True by (simp add: disk_rotate_def)
next
  case False
  have "disk_total (disk_rotate d)
      \<le> max 0 (disk_total d + 0 - (bytesOnDisk d - rotation_target d))"
    using False rotate_loop_total [OF assms rotation_order_lists [OF assms], of 0 "bytesOnDisk d - rotation_target d"]
    by (simp add: disk_rotate_def)
  also have "\<dots> \<le> max 0 (rotation_target d)" using assms unfolding disk_counted_def by linarith
  finally show ?thesis .
qed

subsection \<open>Disk: runs\<close>

datatype disk_op =
    DiskGet string
  | DiskSet string disk_entry
  | DiskDelete string
  | DiskInvalidate string
  | DiskInvalidateServer string
  | DiskClear

fun disk_step :: "(disk_entry \<Rightarrow> int) \<Rightarrow> disk_cache \<Rightarrow> disk_op \<Rightarrow> disk_cache" where
  "disk_step enc d (DiskGet h) = snd (disk_get h d)"
| "disk_step enc d (DiskSet h e) = disk_set enc h e d"
| "disk_step enc d (DiskDelete h) = snd (disk_delete h d)"
| "disk_step enc d (DiskInvalidate p) = snd (disk_invalidateByPrefix p d)"
| "disk_step enc d (DiskInvalidateServer s) = snd (disk_invalidateServer s d)"
| "disk_step enc d DiskClear = disk_clear d"

text \<open>What every operation keeps: the count is never below what the files take, and that never exceeds
  the limit.\<close>

definition disk_ok :: "int \<Rightarrow> disk_cache \<Rightarrow> bool" where
  "disk_ok limit d \<longleftrightarrow> disk_counted d \<and> maxDiskBytes d = limit \<and> disk_total d \<le> max 0 limit"

lemma unlink_ok:
  "disk_ok limit d \<Longrightarrow> map_of (disk_files d) h = Some f \<Longrightarrow> disk_ok limit (disk_unlink h (df_size f) d)"
proof -
  assume d: "disk_ok limit d" and h: "map_of (disk_files d) h = Some f"
  have "0 \<le> df_size f" using d map_of_SomeD [OF h] by (auto simp: disk_ok_def disk_counted_def list_all_iff)
  then show "disk_ok limit (disk_unlink h (df_size f) d)"
    using unlink_counted [OF _ h] d by (auto simp: disk_ok_def disk_unlink_def)
qed

lemma unlink_all_ok:
  "disk_ok limit d \<Longrightarrow> distinct (map fst xs) \<Longrightarrow> \<forall>(h, f) \<in> set xs. map_of (disk_files d) h = Some f \<Longrightarrow>
   disk_ok limit (foldl (\<lambda>d (h, f). disk_unlink h (df_size f) d) d xs)"
proof (induction xs arbitrary: d)
  case (Cons e xs)
  obtain h f where e: "e = (h, f)" by force
  have "disk_ok limit (disk_unlink h (df_size f) d)" using Cons.prems e unlink_ok by auto
  moreover have "\<forall>(h', f') \<in> set xs. map_of (disk_files (disk_unlink h (df_size f) d)) h' = Some f'"
  proof clarify
    fix h' f' assume m: "(h', f') \<in> set xs"
    then have "h' \<in> fst ` set xs" by force
    then have "h' \<noteq> h" using Cons.prems(2) e by auto
    moreover have "map_of (disk_files d) h' = Some f'" using Cons.prems(3) m by auto
    ultimately show "map_of (disk_files (disk_unlink h (df_size f) d)) h' = Some f'"
      by (simp add: disk_unlink_def)
  qed
  ultimately show ?case using Cons.IH [of "disk_unlink h (df_size f) d"] Cons.prems(2) e by simp
qed simp

lemma unlink_all_keys:
  "fst ` set (disk_files (foldl (\<lambda>d (h, f). disk_unlink h (df_size f) d) d xs)) = fst ` set (disk_files d) - fst ` set xs"
proof (induction xs arbitrary: d)
  case (Cons e xs)
  obtain h f where e: "e = (h, f)" by force
  have "fst ` set (disk_files (disk_unlink h (df_size f) d)) = fst ` set (disk_files d) - {h}"
    by (simp add: disk_unlink_def keys_delete)
  then show ?case using Cons e by auto
qed simp

lemma scan_ok:
  assumes "disk_ok limit d"
  shows "disk_ok limit (snd (scan_and_delete p d))"
proof -
  have wf: "distinct (map fst (disk_files d))" using assms by (simp add: disk_ok_def disk_counted_def js_wf_def)
  let ?hit = "filter (\<lambda>(h, f). case df_entry f of None \<Rightarrow> False | Some e \<Rightarrow> p e) (disk_files d)"
  have "distinct (map fst ?hit)" using wf by (rule distinct_map_filter)
  moreover have "\<forall>(h, f) \<in> set ?hit. map_of (disk_files d) h = Some f"
    using map_of_is_SomeI [OF wf] by auto
  ultimately show ?thesis using unlink_all_ok [OF assms] by (simp add: scan_and_delete_def Let_def)
qed

lemma rotate_max: "maxDiskBytes (disk_rotate d) = maxDiskBytes d"
proof -
  have "maxDiskBytes (rotate_loop a b es d') = maxDiskBytes d'" for a b es d'
    by (induction a b es d' rule: rotate_loop.induct) (auto simp: disk_unlink_def)
  then show ?thesis by (simp add: disk_rotate_def)
qed

lemma disk_set_ok:
  assumes "disk_ok limit d" "0 \<le> enc e"
  shows "disk_ok limit (disk_set enc h e d)"
proof -
  let ?d = "d\<lparr>disk_files := AList.update h \<lparr>df_entry = Some e, df_size = enc e\<rparr> (disk_files d),
           bytesOnDisk := bytesOnDisk d + enc e\<rparr>"
  have "disk_total ?d \<le> disk_total d + enc e"
  proof (cases "map_of (disk_files d) h")
    case None
    then show ?thesis by (simp add: disk_total_def js_sum_new js_has_def)
  next
    case (Some f)
    have "0 \<le> df_size f" using assms map_of_SomeD [OF Some] by (auto simp: disk_ok_def disk_counted_def list_all_iff)
    then show ?thesis using js_sum_set [OF Some, of df_size "\<lparr>df_entry = Some e, df_size = enc e\<rparr>"]
      by (simp add: disk_total_def)
  qed
  then have c: "disk_counted ?d" using assms by (auto simp: disk_ok_def disk_counted_def list_all_update)
  show ?thesis
  proof (cases "bytesOnDisk ?d > maxDiskBytes ?d")
    case False
    then show ?thesis using c assms by (auto simp: disk_set_def Let_def disk_ok_def disk_counted_def)
  next
    case True
    have "rotation_target ?d \<le> max 0 limit" using assms by (simp add: rotation_target_def disk_ok_def)
    then have "disk_total (disk_rotate ?d) \<le> max 0 limit" using rotate_total [OF c] by linarith
    moreover have "disk_set enc h e d = disk_rotate ?d" using True by (simp add: disk_set_def Let_def)
    moreover have "maxDiskBytes (disk_rotate ?d) = limit" using assms(1) by (simp add: rotate_max disk_ok_def)
    ultimately show ?thesis using rotate_counted [OF c] by (simp only: disk_ok_def)
  qed
qed

lemma disk_clear_ok:
  assumes "disk_ok limit d"
  shows "disk_ok limit (disk_clear d)"
proof -
  let ?c = "snd (scan_and_delete (\<lambda>_. True) d)"
  have "filter (\<lambda>(h, f). case df_entry f of None \<Rightarrow> False | Some e \<Rightarrow> True) (disk_files d) = disk_files d"
    using assms by (auto simp: disk_ok_def disk_counted_def list_all_iff filter_id_conv split: option.splits)
  then have "disk_files ?c = []" using unlink_all_keys [of d "disk_files d"] by (simp add: scan_and_delete_def Let_def)
  then show ?thesis using scan_ok [OF assms, of "\<lambda>_. True"]
    by (simp add: disk_clear_def disk_ok_def disk_counted_def disk_total_def)
qed

lemma disk_step_ok:
  assumes "\<And>e. 0 \<le> enc e" "disk_ok limit d"
  shows "disk_ok limit (disk_step enc d x)"
proof (cases x)
  case (DiskGet h)
  have "disk_files (snd (disk_get h d)) = disk_files d" "bytesOnDisk (snd (disk_get h d)) = bytesOnDisk d"
    "maxDiskBytes (snd (disk_get h d)) = maxDiskBytes d"
    by (simp_all add: disk_get_def split: option.split)
  then show ?thesis using assms DiskGet by (simp add: disk_ok_def disk_counted_def disk_total_def)
next
  case (DiskDelete h)
  then show ?thesis using assms unlink_ok by (auto simp: disk_delete_def split: option.split)
qed (use assms in \<open>simp_all add: disk_set_ok scan_ok disk_clear_ok disk_invalidateByPrefix_def disk_invalidateServer_def\<close>)

text \<open>The disk tier stays within its limit. Starting from an empty directory, after any run of reads,
  writes (each followed by the rotation it triggers), deletions and invalidations, the files the
  cache keeps never take more than the configured number of bytes, and its own count is never
  below what they take.\<close>

theorem disk_within_limit:
  assumes "\<And>e. 0 \<le> enc e" and "0 \<le> limit"
  shows "disk_total (foldl (disk_step enc) (new_disk limit []) xs) \<le> limit
       \<and> disk_total (foldl (disk_step enc) (new_disk limit []) xs)
         \<le> bytesOnDisk (foldl (disk_step enc) (new_disk limit []) xs)"
proof -
  have "disk_ok limit (foldl (disk_step enc) d xs)" if "disk_ok limit d" for d
    using that by (induction xs arbitrary: d) (auto intro: disk_step_ok assms(1))
  moreover have "disk_ok limit (new_disk limit [])"
    by (simp add: disk_ok_def new_disk_def disk_counted_def disk_total_def)
  ultimately have "disk_ok limit (foldl (disk_step enc) (new_disk limit []) xs)" by blast
  then show ?thesis using assms(2) by (auto simp: disk_ok_def disk_counted_def)
qed

definition demo_entry :: "time \<Rightarrow> disk_entry" where
  "demo_entry t = \<lparr>de_value = JNull, de_storedAt = t, de_ttlMs = 100, de_server = ''s'', de_tool = ''t''\<rparr>"

theorem disk_within_limit_witness:
  "disk_total (foldl (disk_step (\<lambda>_. 10)) (new_disk 25 [])
     [DiskSet ''a'' (demo_entry 1), DiskSet ''b'' (demo_entry 2), DiskSet ''c'' (demo_entry 3)]) \<le> 25"
  by (rule disk_within_limit [THEN conjunct1]) auto

end
