(* ===== verification/Delta.thy ===== *)
theory Delta
  imports Json
begin

text \<open>
  Differences between results: \<open>src/src/cache/delta.ts\<close>. Object keys are not the names of properties
  that every object inherits (such as \<open>toString\<close>), so that \<open>key in obj\<close> asks for an own property.
\<close>

text \<open>The UTF-8 length of a text, on the characters of this development's code page: those with three
  bytes in UTF-8 are the euro sign, dashes, quotation marks and the like.\<close>

definition three_bytes :: "nat list" where
  "three_bytes = [128, 130, 132, 133, 134, 135, 137, 139, 145, 146, 147, 148, 149, 150, 151, 153, 155]"

definition utf8_bytes :: "char \<Rightarrow> nat" where
  "utf8_bytes c = (let n = of_char c in if n < 128 then 1 else if n \<in> set three_bytes then 3 else 2)"

definition byteLength :: "string \<Rightarrow> nat" where
  "byteLength s = sum_list (map utf8_bytes s)"

record delta_result =
  d_unchanged :: bool
  d_added :: "json list option"
  d_removed :: "json list option"
  d_modified :: "(json \<times> json) list option"
  d_full :: "json option"

definition delta_unchanged :: delta_result where
  "delta_unchanged = \<lparr>d_unchanged = True, d_added = None, d_removed = None, d_modified = None, d_full = None\<rparr>"

definition delta_full :: "json \<Rightarrow> delta_result" where
  "delta_full v = \<lparr>d_unchanged = False, d_added = None, d_removed = None, d_modified = None, d_full = Some v\<rparr>"

text \<open>A list that is left out when it is empty.\<close>

definition unless_empty :: "'a list \<Rightarrow> 'a list option" where
  "unless_empty xs = (if length xs > 0 then Some xs else None)"

definition deepEqual :: "json \<Rightarrow> json \<Rightarrow> bool" where
  "deepEqual a b \<longleftrightarrow> json_stringify a = json_stringify b"

text \<open>The delta as a JSON value; properties that are \<open>undefined\<close> are not written.\<close>

definition delta_json :: "delta_result \<Rightarrow> json" where
  "delta_json d = JObj
     ((''unchanged'', JBool (d_unchanged d))
      # (case d_added d of None \<Rightarrow> [] | Some xs \<Rightarrow> [(''added'', JArr xs)])
      @ (case d_removed d of None \<Rightarrow> [] | Some xs \<Rightarrow> [(''removed'', JArr xs)])
      @ (case d_modified d of None \<Rightarrow> []
         | Some xs \<Rightarrow> [(''modified'', JArr (map (\<lambda>(b, a). JObj [(''before'', b), (''after'', a)]) xs))])
      @ (case d_full d of None \<Rightarrow> [] | Some v \<Rightarrow> [(''full'', v)]))"

definition shouldReturnFull :: "delta_result \<Rightarrow> json \<Rightarrow> bool" where
  "shouldReturnFull d current \<longleftrightarrow>
     byteLength (json_stringify (delta_json d)) > byteLength (json_stringify current)"

definition arrayDelta :: "json list \<Rightarrow> json list \<Rightarrow> delta_result" where
  "arrayDelta prev cur =
     (let added = filter (\<lambda>item. \<not> list_ex (\<lambda>p. deepEqual p item) prev) cur;
          removed = filter (\<lambda>item. \<not> list_ex (\<lambda>c. deepEqual c item) cur) prev;
          d = \<lparr>d_unchanged = False, d_added = unless_empty added, d_removed = unless_empty removed,
               d_modified = None, d_full = None\<rparr>
      in if shouldReturnFull d (JArr cur) then delta_full (JArr cur) else d)"

type_synonym properties = "(string \<times> json) list"

definition all_keys :: "properties \<Rightarrow> properties \<Rightarrow> string list" where
  "all_keys prev cur = map fst prev @ filter (\<lambda>k. k \<notin> fst ` set prev) (map fst cur)"

definition objectDelta :: "properties \<Rightarrow> properties \<Rightarrow> delta_result" where
  "objectDelta prev cur =
     (let ks = all_keys prev cur;
          added = List.map_filter (\<lambda>k. case (map_of prev k, map_of cur k) of
                    (None, Some c) \<Rightarrow> Some (JObj [(k, c)]) | _ \<Rightarrow> None) ks;
          removed = List.map_filter (\<lambda>k. case (map_of prev k, map_of cur k) of
                    (Some p, None) \<Rightarrow> Some (JObj [(k, p)]) | _ \<Rightarrow> None) ks;
          modified = List.map_filter (\<lambda>k. case (map_of prev k, map_of cur k) of
                    (Some p, Some c) \<Rightarrow> if deepEqual p c then None else Some (JObj [(k, p)], JObj [(k, c)])
                  | _ \<Rightarrow> None) ks;
          d = \<lparr>d_unchanged = False, d_added = unless_empty added, d_removed = unless_empty removed,
               d_modified = unless_empty modified, d_full = None\<rparr>
      in if shouldReturnFull d (JObj cur) then delta_full (JObj cur) else d)"

fun computeDelta :: "json \<Rightarrow> json \<Rightarrow> delta_result" where
  "computeDelta previous current =
     (if deepEqual previous current then delta_unchanged
      else (case (previous, current) of
              (JArr p, JArr c) \<Rightarrow> arrayDelta p c
            | (JObj p, JObj c) \<Rightarrow> objectDelta p c
            | _ \<Rightarrow> delta_full current))"

declare computeDelta.simps [simp del]

subsection \<open>Reading a delta\<close>

text \<open>
  What a caller can tell of the current result from the previous one and the delta: the set of items
  of an array, or the value of every property of an object.
\<close>

definition items_after :: "json list \<Rightarrow> delta_result \<Rightarrow> json set" where
  "items_after prev d =
     (if d_unchanged d then set prev
      else (case d_full d of
              Some (JArr xs) \<Rightarrow> set xs
            | Some v \<Rightarrow> {}
            | None \<Rightarrow> (set prev - set (nullish (d_removed d) [])) \<union> set (nullish (d_added d) [])))"

fun single :: "json \<Rightarrow> properties" where
  "single (JObj kvs) = kvs"
| "single v = []"

definition properties_after :: "properties \<Rightarrow> delta_result \<Rightarrow> string \<Rightarrow> json option" where
  "properties_after prev d =
     (if d_unchanged d then map_of prev
      else (case d_full d of
              Some (JObj kvs) \<Rightarrow> map_of kvs
            | Some v \<Rightarrow> Map.empty
            | None \<Rightarrow>
                (\<lambda>k. case map_of (concat (map (single \<circ> snd) (nullish (d_modified d) [])
                              @ map single (nullish (d_added d) []))) k of
                       Some v \<Rightarrow> Some v
                     | None \<Rightarrow>
                         (if map_of (concat (map single (nullish (d_removed d) []))) k \<noteq> None
                          then None else map_of prev k))))"

lemma deepEqual_eq [simp]: "deepEqual a b \<longleftrightarrow> a = b"
  by (simp add: deepEqual_def json_stringify_inj)

lemma unless_empty_nullish [simp]: "nullish (unless_empty xs) [] = xs"
  by (simp add: unless_empty_def nullish_def)

text \<open>A delta between arrays tells the items. From the previous array and the delta a caller gets
  exactly the set of items of the current array (order and repetitions are not tracked), and
  the delta says \<open>unchanged\<close> exactly when the two arrays are the same.\<close>

theorem array_delta_tells_items:
  "items_after prev (computeDelta (JArr prev) (JArr cur)) = set cur
   \<and> (d_unchanged (computeDelta (JArr prev) (JArr cur)) \<longleftrightarrow> prev = cur)"
proof -
  have "list_ex (\<lambda>p. p = x) xs \<longleftrightarrow> x \<in> set xs" for x :: json and xs by (auto simp: list_ex_iff)
  then show ?thesis
    by (auto simp: computeDelta.simps arrayDelta_def Let_def items_after_def delta_unchanged_def delta_full_def)
qed

lemma all_keys_distinct: "distinct (map fst prev) \<Longrightarrow> distinct (map fst cur) \<Longrightarrow> distinct (all_keys prev cur)"
  by (auto simp: all_keys_def)

lemma all_keys_set: "k \<in> set (all_keys prev cur) \<longleftrightarrow> map_of prev k \<noteq> None \<or> map_of cur k \<noteq> None"
  by (auto simp: all_keys_def map_of_eq_None_iff)

lemma added_singles:
  assumes "distinct ks"
  shows "map_of (concat (map single (List.map_filter (\<lambda>k. case (map_of prev k, map_of cur k) of
            (None, Some c) \<Rightarrow> Some (JObj [(k, c)]) | _ \<Rightarrow> None) ks))) k
       = (if k \<in> set ks \<and> map_of prev k = None then map_of cur k else None)"
  using assms by (induction ks) (auto simp: List.map_filter_simps split: option.splits)

lemma removed_singles:
  assumes "distinct ks"
  shows "map_of (concat (map single (List.map_filter (\<lambda>k. case (map_of prev k, map_of cur k) of
            (Some p, None) \<Rightarrow> Some (JObj [(k, p)]) | _ \<Rightarrow> None) ks))) k
       = (if k \<in> set ks \<and> map_of cur k = None then map_of prev k else None)"
  using assms by (induction ks) (auto simp: List.map_filter_simps split: option.splits)

lemma modified_singles:
  assumes "distinct ks"
  shows "map_of (concat (map (single \<circ> snd) (List.map_filter (\<lambda>k. case (map_of prev k, map_of cur k) of
            (Some p, Some c) \<Rightarrow> if deepEqual p c then None else Some (JObj [(k, p)], JObj [(k, c)]) | _ \<Rightarrow> None) ks))) k
       = (if k \<in> set ks \<and> map_of prev k \<noteq> None \<and> map_of prev k \<noteq> map_of cur k then map_of cur k else None)"
  using assms by (induction ks) (auto simp: List.map_filter_simps split: option.splits)

text \<open>A delta between objects tells every property. For objects whose keys are distinct, a caller gets
  from the previous object and the delta the value of every property of the current one, and that
  no other property is there.\<close>

theorem object_delta_tells_properties:
  assumes "distinct (map fst prev)" and "distinct (map fst cur)"
  shows "properties_after prev (computeDelta (JObj prev) (JObj cur)) = map_of cur"
proof (cases "prev = cur")
  case True
  then show ?thesis by (simp add: computeDelta.simps properties_after_def delta_unchanged_def)
next
  case False
  then have c: "computeDelta (JObj prev) (JObj cur) = objectDelta prev cur" by (simp add: computeDelta.simps)
  note d = all_keys_distinct [OF assms]
  show ?thesis
  proof (rule ext)
    fix k
    show "properties_after prev (computeDelta (JObj prev) (JObj cur)) k = map_of cur k"
      unfolding c objectDelta_def Let_def
      using added_singles [OF d, of prev cur k] removed_singles [OF d, of prev cur k]
        modified_singles [OF d, of prev cur k]
      by (auto simp: properties_after_def delta_full_def map_add_def all_keys_set split: option.split)
  qed
qed

theorem object_delta_tells_properties_witness:
  "properties_after [(''a'', JNum 1), (''b'', JNum 2)]
     (computeDelta (JObj [(''a'', JNum 1), (''b'', JNum 2)]) (JObj [(''c'', JNull), (''a'', JNum 3)])) ''a'' = Some (JNum 3)"
  using object_delta_tells_properties [of "[(''a'', JNum 1), (''b'', JNum 2)]" "[(''c'', JNull), (''a'', JNum 3)]"]
  by simp

end
