(* ===== verification/CacheLayer.thy ===== *)
theory CacheLayer
  imports CacheTiers Delta
begin

text \<open>
  The cache the bridge asks before it calls a backend: \<open>src/src/cache/cache.ts\<close>. A \<open>get\<close> has two
  synchronous parts, the look into memory and, after the disk has been read, the decision on what
  it held; \<open>now\<close> is the instant of the call and \<open>later\<close> that of the second part.
\<close>

datatype hit_source = FromMemory | FromDisk

record cache_hit =
  hit_value :: json
  hit_storedAt :: time
  hit_source :: hit_source
  hit_staleness :: int
  needsRevalidation :: "bool option"

record cache_layer =
  cl_lru :: memory_lru
  cl_disk :: disk_cache
  cl_diskMisses :: nat
  ttlMap :: "(string, int) jsmap"
  revalidating :: "string list"
  staleWhileRevalidate :: bool
  cl_policies :: server_policies
  subscribed :: bool

definition new_cache :: "bool option \<Rightarrow> server_policies \<Rightarrow> int \<Rightarrow> (string, disk_file) jsmap \<Rightarrow> cache_layer" where
  "new_cache swr policies maxBytes found =
     \<lparr>cl_lru = new_lru, cl_disk = new_disk maxBytes found, cl_diskMisses = 0, ttlMap = [],
      revalidating = [], staleWhileRevalidate = nullish swr True, cl_policies = policies, subscribed = True\<rparr>"

definition cache_id :: "(string \<Rightarrow> string) \<Rightarrow> string \<Rightarrow> string \<Rightarrow> json option \<Rightarrow> string" where
  "cache_id sha server tool args = cacheKeyToString (buildCacheKey sha server tool args)"

definition is_stale :: "int \<Rightarrow> int \<Rightarrow> bool" where
  "is_stale ttlMs age \<longleftrightarrow> ttlMs > 0 \<and> age > ttlMs"

text \<open>The first part: \<open>None\<close> means that the disk is asked.\<close>

definition get_from_memory :: "time \<Rightarrow> string \<Rightarrow> cache_layer \<Rightarrow> cache_hit option \<times> cache_layer" where
  "get_from_memory now key c =
     (let (mem, lru') = lru_get now key (cl_lru c); c1 = c\<lparr>cl_lru := lru'\<rparr> in
      case mem of
        None \<Rightarrow> (None, c1)
      | Some m \<Rightarrow>
          (let ttlMs = nullish (map_of (ttlMap c) key) 0; age = now - mh_storedAt m in
           if \<not> is_stale ttlMs age
           then (Some \<lparr>hit_value = mh_value m, hit_storedAt = mh_storedAt m, hit_source = FromMemory,
                   hit_staleness = age, needsRevalidation = None\<rparr>, c1)
           else if staleWhileRevalidate c
           then (Some \<lparr>hit_value = mh_value m, hit_storedAt = mh_storedAt m, hit_source = FromMemory,
                   hit_staleness = age, needsRevalidation = Some (key \<notin> set (revalidating c))\<rparr>, c1)
           else (None, c1\<lparr>cl_lru := snd (lru_delete key lru')\<rparr>)))"

definition remember :: "string list \<Rightarrow> time \<Rightarrow> string \<Rightarrow> json \<Rightarrow> int \<Rightarrow> int \<Rightarrow> cache_layer \<Rightarrow> cache_layer" where
  "remember ev now key v keep ttlMs c =
     c\<lparr>cl_lru := lru_set ev now key v keep (cl_lru c), ttlMap := AList.update key ttlMs (ttlMap c)\<rparr>"

definition disk_hit :: "time \<Rightarrow> disk_entry \<Rightarrow> bool option \<Rightarrow> cache_hit" where
  "disk_hit now e flag =
     \<lparr>hit_value = de_value e, hit_storedAt = de_storedAt e, hit_source = FromDisk,
      hit_staleness = now - de_storedAt e, needsRevalidation = flag\<rparr>"

definition get_from_disk ::
    "string list \<Rightarrow> time \<Rightarrow> time \<Rightarrow> string \<Rightarrow> string \<Rightarrow> cache_layer \<Rightarrow> cache_hit option \<times> cache_layer" where
  "get_from_disk ev now later key h c =
     (let (found, disk') = disk_get h (cl_disk c); c1 = c\<lparr>cl_disk := disk'\<rparr> in
      case found of
        None \<Rightarrow> (None, c1\<lparr>cl_diskMisses := cl_diskMisses c + 1\<rparr>)
      | Some e \<Rightarrow>
          (let entryTtl = (if de_ttlMs e > 0 then de_ttlMs e else nullish (map_of (ttlMap c) key) 0);
               staleness = now - de_storedAt e in
           if \<not> is_stale entryTtl staleness
           then (Some (disk_hit now e None),
                 remember ev later key (de_value e)
                   (if entryTtl > 0 then max 1 (entryTtl - staleness) else 0) entryTtl c1)
           else if staleWhileRevalidate c
           then (Some (disk_hit now e (Some (key \<notin> set (revalidating c)))),
                 remember ev later key (de_value e) (max 1 entryTtl) entryTtl c1)
           else (None, c1\<lparr>cl_disk := snd (disk_delete h disk'), cl_diskMisses := cl_diskMisses c + 1\<rparr>)))"

definition cache_get ::
    "(string \<Rightarrow> string) \<Rightarrow> string list \<Rightarrow> time \<Rightarrow> time \<Rightarrow> string \<Rightarrow> string \<Rightarrow> json option \<Rightarrow> cache_layer
     \<Rightarrow> cache_hit option \<times> cache_layer" where
  "cache_get sha ev now later server tool args c =
     (case get_from_memory now (cache_id sha server tool args) c of
        (Some hit, c1) \<Rightarrow> (Some hit, c1)
      | (None, c1) \<Rightarrow> get_from_disk ev now later (cache_id sha server tool args) (hashArgs sha args) c1)"

definition cache_delta ::
    "(string \<Rightarrow> string) \<Rightarrow> string list \<Rightarrow> time \<Rightarrow> time \<Rightarrow> string \<Rightarrow> string \<Rightarrow> json option \<Rightarrow> json \<Rightarrow> cache_layer
     \<Rightarrow> delta_result \<times> cache_layer" where
  "cache_delta sha ev now later server tool args current c =
     (case cache_get sha ev now later server tool args c of
        (None, c1) \<Rightarrow> (delta_full current, c1)
      | (Some hit, c1) \<Rightarrow> (computeDelta (hit_value hit) current, c1))"

definition effective_ttl :: "cache_layer \<Rightarrow> tool_definition option \<Rightarrow> int option \<Rightarrow> int" where
  "effective_ttl c tool ttl = nullish ttl (resolveTtl tool (cl_policies c))"

text \<open>\<open>tool\<close> is what the registry knows of the tool, \<open>ttl\<close> the option of the caller.\<close>

definition cache_set ::
    "(string \<Rightarrow> string) \<Rightarrow> (disk_entry \<Rightarrow> int) \<Rightarrow> string list \<Rightarrow> time \<Rightarrow> tool_definition option
     \<Rightarrow> string \<Rightarrow> string \<Rightarrow> json option \<Rightarrow> json \<Rightarrow> int option \<Rightarrow> cache_layer \<Rightarrow> cache_layer" where
  "cache_set sha enc ev now toolDef server tool args result ttl c =
     (let ttlMs = effective_ttl c toolDef ttl in
      if ttlMs = 0 then c
      else (let c1 = remember ev now (cache_id sha server tool args) result ttlMs ttlMs c in
        c1\<lparr>cl_disk := disk_set enc (hashArgs sha args)
              \<lparr>de_value = result, de_storedAt = now, de_ttlMs = ttlMs, de_server = server, de_tool = tool\<rparr>
              (cl_disk c1)\<rparr>))"

definition drop_prefix :: "string \<Rightarrow> cache_layer \<Rightarrow> nat \<times> cache_layer" where
  "drop_prefix p c =
     (let (m, lru') = lru_invalidateByPrefix p (cl_lru c);
          (n, disk') = disk_invalidateByPrefix p (cl_disk c)
      in (m + n, c\<lparr>cl_lru := lru', cl_disk := disk'\<rparr>))"

definition cache_invalidate :: "string \<Rightarrow> string option \<Rightarrow> cache_layer \<Rightarrow> nat \<times> cache_layer" where
  "cache_invalidate server pattern c =
     drop_prefix (case pattern of
        None \<Rightarrow> server @ '':''
      | Some p \<Rightarrow> (if p = [] then server @ '':'' else server @ '':'' @ p)) c"

text \<open>The listener on the registry.\<close>

definition on_registry_event :: "registry_event \<Rightarrow> cache_layer \<Rightarrow> cache_layer" where
  "on_registry_event ev c =
     (if subscribed c \<and> ev_type ev = ToolUpdated
      then snd (drop_prefix (ev_server ev @ '':'' @ nullish (ev_tool ev) [] @ '':'') c) else c)"

definition cache_destroy :: "cache_layer \<Rightarrow> cache_layer" where
  "cache_destroy c = c\<lparr>subscribed := False\<rparr>"

definition cache_clear :: "cache_layer \<Rightarrow> cache_layer" where
  "cache_clear c =
     c\<lparr>cl_lru := lru_resetCounters (lru_clear (cl_lru c)), ttlMap := [], cl_diskMisses := 0,
       cl_disk := disk_clear (cl_disk c)\<rparr>"

definition wouldCache :: "tool_definition option \<Rightarrow> cache_layer \<Rightarrow> bool" where
  "wouldCache toolDef c = isCacheable toolDef (cl_policies c)"

record cache_stats =
  memoryHits :: nat
  diskHits :: nat
  stat_misses :: nat
  stat_bytesOnDisk :: int

definition cache_stats_of :: "cache_layer \<Rightarrow> cache_stats" where
  "cache_stats_of c =
     \<lparr>memoryHits = lru_hits (cl_lru c), diskHits = disk_hits (cl_disk c), stat_misses = cl_diskMisses c,
      stat_bytesOnDisk = bytesOnDisk (cl_disk c)\<rparr>"

text \<open>\<open>refreshInBackground\<close>: the call (does it start a fetch?) and the end of the fetch.\<close>

definition refresh_begin :: "string \<Rightarrow> cache_layer \<Rightarrow> bool \<times> cache_layer" where
  "refresh_begin key c =
     (if key \<in> set (revalidating c) then (False, c) else (True, c\<lparr>revalidating := revalidating c @ [key]\<rparr>))"

definition refresh_end ::
    "(string \<Rightarrow> string) \<Rightarrow> (disk_entry \<Rightarrow> int) \<Rightarrow> string list \<Rightarrow> time \<Rightarrow> tool_definition option
     \<Rightarrow> string \<Rightarrow> string \<Rightarrow> json option \<Rightarrow> 'e + json \<Rightarrow> cache_layer \<Rightarrow> cache_layer" where
  "refresh_end sha enc ev now toolDef server tool args fetched c =
     (let c1 = (case fetched of
          Inl e \<Rightarrow> c
        | Inr v \<Rightarrow> cache_set sha enc ev now toolDef server tool args v None c)
      in c1\<lparr>revalidating := removeAll (cache_id sha server tool args) (revalidating c1)\<rparr>)"

subsection \<open>A value that was set\<close>

definition disk_room :: "(disk_entry \<Rightarrow> int) \<Rightarrow> disk_entry \<Rightarrow> cache_layer \<Rightarrow> bool" where
  "disk_room enc e c \<longleftrightarrow> bytesOnDisk (cl_disk c) + enc e \<le> maxDiskBytes (cl_disk c)"

definition cache_wf :: "cache_layer \<Rightarrow> bool" where
  "cache_wf c \<longleftrightarrow> js_wf (lru_entries (cl_lru c))"

lemma disk_set_room:
  assumes "bytesOnDisk d + enc e \<le> maxDiskBytes d"
  shows "map_of (disk_files (disk_set enc h e d)) h = Some \<lparr>df_entry = Some e, df_size = enc e\<rparr>"
  using assms by (simp add: disk_set_def Let_def)

lemma disk_get_entry:
  "map_of (disk_files d) h = Some \<lparr>df_entry = Some e, df_size = n\<rparr> \<Longrightarrow>
   disk_get h d = (Some e, d\<lparr>disk_hits := disk_hits d + 1\<rparr>)"
  by (simp add: disk_get_def)

lemma lru_get_miss:
  "mem_lookup m k = None \<or> (\<exists>e. mem_lookup m k = Some e \<and> \<not> fresh_entry now e) \<Longrightarrow> fst (lru_get now k m) = None"
  by (auto simp: lru_get_def mem_lookup_def fresh_entry_def)

lemma get_memory_miss:
  assumes "mem_lookup (cl_lru c) key = None \<or> (\<exists>e. mem_lookup (cl_lru c) key = Some e \<and> \<not> fresh_entry now e)"
  shows "\<exists>m. get_from_memory now key c = (None, c\<lparr>cl_lru := m\<rparr>)"
  using lru_get_miss [OF assms] by (cases "lru_get now key (cl_lru c)") (auto simp: get_from_memory_def)

lemma fst_get_from_disk:
  assumes "map_of (disk_files (cl_disk c)) h = Some \<lparr>df_entry = Some e, df_size = n\<rparr>"
    and "0 < de_ttlMs e"
  shows "fst (get_from_disk ev now later key h c) =
     (if now - de_storedAt e \<le> de_ttlMs e then Some (disk_hit now e None)
      else if staleWhileRevalidate c then Some (disk_hit now e (Some (key \<notin> set (revalidating c))))
      else None)"
  using disk_get_entry [OF assms(1)] assms(2) by (simp add: get_from_disk_def Let_def is_stale_def)

lemma set_then_get:
  assumes "cache_wf c" and "effective_ttl c toolDef ttl = T" and "0 < T"
    and "disk_room enc \<lparr>de_value = v, de_storedAt = t0, de_ttlMs = T, de_server = s, de_tool = t\<rparr> c"
  shows "fst (cache_get sha ev' now later s t args (cache_set sha enc ev t0 toolDef s t args v ttl c)) =
     (if now - t0 \<le> T
      then Some \<lparr>hit_value = v, hit_storedAt = t0,
             hit_source = (if cache_id sha s t args \<in> set ev then FromDisk else FromMemory),
             hit_staleness = now - t0, needsRevalidation = None\<rparr>
      else if staleWhileRevalidate c
      then Some \<lparr>hit_value = v, hit_storedAt = t0, hit_source = FromDisk, hit_staleness = now - t0,
             needsRevalidation = Some (cache_id sha s t args \<notin> set (revalidating c))\<rparr>
      else None)"
proof -
  let ?key = "cache_id sha s t args" and ?h = "hashArgs sha args"
  let ?e = "\<lparr>de_value = v, de_storedAt = t0, de_ttlMs = T, de_server = s, de_tool = t\<rparr>"
  let ?c = "cache_set sha enc ev t0 toolDef s t args v ttl c"
  let ?l = "\<lparr>le_value = v, le_storedAt = t0, le_ttlMs = T\<rparr>"
  have c: "?c = (remember ev t0 ?key v T T c)\<lparr>cl_disk := disk_set enc ?h ?e (cl_disk c)\<rparr>"
    using assms(2,3) by (simp add: cache_set_def Let_def remember_def)
  have mem: "mem_lookup (cl_lru ?c) ?key = (if ?key \<in> set ev then None else Some ?l)"
    using assms(1) by (simp add: c remember_def mem_lookup_set cache_wf_def)
  have disk: "map_of (disk_files (cl_disk ?c)) ?h = Some \<lparr>df_entry = Some ?e, df_size = enc ?e\<rparr>"
    using assms(4) by (simp add: c disk_room_def disk_set_room)
  have fresh: "fresh_entry now ?l \<longleftrightarrow> now - t0 \<le> T" using assms(3) by (auto simp: fresh_entry_def)
  show ?thesis
  proof (cases "?key \<notin> set ev \<and> now - t0 \<le> T")
    case True
    then have "lru_get now ?key (cl_lru ?c) =
        (Some \<lparr>mh_value = v, mh_storedAt = t0\<rparr>, (cl_lru ?c)\<lparr>lru_hits := lru_hits (cl_lru ?c) + 1\<rparr>)"
      using lru_get_hit [of "cl_lru ?c" ?key ?l now] mem fresh by simp
    moreover have "map_of (ttlMap ?c) ?key = Some T" by (simp add: c remember_def)
    ultimately show ?thesis using True by (simp add: cache_get_def get_from_memory_def is_stale_def nullish_def)
  next
    case False
    then obtain m where "get_from_memory now ?key ?c = (None, ?c\<lparr>cl_lru := m\<rparr>)"
      using get_memory_miss [of ?c ?key now] mem fresh by fastforce
    then have "fst (cache_get sha ev' now later s t args ?c) = fst (get_from_disk ev' now later ?key ?h (?c\<lparr>cl_lru := m\<rparr>))"
      by (simp add: cache_get_def)
    also have "\<dots> = (if now - t0 \<le> T then Some (disk_hit now ?e None)
      else if staleWhileRevalidate c then Some (disk_hit now ?e (Some (?key \<notin> set (revalidating c)))) else None)"
      using fst_get_from_disk [of "?c\<lparr>cl_lru := m\<rparr>" ?h ?e "enc ?e" ev' now later ?key] disk assms(3)
      by (simp add: c remember_def)
    finally show ?thesis using False by (auto simp: disk_hit_def)
  qed
qed

text \<open>Reading what was written. After a value was set with a positive time to live and no rotation was
  due, a get for the same call gives: the value from memory while it is fresh and memory kept it;
  the value from disk while it is fresh and memory dropped it; after the time to live the value
  from disk, flagged for revalidation unless one is running, when stale values may be served, and
  nothing otherwise. The age reported is the true one.\<close>

theorem cache_set_then_get:
  assumes "cache_wf c" and "effective_ttl c toolDef ttl = T" and "0 < T"
    and "disk_room enc \<lparr>de_value = v, de_storedAt = t0, de_ttlMs = T, de_server = s, de_tool = t\<rparr> c"
  shows "fst (cache_get sha ev' now later s t args (cache_set sha enc ev t0 toolDef s t args v ttl c)) =
     (if now - t0 \<le> T
      then Some \<lparr>hit_value = v, hit_storedAt = t0,
             hit_source = (if cache_id sha s t args \<in> set ev then FromDisk else FromMemory),
             hit_staleness = now - t0, needsRevalidation = None\<rparr>
      else if staleWhileRevalidate c
      then Some \<lparr>hit_value = v, hit_storedAt = t0, hit_source = FromDisk, hit_staleness = now - t0,
             needsRevalidation = Some (cache_id sha s t args \<notin> set (revalidating c))\<rparr>
      else None)"
  using assms by (rule set_then_get)

theorem cache_set_then_get_witness:
  "fst (cache_get (\<lambda>x. x) [] 150 151 ''s'' ''get_x'' None
     (cache_set (\<lambda>x. x) (\<lambda>_. 10) [] 100 None ''s'' ''get_x'' None (JNum 7) (Some 40) (new_cache None [] 1000 [])))
   = Some \<lparr>hit_value = JNum 7, hit_storedAt = 100, hit_source = FromDisk, hit_staleness = 50,
       needsRevalidation = Some True\<rparr>"
proof -
  let ?c = "new_cache None [] 1000 []"
  have "cache_wf ?c" "effective_ttl ?c None (Some 40) = 40" "(0::int) < 40"
    "disk_room (\<lambda>_. 10) \<lparr>de_value = JNum 7, de_storedAt = 100, de_ttlMs = 40, de_server = ''s'', de_tool = ''get_x''\<rparr> ?c"
    by (simp_all add: cache_wf_def new_cache_def new_lru_def new_disk_def effective_ttl_def nullish_def disk_room_def)
  from cache_set_then_get [OF this, of "\<lambda>x. x" "[]" 150 151 None "[]"] show ?thesis
    by (simp add: new_cache_def nullish_def)
qed

subsection \<open>Where values come from\<close>

datatype cache_op =
    CacheGet "string list" time time string string "json option"
  | CacheSet "string list" time "tool_definition option" string string "json option" json "int option"
  | CacheInvalidate string "string option"
  | CacheEvent registry_event
  | CacheClear
  | RefreshBegin string string "json option"
  | RefreshEnd "string list" time "tool_definition option" string string "json option" "string + json"

fun cache_step :: "(string \<Rightarrow> string) \<Rightarrow> (disk_entry \<Rightarrow> int) \<Rightarrow> cache_layer \<Rightarrow> cache_op \<Rightarrow> cache_layer" where
  "cache_step sha enc c (CacheGet ev now later s t args) = snd (cache_get sha ev now later s t args c)"
| "cache_step sha enc c (CacheSet ev now d s t args v ttl) = cache_set sha enc ev now d s t args v ttl c"
| "cache_step sha enc c (CacheInvalidate s p) = snd (cache_invalidate s p c)"
| "cache_step sha enc c (CacheEvent e) = on_registry_event e c"
| "cache_step sha enc c CacheClear = cache_clear c"
| "cache_step sha enc c (RefreshBegin s t args) = snd (refresh_begin (cache_id sha s t args) c)"
| "cache_step sha enc c (RefreshEnd ev now d s t args r) = refresh_end sha enc ev now d s t args r c"

text \<open>The hash and value of everything the calls of a run gave the cache.\<close>

fun given :: "(string \<Rightarrow> string) \<Rightarrow> cache_op \<Rightarrow> (string \<times> json) list" where
  "given sha (CacheSet ev now d s t args v ttl) = [(hashArgs sha args, v)]"
| "given sha (RefreshEnd ev now d s t args (Inr v)) = [(hashArgs sha args, v)]"
| "given sha e = []"

definition given_in :: "(string \<Rightarrow> string) \<Rightarrow> cache_op list \<Rightarrow> (string \<times> json) set" where
  "given_in sha es = set (concat (map (given sha) es))"

definition memory_from :: "(string \<times> json) set \<Rightarrow> (string, lru_entry) jsmap \<Rightarrow> bool" where
  "memory_from L m \<longleftrightarrow> (\<forall>(k, e) \<in> set m. \<exists>a h. k = a @ CHR '':'' # h \<and> CHR '':'' \<notin> set h \<and> (h, le_value e) \<in> L)"

definition disk_from :: "(string \<times> json) set \<Rightarrow> (string, disk_file) jsmap \<Rightarrow> bool" where
  "disk_from L d \<longleftrightarrow> (\<forall>(h, f) \<in> set d. \<forall>e. df_entry f = Some e \<longrightarrow> (h, de_value e) \<in> L)"

definition cache_from :: "(string \<times> json) set \<Rightarrow> cache_layer \<Rightarrow> bool" where
  "cache_from L c \<longleftrightarrow> memory_from L (lru_entries (cl_lru c)) \<and> disk_from L (disk_files (cl_disk c))"

lemma memory_from_mono:
  assumes "memory_from L m" "L \<subseteq> L'" "set m' \<subseteq> set m"
  shows "memory_from L' m'"
  unfolding memory_from_def
proof clarify
  fix k e assume "(k, e) \<in> set m'"
  then have "(k, e) \<in> set m" using assms(3) by blast
  then obtain a h where "k = a @ CHR '':'' # h" "CHR '':'' \<notin> set h" "(h, le_value e) \<in> L"
    using assms(1) by (auto simp: memory_from_def)
  then show "\<exists>a h. k = a @ CHR '':'' # h \<and> CHR '':'' \<notin> set h \<and> (h, le_value e) \<in> L'"
    using assms(2) by blast
qed

lemma disk_from_mono: "disk_from L m \<Longrightarrow> L \<subseteq> L' \<Longrightarrow> set m' \<subseteq> set m \<Longrightarrow> disk_from L' m'"
  unfolding disk_from_def by fast

lemma cache_id_shape: "cache_id sha s t args = (s @ '':'' @ t) @ CHR '':'' # hashArgs sha args"
  by (simp add: cache_id_def cacheKeyToString_def buildCacheKey_def)

lemma same_tail:
  assumes "a @ CHR '':'' # h = b @ CHR '':'' # h'" "CHR '':'' \<notin> set h" "CHR '':'' \<notin> set h'"
  shows "h = h'"
proof -
  have "length a = length b"
    using last_char_index_snoc [OF assms(2), of a] last_char_index_snoc [OF assms(3), of b] assms(1) by simp
  then show ?thesis using assms(1) by simp
qed

lemma hash_no_colon:
  assumes "\<And>x. CHR '':'' \<notin> set (sha x)"
  shows "CHR '':'' \<notin> set (hashArgs sha args)"
  using assms by (simp add: hashArgs_def)

lemma memory_from_set:
  assumes "memory_from L (lru_entries m)" "CHR '':'' \<notin> set (hashArgs sha args)" "(hashArgs sha args, v) \<in> L"
  shows "memory_from L (lru_entries (lru_set ev now (cache_id sha s t args) v ttl m))"
proof -
  have "\<exists>a h. k = a @ CHR '':'' # h \<and> CHR '':'' \<notin> set h \<and> (h, le_value e) \<in> L"
    if m: "(k, e) \<in> set (lru_entries (lru_set ev now (cache_id sha s t args) v ttl m))" for k e
  proof -
    have "(k, e) \<in> set (AList.update (cache_id sha s t args) \<lparr>le_value = v, le_storedAt = now, le_ttlMs = ttl\<rparr> (lru_entries m))"
      using m by (auto simp: lru_set_def js_drop_where_def)
    then consider "k = cache_id sha s t args" "le_value e = v" | "(k, e) \<in> set (lru_entries m)"
      using set_js_set_subset by fastforce
    then show ?thesis
    proof cases
      case 1
      then show ?thesis using assms(2,3) cache_id_shape by blast
    next
      case 2
      then show ?thesis using assms(1) by (auto simp: memory_from_def)
    qed
  qed
  then show ?thesis unfolding memory_from_def by blast
qed

lemma unlink_subset: "set (disk_files (disk_unlink h n d)) \<subseteq> set (disk_files d)"
  by (auto simp: disk_unlink_def dest: set_js_delete_subset)

lemma rotate_loop_subset: "set (disk_files (rotate_loop a b es d)) \<subseteq> set (disk_files d)"
proof (induction a b es d rule: rotate_loop.induct)
  case (2 freed toFree h t sz es d)
  then show ?case using unlink_subset [of h sz d] by auto
qed simp

lemma rotate_subset: "set (disk_files (disk_rotate d)) \<subseteq> set (disk_files d)"
  by (simp add: disk_rotate_def rotate_loop_subset)

lemma unlink_all_subset:
  "set (disk_files (foldl (\<lambda>d (h, f). disk_unlink h (df_size f) d) d xs)) \<subseteq> set (disk_files d)"
proof (induction xs arbitrary: d)
  case (Cons e xs)
  obtain h f where "e = (h, f)" by force
  then show ?case using Cons.IH [of "disk_unlink h (df_size f) d"] unlink_subset [of h "df_size f" d] by auto
qed simp

lemma scan_subset: "set (disk_files (snd (scan_and_delete p d))) \<subseteq> set (disk_files d)"
  by (simp add: scan_and_delete_def Let_def unlink_all_subset)

lemma disk_set_from:
  assumes "disk_from L (disk_files d)" "(h, de_value e) \<in> L"
  shows "disk_from L (disk_files (disk_set enc h e d))"
proof -
  let ?m = "AList.update h \<lparr>df_entry = Some e, df_size = enc e\<rparr> (disk_files d)"
  have "disk_from L ?m" using assms set_js_set_subset by (fastforce simp: disk_from_def)
  moreover have "set (disk_files (disk_set enc h e d)) \<subseteq> set ?m"
    using rotate_subset [of "d\<lparr>disk_files := ?m, bytesOnDisk := bytesOnDisk d + enc e\<rparr>"]
    by (auto simp: disk_set_def Let_def)
  ultimately show ?thesis using disk_from_mono by blast
qed


lemma cache_from_mono:
  assumes "cache_from L c" "L \<subseteq> L'" "set (lru_entries (cl_lru c')) \<subseteq> set (lru_entries (cl_lru c))"
    "set (disk_files (cl_disk c')) \<subseteq> set (disk_files (cl_disk c))"
  shows "cache_from L' c'"
  using assms memory_from_mono disk_from_mono unfolding cache_from_def by blast

lemma lru_get_subset: "set (lru_entries (snd (lru_get now k m))) \<subseteq> set (lru_entries m)"
  by (auto simp: lru_get_def dest: set_js_delete_subset split: option.split)

lemma get_from_memory_subset:
  "set (lru_entries (cl_lru (snd (get_from_memory now key c)))) \<subseteq> set (lru_entries (cl_lru c))"
  "cl_disk (snd (get_from_memory now key c)) = cl_disk c"
proof -
  obtain mem m where g: "lru_get now key (cl_lru c) = (mem, m)" by force
  then have s: "set (lru_entries m) \<subseteq> set (lru_entries (cl_lru c))" using lru_get_subset [of now key "cl_lru c"] by simp
  then show "set (lru_entries (cl_lru (snd (get_from_memory now key c)))) \<subseteq> set (lru_entries (cl_lru c))"
    using g by (auto simp: get_from_memory_def lru_delete_def Let_def dest: set_js_delete_subset split: option.split)
  show "cl_disk (snd (get_from_memory now key c)) = cl_disk c"
    using g by (simp add: get_from_memory_def Let_def split: option.split)
qed

lemma memory_hit_value:
  assumes "fst (get_from_memory now key c) = Some hit"
  shows "\<exists>e. (key, e) \<in> set (lru_entries (cl_lru c)) \<and> le_value e = hit_value hit"
proof (cases "map_of (lru_entries (cl_lru c)) key")
  case None
  then show ?thesis using assms by (simp add: get_from_memory_def lru_get_def)
next
  case (Some e)
  then have "le_value e = hit_value hit"
    using assms by (auto simp: get_from_memory_def lru_get_def Let_def split: if_splits)
  then show ?thesis using map_of_SomeD [OF Some] by blast
qed

lemma disk_get_from:
  assumes "disk_from L (disk_files d)" "fst (disk_get h d) = Some e"
  shows "(h, de_value e) \<in> L"
proof (cases "map_of (disk_files d) h")
  case (Some f)
  then have "df_entry f = Some e" using assms(2) by (simp add: disk_get_def split: option.splits)
  then show ?thesis using assms(1) map_of_SomeD [OF Some] by (auto simp: disk_from_def)
qed (use assms(2) in \<open>simp add: disk_get_def\<close>)

lemma disk_get_files [simp]: "disk_files (snd (disk_get h d)) = disk_files d"
  by (simp add: disk_get_def split: option.split)

lemma disk_delete_subset: "set (disk_files (snd (disk_delete h d))) \<subseteq> set (disk_files d)"
  using unlink_subset by (simp add: disk_delete_def split: option.split)

lemma get_from_disk_from:
  assumes "cache_from L c" "CHR '':'' \<notin> set (hashArgs sha args)"
  shows "cache_from L (snd (get_from_disk ev now later (cache_id sha s t args) (hashArgs sha args) c))
       \<and> (\<forall>hit. fst (get_from_disk ev now later (cache_id sha s t args) (hashArgs sha args) c) = Some hit
            \<longrightarrow> (hashArgs sha args, hit_value hit) \<in> L)"
proof -
  let ?h = "hashArgs sha args"
  obtain found d where g: "disk_get ?h (cl_disk c) = (found, d)" by force
  have d: "disk_files d = disk_files (cl_disk c)" using disk_get_files [of ?h "cl_disk c"] g by simp
  show ?thesis
  proof (cases found)
    case None
    then show ?thesis using g d assms(1) by (simp add: get_from_disk_def cache_from_def)
  next
    case (Some e)
    have L: "(?h, de_value e) \<in> L"
      using disk_get_from [of L "cl_disk c" ?h e] assms(1) g Some by (simp add: cache_from_def)
    then have "cache_from L (remember ev later (cache_id sha s t args) (de_value e) k n (c\<lparr>cl_disk := d\<rparr>))" for k n
      using assms d memory_from_set by (simp add: cache_from_def remember_def)
    moreover have "cache_from L (c\<lparr>cl_disk := snd (disk_delete ?h d), cl_diskMisses := n\<rparr>)" for n
      using assms(1) d disk_delete_subset [of ?h d] disk_from_mono [of L "disk_files d" L]
      by (simp add: cache_from_def)
    ultimately show ?thesis using g Some L
      by (auto simp: get_from_disk_def Let_def disk_hit_def)
  qed
qed

lemma cache_get_from:
  assumes "cache_from L c" "CHR '':'' \<notin> set (hashArgs sha args)"
  shows "cache_from L (snd (cache_get sha ev now later s t args c))
       \<and> (\<forall>hit. fst (cache_get sha ev now later s t args c) = Some hit \<longrightarrow> (hashArgs sha args, hit_value hit) \<in> L)"
proof -
  let ?key = "cache_id sha s t args"
  obtain mem c1 where g: "get_from_memory now ?key c = (mem, c1)" by force
  have c1: "cache_from L c1"
    using cache_from_mono [OF assms(1), of L c1] get_from_memory_subset [of now ?key c] g by simp
  show ?thesis
  proof (cases mem)
    case None
    then show ?thesis using get_from_disk_from [OF c1 assms(2)] g by (simp add: cache_get_def)
  next
    case (Some hit)
    obtain e where e: "(?key, e) \<in> set (lru_entries (cl_lru c))" "le_value e = hit_value hit"
      using memory_hit_value [of now ?key c hit] g Some by auto
    then obtain a h where h: "?key = a @ CHR '':'' # h" "CHR '':'' \<notin> set h" "(h, hit_value hit) \<in> L"
      using assms(1) by (fastforce simp: cache_from_def memory_from_def)
    have "h = hashArgs sha args" using same_tail [OF _ h(2) assms(2)] h(1) cache_id_shape by metis
    then show ?thesis using h(3) c1 g Some by (simp add: cache_get_def)
  qed
qed

lemma cache_set_from:
  assumes "cache_from L c" "CHR '':'' \<notin> set (hashArgs sha args)" "(hashArgs sha args, v) \<in> L"
  shows "cache_from L (cache_set sha enc ev now d s t args v ttl c)"
  using assms memory_from_set [of L "cl_lru c" sha args v] disk_set_from [of L "cl_disk c" "hashArgs sha args"]
  by (simp add: cache_set_def Let_def cache_from_def remember_def)

lemma drop_prefix_from: "cache_from L c \<Longrightarrow> cache_from L (snd (drop_prefix p c))"
proof (rule cache_from_mono)
  show "set (lru_entries (cl_lru (snd (drop_prefix p c)))) \<subseteq> set (lru_entries (cl_lru c))"
    by (auto simp: drop_prefix_def lru_invalidateByPrefix_def js_drop_where_def Let_def split: prod.split)
  show "set (disk_files (cl_disk (snd (drop_prefix p c)))) \<subseteq> set (disk_files (cl_disk c))"
    using scan_subset by (auto simp: drop_prefix_def disk_invalidateByPrefix_def Let_def split: prod.splits) (metis snd_conv subsetD)
qed auto

lemma cache_step_from:
  assumes "cache_from L c" "\<And>x. CHR '':'' \<notin> set (sha x)" "set (given sha e) \<subseteq> L"
  shows "cache_from L (cache_step sha enc c e)"
proof (cases e)
  case (CacheGet ev now later s t args)
  then show ?thesis using cache_get_from [OF assms(1) hash_no_colon [OF assms(2)]] by simp
next
  case (CacheSet ev now d s t args v ttl)
  then show ?thesis using cache_set_from [OF assms(1) hash_no_colon [OF assms(2)]] assms(3) by simp
next
  case (CacheInvalidate s p)
  then show ?thesis using assms(1) by (simp add: cache_invalidate_def drop_prefix_from)
next
  case (CacheEvent ev)
  then show ?thesis using assms(1) by (simp add: on_registry_event_def drop_prefix_from)
next
  case CacheClear
  then show ?thesis using assms(1) disk_from_mono [OF _ subset_refl scan_subset, of L "cl_disk c" "\<lambda>_. True"]
    by (simp add: cache_clear_def cache_from_def lru_clear_def lru_resetCounters_def memory_from_def disk_clear_def)
next
  case (RefreshBegin s t args)
  then show ?thesis using assms(1) by (simp add: refresh_begin_def cache_from_def)
next
  case (RefreshEnd ev now d s t args r)
  show ?thesis
  proof (cases r)
    case (Inl x)
    then show ?thesis using assms(1) RefreshEnd by (simp add: refresh_end_def Let_def cache_from_def)
  next
    case (Inr v)
    then have "cache_from L (cache_set sha enc ev now d s t args v None c)"
      using cache_set_from [OF assms(1) hash_no_colon [OF assms(2)]] assms(3) RefreshEnd by simp
    then show ?thesis using RefreshEnd Inr by (simp add: refresh_end_def Let_def cache_from_def)
  qed
qed

text \<open>The values that a cache directory holds when the cache is created over it, each under the hash
  that names its file. A file that cannot be read as an entry holds no value.\<close>

definition on_disk :: "(string, disk_file) jsmap \<Rightarrow> (string \<times> json) set" where
  "on_disk files = {(h, de_value e) | h f e. (h, f) \<in> set files \<and> df_entry f = Some e}"

lemma on_disk_simps [simp]:
  "on_disk [] = {}"
  "on_disk ((h, f) # files) = (case df_entry f of None \<Rightarrow> {} | Some e \<Rightarrow> {(h, de_value e)}) \<union> on_disk files"
  by (auto simp: on_disk_def split: option.splits)

lemma cache_run_from:
  assumes "\<And>x. CHR '':'' \<notin> set (sha x)"
  shows "cache_from (given_in sha es \<union> on_disk files) (foldl (cache_step sha enc) (new_cache swr ps n files) es)"
proof (induction es rule: rev_induct)
  case Nil
  show ?case
    by (fastforce simp: cache_from_def new_cache_def new_lru_def new_disk_def memory_from_def disk_from_def on_disk_def)
next
  case (snoc e es)
  have "cache_from (given_in sha (es @ [e]) \<union> on_disk files) (foldl (cache_step sha enc) (new_cache swr ps n files) es)"
    using cache_from_mono [OF snoc, of "given_in sha (es @ [e]) \<union> on_disk files"] by (auto simp: given_in_def)
  moreover have "set (given sha e) \<subseteq> given_in sha (es @ [e]) \<union> on_disk files" by (auto simp: given_in_def)
  ultimately show ?case using cache_step_from [OF _ assms, where e = e and enc = enc] by simp
qed

text \<open>C15: The cache invents nothing. A cache is created over a directory with any files, those of an earlier
  process, say, and is run through any reads, writes, invalidations, registry events, clears and
  background refreshes, with any evictions. Then whatever a get returns is a value that was given
  to the cache earlier for arguments with the same hash, or the value of a file of the directory
  that has this hash as its name. The hash, SHA-256 in hexadecimal, contains no colon.\<close>

theorem cache_hits_were_given:
  assumes "\<And>x. CHR '':'' \<notin> set (sha x)"
    and "fst (cache_get sha ev now later s t args (foldl (cache_step sha enc) (new_cache swr ps n files) es)) = Some hit"
  shows "(hashArgs sha args, hit_value hit) \<in> given_in sha es \<union> on_disk files"
  using cache_get_from [OF cache_run_from [of sha, OF assms(1)] hash_no_colon [of sha, OF assms(1)]] assms(2)
  by blast

text \<open>The cache of the example was started over a directory with one file, and another value is set before
  the get.\<close>

theorem cache_hits_were_given_witness:
  "(hashArgs (\<lambda>_. ''h'') None, JNum 7) \<in>
     given_in (\<lambda>_. ''h'') [CacheSet [] 0 None ''s'' ''get_x'' None (JNum 7) (Some 50)]
     \<union> on_disk [(''g'', \<lparr>df_entry = Some (demo_entry 0), df_size = 10\<rparr>)]"
proof -
  have "fst (cache_get (\<lambda>_. ''h'') [] 10 10 ''s'' ''get_x'' None (foldl (cache_step (\<lambda>_. ''h'') (\<lambda>_. 10))
      (new_cache None [] 1000 [(''g'', \<lparr>df_entry = Some (demo_entry 0), df_size = 10\<rparr>)])
      [CacheSet [] 0 None ''s'' ''get_x'' None (JNum 7) (Some 50)]))
    = Some \<lparr>hit_value = JNum 7, hit_storedAt = 0, hit_source = FromMemory, hit_staleness = 10, needsRevalidation = None\<rparr>"
    by (simp add: cache_get_def get_from_memory_def lru_get_def cache_set_def effective_ttl_def nullish_def Let_def
        remember_def lru_set_def js_drop_where_def new_cache_def new_lru_def is_stale_def)
  from cache_hits_were_given [OF _ this] show ?thesis by simp
qed

text \<open>A file of the directory is what a get of the new process returns.\<close>

lemma restart_serves_file:
  assumes "map_of files (hashArgs sha args) = Some \<lparr>df_entry = Some e, df_size = n\<rparr>"
    and "0 < de_ttlMs e" and "now - de_storedAt e \<le> de_ttlMs e"
  shows "fst (cache_get sha ev now later s t args (new_cache swr ps bytes files)) = Some (disk_hit now e None)"
proof -
  let ?c = "new_cache swr ps bytes files" and ?key = "cache_id sha s t args"
  obtain m where "get_from_memory now ?key ?c = (None, ?c\<lparr>cl_lru := m\<rparr>)"
    using get_memory_miss [of ?c ?key now] by (auto simp: mem_lookup_def new_cache_def new_lru_def)
  then show ?thesis
    using fst_get_from_disk [of "?c\<lparr>cl_lru := m\<rparr>" "hashArgs sha args" e n ev now later ?key] assms
    by (simp add: cache_get_def new_cache_def new_disk_def)
qed

text \<open>The disk tier does not know whose value it holds. Its files are named after the hash of the
  arguments alone, so a value that was set for one tool of one server is what a get returns for
  any other tool of any other server with the same arguments that is not in memory, as a fresh hit.\<close>

theorem disk_serves_other_tool:
  assumes "effective_ttl c toolDef ttl = T" and "0 < T" and "now - t0 \<le> T"
    and "disk_room enc \<lparr>de_value = v, de_storedAt = t0, de_ttlMs = T, de_server = s, de_tool = t\<rparr> c"
    and "map_of (lru_entries (cl_lru (cache_set sha enc ev t0 toolDef s t args v ttl c))) (cache_id sha s' t' args) = None"
  shows "\<exists>hit. fst (cache_get sha ev' now later s' t' args (cache_set sha enc ev t0 toolDef s t args v ttl c)) = Some hit
      \<and> hit_value hit = v \<and> needsRevalidation hit = None"
proof -
  let ?h = "hashArgs sha args" and ?key = "cache_id sha s' t' args"
  let ?e = "\<lparr>de_value = v, de_storedAt = t0, de_ttlMs = T, de_server = s, de_tool = t\<rparr>"
  let ?c = "cache_set sha enc ev t0 toolDef s t args v ttl c"
  have disk: "map_of (disk_files (cl_disk ?c)) ?h = Some \<lparr>df_entry = Some ?e, df_size = enc ?e\<rparr>"
    using assms(1,2,4) by (simp add: cache_set_def Let_def remember_def disk_room_def disk_set_room)
  obtain m where "get_from_memory now ?key ?c = (None, ?c\<lparr>cl_lru := m\<rparr>)"
    using get_memory_miss [of ?c ?key now] assms(5) by (auto simp: mem_lookup_def)
  then have "fst (cache_get sha ev' now later s' t' args ?c) = Some (disk_hit now ?e None)"
    using fst_get_from_disk [of "?c\<lparr>cl_lru := m\<rparr>" ?h ?e "enc ?e" ev' now later ?key] disk assms(2,3)
    by (simp add: cache_get_def)
  then show ?thesis by (simp add: disk_hit_def)
qed

theorem disk_serves_other_tool_witness:
  "\<exists>hit. fst (cache_get (\<lambda>x. x) [] 10 10 ''payroll'' ''list_people'' None
      (cache_set (\<lambda>x. x) (\<lambda>_. 10) [] 0 None ''wiki'' ''list_pages'' None (JStr ''pages'') (Some 50) (new_cache None [] 1000 []))) = Some hit
      \<and> hit_value hit = JStr ''pages'' \<and> needsRevalidation hit = None"
  by (rule disk_serves_other_tool [where T = 50])
    (simp_all add: effective_ttl_def nullish_def disk_room_def new_cache_def new_disk_def new_lru_def cache_set_def
       Let_def remember_def lru_set_def js_drop_where_def cache_id_def cacheKeyToString_def buildCacheKey_def)

text \<open>A stale value becomes fresh by being read. When a value past its time to live is served from disk
  (flagged, so that the caller revalidates it), it is also put into memory with the instant of the
  read and a whole new time to live. A second get within that time serves it as a fresh hit,
  without the flag and with the age counted from the first read, whether or not the
  revalidation has succeeded.\<close>

theorem stale_value_served_as_fresh:
  assumes "cache_wf c" and "staleWhileRevalidate c" and "mem_lookup (cl_lru c) (cache_id sha s t args) = None"
    and "map_of (disk_files (cl_disk c)) (hashArgs sha args) = Some \<lparr>df_entry = Some e, df_size = n\<rparr>"
    and "0 < de_ttlMs e" and "now - de_storedAt e > de_ttlMs e"
    and "later \<le> now2" and "now2 - later \<le> de_ttlMs e" and "cache_id sha s t args \<notin> set ev"
  shows "fst (cache_get sha ev now later s t args c)
      = Some (disk_hit now e (Some (cache_id sha s t args \<notin> set (revalidating c))))
    \<and> fst (cache_get sha ev2 now2 later2 s t args (snd (cache_get sha ev now later s t args c)))
      = Some \<lparr>hit_value = de_value e, hit_storedAt = later, hit_source = FromMemory,
          hit_staleness = now2 - later, needsRevalidation = None\<rparr>"
proof -
  let ?key = "cache_id sha s t args" and ?h = "hashArgs sha args"
  obtain m where m: "get_from_memory now ?key c = (None, c\<lparr>cl_lru := m\<rparr>)"
    using get_memory_miss [of c ?key now] assms(3) by blast
  have wf: "js_wf (lru_entries m)"
  proof -
    have "lru_get now ?key (cl_lru c) = (None, m)"
      using m assms(3) by (auto simp: get_from_memory_def lru_get_def mem_lookup_def Let_def dest: arg_cong [of _ _ cl_lru])
    then show ?thesis using lru_wf(2) [of "cl_lru c" now ?key] assms(1) by (simp add: cache_wf_def)
  qed
  let ?l = "\<lparr>le_value = de_value e, le_storedAt = later, le_ttlMs = de_ttlMs e\<rparr>"
  have g: "cache_get sha ev now later s t args c =
      (Some (disk_hit now e (Some (?key \<notin> set (revalidating c)))),
       remember ev later ?key (de_value e) (de_ttlMs e) (de_ttlMs e)
         (c\<lparr>cl_lru := m, cl_disk := (cl_disk c)\<lparr>disk_hits := disk_hits (cl_disk c) + 1\<rparr>\<rparr>))"
    using m disk_get_entry [OF assms(4)] assms(2,5,6)
    by (simp add: cache_get_def get_from_disk_def Let_def is_stale_def)
  let ?c = "snd (cache_get sha ev now later s t args c)"
  have "mem_lookup (cl_lru ?c) ?key = Some ?l"
    using wf assms(9) by (simp add: g remember_def mem_lookup_set)
  moreover have "fresh_entry now2 ?l" using assms(8) by (simp add: fresh_entry_def)
  ultimately have "lru_get now2 ?key (cl_lru ?c) =
      (Some \<lparr>mh_value = de_value e, mh_storedAt = later\<rparr>, (cl_lru ?c)\<lparr>lru_hits := lru_hits (cl_lru ?c) + 1\<rparr>)"
    by (simp add: lru_get_hit)
  moreover have "map_of (ttlMap ?c) ?key = Some (de_ttlMs e)" by (simp add: g remember_def)
  ultimately have "fst (cache_get sha ev2 now2 later2 s t args ?c)
      = Some \<lparr>hit_value = de_value e, hit_storedAt = later, hit_source = FromMemory,
          hit_staleness = now2 - later, needsRevalidation = None\<rparr>"
    using assms(8) by (simp add: cache_get_def [of sha ev2] get_from_memory_def is_stale_def nullish_def Let_def)
  then show ?thesis using g by simp
qed


definition demo_stale :: cache_layer where
  "demo_stale = new_cache None [] 1000
     [(hashArgs (\<lambda>x. x) None, \<lparr>df_entry = Some (demo_entry 0), df_size = 10\<rparr>)]"

theorem stale_value_served_as_fresh_witness:
  "fst (cache_get (\<lambda>x. x) [] 290 291 ''s'' ''t'' None (snd (cache_get (\<lambda>x. x) [] 200 201 ''s'' ''t'' None demo_stale)))
   = Some \<lparr>hit_value = JNull, hit_storedAt = 201, hit_source = FromMemory, hit_staleness = 89, needsRevalidation = None\<rparr>"
  using stale_value_served_as_fresh [of demo_stale "\<lambda>x. x" "''s''" "''t''" None "demo_entry 0" 10 200 201 290 "[]" "[]" 291]
  by (simp add: demo_stale_def new_cache_def new_lru_def new_disk_def cache_wf_def nullish_def mem_lookup_def demo_entry_def)

subsection \<open>Invalidation\<close>

lemma delete_filter: "AList.delete k m = filter (\<lambda>(h, v). h \<noteq> k) m"
  by (induction m) auto

lemma unlink_all_files:
  "disk_files (foldl (\<lambda>d (h, f). disk_unlink h (df_size f) d) d xs) = filter (\<lambda>(h, f). h \<notin> fst ` set xs) (disk_files d)"
proof (induction xs arbitrary: d)
  case (Cons x xs)
  obtain h f where x: "x = (h, f)" by force
  have "disk_files (foldl (\<lambda>d (h, f). disk_unlink h (df_size f) d) d (x # xs))
      = filter (\<lambda>(h', f). h' \<notin> fst ` set xs) (filter (\<lambda>(h', f). h' \<noteq> h) (disk_files d))"
    using Cons.IH [of "disk_unlink h (df_size f) d"] x by (simp add: disk_unlink_def delete_filter)
  then show ?case using x by (auto simp: intro!: filter_cong)
qed simp

text \<open>The files \<open>scan_and_delete\<close> leaves.\<close>

definition spared :: "(disk_entry \<Rightarrow> bool) \<Rightarrow> disk_file \<Rightarrow> bool" where
  "spared p f = (case df_entry f of None \<Rightarrow> True | Some e \<Rightarrow> \<not> p e)"

lemma scan_files:
  assumes "js_wf (disk_files d)"
  shows "disk_files (snd (scan_and_delete p d)) = filter (\<lambda>(h, f). spared p f) (disk_files d)"
proof -
  let ?sel = "\<lambda>f. case df_entry f of None \<Rightarrow> False | Some e \<Rightarrow> p e"
  have sel: "?sel f \<longleftrightarrow> \<not> spared p f" for f by (simp add: spared_def split: option.split)
  have "h \<notin> fst ` set (filter (\<lambda>(h, f). ?sel f) (disk_files d)) \<longleftrightarrow> spared p f"
    if "(h, f) \<in> set (disk_files d)" for h f
  proof
    assume "h \<notin> fst ` set (filter (\<lambda>(h, f). ?sel f) (disk_files d))"
    then have "(h, f) \<notin> set (filter (\<lambda>(h, f). ?sel f) (disk_files d))" by force
    then show "spared p f" using that sel [of f] by simp
  next
    assume sp: "spared p f"
    show "h \<notin> fst ` set (filter (\<lambda>(h, f). ?sel f) (disk_files d))"
    proof
      assume "h \<in> fst ` set (filter (\<lambda>(h, f). ?sel f) (disk_files d))"
      then obtain f' where f': "(h, f') \<in> set (disk_files d)" "?sel f'" by auto
      have "f' = f" using assms that f'(1) by (metis js_wf_def map_of_eq_Some_iff option.inject)
      then show False using f'(2) sp sel by simp
    qed
  qed
  then have "filter (\<lambda>(h, f). h \<notin> fst ` set (filter (\<lambda>(h, f). ?sel f) (disk_files d))) (disk_files d)
      = filter (\<lambda>(h, f). spared p f) (disk_files d)"
    by (intro filter_cong) auto
  then show ?thesis by (simp add: scan_and_delete_def Let_def unlink_all_files)
qed

text \<open>What an invalidation removes. Invalidating a server drops from memory exactly the entries whose
  key starts with the server's name and a colon, and from disk every readable entry whose server
  and tool, joined by a colon, start with the server's name: all of the server's, and those of any
  server whose name begins with it. Unreadable files stay. Afterwards no entry of the server is left.\<close>

theorem invalidate_server_exact:
  assumes "js_wf (disk_files (cl_disk c))"
  shows "lru_entries (cl_lru (snd (cache_invalidate s None c)))
         = filter (\<lambda>(k, e). \<not> prefix (s @ '':'') k) (lru_entries (cl_lru c))
       \<and> disk_files (cl_disk (snd (cache_invalidate s None c)))
         = filter (\<lambda>(h, f). spared (\<lambda>e. prefix s (de_server e @ '':'' @ de_tool e)) f) (disk_files (cl_disk c))
       \<and> (\<forall>(h, f) \<in> set (disk_files (cl_disk (snd (cache_invalidate s None c)))). spared (\<lambda>e. de_server e = s) f)"
proof -
  have p: "normalized_prefix (s @ '':'') = s" by (simp add: normalized_prefix_def)
  have d: "disk_files (cl_disk (snd (cache_invalidate s None c)))
      = filter (\<lambda>(h, f). spared (\<lambda>e. prefix s (de_server e @ '':'' @ de_tool e)) f) (disk_files (cl_disk c))"
    using scan_files [OF assms, of "\<lambda>e. prefix s (de_server e @ '':'' @ de_tool e)"]
    by (simp add: cache_invalidate_def drop_prefix_def disk_invalidateByPrefix_def p Let_def case_prod_beta)
  have "lru_entries (cl_lru (snd (cache_invalidate s None c)))
      = filter (\<lambda>(k, e). \<not> prefix (s @ '':'') k) (lru_entries (cl_lru c))"
    by (simp add: cache_invalidate_def drop_prefix_def lru_invalidateByPrefix_def js_drop_where_def Let_def split: prod.split)
  moreover have "\<forall>(h, f) \<in> set (disk_files (cl_disk (snd (cache_invalidate s None c)))). spared (\<lambda>e. de_server e = s) f"
    unfolding d by (auto simp: spared_def split: option.splits)
  ultimately show ?thesis using d by blast
qed

theorem invalidate_server_exact_witness:
  "disk_files (cl_disk (snd (cache_invalidate ''s'' None demo_stale))) = []
   \<and> disk_files (cl_disk (snd (cache_invalidate ''other'' None demo_stale))) = disk_files (cl_disk demo_stale)"
  using invalidate_server_exact [of demo_stale "''s''"] invalidate_server_exact [of demo_stale "''other''"]
  by (simp add: demo_stale_def new_cache_def new_disk_def new_lru_def spared_def demo_entry_def)

end
