(* ===== verification/Hub.thy ===== *)
theory Hub
  imports Errors RateLimiter Registry
begin

text \<open>
  The hub that connects to the backend servers: \<open>src/src/hub/mcp-hub.ts\<close>. Every connection object has a
  number; the map \<open>connections\<close> holds the number of a server's current one, and the handlers and
  unfinished calls hold the number of the one they were made for. \<open>connectServer\<close> and
  \<open>disconnectServer\<close> are cut where they wait: \<open>waiting_open\<close> are the calls that wait for an old client to
  close, \<open>waiting_close\<close> the disconnects that wait for theirs, and the phase of a connection says what
  its \<open>connectServer\<close> waits for. The client, the transport and the timers of the SDK and the
  configuration files are the environment: they decide when, and with what, a waiting call goes on.
\<close>

datatype server_status = StConnecting | StConnected | StDisconnected | StError

record server_config =
  cmd :: string
  cmd_args :: "string list option"
  cmd_env :: "(string, string) jsmap option"
  cfg_rateLimit :: "rate_limit_config option"

datatype connect_phase = Handshaking | ListingTools | Settled

record server_connection =
  conn_name :: string
  conn_status :: server_status
  conn_tools :: "raw_tool list"
  conn_connectedAt :: "time option"
  conn_lastError :: "string option"
  conn_command :: string
  conn_args :: "string list"
  conn_env :: "(string, string) jsmap option"
  conn_limiter :: "limiter option"
  conn_rateConfig :: "rate_limit_config option"
  handlers_on :: bool
  conn_phase :: connect_phase

record hub_config =
  allowList :: "string list"
  denyList :: "string list"
  autoReconnect :: bool
  maxReconnectAttempts :: nat

datatype hub_event =
    EvServerConnected string
  | EvServerDisconnected string
  | EvServerError string string
  | EvToolsCached string nat

record hub =
  hub_conf :: hub_config
  objs :: "(nat, server_connection) jsmap"
  next_obj :: nat
  connections :: "(string, nat) jsmap"
  toolCache :: "(string, raw_tool list) jsmap"
  reconnectAttempts :: "(string, nat) jsmap"
  reconnectTimers :: "(string, server_config) jsmap"
  isShuttingDown :: bool
  hub_emitted :: "hub_event list"
  waiting_open :: "(string \<times> server_config) list"
  waiting_close :: "(string \<times> nat) list"

definition DEFAULT_HUB_CONFIG :: hub_config where
  "DEFAULT_HUB_CONFIG = \<lparr>allowList = [], denyList = [], autoReconnect = True, maxReconnectAttempts = 3\<rparr>"

definition new_hub :: "hub_config \<Rightarrow> hub" where
  "new_hub c =
     \<lparr>hub_conf = c, objs = [], next_obj = 0, connections = [], toolCache = [], reconnectAttempts = [],
      reconnectTimers = [], isShuttingDown = False, hub_emitted = [], waiting_open = [], waiting_close = []\<rparr>"

subsection \<open>Which servers\<close>

record conductor_config =
  exclusive :: bool
  conductor_servers :: "(string, server_config) jsmap"

type_synonym claude_config = "(string, server_config) jsmap option"

definition add_claude_servers ::
    "claude_config option \<Rightarrow> (string, server_config) jsmap \<Rightarrow> (string, server_config) jsmap" where
  "add_claude_servers claude m =
     (case claude of
        Some (Some servers) \<Rightarrow> foldl (\<lambda>m (n, c). if js_has m n then m else AList.update n c m) m servers
      | _ \<Rightarrow> m)"

definition discoverServers ::
    "conductor_config option \<Rightarrow> claude_config option \<Rightarrow> (string, server_config) jsmap" where
  "discoverServers conductor claude =
     (case conductor of
        None \<Rightarrow> add_claude_servers claude []
      | Some cc \<Rightarrow>
          (if length (conductor_servers cc) > 0
           then (if exclusive cc then conductor_servers cc
                 else add_claude_servers claude (conductor_servers cc))
           else add_claude_servers claude []))"

definition filterServers :: "hub_config \<Rightarrow> string list \<Rightarrow> string list" where
  "filterServers c names =
     filter (\<lambda>name.
       if name = ''mcp-conductor'' \<or> name = ''mcp-executor'' then False
       else if \<not> (''*'' \<in> set (allowList c)) \<and> length (allowList c) > 0 \<and> name \<notin> set (allowList c) then False
       else if name \<in> set (denyList c) then False
       else True) names"

definition servers_to_connect ::
    "hub_config \<Rightarrow> conductor_config option \<Rightarrow> claude_config option \<Rightarrow> (string \<times> server_config) list" where
  "servers_to_connect c conductor claude =
     (let serverMap = discoverServers conductor claude in
      List.map_filter (\<lambda>n. map_option (Pair n) (map_of serverMap n)) (filterServers c (js_keys serverMap)))"

subsection \<open>Connections\<close>

definition set_obj :: "nat \<Rightarrow> (server_connection \<Rightarrow> server_connection) \<Rightarrow> hub \<Rightarrow> hub" where
  "set_obj i f h = (case map_of (objs h) i of None \<Rightarrow> h | Some c \<Rightarrow> h\<lparr>objs := AList.update i (f c) (objs h)\<rparr>)"

definition hub_emit :: "hub_event \<Rightarrow> hub \<Rightarrow> hub" where
  "hub_emit e h = h\<lparr>hub_emitted := hub_emitted h @ [e]\<rparr>"

text \<open>Handlers taken off and the rate limiter destroyed, before a client is closed.\<close>

definition let_go :: "server_connection \<Rightarrow> server_connection" where
  "let_go c = c\<lparr>handlers_on := False, conn_limiter := map_option destroy (conn_limiter c)\<rparr>"

definition connection_config :: "server_connection \<Rightarrow> server_config" where
  "connection_config c =
     \<lparr>cmd = conn_command c, cmd_args = Some (conn_args c), cmd_env = conn_env c, cfg_rateLimit = None\<rparr>"

definition handleDisconnection :: "string \<Rightarrow> hub \<Rightarrow> hub" where
  "handleDisconnection name h =
     (if isShuttingDown h \<or> \<not> autoReconnect (hub_conf h) then h
      else (case map_of (connections h) name of
              None \<Rightarrow> h
            | Some i \<Rightarrow>
                (case map_of (objs h) i of
                   None \<Rightarrow> h
                 | Some c \<Rightarrow>
                     (let attempts = nullish (map_of (reconnectAttempts h) name) 0 + 1;
                          h1 = h\<lparr>reconnectAttempts := AList.update name attempts (reconnectAttempts h)\<rparr>
                      in if attempts > maxReconnectAttempts (hub_conf h) then h1
                         else h1\<lparr>reconnectTimers := AList.update name (connection_config c) (reconnectTimers h1)\<rparr>))))"

text \<open>\<open>connectServer\<close> once an old client is closed: a new client starts its handshake.\<close>

definition connect_open :: "time \<Rightarrow> string \<Rightarrow> server_config \<Rightarrow> hub \<Rightarrow> hub" where
  "connect_open now name cfg h =
     h\<lparr>objs := AList.update (next_obj h)
         \<lparr>conn_name = name, conn_status = StConnecting, conn_tools = [], conn_connectedAt = None,
          conn_lastError = None, conn_command = cmd cfg, conn_args = nullish (cmd_args cfg) [],
          conn_env = cmd_env cfg, conn_limiter = map_option (\<lambda>c. new_limiter c now) (cfg_rateLimit cfg),
          conn_rateConfig = cfg_rateLimit cfg, handlers_on = True, conn_phase = Handshaking\<rparr> (objs h),
       next_obj := next_obj h + 1, connections := AList.update name (next_obj h) (connections h)\<rparr>"

definition connectServer :: "time \<Rightarrow> string \<Rightarrow> server_config \<Rightarrow> hub \<Rightarrow> hub" where
  "connectServer now name cfg h =
     (if isShuttingDown h then h
      else (case map_of (connections h) name of
              None \<Rightarrow> connect_open now name cfg h
            | Some i \<Rightarrow>
                (case map_of (objs h) i of
                   None \<Rightarrow> connect_open now name cfg h
                 | Some c \<Rightarrow>
                     (if conn_status c \<noteq> StDisconnected
                      then (set_obj i let_go h)\<lparr>waiting_open := waiting_open h @ [(name, cfg)]\<rparr>
                      else connect_open now name cfg h))))"

definition close_done :: "time \<Rightarrow> string \<Rightarrow> server_config \<Rightarrow> hub \<Rightarrow> hub" where
  "close_done now name cfg h =
     (if (name, cfg) \<in> set (waiting_open h)
      then connect_open now name cfg (h\<lparr>waiting_open := remove1 (name, cfg) (waiting_open h)\<rparr>) else h)"

definition connect_ok :: "time \<Rightarrow> nat \<Rightarrow> hub \<Rightarrow> hub" where
  "connect_ok now i h =
     (case map_of (objs h) i of
        None \<Rightarrow> h
      | Some c \<Rightarrow>
          (if conn_phase c \<noteq> Handshaking then h
           else (set_obj i (\<lambda>c. c\<lparr>conn_status := StConnected, conn_connectedAt := Some now, conn_phase := ListingTools\<rparr>) h)
             \<lparr>reconnectAttempts := AList.delete (conn_name c) (reconnectAttempts h)\<rparr>))"

text \<open>The catch of \<open>connectServer\<close>: the handshake failed or took too long.\<close>

definition connect_fails :: "nat \<Rightarrow> string \<Rightarrow> hub \<Rightarrow> hub" where
  "connect_fails i msg h =
     (case map_of (objs h) i of
        None \<Rightarrow> h
      | Some c \<Rightarrow>
          (if conn_phase c \<noteq> Handshaking then h
           else (let h1 = set_obj i (\<lambda>c. c\<lparr>conn_phase := Settled\<rparr>) h;
                     h2 = (case map_of (connections h) (conn_name c) of
                             None \<Rightarrow> h1
                           | Some j \<Rightarrow> set_obj j (\<lambda>c. c\<lparr>conn_status := StError, conn_lastError := Some msg\<rparr>) h1)
                 in handleDisconnection (conn_name c) (hub_emit (EvServerError (conn_name c) msg) h2))))"

text \<open>\<open>cacheServerTools\<close> and the end of \<open>connectServer\<close>; \<open>None\<close> when \<open>listTools\<close> fails.\<close>

definition tools_listed :: "nat \<Rightarrow> raw_tool list option \<Rightarrow> hub \<Rightarrow> hub" where
  "tools_listed i answer h =
     (case map_of (objs h) i of
        None \<Rightarrow> h
      | Some c \<Rightarrow>
          (if conn_phase c \<noteq> ListingTools then h
           else (let name = conn_name c; h1 = set_obj i (\<lambda>c. c\<lparr>conn_phase := Settled\<rparr>) h;
                     h2 = (case answer of
                             None \<Rightarrow> h1
                           | Some tools \<Rightarrow>
                               (let h3 = (case map_of (connections h) name of
                                     None \<Rightarrow> h1
                                   | Some j \<Rightarrow> set_obj j (\<lambda>c. c\<lparr>conn_tools := tools\<rparr>) h1)
                                in hub_emit (EvToolsCached name (length tools))
                                     (h3\<lparr>toolCache := AList.update name tools (toolCache h3)\<rparr>)))
                 in hub_emit (EvServerConnected name) h2)))"

definition transport_error :: "nat \<Rightarrow> string \<Rightarrow> hub \<Rightarrow> hub" where
  "transport_error i msg h =
     (case map_of (objs h) i of
        None \<Rightarrow> h
      | Some c \<Rightarrow>
          (if \<not> handlers_on c then h
           else handleDisconnection (conn_name c) (hub_emit (EvServerError (conn_name c) msg)
             (set_obj i (\<lambda>c. c\<lparr>conn_status := StError, conn_lastError := Some msg\<rparr>) h))))"

definition transport_close :: "nat \<Rightarrow> hub \<Rightarrow> hub" where
  "transport_close i h =
     (case map_of (objs h) i of
        None \<Rightarrow> h
      | Some c \<Rightarrow>
          (if \<not> handlers_on c \<or> conn_status c \<noteq> StConnected then h
           else handleDisconnection (conn_name c) (hub_emit (EvServerDisconnected (conn_name c))
             (set_obj i (\<lambda>c. c\<lparr>conn_status := StDisconnected\<rparr>) h))))"

definition timer_fires :: "time \<Rightarrow> string \<Rightarrow> hub \<Rightarrow> hub" where
  "timer_fires now name h =
     (case map_of (reconnectTimers h) name of
        None \<Rightarrow> h
      | Some cfg \<Rightarrow>
          (let h1 = h\<lparr>reconnectTimers := AList.delete name (reconnectTimers h)\<rparr> in
           if isShuttingDown h then h1 else connectServer now name cfg h1))"

definition disconnectServer :: "string \<Rightarrow> hub \<Rightarrow> hub" where
  "disconnectServer name h =
     (let h1 = h\<lparr>reconnectTimers := AList.delete name (reconnectTimers h)\<rparr> in
      case map_of (connections h1) name of
        None \<Rightarrow> h1
      | Some i \<Rightarrow> (set_obj i let_go h1)\<lparr>waiting_close := waiting_close h @ [(name, i)]\<rparr>)"

definition disconnect_done :: "string \<Rightarrow> nat \<Rightarrow> hub \<Rightarrow> hub" where
  "disconnect_done name i h =
     (if (name, i) \<in> set (waiting_close h)
      then (let h1 = set_obj i (\<lambda>c. c\<lparr>conn_status := StDisconnected\<rparr>) h in
            h1\<lparr>waiting_close := remove1 (name, i) (waiting_close h), toolCache := AList.delete name (toolCache h),
               connections := AList.delete name (connections h)\<rparr>)
      else h)"

definition hub_shutdown :: "hub \<Rightarrow> hub" where
  "hub_shutdown h =
     foldl (\<lambda>h name. disconnectServer name h) (h\<lparr>isShuttingDown := True, reconnectTimers := []\<rparr>)
       (js_keys (connections h))"

definition hub_shutdown_done :: "hub \<Rightarrow> hub" where
  "hub_shutdown_done h = (if isShuttingDown h \<and> waiting_close h = [] then h\<lparr>connections := [], toolCache := []\<rparr> else h)"

subsection \<open>Queries\<close>

record server_info =
  info_name :: string
  info_status :: server_status
  info_toolCount :: nat
  info_connectedAt :: "time option"
  info_lastError :: "string option"

definition live_connections :: "hub \<Rightarrow> server_connection list" where
  "live_connections h = List.map_filter (\<lambda>(n, i). map_of (objs h) i) (connections h)"

definition listServers :: "hub \<Rightarrow> server_info list" where
  "listServers h =
     map (\<lambda>c. \<lparr>info_name = conn_name c, info_status = conn_status c, info_toolCount = length (conn_tools c),
              info_connectedAt = conn_connectedAt c, info_lastError = conn_lastError c\<rparr>) (live_connections h)"

definition hub_getServerTools :: "string \<Rightarrow> hub \<Rightarrow> raw_tool list" where
  "hub_getServerTools server h = nullish (map_of (toolCache h) server) []"

definition hub_getAllTools :: "hub \<Rightarrow> (string \<times> raw_tool) list" where
  "hub_getAllTools h = concat (map (\<lambda>(s, ts). map (Pair s) ts) (toolCache h))"

definition searchTools :: "string \<Rightarrow> hub \<Rightarrow> (string \<times> string \<times> string) list" where
  "searchTools query h =
     (let q = js_lower query in
      map (\<lambda>(s, t). (s, raw_name t, nullish (raw_description t) []))
        (filter (\<lambda>(s, t). js_includes (js_lower (raw_name t)) q
             \<or> (case raw_description t of None \<Rightarrow> False | Some d \<Rightarrow> js_includes (js_lower d) q))
          (hub_getAllTools h)))"

definition connection_of :: "string \<Rightarrow> hub \<Rightarrow> server_connection option" where
  "connection_of server h = Option.bind (map_of (connections h) server) (map_of (objs h))"

definition isServerConnected :: "string \<Rightarrow> hub \<Rightarrow> bool" where
  "isServerConnected server h =
     (case connection_of server h of None \<Rightarrow> False | Some c \<Rightarrow> conn_status c = StConnected)"

definition count_status :: "server_status \<Rightarrow> hub \<Rightarrow> nat" where
  "count_status st h = length (filter (\<lambda>c. conn_status c = st) (live_connections h))"

text \<open>Total, connected, error, disconnected.\<close>

definition hub_getStats :: "hub \<Rightarrow> nat \<times> nat \<times> nat \<times> nat" where
  "hub_getStats h =
     (length (live_connections h), count_status StConnected h, count_status StError h, count_status StDisconnected h)"

definition isExclusiveMode :: "conductor_config option \<Rightarrow> bool" where
  "isExclusiveMode conductor =
     (case conductor of None \<Rightarrow> False | Some cc \<Rightarrow> exclusive cc \<and> length (conductor_servers cc) > 0)"

datatype config_mode = ExclusiveMode | SharedMode | ClaudeOnlyMode

definition config_mode_of :: "conductor_config option \<Rightarrow> config_mode" where
  "config_mode_of conductor =
     (let n = (case conductor of None \<Rightarrow> 0 | Some cc \<Rightarrow> length (conductor_servers cc)) in
      if isExclusiveMode conductor then ExclusiveMode
      else if n > 0 then SharedMode else ClaudeOnlyMode)"

subsection \<open>Reloading\<close>

definition reload_added :: "hub_config \<Rightarrow> (string, server_config) jsmap \<Rightarrow> string list \<Rightarrow> string list" where
  "reload_added c serverMap current = filter (\<lambda>n. n \<notin> set current) (filterServers c (js_keys serverMap))"

definition reload_removed :: "hub_config \<Rightarrow> (string, server_config) jsmap \<Rightarrow> string list \<Rightarrow> string list" where
  "reload_removed c serverMap current = filter (\<lambda>n. n \<notin> set (filterServers c (js_keys serverMap))) current"

definition config_changed :: "server_connection \<Rightarrow> server_config \<Rightarrow> bool" where
  "config_changed c cfg \<longleftrightarrow>
     conn_command c \<noteq> cmd cfg \<or> conn_args c \<noteq> nullish (cmd_args cfg) []
     \<or> nullish (conn_env c) [] \<noteq> nullish (cmd_env cfg) [] \<or> conn_rateConfig c \<noteq> cfg_rateLimit cfg"


subsection \<open>Calls\<close>

text \<open>\<open>x ? a : b\<close> on a JSON value.\<close>

fun js_truthy :: "json \<Rightarrow> bool" where
  "js_truthy JNull = False"
| "js_truthy (JBool b) = b"
| "js_truthy (JNum n) = (n \<noteq> 0)"
| "js_truthy (JStr s) = (s \<noteq> [])"
| "js_truthy _ = True"

record content_item =
  ci_type :: string
  ci_text :: "string option"
  ci_json :: json

text \<open>What \<open>client.callTool\<close> returns: its \<open>content\<close> when that is an array, its \<open>structuredContent\<close>,
  and the whole as a value.\<close>

record tool_result =
  tr_content :: "content_item list option"
  tr_structured :: "json option"
  tr_json :: json

definition text_result :: "(string \<Rightarrow> json option) \<Rightarrow> content_item list \<Rightarrow> json" where
  "text_result parse items =
     (case find (\<lambda>c. ci_type c = ''text'') items of
        None \<Rightarrow> JArr (map ci_json items)
      | Some c \<Rightarrow>
          (case ci_text c of
             None \<Rightarrow> JArr (map ci_json items)
           | Some t \<Rightarrow> nullish (parse t) (JStr t)))"

definition extract_result :: "(string \<Rightarrow> json option) \<Rightarrow> tool_result \<Rightarrow> json" where
  "extract_result parse r =
     (case tr_content r of
        None \<Rightarrow> tr_json r
      | Some items \<Rightarrow>
          (case tr_structured r of
             None \<Rightarrow> text_result parse items
           | Some v \<Rightarrow> if js_truthy v then v else text_result parse items))"

fun status_text :: "server_status \<Rightarrow> string" where
  "status_text StConnecting = ''connecting''"
| "status_text StConnected = ''connected''"
| "status_text StDisconnected = ''disconnected''"
| "status_text StError = ''error''"

definition wrap_tool_error :: "string \<Rightarrow> string \<Rightarrow> thrown \<Rightarrow> thrown" where
  "wrap_tool_error server tool e =
     (case e of
        MCPToolError c s t x \<Rightarrow> e
      | _ \<Rightarrow> MCPToolError (extractErrorCode e) server tool e)"

text \<open>
  \<open>callTool\<close>: \<open>verdict\<close> is what the rate limiter's \<open>acquire\<close> throws, if it throws, and \<open>answer\<close> what the
  client's call gives. The second component says whether the backend was called.
\<close>

definition hub_callTool ::
    "(string \<Rightarrow> json option) \<Rightarrow> hub \<Rightarrow> string \<Rightarrow> string \<Rightarrow> thrown option \<Rightarrow> thrown + tool_result
     \<Rightarrow> (thrown + json) \<times> bool" where
  "hub_callTool parse h server tool verdict answer =
     (case connection_of server h of
        None \<Rightarrow> (Inl (PlainError (''Server not found: '' @ server) None), False)
      | Some c \<Rightarrow>
          (if conn_status c \<noteq> StConnected
           then (Inl (PlainError (''Server not connected: '' @ server @ '' (status: '' @ status_text (conn_status c) @ '')'') None), False)
           else (case (if conn_limiter c = None then None else verdict) of
                   Some e \<Rightarrow> (Inl e, False)
                 | None \<Rightarrow>
                     (case answer of
                        Inr r \<Rightarrow> (Inr (extract_result parse r), True)
                      | Inl e \<Rightarrow> (Inl (wrap_tool_error server tool e), True)))))"

text \<open>C18: What a tool call through the hub does, errors included. The backend is called exactly when the
  server is known, its connection is up and its rate limiter, if it has one, lets the call
  through. A backend failure comes out as one \<open>MCPToolError\<close> and is never wrapped twice; every other
  failure comes out as it was thrown and the backend is not called.\<close>

theorem hub_call_outcomes:
  "case hub_callTool parse h server tool verdict answer of (res, called) \<Rightarrow>
     (called \<longleftrightarrow> isServerConnected server h
        \<and> (verdict = None \<or> map_option conn_limiter (connection_of server h) = Some None))
     \<and> (if called
        then (case answer of
                Inr r \<Rightarrow> res = Inr (extract_result parse r)
              | Inl e \<Rightarrow> (\<exists>code s t cause. res = Inl (MCPToolError code s t cause)
                  \<and> (if \<exists>c' s' t' x. e = MCPToolError c' s' t' x then MCPToolError code s t cause = e
                     else code = extractErrorCode e \<and> s = server \<and> t = tool \<and> cause = e)))
        else (if \<not> isServerConnected server h then \<exists>msg. res = Inl (PlainError msg None) else res = Inl (the verdict)))"
proof (cases "connection_of server h")
  case None
  then show ?thesis by (simp add: hub_callTool_def isServerConnected_def)
next
  case (Some c)
  have w: "\<exists>code s t cause. wrap_tool_error server tool e = MCPToolError code s t cause
      \<and> (if \<exists>c' s' t' x. e = MCPToolError c' s' t' x then MCPToolError code s t cause = e
         else code = extractErrorCode e \<and> s = server \<and> t = tool \<and> cause = e)" for e
    by (cases e) (auto simp: wrap_tool_error_def)
  show ?thesis
  proof (cases "conn_status c = StConnected")
    case False
    then show ?thesis using Some by (simp add: hub_callTool_def isServerConnected_def)
  next
    case True
    then show ?thesis using Some w
      by (cases "conn_limiter c = None"; cases verdict; cases answer)
        (simp_all add: hub_callTool_def isServerConnected_def)
  qed
qed

subsection \<open>Steps\<close>

datatype hub_op =
    ConnectServer time string server_config
  | CloseDone time string server_config
  | HandshakeDone time nat
  | HandshakeFails nat string
  | ToolsListed nat "raw_tool list option"
  | TransportError nat string
  | TransportClose nat
  | TimerFires time string
  | DisconnectServer string
  | DisconnectDone string nat
  | HubShutdown
  | HubShutdownDone

fun hub_step :: "hub \<Rightarrow> hub_op \<Rightarrow> hub" where
  "hub_step h (ConnectServer now n cfg) = connectServer now n cfg h"
| "hub_step h (CloseDone now n cfg) = close_done now n cfg h"
| "hub_step h (HandshakeDone now i) = connect_ok now i h"
| "hub_step h (HandshakeFails i msg) = connect_fails i msg h"
| "hub_step h (ToolsListed i answer) = tools_listed i answer h"
| "hub_step h (TransportError i msg) = transport_error i msg h"
| "hub_step h (TransportClose i) = transport_close i h"
| "hub_step h (TimerFires now n) = timer_fires now n h"
| "hub_step h (DisconnectServer n) = disconnectServer n h"
| "hub_step h (DisconnectDone n i) = disconnect_done n i h"
| "hub_step h HubShutdown = hub_shutdown h"
| "hub_step h HubShutdownDone = hub_shutdown_done h"

text \<open>Reconnects of a server since its last successful handshake: each fired timer counts one.\<close>

definition reconnects_after :: "string \<Rightarrow> hub \<Rightarrow> hub_op \<Rightarrow> nat \<Rightarrow> nat" where
  "reconnects_after name h e k =
     (case e of
        TimerFires now n \<Rightarrow>
          (if n = name \<and> js_has (reconnectTimers h) n \<and> \<not> isShuttingDown h then k + 1 else k)
      | HandshakeDone now i \<Rightarrow>
          (case map_of (objs h) i of
             None \<Rightarrow> k
           | Some c \<Rightarrow> (if conn_phase c = Handshaking \<and> conn_name c = name then 0 else k))
      | _ \<Rightarrow> k)"

fun reconnects :: "string \<Rightarrow> hub \<Rightarrow> hub_op list \<Rightarrow> nat \<Rightarrow> nat" where
  "reconnects name h [] k = k"
| "reconnects name h (e # es) k = reconnects name (hub_step h e) es (reconnects_after name h e k)"

lemma keys_update_known: "map_of m k = Some v \<Longrightarrow> map fst (AList.update k v' m) = map fst m"
  by (induction m) (auto split: if_splits)

lemma set_obj_frame [simp]:
  "connections (set_obj i f h) = connections h" "reconnectAttempts (set_obj i f h) = reconnectAttempts h"
  "reconnectTimers (set_obj i f h) = reconnectTimers h" "hub_conf (set_obj i f h) = hub_conf h"
  "isShuttingDown (set_obj i f h) = isShuttingDown h" "waiting_open (set_obj i f h) = waiting_open h"
  "waiting_close (set_obj i f h) = waiting_close h" "next_obj (set_obj i f h) = next_obj h"
  "toolCache (set_obj i f h) = toolCache h" "js_keys (objs (set_obj i f h)) = js_keys (objs h)"
  by (auto simp: set_obj_def js_keys_def keys_update_known split: option.split)


lemma hub_emit_frame [simp]:
  "connections (hub_emit e h) = connections h" "reconnectAttempts (hub_emit e h) = reconnectAttempts h"
  "reconnectTimers (hub_emit e h) = reconnectTimers h" "hub_conf (hub_emit e h) = hub_conf h"
  "isShuttingDown (hub_emit e h) = isShuttingDown h" "waiting_open (hub_emit e h) = waiting_open h"
  "waiting_close (hub_emit e h) = waiting_close h" "next_obj (hub_emit e h) = next_obj h"
  "objs (hub_emit e h) = objs h" "toolCache (hub_emit e h) = toolCache h"
  by (simp_all add: hub_emit_def)

lemma connect_open_frame [simp]:
  "reconnectAttempts (connect_open now n cfg h) = reconnectAttempts h"
  "reconnectTimers (connect_open now n cfg h) = reconnectTimers h"
  "hub_conf (connect_open now n cfg h) = hub_conf h"
  "isShuttingDown (connect_open now n cfg h) = isShuttingDown h"
  by (simp_all add: connect_open_def)

lemma connectServer_frame [simp]:
  "reconnectAttempts (connectServer now n cfg h) = reconnectAttempts h"
  "reconnectTimers (connectServer now n cfg h) = reconnectTimers h"
  "hub_conf (connectServer now n cfg h) = hub_conf h"
  "isShuttingDown (connectServer now n cfg h) = isShuttingDown h"
  by (simp_all add: connectServer_def split: option.split)

lemma handleDisconnection_frame [simp]:
  "connections (handleDisconnection n h) = connections h" "objs (handleDisconnection n h) = objs h"
  "hub_conf (handleDisconnection n h) = hub_conf h" "isShuttingDown (handleDisconnection n h) = isShuttingDown h"
  "waiting_open (handleDisconnection n h) = waiting_open h" "waiting_close (handleDisconnection n h) = waiting_close h"
  by (simp_all add: handleDisconnection_def Let_def split: option.split)

definition attempts_of :: "string \<Rightarrow> hub \<Rightarrow> nat" where
  "attempts_of n h = nullish (map_of (reconnectAttempts h) n) 0"

text \<open>The reconnects so far, and the one that is scheduled, are covered by the attempts counted, and
  by at most one timer that was left over when a handshake succeeded.\<close>

definition budget :: "string \<Rightarrow> hub \<Rightarrow> nat \<Rightarrow> bool" where
  "budget n h k \<longleftrightarrow>
     k + (if js_has (reconnectTimers h) n then 1 else 0)
     \<le> min (attempts_of n h) (maxReconnectAttempts (hub_conf h)) + 1"

lemma budget_cong:
  "budget n h k \<Longrightarrow> reconnectTimers h' = reconnectTimers h \<Longrightarrow> reconnectAttempts h' = reconnectAttempts h \<Longrightarrow>
   hub_conf h' = hub_conf h \<Longrightarrow> budget n h' k"
  by (simp add: budget_def attempts_of_def)

lemma budget_less_timers:
  "budget n h k \<Longrightarrow> (js_has (reconnectTimers h') n \<longrightarrow> js_has (reconnectTimers h) n) \<Longrightarrow>
   reconnectAttempts h' = reconnectAttempts h \<Longrightarrow> hub_conf h' = hub_conf h \<Longrightarrow> budget n h' k"
  by (auto simp: budget_def attempts_of_def split: if_splits)

lemma budget_handleDisconnection:
  assumes "budget n h k"
  shows "budget n (handleDisconnection m h) k"
proof (cases "isShuttingDown h \<or> \<not> autoReconnect (hub_conf h) \<or> connection_of m h = None")
  case True
  then have "handleDisconnection m h = h"
    by (auto simp: handleDisconnection_def connection_of_def split: option.splits bind_splits)
  then show ?thesis using assms by simp
next
  case False
  then obtain i c where c: "map_of (connections h) m = Some i" "map_of (objs h) i = Some c"
    by (auto simp: connection_of_def split: bind_splits)
  show ?thesis
  proof (cases "m = n")
    case True
    then show ?thesis using assms False c
      by (auto simp: handleDisconnection_def budget_def attempts_of_def Let_def nullish_def split: if_splits)
  next
    case False
    then show ?thesis using assms c
      by (auto simp: handleDisconnection_def budget_def attempts_of_def Let_def split: if_splits)
  qed
qed

lemma disconnectServer_frame [simp]:
  "reconnectTimers (disconnectServer n h) = AList.delete n (reconnectTimers h)"
  "reconnectAttempts (disconnectServer n h) = reconnectAttempts h"
  "hub_conf (disconnectServer n h) = hub_conf h" "isShuttingDown (disconnectServer n h) = isShuttingDown h"
  "waiting_open (disconnectServer n h) = waiting_open h" "next_obj (disconnectServer n h) = next_obj h"
  "js_keys (objs (disconnectServer n h)) = js_keys (objs h)"
  by (simp_all add: disconnectServer_def Let_def split: option.split)

lemma disconnect_all_frame [simp]:
  "reconnectAttempts (foldl (\<lambda>h n. disconnectServer n h) h ns) = reconnectAttempts h"
  "hub_conf (foldl (\<lambda>h n. disconnectServer n h) h ns) = hub_conf h"
  "isShuttingDown (foldl (\<lambda>h n. disconnectServer n h) h ns) = isShuttingDown h"
  "waiting_open (foldl (\<lambda>h n. disconnectServer n h) h ns) = waiting_open h"
  "next_obj (foldl (\<lambda>h n. disconnectServer n h) h ns) = next_obj h"
  "js_keys (objs (foldl (\<lambda>h n. disconnectServer n h) h ns)) = js_keys (objs h)"
  "reconnectTimers h = [] \<Longrightarrow> reconnectTimers (foldl (\<lambda>h n. disconnectServer n h) h ns) = []"
  by (induction ns arbitrary: h) auto

lemma budget_tools: "budget n h k \<Longrightarrow> budget n (tools_listed i answer h) k"
  by (erule budget_cong) (simp_all add: tools_listed_def Let_def split: option.split)

lemma budget_fails: "budget n h k \<Longrightarrow> budget n (connect_fails i msg h) k"
  by (auto simp: connect_fails_def Let_def intro!: budget_handleDisconnection elim: budget_cong split: option.split)

lemma budget_step:
  assumes "budget n h k"
  shows "budget n (hub_step h e) (reconnects_after n h e k)"
proof (cases e)
  case (HandshakeDone now i)
  show ?thesis
  proof (cases "\<exists>c. map_of (objs h) i = Some c \<and> conn_phase c = Handshaking")
    case True
    then obtain c where c: "map_of (objs h) i = Some c" "conn_phase c = Handshaking" by blast
    then show ?thesis using assms HandshakeDone
      by (auto simp: connect_ok_def reconnects_after_def budget_def attempts_of_def nullish_def)
  next
    case False
    then show ?thesis using assms HandshakeDone
      by (auto simp: connect_ok_def reconnects_after_def split: option.split)
  qed
next
  case (TimerFires now m)
  show ?thesis
  proof (cases "map_of (reconnectTimers h) m")
    case None
    then show ?thesis using assms TimerFires by (simp add: timer_fires_def reconnects_after_def js_has_def)
  next
    case (Some cfg)
    then show ?thesis using assms TimerFires
      by (auto simp: timer_fires_def reconnects_after_def js_has_def budget_def attempts_of_def Let_def split: if_splits)
  qed
next
  case (ConnectServer now m cfg)
  then show ?thesis using assms by (auto simp: reconnects_after_def elim!: budget_cong)
next
  case (CloseDone now m cfg)
  then show ?thesis using assms by (auto simp: reconnects_after_def close_done_def elim!: budget_cong)
next
  case (HandshakeFails i msg)
  then show ?thesis using assms by (simp add: reconnects_after_def budget_fails)
next
  case (ToolsListed i answer)
  then show ?thesis using assms by (simp add: reconnects_after_def budget_tools)
next
  case (TransportError i msg)
  then show ?thesis using assms
    by (auto simp: reconnects_after_def transport_error_def intro!: budget_handleDisconnection elim: budget_cong split: option.split)
next
  case (TransportClose i)
  then show ?thesis using assms
    by (auto simp: reconnects_after_def transport_close_def intro!: budget_handleDisconnection elim: budget_cong split: option.split)
next
  case (DisconnectServer m)
  then show ?thesis using assms by (auto simp: reconnects_after_def elim!: budget_less_timers)
next
  case (DisconnectDone m i)
  then show ?thesis using assms
    by (auto simp: reconnects_after_def disconnect_done_def Let_def elim!: budget_cong)
next
  case HubShutdown
  then show ?thesis using assms
    by (auto simp: reconnects_after_def hub_shutdown_def js_has_def elim!: budget_less_timers)
next
  case HubShutdownDone
  then show ?thesis using assms
    by (auto simp: reconnects_after_def hub_shutdown_done_def elim!: budget_cong)
qed

lemma budget_run: "budget n h k \<Longrightarrow> reconnects n h es k \<le> maxReconnectAttempts (hub_conf h) + 1"
proof (induction es arbitrary: h k)
  case Nil
  then show ?case by (simp add: budget_def)
next
  case (Cons e es)
  have "hub_conf (hub_step h e) = hub_conf h"
    by (cases e) (auto simp: close_done_def connect_ok_def connect_fails_def tools_listed_def transport_error_def
        transport_close_def timer_fires_def disconnect_done_def hub_shutdown_def hub_shutdown_done_def Let_def
        split: option.split)
  then show ?case using Cons.IH [OF budget_step [OF Cons.prems, of e]] by simp
qed

text \<open>A server that does not come back is not tried for ever. Over any run, with any interleaving of
  handshakes, transport errors, closes and timers, a server is reconnected automatically at most
  \<open>maxReconnectAttempts + 1\<close> times without a successful handshake between (the one extra is a timer
  that a transport error left behind just before a handshake succeeded).\<close>

theorem reconnects_bounded:
  "reconnects name (new_hub c) es 0 \<le> maxReconnectAttempts c + 1"
  using budget_run [of name "new_hub c" 0 es] by (simp add: budget_def new_hub_def js_has_def)


subsection \<open>Shutdown\<close>

definition frozen :: "nat list \<Rightarrow> hub \<Rightarrow> bool" where
  "frozen ks h \<longleftrightarrow> isShuttingDown h \<and> reconnectTimers h = [] \<and> waiting_open h = [] \<and> js_keys (objs h) = ks"

lemma frozen_handleDisconnection: "frozen ks h \<Longrightarrow> frozen ks (handleDisconnection n h)"
  by (simp add: frozen_def handleDisconnection_def)

lemma frozen_set_obj: "frozen ks h \<Longrightarrow> frozen ks (set_obj i f h)"
  by (simp add: frozen_def)

lemma frozen_emit: "frozen ks h \<Longrightarrow> frozen ks (hub_emit e h)"
  by (simp add: frozen_def)

lemma frozen_fails: "frozen ks h \<Longrightarrow> frozen ks (connect_fails i msg h)"
  by (auto simp: connect_fails_def Let_def split: option.split
      intro!: frozen_handleDisconnection frozen_set_obj frozen_emit)

lemma frozen_tools: "frozen ks h \<Longrightarrow> frozen ks (tools_listed i answer h)"
  by (simp add: tools_listed_def frozen_def Let_def split: option.split)

lemma frozen_step:
  assumes "frozen ks h"
  shows "frozen ks (hub_step h e)"
proof (cases e)
  case (ConnectServer now n cfg)
  then show ?thesis using assms by (simp add: frozen_def connectServer_def)
next
  case (CloseDone now n cfg)
  then show ?thesis using assms by (simp add: frozen_def close_done_def)
next
  case (HandshakeDone now i)
  then show ?thesis using assms by (simp add: frozen_def connect_ok_def split: option.split)
next
  case (TransportError i msg)
  then show ?thesis using assms
    by (auto simp: transport_error_def split: option.split
        intro!: frozen_handleDisconnection frozen_set_obj frozen_emit)
next
  case (TransportClose i)
  then show ?thesis using assms
    by (auto simp: transport_close_def split: option.split
        intro!: frozen_handleDisconnection frozen_set_obj frozen_emit)
next
  case (TimerFires now n)
  then show ?thesis using assms by (simp add: frozen_def timer_fires_def)
next
  case (DisconnectServer n)
  then show ?thesis using assms by (simp add: frozen_def)
next
  case (DisconnectDone n i)
  then show ?thesis using assms by (simp add: frozen_def disconnect_done_def Let_def)
next
  case HubShutdown
  then show ?thesis using assms by (simp add: frozen_def hub_shutdown_def)
next
  case HubShutdownDone
  then show ?thesis using assms by (simp add: frozen_def hub_shutdown_done_def)
qed (use assms frozen_fails frozen_tools in auto)

interpretation hub_down: stepper hub_step "frozen ks" for ks
  by unfold_locales (rule frozen_step)

lemma hub_shutdown_frozen:
  "waiting_open h = [] \<Longrightarrow> frozen (js_keys (objs h)) (hub_shutdown h)"
  by (simp add: frozen_def hub_shutdown_def)

text \<open>Shutdown is final. When the hub is shut down while no connect waits for an old client to close,
  then whatever handshakes, transport events, timers and calls follow, no client is ever started
  again and no reconnect is ever scheduled.\<close>

theorem hub_shutdown_final:
  assumes "waiting_open h = []"
  shows "js_keys (objs (foldl hub_step (hub_shutdown h) es)) = js_keys (objs h)
       \<and> reconnectTimers (foldl hub_step (hub_shutdown h) es) = []"
  using hub_down.inv_run [OF hub_shutdown_frozen [OF assms], of es] by (simp add: frozen_def)

definition demo_config :: "rate_limit_config option \<Rightarrow> server_config" where
  "demo_config r = \<lparr>cmd = ''run'', cmd_args = None, cmd_env = None, cfg_rateLimit = r\<rparr>"

theorem hub_shutdown_final_witness:
  "reconnectTimers (foldl hub_step (hub_shutdown (connectServer 0 ''a'' (demo_config None) (new_hub DEFAULT_HUB_CONFIG)))
     [TransportError 0 ''broken'', HandshakeFails 0 ''x'', TimerFires 9 ''a'']) = []"
  by (rule hub_shutdown_final [THEN conjunct2]) (simp add: connectServer_def connect_open_def new_hub_def)

text \<open>Without that condition a connect that waits goes on after the shutdown, and its client is started
  and left alone.\<close>

lemma shutdown_lets_waiting_connect_through:
  "let h1 = foldl hub_step (new_hub DEFAULT_HUB_CONFIG)
         [ConnectServer 0 ''a'' (demo_config None), HandshakeDone 1 0, ConnectServer 2 ''a'' (demo_config None),
          HubShutdown, DisconnectDone ''a'' 0, HubShutdownDone];
       h2 = hub_step h1 (CloseDone 3 ''a'' (demo_config None))
   in connections h1 = [] \<and> connections h2 = [(''a'', 1)] \<and> isShuttingDown h2"
  by (simp add: new_hub_def connectServer_def connect_open_def connect_ok_def set_obj_def let_go_def hub_shutdown_def
      disconnectServer_def disconnect_done_def hub_shutdown_done_def close_done_def js_keys_def Let_def)

subsection \<open>Reconnecting\<close>

text \<open>A reconnect forgets the rate limit. When a connected server's transport closes and the timer
  that is set for it fires, the new connection has the old command, arguments and environment but
  neither a rate limiter nor a rate limit configuration, whatever the old one had: from then on
  calls to the server are not limited.\<close>

theorem reconnect_drops_rate_limit:
  assumes "map_of (connections h) name = Some i" and "map_of (objs h) i = Some c" and "conn_name c = name"
    and "handlers_on c" and "conn_status c = StConnected"
    and "\<not> isShuttingDown h" and "autoReconnect (hub_conf h)"
    and "attempts_of name h < maxReconnectAttempts (hub_conf h)"
  shows "\<exists>c'. connection_of name (timer_fires now name (transport_close i h)) = Some c'
      \<and> conn_limiter c' = None \<and> conn_rateConfig c' = None
      \<and> conn_command c' = conn_command c \<and> conn_args c' = conn_args c \<and> conn_env c' = conn_env c"
proof -
  let ?d = "c\<lparr>conn_status := StDisconnected\<rparr>"
  let ?h1 = "hub_emit (EvServerDisconnected name) (set_obj i (\<lambda>c. c\<lparr>conn_status := StDisconnected\<rparr>) h)"
  have tc: "transport_close i h = handleDisconnection name ?h1"
    using assms by (simp add: transport_close_def)
  have o: "map_of (objs ?h1) i = Some ?d" using assms(2) by (simp add: set_obj_def)
  have hd: "handleDisconnection name ?h1 =
      ?h1\<lparr>reconnectAttempts := AList.update name (attempts_of name h + 1) (reconnectAttempts h),
          reconnectTimers := AList.update name (connection_config ?d) (reconnectTimers h)\<rparr>"
    using assms o by (simp add: handleDisconnection_def Let_def attempts_of_def)
  let ?h2 = "handleDisconnection name ?h1"
  have t: "map_of (reconnectTimers ?h2) name = Some (connection_config ?d)" by (simp add: hd)
  have "timer_fires now name ?h2 =
      connect_open now name (connection_config ?d) (?h2\<lparr>reconnectTimers := AList.delete name (reconnectTimers ?h2)\<rparr>)"
    using t assms o by (simp add: timer_fires_def connectServer_def)
  then show ?thesis unfolding tc
    by (simp add: connect_open_def connection_of_def connection_config_def nullish_def)
qed

theorem reconnect_drops_rate_limit_witness:
  "let r = \<lparr>cfgRequestsPerSecond = 2, cfgBurstSize = None, cfgOnLimitExceeded = None, cfgMaxQueueTimeMs = None\<rparr>;
       h = connect_ok 1 0 (connectServer 0 ''a'' (demo_config (Some r)) (new_hub DEFAULT_HUB_CONFIG))
   in map_option conn_rateConfig (connection_of ''a'' h) = Some (Some r)
      \<and> map_option conn_rateConfig (connection_of ''a'' (timer_fires 9 ''a'' (transport_close 0 h))) = Some None"
proof -
  let ?r = "\<lparr>cfgRequestsPerSecond = 2, cfgBurstSize = None, cfgOnLimitExceeded = None, cfgMaxQueueTimeMs = None\<rparr>"
  let ?h = "connect_ok 1 0 (connectServer 0 ''a'' (demo_config (Some ?r)) (new_hub DEFAULT_HUB_CONFIG))"
  obtain c where c: "map_of (objs ?h) 0 = Some c" "conn_name c = ''a''" "handlers_on c" "conn_status c = StConnected"
      "conn_rateConfig c = Some ?r" and m: "map_of (connections ?h) ''a'' = Some 0"
    by (simp add: new_hub_def connectServer_def connect_open_def connect_ok_def set_obj_def demo_config_def)
  have f: "\<not> isShuttingDown ?h" "autoReconnect (hub_conf ?h)" "attempts_of ''a'' ?h < maxReconnectAttempts (hub_conf ?h)"
    by (simp_all add: new_hub_def connectServer_def connect_open_def connect_ok_def set_obj_def
        DEFAULT_HUB_CONFIG_def attempts_of_def nullish_def)
  from reconnect_drops_rate_limit [OF m c(1,2,3,4) f] c m show ?thesis
    by (auto simp: connection_of_def Let_def)
qed

subsection \<open>Configured servers\<close>

lemma add_claude_lookup:
  "map_of (add_claude_servers claude m) n =
     (case map_of m n of Some c \<Rightarrow> Some c
      | None \<Rightarrow> (case claude of Some (Some servers) \<Rightarrow> map_of servers n | _ \<Rightarrow> None))"
proof -
  have gen: "map_of (foldl (\<lambda>m (n, c). if js_has m n then m else AList.update n c m) m xs) n =
      (case map_of m n of Some c \<Rightarrow> Some c | None \<Rightarrow> map_of xs n)" for xs
  proof (induction xs arbitrary: m)
    case (Cons x xs)
    obtain a b where "x = (a, b)" by force
    then show ?case using Cons by (auto simp: js_has_def split: option.split)
  qed (simp split: option.split)
  show ?thesis by (auto simp: add_claude_servers_def gen split: option.splits)
qed

text \<open>Which servers the hub connects to, and how. A server is connected with a configuration exactly
  when that is the conductor's entry for it, or Claude's where the conductor has none and is not
  exclusive; its name is not one of the hub's own; it is not denied; and the allow list is empty,
  holds a star, or holds the name.\<close>

theorem configured_servers_exact:
  "(n, cfg) \<in> set (servers_to_connect c conductor claude) \<longleftrightarrow>
     (let own = (case conductor of None \<Rightarrow> [] | Some cc \<Rightarrow> conductor_servers cc);
          shared = (case claude of Some (Some servers) \<Rightarrow> servers | _ \<Rightarrow> [])
      in (map_of own n = Some cfg
          \<or> map_of own n = None \<and> \<not> isExclusiveMode conductor \<and> map_of shared n = Some cfg)
         \<and> n \<noteq> ''mcp-conductor'' \<and> n \<noteq> ''mcp-executor'' \<and> n \<notin> set (denyList c)
         \<and> (allowList c = [] \<or> ''*'' \<in> set (allowList c) \<or> n \<in> set (allowList c)))"
proof -
  have m: "(n, cfg) \<in> set (servers_to_connect c conductor claude) \<longleftrightarrow>
      n \<in> set (filterServers c (js_keys (discoverServers conductor claude)))
      \<and> map_of (discoverServers conductor claude) n = Some cfg"
    by (force simp: servers_to_connect_def Let_def map_filter_def)
  have k: "map_of (discoverServers conductor claude) n = Some cfg \<Longrightarrow> n \<in> set (js_keys (discoverServers conductor claude))"
    by (force simp: js_keys_def dest: map_of_SomeD)
  have f: "n \<in> set (filterServers c xs) \<longleftrightarrow> n \<in> set xs \<and> n \<noteq> ''mcp-conductor'' \<and> n \<noteq> ''mcp-executor'' \<and> n \<notin> set (denyList c)
         \<and> (allowList c = [] \<or> ''*'' \<in> set (allowList c) \<or> n \<in> set (allowList c))" for xs
    by (auto simp: filterServers_def)
  have d: "map_of (discoverServers conductor claude) n = Some cfg \<longleftrightarrow>
      map_of (case conductor of None \<Rightarrow> [] | Some cc \<Rightarrow> conductor_servers cc) n = Some cfg
      \<or> map_of (case conductor of None \<Rightarrow> [] | Some cc \<Rightarrow> conductor_servers cc) n = None \<and> \<not> isExclusiveMode conductor
        \<and> map_of (case claude of Some (Some servers) \<Rightarrow> servers | _ \<Rightarrow> []) n = Some cfg"
    by (auto simp: discoverServers_def isExclusiveMode_def add_claude_lookup split: option.splits)
  show ?thesis unfolding m f Let_def using k d by blast
qed

end
