(* ===== verification/Streaming.thy ===== *)
theory Streaming
  imports Json
begin

text \<open>
  Execution streams: \<open>src/src/streaming/execution-stream.ts\<close>. A response (an SSE connection) is a number;
  \<open>sent\<close> is what was written to each, and \<open>broken\<close> are those whose \<open>write\<close> throws. The field
  \<open>history\<close> is no field of the code: it keeps every event that was broadcast, to state what the
  bounded buffer holds. A percentage is a whole number. Events for listeners are left out.
\<close>

datatype stream_event_type = EvLog | EvProgress | EvToolCall | EvError | EvComplete

record stream_event =
  se_type :: stream_event_type
  se_timestamp :: time
  se_executionId :: string
  se_data :: json

datatype execution_status = ExRunning | ExCompleted | ExError | ExTimeout

record execution_stream =
  ex_id :: string
  ex_startedAt :: time
  ex_status :: execution_status
  ex_progress :: int
  ex_logs :: "string list"
  ex_toolCalls :: nat
  ex_lastUpdate :: time
  ex_connections :: "nat list"
  eventBuffer :: "stream_event list"
  closeTimers :: nat
  broken :: "nat list"
  sent :: "(nat, stream_event list) jsmap"
  ended :: "nat list"
  history :: "stream_event list"

definition maxBufferSize :: nat where
  "maxBufferSize = 100"

definition new_stream :: "time \<Rightarrow> string \<Rightarrow> execution_stream" where
  "new_stream now i =
     \<lparr>ex_id = i, ex_startedAt = now, ex_status = ExRunning, ex_progress = 0, ex_logs = [], ex_toolCalls = 0,
      ex_lastUpdate = now, ex_connections = [], eventBuffer = [], closeTimers = 0, broken = [], sent = [],
      ended = [], history = []\<rparr>"

text \<open>An object with the properties that are not \<open>undefined\<close>.\<close>

definition js_object :: "(string \<times> json option) list \<Rightarrow> json" where
  "js_object kvs = JObj (List.map_filter (\<lambda>(k, v). map_option (Pair k) v) kvs)"

definition sent_to :: "nat \<Rightarrow> execution_stream \<Rightarrow> stream_event list" where
  "sent_to r s = nullish (map_of (sent s) r) []"

definition sendEvent :: "nat \<Rightarrow> stream_event \<Rightarrow> execution_stream \<Rightarrow> execution_stream" where
  "sendEvent r ev s =
     (if r \<in> set (broken s) then s\<lparr>ex_connections := removeAll r (ex_connections s)\<rparr>
      else s\<lparr>sent := AList.update r (sent_to r s @ [ev]) (sent s)\<rparr>)"

definition hello_event :: "time \<Rightarrow> execution_stream \<Rightarrow> stream_event" where
  "hello_event now s =
     \<lparr>se_type = EvLog, se_timestamp = now, se_executionId = ex_id s,
      se_data = js_object [(''message'', Some (JStr ''Connected to execution stream'')), (''level'', Some (JStr ''info''))]\<rparr>"

definition addConnection :: "time \<Rightarrow> nat \<Rightarrow> execution_stream \<Rightarrow> execution_stream" where
  "addConnection now r s =
     (let s1 = foldl (\<lambda>s ev. sendEvent r ev s) (sendEvent r (hello_event now s) s) (eventBuffer s)
      in s1\<lparr>ex_connections := (if r \<in> set (ex_connections s1) then ex_connections s1 else ex_connections s1 @ [r])\<rparr>)"

definition connection_closed :: "nat \<Rightarrow> execution_stream \<Rightarrow> execution_stream" where
  "connection_closed r s = s\<lparr>ex_connections := removeAll r (ex_connections s)\<rparr>"

text \<open>\<open>push\<close> and, above the limit, \<open>shift\<close>.\<close>

definition push_event :: "stream_event \<Rightarrow> stream_event list \<Rightarrow> stream_event list" where
  "push_event ev buf = (if length (buf @ [ev]) > maxBufferSize then tl (buf @ [ev]) else buf @ [ev])"

definition stream_broadcast :: "stream_event \<Rightarrow> execution_stream \<Rightarrow> execution_stream" where
  "stream_broadcast ev s =
     (let s1 = s\<lparr>eventBuffer := push_event ev (eventBuffer s), history := history s @ [ev]\<rparr>
      in foldl (\<lambda>s r. sendEvent r ev s) s1 (ex_connections s1))"

definition stream_event_of :: "time \<Rightarrow> stream_event_type \<Rightarrow> json \<Rightarrow> execution_stream \<Rightarrow> stream_event" where
  "stream_event_of now ty d s = \<lparr>se_type = ty, se_timestamp = now, se_executionId = ex_id s, se_data = d\<rparr>"

definition stream_log :: "time \<Rightarrow> string \<Rightarrow> string option \<Rightarrow> execution_stream \<Rightarrow> execution_stream" where
  "stream_log now message level s =
     (let logs = ex_logs s @ [message];
          logs' = (if length logs > 500 then drop (length logs - 500) logs else logs)
      in stream_broadcast
           (stream_event_of now EvLog
             (js_object [(''message'', Some (JStr message)), (''level'', Some (JStr (nullish level ''info'')))]) s)
           (s\<lparr>ex_logs := logs', ex_lastUpdate := now\<rparr>))"

definition stream_progress :: "time \<Rightarrow> int \<Rightarrow> string option \<Rightarrow> execution_stream \<Rightarrow> execution_stream" where
  "stream_progress now percent message s =
     (let p = min 100 (max 0 percent)
      in stream_broadcast
           (stream_event_of now EvProgress
             (js_object [(''percent'', Some (JNum p)), (''message'', map_option JStr message)]) s)
           (s\<lparr>ex_progress := p, ex_lastUpdate := now\<rparr>))"

datatype tool_call_status = CallStarted | CallCompleted | CallError

fun tool_call_status_text :: "tool_call_status \<Rightarrow> string" where
  "tool_call_status_text CallStarted = ''started''"
| "tool_call_status_text CallCompleted = ''completed''"
| "tool_call_status_text CallError = ''error''"

definition stream_toolCall ::
    "time \<Rightarrow> string \<Rightarrow> string \<Rightarrow> tool_call_status \<Rightarrow> int option \<Rightarrow> string option \<Rightarrow> execution_stream \<Rightarrow> execution_stream" where
  "stream_toolCall now server tool st durationMs err s =
     stream_broadcast
       (stream_event_of now EvToolCall
         (js_object [(''server'', Some (JStr server)), (''tool'', Some (JStr tool)),
            (''status'', Some (JStr (tool_call_status_text st))), (''durationMs'', map_option JNum durationMs),
            (''error'', map_option JStr err)]) s)
       (s\<lparr>ex_toolCalls := (if st = CallCompleted \<or> st = CallError then ex_toolCalls s + 1 else ex_toolCalls s),
          ex_lastUpdate := now\<rparr>)"

definition stream_error :: "time \<Rightarrow> string \<Rightarrow> string option \<Rightarrow> execution_stream \<Rightarrow> execution_stream" where
  "stream_error now message ty s =
     stream_broadcast
       (stream_event_of now EvError
         (js_object [(''type'', Some (JStr (nullish ty ''runtime''))), (''message'', Some (JStr message))]) s)
       (s\<lparr>ex_status := ExError, ex_lastUpdate := now\<rparr>)"

text \<open>\<open>complete\<close>; the connections are closed by a timer.\<close>

definition stream_complete :: "time \<Rightarrow> bool \<Rightarrow> json \<Rightarrow> execution_stream \<Rightarrow> execution_stream" where
  "stream_complete now success result s =
     (let s1 = stream_broadcast (stream_event_of now EvComplete result s)
         (s\<lparr>ex_status := (if success then ExCompleted else ExError), ex_progress := 100, ex_lastUpdate := now,
            ex_logs := []\<rparr>)
      in s1\<lparr>closeTimers := closeTimers s1 + 1\<rparr>)"

definition closeAllConnections :: "execution_stream \<Rightarrow> execution_stream" where
  "closeAllConnections s = s\<lparr>ended := ended s @ ex_connections s, ex_connections := []\<rparr>"

definition close_timer :: "execution_stream \<Rightarrow> execution_stream" where
  "close_timer s = (if closeTimers s = 0 then s else closeAllConnections (s\<lparr>closeTimers := closeTimers s - 1\<rparr>))"

definition hasConnections :: "execution_stream \<Rightarrow> bool" where
  "hasConnections s \<longleftrightarrow> length (ex_connections s) > 0"

subsection \<open>The manager\<close>

definition STREAM_STALE_TTL_MS :: int where "STREAM_STALE_TTL_MS = 5 * 60000"
definition STREAM_COMPLETED_TTL_MS :: int where "STREAM_COMPLETED_TTL_MS = 10 * 60000"
definition STREAM_STUCK_TTL_MS :: int where "STREAM_STUCK_TTL_MS = 15 * 60000"

record stream_manager =
  streams :: "(string, execution_stream) jsmap"
  cleanupOn :: bool
  closedStreams :: "execution_stream list"

definition new_manager :: stream_manager where
  "new_manager = \<lparr>streams = [], cleanupOn = True, closedStreams = []\<rparr>"

definition createStream :: "time \<Rightarrow> string \<Rightarrow> stream_manager \<Rightarrow> stream_manager" where
  "createStream now i m =
     m\<lparr>closedStreams := closedStreams m @ (case map_of (streams m) i of None \<Rightarrow> [] | Some s \<Rightarrow> [closeAllConnections s]),
       streams := AList.update i (new_stream now i) (streams m)\<rparr>"

definition removeStream :: "string \<Rightarrow> stream_manager \<Rightarrow> stream_manager" where
  "removeStream i m =
     (case map_of (streams m) i of
        None \<Rightarrow> m
      | Some s \<Rightarrow> m\<lparr>closedStreams := closedStreams m @ [closeAllConnections s], streams := AList.delete i (streams m)\<rparr>)"

definition listStreams :: "stream_manager \<Rightarrow> (string \<times> execution_stream) list" where
  "listStreams m = streams m"

definition stream_is_stale :: "time \<Rightarrow> execution_stream \<Rightarrow> bool" where
  "stream_is_stale now s =
     (let age = now - ex_lastUpdate s; done = (ex_status s = ExCompleted \<or> ex_status s = ExError) in
      if done \<and> \<not> hasConnections s \<and> age > STREAM_STALE_TTL_MS then True
      else if done \<and> age > STREAM_COMPLETED_TTL_MS then True
      else if ex_status s = ExRunning \<and> age > STREAM_STUCK_TTL_MS then True
      else False)"

definition cleanupStaleStreams :: "time \<Rightarrow> stream_manager \<Rightarrow> stream_manager" where
  "cleanupStaleStreams now m =
     (let toRemove = map fst (filter (\<lambda>(i, s). stream_is_stale now s) (streams m))
      in foldl (\<lambda>m i. removeStream i m) m toRemove)"

definition manager_shutdown :: "stream_manager \<Rightarrow> stream_manager" where
  "manager_shutdown m =
     m\<lparr>cleanupOn := False, closedStreams := closedStreams m @ map (\<lambda>(i, s). closeAllConnections s) (streams m),
       streams := []\<rparr>"


subsection \<open>Runs of a stream\<close>

datatype stream_op =
    Join time nat
  | Leave nat
  | Break nat
  | SendLog time string "string option"
  | SendProgress time int "string option"
  | SendToolCall time string string tool_call_status "int option" "string option"
  | SendError time string "string option"
  | Complete time bool json
  | CloseTimer
  | CloseAll

fun stream_step :: "execution_stream \<Rightarrow> stream_op \<Rightarrow> execution_stream" where
  "stream_step s (Join now r) = addConnection now r s"
| "stream_step s (Leave r) = connection_closed r s"
| "stream_step s (Break r) = s\<lparr>broken := r # broken s\<rparr>"
| "stream_step s (SendLog now m l) = stream_log now m l s"
| "stream_step s (SendProgress now p m) = stream_progress now p m s"
| "stream_step s (SendToolCall now a b st d e) = stream_toolCall now a b st d e s"
| "stream_step s (SendError now m t) = stream_error now m t s"
| "stream_step s (Complete now ok v) = stream_complete now ok v s"
| "stream_step s CloseTimer = close_timer s"
| "stream_step s CloseAll = closeAllConnections s"

lemma sendEvent_frame [simp]:
  "eventBuffer (sendEvent r ev s) = eventBuffer s" "history (sendEvent r ev s) = history s"
  "ex_logs (sendEvent r ev s) = ex_logs s" "ex_progress (sendEvent r ev s) = ex_progress s"
  "broken (sendEvent r ev s) = broken s" "ex_id (sendEvent r ev s) = ex_id s"
  by (simp_all add: sendEvent_def)

lemma send_all_frame [simp]:
  "eventBuffer (foldl (\<lambda>s r. sendEvent r ev s) s rs) = eventBuffer s"
  "history (foldl (\<lambda>s r. sendEvent r ev s) s rs) = history s"
  "ex_logs (foldl (\<lambda>s r. sendEvent r ev s) s rs) = ex_logs s"
  "ex_progress (foldl (\<lambda>s r. sendEvent r ev s) s rs) = ex_progress s"
  by (induction rs arbitrary: s) simp_all

lemma replay_frame [simp]:
  "eventBuffer (foldl (\<lambda>s ev. sendEvent r ev s) s evs) = eventBuffer s"
  "history (foldl (\<lambda>s ev. sendEvent r ev s) s evs) = history s"
  "ex_logs (foldl (\<lambda>s ev. sendEvent r ev s) s evs) = ex_logs s"
  "ex_progress (foldl (\<lambda>s ev. sendEvent r ev s) s evs) = ex_progress s"
  "broken (foldl (\<lambda>s ev. sendEvent r ev s) s evs) = broken s"
  by (induction evs arbitrary: s) simp_all

lemma stream_broadcast_frame [simp]:
  "eventBuffer (stream_broadcast ev s) = push_event ev (eventBuffer s)"
  "history (stream_broadcast ev s) = history s @ [ev]"
  "ex_logs (stream_broadcast ev s) = ex_logs s" "ex_progress (stream_broadcast ev s) = ex_progress s"
  by (simp_all add: stream_broadcast_def Let_def)

definition stream_ok :: "execution_stream \<Rightarrow> bool" where
  "stream_ok s \<longleftrightarrow> eventBuffer s = drop (length (history s) - maxBufferSize) (history s)
     \<and> length (ex_logs s) \<le> 500 \<and> 0 \<le> ex_progress s \<and> ex_progress s \<le> 100"

lemma push_event_drop:
  "push_event ev (drop (length h - maxBufferSize) h) = drop (length (h @ [ev]) - maxBufferSize) (h @ [ev])"
proof (cases "length h < maxBufferSize")
  case False
  then have "length h - maxBufferSize \<le> length h" "drop (length h - maxBufferSize) h \<noteq> []"
    by (simp_all add: maxBufferSize_def)
  then show ?thesis using False
    by (simp add: push_event_def Suc_diff_le tl_append2 drop_Suc tl_drop)
qed (simp add: push_event_def)

lemma stream_ok_broadcast: "stream_ok s \<Longrightarrow> stream_ok (stream_broadcast ev s)"
  by (simp only: stream_ok_def stream_broadcast_frame push_event_drop)

interpretation stream_run: stepper stream_step stream_ok
proof unfold_locales
  fix s e
  assume ok: "stream_ok s"
  have upd: "stream_ok (s\<lparr>ex_logs := ls, ex_lastUpdate := t\<rparr>)" if "length ls \<le> 500" for ls t
    using ok that by (simp add: stream_ok_def)
  show "stream_ok (stream_step s e)"
  proof (cases e)
    case (SendLog now m l)
    have "length (if length (ex_logs s @ [m]) > 500 then drop (length (ex_logs s @ [m]) - 500) (ex_logs s @ [m])
        else ex_logs s @ [m]) \<le> 500" by simp
    from stream_ok_broadcast [OF upd [OF this]] show ?thesis using SendLog by (simp add: stream_log_def Let_def)
  next
    case (SendProgress now p m)
    have "stream_ok (s\<lparr>ex_progress := min 100 (max 0 p), ex_lastUpdate := now\<rparr>)" using ok by (simp add: stream_ok_def)
    then show ?thesis using SendProgress stream_ok_broadcast by (simp add: stream_progress_def Let_def)
  next
    case (SendToolCall now a b st d e)
    have "stream_ok (s\<lparr>ex_toolCalls := n, ex_lastUpdate := now\<rparr>)" for n using ok by (simp add: stream_ok_def)
    then show ?thesis using SendToolCall stream_ok_broadcast by (simp add: stream_toolCall_def)
  next
    case (SendError now m t)
    have "stream_ok (s\<lparr>ex_status := ExError, ex_lastUpdate := now\<rparr>)" using ok by (simp add: stream_ok_def)
    then show ?thesis using SendError stream_ok_broadcast by (simp add: stream_error_def)
  next
    case (Complete now ok' v)
    have "stream_ok (s\<lparr>ex_status := st, ex_progress := 100, ex_lastUpdate := now, ex_logs := []\<rparr>)" for st
      using ok by (simp add: stream_ok_def)
    then have "stream_ok (stream_broadcast ev (s\<lparr>ex_status := st, ex_progress := 100, ex_lastUpdate := now, ex_logs := []\<rparr>))"
      for ev st by (rule stream_ok_broadcast)
    then show ?thesis using Complete by (simp add: stream_complete_def Let_def stream_ok_def)
  next
    case (Join now r)
    then show ?thesis using ok by (simp add: addConnection_def stream_ok_def Let_def)
  qed (use ok in \<open>simp_all add: stream_ok_def connection_closed_def closeAllConnections_def close_timer_def\<close>)
qed

lemma stream_ok_new: "stream_ok (new_stream now i)"
  by (simp add: stream_ok_def new_stream_def)

text \<open>A response follows the stream from event \<open>m\<close> on, or has been dropped.\<close>

definition follows :: "stream_event \<Rightarrow> nat \<Rightarrow> nat \<Rightarrow> execution_stream \<Rightarrow> bool" where
  "follows x r m s \<longleftrightarrow> r \<in> set (ex_connections s) \<longrightarrow>
     m \<le> length (history s) \<and> distinct (ex_connections s) \<and> sent_to r s = x # drop m (history s)"

definition conns_ok :: "execution_stream \<Rightarrow> bool" where
  "conns_ok s \<longleftrightarrow> distinct (ex_connections s)"

lemma sendEvent_conns: "set (ex_connections (sendEvent r ev s)) \<subseteq> set (ex_connections s)"
  "distinct (ex_connections s) \<Longrightarrow> distinct (ex_connections (sendEvent r ev s))"
  by (auto simp: sendEvent_def distinct_removeAll)

lemma send_all_conns:
  "set (ex_connections (foldl (\<lambda>s r. sendEvent r ev s) s rs)) \<subseteq> set (ex_connections s)"
  "distinct (ex_connections s) \<Longrightarrow> distinct (ex_connections (foldl (\<lambda>s r. sendEvent r ev s) s rs))"
proof (induction rs arbitrary: s)
  case (Cons a rs)
  { case 1
    then show ?case using Cons.IH(1) [of "sendEvent a ev s"] sendEvent_conns(1) [of a ev s] by auto }
  { case 2
    then show ?case using Cons.IH(2) [of "sendEvent a ev s"] sendEvent_conns(2) [of s a ev] by auto }
qed simp_all

lemma send_all_to:
  "distinct rs \<Longrightarrow> r \<in> set (ex_connections (foldl (\<lambda>s r. sendEvent r ev s) s rs)) \<Longrightarrow>
   sent_to r (foldl (\<lambda>s r. sendEvent r ev s) s rs) = (if r \<in> set rs then sent_to r s @ [ev] else sent_to r s)"
proof (induction rs arbitrary: s)
  case (Cons a rs)
  have "r \<in> set (ex_connections (sendEvent a ev s))"
    using send_all_conns(1) Cons.prems(2) by fastforce
  then have "sent_to r (sendEvent a ev s) = (if r = a then sent_to r s @ [ev] else sent_to r s)"
    by (auto simp: sendEvent_def sent_to_def nullish_def split: if_splits)
  then show ?case using Cons.IH [of "sendEvent a ev s"] Cons.prems by auto
qed simp

lemma follows_broadcast:
  assumes "follows x r m s"
  shows "follows x r m (stream_broadcast ev s)"
  unfolding follows_def
proof
  let ?s = "s\<lparr>eventBuffer := push_event ev (eventBuffer s), history := history s @ [ev]\<rparr>"
  assume r: "r \<in> set (ex_connections (stream_broadcast ev s))"
  then have r': "r \<in> set (ex_connections s)"
    using send_all_conns(1) [of ev ?s "ex_connections s"] by (auto simp: stream_broadcast_def Let_def)
  then have f: "m \<le> length (history s)" "distinct (ex_connections s)" "sent_to r s = x # drop m (history s)"
    using assms by (auto simp: follows_def)
  have "sent_to r (stream_broadcast ev s) = sent_to r ?s @ [ev]"
    using send_all_to [OF f(2), of r ev ?s] r r' by (simp add: stream_broadcast_def Let_def)
  moreover have "sent_to r ?s = sent_to r s" by (simp add: sent_to_def)
  moreover have "distinct (ex_connections (stream_broadcast ev s))"
    using send_all_conns(2) [of ?s ev "ex_connections s"] f(2) by (simp add: stream_broadcast_def Let_def)
  ultimately show "m \<le> length (history (stream_broadcast ev s)) \<and> distinct (ex_connections (stream_broadcast ev s))
      \<and> sent_to r (stream_broadcast ev s) = x # drop m (history (stream_broadcast ev s))"
    using f by simp
qed


fun names_response :: "nat \<Rightarrow> stream_op \<Rightarrow> bool" where
  "names_response r (Join now r') = (r' = r)"
| "names_response r (Break r') = (r' = r)"
| "names_response r _ = False"

fun joins_response :: "nat \<Rightarrow> stream_op \<Rightarrow> bool" where
  "joins_response r (Join now r') = (r' = r)"
| "joins_response r _ = False"

lemma sendEvent_other: "r' \<noteq> r \<Longrightarrow> sent_to r (sendEvent r' ev s) = sent_to r s"
  by (simp add: sendEvent_def sent_to_def)

lemma replay_other: "r' \<noteq> r \<Longrightarrow> sent_to r (foldl (\<lambda>s ev. sendEvent r' ev s) s evs) = sent_to r s"
  by (induction evs arbitrary: s) (auto simp: sendEvent_other)

lemma replay_conns:
  "set (ex_connections (foldl (\<lambda>s ev. sendEvent r ev s) s evs)) \<subseteq> set (ex_connections s)"
  "distinct (ex_connections s) \<Longrightarrow> distinct (ex_connections (foldl (\<lambda>s ev. sendEvent r ev s) s evs))"
proof (induction evs arbitrary: s)
  case (Cons e evs)
  { case 1
    then show ?case using Cons.IH(1) [of "sendEvent r e s"] sendEvent_conns(1) [of r e s] by auto }
  { case 2
    then show ?case using Cons.IH(2) [of "sendEvent r e s"] sendEvent_conns(2) [of s r e] by auto }
qed simp_all

lemma addConnection_conns:
  "set (ex_connections (addConnection now r s)) \<subseteq> insert r (set (ex_connections s))"
  "distinct (ex_connections s) \<Longrightarrow> distinct (ex_connections (addConnection now r s))"
  using replay_conns(1) [of r "sendEvent r (hello_event now s) s" "eventBuffer s"]
    replay_conns(2) [of "sendEvent r (hello_event now s) s" r "eventBuffer s"]
    sendEvent_conns(1) [of r "hello_event now s" s] sendEvent_conns(2) [of s r "hello_event now s"]
  by (auto simp: addConnection_def Let_def)

lemma addConnection_history [simp]: "history (addConnection now r s) = history s"
  by (simp add: addConnection_def Let_def)

lemma addConnection_other: "r' \<noteq> r \<Longrightarrow> sent_to r (addConnection now r' s) = sent_to r s"
proof -
  assume r: "r' \<noteq> r"
  have "sent_to r (s1\<lparr>ex_connections := c\<rparr>) = sent_to r s1" for s1 c by (simp add: sent_to_def)
  then show ?thesis using r by (simp add: addConnection_def Let_def replay_other sendEvent_other)
qed

lemma replay_self:
  "r \<notin> set (broken s) \<Longrightarrow> sent_to r (foldl (\<lambda>s ev. sendEvent r ev s) s evs) = sent_to r s @ evs"
proof (induction evs arbitrary: s)
  case (Cons e evs)
  have "sent_to r (sendEvent r e s) = sent_to r s @ [e]"
    using Cons.prems by (simp add: sendEvent_def sent_to_def nullish_def)
  then show ?case using Cons.IH [of "sendEvent r e s"] Cons.prems by simp
qed simp

lemma addConnection_self:
  assumes "r \<notin> set (broken s)"
  shows "sent_to r (addConnection now r s) = sent_to r s @ hello_event now s # eventBuffer s"
proof -
  have "sent_to r (s1\<lparr>ex_connections := c\<rparr>) = sent_to r s1" for s1 c by (simp add: sent_to_def)
  moreover have "sent_to r (sendEvent r (hello_event now s) s) = sent_to r s @ [hello_event now s]"
    using assms by (simp add: sendEvent_def sent_to_def nullish_def)
  ultimately show ?thesis using replay_self [of r "sendEvent r (hello_event now s) s" "eventBuffer s"] assms
    by (simp add: addConnection_def Let_def)
qed

lemma follows_fields:
  "follows x r m s \<Longrightarrow> history s' = history s \<Longrightarrow> sent s' = sent s \<Longrightarrow>
   set (ex_connections s') \<subseteq> set (ex_connections s) \<Longrightarrow> (distinct (ex_connections s) \<longrightarrow> distinct (ex_connections s')) \<Longrightarrow>
   follows x r m s'"
  by (auto simp: follows_def sent_to_def)

lemma follows_step:
  assumes "follows x r m s" "\<not> joins_response r e"
  shows "follows x r m (stream_step s e)"
proof (cases e)
  case (Join now r')
  then have r: "r' \<noteq> r" using assms(2) by auto
  show ?thesis unfolding follows_def
  proof
    assume "r \<in> set (ex_connections (stream_step s e))"
    then have "r \<in> set (ex_connections s)" using Join r addConnection_conns(1) [of now r' s] by auto
    then show "m \<le> length (history (stream_step s e)) \<and> distinct (ex_connections (stream_step s e))
        \<and> sent_to r (stream_step s e) = x # drop m (history (stream_step s e))"
      using assms(1) Join addConnection_conns(2) [of s now r'] addConnection_other [OF r] by (simp add: follows_def)
  qed
next
  case (Leave r')
  then show ?thesis using assms(1) by (auto simp: connection_closed_def distinct_removeAll elim!: follows_fields)
next
  case (Break r')
  then show ?thesis using assms(1) by (auto elim!: follows_fields)
next
  case CloseTimer
  then show ?thesis using assms(1) by (auto simp: close_timer_def closeAllConnections_def elim!: follows_fields)
next
  case CloseAll
  then show ?thesis using assms(1) by (auto simp: closeAllConnections_def elim!: follows_fields)
next
  case (Complete now ok v)
  let ?u = "s\<lparr>ex_status := (if ok then ExCompleted else ExError), ex_progress := 100, ex_lastUpdate := now, ex_logs := []\<rparr>"
  have "follows x r m ?u" using assms(1) by (auto elim!: follows_fields)
  then have "follows x r m (stream_broadcast (stream_event_of now EvComplete v s) ?u)" by (rule follows_broadcast)
  then show ?thesis using Complete by (auto simp: stream_complete_def Let_def elim!: follows_fields)
next
  case (SendLog now msg l)
  then show ?thesis using assms(1)
    by (auto simp: stream_log_def Let_def intro!: follows_broadcast elim!: follows_fields)
next
  case (SendProgress now p msg)
  then show ?thesis using assms(1)
    by (auto simp: stream_progress_def Let_def intro!: follows_broadcast elim!: follows_fields)
next
  case (SendToolCall now a b st d e')
  then show ?thesis using assms(1)
    by (auto simp: stream_toolCall_def intro!: follows_broadcast elim!: follows_fields)
next
  case (SendError now msg t)
  then show ?thesis using assms(1)
    by (auto simp: stream_error_def intro!: follows_broadcast elim!: follows_fields)
qed

lemma follows_run:
  "follows x r m s \<Longrightarrow> list_all (\<lambda>e. \<not> joins_response r e) es \<Longrightarrow> follows x r m (foldl stream_step s es)"
  by (induction es arbitrary: s) (auto simp: follows_step)

text \<open>A response that was never mentioned.\<close>

definition unknown_response :: "nat \<Rightarrow> execution_stream \<Rightarrow> bool" where
  "unknown_response r s \<longleftrightarrow> r \<notin> set (ex_connections s) \<and> r \<notin> set (broken s) \<and> sent_to r s = []
     \<and> distinct (ex_connections s)"

lemma unknown_send_all:
  "unknown_response r s \<Longrightarrow> r \<notin> set rs \<Longrightarrow> unknown_response r (foldl (\<lambda>s r. sendEvent r ev s) s rs)"
proof (induction rs arbitrary: s)
  case (Cons a rs)
  have "unknown_response r (sendEvent a ev s)"
    using Cons.prems sendEvent_conns(1) [of a ev s] sendEvent_conns(2) [of s a ev] sendEvent_other [of a r ev s]
    by (auto simp: unknown_response_def)
  then show ?case using Cons by simp
qed simp

lemma unknown_fields:
  "unknown_response r s \<Longrightarrow> sent s' = sent s \<Longrightarrow> broken s' = broken s \<Longrightarrow>
   set (ex_connections s') \<subseteq> set (ex_connections s) \<Longrightarrow> (distinct (ex_connections s) \<longrightarrow> distinct (ex_connections s')) \<Longrightarrow>
   unknown_response r s'"
  by (auto simp: unknown_response_def sent_to_def)

lemma unknown_broadcast:
  assumes "unknown_response r s"
  shows "unknown_response r (stream_broadcast ev s)"
proof -
  let ?s = "s\<lparr>eventBuffer := push_event ev (eventBuffer s), history := history s @ [ev]\<rparr>"
  have "unknown_response r ?s" using assms by (auto elim!: unknown_fields)
  then show ?thesis using unknown_send_all [of r ?s "ex_connections s" ev] assms
    by (simp add: stream_broadcast_def Let_def unknown_response_def)
qed

lemma unknown_step:
  assumes "unknown_response r s" "\<not> names_response r e"
  shows "unknown_response r (stream_step s e)"
proof (cases e)
  case (Join now r')
  then have r: "r' \<noteq> r" using assms(2) by auto
  have "broken (addConnection now r' s) = broken s" by (simp add: addConnection_def Let_def)
  then show ?thesis using assms(1) Join r addConnection_conns(1) [of now r' s] addConnection_conns(2) [of s now r'] addConnection_other [OF r, of now s]
    by (auto simp: unknown_response_def)
next
  case (Break r')
  then show ?thesis using assms by (auto simp: unknown_response_def sent_to_def)
next
  case (Leave r')
  then show ?thesis using assms(1) by (auto simp: connection_closed_def distinct_removeAll elim!: unknown_fields)
next
  case CloseTimer
  then show ?thesis using assms(1) by (auto simp: close_timer_def closeAllConnections_def elim!: unknown_fields)
next
  case CloseAll
  then show ?thesis using assms(1) by (auto simp: closeAllConnections_def elim!: unknown_fields)
next
  case (Complete now ok v)
  let ?u = "s\<lparr>ex_status := (if ok then ExCompleted else ExError), ex_progress := 100, ex_lastUpdate := now, ex_logs := []\<rparr>"
  have "unknown_response r ?u" using assms(1) by (auto elim!: unknown_fields)
  then have "unknown_response r (stream_broadcast (stream_event_of now EvComplete v s) ?u)" by (rule unknown_broadcast)
  then show ?thesis using Complete by (auto simp: stream_complete_def Let_def elim!: unknown_fields)
next
  case (SendLog now msg l)
  then show ?thesis using assms(1)
    by (auto simp: stream_log_def Let_def intro!: unknown_broadcast elim!: unknown_fields)
next
  case (SendProgress now p msg)
  then show ?thesis using assms(1)
    by (auto simp: stream_progress_def Let_def intro!: unknown_broadcast elim!: unknown_fields)
next
  case (SendToolCall now a b st d e')
  then show ?thesis using assms(1)
    by (auto simp: stream_toolCall_def intro!: unknown_broadcast elim!: unknown_fields)
next
  case (SendError now msg t)
  then show ?thesis using assms(1)
    by (auto simp: stream_error_def intro!: unknown_broadcast elim!: unknown_fields)
qed

lemma unknown_run:
  "unknown_response r s \<Longrightarrow> list_all (\<lambda>e. \<not> names_response r e) es \<Longrightarrow> unknown_response r (foldl stream_step s es)"
  by (induction es arbitrary: s) (auto simp: unknown_step)

text \<open>C19: A late listener misses nothing that is still buffered and nothing that follows. A response that
  was not used before joins a stream at any moment of a run, and does not join again. If it is still
  connected after any further run, it has been sent the greeting, then the last hundred events
  broadcast before it joined, then every event broadcast since, each once and in order, and nothing else.\<close>

theorem listener_sees_every_event:
  assumes "list_all (\<lambda>e. \<not> names_response r e) es" and "list_all (\<lambda>e. \<not> joins_response r e) es'"
    and "s = foldl stream_step (new_stream t i) es"
    and "s' = foldl stream_step (addConnection now r s) es'"
    and "r \<in> set (ex_connections s')"
  shows "sent_to r s' = hello_event now s # drop (length (history s) - 100) (history s')"
proof -
  have "unknown_response r (new_stream t i)" by (simp add: unknown_response_def new_stream_def sent_to_def nullish_def)
  then have u: "unknown_response r s" using unknown_run assms(1,3) by simp
  have b: "eventBuffer s = drop (length (history s) - 100) (history s)"
    using stream_run.inv_run [OF stream_ok_new] assms(3) by (simp add: stream_ok_def maxBufferSize_def)
  have "follows (hello_event now s) r (length (history s) - 100) (addConnection now r s)"
    using addConnection_self [of r s now] addConnection_conns(2) [of s now r] u b
    by (simp add: follows_def unknown_response_def)
  from follows_run [OF this assms(2)] assms(4,5) show ?thesis by (simp add: follows_def)
qed

theorem listener_sees_every_event_witness:
  "map se_type (sent_to 7 (foldl stream_step (addConnection 5 7 (foldl stream_step (new_stream 0 ''x'') [SendLog 1 ''a'' None]))
      [SendProgress 6 50 None])) = [EvLog, EvLog, EvProgress]"
proof -
  let ?s = "foldl stream_step (new_stream 0 ''x'') [SendLog 1 ''a'' None]"
  let ?s' = "foldl stream_step (addConnection 5 7 ?s) [SendProgress 6 50 None]"
  have c: "7 \<in> set (ex_connections ?s')"
    by (simp add: new_stream_def stream_log_def stream_broadcast_def addConnection_def sendEvent_def
        stream_progress_def push_event_def maxBufferSize_def Let_def)
  have "history ?s' = history ?s @ [stream_event_of 6 EvProgress (js_object [(''percent'', Some (JNum 50)), (''message'', None)]) (addConnection 5 7 ?s)]"
    "map se_type (history ?s) = [EvLog]" "length (history ?s) = 1"
    by (simp_all add: stream_progress_def stream_log_def stream_event_of_def new_stream_def Let_def)
  then show ?thesis using listener_sees_every_event [OF _ _ refl refl c]
    by (simp add: hello_event_def stream_event_of_def)
qed

text \<open>What a stream keeps is bounded: at most a hundred events and five hundred log lines, and the
  progress is a percentage.\<close>

lemma stream_memory_bounded:
  "let s = foldl stream_step (new_stream t i) es
   in length (eventBuffer s) \<le> 100 \<and> length (ex_logs s) \<le> 500 \<and> 0 \<le> ex_progress s \<and> ex_progress s \<le> 100"
  using stream_run.inv_run [OF stream_ok_new, of t i es] by (simp add: stream_ok_def maxBufferSize_def Let_def)

subsection \<open>Cleaning up\<close>

lemma remove_all_lookup:
  "map_of (streams (foldl (\<lambda>m i. removeStream i m) m is')) i = (if i \<in> set is' then None else map_of (streams m) i)"
proof (induction is' arbitrary: m)
  case (Cons j js)
  have "map_of (streams (removeStream j m)) i = (if i = j then None else map_of (streams m) i)"
    by (simp add: removeStream_def split: option.split)
  then show ?case using Cons by auto
qed simp

text \<open>What the sweep removes. After a sweep a stream is in the manager exactly when it was there and is
  not finished with no listener for over five minutes, not finished for over ten minutes, and not
  running without any event for over fifteen. So no stream stays for ever.\<close>

theorem cleanup_exact:
  assumes "js_wf (streams m)"
  shows "map_of (streams (cleanupStaleStreams now m)) i =
     (case map_of (streams m) i of
        None \<Rightarrow> None
      | Some s \<Rightarrow>
          (if (ex_status s = ExCompleted \<or> ex_status s = ExError)
              \<and> (ex_connections s = [] \<and> now - ex_lastUpdate s > 300000 \<or> now - ex_lastUpdate s > 600000)
              \<or> ex_status s = ExRunning \<and> now - ex_lastUpdate s > 900000
           then None else Some s))"
proof -
  have st: "stream_is_stale now s \<longleftrightarrow> (ex_status s = ExCompleted \<or> ex_status s = ExError)
              \<and> (ex_connections s = [] \<and> now - ex_lastUpdate s > 300000 \<or> now - ex_lastUpdate s > 600000)
              \<or> ex_status s = ExRunning \<and> now - ex_lastUpdate s > 900000" for s
    by (auto simp: stream_is_stale_def Let_def hasConnections_def STREAM_STALE_TTL_MS_def
        STREAM_COMPLETED_TTL_MS_def STREAM_STUCK_TTL_MS_def)
  have "i \<in> fst ` set (filter (\<lambda>(i, s). stream_is_stale now s) (streams m))
      \<longleftrightarrow> (\<exists>s. map_of (streams m) i = Some s \<and> stream_is_stale now s)"
    using assms by (force simp: js_wf_def map_of_eq_Some_iff)
  then show ?thesis unfolding cleanupStaleStreams_def Let_def remove_all_lookup st [symmetric]
    by (auto split: option.split)
qed

theorem cleanup_exact_witness:
  "map_of (streams (cleanupStaleStreams 900001 (createStream 0 ''x'' new_manager))) ''x'' = None"
  using cleanup_exact [of "createStream 0 ''x'' new_manager" 900001 "''x''"]
  by (simp add: createStream_def new_manager_def new_stream_def)

end
