(* ===== verification/Pattern.thy ===== *)
theory Pattern
  imports Prelude
begin

text \<open>
  Regular expressions as the program's literals use them: character sets, sequences, alternatives,
  greedy repetitions \<open>{lo,hi}\<close> and the word boundary \<open>\b\<close>, matched by backtracking. A position is the
  character before it and the text after it; \<open>rx_ends\<close> lists the positions where a match from a
  position may end, in the order in which the backtracking matcher tries them, so that the first is
  the match. \<open>rx_segments\<close> is the scan that \<open>String.prototype.replace\<close> does with the flag \<open>g\<close>.
\<close>

datatype rx =
    RSet "char \<Rightarrow> bool"
  | REmpty
  | RSeq rx rx
  | RAlt rx rx
  | RRep nat "nat option" rx
  | RBoundary

type_synonym pos = "char option \<times> string"

definition char_in :: "char \<Rightarrow> char \<Rightarrow> char \<Rightarrow> bool" where
  "char_in lo hi c \<longleftrightarrow> (of_char lo :: nat) \<le> of_char c \<and> (of_char c :: nat) \<le> of_char hi"

definition is_upper :: "char \<Rightarrow> bool" where "is_upper c \<longleftrightarrow> char_in (CHR ''A'') (CHR ''Z'') c"
definition is_lower :: "char \<Rightarrow> bool" where "is_lower c \<longleftrightarrow> char_in (CHR ''a'') (CHR ''z'') c"
definition is_dig :: "char \<Rightarrow> bool" where "is_dig c \<longleftrightarrow> char_in (CHR ''0'') (CHR ''9'') c"
definition is_alnum :: "char \<Rightarrow> bool" where "is_alnum c \<longleftrightarrow> is_upper c \<or> is_lower c \<or> is_dig c"
definition is_word :: "char \<Rightarrow> bool" where "is_word c \<longleftrightarrow> is_alnum c \<or> c = CHR ''_''"

text \<open>\<open>\s\<close>, on the characters of this development's code page.\<close>

definition is_space :: "char \<Rightarrow> bool" where
  "is_space c \<longleftrightarrow> c = CHR '' '' \<or> char_in (CHR 0x09) (CHR 0x0D) c \<or> c = CHR 0xA0"

definition at_boundary :: "pos \<Rightarrow> bool" where
  "at_boundary p \<longleftrightarrow>
     (case fst p of None \<Rightarrow> False | Some c \<Rightarrow> is_word c) \<noteq> (case snd p of [] \<Rightarrow> False | c # _ \<Rightarrow> is_word c)"

text \<open>\<open>n\<close> obligatory rounds, and up to \<open>n\<close> further ones, greedily; a further round that consumes
  nothing is not taken.\<close>

primrec rx_times :: "nat \<Rightarrow> (pos \<Rightarrow> pos list) \<Rightarrow> pos \<Rightarrow> pos list" where
  "rx_times 0 f p = [p]"
| "rx_times (Suc n) f p = concat (map (rx_times n f) (f p))"

primrec rx_more :: "nat \<Rightarrow> (pos \<Rightarrow> pos list) \<Rightarrow> pos \<Rightarrow> pos list" where
  "rx_more 0 f p = [p]"
| "rx_more (Suc n) f p =
     concat (map (rx_more n f) (filter (\<lambda>q. length (snd q) < length (snd p)) (f p))) @ [p]"

primrec rx_ends :: "rx \<Rightarrow> pos \<Rightarrow> pos list" where
  "rx_ends (RSet f) = (\<lambda>p. case snd p of [] \<Rightarrow> [] | c # cs \<Rightarrow> if f c then [(Some c, cs)] else [])"
| "rx_ends REmpty = (\<lambda>p. [p])"
| "rx_ends (RSeq r s) = (\<lambda>p. concat (map (rx_ends s) (rx_ends r p)))"
| "rx_ends (RAlt r s) = (\<lambda>p. rx_ends r p @ rx_ends s p)"
| "rx_ends (RRep lo hi r) =
     (\<lambda>p. concat (map (\<lambda>q. rx_more (case hi of None \<Rightarrow> length (snd q) | Some h \<Rightarrow> h - lo) (rx_ends r) q)
        (rx_times lo (rx_ends r) p)))"
| "rx_ends RBoundary = (\<lambda>p. if at_boundary p then [p] else [])"

definition rx_match :: "rx \<Rightarrow> pos \<Rightarrow> string option" where
  "rx_match r p =
     (case rx_ends r p of [] \<Rightarrow> None | q # _ \<Rightarrow> Some (take (length (snd p) - length (snd q)) (snd p)))"

datatype segment = Hit string | Lit char

fun seg_text :: "segment \<Rightarrow> string" where
  "seg_text (Hit m) = m"
| "seg_text (Lit c) = [c]"

function rx_segments :: "rx \<Rightarrow> char option \<Rightarrow> string \<Rightarrow> segment list" where
  "rx_segments r pv [] = (if rx_match r (pv, []) = None then [] else [Hit []])"
| "rx_segments r pv (c # cs) =
     (case rx_match r (pv, c # cs) of
        None \<Rightarrow> Lit c # rx_segments r (Some c) cs
      | Some m \<Rightarrow>
          (if m = [] then Hit [] # Lit c # rx_segments r (Some c) cs
           else Hit m # rx_segments r (Some (last m)) (drop (length m) (c # cs))))"
  by pat_completeness auto
termination by (relation "measure (\<lambda>(r, pv, s). length s)") auto

text \<open>\<open>pattern.test(s)\<close>, and \<open>s.replace(pattern, text)\<close> with a fixed text without \<open>$\<close>.\<close>

fun rx_found :: "rx \<Rightarrow> char option \<Rightarrow> string \<Rightarrow> bool" where
  "rx_found r pv [] = (rx_match r (pv, []) \<noteq> None)"
| "rx_found r pv (c # cs) = (rx_match r (pv, c # cs) \<noteq> None \<or> rx_found r (Some c) cs)"

definition rx_test :: "rx \<Rightarrow> string \<Rightarrow> bool" where
  "rx_test r s = rx_found r None s"

fun shown :: "(string \<Rightarrow> string) \<Rightarrow> segment \<Rightarrow> string" where
  "shown f (Hit m) = f m"
| "shown f (Lit c) = [c]"

definition rx_replace :: "rx \<Rightarrow> string \<Rightarrow> string \<Rightarrow> string" where
  "rx_replace r t s = concat (map (shown (\<lambda>_. t)) (rx_segments r None s))"

text \<open>Short forms.\<close>

definition rx_char :: "char \<Rightarrow> rx" where "rx_char c = RSet (\<lambda>x. x = c)"
definition rx_one_of :: "string \<Rightarrow> rx" where "rx_one_of cs = RSet (\<lambda>x. x \<in> set cs)"
definition rx_opt :: "rx \<Rightarrow> rx" where "rx_opt r = RRep 0 (Some 1) r"
definition rx_star :: "rx \<Rightarrow> rx" where "rx_star r = RRep 0 None r"
definition rx_plus :: "rx \<Rightarrow> rx" where "rx_plus r = RRep 1 None r"
definition rx_exactly :: "nat \<Rightarrow> rx \<Rightarrow> rx" where "rx_exactly n r = RRep n (Some n) r"
definition rx_at_least :: "nat \<Rightarrow> rx \<Rightarrow> rx" where "rx_at_least n r = RRep n None r"
definition rx_between :: "nat \<Rightarrow> nat \<Rightarrow> rx \<Rightarrow> rx" where "rx_between n m r = RRep n (Some m) r"

primrec rx_seq :: "rx list \<Rightarrow> rx" where
  "rx_seq [] = REmpty"
| "rx_seq (r # rs) = RSeq r (rx_seq rs)"

definition rx_text :: "string \<Rightarrow> rx" where "rx_text s = rx_seq (map rx_char s)"

lemmas rx_forms = rx_char_def rx_one_of_def rx_opt_def rx_star_def rx_plus_def rx_exactly_def
  rx_at_least_def rx_between_def rx_text_def

subsection \<open>A match is a piece of the text\<close>

lemma suffix_length_le: "suffix a b \<Longrightarrow> length a \<le> length b"
  by (auto simp: suffix_def)

lemma rx_times_suffix:
  assumes "\<And>p q. q \<in> set (f p) \<Longrightarrow> suffix (snd q) (snd p)"
  shows "q \<in> set (rx_times n f p) \<Longrightarrow> suffix (snd q) (snd p)"
  by (induction n arbitrary: p) (auto dest!: assms intro: suffix_order.trans)

lemma rx_more_suffix:
  assumes "\<And>p q. q \<in> set (f p) \<Longrightarrow> suffix (snd q) (snd p)"
  shows "q \<in> set (rx_more n f p) \<Longrightarrow> suffix (snd q) (snd p)"
  by (induction n arbitrary: p) (auto dest!: assms intro: suffix_order.trans)

lemma rx_ends_suffix: "q \<in> set (rx_ends r p) \<Longrightarrow> suffix (snd q) (snd p)"
proof (induction r arbitrary: p q)
  case (RSet f)
  then show ?case by (cases "snd p") (auto split: if_splits simp: suffix_Cons)
next
  case (RSeq r s)
  then obtain z where "z \<in> set (rx_ends r p)" "q \<in> set (rx_ends s z)" by auto
  then show ?case using RSeq.IH suffix_order.trans by blast
next
  case (RAlt r s)
  then have "q \<in> set (rx_ends r p) \<or> q \<in> set (rx_ends s p)" by simp
  then show ?case using RAlt.IH by blast
next
  case (RRep lo hi r)
  then obtain z n where z: "z \<in> set (rx_times lo (rx_ends r) p)" "q \<in> set (rx_more n (rx_ends r) z)" by auto
  show ?case
    using rx_times_suffix [OF RRep.IH z(1)] rx_more_suffix [OF RRep.IH z(2)] by (rule suffix_order.trans [rotated])
qed (auto split: if_splits)

lemma rx_match_prefix: "rx_match r (pv, s) = Some m \<Longrightarrow> prefix m s"
  by (auto simp: rx_match_def take_is_prefix split: list.splits)

lemma rx_match_end:
  assumes "rx_match r (pv, s) = Some m"
  obtains pv' where "(pv', drop (length m) s) \<in> set (rx_ends r (pv, s))"
proof -
  obtain q qs where q: "rx_ends r (pv, s) = q # qs" "m = take (length s - length (snd q)) s"
    using assms by (auto simp: rx_match_def split: list.splits)
  then have "suffix (snd q) s" using rx_ends_suffix [of q r "(pv, s)"] by simp
  then have "snd q = drop (length m) s" using q(2) by (auto simp: suffix_def)
  then show thesis using that [of "fst q"] q(1) by (metis list.set_intros(1) prod.collapse)
qed

lemma rx_match_None: "rx_match r p = None \<longleftrightarrow> rx_ends r p = []"
  by (auto simp: rx_match_def split: list.splits)

lemma rx_segments_text: "concat (map seg_text (rx_segments r pv s)) = s"
proof (induction r pv s rule: rx_segments.induct)
  case (2 r pv c cs)
  show ?case
  proof (cases "rx_match r (pv, c # cs)")
    case (Some m)
    then have "m @ drop (length m) (c # cs) = c # cs"
      using rx_match_prefix [OF Some] by (metis append_eq_conv_conj prefix_def)
    then show ?thesis using 2 Some by (cases "m = []") auto
  qed (use 2 in auto)
qed auto

subsection \<open>Patterns without boundaries\<close>

text \<open>Such a pattern matches a piece of text wherever it stands.\<close>

primrec context_free :: "rx \<Rightarrow> bool" where
  "context_free (RSet f) = True"
| "context_free REmpty = True"
| "context_free (RSeq r s) = (context_free r \<and> context_free s)"
| "context_free (RAlt r s) = (context_free r \<and> context_free s)"
| "context_free (RRep lo hi r) = context_free r"
| "context_free RBoundary = False"

text \<open>\<open>f\<close> can be moved: it does the same on \<open>m\<close> whatever stands before and after.\<close>

definition moves :: "(pos \<Rightarrow> pos list) \<Rightarrow> bool" where
  "moves f \<longleftrightarrow>
     (\<forall>pv pv' m x pw y. (pv', x) \<in> set (f (pv, m @ x)) \<longrightarrow> (\<exists>pw'. (pw', y) \<in> set (f (pw, m @ y))))
     \<and> (\<forall>p q. q \<in> set (f p) \<longrightarrow> suffix (snd q) (snd p))"

lemma movesD:
  "moves f \<Longrightarrow> (pv', x) \<in> set (f (pv, m @ x)) \<Longrightarrow> \<exists>pw'. (pw', y) \<in> set (f (pw, m @ y))"
  unfolding moves_def by blast

lemma moves_suffix: "moves f \<Longrightarrow> q \<in> set (f p) \<Longrightarrow> suffix (snd q) (snd p)"
  unfolding moves_def by blast

text \<open>A step from \<open>m @ x\<close> that leads to \<open>x\<close> passes through \<open>m2 @ x\<close>.\<close>

lemma between_suffixes:
  assumes "suffix z (m @ x)" "suffix x z"
  obtains m1 m2 where "z = m2 @ x" "m = m1 @ m2"
proof -
  obtain m2 where z: "z = m2 @ x" using assms(2) by (auto simp: suffix_def)
  then obtain m1 where "m @ x = m1 @ m2 @ x" using assms(1) by (auto simp: suffix_def)
  then show thesis using that [of m2 m1] z by simp
qed

lemma rx_times_moves:
  assumes "moves f"
  shows "(pv', x) \<in> set (rx_times n f (pv, m @ x)) \<Longrightarrow> \<exists>pw'. (pw', y) \<in> set (rx_times n f (pw, m @ y))"
proof (induction n arbitrary: pv m pw)
  case (Suc n)
  then obtain q where q: "q \<in> set (f (pv, m @ x))" "(pv', x) \<in> set (rx_times n f q)" by auto
  have "suffix (snd q) (m @ x)" "suffix x (snd q)"
    using moves_suffix [OF assms q(1)] rx_times_suffix [OF moves_suffix [OF assms] q(2)] by auto
  then obtain m1 m2 where m: "snd q = m2 @ x" "m = m1 @ m2" by (rule between_suffixes)
  have "(fst q, m2 @ x) \<in> set (f (pv, m1 @ m2 @ x))" using q(1) m by (metis append.assoc prod.collapse)
  then obtain pw1 where w: "(pw1, m2 @ y) \<in> set (f (pw, m1 @ m2 @ y))"
    using movesD [OF assms] by blast
  have "(pv', x) \<in> set (rx_times n f (fst q, m2 @ x))" using q(2) m(1) by (metis prod.collapse)
  then obtain pw' where "(pw', y) \<in> set (rx_times n f (pw1, m2 @ y))" using Suc.IH by blast
  then show ?case using w m(2) by auto
qed simp

lemma rx_more_moves:
  assumes "moves f"
  shows "(pv', x) \<in> set (rx_more n f (pv, m @ x)) \<Longrightarrow> length m \<le> k \<or> n \<le> k
     \<Longrightarrow> \<exists>pw'. (pw', y) \<in> set (rx_more k f (pw, m @ y))"
proof (induction n arbitrary: pv m pw k)
  case 0
  then show ?case by (cases k) auto
next
  case (Suc n)
  show ?case
  proof (cases "m = []")
    case True
    then show ?thesis by (cases k) auto
  next
    case False
    then obtain q where q: "q \<in> set (f (pv, m @ x))" "length (snd q) < length (m @ x)"
      "(pv', x) \<in> set (rx_more n f q)" using Suc.prems(1) by auto
    have "suffix (snd q) (m @ x)" "suffix x (snd q)"
      using moves_suffix [OF assms q(1)] rx_more_suffix [OF moves_suffix [OF assms] q(3)] by auto
    then obtain m1 m2 where m: "snd q = m2 @ x" "m = m1 @ m2" by (rule between_suffixes)
    have "(fst q, m2 @ x) \<in> set (f (pv, m1 @ m2 @ x))" using q(1) m by (metis append.assoc prod.collapse)
    then obtain pw1 where w: "(pw1, m2 @ y) \<in> set (f (pw, m1 @ m2 @ y))"
      using movesD [OF assms] by blast
    obtain k' where k: "k = Suc k'" "length m2 \<le> k' \<or> n \<le> k'"
      using Suc.prems(2) False q(2) m by (cases k; cases m1) auto
    have "(pv', x) \<in> set (rx_more n f (fst q, m2 @ x))" using q(3) m(1) by (metis prod.collapse)
    then obtain pw' where "(pw', y) \<in> set (rx_more k' f (pw1, m2 @ y))" using Suc.IH [OF _ k(2)] by blast
    moreover have "length (m2 @ y) < length (m @ y)" using q(2) m by simp
    ultimately show ?thesis using w m(2) k(1) by fastforce
  qed
qed

lemma rx_ends_moves: "context_free r \<Longrightarrow> moves (rx_ends r)"
proof (induction r)
  case (RSet f)
  show ?case unfolding moves_def
  proof (intro conjI allI impI)
    fix pv pv' m x pw y assume "(pv', x) \<in> set (rx_ends (RSet f) (pv, m @ x))"
    then show "\<exists>pw'. (pw', y) \<in> set (rx_ends (RSet f) (pw, m @ y))"
      by (cases "m @ x") (auto split: if_splits simp: append_eq_Cons_conv)
  qed (rule rx_ends_suffix)
next
  case REmpty
  show ?case unfolding moves_def by (auto intro: rx_ends_suffix)
next
  case (RSeq r s)
  then have mr: "moves (rx_ends r)" and ms: "moves (rx_ends s)" by auto
  show ?case unfolding moves_def
  proof (intro conjI allI impI)
    fix pv pv' m x pw y assume "(pv', x) \<in> set (rx_ends (RSeq r s) (pv, m @ x))"
    then obtain q where q: "q \<in> set (rx_ends r (pv, m @ x))" "(pv', x) \<in> set (rx_ends s q)" by auto
    have "suffix (snd q) (m @ x)" "suffix x (snd q)" using rx_ends_suffix q by fastforce+
    then obtain m1 m2 where m: "snd q = m2 @ x" "m = m1 @ m2" by (rule between_suffixes)
    have "(fst q, m2 @ x) \<in> set (rx_ends r (pv, m1 @ m2 @ x))" using q(1) m by (metis append.assoc prod.collapse)
    then obtain pw1 where w: "(pw1, m2 @ y) \<in> set (rx_ends r (pw, m1 @ m2 @ y))" using movesD [OF mr] by blast
    have "(pv', x) \<in> set (rx_ends s (fst q, m2 @ x))" using q(2) m(1) by (metis prod.collapse)
    then obtain pw' where "(pw', y) \<in> set (rx_ends s (pw1, m2 @ y))" using movesD [OF ms] by blast
    then show "\<exists>pw'. (pw', y) \<in> set (rx_ends (RSeq r s) (pw, m @ y))" using w m(2) by auto
  qed (rule rx_ends_suffix)
next
  case (RAlt r s)
  then have mr: "moves (rx_ends r)" and ms: "moves (rx_ends s)" by auto
  show ?case unfolding moves_def
  proof (intro conjI allI impI)
    fix pv pv' m x pw y assume "(pv', x) \<in> set (rx_ends (RAlt r s) (pv, m @ x))"
    then show "\<exists>pw'. (pw', y) \<in> set (rx_ends (RAlt r s) (pw, m @ y))"
      using movesD [OF mr, of pv' x pv m y pw] movesD [OF ms, of pv' x pv m y pw] by auto
  qed (rule rx_ends_suffix)
next
  case (RRep lo hi r)
  then have mr: "moves (rx_ends r)" by simp
  show ?case unfolding moves_def
  proof (intro conjI allI impI)
    fix pv pv' m x pw y assume "(pv', x) \<in> set (rx_ends (RRep lo hi r) (pv, m @ x))"
    then obtain q where q: "q \<in> set (rx_times lo (rx_ends r) (pv, m @ x))"
      "(pv', x) \<in> set (rx_more (case hi of None \<Rightarrow> length (snd q) | Some h \<Rightarrow> h - lo) (rx_ends r) q)" by auto
    have "suffix (snd q) (m @ x)" "suffix x (snd q)"
      using rx_times_suffix [OF moves_suffix [OF mr] q(1)] rx_more_suffix [OF moves_suffix [OF mr] q(2)] by auto
    then obtain m1 m2 where m: "snd q = m2 @ x" "m = m1 @ m2" by (rule between_suffixes)
    have "(fst q, m2 @ x) \<in> set (rx_times lo (rx_ends r) (pv, m1 @ m2 @ x))"
      using q(1) m by (metis append.assoc prod.collapse)
    then obtain pw1 where w: "(pw1, m2 @ y) \<in> set (rx_times lo (rx_ends r) (pw, m1 @ m2 @ y))"
      using rx_times_moves [OF mr] by blast
    let ?k = "case hi of None \<Rightarrow> length (m2 @ y) | Some h \<Rightarrow> h - lo"
    have "(pv', x) \<in> set (rx_more (case hi of None \<Rightarrow> length (snd q) | Some h \<Rightarrow> h - lo) (rx_ends r) (fst q, m2 @ x))"
      using q(2) m(1) by (metis prod.collapse)
    moreover have "length m2 \<le> ?k \<or> (case hi of None \<Rightarrow> length (snd q) | Some h \<Rightarrow> h - lo) \<le> ?k"
      by (cases hi) auto
    ultimately obtain pw' where "(pw', y) \<in> set (rx_more ?k (rx_ends r) (pw1, m2 @ y))"
      using rx_more_moves [OF mr] by blast
    then show "\<exists>pw'. (pw', y) \<in> set (rx_ends (RRep lo hi r) (pw, m @ y))"
      using w m(2) by (intro exI [of _ pw']) (auto intro!: bexI [of _ "(pw1, m2 @ y)"] cong: option.case_cong)
  qed (rule rx_ends_suffix)
qed simp

subsection \<open>The texts a pattern accepts\<close>

text \<open>What a match can consist of, whatever the bounds of the repetitions.\<close>

primrec rx_lang :: "rx \<Rightarrow> string \<Rightarrow> bool" where
  "rx_lang (RSet f) m = (\<exists>c. f c \<and> m = [c])"
| "rx_lang REmpty m = (m = [])"
| "rx_lang (RSeq r s) m = (\<exists>a b. m = a @ b \<and> rx_lang r a \<and> rx_lang s b)"
| "rx_lang (RAlt r s) m = (rx_lang r m \<or> rx_lang s m)"
| "rx_lang (RRep lo hi r) m = (\<exists>ms. m = concat ms \<and> lo \<le> length ms \<and> list_all (rx_lang r) ms)"
| "rx_lang RBoundary m = (m = [])"

lemma rx_times_lang:
  assumes "\<And>p q. q \<in> set (f p) \<Longrightarrow> \<exists>m. snd p = m @ snd q \<and> L m"
  shows "q \<in> set (rx_times n f p) \<Longrightarrow> \<exists>ms. snd p = concat ms @ snd q \<and> length ms = n \<and> list_all L ms"
proof (induction n arbitrary: p)
  case (Suc n)
  then obtain z where z: "z \<in> set (f p)" "q \<in> set (rx_times n f z)" by auto
  then obtain m ms where "snd p = m @ snd z" "L m" "snd z = concat ms @ snd q" "length ms = n" "list_all L ms"
    using Suc.IH assms by meson
  then show ?case by (intro exI [of _ "m # ms"]) simp
qed simp

lemma rx_more_lang:
  assumes "\<And>p q. q \<in> set (f p) \<Longrightarrow> \<exists>m. snd p = m @ snd q \<and> L m"
  shows "q \<in> set (rx_more n f p) \<Longrightarrow> \<exists>ms. snd p = concat ms @ snd q \<and> list_all L ms"
proof (induction n arbitrary: p)
  case 0
  then show ?case by (intro exI [of _ "[]"]) simp
next
  case (Suc n)
  show ?case
  proof (cases "q = p")
    case True
    then show ?thesis by (intro exI [of _ "[]"]) simp
  next
    case False
    then obtain z where z: "z \<in> set (f p)" "q \<in> set (rx_more n f z)" using Suc.prems by auto
    then obtain m ms where "snd p = m @ snd z" "L m" "snd z = concat ms @ snd q" "list_all L ms"
      using Suc.IH assms by meson
    then show ?thesis by (intro exI [of _ "m # ms"]) simp
  qed
qed

lemma rx_ends_lang: "q \<in> set (rx_ends r p) \<Longrightarrow> \<exists>m. snd p = m @ snd q \<and> rx_lang r m"
proof (induction r arbitrary: p q)
  case (RSet f)
  then show ?case by (cases "snd p") (auto split: if_splits)
next
  case (RSeq r s)
  then obtain z where "z \<in> set (rx_ends r p)" "q \<in> set (rx_ends s z)" by auto
  then obtain a b where "snd p = a @ snd z" "rx_lang r a" "snd z = b @ snd q" "rx_lang s b"
    using RSeq.IH by meson
  then show ?case by (intro exI [of _ "a @ b"]) auto
next
  case (RAlt r s)
  then have "q \<in> set (rx_ends r p) \<or> q \<in> set (rx_ends s p)" by simp
  then show ?case using RAlt.IH by fastforce
next
  case (RRep lo hi r)
  then obtain z n where z: "z \<in> set (rx_times lo (rx_ends r) p)" "q \<in> set (rx_more n (rx_ends r) z)" by auto
  obtain as where a: "snd p = concat as @ snd z" "length as = lo" "list_all (rx_lang r) as"
    using rx_times_lang [of "rx_ends r" "rx_lang r", OF RRep.IH z(1)] by blast
  obtain bs where b: "snd z = concat bs @ snd q" "list_all (rx_lang r) bs"
    using rx_more_lang [of "rx_ends r" "rx_lang r", OF RRep.IH z(2)] by blast
  show ?case using a b by (intro exI [of _ "concat (as @ bs)"]) (auto intro: exI [of _ "as @ bs"])
qed (auto split: if_splits)

text \<open>Every character of a match satisfies \<open>P\<close>; every match has a character that satisfies \<open>P\<close>.\<close>

primrec rx_only :: "(char \<Rightarrow> bool) \<Rightarrow> rx \<Rightarrow> bool" where
  "rx_only P (RSet f) = (\<forall>c. f c \<longrightarrow> P c)"
| "rx_only P REmpty = True"
| "rx_only P (RSeq r s) = (rx_only P r \<and> rx_only P s)"
| "rx_only P (RAlt r s) = (rx_only P r \<and> rx_only P s)"
| "rx_only P (RRep lo hi r) = rx_only P r"
| "rx_only P RBoundary = True"

primrec rx_needs :: "(char \<Rightarrow> bool) \<Rightarrow> rx \<Rightarrow> bool" where
  "rx_needs P (RSet f) = (\<forall>c. f c \<longrightarrow> P c)"
| "rx_needs P REmpty = False"
| "rx_needs P (RSeq r s) = (rx_needs P r \<or> rx_needs P s)"
| "rx_needs P (RAlt r s) = (rx_needs P r \<and> rx_needs P s)"
| "rx_needs P (RRep lo hi r) = (lo > 0 \<and> rx_needs P r)"
| "rx_needs P RBoundary = False"

lemma rx_only_lang: "rx_only P r \<Longrightarrow> rx_lang r m \<Longrightarrow> list_all P m"
proof (induction r arbitrary: m)
  case (RRep lo hi r)
  then obtain ms where "m = concat ms" "list_all (rx_lang r) ms" by auto
  then show ?case using RRep.IH RRep.prems(1) by (auto simp: list_all_iff)
qed auto

lemma rx_needs_lang: "rx_needs P r \<Longrightarrow> rx_lang r m \<Longrightarrow> list_ex P m"
proof (induction r arbitrary: m)
  case (RRep lo hi r)
  then obtain ms where ms: "m = concat ms" "lo \<le> length ms" "list_all (rx_lang r) ms" by auto
  then obtain a as where "ms = a # as" using RRep.prems(1) by (cases ms) auto
  then show ?case using ms RRep.IH [of a] RRep.prems(1) by auto
qed auto

subsection \<open>Masking\<close>

definition accepts :: "rx \<Rightarrow> string \<Rightarrow> bool" where
  "accepts r m \<longleftrightarrow> [] \<in> snd ` set (rx_ends r (None, m))"

text \<open>No piece of a text is accepted.\<close>

definition clean :: "rx \<Rightarrow> string \<Rightarrow> bool" where
  "clean r s \<longleftrightarrow> (\<forall>m. sublist m s \<longrightarrow> \<not> accepts r m)"

lemma clean_sublist: "clean r s \<Longrightarrow> sublist t s \<Longrightarrow> clean r t"
  unfolding clean_def by (meson sublist_order.order.trans)

lemma accepts_lang: "accepts r m \<Longrightarrow> rx_lang r m"
  unfolding accepts_def using rx_ends_lang [of _ r "(None, m)"] by fastforce

lemma accepts_here:
  assumes "context_free r" "accepts r m"
  shows "rx_ends r (pv, m @ x) \<noteq> []"
proof -
  obtain pw where "(pw, []) \<in> set (rx_ends r (None, m @ []))" using assms(2) by (auto simp: accepts_def)
  then obtain pw' where "(pw', x) \<in> set (rx_ends r (pv, m @ x))"
    using movesD [OF rx_ends_moves [OF assms(1)]] by blast
  then show ?thesis by auto
qed

lemma here_accepts:
  assumes "context_free r" "q \<in> set (rx_ends r (pv, s))"
  obtains m where "prefix m s" "accepts r m"
proof -
  obtain m where m: "s = m @ snd q" using rx_ends_suffix [OF assms(2)] by (auto simp: suffix_def)
  then have "(fst q, snd q) \<in> set (rx_ends r (pv, m @ snd q))" using assms(2) by simp
  then obtain pw where "(pw, []) \<in> set (rx_ends r (None, m @ []))"
    using movesD [OF rx_ends_moves [OF assms(1)]] by blast
  then have "accepts r m" by (force simp: accepts_def)
  then show thesis using that m by (auto simp: prefix_def)
qed

lemma rx_found_clean: "context_free r \<Longrightarrow> rx_found r pv s \<longleftrightarrow> \<not> clean r s"
proof (induction s arbitrary: pv)
  case Nil
  have "rx_ends r (pv, []) \<noteq> [] \<longleftrightarrow> accepts r []"
    using accepts_here [OF Nil, of "[]" pv "[]"] here_accepts [OF Nil, of _ pv "[]"]
    by (metis append_Nil hd_in_set prefix_Nil)
  then show ?case by (simp add: clean_def rx_match_None)
next
  case (Cons c cs)
  have "rx_ends r (pv, c # cs) \<noteq> [] \<longleftrightarrow> (\<exists>m. prefix m (c # cs) \<and> accepts r m)"
  proof
    assume "rx_ends r (pv, c # cs) \<noteq> []"
    then obtain q where "q \<in> set (rx_ends r (pv, c # cs))" using hd_in_set by blast
    from here_accepts [OF Cons.prems this] show "\<exists>m. prefix m (c # cs) \<and> accepts r m" by blast
  next
    assume "\<exists>m. prefix m (c # cs) \<and> accepts r m"
    then show "rx_ends r (pv, c # cs) \<noteq> []" using accepts_here [OF Cons.prems] by (metis prefix_def)
  qed
  then show ?case using Cons.IH [OF Cons.prems] by (auto simp: clean_def rx_match_None sublist_Cons_right)
qed

text \<open>The stretches of a text between its hits, and what is shown for a hit: a text in square
  brackets.\<close>

fun runs :: "segment list \<Rightarrow> string list" where
  "runs [] = [[]]"
| "runs (Hit m # segs) = [] # runs segs"
| "runs (Lit c # segs) = (c # hd (runs segs)) # tl (runs segs)"

definition bracketed :: "string \<Rightarrow> string" where
  "bracketed t = CHR ''['' # t @ '']''"

definition no_bracket :: "char \<Rightarrow> bool" where
  "no_bracket c \<longleftrightarrow> c \<noteq> CHR ''['' \<and> c \<noteq> CHR '']''"

lemma runs_nonempty: "runs segs \<noteq> []"
  by (induction segs rule: runs.induct) auto

lemma runs_Lit: "set (runs (Lit c # segs)) \<subseteq> insert (c # hd (runs segs)) (set (runs segs))"
  using runs_nonempty [of segs] by (cases "runs segs") auto

lemma hd_run_prefix: "prefix (hd (runs segs)) (concat (map seg_text segs))"
  by (induction segs rule: runs.induct) auto

lemma run_sublist: "t \<in> set (runs segs) \<Longrightarrow> sublist t (concat (map seg_text segs))"
proof (induction segs arbitrary: t rule: runs.induct)
  case (2 m segs)
  then show ?case by (auto simp: sublist_append)
next
  case (3 c segs)
  from 3(3) have "t \<in> insert (c # hd (runs segs)) (set (runs segs))" using runs_Lit by blast
  then consider "t = c # hd (runs segs)" | "t \<in> set (runs segs)" by blast
  then show ?case
  proof cases
    case 1
    then have "prefix t (c # concat (map seg_text segs))" using hd_run_prefix by simp
    then show ?thesis by (simp add: prefix_imp_sublist)
  next
    case 2
    then show ?thesis using 3(1) by (simp add: sublist_Cons_right)
  qed
qed simp

lemma no_bracket_split:
  assumes "list_all no_bracket m" "sublist m (t @ b # y)" "\<not> no_bracket b"
  shows "sublist m t \<or> sublist m y"
proof -
  obtain u v where uv: "t @ b # y = u @ m @ v" using assms(2) by (auto simp: sublist_def)
  have b: "b \<notin> set m" using assms(1,3) by (auto simp: list_all_iff)
  from uv consider z where "t = u @ z" "z @ b # y = m @ v" | z where "t @ z = u" "b # y = z @ m @ v"
    by (auto simp: append_eq_append_conv2)
  then show ?thesis
  proof cases
    case 1
    then consider w where "z = m @ w" | w where "m = z @ w" "b # y = w @ v"
      by (auto simp: append_eq_append_conv2)
    then show ?thesis
    proof cases
      case 1
      then show ?thesis using \<open>t = u @ z\<close> by auto
    next
      case 2
      then have "w = []" using b by (cases w) auto
      then show ?thesis using 2 \<open>t = u @ z\<close> by auto
    qed
  next
    case 2
    then have "z = [] \<Longrightarrow> m = []" using b by (cases m) auto
    then show ?thesis using 2 by (cases z) auto
  qed
qed

lemma sublist_bracketed:
  assumes "list_all no_bracket m" "sublist m (bracketed t @ y)"
  shows "sublist m t \<or> sublist m y"
proof -
  have "sublist m ([] @ CHR ''['' # (t @ CHR '']'' # y))" using assms(2) by (simp add: bracketed_def)
  then have "sublist m [] \<or> sublist m (t @ CHR '']'' # y)"
    by (rule no_bracket_split [OF assms(1)]) (simp add: no_bracket_def)
  then show ?thesis
    using no_bracket_split [OF assms(1), of t "CHR '']''" y] by (auto simp: no_bracket_def)
qed

lemma masked_piece:
  assumes "list_all no_bracket m" "sublist m (concat (map (shown (\<lambda>h. bracketed (f h))) segs))"
  shows "(\<exists>t \<in> set (runs segs). sublist m t) \<or> (\<exists>h. Hit h \<in> set segs \<and> sublist m (f h))"
    and "prefix m (concat (map (shown (\<lambda>h. bracketed (f h))) segs)) \<longrightarrow> prefix m (hd (runs segs))"
  using assms
proof (induction segs arbitrary: m rule: runs.induct)
  case (2 h segs)
  {
    case 1
    then have "sublist m (f h) \<or> sublist m (concat (map (shown (\<lambda>h. bracketed (f h))) segs))"
      by (auto dest: sublist_bracketed)
    then show ?case using 2(1) [OF 1(1)] by auto
  next
    case 2
    then show ?case by (cases m) (auto simp: bracketed_def no_bracket_def)
  }
next
  case (3 c segs)
  let ?out = "concat (map (shown (\<lambda>h. bracketed (f h))) segs)"
  have pre: "prefix m (c # ?out) \<Longrightarrow> list_all no_bracket m \<Longrightarrow> prefix m (c # hd (runs segs))" for m
  proof (cases m)
    case (Cons d m')
    assume "prefix m (c # ?out)" "list_all no_bracket m"
    then show ?thesis using 3(2) [of m'] Cons by (auto simp: prefix_imp_sublist)
  qed simp
  {
    case 1
    then have "prefix m (c # ?out) \<or> sublist m ?out" by (simp add: sublist_Cons_right)
    then show ?case
    proof
      assume "prefix m (c # ?out)"
      then have "sublist m (c # hd (runs segs))" using pre 1(1) by (auto intro: prefix_imp_sublist)
      then show ?thesis by auto
    next
      assume "sublist m ?out"
      from 3(1) [OF 1(1) this] show ?thesis
      proof
        assume "\<exists>t \<in> set (runs segs). sublist m t"
        then obtain t where t: "t \<in> set (runs segs)" "sublist m t" by blast
        have "runs segs = hd (runs segs) # tl (runs segs)" using runs_nonempty by simp
        then have "t = hd (runs segs) \<or> t \<in> set (tl (runs segs))" using t(1) by (metis set_ConsD)
        then show ?thesis using t(2) by (auto simp: sublist_Cons_right)
      qed auto
    qed
  next
    case 2
    then show ?case using pre by simp
  }
qed auto

text \<open>Hiding hits behind bracketed texts that are clean themselves makes no text accepted.\<close>

lemma masking_keeps_clean:
  assumes "rx_only no_bracket r" and "clean r (concat (map seg_text segs))"
    and "\<And>h. Hit h \<in> set segs \<Longrightarrow> clean r (f h)"
  shows "clean r (concat (map (shown (\<lambda>h. bracketed (f h))) segs))"
  unfolding clean_def
proof (intro allI impI notI)
  fix m assume m: "sublist m (concat (map (shown (\<lambda>h. bracketed (f h))) segs))" "accepts r m"
  have "list_all no_bracket m" using rx_only_lang [OF assms(1) accepts_lang [OF m(2)]] .
  from masked_piece(1) [OF this m(1)] show False
  proof
    assume "\<exists>t \<in> set (runs segs). sublist m t"
    then have "sublist m (concat (map seg_text segs))" using run_sublist sublist_order.order.trans by blast
    then show False using assms(2) m(2) by (simp add: clean_def)
  next
    assume "\<exists>h. Hit h \<in> set segs \<and> sublist m (f h)"
    then show False using assms(3) m(2) by (auto simp: clean_def)
  qed
qed

text \<open>And hiding all hits of the pattern leaves none.\<close>

lemma scan_clean:
  assumes "context_free r" "\<not> accepts r []"
  shows "list_all (clean r) (runs (rx_segments r pv s)) \<and> prefix (hd (runs (rx_segments r pv s))) s"
proof (induction "length s" arbitrary: pv s rule: less_induct)
  case less
  have nil: "clean r []" using assms(2) by (simp add: clean_def)
  show ?case
  proof (cases s)
    case Nil
    then show ?thesis using nil by simp
  next
    case (Cons c cs)
    show ?thesis
    proof (cases "rx_match r (pv, c # cs)")
      case None
      let ?rs = "runs (rx_segments r (Some c) cs)"
      have IH: "list_all (clean r) ?rs" "prefix (hd ?rs) cs" using less [of cs "Some c"] Cons by auto
      have "\<not> accepts r m" if "prefix m (c # hd ?rs)" for m
      proof
        assume "accepts r m"
        moreover have "prefix m (c # cs)" using that IH(2) by (meson Cons_prefix_Cons prefix_order.trans)
        then obtain x where "c # cs = m @ x" by (auto simp: prefix_def)
        ultimately show False using accepts_here [OF assms(1), of m pv x] None by (simp add: rx_match_None)
      qed
      moreover have "clean r (hd ?rs)" "list_all (clean r) (tl ?rs)"
        using IH(1) runs_nonempty [of "rx_segments r (Some c) cs"] by (cases ?rs, auto)+
      ultimately have "clean r (c # hd ?rs)" by (simp add: clean_def sublist_Cons_right)
      then show ?thesis using None Cons IH(2) \<open>list_all (clean r) (tl ?rs)\<close> by simp
    next
      case (Some m)
      obtain pv' where "(pv', drop (length m) (c # cs)) \<in> set (rx_ends r (pv, c # cs))"
        using rx_match_end [OF Some] .
      moreover have "m @ drop (length m) (c # cs) = c # cs"
        using rx_match_prefix [OF Some] by (metis append_eq_conv_conj prefix_def)
      ultimately have "m \<noteq> []"
      proof -
        assume e: "(pv', drop (length m) (c # cs)) \<in> set (rx_ends r (pv, c # cs))"
        then have "m = [] \<Longrightarrow> (pv', c # cs) \<in> set (rx_ends r (pv, [] @ c # cs))" by simp
        then have "m = [] \<Longrightarrow> \<exists>pw. (pw, []) \<in> set (rx_ends r (None, [] @ []))"
          using movesD [OF rx_ends_moves [OF assms(1)]] by blast
        then show ?thesis using assms(2) by (force simp: accepts_def)
      qed
      then show ?thesis using Some Cons nil less [of "drop (length m) (c # cs)" "Some (last m)"] by auto
    qed
  qed
qed

lemma masking_all_hits:
  assumes "context_free r" "\<not> accepts r []" "rx_only no_bracket r"
    and "\<And>h. Hit h \<in> set (rx_segments r pv s) \<Longrightarrow> clean r (f h)"
  shows "clean r (concat (map (shown (\<lambda>h. bracketed (f h))) (rx_segments r pv s)))"
  unfolding clean_def
proof (intro allI impI notI)
  let ?segs = "rx_segments r pv s"
  fix m assume m: "sublist m (concat (map (shown (\<lambda>h. bracketed (f h))) ?segs))" "accepts r m"
  have "list_all no_bracket m" using rx_only_lang [OF assms(3) accepts_lang [OF m(2)]] .
  from masked_piece(1) [OF this m(1)] show False
  proof
    assume "\<exists>t \<in> set (runs ?segs). sublist m t"
    then show False using scan_clean [OF assms(1,2), of pv s] m(2) by (auto simp: list_all_iff clean_def)
  next
    assume "\<exists>h. Hit h \<in> set ?segs \<and> sublist m (f h)"
    then show False using assms(4) m(2) by (auto simp: clean_def)
  qed
qed

end
