(* ===== verification/Redact.thy ===== *)
theory Redact
  imports Pattern
begin

text \<open>
  Secret redaction of log lines: \<open>src/src/utils/redact.ts\<close>.
\<close>

definition key_char :: "char \<Rightarrow> bool" where
  "key_char c \<longleftrightarrow> is_alnum c \<or> c = CHR ''_'' \<or> c = CHR ''-''"

definition PATTERNS :: "(string \<times> rx) list" where
  "PATTERNS =
     [(''GITHUB_TOKEN'', rx_seq [rx_text ''gh'', rx_one_of ''pousr'', rx_char (CHR ''_''), rx_at_least 30 (RSet is_alnum)]),
      (''ANTHROPIC_KEY'', rx_seq [rx_text ''sk-ant-'', rx_at_least 30 (RSet key_char)]),
      (''OPENAI_KEY'', rx_seq [rx_text ''sk-'', rx_at_least 30 (RSet key_char)]),
      (''BRAVE_KEY'', rx_seq [rx_text ''BSA'', rx_at_least 25 (RSet key_char)]),
      (''AWS_ACCESS_KEY'', rx_seq [rx_text ''AKIA'', rx_exactly 16 (RSet (\<lambda>c. is_upper c \<or> is_dig c))]),
      (''GOOGLE_API_KEY'', rx_seq [rx_text ''AIza'', rx_exactly 35 (RSet key_char)]),
      (''SLACK_TOKEN'', rx_seq [rx_text ''xox'', rx_one_of ''baprs'', rx_char (CHR ''-''),
         rx_at_least 10 (RSet (\<lambda>c. is_alnum c \<or> c = CHR ''-''))])]"

definition redactSecrets :: "string \<Rightarrow> string" where
  "redactSecrets input =
     (if input = [] then input
      else foldl (\<lambda>out (name, p). rx_replace p (''[REDACTED_'' @ name @ '']'') out) input PATTERNS)"

subsection \<open>Facts\<close>

text \<open>A pattern that masks can hide: no boundary, no bracket, no empty match.\<close>

definition maskable :: "rx \<Rightarrow> bool" where
  "maskable r \<longleftrightarrow> context_free r \<and> rx_only no_bracket r \<and> \<not> accepts r []"

lemma needs_nonempty: "rx_needs P r \<Longrightarrow> \<not> accepts r []"
  using rx_needs_lang accepts_lang by fastforce

lemma patterns_maskable: "list_all (\<lambda>(n, p). maskable p) PATTERNS"
  by (simp add: PATTERNS_def maskable_def rx_forms needs_nonempty [of "\<lambda>_. True"])
     (auto simp: key_char_def is_alnum_def is_upper_def is_lower_def is_dig_def char_in_def no_bracket_def)

lemma labels_clean: "list_all (\<lambda>(n, p). list_all (\<lambda>(k, q). \<not> rx_test p (''REDACTED_'' @ k)) PATTERNS) PATTERNS"
  by code_simp

lemma rx_replace_masks: "rx_replace r (''[REDACTED_'' @ k @ '']'') s =
    concat (map (shown (\<lambda>h. bracketed (''REDACTED_'' @ k))) (rx_segments r None s))"
  by (simp add: rx_replace_def bracketed_def)

lemma test_clean: "maskable r \<Longrightarrow> rx_test r s \<longleftrightarrow> \<not> clean r s"
  by (simp add: maskable_def rx_test_def rx_found_clean)

lemma mask_keeps_clean:
  assumes "maskable r" "clean r s" "clean r (''REDACTED_'' @ k)"
  shows "clean r (rx_replace q (''[REDACTED_'' @ k @ '']'') s)"
  unfolding rx_replace_masks
  by (rule masking_keeps_clean) (use assms in \<open>simp_all add: maskable_def rx_segments_text\<close>)

lemma mask_makes_clean:
  assumes "maskable r" "clean r (''REDACTED_'' @ k)"
  shows "clean r (rx_replace r (''[REDACTED_'' @ k @ '']'') s)"
  unfolding rx_replace_masks by (rule masking_all_hits) (use assms in \<open>simp_all add: maskable_def\<close>)

text \<open>A loop over patterns whose masks are clean for a pattern leaves a clean text when it starts with
  one, or when the pattern is among those it goes through.\<close>

lemma mask_loop_clean:
  assumes "maskable r" "list_all (\<lambda>(k, q). clean r (''REDACTED_'' @ k)) ps"
    and "clean r s \<or> r \<in> snd ` set ps"
  shows "clean r (foldl (\<lambda>out (k, q). rx_replace q (''[REDACTED_'' @ k @ '']'') out) s ps)"
  using assms(2,3)
proof (induction ps arbitrary: s)
  case (Cons kq ps)
  obtain k q where kq: "kq = (k, q)" by force
  have k: "clean r (''REDACTED_'' @ k)" using Cons.prems(1) kq by simp
  have "clean r (rx_replace q (''[REDACTED_'' @ k @ '']'') s) \<or> r \<in> snd ` set ps"
    using Cons.prems(2) mask_keeps_clean [OF assms(1) _ k] mask_makes_clean [OF assms(1) k] kq by auto
  then show ?case using Cons.IH Cons.prems(1) kq by simp
qed simp

lemma nothing_in_empty: "list_all (\<lambda>(name, p). \<not> rx_test p []) PATTERNS"
  by code_simp

lemma redacted_clean:
  "list_all (\<lambda>(name, p). \<not> rx_test p (redactSecrets s)) PATTERNS"
proof (cases "s = []")
  case True
  then show ?thesis using nothing_in_empty by (simp add: redactSecrets_def)
next
  case False
  show ?thesis unfolding list_all_iff
  proof clarify
    fix name p assume p: "(name, p) \<in> set PATTERNS" "rx_test p (redactSecrets s)"
    have m: "maskable p" using p(1) patterns_maskable by (auto simp: list_all_iff)
    have "list_all (\<lambda>(k, q). clean p (''REDACTED_'' @ k)) PATTERNS"
      using p(1) labels_clean test_clean [OF m] by (fastforce simp: list_all_iff)
    then have "clean p (redactSecrets s)"
      using mask_loop_clean [OF m] p(1) False by (force simp: redactSecrets_def)
    then show False using p(2) test_clean [OF m] by simp
  qed
qed

lemma no_hit_no_change: "\<not> rx_test r s \<Longrightarrow> rx_replace r t s = s"
proof -
  have "\<not> rx_found r pv s \<Longrightarrow> rx_segments r pv s = map Lit s" for pv
    by (induction s arbitrary: pv) auto
  then show "\<not> rx_test r s \<Longrightarrow> rx_replace r t s = s" by (simp add: rx_test_def rx_replace_def comp_def)
qed

text \<open>C20: Log redaction leaves no secret: in the text it returns none of the seven key formats is found, for
  every input, whatever the masks of the earlier patterns put next to each other. So redacting
  twice changes nothing.\<close>

theorem redacted_log_has_no_secret:
  "list_all (\<lambda>(name, p). \<not> rx_test p (redactSecrets s)) PATTERNS
   \<and> redactSecrets (redactSecrets s) = redactSecrets s"
proof
  have "list_all (\<lambda>(name, p). \<not> rx_test p t) ps \<Longrightarrow>
      foldl (\<lambda>out (name, p). rx_replace p (''[REDACTED_'' @ name @ '']'') out) t ps = t" for t ps
    by (induction ps) (auto simp: no_hit_no_change)
  then show "redactSecrets (redactSecrets s) = redactSecrets s"
    using redacted_clean [of s] by (simp add: redactSecrets_def [of "redactSecrets s"])
qed (rule redacted_clean)

end
