(* ===== verification/Tokenize.thy ===== *)
theory Tokenize
  imports Pattern Json Errors
begin

text \<open>
  Tokenization of personal data in tool results: \<open>src/src/utils/tokenize.ts\<close>. The patterns are those of
  the source; the state of one call is its counters, the tokens given so far by value and the
  reverse map.
\<close>

subsection \<open>Validators\<close>

definition digit_of :: "char \<Rightarrow> nat" where
  "digit_of c = of_char c - 48"

text \<open>The loop of \<open>luhnCheck\<close>, from the last digit on.\<close>

fun luhn_sum :: "bool \<Rightarrow> char list \<Rightarrow> nat" where
  "luhn_sum alternate [] = 0"
| "luhn_sum alternate (c # cs) =
     (let n = digit_of c; n1 = (if alternate then 2 * n else n); n2 = (if alternate \<and> n1 > 9 then n1 - 9 else n1)
      in n2 + luhn_sum (\<not> alternate) cs)"

definition luhnCheck :: "string \<Rightarrow> bool" where
  "luhnCheck digits \<longleftrightarrow> luhn_sum False (rev digits) mod 10 = 0"

definition upper_char :: "char \<Rightarrow> char" where
  "upper_char c = (if is_lower c then char_of (of_char c - 32 :: nat) else c)"

definition iban_digits :: "string \<Rightarrow> string" where
  "iban_digits raw =
     concat (map (\<lambda>ch. if is_upper ch then show_nat (of_char ch - 55) else [ch])
       (map upper_char (drop 4 raw @ take 4 raw)))"

definition ibanCheck :: "string \<Rightarrow> bool" where
  "ibanCheck raw \<longleftrightarrow> foldl (\<lambda>remainder ch. (remainder * 10 + digit_of ch) mod 97) 0 (iban_digits raw) = 1"

subsection \<open>Matchers\<close>

record matcher_spec =
  spec_label :: string
  spec_pattern :: rx
  spec_validate :: "(string \<Rightarrow> bool) option"
  spec_digits :: "(string \<Rightarrow> string) option"

definition rx_digit :: rx where "rx_digit = RSet is_dig"
definition rx_alnum :: rx where "rx_alnum = RSet is_alnum"
definition rx_hex :: rx where
  "rx_hex = RSet (\<lambda>c. is_dig c \<or> char_in (CHR ''a'') (CHR ''f'') c \<or> char_in (CHR ''A'') (CHR ''F'') c)"
definition rx_sep :: rx where "rx_sep = RSet (\<lambda>c. is_space c \<or> c = CHR ''.'' \<or> c = CHR ''-'')"

definition local_char :: "char \<Rightarrow> bool" where
  "local_char c \<longleftrightarrow> is_alnum c \<or> c \<in> set (CHR 0x27 # CHR 0x60 # ''.!#$%&*+/=?^_{|}~-'')"

definition rx_host_label :: rx where
  "rx_host_label =
     RSeq rx_alnum (rx_opt (RSeq (rx_between 0 61 (RSet (\<lambda>c. is_alnum c \<or> c = CHR ''-''))) rx_alnum))"

definition email_pattern :: rx where
  "email_pattern =
     rx_seq [rx_plus (RSet local_char), rx_char (CHR ''@''), rx_host_label,
             rx_plus (RSeq (rx_char (CHR ''.'')) rx_host_label)]"

definition phone_pattern :: rx where
  "phone_pattern =
     RAlt (rx_seq [rx_opt (rx_seq [rx_char (CHR ''+''), rx_between 1 3 rx_digit, rx_sep]),
             rx_opt (rx_char (CHR ''('')), rx_exactly 3 rx_digit, rx_opt (rx_char (CHR '')'')), rx_sep,
             rx_exactly 3 rx_digit, rx_sep, rx_at_least 3 rx_digit])
       (RSeq (rx_char (CHR ''+'')) (rx_between 7 15 rx_digit))"

definition ssn_pattern :: rx where
  "ssn_pattern =
     RAlt (rx_seq [RBoundary, rx_exactly 3 rx_digit, rx_char (CHR ''-''), rx_exactly 2 rx_digit,
             rx_char (CHR ''-''), rx_exactly 4 rx_digit, RBoundary])
       (rx_seq [RBoundary, rx_exactly 9 rx_digit, RBoundary])"

definition credit_card_pattern :: rx where
  "credit_card_pattern =
     rx_seq [RBoundary, rx_between 13 19 (RSeq rx_digit (rx_opt (rx_one_of '' -''))), RBoundary]"

definition iban_pattern :: rx where
  "iban_pattern =
     rx_seq [RBoundary, rx_exactly 2 (RSet (\<lambda>c. is_upper c \<or> is_lower c)), rx_exactly 2 rx_digit,
             rx_between 2 7 (RSeq (rx_opt (rx_char (CHR '' ''))) (rx_exactly 4 rx_alnum)),
             rx_opt (RSeq (rx_opt (rx_char (CHR '' ''))) (rx_between 1 4 rx_alnum)), RBoundary]"

definition rx_octet :: rx where
  "rx_octet =
     RAlt (RSeq (rx_text ''25'') (RSet (char_in (CHR ''0'') (CHR ''5''))))
       (RAlt (rx_seq [rx_char (CHR ''2''), RSet (char_in (CHR ''0'') (CHR ''4'')), rx_digit])
          (RAlt (RSeq (rx_char (CHR ''1'')) (rx_exactly 2 rx_digit))
             (RSeq (rx_opt (RSet (char_in (CHR ''1'') (CHR ''9'')))) rx_digit)))"

definition ipv4_pattern :: rx where
  "ipv4_pattern =
     rx_seq [RBoundary, rx_exactly 3 (RSeq rx_octet (rx_char (CHR ''.''))), rx_octet,
             rx_opt (RSeq (rx_char (CHR ''/'')) (rx_between 1 2 rx_digit)), RBoundary]"

definition ipv6_pattern :: rx where
  "ipv6_pattern =
     (let h = rx_between 1 4 rx_hex; hc = RSeq h (rx_char (CHR '':'')) in
      RAlt (RSeq (rx_exactly 7 hc) h)
        (RAlt (rx_seq [rx_star hc, rx_text ''::'', rx_star hc, h])
           (RAlt (rx_seq [rx_text ''::'', rx_star hc, h]) (RSeq (rx_star hc) (rx_text ''::'')))))"

definition BUILTIN_MATCHERS :: "(string, matcher_spec) jsmap" where
  "BUILTIN_MATCHERS =
     [(''email'', \<lparr>spec_label = ''EMAIL'', spec_pattern = email_pattern, spec_validate = None, spec_digits = None\<rparr>),
      (''phone'', \<lparr>spec_label = ''PHONE'', spec_pattern = phone_pattern, spec_validate = None, spec_digits = None\<rparr>),
      (''ssn'', \<lparr>spec_label = ''SSN'', spec_pattern = ssn_pattern, spec_validate = None, spec_digits = None\<rparr>),
      (''credit_card'', \<lparr>spec_label = ''CC'', spec_pattern = credit_card_pattern,
         spec_validate = Some (\<lambda>digits. length digits \<ge> 13 \<and> length digits \<le> 19 \<and> luhnCheck digits),
         spec_digits = Some (filter (\<lambda>c. c \<notin> set '' -''))\<rparr>),
      (''iban'', \<lparr>spec_label = ''IBAN'', spec_pattern = iban_pattern,
         spec_validate = Some (\<lambda>raw. let stripped = filter (\<lambda>c. \<not> is_space c) raw in
           length stripped \<ge> 15 \<and> length stripped \<le> 34 \<and> ibanCheck stripped),
         spec_digits = Some (filter (\<lambda>c. \<not> is_space c))\<rparr>),
      (''ipv4'', \<lparr>spec_label = ''IPV4'', spec_pattern = ipv4_pattern, spec_validate = None, spec_digits = None\<rparr>),
      (''ipv6'', \<lparr>spec_label = ''IPV6'', spec_pattern = ipv6_pattern, spec_validate = None, spec_digits = None\<rparr>)]"

text \<open>The properties every object inherits; \<open>name in BUILTIN_MATCHERS\<close> holds for them too, and what
  is found there has no \<open>pattern\<close>.\<close>

definition inherited_names :: "string list" where
  "inherited_names =
     [''constructor'', ''__defineGetter__'', ''__defineSetter__'', ''hasOwnProperty'', ''__lookupGetter__'',
      ''__lookupSetter__'', ''isPrototypeOf'', ''propertyIsEnumerable'', ''toString'', ''valueOf'', ''__proto__'',
      ''toLocaleString'']"

datatype active_spec = ActiveSpec matcher_spec | NoSpec

definition without_pattern :: "active_spec \<Rightarrow> bool" where
  "without_pattern a = (case a of ActiveSpec _ \<Rightarrow> False | NoSpec \<Rightarrow> True)"

definition active_spec_of :: "string \<Rightarrow> active_spec option" where
  "active_spec_of name =
     (case map_of BUILTIN_MATCHERS name of
        Some spec \<Rightarrow> Some (ActiveSpec spec)
      | None \<Rightarrow> (if name \<in> set inherited_names then Some NoSpec else None))"

subsection \<open>Redaction\<close>

record token_state =
  counters :: "(string, nat) jsmap"
  seen :: "(string, string) jsmap"
  reverseMap :: "(string, string) jsmap"

definition no_tokens :: token_state where
  "no_tokens = \<lparr>counters = [], seen = [], reverseMap = []\<rparr>"

definition nextToken :: "string \<Rightarrow> token_state \<Rightarrow> string \<times> token_state" where
  "nextToken label st =
     (let n = nullish (map_of (counters st) label) 0 + 1
      in (''['' @ label @ ''_'' @ show_nat n @ '']'', st\<lparr>counters := AList.update label n (counters st)\<rparr>))"

definition valid_match :: "matcher_spec \<Rightarrow> string \<Rightarrow> bool" where
  "valid_match spec m =
     (case spec_validate spec of
        None \<Rightarrow> True
      | Some v \<Rightarrow> v (case spec_digits spec of None \<Rightarrow> m | Some f \<Rightarrow> f m))"

definition replace_match :: "matcher_spec \<Rightarrow> string \<Rightarrow> token_state \<Rightarrow> string \<times> token_state" where
  "replace_match spec m st =
     (if \<not> valid_match spec m then (m, st)
      else (case map_of (seen st) m of
              Some t \<Rightarrow> (t, st)
            | None \<Rightarrow>
                (let (token, st1) = nextToken (spec_label spec) st
                 in (token, st1\<lparr>seen := AList.update m token (seen st1),
                                reverseMap := AList.update token m (reverseMap st1)\<rparr>))))"

fun replace_segments :: "matcher_spec \<Rightarrow> segment list \<Rightarrow> token_state \<Rightarrow> string \<times> token_state" where
  "replace_segments spec [] st = ([], st)"
| "replace_segments spec (Lit c # segs) st =
     (let (out, st1) = replace_segments spec segs st in (c # out, st1))"
| "replace_segments spec (Hit m # segs) st =
     (let (t, st1) = replace_match spec m st; (out, st2) = replace_segments spec segs st1 in (t @ out, st2))"

definition redactString :: "matcher_spec list \<Rightarrow> string \<Rightarrow> token_state \<Rightarrow> string \<times> token_state" where
  "redactString specs input st =
     foldl (\<lambda>(result, st) spec. replace_segments spec (rx_segments (spec_pattern spec) None result) st)
       (input, st) specs"

fun walk :: "matcher_spec list \<Rightarrow> json \<Rightarrow> token_state \<Rightarrow> json \<times> token_state"
  and walk_items :: "matcher_spec list \<Rightarrow> json list \<Rightarrow> token_state \<Rightarrow> json list \<times> token_state"
  and walk_props :: "matcher_spec list \<Rightarrow> (string \<times> json) list \<Rightarrow> token_state \<Rightarrow> (string \<times> json) list \<times> token_state"
where
  "walk specs (JStr s) st = (let (t, st1) = redactString specs s st in (JStr t, st1))"
| "walk specs (JArr xs) st = (let (ys, st1) = walk_items specs xs st in (JArr ys, st1))"
| "walk specs (JObj kvs) st = (let (kws, st1) = walk_props specs kvs st in (JObj (own_properties kws), st1))"
| "walk specs JNull st = (JNull, st)"
| "walk specs (JBool b) st = (JBool b, st)"
| "walk specs (JNum n) st = (JNum n, st)"
| "walk_items specs [] st = ([], st)"
| "walk_items specs (x # xs) st =
     (let (y, st1) = walk specs x st; (ys, st2) = walk_items specs xs st1 in (y # ys, st2))"
| "walk_props specs [] st = ([], st)"
| "walk_props specs ((k, x) # kvs) st =
     (let (y, st1) = walk specs x st; (kws, st2) = walk_props specs kvs st1 in ((k, y) # kws, st2))"

text \<open>The texts in a value, which are what \<open>redactString\<close> is called on.\<close>

fun texts_of :: "json \<Rightarrow> string list" where
  "texts_of (JStr s) = [s]"
| "texts_of (JArr xs) = concat (map texts_of xs)"
| "texts_of (JObj kvs) = concat (map (\<lambda>(k, v). texts_of v) kvs)"
| "texts_of _ = []"

definition no_pattern_error :: thrown where
  "no_pattern_error =
     PlainError (''Cannot set properties of undefined (setting '' @ [CHR 0x27] @ ''lastIndex'' @ [CHR 0x27] @ '')'') None"

text \<open>\<open>tokenize\<close>. A matcher without a pattern makes \<open>redactString\<close> throw on the first text.\<close>

definition tokenize :: "json \<Rightarrow> string list \<Rightarrow> thrown + json \<times> (string, string) jsmap" where
  "tokenize value matchers =
     (let activeSpecs = List.map_filter active_spec_of matchers in
      if length activeSpecs = 0 then Inr (value, [])
      else if list_ex without_pattern activeSpecs \<and> length (texts_of value) > 0 then Inl no_pattern_error
      else (let specs = List.map_filter (\<lambda>a. case a of ActiveSpec s \<Rightarrow> Some s | NoSpec \<Rightarrow> None) activeSpecs;
                (redacted, st) = walk specs value no_tokens
            in Inr (redacted, reverseMap st)))"

definition detokenize :: "string \<Rightarrow> (string, string) jsmap \<Rightarrow> string option" where
  "detokenize token rm = map_of rm token"

subsection \<open>Tokens\<close>

definition token_inner :: "string \<Rightarrow> nat \<Rightarrow> string" where
  "token_inner label n = label @ ''_'' @ show_nat n"

definition token_labels :: "string list" where
  "token_labels = [''EMAIL'', ''PHONE'', ''SSN'', ''CC'', ''IBAN'', ''IPV4'', ''IPV6'']"

lemma bracketed_inj: "bracketed a = bracketed b \<longleftrightarrow> a = b"
  by (simp add: bracketed_def)

lemma nextToken_text: "fst (nextToken label st) = bracketed (token_inner label (nullish (map_of (counters st) label) 0 + 1))"
  by (simp add: nextToken_def Let_def bracketed_def token_inner_def)

lemma labels_no_underscore: "label \<in> set token_labels \<Longrightarrow> CHR ''_'' \<notin> set label"
  by (auto simp: token_labels_def)

lemma token_inner_inj:
  assumes "label \<in> set token_labels" "label' \<in> set token_labels"
  shows "token_inner label n = token_inner label' n' \<longleftrightarrow> label = label' \<and> n = n'"
proof
  assume e: "token_inner label n = token_inner label' n'"
  have "takeWhile (\<lambda>c. c \<noteq> CHR ''_'') (token_inner l k) = l" if "l \<in> set token_labels" for l k
    using labels_no_underscore [OF that] by (auto simp: token_inner_def takeWhile_tail)
  then have "label = label'" using e assms by metis
  then show "label = label' \<and> n = n'" using e by (simp add: token_inner_def show_nat_inj)
qed simp

text \<open>What the reverse map holds in a call: it inverts \<open>seen\<close>, and its tokens are those the counters
  have given out.\<close>

definition tokens_ok :: "token_state \<Rightarrow> bool" where
  "tokens_ok st \<longleftrightarrow>
     js_wf (seen st) \<and> js_wf (reverseMap st)
     \<and> (\<forall>m t. map_of (seen st) m = Some t \<longleftrightarrow> map_of (reverseMap st) t = Some m)
     \<and> (\<forall>m t. map_of (reverseMap st) t = Some m \<longrightarrow>
          (\<exists>label n. t = bracketed (token_inner label n) \<and> label \<in> set token_labels
             \<and> 1 \<le> n \<and> n \<le> nullish (map_of (counters st) label) 0))"

lemma tokens_ok_none: "tokens_ok no_tokens"
  by (simp add: tokens_ok_def no_tokens_def)

lemma tokens_okD:
  assumes "tokens_ok st"
  shows "js_wf (seen st)" "js_wf (reverseMap st)"
    and "map_of (seen st) m = Some t \<longleftrightarrow> map_of (reverseMap st) t = Some m"
    and "map_of (reverseMap st) t = Some m \<Longrightarrow>
      \<exists>label n. t = bracketed (token_inner label n) \<and> label \<in> set token_labels
        \<and> 1 \<le> n \<and> n \<le> nullish (map_of (counters st) label) 0"
  using assms unfolding tokens_ok_def by blast+

text \<open>A later state of the call.\<close>

definition extends :: "token_state \<Rightarrow> token_state \<Rightarrow> bool" where
  "extends st st' \<longleftrightarrow>
     (\<forall>m t. map_of (seen st) m = Some t \<longrightarrow> map_of (seen st') m = Some t)
     \<and> (\<forall>m t. map_of (reverseMap st) t = Some m \<longrightarrow> map_of (reverseMap st') t = Some m)"

lemma extends_refl [simp, intro]: "extends st st"
  by (simp add: extends_def)

lemma extends_trans: "extends a b \<Longrightarrow> extends b c \<Longrightarrow> extends a c"
  by (simp add: extends_def)

lemma new_token_fresh:
  assumes "tokens_ok st" "label \<in> set token_labels"
  shows "map_of (reverseMap st) (bracketed (token_inner label (nullish (map_of (counters st) label) 0 + 1))) = None"
proof (rule ccontr)
  let ?n = "nullish (map_of (counters st) label) 0"
  assume "map_of (reverseMap st) (bracketed (token_inner label (?n + 1))) \<noteq> None"
  then obtain m where m: "map_of (reverseMap st) (bracketed (token_inner label (?n + 1))) = Some m" by blast
  obtain l n where "bracketed (token_inner label (?n + 1)) = bracketed (token_inner l n)" "l \<in> set token_labels"
    "n \<le> nullish (map_of (counters st) l) 0"
    using tokens_okD(4) [OF assms(1) m] by blast
  then show False using token_inner_inj [OF assms(2)] by (auto simp: bracketed_inj)
qed

lemma replace_match_ok:
  assumes "tokens_ok st" "spec_label spec \<in> set token_labels"
  shows "tokens_ok (snd (replace_match spec m st))" "extends st (snd (replace_match spec m st))"
    and "valid_match spec m \<Longrightarrow> map_of (seen (snd (replace_match spec m st))) m = Some (fst (replace_match spec m st))"
    and "\<not> valid_match spec m \<Longrightarrow> fst (replace_match spec m st) = m"
proof -
  let ?l = "spec_label spec"
  let ?n = "nullish (map_of (counters st) ?l) 0 + 1"
  let ?t = "bracketed (token_inner ?l ?n)"
  let ?st = "st\<lparr>counters := AList.update ?l ?n (counters st), seen := AList.update m ?t (seen st),
                 reverseMap := AList.update ?t m (reverseMap st)\<rparr>"
  have new: "replace_match spec m st = (?t, ?st)" if "valid_match spec m" "map_of (seen st) m = None"
    using that by (simp add: replace_match_def nextToken_def Let_def bracketed_def token_inner_def)
  have fresh: "map_of (reverseMap st) ?t = None" by (rule new_token_fresh [OF assms])
  have ext: "extends st ?st" if "map_of (seen st) m = None"
    using that fresh by (auto simp: extends_def)
  have ok: "tokens_ok ?st" if unseen: "map_of (seen st) m = None"
    unfolding tokens_ok_def
  proof (intro conjI allI impI)
    fix x t
    have "map_of (reverseMap st) t \<noteq> Some m" using unseen tokens_okD(3) [OF assms(1), of m t] by simp
    moreover have "map_of (seen st) x \<noteq> Some ?t" using fresh tokens_okD(3) [OF assms(1), of x ?t] by simp
    ultimately show "map_of (seen ?st) x = Some t \<longleftrightarrow> map_of (reverseMap ?st) t = Some x"
      using tokens_okD(3) [OF assms(1), of x t] by auto
  next
    fix x t assume "map_of (reverseMap ?st) t = Some x"
    then consider "t = ?t" | "map_of (reverseMap st) t = Some x" by (auto split: if_splits)
    then show "\<exists>label n. t = bracketed (token_inner label n) \<and> label \<in> set token_labels
        \<and> 1 \<le> n \<and> n \<le> nullish (map_of (counters ?st) label) 0"
    proof cases
      case 1
      then show ?thesis using assms(2) by (intro exI [of _ ?l] exI [of _ ?n]) (simp add: nullish_def)
    next
      case 2
      then obtain l n where "t = bracketed (token_inner l n)" "l \<in> set token_labels" "1 \<le> n"
        "n \<le> nullish (map_of (counters st) l) 0" using tokens_okD(4) [OF assms(1)] by blast
      then show ?thesis by (intro exI [of _ l] exI [of _ n]) (auto simp: nullish_def)
    qed
  qed (use tokens_okD(1,2) [OF assms(1)] in auto)
  have cases: "replace_match spec m st = (m, st) \<and> \<not> valid_match spec m
      \<or> (\<exists>t. replace_match spec m st = (t, st) \<and> valid_match spec m \<and> map_of (seen st) m = Some t)
      \<or> (replace_match spec m st = (?t, ?st) \<and> valid_match spec m \<and> map_of (seen st) m = None)"
    using new by (cases "valid_match spec m"; cases "map_of (seen st) m") (auto simp: replace_match_def)
  show "tokens_ok (snd (replace_match spec m st))" using cases ok assms(1) by auto
  show "extends st (snd (replace_match spec m st))" using cases ext by auto
  show "valid_match spec m \<Longrightarrow> map_of (seen (snd (replace_match spec m st))) m = Some (fst (replace_match spec m st))"
    using cases by auto
  show "\<not> valid_match spec m \<Longrightarrow> fst (replace_match spec m st) = m" using cases by auto
qed

text \<open>The segments of a scan when the matches that do not pass the validator count as plain text.\<close>

definition resolve :: "matcher_spec \<Rightarrow> segment list \<Rightarrow> segment list" where
  "resolve spec segs =
     concat (map (\<lambda>seg. case seg of Lit c \<Rightarrow> [Lit c]
                 | Hit m \<Rightarrow> (if valid_match spec m then [Hit m] else map Lit m)) segs)"

lemma resolve_simps [simp]:
  "resolve spec [] = []"
  "resolve spec (Lit c # segs) = Lit c # resolve spec segs"
  "resolve spec (Hit m # segs) = (if valid_match spec m then [Hit m] else map Lit m) @ resolve spec segs"
  by (simp_all add: resolve_def)

lemma lits_text: "concat (map seg_text (map Lit m)) = m" "concat (map (shown f) (map Lit m)) = m"
  by (induction m) auto

lemma resolve_text: "concat (map seg_text (resolve spec segs)) = concat (map seg_text segs)"
proof (induction segs)
  case (Cons seg segs)
  then show ?case using lits_text(1) by (cases seg) auto
qed simp

definition token_for :: "token_state \<Rightarrow> string \<Rightarrow> string" where
  "token_for st m = nullish (map_of (seen st) m) []"

lemma hits_of_lits [simp]: "Hit h \<notin> set (map Lit m)"
  by auto

lemma replace_segments_ok:
  assumes "spec_label spec \<in> set token_labels"
  shows "tokens_ok st \<Longrightarrow> replace_segments spec segs st = (out, st') \<Longrightarrow>
     tokens_ok st' \<and> extends st st'
     \<and> out = concat (map (shown (token_for st')) (resolve spec segs))
     \<and> (\<forall>h. Hit h \<in> set (resolve spec segs) \<longrightarrow> map_of (seen st') h \<noteq> None)"
proof (induction segs arbitrary: st out)
  case (Cons seg segs)
  show ?case
  proof (cases seg)
    case (Lit c)
    then show ?thesis using Cons by (auto split: prod.splits)
  next
    case (Hit m)
    obtain t st1 where m: "replace_match spec m st = (t, st1)" by force
    obtain out2 where r: "replace_segments spec segs st1 = (out2, st')" "out = t @ out2"
      using Cons.prems(2) Hit m by (auto split: prod.splits)
    note one = replace_match_ok [OF Cons.prems(1) assms, of m, unfolded m fst_conv snd_conv]
    have IH: "tokens_ok st'" "extends st1 st'" "out2 = concat (map (shown (token_for st')) (resolve spec segs))"
      "\<forall>h. Hit h \<in> set (resolve spec segs) \<longrightarrow> map_of (seen st') h \<noteq> None"
      using Cons.IH [OF one(1) r(1)] by auto
    show ?thesis
    proof (cases "valid_match spec m")
      case True
      then have "map_of (seen st') m = Some t" using one(3) IH(2) by (simp add: extends_def)
      moreover from this have "token_for st' m = t" by (simp add: token_for_def nullish_def)
      ultimately show ?thesis using True Hit r IH extends_trans [OF one(2) IH(2)] by auto
    next
      case False
      then show ?thesis using one(4) Hit r IH extends_trans [OF one(2) IH(2)] lits_text(2) by auto
    qed
  qed
qed auto

text \<open>\<open>t\<close> comes from \<open>s\<close> by putting, one after the other, tokens for the texts they stand for.\<close>

inductive masks :: "(string, string) jsmap \<Rightarrow> string \<Rightarrow> string \<Rightarrow> bool" for rm where
  masks_refl: "masks rm s s"
| masks_step: "masks rm s (a @ m @ b) \<Longrightarrow> detokenize t rm = Some m \<Longrightarrow> masks rm s (a @ t @ b)"

lemma masks_trans:
  assumes "masks rm t u" "masks rm s t"
  shows "masks rm s u"
  using assms by (induction rule: masks.induct) (auto intro: masks_step)

lemma masks_context: "masks rm s t \<Longrightarrow> masks rm (a @ s @ b) (a @ t @ b)"
proof (induction rule: masks.induct)
  case (masks_step s x m y t)
  then show ?case using masks.masks_step [of rm "a @ s @ b" "a @ x" m "y @ b" t] by simp
qed (rule masks_refl)

lemma masks_segments:
  "(\<And>h. Hit h \<in> set segs \<Longrightarrow> detokenize (g h) rm = Some h) \<Longrightarrow>
   masks rm (concat (map seg_text segs)) (concat (map (shown g) segs))"
proof (induction segs)
  case Nil
  then show ?case by (simp add: masks_refl)
next
  case (Cons seg segs)
  then have IH: "masks rm (concat (map seg_text segs)) (concat (map (shown g) segs))" by simp
  have rest: "masks rm (seg_text seg @ concat (map seg_text segs)) (seg_text seg @ concat (map (shown g) segs))"
    using masks_context [OF IH, of "seg_text seg" "[]"] by simp
  show ?case
  proof (cases seg)
    case (Lit c)
    then show ?thesis using rest by simp
  next
    case (Hit h)
    then have "detokenize (g h) rm = Some h" using Cons.prems by simp
    then show ?thesis using masks_step [of rm _ "[]" h "concat (map (shown g) segs)" "g h"] rest Hit by simp
  qed
qed

text \<open>The reverse map of a call knows all tokens of a state.\<close>

definition knows :: "(string, string) jsmap \<Rightarrow> token_state \<Rightarrow> bool" where
  "knows rm st \<longleftrightarrow> (\<forall>t m. map_of (reverseMap st) t = Some m \<longrightarrow> detokenize t rm = Some m)"

lemma knows_extends: "extends st st' \<Longrightarrow> knows rm st' \<Longrightarrow> knows rm st"
  by (simp add: knows_def extends_def)

lemma knows_self: "knows (reverseMap st) st"
  by (simp add: knows_def detokenize_def)

text \<open>A pattern that no token can contain or complete.\<close>

definition hidden_by_tokens :: "rx \<Rightarrow> bool" where
  "hidden_by_tokens r \<longleftrightarrow>
     context_free r \<and> rx_only no_bracket r \<and> rx_needs (\<lambda>c. \<not> is_word c) r"

lemma show_nat_word: "list_all is_word (show_nat n)"
proof -
  have "is_digit c \<Longrightarrow> is_word c" for c
    by (simp add: is_digit_def is_word_def is_alnum_def is_dig_def char_in_def)
  then show ?thesis using show_nat_digits [of n] by (auto simp: list_all_iff)
qed

lemma token_inner_clean:
  assumes "hidden_by_tokens r" "label \<in> set token_labels"
  shows "clean r (token_inner label n)"
  unfolding clean_def
proof (intro allI impI notI)
  fix m assume m: "sublist m (token_inner label n)" "accepts r m"
  have "list_ex (\<lambda>c. \<not> is_word c) m"
    using assms(1) accepts_lang [OF m(2)] rx_needs_lang unfolding hidden_by_tokens_def by blast
  moreover have "list_all is_word (token_inner label n)"
    using assms(2) show_nat_word [of n]
    by (auto simp: token_inner_def token_labels_def is_word_def is_alnum_def is_upper_def is_dig_def char_in_def)
  moreover have "set m \<subseteq> set (token_inner label n)" using m(1) by (auto simp: sublist_def)
  ultimately show False by (auto simp: list_all_iff list_ex_iff)
qed

lemma shown_as_brackets:
  assumes "tokens_ok st" "\<And>h. Hit h \<in> set segs \<Longrightarrow> map_of (seen st) h \<noteq> None" "hidden_by_tokens r"
  obtains f where "concat (map (shown (token_for st)) segs) = concat (map (shown (\<lambda>h. bracketed (f h))) segs)"
    and "\<And>h. Hit h \<in> set segs \<Longrightarrow> clean r (f h)"
proof -
  have "\<exists>x. token_for st h = bracketed x \<and> clean r x" if "Hit h \<in> set segs" for h
  proof -
    obtain t where t: "map_of (seen st) h = Some t" using assms(2) \<open>Hit h \<in> set segs\<close> by blast
    then obtain label n where "t = bracketed (token_inner label n)" "label \<in> set token_labels"
      using tokens_okD(3,4) [OF assms(1)] by blast
    then show ?thesis using t token_inner_clean [OF assms(3)] by (auto simp: token_for_def nullish_def)
  qed
  then obtain f where f: "\<And>h. Hit h \<in> set segs \<Longrightarrow> token_for st h = bracketed (f h) \<and> clean r (f h)"
    by metis
  have "map (shown (token_for st)) segs = map (shown (\<lambda>h. bracketed (f h))) segs"
  proof (rule map_cong [OF refl])
    fix seg assume seg: "seg \<in> set segs"
    show "shown (token_for st) seg = shown (\<lambda>h. bracketed (f h)) seg"
    proof (cases seg)
      case (Hit h)
      then show ?thesis using f [of h] seg by simp
    qed simp
  qed
  then show thesis using that f by metis
qed

text \<open>One pattern over one text.\<close>

definition spec_ok :: "matcher_spec \<Rightarrow> bool" where
  "spec_ok spec \<longleftrightarrow> spec_label spec \<in> set token_labels"

lemma hidden_not_empty: "hidden_by_tokens r \<Longrightarrow> \<not> accepts r []"
  unfolding hidden_by_tokens_def using rx_needs_lang accepts_lang by fastforce

lemma spec_pass:
  assumes "tokens_ok st" "spec_ok spec"
    and "replace_segments spec (rx_segments (spec_pattern spec) None s) st = (out, st')"
  shows "tokens_ok st'" "extends st st'" "knows rm st' \<Longrightarrow> masks rm s out"
    and "hidden_by_tokens r \<Longrightarrow> clean r s \<or> (spec_pattern spec = r \<and> spec_validate spec = None) \<Longrightarrow> clean r out"
proof -
  let ?segs = "rx_segments (spec_pattern spec) None s"
  have "spec_label spec \<in> set token_labels" using assms(2) by (simp add: spec_ok_def)
  note pass = replace_segments_ok [OF this assms(1,3)]
  have same: "concat (map seg_text (resolve spec ?segs)) = s"
    by (simp add: resolve_text rx_segments_text)
  show "tokens_ok st'" "extends st st'" using pass by auto
  show "masks rm s out" if "knows rm st'"
  proof -
    have "masks rm (concat (map seg_text (resolve spec ?segs))) (concat (map (shown (token_for st')) (resolve spec ?segs)))"
    proof (rule masks_segments)
      fix h assume "Hit h \<in> set (resolve spec ?segs)"
      then obtain t where "map_of (seen st') h = Some t" using pass by blast
      moreover from this have "map_of (reverseMap st') t = Some h" using tokens_okD(3) pass by blast
      ultimately show "detokenize (token_for st' h) rm = Some h"
        using \<open>knows rm st'\<close> by (simp add: knows_def token_for_def nullish_def)
    qed
    then show ?thesis using pass same by simp
  qed
  show "clean r out" if r: "hidden_by_tokens r" and c: "clean r s \<or> (spec_pattern spec = r \<and> spec_validate spec = None)"
  proof -
    have hits: "\<And>h. Hit h \<in> set (resolve spec ?segs) \<Longrightarrow> map_of (seen st') h \<noteq> None" using pass by blast
    obtain f where f: "out = concat (map (shown (\<lambda>h. bracketed (f h))) (resolve spec ?segs))"
      "\<And>h. Hit h \<in> set (resolve spec ?segs) \<Longrightarrow> clean r (f h)"
      using shown_as_brackets [OF _ hits r] pass by metis
    from c show ?thesis
    proof
      assume "clean r s"
      then show ?thesis unfolding f(1)
        by (intro masking_keeps_clean) (use r f(2) same in \<open>simp_all add: hidden_by_tokens_def\<close>)
    next
      assume p: "spec_pattern spec = r \<and> spec_validate spec = None"
      then have "valid_match spec m" for m by (simp add: valid_match_def)
      then have "resolve spec segs = segs" for segs
        by (induction segs) (auto simp: resolve_def split: segment.splits)
      then show ?thesis unfolding f(1)
        using masking_all_hits [of r None s f] f(2) p r hidden_not_empty [OF r]
        by (simp add: hidden_by_tokens_def)
    qed
  qed
qed

lemma redactString_Cons:
  "redactString (spec # specs) s st =
     (let (t, st1) = replace_segments spec (rx_segments (spec_pattern spec) None s) st in redactString specs t st1)"
  by (simp add: redactString_def case_prod_beta Let_def)

lemma redactString_ok:
  assumes "list_all spec_ok specs"
  shows "tokens_ok st \<Longrightarrow> redactString specs s st = (out, st') \<Longrightarrow>
     tokens_ok st' \<and> extends st st' \<and> (knows rm st' \<longrightarrow> masks rm s out)
     \<and> (hidden_by_tokens r \<longrightarrow> clean r s \<or> (\<exists>spec \<in> set specs. spec_pattern spec = r \<and> spec_validate spec = None)
          \<longrightarrow> clean r out)"
  using assms
proof (induction specs arbitrary: s st)
  case Nil
  then show ?case by (auto simp: redactString_def masks_refl)
next
  case (Cons spec specs)
  obtain t st1 where t: "replace_segments spec (rx_segments (spec_pattern spec) None s) st = (t, st1)" by force
  have "spec_ok spec" using Cons.prems(3) by simp
  note pass = spec_pass [OF Cons.prems(1) this t]
  have "redactString specs t st1 = (out, st')" using Cons.prems(2) t by (simp add: redactString_Cons)
  then have IH: "tokens_ok st'" "extends st1 st'" "knows rm st' \<longrightarrow> masks rm t out"
    "hidden_by_tokens r \<longrightarrow> clean r t \<or> (\<exists>spec \<in> set specs. spec_pattern spec = r \<and> spec_validate spec = None)
       \<longrightarrow> clean r out"
    using Cons.IH [of st1 t] pass(1) Cons.prems(3) by auto
  have "masks rm s out" if "knows rm st'"
    using IH(3) that pass(3) knows_extends [OF IH(2)] masks_trans by blast
  moreover have "clean r out"
    if "hidden_by_tokens r" "clean r s \<or> (\<exists>spec \<in> set (spec # specs). spec_pattern spec = r \<and> spec_validate spec = None)"
    using IH(4) that pass(4) [OF that(1)] by auto
  ultimately show ?case using IH(1) extends_trans [OF pass(2) IH(2)] by blast
qed

text \<open>\<open>w\<close> is \<open>v\<close> with tokens in its texts and without the properties named \<open>__proto__\<close>.\<close>

inductive masked :: "(string, string) jsmap \<Rightarrow> json \<Rightarrow> json \<Rightarrow> bool" for rm where
  masked_text: "masks rm s t \<Longrightarrow> masked rm (JStr s) (JStr t)"
| masked_items: "list_all2 (masked rm) xs ys \<Longrightarrow> masked rm (JArr xs) (JArr ys)"
| masked_props: "map fst kws = map fst kvs \<Longrightarrow> list_all2 (masked rm) (map snd kvs) (map snd kws) \<Longrightarrow>
    masked rm (JObj kvs) (JObj (own_properties kws))"
| masked_null: "masked rm JNull JNull"
| masked_bool: "masked rm (JBool b) (JBool b)"
| masked_num: "masked rm (JNum n) (JNum n)"

definition has_pattern :: "rx \<Rightarrow> matcher_spec list \<Rightarrow> bool" where
  "has_pattern r specs \<longleftrightarrow> (\<exists>spec \<in> set specs. spec_pattern spec = r \<and> spec_validate spec = None)"

lemma texts_own: "set (texts_of (JObj (own_properties kws))) \<subseteq> set (concat (map (\<lambda>(k, v). texts_of v) kws))"
  by (auto simp: set_own_properties)

text \<open>What the three functions have in common: from \<open>st\<close> to \<open>st'\<close>, with \<open>M\<close> once the reverse map is known
  and the texts \<open>ts\<close> clean of a pattern that is among the matchers.\<close>

definition good_pass ::
    "(string, string) jsmap \<Rightarrow> rx \<Rightarrow> matcher_spec list \<Rightarrow> token_state \<Rightarrow> token_state \<Rightarrow> bool \<Rightarrow> string list \<Rightarrow> bool" where
  "good_pass rm r specs st st' M ts \<longleftrightarrow>
     tokens_ok st' \<and> extends st st' \<and> (knows rm st' \<longrightarrow> M)
     \<and> (hidden_by_tokens r \<and> has_pattern r specs \<longrightarrow> list_all (clean r) ts)"

lemma good_pass_weaken:
  "good_pass rm r specs st st' M ts \<Longrightarrow> (M \<Longrightarrow> M') \<Longrightarrow> set ts' \<subseteq> set ts \<Longrightarrow> good_pass rm r specs st st' M' ts'"
  by (auto simp: good_pass_def list_all_iff)

lemma good_pass_trans:
  assumes "good_pass rm r specs st st1 M ts" "good_pass rm r specs st1 st2 N us"
  shows "good_pass rm r specs st st2 (M \<and> N) (ts @ us)"
  using assms extends_trans [of st st1 st2] knows_extends [of st1 st2 rm] by (auto simp: good_pass_def)

lemma good_pass_same: "tokens_ok st \<Longrightarrow> M \<Longrightarrow> good_pass rm r specs st st M []"
  by (simp add: good_pass_def)

lemma walk_ok:
  shows "list_all spec_ok specs \<Longrightarrow> tokens_ok st \<Longrightarrow>
     good_pass rm r specs st (snd (walk specs v st)) (masked rm v (fst (walk specs v st)))
       (texts_of (fst (walk specs v st)))"
    and "list_all spec_ok specs \<Longrightarrow> tokens_ok st \<Longrightarrow>
     good_pass rm r specs st (snd (walk_items specs vs st)) (list_all2 (masked rm) vs (fst (walk_items specs vs st)))
       (concat (map texts_of (fst (walk_items specs vs st))))"
    and "list_all spec_ok specs \<Longrightarrow> tokens_ok st \<Longrightarrow>
     good_pass rm r specs st (snd (walk_props specs kvs st))
       (map fst (fst (walk_props specs kvs st)) = map fst kvs
        \<and> list_all2 (masked rm) (map snd kvs) (map snd (fst (walk_props specs kvs st))))
       (concat (map (\<lambda>(k, v). texts_of v) (fst (walk_props specs kvs st))))"
proof (induction specs v st and specs vs st and specs kvs st rule: walk_walk_items_walk_props.induct)
  case (1 specs s st)
  obtain t st' where t: "redactString specs s st = (t, st')" by force
  from redactString_ok [OF 1(1,2) t, of rm r] show ?case
    by (auto simp: t good_pass_def has_pattern_def intro: masked_text)
next
  case (2 specs xs st)
  then show ?case by (auto simp: case_prod_beta Let_def intro: masked_items elim!: good_pass_weaken)
next
  case (3 specs kvs st)
  have "set (texts_of (fst (walk specs (JObj kvs) st)))
      \<subseteq> set (concat (map (\<lambda>(k, v). texts_of v) (fst (walk_props specs kvs st))))"
    using texts_own [of "fst (walk_props specs kvs st)"] by (simp add: case_prod_beta Let_def)
  moreover have "map fst (fst (walk_props specs kvs st)) = map fst kvs
      \<and> list_all2 (masked rm) (map snd kvs) (map snd (fst (walk_props specs kvs st)))
      \<Longrightarrow> masked rm (JObj kvs) (fst (walk specs (JObj kvs) st))"
    by (auto simp: case_prod_beta Let_def intro: masked_props)
  moreover have "snd (walk specs (JObj kvs) st) = snd (walk_props specs kvs st)"
    by (simp add: case_prod_beta Let_def)
  ultimately show ?case using good_pass_weaken [OF 3(1) [OF 3(2,3)]] by simp
next
  case (8 specs x xs st)
  let ?st = "snd (walk specs x st)"
  have one: "good_pass rm r specs st ?st (masked rm x (fst (walk specs x st))) (texts_of (fst (walk specs x st)))"
    using 8 by simp
  then have "tokens_ok ?st" by (simp add: good_pass_def)
  then have "good_pass rm r specs ?st (snd (walk_items specs xs ?st))
      (list_all2 (masked rm) xs (fst (walk_items specs xs ?st))) (concat (map texts_of (fst (walk_items specs xs ?st))))"
    using 8 by (metis prod.collapse)
  from good_pass_trans [OF one this] show ?case by (simp add: case_prod_beta Let_def)
next
  case (10 specs k x kvs st)
  let ?st = "snd (walk specs x st)"
  have one: "good_pass rm r specs st ?st (masked rm x (fst (walk specs x st))) (texts_of (fst (walk specs x st)))"
    using 10 by simp
  then have "tokens_ok ?st" by (simp add: good_pass_def)
  then have "good_pass rm r specs ?st (snd (walk_props specs kvs ?st))
      (map fst (fst (walk_props specs kvs ?st)) = map fst kvs
       \<and> list_all2 (masked rm) (map snd kvs) (map snd (fst (walk_props specs kvs ?st))))
      (concat (map (\<lambda>(k, v). texts_of v) (fst (walk_props specs kvs ?st))))"
    using 10 by (metis prod.collapse)
  from good_pass_weaken [OF good_pass_trans [OF one this]] show ?case by (simp add: case_prod_beta Let_def)
qed (simp_all add: good_pass_same masked.intros)

subsection \<open>The call\<close>

definition specs_of :: "string list \<Rightarrow> matcher_spec list" where
  "specs_of matchers =
     List.map_filter (\<lambda>a. case a of ActiveSpec s \<Rightarrow> Some s | NoSpec \<Rightarrow> None) (List.map_filter active_spec_of matchers)"

lemma builtin_ok: "list_all (\<lambda>(name, spec). spec_ok spec) BUILTIN_MATCHERS"
  by (simp add: BUILTIN_MATCHERS_def spec_ok_def token_labels_def)

lemma builtin_not_inherited: "map_of BUILTIN_MATCHERS name = Some spec \<Longrightarrow> name \<notin> set inherited_names"
  by (auto simp: BUILTIN_MATCHERS_def inherited_names_def split: if_splits)

lemma specs_of_simps [simp]:
  "specs_of [] = []"
  "specs_of (n # ns) = (case map_of BUILTIN_MATCHERS n of Some spec \<Rightarrow> spec # specs_of ns | None \<Rightarrow> specs_of ns)"
  by (simp_all add: specs_of_def active_spec_of_def List.map_filter_simps split: option.splits)

lemma specs_of_ok: "list_all spec_ok (specs_of matchers)"
proof (induction matchers)
  case (Cons n ns)
  have "spec_ok spec" if "map_of BUILTIN_MATCHERS n = Some spec" for spec
    using map_of_SomeD [OF that] builtin_ok by (auto simp: list_all_iff)
  then show ?case using Cons by (simp split: option.splits)
qed simp

lemma specs_of_in: "map_of BUILTIN_MATCHERS n = Some spec \<Longrightarrow> n \<in> set ns \<Longrightarrow> spec \<in> set (specs_of ns)"
  by (induction ns) (auto split: option.splits)

lemma no_pattern_active:
  "list_ex without_pattern (List.map_filter active_spec_of ns) \<longleftrightarrow> list_ex (\<lambda>n. n \<in> set inherited_names) ns"
proof (induction ns)
  case (Cons n ns)
  then show ?case using builtin_not_inherited [of n]
    by (auto simp: List.map_filter_simps active_spec_of_def without_pattern_def split: option.splits)
qed (simp add: List.map_filter_simps)

lemma walk_no_specs: "redactString [] s st = (s, st)"
  by (simp add: redactString_def)

lemma tokenize_cases:
  "tokenize v ns =
     (if List.map_filter active_spec_of ns = [] then Inr (v, [])
      else if list_ex (\<lambda>n. n \<in> set inherited_names) ns \<and> texts_of v \<noteq> [] then Inl no_pattern_error
      else Inr (fst (walk (specs_of ns) v no_tokens), reverseMap (snd (walk (specs_of ns) v no_tokens))))"
  by (simp add: tokenize_def specs_of_def no_pattern_active case_prod_beta Let_def)

lemma hidden_patterns:
  "hidden_by_tokens email_pattern" "hidden_by_tokens phone_pattern" "hidden_by_tokens ipv6_pattern"
  by (simp_all add: hidden_by_tokens_def email_pattern_def phone_pattern_def ipv6_pattern_def rx_forms Let_def
      rx_digit_def rx_alnum_def rx_sep_def rx_hex_def rx_host_label_def)
     (auto simp: local_char_def is_alnum_def is_upper_def is_lower_def is_dig_def char_in_def no_bracket_def
        is_word_def is_space_def)

lemma walked:
  "good_pass (reverseMap (snd (walk (specs_of ns) v no_tokens))) r (specs_of ns) no_tokens
     (snd (walk (specs_of ns) v no_tokens))
     (masked (reverseMap (snd (walk (specs_of ns) v no_tokens))) v (fst (walk (specs_of ns) v no_tokens)))
     (texts_of (fst (walk (specs_of ns) v no_tokens)))"
  by (rule walk_ok(1) [OF specs_of_ok tokens_ok_none])

lemma reverse_map_inverts:
  assumes "tokens_ok st"
  shows "distinct (map fst (reverseMap st))" "distinct (map snd (reverseMap st))"
    and "list_all (\<lambda>(t, m). detokenize t (reverseMap st) = Some m) (reverseMap st)"
proof -
  show d: "distinct (map fst (reverseMap st))" using tokens_okD(2) [OF assms] by (simp add: js_wf_def)
  have "inj_on snd (set (reverseMap st))"
  proof (rule inj_onI)
    fix x y assume xy: "x \<in> set (reverseMap st)" "y \<in> set (reverseMap st)" "snd x = snd y"
    then have "map_of (reverseMap st) (fst x) = Some (snd x)" "map_of (reverseMap st) (fst y) = Some (snd y)"
      using d by (metis map_of_is_SomeI prod.collapse)+
    then have "map_of (seen st) (snd x) = Some (fst x)" "map_of (seen st) (snd y) = Some (fst y)"
      using tokens_okD(3) [OF assms] by auto
    then show "x = y" using xy(3) by (simp add: prod_eq_iff)
  qed
  then show "distinct (map snd (reverseMap st))" using d by (auto simp: distinct_map)
  show "list_all (\<lambda>(t, m). detokenize t (reverseMap st) = Some m) (reverseMap st)"
    using d by (auto simp: list_all_iff detokenize_def)
qed

text \<open>C21: Tokens stand for exactly one value each, and nothing else is changed. A tokenized result is the value
  the backend gave with texts replaced by tokens that \<open>detokenize\<close> maps back to them, one after
  the other, in texts only: numbers, keys and structure stay. In the reverse map no token and no
  value occurs twice. The call throws only when a matcher is named like a property that every
  object inherits and the value has a text in it.\<close>

theorem tokens_stand_for_values:
  "case tokenize v ns of
     Inl e \<Rightarrow> e = no_pattern_error \<and> list_ex (\<lambda>n. n \<in> set inherited_names) ns \<and> texts_of v \<noteq> []
   | Inr (out, rm) \<Rightarrow>
       (masked rm v out \<or> out = v \<and> rm = []) \<and> distinct (map fst rm) \<and> distinct (map snd rm)
       \<and> list_all (\<lambda>(t, m). detokenize t rm = Some m) rm"
proof -
  let ?st = "snd (walk (specs_of ns) v no_tokens)"
  have ok: "tokens_ok ?st" "masked (reverseMap ?st) v (fst (walk (specs_of ns) v no_tokens))"
    using walked [of ns v] knows_self by (auto simp: good_pass_def)
  then show ?thesis using reverse_map_inverts [OF ok(1)] by (simp add: tokenize_cases)
qed

lemma tokenized_masked:
  "tokenize v ns = Inr (out, rm) \<Longrightarrow> masked rm v out \<or> out = v \<and> rm = []"
  "tokenize v ns = Inl e \<Longrightarrow> e = no_pattern_error"
  using walked [of ns v] knows_self [of "snd (walk (specs_of ns) v no_tokens)"]
  by (auto simp: good_pass_def tokenize_cases split: if_splits)

lemma tokenized_clean:
  assumes "(name, p) \<in> set [(''email'', email_pattern), (''phone'', phone_pattern), (''ipv6'', ipv6_pattern)]"
    and "name \<in> set ns" and "tokenize v ns = Inr (out, rm)"
  shows "list_all (\<lambda>t. \<not> rx_test p t) (texts_of out)"
proof -
  have p: "hidden_by_tokens p" using assms(1) hidden_patterns by auto
  obtain spec where spec: "map_of BUILTIN_MATCHERS name = Some spec" "spec_pattern spec = p" "spec_validate spec = None"
    using assms(1) by (auto simp: BUILTIN_MATCHERS_def)
  then have "spec \<in> set (specs_of ns)" using specs_of_in assms(2) by blast
  then have has: "has_pattern p (specs_of ns)" "List.map_filter active_spec_of ns \<noteq> []"
    using spec by (auto simp: has_pattern_def specs_of_def List.map_filter_simps)
  then have "out = fst (walk (specs_of ns) v no_tokens)"
    using assms(3) by (auto simp: tokenize_cases split: if_splits)
  then have "list_all (clean p) (texts_of out)" using walked [of ns v p] p has by (simp add: good_pass_def)
  then show ?thesis using p by (simp add: rx_test_def rx_found_clean hidden_by_tokens_def list_all_iff)
qed

text \<open>No personal data is left. When a tool is annotated with the matcher \<open>email\<close>, \<open>phone\<close> or \<open>ipv6\<close>, in no
  text of the result the sandbox gets is the pattern of that matcher found, whatever other
  matchers run before or after it and whatever their tokens put next to each other.\<close>

theorem no_personal_data_left:
  assumes "(name, p) \<in> set [(''email'', email_pattern), (''phone'', phone_pattern), (''ipv6'', ipv6_pattern)]"
    and "name \<in> set ns" and "tokenize v ns = Inr (out, rm)"
  shows "list_all (\<lambda>t. \<not> rx_test p t) (texts_of out)"
  using assms by (rule tokenized_clean)

theorem no_personal_data_left_witness:
  "list_all (\<lambda>t. \<not> rx_test email_pattern t) [''mail [EMAIL_1] now'']"
proof -
  have "tokenize (JArr [JStr ''mail a@b.co now'']) [''email''] =
      Inr (JArr [JStr ''mail [EMAIL_1] now''], [(''[EMAIL_1]'', ''a@b.co'')])"
    by code_simp
  from no_personal_data_left [OF _ _ this] show ?thesis by simp
qed

text \<open>The pattern \<open>ipv6\<close> asks for a colon after every group before the double colon, so that it never
  takes the groups before it: a compressed address keeps them.\<close>

lemma compressed_ipv6_left_in_part:
  "tokenize (JStr ''2001:db8::1'') [''ipv6''] = Inr (JStr ''2001:db8[IPV6_1]'', [(''[IPV6_1]'', ''::1'')])"
  by code_simp

text \<open>And a matcher named like an inherited property makes the call fail instead of being ignored.\<close>

lemma inherited_matcher_throws:
  "tokenize (JStr ''hello'') [''email'', ''constructor''] = Inl no_pattern_error"
  by code_simp

end
