(* ===== verification/CallTool.thy ===== *)
theory CallTool
  imports Gateway CacheLayer Hub Tokenize
begin

text \<open>
  The path of one tool call: the handler \<open>callTool\<close> that \<open>start\<close> of \<open>src/src/server/mcp-server.ts\<close> gives to
  the bridge, and \<open>callToolTokenized\<close> of \<open>src/src/hub/mcp-hub.ts\<close>. It composes the registry, the cache,
  the gateway, the hub and the tokenization as the server does. One attempt to reach a backend is
  described by the hub as it is then, the verdict of the rate limiter and the answer of the client,
  and by how long it takes.
\<close>

record call_attempt =
  at_hub :: hub
  at_verdict :: "thrown option"
  at_answer :: "thrown + tool_result"
  at_takes :: "int option"

definition hub_reply :: "(string \<Rightarrow> json option) \<Rightarrow> string \<Rightarrow> string \<Rightarrow> call_attempt \<Rightarrow> json reply" where
  "hub_reply parse server tool a =
     (case at_takes a of
        None \<Rightarrow> Hangs
      | Some d \<Rightarrow> Settles d (fst (hub_callTool parse (at_hub a) server tool (at_verdict a) (at_answer a))))"

definition callToolTokenized ::
    "(string \<Rightarrow> json option) \<Rightarrow> string \<Rightarrow> string \<Rightarrow> string list \<Rightarrow> call_attempt
     \<Rightarrow> thrown + json \<times> (string, string) jsmap" where
  "callToolTokenized parse server tool matchers a =
     (case fst (hub_callTool parse (at_hub a) server tool (at_verdict a) (at_answer a)) of
        Inl e \<Rightarrow> Inl e
      | Inr raw \<Rightarrow> (if length matchers = 0 then Inr (raw, []) else tokenize raw matchers))"

text \<open>The sentinel by which the handler tells the bridge that a result is tokenized.\<close>

definition x4_sentinel :: "json \<Rightarrow> (string, string) jsmap \<Rightarrow> json" where
  "x4_sentinel result rm =
     JObj [(''__x4_result'', result), (''__x4_reverseMap'', JObj (map (\<lambda>(t, m). (t, JStr m)) rm))]"

record conductor =
  con_registry :: registry
  con_cache :: cache_layer
  con_gateway :: gateway

text \<open>The moments of a call: when the cache is asked, when the gateway begins and ends, when the cache
  is written, and what the memory tier evicts then.\<close>

record call_times =
  t_get :: time
  t_get_later :: time
  t_begin :: time
  t_finish :: time
  t_set :: time
  get_evicts :: "string list"
  set_evicts :: "string list"

datatype call_route =
    Answered json
  | Revalidating json
  | Redacting "string list"
  | Calling bool

text \<open>The handler up to the backend: which way the call goes.\<close>

definition call_route_of ::
    "(string \<Rightarrow> string) \<Rightarrow> call_times \<Rightarrow> string \<Rightarrow> string \<Rightarrow> json \<Rightarrow> conductor \<Rightarrow> call_route \<times> conductor" where
  "call_route_of sha tm server tool params w =
     (let toolDef = getTool server tool (con_registry w);
          matchers = nullish (Option.bind toolDef redact) [] in
      if length matchers > 0 then (Redacting matchers, w)
      else if wouldCache toolDef (con_cache w)
      then (case cache_get sha (get_evicts tm) (t_get tm) (t_get_later tm) server tool (Some params) (con_cache w) of
              (None, c) \<Rightarrow> (Calling True, w\<lparr>con_cache := c\<rparr>)
            | (Some hit, c) \<Rightarrow>
                (if nullish (needsRevalidation hit) False
                 then (Revalidating (hit_value hit),
                       w\<lparr>con_cache := snd (refresh_begin (cache_id sha server tool (Some params)) c)\<rparr>)
                 else (Answered (hit_value hit), w\<lparr>con_cache := c\<rparr>)))
      else (Calling False, w))"

text \<open>The gateway call, and the writing of the cache afterwards.\<close>

definition call_through_gateway ::
    "(string \<Rightarrow> string) \<Rightarrow> (disk_entry \<Rightarrow> int) \<Rightarrow> (string \<Rightarrow> json option) \<Rightarrow> call_times \<Rightarrow> string \<Rightarrow> string \<Rightarrow> json
     \<Rightarrow> (nat \<Rightarrow> call_attempt) \<Rightarrow> bool \<Rightarrow> conductor \<Rightarrow> (thrown + json) \<times> nat \<times> conductor" where
  "call_through_gateway sha enc parse tm server tool params env keep w =
     (let (res, calls, g) = gw_call no_options (t_begin tm) (t_finish tm) server tool
            (\<lambda>k. hub_reply parse server tool (env k)) (con_gateway w);
          w1 = w\<lparr>con_gateway := g\<rparr> in
      (res, calls,
       (case res of
          Inl e \<Rightarrow> w1
        | Inr v \<Rightarrow>
            (if keep
             then w1\<lparr>con_cache := cache_set sha enc (set_evicts tm) (t_set tm) (getTool server tool (con_registry w1))
                       server tool (Some params) v None (con_cache w1)\<rparr>
             else w1))))"

text \<open>
  A whole call with nothing in between: its result, how often the hub was called, the state after.
  The result is \<open>None\<close> when the call never settles: on the way through the gateway a deadline ends
  every attempt, on the redacting way nothing does.
\<close>

definition handle_call ::
    "(string \<Rightarrow> string) \<Rightarrow> (disk_entry \<Rightarrow> int) \<Rightarrow> (string \<Rightarrow> json option) \<Rightarrow> call_times \<Rightarrow> string \<Rightarrow> string \<Rightarrow> json
     \<Rightarrow> (nat \<Rightarrow> call_attempt) \<Rightarrow> conductor \<Rightarrow> (thrown + json) option \<times> nat \<times> conductor" where
  "handle_call sha enc parse tm server tool params env w =
     (case call_route_of sha tm server tool params w of
        (Answered v, w1) \<Rightarrow> (Some (Inr v), 0, w1)
      | (Revalidating v, w1) \<Rightarrow> (Some (Inr v), 0, w1)
      | (Redacting matchers, w1) \<Rightarrow>
          (if at_takes (env 1) = None then (None, 1, w1)
           else (case callToolTokenized parse server tool matchers (env 1) of
                   Inl e \<Rightarrow> (Some (Inl e), 1, w1)
                 | Inr (v, rm) \<Rightarrow> (Some (Inr (x4_sentinel v rm)), 1, w1)))
      | (Calling keep, w1) \<Rightarrow>
          (let (res, calls, w2) = call_through_gateway sha enc parse tm server tool params env keep w1
           in (Some res, calls, w2)))"

text \<open>The refresh that a revalidating answer leaves behind, once its call through the gateway ends.\<close>

definition background_refresh ::
    "(string \<Rightarrow> string) \<Rightarrow> (disk_entry \<Rightarrow> int) \<Rightarrow> (string \<Rightarrow> json option) \<Rightarrow> call_times \<Rightarrow> string \<Rightarrow> string \<Rightarrow> json
     \<Rightarrow> (nat \<Rightarrow> call_attempt) \<Rightarrow> conductor \<Rightarrow> conductor" where
  "background_refresh sha enc parse tm server tool params env w =
     (let (res, calls, g) = gw_call no_options (t_begin tm) (t_finish tm) server tool
            (\<lambda>k. hub_reply parse server tool (env k)) (con_gateway w)
      in w\<lparr>con_gateway := g,
          con_cache := refresh_end sha enc (set_evicts tm) (t_set tm) (getTool server tool (con_registry w))
            server tool (Some params) res (con_cache w)\<rparr>)"

subsection \<open>Properties\<close>

lemma gateway_profile:
  "gw_resolveProfile no_options server tool = (if isMutation tool then DEFAULT_PROFILE\<lparr>retries := 0\<rparr> else DEFAULT_PROFILE)"
  by (simp add: gw_resolveProfile_def no_options_def resolveProfile_def applyMutationDefault_def Let_def)

lemma hub_failure:
  assumes "isServerConnected server (at_hub a)" "at_verdict a = None" "at_answer a = Inl e" "at_takes a = Some d"
  shows "hub_reply parse server tool a = Settles d (Inl (wrap_tool_error server tool e))"
proof -
  obtain c where "connection_of server (at_hub a) = Some c" "conn_status c = StConnected"
    using assms(1) by (auto simp: isServerConnected_def split: option.splits)
  then show ?thesis using assms(2-4) by (simp add: hub_reply_def hub_callTool_def)
qed

lemma wrapped_final: "\<not> isRetryable (wrap_tool_error server tool e)" "surfaced (wrap_tool_error server tool e) = wrap_tool_error server tool e"
  by (cases e; simp add: wrap_tool_error_def surfaced_def)+

text \<open>No backend error is ever retried. When the hub passes a call on and the backend fails within the
  deadline, the caller gets that failure as an \<open>MCPToolError\<close> after this one attempt, also when the
  failure is one that \<open>isRetryable\<close> calls transient, such as a reset connection, and nothing is
  written to the cache: the hub has wrapped it before the gateway sees it.\<close>

theorem backend_errors_are_not_retried:
  assumes "call_route_of sha tm server tool params w = (Calling keep, w1)"
    and "fst (allowCall (t_begin tm) tool (gw_breaker server (gw_resolveProfile no_options server tool) (con_gateway w1))) = Inr ()"
    and "isServerConnected server (at_hub (env 1))" "at_verdict (env 1) = None" "at_answer (env 1) = Inl e"
    and "at_takes (env 1) = Some d" "d < 10000"
    and "handle_call sha enc parse tm server tool params env w = (res, calls, w')"
  shows "res = Some (Inl (wrap_tool_error server tool e)) \<and> calls = 1 \<and> con_cache w' = con_cache w1"
proof -
  let ?p = "gw_resolveProfile no_options server tool"
  let ?backend = "\<lambda>k. hub_reply parse server tool (env k)"
  let ?fn = "\<lambda>k. withTimeout (?backend k) (timeoutMs ?p) server tool (int k)"
  let ?call = "gw_call no_options (t_begin tm) (t_finish tm) server tool ?backend (con_gateway w1)"
  have p: "0 \<le> retries ?p" "timeoutMs ?p = 10000" by (simp_all add: gateway_profile DEFAULT_PROFILE_def)
  have one: "?fn 1 = Inl (wrap_tool_error server tool e)"
    using hub_failure [OF assms(3-6), of parse tool] assms(7) p(2) by (simp add: withTimeout_def)
  obtain r n g where c: "?call = (r, n, g)" by (metis prod.exhaust)
  from gw_call_decides [OF refl p(1) refl c [symmetric]]
  have n: "1 \<le> n" "settled_by ?fn n"
    "if retried ?fn n then int n = retries ?p + 1
       \<and> r = Inl (if n = 1 then projl (?fn 1) else RetryExhaustedError server tool (int n) (projl (?fn n)))
     else r = map_sum surfaced id (?fn n)"
    using assms(2) by simp_all
  have not: "\<not> retried ?fn 1" using one wrapped_final(1) by (simp add: retried_def)
  then have "n = 1" using n(1,2) by (auto simp: settled_by_def)
  then have r: "r = Inl (wrap_tool_error server tool e)" using n(3) not one wrapped_final(2) by simp
  then show ?thesis using assms(1,8) c \<open>n = 1\<close>
    by (auto simp: handle_call_def call_through_gateway_def Let_def)
qed

definition demo_hub :: hub where
  "demo_hub =
     connect_ok 1 0 (connectServer 0 ''s'' \<lparr>cmd = ''run'', cmd_args = None, cmd_env = None, cfg_rateLimit = None\<rparr>
       (new_hub DEFAULT_HUB_CONFIG))"

definition demo_times :: call_times where
  "demo_times =
     \<lparr>t_get = 100, t_get_later = 100, t_begin = 100, t_finish = 110, t_set = 110, get_evicts = [], set_evicts = []\<rparr>"

definition demo_tool :: "string list option \<Rightarrow> tool_definition" where
  "demo_tool r =
     \<lparr>td_server = ''s'', td_name = ''t'', description = [], inputSchema = JNull, outputSchema = None, td_cost = None,
      cacheable = None, cacheTtl = Some 1000, reliability = None, routing = None, redact = r, examples = None\<rparr>"

definition demo_conductor :: "string list option \<Rightarrow> conductor" where
  "demo_conductor r =
     \<lparr>con_registry = (new_registry None)\<lparr>catalog := [(registry_key ''s'' ''t'', demo_tool r)]\<rparr>,
      con_cache = new_cache None [] 1000 [], con_gateway = new_gateway\<rparr>"

definition demo_attempt :: "thrown + tool_result \<Rightarrow> call_attempt" where
  "demo_attempt answer = \<lparr>at_hub = demo_hub, at_verdict = None, at_answer = answer, at_takes = Some 5\<rparr>"

lemma demo_connected: "isServerConnected ''s'' demo_hub"
  by (simp add: demo_hub_def new_hub_def connectServer_def connect_open_def connect_ok_def set_obj_def
      isServerConnected_def connection_of_def)

lemma demo_route:
  "call_route_of (\<lambda>x. x) demo_times ''s'' ''t'' JNull (demo_conductor None)
   = (Calling True, (demo_conductor None)\<lparr>con_cache := snd (cache_get (\<lambda>x. x) [] 100 100 ''s'' ''t'' (Some JNull)
        (new_cache None [] 1000 []))\<rparr>)"
  by (simp add: call_route_of_def demo_conductor_def demo_times_def demo_tool_def getTool_def new_registry_def
      nullish_def wouldCache_def isCacheable_def resolveTtl_def cache_get_def get_from_memory_def get_from_disk_def
      new_cache_def new_lru_def new_disk_def lru_get_def disk_get_def registry_key_def)

theorem backend_errors_are_not_retried_witness:
  "isRetryable (PlainError ''read ECONNRESET'' None)
   \<and> fst (handle_call (\<lambda>x. x) (\<lambda>_. 10) (\<lambda>_. None) demo_times ''s'' ''t'' JNull
         (\<lambda>_. demo_attempt (Inl (PlainError ''read ECONNRESET'' None))) (demo_conductor None))
     = Some (Inl (MCPToolError ''read ECONNRESET'' ''s'' ''t'' (PlainError ''read ECONNRESET'' None)))"
proof -
  let ?e = "PlainError ''read ECONNRESET'' None"
  obtain res calls w' where h: "handle_call (\<lambda>x. x) (\<lambda>_. 10) (\<lambda>_. None) demo_times ''s'' ''t'' JNull
      (\<lambda>_. demo_attempt (Inl ?e)) (demo_conductor None) = (res, calls, w')"
    by (metis prod.exhaust)
  have "isRetryable ?e" by code_simp
  moreover have "res = Some (Inl (wrap_tool_error ''s'' ''t'' ?e))"
    using backend_errors_are_not_retried [OF demo_route _ _ _ _ _ _ h, where d = 5]
    by (simp add: demo_attempt_def demo_connected demo_conductor_def demo_times_def gw_breaker_def new_gateway_def
        new_breaker_def breaker_defs)
  ultimately show ?thesis using h by (simp add: wrap_tool_error_def)
qed



lemma cached_route:
  assumes "call_route_of sha tm server tool params w = (Calling True, w0)"
  shows "nullish (Option.bind (getTool server tool (con_registry w)) redact) [] = []"
    and "con_registry w0 = con_registry w" "cl_policies (con_cache w0) = cl_policies (con_cache w)"
    and "wouldCache (getTool server tool (con_registry w)) (con_cache w)"
proof -
  have pol: "cl_policies (snd (cache_get sha ev now later s t args c)) = cl_policies c" for ev now later s t args c
    by (auto simp: cache_get_def get_from_memory_def get_from_disk_def remember_def Let_def split: prod.splits option.splits)
  have red: "nullish (Option.bind (getTool server tool (con_registry w)) redact) [] = []"
  proof (rule ccontr)
    assume "nullish (Option.bind (getTool server tool (con_registry w)) redact) [] \<noteq> []"
    then show False using assms by (simp add: call_route_of_def Let_def)
  qed
  then show "nullish (Option.bind (getTool server tool (con_registry w)) redact) [] = []" .
  show would: "wouldCache (getTool server tool (con_registry w)) (con_cache w)"
    using assms red by (simp add: call_route_of_def Let_def split: if_splits)
  obtain hit c where c: "cache_get sha (get_evicts tm) (t_get tm) (t_get_later tm) server tool (Some params) (con_cache w) = (hit, c)"
    by force
  then have "w0 = w\<lparr>con_cache := c\<rparr>"
    using assms red would by (cases hit) (auto simp: call_route_of_def Let_def split: if_splits)
  then show "con_registry w0 = con_registry w" "cl_policies (con_cache w0) = cl_policies (con_cache w)"
    using pol [of "get_evicts tm" "t_get tm" "t_get_later tm" server tool "Some params" "con_cache w"] c by auto
qed

text \<open>What may happen between two calls: other calls and the background refreshes they leave behind, each
  taken as one step.\<close>

datatype conductor_event =
    CallEvent call_times string string json "nat \<Rightarrow> call_attempt"
  | RefreshEvent call_times string string json "nat \<Rightarrow> call_attempt"

fun conductor_step ::
    "(string \<Rightarrow> string) \<Rightarrow> (disk_entry \<Rightarrow> int) \<Rightarrow> (string \<Rightarrow> json option) \<Rightarrow> conductor \<Rightarrow> conductor_event \<Rightarrow> conductor" where
  "conductor_step sha enc parse w (CallEvent tm server tool params env) =
     snd (snd (handle_call sha enc parse tm server tool params env w))"
| "conductor_step sha enc parse w (RefreshEvent tm server tool params env) =
     background_refresh sha enc parse tm server tool params env w"

text \<open>A step leaves an entry of the memory tier alone: it makes the tier evict other keys only, it does not
  refresh this key, and a call with this key comes before the entry is stale.\<close>

fun leaves :: "(string \<Rightarrow> string) \<Rightarrow> string \<Rightarrow> time \<Rightarrow> conductor_event \<Rightarrow> bool" where
  "leaves sha key until (CallEvent tm server tool params env) \<longleftrightarrow>
     key \<notin> set (get_evicts tm) \<union> set (set_evicts tm)
     \<and> (cache_id sha server tool (Some params) = key \<longrightarrow> t_get tm \<le> until)"
| "leaves sha key until (RefreshEvent tm server tool params env) \<longleftrightarrow>
     key \<notin> set (set_evicts tm) \<and> cache_id sha server tool (Some params) \<noteq> key"

definition holds_entry :: "string \<Rightarrow> json \<Rightarrow> time \<Rightarrow> int \<Rightarrow> cache_layer \<Rightarrow> bool" where
  "holds_entry key v t0 T c \<longleftrightarrow> cache_wf c
     \<and> mem_lookup (cl_lru c) key = Some \<lparr>le_value = v, le_storedAt = t0, le_ttlMs = T\<rparr>
     \<and> map_of (ttlMap c) key = Some T"

lemma holds_entry_disk [simp]:
  "holds_entry key v t0 T (c\<lparr>cl_disk := d\<rparr>) = holds_entry key v t0 T c"
  "holds_entry key v t0 T (c\<lparr>cl_diskMisses := n\<rparr>) = holds_entry key v t0 T c"
  "holds_entry key v t0 T (c\<lparr>revalidating := ks\<rparr>) = holds_entry key v t0 T c"
  by (simp_all add: holds_entry_def cache_wf_def)

lemma holds_entry_remember:
  "holds_entry key v t0 T c \<Longrightarrow> key' \<noteq> key \<Longrightarrow> key \<notin> set ev \<Longrightarrow> holds_entry key v t0 T (remember ev now key' v' k n c)"
  by (simp add: holds_entry_def remember_def cache_wf_def mem_lookup_set lru_wf map_of_js_set)

lemma holds_entry_get:
  assumes "holds_entry key v t0 T c" "0 < T" "now - t0 \<le> T" "cache_id sha s t args = key"
  shows "cache_get sha ev now later s t args c =
    (Some \<lparr>hit_value = v, hit_storedAt = t0, hit_source = FromMemory, hit_staleness = now - t0, needsRevalidation = None\<rparr>,
     c\<lparr>cl_lru := (cl_lru c)\<lparr>lru_hits := lru_hits (cl_lru c) + 1\<rparr>\<rparr>)"
  using assms lru_get_hit [of "cl_lru c" key "\<lparr>le_value = v, le_storedAt = t0, le_ttlMs = T\<rparr>" now]
  by (simp add: cache_get_def get_from_memory_def holds_entry_def fresh_entry_def is_stale_def nullish_def)
lemma get_from_memory_other:
  assumes "get_from_memory now key' c = (mem, c1)" "key' \<noteq> key" "js_wf (lru_entries (cl_lru c))"
  shows "\<exists>m. c1 = c\<lparr>cl_lru := m\<rparr> \<and> mem_lookup m key = mem_lookup (cl_lru c) key \<and> js_wf (lru_entries m)"
proof -
  obtain x m where m: "lru_get now key' (cl_lru c) = (x, m)" by force
  have "mem_lookup m key = mem_lookup (cl_lru c) key" "js_wf (lru_entries m)"
    using lru_get_entries [of now key' "cl_lru c" key] lru_wf(2) [OF assms(3), of now key'] m assms(2) by simp_all
  moreover have "c1 = c\<lparr>cl_lru := m\<rparr> \<or> c1 = c\<lparr>cl_lru := snd (lru_delete key' m)\<rparr>"
    using assms(1) m by (cases x) (auto simp: get_from_memory_def Let_def split: if_splits)
  ultimately show ?thesis using assms(2) by (auto simp: mem_lookup_def lru_delete_def)
qed

lemma holds_entry_disk_get:
  assumes "holds_entry key v t0 T c" "key' \<noteq> key" "key \<notin> set ev"
  shows "holds_entry key v t0 T (snd (get_from_disk ev now later key' h c))"
proof (cases "disk_get h (cl_disk c)")
  case (Pair found d)
  then show ?thesis using assms
    by (cases found) (simp_all add: get_from_disk_def Let_def holds_entry_remember)
qed

lemma holds_entry_after_get:
  assumes "holds_entry key v t0 T c" "0 < T" "key \<notin> set ev" "cache_id sha s t args = key \<Longrightarrow> now - t0 \<le> T"
  shows "holds_entry key v t0 T (snd (cache_get sha ev now later s t args c))"
proof (cases "cache_id sha s t args = key")
  case True
  then show ?thesis using holds_entry_get [OF assms(1,2) assms(4) [OF True] True] assms(1)
    by (simp add: holds_entry_def cache_wf_def mem_lookup_def)
next
  case False
  let ?key = "cache_id sha s t args"
  obtain mem c1 where g: "get_from_memory now ?key c = (mem, c1)" by force
  have "\<exists>m. c1 = c\<lparr>cl_lru := m\<rparr> \<and> mem_lookup m key = mem_lookup (cl_lru c) key \<and> js_wf (lru_entries m)"
    using get_from_memory_other [OF g False] assms(1) by (auto simp: holds_entry_def cache_wf_def)
  then have c1: "holds_entry key v t0 T c1" using assms(1) by (auto simp: holds_entry_def cache_wf_def)
  show ?thesis
  proof (cases mem)
    case None
    then show ?thesis using g holds_entry_disk_get [OF c1 False assms(3)] by (simp add: cache_get_def)
  qed (use g c1 in \<open>simp add: cache_get_def\<close>)
qed

lemma holds_entry_after_set:
  "holds_entry key v t0 T c \<Longrightarrow> key \<notin> set ev \<Longrightarrow> cache_id sha s t args \<noteq> key \<Longrightarrow>
   holds_entry key v t0 T (cache_set sha enc ev now d s t args v' ttl c)"
  by (simp add: cache_set_def Let_def holds_entry_remember)

text \<open>No step changes the registry or the policies of the cache.\<close>

lemma cache_policies_kept [simp]:
  "cl_policies (snd (cache_get sha ev now later s t args c)) = cl_policies c"
  "cl_policies (cache_set sha enc ev now d s t args v ttl c) = cl_policies c"
  "cl_policies (refresh_end sha enc ev now d s t args r c) = cl_policies c"
  by (auto simp: cache_get_def get_from_memory_def get_from_disk_def remember_def cache_set_def refresh_end_def Let_def
      split: prod.splits option.splits sum.splits)

lemma call_route_cases:
  assumes "call_route_of sha tm server tool params w = (route, w0)"
  shows "w0 = w \<or> w0 = w\<lparr>con_cache := snd (cache_get sha (get_evicts tm) (t_get tm) (t_get_later tm) server tool (Some params) (con_cache w))\<rparr>
    \<or> w0 = w\<lparr>con_cache := snd (refresh_begin (cache_id sha server tool (Some params))
          (snd (cache_get sha (get_evicts tm) (t_get tm) (t_get_later tm) server tool (Some params) (con_cache w))))\<rparr>"
  using assms by (auto simp: call_route_of_def Let_def split: if_splits prod.splits option.splits)

lemma call_keeps_setting:
  assumes "w' = snd (snd (handle_call sha enc parse tm server tool params env w))"
  shows "con_registry w' = con_registry w \<and> cl_policies (con_cache w') = cl_policies (con_cache w)"
proof -
  obtain route w0 where r: "call_route_of sha tm server tool params w = (route, w0)" by force
  have "con_registry w0 = con_registry w \<and> cl_policies (con_cache w0) = cl_policies (con_cache w)"
    using call_route_cases [OF r] by (auto simp: refresh_begin_def)
  then show ?thesis using assms r
    by (auto simp: handle_call_def call_through_gateway_def Let_def split: call_route.splits prod.splits sum.splits)
qed

lemma step_keeps_setting:
  "con_registry (conductor_step sha enc parse w e) = con_registry w
   \<and> cl_policies (con_cache (conductor_step sha enc parse w e)) = cl_policies (con_cache w)"
  by (cases e) (auto simp: call_keeps_setting [OF refl] background_refresh_def Let_def split: prod.splits)

lemma same_key_is_answered:
  assumes "holds_entry key v t0 T (con_cache w)" "0 < T" "t_get tm - t0 \<le> T"
    and "cache_id sha server tool (Some params) = key" "call_route_of sha tm server tool params w = (route, w0)"
  shows "route \<noteq> Calling True"
  using assms(5) by (auto simp: call_route_of_def Let_def holds_entry_get [OF assms(1-4)] nullish_def split: if_splits)

lemma holds_entry_step:
  assumes "holds_entry key v t0 T (con_cache w)" "0 < T" "leaves sha key (t0 + T) e"
  shows "holds_entry key v t0 T (con_cache (conductor_step sha enc parse w e))"
proof (cases e)
  case (RefreshEvent tm server tool params env)
  then show ?thesis using assms
    by (auto simp: background_refresh_def refresh_end_def Let_def holds_entry_after_set split: prod.splits sum.splits)
next
  case (CallEvent tm server tool params env)
  obtain route w0 where r: "call_route_of sha tm server tool params w = (route, w0)" by force
  let ?id = "cache_id sha server tool (Some params)"
  have e: "key \<notin> set (get_evicts tm)" "key \<notin> set (set_evicts tm)" "?id = key \<Longrightarrow> t_get tm - t0 \<le> T"
    using assms(3) CallEvent by auto
  have w0: "holds_entry key v t0 T (con_cache w0)"
    using call_route_cases [OF r] holds_entry_after_get [OF assms(1,2) e(1,3)] assms(1) by (auto simp: refresh_begin_def)
  have "holds_entry key v t0 T (con_cache (snd (snd (call_through_gateway sha enc parse tm server tool params env keep w0))))"
    if "route = Calling keep" for keep
  proof -
    have "keep \<Longrightarrow> ?id \<noteq> key" using same_key_is_answered [OF assms(1,2) e(3) _ r] that by auto
    then show ?thesis using w0 e(2)
      by (auto simp: call_through_gateway_def Let_def holds_entry_after_set split: prod.splits sum.splits)
  qed
  moreover have "con_cache (snd (snd (handle_call sha enc parse tm server tool params env w))) =
      (case route of Calling keep \<Rightarrow> con_cache (snd (snd (call_through_gateway sha enc parse tm server tool params env keep w0)))
       | _ \<Rightarrow> con_cache w0)"
    using r by (cases route) (auto simp: handle_call_def Let_def split: prod.splits sum.splits)
  ultimately show ?thesis using w0 CallEvent by (cases route) simp_all
qed

lemma holds_entry_run:
  assumes "0 < T"
  shows "holds_entry key v t0 T (con_cache w) \<Longrightarrow> list_all (leaves sha key (t0 + T)) es \<Longrightarrow>
    holds_entry key v t0 T (con_cache (foldl (conductor_step sha enc parse) w es))
    \<and> con_registry (foldl (conductor_step sha enc parse) w es) = con_registry w
    \<and> cl_policies (con_cache (foldl (conductor_step sha enc parse) w es)) = cl_policies (con_cache w)"
  by (induction es arbitrary: w) (auto simp: holds_entry_step [OF _ assms] step_keeps_setting)

text \<open>C23: A later call is served from the cache. When a call of a cacheable tool went to the backend and
  returned a value, a later call with the same arguments returns this value without calling the
  backend, for as long as the time to live lasts, whatever other calls, of this tool or of others,
  and background refreshes of other calls happen in between, as long as the memory tier has not
  evicted the entry. It does so whatever the value is: also when it is the text by which a tool
  reports that it failed.\<close>

theorem second_call_is_served:
  assumes "call_route_of sha tm server tool params w = (Calling True, w0)"
    and "handle_call sha enc parse tm server tool params env w = (Some (Inr v), calls, w1)"
    and "effective_ttl (con_cache w0) (getTool server tool (con_registry w)) None = T"
    and "cache_wf (con_cache w0)" "cache_id sha server tool (Some params) \<notin> set (set_evicts tm)"
    and "list_all (leaves sha (cache_id sha server tool (Some params)) (t_set tm + T)) es"
    and "t_get tm2 - t_set tm \<le> T"
  shows "\<exists>w2. handle_call sha enc parse tm2 server tool params env2 (foldl (conductor_step sha enc parse) w1 es)
    = (Some (Inr v), 0, w2)"
proof -
  let ?d = "getTool server tool (con_registry w)" and ?key = "cache_id sha server tool (Some params)"
  let ?c = "cache_set sha enc (set_evicts tm) (t_set tm) ?d server tool (Some params) v None (con_cache w0)"
  note r = cached_route [OF assms(1)]
  have T: "0 < T" using r(3,4) assms(3) by (simp add: wouldCache_def isCacheable_def effective_ttl_def nullish_def)
  have w1: "con_registry w1 = con_registry w" "con_cache w1 = ?c"
    using assms(1,2) r(2) by (auto simp: handle_call_def call_through_gateway_def Let_def split: prod.splits sum.splits)
  have "holds_entry ?key v (t_set tm) T ?c"
    using assms(3,4,5) T
    by (simp add: cache_set_def Let_def remember_def holds_entry_def cache_wf_def mem_lookup_set lru_wf)
  then have w1h: "holds_entry ?key v (t_set tm) T (con_cache w1)" by (simp add: w1(2))
  let ?w = "foldl (conductor_step sha enc parse) w1 es"
  have run: "holds_entry ?key v (t_set tm) T (con_cache ?w)" "con_registry ?w = con_registry w"
    "cl_policies (con_cache ?w) = cl_policies (con_cache w)"
    using holds_entry_run [OF T w1h assms(6), of enc parse] w1 r(3) by simp_all
  then have "wouldCache ?d (con_cache ?w)" using r(4) by (simp add: wouldCache_def)
  then show ?thesis using run(2) r(1) holds_entry_get [OF run(1) T assms(7) refl]
    by (simp add: handle_call_def call_route_of_def nullish_def Let_def)
qed

definition demo_failure :: tool_result where
  "demo_failure =
     \<lparr>tr_content = Some [\<lparr>ci_type = ''text'', ci_text = Some ''permission denied'', ci_json = JNull\<rparr>],
      tr_structured = None, tr_json = JObj [(''isError'', JBool True)]\<rparr>"

lemma demo_call:
  "fst (handle_call (\<lambda>x. x) (\<lambda>_. 10) (\<lambda>_. None) demo_times ''s'' ''t'' JNull
      (\<lambda>_. demo_attempt (Inr demo_failure)) (demo_conductor None)) = Some (Inr (JStr ''permission denied''))"
  by code_simp

text \<open>Between the two calls of the example there is one more call with the same arguments.\<close>

theorem second_call_is_served_witness:
  "fst (handle_call (\<lambda>x. x) (\<lambda>_. 10) (\<lambda>_. None) (demo_times\<lparr>t_get := 1000\<rparr>) ''s'' ''t'' JNull
     (\<lambda>_. demo_attempt (Inl (PlainError ''not asked'' None)))
     (conductor_step (\<lambda>x. x) (\<lambda>_. 10) (\<lambda>_. None)
       (snd (snd (handle_call (\<lambda>x. x) (\<lambda>_. 10) (\<lambda>_. None) demo_times ''s'' ''t'' JNull
          (\<lambda>_. demo_attempt (Inr demo_failure)) (demo_conductor None))))
       (CallEvent (demo_times\<lparr>t_get := 500\<rparr>) ''s'' ''t'' JNull (\<lambda>_. demo_attempt (Inr demo_failure)))))
   = Some (Inr (JStr ''permission denied''))"
proof -
  let ?e = "CallEvent (demo_times\<lparr>t_get := 500\<rparr>) ''s'' ''t'' JNull (\<lambda>_. demo_attempt (Inr demo_failure))"
  obtain calls w1 where h: "handle_call (\<lambda>x. x) (\<lambda>_. 10) (\<lambda>_. None) demo_times ''s'' ''t'' JNull
      (\<lambda>_. demo_attempt (Inr demo_failure)) (demo_conductor None) = (Some (Inr (JStr ''permission denied'')), calls, w1)"
    using demo_call by (metis prod.collapse)
  have d: "getTool ''s'' ''t'' (con_registry (demo_conductor None)) = Some (demo_tool None)"
    by (simp add: demo_conductor_def getTool_def new_registry_def)
  note c = cache_get_def get_from_memory_def get_from_disk_def new_cache_def new_lru_def new_disk_def lru_get_def disk_get_def
  obtain w2 where "handle_call (\<lambda>x. x) (\<lambda>_. 10) (\<lambda>_. None) (demo_times\<lparr>t_get := 1000\<rparr>) ''s'' ''t'' JNull
      (\<lambda>_. demo_attempt (Inl (PlainError ''not asked'' None))) (foldl (conductor_step (\<lambda>x. x) (\<lambda>_. 10) (\<lambda>_. None)) w1 [?e])
      = (Some (Inr (JStr ''permission denied'')), 0, w2)"
    using second_call_is_served [OF demo_route h, of 1000 "[?e]" "demo_times\<lparr>t_get := 1000\<rparr>"
        "\<lambda>_. demo_attempt (Inl (PlainError ''not asked'' None))"]
    by (auto simp: d c effective_ttl_def nullish_def resolveTtl_def demo_tool_def cache_wf_def demo_times_def)
  then show ?thesis using h by (simp del: conductor_step.simps)
qed

end
