(* ===== verification/HttpBridge.thy ===== *)
theory HttpBridge
  imports Sessions Streaming CallTool
begin

text \<open>
  The HTTP bridge between the sandbox and the server: \<open>src/src/bridge/http-server.ts\<close>. A request is what
  Node and \<open>new URL\<close> make of it: the headers \<open>Host\<close> and \<open>Origin\<close>, the host name in the latter, method,
  path and query (no path when \<open>new URL\<close> throws), the values of the session header, and the body or
  the failure to read it. The fields of a body have the types its interface declares; a field of
  another type counts as absent. Stack traces and content types are left out. The handlers are those
  given to \<open>setHandlers\<close>.
\<close>

record http_request =
  rq_host :: "string option"
  rq_origin :: "string option"
  rq_origin_hostname :: "string option"
  rq_method :: string
  rq_path :: "string option"
  rq_q :: "string option"
  rq_session :: "string list"
  rq_body :: "thrown + string"

record http_response =
  rs_status :: nat
  rs_session :: "string option"
  rs_allow_origin :: "string option"
  rs_body :: "json option"

datatype http_outcome = Responds http_response | Connects string

record server_row =
  row_name :: string
  row_toolCount :: nat
  row_status :: string

record bridge_handlers =
  h_callTool :: "string \<Rightarrow> string \<Rightarrow> json \<Rightarrow> thrown + json"
  h_listServers :: "server_row list"
  h_listTools :: "string \<Rightarrow> (string \<times> string) list"
  h_searchTools :: "string \<Rightarrow> (string \<times> string \<times> string) list"

record http_bridge =
  br_running :: bool
  br_configPort :: nat
  br_actualPort :: nat
  br_startTime :: time
  br_handlers :: "bridge_handlers option"
  br_sessions :: session_registry
  br_streams :: stream_manager

subsection \<open>Headers\<close>

definition isLoopbackHostname :: "string option \<Rightarrow> bool" where
  "isLoopbackHostname hostname =
     (case hostname of
        None \<Rightarrow> False
      | Some n \<Rightarrow> n \<noteq> [] \<and> (js_lower n = ''localhost'' \<or> js_lower n = ''127.0.0.1'' \<or> js_lower n = ''::1''))"

definition extractHostHeaderName :: "string option \<Rightarrow> string option" where
  "extractHostHeaderName header =
     (case header of
        None \<Rightarrow> None
      | Some h \<Rightarrow>
          (if h = [] then None
           else if prefix ''['' h
           then (case js_index_of h '']'' of
                   Some close \<Rightarrow> (if close > 0 then Some (drop 1 (take close h)) else None)
                 | None \<Rightarrow> None)
           else Some (takeWhile (\<lambda>c. c \<noteq> CHR '':'') h)))"

definition extractOriginHostname :: "http_request \<Rightarrow> string option" where
  "extractOriginHostname rq =
     (case rq_origin_hostname rq of
        None \<Rightarrow> None
      | Some raw \<Rightarrow> Some (if prefix ''['' raw \<and> suffix '']'' raw then drop 1 (take (length raw - 1) raw) else raw))"

definition isSandboxInternalPath :: "string \<Rightarrow> bool" where
  "isSandboxInternalPath path \<longleftrightarrow>
     path = ''/call'' \<or> path = ''/log'' \<or> path = ''/progress'' \<or> path = ''/tool-event'' \<or> path = ''/search''
     \<or> path = ''/servers'' \<or> path = ''/streams'' \<or> path = ''/health'' \<or> prefix ''/servers/'' path
     \<or> prefix ''/stream/'' path"

definition js_trim :: "string \<Rightarrow> string" where
  "js_trim s = rev (dropWhile is_space (rev (dropWhile is_space s)))"

definition readSessionHeader :: "string list \<Rightarrow> string option" where
  "readSessionHeader value =
     (case value of
        [] \<Rightarrow> None
      | raw # _ \<Rightarrow>
          (let trimmed = js_trim raw in
           if raw = [] \<or> trimmed = [] \<or> length trimmed > 128 then None
           else if \<not> list_all (char_in (CHR 0x21) (CHR 0x7E)) trimmed then None
           else Some trimmed))"

subsection \<open>Responses\<close>

definition plain_response :: "nat \<Rightarrow> json option \<Rightarrow> http_response" where
  "plain_response status body =
     \<lparr>rs_status = status, rs_session = None, rs_allow_origin = None, rs_body = body\<rparr>"

definition sendJson :: "nat \<Rightarrow> json \<Rightarrow> http_response" where
  "sendJson status data = plain_response status (Some data)"

definition sendError :: "nat \<Rightarrow> string \<Rightarrow> http_response" where
  "sendError status message = sendJson status (JObj [(''error'', JStr message)])"

text \<open>\<open>String(error)\<close>.\<close>

fun err_string :: "thrown \<Rightarrow> string" where
  "err_string (MCPToolError c s t u) = ''MCPToolError: '' @ err_message (MCPToolError c s t u)"
| "err_string (TimeoutError s t n a) = ''TimeoutError: '' @ err_message (TimeoutError s t n a)"
| "err_string (RetryExhaustedError s t n u) = ''RetryExhaustedError: '' @ err_message (RetryExhaustedError s t n u)"
| "err_string (CircuitOpenError s t n) = ''CircuitOpenError: '' @ err_message (CircuitOpenError s t n)"
| "err_string (PlainError m c) = (if m = [] then ''Error'' else ''Error: '' @ m)"
| "err_string e = err_message e"

subsection \<open>Fields of a body\<close>

definition js_field :: "string \<Rightarrow> json \<Rightarrow> json option" where
  "js_field k v = (case v of JObj kvs \<Rightarrow> map_of kvs k | _ \<Rightarrow> None)"

definition text_field :: "string \<Rightarrow> json \<Rightarrow> string option" where
  "text_field k v = (case js_field k v of Some (JStr s) \<Rightarrow> Some s | _ \<Rightarrow> None)"

definition num_field :: "string \<Rightarrow> json \<Rightarrow> int option" where
  "num_field k v = (case js_field k v of Some (JNum n) \<Rightarrow> Some n | _ \<Rightarrow> None)"

definition null_error :: "string \<Rightarrow> thrown" where
  "null_error k = PlainError (''Cannot read properties of null (reading '' @ [CHR 0x27] @ k @ [CHR 0x27] @ '')'') None"

text \<open>\<open>readBody\<close>, \<open>JSON.parse\<close> (\<open>Inl\<close> is what it throws) and the first field that is read.\<close>

definition read_request :: "(string \<Rightarrow> thrown + json) \<Rightarrow> string \<Rightarrow> http_request \<Rightarrow> thrown + json" where
  "read_request parse k rq =
     (case rq_body rq of
        Inl e \<Rightarrow> Inl e
      | Inr body \<Rightarrow>
          (case parse body of
             Inl e \<Rightarrow> Inl e
           | Inr v \<Rightarrow> (if v = JNull then Inl (null_error k) else Inr v)))"

subsection \<open>Endpoints\<close>

definition not_ready :: http_response where
  "not_ready = sendError 503 ''Bridge not ready''"

definition handleHealth :: "time \<Rightarrow> http_bridge \<Rightarrow> http_response" where
  "handleHealth now b =
     (let uptime = now - br_startTime b;
          servers = (case br_handlers b of None \<Rightarrow> [] | Some hs \<Rightarrow> h_listServers hs)
      in sendJson 200 (JObj
           [(''status'', JStr ''ok''), (''uptime'', JNum uptime),
            (''uptimeFormatted'', JStr (show_int (uptime div 1000) @ ''s'')),
            (''serversConnected'', JNum (int (length (filter (\<lambda>s. row_status s = ''connected'') servers))))]))"

definition handleListServers :: "http_bridge \<Rightarrow> http_response" where
  "handleListServers b =
     (case br_handlers b of
        None \<Rightarrow> not_ready
      | Some hs \<Rightarrow> sendJson 200 (JObj [(''servers'', JArr (map (\<lambda>s. JObj
            [(''name'', JStr (row_name s)), (''toolCount'', JNum (int (row_toolCount s))),
             (''status'', JStr (row_status s))]) (h_listServers hs)))]))"

definition handleListTools :: "string \<Rightarrow> http_bridge \<Rightarrow> http_response" where
  "handleListTools serverName b =
     (case br_handlers b of
        None \<Rightarrow> not_ready
      | Some hs \<Rightarrow> sendJson 200 (JObj [(''tools'', JArr (map (\<lambda>(n, d). JObj
            [(''name'', JStr n), (''description'', JStr d)]) (h_listTools hs serverName)))]))"

definition handleSearch :: "string \<Rightarrow> http_bridge \<Rightarrow> http_response" where
  "handleSearch query b =
     (case br_handlers b of
        None \<Rightarrow> not_ready
      | Some hs \<Rightarrow> sendJson 200 (JObj [(''results'', JArr (map (\<lambda>(s, t, d). JObj
            [(''server'', JStr s), (''tool'', JStr t), (''description'', JStr d)]) (h_searchTools hs query)))]))"

definition isTokenizedCallResult :: "json \<Rightarrow> bool" where
  "isTokenizedCallResult v \<longleftrightarrow>
     (case v of
        JObj kvs \<Rightarrow> map_of kvs ''__x4_result'' \<noteq> None \<and> map_of kvs ''__x4_reverseMap'' \<noteq> None
      | _ \<Rightarrow> False)"

text \<open>\<open>reverseMap && Object.keys(reverseMap).length > 0\<close>.\<close>

definition has_keys :: "json \<Rightarrow> bool" where
  "has_keys v = (case v of JObj kvs \<Rightarrow> kvs \<noteq> [] | JArr xs \<Rightarrow> xs \<noteq> [] | JStr s \<Rightarrow> s \<noteq> [] | _ \<Rightarrow> False)"

definition call_metrics :: "int \<Rightarrow> int \<Rightarrow> json" where
  "call_metrics durationMs dataSize = JObj [(''durationMs'', JNum durationMs), (''dataSize'', JNum dataSize)]"

definition call_success :: "int \<Rightarrow> json \<Rightarrow> http_response" where
  "call_success took raw =
     (let result = (if isTokenizedCallResult raw then the (js_field ''__x4_result'' raw) else raw);
          rm = (if isTokenizedCallResult raw then js_field ''__x4_reverseMap'' raw else None)
      in sendJson 200 (JObj
           ([(''result'', result), (''metrics'', call_metrics took (int (length (json_stringify result))))]
            @ (case rm of None \<Rightarrow> [] | Some m \<Rightarrow> (if has_keys m then [(''reverseMap'', m)] else [])))))"

text \<open>The upstream error as the sandbox gets it.\<close>

definition error_name :: "thrown \<Rightarrow> string" where
  "error_name e =
     (case e of
        MCPToolError _ _ _ _ \<Rightarrow> ''MCPToolError'' | TimeoutError _ _ _ _ \<Rightarrow> ''TimeoutError''
      | RetryExhaustedError _ _ _ _ \<Rightarrow> ''RetryExhaustedError'' | CircuitOpenError _ _ _ \<Rightarrow> ''CircuitOpenError''
      | _ \<Rightarrow> ''Error'')"

definition upstream_json :: "thrown \<Rightarrow> json" where
  "upstream_json e =
     (if is_error_instance e
      then JObj [(''__error__'', JBool True), (''name'', JStr (error_name e)), (''message'', JStr (err_message e))]
      else (case e of
              ObjectValue (Some (CodeString c)) \<Rightarrow> JObj [(''code'', JStr c)]
            | ObjectValue (Some (CodeNumber n)) \<Rightarrow> JObj [(''code'', JNum n)]
            | ObjectValue None \<Rightarrow> JObj []
            | _ \<Rightarrow> JStr (err_message e)))"

definition call_failure :: "int \<Rightarrow> thrown \<Rightarrow> http_response" where
  "call_failure took e =
     sendJson 500 (JObj
       [(''error'', JObj
           ([(''type'', JStr (case e of MCPToolError _ _ _ _ \<Rightarrow> ''mcp_tool_error'' | _ \<Rightarrow> ''tool_error'')),
             (''message'', JStr (err_string e))]
            @ (case e of
                 MCPToolError c s t u \<Rightarrow>
                   [(''code'', JStr c), (''server'', JStr s), (''tool'', JStr t), (''upstream'', upstream_json u)]
               | _ \<Rightarrow> []))),
        (''metrics'', call_metrics took 0)])"

text \<open>\<open>POST /call\<close>; \<open>Inl\<close> is an error that \<open>bridge_handleRequest\<close> catches. \<open>took\<close> is the time the call takes.\<close>

definition handleToolCall ::
    "(string \<Rightarrow> thrown + json) \<Rightarrow> int \<Rightarrow> http_request \<Rightarrow> http_bridge \<Rightarrow> thrown + http_response" where
  "handleToolCall parse took rq b =
     (case br_handlers b of
        None \<Rightarrow> Inr not_ready
      | Some hs \<Rightarrow>
          (case read_request parse ''server'' rq of
             Inl e \<Rightarrow>
               (if rq_body rq = Inl e \<and> is_error_instance e \<and> js_includes (err_message e) ''maximum size''
                then Inr (sendError 413 ''Request body too large'') else Inl e)
           | Inr v \<Rightarrow>
               (if nullish (text_field ''server'' v) [] = [] \<or> nullish (text_field ''tool'' v) [] = []
                then Inr (sendError 400 ''Missing server or tool parameter'')
                else (let params = (case js_field ''params'' v of None \<Rightarrow> JObj [] | Some p \<Rightarrow> if js_truthy p then p else JObj [])
                      in case h_callTool hs (the (text_field ''server'' v)) (the (text_field ''tool'' v)) params of
                           Inr raw \<Rightarrow> Inr (call_success took raw)
                         | Inl e \<Rightarrow> Inr (call_failure took e)))))"

text \<open>An operation on the stream of an execution, if there is one.\<close>

definition on_stream :: "string \<Rightarrow> (execution_stream \<Rightarrow> execution_stream) \<Rightarrow> http_bridge \<Rightarrow> http_bridge" where
  "on_stream i f b =
     (case map_of (streams (br_streams b)) i of
        None \<Rightarrow> b
      | Some s \<Rightarrow> b\<lparr>br_streams := (br_streams b)\<lparr>streams := AList.update i (f s) (streams (br_streams b))\<rparr>\<rparr>)"

definition success_body :: http_response where
  "success_body = sendJson 200 (JObj [(''success'', JBool True)])"

definition handleProgress ::
    "(string \<Rightarrow> thrown + json) \<Rightarrow> time \<Rightarrow> http_request \<Rightarrow> http_bridge \<Rightarrow> (thrown + http_response) \<times> http_bridge" where
  "handleProgress parse now rq b =
     (case read_request parse ''executionId'' rq of
        Inl e \<Rightarrow> (Inl e, b)
      | Inr v \<Rightarrow>
          (let i = nullish (text_field ''executionId'' v) [] in
           if i = [] \<or> num_field ''percent'' v = None
           then (Inr (sendError 400 ''Missing executionId or percent''), b)
           else (Inr success_body,
                 on_stream i (stream_progress now (the (num_field ''percent'' v)) (text_field ''message'' v)) b)))"

definition handleLog ::
    "(string \<Rightarrow> thrown + json) \<Rightarrow> time \<Rightarrow> http_request \<Rightarrow> http_bridge \<Rightarrow> (thrown + http_response) \<times> http_bridge" where
  "handleLog parse now rq b =
     (case read_request parse ''executionId'' rq of
        Inl e \<Rightarrow> (Inl e, b)
      | Inr v \<Rightarrow>
          (let i = nullish (text_field ''executionId'' v) []; msg = nullish (text_field ''message'' v) [];
               level = nullish (text_field ''level'' v) [] in
           if i = [] \<or> msg = [] then (Inr (sendError 400 ''Missing executionId or message''), b)
           else (Inr success_body, on_stream i (stream_log now msg (Some (if level = [] then ''info'' else level))) b)))"

definition tool_status_of :: "string \<Rightarrow> tool_call_status option" where
  "tool_status_of s =
     (if s = ''started'' then Some CallStarted else if s = ''completed'' then Some CallCompleted
      else if s = ''error'' then Some CallError else None)"

definition handleToolEvent ::
    "(string \<Rightarrow> thrown + json) \<Rightarrow> time \<Rightarrow> http_request \<Rightarrow> http_bridge \<Rightarrow> (thrown + http_response) \<times> http_bridge" where
  "handleToolEvent parse now rq b =
     (case read_request parse ''executionId'' rq of
        Inl e \<Rightarrow> (Inl e, b)
      | Inr v \<Rightarrow>
          (let i = nullish (text_field ''executionId'' v) []; s = nullish (text_field ''server'' v) [];
               t = nullish (text_field ''tool'' v) [];
               st = Option.bind (text_field ''status'' v) tool_status_of in
           if i = [] \<or> s = [] \<or> t = [] \<or> st = None then (Inr (sendError 400 ''Missing required fields''), b)
           else (Inr success_body,
                 on_stream i (stream_toolCall now s t (the st) (num_field ''durationMs'' v) (text_field ''error'' v)) b)))"

fun status_name :: "execution_status \<Rightarrow> string" where
  "status_name ExRunning = ''running''"
| "status_name ExCompleted = ''completed''"
| "status_name ExError = ''error''"
| "status_name ExTimeout = ''timeout''"

text \<open>\<open>isoText\<close> is \<open>Date.prototype.toISOString\<close>.\<close>

definition handleListStreams :: "(time \<Rightarrow> string) \<Rightarrow> http_bridge \<Rightarrow> http_response" where
  "handleListStreams isoText b =
     (let ss = listStreams (br_streams b) in
      sendJson 200 (JObj
        [(''streams'', JArr (map (\<lambda>(i, s). JObj
            [(''id'', JStr i), (''status'', JStr (status_name (ex_status s))), (''progress'', JNum (ex_progress s)),
             (''startedAt'', JStr (isoText (ex_startedAt s))), (''toolCalls'', JNum (int (ex_toolCalls s)))]) ss)),
         (''total'', JNum (int (length ss)))]))"

subsection \<open>A request\<close>

text \<open>The routes, for a request that passed the guards. \<open>sid\<close> is its session.\<close>

definition route_request ::
    "(string \<Rightarrow> thrown + json) \<Rightarrow> (time \<Rightarrow> string) \<Rightarrow> time \<Rightarrow> int \<Rightarrow> string option \<Rightarrow> string \<Rightarrow> http_request \<Rightarrow> http_bridge
     \<Rightarrow> (thrown + http_outcome) \<times> http_bridge" where
  "route_request parse isoText now took sid path rq b =
     (let get = (rq_method rq = ''GET''); post = (rq_method rq = ''POST'');
          ok = (\<lambda>r. (Inr (Responds r), b));
          posted = (\<lambda>(r, b'). (map_sum id Responds r, b')) in
      if get \<and> path = ''/health'' then ok (handleHealth now b)
      else if get \<and> path = ''/servers'' then ok (handleListServers b)
      else if get \<and> prefix ''/servers/'' path \<and> suffix ''/tools'' path
      then ok (handleListTools (drop 9 (take (length path - 6) path)) b)
      else if post \<and> path = ''/call'' then posted (handleToolCall parse took rq b, b)
      else if get \<and> path = ''/search'' then ok (handleSearch (nullish (rq_q rq) []) b)
      else if get \<and> prefix ''/stream/'' path
      then (let i = drop 8 path in
            case map_of (streams (br_streams b)) i of
              None \<Rightarrow> ok (sendError 404 (''Stream not found: '' @ i))
            | Some s \<Rightarrow> (Inr (Connects i), b))
      else if post \<and> path = ''/progress'' then posted (handleProgress parse now rq b)
      else if post \<and> path = ''/log'' then posted (handleLog parse now rq b)
      else if post \<and> path = ''/tool-event'' then posted (handleToolEvent parse now rq b)
      else if get \<and> path = ''/streams'' then ok (handleListStreams isoText b)
      else if rq_method rq = ''DELETE'' \<and> path = ''/session''
      then (Inr (Responds (plain_response 204 None)),
            b\<lparr>br_sessions := snd (session_terminate (nullish sid []) (br_sessions b))\<rparr>)
      else ok (sendError 404 ''Not found''))"

text \<open>The headers that every response past the guards carries.\<close>

definition with_headers :: "string option \<Rightarrow> http_bridge \<Rightarrow> http_response \<Rightarrow> http_response" where
  "with_headers sid b r =
     r\<lparr>rs_session := sid,
       rs_allow_origin := Some (''http://127.0.0.1:''
         @ show_nat (if br_actualPort b = 0 then br_configPort b else br_actualPort b))\<rparr>"

definition outcome_headers :: "string option \<Rightarrow> http_bridge \<Rightarrow> thrown + http_outcome \<Rightarrow> http_outcome" where
  "outcome_headers sid b r =
     (case r of
        Inl e \<Rightarrow> Responds (with_headers sid b (sendError 500 (err_string e)))
      | Inr (Responds x) \<Rightarrow> Responds (with_headers sid b x)
      | Inr (Connects i) \<Rightarrow> Connects i)"

datatype session_verdict = NoSession | UnknownSession | InSession string

text \<open>The session middleware; \<open>uuid\<close> is the id a new session gets.\<close>

definition session_of_request ::
    "time \<Rightarrow> string \<Rightarrow> string \<Rightarrow> http_request \<Rightarrow> http_bridge \<Rightarrow> session_verdict \<times> http_bridge" where
  "session_of_request now uuid path rq b =
     (if isSandboxInternalPath path then (NoSession, b)
      else (case readSessionHeader (rq_session rq) of
              Some i \<Rightarrow>
                (case session_touch now i (br_sessions b) of
                   (None, ss) \<Rightarrow> (UnknownSession, b\<lparr>br_sessions := ss\<rparr>)
                 | (Some r, ss) \<Rightarrow> (InSession i, b\<lparr>br_sessions := ss\<rparr>))
            | None \<Rightarrow> (InSession uuid, b\<lparr>br_sessions := session_create now uuid (br_sessions b)\<rparr>)))"

definition host_allowed :: "http_request \<Rightarrow> bool" where
  "host_allowed rq \<longleftrightarrow> isLoopbackHostname (extractHostHeaderName (rq_host rq))"

definition origin_allowed :: "http_request \<Rightarrow> bool" where
  "origin_allowed rq \<longleftrightarrow>
     nullish (rq_origin rq) [] = [] \<or> isLoopbackHostname (extractOriginHostname rq)"

definition bridge_handleRequest ::
    "(string \<Rightarrow> thrown + json) \<Rightarrow> (time \<Rightarrow> string) \<Rightarrow> time \<Rightarrow> int \<Rightarrow> string \<Rightarrow> http_request \<Rightarrow> http_bridge
     \<Rightarrow> http_outcome \<times> http_bridge" where
  "bridge_handleRequest parse isoText now took uuid rq b =
     (if \<not> host_allowed rq then (Responds (sendError 403 ''Host header not allowed''), b)
      else if \<not> origin_allowed rq then (Responds (sendError 403 ''Origin not allowed''), b)
      else (case rq_path rq of
              None \<Rightarrow> (Responds (sendError 500 ''Internal server error''), b)
            | Some path \<Rightarrow>
                (if rq_method rq = ''OPTIONS'' then (Responds (with_headers None b (plain_response 204 None)), b)
                 else (case session_of_request now uuid path rq b of
                         (UnknownSession, b1) \<Rightarrow>
                           (Responds (with_headers None b1 (sendError 404 ''Session not found or expired'')), b1)
                       | (v, b1) \<Rightarrow>
                           (let sid = (case v of InSession i \<Rightarrow> Some i | _ \<Rightarrow> None);
                                (r, b2) = route_request parse isoText now took sid path rq b1
                            in (outcome_headers sid b1 r, b2))))))"

text \<open>A connected stream gets the response as a listener.\<close>

definition stream_connect :: "time \<Rightarrow> nat \<Rightarrow> string \<Rightarrow> http_bridge \<Rightarrow> http_bridge" where
  "stream_connect now r i b = on_stream i (addConnection now r) b"

subsection \<open>Life cycle\<close>

definition bridge_start :: "time \<Rightarrow> nat option \<Rightarrow> http_bridge \<Rightarrow> (thrown + unit) \<times> http_bridge" where
  "bridge_start now boundPort b =
     (if br_running b then (Inl (PlainError ''Bridge server already running'' None), b)
      else (Inr (), b\<lparr>br_startTime := now, br_sessions := session_start (br_sessions b), br_running := True,
                      br_actualPort := nullish boundPort (br_configPort b)\<rparr>))"

definition bridge_stop :: "http_bridge \<Rightarrow> http_bridge" where
  "bridge_stop b =
     (if \<not> br_running b then b
      else b\<lparr>br_running := False, br_actualPort := 0, br_sessions := session_stop (br_sessions b)\<rparr>)"

definition getPort :: "http_bridge \<Rightarrow> nat" where
  "getPort b = (if br_actualPort b = 0 then br_configPort b else br_actualPort b)"

definition setHandlers :: "bridge_handlers \<Rightarrow> http_bridge \<Rightarrow> http_bridge" where
  "setHandlers hs b = b\<lparr>br_handlers := Some hs\<rparr>"

subsection \<open>Facts\<close>

lemma on_stream_sessions [simp]: "br_sessions (on_stream i f b) = br_sessions b"
  by (simp add: on_stream_def split: option.split)

lemma posted_sessions [simp]:
  "br_sessions (snd (handleProgress parse now rq b)) = br_sessions b"
  "br_sessions (snd (handleLog parse now rq b)) = br_sessions b"
  "br_sessions (snd (handleToolEvent parse now rq b)) = br_sessions b"
  by (simp_all add: handleProgress_def handleLog_def handleToolEvent_def Let_def split: sum.split)

text \<open>The routes leave the sessions alone, except the one that ends a session.\<close>

lemma route_sessions:
  "br_sessions (snd (route_request parse isoText now took sid path rq b)) =
     (if rq_method rq = ''DELETE'' \<and> path = ''/session''
      then snd (session_terminate (nullish sid []) (br_sessions b)) else br_sessions b)"
proof (cases "rq_method rq = ''DELETE'' \<and> path = ''/session''")
  case True
  then show ?thesis by (simp add: route_request_def Let_def)
next
  case False
  then show ?thesis by (auto simp: route_request_def Let_def case_prod_beta split: option.split)
qed

text \<open>A Host header that names the local host: bare or in brackets, with anything behind it.\<close>

definition names_local_host :: "string \<Rightarrow> bool" where
  "names_local_host h \<longleftrightarrow>
     (\<exists>n r. js_lower n \<in> {''localhost'', ''127.0.0.1'', ''::1''}
        \<and> (h = n \<or> h = n @ CHR '':'' # r \<or> h = CHR ''['' # n @ CHR '']'' # r))"

lemma index_of_char: "js_index_of h [c] = Some k \<Longrightarrow> k < length h \<and> h ! k = c"
  by (induction h arbitrary: k) (auto split: if_splits)

lemma host_allowed_local: "host_allowed rq \<Longrightarrow> \<exists>h. rq_host rq = Some h \<and> names_local_host h"
proof -
  assume a: "host_allowed rq"
  then obtain h where h: "rq_host rq = Some h" "h \<noteq> []"
    by (cases "rq_host rq") (auto simp: host_allowed_def extractHostHeaderName_def isLoopbackHostname_def split: if_splits)
  obtain n where n: "extractHostHeaderName (Some h) = Some n" "js_lower n \<in> {''localhost'', ''127.0.0.1'', ''::1''}"
    using a h(1) by (auto simp: host_allowed_def isLoopbackHostname_def split: option.splits)
  have "names_local_host h"
  proof (cases "prefix ''['' h")
    case True
    then obtain close where c: "js_index_of h '']'' = Some close" "close > 0" "n = drop 1 (take close h)"
      using n(1) h(2) by (auto simp: extractHostHeaderName_def split: option.splits if_splits)
    have e: "drop close h = CHR '']'' # drop (Suc close) h" "close < length h"
      using index_of_char [OF c(1)] by (auto simp: Cons_nth_drop_Suc [symmetric])
    obtain t where t: "h = CHR ''['' # t" using True by (auto simp: prefix_def)
    have "h = take close h @ drop close h" by simp
    also have "take close h = CHR ''['' # n" using c(2,3) t by (cases close) auto
    finally have "h = CHR ''['' # n @ CHR '']'' # drop (Suc close) h" using e(1) by simp
    then show ?thesis using n(2) by (auto simp: names_local_host_def)
  next
    case False
    then have t: "n = takeWhile (\<lambda>c. c \<noteq> CHR '':'') h"
      using n(1) h(2) by (simp add: extractHostHeaderName_def)
    have "h = n @ dropWhile (\<lambda>c. c \<noteq> CHR '':'') h" using t by simp
    moreover have "dropWhile (\<lambda>c. c \<noteq> CHR '':'') h = [] \<or> (\<exists>r. dropWhile (\<lambda>c. c \<noteq> CHR '':'') h = CHR '':'' # r)"
      using hd_dropWhile [of "\<lambda>c. c \<noteq> CHR '':''" h] by (cases "dropWhile (\<lambda>c. c \<noteq> CHR '':'') h") auto
    ultimately show ?thesis using n(2) unfolding names_local_host_def by (metis append_Nil2)
  qed
  then show ?thesis using h(1) by blast
qed

text \<open>C24: Only the local host gets an answer. If a request gets any response other than 403, or connects to a
  stream, or changes anything, its Host header names \<open>localhost\<close>, \<open>127.0.0.1\<close> or \<open>::1\<close> in any case, bare
  or in brackets, with or without a port, and its Origin header, if it has one, does so too: a page of
  another host cannot reach the bridge by letting its name resolve to this machine.\<close>

theorem only_local_hosts:
  assumes "bridge_handleRequest parse isoText now took uuid rq b = (out, b')"
    and "b' \<noteq> b \<or> (case out of Connects i \<Rightarrow> True | Responds r \<Rightarrow> rs_status r \<noteq> 403)"
  shows "\<exists>h. rq_host rq = Some h \<and> names_local_host h
    \<and> (rq_origin rq = None \<or> rq_origin rq = Some []
       \<or> (\<exists>n. extractOriginHostname rq = Some n \<and> js_lower n \<in> {''localhost'', ''127.0.0.1'', ''::1''}))"
proof -
  have ok: "host_allowed rq" "origin_allowed rq"
    using assms by (auto simp: bridge_handleRequest_def sendError_def sendJson_def plain_response_def split: if_splits)
  have "rq_origin rq = None \<or> rq_origin rq = Some []
      \<or> (\<exists>n. extractOriginHostname rq = Some n \<and> js_lower n \<in> {''localhost'', ''127.0.0.1'', ''::1''})"
    using ok(2) by (cases "rq_origin rq")
      (auto simp: origin_allowed_def isLoopbackHostname_def nullish_def split: option.splits)
  then show ?thesis using host_allowed_local [OF ok(1)] by blast
qed

definition demo_request :: http_request where
  "demo_request =
     \<lparr>rq_host = Some ''LOCALHOST:8'', rq_origin = None, rq_origin_hostname = None, rq_method = ''GET'',
      rq_path = Some ''/health'', rq_q = None, rq_session = [], rq_body = Inr []\<rparr>"

definition demo_bridge :: http_bridge where
  "demo_bridge =
     \<lparr>br_running = True, br_configPort = 8, br_actualPort = 0, br_startTime = 0, br_handlers = None,
      br_sessions = \<lparr>sessions = [], cleanupTimer = True, ttlMs = 5, maxSessions = 2\<rparr>, br_streams = new_manager\<rparr>"

lemma demo_answered:
  "case fst (bridge_handleRequest (\<lambda>s. Inr JNull) (\<lambda>t. []) 5 1 ''u'' demo_request demo_bridge) of
     Responds r \<Rightarrow> rs_status r = 200 | Connects i \<Rightarrow> False"
  by code_simp

theorem only_local_hosts_witness:
  "\<exists>h. rq_host demo_request = Some h \<and> names_local_host h"
proof -
  obtain out b' where h: "bridge_handleRequest (\<lambda>s. Inr JNull) (\<lambda>t. []) 5 1 ''u'' demo_request demo_bridge = (out, b')"
    by force
  then have "b' \<noteq> demo_bridge \<or> (case out of Connects i \<Rightarrow> True | Responds r \<Rightarrow> rs_status r \<noteq> 403)"
    using demo_answered by (auto split: http_outcome.splits)
  from only_local_hosts [OF h this] show ?thesis by blast
qed

text \<open>The sessions of the bridge. Requests to the sandbox's own paths never touch the sessions. Any other
  request (with method and path the bridge reads) without a usable session header gets a new session and
  its id; one with the id of a live session keeps it alive; one with an unknown or expired id is answered 404
  and reaches no route. Only \<open>DELETE /session\<close> ends a session, and then the caller's own.\<close>

theorem session_discipline:
  assumes "bridge_handleRequest parse isoText now took uuid rq b = (out, b')"
    and "host_allowed rq" "origin_allowed rq" "rq_path rq = Some path" "rq_method rq \<noteq> ''OPTIONS''"
  shows "if isSandboxInternalPath path then br_sessions b' = br_sessions b
     else (case readSessionHeader (rq_session rq) of
       None \<Rightarrow> (\<forall>r. out = Responds r \<longrightarrow> rs_session r = Some uuid)
         \<and> br_sessions b' = (if rq_method rq = ''DELETE'' \<and> path = ''/session''
              then snd (session_terminate uuid (session_create now uuid (br_sessions b)))
              else session_create now uuid (br_sessions b))
     | Some i \<Rightarrow>
         (case session_touch now i (br_sessions b) of
            (None, ss) \<Rightarrow> (\<exists>r. out = Responds r \<and> rs_status r = 404 \<and> rs_session r = None)
              \<and> b' = b\<lparr>br_sessions := ss\<rparr> \<and> \<not> js_has (sessions (br_sessions b')) i
          | (Some rec, ss) \<Rightarrow> (\<forall>r. out = Responds r \<longrightarrow> rs_session r = Some i)
              \<and> br_sessions b' = (if rq_method rq = ''DELETE'' \<and> path = ''/session''
                   then snd (session_terminate i ss) else ss)))"
proof -
  have hdr: "outcome_headers sid b1 r = Responds x \<Longrightarrow> rs_session x = sid" for sid b1 r x
    by (auto simp: outcome_headers_def with_headers_def split: sum.splits http_outcome.splits)
  have gone: "session_touch now i ss = (None, ss') \<Longrightarrow> \<not> js_has (sessions ss') i" for i ss ss'
    by (auto simp: session_touch_def js_has_def Let_def split: option.splits if_splits)
  have int: "\<not> (rq_method rq = ''DELETE'' \<and> path = ''/session'')" if "isSandboxInternalPath path"
    using that by (auto simp: isSandboxInternalPath_def)
  show ?thesis
  proof (cases "session_of_request now uuid path rq b")
    case (Pair v b1)
    note run = assms(1) [unfolded bridge_handleRequest_def] assms(2-5) Pair
    show ?thesis
    proof (cases "isSandboxInternalPath path")
      case True
      then have "v = NoSession" "b1 = b" using Pair by (simp_all add: session_of_request_def)
      then have "b' = snd (route_request parse isoText now took None path rq b)"
        using run by (simp add: case_prod_beta Let_def)
      then show ?thesis using True int [OF True] by (auto simp: route_sessions)
    next
      case False
      show ?thesis
      proof (cases "readSessionHeader (rq_session rq)")
        case None
        then have v: "v = InSession uuid" "b1 = b\<lparr>br_sessions := session_create now uuid (br_sessions b)\<rparr>"
          using Pair False by (simp_all add: session_of_request_def)
        then have "out = outcome_headers (Some uuid) b1 (fst (route_request parse isoText now took (Some uuid) path rq b1))"
          "b' = snd (route_request parse isoText now took (Some uuid) path rq b1)"
          using run by (simp_all add: case_prod_beta Let_def)
        then show ?thesis using False None hdr v(2) by (simp add: route_sessions nullish_def)
      next
        case (Some i)
        obtain rec ss where t: "session_touch now i (br_sessions b) = (rec, ss)" by force
        show ?thesis
        proof (cases rec)
          case None
          then have "v = UnknownSession" "b1 = b\<lparr>br_sessions := ss\<rparr>"
            using Pair False Some t by (simp_all add: session_of_request_def)
          then have "out = Responds (with_headers None b1 (sendError 404 ''Session not found or expired''))" "b' = b1"
            using run by auto
          then show ?thesis using False Some t None gone [of i "br_sessions b" ss] \<open>b1 = _\<close>
            by (simp add: with_headers_def sendError_def sendJson_def plain_response_def)
        next
          case r: (Some r)
          then have v: "v = InSession i" "b1 = b\<lparr>br_sessions := ss\<rparr>"
            using Pair False Some t by (simp_all add: session_of_request_def)
          then have "out = outcome_headers (Some i) b1 (fst (route_request parse isoText now took (Some i) path rq b1))"
            "b' = snd (route_request parse isoText now took (Some i) path rq b1)"
            using run by (simp_all add: case_prod_beta Let_def)
          then show ?thesis using False Some t r hdr v(2) by (simp add: route_sessions nullish_def)
        qed
      qed
    qed
  qed
qed

lemma demo_guards:
  "host_allowed (demo_request\<lparr>rq_path := Some ''/x''\<rparr>)" "origin_allowed (demo_request\<lparr>rq_path := Some ''/x''\<rparr>)"
  by code_simp+

theorem session_discipline_witness:
  "map_of (sessions (br_sessions (snd (bridge_handleRequest (\<lambda>s. Inr JNull) (\<lambda>t. []) 5 1 ''u''
      (demo_request\<lparr>rq_path := Some ''/x''\<rparr>) demo_bridge)))) ''u'' = Some \<lparr>createdTime = 5, lastSeenAt = 5\<rparr>"
proof -
  let ?rq = "demo_request\<lparr>rq_path := Some ''/x''\<rparr>"
  obtain out b' where h: "bridge_handleRequest (\<lambda>s. Inr JNull) (\<lambda>t. []) 5 1 ''u'' ?rq demo_bridge = (out, b')" by force
  have "br_sessions b' = session_create 5 ''u'' (br_sessions demo_bridge)"
    using session_discipline [OF h demo_guards, of "''/x''"]
    by (simp add: demo_request_def isSandboxInternalPath_def readSessionHeader_def)
  then show ?thesis using h by (simp add: session_create_def demo_bridge_def evictIfFull_def Let_def)
qed

subsection \<open>What the sandbox gets\<close>

lemma sentinel_detected: "isTokenizedCallResult (x4_sentinel v rm)"
  by (simp add: isTokenizedCallResult_def x4_sentinel_def)

text \<open>The sandbox gets what the call gave. A result without both sentinel keys arrives as it is, with the
  length of its JSON text and no reverse map; a tokenized result arrives without its sentinel, with its
  reverse map unless that is empty; and an \<open>MCPToolError\<close> arrives as status 500 with its code, server and
  tool in fields of their own and its upstream error as an error value.\<close>

theorem sandbox_gets_the_result:
  "(\<not> isTokenizedCallResult v \<longrightarrow>
      rs_body (call_success took v) =
        Some (JObj [(''result'', v), (''metrics'', call_metrics took (int (length (json_stringify v))))]))
   \<and> rs_body (call_success took (x4_sentinel v rm)) =
        Some (JObj ([(''result'', v), (''metrics'', call_metrics took (int (length (json_stringify v))))]
          @ (if rm = [] then [] else [(''reverseMap'', JObj (map (\<lambda>(t, m). (t, JStr m)) rm))])))
   \<and> rs_status (call_failure took e) = 500
   \<and> (let err = the (js_field ''error'' (the (rs_body (call_failure took e))))
      in case e of
           MCPToolError c s t u \<Rightarrow>
             text_field ''type'' err = Some ''mcp_tool_error'' \<and> text_field ''code'' err = Some c
             \<and> text_field ''server'' err = Some s \<and> text_field ''tool'' err = Some t
             \<and> js_field ''upstream'' err = Some (upstream_json u)
         | _ \<Rightarrow> text_field ''type'' err = Some ''tool_error'' \<and> js_field ''code'' err = None)"
proof -
  have plain: "\<not> isTokenizedCallResult v \<Longrightarrow>
      rs_body (call_success took v) =
        Some (JObj [(''result'', v), (''metrics'', call_metrics took (int (length (json_stringify v))))])"
    by (simp add: call_success_def sendJson_def plain_response_def)
  have tokens: "rs_body (call_success took (x4_sentinel v rm)) =
        Some (JObj ([(''result'', v), (''metrics'', call_metrics took (int (length (json_stringify v))))]
          @ (if rm = [] then [] else [(''reverseMap'', JObj (map (\<lambda>(t, m). (t, JStr m)) rm))])))"
    using sentinel_detected [of v rm]
    by (simp add: call_success_def sendJson_def plain_response_def x4_sentinel_def js_field_def has_keys_def)
  show ?thesis using plain tokens
    by (cases e) (simp_all add: call_failure_def sendJson_def plain_response_def text_field_def js_field_def)
qed

theorem sandbox_gets_the_result_witness:
  "rs_body (call_success 3 (JNum 7)) =
     Some (JObj [(''result'', JNum 7), (''metrics'', call_metrics 3 (int (length (json_stringify (JNum 7)))))])"
  using sandbox_gets_the_result [of "JNum 7" 3] by (simp add: isTokenizedCallResult_def)

text \<open>A backend whose own result has the two sentinel keys is taken for a tokenized one: what the sandbox
  gets as result and as reverse map is what the backend chose.\<close>

lemma forged_reverse_map:
  assumes "map_of kvs ''__x4_result'' = Some r" "map_of kvs ''__x4_reverseMap'' = Some m" "has_keys m"
  shows "rs_body (call_success took (JObj kvs)) =
     Some (JObj [(''result'', r), (''metrics'', call_metrics took (int (length (json_stringify r)))), (''reverseMap'', m)])"
  using assms
  by (simp add: call_success_def isTokenizedCallResult_def sendJson_def plain_response_def js_field_def)

text \<open>The name of a server in a path is not decoded: the tools of a server with a space in its name are
  looked up under another name.\<close>

lemma encoded_server_name:
  "fst (route_request parse isoText now took sid ''/servers/my%20server/tools'' (rq\<lparr>rq_method := ''GET''\<rparr>) b)
   = Inr (Responds (handleListTools ''my%20server'' b))"
  by (simp add: route_request_def Let_def suffix_def)

subsection \<open>Bodies\<close>

text \<open>\<open>readBody\<close> on the chunks of a body, which are byte strings.\<close>

definition body_too_large :: "nat \<Rightarrow> thrown" where
  "body_too_large maxBytes = PlainError (''Request body exceeds maximum size of '' @ show_nat maxBytes @ '' bytes'') None"

fun readBody :: "nat \<Rightarrow> nat \<Rightarrow> string list \<Rightarrow> string list \<Rightarrow> thrown + string" where
  "readBody maxBytes totalLength chunks [] = Inr (concat chunks)"
| "readBody maxBytes totalLength chunks (c # cs) =
     (if totalLength + length c > maxBytes then Inl (body_too_large maxBytes)
      else readBody maxBytes (totalLength + length c) (chunks @ [c]) cs)"

lemma readBody_exact:
  "readBody maxBytes (length (concat chunks)) chunks cs =
     (if length (concat (chunks @ cs)) \<le> maxBytes \<or> cs = [] then Inr (concat (chunks @ cs)) else Inl (body_too_large maxBytes))"
proof (induction cs arbitrary: chunks)
  case (Cons c cs)
  show ?case using Cons.IH [of "chunks @ [c]"] by auto
qed simp

text \<open>How a body is cut into chunks does not matter; one above the limit is answered 413.\<close>

lemma body_limit:
  assumes "br_handlers b = Some hs" "rq_body rq = readBody maxBytes 0 [] cs"
  shows "rq_body rq = (if length (concat cs) \<le> maxBytes then Inr (concat cs) else Inl (body_too_large maxBytes))"
    and "length (concat cs) > maxBytes \<Longrightarrow>
      handleToolCall parse took rq b = Inr (sendError 413 ''Request body too large'')"
proof -
  show body: "rq_body rq = (if length (concat cs) \<le> maxBytes then Inr (concat cs) else Inl (body_too_large maxBytes))"
    using readBody_exact [of maxBytes "[]" cs] assms(2) by auto
  assume "length (concat cs) > maxBytes"
  then have "rq_body rq = Inl (body_too_large maxBytes)" using body by simp
  moreover have "js_includes (err_message (body_too_large maxBytes)) ''maximum size''"
  proof -
    have "err_message (body_too_large maxBytes) =
        ''Request body exceeds '' @ ''maximum size'' @ ('' of '' @ show_nat maxBytes @ '' bytes'')"
      by (simp add: body_too_large_def)
    then show ?thesis unfolding js_includes_iff by blast
  qed
  ultimately show "handleToolCall parse took rq b = Inr (sendError 413 ''Request body too large'')"
    using assms(1) by (simp add: handleToolCall_def read_request_def body_too_large_def)
qed

subsection \<open>The handlers of the server\<close>

definition row_status_of :: "server_status \<Rightarrow> string" where
  "row_status_of st = (case st of StConnected \<Rightarrow> ''connected'' | StError \<Rightarrow> ''error'' | _ \<Rightarrow> ''disconnected'')"

definition hub_handlers :: "(string \<Rightarrow> string \<Rightarrow> json \<Rightarrow> thrown + json) \<Rightarrow> hub \<Rightarrow> bridge_handlers" where
  "hub_handlers call h =
     \<lparr>h_callTool = call,
      h_listServers = map (\<lambda>s. \<lparr>row_name = info_name s, row_toolCount = info_toolCount s,
          row_status = row_status_of (info_status s)\<rparr>) (listServers h),
      h_listTools = (\<lambda>server. map (\<lambda>t. (raw_name t, nullish (raw_description t) [])) (hub_getServerTools server h)),
      h_searchTools = (\<lambda>q. searchTools q h)\<rparr>"

text \<open>The mock servers, for tests and when no hub is used.\<close>

definition mockServers :: "(string \<times> (string \<times> string) list) list" where
  "mockServers =
     [(''filesystem'',
        [(''read_file'', ''Read the contents of a file''), (''write_file'', ''Write content to a file''),
         (''list_directory'', ''List files in a directory''), (''search_files'', ''Search for files matching a pattern'')]),
      (''echo'', [(''echo'', ''Echo back the input message''), (''reverse'', ''Reverse the input string'')])]"

text \<open>\<open>String(x)\<close> on a JSON value.\<close>

fun js_to_string :: "json \<Rightarrow> string" where
  "js_to_string JNull = ''null''"
| "js_to_string (JBool b) = (if b then ''true'' else ''false'')"
| "js_to_string (JNum n) = show_int n"
| "js_to_string (JStr s) = s"
| "js_to_string (JArr xs) = join '','' (map (\<lambda>x. if x = JNull then [] else js_to_string x) xs)"
| "js_to_string (JObj kvs) = ''[object Object]''"

definition mock_message :: "json \<Rightarrow> json" where
  "mock_message params =
     (case js_field ''message'' params of None \<Rightarrow> JStr [] | Some m \<Rightarrow> if js_truthy m then m else JStr [])"

definition mock_callTool :: "string \<Rightarrow> string \<Rightarrow> json \<Rightarrow> thrown + json" where
  "mock_callTool serverName toolName params =
     (if serverName = ''echo'' \<and> toolName = ''echo'' then Inr (JObj [(''message'', mock_message params)])
      else if serverName = ''echo'' \<and> toolName = ''reverse''
      then Inr (JObj [(''reversed'', JStr (rev (js_to_string (mock_message params))))])
      else if serverName = ''filesystem'' \<and> toolName = ''list_directory''
      then Inr (JObj [(''entries'', JArr
             [JObj [(''name'', JStr ''file1.ts''), (''type'', JStr ''file'')],
              JObj [(''name'', JStr ''file2.ts''), (''type'', JStr ''file'')],
              JObj [(''name'', JStr ''src''), (''type'', JStr ''directory'')]])])
      else if serverName = ''filesystem'' \<and> toolName = ''read_file''
      then Inr (JObj [(''content'', JStr ''// Mock file content'')])
      else Inl (PlainError (''Unknown tool: '' @ serverName @ ''.'' @ toolName) None))"

definition mock_search :: "string \<Rightarrow> (string \<times> string \<times> string) list" where
  "mock_search query =
     concat (map (\<lambda>(s, ts). map (\<lambda>(t, d). (s, t, d))
       (filter (\<lambda>(t, d). js_includes (js_lower t) (js_lower query) \<or> js_includes (js_lower d) (js_lower query)) ts))
       mockServers)"

definition mock_handlers :: bridge_handlers where
  "mock_handlers =
     \<lparr>h_callTool = mock_callTool,
      h_listServers = map (\<lambda>(n, ts). \<lparr>row_name = n, row_toolCount = length ts, row_status = ''connected''\<rparr>) mockServers,
      h_listTools = (\<lambda>server. nullish (map_of mockServers server) []),
      h_searchTools = mock_search\<rparr>"

end
