(* ===== verification/Observability.thy ===== *)
theory Observability
  imports CacheKey
begin

text \<open>
  The profilers the call path feeds: \<open>src/src/observability/anomaly.ts\<close>, \<open>hot-path.ts\<close> and
  \<open>cost-predictor.ts\<close>. Their arithmetic is done exactly, on rational numbers; a standard deviation is
  kept as its square, and a test of a deviation compares squares.
\<close>

text \<open>\<open>Math.round\<close>: halves go up.\<close>

definition js_round :: "rat \<Rightarrow> int" where
  "js_round x = \<lfloor>x + 1 / 2\<rfloor>"

text \<open>The last \<open>n\<close> items, as \<open>splice(0, length - n)\<close> leaves them when there are more.\<close>

definition keep_last :: "nat \<Rightarrow> 'a list \<Rightarrow> 'a list" where
  "keep_last n xs = (if length xs > n then drop (length xs - n) xs else xs)"

definition call_key :: "string \<Rightarrow> string \<Rightarrow> string" where
  "call_key server tool = server @ ''::'' @ tool"

subsection \<open>Anomalies\<close>

record anomaly_config =
  an_enabled :: bool
  stdDevThreshold :: rat
  minSamplesForDetection :: nat
  maxAnomalyHistory :: nat

definition DEFAULT_ANOMALY_CONFIG :: anomaly_config where
  "DEFAULT_ANOMALY_CONFIG =
     \<lparr>an_enabled = True, stdDevThreshold = 3, minSamplesForDetection = 5, maxAnomalyHistory = 500\<rparr>"

datatype metric = LatencyMs | ResultSizeBytes

record anomaly_event =
  an_server :: string
  an_tool :: string
  an_metric :: metric
  an_value :: rat
  an_mean :: rat
  an_variance :: rat
  an_zSquare :: rat
  an_timestamp :: time

record running_stats =
  rs_n :: nat
  rs_mean :: rat
  rs_m2 :: rat

definition emptyStats :: running_stats where
  "emptyStats = \<lparr>rs_n = 0, rs_mean = 0, rs_m2 = 0\<rparr>"

definition updateStats :: "running_stats \<Rightarrow> rat \<Rightarrow> running_stats" where
  "updateStats st value =
     (let n = rs_n st + 1;
          delta = value - rs_mean st;
          mean = rs_mean st + delta / of_nat n;
          delta2 = value - mean
      in \<lparr>rs_n = n, rs_mean = mean, rs_m2 = rs_m2 st + delta * delta2\<rparr>)"

text \<open>The square of \<open>stdDev\<close>.\<close>

definition variance :: "running_stats \<Rightarrow> rat" where
  "variance st = (if rs_n st < 2 then 0 else rs_m2 st / of_nat (rs_n st - 1))"

record bucket_stats =
  latency :: running_stats
  resultSize :: running_stats

record anomaly_detector =
  ad_config :: anomaly_config
  ad_stats :: "(string, bucket_stats) jsmap"
  anomalies :: "anomaly_event list"

definition new_detector :: "anomaly_config \<Rightarrow> anomaly_detector" where
  "new_detector c = \<lparr>ad_config = c, ad_stats = [], anomalies = []\<rparr>"

definition getOrCreateBucket :: "string \<Rightarrow> string \<Rightarrow> anomaly_detector \<Rightarrow> bucket_stats" where
  "getOrCreateBucket server tool d =
     nullish (map_of (ad_stats d) (call_key server tool)) \<lparr>latency = emptyStats, resultSize = emptyStats\<rparr>"

text \<open>\<open>zScore > stdDevThreshold\<close>, for a deviation of positive square.\<close>

definition is_outlier :: "anomaly_config \<Rightarrow> rat \<Rightarrow> running_stats \<Rightarrow> bool" where
  "is_outlier c value st \<longleftrightarrow>
     rs_n st \<ge> minSamplesForDetection c \<and> variance st > 0
     \<and> (stdDevThreshold c < 0 \<or> (value - rs_mean st)\<^sup>2 > (stdDevThreshold c)\<^sup>2 * variance st)"

definition checkAndRecord ::
    "time \<Rightarrow> string \<Rightarrow> string \<Rightarrow> metric \<Rightarrow> rat \<Rightarrow> running_stats \<Rightarrow> anomaly_detector \<Rightarrow> anomaly_detector" where
  "checkAndRecord now server tool metric value st d =
     (if is_outlier (ad_config d) value st
      then (let ev = \<lparr>an_server = server, an_tool = tool, an_metric = metric, an_value = value, an_mean = rs_mean st,
                      an_variance = variance st, an_zSquare = (value - rs_mean st)\<^sup>2 / variance st, an_timestamp = now\<rparr>;
                all = anomalies d @ [ev]
            in d\<lparr>anomalies := (if length all > maxAnomalyHistory (ad_config d) then tl all else all)\<rparr>)
      else d)"

definition anomaly_record :: "time \<Rightarrow> string \<Rightarrow> string \<Rightarrow> rat \<Rightarrow> rat \<Rightarrow> anomaly_detector \<Rightarrow> anomaly_detector" where
  "anomaly_record now server tool latencyMs resultSizeBytes d =
     (if \<not> an_enabled (ad_config d) then d
      else (let b = getOrCreateBucket server tool d;
                d1 = checkAndRecord now server tool LatencyMs latencyMs (latency b) d;
                d2 = checkAndRecord now server tool ResultSizeBytes resultSizeBytes (resultSize b) d1
            in d2\<lparr>ad_stats := AList.update (call_key server tool)
                 \<lparr>latency = updateStats (latency b) latencyMs, resultSize = updateStats (resultSize b) resultSizeBytes\<rparr>
                 (ad_stats d2)\<rparr>))"

definition getAnomalies ::
    "time \<Rightarrow> string option \<Rightarrow> string option \<Rightarrow> int option \<Rightarrow> anomaly_detector \<Rightarrow> anomaly_event list" where
  "getAnomalies now server tool sinceMs d =
     (let cutoff = (case sinceMs of Some s \<Rightarrow> now - s | None \<Rightarrow> 0) in
      filter (\<lambda>a. \<not> an_timestamp a < cutoff
        \<and> \<not> (nullish server [] \<noteq> [] \<and> an_server a \<noteq> nullish server [])
        \<and> \<not> (nullish tool [] \<noteq> [] \<and> an_tool a \<noteq> nullish tool [])) (anomalies d))"

definition anomaly_reset :: "anomaly_detector \<Rightarrow> anomaly_detector" where
  "anomaly_reset d = d\<lparr>ad_stats := [], anomalies := []\<rparr>"

subsection \<open>Hot paths\<close>

record hot_path_config =
  hp_enabled :: bool
  hp_windowMs :: int
  hp_maxSamples :: nat

record path_bucket =
  pb_server :: string
  pb_tool :: string
  pb_samples :: "(int \<times> time) list"

record hot_path_profiler =
  hp_config :: hot_path_config
  hp_buckets :: "(string, path_bucket) jsmap"

record hot_path_entry =
  hp_server :: string
  hp_tool :: string
  callCount :: nat
  totalLatencyMs :: int
  meanLatencyMs :: int
  p99LatencyMs :: int

definition DEFAULT_HOT_PATH_CONFIG :: hot_path_config where
  "DEFAULT_HOT_PATH_CONFIG = \<lparr>hp_enabled = True, hp_windowMs = 3600000, hp_maxSamples = 1000\<rparr>"

definition p99 :: "int list \<Rightarrow> int" where
  "p99 ls =
     (if ls = [] then 0
      else (let idx = \<lceil>rat_of_nat (length ls) * (99 / 100)\<rceil> - 1 in ls ! nat (max 0 idx)))"

definition hot_record :: "time \<Rightarrow> string \<Rightarrow> string \<Rightarrow> int \<Rightarrow> hot_path_profiler \<Rightarrow> hot_path_profiler" where
  "hot_record now server tool latencyMs h =
     (if \<not> hp_enabled (hp_config h) then h
      else (let key = call_key server tool;
                b = nullish (map_of (hp_buckets h) key) \<lparr>pb_server = server, pb_tool = tool, pb_samples = []\<rparr>
            in h\<lparr>hp_buckets := AList.update key
                 (b\<lparr>pb_samples := keep_last (hp_maxSamples (hp_config h)) (pb_samples b @ [(latencyMs, now)])\<rparr>)
                 (hp_buckets h)\<rparr>))"

definition hot_evictExpired :: "time \<Rightarrow> hot_path_profiler \<Rightarrow> hot_path_profiler" where
  "hot_evictExpired now h =
     (let cutoff = now - hp_windowMs (hp_config h) in
      h\<lparr>hp_buckets := filter (\<lambda>(k, b). pb_samples b \<noteq> [])
           (map (\<lambda>(k, b). (k, b\<lparr>pb_samples := filter (\<lambda>(l, t). t \<ge> cutoff) (pb_samples b)\<rparr>)) (hp_buckets h))\<rparr>)"

definition computeEntry :: "path_bucket \<Rightarrow> (int \<times> time) list \<Rightarrow> hot_path_entry" where
  "computeEntry b live =
     (let latencies = sort (map fst live); total = sum_list latencies; n = length latencies in
      \<lparr>hp_server = pb_server b, hp_tool = pb_tool b, callCount = n, totalLatencyMs = total,
       meanLatencyMs = (if n > 0 then js_round (of_int total / of_nat n) else 0), p99LatencyMs = p99 latencies\<rparr>)"

datatype sort_by = ByTotalLatency | ByP99 | ByCallCount

definition sort_value :: "sort_by \<Rightarrow> hot_path_entry \<Rightarrow> int" where
  "sort_value how e =
     (case how of ByP99 \<Rightarrow> p99LatencyMs e | ByCallCount \<Rightarrow> int (callCount e) | ByTotalLatency \<Rightarrow> totalLatencyMs e)"

text \<open>The comparator of the sort; \<open>coll\<close> is \<open>localeCompare\<close>.\<close>

definition compare_entries :: "(string \<Rightarrow> string \<Rightarrow> int) \<Rightarrow> sort_by \<Rightarrow> hot_path_entry \<Rightarrow> hot_path_entry \<Rightarrow> int" where
  "compare_entries coll how a b =
     (let diff = sort_value how b - sort_value how a; sk = coll (hp_server a) (hp_server b) in
      if diff \<noteq> 0 then diff else if sk \<noteq> 0 then sk else coll (hp_tool a) (hp_tool b))"

text \<open>A stable sort by a comparator.\<close>

fun insert_by :: "('a \<Rightarrow> 'a \<Rightarrow> int) \<Rightarrow> 'a \<Rightarrow> 'a list \<Rightarrow> 'a list" where
  "insert_by cmp x [] = [x]"
| "insert_by cmp x (y # ys) = (if cmp x y \<le> 0 then x # y # ys else y # insert_by cmp x ys)"

definition js_sort_by :: "('a \<Rightarrow> 'a \<Rightarrow> int) \<Rightarrow> 'a list \<Rightarrow> 'a list" where
  "js_sort_by cmp xs = foldr (insert_by cmp) xs []"

definition getHotPaths ::
    "(string \<Rightarrow> string \<Rightarrow> int) \<Rightarrow> time \<Rightarrow> int option \<Rightarrow> nat \<Rightarrow> sort_by \<Rightarrow> hot_path_profiler
     \<Rightarrow> hot_path_entry list \<times> hot_path_profiler" where
  "getHotPaths coll now sinceMs topK how h =
     (let h1 = hot_evictExpired now h;
          live = (\<lambda>b. case sinceMs of None \<Rightarrow> pb_samples b | Some s \<Rightarrow> filter (\<lambda>(l, t). t \<ge> now - s) (pb_samples b));
          entries = map (\<lambda>b. computeEntry b (live b)) (filter (\<lambda>b. live b \<noteq> []) (map snd (hp_buckets h1)))
      in (take topK (js_sort_by (compare_entries coll how) entries), h1))"

subsection \<open>Costs\<close>

record cost_config =
  cp_enabled :: bool
  cp_minSamples :: nat
  cp_maxSamples :: nat

record cost_sample =
  inputTokens :: int
  outputTokens :: int
  cs_latencyMs :: int
  cs_timestamp :: time

record cost_prediction =
  estimatedInputTokens :: int
  estimatedOutputTokens :: int
  estimatedLatencyMs :: int
  basedOn :: nat

record cost_predictor =
  cp_config :: cost_config
  cp_buckets :: "(string, cost_sample list) jsmap"

definition DEFAULT_COST_PREDICTOR_CONFIG :: cost_config where
  "DEFAULT_COST_PREDICTOR_CONFIG = \<lparr>cp_enabled = True, cp_minSamples = 5, cp_maxSamples = 200\<rparr>"

fun is_object_shape :: "json \<Rightarrow> bool" where
  "is_object_shape (JObj _) = True"
| "is_object_shape _ = False"

function buildShape :: "json \<Rightarrow> json" where
  "buildShape JNull = JStr ''null''"
| "buildShape (JArr []) = JStr ''array:empty''"
| "buildShape (JArr (x # xs)) =
     JStr (''array:'' @ (if is_object_shape (buildShape x) then ''object'' else ''string''))"
| "buildShape (JObj kvs) =
     (let obj = own_properties (map (\<lambda>(k, v). (k, buildShape v)) kvs)
      in JObj (own_properties (map (\<lambda>k. (k, nullish (map_of obj k) JNull)) (sort (map fst obj)))))"
| "buildShape (JBool b) = JStr ''boolean''"
| "buildShape (JNum n) = JStr ''number''"
| "buildShape (JStr s) = JStr ''string''"
  by pat_completeness auto
termination by (relation "measure size") (auto intro: size_member)

definition argsShapeFingerprint :: "json \<Rightarrow> string" where
  "argsShapeFingerprint args = json_stringify (buildShape args)"

definition cost_bucket_key :: "string \<Rightarrow> string \<Rightarrow> string \<Rightarrow> string" where
  "cost_bucket_key server tool fingerprint = server @ ''::'' @ tool @ ''::'' @ fingerprint"

definition cost_estimateTokens :: "string \<Rightarrow> int" where
  "cost_estimateTokens t = \<lceil>rat_of_nat (length t) / 4\<rceil>"

definition cost_record ::
    "time \<Rightarrow> string \<Rightarrow> string \<Rightarrow> json \<Rightarrow> string option \<Rightarrow> string \<Rightarrow> int \<Rightarrow> cost_predictor \<Rightarrow> cost_predictor" where
  "cost_record now server tool args inputText outputText lat c =
     (if \<not> cp_enabled (cp_config c) then c
      else (let key = cost_bucket_key server tool (argsShapeFingerprint args);
                sample = \<lparr>inputTokens = cost_estimateTokens (nullish inputText (json_stringify args)),
                          outputTokens = cost_estimateTokens outputText, cs_latencyMs = lat, cs_timestamp = now\<rparr>
            in c\<lparr>cp_buckets := AList.update key
                 (keep_last (cp_maxSamples (cp_config c)) (nullish (map_of (cp_buckets c) key) [] @ [sample]))
                 (cp_buckets c)\<rparr>))"

definition mean_of :: "('a \<Rightarrow> int) \<Rightarrow> 'a list \<Rightarrow> int" where
  "mean_of f xs = js_round (of_int (sum_list (map f xs)) / of_nat (length xs))"

definition cost_predict :: "string \<Rightarrow> string \<Rightarrow> json \<Rightarrow> cost_predictor \<Rightarrow> cost_prediction option" where
  "cost_predict server tool args c =
     (if \<not> cp_enabled (cp_config c) then None
      else (case map_of (cp_buckets c) (cost_bucket_key server tool (argsShapeFingerprint args)) of
              None \<Rightarrow> None
            | Some xs \<Rightarrow>
                (if length xs < cp_minSamples (cp_config c) then None
                 else Some \<lparr>estimatedInputTokens = mean_of inputTokens xs, estimatedOutputTokens = mean_of outputTokens xs,
                            estimatedLatencyMs = mean_of cs_latencyMs xs, basedOn = length xs\<rparr>)))"

definition predictFromCode :: "string \<Rightarrow> cost_predictor \<Rightarrow> cost_prediction option" where
  "predictFromCode code c =
     (let xs = concat (map snd (cp_buckets c)) in
      if \<not> cp_enabled (cp_config c) \<or> length xs < cp_minSamples (cp_config c) then None
      else Some \<lparr>estimatedInputTokens = cost_estimateTokens code, estimatedOutputTokens = mean_of outputTokens xs,
                 estimatedLatencyMs = mean_of cs_latencyMs xs, basedOn = length xs\<rparr>)"

definition getBucketStats :: "cost_predictor \<Rightarrow> (string, nat) jsmap" where
  "getBucketStats c = map (\<lambda>(k, xs). (k, length xs)) (cp_buckets c)"

subsection \<open>Facts\<close>

definition sum_squares :: "rat list \<Rightarrow> rat" where
  "sum_squares xs = sum_list (map (\<lambda>x. x\<^sup>2) xs)"

text \<open>What the accumulators hold after the values \<open>xs\<close>.\<close>

definition accumulates :: "rat list \<Rightarrow> running_stats \<Rightarrow> bool" where
  "accumulates xs st \<longleftrightarrow>
     rs_n st = length xs \<and> of_nat (length xs) * rs_mean st = sum_list xs
     \<and> of_nat (length xs) * rs_m2 st = of_nat (length xs) * sum_squares xs - (sum_list xs)\<^sup>2
     \<and> (xs = [] \<longrightarrow> rs_mean st = 0 \<and> rs_m2 st = 0)"

lemma accumulates_none: "accumulates [] emptyStats"
  by (simp add: accumulates_def emptyStats_def sum_squares_def)

lemma accumulates_update:
  assumes "accumulates xs st"
  shows "accumulates (xs @ [v]) (updateStats st v)"
proof (cases "xs = []")
  case True
  then show ?thesis using assms
    by (simp add: accumulates_def updateStats_def sum_squares_def Let_def power2_eq_square)
next
  case False
  define n :: rat where "n = of_nat (length xs)"
  define m where "m = rs_mean st"
  define m' where "m' = m + (v - m) / (n + 1)"
  have n: "n > 0" using False by (simp add: n_def)
  have S: "sum_list xs = n * m" and M: "n * rs_m2 st = n * sum_squares xs - (n * m)\<^sup>2"
    using assms by (simp_all add: accumulates_def n_def m_def)
  have Q: "rs_m2 st = sum_squares xs - n * m\<^sup>2"
  proof -
    have "n * rs_m2 st = n * (sum_squares xs - n * m\<^sup>2)" using M by (simp add: algebra_simps power2_eq_square)
    then show ?thesis using n by simp
  qed
  have m': "(n + 1) * m' = n * m + v" using n by (simp add: m'_def field_simps)
  have "(n + 1) * (rs_m2 st + (v - m) * (v - m')) = (n + 1) * (sum_squares xs - n * m\<^sup>2) + (v - m) * ((n + 1) * v - (n + 1) * m')"
    unfolding Q by (simp add: algebra_simps)
  also have "\<dots> = (n + 1) * (sum_squares xs + v\<^sup>2) - (n * m + v)\<^sup>2"
    unfolding m' by (simp add: algebra_simps power2_eq_square)
  finally have "(n + 1) * (rs_m2 st + (v - m) * (v - m')) = (n + 1) * (sum_squares xs + v\<^sup>2) - (n * m + v)\<^sup>2" .
  moreover have "updateStats st v = \<lparr>rs_n = length xs + 1, rs_mean = m', rs_m2 = rs_m2 st + (v - m) * (v - m')\<rparr>"
    using assms by (simp add: updateStats_def accumulates_def n_def m_def m'_def Let_def)
  ultimately show ?thesis using m' S
    by (simp add: accumulates_def sum_squares_def n_def add.commute)
qed

text \<open>The calls with the key of a server and tool in a run, and their values.\<close>

type_synonym recorded_call = "time \<times> string \<times> string \<times> rat \<times> rat"

definition calls_of :: "string \<Rightarrow> recorded_call list \<Rightarrow> recorded_call list" where
  "calls_of key run = filter (\<lambda>(t, s, n, l, z). call_key s n = key) run"

definition latencies_of :: "string \<Rightarrow> recorded_call list \<Rightarrow> rat list" where
  "latencies_of key run = map (\<lambda>(t, s, n, l, z). l) (calls_of key run)"

definition sizes_of :: "string \<Rightarrow> recorded_call list \<Rightarrow> rat list" where
  "sizes_of key run = map (\<lambda>(t, s, n, l, z). z) (calls_of key run)"

definition record_run :: "anomaly_detector \<Rightarrow> recorded_call list \<Rightarrow> anomaly_detector" where
  "record_run d run = foldl (\<lambda>d (t, s, n, l, z). anomaly_record t s n l z d) d run"

definition bucket_at :: "string \<Rightarrow> anomaly_detector \<Rightarrow> bucket_stats" where
  "bucket_at key d = nullish (map_of (ad_stats d) key) \<lparr>latency = emptyStats, resultSize = emptyStats\<rparr>"

lemma checkAndRecord_frame [simp]:
  "ad_stats (checkAndRecord now s t m v st d) = ad_stats d" "ad_config (checkAndRecord now s t m v st d) = ad_config d"
  by (simp_all add: checkAndRecord_def Let_def)

lemma checkAndRecord_bound:
  "length (anomalies d) \<le> M \<Longrightarrow> maxAnomalyHistory (ad_config d) = M \<Longrightarrow>
   length (anomalies (checkAndRecord now s t m v st d)) \<le> M"
  by (simp add: checkAndRecord_def Let_def)

lemma record_run_snoc: "record_run d (run @ [(t, s, n, l, z)]) = anomaly_record t s n l z (record_run d run)"
  by (simp add: record_run_def)

lemma record_run_config: "ad_config (record_run d run) = ad_config d"
  by (induction run rule: rev_induct) (auto simp: record_run_snoc anomaly_record_def Let_def record_run_def)

lemma record_run_stats:
  assumes "an_enabled c"
  shows "accumulates (latencies_of key run) (latency (bucket_at key (record_run (new_detector c) run)))
     \<and> accumulates (sizes_of key run) (resultSize (bucket_at key (record_run (new_detector c) run)))
     \<and> length (anomalies (record_run (new_detector c) run)) \<le> maxAnomalyHistory c"
proof (induction run rule: rev_induct)
  case Nil
  then show ?case
    by (simp add: record_run_def new_detector_def bucket_at_def nullish_def latencies_of_def sizes_of_def calls_of_def
        accumulates_none)
next
  case (snoc x run)
  obtain t s n l z where x: "x = (t, s, n, l, z)" by (metis prod_cases5)
  let ?d = "record_run (new_detector c) run"
  have conf: "ad_config ?d = c" by (simp add: record_run_config new_detector_def)
  have b: "bucket_at key (anomaly_record t s n l z ?d) =
      (if call_key s n = key
       then \<lparr>latency = updateStats (latency (bucket_at key ?d)) l, resultSize = updateStats (resultSize (bucket_at key ?d)) z\<rparr>
       else bucket_at key ?d)"
    using assms conf by (simp add: anomaly_record_def bucket_at_def getOrCreateBucket_def nullish_def Let_def)
  have "length (anomalies (anomaly_record t s n l z ?d)) \<le> maxAnomalyHistory c"
    using snoc conf assms by (auto simp: anomaly_record_def Let_def intro!: checkAndRecord_bound)
  then show ?case using snoc accumulates_update
    by (simp add: x record_run_snoc b latencies_of_def sizes_of_def calls_of_def)
qed

definition mean_and_variance :: "rat list \<Rightarrow> rat \<times> rat" where
  "mean_and_variance xs =
     (let m = sum_list xs / of_nat (length xs)
      in (m, sum_list (map (\<lambda>x. (x - m)\<^sup>2) xs) / of_nat (length xs - 1)))"

lemma sum_square_deviations:
  "sum_list (map (\<lambda>x. (x - m)\<^sup>2) xs) = sum_squares xs - 2 * m * sum_list xs + of_nat (length xs) * (m :: rat)\<^sup>2"
  by (induction xs) (auto simp: sum_squares_def algebra_simps power2_eq_square)

lemma accumulates_moments:
  assumes "accumulates xs st" "2 \<le> length xs"
  shows "(rs_mean st, variance st) = mean_and_variance xs"
proof -
  define n :: rat where "n = of_nat (length xs)"
  have n: "n > 0" using assms(2) by (cases xs) (auto simp: n_def)
  have m: "rs_mean st = sum_list xs / n" using assms n by (simp add: accumulates_def n_def field_simps)
  have "n * rs_m2 st = n * sum_squares xs - (sum_list xs)\<^sup>2" using assms(1) by (simp add: accumulates_def n_def)
  also have "\<dots> = n * (sum_squares xs - 2 * (sum_list xs / n) * sum_list xs + n * (sum_list xs / n)\<^sup>2)"
    using n by (simp add: power2_eq_square field_simps)
  finally have "rs_m2 st = sum_list (map (\<lambda>x. (x - sum_list xs / n)\<^sup>2) xs)"
    using n by (simp add: sum_square_deviations n_def [symmetric])
  then show ?thesis using m assms by (simp add: mean_and_variance_def variance_def accumulates_def n_def Let_def)
qed

text \<open>The detector judges by the true mean and variance. After any run of recorded calls, the next call of a
  tool has its latency flagged exactly when the tool has enough earlier calls, their sample variance is positive and the
  latency is further from their mean than the threshold allows, both computed from all earlier calls
  of the same key at once; and the history never exceeds its maximum.\<close>

theorem anomaly_flags_exact:
  assumes "an_enabled c" "0 \<le> stdDevThreshold c" "2 \<le> minSamplesForDetection c"
  shows "let d = record_run (new_detector c) run; xs = latencies_of (call_key server tool) run;
           (m, v2) = mean_and_variance xs
     in (is_outlier c lat (latency (getOrCreateBucket server tool d)) \<longleftrightarrow>
           length xs \<ge> minSamplesForDetection c \<and> v2 > 0 \<and> (lat - m)\<^sup>2 > (stdDevThreshold c)\<^sup>2 * v2)
        \<and> length (anomalies (anomaly_record now server tool lat sz d)) \<le> maxAnomalyHistory c"
proof -
  let ?key = "call_key server tool"
  let ?d = "record_run (new_detector c) run"
  let ?xs = "latencies_of ?key run"
  let ?st = "latency (getOrCreateBucket server tool ?d)"
  have acc: "accumulates ?xs ?st"
    using record_run_stats [OF assms(1), of ?key run] by (simp add: bucket_at_def getOrCreateBucket_def)
  have flag: "is_outlier c lat ?st \<longleftrightarrow> length ?xs \<ge> minSamplesForDetection c \<and> snd (mean_and_variance ?xs) > 0
      \<and> (lat - fst (mean_and_variance ?xs))\<^sup>2 > (stdDevThreshold c)\<^sup>2 * snd (mean_and_variance ?xs)"
  proof (cases "minSamplesForDetection c \<le> length ?xs")
    case True
    then have "(rs_mean ?st, variance ?st) = mean_and_variance ?xs"
      using accumulates_moments [OF acc] assms(3) by simp
    then have "rs_mean ?st = fst (mean_and_variance ?xs)" "variance ?st = snd (mean_and_variance ?xs)"
      by (metis fst_conv, metis snd_conv)
    then show ?thesis using acc assms(2) by (auto simp: is_outlier_def accumulates_def)
  next
    case False
    then show ?thesis using acc by (simp add: is_outlier_def accumulates_def)
  qed
  moreover have "length (anomalies (anomaly_record now server tool lat sz ?d)) \<le> maxAnomalyHistory c"
    using record_run_stats [OF assms(1), of ?key "run @ [(now, server, tool, lat, sz)]"] by (simp add: record_run_snoc)
  ultimately show ?thesis by (simp add: case_prod_beta Let_def)
qed

definition demo_run :: "recorded_call list" where
  "demo_run = map (\<lambda>l. (0, ''s'', ''t'', l, 1)) [10, 12, 10, 12, 11]"

theorem anomaly_flags_exact_witness:
  "is_outlier DEFAULT_ANOMALY_CONFIG 15 (latency (getOrCreateBucket ''s'' ''t'' (record_run (new_detector DEFAULT_ANOMALY_CONFIG) demo_run)))"
proof -
  have "latencies_of (call_key ''s'' ''t'') demo_run = [10, 12, 10, 12, 11]"
    by (simp add: latencies_of_def calls_of_def demo_run_def)
  then show ?thesis
    using anomaly_flags_exact [of DEFAULT_ANOMALY_CONFIG demo_run "''s''" "''t''" 15 0 0]
    by (simp add: DEFAULT_ANOMALY_CONFIG_def mean_and_variance_def power2_eq_square Let_def)
qed

text \<open>Equal values are never followed by an anomaly, however large the next one is: their variance is 0.\<close>

lemma constant_history_flags_nothing:
  assumes "an_enabled c" "0 \<le> stdDevThreshold c" "2 \<le> minSamplesForDetection c"
    and "latencies_of (call_key server tool) run = replicate n x"
  shows "\<not> is_outlier c lat (latency (getOrCreateBucket server tool (record_run (new_detector c) run)))"
proof (cases "2 \<le> n")
  case True
  let ?st = "latency (getOrCreateBucket server tool (record_run (new_detector c) run))"
  have "accumulates (replicate n x) ?st"
    using record_run_stats [OF assms(1), of "call_key server tool" run] assms(4)
    by (simp add: bucket_at_def getOrCreateBucket_def)
  from accumulates_moments [OF this] True have "variance ?st = snd (mean_and_variance (replicate n x))"
    by (metis length_replicate snd_conv)
  then show ?thesis using True by (simp add: mean_and_variance_def is_outlier_def sum_list_replicate Let_def)
next
  case False
  have "rs_n (latency (getOrCreateBucket server tool (record_run (new_detector c) run))) = n"
    using record_run_stats [OF assms(1), of "call_key server tool" run] assms(4)
    by (simp add: bucket_at_def getOrCreateBucket_def accumulates_def)
  then show ?thesis using False assms(3) by (simp add: is_outlier_def)
qed

text \<open>The 99th percentile: a sample, and at least 99 of 100 samples are no larger.\<close>

lemma p99_rank:
  assumes "xs \<noteq> []"
  shows "p99 (sort xs) \<in> set xs
     \<and> 99 * length xs \<le> 100 * length (filter (\<lambda>x. x \<le> p99 (sort xs)) xs)"
proof -
  let ?n = "length xs"
  define i where "i = nat (max 0 (\<lceil>rat_of_nat ?n * (99 / 100)\<rceil> - 1))"
  have n: "?n > 0" using assms by simp
  have c: "\<lceil>rat_of_nat ?n * (99 / 100)\<rceil> \<le> int ?n" using n by (simp add: ceiling_le_iff)
  have c0: "0 < \<lceil>rat_of_nat ?n * (99 / 100)\<rceil>" using n by simp
  have i: "i < ?n" "rat_of_nat ?n * (99 / 100) \<le> rat_of_nat (Suc i)"
  proof -
    have "int i < int ?n" using c c0 unfolding i_def by linarith
    then show "i < ?n" by simp
    have "int (Suc i) = \<lceil>rat_of_nat ?n * (99 / 100)\<rceil>" using c0 by (simp add: i_def)
    then have "of_int (int (Suc i)) \<ge> rat_of_nat ?n * (99 / 100)" by (metis le_of_int_ceiling)
    then show "rat_of_nat ?n * (99 / 100) \<le> rat_of_nat (Suc i)" by simp
  qed
  have p: "p99 (sort xs) = sort xs ! i" using assms
    by (metis (no_types, lifting) i_def length_0_conv length_sort p99_def)
  have "sort xs ! i \<in> set (sort xs)" using i(1) by (intro nth_mem) simp
  then have mem: "p99 (sort xs) \<in> set xs" using p by simp
  have "Suc i \<le> length (filter (\<lambda>x. x \<le> sort xs ! i) (sort xs))"
  proof -
    have "filter (\<lambda>x. x \<le> sort xs ! i) (take (Suc i) (sort xs)) = take (Suc i) (sort xs)"
    proof (rule filter_True, rule ballI)
      fix x assume "x \<in> set (take (Suc i) (sort xs))"
      then obtain j where "j < Suc i" "x = sort xs ! j" using i(1) by (auto simp: in_set_conv_nth)
      then show "x \<le> sort xs ! i" using sorted_nth_mono [of "sort xs" j i] i(1) by simp
    qed
    then have "length (filter (\<lambda>x. x \<le> sort xs ! i) (take (Suc i) (sort xs))) = Suc i" using i(1) by simp
    moreover have "length (filter (\<lambda>x. x \<le> sort xs ! i) (sort xs)) =
        length (filter (\<lambda>x. x \<le> sort xs ! i) (take (Suc i) (sort xs)))
        + length (filter (\<lambda>x. x \<le> sort xs ! i) (drop (Suc i) (sort xs)))"
      by (metis append_take_drop_id filter_append length_append)
    ultimately show ?thesis by simp
  qed
  also have "length (filter (\<lambda>x. x \<le> sort xs ! i) (sort xs)) = length (filter (\<lambda>x. x \<le> sort xs ! i) xs)"
    by (metis filter_sort length_sort)
  finally have "rat_of_nat ?n * (99 / 100) \<le> rat_of_nat (length (filter (\<lambda>x. x \<le> sort xs ! i) xs))"
    using i(2) by (meson of_nat_mono order.trans)
  then have "rat_of_nat (99 * ?n) \<le> rat_of_nat (100 * length (filter (\<lambda>x. x \<le> sort xs ! i) xs))" by simp
  then show ?thesis using mem p by (simp only: of_nat_le_iff)
qed

text \<open>A rounded mean lies between the bounds of what it is taken over.\<close>

lemma mean_of_bounds:
  assumes "xs \<noteq> []" "\<And>x. x \<in> set xs \<Longrightarrow> lo \<le> f x \<and> f x \<le> hi"
  shows "lo \<le> mean_of f xs \<and> mean_of f xs \<le> hi"
proof -
  have "lo * int (length xs) \<le> sum_list (map f xs) \<and> sum_list (map f xs) \<le> hi * int (length xs)"
    using assms(2) by (induction xs) (fastforce simp: algebra_simps)+
  then have b: "of_int lo * rat_of_nat (length xs) \<le> of_int (sum_list (map f xs))"
    "of_int (sum_list (map f xs)) \<le> of_int hi * rat_of_nat (length xs)"
    by (metis of_int_le_iff of_int_mult of_int_of_nat_eq)+
  define q where "q = rat_of_int (sum_list (map f xs)) / of_nat (length xs)"
  have n: "rat_of_nat (length xs) > 0" using assms(1) by simp
  have q: "of_int lo \<le> q" "q \<le> of_int hi" using b n by (simp_all add: q_def field_simps)
  have "lo \<le> \<lfloor>q + 1 / 2\<rfloor>" using q(1) by (simp add: le_floor_iff)
  moreover have "q + 1 / 2 < of_int (hi + 1)" using q(2) by simp
  then have "\<lfloor>q + 1 / 2\<rfloor> < hi + 1" by (simp only: floor_less_iff)
  ultimately show ?thesis by (simp add: mean_of_def js_round_def q_def)
qed

text \<open>The shape of an array tells only whether its first item is an object: a list of numbers, one of texts
  and one of lists have the same fingerprint.\<close>

lemma array_shapes_coincide:
  "argsShapeFingerprint (JObj [(''ids'', JArr [JNum 1])]) = argsShapeFingerprint (JObj [(''ids'', JArr [JStr ''a'', JStr ''b''])])"
  "argsShapeFingerprint (JObj [(''ids'', JArr [JNum 1])]) = argsShapeFingerprint (JObj [(''ids'', JArr [JArr [JObj []]])])"
  by (simp_all add: argsShapeFingerprint_def)

end
