(* ===== verification/JsonLine.thy ===== *)
theory JsonLine
  imports Json LineFraming
begin

text \<open>
  The text \<open>JSON.stringify\<close> gives is one line: every line break inside a text is escaped. The programs
  that put one JSON text on a line rest on it: the journals of \<open>Replay\<close> and the results the sandbox
  prints (\<open>SandboxResult\<close>).
\<close>

lemma hex_digit_newline: "n < 16 \<Longrightarrow> hex_digit n \<noteq> newline"
proof
  assume n: "n < 16" and "hex_digit n = newline"
  then have "(of_char (hex_digit n) :: nat) = of_char newline" by simp
  then show False using n by (simp add: hex_digit_def newline_def of_char_of split: if_splits)
qed

lemma escape_newline: "newline \<notin> set (escape_char c)"
proof (cases "c = newline")
  case True
  then show ?thesis by (simp add: escape_char_def newline_def)
next
  case False
  have "hex_digit (of_char c mod 16) \<noteq> newline" by (rule hex_digit_newline) simp
  moreover have "hex_digit (of_char c div 16) \<noteq> newline" if "(of_char c :: nat) < 32"
    by (rule hex_digit_newline) (use that in simp)
  ultimately show ?thesis using False by (auto simp: escape_char_def newline_def)
qed

lemma digit_not_newline: "is_digit c \<Longrightarrow> c \<noteq> newline"
  by (auto simp: is_digit_def newline_def)

lemma show_int_newline: "newline \<notin> set (show_int n)"
proof -
  have "newline \<notin> set (show_nat m)" for m
    using show_nat_digits [of m] digit_not_newline by (auto simp: list_all_iff)
  then show ?thesis by (auto simp: show_int_def newline_def)
qed

lemma join_newline: "(\<And>x. x \<in> set xs \<Longrightarrow> newline \<notin> set x) \<Longrightarrow> newline \<notin> set (join '','' xs)"
  by (induction "'',''" xs rule: join.induct) (auto simp: newline_def)

lemma quote_newline: "newline \<notin> set (quote_string s)"
  using escape_newline by (auto simp: quote_string_def newline_def)

lemma stringify_newline: "newline \<notin> set (json_stringify v)"
proof (induction v)
  case (JArr xs)
  have "newline \<notin> set (join '','' (map json_stringify xs))" by (rule join_newline) (use JArr in auto)
  then show ?case by (auto simp: newline_def)
next
  case (JObj kvs)
  have "newline \<notin> set (join '','' (map (\<lambda>(k, v). quote_string k @ '':'' @ json_stringify v) kvs))"
  proof (rule join_newline)
    fix x assume "x \<in> set (map (\<lambda>(k, v). quote_string k @ '':'' @ json_stringify v) kvs)"
    then obtain k v where "(k, v) \<in> set kvs" "x = quote_string k @ '':'' @ json_stringify v" by auto
    moreover from this have "newline \<notin> set (json_stringify v)" using JObj by (auto simp: prod_set_simps)
    ultimately show "newline \<notin> set x" using quote_newline by (auto simp: newline_def)
  qed
  then show ?case by (auto simp: newline_def)
qed (use show_int_newline quote_newline in \<open>auto simp: newline_def\<close>)

text \<open>It is not blank either, so that the readers that skip blank lines keep it.\<close>

lemma stringify_not_blank: "js_trim (json_stringify v) \<noteq> []"
proof -
  have h: "json_stringify v \<noteq> []" "value_kind (hd (json_stringify v)) = json_kind v"
    using stringify_head [of v] by auto
  obtain c r where c: "json_stringify v = c # r" using h(1) by (cases "json_stringify v") auto
  have "\<not> is_space c"
  proof (cases v)
    case (JNum n)
    have "is_digit c \<or> c = CHR ''-''" using show_int_head [of n] c JNum by simp
    then show ?thesis by (auto simp: is_digit_def is_space_def)
  qed (use c in \<open>auto simp: quote_string_def is_space_def split: if_splits\<close>)
  then show ?thesis
    using c by (auto simp: js_trim_def dropWhile_append)
qed

end
