(* ===== verification/Replay.thy ===== *)
theory Replay
  imports Observability JsonLine
begin

text \<open>
  Recorded sessions and their replay, \<open>src/src/observability/replay.ts\<close>. The directory of recordings is a
  map from file names to files, in the order the directory lists them; a file is its text. \<open>JSON.parse\<close> is
  the argument \<open>parse\<close>, with \<open>None\<close> where it throws. What a line parses to is used as an event
  unchecked in the code; here it has to have the number, the time and the type of an event, and a file with another
  line is an error. Names with a path separator are outside the model.
\<close>

datatype journal_type = Tool_call | Tool_result | Code_result

record journal_event =
  je_seq :: nat
  je_ts :: time
  je_type :: journal_type
  je_server :: "string option"
  je_tool :: "string option"
  je_args :: "json option"
  je_result :: "json option"

datatype mod_op = Replace "json option" | Skip

record active_session =
  as_sessionId :: string
  as_file :: string
  as_seq :: nat
  as_eventCount :: nat

record recording =
  rc_text :: string
  rc_mtime :: time

record replay_recorder =
  maxTotalBytes :: int
  rc_files :: "(string, recording) jsmap"
  activeSessions :: "(string, active_session) jsmap"

definition type_name :: "journal_type \<Rightarrow> string" where
  "type_name t = (case t of Tool_call \<Rightarrow> ''tool_call'' | Tool_result \<Rightarrow> ''tool_result'' | Code_result \<Rightarrow> ''code_result'')"

definition field :: "string \<Rightarrow> json option \<Rightarrow> (string \<times> json) list" where
  "field k v = (case v of Some x \<Rightarrow> [(k, x)] | None \<Rightarrow> [])"

definition event_json :: "journal_event \<Rightarrow> json" where
  "event_json e = JObj
     ([(''seq'', JNum (int (je_seq e))), (''ts'', JNum (je_ts e)), (''type'', JStr (type_name (je_type e)))]
      @ field ''server'' (map_option JStr (je_server e)) @ field ''tool'' (map_option JStr (je_tool e))
      @ field ''args'' (je_args e) @ field ''result'' (je_result e))"

definition event_line :: "journal_event \<Rightarrow> string" where
  "event_line e = json_stringify (event_json e) @ [newline]"

text \<open>A parsed line read as an event.\<close>

definition read_text :: "json \<Rightarrow> string option" where
  "read_text v = (case v of JStr s \<Rightarrow> Some s | _ \<Rightarrow> None)"

definition read_type :: "json \<Rightarrow> journal_type option" where
  "read_type v =
     (if v = JStr ''tool_call'' then Some Tool_call else if v = JStr ''tool_result'' then Some Tool_result
      else if v = JStr ''code_result'' then Some Code_result else None)"

definition read_event :: "json \<Rightarrow> journal_event option" where
  "read_event v =
     (case v of
        JObj kvs \<Rightarrow>
          (case (map_of kvs ''seq'', map_of kvs ''ts'', Option.bind (map_of kvs ''type'') read_type) of
             (Some (JNum q), Some (JNum t), Some ty) \<Rightarrow>
               (if 0 \<le> q
                then Some \<lparr>je_seq = nat q, je_ts = t, je_type = ty,
                       je_server = Option.bind (map_of kvs ''server'') read_text,
                       je_tool = Option.bind (map_of kvs ''tool'') read_text,
                       je_args = map_of kvs ''args'', je_result = map_of kvs ''result''\<rparr>
                else None)
           | _ \<Rightarrow> None)
      | _ \<Rightarrow> None)"

definition recording_bytes :: "recording \<Rightarrow> nat" where
  "recording_bytes f = length (rc_text f)"

definition is_recording :: "string \<Rightarrow> bool" where
  "is_recording f \<longleftrightarrow> suffix ''.jsonl'' f"

definition recording_files :: "(string, recording) jsmap \<Rightarrow> (string, recording) jsmap" where
  "recording_files fs = filter (\<lambda>(n, f). is_recording n) fs"

definition dirTotalBytes :: "(string, recording) jsmap \<Rightarrow> nat" where
  "dirTotalBytes fs = sum_list (map (\<lambda>(n, f). recording_bytes f) (recording_files fs))"

definition oldestFile :: "(string, recording) jsmap \<Rightarrow> string option" where
  "oldestFile fs = (case sort_key (\<lambda>(n, f). rc_mtime f) (recording_files fs) of
     [] \<Rightarrow> None | (n, f) # _ \<Rightarrow> Some n)"

lemma oldestFile_in:
  assumes "oldestFile fs = Some n"
  shows "\<exists>f. (n, f) \<in> set (recording_files fs) \<and> (\<forall>(m, g)\<in>set (recording_files fs). rc_mtime f \<le> rc_mtime g)"
proof -
  let ?k = "\<lambda>(n :: string, f). rc_mtime f"
  obtain f rest where s: "sort_key ?k (recording_files fs) = (n, f) # rest"
    using assms by (auto simp: oldestFile_def split: list.splits)
  then have i: "(n, f) \<in> set (recording_files fs)" by (metis list.set_intros(1) set_sort)
  have "sorted (map ?k ((n, f) # rest))" using s by (metis sorted_sort_key)
  then have "\<forall>x\<in>set ((n, f) # rest). rc_mtime f \<le> ?k x" by auto
  then have "\<forall>x\<in>set (recording_files fs). rc_mtime f \<le> ?k x" using s by (metis set_sort)
  then show ?thesis using i by (auto simp: case_prod_beta)
qed

lemma oldestFile_shrinks:
  assumes "oldestFile fs = Some n"
  shows "length (AList.delete n fs) < length fs"
proof -
  have "n \<in> fst ` set fs" using oldestFile_in [OF assms] by (force simp: recording_files_def)
  then show ?thesis by (simp add: AList.delete_eq) (force intro!: length_filter_less)
qed

function replay_rotate :: "int \<Rightarrow> (string, recording) jsmap \<Rightarrow> (string, recording) jsmap" where
  "replay_rotate limit fs =
     (if int (dirTotalBytes fs) > limit
      then (case oldestFile fs of None \<Rightarrow> fs | Some n \<Rightarrow> replay_rotate limit (AList.delete n fs))
      else fs)"
  by pat_completeness auto
termination by (relation "measure (\<lambda>(limit, fs). length fs)") (simp_all add: oldestFile_shrinks)

declare replay_rotate.simps [simp del]

definition appendEvent :: "time \<Rightarrow> string \<Rightarrow> journal_event \<Rightarrow> replay_recorder \<Rightarrow> replay_recorder" where
  "appendEvent now sid event r =
     (case map_of (activeSessions r) sid of
        None \<Rightarrow> r
      | Some s \<Rightarrow>
          (let full = event\<lparr>je_ts := now, je_seq := as_seq s\<rparr>;
               old = (case map_of (rc_files r) (as_file s) of Some f \<Rightarrow> rc_text f | None \<Rightarrow> [])
           in r\<lparr>rc_files := AList.update (as_file s) \<lparr>rc_text = old @ event_line full, rc_mtime = now\<rparr> (rc_files r),
                activeSessions := AList.update sid
                  (s\<lparr>as_seq := as_seq s + 1, as_eventCount := as_eventCount s + 1\<rparr>) (activeSessions r)\<rparr>))"

definition startRecording :: "time \<Rightarrow> string \<Rightarrow> string option \<Rightarrow> replay_recorder \<Rightarrow> (string \<times> string) \<times> replay_recorder" where
  "startRecording now uuid sid r =
     (let rid = nullish sid uuid; name = rid @ ''.jsonl'' in
      ((rid, name),
       r\<lparr>rc_files := AList.update name \<lparr>rc_text = [], rc_mtime = now\<rparr> (replay_rotate (maxTotalBytes r) (rc_files r)),
         activeSessions := AList.update rid \<lparr>as_sessionId = rid, as_file = name, as_seq = 0, as_eventCount = 0\<rparr>
           (activeSessions r)\<rparr>))"

definition stopRecording :: "string \<Rightarrow> replay_recorder \<Rightarrow> (string + string \<times> nat) \<times> replay_recorder" where
  "stopRecording sid r =
     (case map_of (activeSessions r) sid of
        None \<Rightarrow> (Inl (''No active recording session: '' @ sid), r)
      | Some s \<Rightarrow> (Inr (as_file s, as_eventCount s), r\<lparr>activeSessions := AList.delete sid (activeSessions r)\<rparr>))"

definition blank_event :: "journal_type \<Rightarrow> journal_event" where
  "blank_event t = \<lparr>je_seq = 0, je_ts = 0, je_type = t, je_server = None, je_tool = None, je_args = None, je_result = None\<rparr>"

definition call_event :: "string \<Rightarrow> string \<Rightarrow> json \<Rightarrow> journal_event" where
  "call_event server tool args = (blank_event Tool_call)\<lparr>je_server := Some server, je_tool := Some tool, je_args := Some args\<rparr>"

definition result_event :: "string \<Rightarrow> string \<Rightarrow> json option \<Rightarrow> journal_event" where
  "result_event server tool res = (blank_event Tool_result)\<lparr>je_server := Some server, je_tool := Some tool, je_result := res\<rparr>"

definition code_event :: "json option \<Rightarrow> journal_event" where
  "code_event res = (blank_event Code_result)\<lparr>je_result := res\<rparr>"

definition recordToolCall :: "time \<Rightarrow> string \<Rightarrow> string \<Rightarrow> string \<Rightarrow> json \<Rightarrow> replay_recorder \<Rightarrow> replay_recorder" where
  "recordToolCall now sid server tool args r = appendEvent now sid (call_event server tool args) r"

definition recordToolResult ::
    "time \<Rightarrow> string \<Rightarrow> string \<Rightarrow> string \<Rightarrow> json option \<Rightarrow> replay_recorder \<Rightarrow> replay_recorder" where
  "recordToolResult now sid server tool res r = appendEvent now sid (result_event server tool res) r"

definition recordCodeResult :: "time \<Rightarrow> string \<Rightarrow> json option \<Rightarrow> replay_recorder \<Rightarrow> replay_recorder" where
  "recordCodeResult now sid res r = appendEvent now sid (code_event res) r"

definition isRecording :: "string \<Rightarrow> replay_recorder \<Rightarrow> bool" where
  "isRecording sid r \<longleftrightarrow> js_has (activeSessions r) sid"

definition loadRecording :: "(string \<Rightarrow> json option) \<Rightarrow> string \<Rightarrow> replay_recorder \<Rightarrow> string + journal_event list" where
  "loadRecording parse name r =
     (case map_of (rc_files r) name of
        None \<Rightarrow> Inl (''Recording not found: '' @ name)
      | Some f \<Rightarrow>
          (let ls = filter (\<lambda>l. length (js_trim l) > 0) (split_newline (rc_text f)) in
           case those (map (\<lambda>l. Option.bind (parse l) read_event) ls) of
             None \<Rightarrow> Inl (''Unreadable recording: '' @ name)
           | Some es \<Rightarrow> Inr es))"

record replayed =
  rp_result :: "json option"
  rp_events :: "journal_event list"
  rp_divergence :: "(nat \<times> json option \<times> json option) option"

definition replay_event :: "(nat \<times> mod_op) list \<Rightarrow> replayed \<Rightarrow> journal_event \<Rightarrow> replayed" where
  "replay_event mods st e =
     (let md = map_of (rev mods) (je_seq e); n = length (rp_events st) in
      if md = Some Skip then st
      else if je_type e = Code_result
      then (let actual = (case md of Some (Replace w) \<Rightarrow> w | _ \<Rightarrow> je_result e)
            in \<lparr>rp_result = actual, rp_events = rp_events st @ [e\<lparr>je_seq := n, je_result := actual\<rparr>],
                rp_divergence = (if map_option json_stringify actual \<noteq> map_option json_stringify (je_result e)
                                 then Some (je_seq e, je_result e, actual) else rp_divergence st)\<rparr>)
      else (case md of
              Some (Replace w) \<Rightarrow>
                (if je_type e = Tool_result
                 then st\<lparr>rp_events := rp_events st @ [e\<lparr>je_seq := n, je_result := w\<rparr>]\<rparr>
                 else st\<lparr>rp_events := rp_events st @ [e\<lparr>je_seq := n\<rparr>]\<rparr>)
            | _ \<Rightarrow> st\<lparr>rp_events := rp_events st @ [e\<lparr>je_seq := n\<rparr>]\<rparr>))"

definition replay_events :: "(nat \<times> mod_op) list \<Rightarrow> journal_event list \<Rightarrow> replayed" where
  "replay_events mods es = foldl (replay_event mods) \<lparr>rp_result = None, rp_events = [], rp_divergence = None\<rparr> es"

definition replay :: "(string \<Rightarrow> json option) \<Rightarrow> string \<Rightarrow> (nat \<times> mod_op) list \<Rightarrow> replay_recorder \<Rightarrow> string + replayed" where
  "replay parse name mods r =
     (case loadRecording parse name r of Inl e \<Rightarrow> Inl e | Inr es \<Rightarrow> Inr (replay_events mods es))"

definition without_jsonl :: "string \<Rightarrow> string" where
  "without_jsonl f = (case js_index_of f ''.jsonl'' of None \<Rightarrow> f | Some i \<Rightarrow> take i f @ drop (i + 6) f)"

definition listRecordings :: "replay_recorder \<Rightarrow> (string \<times> string \<times> nat \<times> time) list" where
  "listRecordings r = sort_key (\<lambda>(i, p, b, t). - t)
     (map (\<lambda>(n, f). (without_jsonl n, n, recording_bytes f, rc_mtime f)) (recording_files (rc_files r)))"

subsection \<open>Replay against a specification\<close>

definition code_result :: "journal_event \<Rightarrow> bool" where
  "code_result e \<longleftrightarrow> je_type e = Code_result"

definition modified :: "(nat \<times> mod_op) list \<Rightarrow> journal_event \<Rightarrow> journal_event" where
  "modified mods e =
     (case map_of (rev mods) (je_seq e) of
        Some (Replace w) \<Rightarrow> (if je_type e = Tool_call then e else e\<lparr>je_result := w\<rparr>)
      | _ \<Rightarrow> e)"

definition not_skipped :: "(nat \<times> mod_op) list \<Rightarrow> journal_event \<Rightarrow> bool" where
  "not_skipped mods e \<longleftrightarrow> map_of (rev mods) (je_seq e) \<noteq> Some Skip"

definition last_such :: "('a \<Rightarrow> bool) \<Rightarrow> 'a list \<Rightarrow> 'a option" where
  "last_such p xs = find p (rev xs)"

definition renumbered :: "journal_event list \<Rightarrow> journal_event list" where
  "renumbered es = map (\<lambda>(i, e). e\<lparr>je_seq := i\<rparr>) (enumerate 0 es)"

lemma renumbered_snoc [simp]: "renumbered (es @ [e]) = renumbered es @ [e\<lparr>je_seq := length es\<rparr>]"
  by (simp add: renumbered_def enumerate_append_eq)

lemma length_renumbered [simp]: "length (renumbered es) = length es"
  by (simp add: renumbered_def)

lemma renumbered_Nil [simp]: "renumbered [] = []"
  by (simp add: renumbered_def)

lemma last_such_snoc [simp]: "last_such p (xs @ [x]) = (if p x then Some x else last_such p xs)"
  by (simp add: last_such_def)

lemma last_such_Nil [simp]: "last_such p [] = None"
  by (simp add: last_such_def)

text \<open>What a replay is meant to give: the events that are not skipped, with their results replaced,
  numbered from 0; the result of the last code result among them; and, where a code result was changed,
  the last such change.\<close>

lemma replay_events_spec:
  "replay_events mods es =
     \<lparr>rp_result = Option.bind (last_such code_result (filter (not_skipped mods) es)) (\<lambda>e. je_result (modified mods e)),
      rp_events = renumbered (map (modified mods) (filter (not_skipped mods) es)),
      rp_divergence = map_option (\<lambda>e. (je_seq e, je_result e, je_result (modified mods e)))
        (last_such (\<lambda>e. code_result e \<and> je_result (modified mods e) \<noteq> je_result e) (filter (not_skipped mods) es))\<rparr>"
proof (induction es rule: rev_induct)
  case Nil
  then show ?case by (simp add: replay_events_def)
next
  case (snoc e es)
  have s: "replay_events mods (es @ [e]) = replay_event mods (replay_events mods es) e"
    by (simp add: replay_events_def)
  have j: "map_option json_stringify a \<noteq> map_option json_stringify b \<longleftrightarrow> a \<noteq> b" for a b
    by (cases a; cases b) (simp_all add: json_stringify_inj)
  show ?case
  proof (cases "map_of (rev mods) (je_seq e)")
    case None
    then show ?thesis
      by (simp add: s snoc replay_event_def not_skipped_def code_result_def modified_def Let_def)
  next
    case (Some m)
    then show ?thesis
      by (cases m; cases "je_type e") (simp_all add: s snoc replay_event_def not_skipped_def code_result_def modified_def j Let_def)
  qed
qed

lemma replay_unmodified:
  "replay_events [] es =
     \<lparr>rp_result = Option.bind (last_such code_result es) je_result, rp_events = renumbered es, rp_divergence = None\<rparr>"
proof -
  have "last_such (\<lambda>e. False) xs = None" for xs :: "journal_event list"
    by (simp add: last_such_def find_None_iff)
  moreover have "modified [] = (\<lambda>e. e)" by (simp add: modified_def fun_eq_iff)
  ultimately show ?thesis by (simp add: replay_events_spec not_skipped_def)
qed

subsection \<open>Journals\<close>

lemma type_name_read [simp]: "read_type (JStr (type_name t)) = Some t"
  by (cases t) (simp_all add: read_type_def type_name_def)

lemma read_event_json [simp]: "read_event (event_json e) = Some e"
  by (cases "je_server e"; cases "je_tool e"; cases "je_args e"; cases "je_result e")
    (simp_all add: read_event_def event_json_def read_text_def field_def)

text \<open>The text of a journal and what is read from it: every event is a line of its own.\<close>

definition journal_text :: "journal_event list \<Rightarrow> string" where
  "journal_text es = concat (map event_line es)"

lemma journal_text_simps [simp]:
  "journal_text [] = []" "journal_text (es @ [e]) = journal_text es @ event_line e"
  by (simp_all add: journal_text_def)

lemma split_journal: "split_newline (journal_text es) = map (\<lambda>e. json_stringify (event_json e)) es @ [[]]"
proof (induction es)
  case (Cons e es)
  have "journal_text (e # es) = json_stringify (event_json e) @ newline # journal_text es"
    by (simp add: journal_text_def event_line_def)
  then show ?case using Cons split_newline_line [OF stringify_newline] by simp
qed (simp add: journal_text_def)

definition parses_back :: "(string \<Rightarrow> json option) \<Rightarrow> journal_event list \<Rightarrow> bool" where
  "parses_back parse es \<longleftrightarrow> list_all (\<lambda>e. parse (json_stringify (event_json e)) = Some (event_json e)) es"

lemma load_journal:
  assumes "map_of (rc_files r) name = Some f" "rc_text f = journal_text es" "parses_back parse es"
  shows "loadRecording parse name r = Inr es"
proof -
  have ls: "filter (\<lambda>l. length (js_trim l) > 0) (split_newline (rc_text f)) = map (\<lambda>e. json_stringify (event_json e)) es"
    using stringify_not_blank by (simp add: assms(2) split_journal filter_map comp_def) (simp add: js_trim_def)
  have "those (map (\<lambda>l. Option.bind (parse l) read_event) (map (\<lambda>e. json_stringify (event_json e)) es)) = Some es"
    using assms(3) by (induction es) (auto simp: parses_back_def)
  then show ?thesis using assms(1) ls by (simp add: loadRecording_def Let_def)
qed

subsection \<open>Recordings\<close>

datatype replay_op =
    OpCall time string string string json
  | OpResult time string string string "json option"
  | OpCode time string "json option"
  | OpStop string

fun replay_step :: "replay_recorder \<Rightarrow> replay_op \<Rightarrow> replay_recorder" where
  "replay_step r (OpCall t sid server tool args) = recordToolCall t sid server tool args r"
| "replay_step r (OpResult t sid server tool res) = recordToolResult t sid server tool res r"
| "replay_step r (OpCode t sid res) = recordCodeResult t sid res r"
| "replay_step r (OpStop sid) = snd (stopRecording sid r)"

fun op_event :: "string \<Rightarrow> replay_op \<Rightarrow> journal_event option" where
  "op_event sid (OpCall t i server tool args) = (if i = sid then Some ((call_event server tool args)\<lparr>je_ts := t\<rparr>) else None)"
| "op_event sid (OpResult t i server tool res) = (if i = sid then Some ((result_event server tool res)\<lparr>je_ts := t\<rparr>) else None)"
| "op_event sid (OpCode t i res) = (if i = sid then Some ((code_event res)\<lparr>je_ts := t\<rparr>) else None)"
| "op_event sid (OpStop i) = None"

definition recorded_events :: "string \<Rightarrow> replay_op list \<Rightarrow> journal_event list" where
  "recorded_events sid ops = renumbered (List.map_filter (op_event sid) ops)"

text \<open>Every active session writes to the file of its own id.\<close>

definition own_files :: "replay_recorder \<Rightarrow> bool" where
  "own_files r \<longleftrightarrow> (\<forall>sid s. map_of (activeSessions r) sid = Some s \<longrightarrow> as_file s = sid @ ''.jsonl'')"

definition holds_events :: "string \<Rightarrow> journal_event list \<Rightarrow> replay_recorder \<Rightarrow> bool" where
  "holds_events sid es r \<longleftrightarrow>
     map_of (activeSessions r) sid = Some \<lparr>as_sessionId = sid, as_file = sid @ ''.jsonl'', as_seq = length es, as_eventCount = length es\<rparr>
     \<and> map_option rc_text (map_of (rc_files r) (sid @ ''.jsonl'')) = Some (journal_text es)"

lemma own_files_append: "own_files r \<Longrightarrow> own_files (appendEvent t sid e r)"
  by (simp add: own_files_def appendEvent_def Let_def split: option.splits)

lemma own_files_start: "own_files r \<Longrightarrow> own_files (snd (startRecording t u sid r))"
  by (simp add: own_files_def startRecording_def Let_def)

lemma own_files_stop: "own_files r \<Longrightarrow> own_files (snd (stopRecording sid r))"
  by (simp add: own_files_def stopRecording_def split: option.splits)

lemma own_files_step: "own_files r \<Longrightarrow> own_files (replay_step r op)"
  by (cases op) (simp_all add: own_files_append own_files_stop recordToolCall_def recordToolResult_def recordCodeResult_def)

lemma append_holds:
  assumes "own_files r" "holds_events sid es r"
  shows "holds_events sid (if i = sid then es @ [e\<lparr>je_ts := t, je_seq := length es\<rparr>] else es) (appendEvent t i e r)"
proof (cases "map_of (activeSessions r) i")
  case None
  then show ?thesis using assms by (auto simp: holds_events_def appendEvent_def)
next
  case (Some s)
  then have f: "as_file s = i @ ''.jsonl''" using assms(1) by (simp add: own_files_def)
  show ?thesis
  proof (cases "i = sid")
    case True
    then show ?thesis using assms Some by (auto simp: holds_events_def appendEvent_def Let_def)
  next
    case False
    then show ?thesis using assms Some f by (simp add: holds_events_def appendEvent_def Let_def)
  qed
qed

lemma step_holds:
  assumes "own_files r" "holds_events sid es r" "op \<noteq> OpStop sid"
  shows "holds_events sid (case op_event sid op of Some e \<Rightarrow> es @ [e\<lparr>je_seq := length es\<rparr>] | None \<Rightarrow> es) (replay_step r op)"
proof (cases op)
  case (OpStop i)
  then show ?thesis using assms by (auto simp: holds_events_def stopRecording_def split: option.splits)
next
  case (OpCall t i server tool args)
  then show ?thesis using append_holds [OF assms(1,2), of i t "call_event server tool args"] by (auto simp: recordToolCall_def)
next
  case (OpResult t i server tool res)
  then show ?thesis using append_holds [OF assms(1,2), of i t "result_event server tool res"] by (auto simp: recordToolResult_def)
next
  case (OpCode t i res)
  then show ?thesis using append_holds [OF assms(1,2), of i t "code_event res"] by (auto simp: recordCodeResult_def)
qed

lemma recorded_events_snoc:
  "recorded_events sid (ops @ [op]) =
     (case op_event sid op of Some e \<Rightarrow> recorded_events sid ops @ [e\<lparr>je_seq := length (recorded_events sid ops)\<rparr>]
      | None \<Rightarrow> recorded_events sid ops)"
  by (simp add: recorded_events_def List.map_filter_def split: option.splits)

lemma run_holds:
  assumes "own_files r" "holds_events sid [] r" "OpStop sid \<notin> set ops"
  shows "own_files (foldl replay_step r ops) \<and> holds_events sid (recorded_events sid ops) (foldl replay_step r ops)"
  using assms(3)
proof (induction ops rule: rev_induct)
  case Nil
  then show ?case using assms by (simp add: recorded_events_def List.map_filter_def)
next
  case (snoc op ops)
  then have ih: "own_files (foldl replay_step r ops)" "holds_events sid (recorded_events sid ops) (foldl replay_step r ops)"
    and n: "op \<noteq> OpStop sid" by auto
  show ?case using own_files_step [OF ih(1)] step_holds [OF ih n] by (simp add: recorded_events_snoc)
qed

lemma renumbered_twice: "renumbered (renumbered es) = renumbered es"
  by (induction es rule: rev_induct) auto

text \<open>C25: A recording replays as it was made. Every event is written to the text of its file as the JSON text
  of an object and a line break, and a replay reads that text: it splits it into lines, drops blank ones,
  parses the others and takes them as events. Whatever is recorded for other sessions in between, and
  whichever of them stop, a session that is started, records its events and stops reports their number,
  and the replay of its file without modifications gives these events in order, numbered from 0, with
  the result of the last code result and no divergence. \<open>JSON.parse\<close> has to give back the objects whose
  text was written.\<close>

theorem recording_replays:
  assumes "own_files r" "OpStop sid \<notin> set ops" "parses_back parse (recorded_events sid ops)"
  shows "let ((i, file), r0) = startRecording t uuid (Some sid) r;
             (res, r1) = stopRecording sid (foldl replay_step r0 ops);
             es = recorded_events sid ops
         in res = Inr (file, length es)
            \<and> replay parse file [] r1 =
                Inr \<lparr>rp_result = Option.bind (last_such code_result es) je_result, rp_events = es, rp_divergence = None\<rparr>
            \<and> \<not> isRecording sid r1"
proof -
  let ?r0 = "snd (startRecording t uuid (Some sid) r)"
  let ?r1 = "foldl replay_step ?r0 ops"
  have "holds_events sid [] ?r0" by (simp add: holds_events_def startRecording_def Let_def nullish_def)
  then have h: "holds_events sid (recorded_events sid ops) ?r1"
    using run_holds [OF own_files_start [OF assms(1)] _ assms(2)] by simp
  have ren: "renumbered (recorded_events sid ops) = recorded_events sid ops"
    by (simp add: recorded_events_def renumbered_twice)
  obtain f where f: "map_of (rc_files ?r1) (sid @ ''.jsonl'') = Some f" "rc_text f = journal_text (recorded_events sid ops)"
    using h by (auto simp: holds_events_def)
  let ?r2 = "?r1\<lparr>activeSessions := AList.delete sid (activeSessions ?r1)\<rparr>"
  have st: "stopRecording sid ?r1 = (Inr (sid @ ''.jsonl'', length (recorded_events sid ops)), ?r2)"
    using h by (simp add: holds_events_def stopRecording_def)
  have nm: "fst (startRecording t uuid (Some sid) r) = (sid, sid @ ''.jsonl'')"
    by (simp add: startRecording_def nullish_def Let_def)
  have "loadRecording parse (sid @ ''.jsonl'') ?r2 = Inr (recorded_events sid ops)"
    by (rule load_journal [OF _ f(2) assms(3)]) (simp add: f(1))
  then show ?thesis
    using st nm by (simp add: case_prod_beta Let_def replay_def replay_unmodified ren isRecording_def)
qed

definition demo_recorder :: replay_recorder where
  "demo_recorder = \<lparr>maxTotalBytes = 1000, rc_files = [], activeSessions = []\<rparr>"

definition demo_ops :: "replay_op list" where
  "demo_ops = [OpCall 1 ''s'' ''github'' ''list'' (JObj []), OpCode 2 ''other'' None,
     OpResult 3 ''s'' ''github'' ''list'' (Some (JNum 4)), OpStop ''other'', OpCode 5 ''s'' (Some (JStr ''ok''))]"

text \<open>A parser of the lines of one journal.\<close>

definition parse_of :: "journal_event list \<Rightarrow> string \<Rightarrow> json option" where
  "parse_of es = map_of (map (\<lambda>e. (json_stringify (event_json e), event_json e)) es)"

lemma parse_of_back: "parses_back (parse_of es) es"
proof -
  have "parse_of es (json_stringify (event_json e)) = Some (event_json e)" if "e \<in> set es" for e
    using that by (induction es) (auto simp: parse_of_def json_stringify_inj)
  then show ?thesis by (simp add: parses_back_def list_all_iff)
qed

theorem recording_replays_witness:
  "let ((i, file), r0) = startRecording 0 ''u'' (Some ''s'') demo_recorder;
       (res, r1) = stopRecording ''s'' (foldl replay_step r0 demo_ops)
   in res = Inr (file, 3)
      \<and> map_option rp_result (case replay (parse_of (recorded_events ''s'' demo_ops)) file [] r1 of Inr x \<Rightarrow> Some x | Inl _ \<Rightarrow> None)
        = Some (Some (JStr ''ok''))"
proof -
  have o: "own_files demo_recorder" by (simp add: own_files_def demo_recorder_def)
  have s: "OpStop ''s'' \<notin> set demo_ops" by (simp add: demo_ops_def)
  have e: "length (recorded_events ''s'' demo_ops) = 3"
    "Option.bind (last_such code_result (recorded_events ''s'' demo_ops)) je_result = Some (JStr ''ok'')"
    by (simp_all add: recorded_events_def demo_ops_def List.map_filter_def renumbered_def last_such_def code_result_def
        call_event_def result_event_def code_event_def blank_event_def)
  show ?thesis using recording_replays [OF o s parse_of_back, of 0 "''u''"] e by (simp add: case_prod_beta Let_def)
qed

text \<open>Rotation keeps the recordings within their limit; only when nothing is left can they exceed it, which a
  limit of 0 or more excludes. What it removes is the oldest file at that moment, also when it belongs
  to a session that is still recording.\<close>

lemma rotate_bounds:
  "int (dirTotalBytes (replay_rotate limit fs)) \<le> max 0 limit"
proof (induction limit fs rule: replay_rotate.induct)
  case (1 limit fs)
  have "oldestFile fs = None \<Longrightarrow> dirTotalBytes fs = 0"
  proof -
    assume "oldestFile fs = None"
    then have "sort_key (\<lambda>(n, f). rc_mtime f) (recording_files fs) = []" by (auto simp: oldestFile_def split: list.splits)
    then have "recording_files fs = []" by (metis length_0_conv length_sort)
    then show "dirTotalBytes fs = 0" by (simp add: dirTotalBytes_def)
  qed
  then show ?case using 1 by (subst replay_rotate.simps) (auto split: option.splits)
qed

definition one_running :: replay_recorder where
  "one_running = recordCodeResult 1 ''a'' (Some (JStr ''long enough'')) (snd (startRecording 0 ''u'' (Some ''a'') (demo_recorder\<lparr>maxTotalBytes := 10\<rparr>)))"

lemma rotation_deletes_a_running_recording:
  "isRecording ''a'' (snd (startRecording 2 ''u'' (Some ''b'') one_running))
   \<and> replay parse ''a.jsonl'' [] (snd (startRecording 2 ''u'' (Some ''b'') one_running)) = Inl ''Recording not found: a.jsonl''"
  by code_simp

end
