(* ===== verification/JsText.thy ===== *)
theory JsText
  imports Json
begin

text \<open>
  Further text operations of the language that several components use: \<open>split\<close> at a character,
  \<open>String(value)\<close> and the indented form of \<open>JSON.stringify\<close>.
\<close>

fun split_on :: "char \<Rightarrow> string \<Rightarrow> string list" where
  "split_on d [] = [[]]"
| "split_on d (c # cs) =
     (if c = d then [] # split_on d cs
      else (case split_on d cs of l # ls \<Rightarrow> (c # l) # ls | [] \<Rightarrow> [[c]]))"

lemma split_on_nonempty [simp]: "split_on d s \<noteq> []"
  by (cases s) (auto split: list.splits)

lemma split_on_free: "x \<in> set (split_on d s) \<Longrightarrow> d \<notin> set x"
proof (induction s arbitrary: x)
  case (Cons c s)
  obtain l ls where s: "split_on d s = l # ls" by (cases "split_on d s") auto
  then show ?case using Cons by (auto split: if_splits)
qed simp

lemma join_split_on: "join [d] (split_on d s) = s"
proof (induction s)
  case (Cons c s)
  obtain l ls where s: "split_on d s = l # ls" by (cases "split_on d s") auto
  then show ?case using Cons by (cases ls) auto
qed simp

text \<open>\<open>String(value)\<close>; in the text of an array, \<open>null\<close> is empty.\<close>

fun js_String :: "json \<Rightarrow> string" where
  "js_String JNull = ''null''"
| "js_String (JBool b) = (if b then ''true'' else ''false'')"
| "js_String (JNum n) = show_int n"
| "js_String (JStr s) = s"
| "js_String (JArr xs) = join '','' (map (\<lambda>x. if x = JNull then [] else js_String x) xs)"
| "js_String (JObj kvs) = ''[object Object]''"

text \<open>\<open>JSON.stringify(value, null, 2)\<close>, inside \<open>n\<close> levels.\<close>

definition new_line :: "nat \<Rightarrow> string" where
  "new_line n = CHR 0x0A # replicate (2 * n) (CHR '' '')"

fun json_pretty :: "nat \<Rightarrow> json \<Rightarrow> string" where
  "json_pretty n JNull = ''null''"
| "json_pretty n (JBool b) = (if b then ''true'' else ''false'')"
| "json_pretty n (JNum i) = show_int i"
| "json_pretty n (JStr s) = quote_string s"
| "json_pretty n (JArr xs) =
     (if xs = [] then ''[]''
      else ''['' @ new_line (n + 1) @ join ('','' @ new_line (n + 1)) (map (json_pretty (n + 1)) xs) @ new_line n @ '']'')"
| "json_pretty n (JObj kvs) =
     (if kvs = [] then [CHR 0x7B, CHR 0x7D]
      else CHR 0x7B # new_line (n + 1)
           @ join ('','' @ new_line (n + 1)) (map (\<lambda>(k, v). quote_string k @ '': '' @ json_pretty (n + 1) v) kvs)
           @ new_line n @ [CHR 0x7D])"

lemma js_index_of_nonempty: "js_index_of s sep = Some i \<Longrightarrow> sep \<noteq> [] \<Longrightarrow> s \<noteq> []"
  by (cases s) auto

text \<open>\<open>Object.entries(v)\<close>: an array and a text have their indices as keys.\<close>

fun object_entries :: "json \<Rightarrow> (string \<times> json) list" where
  "object_entries (JObj kvs) = own_properties kvs"
| "object_entries (JArr xs) = zip (map show_nat [0..<length xs]) xs"
| "object_entries (JStr s) = zip (map show_nat [0..<length s]) (map (\<lambda>c. JStr [c]) s)"
| "object_entries _ = []"

lemma distinct_own:
  assumes "distinct (map fst kvs)"
  shows "distinct (map fst (own_properties kvs))"
proof -
  have "distinct kvs" "inj_on fst (set kvs)" using assms by (auto simp: distinct_map)
  then have "distinct (own_properties kvs)" "inj_on fst (set (own_properties kvs))"
    by (auto simp: own_properties_def Let_def intro: inj_on_subset)
  then show ?thesis by (simp add: distinct_map)
qed

text \<open>\<open>toUpperCase\<close> on the letters a to z, and \<open>split\<close> at a text.\<close>

definition js_upper :: "string \<Rightarrow> string" where
  "js_upper s = map (\<lambda>c. if 97 \<le> (of_char c :: nat) \<and> (of_char c :: nat) \<le> 122 then char_of ((of_char c :: nat) - 32) else c) s"

function split_at_text :: "string \<Rightarrow> string \<Rightarrow> string list" where
  "split_at_text sep s =
     (case js_index_of s sep of
        Some i \<Rightarrow> (if sep = [] then [s] else take i s # split_at_text sep (drop (i + length sep) s))
      | None \<Rightarrow> [s])"
  by pat_completeness auto
termination by (relation "measure (length \<circ> snd)") (auto simp: js_index_of_nonempty)

declare split_at_text.simps [simp del]

definition ellipsis :: char where
  "ellipsis = CHR 0x85"

lemma length_quote_string: "length s + 2 \<le> length (quote_string s)"
proof -
  have "length s \<le> length (concat (map escape_char s))"
  proof (induction s)
    case (Cons c s)
    then show ?case using escape_char_simps [of c] by (cases "escape_char c") auto
  qed simp
  then show ?thesis by (simp add: quote_string_def)
qed

end
