(* ===== verification/RuntimeHelpers.thy ===== *)
theory RuntimeHelpers
  imports JsText
begin

text \<open>
  The helpers of the sandbox: \<open>src/src/runtime/helpers/compact.ts\<close>, \<open>summarize.ts\<close>, \<open>budget.ts\<close> and \<open>delta.ts\<close>.
  The data are JSON values. A field path with a segment named \<open>__proto__\<close> is outside the model (there the code
  writes to the prototype of all objects).
\<close>

subsection \<open>compact\<close>

record compact_options =
  co_fields :: "string list option"
  maxItems :: "nat option"
  maxDepth :: "nat option"
  maxStringLength :: "nat option"

definition no_compact_options :: compact_options where
  "no_compact_options = \<lparr>co_fields = None, maxItems = None, maxDepth = None, maxStringLength = None\<rparr>"

text \<open>The tree of selected fields: \<open>true\<close>, or an object of further selections.\<close>

datatype selector = Whole | Parts "(string \<times> selector) list"

fun select_path :: "string list \<Rightarrow> (string \<times> selector) list \<Rightarrow> (string \<times> selector) list" where
  "select_path [] t = t"
| "select_path [p] t = AList.update p Whole t"
| "select_path (p # q # ps) t =
     AList.update p (Parts (select_path (q # ps) (case map_of t p of Some (Parts u) \<Rightarrow> u | _ \<Rightarrow> []))) t"

definition buildSelectorTree :: "string list \<Rightarrow> (string \<times> selector) list" where
  "buildSelectorTree paths = foldl (\<lambda>t f. select_path (split_on (CHR ''.'') f) t) [] paths"

definition clip_text :: "compact_options \<Rightarrow> string \<Rightarrow> string" where
  "clip_text opts s =
     (case maxStringLength opts of
        Some m \<Rightarrow> (if length s > m then take m s @ [ellipsis] else s) | None \<Rightarrow> s)"

definition first_items :: "compact_options \<Rightarrow> 'a list \<Rightarrow> 'a list" where
  "first_items opts xs = (case maxItems opts of Some m \<Rightarrow> take m xs | None \<Rightarrow> xs)"

definition too_deep :: "compact_options \<Rightarrow> nat \<Rightarrow> bool" where
  "too_deep opts depth = (case maxDepth opts of Some m \<Rightarrow> depth > m | None \<Rightarrow> False)"

definition child_selector :: "selector \<Rightarrow> (string \<times> selector) list option" where
  "child_selector s = (case s of Whole \<Rightarrow> None | Parts t \<Rightarrow> Some t)"

text \<open>The selected properties: those of the selector's keys that the object has.\<close>

definition selected :: "(string \<times> selector) list \<Rightarrow> (string \<times> json) list \<Rightarrow> (string \<times> json \<times> (string \<times> selector) list option) list" where
  "selected t kvs =
     List.map_filter (\<lambda>(k, s). map_option (\<lambda>v. (k, v, child_selector s)) (map_of kvs k)) (own_properties t)"

lemma selected_from: "(k, v, s) \<in> set (selected t kvs) \<Longrightarrow> map_of kvs k = Some v"
  by (auto simp: selected_def List.map_filter_def)

lemma selected_size [termination_simp]: "(k, v, s) \<in> set (selected t kvs) \<Longrightarrow> size v < Suc (size_list (size_prod f size) kvs)"
  by (rule size_member) (rule map_of_SomeD, rule selected_from)

lemma first_items_size [termination_simp]: "v \<in> set (first_items opts xs) \<Longrightarrow> size v < Suc (size_list size xs)"
  by (auto simp: first_items_def split: option.splits dest: in_set_takeD intro: size_element)

function trimValue :: "compact_options \<Rightarrow> json \<Rightarrow> (string \<times> selector) list option \<Rightarrow> nat \<Rightarrow> json" where
  "trimValue opts (JStr s) sel depth = (if too_deep opts depth then JStr s else JStr (clip_text opts s))"
| "trimValue opts (JArr xs) sel depth =
     (if too_deep opts depth then JStr ''[truncated]''
      else JArr (map (\<lambda>x. trimValue opts x sel (depth + 1)) (first_items opts xs)))"
| "trimValue opts (JObj kvs) sel depth =
     (if too_deep opts depth then JStr ''[truncated]''
      else if sel \<noteq> None \<and> sel \<noteq> Some []
      then JObj (own_properties (map (\<lambda>(k, v, s). (k, trimValue opts v s (depth + 1))) (selected (the sel) kvs)))
      else JObj (own_properties (map (\<lambda>(k, v). (k, trimValue opts v None (depth + 1))) kvs)))"
| "trimValue opts JNull sel depth = JNull"
| "trimValue opts (JBool b) sel depth = JBool b"
| "trimValue opts (JNum n) sel depth = JNum n"
  by pat_completeness auto
termination
  by (relation "measure (\<lambda>(opts, v, sel, depth). size v)")
    (auto intro: selected_size first_items_size size_member)

definition compact_value :: "json \<Rightarrow> compact_options \<Rightarrow> json" where
  "compact_value data opts =
     trimValue opts data
       (case co_fields opts of Some fs \<Rightarrow> (if fs = [] then None else Some (buildSelectorTree fs)) | None \<Rightarrow> None) 0"

subsection \<open>summarize\<close>

datatype summarize_style = ListStyle | ParagraphStyle | JsonStyle

definition CHARS_PER_TOKEN :: nat where
  "CHARS_PER_TOKEN = 4"

definition clip :: "string \<Rightarrow> nat \<Rightarrow> string" where
  "clip t maxChars = (if length t \<le> maxChars then t else take (maxChars - 1) t @ [ellipsis])"

definition renderJson :: "json \<Rightarrow> nat \<Rightarrow> string" where
  "renderJson data maxChars = clip (json_pretty 0 data) maxChars"

text \<open>\<open>Object.entries\<close> and whether \<open>typeof\<close> says \<open>object\<close>, for values other than \<open>null\<close>.\<close>

fun entries_of :: "json \<Rightarrow> (string \<times> json) list option" where
  "entries_of (JObj kvs) = Some kvs"
| "entries_of (JArr xs) = Some (map (\<lambda>(i, x). (show_nat i, x)) (enumerate 0 xs))"
| "entries_of _ = None"

definition bullet :: string where
  "bullet = [CHR 0x95, CHR '' '']"

definition item_line :: "json \<Rightarrow> string" where
  "item_line item =
     bullet @ (case entries_of item of
        Some es \<Rightarrow> join '', '' (map (\<lambda>(k, v). k @ ''='' @ json_stringify v) (take 4 es))
      | None \<Rightarrow> js_String item)"

definition list_lines :: "json \<Rightarrow> string list" where
  "list_lines data =
     (case data of
        JArr xs \<Rightarrow> map item_line xs
      | JObj kvs \<Rightarrow> map (\<lambda>(k, v). k @ '': '' @ (if entries_of v \<noteq> None \<or> v = JNull then json_stringify v else js_String v)) kvs
      | _ \<Rightarrow> [js_String data])"

fun fit_lines :: "nat \<Rightarrow> string \<Rightarrow> string list \<Rightarrow> string" where
  "fit_lines budget res [] = res"
| "fit_lines budget res (l # ls) =
     (let candidate = (if res \<noteq> [] then res @ [CHR 0x0A] @ l else l) in
      if length candidate > budget
      then (let remaining = int budget - int (length res) - 1
            in if remaining > 4 then res @ (if res \<noteq> [] then [CHR 0x0A] else []) @ clip l (nat remaining) else res)
      else fit_lines budget candidate ls)"

definition renderList :: "json \<Rightarrow> nat \<Rightarrow> string" where
  "renderList data maxChars =
     (let res = fit_lines maxChars [] (list_lines data)
      in if res \<noteq> [] then res else clip (js_String data) maxChars)"

definition plural :: "nat \<Rightarrow> string" where
  "plural n = (if n \<noteq> 1 then ''s'' else [])"

definition paragraph_text :: "json \<Rightarrow> string" where
  "paragraph_text data =
     (case data of
        JStr s \<Rightarrow> s
      | JArr xs \<Rightarrow>
          show_nat (length xs) @ '' item'' @ plural (length xs) @ '': ''
          @ join '', '' (map (\<lambda>x. take 60 (if entries_of x \<noteq> None then json_stringify x else js_String x)) (take 3 xs))
          @ (if length xs > 3 then ''...'' else [])
      | JObj kvs \<Rightarrow>
          ''Object with '' @ show_nat (length kvs) @ '' field'' @ plural (length kvs) @ '': ''
          @ join ''; '' (map (\<lambda>(k, v). k @ '': '' @ take 30 (json_stringify v)) (take 5 kvs))
      | _ \<Rightarrow> js_String data)"

definition renderParagraph :: "json \<Rightarrow> nat \<Rightarrow> string" where
  "renderParagraph data maxChars = clip (paragraph_text data) maxChars"

definition summarize :: "json \<Rightarrow> nat \<Rightarrow> summarize_style option \<Rightarrow> string" where
  "summarize data maxTokens style =
     (let maxChars = maxTokens * CHARS_PER_TOKEN in
      case nullish style ListStyle of
        JsonStyle \<Rightarrow> renderJson data maxChars
      | ParagraphStyle \<Rightarrow> renderParagraph data maxChars
      | ListStyle \<Rightarrow> renderList data maxChars)"

subsection \<open>budget\<close>

text \<open>\<open>BudgetExceededError\<close>: the estimate and the budget.\<close>

datatype budget_error = BudgetExceeded nat nat | CallFailed string

definition ceil_div :: "nat \<Rightarrow> nat \<Rightarrow> nat" where
  "ceil_div a b = (a + b - 1) div b"

definition budget_estimate :: "json \<Rightarrow> nat" where
  "budget_estimate data = ceil_div (length (json_stringify data)) CHARS_PER_TOKEN"

definition fits :: "nat \<Rightarrow> json \<Rightarrow> bool" where
  "fits maxTokens v \<longleftrightarrow> budget_estimate v \<le> maxTokens"

definition trimmed_arrays :: "json \<Rightarrow> json list" where
  "trimmed_arrays data =
     (case data of
        JArr _ \<Rightarrow> map (\<lambda>m. compact_value data (no_compact_options\<lparr>maxItems := Some m, maxStringLength := Some 200\<rparr>)) [100, 50, 20, 10, 5, 1]
      | _ \<Rightarrow> [])"

definition trimmed_objects :: "json \<Rightarrow> json list" where
  "trimmed_objects data =
     (if entries_of data \<noteq> None
      then map (\<lambda>d. compact_value data (no_compact_options\<lparr>maxDepth := Some d, maxItems := Some 20, maxStringLength := Some 200\<rparr>)) [5, 3, 2, 1]
      else [])"

definition clipped_raw :: "json \<Rightarrow> nat \<Rightarrow> string" where
  "clipped_raw data maxTokens =
     (let maxChars = maxTokens * CHARS_PER_TOKEN;
          raw = (case data of JStr s \<Rightarrow> s | _ \<Rightarrow> json_stringify data)
      in (if maxChars = 0 then butlast raw else take (maxChars - 1) raw) @ [ellipsis])"

definition trim_candidates :: "json \<Rightarrow> nat \<Rightarrow> json list" where
  "trim_candidates data maxTokens =
     trimmed_arrays data @ trimmed_objects data
     @ [JStr (summarize data maxTokens (Some ListStyle)), JStr (summarize data maxTokens (Some ParagraphStyle)),
        JStr (clipped_raw data maxTokens)]"

definition tryTrim :: "json \<Rightarrow> nat \<Rightarrow> budget_error + json" where
  "tryTrim data maxTokens =
     (case find (fits maxTokens) (trim_candidates data maxTokens) of
        Some v \<Rightarrow> Inr v | None \<Rightarrow> Inl (BudgetExceeded (budget_estimate data) maxTokens))"

definition budget_call :: "nat \<Rightarrow> string + json \<Rightarrow> budget_error + json" where
  "budget_call maxTokens fn =
     (case fn of
        Inl e \<Rightarrow> Inl (CallFailed e)
      | Inr data \<Rightarrow> (if fits maxTokens data then Inr data else tryTrim data maxTokens))"

subsection \<open>What compact guarantees\<close>

fun arrays_within :: "nat \<Rightarrow> json \<Rightarrow> bool" where
  "arrays_within n (JArr xs) = (length xs \<le> n \<and> list_all (arrays_within n) xs)"
| "arrays_within n (JObj kvs) = list_all (\<lambda>(k, v). arrays_within n v) kvs"
| "arrays_within n _ = True"

fun nested_within :: "nat \<Rightarrow> json \<Rightarrow> bool" where
  "nested_within n (JArr xs) = (case n of 0 \<Rightarrow> False | Suc m \<Rightarrow> list_all (nested_within m) xs)"
| "nested_within n (JObj kvs) = (case n of 0 \<Rightarrow> False | Suc m \<Rightarrow> list_all (\<lambda>(k, v). nested_within m v) kvs)"
| "nested_within n _ = True"

text \<open>The texts at most \<open>d\<close> levels below have at most \<open>n\<close> characters.\<close>

fun texts_within :: "nat \<Rightarrow> nat \<Rightarrow> json \<Rightarrow> bool" where
  "texts_within n d (JStr s) = (length s \<le> n)"
| "texts_within n d (JArr xs) = (case d of 0 \<Rightarrow> True | Suc m \<Rightarrow> list_all (texts_within n m) xs)"
| "texts_within n d (JObj kvs) = (case d of 0 \<Rightarrow> True | Suc m \<Rightarrow> list_all (\<lambda>(k, v). texts_within n m v) kvs)"
| "texts_within n d _ = True"

lemma within_level:
  "texts_within n d (JArr xs) \<longleftrightarrow> d = 0 \<or> list_all (texts_within n (d - 1)) xs"
  "texts_within n d (JObj kvs) \<longleftrightarrow> d = 0 \<or> list_all (\<lambda>(k, v). texts_within n (d - 1) v) kvs"
  by (cases d; simp)+

lemma list_all_own_properties: "(\<And>k v. (k, v) \<in> set kvs \<Longrightarrow> P v) \<Longrightarrow> list_all (\<lambda>(k, v). P v) (own_properties kvs)"
  by (auto simp: list_all_iff set_own_properties)

lemma trimmed_parts:
  assumes "\<not> too_deep opts depth"
  shows "trimValue opts (JArr xs) sel depth = JArr (map (\<lambda>x. trimValue opts x sel (depth + 1)) (first_items opts xs))"
    and "\<exists>parts. trimValue opts (JObj kvs) sel depth = JObj parts
           \<and> (\<forall>(k, w)\<in>set parts. \<exists>v s. v \<in> snd ` set kvs \<and> w = trimValue opts v s (depth + 1))"
proof -
  show "trimValue opts (JArr xs) sel depth = JArr (map (\<lambda>x. trimValue opts x sel (depth + 1)) (first_items opts xs))"
    using assms by simp
  show "\<exists>parts. trimValue opts (JObj kvs) sel depth = JObj parts
           \<and> (\<forall>(k, w)\<in>set parts. \<exists>v s. v \<in> snd ` set kvs \<and> w = trimValue opts v s (depth + 1))"
  proof (cases "sel \<noteq> None \<and> sel \<noteq> Some []")
    case True
    have "\<exists>v s. v \<in> snd ` set kvs \<and> w = trimValue opts v s (depth + 1)"
      if "(k, w) \<in> set (own_properties (map (\<lambda>(k, v, s). (k, trimValue opts v s (depth + 1))) (selected (the sel) kvs)))" for k w
      using that by (force simp: set_own_properties dest!: selected_from map_of_SomeD)
    then show ?thesis using assms True by auto
  next
    case False
    have "\<exists>v s. v \<in> snd ` set kvs \<and> w = trimValue opts v s (depth + 1)"
      if "(k, w) \<in> set (own_properties (map (\<lambda>(k, v). (k, trimValue opts v None (depth + 1))) kvs))" for k w
      using that by (force simp: set_own_properties)
    then show ?thesis using assms False by auto
  qed
qed

lemma trim_preserves:
  assumes leaf: "\<And>t depth. P depth (JStr (clip_text opts t))" "\<And>t depth. too_deep opts depth \<Longrightarrow> P depth (JStr t)"
    "\<And>depth. P depth JNull" "\<And>depth b. P depth (JBool b)" "\<And>depth n. P depth (JNum n)"
    and arr: "\<And>depth xs. \<not> too_deep opts depth \<Longrightarrow> (\<And>x. x \<in> set xs \<Longrightarrow> P (depth + 1) x) \<Longrightarrow> (\<And>m. maxItems opts = Some m \<Longrightarrow> length xs \<le> m)
       \<Longrightarrow> P depth (JArr xs)"
    and obj: "\<And>depth kvs. \<not> too_deep opts depth \<Longrightarrow> (\<And>k v. (k, v) \<in> set kvs \<Longrightarrow> P (depth + 1) v) \<Longrightarrow> P depth (JObj kvs)"
  shows "P depth (trimValue opts v sel depth)"
proof (induction v arbitrary: sel depth)
  case (JStr t)
  then show ?case using leaf(1,2) by simp
next
  case (JArr xs)
  show ?case
  proof (cases "too_deep opts depth")
    case False
    have l: "length (first_items opts xs) \<le> m" if "maxItems opts = Some m" for m
      using that by (simp add: first_items_def)
    have "set (first_items opts xs) \<subseteq> set xs"
      by (auto simp: first_items_def split: option.splits dest: in_set_takeD)
    then have "P depth (JArr (map (\<lambda>x. trimValue opts x sel (depth + 1)) (first_items opts xs)))"
      using l by (intro arr [OF False]) (auto intro: JArr.IH)
    then show ?thesis using trimmed_parts(1) [OF False, of xs sel] by simp
  qed (simp add: leaf)
next
  case (JObj kvs)
  show ?case
  proof (cases "too_deep opts depth")
    case False
    obtain parts where parts: "trimValue opts (JObj kvs) sel depth = JObj parts"
      "\<forall>(k, w)\<in>set parts. \<exists>v s. v \<in> snd ` set kvs \<and> w = trimValue opts v s (depth + 1)"
      using trimmed_parts(2) [OF False] by blast
    have "P (depth + 1) w" if kw: "(k, w) \<in> set parts" for k w
    proof -
      obtain v s where "v \<in> snd ` set kvs" "w = trimValue opts v s (depth + 1)"
        using bspec [OF parts(2) kw] by auto
      then obtain k' where kv: "(k', v) \<in> set kvs" by auto
      have "P (depth + 1) (trimValue opts v s (depth + 1))" by (rule JObj.IH [OF kv]) (simp add: prod_set_simps)
      then show ?thesis by (simp only: \<open>w = _\<close>)
    qed
    then show ?thesis using obj [OF False, of parts] parts(1) by simp
  qed (simp add: leaf)
qed (simp_all add: leaf)

lemma compact_arrays: "maxItems opts = Some n \<Longrightarrow> arrays_within n (compact_value data opts)"
  unfolding compact_value_def by (rule trim_preserves) (auto simp: list_all_iff)

lemma compact_nesting: "maxDepth opts = Some n \<Longrightarrow> nested_within (n + 1) (compact_value data opts)"
proof -
  assume n: "maxDepth opts = Some n"
  have "nested_within (n + 1 - 0) (trimValue opts data sel 0)" for sel
    using n by (intro trim_preserves [where P = "\<lambda>d. nested_within (n + 1 - d)"])
      (auto simp: list_all_iff too_deep_def Suc_diff_le split: nat.splits)
  then show ?thesis by (simp add: compact_value_def)
qed

lemma compact_texts:
  assumes "maxStringLength opts = Some n" "maxDepth opts = None \<or> maxDepth opts = Some d"
  shows "texts_within (n + 1) d (compact_value data opts)"
proof -
  have "0 \<le> d \<longrightarrow> texts_within (n + 1) (d - 0) (trimValue opts data sel 0)" for sel
  proof (rule trim_preserves [where P = "\<lambda>i v. i \<le> d \<longrightarrow> texts_within (n + 1) (d - i) v"])
    show "\<And>t i. too_deep opts i \<Longrightarrow> i \<le> d \<longrightarrow> texts_within (n + 1) (d - i) (JStr t)"
      using assms(2) by (auto simp: too_deep_def)
    show "\<And>t i. i \<le> d \<longrightarrow> texts_within (n + 1) (d - i) (JStr (clip_text opts t))"
      using assms(1) by (simp add: clip_text_def)
  qed (auto simp: list_all_iff within_level simp del: texts_within.simps(2,3))
  then show ?thesis by (simp add: compact_value_def)
qed

text \<open>The texts one level below the deepest one that is kept are not clipped.\<close>

lemma deepest_texts_are_not_clipped:
  "compact_value (JObj [(''note'', JStr ''abcdef'')]) (no_compact_options\<lparr>maxDepth := Some 0, maxStringLength := Some 3\<rparr>)
     = JObj [(''note'', JStr ''abcdef'')]"
  by code_simp

subsection \<open>Budgets\<close>

lemma fits_iff: "fits m v \<longleftrightarrow> length (json_stringify v) \<le> 4 * m"
  unfolding fits_def budget_estimate_def ceil_div_def CHARS_PER_TOKEN_def by presburger

lemma long_text_does_not_fit: "4 * m < length t + 2 \<Longrightarrow> \<not> fits m (JStr t)"
  using length_quote_string [of t] by (simp add: fits_iff)

lemma length_clip: "length (clip t m) = (if length t \<le> m then length t else max 1 m)"
  by (auto simp: clip_def)

lemma fit_lines_bound: "length res \<le> m \<Longrightarrow> length (fit_lines m res ls) \<le> m"
proof (induction ls arbitrary: res)
  case (Cons l ls)
  then show ?case by (auto simp: Let_def length_clip)
qed simp

lemma summarize_length: "length (summarize data m style) \<le> max 1 (4 * m)"
proof -
  have "length (clip t n) \<le> max 1 n" for t n by (simp add: length_clip) linarith
  moreover have "length (renderList data n) \<le> max 1 n" for n
    using fit_lines_bound [of "[]" n "list_lines data"] calculation [of _ n]
    by (auto simp: renderList_def Let_def intro: order.trans)
  ultimately show ?thesis
    by (simp add: summarize_def renderJson_def renderParagraph_def CHARS_PER_TOKEN_def mult.commute Let_def split: summarize_style.split)
qed

text \<open>The last resort of the trimming, the clipped raw text, never fits: with its quotes it is two characters too long.\<close>

lemma raw_clip_never_fits:
  assumes "\<not> fits m data"
  shows "\<not> fits m (JStr (clipped_raw data m))"
proof (cases "m = 0")
  case True
  then show ?thesis by (intro long_text_does_not_fit) simp
next
  case False
  let ?raw = "case data of JStr s \<Rightarrow> s | _ \<Rightarrow> json_stringify data"
  have r: "clipped_raw data m = take (4 * m - 1) ?raw @ [ellipsis]"
    using False by (simp add: clipped_raw_def CHARS_PER_TOKEN_def Let_def mult.commute)
  show ?thesis
  proof (cases "4 * m - 1 \<le> length ?raw")
    case True
    then have "length (clipped_raw data m) = 4 * m" using r False by simp
    then show ?thesis by (intro long_text_does_not_fit) simp
  next
    case short: False
    then obtain t where "data = JStr t"
      using assms by (cases data) (auto simp: fits_iff)
    then show ?thesis using r short assms by (simp add: fits_iff quote_string_def)
  qed
qed

lemma long_text_summaries:
  assumes "\<not> fits m (JStr t)"
  shows "\<not> fits m (JStr (summarize (JStr t) m (Some ListStyle)))" "\<not> fits m (JStr (summarize (JStr t) m (Some ParagraphStyle)))"
proof -
  have clipped: "\<not> fits m (JStr (clip t n))" if "4 * m \<le> n + 1" "n \<le> 4 * m" for n
  proof (cases "length t \<le> n")
    case False
    then have "length (clip t n) = max 1 n" by (simp add: length_clip)
    then show ?thesis using that(1) by (intro long_text_does_not_fit) auto
  qed (simp add: clip_def assms)
  then show "\<not> fits m (JStr (summarize (JStr t) m (Some ParagraphStyle)))"
    by (simp add: summarize_def renderParagraph_def paragraph_text_def nullish_def CHARS_PER_TOKEN_def mult.commute)
  have "renderList (JStr t) (4 * m) \<in> {t, clip t (4 * m), clip t (4 * m - 1)}"
  proof -
    have "nat (int (4 * m) - 1) = 4 * m - 1" by linarith
    then show ?thesis by (auto simp: renderList_def list_lines_def Let_def clip_def)
  qed
  then show "\<not> fits m (JStr (summarize (JStr t) m (Some ListStyle)))"
    using clipped [of "4 * m"] clipped [of "4 * m - 1"] assms
    by (auto simp: summarize_def nullish_def CHARS_PER_TOKEN_def mult.commute)
qed

text \<open>What a budgeted call returns. A returned value always fits the budget, and it is the call's own
  result whenever that fits. The only error of the helper itself carries the true estimate, which is over the budget.
  And a text that does not fit is never trimmed: every such call fails, since each clipped text, quoted, is
  longer than the budget.\<close>

theorem budget_outcome:
  "case budget_call m (Inr data) of
     Inr v \<Rightarrow> budget_estimate v \<le> m \<and> (budget_estimate data \<le> m \<longrightarrow> v = data) \<and> (\<forall>t. data = JStr t \<longrightarrow> v = data)
   | Inl e \<Rightarrow> e = BudgetExceeded (budget_estimate data) m \<and> m < budget_estimate data"
proof (cases "fits m data")
  case True
  then show ?thesis by (simp add: budget_call_def fits_def)
next
  case False
  show ?thesis
  proof (cases "find (fits m) (trim_candidates data m)")
    case None
    then show ?thesis using False by (simp add: budget_call_def tryTrim_def fits_def)
  next
    case (Some v)
    then have "fits m v" by (auto simp: find_Some_iff)
    moreover have "data \<noteq> JStr t" for t
      using Some False long_text_summaries [of m t] raw_clip_never_fits [OF False]
      by (auto simp: trim_candidates_def trimmed_arrays_def trimmed_objects_def)
    ultimately show ?thesis using False Some by (simp add: budget_call_def tryTrim_def fits_def)
  qed
qed

theorem budget_outcome_witness:
  "budget_call 2 (Inr (JStr ''abcdefghij'')) = Inl (BudgetExceeded 3 2) \<and> budget_call 3 (Inr (JStr ''abcdefghij'')) = Inr (JStr ''abcdefghij'')"
proof -
  have e: "budget_estimate (JStr ''abcdefghij'') = 3" by code_simp
  from budget_outcome [where data = "JStr ''abcdefghij''" and m = 2] budget_outcome [where data = "JStr ''abcdefghij''" and m = 3] e
  show ?thesis by (auto split: sum.splits)
qed

subsection \<open>delta\<close>

text \<open>The in-process differ of \<open>delta.ts\<close>, for results without keys that every object inherits. The payload is
  the whole value, the changed properties (\<open>None\<close> for one that is gone), or nothing.\<close>

datatype delta_payload = WholeValue json | ChangedKeys "(string \<times> json option) list" | EmptyArray | NoPayload

record helper_delta =
  hd_changed :: bool
  hd_delta :: delta_payload
  hd_changedKeys :: "string list option"
  hd_added :: "nat option"
  hd_removed :: "nat option"

definition snapshotKey :: "string \<Rightarrow> string \<Rightarrow> json \<Rightarrow> string" where
  "snapshotKey server tool args = server @ ''::'' @ tool @ ''::'' @ json_stringify args"

definition diffObjects :: "(string \<times> json) list \<Rightarrow> (string \<times> json) list \<Rightarrow> (string \<times> json option) list" where
  "diffObjects prev now_kvs =
     map (\<lambda>k. (k, map_of now_kvs k))
       (filter (\<lambda>k. map_option json_stringify (map_of prev k) \<noteq> map_option json_stringify (map_of now_kvs k))
          (map fst prev @ filter (\<lambda>k. k \<notin> fst ` set prev) (map fst now_kvs)))"

definition delta_of :: "json \<Rightarrow> json \<Rightarrow> helper_delta" where
  "delta_of previous current =
     (let differ = json_stringify previous \<noteq> json_stringify current in
      case (previous, current) of
        (JArr xs, JArr ys) \<Rightarrow>
          \<lparr>hd_changed = differ, hd_delta = (if differ then WholeValue current else EmptyArray), hd_changedKeys = None,
           hd_added = Some (length ys - length xs), hd_removed = Some (length xs - length ys)\<rparr>
      | (_, JObj now_kvs) \<Rightarrow>
          (case entries_of previous of
             Some prev \<Rightarrow>
               (let d = diffObjects prev now_kvs in
                \<lparr>hd_changed = d \<noteq> [], hd_delta = ChangedKeys d, hd_changedKeys = Some (map fst d), hd_added = None, hd_removed = None\<rparr>)
           | None \<Rightarrow>
               \<lparr>hd_changed = differ, hd_delta = (if differ then WholeValue current else NoPayload), hd_changedKeys = None,
                hd_added = None, hd_removed = None\<rparr>)
      | _ \<Rightarrow>
          \<lparr>hd_changed = differ, hd_delta = (if differ then WholeValue current else NoPayload), hd_changedKeys = None,
           hd_added = None, hd_removed = None\<rparr>)"

definition helper_delta_call ::
    "string \<Rightarrow> string \<Rightarrow> json \<Rightarrow> json \<Rightarrow> (string, json) jsmap \<Rightarrow> helper_delta \<times> (string, json) jsmap" where
  "helper_delta_call server tool args current snapshots =
     (let key = snapshotKey server tool args in
      (case map_of snapshots key of
         None \<Rightarrow> \<lparr>hd_changed = True, hd_delta = WholeValue current, hd_changedKeys = None, hd_added = None, hd_removed = None\<rparr>
       | Some previous \<Rightarrow> delta_of previous current,
       AList.update key current snapshots))"

text \<open>The changed properties lead from the previous object to the current one.\<close>

lemma diffObjects_applies:
  "map_of now_kvs k = (case map_of (diffObjects prev now_kvs) k of Some v \<Rightarrow> v | None \<Rightarrow> map_of prev k)"
proof -
  let ?f = "\<lambda>k. map_option json_stringify (map_of prev k) \<noteq> map_option json_stringify (map_of now_kvs k)"
  have f: "?f k \<longleftrightarrow> map_of prev k \<noteq> map_of now_kvs k" for k
    by (cases "map_of prev k"; cases "map_of now_kvs k") (simp_all add: json_stringify_inj)
  have m: "map_of (map (\<lambda>k. (k, map_of now_kvs k)) ks) k = (if k \<in> set ks then Some (map_of now_kvs k) else None)" for ks
    by (induction ks) auto
  show ?thesis
  proof (cases "?f k")
    case True
    then have "map_of prev k \<noteq> None \<or> map_of now_kvs k \<noteq> None" by auto
    then have "k \<in> fst ` set prev \<union> fst ` set now_kvs" by (auto simp: map_of_eq_None_iff)
    then have "map_of (diffObjects prev now_kvs) k = Some (map_of now_kvs k)"
      using True unfolding diffObjects_def m by auto
    then show ?thesis by simp
  next
    case False
    then have "map_of (diffObjects prev now_kvs) k = None" unfolding diffObjects_def m by simp
    then show ?thesis using False f by simp
  qed
qed

lemma object_change_is_noticed:
  "hd_changed (delta_of (JObj prev) (JObj now_kvs)) \<longleftrightarrow> map_of prev \<noteq> map_of now_kvs"
proof -
  have "diffObjects prev now_kvs = [] \<longleftrightarrow> map_of prev = map_of now_kvs"
  proof
    assume "diffObjects prev now_kvs = []"
    then show "map_of prev = map_of now_kvs" using diffObjects_applies [of now_kvs _ prev] by (auto simp: fun_eq_iff)
  next
    assume "map_of prev = map_of now_kvs"
    then show "diffObjects prev now_kvs = []" by (simp add: diffObjects_def)
  qed
  then show ?thesis by (simp add: delta_of_def Let_def)
qed

end
