(* ===== verification/Permissions.thy ===== *)
theory Permissions
  imports JsText
begin

text \<open>
  The permission entries of a client's settings file: \<open>src/src/utils/permissions.ts\<close>.
\<close>

record permission_lists =
  pl_allow :: "string list option"
  pl_deny :: "string list option"
  pl_ask :: "string list option"

record claude_settings =
  cs_permissions :: "permission_lists option"
  cs_other :: "(string \<times> json) list"

record permission_entry =
  pe_permission :: string
  pe_server :: string
  pe_tool :: string

record permission_result =
  pr_all :: "permission_entry list"
  pr_new :: "permission_entry list"
  pr_existing :: "permission_entry list"

datatype settings_scope = UserScope | ProjectScope

definition getSettingsPath :: "string \<Rightarrow> string \<Rightarrow> settings_scope \<Rightarrow> string" where
  "getSettingsPath home cwd scope = (case scope of UserScope \<Rightarrow> home | ProjectScope \<Rightarrow> cwd) @ ''/.claude/settings.json''"

definition generatePermissionString :: "string \<Rightarrow> string \<Rightarrow> string" where
  "generatePermissionString server tool = ''mcp__'' @ server @ ''__'' @ tool"

text \<open>\<open>/^mcp__([^_]+)__(.+)$/\<close>: the first group takes all characters up to the first underscore; a dot matches
  no line end.\<close>

definition ends_line :: "char \<Rightarrow> bool" where
  "ends_line c \<longleftrightarrow> c = CHR 0x0A \<or> c = CHR 0x0D"

definition parsePermissionString :: "string \<Rightarrow> (string \<times> string) option" where
  "parsePermissionString p =
     (if \<not> prefix ''mcp__'' p then None
      else (let body = drop 5 p; server = takeWhile (\<lambda>c. c \<noteq> CHR ''_'') body; rest = drop (length server) body; tool = drop 2 rest
            in if server \<noteq> [] \<and> prefix ''__'' rest \<and> tool \<noteq> [] \<and> list_all (\<lambda>c. \<not> ends_line c) tool
               then Some (server, tool) else None))"

definition getExistingPermissions :: "claude_settings \<Rightarrow> string list" where
  "getExistingPermissions s =
     remdups (filter (prefix ''mcp__'') (nullish (Option.bind (cs_permissions s) pl_allow) []))"

definition generatePermissionEntries :: "(string \<times> string) list \<Rightarrow> permission_entry list" where
  "generatePermissionEntries tools =
     map (\<lambda>(server, tool). \<lparr>pe_permission = generatePermissionString server tool, pe_server = server, pe_tool = tool\<rparr>) tools"

definition comparePermissions :: "permission_entry list \<Rightarrow> string list \<Rightarrow> permission_result" where
  "comparePermissions generated existing =
     \<lparr>pr_all = generated, pr_new = filter (\<lambda>e. pe_permission e \<notin> set existing) generated,
      pr_existing = filter (\<lambda>e. pe_permission e \<in> set existing) generated\<rparr>"

text \<open>The updated settings, and what the caller's own object is afterwards: the two share the \<open>permissions\<close> object
  if there was one.\<close>

definition addPermissionsToSettings :: "claude_settings \<Rightarrow> string list \<Rightarrow> claude_settings \<times> claude_settings" where
  "addPermissionsToSettings s permissions =
     (let shared = cs_permissions s \<noteq> None;
          lists = nullish (cs_permissions s) \<lparr>pl_allow = None, pl_deny = None, pl_ask = None\<rparr>;
          allow = nullish (pl_allow lists) [];
          lists' = lists\<lparr>pl_allow := Some (allow @ filter (\<lambda>p. p \<notin> set allow) permissions)\<rparr>
      in (s\<lparr>cs_permissions := Some lists'\<rparr>, if shared then s\<lparr>cs_permissions := Some lists'\<rparr> else s))"

text \<open>Reading and writing the file: the content if it exists and can be read, what \<open>JSON.parse\<close> makes of it (with the
  fallback to an empty object). Where the directory is missing, \<open>require\<close> is not defined in
  this module and the write fails.\<close>

definition no_settings :: claude_settings where
  "no_settings = \<lparr>cs_permissions = None, cs_other = []\<rparr>"

definition loadClaudeSettings :: "(string \<Rightarrow> claude_settings option) \<Rightarrow> (string option) option \<Rightarrow> claude_settings option" where
  "loadClaudeSettings parse found =
     (case found of
        None \<Rightarrow> None
      | Some None \<Rightarrow> None
      | Some (Some content) \<Rightarrow> Some (nullish (parse content) no_settings))"

definition string_list :: "string \<Rightarrow> string list option \<Rightarrow> (string \<times> json) list" where
  "string_list k xs = (case xs of Some ys \<Rightarrow> [(k, JArr (map JStr ys))] | None \<Rightarrow> [])"

definition settings_json :: "claude_settings \<Rightarrow> json" where
  "settings_json s = JObj (cs_other s @ (case cs_permissions s of
      Some l \<Rightarrow> [(''permissions'', JObj (string_list ''allow'' (pl_allow l) @ string_list ''deny'' (pl_deny l) @ string_list ''ask'' (pl_ask l)))]
    | None \<Rightarrow> []))"

definition saveClaudeSettings :: "bool \<Rightarrow> bool \<Rightarrow> claude_settings \<Rightarrow> bool \<times> string option" where
  "saveClaudeSettings dirExists writable s =
     (if dirExists \<and> writable then (True, Some (json_pretty 0 (settings_json s) @ [CHR 0x0A])) else (False, None))"

definition group_tools :: "permission_entry list \<Rightarrow> (string, string list) jsmap" where
  "group_tools entries =
     foldl (\<lambda>m e. AList.update (pe_server e) (nullish (map_of m (pe_server e)) [] @ [pe_tool e]) m) [] entries"

definition formatPermissionsForDisplay :: "permission_entry list \<Rightarrow> string" where
  "formatPermissionsForDisplay entries =
     join [CHR 0x0A] (concat (map (\<lambda>(server, tools). ([CHR 0x0A] @ server @ '':'') # map (\<lambda>t. ''  - '' @ t) (sort tools))
       (group_tools entries)))"

definition formatPermissionsAsJson :: "permission_entry list \<Rightarrow> string" where
  "formatPermissionsAsJson entries = json_pretty 0 (JArr (map JStr (sort (map pe_permission entries))))"

subsection \<open>Facts\<close>

text \<open>A permission text leads back to its server and tool exactly when the server's name is not empty and has no
  underscore, and the tool's name is not empty and has no line end. So the permissions of a server such as \<open>brave_search\<close> cannot
  be read back.\<close>

theorem permission_text_roundtrip:
  "parsePermissionString (generatePermissionString server tool) = Some (server, tool) \<longleftrightarrow>
     server \<noteq> [] \<and> CHR ''_'' \<notin> set server \<and> tool \<noteq> [] \<and> list_all (\<lambda>c. \<not> ends_line c) tool"
proof -
  let ?tw = "takeWhile (\<lambda>c. c \<noteq> CHR ''_'')"
  have d: "drop 5 (generatePermissionString server tool) = server @ ''__'' @ tool"
    "prefix ''mcp__'' (generatePermissionString server tool)"
    by (simp_all add: generatePermissionString_def)
  show ?thesis
  proof (cases "CHR ''_'' \<in> set server")
    case True
    have "CHR ''_'' \<notin> set (?tw (server @ ''__'' @ tool))" 
      using set_takeWhileD [of "CHR ''_''" "\<lambda>c. c \<noteq> CHR ''_''"] by blast
    then have "?tw (server @ ''__'' @ tool) \<noteq> server" using True by metis
    then show ?thesis using d True by (simp add: parsePermissionString_def Let_def)
  next
    case False
    then have "?tw (server @ ''__'' @ tool) = server" by (subst takeWhile_append2) auto
    then show ?thesis using d False by (simp add: parsePermissionString_def Let_def)
  qed
qed

text \<open>Entries that are added to the settings are not new when they are compared again; those that were allowed stay, in
  their order, and nothing else changes.\<close>

lemma added_permissions_are_known:
  assumes "s' = fst (addPermissionsToSettings s (map pe_permission (pr_new (comparePermissions (generatePermissionEntries tools)
      (getExistingPermissions s)))))"
  shows "pr_new (comparePermissions (generatePermissionEntries tools) (getExistingPermissions s')) = []
    \<and> prefix (nullish (Option.bind (cs_permissions s) pl_allow) []) (nullish (Option.bind (cs_permissions s') pl_allow) [])
    \<and> cs_other s' = cs_other s"
proof -
  let ?a = "nullish (Option.bind (cs_permissions s) pl_allow) []"
  let ?new = "map pe_permission (pr_new (comparePermissions (generatePermissionEntries tools) (getExistingPermissions s)))"
  have a: "nullish (pl_allow (nullish (cs_permissions s) \<lparr>pl_allow = None, pl_deny = None, pl_ask = None\<rparr>)) [] = ?a"
    by (cases "cs_permissions s") (simp_all add: nullish_def)
  have s': "nullish (Option.bind (cs_permissions s') pl_allow) [] = ?a @ filter (\<lambda>p. p \<notin> set ?a) ?new"
    by (simp add: assms addPermissionsToSettings_def Let_def a) (simp add: nullish_def)
  have "pe_permission e \<in> set (getExistingPermissions s')" if "e \<in> set (generatePermissionEntries tools)" for e
  proof -
    have "prefix ''mcp__'' (pe_permission e)"
      using that by (auto simp: generatePermissionEntries_def generatePermissionString_def)
    then show ?thesis using that
      by (auto simp: getExistingPermissions_def s' comparePermissions_def)
  qed
  then show ?thesis using s'
    by (auto simp: comparePermissions_def filter_empty_conv assms addPermissionsToSettings_def Let_def)
qed

lemma settings_argument_is_changed:
  "snd (addPermissionsToSettings \<lparr>cs_permissions = Some \<lparr>pl_allow = Some [], pl_deny = None, pl_ask = None\<rparr>, cs_other = []\<rparr> [''mcp__a__b''])
     = \<lparr>cs_permissions = Some \<lparr>pl_allow = Some [''mcp__a__b''], pl_deny = None, pl_ask = None\<rparr>, cs_other = []\<rparr>"
  by code_simp

end
