(* ===== verification/ResultBudget.thy ===== *)
theory ResultBudget
  imports JsText
begin

text \<open>
  The cap on the result of \<open>execute_code\<close>: \<open>estimateResultTokens\<close> and \<open>trimResultToBudget\<close> of
  \<open>src/src/server/mcp-server.ts\<close>. Results are JSON values, and budgets whole numbers. The factor 3.8 is taken exactly:
  for texts below 2^50 characters the rounded division and product of the code have the same integer parts.
\<close>

definition estimateResultTokens :: "json \<Rightarrow> nat" where
  "estimateResultTokens v = (5 * length (json_stringify v) + 18) div 19"

definition result_max_chars :: "nat \<Rightarrow> nat" where
  "result_max_chars maxTokens = maxTokens * 19 div 5"

definition trim_marker :: string where
  "trim_marker = ellipsis # ''[trimmed]''"

record trimmed_result =
  wasTrimmed :: bool
  tr_result :: json
  tr_meta :: "json option"

definition fits_result :: "nat \<Rightarrow> json \<Rightarrow> bool" where
  "fits_result maxTokens v \<longleftrightarrow> estimateResultTokens v \<le> maxTokens"

text \<open>The binary search for the longest prefix that fits.\<close>

function search_prefix :: "nat \<Rightarrow> json list \<Rightarrow> nat \<Rightarrow> nat \<Rightarrow> nat" where
  "search_prefix maxTokens xs lo hi =
     (if lo < hi
      then (let mid = (lo + hi + 1) div 2 in
            if fits_result maxTokens (JArr (take mid xs)) then search_prefix maxTokens xs mid hi
            else search_prefix maxTokens xs lo (mid - 1))
      else lo)"
  by pat_completeness auto
termination by (relation "measure (\<lambda>(m, xs, lo, hi). hi - lo)") auto

declare search_prefix.simps [simp del]

text \<open>The loop that drops properties from the end.\<close>

fun drop_properties :: "nat \<Rightarrow> (string \<times> json) list \<Rightarrow> nat \<Rightarrow> nat option" where
  "drop_properties maxTokens kvs 0 = None"
| "drop_properties maxTokens kvs (Suc n) =
     (if fits_result maxTokens (JObj (take (Suc n) kvs)) then Some (Suc n) else drop_properties maxTokens kvs n)"

definition meta_of :: "nat \<Rightarrow> (string \<times> json) list \<Rightarrow> json \<Rightarrow> json option" where
  "meta_of maxTokens extra v =
     Some (JObj ((''to_tokens'', JNum (int maxTokens)) # extra
       @ [(''original_bytes'', JNum (int (length (json_stringify v))))]))"

definition trimResultToBudget :: "json \<Rightarrow> nat \<Rightarrow> trimmed_result" where
  "trimResultToBudget v maxTokens =
     (if estimateResultTokens v \<le> maxTokens then \<lparr>wasTrimmed = False, tr_result = v, tr_meta = None\<rparr>
      else (case v of
        JArr xs \<Rightarrow>
          (let lo = search_prefix maxTokens xs 0 (length xs) in
           \<lparr>wasTrimmed = True, tr_result = JArr (take lo xs),
            tr_meta = meta_of maxTokens [(''original_length'', JNum (int (length xs))), (''trimmed_to'', JNum (int lo))] v\<rparr>)
      | JObj kvs \<Rightarrow>
          (case drop_properties maxTokens kvs (length kvs) of
             Some kept \<Rightarrow>
               \<lparr>wasTrimmed = True, tr_result = JObj (take kept kvs),
                tr_meta = meta_of maxTokens [(''original_keys'', JNum (int (length kvs))), (''trimmed_to'', JNum (int kept))] v\<rparr>
           | None \<Rightarrow> \<lparr>wasTrimmed = True, tr_result = JObj [], tr_meta = meta_of maxTokens [] v\<rparr>)
      | JStr t \<Rightarrow>
          (let maxChars = result_max_chars maxTokens in
           if length t \<le> maxChars then \<lparr>wasTrimmed = False, tr_result = v, tr_meta = None\<rparr>
           else \<lparr>wasTrimmed = True, tr_result = JStr (take maxChars t @ trim_marker), tr_meta = meta_of maxTokens [] v\<rparr>)
      | _ \<Rightarrow>
          \<lparr>wasTrimmed = True, tr_result = JStr (take (result_max_chars maxTokens) (json_stringify v) @ trim_marker),
           tr_meta = meta_of maxTokens [] v\<rparr>))"

text \<open>The budget of a call: its parameter, or the configured default of 2000; 0 turns trimming off. \<open>None\<close> is a run
  without a result.\<close>

definition resultTokensBudget_default :: "nat option \<Rightarrow> nat" where
  "resultTokensBudget_default configured = nullish configured 2000"

definition budgeted_result :: "nat option \<Rightarrow> nat option \<Rightarrow> json option \<Rightarrow> json option \<times> json option" where
  "budgeted_result configured param res =
     (let budgetTokens = nullish param (resultTokensBudget_default configured) in
      case res of
        None \<Rightarrow> (None, None)
      | Some v \<Rightarrow>
          (if budgetTokens > 0
           then (let t = trimResultToBudget v budgetTokens in
                 if wasTrimmed t then (Some (tr_result t), tr_meta t) else (Some v, None))
           else (Some v, None)))"

subsection \<open>Facts\<close>

lemma fits_result_iff: "fits_result m v \<longleftrightarrow> 5 * length (json_stringify v) \<le> 19 * m"
  unfolding fits_result_def estimateResultTokens_def less_Suc_eq_le [symmetric] by (auto simp: div_less_iff_less_mult)

lemma length_join:
  "length (join sep xs) = sum_list (map length xs) + (length xs - 1) * length sep"
  by (induction sep xs rule: join.induct) auto

lemma length_array_text: "length (json_stringify (JArr xs)) = sum_list (map (length \<circ> json_stringify) xs) + (length xs - 1) + 2"
  by (simp add: length_join)

lemma length_object_text:
  "length (json_stringify (JObj kvs)) =
     sum_list (map (\<lambda>e. length (quote_string (fst e) @ '':'' @ json_stringify (snd e))) kvs) + (length kvs - 1) + 2"
  by (simp add: length_join comp_def case_prod_beta)

lemma sum_take_mono: "i \<le> j \<Longrightarrow> sum_list (map f (take i xs)) \<le> sum_list (map (f :: 'a \<Rightarrow> nat) (take j xs))"
proof -
  assume "i \<le> j"
  then have "take j xs = take i xs @ take (j - i) (drop i xs)" by (metis le_add_diff_inverse take_add)
  then show ?thesis by simp
qed

lemma fits_array_mono: "i \<le> j \<Longrightarrow> fits_result m (JArr (take j xs)) \<Longrightarrow> fits_result m (JArr (take i xs))"
proof -
  assume a: "i \<le> j" "fits_result m (JArr (take j xs))"
  have "length (json_stringify (JArr (take i xs))) \<le> length (json_stringify (JArr (take j xs)))"
    unfolding length_array_text using sum_take_mono [OF a(1), of "length \<circ> json_stringify" xs] a(1)
    by (intro add_mono diff_le_mono) auto
  then show ?thesis using a(2) unfolding fits_result_iff by linarith
qed

lemma fits_object_mono: "i \<le> j \<Longrightarrow> fits_result m (JObj (take j kvs)) \<Longrightarrow> fits_result m (JObj (take i kvs))"
proof -
  assume a: "i \<le> j" "fits_result m (JObj (take j kvs))"
  have "length (json_stringify (JObj (take i kvs))) \<le> length (json_stringify (JObj (take j kvs)))"
    unfolding length_object_text
    using sum_take_mono [OF a(1), of "\<lambda>e. length (quote_string (fst e) @ '':'' @ json_stringify (snd e))" kvs] a(1)
    by (intro add_mono diff_le_mono) auto
  then show ?thesis using a(2) unfolding fits_result_iff by linarith
qed

text \<open>The longest prefix that fits.\<close>

definition longest :: "(nat \<Rightarrow> bool) \<Rightarrow> nat \<Rightarrow> nat \<Rightarrow> bool" where
  "longest p n k \<longleftrightarrow> k \<le> n \<and> p k \<and> (\<forall>i. k < i \<and> i \<le> n \<longrightarrow> \<not> p i)"

lemma search_prefix_longest:
  assumes "lo \<le> hi" "hi \<le> length xs" "fits_result m (JArr (take lo xs))"
    and "\<And>i. hi < i \<Longrightarrow> i \<le> length xs \<Longrightarrow> \<not> fits_result m (JArr (take i xs))"
  shows "longest (\<lambda>i. fits_result m (JArr (take i xs))) (length xs) (search_prefix m xs lo hi)"
  using assms
proof (induction m xs lo hi rule: search_prefix.induct)
  case (1 m xs lo hi)
  let ?mid = "(lo + hi + 1) div 2"
  show ?case
  proof (cases "lo < hi")
    case False
    then have "lo = hi" using 1(3) by simp
    then show ?thesis using 1(4-6) by (subst search_prefix.simps) (auto simp: longest_def)
  next
    case True
    then have mid: "lo < ?mid" "?mid \<le> hi" by auto
    show ?thesis
    proof (cases "fits_result m (JArr (take ?mid xs))")
      case f: True
      have "longest (\<lambda>i. fits_result m (JArr (take i xs))) (length xs) (search_prefix m xs ?mid hi)"
        using 1(1) [OF True refl f] mid 1(4,6) f by blast
      then show ?thesis using True f by (subst search_prefix.simps) (simp add: Let_def)
    next
      case f: False
      have "\<not> fits_result m (JArr (take i xs))" if "?mid - 1 < i" "i \<le> length xs" for i
      proof -
        have "?mid \<le> i" using that(1) by linarith
        then show ?thesis using fits_array_mono f by blast
      qed
      then have "longest (\<lambda>i. fits_result m (JArr (take i xs))) (length xs) (search_prefix m xs lo (?mid - 1))"
      proof (intro 1(2) [OF True refl f])
        show "lo \<le> ?mid - 1" "?mid - 1 \<le> length xs" using mid 1(4) by linarith+
      qed (use 1(5) in auto)
      then show ?thesis using True f by (subst search_prefix.simps) (simp add: Let_def)
    qed
  qed
qed

lemma drop_properties_longest:
  assumes "n \<le> length kvs" "\<And>i. n < i \<Longrightarrow> i \<le> length kvs \<Longrightarrow> \<not> fits_result m (JObj (take i kvs))"
  shows "case drop_properties m kvs n of
      Some k \<Rightarrow> 0 < k \<and> longest (\<lambda>i. fits_result m (JObj (take i kvs))) (length kvs) k
    | None \<Rightarrow> \<forall>i. 0 < i \<and> i \<le> length kvs \<longrightarrow> \<not> fits_result m (JObj (take i kvs))"
  using assms
proof (induction n)
  case (Suc n)
  show ?case
  proof (cases "fits_result m (JObj (take (Suc n) kvs))")
    case True
    then show ?thesis using Suc.prems by (simp add: longest_def)
  next
    case False
    then have "\<not> fits_result m (JObj (take i kvs))" if "n < i" "i \<le> length kvs" for i
      using Suc.prems(2) [of i] that by (cases "i = Suc n") auto
    then show ?thesis using Suc.IH Suc.prems(1) False by simp
  qed
qed simp

lemma empty_fits: "0 < m \<Longrightarrow> fits_result m (JArr [])" "0 < m \<Longrightarrow> fits_result m (JObj [])"
  by (simp_all add: fits_result_iff)

text \<open>C26: Trimming an array or an object keeps as much as fits. For a positive budget the result of the cap is the
  longest prefix of the items, or of the properties, whose JSON text is within the budget; the estimate of
  what is returned never exceeds it, and what fits as a whole is returned whole.\<close>

theorem result_is_longest_prefix:
  assumes "0 < m"
  shows "case v of
      JArr xs \<Rightarrow> \<exists>k. tr_result (trimResultToBudget v m) = JArr (take k xs)
                  \<and> longest (\<lambda>i. estimateResultTokens (JArr (take i xs)) \<le> m) (length xs) k
    | JObj kvs \<Rightarrow> \<exists>k. tr_result (trimResultToBudget v m) = JObj (take k kvs)
                  \<and> longest (\<lambda>i. estimateResultTokens (JObj (take i kvs)) \<le> m) (length kvs) k
    | _ \<Rightarrow> estimateResultTokens v \<le> m \<longrightarrow> tr_result (trimResultToBudget v m) = v"
proof (cases "estimateResultTokens v \<le> m")
  case True
  then have r: "tr_result (trimResultToBudget v m) = v" by (simp add: trimResultToBudget_def)
  show ?thesis
  proof (cases v)
    case (JArr xs)
    then have "v = JArr (take (length xs) xs) \<and> longest (\<lambda>i. estimateResultTokens (JArr (take i xs)) \<le> m) (length xs) (length xs)"
      using True by (simp add: longest_def)
    then show ?thesis using r unfolding JArr json.case by (intro exI [of _ "length xs"]) (simp only: JArr)
  next
    case (JObj kvs)
    then have "v = JObj (take (length kvs) kvs) \<and> longest (\<lambda>i. estimateResultTokens (JObj (take i kvs)) \<le> m) (length kvs) (length kvs)"
      using True by (simp add: longest_def)
    then show ?thesis using r unfolding JObj json.case by (intro exI [of _ "length kvs"]) (simp only: JObj)
  qed (use r in auto)
next
  case False
  show ?thesis
  proof (cases v)
    case (JArr xs)
    have "longest (\<lambda>i. fits_result m (JArr (take i xs))) (length xs) (search_prefix m xs 0 (length xs))"
      using empty_fits [OF assms] by (intro search_prefix_longest) auto
    then show ?thesis using False JArr by (auto simp: trimResultToBudget_def fits_result_def Let_def)
  next
    case (JObj kvs)
    have d: "case drop_properties m kvs (length kvs) of
        Some k \<Rightarrow> 0 < k \<and> longest (\<lambda>i. fits_result m (JObj (take i kvs))) (length kvs) k
      | None \<Rightarrow> \<forall>i. 0 < i \<and> i \<le> length kvs \<longrightarrow> \<not> fits_result m (JObj (take i kvs))"
      by (rule drop_properties_longest) auto
    show ?thesis
    proof (cases "drop_properties m kvs (length kvs)")
      case None
      then have "longest (\<lambda>i. fits_result m (JObj (take i kvs))) (length kvs) 0"
        using d empty_fits [OF assms] by (simp add: longest_def)
      then show ?thesis using False JObj None
        by (auto simp: trimResultToBudget_def fits_result_def intro!: exI [of _ 0])
    next
      case (Some k)
      then show ?thesis using d False JObj by (auto simp: trimResultToBudget_def fits_result_def)
    qed
  qed (use False in auto)
qed

theorem result_is_longest_prefix_witness:
  "\<exists>k. tr_result (trimResultToBudget (JArr [JNum 1, JStr ''abcdef'', JNum 2]) 3) = JArr (take k [JNum 1, JStr ''abcdef'', JNum 2])
     \<and> longest (\<lambda>i. estimateResultTokens (JArr (take i [JNum 1, JStr ''abcdef'', JNum 2])) \<le> 3) (Suc (Suc (Suc 0))) k"
  using result_is_longest_prefix [of 3 "JArr [JNum 1, JStr ''abcdef'', JNum 2]"] by simp

text \<open>A text is cut to the budget's characters and then gets its quotes and the marker, so it stays over the budget;
  and a text whose escapes alone take it over the budget is not trimmed at all.\<close>

lemma trimmed_text_exceeds_budget:
  "estimateResultTokens (tr_result (trimResultToBudget (JStr (replicate 30 CHR ''a'')) 5)) = 9"
  by code_simp

lemma escapes_are_not_trimmed:
  "trimResultToBudget (JStr (replicate 19 CHR 0x0A)) 5 = \<lparr>wasTrimmed = False, tr_result = JStr (replicate 19 CHR 0x0A), tr_meta = None\<rparr>
   \<and> estimateResultTokens (JStr (replicate 19 CHR 0x0A)) = 11"
  by code_simp

end
