(* ===== verification/Metrics.thy ===== *)
theory Metrics
  imports Pattern JsText Observability "HOL-Library.Multiset"
begin

text \<open>
  The metrics of executions and the estimates of tokens saved: \<open>src/src/metrics/metrics-collector.ts\<close>.
  Quotients are exact rational numbers.
\<close>

subsection \<open>Savings of one call\<close>

definition TOOL_CALL_OVERHEAD_TOKENS :: nat where "TOOL_CALL_OVERHEAD_TOKENS = 150"
definition TOKENS_PER_KB :: nat where "TOKENS_PER_KB = 256"
definition CODE_CHARS_PER_TOKEN :: rat where "CODE_CHARS_PER_TOKEN = 7 / 2"
definition JSON_CHARS_PER_TOKEN :: rat where "JSON_CHARS_PER_TOKEN = 19 / 5"

record token_savings =
  ts_passthrough :: int
  ts_actual :: int
  ts_saved :: int
  ts_percent :: rat
  ts_note :: bool

text \<open>A share in percent, rounded to one decimal.\<close>

definition percent_of :: "int \<Rightarrow> int \<Rightarrow> rat" where
  "percent_of part whole = (if whole > 0 then of_int (js_round (of_int part / of_int whole * 1000)) / 10 else 0)"

definition passthrough_estimate :: "nat \<Rightarrow> nat \<Rightarrow> int" where
  "passthrough_estimate toolCalls dataBytes =
     \<lceil>of_nat (toolCalls * TOOL_CALL_OVERHEAD_TOKENS) + rat_of_nat dataBytes / 1024 * of_nat TOKENS_PER_KB\<rceil>"

definition computeTokenSavings :: "nat \<Rightarrow> nat \<Rightarrow> nat \<Rightarrow> nat \<Rightarrow> token_savings" where
  "computeTokenSavings toolCalls dataBytes codeChars resultBytes =
     (let pass = passthrough_estimate toolCalls dataBytes;
          actual = \<lceil>of_nat codeChars / CODE_CHARS_PER_TOKEN\<rceil> + \<lceil>of_nat resultBytes / JSON_CHARS_PER_TOKEN\<rceil>;
          saved = max 0 (pass - actual)
      in if toolCalls = 0 \<and> dataBytes = 0
         then \<lparr>ts_passthrough = pass, ts_actual = actual, ts_saved = 0, ts_percent = 0, ts_note = True\<rparr>
         else \<lparr>ts_passthrough = pass, ts_actual = actual, ts_saved = saved, ts_percent = percent_of saved pass, ts_note = False\<rparr>)"

subsection \<open>Estimates from texts\<close>

definition rx_words :: "string list \<Rightarrow> rx" where
  "rx_words ws = (case ws of [] \<Rightarrow> RSet (\<lambda>_. False) | w # vs \<Rightarrow> foldl (\<lambda>r v. RAlt r (rx_text v)) (rx_text w) vs)"

definition keyword_pattern :: rx where
  "keyword_pattern = rx_seq [RBoundary,
     rx_words [''const'', ''let'', ''var'', ''function'', ''async'', ''await'', ''return'', ''import'', ''export'', ''class'', ''interface'', ''type''],
     RBoundary]"

definition bracket_pattern :: rx where
  "bracket_pattern = rx_one_of [CHR 0x7B, CHR 0x7D, CHR 0x5B, CHR 0x5D, CHR 0x28, CHR 0x29]"

definition space_pattern :: rx where
  "space_pattern = rx_plus (RSet is_space)"

definition json_key_pattern :: rx where
  "json_key_pattern =
     rx_seq [rx_char (CHR 0x22), rx_plus (RSet (\<lambda>c. c \<noteq> CHR 0x22)), rx_char (CHR 0x22), rx_star (RSet is_space), rx_char (CHR 0x3A)]"

text \<open>\<open>text.match(pattern)\<close> with the flag \<open>g\<close>: all matches.\<close>

fun hit_of :: "segment \<Rightarrow> string option" where
  "hit_of (Hit m) = Some m"
| "hit_of (Lit c) = None"

definition rx_all :: "rx \<Rightarrow> string \<Rightarrow> string list" where
  "rx_all r t = List.map_filter hit_of (rx_segments r None t)"

definition estimateCodeTokens :: "string \<Rightarrow> int" where
  "estimateCodeTokens code =
     (if code = [] then 0
      else \<lceil>rat_of_int (int (length code)
             - sum_list (map (\<lambda>r. sum_list (map (\<lambda>m. int (length m) - 1) (rx_all r code)))
                 [keyword_pattern, bracket_pattern, space_pattern])) / (7 / 2)\<rceil>)"

definition estimateJsonText :: "string \<Rightarrow> int" where
  "estimateJsonText str =
     (if str = [] then 0
      else \<lceil>rat_of_int (int (length str) - sum_list (map (\<lambda>k. max 0 (int (length k) - 4)) (rx_all json_key_pattern str))) / (19 / 5)\<rceil>)"

definition estimateJsonTokens :: "json \<Rightarrow> int" where
  "estimateJsonTokens v = estimateJsonText (case v of JStr s \<Rightarrow> s | _ \<Rightarrow> json_stringify v)"

definition estimateTextTokens :: "string \<Rightarrow> int" where
  "estimateTextTokens t =
     (if t = [] then 0
      else (let words = length (rx_all (rx_plus (RSet (\<lambda>c. \<not> is_space c))) t)
            in \<lceil>rat_of_int (\<lceil>rat_of_nat (length t) / 4\<rceil> + \<lceil>rat_of_nat words * (13 / 10)\<rceil>) / 2\<rceil>))"

definition estimateTokensFromBytes :: "nat \<Rightarrow> int" where
  "estimateTokensFromBytes bytes = \<lceil>rat_of_nat bytes / 4\<rceil>"

definition calculateTokenSavings :: "int \<Rightarrow> int \<Rightarrow> nat \<Rightarrow> nat \<Rightarrow> int \<times> int" where
  "calculateTokenSavings codeTokens resultTokens toolCalls dataBytes =
     (let pass = passthrough_estimate toolCalls dataBytes; saved = max 0 (pass - (codeTokens + resultTokens))
      in (saved, if pass > 0 then js_round (of_int saved / of_int pass * 100) else 0))"

subsection \<open>The collector\<close>

datatype exec_mode = ExecMode | PassMode

record execution_input =
  ei_id :: string
  ei_code :: string
  ei_result :: "json option"
  ei_success :: bool
  ei_durationMs :: nat
  ei_toolCalls :: nat
  ei_dataBytes :: nat
  ei_resultBytes :: nat
  ei_mode :: exec_mode
  ei_servers :: "string list"
  ei_tools :: "string list"

record execution_metrics =
  em_id :: string
  em_timestamp :: time
  em_durationMs :: nat
  em_success :: bool
  em_codeTokens :: int
  em_resultTokens :: int
  em_toolCalls :: nat
  em_dataBytes :: nat
  em_resultBytes :: nat
  em_saved :: int
  em_percent :: int
  em_mode :: exec_mode
  em_servers :: "string list"
  em_tools :: "string list"

record savings_bucket =
  sb_server :: string
  sb_tool :: string
  sb_calls :: nat
  sb_actual :: int
  sb_passthrough :: int
  sb_isPassthrough :: bool

record metrics_collector =
  mc_sessionId :: string
  mc_sessionStart :: time
  mc_executions :: "execution_metrics list"
  mc_buckets :: "(string, savings_bucket) jsmap"

definition maxStoredExecutions :: nat where
  "maxStoredExecutions = 100"

definition new_collector :: "string \<Rightarrow> time \<Rightarrow> metrics_collector" where
  "new_collector sid now = \<lparr>mc_sessionId = sid, mc_sessionStart = now, mc_executions = [], mc_buckets = []\<rparr>"

definition js_truthy_value :: "json option \<Rightarrow> bool" where
  "js_truthy_value v =
     (case v of None \<Rightarrow> False | Some JNull \<Rightarrow> False | Some (JBool b) \<Rightarrow> b | Some (JNum n) \<Rightarrow> n \<noteq> 0 | Some (JStr s) \<Rightarrow> s \<noteq> [] | _ \<Rightarrow> True)"

definition execution_of :: "time \<Rightarrow> execution_input \<Rightarrow> execution_metrics" where
  "execution_of now i =
     (let codeTokens = estimateCodeTokens (ei_code i);
          resultTokens = (case ei_result i of Some v \<Rightarrow> (if js_truthy_value (ei_result i) then estimateJsonTokens v else 0) | None \<Rightarrow> 0);
          (saved, pct) = (if ei_mode i = ExecMode then calculateTokenSavings codeTokens resultTokens (ei_toolCalls i) (ei_dataBytes i)
                          else (0, 0))
      in \<lparr>em_id = ei_id i, em_timestamp = now, em_durationMs = ei_durationMs i, em_success = ei_success i, em_codeTokens = codeTokens,
          em_resultTokens = resultTokens, em_toolCalls = ei_toolCalls i, em_dataBytes = ei_dataBytes i, em_resultBytes = ei_resultBytes i,
          em_saved = saved, em_percent = pct, em_mode = ei_mode i, em_servers = ei_servers i, em_tools = ei_tools i\<rparr>)"

definition recordExecution :: "time \<Rightarrow> execution_input \<Rightarrow> metrics_collector \<Rightarrow> execution_metrics \<times> metrics_collector" where
  "recordExecution now i c =
     (let m = execution_of now i in
      (m, c\<lparr>mc_executions := keep_last maxStoredExecutions (mc_executions c @ [m])\<rparr>))"

text \<open>How many executions used a name, counted once per execution.\<close>

definition count_names :: "(execution_metrics \<Rightarrow> string list) \<Rightarrow> execution_metrics list \<Rightarrow> (string, nat) jsmap" where
  "count_names f es =
     foldl (\<lambda>m n. AList.update n (nullish (map_of m n) 0 + 1) m) [] (concat (map (\<lambda>e. rev (remdups (rev (f e)))) es))"

record session_metrics =
  sm_uptime :: time
  sm_lastActivity :: time
  sm_total :: nat
  sm_successful :: nat
  sm_failed :: nat
  sm_toolCalls :: nat
  sm_byServer :: "(string, nat) jsmap"
  sm_byTool :: "(string, nat) jsmap"
  sm_dataBytes :: nat
  sm_resultBytes :: nat
  sm_codeTokens :: int
  sm_resultTokens :: int
  sm_directTokens :: int
  sm_saved :: int
  sm_averageSaved :: rat
  sm_averagePercent :: rat
  sm_averageData :: rat
  sm_durationMs :: nat
  sm_averageDuration :: rat
  sm_minDuration :: nat
  sm_maxDuration :: nat
  sm_executionMode :: nat
  sm_passthroughMode :: nat
  sm_errors :: nat

definition average :: "int \<Rightarrow> nat \<Rightarrow> rat" where
  "average amount n = (if n > 0 then of_int amount / of_nat n else 0)"

definition getSessionMetrics :: "time \<Rightarrow> metrics_collector \<Rightarrow> session_metrics" where
  "getSessionMetrics now c =
     (let es = mc_executions c; n = length es; failed = length (filter (\<lambda>e. \<not> em_success e) es);
          saved = sum_list (map em_saved es); data = sum_list (map em_dataBytes es); duration = sum_list (map em_durationMs es)
      in \<lparr>sm_uptime = now - mc_sessionStart c,
          sm_lastActivity = foldl (\<lambda>t e. if em_timestamp e > t then em_timestamp e else t) (mc_sessionStart c) es,
          sm_total = n, sm_successful = length (filter em_success es), sm_failed = failed,
          sm_toolCalls = sum_list (map em_toolCalls es), sm_byServer = count_names em_servers es, sm_byTool = count_names em_tools es,
          sm_dataBytes = data, sm_resultBytes = sum_list (map em_resultBytes es),
          sm_codeTokens = sum_list (map em_codeTokens es), sm_resultTokens = sum_list (map em_resultTokens es),
          sm_directTokens = sum_list (map (\<lambda>e. passthrough_estimate (em_toolCalls e) (em_dataBytes e)) es),
          sm_saved = saved, sm_averageSaved = average saved n, sm_averagePercent = average (sum_list (map em_percent es)) n,
          sm_averageData = average (int data) n, sm_durationMs = duration, sm_averageDuration = average (int duration) n,
          sm_minDuration = foldl (\<lambda>m e. if em_durationMs e < m then em_durationMs e else m) (if n > 0 then 9007199254740991 else 0) es,
          sm_maxDuration = foldl (\<lambda>m e. if em_durationMs e > m then em_durationMs e else m) 0 es,
          sm_executionMode = length (filter (\<lambda>e. em_mode e = ExecMode) es),
          sm_passthroughMode = length (filter (\<lambda>e. em_mode e \<noteq> ExecMode) es), sm_errors = failed\<rparr>)"

record windowed_metrics =
  wm_start :: time
  wm_end :: time
  wm_executions :: nat
  wm_saved :: int
  wm_averageDuration :: rat
  wm_successRate :: rat

definition window_groups :: "int \<Rightarrow> execution_metrics list \<Rightarrow> (time, execution_metrics list) jsmap" where
  "window_groups windowMs es =
     foldl (\<lambda>m e. let k = em_timestamp e div windowMs * windowMs in AList.update k (nullish (map_of m k) [] @ [e]) m) [] es"

definition window_of :: "int \<Rightarrow> time \<Rightarrow> execution_metrics list \<Rightarrow> windowed_metrics" where
  "window_of windowMs start es =
     \<lparr>wm_start = start, wm_end = start + windowMs, wm_executions = length es, wm_saved = sum_list (map em_saved es),
      wm_averageDuration = average (int (sum_list (map em_durationMs es))) (length es),
      wm_successRate = average (int (length (filter em_success es))) (length es) * 100\<rparr>"

definition getWindowedMetrics :: "int \<Rightarrow> metrics_collector \<Rightarrow> windowed_metrics list" where
  "getWindowedMetrics windowMs c =
     sort_key wm_start (map (\<lambda>(k, es). window_of windowMs k es) (window_groups windowMs (mc_executions c)))"

text \<open>\<open>slice(-limit)\<close>: with a limit of 0 it takes everything.\<close>

definition getRecentExecutions :: "nat \<Rightarrow> metrics_collector \<Rightarrow> execution_metrics list" where
  "getRecentExecutions limit c = (if limit = 0 then mc_executions c else keep_last limit (mc_executions c))"

definition top_names :: "nat \<Rightarrow> (string, nat) jsmap \<Rightarrow> (string \<times> nat) list" where
  "top_names limit counts = take limit (sort_key (\<lambda>(n, c). - int c) (own_properties counts))"

definition getTopServers :: "time \<Rightarrow> nat \<Rightarrow> metrics_collector \<Rightarrow> (string \<times> nat) list" where
  "getTopServers now limit c = top_names limit (sm_byServer (getSessionMetrics now c))"

definition getTopTools :: "time \<Rightarrow> nat \<Rightarrow> metrics_collector \<Rightarrow> (string \<times> nat) list" where
  "getTopTools now limit c = top_names limit (sm_byTool (getSessionMetrics now c))"

definition metrics_reset :: "string \<Rightarrow> time \<Rightarrow> metrics_collector \<Rightarrow> metrics_collector" where
  "metrics_reset sid now c = c\<lparr>mc_sessionId := sid, mc_sessionStart := now, mc_executions := []\<rparr>"

definition metrics_toolCall :: "string \<Rightarrow> string \<Rightarrow> nat \<Rightarrow> bool \<Rightarrow> metrics_collector \<Rightarrow> metrics_collector" where
  "metrics_toolCall server tool responseBytes isPassthrough c =
     (let key = call_key server tool; tokens = passthrough_estimate 1 responseBytes
      in c\<lparr>mc_buckets := AList.update key
           (case map_of (mc_buckets c) key of
              Some b \<Rightarrow> b\<lparr>sb_calls := sb_calls b + 1, sb_passthrough := sb_passthrough b + tokens, sb_actual := sb_actual b + 0\<rparr>
            | None \<Rightarrow> \<lparr>sb_server = server, sb_tool = tool, sb_calls = 1, sb_actual = 0, sb_passthrough = tokens,
                       sb_isPassthrough = isPassthrough\<rparr>) (mc_buckets c)\<rparr>)"

record tool_savings =
  tl_server :: string
  tl_tool :: string
  tl_calls :: nat
  tl_actual :: int
  tl_passthrough :: int
  tl_percent :: rat
  tl_note :: bool

record session_savings =
  ss_actual :: int
  ss_direct :: int
  ss_percent :: rat
  ss_perTool :: "tool_savings list"

definition tool_savings_of :: "savings_bucket \<Rightarrow> tool_savings" where
  "tool_savings_of b =
     \<lparr>tl_server = sb_server b, tl_tool = sb_tool b, tl_calls = sb_calls b, tl_actual = sb_actual b, tl_passthrough = sb_passthrough b,
      tl_percent = percent_of (max 0 (sb_passthrough b - sb_actual b)) (sb_passthrough b), tl_note = sb_isPassthrough b\<rparr>"

definition getTokenSavings :: "time \<Rightarrow> metrics_collector \<Rightarrow> session_savings" where
  "getTokenSavings now c =
     (let s = getSessionMetrics now c; actual = sm_codeTokens s + sm_resultTokens s; direct = sm_directTokens s
      in \<lparr>ss_actual = actual, ss_direct = direct, ss_percent = percent_of (max 0 (direct - actual)) direct,
          ss_perTool = map (\<lambda>(k, b). tool_savings_of b) (mc_buckets c)\<rparr>)"

subsection \<open>Facts\<close>

lemma percent_of_bounds:
  assumes "0 \<le> part" "part \<le> whole"
  shows "0 \<le> percent_of part whole \<and> percent_of part whole \<le> 100"
proof (cases "whole > 0")
  case True
  define q where "q = rat_of_int part / of_int whole"
  have q: "0 \<le> q" "q \<le> 1" using assms True by (simp_all add: q_def)
  have "0 \<le> \<lfloor>q * 1000 + 1 / 2\<rfloor>" using q(1) by simp
  moreover have "q * 1000 + 1 / 2 < of_int (1000 + 1)" using q(2) by simp
  then have "\<lfloor>q * 1000 + 1 / 2\<rfloor> < 1000 + 1" by (simp only: floor_less_iff)
  ultimately show ?thesis using True by (simp add: percent_of_def js_round_def q_def [symmetric])
qed (simp add: percent_of_def)

lemma passthrough_estimate_exact: "passthrough_estimate n b = int (150 * n) + \<lceil>rat_of_nat b / 4\<rceil>"
proof -
  have "of_nat (n * TOOL_CALL_OVERHEAD_TOKENS) + rat_of_nat b / 1024 * of_nat TOKENS_PER_KB = rat_of_nat b / 4 + of_int (int (150 * n))"
    by (simp add: TOOL_CALL_OVERHEAD_TOKENS_def TOKENS_PER_KB_def)
  then show ?thesis unfolding passthrough_estimate_def by (simp only: ceiling_add_of_int)
qed

lemma savings_sound:
  "let s = computeTokenSavings toolCalls dataBytes codeChars resultBytes in
     0 \<le> ts_saved s \<and> ts_saved s \<le> ts_passthrough s \<and> 0 \<le> ts_percent s \<and> ts_percent s \<le> 100
     \<and> ts_passthrough s = int (150 * toolCalls) + \<lceil>rat_of_nat dataBytes / 4\<rceil>
     \<and> (ts_note s \<longleftrightarrow> toolCalls = 0 \<and> dataBytes = 0)
     \<and> (\<not> ts_note s \<longrightarrow> ts_saved s = max 0 (ts_passthrough s - ts_actual s))"
proof -
  let ?pass = "passthrough_estimate toolCalls dataBytes"
  let ?actual = "\<lceil>of_nat codeChars / CODE_CHARS_PER_TOKEN\<rceil> + \<lceil>of_nat resultBytes / JSON_CHARS_PER_TOKEN\<rceil>"
  have p: "0 \<le> ?pass" by (simp add: passthrough_estimate_exact)
  have a: "0 \<le> ?actual" by (simp add: CODE_CHARS_PER_TOKEN_def JSON_CHARS_PER_TOKEN_def)
  have "0 \<le> max 0 (?pass - ?actual)" "max 0 (?pass - ?actual) \<le> ?pass" using p a by linarith+
  from percent_of_bounds [OF this] this show ?thesis
    by (simp add: computeTokenSavings_def Let_def passthrough_estimate_exact)
qed

lemma keep_last_append: "keep_last n (keep_last n xs @ ys) = keep_last n (xs @ ys)"
  by (auto simp: keep_last_def add.commute)

lemma stored_executions:
  "mc_executions (foldl (\<lambda>c (t, i). snd (recordExecution t i c)) (new_collector sid start) run)
     = keep_last 100 (map (\<lambda>(t, i). execution_of t i) run)"
proof (induction run rule: rev_induct)
  case Nil
  then show ?case by (simp add: new_collector_def keep_last_def)
next
  case (snoc x run)
  then show ?case
    by (simp add: recordExecution_def maxStoredExecutions_def case_prod_beta Let_def keep_last_append)
qed

lemma window_groups_snoc:
  "window_groups w (es @ [e]) =
     (let m = window_groups w es; k = em_timestamp e div w * w in AList.update k (nullish (map_of m k) [] @ [e]) m)"
  by (simp add: window_groups_def Let_def)

lemma window_groups_wf: "js_wf (window_groups w es)"
  by (induction es rule: rev_induct) (auto simp: window_groups_snoc Let_def, simp add: window_groups_def)

lemma window_groups_entry:
  "(k, g) \<in> set (window_groups w es) \<Longrightarrow> g \<noteq> [] \<and> w dvd k"
proof (induction es arbitrary: k g rule: rev_induct)
  case (snoc e es)
  then show ?case by (auto simp: window_groups_snoc Let_def dest!: set_js_set_subset)
qed (simp add: window_groups_def)

lemma window_groups_sum:
  fixes f :: "execution_metrics list \<Rightarrow> 'a :: cancel_comm_monoid_add"
  assumes "f [] = 0" "\<And>xs x. f (xs @ [x]) = f xs + g x"
  shows "js_sum f (window_groups w es) = sum_list (map g es)"
proof (induction es rule: rev_induct)
  case (snoc e es)
  let ?m = "window_groups w es" and ?k = "em_timestamp e div w * w"
  have one: "f [e] = g e" using assms(2) [of "[]" e] assms(1) by simp
  show ?case
  proof (cases "map_of ?m ?k")
    case None
    then show ?thesis using snoc one js_sum_new [of ?m ?k f "[e]"]
      by (simp add: window_groups_snoc Let_def nullish_def js_has_def)
  next
    case (Some v)
    have "js_sum f (AList.update ?k (v @ [e]) ?m) + f v = js_sum f ?m + (f v + g e)"
      using js_sum_set [OF Some, of f "v @ [e]"] assms(2) by simp
    then have "js_sum f (AList.update ?k (v @ [e]) ?m) = js_sum f ?m + g e"
      by (metis add.assoc add.commute add_right_imp_eq)
    then show ?thesis using snoc Some by (simp add: window_groups_snoc Let_def nullish_def)
  qed
qed (simp add: window_groups_def assms)

lemma sum_list_sorted: "sum_list (map (f :: 'b \<Rightarrow> 'a :: comm_monoid_add) (sort_key k xs)) = sum_list (map f xs)"
  by (metis mset_map mset_sort sum_mset_sum_list)

text \<open>The windows partition the session. Whatever executions are kept, the windows of positive length are in
  strict order of their start, each starts at a multiple of the length and holds at least one execution, and the executions and saved
  tokens of all windows add up to those of the session; and the session's counts agree: successes and failures, and the two
  modes, each make up the total.\<close>

theorem windows_partition_session:
  assumes "0 < windowMs"
  shows "let ws = getWindowedMetrics windowMs c; s = getSessionMetrics now c in
     sorted_wrt (<) (map wm_start ws) \<and> list_all (\<lambda>w. windowMs dvd wm_start w \<and> 0 < wm_executions w) ws
     \<and> sum_list (map wm_executions ws) = sm_total s \<and> sum_list (map wm_saved ws) = sm_saved s
     \<and> sm_successful s + sm_failed s = sm_total s \<and> sm_executionMode s + sm_passthroughMode s = sm_total s"
proof -
  let ?es = "mc_executions c"
  let ?m = "window_groups windowMs ?es"
  let ?ws = "getWindowedMetrics windowMs c"
  have starts: "map wm_start (map (\<lambda>(k, es). window_of windowMs k es) ?m) = map fst ?m"
    by (simp add: window_of_def comp_def case_prod_beta)
  have "sorted (map wm_start ?ws)" by (simp add: getWindowedMetrics_def)
  moreover have "distinct (map wm_start ?ws)"
  proof -
    have "mset (map wm_start ?ws) = mset (map fst ?m)"
      unfolding starts [symmetric] by (simp only: getWindowedMetrics_def mset_map mset_sort)
    then show ?thesis using window_groups_wf [of windowMs ?es] by (metis js_wf_def mset_eq_imp_distinct_iff)
  qed
  ultimately have 1: "sorted_wrt (<) (map wm_start ?ws)" by (simp add: strict_sorted_iff)
  have 2: "list_all (\<lambda>w. windowMs dvd wm_start w \<and> 0 < wm_executions w) ?ws"
    using window_groups_entry [of _ _ windowMs ?es]
    by (auto simp: list_all_iff getWindowedMetrics_def window_of_def)
  have 3: "sum_list (map wm_executions ?ws) = length ?es"
    using window_groups_sum [of length "\<lambda>_. 1" windowMs ?es]
    by (simp add: getWindowedMetrics_def sum_list_sorted js_sum_def window_of_def comp_def case_prod_beta' sum_list_triv)
  have 4: "sum_list (map wm_saved ?ws) = sum_list (map em_saved ?es)"
    using window_groups_sum [of "\<lambda>xs. sum_list (map em_saved xs)" em_saved windowMs ?es]
    by (simp add: getWindowedMetrics_def sum_list_sorted js_sum_def window_of_def comp_def case_prod_beta')
  show ?thesis using 1 2 3 4
    by (simp add: Let_def getSessionMetrics_def sum_length_filter_compl)
qed

definition demo_execution :: execution_input where
  "demo_execution = \<lparr>ei_id = ''e'', ei_code = ''return 1'', ei_result = Some (JNum 1), ei_success = True, ei_durationMs = 5,
     ei_toolCalls = 2, ei_dataBytes = 4096, ei_resultBytes = 1, ei_mode = ExecMode, ei_servers = [''github''], ei_tools = []\<rparr>"

theorem windows_partition_session_witness:
  "sum_list (map wm_saved (getWindowedMetrics 60 (snd (recordExecution 130 demo_execution (new_collector ''s'' 0)))))
     = sm_saved (getSessionMetrics 200 (snd (recordExecution 130 demo_execution (new_collector ''s'' 0))))"
  using windows_partition_session [of 60 "snd (recordExecution 130 demo_execution (new_collector ''s'' 0))" 200]
  by (simp add: Let_def)

text \<open>A session's metrics forget all but the last 100 executions; a limit of 0 lists all of them; a reset
  keeps the buckets per tool.\<close>

lemma session_forgets:
  "sm_total (getSessionMetrics now (foldl (\<lambda>c (t, i). snd (recordExecution t i c)) (new_collector sid start) run)) = min 100 (length run)"
  by (simp add: getSessionMetrics_def Let_def stored_executions keep_last_def)

lemma no_recent_means_all: "getRecentExecutions 0 c = mc_executions c"
  by (simp add: getRecentExecutions_def)

lemma reset_keeps_tool_savings: "ss_perTool (getTokenSavings now (metrics_reset sid t c)) = ss_perTool (getTokenSavings now c)"
  by (simp add: getTokenSavings_def metrics_reset_def Let_def)

end
