(* ===== verification/Sandbox.thy ===== *)
theory Sandbox
  imports HttpBridge JsText LineFraming
begin

text \<open>
  The program that the conductor wraps around the user's code, \<open>generateSandboxCode\<close> of
  \<open>src/src/runtime/executor.ts\<close>: the client of the bridge, \<open>mcp.batch\<close>, logs and progress, the scrubbing of
  the result and the lines in which it is written. The state is that of one sandbox process: a call of
  the user's code is a function on it. The bridge is reached through \<open>post\<close>, which for a server, a tool
  and parameters gives what \<open>fetch\<close> and \<open>response.json()\<close> give (\<open>Inl\<close> when one of them rejects), the time
  this took, and a state of its own that may be anything; \<open>inspect\<close> is what the runtime's own \<open>console.log\<close>
  writes for its arguments.
\<close>

subsection \<open>State\<close>

record rate_limit =
  rl_detected :: bool
  rl_delayMs :: int
  rl_lastError :: time

record sandbox =
  sb_stream :: bool
  sb_now :: time
  toolCalls :: nat
  dataProcessedBytes :: int
  cumulativeToolCallDurationMs :: int
  sb_logs :: "string list"
  rateLimits :: "(string, rate_limit) jsmap"
  sb_reverse :: "(string, json) jsmap"
  sb_stdout :: string
  sb_events :: "(string \<times> json) list"

definition new_sandbox :: "bool \<Rightarrow> time \<Rightarrow> sandbox" where
  "new_sandbox streamEnabled now =
     \<lparr>sb_stream = streamEnabled, sb_now = now, toolCalls = 0, dataProcessedBytes = 0,
      cumulativeToolCallDurationMs = 0, sb_logs = [], rateLimits = [], sb_reverse = [], sb_stdout = [], sb_events = []\<rparr>"

text \<open>What the code throws: the shim of \<open>MCPToolError\<close> with the upstream error (rebuilt from the wire, or the
  value on the wire), an error of the runtime with its name and message, or any other value
  (\<open>None\<close> is \<open>undefined\<close>).\<close>

datatype upstream_value =
    UpstreamError "json option" string "json option"
  | UpstreamValue "json option"

datatype sandbox_error =
    SandboxToolError string string string upstream_value
  | JsError string string
  | ThrownValue "json option"

definition undefined_text :: "json option \<Rightarrow> string" where
  "undefined_text v = (case v of None \<Rightarrow> ''undefined'' | Some x \<Rightarrow> js_String x)"

definition shim_message :: "string \<Rightarrow> string \<Rightarrow> string \<Rightarrow> string" where
  "shim_message code server tool = ''['' @ server @ ''.'' @ tool @ ''] '' @ code"

text \<open>\<open>String(error)\<close>.\<close>

fun error_text :: "sandbox_error \<Rightarrow> string" where
  "error_text (SandboxToolError c s t u) = ''MCPToolError: '' @ shim_message c s t"
| "error_text (JsError name msg) = (if msg = [] then name else name @ '': '' @ msg)"
| "error_text (ThrownValue v) = undefined_text v"

definition isRateLimitError :: "json option \<Rightarrow> bool" where
  "isRateLimitError result =
     (case result of
        Some (JStr s) \<Rightarrow> js_includes (js_lower s) ''rate limit''
      | Some (JArr xs) \<Rightarrow>
          (let str = js_lower (json_stringify (JArr xs))
           in js_includes str ''rate limit'' \<or> js_includes str ''rate_limit'' \<or> js_includes str ''429'')
      | Some (JObj kvs) \<Rightarrow>
          (let str = js_lower (json_stringify (JObj kvs))
           in js_includes str ''rate limit'' \<or> js_includes str ''rate_limit'' \<or> js_includes str ''429'')
      | _ \<Rightarrow> False)"

definition sandbox_sleep :: "int \<Rightarrow> sandbox \<Rightarrow> sandbox" where
  "sandbox_sleep ms s = s\<lparr>sb_now := sb_now s + max 0 ms\<rparr>"

text \<open>An event for the bridge. Whether it arrives makes no difference to the program.\<close>

definition streamEvent :: "string \<Rightarrow> (string \<times> json) list \<Rightarrow> sandbox \<Rightarrow> sandbox" where
  "streamEvent endpoint kvs s =
     (if \<not> sb_stream s then s else s\<lparr>sb_events := sb_events s @ [(endpoint, JObj kvs)]\<rparr>)"

subsection \<open>Console\<close>

definition log_text :: "json list \<Rightarrow> string" where
  "log_text args =
     join '' '' (map (\<lambda>a. case a of JStr s \<Rightarrow> s | JNull \<Rightarrow> json_stringify a | JArr _ \<Rightarrow> json_stringify a
                              | JObj _ \<Rightarrow> json_stringify a | _ \<Rightarrow> js_String a) args)"

definition originalConsoleLog :: "(json list \<Rightarrow> string) \<Rightarrow> json list \<Rightarrow> sandbox \<Rightarrow> sandbox" where
  "originalConsoleLog inspect args s = s\<lparr>sb_stdout := sb_stdout s @ inspect args @ [newline]\<rparr>"

definition console_log :: "(json list \<Rightarrow> string) \<Rightarrow> json list \<Rightarrow> sandbox \<Rightarrow> sandbox" where
  "console_log inspect args s =
     (let message = log_text args;
          s1 = originalConsoleLog inspect args (s\<lparr>sb_logs := sb_logs s @ [message]\<rparr>)
      in streamEvent ''/log'' [(''message'', JStr message), (''level'', JStr ''info'')] s1)"

definition mcp_progress :: "(json list \<Rightarrow> string) \<Rightarrow> int \<Rightarrow> string option \<Rightarrow> sandbox \<Rightarrow> sandbox" where
  "mcp_progress inspect percent message s =
     (let logMessage = ''[PROGRESS] '' @ show_int percent @ ''%''
            @ (case message of Some m \<Rightarrow> if m = [] then [] else '': '' @ m | None \<Rightarrow> []);
          s1 = originalConsoleLog inspect [JStr logMessage] (s\<lparr>sb_logs := sb_logs s @ [logMessage]\<rparr>)
      in streamEvent ''/progress''
           ((''percent'', JNum percent) # (case message of Some m \<Rightarrow> [(''message'', JStr m)] | None \<Rightarrow> [])) s1)"

definition mcp_logLevel :: "(json list \<Rightarrow> string) \<Rightarrow> string \<Rightarrow> json list \<Rightarrow> sandbox \<Rightarrow> sandbox" where
  "mcp_logLevel inspect level args s =
     (let message = log_text args;
          tag = ''['' @ js_upper level @ '']'';
          s1 = originalConsoleLog inspect (JStr tag # args) (s\<lparr>sb_logs := sb_logs s @ [tag @ '' '' @ message]\<rparr>)
      in streamEvent ''/log'' [(''message'', JStr message), (''level'', JStr level)] s1)"

subsection \<open>Calls\<close>

type_synonym 'w bridge_post = "string \<Rightarrow> string \<Rightarrow> json \<Rightarrow> 'w \<Rightarrow> (sandbox_error + json) \<times> int \<times> 'w"

definition tool_event :: "string \<Rightarrow> string \<Rightarrow> string \<Rightarrow> (string \<times> json) list \<Rightarrow> sandbox \<Rightarrow> sandbox" where
  "tool_event name tool status extra s =
     streamEvent ''/tool-event''
       ([(''server'', JStr name), (''tool'', JStr tool), (''status'', JStr status)] @ extra) s"

text \<open>\<open>Object.assign(__reverseMap, m)\<close>.\<close>

definition take_reverse :: "json \<Rightarrow> sandbox \<Rightarrow> sandbox" where
  "take_reverse m s = s\<lparr>sb_reverse := foldl (\<lambda>r (k, v). AList.update k v r) (sb_reverse s) (object_entries m)\<rparr>"

definition is_object :: "json \<Rightarrow> bool" where
  "is_object v = (case v of JObj _ \<Rightarrow> True | JArr _ \<Rightarrow> True | JNull \<Rightarrow> True | _ \<Rightarrow> False)"

text \<open>The upstream error: rebuilt when the bridge has marked it as an \<open>Error\<close>.\<close>

definition rebuild_upstream :: "json option \<Rightarrow> upstream_value" where
  "rebuild_upstream u =
     (case u of
        Some v \<Rightarrow>
          (if js_truthy v \<and> is_object v \<and> (case js_field ''__error__'' v of Some m \<Rightarrow> js_truthy m | None \<Rightarrow> False)
           then UpstreamError (js_field ''name'' v)
                  (case js_field ''message'' v of Some m \<Rightarrow> js_String m | None \<Rightarrow> [])
                  (case js_field ''stack'' v of Some k \<Rightarrow> if js_truthy k then Some k else None | None \<Rightarrow> None)
           else UpstreamValue u)
      | None \<Rightarrow> UpstreamValue u)"

text \<open>The error of a reply. The fields of a tool error are the texts the bridge writes.\<close>

definition reply_error :: "string \<Rightarrow> string \<Rightarrow> json \<Rightarrow> sandbox_error" where
  "reply_error name tool err =
     (if text_field ''type'' err = Some ''mcp_tool_error'' \<and> js_field ''code'' err \<noteq> None
      then SandboxToolError (js_String (the (js_field ''code'' err)))
             (nullish (text_field ''server'' err) name) (nullish (text_field ''tool'' err) tool)
             (rebuild_upstream (js_field ''upstream'' err))
      else JsError ''Error'' (''Tool error ('' @ name @ ''.'' @ tool @ ''): '' @ undefined_text (js_field ''message'' err)))"

definition type_error_null :: "string \<Rightarrow> sandbox_error" where
  "type_error_null k =
     JsError ''TypeError'' (''Cannot read properties of null (reading '' @ [CHR 0x27] @ k @ [CHR 0x27] @ '')'')"

text \<open>The body of the \<open>try\<close>, once the reply is there.\<close>

definition read_reply :: "string \<Rightarrow> string \<Rightarrow> time \<Rightarrow> json \<Rightarrow> sandbox \<Rightarrow> (sandbox_error + json option) \<times> sandbox" where
  "read_reply name tool startTime data s =
     (let durationMs = sb_now s - startTime;
          s1 = s\<lparr>cumulativeToolCallDurationMs := cumulativeToolCallDurationMs s + durationMs\<rparr>
      in if data = JNull then (Inl (type_error_null ''metrics''), s1)
         else
           (let size = (case js_field ''metrics'' data of Some m \<Rightarrow> nullish (num_field ''dataSize'' m) 0 | None \<Rightarrow> 0);
                s2 = s1\<lparr>dataProcessedBytes := dataProcessedBytes s1 + size\<rparr>;
                s3 = (case js_field ''reverseMap'' data of
                        Some m \<Rightarrow> if js_truthy m \<and> is_object m then take_reverse m s2 else s2
                      | None \<Rightarrow> s2);
                timed = [(''durationMs'', JNum durationMs)]
            in case js_field ''error'' data of
                 Some err \<Rightarrow>
                   (if js_truthy err
                    then (Inl (reply_error name tool err),
                          tool_event name tool ''error''
                            (timed @ (case js_field ''message'' err of Some m \<Rightarrow> [(''error'', m)] | None \<Rightarrow> [])) s3)
                    else (Inr (js_field ''result'' data), tool_event name tool ''completed'' timed s3))
               | None \<Rightarrow> (Inr (js_field ''result'' data), tool_event name tool ''completed'' timed s3)))"

definition call_started :: "string \<Rightarrow> string \<Rightarrow> sandbox \<Rightarrow> sandbox" where
  "call_started name tool s = tool_event name tool ''started'' [] (s\<lparr>toolCalls := toolCalls s + 1\<rparr>)"

definition call_settled ::
    "string \<Rightarrow> string \<Rightarrow> time \<Rightarrow> sandbox_error + json \<Rightarrow> sandbox \<Rightarrow> (sandbox_error + json option) \<times> sandbox" where
  "call_settled name tool startTime reply s =
     (let (res, s1) = (case reply of Inl e \<Rightarrow> (Inl e, s) | Inr data \<Rightarrow> read_reply name tool startTime data s)
      in case res of
           Inr v \<Rightarrow> (Inr v, s1)
         | Inl e \<Rightarrow>
             (Inl e, tool_event name tool ''error''
                [(''durationMs'', JNum (sb_now s1 - startTime)), (''error'', JStr (error_text e))] s1))"

definition client_call ::
    "'w bridge_post \<Rightarrow> string \<Rightarrow> string \<Rightarrow> json \<Rightarrow> sandbox \<times> 'w \<Rightarrow> (sandbox_error + json option) \<times> sandbox \<times> 'w" where
  "client_call post name tool params sw =
     (let startTime = sb_now (fst sw);
          s1 = call_started name tool (fst sw);
          (reply, took, w1) = post name tool params (snd sw);
          (res, s2) = call_settled name tool startTime reply (s1\<lparr>sb_now := sb_now s1 + max 0 took\<rparr>)
      in (res, s2, w1))"

text \<open>\<open>mcp.detokenize\<close>.\<close>

definition mcp_detokenize :: "string \<Rightarrow> sandbox \<Rightarrow> json option" where
  "mcp_detokenize token s = map_of (sb_reverse s) token"

subsection \<open>\<open>mcp.batch\<close>\<close>

type_synonym tool_call = "string \<times> string \<times> json"

record batch_options =
  retryDelayMs :: "int option"
  forceParallel :: "bool option"

text \<open>The calls of \<open>Promise.all\<close>: all are started, in order; \<open>ord\<close> is the order in which the bridge handles
  them and their replies arrive. The promise rejects with the first rejection; the calls that are then
  still in flight are taken to settle before the program goes on.\<close>

fun settle_calls ::
    "'w bridge_post \<Rightarrow> time \<Rightarrow> tool_call list \<Rightarrow> nat list \<Rightarrow> sandbox \<times> 'w
     \<Rightarrow> (nat \<times> (sandbox_error + json option)) list \<times> sandbox \<times> 'w" where
  "settle_calls post T calls [] sw = ([], sw)"
| "settle_calls post T calls (i # idxs) (s, w) =
     (let (server, tool, params) = calls ! i;
          (reply, took, w1) = post server tool params w;
          (res, s1) = call_settled server tool T reply (s\<lparr>sb_now := max (sb_now s) (T + took)\<rparr>);
          (rest, sw2) = settle_calls post T calls idxs (s1, w1)
      in ((i, res) # rest, sw2))"

definition start_calls :: "tool_call list \<Rightarrow> sandbox \<Rightarrow> sandbox" where
  "start_calls calls s = foldl (\<lambda>s (server, tool, params). call_started server tool s) s calls"

fun first_rejection :: "(nat \<times> ('e + 'a)) list \<Rightarrow> 'e option" where
  "first_rejection [] = None"
| "first_rejection ((i, Inl e) # rs) = Some e"
| "first_rejection ((i, Inr v) # rs) = first_rejection rs"

definition parallel_calls ::
    "'w bridge_post \<Rightarrow> nat list \<Rightarrow> tool_call list \<Rightarrow> sandbox \<times> 'w
     \<Rightarrow> (sandbox_error + json option list) \<times> sandbox \<times> 'w" where
  "parallel_calls post ord calls sw =
     (let (rs, sw1) = settle_calls post (sb_now (fst sw)) calls ord (start_calls calls (fst sw), snd sw)
      in case first_rejection rs of
           Some e \<Rightarrow> (Inl e, sw1)
         | None \<Rightarrow> (Inr (map (\<lambda>i. projr (the (map_of rs i))) [0..<length calls]), sw1))"

text \<open>The loop for a server that is known to limit its rate; \<open>first\<close> is \<open>i = 0\<close>.\<close>

fun sequential_calls ::
    "'w bridge_post \<Rightarrow> bool \<Rightarrow> tool_call list \<Rightarrow> sandbox \<times> 'w
     \<Rightarrow> (sandbox_error + json option list) \<times> sandbox \<times> 'w" where
  "sequential_calls post fst_call [] sw = (Inr [], sw)"
| "sequential_calls post fst_call ((server, tool, params) # calls) (s, w) =
     (let s1 = (case map_of (rateLimits s) server of
                  Some r \<Rightarrow> if rl_detected r \<and> \<not> fst_call then sandbox_sleep (rl_delayMs r) s else s
                | None \<Rightarrow> s)
      in case client_call post server tool params (s1, w) of
           (Inl e, sw1) \<Rightarrow> (Inl e, sw1)
         | (Inr v, sw1) \<Rightarrow>
             (case sequential_calls post False calls sw1 of
                (Inl e, sw2) \<Rightarrow> (Inl e, sw2)
              | (Inr vs, sw2) \<Rightarrow> (Inr (v # vs), sw2)))"

text \<open>Marking the server of a limited call, with the two lines that are logged.\<close>

definition mark_limited ::
    "(json list \<Rightarrow> string) \<Rightarrow> string \<Rightarrow> string \<Rightarrow> int \<Rightarrow> string \<Rightarrow> sandbox \<Rightarrow> sandbox" where
  "mark_limited inspect limited_text tip_text delay server s =
     console_log inspect [JStr tip_text]
       (console_log inspect [JStr (limited_text @ server @ '' - Free tier limit hit. Retrying with delays...'')]
         (s\<lparr>rateLimits := AList.update server \<lparr>rl_detected = True, rl_delayMs = delay, rl_lastError = sb_now s\<rparr> (rateLimits s)\<rparr>))"

definition limited_indices :: "json option list \<Rightarrow> nat list" where
  "limited_indices rs = filter (\<lambda>i. isRateLimitError (rs ! i)) [0..<length rs]"

fun retry_limited ::
    "'w bridge_post \<Rightarrow> int \<Rightarrow> tool_call list \<Rightarrow> nat list \<Rightarrow> json option list \<Rightarrow> sandbox \<times> 'w
     \<Rightarrow> (sandbox_error + json option list) \<times> sandbox \<times> 'w" where
  "retry_limited post delay calls [] results sw = (Inr results, sw)"
| "retry_limited post delay calls (idx # rest) results (s, w) =
     (let (server, tool, params) = calls ! idx
      in case client_call post server tool params (sandbox_sleep delay s, w) of
           (Inl e, sw1) \<Rightarrow> (Inl e, sw1)
         | (Inr v, sw1) \<Rightarrow> retry_limited post delay calls rest (results[idx := v]) sw1)"

text \<open>The descriptor form. The three texts that are logged have signs outside this development's code
  page, so they are arguments.\<close>

definition mcp_batch ::
    "'w bridge_post \<Rightarrow> (json list \<Rightarrow> string) \<Rightarrow> string \<times> string \<times> string \<Rightarrow> nat list \<Rightarrow> tool_call list \<Rightarrow> batch_options
     \<Rightarrow> sandbox \<times> 'w \<Rightarrow> (sandbox_error + json option list) \<times> sandbox \<times> 'w" where
  "mcp_batch post inspect texts ord calls opts sw =
     (let (force_text, limited_text, tip_text) = texts;
          delay = nullish (retryDelayMs opts) 1100;
          force = nullish (forceParallel opts) False;
          s = fst sw;
          s1 = (if force
                then console_log inspect [JStr force_text]
                       (s\<lparr>rateLimits := foldl (\<lambda>m (server, tool, params). AList.delete server m) (rateLimits s) calls\<rparr>)
                else s);
          hasKnownRateLimit = (\<not> force \<and> list_ex (\<lambda>(server, tool, params).
             case map_of (rateLimits s1) server of Some r \<Rightarrow> rl_detected r | None \<Rightarrow> False) calls)
      in if hasKnownRateLimit then sequential_calls post True calls (s1, snd sw)
         else
           (case parallel_calls post ord calls (s1, snd sw) of
              (Inl e, sw2) \<Rightarrow> (Inl e, sw2)
            | (Inr rs, (s2, w2)) \<Rightarrow>
                (let limited = limited_indices rs;
                     s3 = foldl (\<lambda>s i. mark_limited inspect limited_text tip_text delay (fst (calls ! i)) s) s2 limited
                 in retry_limited post delay calls limited rs (s3, w2))))"

subsection \<open>\<open>mcp.batchSearch\<close>\<close>

record search_hit =
  hit_title :: string
  hit_url :: string
  hit_description :: "string option"

definition line_feed2 :: string where "line_feed2 = [newline, newline]"

text \<open>The group of \<open>/Label:\s*([^\n]+)/\<close>, trimmed. When nothing but white space follows, the group is the last
  of it that is no line feed, and trims to the empty text.\<close>

definition field_after :: "string \<Rightarrow> string \<Rightarrow> string option" where
  "field_after label b =
     (case js_index_of b label of
        None \<Rightarrow> None
      | Some i \<Rightarrow>
          (let rest = drop (i + length label) b;
               body = dropWhile is_space rest
           in if body \<noteq> [] then Some (HttpBridge.js_trim (takeWhile (\<lambda>c. c \<noteq> newline) body))
              else if list_ex (\<lambda>c. c \<noteq> newline) rest then Some [] else None))"

definition parse_block :: "string \<Rightarrow> search_hit option" where
  "parse_block b =
     (let title = nullish (field_after ''Title:'' b) []; url = nullish (field_after ''URL:'' b) []
      in if title \<noteq> [] \<and> url \<noteq> []
         then Some \<lparr>hit_title = title, hit_url = url, hit_description = field_after ''Description:'' b\<rparr> else None)"

definition parseResults :: "json option \<Rightarrow> search_hit list" where
  "parseResults txt =
     (case txt of
        Some (JStr t) \<Rightarrow>
          (if prefix ''Error:'' t then []
           else (case split_at_text (line_feed2 @ ''Title:'') t of
                   [] \<Rightarrow> []
                 | b # bs \<Rightarrow> List.map_filter parse_block (b # map (\<lambda>x. ''Title:'' @ x) bs)))
      | _ \<Rightarrow> [])"

definition mcp_batchSearch ::
    "'w bridge_post \<Rightarrow> (json list \<Rightarrow> string) \<Rightarrow> string \<times> string \<times> string \<Rightarrow> nat list \<Rightarrow> string list
     \<Rightarrow> nat option \<Rightarrow> bool option \<Rightarrow> sandbox \<times> 'w
     \<Rightarrow> (sandbox_error + (string, search_hit list) jsmap) \<times> sandbox \<times> 'w" where
  "mcp_batchSearch post inspect texts ord queries topN force sw =
     (let calls = map (\<lambda>q. (''brave-search'', ''brave_web_search'', JObj [(''query'', JStr q)])) queries
      in case mcp_batch post inspect texts ord calls \<lparr>retryDelayMs = None, forceParallel = Some (nullish force False)\<rparr> sw of
           (Inl e, sw1) \<Rightarrow> (Inl e, sw1)
         | (Inr raw, sw1) \<Rightarrow>
             (Inr (foldl (\<lambda>m (q, r). AList.update q (take (nullish topN 3) (parseResults r)) m) [] (zip queries raw)), sw1))"

subsection \<open>The result\<close>

definition note_plain :: "(string, string) jsmap \<Rightarrow> string \<times> json \<Rightarrow> (string, string) jsmap" where
  "note_plain m e =
     (if js_String (snd e) = ''__proto__'' then m else AList.update (js_String (snd e)) (fst e) m)"

definition plainToToken :: "(string, json) jsmap \<Rightarrow> (string, string) jsmap" where
  "plainToToken rm = foldl note_plain [] (own_properties rm)"

fun scrub_walk :: "(string, string) jsmap \<Rightarrow> json \<Rightarrow> json" where
  "scrub_walk m (JStr s) = JStr (nullish (map_of m s) s)"
| "scrub_walk m (JArr xs) = JArr (map (scrub_walk m) xs)"
| "scrub_walk m (JObj kvs) = JObj (own_properties (map (\<lambda>(k, v). (k, scrub_walk m v)) kvs))"
| "scrub_walk m v = v"

definition scrubResult :: "(string, json) jsmap \<Rightarrow> json option \<Rightarrow> json option" where
  "scrubResult rm v = (if rm = [] then v else map_option (scrub_walk (plainToToken rm)) v)"

definition result_start :: string where "result_start = ''__RESULT_START__''"
definition result_end :: string where "result_end = ''__RESULT_END__''"

definition metrics_json :: "sandbox \<Rightarrow> json" where
  "metrics_json s =
     JObj [(''toolCalls'', JNum (int (toolCalls s))), (''dataProcessedBytes'', JNum (dataProcessedBytes s)),
           (''cumulativeToolCallDurationMs'', JNum (cumulativeToolCallDurationMs s))]"

definition logs_json :: "sandbox \<Rightarrow> json" where
  "logs_json s = JArr (if sb_stream s then [] else map JStr (sb_logs s))"

definition success_json :: "json option \<Rightarrow> sandbox \<Rightarrow> json" where
  "success_json result s =
     JObj ([(''success'', JBool True)] @ (case result of Some v \<Rightarrow> [(''result'', v)] | None \<Rightarrow> [])
           @ [(''logs'', logs_json s), (''metrics'', metrics_json s)])"

text \<open>\<open>err.message\<close>; \<open>None\<close> when reading it throws.\<close>

fun thrown_message :: "sandbox_error \<Rightarrow> json option option" where
  "thrown_message (SandboxToolError c s t u) = Some (Some (JStr (shim_message c s t)))"
| "thrown_message (JsError name msg) = Some (Some (JStr msg))"
| "thrown_message (ThrownValue v) =
     (case v of None \<Rightarrow> None | Some x \<Rightarrow> if x = JNull then None else Some (js_field ''message'' x))"

definition failure_json :: "json option \<Rightarrow> json option \<Rightarrow> sandbox \<Rightarrow> json" where
  "failure_json message stack s =
     JObj [(''success'', JBool False),
           (''error'', JObj ([(''type'', JStr ''runtime'')]
              @ (case message of Some m \<Rightarrow> [(''message'', m)] | None \<Rightarrow> [])
              @ (case stack of Some k \<Rightarrow> [(''stack'', k)] | None \<Rightarrow> []))),
           (''logs'', logs_json s), (''metrics'', metrics_json s)]"

text \<open>The three lines of the result; the JSON text is made after the first of them is written.\<close>

definition print_frame :: "(json list \<Rightarrow> string) \<Rightarrow> (sandbox \<Rightarrow> json) \<Rightarrow> sandbox \<Rightarrow> sandbox" where
  "print_frame inspect body s =
     (let s1 = console_log inspect [JStr result_start] s
      in console_log inspect [JStr result_end]
           (console_log inspect [JStr (json_stringify (body s1))] s1))"

definition log_event :: "string \<Rightarrow> string \<Rightarrow> sandbox \<Rightarrow> sandbox" where
  "log_event message level = streamEvent ''/log'' [(''message'', JStr message), (''level'', JStr level)]"

definition progress_event :: "int \<Rightarrow> string \<Rightarrow> sandbox \<Rightarrow> sandbox" where
  "progress_event percent message = streamEvent ''/progress'' [(''percent'', JNum percent), (''message'', JStr message)]"

text \<open>The main program around the user's code; the flag tells that it ended by an unhandled rejection.\<close>

type_synonym 'w user_code = "sandbox \<times> 'w \<Rightarrow> (sandbox_error + json option) \<times> sandbox \<times> 'w"

definition run_main ::
    "(json list \<Rightarrow> string) \<Rightarrow> (sandbox_error \<Rightarrow> json option) \<Rightarrow> 'w user_code \<Rightarrow> sandbox \<times> 'w \<Rightarrow> bool \<times> sandbox \<times> 'w" where
  "run_main inspect stack user sw =
     (let s1 = progress_event 0 ''Starting execution'' (log_event ''Execution started'' ''info'' (fst sw))
      in case user (s1, snd sw) of
           (Inr result, (s2, w)) \<Rightarrow>
             (let s3 = progress_event 100 ''Execution complete'' s2;
                  scrubbed = scrubResult (sb_reverse s3) result
              in (False, print_frame inspect (success_json scrubbed) s3, w))
         | (Inl e, (s2, w)) \<Rightarrow>
             (case thrown_message e of
                Some message \<Rightarrow>
                  (let s3 = log_event (''Error: '' @ undefined_text message) ''error'' s2
                   in (False, print_frame inspect (failure_json message (stack e)) s3, w))
              | None \<Rightarrow>
                  (True, (if sb_stream s2 then s2 else console_log inspect [JStr result_start] s2), w)))"

subsection \<open>What the user's code gets\<close>

lemma fold_update_keeps: "k \<notin> fst ` set kvs \<Longrightarrow> map_of (foldl (\<lambda>r (k, v). AList.update k v r) m kvs) k = map_of m k"
  by (induction kvs arbitrary: m) auto

lemma fold_update_takes:
  "distinct (map fst kvs) \<Longrightarrow> (k, v) \<in> set kvs \<Longrightarrow> map_of (foldl (\<lambda>r (k, v). AList.update k v r) m kvs) k = Some v"
proof (induction kvs arbitrary: m)
  case (Cons e kvs)
  then show ?case by (cases e) (auto simp: fold_update_keeps)
qed simp

lemma tool_event_fields [simp]:
  "sb_reverse (tool_event n t st kvs s) = sb_reverse s" "toolCalls (tool_event n t st kvs s) = toolCalls s"
  "sb_now (tool_event n t st kvs s) = sb_now s" "rateLimits (tool_event n t st kvs s) = rateLimits s"
  "sb_logs (tool_event n t st kvs s) = sb_logs s" "sb_stdout (tool_event n t st kvs s) = sb_stdout s"
  "sb_stream (tool_event n t st kvs s) = sb_stream s"
  by (simp_all add: tool_event_def streamEvent_def)

lemma take_reverse_fields [simp]:
  "toolCalls (take_reverse m s) = toolCalls s" "sb_now (take_reverse m s) = sb_now s"
  "rateLimits (take_reverse m s) = rateLimits s" "sb_logs (take_reverse m s) = sb_logs s"
  "sb_stdout (take_reverse m s) = sb_stdout s" "sb_stream (take_reverse m s) = sb_stream s"
  by (simp_all add: take_reverse_def)

text \<open>The upstream error as it is rebuilt.\<close>

definition upstream_seen :: "thrown \<Rightarrow> upstream_value" where
  "upstream_seen u =
     (if is_error_instance u then UpstreamError (Some (JStr (error_name u))) (err_message u) None
      else UpstreamValue (Some (upstream_json u)))"

lemma rebuild_upstream_json: "rebuild_upstream (Some (upstream_json u)) = upstream_seen u"
  by (cases u) (auto simp: rebuild_upstream_def upstream_json_def upstream_seen_def is_object_def js_field_def split: option.splits error_code.splits)

definition error_seen :: "string \<Rightarrow> string \<Rightarrow> thrown \<Rightarrow> sandbox_error" where
  "error_seen name tool e =
     (case e of
        MCPToolError c sv t u \<Rightarrow> SandboxToolError c sv t (upstream_seen u)
      | _ \<Rightarrow> JsError ''Error'' (''Tool error ('' @ name @ ''.'' @ tool @ ''): '' @ err_string e))"

lemma failed_reply:
  "fst (call_settled name tool T (Inr (the (rs_body (call_failure took e)))) s) = Inl (error_seen name tool e)"
  by (cases e)
    (simp_all add: call_settled_def read_reply_def Let_def call_failure_def sendJson_def plain_response_def js_field_def
      reply_error_def text_field_def error_seen_def rebuild_upstream_json undefined_text_def nullish_def)

lemma answered_reply:
  "fst (call_settled name tool T (Inr (the (rs_body (call_success took (x4_sentinel v rm))))) s) = Inr (Some v)"
  using sentinel_detected [of v rm]
  by (simp add: call_settled_def read_reply_def Let_def call_success_def sendJson_def plain_response_def js_field_def
      x4_sentinel_def has_keys_def)

lemma answered_plain:
  "\<not> isTokenizedCallResult v \<Longrightarrow>
   fst (call_settled name tool T (Inr (the (rs_body (call_success took v)))) s) = Inr (Some v)"
  by (simp add: call_settled_def read_reply_def Let_def call_success_def sendJson_def plain_response_def js_field_def)

lemma answered_reverse:
  "rm \<noteq> [] \<Longrightarrow>
   sb_reverse (snd (call_settled name tool T (Inr (the (rs_body (call_success took (x4_sentinel v rm))))) s)) =
     foldl (\<lambda>r (k, v). AList.update k v r) (sb_reverse s) (own_properties (map (\<lambda>(t, m). (t, JStr m)) rm))"
  using sentinel_detected [of v rm]
  by (simp add: call_settled_def read_reply_def Let_def call_success_def sendJson_def plain_response_def js_field_def
      x4_sentinel_def has_keys_def is_object_def take_reverse_def)

text \<open>C27: The bridge is transparent. What the handler of a call gives is what the user's code gets over the
  wire: a result as it is, a tokenized result without its sentinel and with each of its tokens known to
  \<open>mcp.detokenize\<close>, and an \<open>MCPToolError\<close> with its code, server, tool and upstream error (rebuilt when it
  was an \<open>Error\<close>); any other error becomes an \<open>Error\<close> whose message ends with the text of the original.\<close>

theorem bridge_is_transparent:
  assumes "distinct (map fst rm)"
  shows "(\<not> isTokenizedCallResult v \<longrightarrow>
       fst (call_settled name tool T (Inr (the (rs_body (call_success took v)))) s) = Inr (Some v))
    \<and> (case call_settled name tool T (Inr (the (rs_body (call_success took (x4_sentinel v rm))))) s of
         (res, s') \<Rightarrow> res = Inr (Some v)
           \<and> list_all (\<lambda>(t, m). t = ''__proto__'' \<or> mcp_detokenize t s' = Some (JStr m)) rm)
    \<and> fst (call_settled name tool T (Inr (the (rs_body (call_failure took e)))) s) = Inl (error_seen name tool e)"
proof -
  obtain res s' where c: "call_settled name tool T (Inr (the (rs_body (call_success took (x4_sentinel v rm))))) s = (res, s')"
    by force
  have d: "mcp_detokenize t s' = Some (JStr m)" if tm: "(t, m) \<in> set rm" "t \<noteq> ''__proto__''" for t m
  proof -
    let ?kvs = "own_properties (map (\<lambda>(t, m). (t, JStr m)) rm)"
    have "map fst (map (\<lambda>(t, m). (t, JStr m)) rm) = map fst rm" by (induction rm) auto
    then have "distinct (map fst ?kvs)" using assms by (metis distinct_own)
    moreover have "(t, JStr m) \<in> set ?kvs" using tm by (force simp: set_own_properties)
    moreover have "rm \<noteq> []" using tm by auto
    ultimately show ?thesis using answered_reverse [of rm name tool T took v s] c
      by (simp add: mcp_detokenize_def fold_update_takes)
  qed
  then have "res = Inr (Some v) \<and> list_all (\<lambda>(t, m). t = ''__proto__'' \<or> mcp_detokenize t s' = Some (JStr m)) rm"
    using answered_reply [of name tool T took v rm s] c by (auto simp: list_all_iff)
  then show ?thesis using c answered_plain failed_reply by auto
qed

theorem bridge_is_transparent_witness:
  "mcp_detokenize ''[EMAIL_1]'' (snd (call_settled ''crm'' ''get'' 0
      (Inr (the (rs_body (call_success 3 (x4_sentinel (JStr ''[EMAIL_1]'') [(''[EMAIL_1]'', ''x@y.io'')])))))
      (new_sandbox False 5))) = Some (JStr ''x@y.io'')"
  using bridge_is_transparent [of "[(''[EMAIL_1]'', ''x@y.io'')]" "JStr ''[EMAIL_1]''" "''crm''" "''get''" 0 3 "new_sandbox False 5"
      "Primitive ''x''"]
  by (simp split: prod.splits)

text \<open>An error that the bridge answers without an error object (a missing parameter, a body that is too large, a
  bridge that is not ready) loses its text: the message the user's code gets ends in \<open>undefined\<close>.\<close>

lemma plain_error_loses_message:
  "msg \<noteq> [] \<Longrightarrow>
   fst (call_settled name tool T (Inr (the (rs_body (sendError st msg)))) s) =
     Inl (JsError ''Error'' (''Tool error ('' @ name @ ''.'' @ tool @ ''): undefined''))"
  by (simp add: call_settled_def read_reply_def Let_def sendError_def sendJson_def plain_response_def js_field_def
      reply_error_def text_field_def undefined_text_def)

text \<open>A call that fails is reported to the stream twice: by the branch for \<open>data.error\<close>, and by the handler that
  catches what this branch throws.\<close>

lemma failed_call_reported_twice:
  "sb_stream s \<Longrightarrow>
   map (\<lambda>(p, ev). (p, text_field ''status'' ev)) (sb_events (snd (call_settled name tool T (Inr (the (rs_body (call_failure took e)))) s))) =
     map (\<lambda>(p, ev). (p, text_field ''status'' ev)) (sb_events s)
     @ [(''/tool-event'', Some ''error''), (''/tool-event'', Some ''error'')]"
  by (cases e)
    (simp_all add: call_settled_def read_reply_def Let_def call_failure_def sendJson_def plain_response_def js_field_def
      reply_error_def text_field_def tool_event_def streamEvent_def)

subsection \<open>Scrubbing\<close>

definition plain_texts :: "(string, json) jsmap \<Rightarrow> string list" where
  "plain_texts rm = map (\<lambda>(t, v). js_String v) rm"

lemma map_of_note_plain [simp]:
  "map_of (note_plain m (t, v)) p = (if js_String v = p \<and> p \<noteq> ''__proto__'' then Some t else map_of m p)"
  by (simp add: note_plain_def)

lemma plainToToken_hit:
  assumes "p \<noteq> ''__proto__''" "(t, v) \<in> set es" "js_String v = p"
  shows "\<exists>t'. t' \<in> fst ` set es \<and> map_of (foldl note_plain m es) p = Some t'"
  using assms
proof (induction es arbitrary: m rule: rev_induct)
  case (snoc e es)
  obtain t1 v1 where e: "e = (t1, v1)" by force
  show ?case
  proof (cases "js_String v1 = p")
    case False
    then have "(t, v) \<in> set es" using snoc.prems e by auto
    then obtain t' where "t' \<in> fst ` set es" "map_of (foldl note_plain m es) p = Some t'" using snoc by blast
    then show ?thesis using False e by auto
  qed (use snoc.prems e in auto)
qed simp

lemma plainToToken_from:
  "map_of (foldl note_plain m es) p = Some t \<Longrightarrow> map_of m p = Some t \<or> t \<in> fst ` set es"
proof (induction es arbitrary: m)
  case (Cons e es)
  obtain t1 v1 where e: "e = (t1, v1)" by force
  from Cons.IH [of "note_plain m e"] Cons.prems have "map_of (note_plain m e) p = Some t \<or> t \<in> fst ` set es" by simp
  then show ?case using e by (auto split: if_splits)
qed simp

lemma plainToToken_cases:
  assumes "list_all (\<lambda>(t, v). t \<noteq> ''__proto__'' \<and> js_String v \<noteq> ''__proto__'') rm"
  shows "p \<in> set (plain_texts rm) \<Longrightarrow> \<exists>t. t \<in> fst ` set rm \<and> map_of (plainToToken rm) p = Some t"
    and "map_of (plainToToken rm) p = Some t \<Longrightarrow> t \<in> fst ` set rm"
proof -
  assume "p \<in> set (plain_texts rm)"
  then obtain t v where tv: "(t, v) \<in> set rm" "js_String v = p" by (auto simp: plain_texts_def)
  then have "p \<noteq> ''__proto__''" "(t, v) \<in> set (own_properties rm)" using assms
    by (auto simp: list_all_iff set_own_properties)
  from plainToToken_hit [OF this tv(2)] show "\<exists>t. t \<in> fst ` set rm \<and> map_of (plainToToken rm) p = Some t"
    by (fastforce simp: plainToToken_def set_own_properties)
next
  assume "map_of (plainToToken rm) p = Some t"
  from plainToToken_from [OF this [unfolded plainToToken_def]] show "t \<in> fst ` set rm"
    by (auto simp: set_own_properties)
qed

lemma texts_scrub_walk: "set (texts_of (scrub_walk m v)) \<subseteq> (\<lambda>t. nullish (map_of m t) t) ` set (texts_of v)"
proof (induction m v rule: scrub_walk.induct)
  case (2 m xs)
  then show ?case by fastforce
next
  case (3 m kvs)
  show ?case
  proof
    fix t assume "t \<in> set (texts_of (scrub_walk m (JObj kvs)))"
    then obtain k v where "(k, v) \<in> set kvs" "t \<in> set (texts_of (scrub_walk m v))" by (auto simp: set_own_properties)
    then show "t \<in> (\<lambda>t. nullish (map_of m t) t) ` set (texts_of (JObj kvs))" using 3 by fastforce
  qed
qed simp_all

text \<open>C28: The result leaves no plain value as a text. When no token of the execution is itself a value that a token
  stands for (tokens have brackets of their own) and \<open>__proto__\<close> is neither, no text in the scrubbed
  result is a value of the reverse map; each text is one the user's code returned, or a token.\<close>

theorem scrub_leaves_no_plaintext:
  assumes "list_all (\<lambda>(t, v). t \<noteq> ''__proto__'' \<and> js_String v \<noteq> ''__proto__'' \<and> t \<notin> set (plain_texts rm)) rm"
    and "scrubResult rm (Some v) = Some out"
  shows "list_all (\<lambda>t. t \<notin> set (plain_texts rm) \<and> (t \<in> set (texts_of v) \<or> t \<in> fst ` set rm)) (texts_of out)"
proof (cases "rm = []")
  case True
  then show ?thesis using assms(2) by (simp add: scrubResult_def plain_texts_def list_all_iff)
next
  case False
  have ok: "list_all (\<lambda>(t, v). t \<noteq> ''__proto__'' \<and> js_String v \<noteq> ''__proto__'') rm" using assms(1) by (auto simp: list_all_iff)
  note hit = plainToToken_cases(1) [OF ok] and from_rm = plainToToken_cases(2) [OF ok]
  have tokens: "t \<notin> set (plain_texts rm)" if "t \<in> fst ` set rm" for t using assms(1) that by (auto simp: list_all_iff)
  have out: "out = scrub_walk (plainToToken rm) v" using False assms(2) by (simp add: scrubResult_def)
  have "t \<notin> set (plain_texts rm) \<and> (t \<in> set (texts_of v) \<or> t \<in> fst ` set rm)" if t: "t \<in> set (texts_of out)" for t
  proof -
    obtain u where u: "u \<in> set (texts_of v)" "t = nullish (map_of (plainToToken rm) u) u"
      using texts_scrub_walk [of "plainToToken rm" v] t out by auto
    show ?thesis
    proof (cases "map_of (plainToToken rm) u")
      case None
      then have "u \<notin> set (plain_texts rm)" using hit by fastforce
      then show ?thesis using u None by (simp add: nullish_def)
    next
      case (Some k)
      then have "k \<in> fst ` set rm" by (rule from_rm)
      then show ?thesis using u Some tokens by (simp add: nullish_def)
    qed
  qed
  then show ?thesis by (simp add: list_all_iff)
qed

theorem scrub_leaves_no_plaintext_witness:
  "list_all (\<lambda>t. t \<notin> set (plain_texts [(''[EMAIL_1]'', JStr ''x@y.io'')])
      \<and> (t \<in> set (texts_of (JArr [JStr ''x@y.io'', JStr ''ok''])) \<or> t \<in> fst ` set [(''[EMAIL_1]'', JStr ''x@y.io'')]))
     (texts_of (JArr [JStr ''[EMAIL_1]'', JStr ''ok'']))"
proof (rule scrub_leaves_no_plaintext)
  show "list_all (\<lambda>(t, v). t \<noteq> ''__proto__'' \<and> js_String v \<noteq> ''__proto__''
      \<and> t \<notin> set (plain_texts [(''[EMAIL_1]'', JStr ''x@y.io'')])) [(''[EMAIL_1]'', JStr ''x@y.io'')]"
    by code_simp
  show "scrubResult [(''[EMAIL_1]'', JStr ''x@y.io'')] (Some (JArr [JStr ''x@y.io'', JStr ''ok'']))
      = Some (JArr [JStr ''[EMAIL_1]'', JStr ''ok''])"
    by code_simp
qed

text \<open>What the scrubbing does not reach: a value inside a longer text, and a value used as a key.\<close>

lemma scrub_misses_parts_and_keys:
  "scrubResult [(''[EMAIL_1]'', JStr ''x@y.io'')]
       (Some (JObj [(''note'', JStr ''mail x@y.io''), (''x@y.io'', JNum 1)]))
   = Some (JObj [(''note'', JStr ''mail x@y.io''), (''x@y.io'', JNum 1)])"
  by code_simp

text \<open>Every call of the hub numbers its tokens from 1. Two calls in one execution give the same token to
  different values, the second one replaces the first in the reverse map, and the first value is
  neither found by \<open>mcp.detokenize\<close> nor scrubbed any more.\<close>

definition tokenized_reply :: "string \<Rightarrow> sandbox_error + json" where
  "tokenized_reply mail =
     (case tokenize (JStr mail) [''email''] of
        Inr (out, rm) \<Rightarrow> Inr (the (rs_body (call_success 1 (x4_sentinel out rm)))) | Inl e \<Rightarrow> Inl (ThrownValue None))"

definition after_two_calls :: sandbox where
  "after_two_calls =
     snd (call_settled ''crm'' ''get'' 0 (tokenized_reply ''b@x.io'')
       (snd (call_settled ''crm'' ''get'' 0 (tokenized_reply ''a@x.io'') (new_sandbox False 0))))"

lemma tokens_clash_across_calls:
  "sb_reverse after_two_calls = [(''[EMAIL_1]'', JStr ''b@x.io'')]
   \<and> scrubResult (sb_reverse after_two_calls) (Some (JStr ''a@x.io'')) = Some (JStr ''a@x.io'')"
  by code_simp

subsection \<open>Batches\<close>

definition is_answer :: "json \<Rightarrow> bool" where
  "is_answer data \<longleftrightarrow> data \<noteq> JNull \<and> (case js_field ''error'' data of Some e \<Rightarrow> \<not> js_truthy e | None \<Rightarrow> True)"

lemma settled_answer:
  "is_answer data \<Longrightarrow> fst (call_settled name tool T (Inr data) s) = Inr (js_field ''result'' data)"
  by (auto simp: call_settled_def read_reply_def is_answer_def Let_def split: option.splits)

lemma settled_toolCalls [simp]: "toolCalls (snd (call_settled name tool T reply s)) = toolCalls s"
  by (auto simp: call_settled_def read_reply_def Let_def split: sum.splits option.splits if_splits)

lemma started_toolCalls [simp]: "toolCalls (call_started name tool s) = toolCalls s + 1"
  by (simp add: call_started_def)

text \<open>A bridge whose state is the list of the requests it has got. What it replies to a request, and after
  what time, may depend on all the requests before.\<close>

definition recording_bridge ::
    "(tool_call list \<Rightarrow> tool_call \<Rightarrow> json) \<Rightarrow> (tool_call list \<Rightarrow> int) \<Rightarrow> tool_call list bridge_post" where
  "recording_bridge reply took server tool params w =
     (Inr (reply w (server, tool, params)), took w, w @ [(server, tool, params)])"

definition always_answers :: "(tool_call list \<Rightarrow> tool_call \<Rightarrow> json) \<Rightarrow> tool_call list \<Rightarrow> bool" where
  "always_answers reply calls \<longleftrightarrow> (\<forall>w. list_all (\<lambda>c. is_answer (reply w c)) calls)"

text \<open>The answers to a series of requests, when \<open>w\<close> came before.\<close>

fun answers :: "(tool_call list \<Rightarrow> tool_call \<Rightarrow> json) \<Rightarrow> tool_call list \<Rightarrow> tool_call list \<Rightarrow> json option list" where
  "answers reply w [] = []"
| "answers reply w (c # cs) = js_field ''result'' (reply w c) # answers reply (w @ [c]) cs"

lemma length_answers [simp]: "length (answers reply w cs) = length cs"
  by (induction cs arbitrary: w) auto

lemma answers_append: "answers reply w (cs @ ds) = answers reply w cs @ answers reply (w @ cs) ds"
  by (induction cs arbitrary: w) auto

lemma client_call_answer:
  assumes "always_answers reply calls" "(sv, t, p) \<in> set calls"
  shows "\<exists>s'. client_call (recording_bridge reply took) sv t p (s, w)
      = (Inr (js_field ''result'' (reply w (sv, t, p))), s', w @ [(sv, t, p)]) \<and> toolCalls s' = toolCalls s + 1"
proof -
  have a: "is_answer (reply w (sv, t, p))" using assms by (auto simp: always_answers_def list_all_iff)
  let ?s = "(call_started sv t s)\<lparr>sb_now := sb_now (call_started sv t s) + max 0 (took w)\<rparr>"
  obtain r s2 where c: "call_settled sv t (sb_now s) (Inr (reply w (sv, t, p))) ?s = (r, s2)" by force
  have "r = Inr (js_field ''result'' (reply w (sv, t, p)))" using settled_answer [OF a, of sv t "sb_now s" ?s] c by simp
  moreover have "toolCalls s2 = toolCalls s + 1"
    using settled_toolCalls [of sv t "sb_now s" "Inr (reply w (sv, t, p))" ?s] c by simp
  ultimately show ?thesis using c by (simp add: client_call_def recording_bridge_def Let_def)
qed

lemma sequential_answers:
  "always_answers reply all \<Longrightarrow> set calls \<subseteq> set all \<Longrightarrow>
   \<exists>s'. sequential_calls (recording_bridge reply took) f calls (s, w) = (Inr (answers reply w calls), s', w @ calls)
     \<and> toolCalls s' = toolCalls s + length calls"
proof (induction calls arbitrary: f s w)
  case (Cons c calls)
  obtain sv t p where c: "c = (sv, t, p)" by (cases c)
  let ?s = "case map_of (rateLimits s) sv of
              Some r \<Rightarrow> if rl_detected r \<and> \<not> f then sandbox_sleep (rl_delayMs r) s else s | None \<Rightarrow> s"
  have n: "toolCalls ?s = toolCalls s" by (auto simp: sandbox_sleep_def split: option.splits)
  obtain s1 where 1: "client_call (recording_bridge reply took) sv t p (?s, w)
      = (Inr (js_field ''result'' (reply w c)), s1, w @ [c])" "toolCalls s1 = toolCalls s + 1"
    using client_call_answer [OF Cons.prems(1), of sv t p took ?s w] Cons.prems(2) c n by auto
  obtain s2 where 2: "sequential_calls (recording_bridge reply took) False calls (s1, w @ [c])
      = (Inr (answers reply (w @ [c]) calls), s2, (w @ [c]) @ calls)"
    "toolCalls s2 = toolCalls s1 + length calls"
    using Cons.IH [OF Cons.prems(1), of False s1 "w @ [c]"] Cons.prems(2) by auto
  show ?case using 1 2 c by (simp add: Let_def)
qed simp

lemma settle_answers:
  "always_answers reply calls \<Longrightarrow> set ord \<subseteq> {..<length calls} \<Longrightarrow>
   \<exists>s'. settle_calls (recording_bridge reply took) T calls ord (s, w)
      = (zip ord (map Inr (answers reply w (map ((!) calls) ord))), s', w @ map ((!) calls) ord)
     \<and> toolCalls s' = toolCalls s"
proof (induction ord arbitrary: s w)
  case (Cons i ord)
  obtain sv t p where c: "calls ! i = (sv, t, p)" by (cases "calls ! i")
  have "(sv, t, p) \<in> set calls" using Cons.prems(2) c by (metis insert_subset lessThan_iff list.simps(15) nth_mem)
  then have a: "is_answer (reply w (sv, t, p))" using Cons.prems(1) by (auto simp: always_answers_def list_all_iff)
  let ?s = "s\<lparr>sb_now := max (sb_now s) (T + took w)\<rparr>"
  obtain r s1 where s1: "call_settled sv t T (Inr (reply w (sv, t, p))) ?s = (r, s1)" by force
  have r: "r = Inr (js_field ''result'' (reply w (calls ! i)))" "toolCalls s1 = toolCalls s"
    using settled_answer [OF a, of sv t T ?s] settled_toolCalls [of sv t T "Inr (reply w (sv, t, p))" ?s] s1 c by simp_all
  let ?w = "w @ [calls ! i]"
  obtain s2 where "settle_calls (recording_bridge reply took) T calls ord (s1, ?w)
      = (zip ord (map Inr (answers reply ?w (map ((!) calls) ord))), s2, ?w @ map ((!) calls) ord)"
    "toolCalls s2 = toolCalls s1" using Cons.IH [OF Cons.prems(1), of s1 ?w] Cons.prems(2) by auto
  moreover have "recording_bridge reply took sv t p w = (Inr (reply w (sv, t, p)), took w, w @ [(sv, t, p)])"
    by (simp add: recording_bridge_def)
  ultimately show ?case using c s1 r by simp
qed simp

lemma no_rejection: "first_rejection (zip ord (map Inr vs)) = None"
  by (induction ord vs rule: list_induct2') auto

lemma start_toolCalls: "toolCalls (start_calls calls s) = toolCalls s + length calls"
  unfolding start_calls_def by (induction calls arbitrary: s) auto

lemma map_of_zip_map: "map_of (zip xs (map f ys)) x = map_option f (map_of (zip xs ys) x)"
  by (induction xs ys rule: list_induct2') auto

lemma parallel_answers:
  assumes "always_answers reply calls" "set ord = {..<length calls}"
  shows "\<exists>s'. parallel_calls (recording_bridge reply took) ord calls (s, w)
      = (Inr (map (\<lambda>i. the (map_of (zip ord (answers reply w (map ((!) calls) ord))) i)) [0..<length calls]),
         s', w @ map ((!) calls) ord)
     \<and> toolCalls s' = toolCalls s + length calls"
proof -
  let ?as = "answers reply w (map ((!) calls) ord)"
  obtain s' where st: "settle_calls (recording_bridge reply took) (sb_now s) calls ord (start_calls calls s, w)
      = (zip ord (map Inr ?as), s', w @ map ((!) calls) ord)" "toolCalls s' = toolCalls s + length calls"
    using settle_answers [OF assms(1), of ord] assms(2) start_toolCalls by force
  have "projr (the (map_of (zip ord (map Inr ?as)) i)) = the (map_of (zip ord ?as) i)" if "i < length calls" for i
  proof -
    have "i \<in> set ord" using that assms(2) by simp
    then obtain v where "map_of (zip ord ?as) i = Some v" using map_of_zip_is_Some [of ord ?as i] by auto
    then show ?thesis by (simp add: map_of_zip_map)
  qed
  then have results: "map (\<lambda>i. projr (the (map_of (zip ord (map Inr ?as)) i))) [0..<length calls]
      = map (\<lambda>i. the (map_of (zip ord ?as) i)) [0..<length calls]" by (intro map_cong) auto
  show ?thesis
    using st by (simp add: parallel_calls_def no_rejection results)
qed

lemma console_log_fields [simp]:
  "toolCalls (console_log i args s) = toolCalls s" "rateLimits (console_log i args s) = rateLimits s"
  by (simp_all add: console_log_def originalConsoleLog_def streamEvent_def Let_def)

lemma mark_limited_toolCalls [simp]: "toolCalls (mark_limited i a b d sv s) = toolCalls s"
  by (simp add: mark_limited_def)

lemma mark_all_toolCalls: "toolCalls (foldl (\<lambda>s i. mark_limited ins a b d (f i) s) s xs) = toolCalls s"
  by (induction xs arbitrary: s) auto

definition put_all :: "(nat \<times> 'a) list \<Rightarrow> 'a list \<Rightarrow> 'a list" where
  "put_all us xs = foldl (\<lambda>xs (i, v). xs[i := v]) xs us"

lemma length_put_all [simp]: "length (put_all us xs) = length xs"
  unfolding put_all_def by (induction us arbitrary: xs) auto

lemma put_all_snoc: "put_all (us @ [u]) xs = (put_all us xs)[fst u := snd u]"
  by (simp add: put_all_def case_prod_beta)

lemma nth_put_all:
  "i < length xs \<Longrightarrow> put_all us xs ! i = (case map_of (rev us) i of Some v \<Rightarrow> v | None \<Rightarrow> xs ! i)"
proof (induction us rule: rev_induct)
  case (snoc u us)
  then show ?case by (cases u) (simp add: put_all_snoc nth_list_update)
qed (simp add: put_all_def)

lemma retry_answers:
  assumes "always_answers reply calls"
  shows "set idxs \<subseteq> {..<length calls} \<Longrightarrow>
   \<exists>s'. retry_limited (recording_bridge reply took) d calls idxs rs (s, w)
      = (Inr (put_all (zip idxs (answers reply w (map ((!) calls) idxs))) rs), s', w @ map ((!) calls) idxs)
     \<and> toolCalls s' = toolCalls s + length idxs"
proof (induction idxs arbitrary: s w rs)
  case Nil
  then show ?case by (simp add: put_all_def)
next
  case (Cons i idxs)
  obtain sv t p where c: "calls ! i = (sv, t, p)" by (cases "calls ! i")
  have i: "i < length calls" using Cons.prems by simp
  then have "(sv, t, p) \<in> set calls" using c by (metis nth_mem)
  then obtain s1 where 1: "client_call (recording_bridge reply took) sv t p (sandbox_sleep d s, w)
      = (Inr (js_field ''result'' (reply w (sv, t, p))), s1, w @ [(sv, t, p)])" "toolCalls s1 = toolCalls s + 1"
    using client_call_answer [OF assms, of sv t p took "sandbox_sleep d s" w] by (auto simp: sandbox_sleep_def)
  let ?w = "w @ [(sv, t, p)]" and ?rs = "rs[i := js_field ''result'' (reply w (sv, t, p))]"
  obtain s2 where "retry_limited (recording_bridge reply took) d calls idxs ?rs (s1, ?w)
      = (Inr (put_all (zip idxs (answers reply ?w (map ((!) calls) idxs))) ?rs), s2, ?w @ map ((!) calls) idxs)"
    "toolCalls s2 = toolCalls s1 + length idxs" using Cons.IH [of ?rs s1 ?w] Cons.prems by auto
  then show ?case using 1 c by (simp add: put_all_def)
qed

lemma map_of_rev_distinct: "distinct (map fst xs) \<Longrightarrow> map_of (rev xs) = map_of xs"
  by (rule map_of_inject_set [THEN iffD2]) (simp_all add: rev_map [symmetric])

lemma zip_upt_nth: "i < n \<Longrightarrow> length ys = n \<Longrightarrow> map_of (rev (zip [0..<n] ys)) i = Some (ys ! i)"
  by (subst map_of_rev_distinct) (auto simp: in_set_zip intro!: map_of_is_SomeI exI [of _ i])

text \<open>C29: What a batch asks and what it returns. The bridge answers every request, possibly differently every
  time: its reply may depend on all it was asked before. When no server of the batch is known to limit its
  rate, or parallel calls are forced, every call is requested, in some order \<open>ord\<close>, and then, one after the other
  in the order of the calls, exactly those whose answer was that of a rate limit are requested once more.
  Otherwise every call is requested once, in order. Nothing else is requested. The result has one place per call, in
  the order of the calls, with the answer to the last request for that call: for a call that was repeated,
  the answer to the repetition.\<close>

theorem batch_in_call_order:
  assumes "always_answers reply calls" "distinct ord" "set ord = {..<length calls}"
    and "mcp_batch (recording_bridge reply took) inspect texts ord calls opts (s, w) = (res, s', w')"
  shows "let once = zip ord (answers reply w (map ((!) calls) ord));
             again = filter (\<lambda>i. isRateLimitError (the (map_of once i))) [0..<length calls];
             known = (nullish (forceParallel opts) False = False \<and> list_ex (\<lambda>(server, tool, params).
               case map_of (rateLimits s) server of Some r \<Rightarrow> rl_detected r | None \<Rightarrow> False) calls);
             reqs = (if known then [0..<length calls] else ord @ again);
             replies = zip reqs (answers reply w (map ((!) calls) reqs))
         in w' = w @ map ((!) calls) reqs \<and> toolCalls s' = toolCalls s + length reqs
            \<and> res = Inr (map (\<lambda>i. the (map_of (rev replies) i)) [0..<length calls])"
proof -
  obtain force_text limited_text tip_text where t: "texts = (force_text, limited_text, tip_text)" by (cases texts)
  define force where "force = nullish (forceParallel opts) False"
  define s1 where "s1 = (if force then console_log inspect [JStr force_text]
      (s\<lparr>rateLimits := foldl (\<lambda>m (server, tool, params). AList.delete server m) (rateLimits s) calls\<rparr>) else s)"
  define known where "known = (force = False \<and> list_ex (\<lambda>(server, tool, params).
      case map_of (rateLimits s) server of Some r \<Rightarrow> rl_detected r | None \<Rightarrow> False) calls)"
  define delay where "delay = nullish (retryDelayMs opts) 1100"
  let ?post = "recording_bridge reply took" and ?n = "length calls"
  have n: "toolCalls s1 = toolCalls s" by (simp add: s1_def)
  have b: "mcp_batch ?post inspect texts ord calls opts (s, w) =
      (if known then sequential_calls ?post True calls (s1, w)
       else (case parallel_calls ?post ord calls (s1, w) of
           (Inl e, sw2) \<Rightarrow> (Inl e, sw2)
         | (Inr rs, (s2, w2)) \<Rightarrow>
             (let limited = limited_indices rs;
                  s3 = foldl (\<lambda>s i. mark_limited inspect limited_text tip_text delay (fst (calls ! i)) s) s2 limited
              in retry_limited ?post delay calls limited rs (s3, w2))))"
    unfolding mcp_batch_def Let_def t fst_conv snd_conv prod.case delay_def known_def s1_def force_def
    by (cases "nullish (forceParallel opts) False") simp_all
  show ?thesis
  proof (cases known)
    case True
    have "map (\<lambda>i. the (map_of (rev (zip [0..<?n] (answers reply w calls))) i)) [0..<?n] = answers reply w calls"
      by (rule nth_equalityI) (simp_all add: zip_upt_nth)
    then show ?thesis
      using b assms(4) n True sequential_answers [OF assms(1) subset_refl, of took True s1 w]
      unfolding known_def force_def by (auto simp: map_nth Let_def)
  next
    case False
    let ?as = "answers reply w (map ((!) calls) ord)"
    let ?rs = "map (\<lambda>i. the (map_of (zip ord ?as) i)) [0..<?n]"
    let ?again = "filter (\<lambda>i. isRateLimitError (the (map_of (zip ord ?as) i))) [0..<?n]"
    let ?w = "w @ map ((!) calls) ord"
    let ?us = "zip ?again (answers reply ?w (map ((!) calls) ?again))"
    obtain s2 where p: "parallel_calls ?post ord calls (s1, w) = (Inr ?rs, s2, ?w)" "toolCalls s2 = toolCalls s1 + ?n"
      using parallel_answers [OF assms(1,3)] by blast
    have l: "limited_indices ?rs = ?again" unfolding limited_indices_def by (rule filter_cong) auto
    let ?s3 = "foldl (\<lambda>s i. mark_limited inspect limited_text tip_text delay (fst (calls ! i)) s) s2 ?again"
    have "set ?again \<subseteq> {..<?n}" by auto
    then obtain s4 where r: "retry_limited ?post delay calls ?again ?rs (?s3, ?w)
        = (Inr (put_all ?us ?rs), s4, ?w @ map ((!) calls) ?again)" "toolCalls s4 = toolCalls ?s3 + length ?again"
      using retry_answers [OF assms(1)] by blast
    have out: "res = Inr (put_all ?us ?rs)" "w' = ?w @ map ((!) calls) ?again" "s' = s4"
      using b assms(4) False p(1) r(1) unfolding l by (simp_all add: Let_def l)
    have ord_n: "length ord = ?n" using assms(2,3) distinct_card [OF assms(2)] by simp
    have "put_all ?us ?rs = map (\<lambda>i. the (map_of (rev (zip ord ?as @ ?us)) i)) [0..<?n]"
    proof (rule nth_equalityI)
      fix i assume "i < length (put_all ?us ?rs)"
      then have i: "i < ?n" by simp
      have "map_of (rev (zip ord ?as)) = map_of (zip ord ?as)"
        by (rule map_of_rev_distinct) (simp add: assms(2))
      then show "put_all ?us ?rs ! i = map (\<lambda>i. the (map_of (rev (zip ord ?as @ ?us)) i)) [0..<?n] ! i"
        using i by (simp add: nth_put_all map_add_def split: option.split)
    qed simp
    then have "res = Inr (map (\<lambda>i. the (map_of (rev (zip (ord @ ?again) (answers reply w (map ((!) calls) (ord @ ?again))))) i)) [0..<?n])"
      using out(1) by (simp only: answers_append map_append zip_append length_answers length_map)
    moreover have "w' = w @ map ((!) calls) (ord @ ?again)" "toolCalls s' = toolCalls s + length (ord @ ?again)"
      using out p(2) r(2) n ord_n by (simp_all add: mark_all_toolCalls)
    ultimately show ?thesis
      unfolding Let_def if_not_P [OF False [unfolded known_def force_def]] by blast
  qed
qed

definition demo_reply :: "tool_call list \<Rightarrow> tool_call \<Rightarrow> json" where
  "demo_reply w c = JObj [(''result'', JStr (if w = [] then ''rate limit'' else fst (snd c))), (''metrics'', call_metrics 2 7)]"

text \<open>The call that comes first is limited, and its repetition is not.\<close>

theorem batch_in_call_order_witness:
  "fst (mcp_batch (recording_bridge demo_reply (\<lambda>_. 2)) log_text (''force'', ''limited '', ''tip'') [1, 0]
      [(''s'', ''a'', JNull), (''s'', ''b'', JNull)] \<lparr>retryDelayMs = None, forceParallel = None\<rparr> (new_sandbox False 0, []))
   = Inr [Some (JStr ''a''), Some (JStr ''b'')]"
proof -
  let ?calls = "[(''s'', ''a'', JNull), (''s'', ''b'', JNull)]"
  let ?opts = "\<lparr>retryDelayMs = None, forceParallel = None\<rparr>"
  have s: "always_answers demo_reply ?calls"
    by (simp add: always_answers_def is_answer_def js_field_def demo_reply_def)
  have o: "distinct [1, 0 :: nat]" "set [1, 0] = {..<length ?calls}" by auto
  obtain res s' w' where r: "mcp_batch (recording_bridge demo_reply (\<lambda>_. 2)) log_text (''force'', ''limited '', ''tip'') [1, 0]
      ?calls ?opts (new_sandbox False 0, []) = (res, s', w')" by (rule prod_cases3)
  have a: "answers demo_reply [] (map ((!) ?calls) [1, 0]) = [Some (JStr ''rate limit''), Some (JStr ''a'')]"
    "isRateLimitError (Some (JStr ''rate limit''))" "\<not> isRateLimitError (Some (JStr ''a''))"
    "answers demo_reply [] (map ((!) ?calls) [1, 0, 1]) = [Some (JStr ''rate limit''), Some (JStr ''a''), Some (JStr ''b'')]"
    by (simp_all add: demo_reply_def js_field_def) code_simp+
  from batch_in_call_order [OF s o r] have "res = Inr [Some (JStr ''a''), Some (JStr ''b'')]"
    using a by (simp add: Let_def new_sandbox_def nullish_def upt_rec)
  then show ?thesis unfolding r by simp
qed

end
