(* ===== verification/Executor.thy ===== *)
theory Executor
  imports Sandbox
begin

text \<open>
  The executor of sandbox processes: \<open>DenoExecutor\<close> of \<open>src/src/runtime/executor.ts\<close> and \<open>minimalChildEnv\<close> of
  \<open>src/src/utils/env.ts\<close>. The executor is a state machine on the events that Node.js delivers: a chunk of
  output, the end of a process or an error of it, a timer, an abort signal. A call of \<open>runDeno\<close> is named
  by a number, which is also its process; a promise keeps its first resolution. Output is ASCII, so
  that a byte is a character; \<open>JSON.parse\<close> is the parameter \<open>parse\<close> (\<open>None\<close> when it throws).
\<close>

subsection \<open>The command line and the environment\<close>

record deno_config =
  maxMemoryMb :: nat
  allowedNetHosts :: "string list"
  maxConcurrentProcesses_opt :: "nat option"
  maxOutputBytes_opt :: "nat option"

text \<open>\<open>parseInt(url.port, 10) || 9847\<close>; \<open>None\<close> when \<open>new URL\<close> throws.\<close>

definition bridge_port :: "string option \<Rightarrow> nat" where
  "bridge_port url_port =
     (case url_port of None \<Rightarrow> 9847 | Some p \<Rightarrow> if digits_value p = 0 then 9847 else digits_value p)"

definition expand_host :: "nat \<Rightarrow> string \<Rightarrow> string list" where
  "expand_host port h =
     (if CHR '':'' \<in> set h then [h]
      else (h @ '':'' @ show_nat port) # (if h = ''localhost'' then [''127.0.0.1:'' @ show_nat port] else []))"

definition deno_args :: "deno_config \<Rightarrow> string option \<Rightarrow> string \<Rightarrow> string list" where
  "deno_args config url_port filePath =
     [''run'',
      ''--allow-net='' @ join '','' (concat (map (expand_host (bridge_port url_port)) (allowedNetHosts config))),
      ''--no-prompt'',
      ''--v8-flags=--max-old-space-size='' @ show_nat (maxMemoryMb config),
      filePath]"

definition minimalChildEnv :: "(string \<Rightarrow> string option) \<Rightarrow> (string \<times> string option) list \<Rightarrow> (string, string) jsmap" where
  "minimalChildEnv environ extra =
     foldl (\<lambda>env (key, v). case v of Some x \<Rightarrow> if x \<noteq> [] then AList.update key x env else env | None \<Rightarrow> env)
       [(''PATH'', nullish (environ ''PATH'') []), (''HOME'', nullish (environ ''HOME'') [])]
       (own_properties extra)"

definition deno_env :: "(string \<Rightarrow> string option) \<Rightarrow> (string, string) jsmap" where
  "deno_env environ = minimalChildEnv environ [(''DENO_DIR'', environ ''DENO_DIR''), (''NO_COLOR'', Some ''1'')]"

subsection \<open>Output\<close>

record out_buffer =
  chunks :: "string list"
  buf_len :: nat
  truncated :: bool

definition empty_buffer :: out_buffer where
  "empty_buffer = \<lparr>chunks = [], buf_len = 0, truncated = False\<rparr>"

definition take_chunk :: "nat \<Rightarrow> string \<Rightarrow> out_buffer \<Rightarrow> out_buffer" where
  "take_chunk maxOutputBytes data b =
     (if truncated b then b
      else if buf_len b + length data > maxOutputBytes
      then \<lparr>chunks = chunks b @ [take (maxOutputBytes - buf_len b) data], buf_len = maxOutputBytes, truncated = True\<rparr>
      else b\<lparr>chunks := chunks b @ [data], buf_len := buf_len b + length data\<rparr>)"

definition buffer_text :: "out_buffer \<Rightarrow> string" where
  "buffer_text b = concat (chunks b)"

subsection \<open>Results\<close>

datatype run_error =
    RunError string string "string option" "nat option"
  | ReportedError json

record execution_result =
  er_executionId :: string
  er_success :: "json option"
  er_result :: "json option"
  er_error :: "run_error option"
  er_logs :: json
  er_executionTimeMs :: int
  er_toolCalls :: json
  er_dataProcessedBytes :: json
  er_resultSizeBytes :: nat
  er_cumulative :: "json option"

definition failed_run :: "string \<Rightarrow> int \<Rightarrow> run_error \<Rightarrow> execution_result" where
  "failed_run executionId ms err =
     \<lparr>er_executionId = executionId, er_success = Some (JBool False), er_result = None, er_error = Some err,
      er_logs = JArr [], er_executionTimeMs = ms, er_toolCalls = JNum 0, er_dataProcessedBytes = JNum 0,
      er_resultSizeBytes = 0, er_cumulative = None\<rparr>"

definition runtime_failure :: "string \<Rightarrow> string \<Rightarrow> execution_result" where
  "runtime_failure executionId msg = failed_run executionId 0 (RunError ''runtime'' msg None None)"

text \<open>\<open>/__RESULT_START__\n([\s\S]*?)\n__RESULT_END__/\<close>.\<close>

definition result_match :: "string \<Rightarrow> string option" where
  "result_match out =
     (case js_index_of out (result_start @ [newline]) of
        None \<Rightarrow> None
      | Some i \<Rightarrow>
          (let rest = drop (i + length result_start + 1) out
           in map_option (\<lambda>j. take j rest) (js_index_of rest (newline # result_end))))"

definition js_or :: "json option \<Rightarrow> json \<Rightarrow> json" where
  "js_or v d = (case v of Some x \<Rightarrow> if js_truthy x then x else d | None \<Rightarrow> d)"

definition parsed_metric :: "string \<Rightarrow> json \<Rightarrow> json" where
  "parsed_metric k parsed = js_or (case js_field ''metrics'' parsed of Some m \<Rightarrow> js_field k m | None \<Rightarrow> None) (JNum 0)"

definition parsed_result :: "string \<Rightarrow> json \<Rightarrow> execution_result" where
  "parsed_result executionId parsed =
     \<lparr>er_executionId = executionId, er_success = js_field ''success'' parsed, er_result = js_field ''result'' parsed,
      er_error = map_option ReportedError (js_field ''error'' parsed), er_logs = js_or (js_field ''logs'' parsed) (JArr []),
      er_executionTimeMs = 0, er_toolCalls = parsed_metric ''toolCalls'' parsed,
      er_dataProcessedBytes = parsed_metric ''dataProcessedBytes'' parsed, er_resultSizeBytes = 0,
      er_cumulative = Some (parsed_metric ''cumulativeToolCallDurationMs'' parsed)\<rparr>"

text \<open>\<open>/error: (.*?) at .*?:(\d+):\d+/\<close>: on a line, after the first \<open>error: \<close> for which the rest matches, the
  shortest text before an \<open> at \<close> that is followed by a position, and the first position after it.\<close>

definition position_line :: "string \<Rightarrow> string option" where
  "position_line s =
     (let ds = takeWhile is_dig s
      in case dropWhile is_dig s of
           c # d # _ \<Rightarrow> if ds \<noteq> [] \<and> c = CHR '':'' \<and> is_dig d then Some ds else None
         | _ \<Rightarrow> None)"

fun first_position :: "string \<Rightarrow> string option" where
  "first_position [] = None"
| "first_position (c # cs) =
     (case (if c = CHR '':'' then position_line cs else None) of Some ds \<Rightarrow> Some ds | None \<Rightarrow> first_position cs)"

fun message_at :: "string \<Rightarrow> string \<Rightarrow> (string \<times> string) option" where
  "message_at msg [] = None"
| "message_at msg (c # cs) =
     (case (if prefix '' at '' (c # cs) then first_position (drop 4 (c # cs)) else None) of
        Some ds \<Rightarrow> Some (msg, ds)
      | None \<Rightarrow> message_at (msg @ [c]) cs)"

definition not_line_end :: "char \<Rightarrow> bool" where
  "not_line_end c \<longleftrightarrow> c \<noteq> CHR 0x0A \<and> c \<noteq> CHR 0x0D"

fun syntax_match :: "string \<Rightarrow> (string \<times> string) option" where
  "syntax_match [] = None"
| "syntax_match (c # cs) =
     (case (if prefix ''error: '' (c # cs) then message_at [] (takeWhile not_line_end (drop 7 (c # cs))) else None) of
        Some m \<Rightarrow> Some m
      | None \<Rightarrow> syntax_match cs)"

subsection \<open>State\<close>

datatype kill_signal = SIGTERM | SIGKILL

record deno_process =
  dp_executionId :: string
  dp_timeoutMs :: int
  dp_killed :: bool
  dp_cancelled :: bool
  dp_timer :: bool
  dp_listening :: bool
  dp_out :: out_buffer
  dp_err :: out_buffer
  dp_sent :: "kill_signal list"
  dp_gone :: bool

record executor =
  ex_config :: deno_config
  activeProcesses :: "(string, nat) jsmap"
  isShuttingDown :: bool
  denoAvailable :: "bool option"
  ex_procs :: "(nat, deno_process) jsmap"
  ex_results :: "(nat, execution_result) jsmap"
  ex_files :: "string list"
  ex_closing :: "nat list"

definition maxConcurrentProcesses :: "executor \<Rightarrow> nat" where
  "maxConcurrentProcesses x = nullish (maxConcurrentProcesses_opt (ex_config x)) 8"

definition maxOutputBytes :: "executor \<Rightarrow> nat" where
  "maxOutputBytes x = nullish (maxOutputBytes_opt (ex_config x)) (10 * 1024 * 1024)"

definition new_executor :: "deno_config \<Rightarrow> executor" where
  "new_executor config =
     \<lparr>ex_config = config, activeProcesses = [], isShuttingDown = False, denoAvailable = None, ex_procs = [],
      ex_results = [], ex_files = [], ex_closing = []\<rparr>"

text \<open>The files of the temporary directory with their modification times (\<open>None\<close> when \<open>statSync\<close> or
  \<open>unlinkSync\<close> throws): what is left of them.\<close>

definition cleanupStaleTempFiles :: "time \<Rightarrow> (string \<times> time option) list \<Rightarrow> (string \<times> time option) list" where
  "cleanupStaleTempFiles now listing =
     filter (\<lambda>(f, mtime). \<not> (prefix ''exec_'' f \<and> suffix ''.ts'' f \<and> (case mtime of Some m \<Rightarrow> now - m > 60000 | None \<Rightarrow> False)))
       listing"

definition getActiveProcessCount :: "executor \<Rightarrow> nat" where
  "getActiveProcessCount x = length (activeProcesses x)"

subsection \<open>The end of a run\<close>

definition code_text_of :: "int option \<Rightarrow> string" where
  "code_text_of code = (case code of Some c \<Rightarrow> show_int c | None \<Rightarrow> ''null'')"

text \<open>The last part of the \<open>close\<close> handler: no result that can be read.\<close>

definition unread_result :: "string \<Rightarrow> int option \<Rightarrow> string \<Rightarrow> execution_result" where
  "unread_result executionId code stderr =
     (if code \<noteq> Some 0 \<or> stderr \<noteq> []
      then (case syntax_match stderr of
              Some (m, line) \<Rightarrow>
                failed_run executionId 0
                  (RunError ''syntax'' (if m = [] then ''Syntax error'' else m) None (Some (digits_value line)))
            | None \<Rightarrow>
                failed_run executionId 0
                  (RunError ''runtime'' (if stderr = [] then ''Process exited with code '' @ code_text_of code else stderr)
                     (Some stderr) None))
      else runtime_failure executionId ''No result returned from execution'')"

definition read_output :: "(string \<Rightarrow> json option) \<Rightarrow> string \<Rightarrow> int option \<Rightarrow> string \<Rightarrow> string \<Rightarrow> execution_result" where
  "read_output parse executionId code stdout stderr =
     (case result_match stdout of
        Some m \<Rightarrow>
          (if m = [] then unread_result executionId code stderr
           else (case parse m of
                   Some v \<Rightarrow> if v = JNull then unread_result executionId code stderr else parsed_result executionId v
                 | None \<Rightarrow> unread_result executionId code stderr))
      | None \<Rightarrow> unread_result executionId code stderr)"

definition close_result :: "(string \<Rightarrow> json option) \<Rightarrow> int option \<Rightarrow> deno_process \<Rightarrow> execution_result" where
  "close_result parse code p =
     (if dp_cancelled p then runtime_failure (dp_executionId p) ''Execution cancelled by client''
      else if dp_killed p
      then failed_run (dp_executionId p) (dp_timeoutMs p)
             (RunError ''timeout'' (''Execution timed out after '' @ show_int (dp_timeoutMs p) @ ''ms'') None None)
      else read_output parse (dp_executionId p) code (buffer_text (dp_out p)) (buffer_text (dp_err p)))"

subsection \<open>Steps\<close>

definition temp_file :: "string \<Rightarrow> string" where
  "temp_file executionId = ''exec_'' @ executionId @ ''.ts''"

text \<open>The promise of call \<open>h\<close> resolves, and \<open>execute\<close> removes its file.\<close>

definition resolve_run :: "nat \<Rightarrow> execution_result \<Rightarrow> executor \<Rightarrow> executor" where
  "resolve_run h r x =
     (if js_has (ex_results x) h then x
      else x\<lparr>ex_results := AList.update h r (ex_results x),
             ex_files := removeAll (temp_file (er_executionId r)) (ex_files x)\<rparr>)"

definition on_process :: "nat \<Rightarrow> (deno_process \<Rightarrow> deno_process) \<Rightarrow> executor \<Rightarrow> executor" where
  "on_process h f x =
     (case map_of (ex_procs x) h of
        Some p \<Rightarrow> if dp_gone p then x else x\<lparr>ex_procs := AList.update h (f p) (ex_procs x)\<rparr>
      | None \<Rightarrow> x)"

definition send_signal :: "kill_signal \<Rightarrow> deno_process \<Rightarrow> deno_process" where
  "send_signal k p = p\<lparr>dp_sent := dp_sent p @ [k]\<rparr>"

definition onAbort :: "deno_process \<Rightarrow> deno_process" where
  "onAbort p = send_signal SIGTERM (p\<lparr>dp_cancelled := True, dp_killed := True, dp_listening := False\<rparr>)"

definition new_process :: "string \<Rightarrow> int \<Rightarrow> bool \<Rightarrow> deno_process" where
  "new_process executionId time_limit has_signal =
     \<lparr>dp_executionId = executionId, dp_timeoutMs = time_limit, dp_killed = False, dp_cancelled = False, dp_timer = True,
      dp_listening = has_signal, dp_out = empty_buffer, dp_err = empty_buffer, dp_sent = [], dp_gone = False\<rparr>"

text \<open>The signal of a call: none, one that has not fired, one that has.\<close>

datatype abort_signal = NoSignal | Armed | Fired

definition runDeno :: "nat \<Rightarrow> string \<Rightarrow> int \<Rightarrow> abort_signal \<Rightarrow> executor \<Rightarrow> executor" where
  "runDeno h executionId time_limit sig x =
     (if isShuttingDown x then resolve_run h (runtime_failure executionId ''Server is shutting down'') x
      else if maxConcurrentProcesses x \<le> length (activeProcesses x)
      then resolve_run h (runtime_failure executionId
             (''Maximum concurrent executions reached ('' @ show_nat (maxConcurrentProcesses x) @ ''). Try again shortly.'')) x
      else
        (let p = new_process executionId time_limit (sig = Armed)
         in x\<lparr>ex_procs := AList.update h (if sig = Fired then onAbort p else p) (ex_procs x),
              activeProcesses := AList.update executionId h (activeProcesses x)\<rparr>))"

text \<open>From the file on; a call that was cancelled before, or for which there is no Deno, does not come here.\<close>

definition execute_launch :: "nat \<Rightarrow> string \<Rightarrow> int \<Rightarrow> abort_signal \<Rightarrow> executor \<Rightarrow> executor" where
  "execute_launch h executionId time_limit sig x =
     runDeno h executionId time_limit sig (x\<lparr>ex_files := List.insert (temp_file executionId) (ex_files x)\<rparr>)"

definition timeout_fires :: "nat \<Rightarrow> executor \<Rightarrow> executor" where
  "timeout_fires h =
     on_process h (\<lambda>p. if dp_timer p then send_signal SIGKILL (p\<lparr>dp_killed := True, dp_timer := False\<rparr>) else p)"

definition abort_fires :: "nat \<Rightarrow> executor \<Rightarrow> executor" where
  "abort_fires h = on_process h (\<lambda>p. if dp_listening p then onAbort p else p)"

definition abort_escalates :: "nat \<Rightarrow> executor \<Rightarrow> executor" where
  "abort_escalates h x =
     on_process h (\<lambda>p. if dp_cancelled p \<and> js_has (activeProcesses x) (dp_executionId p) then send_signal SIGKILL p else p) x"

definition stdout_data :: "nat \<Rightarrow> string \<Rightarrow> executor \<Rightarrow> executor" where
  "stdout_data h data x = on_process h (\<lambda>p. p\<lparr>dp_out := take_chunk (maxOutputBytes x) data (dp_out p)\<rparr>) x"

definition stderr_data :: "nat \<Rightarrow> string \<Rightarrow> executor \<Rightarrow> executor" where
  "stderr_data h data x = on_process h (\<lambda>p. p\<lparr>dp_err := take_chunk (maxOutputBytes x) data (dp_err p)\<rparr>) x"

definition untrack :: "nat \<Rightarrow> deno_process \<Rightarrow> executor \<Rightarrow> executor" where
  "untrack h p x =
     x\<lparr>ex_procs := AList.update h p (ex_procs x), activeProcesses := AList.delete (dp_executionId p) (activeProcesses x),
       ex_closing := removeAll h (ex_closing x)\<rparr>"

definition process_closes :: "(string \<Rightarrow> json option) \<Rightarrow> nat \<Rightarrow> int option \<Rightarrow> executor \<Rightarrow> executor" where
  "process_closes parse h code x =
     (case map_of (ex_procs x) h of
        Some p \<Rightarrow>
          (if dp_gone p then x
           else resolve_run h (close_result parse code p)
                  (untrack h (p\<lparr>dp_timer := False, dp_listening := False, dp_gone := True\<rparr>) x))
      | None \<Rightarrow> x)"

definition process_errs :: "nat \<Rightarrow> string \<Rightarrow> executor \<Rightarrow> executor" where
  "process_errs h message x =
     (case map_of (ex_procs x) h of
        Some p \<Rightarrow>
          (if dp_gone p then x
           else (let x1 = untrack h (p\<lparr>dp_timer := False, dp_listening := False\<rparr>) x;
                     x2 = (if js_includes message ''ENOENT'' then x1\<lparr>denoAvailable := None\<rparr> else x1)
                 in resolve_run h (runtime_failure (dp_executionId p) (''Failed to spawn Deno: '' @ message)) x2))
      | None \<Rightarrow> x)"

text \<open>\<open>throws\<close> are the processes for which \<open>proc.kill\<close> throws.\<close>

definition shutdown_begins :: "nat list \<Rightarrow> executor \<Rightarrow> executor" where
  "shutdown_begins throws x =
     foldl (\<lambda>x (executionId, h).
         (if h \<in> set throws then x
          else (on_process h (send_signal SIGTERM) x)\<lparr>ex_closing := h # ex_closing x\<rparr>))
       (x\<lparr>isShuttingDown := True\<rparr>) (activeProcesses x)"

definition shutdown_forces :: "nat \<Rightarrow> executor \<Rightarrow> executor" where
  "shutdown_forces h x =
     (if h \<in> set (ex_closing x)
      then (on_process h (send_signal SIGKILL) x)\<lparr>ex_closing := removeAll h (ex_closing x)\<rparr> else x)"

definition shutdown_ends :: "executor \<Rightarrow> executor" where
  "shutdown_ends x = (if isShuttingDown x \<and> ex_closing x = [] then x\<lparr>activeProcesses := []\<rparr> else x)"

definition deno_checked :: "bool \<Rightarrow> executor \<Rightarrow> executor" where
  "deno_checked available x = (if denoAvailable x = None then x\<lparr>denoAvailable := Some available\<rparr> else x)"

datatype exec_event =
    Launch nat string int abort_signal
  | TimeoutFires nat
  | AbortFires nat
  | AbortEscalates nat
  | StdoutData nat string
  | StderrData nat string
  | ProcessCloses nat "int option"
  | ProcessErrs nat string
  | ShutdownBegins "nat list"
  | ShutdownForces nat
  | ShutdownEnds
  | DenoChecked bool

fun exec_step :: "(string \<Rightarrow> json option) \<Rightarrow> executor \<Rightarrow> exec_event \<Rightarrow> executor" where
  "exec_step parse x (Launch h i t sig) = execute_launch h i t sig x"
| "exec_step parse x (TimeoutFires h) = timeout_fires h x"
| "exec_step parse x (AbortFires h) = abort_fires h x"
| "exec_step parse x (AbortEscalates h) = abort_escalates h x"
| "exec_step parse x (StdoutData h d) = stdout_data h d x"
| "exec_step parse x (StderrData h d) = stderr_data h d x"
| "exec_step parse x (ProcessCloses h code) = process_closes parse h code x"
| "exec_step parse x (ProcessErrs h m) = process_errs h m x"
| "exec_step parse x (ShutdownBegins hs) = shutdown_begins hs x"
| "exec_step parse x (ShutdownForces h) = shutdown_forces h x"
| "exec_step parse x ShutdownEnds = shutdown_ends x"
| "exec_step parse x (DenoChecked b) = deno_checked b x"

definition exec_run :: "(string \<Rightarrow> json option) \<Rightarrow> executor \<Rightarrow> exec_event list \<Rightarrow> executor" where
  "exec_run parse = foldl (exec_step parse)"

text \<open>\<open>execute\<close>: what it returns without a process, and how it completes what \<open>runDeno\<close> gave.\<close>

definition execute_precheck :: "string \<Rightarrow> abort_signal \<Rightarrow> bool \<Rightarrow> int \<Rightarrow> execution_result option" where
  "execute_precheck executionId sig hasDeno elapsed =
     (if sig = Fired then Some (runtime_failure executionId ''Execution cancelled before start'')
      else if \<not> hasDeno
      then Some (failed_run executionId elapsed
             (RunError ''runtime'' ''Deno runtime not found. Please install Deno: https://deno.land/#installation'' None None))
      else None)"

definition complete_result :: "string \<Rightarrow> int \<Rightarrow> execution_result \<Rightarrow> execution_result" where
  "complete_result executionId elapsed r =
     r\<lparr>er_executionId := executionId, er_executionTimeMs := elapsed,
       er_resultSizeBytes := (case er_result r of Some v \<Rightarrow> if js_truthy v then length (json_stringify v) else 0 | None \<Rightarrow> 0)\<rparr>"

subsection \<open>Buffers\<close>

lemma take_chunk_text:
  assumes "buf_len b = length (buffer_text b)" "truncated b \<Longrightarrow> buf_len b = n" "buf_len b \<le> n"
  shows "buffer_text (take_chunk n d b) = take n (buffer_text b @ d)
     \<and> buf_len (take_chunk n d b) = length (buffer_text (take_chunk n d b))
     \<and> (truncated (take_chunk n d b) \<longrightarrow> buf_len (take_chunk n d b) = n) \<and> buf_len (take_chunk n d b) \<le> n"
  using assms by (auto simp: take_chunk_def buffer_text_def)

lemma take_prefix_again: "take n (take n xs @ ys) = take n (xs @ ys)"
  by (cases "n \<le> length xs") auto

lemma fold_chunks:
  "buf_len b = length (buffer_text b) \<Longrightarrow> (truncated b \<Longrightarrow> buf_len b = n) \<Longrightarrow> buf_len b \<le> n \<Longrightarrow>
   buffer_text (foldl (\<lambda>b d. take_chunk n d b) b ds) = take n (buffer_text b @ concat ds)"
proof (induction ds arbitrary: b)
  case (Cons d ds)
  have t: "buffer_text (take_chunk n d b) = take n (buffer_text b @ d)"
    "buf_len (take_chunk n d b) = length (buffer_text (take_chunk n d b))"
    "truncated (take_chunk n d b) \<Longrightarrow> buf_len (take_chunk n d b) = n" "buf_len (take_chunk n d b) \<le> n"
    using take_chunk_text [OF Cons.prems, of d] by blast+
  have "buffer_text (foldl (\<lambda>b d. take_chunk n d b) (take_chunk n d b) ds) = take n (take n (buffer_text b @ d) @ concat ds)"
    using Cons.IH [OF t(2-4)] unfolding t(1) .
  also have "\<dots> = take n ((buffer_text b @ d) @ concat ds)" by (rule take_prefix_again)
  finally show ?case by simp
qed simp

lemma output_prefix:
  "buffer_text (foldl (\<lambda>b d. take_chunk n d b) empty_buffer ds) = take n (concat ds)"
  using fold_chunks [of empty_buffer n ds] by (simp add: empty_buffer_def buffer_text_def)

subsection \<open>Runs\<close>

definition proc_view :: "executor \<Rightarrow> (nat \<times> string \<times> bool) list" where
  "proc_view x = map (\<lambda>(h, p). (h, dp_executionId p, dp_gone p)) (ex_procs x)"

text \<open>The runs whose promise is not resolved.\<close>

definition open_runs :: "executor \<Rightarrow> (nat \<times> string \<times> bool) list" where
  "open_runs x = filter (\<lambda>(h, i, g). \<not> js_has (ex_results x) h) (proc_view x)"

definition exec_inv :: "nat set \<Rightarrow> string set \<Rightarrow> executor \<Rightarrow> bool" where
  "exec_inv hs ids x \<longleftrightarrow>
     distinct (map fst (proc_view x)) \<and> distinct (map (fst \<circ> snd) (proc_view x))
     \<and> fst ` set (proc_view x) \<union> fst ` set (ex_results x) = hs
     \<and> (fst \<circ> snd) ` set (proc_view x) \<subseteq> ids
     \<and> (\<forall>(h, i, g) \<in> set (proc_view x). g \<longrightarrow> js_has (ex_results x) h)
     \<and> (\<not> isShuttingDown x \<longrightarrow> (\<forall>(h, i, g) \<in> set (open_runs x). map_of (activeProcesses x) i = Some h))
     \<and> length (open_runs x) \<le> maxConcurrentProcesses x \<and> length (activeProcesses x) \<le> maxConcurrentProcesses x
     \<and> set (ex_files x) = (\<lambda>(h, i, g). temp_file i) ` set (open_runs x)"

lemma exec_invD:
  assumes "exec_inv hs ids x"
  shows "distinct (map fst (proc_view x))" "distinct (map (fst \<circ> snd) (proc_view x))"
    and "fst ` set (proc_view x) \<union> fst ` set (ex_results x) = hs" "(fst \<circ> snd) ` set (proc_view x) \<subseteq> ids"
    and "\<forall>(h, i, g) \<in> set (proc_view x). g \<longrightarrow> js_has (ex_results x) h"
    and "\<not> isShuttingDown x \<longrightarrow> (\<forall>(h, i, g) \<in> set (open_runs x). map_of (activeProcesses x) i = Some h)"
    and "length (open_runs x) \<le> maxConcurrentProcesses x" "length (activeProcesses x) \<le> maxConcurrentProcesses x"
    and "set (ex_files x) = (\<lambda>(h, i, g). temp_file i) ` set (open_runs x)"
  using assms by (simp_all only: exec_inv_def simp_thms) (elim conjE, assumption)+

lemma temp_file_inj [simp]: "temp_file i = temp_file j \<longleftrightarrow> i = j"
  by (simp add: temp_file_def)

lemma exec_inv_cong:
  assumes "proc_view y = proc_view x" "ex_results y = ex_results x" "ex_config y = ex_config x"
    "ex_files y = ex_files x" "activeProcesses y = activeProcesses x" "isShuttingDown x \<Longrightarrow> isShuttingDown y"
    and "exec_inv hs ids x"
  shows "exec_inv hs ids y"
proof -
  have "open_runs y = open_runs x" "maxConcurrentProcesses y = maxConcurrentProcesses x"
    using assms by (simp_all add: open_runs_def maxConcurrentProcesses_def)
  then show ?thesis using assms unfolding exec_inv_def by metis
qed

lemma view_update:
  "map_of ps h = Some p \<Longrightarrow> dp_executionId q = dp_executionId p \<Longrightarrow> dp_gone q = dp_gone p \<Longrightarrow>
   map (\<lambda>(h, p). (h, dp_executionId p, dp_gone p)) (AList.update h q ps) = map (\<lambda>(h, p). (h, dp_executionId p, dp_gone p)) ps"
  by (induction ps) (auto split: if_splits)

lemma view_on_process:
  assumes "\<And>p. dp_executionId (f p) = dp_executionId p \<and> dp_gone (f p) = dp_gone p"
  shows "proc_view (on_process h f x) = proc_view x" "ex_results (on_process h f x) = ex_results x"
    "ex_config (on_process h f x) = ex_config x" "ex_files (on_process h f x) = ex_files x"
    "activeProcesses (on_process h f x) = activeProcesses x" "isShuttingDown (on_process h f x) = isShuttingDown x"
    "ex_closing (on_process h f x) = ex_closing x"
  using assms by (auto simp: on_process_def proc_view_def view_update split: option.splits)

lemma exec_inv_on_process:
  assumes "exec_inv hs ids x" "\<And>p. dp_executionId (f p) = dp_executionId p \<and> dp_gone (f p) = dp_gone p"
  shows "exec_inv hs ids (on_process h f x)"
  using view_on_process [OF assms(2), of h x] by (intro exec_inv_cong [OF _ _ _ _ _ _ assms(1)]) simp_all

lemma resolve_fields [simp]:
  "proc_view (resolve_run h r x) = proc_view x" "activeProcesses (resolve_run h r x) = activeProcesses x"
  "isShuttingDown (resolve_run h r x) = isShuttingDown x"
  "maxConcurrentProcesses (resolve_run h r x) = maxConcurrentProcesses x"
  "js_has (ex_results (resolve_run h r x)) k \<longleftrightarrow> k = h \<or> js_has (ex_results x) k"
  by (auto simp: resolve_run_def proc_view_def maxConcurrentProcesses_def)

lemma resolve_keys: "fst ` set (ex_results (resolve_run h r x)) = insert h (fst ` set (ex_results x))"
  using js_has_in_keys [of "ex_results x" h] by (auto simp: resolve_run_def dom_update)

lemma resolve_open: "open_runs (resolve_run h r x) = filter (\<lambda>(k, i, g). k \<noteq> h) (open_runs x)"
  by (auto simp: open_runs_def intro: filter_cong)

lemma view_mem: "map_of (ex_procs x) h = Some p \<Longrightarrow> (h, dp_executionId p, dp_gone p) \<in> set (proc_view x)"
  unfolding proc_view_def by (drule map_of_SomeD) force

text \<open>The end of a run with a process, by \<open>close\<close> or \<open>error\<close>.\<close>

definition settle_run :: "nat \<Rightarrow> deno_process \<Rightarrow> execution_result \<Rightarrow> executor \<Rightarrow> executor" where
  "settle_run h q r x = resolve_run h r (untrack h q x)"

lemma view_set_gone:
  "map_of ps h = Some p \<Longrightarrow> dp_executionId q = dp_executionId p \<Longrightarrow>
   map (\<lambda>(h, p). (h, dp_executionId p, dp_gone p)) (AList.update h q ps)
     = map (\<lambda>(k, i, g). (k, i, g)) (map (\<lambda>(k, i, g). if k = h then (k, i, dp_gone q) else (k, i, g))
         (map (\<lambda>(h, p). (h, dp_executionId p, dp_gone p)) ps))
   \<or> \<not> distinct (map fst ps)"
  by (induction ps) (auto split: if_splits intro!: map_cong simp: rev_image_eqI)

lemma settle_view:
  assumes "map_of (ex_procs x) h = Some p" "dp_executionId q = dp_executionId p" "distinct (map fst (proc_view x))"
  shows "proc_view (settle_run h q r x) = map (\<lambda>(k, i, g). if k = h then (k, i, dp_gone q) else (k, i, g)) (proc_view x)"
proof -
  have "map fst (proc_view x) = map fst (ex_procs x)" unfolding proc_view_def by (induction "ex_procs x") auto
  then have "distinct (map fst (ex_procs x))" using assms(3) by simp
  then show ?thesis using view_set_gone [OF assms(1,2)]
    by (simp add: settle_run_def untrack_def) (simp add: proc_view_def)
qed

lemma settle_fields [simp]:
  "maxConcurrentProcesses (settle_run h q r x) = maxConcurrentProcesses x"
  "activeProcesses (settle_run h q r x) = AList.delete (dp_executionId q) (activeProcesses x)"
  "isShuttingDown (settle_run h q r x) = isShuttingDown x"
  "js_has (ex_results (settle_run h q r x)) k \<longleftrightarrow> k = h \<or> js_has (ex_results x) k"
  by (simp_all add: settle_run_def untrack_def) (simp add: maxConcurrentProcesses_def)

lemma filter_other:
  "filter (\<lambda>(k, i, g). k \<noteq> h \<and> P k) (map (\<lambda>(k, i, g). if k = h then (k, i, b) else (k, i, g)) V)
   = filter (\<lambda>(k, i, g). k \<noteq> h \<and> P k) V"
  by (induction V) (auto split: if_splits)

lemma mark_keys:
  "map fst (map (\<lambda>(k, i, g). if k = h then (k, i, b) else (k, i, g)) V) = map fst V"
  "map (fst \<circ> snd) (map (\<lambda>(k, i, g). if k = h then (k, i, b) else (k, i, g)) V) = map (fst \<circ> snd) V"
  by (induction V) auto

lemma settle_open:
  assumes "map_of (ex_procs x) h = Some p" "dp_executionId q = dp_executionId p" "distinct (map fst (proc_view x))"
  shows "open_runs (settle_run h q r x) = filter (\<lambda>(k, i, g). k \<noteq> h) (open_runs x)"
proof -
  have res: "js_has (ex_results (settle_run h q r x)) k \<longleftrightarrow> k = h \<or> js_has (ex_results x) k" for k
    by (simp add: settle_run_def untrack_def)
  have "open_runs (settle_run h q r x) = filter (\<lambda>(k, i, g). k \<noteq> h \<and> \<not> js_has (ex_results x) k) (proc_view x)"
    unfolding open_runs_def settle_view [OF assms] res de_Morgan_disj by (rule filter_other)
  also have "\<dots> = filter (\<lambda>(k, i, g). k \<noteq> h) (open_runs x)" by (auto simp: open_runs_def intro: filter_cong)
  finally show ?thesis .
qed

text \<open>Each run has an execution id of its own.\<close>

lemma run_id_unique:
  assumes "exec_inv hs ids x" and p: "map_of (ex_procs x) h = Some p" and v: "(k, i, g) \<in> set (proc_view x)"
  shows "i = dp_executionId p \<longleftrightarrow> k = h"
proof -
  have mem: "(h, dp_executionId p, dp_gone p) \<in> set (proc_view x)" using p by (rule view_mem)
  have "inj_on fst (set (proc_view x))" "inj_on (fst \<circ> snd) (set (proc_view x))"
    using exec_invD(1,2) [OF assms(1)] by (simp_all add: distinct_map)
  then show ?thesis using inj_onD [of fst, OF _ _ v mem] inj_onD [of "fst \<circ> snd", OF _ _ v mem] by auto
qed

lemma files_without:
  assumes "\<And>k i g. (k, i, g) \<in> set S \<Longrightarrow> i = i0 \<longleftrightarrow> k = h"
  shows "(\<lambda>(h, i, g). temp_file i) ` set S - {temp_file i0} = (\<lambda>(h, i, g). temp_file i) ` set (filter (\<lambda>(k, i, g). k \<noteq> h) S)"
  using assms
proof (induction S)
  case (Cons e S)
  obtain k i g where e: "e = (k, i, g)" by (cases e)
  have "i = i0 \<longleftrightarrow> k = h" using Cons.prems [of k i g] e by simp
  moreover have "(\<lambda>(h, i, g). temp_file i) ` set S - {temp_file i0}
      = (\<lambda>(h, i, g). temp_file i) ` set (filter (\<lambda>(k, i, g). k \<noteq> h) S)"
    by (rule Cons.IH) (erule Cons.prems [OF list.set_intros(2)])
  ultimately show ?case by (cases "k = h") (simp_all add: e insert_Diff_if case_prod_beta')
qed simp

lemma settle_files:
  assumes inv: "exec_inv hs ids x" and p: "map_of (ex_procs x) h = Some p"
    and q: "dp_executionId q = dp_executionId p" and r: "er_executionId r = dp_executionId p"
  shows "set (ex_files (settle_run h q r x)) = (\<lambda>(h, i, g). temp_file i) ` set (open_runs (settle_run h q r x))"
proof (cases "js_has (ex_results x) h")
  case True
  then have "filter (\<lambda>(k, i, g). k \<noteq> h) (open_runs x) = open_runs x"
    unfolding open_runs_def filter_filter by (intro filter_cong) auto
  then show ?thesis using True exec_invD(9) [OF inv] settle_open [OF p q exec_invD(1) [OF inv]]
    by (simp add: settle_run_def untrack_def resolve_run_def)
next
  case False
  then have "set (ex_files (settle_run h q r x)) = set (ex_files x) - {temp_file (dp_executionId p)}"
    using r by (simp add: settle_run_def untrack_def resolve_run_def)
  also have "\<dots> = (\<lambda>(h, i, g). temp_file i) ` set (filter (\<lambda>(k, i, g). k \<noteq> h) (open_runs x))"
    unfolding exec_invD(9) [OF inv] using run_id_unique [OF inv p] by (intro files_without) (auto simp: open_runs_def)
  finally show ?thesis using settle_open [OF p q exec_invD(1) [OF inv]] by simp
qed

lemma settle_inv:
  assumes inv: "exec_inv hs ids x" and p: "map_of (ex_procs x) h = Some p"
    and q: "dp_executionId q = dp_executionId p" and r: "er_executionId r = dp_executionId p"
  shows "exec_inv hs ids (settle_run h q r x)"
proof -
  let ?y = "settle_run h q r x"
  note I = exec_invD [OF inv]
  note V = settle_view [OF p q I(1), of r] and O = settle_open [OF p q I(1), of r]
  have maps: "map fst (proc_view ?y) = map fst (proc_view x)" "map (fst \<circ> snd) (proc_view ?y) = map (fst \<circ> snd) (proc_view x)"
    unfolding V mark_keys by simp_all
  then have keys: "fst ` set (proc_view ?y) = fst ` set (proc_view x)"
    "(fst \<circ> snd) ` set (proc_view ?y) = (fst \<circ> snd) ` set (proc_view x)" by (metis set_map)+
  have "fst ` set (ex_results ?y) = insert h (fst ` set (ex_results x))" "h \<in> fst ` set (proc_view x)"
    using resolve_keys [of h r "untrack h q x"] view_mem [OF p] by (force simp: settle_run_def untrack_def)+
  then have "fst ` set (proc_view ?y) \<union> fst ` set (ex_results ?y) = hs" unfolding keys(1) using I(3) by auto
  moreover have "\<forall>(h, i, g) \<in> set (proc_view ?y). g \<longrightarrow> js_has (ex_results ?y) h"
    unfolding V using I(5) by (auto split: if_splits)
  moreover have "\<not> isShuttingDown ?y \<longrightarrow> (\<forall>(h, i, g) \<in> set (open_runs ?y). map_of (activeProcesses ?y) i = Some h)"
    unfolding O using I(6) run_id_unique [OF inv p] q by (fastforce simp: open_runs_def)
  moreover have "length (open_runs ?y) \<le> maxConcurrentProcesses ?y" "length (activeProcesses ?y) \<le> maxConcurrentProcesses ?y"
    unfolding O settle_fields using le_trans [OF length_filter_le I(7)] le_trans [OF length_js_delete_le I(8)] by blast+
  ultimately show ?thesis unfolding exec_inv_def maps keys using I(1,2,4) settle_files [OF assms] by blast
qed

lemma close_result_id [simp]: "er_executionId (close_result parse code p) = dp_executionId p"
  by (auto simp: close_result_def runtime_failure_def failed_run_def read_output_def parsed_result_def unread_result_def
      split: option.splits)

lemma closes_inv: "exec_inv hs ids x \<Longrightarrow> exec_inv hs ids (process_closes parse h code x)"
  using settle_inv [of hs ids x h] by (auto simp: process_closes_def settle_run_def [symmetric] split: option.splits)

lemma errs_inv: "exec_inv hs ids x \<Longrightarrow> exec_inv hs ids (process_errs h m x)"
proof (cases "map_of (ex_procs x) h")
  case (Some p)
  assume inv: "exec_inv hs ids x"
  let ?q = "p\<lparr>dp_timer := False, dp_listening := False\<rparr>" and ?r = "runtime_failure (dp_executionId p) (''Failed to spawn Deno: '' @ m)"
  have "exec_inv hs ids (settle_run h ?q ?r x)"
    by (rule settle_inv [OF inv Some]) (simp_all add: runtime_failure_def failed_run_def)
  moreover have "resolve_run h ?r (y\<lparr>denoAvailable := None\<rparr>) = (resolve_run h ?r y)\<lparr>denoAvailable := None\<rparr>" for y :: executor
    by (simp add: resolve_run_def)
  moreover have "exec_inv hs ids (y\<lparr>denoAvailable := None\<rparr>) \<longleftrightarrow> exec_inv hs ids y" for y :: executor
    by (simp add: exec_inv_def proc_view_def open_runs_def maxConcurrentProcesses_def)
  ultimately show ?thesis using inv Some by (auto simp: process_errs_def settle_run_def Let_def)
qed (simp add: process_errs_def)

lemma open_le_active:
  assumes inv: "exec_inv hs ids x" and ns: "\<not> isShuttingDown x"
  shows "length (open_runs x) \<le> length (activeProcesses x)"
proof -
  have "distinct (map (fst \<circ> snd) (open_runs x))"
    using exec_invD(2) [OF inv] unfolding open_runs_def by (rule distinct_map_filter)
  then have "length (open_runs x) = card (set (map (fst \<circ> snd) (open_runs x)))" by (metis distinct_card length_map)
  also have "\<dots> \<le> card (set (map fst (activeProcesses x)))"
    using exec_invD(6) [OF inv] ns by (intro card_mono) (force dest: map_of_SomeD)+
  also have "\<dots> \<le> length (activeProcesses x)" using card_length [of "map fst (activeProcesses x)"] by simp
  finally show ?thesis .
qed

lemma update_new: "k \<notin> fst ` set m \<Longrightarrow> AList.update k v m = m @ [(k, v)]"
  by (induction m) auto

lemma view_keys: "fst ` set (proc_view x) = fst ` set (ex_procs x)"
proof -
  have "map fst (proc_view x) = map fst (ex_procs x)" by (simp add: proc_view_def case_prod_beta' comp_def)
  then show ?thesis by (metis set_map)
qed

lemma open_in_view: "(k, i, g) \<in> set (open_runs x) \<Longrightarrow> (k, i, g) \<in> set (proc_view x)"
  by (simp add: open_runs_def)

lemma fresh_run:
  assumes "exec_inv hs ids x" "h \<notin> hs" "i \<notin> ids" "(k, j, g) \<in> set (proc_view x)"
  shows "k \<noteq> h \<and> j \<noteq> i"
proof -
  have "fst (k, j, g) \<in> hs" unfolding exec_invD(3) [OF assms(1), symmetric] using assms(4) by (intro UnI1 imageI)
  moreover have "(fst \<circ> snd) (k, j, g) \<in> ids" using exec_invD(4) [OF assms(1)] assms(4) by (rule subsetD [OF _ imageI])
  ultimately show ?thesis using assms(2,3) by auto
qed

lemma reject_inv:
  assumes inv: "exec_inv hs ids x" and h: "h \<notin> hs" and i: "i \<notin> ids" and r: "er_executionId r = i"
  shows "exec_inv (insert h hs) (insert i ids) (resolve_run h r (x\<lparr>ex_files := List.insert (temp_file i) (ex_files x)\<rparr>))"
proof -
  let ?x = "x\<lparr>ex_files := List.insert (temp_file i) (ex_files x)\<rparr>"
  let ?y = "resolve_run h r ?x"
  note I = exec_invD [OF inv]
  have x: "proc_view ?x = proc_view x" "ex_results ?x = ex_results x" "open_runs ?x = open_runs x"
    "maxConcurrentProcesses ?x = maxConcurrentProcesses x"
    by (simp_all add: proc_view_def open_runs_def maxConcurrentProcesses_def)
  have "\<forall>(k, j, g) \<in> set (open_runs x). k \<noteq> h \<and> j \<noteq> i"
    using fresh_run [OF inv h i open_in_view] by auto
  then have O: "open_runs ?y = open_runs x" and fresh: "temp_file i \<notin> set (ex_files x)"
    unfolding resolve_open x(3) I(9) by (auto intro!: filter_True)
  have "\<not> js_has (ex_results x) h" using I(3) h by (auto simp: js_has_in_keys)
  then have "set (ex_files ?y) = set (ex_files x)" using fresh r by (auto simp: resolve_run_def)
  moreover have "fst ` set (ex_results ?y) = insert h (fst ` set (ex_results x))" by (simp add: resolve_keys x)
  ultimately show ?thesis using I x(1) unfolding exec_inv_def O resolve_fields x by auto
qed

lemma launch_inv:
  assumes inv: "exec_inv hs ids x" and h: "h \<notin> hs" and i: "i \<notin> ids"
  shows "exec_inv (insert h hs) (insert i ids) (execute_launch h i t sig x)"
proof (cases "isShuttingDown x \<or> maxConcurrentProcesses x \<le> length (activeProcesses x)")
  case True
  then show ?thesis using reject_inv [OF assms]
    by (auto simp: execute_launch_def runDeno_def maxConcurrentProcesses_def runtime_failure_def failed_run_def)
next
  case False
  let ?p = "if sig = Fired then onAbort (new_process i t (sig = Armed)) else new_process i t (sig = Armed)"
  let ?y = "execute_launch h i t sig x"
  note I = exec_invD [OF inv]
  have y: "?y = x\<lparr>ex_files := List.insert (temp_file i) (ex_files x), ex_procs := AList.update h ?p (ex_procs x),
      activeProcesses := AList.update i h (activeProcesses x)\<rparr>"
    using False by (simp add: execute_launch_def runDeno_def maxConcurrentProcesses_def Let_def)
  have "h \<notin> fst ` set (ex_procs x)" using I(3) h view_keys by auto
  then have V: "proc_view ?y = proc_view x @ [(h, i, False)]"
    by (simp add: y proc_view_def update_new onAbort_def send_signal_def new_process_def)
  have R: "ex_results ?y = ex_results x" "\<not> js_has (ex_results x) h" using I(3) h by (auto simp: y js_has_in_keys)
  then have O: "open_runs ?y = open_runs x @ [(h, i, False)]" by (simp add: open_runs_def V)
  have new: "\<forall>(k, j, g) \<in> set (proc_view x). k \<noteq> h \<and> j \<noteq> i"
    using fresh_run [OF inv h i] by auto
  have "length (open_runs ?y) \<le> maxConcurrentProcesses ?y" "length (activeProcesses ?y) \<le> maxConcurrentProcesses ?y"
    using open_le_active [OF inv] False O by (simp_all add: y maxConcurrentProcesses_def length_js_set)
  moreover have "\<forall>(k, j, g) \<in> set (open_runs ?y). map_of (activeProcesses ?y) j = Some k"
    unfolding O using I(6) False new by (fastforce simp: y dest: open_in_view)
  moreover have "set (ex_files ?y) = (\<lambda>(h, i, g). temp_file i) ` set (open_runs ?y)" unfolding O using I(9) by (simp add: y)
  moreover have "distinct (map fst (proc_view ?y))" "distinct (map (fst \<circ> snd) (proc_view ?y))"
    using I(1,2) new unfolding V by auto
  moreover have "\<forall>(h, i, g) \<in> set (proc_view ?y). g \<longrightarrow> js_has (ex_results ?y) h" unfolding V R using I(5) by auto
  moreover have "fst ` set (proc_view ?y) \<union> fst ` set (ex_results ?y) = insert h hs"
    "(fst \<circ> snd) ` set (proc_view ?y) \<subseteq> insert i ids" unfolding V R using I(3,4) by auto
  ultimately show ?thesis unfolding exec_inv_def by blast
qed

fun launched :: "exec_event list \<Rightarrow> (nat \<times> string) list" where
  "launched [] = []"
| "launched (Launch h i t sig # es) = (h, i) # launched es"
| "launched (_ # es) = launched es"

lemma launched_append [simp]: "launched (es @ fs) = launched es @ launched fs"
  by (induction es rule: launched.induct) simp_all

lemma closing_inv: "exec_inv hs ids (x\<lparr>ex_closing := cs\<rparr>) \<longleftrightarrow> exec_inv hs ids x"
  by (simp add: exec_inv_def proc_view_def open_runs_def maxConcurrentProcesses_def)

lemma signal_keeps [simp]: "dp_executionId (send_signal k p) = dp_executionId p" "dp_gone (send_signal k p) = dp_gone p"
  "dp_executionId (onAbort p) = dp_executionId p" "dp_gone (onAbort p) = dp_gone p"
  by (simp_all add: send_signal_def onAbort_def)

lemma term_all_inv:
  "exec_inv hs ids x \<Longrightarrow>
   exec_inv hs ids (foldl (\<lambda>x (executionId, h).
         (if h \<in> set throws then x
          else (on_process h (send_signal SIGTERM) x)\<lparr>ex_closing := h # ex_closing x\<rparr>)) x L)"
proof (induction L arbitrary: x)
  case (Cons e L)
  have "exec_inv hs ids (on_process (snd e) (send_signal SIGTERM) x)" by (rule exec_inv_on_process [OF Cons.prems]) simp
  then show ?case using Cons by (simp add: case_prod_beta' closing_inv)
qed simp

lemma shutdown_begins_inv: "exec_inv hs ids x \<Longrightarrow> exec_inv hs ids (shutdown_begins throws x)"
  unfolding shutdown_begins_def
  by (rule term_all_inv, rule exec_inv_cong [of _ x])
    (simp_all add: proc_view_def)

lemma shutdown_ends_inv: "exec_inv hs ids x \<Longrightarrow> exec_inv hs ids (shutdown_ends x)"
  by (simp add: shutdown_ends_def exec_inv_def proc_view_def open_runs_def maxConcurrentProcesses_def)

lemma step_inv:
  assumes "exec_inv hs ids x" "\<forall>(h, i) \<in> set (launched [e]). h \<notin> hs \<and> i \<notin> ids"
  shows "exec_inv (fst ` set (launched [e]) \<union> hs) (snd ` set (launched [e]) \<union> ids) (exec_step parse x e)"
proof (cases e)
  case (Launch h i t sig)
  then show ?thesis using launch_inv [OF assms(1)] assms(2) by simp
next
  case (ShutdownForces h)
  have "exec_inv hs ids (on_process h (send_signal SIGKILL) x)" by (rule exec_inv_on_process [OF assms(1)]) simp
  then show ?thesis using ShutdownForces assms(1) by (simp add: shutdown_forces_def closing_inv)
next
  case (DenoChecked b)
  then show ?thesis using assms(1)
    by (simp add: deno_checked_def exec_inv_def proc_view_def open_runs_def maxConcurrentProcesses_def)
qed (use assms(1) in \<open>auto simp: timeout_fires_def abort_fires_def abort_escalates_def stdout_data_def stderr_data_def
        closes_inv errs_inv shutdown_begins_inv shutdown_ends_inv intro!: exec_inv_on_process split: if_splits\<close>)

lemma run_inv:
  "exec_inv hs ids x \<Longrightarrow> distinct (map fst (launched es)) \<Longrightarrow> distinct (map snd (launched es)) \<Longrightarrow>
   \<forall>(h, i) \<in> set (launched es). h \<notin> hs \<and> i \<notin> ids \<Longrightarrow>
   exec_inv (fst ` set (launched es) \<union> hs) (snd ` set (launched es) \<union> ids) (exec_run parse x es)"
proof (induction es rule: rev_induct)
  case (snoc e es)
  have "exec_inv (fst ` set (launched es) \<union> hs) (snd ` set (launched es) \<union> ids) (exec_run parse x es)"
    using snoc by auto
  moreover have "\<forall>(h, i) \<in> set (launched [e]). h \<notin> fst ` set (launched es) \<union> hs \<and> i \<notin> snd ` set (launched es) \<union> ids"
    using snoc.prems(2-4) by (cases e) auto
  ultimately have "exec_inv (fst ` set (launched [e]) \<union> (fst ` set (launched es) \<union> hs))
      (snd ` set (launched [e]) \<union> (snd ` set (launched es) \<union> ids)) (exec_step parse (exec_run parse x es) e)"
    by (rule step_inv)
  then show ?case by (simp add: exec_run_def image_Un Un_assoc Un_left_commute)
qed (simp add: exec_run_def)

lemma new_inv: "exec_inv {} {} (new_executor config)"
  by (simp add: exec_inv_def new_executor_def proc_view_def open_runs_def)

lemma config_on_process [simp]: "ex_config (on_process h f x) = ex_config x"
  by (simp add: on_process_def split: option.splits)

lemma config_resolve [simp]: "ex_config (resolve_run h r x) = ex_config x"
  by (simp add: resolve_run_def)

lemma config_term_all:
  "ex_config (foldl (\<lambda>x (executionId, h).
         (if h \<in> set throws then x
          else (on_process h (send_signal SIGTERM) x)\<lparr>ex_closing := h # ex_closing x\<rparr>)) x L) = ex_config x"
  by (induction L arbitrary: x) (auto simp: case_prod_beta')

lemma step_config: "ex_config (exec_step parse x e) = ex_config x"
  by (cases e)
    (auto simp: execute_launch_def runDeno_def timeout_fires_def abort_fires_def abort_escalates_def stdout_data_def stderr_data_def
      process_closes_def process_errs_def untrack_def shutdown_begins_def config_term_all shutdown_forces_def shutdown_ends_def
      deno_checked_def Let_def split: option.splits)

lemma run_config: "ex_config (exec_run parse x es) = ex_config x"
  by (induction es rule: rev_induct) (auto simp: exec_run_def step_config)

text \<open>C30: The executor is bounded. In every course of events in which each execution has an id of its own, the calls
  that are not settled are at most the configured number of processes, as many at most are tracked, and the
  files in the temporary directory are exactly those of the calls that are not settled: none is left
  behind by a call that was refused, killed, cancelled or failed, and none is taken from a call that still runs.\<close>

theorem executor_bounded:
  assumes "distinct (map fst (launched es))" "distinct (map snd (launched es))"
    and "x = exec_run parse (new_executor config) es"
  shows "length (open_runs x) \<le> nullish (maxConcurrentProcesses_opt config) 8
    \<and> getActiveProcessCount x \<le> nullish (maxConcurrentProcesses_opt config) 8
    \<and> set (ex_files x) = (\<lambda>(h, i, g). temp_file i) ` set (open_runs x)"
proof -
  have inv: "exec_inv (fst ` set (launched es) \<union> {}) (snd ` set (launched es) \<union> {}) x"
    unfolding assms(3) by (rule run_inv [OF new_inv assms(1,2)]) simp
  have "maxConcurrentProcesses x = nullish (maxConcurrentProcesses_opt config) 8"
    by (simp add: assms(3) maxConcurrentProcesses_def run_config new_executor_def)
  then show ?thesis using exec_invD(7-9) [OF inv] by (simp add: getActiveProcessCount_def)
qed

definition demo_config :: deno_config where
  "demo_config = \<lparr>maxMemoryMb = 128, allowedNetHosts = [''localhost''], maxConcurrentProcesses_opt = Some 1,
     maxOutputBytes_opt = Some 8\<rparr>"

definition demo_events :: "exec_event list" where
  "demo_events = [Launch 0 ''a'' 1000 NoSignal, Launch 1 ''b'' 1000 Armed, StdoutData 0 ''hello'']"

theorem executor_bounded_witness:
  "length (open_runs (exec_run (\<lambda>s. None) (new_executor demo_config) demo_events)) \<le> 1"
  using executor_bounded [of demo_events "exec_run (\<lambda>s. None) (new_executor demo_config) demo_events" "\<lambda>s. None" demo_config]
  by (simp add: demo_events_def demo_config_def nullish_def)

subsection \<open>Settlement\<close>

lemma results_on_process [simp]: "ex_results (on_process h f x) = ex_results x"
  by (simp add: on_process_def split: option.splits)

lemma resolve_keeps: "map_of (ex_results x) h = Some r \<Longrightarrow> map_of (ex_results (resolve_run k q x)) h = Some r"
  by (auto simp: resolve_run_def js_has_def)

lemma results_term_all:
  "ex_results (foldl (\<lambda>x (executionId, h).
         (if h \<in> set throws then x
          else (on_process h (send_signal SIGTERM) x)\<lparr>ex_closing := h # ex_closing x\<rparr>)) x L) = ex_results x"
  by (induction L arbitrary: x) (auto simp: case_prod_beta')

lemma step_keeps_result:
  "map_of (ex_results x) h = Some r \<Longrightarrow> map_of (ex_results (exec_step parse x e)) h = Some r"
  by (cases e)
    (auto simp: execute_launch_def runDeno_def timeout_fires_def abort_fires_def abort_escalates_def stdout_data_def stderr_data_def
      process_closes_def process_errs_def untrack_def shutdown_begins_def results_term_all shutdown_forces_def shutdown_ends_def
      deno_checked_def Let_def intro!: resolve_keeps split: option.splits)

lemma run_keeps_result:
  "map_of (ex_results x) h = Some r \<Longrightarrow> map_of (ex_results (exec_run parse x es)) h = Some r"
  by (induction es rule: rev_induct) (auto simp: exec_run_def step_keeps_result)

lemma run_append: "exec_run parse x (es @ fs) = exec_run parse (exec_run parse x es) fs"
  by (simp add: exec_run_def)

text \<open>Every execution settles, once. After any course of events with an id of its own for each execution, a call
  that was launched has a result, or its process has not ended; whatever happens next, a result that is there
  is never replaced, and when the process of a call ends or fails, the call has a result.\<close>

theorem executions_settle_once:
  assumes "distinct (map fst (launched es))" "distinct (map snd (launched es))" "(h, i) \<in> set (launched es)"
    and "x = exec_run parse (new_executor config) es"
  shows "(js_has (ex_results x) h \<or> (\<exists>p. map_of (ex_procs x) h = Some p \<and> \<not> dp_gone p))
    \<and> (map_of (ex_results x) h = Some r \<longrightarrow> map_of (ex_results (exec_run parse x fs)) h = Some r)
    \<and> js_has (ex_results (exec_run parse x [ProcessCloses h code])) h
    \<and> js_has (ex_results (exec_run parse x [ProcessErrs h m])) h"
proof -
  have inv: "exec_inv (fst ` set (launched es) \<union> {}) (snd ` set (launched es) \<union> {}) x"
    unfolding assms(4) by (rule run_inv [OF new_inv assms(1,2)]) simp
  have "h \<in> fst ` set (proc_view x) \<union> fst ` set (ex_results x)" unfolding exec_invD(3) [OF inv] using assms(3) by force
  then have "js_has (ex_procs x) h \<or> js_has (ex_results x) h" by (auto simp: view_keys js_has_in_keys)
  moreover have "js_has (ex_results x) h" if "map_of (ex_procs x) h = Some p" "dp_gone p" for p
    using exec_invD(5) [OF inv] view_mem [OF that(1)] that(2) by auto
  ultimately have settled: "js_has (ex_results x) h \<or> (\<exists>p. map_of (ex_procs x) h = Some p \<and> \<not> dp_gone p)"
    by (auto simp: js_has_def)
  then have "js_has (ex_results (exec_run parse x [ProcessCloses h code])) h"
    "js_has (ex_results (exec_run parse x [ProcessErrs h m])) h"
    by (auto simp: exec_run_def process_closes_def process_errs_def untrack_def Let_def split: option.splits)
  then show ?thesis using settled run_keeps_result by blast
qed

theorem executions_settle_once_witness:
  "js_has (ex_results (exec_run (\<lambda>s. None) (exec_run (\<lambda>s. None) (new_executor demo_config) demo_events) [ProcessCloses 0 (Some 0)])) 0"
  using executions_settle_once [of demo_events 0 "''a''" "exec_run (\<lambda>s. None) (new_executor demo_config) demo_events" "\<lambda>s. None" demo_config]
  by (simp add: demo_events_def)

text \<open>A process that was killed, by its timeout or for a client that cancelled, never reports a success, whatever it
  has written.\<close>

definition failed_or_killed :: "nat \<Rightarrow> executor \<Rightarrow> bool" where
  "failed_or_killed h x \<longleftrightarrow>
     (case map_of (ex_results x) h of
        Some r \<Rightarrow> er_success r = Some (JBool False)
      | None \<Rightarrow> (case map_of (ex_procs x) h of Some p \<Rightarrow> dp_killed p | None \<Rightarrow> False))"

lemma killed_close: "dp_killed p \<Longrightarrow> er_success (close_result parse code p) = Some (JBool False)"
  by (simp add: close_result_def runtime_failure_def failed_run_def)

lemma failure_success [simp]: "er_success (runtime_failure i m) = Some (JBool False)"
  by (simp add: runtime_failure_def failed_run_def)

lemma fok_on_process:
  assumes "failed_or_killed h x" "\<And>p. dp_killed p \<Longrightarrow> dp_killed (f p)"
  shows "failed_or_killed h (on_process k f x)"
  using assms by (auto simp: failed_or_killed_def on_process_def split: option.splits if_splits)

lemma fok_closing [simp]: "failed_or_killed h (x\<lparr>ex_closing := c\<rparr>) = failed_or_killed h x"
  by (simp add: failed_or_killed_def split: option.splits)

lemma fok_term_all:
  "failed_or_killed h x \<Longrightarrow> failed_or_killed h (foldl (\<lambda>x (executionId, h).
         (if h \<in> set throws then x
          else (on_process h (send_signal SIGTERM) x)\<lparr>ex_closing := h # ex_closing x\<rparr>)) x L)"
proof (induction L arbitrary: x)
  case (Cons e L)
  have "failed_or_killed h (on_process (snd e) (send_signal SIGTERM) x)"
    by (rule fok_on_process [OF Cons.prems]) (simp add: send_signal_def)
  then show ?case using Cons by (simp add: case_prod_beta')
qed simp

lemma fok_step:
  assumes "failed_or_killed h x" "\<forall>i t sig. e \<noteq> Launch h i t sig"
  shows "failed_or_killed h (exec_step parse x e)"
proof (cases e)
  case (Launch k i t sig)
  then have "k \<noteq> h" using assms(2) by blast
  then show ?thesis using assms(1) Launch
    by (auto simp: failed_or_killed_def execute_launch_def runDeno_def resolve_run_def Let_def split: option.splits)
next
  case (ProcessCloses k code)
  then show ?thesis using assms(1) killed_close [of _ parse code]
    by (auto simp: failed_or_killed_def process_closes_def resolve_run_def untrack_def js_has_def split: option.splits)
next
  case (ProcessErrs k m)
  then show ?thesis using assms(1)
    by (auto simp: failed_or_killed_def process_errs_def resolve_run_def untrack_def js_has_def Let_def split: option.splits)
next
  case (ShutdownBegins throws)
  have "failed_or_killed h (x\<lparr>isShuttingDown := True\<rparr>)" using assms(1) by (simp add: failed_or_killed_def split: option.splits)
  then show ?thesis using ShutdownBegins fok_term_all by (simp add: shutdown_begins_def)
next
  case (ShutdownForces k)
  have "failed_or_killed h (on_process k (send_signal SIGKILL) x)"
    by (rule fok_on_process [OF assms(1)]) (simp add: send_signal_def)
  then show ?thesis using ShutdownForces assms(1) by (simp add: shutdown_forces_def)
qed (use assms(1) in \<open>auto simp: timeout_fires_def abort_fires_def abort_escalates_def stdout_data_def stderr_data_def
        send_signal_def onAbort_def shutdown_ends_def deno_checked_def intro!: fok_on_process,
        simp_all add: failed_or_killed_def split: option.splits\<close>)

lemma killed_never_succeeds:
  assumes "map_of (ex_procs x) h = Some p" "dp_killed p" "\<not> js_has (ex_results x) h"
    and "h \<notin> fst ` set (launched es)"
  shows "failed_or_killed h (exec_run parse x es)"
  using assms(4)
proof (induction es rule: rev_induct)
  case Nil
  then show ?case using assms(1-3) by (auto simp: exec_run_def failed_or_killed_def js_has_def split: option.splits)
next
  case (snoc e es)
  have "failed_or_killed h (exec_run parse x es)" using snoc by (auto simp: image_Un)
  moreover have "\<forall>i t sig. e \<noteq> Launch h i t sig" using snoc.prems by (auto simp: image_Un)
  ultimately show ?case using fok_step by (simp add: exec_run_def)
qed

end
