(* ===== verification/SandboxResult.thy ===== *)
theory SandboxResult
  imports Executor JsonLine
begin

text \<open>
  The way of a result from the user's code through the lines the sandbox prints (\<open>Sandbox\<close>) and the output the executor
  collects and reads (\<open>Executor\<close>) to the caller of \<open>execute\<close>, and what the sandbox may do.
\<close>

subsection \<open>The markers around a result\<close>

lemma index_first:
  "(\<And>k. k < length a \<Longrightarrow> \<not> prefix p (drop k (a @ p @ r))) \<Longrightarrow> js_index_of (a @ p @ r) p = Some (length a)"
proof (induction a)
  case Nil
  then show ?case by (cases p; cases r) simp_all
next
  case (Cons c a)
  have "\<not> prefix p (c # a @ p @ r)" using Cons.prems [of 0] by simp
  moreover have "js_index_of (a @ p @ r) p = Some (length a)"
    by (rule Cons.IH) (use Cons.prems [of "Suc _"] in simp)
  ultimately show ?case by simp
qed

text \<open>Whole lines: nothing is left open at the end.\<close>

definition whole_lines :: "string \<Rightarrow> bool" where
  "whole_lines out \<longleftrightarrow> out = [] \<or> last out = newline"

lemma marker_found:
  assumes "newline \<notin> set m" "whole_lines a" "\<not> js_includes a (m @ [newline])"
  shows "js_index_of (a @ (m @ [newline]) @ r) (m @ [newline]) = Some (length a)"
proof (rule index_first)
  fix k assume k: "k < length a"
  let ?p = "m @ [newline]"
  show "\<not> prefix ?p (drop k (a @ ?p @ r))"
  proof
    assume "prefix ?p (drop k (a @ ?p @ r))"
    then obtain z where z: "drop k (a @ ?p @ r) = ?p @ z" unfolding prefix_def by blast
    show False
    proof (cases "k + length ?p \<le> length a")
      case True
      have "?p = take (length ?p) (?p @ z)" by simp
      also have "\<dots> = take (length ?p) (drop k (a @ ?p @ r))" by (simp only: z)
      also have "\<dots> = take (length ?p) (drop k a)" using True by simp
      finally have "a = take k a @ ?p @ drop (length ?p) (drop k a)" by (metis append_take_drop_id)
      then show False using assms(3) js_includes_iff by blast
    next
      case False
      let ?j = "length a - 1 - k"
      have j: "?j < length m" using False k by simp
      have "?p ! ?j = (?p @ z) ! ?j" using j by (simp add: nth_append)
      also have "\<dots> = drop k (a @ ?p @ r) ! ?j" by (simp only: z)
      also have "\<dots> = (a @ ?p @ r) ! (k + ?j)" by (rule nth_drop) (use k in simp)
      also have "k + ?j = length a - 1" using k by simp
      also have "(a @ ?p @ r) ! (length a - 1) = a ! (length a - 1)"
        by (rule nth_append_left) (use k in linarith)
      also have "\<dots> = newline"
      proof -
        have "a \<noteq> []" using k by auto
        then show ?thesis using assms(2) last_conv_nth [of a] by (simp add: whole_lines_def)
      qed
      finally show False using j assms(1) by (metis nth_append nth_mem)
    qed
  qed
qed

lemma line_end_found:
  assumes "newline \<notin> set a"
  shows "js_index_of (a @ newline # q @ r) (newline # q) = Some (length a)"
proof -
  have "js_index_of (a @ (newline # q) @ r) (newline # q) = Some (length a)"
  proof (rule index_first)
    fix k assume k: "k < length a"
    have "drop k (a @ (newline # q) @ r) = a ! k # drop (Suc k) a @ (newline # q) @ r"
      using k by (simp add: Cons_nth_drop_Suc [symmetric])
    moreover have "a ! k \<noteq> newline" using assms k by (metis nth_mem)
    ultimately show "\<not> prefix (newline # q) (drop k (a @ (newline # q) @ r))" by simp
  qed
  then show ?thesis by simp
qed

lemma frame_read:
  assumes "whole_lines a" "\<not> js_includes a (result_start @ [newline])" "newline \<notin> set j"
  shows "result_match (a @ result_start @ newline # j @ newline # result_end @ r) = Some j"
proof -
  have "newline \<notin> set result_start" by (simp add: result_start_def newline_def)
  from marker_found [OF this assms(1,2), of "j @ newline # result_end @ r"]
  have "js_index_of (a @ result_start @ newline # j @ newline # result_end @ r) (result_start @ [newline]) = Some (length a)" by simp
  then show ?thesis using line_end_found [OF assms(3), of result_end r] by (simp add: result_match_def Let_def)
qed

subsection \<open>From the user's code to the caller\<close>

text \<open>The value that the sandbox reports for a result, once the user's code has returned in state \<open>s\<close>. The logs
  end with the first line of the frame, which the sandbox writes with the \<open>console.log\<close> it has replaced.\<close>

definition reported :: "json option \<Rightarrow> sandbox \<Rightarrow> json" where
  "reported result s = success_json (scrubResult (sb_reverse s) result) (s\<lparr>sb_logs := sb_logs s @ [result_start]\<rparr>)"

lemma print_frame_stdout:
  assumes "\<And>t. inspect [JStr t] = t"
  shows "sb_stdout (print_frame inspect body s) = sb_stdout s @ result_start @ newline
     # json_stringify (body (console_log inspect [JStr result_start] s)) @ newline # result_end @ [newline]"
  by (simp add: print_frame_def console_log_def originalConsoleLog_def streamEvent_def Let_def assms)

lemma main_stdout:
  assumes "\<And>t. inspect [JStr t] = t" "user (new_sandbox False now, w) = (Inr result, s, w')" "\<not> sb_stream s"
  shows "sb_stdout (fst (snd (run_main inspect stack user (new_sandbox False now, w)))) =
     sb_stdout s @ result_start @ newline # json_stringify (reported result s) @ newline # result_end @ [newline]"
proof -
  have start: "progress_event p m (log_event a b (new_sandbox False now)) = new_sandbox False now" for p m a b
    by (simp add: progress_event_def log_event_def streamEvent_def new_sandbox_def)
  have idle: "progress_event p m s = s" for p m using assms(3) by (simp add: progress_event_def streamEvent_def)
  have "success_json r (console_log inspect [JStr result_start] s) = success_json r (s\<lparr>sb_logs := sb_logs s @ [result_start]\<rparr>)" for r
    by (simp add: success_json_def logs_json_def metrics_json_def console_log_def originalConsoleLog_def streamEvent_def
        assms(3) log_text_def Let_def)
  then show ?thesis using assms(2) print_frame_stdout [OF assms(1)]
    by (simp add: run_main_def start idle reported_def)
qed

lemma stdout_run:
  assumes "map_of (ex_procs x) h = Some p" "\<not> dp_gone p"
  shows "map_of (ex_procs (exec_run parse x (map (StdoutData h) ds))) h
       = Some (p\<lparr>dp_out := foldl (\<lambda>b d. take_chunk (maxOutputBytes x) d b) (dp_out p) ds\<rparr>)
     \<and> ex_results (exec_run parse x (map (StdoutData h) ds)) = ex_results x"
  using assms
proof (induction ds arbitrary: x p)
  case (Cons d ds)
  let ?x = "exec_step parse x (StdoutData h d)" and ?p = "p\<lparr>dp_out := take_chunk (maxOutputBytes x) d (dp_out p)\<rparr>"
  have x: "map_of (ex_procs ?x) h = Some ?p" "\<not> dp_gone ?p" "ex_results ?x = ex_results x" "maxOutputBytes ?x = maxOutputBytes x"
    using Cons.prems by (simp_all add: stdout_data_def on_process_def maxOutputBytes_def)
  show ?case using Cons.IH [OF x(1,2)] x(3,4) by (simp add: exec_run_def)
qed (simp add: exec_run_def)

lemma launch_to_close:
  assumes "\<not> isShuttingDown x" "length (activeProcesses x) < maxConcurrentProcesses x" "\<not> js_has (ex_results x) h"
  shows "map_of (ex_results (exec_run parse x (Launch h i t NoSignal # map (StdoutData h) ds @ [ProcessCloses h code]))) h
     = Some (read_output parse i code (take (maxOutputBytes x) (concat ds)) [])"
proof -
  let ?x = "exec_step parse x (Launch h i t NoSignal)" and ?p = "new_process i t False"
  have x: "map_of (ex_procs ?x) h = Some ?p" "\<not> dp_gone ?p" "ex_results ?x = ex_results x" "maxOutputBytes ?x = maxOutputBytes x"
    using assms by (auto simp: execute_launch_def runDeno_def Let_def new_process_def maxOutputBytes_def maxConcurrentProcesses_def)
  let ?y = "exec_run parse ?x (map (StdoutData h) ds)"
  let ?q = "?p\<lparr>dp_out := foldl (\<lambda>b d. take_chunk (maxOutputBytes x) d b) empty_buffer ds\<rparr>"
  have "map_of (ex_procs ?y) h = Some ?q" "ex_results ?y = ex_results x"
    using stdout_run [OF x(1,2), of parse ds] x(3,4) by (simp_all add: new_process_def)
  moreover have "close_result parse code ?q = read_output parse i code (take (maxOutputBytes x) (concat ds)) []"
    by (simp add: close_result_def new_process_def output_prefix) (simp add: buffer_text_def empty_buffer_def)
  moreover have "exec_run parse x (Launch h i t NoSignal # map (StdoutData h) ds @ [ProcessCloses h code])
      = exec_step parse ?y (ProcessCloses h code)" by (simp add: exec_run_def)
  ultimately show ?thesis using assms(3) by (simp add: process_closes_def new_process_def resolve_run_def untrack_def)
qed

text \<open>C31: The result arrives. When the user's code returns, having written nothing but whole lines none of which
  ends in the start marker, and the output fits into the buffer, then, in whatever chunks it arrives, the
  execution ends with the value the code returned (scrubbed), with its tool calls counted and its logs, to
  which the start marker is added.\<close>

theorem result_reaches_caller:
  assumes "\<not> isShuttingDown x" "length (activeProcesses x) < maxConcurrentProcesses x" "\<not> js_has (ex_results x) h"
    and "\<And>t. inspect [JStr t] = t"
    and "user (new_sandbox False now, w) = (Inr result, s, w')" "\<not> sb_stream s"
    and "whole_lines (sb_stdout s)" "\<not> js_includes (sb_stdout s) (result_start @ [newline])"
    and "concat ds = sb_stdout (fst (snd (run_main inspect stack user (new_sandbox False now, w))))"
    and "length (concat ds) \<le> maxOutputBytes x" "parse (json_stringify (reported result s)) = Some (reported result s)"
  shows "\<exists>r. map_of (ex_results (exec_run parse x (Launch h i t NoSignal # map (StdoutData h) ds @ [ProcessCloses h code]))) h
       = Some r
     \<and> er_executionId r = i \<and> er_success r = Some (JBool True) \<and> er_error r = None
     \<and> er_result r = scrubResult (sb_reverse s) result
     \<and> er_logs r = JArr (map JStr (sb_logs s @ [result_start])) \<and> er_toolCalls r = JNum (int (toolCalls s))
     \<and> er_cumulative r = Some (JNum (cumulativeToolCallDurationMs s))"
proof -
  let ?v = "reported result s"
  have "result_match (take (maxOutputBytes x) (concat ds)) = Some (json_stringify ?v)"
    using frame_read [OF assms(7,8) stringify_newline, of ?v "[newline]"] assms(10) main_stdout [of inspect user now w result s w' stack, OF assms(4,5,6)] assms(9)
    by simp
  moreover have v: "json_stringify ?v \<noteq> []" "?v \<noteq> JNull" by (simp_all add: reported_def success_json_def)
  ultimately have "read_output parse i code (take (maxOutputBytes x) (concat ds)) [] = parsed_result i ?v"
    using assms(11) by (simp add: read_output_def)
  moreover have "er_success (parsed_result i ?v) = Some (JBool True) \<and> er_error (parsed_result i ?v) = None
      \<and> er_result (parsed_result i ?v) = scrubResult (sb_reverse s) result
      \<and> er_logs (parsed_result i ?v) = JArr (map JStr (sb_logs s @ [result_start]))
      \<and> er_toolCalls (parsed_result i ?v) = JNum (int (toolCalls s))
      \<and> er_cumulative (parsed_result i ?v) = Some (JNum (cumulativeToolCallDurationMs s)) \<and> er_executionId (parsed_result i ?v) = i"
    using assms(6)
    by (auto simp: parsed_result_def reported_def success_json_def js_field_def parsed_metric_def js_or_def logs_json_def
        metrics_json_def split: option.splits)
  ultimately show ?thesis using launch_to_close [OF assms(1-3)] by auto
qed

definition demo_user :: "unit user_code" where
  "demo_user sw = (Inr (Some (JNum 7)), console_log log_text [JStr ''working''] (fst sw), ())"

definition demo_after :: sandbox where
  "demo_after = console_log log_text [JStr ''working''] (new_sandbox False 0)"

definition demo_out :: string where
  "demo_out = sb_stdout (fst (snd (run_main log_text (\<lambda>e. None) demo_user (new_sandbox False 0, ()))))"

definition roomy_config :: deno_config where
  "roomy_config = \<lparr>maxMemoryMb = 128, allowedNetHosts = [''localhost''], maxConcurrentProcesses_opt = None,
     maxOutputBytes_opt = Some (length demo_out)\<rparr>"

theorem result_reaches_caller_witness:
  "\<exists>r. map_of (ex_results (exec_run (\<lambda>t. if t = json_stringify (reported (Some (JNum 7)) demo_after)
            then Some (reported (Some (JNum 7)) demo_after) else None) (new_executor roomy_config)
          (Launch 0 ''a'' 1000 NoSignal # map (StdoutData 0) [demo_out] @ [ProcessCloses 0 (Some 0)]))) 0 = Some r
     \<and> er_result r = Some (JNum 7)"
proof -
  let ?parse = "\<lambda>t. if t = json_stringify (reported (Some (JNum 7)) demo_after) then Some (reported (Some (JNum 7)) demo_after) else None"
  have x: "\<not> isShuttingDown (new_executor roomy_config)"
    "length (activeProcesses (new_executor roomy_config)) < maxConcurrentProcesses (new_executor roomy_config)"
    "\<not> js_has (ex_results (new_executor roomy_config)) 0"
    by (simp_all add: new_executor_def maxConcurrentProcesses_def roomy_config_def nullish_def js_has_def)
  have i: "log_text [JStr t] = t" for t by (simp add: log_text_def)
  have u: "demo_user (new_sandbox False 0, ()) = (Inr (Some (JNum 7)), demo_after, ())"
    by (simp add: demo_user_def demo_after_def)
  have s: "\<not> sb_stream demo_after" "whole_lines (sb_stdout demo_after)"
    "\<not> js_includes (sb_stdout demo_after) (result_start @ [newline])" "scrubResult (sb_reverse demo_after) (Some (JNum 7)) = Some (JNum 7)"
    by code_simp+
  have o: "concat [demo_out] = sb_stdout (fst (snd (run_main log_text (\<lambda>e. None) demo_user (new_sandbox False 0, ()))))"
    by (simp add: demo_out_def)
  have l: "length (concat [demo_out]) \<le> maxOutputBytes (new_executor roomy_config)"
    by (simp add: maxOutputBytes_def new_executor_def roomy_config_def nullish_def)
  have p: "?parse (json_stringify (reported (Some (JNum 7)) demo_after)) = Some (reported (Some (JNum 7)) demo_after)" by simp
  from result_reaches_caller [OF x i u s(1-3) o l, of ?parse "''a''" 1000 "Some 0"] p s(4)
  show ?thesis by auto
qed

text \<open>The scrubbing is of no effect against the user's code itself: a frame that it prints first is the one that is
  read, whatever it has in it.\<close>

lemma printed_frame_is_read:
  "newline \<notin> set j \<Longrightarrow> result_match (result_start @ newline # j @ newline # result_end @ rest) = Some j"
  using frame_read [of "[]" j rest] by (simp add: whole_lines_def result_start_def)

text \<open>What the sandbox may do. The one option of its command line that begins with \<open>--allow\<close> is the network, for the configured
  hosts, with the port of the bridge where they name none, and its environment has no variable but \<open>PATH\<close>, \<open>HOME\<close>, \<open>DENO_DIR\<close> and \<open>NO_COLOR\<close>.\<close>

theorem sandbox_confined:
  assumes "\<not> prefix ''--allow'' filePath"
  shows "filter (prefix ''--allow'') (deno_args config port filePath)
      = [''--allow-net='' @ join '','' (concat (map (expand_host (bridge_port port)) (allowedNetHosts config)))]
    \<and> list_all (\<lambda>h. CHR '':'' \<in> set h) (concat (map (expand_host (bridge_port port)) (allowedNetHosts config)))
    \<and> fst ` set (deno_env environ) \<subseteq> {''PATH'', ''HOME'', ''DENO_DIR'', ''NO_COLOR''}"
proof -
  have env: "fst ` set (foldl (\<lambda>env (key, v). case v of Some x \<Rightarrow> if x \<noteq> [] then AList.update key x env else env | None \<Rightarrow> env) m kvs)
      \<subseteq> fst ` set m \<union> fst ` set kvs" for m :: "(string, string) jsmap" and kvs
  proof (induction kvs arbitrary: m)
    case (Cons e kvs)
    obtain k v where e: "e = (k, v)" by force
    let ?m = "case v of Some x \<Rightarrow> if x \<noteq> [] then AList.update k x m else m | None \<Rightarrow> m"
    have "fst ` set ?m \<subseteq> insert k (fst ` set m)" by (auto simp: dom_update split: option.splits)
    with Cons.IH [of ?m] have "fst ` set (foldl (\<lambda>env (key, v). case v of Some x \<Rightarrow> if x \<noteq> [] then AList.update key x env else env | None \<Rightarrow> env) ?m kvs)
        \<subseteq> insert k (fst ` set m) \<union> fst ` set kvs" by (rule order_trans [OF _ Un_mono [OF _ subset_refl]])
    then show ?case by (simp add: e)
  qed simp
  have "fst ` set (own_properties [(''DENO_DIR'', environ ''DENO_DIR''), (''NO_COLOR'', Some ''1'')]) \<subseteq> {''DENO_DIR'', ''NO_COLOR''}"
    by (auto simp: set_own_properties)
  then have "fst ` set (deno_env environ) \<subseteq> {''PATH'', ''HOME'', ''DENO_DIR'', ''NO_COLOR''}"
    unfolding deno_env_def minimalChildEnv_def by (intro subset_trans [OF env]) auto
  moreover have "list_all (\<lambda>h. CHR '':'' \<in> set h) (concat (map (expand_host p) hs))" for p hs
    by (induction hs) (auto simp: expand_host_def)
  ultimately show ?thesis using assms by (simp add: deno_args_def)
qed

theorem sandbox_confined_witness:
  "filter (prefix ''--allow'') (deno_args roomy_config (Some ''80'') ''/tmp/exec_a.ts'')
     = [''--allow-net=localhost:80,127.0.0.1:80'']"
proof -
  have "\<not> prefix ''--allow'' ''/tmp/exec_a.ts''" by simp
  from sandbox_confined [OF this, of roomy_config "Some ''80''" "\<lambda>k. None"]
  have "filter (prefix ''--allow'') (deno_args roomy_config (Some ''80'') ''/tmp/exec_a.ts'')
      = [''--allow-net='' @ join '','' (concat (map (expand_host (bridge_port (Some ''80''))) (allowedNetHosts roomy_config)))]" by (rule conjunct1)
  moreover have "join '','' (concat (map (expand_host (bridge_port (Some ''80''))) (allowedNetHosts roomy_config)))
      = ''localhost:80,127.0.0.1:80''"
  proof -
    have "bridge_port (Some ''80'') = 80" by (simp add: bridge_port_def digits_value_def)
    moreover have "show_nat 80 = ''80''" by code_simp
    ultimately show ?thesis by (simp add: roomy_config_def expand_host_def)
  qed
  ultimately show ?thesis by simp
qed

end
