(* ===== verification/Passthrough.thy ===== *)
theory Passthrough
  imports Registry HttpBridge JsText
begin

text \<open>
  Tools that the conductor registers in its own name, \<open>src/src/server/passthrough-registrar.ts\<close>: the names and
  annotations, the coercion of parameters to the types a schema declares, the registration of the catalog
  and the handler of such a tool. The SDK's \<open>registerTool\<close>, the hub, the comparison and the diagnostic text are
  parameters.
\<close>

subsection \<open>Numbers in texts\<close>

text \<open>A parameter value: JSON, or a number that no \<open>JNum\<close> is: \<open>Decimal m e\<close> is \<open>m * 10 ^ e\<close>, taken before it is
  rounded to a double, and no whole number. Numbers are exact: where a numeral has more digits than a double
  keeps, or is beyond its range, \<open>Number\<close> rounds it or gives an infinity, which is outside the model.\<close>

datatype js_value = Json json | Decimal int int | Infinite bool

definition number_of :: "int \<Rightarrow> int \<Rightarrow> js_value" where
  "number_of m e =
     (if 0 \<le> e then Json (JNum (m * 10 ^ nat e))
      else if m mod 10 ^ nat (- e) = 0 then Json (JNum (m div 10 ^ nat (- e)))
      else Decimal m e)"

definition exponent_of :: "string \<Rightarrow> int option" where
  "exponent_of r =
     (case r of
        [] \<Rightarrow> Some 0
      | c # s \<Rightarrow>
          (if c \<noteq> CHR ''e'' \<and> c \<noteq> CHR ''E'' then None
           else (let neg = (s \<noteq> [] \<and> hd s = CHR ''-'');
                     ds = (if s \<noteq> [] \<and> (hd s = CHR ''-'' \<or> hd s = CHR ''+'') then tl s else s)
                 in if ds = [] \<or> \<not> list_all is_digit ds then None
                    else Some (if neg then - int (digits_value ds) else int (digits_value ds)))))"

definition decimal_of :: "bool \<Rightarrow> string \<Rightarrow> js_value option" where
  "decimal_of neg s =
     (let ip = takeWhile is_digit s; r1 = dropWhile is_digit s;
          dot = (r1 \<noteq> [] \<and> hd r1 = CHR ''.'');
          fp = (if dot then takeWhile is_digit (tl r1) else []);
          r2 = (if dot then dropWhile is_digit (tl r1) else r1)
      in if ip = [] \<and> fp = [] then None
         else map_option (\<lambda>e. number_of ((if neg then - 1 else 1) * int (digits_value (ip @ fp))) (e - int (length fp)))
                (exponent_of r2))"

definition radix_digit :: "nat \<Rightarrow> char \<Rightarrow> nat option" where
  "radix_digit base c =
     (let n = (of_char (lower_char c) :: nat);
          d = (if is_digit c then n - 48 else if 97 \<le> n \<and> n \<le> 102 then n - 87 else base)
      in if d < base then Some d else None)"

definition radix_value :: "nat \<Rightarrow> string \<Rightarrow> js_value option" where
  "radix_value base ds =
     (if ds = [] \<or> list_ex (\<lambda>c. radix_digit base c = None) ds then None
      else Some (Json (JNum (int (foldl (\<lambda>n c. base * n + the (radix_digit base c)) 0 ds)))))"

definition signed_number :: "string \<Rightarrow> js_value option" where
  "signed_number s =
     (let neg = (s \<noteq> [] \<and> hd s = CHR ''-'');
          r = (if s \<noteq> [] \<and> (hd s = CHR ''-'' \<or> hd s = CHR ''+'') then tl s else s)
      in if r = ''Infinity'' then Some (Infinite neg) else decimal_of neg r)"

text \<open>\<open>Number(s)\<close>; \<open>None\<close> is \<open>NaN\<close>.\<close>

definition js_Number :: "string \<Rightarrow> js_value option" where
  "js_Number tx =
     (let s = HttpBridge.js_trim tx; base = map lower_char (take 2 s)
      in if s = [] then Some (Json (JNum 0))
         else if base = ''0x'' then radix_value 16 (drop 2 s)
         else if base = ''0o'' then radix_value 8 (drop 2 s)
         else if base = ''0b'' then radix_value 2 (drop 2 s)
         else signed_number s)"

subsection \<open>Coercion\<close>

text \<open>\<open>propSchema.type\<close>, or its first element; the outer \<open>None\<close> is the \<open>TypeError\<close> for \<open>null\<close>.\<close>

definition declared_type :: "json \<Rightarrow> json option option" where
  "declared_type propSchema =
     (if propSchema = JNull then None
      else Some (case js_field ''type'' propSchema of
                   Some (JArr tys) \<Rightarrow> (case tys of [] \<Rightarrow> None | t # _ \<Rightarrow> Some t)
                 | t \<Rightarrow> t))"

definition coerce_text :: "json option \<Rightarrow> string \<Rightarrow> js_value option" where
  "coerce_text t tx =
     (if t = Some (JStr ''number'') \<or> t = Some (JStr ''integer'') then js_Number tx
      else if t = Some (JStr ''boolean'')
      then (if tx = ''true'' then Some (Json (JBool True)) else if tx = ''false'' then Some (Json (JBool False)) else None)
      else None)"

definition coerce_entry :: "string \<Rightarrow> json \<Rightarrow> (string, js_value) jsmap \<Rightarrow> (string, js_value) jsmap option" where
  "coerce_entry key propSchema coerced =
     (case map_of coerced key of
        Some (Json (JStr tx)) \<Rightarrow>
          (case declared_type propSchema of
             None \<Rightarrow> None
           | Some t \<Rightarrow> (case coerce_text t tx of Some v \<Rightarrow> Some (AList.update key v coerced) | None \<Rightarrow> Some coerced))
      | _ \<Rightarrow> Some coerced)"

fun coerce_entries :: "(string \<times> json) list \<Rightarrow> (string, js_value) jsmap \<Rightarrow> (string, js_value) jsmap option" where
  "coerce_entries [] coerced = Some coerced"
| "coerce_entries ((key, propSchema) # es) coerced =
     (case coerce_entry key propSchema coerced of None \<Rightarrow> None | Some c \<Rightarrow> coerce_entries es c)"

definition coerceParamsToSchema :: "(string, js_value) jsmap \<Rightarrow> json \<Rightarrow> (string, js_value) jsmap option" where
  "coerceParamsToSchema params schema =
     (case js_field ''properties'' schema of
        None \<Rightarrow> Some params
      | Some properties \<Rightarrow> if \<not> js_truthy properties then Some params else coerce_entries (object_entries properties) params)"

subsection \<open>Names and annotations\<close>

definition name_char :: "char \<Rightarrow> bool" where
  "name_char c \<longleftrightarrow> is_alnum c \<or> c = CHR ''_'' \<or> c = CHR ''-''"

definition sanitiseSegment :: "string \<Rightarrow> string" where
  "sanitiseSegment s = map (\<lambda>c. if name_char c then c else CHR ''_'') s"

definition buildPassthroughToolName :: "string \<Rightarrow> string \<Rightarrow> string" where
  "buildPassthroughToolName server tool = sanitiseSegment server @ ''__'' @ sanitiseSegment tool"

record tool_annotations =
  readOnlyHint :: bool
  destructiveHint :: bool
  idempotentHint :: bool
  openWorldHint :: bool

definition destructive_prefixes :: "string list" where
  "destructive_prefixes =
     [''delete_'', ''remove_'', ''create_'', ''update_'', ''send_'', ''post_'', ''put_'', ''patch_'', ''drop_'', ''kill_'',
      ''terminate_'', ''revoke_'', ''destroy_'', ''set_'', ''activate_'', ''deactivate_'', ''enable_'', ''disable_'', ''cancel_'']"

definition inferAnnotationsFromName :: "string \<Rightarrow> tool_annotations" where
  "inferAnnotationsFromName toolName =
     (let name = js_lower toolName in
      if list_ex (\<lambda>p. prefix p name) destructive_prefixes
         \<or> list_ex (\<lambda>q. suffix q name) [''_delete'', ''_remove'', ''_destroy'']
      then \<lparr>readOnlyHint = False, destructiveHint = True, idempotentHint = False, openWorldHint = False\<rparr>
      else if list_ex (\<lambda>p. prefix p name) [''save_'', ''write_'', ''upload_'']
         \<or> list_ex (\<lambda>q. suffix q name) [''_save'', ''_write'', ''_upload'']
      then \<lparr>readOnlyHint = False, destructiveHint = False, idempotentHint = False, openWorldHint = False\<rparr>
      else \<lparr>readOnlyHint = True, destructiveHint = False, idempotentHint = True, openWorldHint = False\<rparr>)"

definition STATIC_TOOL_NAMES :: "string list" where
  "STATIC_TOOL_NAMES =
     [''execute_code'', ''list_servers'', ''discover_tools'', ''get_metrics'', ''set_mode'', ''reload_servers'',
      ''get_capabilities'', ''compare_modes'', ''set_compare_mode'', ''passthrough_call'', ''brave_web_search'',
      ''add_server'', ''remove_server'', ''update_server'', ''get_memory_stats'', ''predict_cost'', ''get_hot_paths'',
      ''record_session'', ''stop_recording'', ''replay_session'', ''import_servers_from_claude'', ''test_server'',
      ''diagnose_server'', ''recommend_routing'', ''export_to_claude'', ''set_diag_mode'']"

subsection \<open>Registration\<close>

record passthrough_tool =
  pt_server :: string
  pt_tool :: string
  pt_title :: string
  pt_description :: string
  pt_annotations :: tool_annotations
  pt_schema :: "(string \<times> bool) list"
  pt_inputSchema :: json

text \<open>The properties the SDK is told about, with whether each is required.\<close>

definition sdk_schema :: "json \<Rightarrow> (string \<times> bool) list" where
  "sdk_schema schema =
     (case js_field ''properties'' schema of
        None \<Rightarrow> []
      | Some ps \<Rightarrow>
          (if \<not> js_truthy ps then []
           else map (\<lambda>(k, v). (k, case js_field ''required'' schema of Some (JArr rs) \<Rightarrow> JStr k \<in> set rs | _ \<Rightarrow> False))
                  (object_entries ps)))"

definition passthrough_of :: "tool_definition \<Rightarrow> passthrough_tool" where
  "passthrough_of t =
     \<lparr>pt_server = td_server t, pt_tool = td_name t, pt_title = td_server t @ ''/'' @ td_name t,
      pt_description =
        (if description t = [] then ''Passthrough to '' @ td_server t @ ''.'' @ td_name t else description t),
      pt_annotations = inferAnnotationsFromName (td_name t), pt_schema = sdk_schema (inputSchema t),
      pt_inputSchema = inputSchema t\<rparr>"

text \<open>The loop over the catalog: what it returns (\<open>Inl\<close> when \<open>registerTool\<close> throws) and the SDK's state then.\<close>

fun register_tools ::
    "(string \<Rightarrow> passthrough_tool \<Rightarrow> 's \<Rightarrow> thrown + 's) \<Rightarrow> string list \<Rightarrow> tool_definition list \<Rightarrow> nat \<Rightarrow> 's \<Rightarrow> (thrown + nat) \<times> 's" where
  "register_tools registerTool exclude [] n sdk = (Inr n, sdk)"
| "register_tools registerTool exclude (t # tys) n sdk =
     (if routing t \<noteq> Some ''passthrough'' then register_tools registerTool exclude tys n sdk
      else
        (let composedName = buildPassthroughToolName (td_server t) (td_name t) in
         if composedName \<in> set STATIC_TOOL_NAMES \<or> composedName \<in> set exclude
         then register_tools registerTool exclude tys n sdk
         else (case registerTool composedName (passthrough_of t) sdk of
                 Inl e \<Rightarrow> (Inl e, sdk)
               | Inr sdk' \<Rightarrow> register_tools registerTool exclude tys (n + 1) sdk')))"

definition registerPassthroughTools ::
    "(string \<Rightarrow> passthrough_tool \<Rightarrow> 's \<Rightarrow> thrown + 's) \<Rightarrow> string list \<Rightarrow> registry \<Rightarrow> 's \<Rightarrow> (thrown + nat) \<times> 's" where
  "registerPassthroughTools registerTool exclude reg sdk = register_tools registerTool exclude (getAllTools reg) 0 sdk"

subsection \<open>The handler\<close>

record passthrough_response =
  pr_content :: "string list"
  pr_success :: bool
  pr_result :: json
  pr_compareStats :: "json option"

text \<open>\<open>compare\<close> is the hook when it is enabled, \<open>trailer\<close> the diagnostic text for the length of the result when the
  mode is not \<open>off\<close>. A hook that fails is logged.\<close>

definition passthrough_handler ::
    "(string \<Rightarrow> string \<Rightarrow> (string, js_value) jsmap \<Rightarrow> 'w \<Rightarrow> (thrown + json) \<times> 'w)
     \<Rightarrow> ((string, js_value) jsmap \<Rightarrow> nat \<Rightarrow> 'w \<Rightarrow> (thrown + json) \<times> 'w) option \<Rightarrow> (nat \<Rightarrow> string) option
     \<Rightarrow> passthrough_tool \<Rightarrow> (string, js_value) jsmap \<Rightarrow> 'w \<Rightarrow> (thrown + passthrough_response) \<times> 'w" where
  "passthrough_handler callTool compare trailer t params w =
     (case coerceParamsToSchema params (pt_inputSchema t) of
        None \<Rightarrow> (Inl (null_error ''type''), w)
      | Some forwardParams \<Rightarrow>
          (case callTool (pt_server t) (pt_tool t) forwardParams w of
             (Inl e, w1) \<Rightarrow> (Inl e, w1)
           | (Inr result, w1) \<Rightarrow>
               (let resultStr = (case result of JStr s \<Rightarrow> s | _ \<Rightarrow> json_stringify result);
                    (stats, w2) = (case compare of
                                     None \<Rightarrow> (None, w1)
                                   | Some c \<Rightarrow> (case c forwardParams (length resultStr) w1 of
                                                  (Inr v, w2) \<Rightarrow> (Some v, w2) | (Inl e, w2) \<Rightarrow> (None, w2)));
                    extra = (case trailer of Some f \<Rightarrow> if f (length resultStr) = [] then [] else [f (length resultStr)] | None \<Rightarrow> [])
                in (Inr \<lparr>pr_content = resultStr # extra, pr_success = True, pr_result = result, pr_compareStats = stats\<rparr>, w2))))"

subsection \<open>Types\<close>

definition schema_type :: "(string \<times> json) list \<Rightarrow> string \<Rightarrow> json option" where
  "schema_type es k = (case map_of es k of Some sch \<Rightarrow> nullish (declared_type sch) None | None \<Rightarrow> None)"

definition coerced_value :: "json option \<Rightarrow> js_value \<Rightarrow> js_value" where
  "coerced_value t v = (case v of Json (JStr tx) \<Rightarrow> nullish (coerce_text t tx) v | _ \<Rightarrow> v)"

definition is_number :: "js_value \<Rightarrow> bool" where
  "is_number v = (case v of Json (JNum n) \<Rightarrow> True | Json j \<Rightarrow> False | _ \<Rightarrow> True)"

definition of_type :: "json option \<Rightarrow> js_value \<Rightarrow> bool" where
  "of_type t v =
     (if t = Some (JStr ''number'') \<or> t = Some (JStr ''integer'') then is_number v
      else t = Some (JStr ''boolean'') \<and> v \<in> {Json (JBool True), Json (JBool False)})"

lemma number_is_number: "js_Number tx = Some v \<Longrightarrow> is_number v"
  by (auto simp: js_Number_def Let_def radix_value_def signed_number_def decimal_of_def number_of_def is_number_def split: if_splits)

lemma coerce_text_type: "coerce_text t tx = Some v \<Longrightarrow> of_type t v"
  by (auto simp: coerce_text_def of_type_def number_is_number split: if_splits)

lemma of_type_no_text: "of_type t v \<Longrightarrow> v \<noteq> Json (JStr tx)"
  by (auto simp: of_type_def is_number_def split: if_splits)

lemma update_keys: "k \<in> fst ` set m \<Longrightarrow> map fst (AList.update k v m) = map fst m"
  by (induction m) auto

lemma coerce_entry_value:
  assumes "coerce_entry k sch c = Some c'"
  shows "map fst c' = map fst c
     \<and> map_of c' = (map_of c)(k := map_option (coerced_value (nullish (declared_type sch) None)) (map_of c k))
     \<and> (\<forall>tx. map_of c k = Some (Json (JStr tx)) \<longrightarrow> declared_type sch \<noteq> None)"
proof (cases "\<exists>tx. map_of c k = Some (Json (JStr tx))")
  case True
  then obtain tx where tx: "map_of c k = Some (Json (JStr tx))" by blast
  then obtain t where t: "declared_type sch = Some t" using assms by (auto simp: coerce_entry_def split: option.splits)
  have k: "k \<in> fst ` set c" using tx by (metis map_of_eq_None_iff option.distinct(1))
  show ?thesis
  proof (cases "coerce_text t tx")
    case None
    then show ?thesis using assms tx t by (auto simp: coerce_entry_def coerced_value_def nullish_def)
  next
    case (Some v)
    then have "c' = AList.update k v c" using assms tx t by (simp add: coerce_entry_def)
    then show ?thesis using tx t Some update_keys [OF k, of v]
      by (auto simp: coerced_value_def nullish_def fun_eq_iff)
  qed
next
  case False
  then have "c' = c" using assms by (auto simp: coerce_entry_def split: option.splits js_value.splits json.splits)
  moreover have "map_option (coerced_value t) (map_of c k) = map_of c k" for t
    using False by (cases "map_of c k") (auto simp: coerced_value_def split: js_value.splits json.splits)
  ultimately show ?thesis using False by auto
qed

lemma coerce_entries_value:
  "coerce_entries es c = Some out \<Longrightarrow> distinct (map fst es) \<Longrightarrow>
   map fst out = map fst c
   \<and> (\<forall>k. map_of out k = map_option (coerced_value (schema_type es k)) (map_of c k))
   \<and> (\<forall>k sch tx. (k, sch) \<in> set es \<and> map_of c k = Some (Json (JStr tx)) \<longrightarrow> declared_type sch \<noteq> None)"
proof (induction es arbitrary: c)
  case Nil
  have "coerced_value None v = v" for v by (simp add: coerced_value_def coerce_text_def nullish_def split: js_value.splits json.splits)
  then show ?case using Nil by (auto simp: schema_type_def option.map_ident)
next
  case (Cons e es)
  obtain k0 sch0 where e: "e = (k0, sch0)" by force
  obtain c1 where c1: "coerce_entry k0 sch0 c = Some c1" "coerce_entries es c1 = Some out"
    using Cons.prems(1) e by (auto split: option.splits)
  note one = coerce_entry_value [OF c1(1)]
  note rest = Cons.IH [OF c1(2)]
  have fresh: "k0 \<notin> fst ` set es" using Cons.prems(2) e by simp
  then have "schema_type es k0 = None" by (simp add: schema_type_def map_of_eq_None_iff [symmetric])
  moreover have "coerced_value None v = v" for v by (simp add: coerced_value_def coerce_text_def nullish_def split: js_value.splits json.splits)
  ultimately have "map_of out k = map_option (coerced_value (schema_type (e # es) k)) (map_of c k)" for k
    using one rest Cons.prems(2) e by (cases "k = k0") (auto simp: schema_type_def option.map_comp comp_def option.map_ident)
  moreover have "map fst out = map fst c" using one rest Cons.prems(2) by auto
  moreover have "declared_type sch \<noteq> None" if "(k, sch) \<in> set (e # es)" "map_of c k = Some (Json (JStr tx))" for k sch tx
  proof (cases "(k, sch) = e")
    case True
    then show ?thesis using one that e by auto
  next
    case False
    then have "(k, sch) \<in> set es" "k \<noteq> k0" using that fresh by force+
    then have "map_of c1 k = Some (Json (JStr tx))" using one that(2) by simp
    moreover have "\<forall>k sch tx. (k, sch) \<in> set es \<and> map_of c1 k = Some (Json (JStr tx)) \<longrightarrow> declared_type sch \<noteq> None"
      using rest Cons.prems(2) by simp
    ultimately show ?thesis using \<open>(k, sch) \<in> set es\<close> by blast
  qed
  ultimately show ?case by blast
qed

lemma coerce_entries_stable:
  "(\<And>k sch tx. (k, sch) \<in> set es \<Longrightarrow> map_of c k = Some (Json (JStr tx)) \<Longrightarrow>
      \<exists>t. declared_type sch = Some t \<and> coerce_text t tx = None) \<Longrightarrow> coerce_entries es c = Some c"
proof (induction es)
  case (Cons e es)
  obtain k sch where e: "e = (k, sch)" by force
  have "coerce_entry k sch c = Some c"
  proof (cases "\<exists>tx. map_of c k = Some (Json (JStr tx))")
    case True
    then show ?thesis using Cons.prems [of k sch] e by (auto simp: coerce_entry_def)
  qed (auto simp: coerce_entry_def split: option.splits js_value.splits json.splits)
  then show ?case using Cons e by auto
qed simp

lemma coerce_entries_total:
  "list_all (\<lambda>(k, sch). sch \<noteq> JNull) es \<Longrightarrow> \<exists>out. coerce_entries es c = Some out"
proof (induction es arbitrary: c)
  case (Cons e es)
  obtain k sch where e: "e = (k, sch)" "sch \<noteq> JNull" using Cons.prems by (cases e) auto
  then have "\<exists>c1. coerce_entry k sch c = Some c1"
    by (simp add: coerce_entry_def declared_type_def split: option.split js_value.split json.split)
  then show ?case using Cons e(1) by auto
qed simp

text \<open>C32: Parameters are coerced by the declared type of their key, the first one when a list of types is declared,
  and only when they are texts. A text for a \<open>number\<close> or an \<open>integer\<close> becomes what \<open>Number\<close> makes of it, a number,
  for an \<open>integer\<close> also a fraction, unless that is \<open>NaN\<close>; the texts \<open>true\<close> and \<open>false\<close> become the values of a
  \<open>boolean\<close>; every other text and every other value stays as it is. The keys are kept, in order,
  and coercing again changes nothing. No property of the schema may be \<open>null\<close>.\<close>

theorem coercion_types:
  assumes "js_field ''properties'' schema = Some (JObj ps)" "distinct (map fst ps)" "list_all (\<lambda>(k, sch). sch \<noteq> JNull) ps"
  shows "\<exists>out. coerceParamsToSchema params schema = Some out
    \<and> map fst out = map fst params
    \<and> (\<forall>k v. map_of params k = Some v \<longrightarrow>
         (let t = schema_type (own_properties ps) k in
          case v of
            Json (JStr tx) \<Rightarrow>
              (if t = Some (JStr ''number'') \<or> t = Some (JStr ''integer'')
               then (case js_Number tx of
                       Some x \<Rightarrow> map_of out k = Some x \<and> is_number x
                     | None \<Rightarrow> map_of out k = Some v)
               else if t = Some (JStr ''boolean'') \<and> tx = ''true'' then map_of out k = Some (Json (JBool True))
               else if t = Some (JStr ''boolean'') \<and> tx = ''false'' then map_of out k = Some (Json (JBool False))
               else map_of out k = Some v)
          | _ \<Rightarrow> map_of out k = Some v))
    \<and> coerceParamsToSchema out schema = Some out"
proof -
  let ?es = "own_properties ps"
  have c: "coerceParamsToSchema q schema = coerce_entries ?es q" for q
    by (simp add: coerceParamsToSchema_def assms(1))
  have d: "distinct (map fst ?es)" using assms(2) by (rule distinct_own)
  have "list_all (\<lambda>(k, sch). sch \<noteq> JNull) ?es" using assms(3) by (auto simp: list_all_iff set_own_properties)
  then obtain out where co: "coerce_entries ?es params = Some out" using coerce_entries_total by blast
  note V = coerce_entries_value [OF co d]
  have out: "map_of out k = map_option (coerced_value (schema_type ?es k)) (map_of params k)" for k using V by blast
  have "coerce_entries ?es out = Some out"
  proof (rule coerce_entries_stable)
    fix k sch tx assume e: "(k, sch) \<in> set ?es" and tx: "map_of out k = Some (Json (JStr tx))"
    have st: "schema_type ?es k = nullish (declared_type sch) None" using e d by (simp add: schema_type_def)
    obtain v where v: "map_of params k = Some v" "coerced_value (schema_type ?es k) v = Json (JStr tx)" using tx out by auto
    have same: "v = Json (JStr tx) \<and> coerce_text (schema_type ?es k) tx = None"
      using v(2) coerce_text_type of_type_no_text
      by (fastforce simp: coerced_value_def nullish_def split: js_value.splits json.splits option.splits)
    then have "declared_type sch \<noteq> None" using V e v(1) by blast
    then show "\<exists>t. declared_type sch = Some t \<and> coerce_text t tx = None"
      using same st by (auto simp: nullish_def)
  qed
  moreover have "let t = schema_type ?es k in
      case v of
        Json (JStr tx) \<Rightarrow>
          (if t = Some (JStr ''number'') \<or> t = Some (JStr ''integer'')
           then (case js_Number tx of
                   Some x \<Rightarrow> map_of out k = Some x \<and> is_number x
                 | None \<Rightarrow> map_of out k = Some v)
           else if t = Some (JStr ''boolean'') \<and> tx = ''true'' then map_of out k = Some (Json (JBool True))
           else if t = Some (JStr ''boolean'') \<and> tx = ''false'' then map_of out k = Some (Json (JBool False))
           else map_of out k = Some v)
      | _ \<Rightarrow> map_of out k = Some v" if "map_of params k = Some v" for k v
    using that number_is_number
    by (auto simp: out coerced_value_def coerce_text_def nullish_def Let_def split: js_value.splits json.splits option.splits)
  ultimately show ?thesis using V co unfolding c by blast
qed

definition demo_schema :: json where
  "demo_schema = JObj [(''properties'', JObj [(''count'', JObj [(''type'', JStr ''integer'')]),
     (''fresh'', JObj [(''type'', JStr ''boolean'')]), (''q'', JObj [(''type'', JStr ''string'')])])]"

theorem coercion_types_witness:
  "\<exists>out. coerceParamsToSchema [(''q'', Json (JStr ''5'')), (''count'', Json (JStr '' 5'')), (''fresh'', Json (JStr ''true''))] demo_schema = Some out
     \<and> map_of out ''q'' = Some (Json (JStr ''5'')) \<and> map_of out ''count'' = Some (Json (JNum 5))
     \<and> map_of out ''fresh'' = Some (Json (JBool True))"
proof -
  let ?ps = "[(''count'', JObj [(''type'', JStr ''integer'')]), (''fresh'', JObj [(''type'', JStr ''boolean'')]),
     (''q'', JObj [(''type'', JStr ''string'')])]"
  let ?in = "[(''q'', Json (JStr ''5'')), (''count'', Json (JStr '' 5'')), (''fresh'', Json (JStr ''true''))]"
  have f: "js_field ''properties'' demo_schema = Some (JObj ?ps)" by (simp add: demo_schema_def js_field_def)
  have d: "distinct (map fst ?ps)" "list_all (\<lambda>(k, sch). sch \<noteq> JNull) ?ps" by simp_all
  have t: "schema_type (own_properties ?ps) ''q'' = Some (JStr ''string'')"
    "schema_type (own_properties ?ps) ''count'' = Some (JStr ''integer'')"
    "schema_type (own_properties ?ps) ''fresh'' = Some (JStr ''boolean'')" by code_simp+
  have n: "js_Number '' 5'' = Some (Json (JNum 5))" by code_simp
  obtain out where o: "coerceParamsToSchema ?in demo_schema = Some out"
    "\<And>k v. map_of ?in k = Some v \<Longrightarrow>
         (let t = schema_type (own_properties ?ps) k in
          case v of
            Json (JStr tx) \<Rightarrow>
              (if t = Some (JStr ''number'') \<or> t = Some (JStr ''integer'')
               then (case js_Number tx of
                       Some x \<Rightarrow> map_of out k = Some x \<and> is_number x
                     | None \<Rightarrow> map_of out k = Some v)
               else if t = Some (JStr ''boolean'') \<and> tx = ''true'' then map_of out k = Some (Json (JBool True))
               else if t = Some (JStr ''boolean'') \<and> tx = ''false'' then map_of out k = Some (Json (JBool False))
               else map_of out k = Some v)
          | _ \<Rightarrow> map_of out k = Some v)"
    using coercion_types [OF f d, of ?in] by blast
  show ?thesis
    using o(1) o(2) [of "''q''" "Json (JStr ''5'')"] o(2) [of "''count''" "Json (JStr '' 5'')"] o(2) [of "''fresh''" "Json (JStr ''true'')"] t n
    by (simp add: Let_def)
qed

text \<open>A whole number that was printed is read back as this number.\<close>

lemma trim_plain:
  assumes "s \<noteq> []" "\<not> is_space (hd s)" "\<not> is_space (last s)"
  shows "HttpBridge.js_trim s = s"
proof -
  have "dropWhile is_space s = s" using assms(1,2) by (cases s) auto
  moreover have "dropWhile is_space (rev s) = rev s" using assms(1,3) by (cases s rule: rev_cases) auto
  ultimately show ?thesis by (simp add: HttpBridge.js_trim_def)
qed

lemma digit_no_space: "is_digit c \<Longrightarrow> \<not> is_space c"
  by (auto simp: is_digit_def is_space_def char_in_def)

lemma decimal_of_digits: "ds \<noteq> [] \<Longrightarrow> list_all is_digit ds \<Longrightarrow>
   decimal_of neg ds = Some (Json (JNum ((if neg then - 1 else 1) * int (digits_value ds))))"
  by (simp add: decimal_of_def takeWhile_eq_all_conv [THEN iffD2] dropWhile_eq_Nil_conv [THEN iffD2] list_all_iff
      exponent_of_def number_of_def)

lemma lower_digit: "is_digit c \<Longrightarrow> lower_char c \<noteq> CHR ''x'' \<and> lower_char c \<noteq> CHR ''o'' \<and> lower_char c \<noteq> CHR ''b''"
  by (auto simp: is_digit_def lower_char_def split: if_splits)

lemma Number_of_digits:
  assumes "list_all is_digit ds" "ds \<noteq> []"
  shows "js_Number ds = Some (Json (JNum (int (digits_value ds))))"
    and "js_Number (CHR ''-'' # ds) = Some (Json (JNum (- int (digits_value ds))))"
proof -
  have sp: "\<not> is_space (hd ds)" "\<not> is_space (last ds)"
    using assms digit_no_space by (auto simp: list_all_iff)
  have minus: "\<not> is_space (CHR ''-'')" by (simp add: is_space_def char_in_def)
  have sign: "hd ds \<noteq> CHR ''-''" "hd ds \<noteq> CHR ''+''" "ds \<noteq> ''Infinity''"
    using assms by (cases ds; auto simp: list_all_iff is_digit_def)+
  have base: "map lower_char (take 2 ds) \<noteq> ''0x''" "map lower_char (take 2 ds) \<noteq> ''0o''" "map lower_char (take 2 ds) \<noteq> ''0b''"
    using assms lower_digit by (cases ds; cases "tl ds"; fastforce)+
  show "js_Number ds = Some (Json (JNum (int (digits_value ds))))"
    using trim_plain [OF assms(2) sp] base sign assms
    by (simp add: js_Number_def signed_number_def decimal_of_digits Let_def)
  have "HttpBridge.js_trim (CHR ''-'' # ds) = CHR ''-'' # ds"
    by (rule trim_plain) (use sp minus assms(2) in auto)
  moreover have "lower_char (CHR ''-'') \<noteq> CHR ''0''" by (simp add: lower_char_def)
  ultimately show "js_Number (CHR ''-'' # ds) = Some (Json (JNum (- int (digits_value ds))))"
    using sign assms by (simp add: js_Number_def signed_number_def decimal_of_digits Let_def)
qed

lemma Number_of_printed: "js_Number (show_int n) = Some (Json (JNum n))"
proof -
  have d: "list_all is_digit (show_nat m)" "show_nat m \<noteq> []" "digits_value (show_nat m) = m" for m
    using show_nat_digits [of m] digits_value_show [of m] by (auto simp: show_nat.simps [of m])
  show ?thesis using Number_of_digits [OF d(1,2)] d(3) by (simp add: show_int_def)
qed

text \<open>An empty text, or one of white space, counts as zero; and what is declared an integer may become a fraction.\<close>

lemma empty_text_becomes_zero:
  "coerceParamsToSchema [(''count'', Json (JStr [])), (''fresh'', Json (JStr ''yes''))] demo_schema
     = Some [(''count'', Json (JNum 0)), (''fresh'', Json (JStr ''yes''))]"
  by code_simp

lemma integer_may_be_fraction:
  "coerceParamsToSchema [(''count'', Json (JStr ''2.5e0''))] demo_schema = Some [(''count'', Decimal 25 (- 1))]"
  by code_simp

subsection \<open>The registered names\<close>

lemma sanitised_chars: "list_all name_char (sanitiseSegment s)"
  by (auto simp: sanitiseSegment_def list_all_iff name_char_def)

lemma composed_chars: "list_all name_char (buildPassthroughToolName server tool)"
  using sanitised_chars by (simp add: buildPassthroughToolName_def name_char_def)

lemma composed_has_separator: "js_includes (buildPassthroughToolName server tool) ''__''"
  unfolding buildPassthroughToolName_def js_includes_iff by blast

text \<open>The guard against built-in names never applies: every composed name has the separator, no built-in name has it.\<close>

lemma composed_not_static: "buildPassthroughToolName server tool \<notin> set STATIC_TOOL_NAMES"
proof -
  have "list_all (\<lambda>n. \<not> js_includes n ''__'') STATIC_TOOL_NAMES" by code_simp
  then show ?thesis using composed_has_separator [of server tool] by (auto simp: list_all_iff)
qed

text \<open>Two tools of two servers may have one composed name.\<close>

lemma composed_names_collide:
  "buildPassthroughToolName ''a_'' ''b'' = buildPassthroughToolName ''a'' ''_b''
   \<and> buildPassthroughToolName ''my server'' ''x'' = buildPassthroughToolName ''my.server'' ''x''"
  by code_simp

definition selected_tools :: "string list \<Rightarrow> tool_definition list \<Rightarrow> tool_definition list" where
  "selected_tools exclude tools =
     filter (\<lambda>t. routing t = Some ''passthrough'' \<and> buildPassthroughToolName (td_server t) (td_name t) \<notin> set exclude) tools"

definition composed_name :: "tool_definition \<Rightarrow> string" where
  "composed_name t = buildPassthroughToolName (td_server t) (td_name t)"

text \<open>What the SDK documents of \<open>registerTool\<close>: a name that is taken is refused, any other is taken then.\<close>

definition sdk_registers :: "(string \<Rightarrow> passthrough_tool \<Rightarrow> 's \<Rightarrow> thrown + 's) \<Rightarrow> ('s \<Rightarrow> string set) \<Rightarrow> bool" where
  "sdk_registers registerTool names \<longleftrightarrow>
     (\<forall>name t sdk. (case registerTool name t sdk of
        Inl e \<Rightarrow> name \<in> names sdk
      | Inr sdk' \<Rightarrow> name \<notin> names sdk \<and> names sdk' = insert name (names sdk)))"

lemma register_outcome:
  assumes "sdk_registers registerTool names"
  shows "case register_tools registerTool exclude tools n sdk of
      (Inr m, sdk') \<Rightarrow> m = n + length (selected_tools exclude tools)
         \<and> distinct (map composed_name (selected_tools exclude tools))
         \<and> set (map composed_name (selected_tools exclude tools)) \<inter> names sdk = {}
         \<and> names sdk' = names sdk \<union> set (map composed_name (selected_tools exclude tools))
    | (Inl e, sdk') \<Rightarrow> \<not> (distinct (map composed_name (selected_tools exclude tools))
         \<and> set (map composed_name (selected_tools exclude tools)) \<inter> names sdk = {})"
proof (induction tools arbitrary: n sdk)
  case (Cons t tools)
  show ?case
  proof (cases "routing t = Some ''passthrough'' \<and> composed_name t \<notin> set exclude")
    case False
    then have same: "register_tools registerTool exclude (t # tools) n sdk = register_tools registerTool exclude tools n sdk"
      "selected_tools exclude (t # tools) = selected_tools exclude tools"
      by (auto simp: selected_tools_def composed_name_def Let_def)
    show ?thesis unfolding same by (rule Cons.IH)
  next
    case True
    note step = composed_not_static [of "td_server t" "td_name t"]
    have sdk: "case registerTool (composed_name t) (passthrough_of t) sdk of
        Inl e \<Rightarrow> composed_name t \<in> names sdk
      | Inr sdk' \<Rightarrow> composed_name t \<notin> names sdk \<and> names sdk' = insert (composed_name t) (names sdk)"
      using assms unfolding sdk_registers_def by blast
    have sel: "selected_tools exclude (t # tools) = t # selected_tools exclude tools"
      using True by (simp add: selected_tools_def composed_name_def)
    show ?thesis
    proof (cases "registerTool (composed_name t) (passthrough_of t) sdk")
      case (Inl e)
      then have "register_tools registerTool exclude (t # tools) n sdk = (Inl e, sdk)" "composed_name t \<in> names sdk"
        using True step sdk by (simp_all add: composed_name_def Let_def)
      then show ?thesis unfolding sel by simp
    next
      case (Inr sdk1)
      then have i: "composed_name t \<notin> names sdk" "names sdk1 = insert (composed_name t) (names sdk)"
        using sdk by simp_all
      have same: "register_tools registerTool exclude (t # tools) n sdk = register_tools registerTool exclude tools (n + 1) sdk1"
        using True Inr step by (simp add: composed_name_def Let_def)
      obtain r sdk2 where r: "register_tools registerTool exclude tools (n + 1) sdk1 = (r, sdk2)" by force
      show ?thesis unfolding same sel r using Cons.IH [where n = "n + 1" and sdk = sdk1, unfolded r] i by (cases r) auto
    qed
  qed
qed (simp add: selected_tools_def)

text \<open>The catalog is registered, or not at all in full. Registration returns the number of the tools that are routed
  to passthrough and not excluded, with each of their names registered and no other, exactly when the composed
  names are distinct and none is taken; every composed name is one the protocol allows.\<close>

theorem registration_complete:
  assumes "sdk_registers registerTool names"
  shows "case registerPassthroughTools registerTool exclude reg sdk of
      (Inr m, sdk') \<Rightarrow> m = length (selected_tools exclude (getAllTools reg))
         \<and> distinct (map composed_name (selected_tools exclude (getAllTools reg)))
         \<and> set (map composed_name (selected_tools exclude (getAllTools reg))) \<inter> names sdk = {}
         \<and> names sdk' = names sdk \<union> set (map composed_name (selected_tools exclude (getAllTools reg)))
         \<and> list_all (\<lambda>n. list_all name_char n) (map composed_name (selected_tools exclude (getAllTools reg)))
    | (Inl e, sdk') \<Rightarrow> \<not> (distinct (map composed_name (selected_tools exclude (getAllTools reg)))
         \<and> set (map composed_name (selected_tools exclude (getAllTools reg))) \<inter> names sdk = {})"
  using register_outcome [OF assms, where exclude = exclude and tools = "getAllTools reg" and n = 0 and sdk = sdk] composed_chars
  by (auto simp: registerPassthroughTools_def list_all_iff composed_name_def split: sum.splits prod.splits)

definition demo_register :: "string \<Rightarrow> passthrough_tool \<Rightarrow> string list \<Rightarrow> thrown + string list" where
  "demo_register name t sdk = (if name \<in> set sdk then Inl (PlainError ''taken'' None) else Inr (name # sdk))"

definition demo_tool :: "string \<Rightarrow> string \<Rightarrow> tool_definition" where
  "demo_tool server name =
     \<lparr>td_server = server, td_name = name, description = [], inputSchema = JObj [], outputSchema = None, td_cost = None,
      cacheable = None, cacheTtl = None, reliability = None, routing = Some ''passthrough'', redact = None, examples = None\<rparr>"

definition demo_catalog :: registry where
  "demo_catalog = load_tool (load_tool (new_registry None) (demo_tool ''a_'' ''b'')) (demo_tool ''a'' ''_b'')"

theorem registration_complete_witness:
  "isl (fst (registerPassthroughTools demo_register [] demo_catalog []))"
proof -
  have reg: "sdk_registers demo_register set" by (simp add: sdk_registers_def demo_register_def)
  have names: "map composed_name (selected_tools [] (getAllTools demo_catalog)) = [''a___b'', ''a___b'']" by code_simp
  obtain r sdk where r: "registerPassthroughTools demo_register [] demo_catalog [] = (r, sdk)" by force
  show ?thesis
    using registration_complete [OF reg, where exclude = "[]" and reg = demo_catalog and sdk = "[]", unfolded r names]
    by (cases r) (simp_all add: r)
qed

text \<open>An annotation says at most one of two things: a tool that may destroy is neither read-only nor idempotent.\<close>

lemma annotations_consistent:
  "destructiveHint (inferAnnotationsFromName n) \<longrightarrow>
     \<not> readOnlyHint (inferAnnotationsFromName n) \<and> \<not> idempotentHint (inferAnnotationsFromName n)"
  by (simp add: inferAnnotationsFromName_def Let_def)

text \<open>Names that are written in camel case are taken for safe.\<close>

lemma camel_case_is_safe: "readOnlyHint (inferAnnotationsFromName ''deleteRepository'')"
  by code_simp

text \<open>The handler calls the hub with the coerced parameters, and a failing comparison does not change the answer.\<close>

lemma handler_answer:
  assumes "coerceParamsToSchema params (pt_inputSchema t) = Some q"
    and "callTool (pt_server t) (pt_tool t) q w = (Inr result, w1)"
  shows "\<exists>r w2. passthrough_handler callTool compare trailer t params w = (Inr r, w2) \<and> pr_result r = result
     \<and> hd (pr_content r) = (case result of JStr s \<Rightarrow> s | _ \<Rightarrow> json_stringify result)"
  using assms by (auto simp: passthrough_handler_def Let_def split: option.splits prod.splits sum.splits)

end
