(* ===== verification/ServerAdmin.thy ===== *)
theory ServerAdmin
  imports Hub
begin

text \<open>
  Administration of the servers: the conductor's own configuration file (\<open>src/src/config/loader.ts\<close>), the tools
  \<open>add_server\<close>, \<open>remove_server\<close> and \<open>update_server\<close> of \<open>src/src/server/mcp-server.ts\<close> and the reload of the hub
  (\<open>MCPHub.reload\<close> of \<open>src/src/hub/mcp-hub.ts\<close>) that follows them. A file is what reading and parsing it gives.
  The object \<open>DEFAULT_CONDUCTOR_CONFIG\<close>, which is handed out for a file that does not parse, is shared
  by all who get it: \<open>ad_default\<close> is its present value. Names that every object inherits are outside the model.
\<close>

subsection \<open>The configuration file\<close>

datatype conductor_file =
    Unreadable
  | Malformed
  | LacksServers bool
  | Holds conductor_config

record admin =
  ad_env_path :: "string option"
  ad_home :: string
  ad_files :: "(string, conductor_file) jsmap"
  ad_default :: conductor_config

definition DEFAULT_CONDUCTOR_CONFIG :: conductor_config where
  "DEFAULT_CONDUCTOR_CONFIG = \<lparr>exclusive = True, conductor_servers = []\<rparr>"

definition getDefaultConductorConfigPath :: "admin \<Rightarrow> string" where
  "getDefaultConductorConfigPath a = ad_home a @ ''/.mcp-conductor.json''"

definition getConductorConfigPaths :: "admin \<Rightarrow> string list" where
  "getConductorConfigPaths a = [ad_home a @ ''/.mcp-conductor.json'', ad_home a @ ''/.claude/mcp-conductor.json'']"

definition findConductorConfig :: "admin \<Rightarrow> string option" where
  "findConductorConfig a =
     (case ad_env_path a of
        Some p \<Rightarrow>
          if p \<noteq> [] \<and> js_has (ad_files a) p then Some p else List.find (js_has (ad_files a)) (getConductorConfigPaths a)
      | None \<Rightarrow> List.find (js_has (ad_files a)) (getConductorConfigPaths a))"

text \<open>What the caller of \<open>loadConductorConfig\<close> holds: nothing, an object of its own (\<open>None\<close> is a file without
  \<open>servers\<close>), or the shared default.\<close>

datatype loaded_config = NoConfig | Own "bool" "(string, server_config) jsmap option" | SharedDefault

definition loadConductorConfig :: "admin \<Rightarrow> loaded_config" where
  "loadConductorConfig a =
     (case findConductorConfig a of
        None \<Rightarrow> NoConfig
      | Some p \<Rightarrow>
          (case map_of (ad_files a) p of
             None \<Rightarrow> NoConfig
           | Some Unreadable \<Rightarrow> NoConfig
           | Some Malformed \<Rightarrow> SharedDefault
           | Some (LacksServers x) \<Rightarrow> Own x None
           | Some (Holds c) \<Rightarrow> Own (exclusive c) (Some (conductor_servers c))))"

text \<open>The value that was loaded, as the hub reads it.\<close>

definition hub_view :: "admin \<Rightarrow> conductor_config option" where
  "hub_view a =
     (case loadConductorConfig a of
        NoConfig \<Rightarrow> None
      | Own x servers \<Rightarrow> Some \<lparr>exclusive = x, conductor_servers = nullish servers []\<rparr>
      | SharedDefault \<Rightarrow> Some (ad_default a))"

text \<open>\<open>err\<close> is what creating the directory or writing throws, if anything.\<close>

definition saveConductorConfig :: "string option \<Rightarrow> conductor_config \<Rightarrow> admin \<Rightarrow> (string option) \<times> admin" where
  "saveConductorConfig err c a =
     (case err of
        Some e \<Rightarrow> (Some e, a)
      | None \<Rightarrow> (None, a\<lparr>ad_files := AList.update (getDefaultConductorConfigPath a) (Holds c) (ad_files a)\<rparr>))"

subsection \<open>Reloading the hub\<close>

datatype reload_action = Disconnect string | Connect string server_config

text \<open>What \<open>reload\<close> does to connections with the given configurations, in order: \<open>conns\<close> are the names and current
  configurations of the connections.\<close>

definition same_config :: "server_config \<Rightarrow> server_config \<Rightarrow> bool" where
  "same_config c d \<longleftrightarrow>
     cmd c = cmd d \<and> nullish (cmd_args c) [] = nullish (cmd_args d) [] \<and> nullish (cmd_env c) [] = nullish (cmd_env d) []
     \<and> cfg_rateLimit c = cfg_rateLimit d"

definition reconnect_actions ::
    "(string, server_config) jsmap \<Rightarrow> (string, server_config) jsmap \<Rightarrow> string \<Rightarrow> reload_action list" where
  "reconnect_actions conns S n =
     (case (map_of conns n, map_of S n) of
        (Some old, Some new) \<Rightarrow> if same_config old new then [] else [Disconnect n, Connect n new]
      | _ \<Rightarrow> [])"

definition hub_reload ::
    "hub_config \<Rightarrow> (string, server_config) jsmap \<Rightarrow> (string, server_config) jsmap
     \<Rightarrow> (string list \<times> string list) \<times> reload_action list" where
  "hub_reload conf serverMap conns =
     (let current = js_keys conns in
      if serverMap = [] \<and> current = [] then (([], []), [])
      else
        (let newNames = filterServers conf (js_keys serverMap);
             added = reload_added conf serverMap current;
             removed = reload_removed conf serverMap current;
             existing = filter (\<lambda>n. n \<in> set current) newNames
         in ((added, removed),
             map Disconnect removed
             @ List.map_filter (\<lambda>n. map_option (Connect n) (map_of serverMap n)) added
             @ concat (map (reconnect_actions conns serverMap) existing))))"

fun apply_action :: "(string, server_config) jsmap \<Rightarrow> reload_action \<Rightarrow> (string, server_config) jsmap" where
  "apply_action conns (Disconnect n) = AList.delete n conns"
| "apply_action conns (Connect n c) = AList.update n c conns"

text \<open>\<open>MCPExecutorServer.reloadServers\<close>: the connections, and the names that were added and removed.\<close>

record hub_link =
  hl_mock :: bool
  hl_config :: hub_config
  hl_claude :: "claude_config option"
  hl_conns :: "(string, server_config) jsmap"

definition reloadServers :: "admin \<Rightarrow> hub_link \<Rightarrow> (string list \<times> string list) \<times> hub_link" where
  "reloadServers a l =
     (if hl_mock l then (([], []), l)
      else (let (report, actions) = hub_reload (hl_config l) (discoverServers (hub_view a) (hl_claude l)) (hl_conns l)
            in (report, l\<lparr>hl_conns := foldl apply_action (hl_conns l) actions\<rparr>)))"

subsection \<open>The tools\<close>

record admin_answer =
  aa_success :: bool
  aa_name :: string
  aa_path :: string
  aa_message :: string
  aa_servers_after :: int
  aa_updated :: "string list"

definition refusal :: "admin \<Rightarrow> string \<Rightarrow> string \<Rightarrow> int \<Rightarrow> admin_answer" where
  "refusal a name message n =
     \<lparr>aa_success = False, aa_name = name, aa_path = getDefaultConductorConfigPath a, aa_message = message,
      aa_servers_after = n, aa_updated = []\<rparr>"

definition acceptance :: "admin \<Rightarrow> string \<Rightarrow> string \<Rightarrow> int \<Rightarrow> string list \<Rightarrow> admin_answer" where
  "acceptance a name message n updated =
     \<lparr>aa_success = True, aa_name = name, aa_path = getDefaultConductorConfigPath a, aa_message = message,
      aa_servers_after = n, aa_updated = updated\<rparr>"

definition quoted :: "string \<Rightarrow> string" where
  "quoted name = [CHR 0x27] @ name @ [CHR 0x27]"

definition no_servers_error :: "string \<Rightarrow> string" where
  "no_servers_error name =
     ''TypeError: Cannot read properties of undefined (reading '' @ quoted name @ '')''"

text \<open>The object with changed servers, where it is shared.\<close>

definition keep_shared :: "loaded_config \<Rightarrow> conductor_config \<Rightarrow> admin \<Rightarrow> admin" where
  "keep_shared loaded c a = (if loaded = SharedDefault then a\<lparr>ad_default := c\<rparr> else a)"

text \<open>The configuration a server is added to; \<open>None\<close> if it has no \<open>servers\<close>.\<close>

definition config_to_extend :: "admin \<Rightarrow> conductor_config option" where
  "config_to_extend a =
     (case loadConductorConfig a of
        NoConfig \<Rightarrow> Some \<lparr>exclusive = False, conductor_servers = []\<rparr>
      | Own x servers \<Rightarrow> map_option (\<lambda>ss. \<lparr>exclusive = x, conductor_servers = ss\<rparr>) servers
      | SharedDefault \<Rightarrow> Some (ad_default a))"

definition add_server ::
    "string option \<Rightarrow> string \<Rightarrow> string \<Rightarrow> string list option \<Rightarrow> (string, string) jsmap option
     \<Rightarrow> admin \<times> hub_link \<Rightarrow> admin_answer \<times> admin \<times> hub_link" where
  "add_server err name command args env al =
     (let (a, l) = al; loaded = loadConductorConfig a
      in case config_to_extend a of
           None \<Rightarrow> (refusal a name (''Error adding server: '' @ no_servers_error name) 0, a, l)
         | Some c \<Rightarrow>
             (if js_has (conductor_servers c) name
              then (refusal a name (''Server '' @ quoted name @ '' already exists. Use remove_server first to replace it.'')
                      (int (length (conductor_servers c))), a, l)
              else
                (let server = \<lparr>cmd = command, cmd_args = Some (nullish args []), cmd_env = Some (nullish env []), cfg_rateLimit = None\<rparr>;
                     c1 = c\<lparr>conductor_servers := AList.update name server (conductor_servers c)\<rparr>;
                     (failed, a1) = saveConductorConfig err c1 (keep_shared loaded c1 a)
                 in case failed of
                      Some e \<Rightarrow> (refusal a name (''Failed to save config: '' @ e) (int (length (conductor_servers c1)) - 1), a1, l)
                    | None \<Rightarrow>
                        (let ((added, removed), l1) = reloadServers a1 l
                         in (acceptance a name (''Server '' @ quoted name @ '' added successfully. ''
                               @ (if name \<in> set added then ''Connected.'' else ''Will connect on next initialisation.''))
                               (int (length (conductor_servers c1))) [], a1, l1)))))"

definition remove_server ::
    "string option \<Rightarrow> string \<Rightarrow> admin \<times> hub_link \<Rightarrow> admin_answer \<times> admin \<times> hub_link" where
  "remove_server err name al =
     (let (a, l) = al; loaded = loadConductorConfig a in
      case loaded of
        NoConfig \<Rightarrow> (refusal a name ''No conductor config found. Nothing to remove.'' 0, a, l)
      | Own x None \<Rightarrow> (refusal a name (''Error removing server: '' @ no_servers_error name) 0, a, l)
      | _ \<Rightarrow>
          (let c = the (hub_view a) in
           if \<not> js_has (conductor_servers c) name
           then (refusal a name (''Server '' @ quoted name @ '' not found in conductor config.'')
                   (int (length (conductor_servers c))), a, l)
           else
             (let c1 = c\<lparr>conductor_servers := AList.delete name (conductor_servers c)\<rparr>;
                  (failed, a1) = saveConductorConfig err c1 (keep_shared loaded c1 a)
              in case failed of
                   Some e \<Rightarrow> (refusal a name (''Failed to save config: '' @ e) (int (length (conductor_servers c1)) + 1), a1, l)
                 | None \<Rightarrow>
                     (let ((added, removed), l1) = reloadServers a1 l
                      in (acceptance a name (''Server '' @ quoted name @ '' removed successfully. ''
                            @ (if name \<in> set removed then ''Disconnected.'' else ''Will be removed on next initialisation.''))
                            (int (length (conductor_servers c1))) [], a1, l1)))))"

text \<open>\<open>{ ...old, ...new }\<close>.\<close>

definition merge_env :: "(string, string) jsmap option \<Rightarrow> (string, string) jsmap \<Rightarrow> (string, string) jsmap" where
  "merge_env old new = foldl (\<lambda>m (k, v). AList.update k v m) (nullish old []) new"

definition updated_server ::
    "string option \<Rightarrow> string list option \<Rightarrow> (string, string) jsmap option \<Rightarrow> bool \<Rightarrow> server_config \<Rightarrow> server_config \<times> string list" where
  "updated_server command args env replace_env c =
     (let c1 = (case command of Some x \<Rightarrow> c\<lparr>cmd := x\<rparr> | None \<Rightarrow> c);
          c2 = (case args of Some x \<Rightarrow> c1\<lparr>cmd_args := Some x\<rparr> | None \<Rightarrow> c1);
          c3 = (case env of
                  Some e \<Rightarrow> c2\<lparr>cmd_env := Some (if replace_env then e else merge_env (cmd_env c2) e)\<rparr>
                | None \<Rightarrow> c2)
      in (c3, (case command of Some x \<Rightarrow> [''command''] | None \<Rightarrow> [])
              @ (case args of Some x \<Rightarrow> [''args''] | None \<Rightarrow> [])
              @ (case env of
                   Some e \<Rightarrow> [if replace_env then ''env (replaced)'' else ''env (merged: '' @ join '', '' (js_keys e) @ '')'']
                 | None \<Rightarrow> [])))"

definition update_server ::
    "string option \<Rightarrow> string \<Rightarrow> string option \<Rightarrow> string list option \<Rightarrow> (string, string) jsmap option \<Rightarrow> bool
     \<Rightarrow> admin \<times> hub_link \<Rightarrow> admin_answer \<times> admin \<times> hub_link" where
  "update_server err name command args env replace_env al =
     (let (a, l) = al; loaded = loadConductorConfig a in
      case loaded of
        NoConfig \<Rightarrow> (refusal a name ''No conductor config found.'' 0, a, l)
      | Own x None \<Rightarrow> (refusal a name (''Error updating server: '' @ no_servers_error name) 0, a, l)
      | _ \<Rightarrow>
          (let c = the (hub_view a) in
           case map_of (conductor_servers c) name of
             None \<Rightarrow> (refusal a name (''Server '' @ quoted name @ '' not found. Use add_server to create it first.'') 0, a, l)
           | Some old \<Rightarrow>
               (let (new, updated) = updated_server command args env replace_env old;
                    c1 = c\<lparr>conductor_servers := AList.update name new (conductor_servers c)\<rparr>
                in if updated = [] then (refusal a name ''No fields to update. Provide command, args, or env.'' 0, a, l)
                   else
                     (let (failed, a1) = saveConductorConfig err c1 (keep_shared loaded c1 a)
                      in case failed of
                           Some e \<Rightarrow> (refusal a name (''Failed to save config: '' @ e) 0, a1, l)
                         | None \<Rightarrow>
                             (acceptance a name (''Server '' @ quoted name @ '' updated successfully. Changes applied.'') 0 updated,
                              a1, snd (reloadServers a1 l))))))"

subsection \<open>A reload reaches the configuration\<close>

lemma after_disconnects: "map_of (foldl apply_action m (map Disconnect rs)) n = (if n \<in> set rs then None else map_of m n)"
  by (induction rs arbitrary: m) auto

lemma after_connects:
  "map_of (foldl apply_action m (List.map_filter (\<lambda>n. map_option (Connect n) (map_of S n)) ad)) n
     = (if n \<in> set ad \<and> map_of S n \<noteq> None then map_of S n else map_of m n)"
proof (induction ad arbitrary: m)
  case (Cons x ad)
  then show ?case by (cases "map_of S x") (auto simp: List.map_filter_simps)
qed (simp add: List.map_filter_simps)

definition needs_reconnect :: "(string, server_config) jsmap \<Rightarrow> (string, server_config) jsmap \<Rightarrow> string \<Rightarrow> bool" where
  "needs_reconnect conns S n \<longleftrightarrow>
     (case (map_of conns n, map_of S n) of (Some old, Some new) \<Rightarrow> \<not> same_config old new | _ \<Rightarrow> False)"

lemma after_reconnects:
  "map_of (foldl apply_action m (concat (map (reconnect_actions conns S) ex))) n
     = (if n \<in> set ex \<and> needs_reconnect conns S n then map_of S n else map_of m n)"
proof (induction ex arbitrary: m)
  case (Cons x ex)
  have "map_of (foldl apply_action m (reconnect_actions conns S x)) n
      = (if n = x \<and> needs_reconnect conns S x then map_of S n else map_of m n)"
    by (auto simp: reconnect_actions_def needs_reconnect_def split: option.splits)
  then show ?case using Cons.IH [of "foldl apply_action m (reconnect_actions conns S x)"] by auto
qed simp

lemma same_server_refl [simp]: "same_config c c"
  by (simp add: same_config_def)

lemma filterServers_in: "n \<in> set (filterServers conf ns) \<Longrightarrow> n \<in> set ns"
  by (simp add: filterServers_def)

lemma reload_result:
  assumes "hub_reload conf S conns = (report, actions)"
  shows "map_of (foldl apply_action conns actions) n
     = (if n \<notin> set (filterServers conf (js_keys S)) then None
        else if map_of conns n = None \<or> needs_reconnect conns S n then map_of S n else map_of conns n)"
proof (cases "S = [] \<and> js_keys conns = []")
  case True
  then show ?thesis using assms by (auto simp: hub_reload_def filterServers_def js_keys_def)
next
  case False
  let ?new = "filterServers conf (js_keys S)"
  let ?removed = "reload_removed conf S (js_keys conns)" and ?added = "reload_added conf S (js_keys conns)"
  let ?m1 = "foldl apply_action conns (map Disconnect ?removed)"
  let ?m2 = "foldl apply_action ?m1 (List.map_filter (\<lambda>n. map_option (Connect n) (map_of S n)) ?added)"
  have actions: "actions = map Disconnect ?removed
      @ List.map_filter (\<lambda>n. map_option (Connect n) (map_of S n)) ?added
      @ concat (map (reconnect_actions conns S) (filter (\<lambda>n. n \<in> set (js_keys conns)) ?new))"
    using assms False by (auto simp: hub_reload_def Let_def)
  have keys: "n \<in> set (js_keys m) \<longleftrightarrow> map_of m n \<noteq> None" for m :: "(string, server_config) jsmap"
    by (simp add: js_keys_def map_of_eq_None_iff)
  have "map_of (foldl apply_action conns actions) n
      = (if n \<in> set ?new \<and> map_of conns n \<noteq> None \<and> needs_reconnect conns S n then map_of S n else map_of ?m2 n)"
    unfolding actions by (simp add: after_reconnects keys)
  moreover have "map_of ?m2 n = (if n \<in> set ?new \<and> map_of conns n = None \<and> map_of S n \<noteq> None then map_of S n else map_of ?m1 n)"
    unfolding after_connects reload_added_def by (simp add: keys)
  moreover have "map_of ?m1 n = (if map_of conns n \<noteq> None \<and> n \<notin> set ?new then None else map_of conns n)"
    unfolding after_disconnects reload_removed_def by (simp add: keys)
  moreover have "n \<in> set ?new \<Longrightarrow> map_of S n \<noteq> None" using filterServers_in keys by blast
  ultimately show ?thesis by auto
qed

text \<open>C33: A reload reaches the configuration. Afterwards a server has a connection exactly when it is configured and let
  through by the lists, and the connection has the configuration of the file; a second reload does nothing.\<close>

theorem reload_reaches_configuration:
  assumes "hub_reload conf S conns = (report, actions)" "conns' = foldl apply_action conns actions"
  shows "(n \<notin> set (filterServers conf (js_keys S)) \<longrightarrow> map_of conns' n = None)
    \<and> (n \<in> set (filterServers conf (js_keys S)) \<longrightarrow>
         (\<exists>c d. map_of conns' n = Some c \<and> map_of S n = Some d \<and> same_config c d))
    \<and> hub_reload conf S conns' = (([], []), [])"
proof -
  have res: "map_of conns' k = (if k \<notin> set (filterServers conf (js_keys S)) then None
        else if map_of conns k = None \<or> needs_reconnect conns S k then map_of S k else map_of conns k)" for k
    unfolding assms(2) by (rule reload_result [OF assms(1)])
  have keys: "k \<in> set (js_keys m) \<longleftrightarrow> map_of m k \<noteq> None" for k and m :: "(string, server_config) jsmap"
    by (simp add: js_keys_def map_of_eq_None_iff)
  have reached: "\<exists>c d. map_of conns' k = Some c \<and> map_of S k = Some d \<and> same_config c d"
    if k: "k \<in> set (filterServers conf (js_keys S))" for k
  proof -
    obtain d where d: "map_of S k = Some d" using filterServers_in [OF k] keys by blast
    show ?thesis using res [of k] k d by (auto simp: needs_reconnect_def split: option.splits if_splits)
  qed
  have "reload_added conf S (js_keys conns') = []"
    using reached keys by (fastforce simp: reload_added_def filter_empty_conv)
  moreover have "reload_removed conf S (js_keys conns') = []"
    using res keys by (auto simp: reload_removed_def filter_empty_conv split: if_splits)
  moreover have "reconnect_actions conns' S k = []" if "k \<in> set (filterServers conf (js_keys S))" for k
    using reached [OF that] by (auto simp: reconnect_actions_def)
  ultimately have "hub_reload conf S conns' = (([], []), [])"
    by (auto simp: hub_reload_def Let_def List.map_filter_simps)
  moreover have "n \<notin> set (filterServers conf (js_keys S)) \<longrightarrow> map_of conns' n = None" using res [of n] by simp
  ultimately show ?thesis using reached by blast
qed

definition demo_server :: "string \<Rightarrow> server_config" where
  "demo_server command = \<lparr>cmd = command, cmd_args = Some [], cmd_env = Some [], cfg_rateLimit = None\<rparr>"

theorem reload_reaches_configuration_witness:
  "hub_reload DEFAULT_HUB_CONFIG [(''b'', demo_server ''y''), (''c'', demo_server ''z'')]
     (foldl apply_action [(''a'', demo_server ''x''), (''b'', demo_server ''x'')]
       (snd (hub_reload DEFAULT_HUB_CONFIG [(''b'', demo_server ''y''), (''c'', demo_server ''z'')]
          [(''a'', demo_server ''x''), (''b'', demo_server ''x'')])))
   = (([], []), [])"
  using reload_reaches_configuration [OF prod.collapse [symmetric] refl, where conf = DEFAULT_HUB_CONFIG
      and S = "[(''b'', demo_server ''y''), (''c'', demo_server ''z'')]" and conns = "[(''a'', demo_server ''x''), (''b'', demo_server ''x'')]"]
  by blast

subsection \<open>An added server is configured\<close>

lemma default_path_listed: "getDefaultConductorConfigPath a \<in> set (getConductorConfigPaths a)"
  by (simp add: getDefaultConductorConfigPath_def getConductorConfigPaths_def)

lemma find_after_save:
  assumes "findConductorConfig a \<in> {None, Some (getDefaultConductorConfigPath a)}"
  shows "findConductorConfig (a\<lparr>ad_files := AList.update (getDefaultConductorConfigPath a) f (ad_files a)\<rparr>)
     = Some (getDefaultConductorConfigPath a)"
  using assms
  by (auto simp: findConductorConfig_def getDefaultConductorConfigPath_def getConductorConfigPaths_def
      split: option.splits if_splits)

lemma view_after_save:
  assumes "findConductorConfig a \<in> {None, Some (getDefaultConductorConfigPath a)}"
  shows "hub_view (snd (saveConductorConfig None c (keep_shared loaded d a))) = Some c"
proof -
  let ?a = "keep_shared loaded d a"
  have "findConductorConfig ?a = findConductorConfig a" "getDefaultConductorConfigPath ?a = getDefaultConductorConfigPath a"
    by (auto simp: keep_shared_def findConductorConfig_def getDefaultConductorConfigPath_def getConductorConfigPaths_def
        split: option.splits)
  then have "findConductorConfig (?a\<lparr>ad_files := AList.update (getDefaultConductorConfigPath ?a) (Holds c) (ad_files ?a)\<rparr>)
      = Some (getDefaultConductorConfigPath ?a)" using find_after_save [of ?a "Holds c"] assms by simp
  then show ?thesis
    by (simp add: saveConductorConfig_def hub_view_def loadConductorConfig_def nullish_def)
qed

definition servers_of :: "conductor_config option \<Rightarrow> (string, server_config) jsmap" where
  "servers_of c = (case c of Some cc \<Rightarrow> conductor_servers cc | None \<Rightarrow> [])"

definition added_server :: "string \<Rightarrow> string list option \<Rightarrow> (string, string) jsmap option \<Rightarrow> server_config" where
  "added_server command args env =
     \<lparr>cmd = command, cmd_args = Some (nullish args []), cmd_env = Some (nullish env []), cfg_rateLimit = None\<rparr>"

lemma add_server_accepted:
  assumes "findConductorConfig a \<in> {None, Some (getDefaultConductorConfigPath a)}"
    and "config_to_extend a \<noteq> None"
    and "map_of (servers_of (hub_view a)) name = None"
    and "add_server None name command args env (a, l) = (ans, a', l')"
  shows "aa_success ans \<and> (\<exists>c. hub_view a' = Some c
       \<and> conductor_servers c = AList.update name (added_server command args env) (servers_of (hub_view a)))
     \<and> l' = snd (reloadServers a' l)"
proof -
  obtain c where "config_to_extend a = Some c" using assms(2) by blast
  then have c: "config_to_extend a = Some c" "conductor_servers c = servers_of (hub_view a)"
    by (auto simp: config_to_extend_def hub_view_def servers_of_def nullish_def split: loaded_config.splits)
  let ?c = "c\<lparr>conductor_servers := AList.update name (added_server command args env) (conductor_servers c)\<rparr>"
  have new: "\<not> js_has (conductor_servers c) name" using assms(3) c(2) by (simp add: js_has_def)
  obtain a1 where save: "saveConductorConfig None ?c (keep_shared (loadConductorConfig a) ?c a) = (None, a1)"
    by (simp add: saveConductorConfig_def)
  obtain added removed l1 where l1: "reloadServers a1 l = ((added, removed), l1)" by (metis prod.collapse)
  have "add_server None name command args env (a, l)
      = (acceptance a name (''Server '' @ quoted name @ '' added successfully. ''
           @ (if name \<in> set added then ''Connected.'' else ''Will connect on next initialisation.''))
           (int (length (conductor_servers ?c))) [], a1, l1)"
    using new save l1 unfolding add_server_def added_server_def [symmetric] by (simp add: c(1) Let_def)
  then have "ans = acceptance a name (''Server '' @ quoted name @ '' added successfully. ''
           @ (if name \<in> set added then ''Connected.'' else ''Will connect on next initialisation.''))
           (int (length (conductor_servers ?c))) []" "a' = a1" "l' = l1"
    using assms(4) by simp_all
  moreover have "hub_view a1 = Some ?c" using view_after_save [OF assms(1), of ?c "loadConductorConfig a" ?c] save by simp
  ultimately show ?thesis using c(2) l1 by (simp add: acceptance_def)
qed

lemma claude_keeps: "map_of m n = Some c \<Longrightarrow> map_of (add_claude_servers claude m) n = Some c"
proof -
  have "map_of m n = Some c \<Longrightarrow> map_of (foldl (\<lambda>m (n, c). if js_has m n then m else AList.update n c m) m es) n = Some c" for es
  proof (induction es arbitrary: m)
    case (Cons e es)
    obtain k d where e: "e = (k, d)" by force
    have "map_of (if js_has m k then m else AList.update k d m) n = Some c" using Cons.prems by (auto simp: js_has_def)
    then show ?case using Cons.IH [of "if js_has m k then m else AList.update k d m"] e by simp
  qed simp
  then show "map_of m n = Some c \<Longrightarrow> ?thesis" by (simp add: add_claude_servers_def split: option.splits)
qed

lemma configured_is_discovered:
  assumes "map_of (conductor_servers c) n = Some s"
  shows "map_of (discoverServers (Some c) claude) n = Some s"
proof -
  have "conductor_servers c \<noteq> []" using assms by auto
  then show ?thesis using assms claude_keeps by (simp add: discoverServers_def)
qed

lemma filterServers_alone: "n \<in> set (filterServers conf ns) \<longleftrightarrow> n \<in> set ns \<and> n \<in> set (filterServers conf [n])"
  by (auto simp: filterServers_def)

text \<open>An added server is configured and connected. When the configuration that is loaded is the one that is written
  (the file in the home directory, or none yet) and has no server of the name, \<open>add_server\<close> succeeds; the
  configuration that is loaded then has the server and is otherwise unchanged, and unless the servers are mocked
  or the lists keep it out, the hub has a connection with this configuration.\<close>

theorem added_server_is_configured:
  assumes "findConductorConfig a \<in> {None, Some (getDefaultConductorConfigPath a)}" "config_to_extend a \<noteq> None"
    and "map_of (servers_of (hub_view a)) name = None"
    and "add_server None name command args env (a, l) = (ans, a', l')"
  shows "aa_success ans
     \<and> (\<forall>n. map_of (servers_of (hub_view a')) n =
           (if n = name then Some (added_server command args env) else map_of (servers_of (hub_view a)) n))
     \<and> (\<not> hl_mock l \<and> name \<in> set (filterServers (hl_config l) [name]) \<longrightarrow>
          (\<exists>c. map_of (hl_conns l') name = Some c \<and> same_config c (added_server command args env)))"
proof -
  let ?s = "added_server command args env"
  obtain c where ok: "aa_success ans" "hub_view a' = Some c" "conductor_servers c = AList.update name ?s (servers_of (hub_view a))"
    "l' = snd (reloadServers a' l)" using add_server_accepted [OF assms] by blast
  have "\<exists>c. map_of (hl_conns l') name = Some c \<and> same_config c ?s"
    if live: "\<not> hl_mock l" "name \<in> set (filterServers (hl_config l) [name])"
  proof -
    let ?S = "discoverServers (hub_view a') (hl_claude l)"
    have S: "map_of ?S name = Some ?s" using configured_is_discovered [of c name ?s] ok(2,3) by simp
    then have "name \<in> set (js_keys ?S)" by (metis js_keys_def map_of_eq_None_iff option.distinct(1) set_map)
    then have f: "name \<in> set (filterServers (hl_config l) (js_keys ?S))" using filterServers_alone live(2) by blast
    obtain report actions where r: "hub_reload (hl_config l) ?S (hl_conns l) = (report, actions)" by (rule prod.exhaust)
    have "hl_conns l' = foldl apply_action (hl_conns l) actions" using ok(4) live(1) r by (simp add: reloadServers_def)
    then show ?thesis using reload_result [OF r, of name] f S
      by (auto simp: needs_reconnect_def split: option.splits if_splits)
  qed
  then show ?thesis using ok(1-3) by (simp add: servers_of_def)
qed

definition demo_admin :: admin where
  "demo_admin = \<lparr>ad_env_path = None, ad_home = ''/h'', ad_files = [], ad_default = DEFAULT_CONDUCTOR_CONFIG\<rparr>"

definition demo_link :: hub_link where
  "demo_link = \<lparr>hl_mock = False, hl_config = DEFAULT_HUB_CONFIG, hl_claude = None, hl_conns = []\<rparr>"

theorem added_server_is_configured_witness:
  "aa_success (fst (add_server None ''git'' ''npx'' None None (demo_admin, demo_link)))"
proof -
  obtain ans a' l' where r: "add_server None ''git'' ''npx'' None None (demo_admin, demo_link) = (ans, a', l')"
    by (rule prod_cases3)
  have f: "findConductorConfig demo_admin \<in> {None, Some (getDefaultConductorConfigPath demo_admin)}"
    and c: "config_to_extend demo_admin \<noteq> None" and n: "map_of (servers_of (hub_view demo_admin)) ''git'' = None"
    by (simp_all add: findConductorConfig_def config_to_extend_def loadConductorConfig_def hub_view_def servers_of_def
        demo_admin_def getConductorConfigPaths_def js_has_def)
  from added_server_is_configured [OF f c n r] show ?thesis by (simp add: r)
qed

text \<open>Where the configuration is read from another file than the one that is written, the server is lost although the
  tool reports success: the file is found by the variable, and stays as it was.\<close>

lemma added_server_is_lost:
  assumes "ad_env_path a = Some p" "p \<noteq> []" "p \<noteq> getDefaultConductorConfigPath a" "map_of (ad_files a) p = Some (Holds c)"
    and "map_of (conductor_servers c) name = None"
    and "add_server None name command args env (a, l) = (ans, a', l')"
  shows "aa_success ans \<and> hub_view a' = hub_view a"
proof -
  have found: "findConductorConfig a = Some p" using assms(1,2,4) by (simp add: findConductorConfig_def js_has_def)
  then have load: "loadConductorConfig a = Own (exclusive c) (Some (conductor_servers c))"
    using assms(4) by (simp add: loadConductorConfig_def)
  let ?c = "c\<lparr>conductor_servers := AList.update name (added_server command args env) (conductor_servers c)\<rparr>"
  have c: "config_to_extend a = Some c" using load by (simp add: config_to_extend_def)
  have a': "a' = a\<lparr>ad_files := AList.update (getDefaultConductorConfigPath a) (Holds ?c) (ad_files a)\<rparr>" and s: "aa_success ans"
    using assms(5,6) c load
    by (auto simp: add_server_def Let_def js_has_def keep_shared_def saveConductorConfig_def acceptance_def added_server_def
        split: prod.splits)
  have "findConductorConfig a' = Some p" using assms(1-4) a' by (simp add: findConductorConfig_def js_has_def)
  then have "loadConductorConfig a' = loadConductorConfig a" using assms(3,4) a' load by (simp add: loadConductorConfig_def)
  then show ?thesis using s load by (simp add: hub_view_def)
qed

text \<open>A server named like the conductor itself is configured and reported, but never connected.\<close>

lemma own_name_is_never_connected:
  assumes "\<not> hl_mock l"
  shows "map_of (hl_conns (snd (reloadServers a l))) ''mcp-conductor'' = None"
proof -
  let ?S = "discoverServers (hub_view a) (hl_claude l)"
  obtain report actions where r: "hub_reload (hl_config l) ?S (hl_conns l) = (report, actions)" by (rule prod.exhaust)
  have "''mcp-conductor'' \<notin> set (filterServers (hl_config l) (js_keys ?S))" by (simp add: filterServers_def)
  then show ?thesis using reload_result [OF r, of "''mcp-conductor''"] assms r by (simp add: reloadServers_def)
qed

text \<open>Removing the last server of an exclusive configuration ends the exclusive mode: the hub then connects to every
  server of Claude's own configuration.\<close>

definition last_server_link :: hub_link where
  "last_server_link = demo_link\<lparr>hl_claude := Some (Some [(''private'', demo_server ''p'')]), hl_conns := [(''git'', demo_server ''g'')]\<rparr>"

definition last_server_admin :: admin where
  "last_server_admin =
     demo_admin\<lparr>ad_files := [(''/h/.mcp-conductor.json'', Holds \<lparr>exclusive = True, conductor_servers = [(''git'', demo_server ''g'')]\<rparr>)]\<rparr>"

lemma removing_last_server_connects_others:
  "hl_conns (snd (snd (remove_server None ''git'' (last_server_admin, last_server_link)))) = [(''private'', demo_server ''p'')]"
  by code_simp

text \<open>A file that does not parse is taken for the default and overwritten; the default itself is changed by it, for
  everyone who is given it later.\<close>

lemma malformed_file_is_overwritten:
  assumes "findConductorConfig a = Some (getDefaultConductorConfigPath a)"
    and "map_of (ad_files a) (getDefaultConductorConfigPath a) = Some Malformed"
    and "map_of (conductor_servers (ad_default a)) name = None"
    and "add_server None name command args env (a, l) = (ans, a', l')"
  shows "map_of (ad_files a') (getDefaultConductorConfigPath a) = Some (Holds (ad_default a'))
    \<and> map_of (conductor_servers (ad_default a')) name = Some (added_server command args env)"
proof -
  have load: "loadConductorConfig a = SharedDefault" "config_to_extend a = Some (ad_default a)"
    using assms(1,2) by (simp_all add: loadConductorConfig_def config_to_extend_def)
  have path: "getDefaultConductorConfigPath (a\<lparr>ad_default := c\<rparr>) = getDefaultConductorConfigPath a" for c
    by (simp add: getDefaultConductorConfigPath_def)
  show ?thesis using assms(3,4) load
    by (auto simp: add_server_def Let_def js_has_def keep_shared_def saveConductorConfig_def added_server_def path split: prod.splits)
qed

end
