(* ===== verification/Catalog.thy ===== *)
theory Catalog
  imports HttpBridge JsText
begin

text \<open>
  The catalog of the backend servers, \<open>src/src/server/catalog.ts\<close>: the summary of one server from the names of its tools,
  the instructions of the handshake within a budget of tokens, the detailed lists, and what
  \<open>src/src/server/mcp-server.ts\<close> builds of them. The dash of the texts (U+2014) is one character that stands for it.
\<close>

subsection \<open>Verbs\<close>

definition em_dash :: string where
  "em_dash = [CHR '' '', CHR 0x97, CHR '' '']"

definition VERB_PREFIXES :: "string list" where
  "VERB_PREFIXES =
     [''calculate_'', ''preview_'', ''create_'', ''delete_'', ''remove_'', ''update_'', ''search_'', ''filter_'', ''stream_'',
      ''cancel_'', ''submit_'', ''export_'', ''import_'', ''upload_'', ''download_'', ''fetch_'', ''query_'', ''place_'', ''send_'',
      ''list_'', ''find_'', ''scan_'', ''get_'', ''set_'', ''run_'', ''add_'']"

definition WRITE_VERBS :: "string list" where
  "WRITE_VERBS =
     [''create'', ''delete'', ''remove'', ''update'', ''place'', ''send'', ''submit'', ''add'', ''upload'', ''import'']"

definition READ_VERBS :: "string list" where
  "READ_VERBS =
     [''get'', ''list'', ''find'', ''search'', ''fetch'', ''query'', ''scan'', ''stream'', ''filter'', ''download'', ''export'']"

definition extractVerb :: "string \<Rightarrow> string" where
  "extractVerb toolName =
     (case List.find (\<lambda>p. prefix p (js_lower toolName)) VERB_PREFIXES of
        Some p \<Rightarrow> butlast p
      | None \<Rightarrow> [])"

definition stripVerb :: "string \<Rightarrow> string" where
  "stripVerb toolName =
     (case List.find (\<lambda>p. prefix p (js_lower toolName)) VERB_PREFIXES of
        Some p \<Rightarrow> drop (length p) toolName
      | None \<Rightarrow> toolName)"

definition humanize :: "string \<Rightarrow> string" where
  "humanize name =
     js_trim (rx_replace (rx_plus (RSet is_space)) '' '' (map (\<lambda>c. if c = CHR ''_'' then CHR '' '' else c) name))"

text \<open>\<open>reduce\<close> to the shorter of two names, the first of equals.\<close>

definition shortest :: "string list \<Rightarrow> string" where
  "shortest ns = foldl (\<lambda>a b. if length a \<le> length b then a else b) (hd ns) (tl ns)"

definition first_word :: "string \<Rightarrow> string" where
  "first_word n = hd (split_on (CHR ''_'') n)"

definition word_groups :: "string list \<Rightarrow> (string, string list) jsmap" where
  "word_groups stripped =
     foldl (\<lambda>m n. let w = first_word n in if w = [] then m else AList.update w (nullish (map_of m w) [] @ [n]) m) [] stripped"

definition extractDomainNouns :: "string list \<Rightarrow> string list" where
  "extractDomainNouns toolNames =
     filter (\<lambda>n. 0 < length n)
       (take 3 (sort_key length (map (\<lambda>(w, names). humanize (shortest names)) (word_groups (map stripVerb toolNames)))))"

definition estimateTokens :: "string \<Rightarrow> nat" where
  "estimateTokens tx = (length tx + 3) div 4"

subsection \<open>The summary of a server\<close>

datatype catalog_status = CsConnected | CsConnecting | CsFailed

record catalog_entry =
  ce_name :: string
  ce_toolCount :: nat
  ce_summary :: string
  ce_topTools :: "string list"
  ce_status :: catalog_status

text \<open>The loop that clusters names by verb: the clusters and the names without verb.\<close>

definition cluster_step ::
    "(string, string list) jsmap \<times> string list \<Rightarrow> string \<Rightarrow> (string, string list) jsmap \<times> string list" where
  "cluster_step acc t =
     (let (clusters, verbless) = acc; verb = extractVerb t
      in if verb \<noteq> [] then (AList.update verb (nullish (map_of clusters verb) [] @ [t]) clusters, verbless)
         else (clusters, verbless @ [t]))"

definition clusters_of :: "string list \<Rightarrow> (string, string list) jsmap \<times> string list" where
  "clusters_of names = foldl cluster_step ([], []) names"

definition sortedClusters :: "(string, string list) jsmap \<Rightarrow> (string \<times> string list) list" where
  "sortedClusters clusters = sort_key (\<lambda>c. - int (length (snd c))) clusters"

definition noun_phrase :: "(string \<times> string list) list \<Rightarrow> string" where
  "noun_phrase sorted_clusters =
     (let nouns = concat (map (\<lambda>c. extractDomainNouns (snd c)) (take 3 sorted_clusters));
          phrases = foldl (\<lambda>ps n. if n \<in> set ps then ps else ps @ [n]) [] nouns;
          phrase = join '', '' (take 4 phrases)
      in if phrase = [] then ''various capabilities'' else phrase)"

definition verb_count :: "string list \<Rightarrow> (string, string list) jsmap \<Rightarrow> nat" where
  "verb_count verbs clusters = sum_list (map (\<lambda>(v, ns). if v \<in> set verbs then length ns else 0) clusters)"

definition verb_profile :: "(string, string list) jsmap \<Rightarrow> string" where
  "verb_profile clusters =
     (let readCount = verb_count READ_VERBS clusters; writeCount = verb_count WRITE_VERBS clusters
      in if readCount = 0 \<and> writeCount = 0 then ''mixed operations''
         else if writeCount = 0 \<or> readCount > 4 * max writeCount 1 then ''read-heavy''
         else if readCount = 0 \<or> writeCount > 4 * max readCount 1 then ''write-heavy''
         else (let previewCount = length (nullish (map_of clusters ''preview'') []);
                   calcCount = length (nullish (map_of clusters ''calculate'') [])
               in if previewCount > 0 \<and> writeCount > 0 then ''read-heavy + order preview''
                  else if 3 * calcCount > readCount then ''read + calculate''
                  else ''read + write''))"

text \<open>The three passes that choose the top tools.\<close>

fun pick_best :: "(string \<times> string list) list \<Rightarrow> string list \<Rightarrow> string list \<Rightarrow> string list" where
  "pick_best [] used chosen = chosen"
| "pick_best ((verb, names) # cs) used chosen =
     (if 5 \<le> length chosen then chosen
      else if verb \<in> set used then pick_best cs used chosen
      else pick_best cs (used @ [verb]) (chosen @ [shortest names]))"

fun fill_up :: "string list \<Rightarrow> string list \<Rightarrow> string list" where
  "fill_up [] chosen = chosen"
| "fill_up (t # ns) chosen =
     (if 5 \<le> length chosen then chosen else fill_up ns (if t \<in> set chosen then chosen else chosen @ [t]))"

fun fill_clusters :: "(string \<times> string list) list \<Rightarrow> string list \<Rightarrow> string list" where
  "fill_clusters [] chosen = chosen"
| "fill_clusters ((verb, names) # cs) chosen =
     (let chosen1 = fill_up names chosen in if 5 \<le> length chosen1 then chosen1 else fill_clusters cs chosen1)"

definition top_tools :: "(string, string list) jsmap \<Rightarrow> string list \<Rightarrow> string list" where
  "top_tools clusters verbless =
     (let sc = sortedClusters clusters in fill_clusters sc (fill_up verbless (pick_best sc [] [])))"

definition buildServerSummary :: "string \<Rightarrow> string list \<Rightarrow> catalog_status \<Rightarrow> catalog_entry" where
  "buildServerSummary name tools status =
     (let n = length tools in
      if n = 0 then
        \<lparr>ce_name = name, ce_toolCount = 0, ce_summary = name @ '' (0 tools): no tools available'', ce_topTools = [],
         ce_status = status\<rparr>
      else
        (let (clusters, verbless) = clusters_of tools
         in \<lparr>ce_name = name, ce_toolCount = n,
             ce_summary = name @ '' ('' @ show_nat n @ '' tools): '' @ noun_phrase (sortedClusters clusters) @ em_dash
               @ verb_profile clusters,
             ce_topTools = top_tools clusters verbless, ce_status = status\<rparr>))"

subsection \<open>The instructions of the handshake\<close>

definition plural_s :: "nat \<Rightarrow> string" where
  "plural_s n = (if n \<noteq> 1 then ''s'' else [])"

definition tool_total :: "catalog_entry list \<Rightarrow> nat" where
  "tool_total entries = sum_list (map ce_toolCount entries)"

definition connected_entries :: "catalog_entry list \<Rightarrow> catalog_entry list" where
  "connected_entries entries = filter (\<lambda>e. ce_status e = CsConnected \<or> ce_status e = CsConnecting) entries"

definition failed_entries :: "catalog_entry list \<Rightarrow> catalog_entry list" where
  "failed_entries entries = filter (\<lambda>e. ce_status e = CsFailed) entries"

definition instructions_header :: "catalog_entry list \<Rightarrow> string" where
  "instructions_header entries =
     ''mcp-conductor proxies '' @ show_nat (length entries) @ '' backend MCP server'' @ plural_s (length entries)
     @ '' ('' @ show_nat (tool_total entries) @ '' tools total). ''
     @ ''Their schemas stay out of context to save tokens. ''
     @ ''To call a backend tool inline, use execute_code: mcp.server('' @ [CHR 0x27] @ ''<name>'' @ [CHR 0x27]
     @ '').call('' @ [CHR 0x27] @ ''<tool>'' @ [CHR 0x27] @ '', args). Catalog:''"

definition instructions_footer :: string where
  "instructions_footer = [CHR 0x0A] @ ''Full per-server detail: read resource conductor://catalog or call list_servers.''"

definition failed_note :: "catalog_entry list \<Rightarrow> string" where
  "failed_note entries =
     (let fs = failed_entries entries
      in if 0 < length fs
         then [CHR 0x0A] @ ''('' @ show_nat (length fs) @ '' server'' @ plural_s (length fs) @ '' failed to connect: ''
              @ join '', '' (map ce_name fs) @ '')''
         else [])"

definition renderLineNoTools :: "catalog_entry \<Rightarrow> string" where
  "renderLineNoTools e = ''- '' @ ce_summary e"

definition renderLineWithTools :: "catalog_entry \<Rightarrow> string" where
  "renderLineWithTools e =
     ''- '' @ ce_summary e
     @ (if 0 < length (ce_topTools e) then em_dash @ ''e.g. '' @ join '', '' (take 5 (ce_topTools e)) else [])"

definition tryRender :: "catalog_entry list \<Rightarrow> string list \<Rightarrow> nat \<Rightarrow> string" where
  "tryRender entries ls collapsed =
     instructions_header entries @ [CHR 0x0A] @ join [CHR 0x0A] ls
     @ (if 0 < collapsed
        then [CHR 0x0A] @ ''- +'' @ show_nat collapsed @ '' more servers'' @ em_dash @ ''use list_servers'' else [])
     @ failed_note entries @ instructions_footer"

definition largest_first :: "catalog_entry list \<Rightarrow> catalog_entry list" where
  "largest_first es = sort_key (\<lambda>e. - int (ce_toolCount e)) es"

definition attempt :: "catalog_entry list \<Rightarrow> catalog_entry list \<Rightarrow> nat \<Rightarrow> string" where
  "attempt entries sorted_entries keep =
     tryRender entries (map renderLineNoTools (take keep sorted_entries)) (length sorted_entries - keep)"

text \<open>The loop that collapses the smallest servers; \<open>None\<close> if it ends without an answer.\<close>

fun collapse :: "catalog_entry list \<Rightarrow> nat \<Rightarrow> catalog_entry list \<Rightarrow> nat \<Rightarrow> string option" where
  "collapse entries budgetTokens sorted_entries 0 = None"
| "collapse entries budgetTokens sorted_entries (Suc k) =
     (let a = attempt entries sorted_entries (Suc k)
      in if estimateTokens a \<le> budgetTokens \<or> Suc k = 1 then Some a else collapse entries budgetTokens sorted_entries k)"

definition buildCatalogInstructions :: "catalog_entry list \<Rightarrow> nat \<Rightarrow> string" where
  "buildCatalogInstructions entries budgetTokens =
     (let connected = connected_entries entries in
      if length connected = 0
      then instructions_header entries @ [CHR 0x0A] @ ''(no servers connected yet)'' @ failed_note entries @ instructions_footer
      else
        (let fullWithTools = tryRender entries (map renderLineWithTools connected) 0 in
         if estimateTokens fullWithTools \<le> budgetTokens then fullWithTools
         else
           (let fullNoTools = tryRender entries (map renderLineNoTools connected) 0 in
            if estimateTokens fullNoTools \<le> budgetTokens then fullNoTools
            else
              (let sorted_entries = largest_first connected in
               case collapse entries budgetTokens sorted_entries (length sorted_entries) of
                 Some a \<Rightarrow> a
               | None \<Rightarrow> instructions_header entries @ [CHR 0x0A] @ ''- ('' @ show_nat (length connected) @ '' servers'' @ em_dash
                   @ ''use list_servers for details)'' @ failed_note entries @ instructions_footer))))"

subsection \<open>Details and resources\<close>

text \<open>The text before the first mark that ends a sentence: one of \<open>.!?\<close> with white space or nothing behind it.\<close>

fun first_sentence :: "string \<Rightarrow> string" where
  "first_sentence [] = []"
| "first_sentence (c # cs) =
     (if c \<in> set ''.!?'' \<and> (cs = [] \<or> is_space (hd cs)) then [] else c # first_sentence cs)"

definition detail_line :: "string \<times> string option \<Rightarrow> string" where
  "detail_line t =
     (let s = js_trim (first_sentence (nullish (snd t) []))
      in ''- **'' @ fst t @ ''**'' @ (if 0 < length s then em_dash @ s else []))"

definition buildServerCatalogDetail :: "string \<Rightarrow> (string \<times> string option) list \<Rightarrow> string" where
  "buildServerCatalogDetail name tools =
     (if length tools = 0 then ''## '' @ name @ [CHR 0x0A, CHR 0x0A] @ ''_No tools available._'' @ [CHR 0x0A]
      else ''## '' @ name @ '' ('' @ show_nat (length tools) @ '' tools)'' @ [CHR 0x0A, CHR 0x0A]
        @ join [CHR 0x0A] (map detail_line tools) @ [CHR 0x0A])"

definition catalog_status_of :: "server_status \<Rightarrow> catalog_status" where
  "catalog_status_of s = (case s of StConnected \<Rightarrow> CsConnected | StError \<Rightarrow> CsFailed | _ \<Rightarrow> CsConnecting)"

definition tools_of_server :: "hub \<Rightarrow> string \<Rightarrow> (string \<times> string option) list" where
  "tools_of_server h name = map (\<lambda>t. (raw_name t, raw_description t)) (hub_getServerTools name h)"

definition buildCatalogEntries :: "hub \<Rightarrow> catalog_entry list" where
  "buildCatalogEntries h =
     map (\<lambda>s. buildServerSummary (info_name s) (map fst (tools_of_server h (info_name s))) (catalog_status_of (info_status s)))
       (listServers h)"

text \<open>\<open>setCatalogInstructions\<close>; the budget is the one of the configuration, if any.\<close>

definition catalog_instructions :: "nat option \<Rightarrow> hub \<Rightarrow> string" where
  "catalog_instructions instructions_budget_tokens h =
     buildCatalogInstructions (buildCatalogEntries h) (nullish instructions_budget_tokens 1200)"

definition catalog_resource :: "hub \<Rightarrow> string" where
  "catalog_resource h =
     (let entries = buildCatalogEntries h;
          sections = map (\<lambda>e. buildServerCatalogDetail (ce_name e) (tools_of_server h (ce_name e))) entries
      in ''# mcp-conductor Backend Catalog'' @ [CHR 0x0A, CHR 0x0A]
         @ show_nat (length entries) @ '' server'' @ plural_s (length entries) @ '', '' @ show_nat (tool_total entries)
         @ '' tools total.'' @ [CHR 0x0A, CHR 0x0A]
         @ (if 0 < length sections then join [CHR 0x0A] sections else ''_No servers connected._'' @ [CHR 0x0A]))"

definition catalog_server_list :: "hub \<Rightarrow> (string \<times> string \<times> string) list" where
  "catalog_server_list h =
     map (\<lambda>e. (''conductor://catalog/'' @ ce_name e, ce_name e @ '' tool catalog'', ce_summary e)) (buildCatalogEntries h)"

definition catalog_server_resource :: "hub \<Rightarrow> string list \<Rightarrow> string" where
  "catalog_server_resource h server =
     (let name = (case server of [] \<Rightarrow> [] | s # _ \<Rightarrow> s) in buildServerCatalogDetail name (tools_of_server h name))"

subsection \<open>The top tools\<close>

definition cluster_inv :: "string list \<Rightarrow> (string, string list) jsmap \<times> string list \<Rightarrow> bool" where
  "cluster_inv names acc \<longleftrightarrow>
     (let (clusters, verbless) = acc in
      js_wf clusters \<and> set names = \<Union> (set ` snd ` set clusters) \<union> set verbless
      \<and> (\<forall>(v, ns) \<in> set clusters. ns \<noteq> [] \<and> v \<noteq> [] \<and> (\<forall>n \<in> set ns. extractVerb n = v))
      \<and> (\<forall>n \<in> set verbless. extractVerb n = []))"

lemma js_wf_same: "js_wf m \<Longrightarrow> (k, v) \<in> set m \<Longrightarrow> map_of m k = Some v"
  by (simp add: js_wf_def)

lemma set_update_wf: "js_wf m \<Longrightarrow> set (AList.update k v m) = {(a, b) \<in> set m. a \<noteq> k} \<union> {(k, v)}"
proof (induction m)
  case (Cons e m)
  then show ?case by (cases e) (force simp: js_wf_def)
qed simp

lemma cluster_step_inv:
  assumes "cluster_inv names acc"
  shows "cluster_inv (names @ [t]) (cluster_step acc t)"
proof -
  obtain clusters verbless where acc: "acc = (clusters, verbless)" by (rule prod.exhaust)
  let ?v = "extractVerb t" and ?old = "nullish (map_of clusters (extractVerb t)) []"
  have wf: "js_wf clusters" using assms acc by (simp add: cluster_inv_def)
  have old: "set ?old = \<Union> (set ` snd ` {c \<in> set clusters. fst c = ?v})"
  proof (cases "map_of clusters ?v")
    case None
    then have none: "{c \<in> set clusters. fst c = ?v} = {}" by (force simp: map_of_eq_None_iff)
    show ?thesis unfolding none by (simp add: None nullish_def)
  next
    case (Some ns)
    have one: "{c \<in> set clusters. fst c = ?v} = {(?v, ns)}"
    proof
      show "{c \<in> set clusters. fst c = ?v} \<subseteq> {(?v, ns)}" using js_wf_same [OF wf] Some by fastforce
      show "{(?v, ns)} \<subseteq> {c \<in> set clusters. fst c = ?v}" using map_of_SomeD [OF Some] by simp
    qed
    show ?thesis unfolding one by (simp add: Some nullish_def)
  qed
  show ?thesis
  proof (cases "?v = []")
    case True
    then show ?thesis using assms by (auto simp: acc cluster_inv_def cluster_step_def)
  next
    case False
    have upd: "set (AList.update ?v (?old @ [t]) clusters) = {(a, b) \<in> set clusters. a \<noteq> ?v} \<union> {(?v, ?old @ [t])}"
      by (rule set_update_wf [OF wf])
    have old_verb: "\<forall>n \<in> set ?old. extractVerb n = ?v"
      using assms unfolding old acc cluster_inv_def by fastforce
    have "set (names @ [t]) = \<Union> (set ` snd ` set (AList.update ?v (?old @ [t]) clusters)) \<union> set verbless"
      using assms old unfolding upd acc cluster_inv_def by auto
    then show ?thesis using assms wf False old_verb unfolding acc cluster_inv_def cluster_step_def Let_def
      by (auto simp: upd)
  qed
qed

lemma clusters_of_inv: "cluster_inv names (clusters_of names)"
proof (induction names rule: rev_induct)
  case Nil
  show ?case by (simp add: clusters_of_def cluster_inv_def)
next
  case (snoc t names)
  then show ?case using cluster_step_inv [OF snoc, of t] by (simp add: clusters_of_def)
qed

lemma shortest_in: "ns \<noteq> [] \<Longrightarrow> shortest ns \<in> set ns"
proof -
  have "foldl (\<lambda>a b. if length a \<le> length b then a else b) x xs \<in> set (x # xs)" for x :: string and xs
  proof (induction xs arbitrary: x)
    case (Cons y xs)
    then show ?case using Cons [of x] Cons [of y] by auto
  qed simp
  then show "ns \<noteq> [] \<Longrightarrow> shortest ns \<in> set ns" by (cases ns) (simp_all add: shortest_def)
qed

lemma pick_best_spec:
  assumes "distinct (map fst cs)" "\<forall>(v, ns) \<in> set cs. ns \<noteq> [] \<and> (\<forall>n \<in> set ns. extractVerb n = v)"
    and "distinct chosen" "length chosen \<le> 5" "\<forall>n \<in> set chosen. extractVerb n \<notin> fst ` set cs"
  shows "distinct (pick_best cs used chosen) \<and> length (pick_best cs used chosen) \<le> 5
    \<and> set (pick_best cs used chosen) \<subseteq> set chosen \<union> \<Union> (set ` snd ` set cs)"
  using assms
proof (induction cs used chosen rule: pick_best.induct)
  case (2 verb names cs used chosen)
  have best: "shortest names \<in> set names" using "2.prems"(2) shortest_in by simp
  then have verb: "extractVerb (shortest names) = verb" using "2.prems"(2) by simp
  have new: "shortest names \<notin> set chosen" using "2.prems"(5) verb by fastforce
  show ?case
  proof (cases "5 \<le> length chosen")
    case True
    then show ?thesis using "2.prems" by auto
  next
    case False
    have later: "\<forall>n \<in> set (chosen @ [shortest names]). extractVerb n \<notin> fst ` set cs"
      using "2.prems"(1,5) verb by auto
    have rest: "distinct (map fst cs)" "\<forall>(v, ns) \<in> set cs. ns \<noteq> [] \<and> (\<forall>n \<in> set ns. extractVerb n = v)"
      "\<forall>n \<in> set chosen. extractVerb n \<notin> fst ` set cs" using "2.prems"(1,2,5) by auto
    show ?thesis
    proof (cases "verb \<in> set used")
      case True
      then show ?thesis using "2.IH"(1) [OF False True rest(1,2) "2.prems"(3,4) rest(3)] False by auto
    next
      case u: False
      have "distinct (chosen @ [shortest names])" "length (chosen @ [shortest names]) \<le> 5"
        using "2.prems"(3) new False by auto
      then show ?thesis using "2.IH"(2) [OF False u rest(1,2) _ _ later] False u best by auto
    qed
  qed
qed auto

lemma fill_up_spec:
  assumes "distinct chosen" "length chosen \<le> 5"
  shows "distinct (fill_up ns chosen) \<and> length (fill_up ns chosen) \<le> 5 \<and> set chosen \<subseteq> set (fill_up ns chosen)
    \<and> set (fill_up ns chosen) \<subseteq> set chosen \<union> set ns
    \<and> (length (fill_up ns chosen) < 5 \<longrightarrow> set ns \<subseteq> set (fill_up ns chosen))"
  using assms
proof (induction ns chosen rule: fill_up.induct)
  case (2 t ns chosen)
  show ?case
  proof (cases "5 \<le> length chosen")
    case False
    then show ?thesis using "2.IH" [OF False] "2.prems" by auto
  qed (use "2.prems" in auto)
qed auto

lemma fill_clusters_spec:
  assumes "distinct chosen" "length chosen \<le> 5"
  shows "distinct (fill_clusters cs chosen) \<and> length (fill_clusters cs chosen) \<le> 5 \<and> set chosen \<subseteq> set (fill_clusters cs chosen)
    \<and> set (fill_clusters cs chosen) \<subseteq> set chosen \<union> \<Union> (set ` snd ` set cs)
    \<and> (length (fill_clusters cs chosen) < 5 \<longrightarrow> \<Union> (set ` snd ` set cs) \<subseteq> set (fill_clusters cs chosen))"
  using assms
proof (induction cs chosen rule: fill_clusters.induct)
  case (2 verb names cs chosen)
  note f = fill_up_spec [OF "2.prems", of names]
  show ?case
  proof (cases "5 \<le> length (fill_up names chosen)")
    case True
    then show ?thesis using f by (simp add: Let_def) blast
  next
    case False
    then show ?thesis using "2.IH" [OF refl False] f by (simp add: Let_def) blast
  qed
qed auto

lemma sortedClusters_set [simp]: "set (sortedClusters cs) = set cs"
  by (simp add: sortedClusters_def)

lemma sortedClusters_distinct: "js_wf cs \<Longrightarrow> distinct (map fst (sortedClusters cs))"
proof -
  assume "js_wf cs"
  then have "distinct (map fst cs)" by (simp add: js_wf_def)
  moreover have "mset (map fst (sortedClusters cs)) = mset (map fst cs)" by (simp add: sortedClusters_def)
  ultimately show ?thesis using mset_eq_imp_distinct_iff by blast
qed

lemma top_tools_spec:
  assumes "cluster_inv names (clusters, verbless)"
  shows "distinct (top_tools clusters verbless) \<and> set (top_tools clusters verbless) \<subseteq> set names
    \<and> length (top_tools clusters verbless) = min 5 (card (set names))"
proof -
  let ?sc = "sortedClusters clusters"
  have wf: "js_wf clusters" and names: "set names = \<Union> (set ` snd ` set clusters) \<union> set verbless"
    and each: "\<forall>(v, ns) \<in> set ?sc. ns \<noteq> [] \<and> (\<forall>n \<in> set ns. extractVerb n = v)"
    using assms by (auto simp: cluster_inv_def)
  note p = pick_best_spec [OF sortedClusters_distinct [OF wf] each, of "[]" "[]", simplified]
  note f = fill_up_spec [of "pick_best ?sc [] []" verbless]
  note g = fill_clusters_spec [of "fill_up verbless (pick_best ?sc [] [])" ?sc]
  let ?top = "top_tools clusters verbless"
  have top: "?top = fill_clusters ?sc (fill_up verbless (pick_best ?sc [] []))" by (simp add: top_tools_def Let_def)
  let ?p = "pick_best ?sc [] []" and ?f = "fill_up verbless (pick_best ?sc [] [])"
  have pd: "distinct ?p" "length ?p \<le> 5" "set ?p \<subseteq> \<Union> (set ` snd ` set ?sc)" using p by simp_all
  have f1: "distinct ?f" "length ?f \<le> 5" "length ?f < 5 \<longrightarrow> set verbless \<subseteq> set ?f" "set ?f \<subseteq> set ?p \<union> set verbless"
    using f [OF pd(1,2)] by simp_all
  have g1: "set ?f \<subseteq> set ?top" "length ?top < 5 \<longrightarrow> \<Union> (set ` snd ` set ?sc) \<subseteq> set ?top"
    "distinct ?top" "length ?top \<le> 5" "set ?top \<subseteq> set ?f \<union> \<Union> (set ` snd ` set ?sc)"
    using g [OF f1(1,2), folded top] by simp_all
  have sub: "set ?top \<subseteq> set names"
    using g1(5) f1(4) pd(3) unfolding names sortedClusters_set by blast
  note d = g1(3,4) sub
  have all: "set ?top = set names" if "length ?top < 5"
  proof -
    have "length ?f \<le> length ?top"
      using card_mono [OF finite_set g1(1)] distinct_card [OF f1(1)] distinct_card [OF d(1)] by simp
    then have "length ?f < 5" using that by (rule le_less_trans)
    then have "set verbless \<subseteq> set ?f" using f1(3) by blast
    then have v: "set verbless \<subseteq> set ?top" using g1(1) by (rule subset_trans)
    have "\<Union> (set ` snd ` set clusters) \<subseteq> set ?top"
      using mp [OF g1(2) that] unfolding sortedClusters_set .
    then have "set names \<subseteq> set ?top" unfolding names using v by (rule Un_least)
    then show ?thesis using d(3) by (rule subset_antisym [rotated])
  qed
  show ?thesis
  proof (cases "length ?top < 5")
    case True
    then show ?thesis using d all distinct_card [OF d(1)] by simp
  next
    case False
    then have "5 \<le> card (set names)" using d distinct_card [OF d(1)] card_mono [OF finite_set d(3)] by simp
    then show ?thesis using d False by simp
  qed
qed

text \<open>The summary of a server counts its tools and names the most representative ones: five different tools of the
  server, or all of them if it has fewer.\<close>

theorem summary_names_tools:
  "ce_toolCount (buildServerSummary name tools status) = length tools
   \<and> distinct (ce_topTools (buildServerSummary name tools status))
   \<and> set (ce_topTools (buildServerSummary name tools status)) \<subseteq> set tools
   \<and> length (ce_topTools (buildServerSummary name tools status)) = min 5 (card (set tools))"
proof (cases "tools = []")
  case False
  obtain clusters verbless where c: "clusters_of tools = (clusters, verbless)" by (rule prod.exhaust)
  show ?thesis using top_tools_spec [of tools clusters verbless] clusters_of_inv [of tools] False
    by (simp add: buildServerSummary_def Let_def c)
qed (simp add: buildServerSummary_def)

subsection \<open>The instructions and their budget\<close>

lemma largest_first_set [simp]: "set (largest_first es) = set es" "length (largest_first es) = length es"
  by (simp_all add: largest_first_def)

lemma mset_largest_first: "mset (largest_first es) = mset es"
  by (simp add: largest_first_def)

lemma largest_first_order:
  assumes "i < j" "j < length es"
  shows "ce_toolCount (largest_first es ! j) \<le> ce_toolCount (largest_first es ! i)"
proof -
  have "sorted (map (\<lambda>e. - int (ce_toolCount e)) (largest_first es))" by (simp add: largest_first_def)
  from sorted_nth_mono [OF this, of i j] show ?thesis using assms by simp
qed

lemma collapse_spec:
  "0 < k \<Longrightarrow> \<exists>keep. collapse entries budgetTokens es k = Some (attempt entries es keep) \<and> 0 < keep \<and> keep \<le> k
     \<and> (estimateTokens (attempt entries es keep) \<le> budgetTokens \<or> keep = 1)
     \<and> (\<forall>j. keep < j \<and> j \<le> k \<longrightarrow> budgetTokens < estimateTokens (attempt entries es j))"
proof (induction k)
  case (Suc k)
  show ?case
  proof (cases "estimateTokens (attempt entries es (Suc k)) \<le> budgetTokens \<or> Suc k = 1")
    case True
    then show ?thesis by (intro exI [of _ "Suc k"]) (auto simp: Let_def)
  next
    case False
    then have "0 < k" by simp
    from Suc.IH [OF this] obtain keep where keep:
      "collapse entries budgetTokens es k = Some (attempt entries es keep)" "0 < keep" "keep \<le> k"
      "estimateTokens (attempt entries es keep) \<le> budgetTokens \<or> keep = 1"
      "\<forall>j. keep < j \<and> j \<le> k \<longrightarrow> budgetTokens < estimateTokens (attempt entries es j)"
      by (elim exE conjE) (rule that; assumption)
    have last: "budgetTokens < estimateTokens (attempt entries es (Suc k))" using False by linarith
    have more_fails: "\<forall>j. keep < j \<and> j \<le> Suc k \<longrightarrow> budgetTokens < estimateTokens (attempt entries es j)"
    proof (intro allI impI)
      fix j assume j: "keep < j \<and> j \<le> Suc k"
      show "budgetTokens < estimateTokens (attempt entries es j)"
      proof (cases "j = Suc k")
        case False
        then have "keep < j \<and> j \<le> k" using j by linarith
        then show ?thesis using keep(5) by blast
      qed (simp only: last)
    qed
    have "collapse entries budgetTokens es (Suc k) = Some (attempt entries es keep)" using keep(1) False by (simp add: Let_def)
    then show ?thesis using keep(2-4) more_fails le_SucI [OF keep(3)] by (intro exI [of _ keep] conjI)
  qed
qed simp

text \<open>C34: The instructions tell the client as much as the budget allows. They list all servers that are not failed with
  their tools if that fits, else all without tools, else the servers with the most tools, as many as fit, and the number of
  the others; only one server is listed whether it fits or not. So the budget is exceeded only if it cannot hold a single server.\<close>

theorem instructions_use_budget:
  assumes "connected_entries entries \<noteq> []" "buildCatalogInstructions entries budgetTokens = r"
  shows "r = tryRender entries (map renderLineWithTools (connected_entries entries)) 0 \<and> estimateTokens r \<le> budgetTokens
    \<or> budgetTokens < estimateTokens (tryRender entries (map renderLineWithTools (connected_entries entries)) 0)
       \<and> (\<exists>shown hidden. mset shown + mset hidden = mset (connected_entries entries) \<and> shown \<noteq> []
           \<and> (\<forall>s \<in> set shown. \<forall>h \<in> set hidden. ce_toolCount h \<le> ce_toolCount s)
           \<and> r = tryRender entries (map renderLineNoTools shown) (length hidden)
           \<and> (estimateTokens r \<le> budgetTokens \<or> length shown = 1)
           \<and> (\<forall>j. length shown < j \<and> j \<le> length (connected_entries entries) \<longrightarrow>
                budgetTokens < estimateTokens (attempt entries (largest_first (connected_entries entries)) j)))"
proof -
  let ?c = "connected_entries entries" and ?s = "largest_first (connected_entries entries)"
  let ?full = "tryRender entries (map renderLineWithTools ?c) 0" and ?plain = "tryRender entries (map renderLineNoTools ?c) 0"
  consider (full) "estimateTokens ?full \<le> budgetTokens"
    | (plain) "budgetTokens < estimateTokens ?full" "estimateTokens ?plain \<le> budgetTokens"
    | (part) "budgetTokens < estimateTokens ?full" "budgetTokens < estimateTokens ?plain" by linarith
  then show ?thesis
  proof cases
    case full
    then show ?thesis using assms by (simp add: buildCatalogInstructions_def Let_def)
  next
    case plain
    then have r: "r = ?plain" using assms by (simp add: buildCatalogInstructions_def Let_def)
    show ?thesis unfolding r
      by (intro disjI2, rule conjI [OF plain(1)], rule exI [of _ ?c], rule exI [of _ "[]"]) (use plain(2) assms(1) in simp)
  next
    case part
    have len: "0 < length ?s" using assms(1) by simp
    from collapse_spec [OF len, of entries budgetTokens ?s] obtain keep where keep:
      "collapse entries budgetTokens ?s (length ?s) = Some (attempt entries ?s keep)" "0 < keep" "keep \<le> length ?s"
      "estimateTokens (attempt entries ?s keep) \<le> budgetTokens \<or> keep = 1"
      "\<forall>j. keep < j \<and> j \<le> length ?s \<longrightarrow> budgetTokens < estimateTokens (attempt entries ?s j)"
      by (elim exE conjE) (rule that; assumption)
    let ?shown = "take keep ?s" and ?hidden = "drop keep ?s"
    have r: "r = attempt entries ?s keep" using assms part keep(1) by (simp add: buildCatalogInstructions_def Let_def)
    have "mset ?shown + mset ?hidden = mset ?c"
      by (metis append_take_drop_id mset_append mset_largest_first)
    moreover have "\<forall>s \<in> set ?shown. \<forall>h \<in> set ?hidden. ce_toolCount h \<le> ce_toolCount s"
    proof (intro ballI)
      fix s h assume s: "s \<in> set ?shown" and h: "h \<in> set ?hidden"
      obtain i where i: "i < keep" "s = ?s ! i" using s by (auto simp: in_set_conv_nth)
      obtain j where j: "j < length ?s - keep" "h = ?s ! (keep + j)" using h by (auto simp: in_set_conv_nth)
      then show "ce_toolCount h \<le> ce_toolCount s" using largest_first_order [of i "keep + j" ?c] i by simp
    qed
    moreover have lens: "length ?shown = keep" "length ?hidden = length ?s - keep" "?shown \<noteq> []"
      using keep(2,3) len by (simp_all del: largest_first_set(2))
    moreover have "r = tryRender entries (map renderLineNoTools ?shown) (length ?hidden)"
      using r lens(2) by (simp add: attempt_def)
    moreover have "estimateTokens r \<le> budgetTokens \<or> length ?shown = 1" using keep(4) unfolding r lens .
    moreover have "\<forall>j. length ?shown < j \<and> j \<le> length ?c \<longrightarrow> budgetTokens < estimateTokens (attempt entries ?s j)"
      using keep(5) unfolding lens(1) largest_first_set(2) .
    ultimately have shown: "\<exists>shown hidden. mset shown + mset hidden = mset ?c \<and> shown \<noteq> []
        \<and> (\<forall>s \<in> set shown. \<forall>h \<in> set hidden. ce_toolCount h \<le> ce_toolCount s)
        \<and> r = tryRender entries (map renderLineNoTools shown) (length hidden)
        \<and> (estimateTokens r \<le> budgetTokens \<or> length shown = 1)
        \<and> (\<forall>j. length shown < j \<and> j \<le> length ?c \<longrightarrow> budgetTokens < estimateTokens (attempt entries ?s j))"
      by (intro exI [of _ ?shown] exI [of _ ?hidden] conjI)
    show ?thesis by (rule disjI2, rule conjI [OF part(1) shown])
  qed
qed

definition demo_entry :: catalog_entry where
  "demo_entry = buildServerSummary ''git'' [''list_issues'', ''get_issue''] CsConnected"

theorem instructions_use_budget_witness:
  "buildCatalogInstructions [demo_entry] 100000 = tryRender [demo_entry] [renderLineWithTools demo_entry] 0"
proof -
  have c: "connected_entries [demo_entry] = [demo_entry]" by code_simp
  have f: "estimateTokens (tryRender [demo_entry] (map renderLineWithTools [demo_entry]) 0) \<le> 100"
    by code_simp
  show ?thesis using instructions_use_budget [OF _ refl, of "[demo_entry]" 100000] f unfolding c by auto
qed

text \<open>The budget does not bound the instructions: the list of the failed servers is never cut.\<close>

lemma length_join_seps: "length sep * (length xs - 1) \<le> length (join sep xs)"
proof (induction sep xs rule: join.induct)
  case (3 sep x y xs)
  then show ?case by simp
qed simp_all

lemma instructions_over_budget:
  assumes "\<forall>e \<in> set entries. ce_status e = CsFailed" "2 * budgetTokens + 2 \<le> length entries"
  shows "budgetTokens < estimateTokens (buildCatalogInstructions entries budgetTokens)"
proof -
  have f: "failed_entries entries = entries" "connected_entries entries = []"
    using assms(1) by (simp_all add: failed_entries_def connected_entries_def filter_empty_conv)
  have "entries \<noteq> []" using assms(2) by auto
  then have "length (join '', '' (map ce_name entries)) \<le> length (failed_note entries)"
    by (simp add: failed_note_def f Let_def)
  then have "2 * (length entries - 1) \<le> length (failed_note entries)"
    using length_join_seps [of "'', ''" "map ce_name entries"] by simp
  then have "2 * (length entries - 1) \<le> length (buildCatalogInstructions entries budgetTokens)"
    unfolding buildCatalogInstructions_def f by (simp add: Let_def)
  then show ?thesis using assms(2) by (simp add: estimateTokens_def)
qed

text \<open>No prefix of the list is a prefix of another one, so that the order of the list does not matter.\<close>

lemma verb_prefixes_unambiguous: "p \<in> set VERB_PREFIXES \<Longrightarrow> q \<in> set VERB_PREFIXES \<Longrightarrow> prefix p q \<Longrightarrow> p = q"
proof -
  have "list_all (\<lambda>p. list_all (\<lambda>q. prefix p q \<longrightarrow> p = q) VERB_PREFIXES) VERB_PREFIXES" by code_simp
  then show "p \<in> set VERB_PREFIXES \<Longrightarrow> q \<in> set VERB_PREFIXES \<Longrightarrow> prefix p q \<Longrightarrow> p = q"
    unfolding list_all_iff by blast
qed

text \<open>A first sentence may contain a line break, so that a tool can take more than one line.\<close>

lemma detail_may_span_lines:
  "buildServerCatalogDetail ''s'' [(''t'', Some (''a'' @ [CHR 0x0A] @ ''b. c''))]
     = ''## s (1 tools)'' @ [CHR 0x0A, CHR 0x0A] @ ''- **t**'' @ em_dash @ ''a'' @ [CHR 0x0A] @ ''b'' @ [CHR 0x0A]"
  by code_simp

text \<open>The catalog lists the servers of the hub in its order.\<close>

lemma catalog_lists_hub: "map ce_name (buildCatalogEntries h) = map info_name (listServers h)"
proof -
  have "ce_name (buildServerSummary n ts st) = n" for n ts st
    by (simp add: buildServerSummary_def Let_def split: prod.split)
  then show ?thesis by (simp add: buildCatalogEntries_def)
qed

end
