(* ===== verification/ClientAdapters.thy ===== *)
theory ClientAdapters
  imports HttpBridge JsText
begin

text \<open>
  The configuration files of the ten clients, \<open>src/src/cli/clients/\<close>: one adapter per client, which reads the servers of a
  file and writes them back with the entry of the conductor. A file is what reading and parsing it gives; for TOML and
  YAML the parser and the printer are libraries, and what is written is taken to be read again. \<open>null\<close>, a thrown error
  and a configuration are the outcomes of \<open>parse\<close>. Backups and logging are left out here.
\<close>

subsection \<open>Entries and files\<close>

datatype client_file = FAbsent | FUnreadable | FMalformed | FParsed json

text \<open>\<open>NormalisedServerEntry\<close>: \<open>None\<close> is \<open>undefined\<close>. Some adapters copy fields without a check, so they are JSON.\<close>

record client_entry =
  en_command :: "json option"
  en_args :: "json option"
  en_env :: "json option"

datatype parse_outcome = NullResult | Throws | Config "(string, client_entry) jsmap" json

datatype client_id =
  ClaudeCode | ClaudeDesktop | Codex | GeminiCli | Cursor | Cline | Zed | Continue | OpenCode | KimiCode

definition CONDUCTOR :: string where
  "CONDUCTOR = ''mcp-conductor''"

text \<open>\<open>v && typeof v === 'object'\<close>.\<close>

fun object_like :: "json \<Rightarrow> bool" where
  "object_like (JArr xs) = True"
| "object_like (JObj kvs) = True"
| "object_like _ = False"

text \<open>\<open>{ ...v }\<close>.\<close>

definition spread :: "json \<Rightarrow> (string \<times> json) list" where
  "spread v = foldl (\<lambda>m (k, x). AList.update k x m) [] (object_entries v)"

definition overlay :: "string \<Rightarrow> json \<Rightarrow> (string \<times> json) list \<Rightarrow> json" where
  "overlay key v kvs = JObj (own_properties (AList.update key v kvs))"

definition optional :: "string \<Rightarrow> json option \<Rightarrow> (string \<times> json) list" where
  "optional k v = (case v of None \<Rightarrow> [] | Some x \<Rightarrow> [(k, x)])"

definition plain_json :: "client_entry \<Rightarrow> json" where
  "plain_json e = JObj (optional ''command'' (en_command e) @ optional ''args'' (en_args e) @ optional ''env'' (en_env e))"

text \<open>The loop over the entries of a server map.\<close>

definition collect :: "(json \<Rightarrow> client_entry option) \<Rightarrow> (string \<times> json) list \<Rightarrow> (string, client_entry) jsmap" where
  "collect read es =
     foldl (\<lambda>m (n, v). case read v of None \<Rightarrow> m | Some e \<Rightarrow> AList.update n e m) [] es"

text \<open>\<open>Array.isArray(v) ? v\<close> and \<open>v && typeof v === 'object' ? v\<close> of a field.\<close>

definition array_field :: "string \<Rightarrow> json \<Rightarrow> json option" where
  "array_field k v = (case js_field k v of Some (JArr xs) \<Rightarrow> Some (JArr xs) | _ \<Rightarrow> None)"

definition object_field :: "string \<Rightarrow> json \<Rightarrow> json option" where
  "object_field k v = (case js_field k v of Some x \<Rightarrow> if object_like x then Some x else None | None \<Rightarrow> None)"

text \<open>The check that most adapters make: a text as command, an array as arguments, an object as environment.\<close>

definition checked_entry :: "json \<Rightarrow> client_entry option" where
  "checked_entry v =
     (case js_field ''command'' v of
        Some (JStr c) \<Rightarrow> Some \<lparr>en_command = Some (JStr c), en_args = array_field ''args'' v, en_env = object_field ''env'' v\<rparr>
      | _ \<Rightarrow> None)"

definition copied_entry :: "json \<Rightarrow> client_entry option" where
  "copied_entry v =
     Some \<lparr>en_command = js_field ''command'' v, en_args = js_field ''args'' v, en_env = js_field ''env'' v\<rparr>"

definition nullish_field :: "string \<Rightarrow> json \<Rightarrow> json \<Rightarrow> json" where
  "nullish_field k v d = (case js_field k v of None \<Rightarrow> d | Some JNull \<Rightarrow> d | Some x \<Rightarrow> x)"

definition has_null_entry :: "json \<Rightarrow> bool" where
  "has_null_entry m \<longleftrightarrow> list_ex (\<lambda>(n, v). v = JNull) (object_entries m)"

definition server_map :: "(client_entry \<Rightarrow> json) \<Rightarrow> (string, client_entry) jsmap \<Rightarrow> (string \<times> json) list" where
  "server_map wr servers = map (\<lambda>(n, e). (n, wr e)) servers"

subsection \<open>Claude Code, Claude Desktop, Cursor\<close>

definition claude_code_parse :: "client_file \<Rightarrow> parse_outcome" where
  "claude_code_parse f =
     (case f of
        FParsed raw \<Rightarrow>
          (if raw = JNull then Throws
           else (case js_field ''mcpServers'' raw of
                   None \<Rightarrow> NullResult
                 | Some m \<Rightarrow>
                     if \<not> js_truthy m \<or> \<not> object_like m \<or> length (object_entries m) = 0 then NullResult
                     else Config (collect checked_entry (object_entries m)) raw))
      | _ \<Rightarrow> NullResult)"

definition claude_code_serialize :: "json \<Rightarrow> (string, client_entry) jsmap \<Rightarrow> bool \<Rightarrow> client_entry \<Rightarrow> json" where
  "claude_code_serialize raw servers keepOnly c =
     (let m = (if keepOnly then [(CONDUCTOR, plain_json c)]
               else AList.update CONDUCTOR (plain_json c) (server_map plain_json servers))
      in overlay ''mcpServers'' (JObj (own_properties m)) (spread raw))"

definition claude_desktop_parse :: "client_file \<Rightarrow> parse_outcome" where
  "claude_desktop_parse f =
     (case f of
        FParsed raw \<Rightarrow>
          (if raw = JNull then Throws
           else (case js_field ''mcpServers'' raw of
                   None \<Rightarrow> NullResult
                 | Some m \<Rightarrow>
                     if \<not> js_truthy m \<or> \<not> object_like m then NullResult
                     else if has_null_entry m then Throws
                     else Config (collect checked_entry (object_entries m)) raw))
      | _ \<Rightarrow> NullResult)"

definition claude_desktop_serialize :: "json \<Rightarrow> (string, client_entry) jsmap \<Rightarrow> bool \<Rightarrow> client_entry \<Rightarrow> json" where
  "claude_desktop_serialize raw servers keepOnly c =
     (let m = (if keepOnly then [(CONDUCTOR, plain_json c)]
               else AList.update CONDUCTOR (plain_json c) (server_map plain_json servers));
          root = (if object_like raw then spread raw else [])
      in overlay ''mcpServers'' (JObj (own_properties m)) root)"

definition cursor_parse :: "client_file \<Rightarrow> parse_outcome" where
  "cursor_parse f =
     (case f of
        FParsed raw \<Rightarrow>
          (if raw = JNull then Throws
           else (case js_field ''mcpServers'' raw of
                   None \<Rightarrow> NullResult
                 | Some m \<Rightarrow>
                     if \<not> js_truthy m \<or> \<not> object_like m \<or> length (object_entries m) = 0 then NullResult
                     else Config (collect checked_entry (object_entries m)) raw))
      | _ \<Rightarrow> NullResult)"

definition cursor_json :: "client_entry \<Rightarrow> json" where
  "cursor_json e =
     JObj (optional ''command'' (en_command e)
       @ (case en_args e of Some (JArr xs) \<Rightarrow> [(''args'', JArr xs)] | _ \<Rightarrow> [])
       @ (case en_env e of Some v \<Rightarrow> if object_like v then [(''env'', v)] else [] | None \<Rightarrow> []))"

definition cursor_serialize :: "json \<Rightarrow> (string, client_entry) jsmap \<Rightarrow> bool \<Rightarrow> client_entry \<Rightarrow> json" where
  "cursor_serialize raw servers keepOnly c =
     (let serversToWrite = (if keepOnly then [(CONDUCTOR, c)] else AList.update CONDUCTOR c servers);
          base = (if object_like raw then spread raw else [])
      in overlay ''mcpServers'' (JObj (own_properties (server_map cursor_json serversToWrite))) base)"

subsection \<open>Cline, Continue, Gemini\<close>

definition cline_parse :: "client_file \<Rightarrow> parse_outcome" where
  "cline_parse f =
     (case f of
        FParsed raw \<Rightarrow>
          (if raw = JNull then Throws
           else (let m = nullish_field ''mcpServers'' raw (JObj []) in
                 if length (object_entries m) = 0 then NullResult
                 else if has_null_entry m then Throws
                 else Config (collect copied_entry (object_entries m)) raw))
      | _ \<Rightarrow> NullResult)"

definition cline_serialize :: "json \<Rightarrow> (string, client_entry) jsmap \<Rightarrow> bool \<Rightarrow> client_entry \<Rightarrow> json" where
  "cline_serialize raw servers keepOnly c =
     (let m = AList.update CONDUCTOR (plain_json c) (if keepOnly then [] else server_map plain_json servers)
      in overlay ''mcpServers'' (JObj (own_properties m)) (spread raw))"

definition continue_parse :: "client_file \<Rightarrow> parse_outcome" where
  "continue_parse f =
     (case f of
        FUnreadable \<Rightarrow> Throws
      | FParsed raw \<Rightarrow>
          (if raw = JNull then NullResult
           else (case js_field ''mcpServers'' raw of
                   None \<Rightarrow> NullResult
                 | Some m \<Rightarrow>
                     if \<not> js_truthy m \<or> \<not> object_like m \<or> length (object_entries m) = 0 then NullResult
                     else Config (collect checked_entry (object_entries m)) raw))
      | _ \<Rightarrow> NullResult)"

definition continue_serialize :: "json \<Rightarrow> (string, client_entry) jsmap \<Rightarrow> bool \<Rightarrow> client_entry \<Rightarrow> json" where
  "continue_serialize raw servers keepOnly c =
     (let updatedServers = (if keepOnly then [(CONDUCTOR, c)] else AList.update CONDUCTOR c servers)
      in overlay ''mcpServers'' (JObj (own_properties (server_map plain_json updatedServers))) (spread raw))"

definition string_command :: "json \<Rightarrow> bool" where
  "string_command v \<longleftrightarrow> (case js_field ''command'' v of Some (JStr c) \<Rightarrow> True | _ \<Rightarrow> False)"

definition gemini_entry :: "json \<Rightarrow> client_entry option" where
  "gemini_entry v = (if string_command v then copied_entry v else None)"

definition gemini_parse :: "client_file \<Rightarrow> parse_outcome" where
  "gemini_parse f =
     (case f of
        FParsed raw \<Rightarrow>
          (if raw = JNull then Throws
           else (case js_field ''mcpServers'' raw of
                   None \<Rightarrow> NullResult
                 | Some m \<Rightarrow>
                     if \<not> js_truthy m \<or> \<not> object_like m then NullResult
                     else Config (collect gemini_entry (object_entries m)) raw))
      | _ \<Rightarrow> NullResult)"

text \<open>\<open>{ ...original, command, args?, env? }\<close>. \<open>raw\<close> is never \<open>null\<close>: it is what \<open>parse\<close> found or \<open>{}\<close>.\<close>

definition set_field :: "string \<Rightarrow> json option \<Rightarrow> (string \<times> json) list \<Rightarrow> (string \<times> json) list" where
  "set_field k v kvs = (case v of None \<Rightarrow> kvs | Some x \<Rightarrow> AList.update k x kvs)"

definition merged_json :: "json option \<Rightarrow> client_entry \<Rightarrow> json" where
  "merged_json original e =
     JObj (own_properties
       (set_field ''env'' (en_env e) (set_field ''args'' (en_args e)
         (case en_command e of
            None \<Rightarrow> AList.delete ''command'' (spread (nullish original (JObj [])))
          | Some c \<Rightarrow> AList.update ''command'' c (spread (nullish original (JObj [])))))))"

definition gemini_serialize :: "json \<Rightarrow> (string, client_entry) jsmap \<Rightarrow> bool \<Rightarrow> client_entry \<Rightarrow> json" where
  "gemini_serialize raw servers keepOnly c =
     (let rawServers = object_entries (nullish (js_field ''mcpServers'' raw) (JObj []));
          m = (if keepOnly then [(CONDUCTOR, plain_json c)]
               else AList.update CONDUCTOR (merged_json (map_of rawServers CONDUCTOR) c)
                 (map (\<lambda>(n, e). (n, merged_json (map_of rawServers n) e)) servers))
      in overlay ''mcpServers'' (JObj (own_properties m)) (spread raw))"

subsection \<open>Kimi Code, OpenCode, Zed\<close>

definition isHttpEntry :: "json \<Rightarrow> bool" where
  "isHttpEntry v \<longleftrightarrow> (case js_field ''url'' v of Some (JStr u) \<Rightarrow> True | _ \<Rightarrow> False)"

definition kimi_entry :: "json \<Rightarrow> client_entry option" where
  "kimi_entry v =
     (if isHttpEntry v then None
      else if string_command v
      then Some \<lparr>en_command = js_field ''command'' v, en_args = Some (nullish_field ''args'' v (JArr [])),
                 en_env = Some (nullish_field ''env'' v (JObj []))\<rparr>
      else None)"

definition kimi_parse :: "client_file \<Rightarrow> parse_outcome" where
  "kimi_parse f =
     (case f of
        FParsed raw \<Rightarrow>
          (if raw = JNull then Throws
           else (case js_field ''mcpServers'' raw of
                   None \<Rightarrow> NullResult
                 | Some m \<Rightarrow>
                     if \<not> js_truthy m \<or> length (object_entries m) = 0 then NullResult
                     else if has_null_entry m then Throws
                     else Config (collect kimi_entry (object_entries m)) raw))
      | _ \<Rightarrow> NullResult)"

text \<open>\<open>v.length > 0\<close> and \<open>Object.keys(v).length > 0\<close>; a field that is not given has neither.\<close>

definition long_field :: "json option \<Rightarrow> bool" where
  "long_field v = (case v of Some (JArr xs) \<Rightarrow> 0 < length xs | Some (JStr s) \<Rightarrow> 0 < length s | _ \<Rightarrow> False)"

definition keyed_field :: "json option \<Rightarrow> bool" where
  "keyed_field v = (case v of Some x \<Rightarrow> 0 < length (object_entries x) | None \<Rightarrow> False)"

definition buildStdioEntry :: "client_entry \<Rightarrow> json" where
  "buildStdioEntry e =
     JObj (optional ''command'' (en_command e)
       @ (if long_field (en_args e) then optional ''args'' (en_args e) else [])
       @ (if keyed_field (en_env e) then optional ''env'' (en_env e) else []))"

definition kimi_serialize :: "json \<Rightarrow> (string, client_entry) jsmap \<Rightarrow> bool \<Rightarrow> client_entry \<Rightarrow> json" where
  "kimi_serialize raw servers keepOnly c =
     (let m = (if keepOnly then [(CONDUCTOR, buildStdioEntry c)]
               else AList.update CONDUCTOR (buildStdioEntry c)
                 (foldl (\<lambda>m (n, e). AList.update n (buildStdioEntry e) m)
                   (spread (nullish_field ''mcpServers'' raw (JObj []))) servers))
      in overlay ''mcpServers'' (JObj (own_properties m)) (spread raw))"

definition opencode_entry :: "json \<Rightarrow> client_entry option" where
  "opencode_entry v = (if js_field ''type'' v = Some (JStr ''local'') then copied_entry v else None)"

definition opencode_parse :: "client_file \<Rightarrow> parse_outcome" where
  "opencode_parse f =
     (case f of
        FParsed raw \<Rightarrow>
          (if raw = JNull then Throws
           else (case js_field ''mcp'' raw of
                   None \<Rightarrow> NullResult
                 | Some m \<Rightarrow>
                     if \<not> js_truthy m \<or> \<not> object_like m then NullResult
                     else if has_null_entry m then Throws
                     else (let localCount = length (filter (\<lambda>(n, v). js_field ''type'' v = Some (JStr ''local'')) (object_entries m))
                           in if localCount = 0 then NullResult
                              else Config (collect opencode_entry (object_entries m)) raw)))
      | _ \<Rightarrow> NullResult)"

definition local_json :: "bool \<Rightarrow> client_entry \<Rightarrow> json" where
  "local_json disabled e =
     JObj ([(''type'', JStr ''local'')] @ optional ''command'' (en_command e) @ optional ''args'' (en_args e)
       @ optional ''env'' (en_env e) @ (if disabled then [(''enabled'', JBool False)] else []))"

definition disabled_in :: "json \<Rightarrow> string \<Rightarrow> bool" where
  "disabled_in raw n \<longleftrightarrow>
     (case map_of (object_entries (nullish (js_field ''mcp'' raw) (JObj []))) n of
        None \<Rightarrow> False
      | Some v \<Rightarrow> js_field ''enabled'' v = Some (JBool False))"

definition opencode_serialize :: "json \<Rightarrow> (string, client_entry) jsmap \<Rightarrow> bool \<Rightarrow> client_entry \<Rightarrow> json" where
  "opencode_serialize raw servers keepOnly c =
     (let m = (if keepOnly then [(CONDUCTOR, local_json False c)]
               else AList.update CONDUCTOR (local_json False c)
                 (map (\<lambda>(n, e). (n, local_json (disabled_in raw n) e)) servers))
      in overlay ''mcp'' (JObj (own_properties m)) (spread raw))"

definition zed_entry :: "json \<Rightarrow> client_entry option" where
  "zed_entry v =
     (if js_field ''source'' v \<noteq> Some (JStr ''custom'') then None
      else (case js_field ''command'' v of
              Some (JStr c) \<Rightarrow>
                (if length c = 0 then None
                 else Some \<lparr>en_command = Some (JStr c),
                   en_args = (case js_field ''args'' v of Some (JArr xs) \<Rightarrow> if 0 < length xs then Some (JArr xs) else None | _ \<Rightarrow> None),
                   en_env = object_field ''env'' v\<rparr>)
            | _ \<Rightarrow> None))"

definition zed_parse :: "client_file \<Rightarrow> parse_outcome" where
  "zed_parse f =
     (case f of
        FParsed (JObj kvs) \<Rightarrow>
          (case js_field ''context_servers'' (JObj kvs) of
             Some (JObj cs) \<Rightarrow> Config (collect zed_entry (object_entries (JObj cs))) (JObj kvs)
           | _ \<Rightarrow> Config [] (JObj kvs))
      | _ \<Rightarrow> NullResult)"

definition zed_json :: "client_entry \<Rightarrow> json" where
  "zed_json e =
     JObj ([(''source'', JStr ''custom'')] @ optional ''command'' (en_command e)
       @ (if long_field (en_args e) then optional ''args'' (en_args e) else [])
       @ (if keyed_field (en_env e) then optional ''env'' (en_env e) else []))"

definition zed_serialize :: "json \<Rightarrow> (string, client_entry) jsmap \<Rightarrow> bool \<Rightarrow> client_entry \<Rightarrow> json" where
  "zed_serialize raw servers keepOnly c =
     (let m = (if keepOnly then [(CONDUCTOR, zed_json c)]
               else AList.update CONDUCTOR (zed_json c) (server_map zed_json servers));
          rawRoot = (case raw of JObj kvs \<Rightarrow> spread raw | _ \<Rightarrow> [])
      in overlay ''context_servers'' (JObj (own_properties m)) rawRoot)"

subsection \<open>Codex\<close>

text \<open>\<open>normaliseEnvVars\<close> keeps the plain texts, in a new object.\<close>

definition is_text :: "json \<Rightarrow> bool" where
  "is_text v = (case v of JStr s \<Rightarrow> True | _ \<Rightarrow> False)"

definition normaliseEnvVars :: "json \<Rightarrow> (string \<times> json) list" where
  "normaliseEnvVars envVars = own_properties (filter (\<lambda>(k, v). is_text v) (object_entries envVars))"

definition codex_entry :: "json \<Rightarrow> client_entry option" where
  "codex_entry v =
     (case js_field ''command'' v of
        Some (JStr c) \<Rightarrow>
          (if js_trim c = [] then None
           else Some \<lparr>en_command = Some (JStr c),
             en_args = (case js_field ''args'' v of Some (JArr xs) \<Rightarrow> Some (JArr (filter is_text xs)) | _ \<Rightarrow> None),
             en_env = (case object_field ''env_vars'' v of
                         Some x \<Rightarrow> (let env = normaliseEnvVars x in if 0 < length env then Some (JObj env) else None)
                       | None \<Rightarrow> None)\<rparr>)
      | _ \<Rightarrow> None)"

definition codex_parse :: "client_file \<Rightarrow> parse_outcome" where
  "codex_parse f =
     (case f of
        FParsed raw \<Rightarrow>
          (if raw = JNull then Throws
           else (case js_field ''mcp_servers'' raw of
                   None \<Rightarrow> NullResult
                 | Some m \<Rightarrow>
                     if \<not> js_truthy m \<or> \<not> object_like m \<or> length (object_entries m) = 0 then NullResult
                     else Config (collect codex_entry (object_entries m)) raw))
      | _ \<Rightarrow> NullResult)"

definition codex_json :: "client_entry \<Rightarrow> json" where
  "codex_json e =
     JObj (optional ''command'' (en_command e) @ optional ''args'' (en_args e)
       @ (if keyed_field (en_env e) then optional ''env_vars'' (en_env e) else []))"

definition codex_serialize :: "json \<Rightarrow> (string, client_entry) jsmap \<Rightarrow> bool \<Rightarrow> client_entry \<Rightarrow> json" where
  "codex_serialize raw servers keepOnly c =
     (let rawRoot = (if object_like raw then object_entries raw else []);
          m = AList.update CONDUCTOR (codex_json c) (if keepOnly then [] else server_map codex_json servers);
          rest = foldl (\<lambda>t (k, v). if k \<noteq> ''mcp_servers'' then AList.update k v t else t) [] rawRoot
      in overlay ''mcp_servers'' (JObj (own_properties m)) rest)"

subsection \<open>The table of adapters\<close>

fun native_key :: "client_id \<Rightarrow> string" where
  "native_key Codex = ''mcp_servers''"
| "native_key Zed = ''context_servers''"
| "native_key OpenCode = ''mcp''"
| "native_key _ = ''mcpServers''"

fun adapter_parse :: "client_id \<Rightarrow> client_file \<Rightarrow> parse_outcome" where
  "adapter_parse ClaudeCode = claude_code_parse"
| "adapter_parse ClaudeDesktop = claude_desktop_parse"
| "adapter_parse Codex = codex_parse"
| "adapter_parse GeminiCli = gemini_parse"
| "adapter_parse Cursor = cursor_parse"
| "adapter_parse Cline = cline_parse"
| "adapter_parse Zed = zed_parse"
| "adapter_parse Continue = continue_parse"
| "adapter_parse OpenCode = opencode_parse"
| "adapter_parse KimiCode = kimi_parse"

fun adapter_serialize :: "client_id \<Rightarrow> json \<Rightarrow> (string, client_entry) jsmap \<Rightarrow> bool \<Rightarrow> client_entry \<Rightarrow> json" where
  "adapter_serialize ClaudeCode = claude_code_serialize"
| "adapter_serialize ClaudeDesktop = claude_desktop_serialize"
| "adapter_serialize Codex = codex_serialize"
| "adapter_serialize GeminiCli = gemini_serialize"
| "adapter_serialize Cursor = cursor_serialize"
| "adapter_serialize Cline = cline_serialize"
| "adapter_serialize Zed = zed_serialize"
| "adapter_serialize Continue = continue_serialize"
| "adapter_serialize OpenCode = opencode_serialize"
| "adapter_serialize KimiCode = kimi_serialize"

subsection \<open>Objects\<close>

definition own_ok :: "(string \<times> 'a) list \<Rightarrow> bool" where
  "own_ok kvs \<longleftrightarrow> distinct (map fst kvs) \<and> ''__proto__'' \<notin> fst ` set kvs"

lemma own_ok_own [simp]: "own_ok kvs \<Longrightarrow> own_ok (own_properties kvs)"
  by (auto simp: own_ok_def distinct_own set_own_properties)

lemma map_of_own:
  assumes "own_ok kvs"
  shows "map_of (own_properties kvs) k = map_of kvs k"
proof -
  have "distinct (map fst kvs)" "distinct (map fst (own_properties kvs))" "set (own_properties kvs) = set kvs"
    using assms by (force simp: own_ok_def distinct_own set_own_properties)+
  then show ?thesis by (metis map_of_inject_set)
qed

lemma own_ok_update [simp]: "own_ok kvs \<Longrightarrow> k \<noteq> ''__proto__'' \<Longrightarrow> own_ok (AList.update k v kvs)"
  by (auto simp: own_ok_def distinct_update update_keys dom_update simp flip: set_map)

lemma own_ok_Nil [simp]: "own_ok []" "k \<noteq> ''__proto__'' \<Longrightarrow> own_ok [(k, v)]"
  by (simp_all add: own_ok_def)

lemma show_nat_no_proto: "show_nat n \<noteq> ''__proto__''"
proof
  assume "show_nat n = ''__proto__''"
  then have "is_digit (CHR ''_'')" using show_nat_head [of n] by simp
  then show False by (simp add: is_digit_def)
qed

lemma entries_no_proto: "(n, v) \<in> set (object_entries x) \<Longrightarrow> n \<noteq> ''__proto__''"
  by (cases x) (auto simp: set_own_properties show_nat_no_proto show_nat_no_proto [symmetric] simp del: show_nat.simps dest!: set_zip_leftD)

lemma updates_ok:
  "own_ok m \<Longrightarrow> ''__proto__'' \<notin> fst ` set es \<Longrightarrow> own_ok (foldl (\<lambda>m (k, x). AList.update k (g k x) m) m es)"
  by (induction es arbitrary: m) (auto split: prod.splits)

lemma spread_ok [simp]: "own_ok (spread v)"
proof -
  have "''__proto__'' \<notin> fst ` set (object_entries v)" using entries_no_proto by fastforce
  then show ?thesis unfolding spread_def using updates_ok [of "[]" "object_entries v" "\<lambda>k x. x"] by simp
qed

lemma map_of_updates:
  "distinct (map fst es) \<Longrightarrow> map_of (foldl (\<lambda>m (k, x). AList.update k (g k x) m) m es) k
     = (case map_of es k of Some x \<Rightarrow> Some (g k x) | None \<Rightarrow> map_of m k)"
proof (induction es arbitrary: m)
  case (Cons e es)
  obtain a x where e: "e = (a, x)" by (rule prod.exhaust)
  have a: "map_of es a = None" and d: "distinct (map fst es)" using Cons.prems by (auto simp: e map_of_eq_None_iff)
  show ?case using Cons.IH [OF d, of "AList.update a (g a x) m"] a by (auto simp: e split: option.splits)
qed simp

lemma map_of_spread:
  assumes "distinct (map fst kvs)" "k \<noteq> ''__proto__''"
  shows "map_of (spread (JObj kvs)) k = map_of kvs k"
proof -
  have "map_of (own_properties kvs) k = map_of kvs k"
  proof (cases "map_of kvs k")
    case None
    then have "map_of (own_properties kvs) k = None" by (force simp: map_of_eq_None_iff set_own_properties)
    then show ?thesis using None by simp
  next
    case (Some v)
    then have "(k, v) \<in> set (own_properties kvs)" using assms(2) by (simp add: set_own_properties map_of_SomeD)
    then show ?thesis using Some distinct_own [OF assms(1)] by simp
  qed
  then show ?thesis unfolding spread_def using map_of_updates [OF distinct_own [OF assms(1)], of "\<lambda>k x. x" "[]"]
    by (simp split: option.splits)
qed

lemma js_field_overlay:
  assumes "own_ok kvs" "key \<noteq> ''__proto__''"
  shows "js_field k (overlay key v kvs) = (if k = key then Some v else map_of kvs k)"
  using assms by (simp add: js_field_def overlay_def map_of_own)

lemma overlay_not_null [simp]: "overlay key v kvs \<noteq> JNull"
  by (simp add: overlay_def)

subsection \<open>The loop over entries\<close>

lemma collect_snoc:
  "collect read (es @ [(n, v)]) = (case read v of None \<Rightarrow> collect read es | Some e \<Rightarrow> AList.update n e (collect read es))"
  by (cases "read v") (simp_all add: collect_def)

lemma map_of_collect:
  "distinct (map fst es) \<Longrightarrow> map_of (collect read es) n = Option.bind (map_of es n) read"
proof (induction es rule: rev_induct)
  case Nil
  show ?case by (simp add: collect_def)
next
  case (snoc e es)
  obtain a v where e: "e = (a, v)" by (rule prod.exhaust)
  have a: "map_of es a = None" and d: "distinct (map fst es)" using snoc.prems by (auto simp: e map_of_eq_None_iff)
  show ?case
    using snoc.IH [OF d] a by (auto simp: e collect_snoc map_add_def split: option.splits)
qed

lemma collect_image: "(n, e) \<in> set (collect read es) \<Longrightarrow> \<exists>v. (n, v) \<in> set es \<and> read v = Some e"
proof (induction es rule: rev_induct)
  case Nil
  then show ?case by (simp add: collect_def)
next
  case (snoc x es)
  obtain a v where x: "x = (a, v)" by (rule prod.exhaust)
  show ?case
  proof (cases "read v")
    case None
    then show ?thesis using snoc by (auto simp: x collect_snoc)
  next
    case (Some e')
    then have "(n, e) \<in> set (collect read es) \<or> n = a \<and> e = e'"
      using snoc.prems set_js_set_subset by (fastforce simp: x collect_snoc)
    then show ?thesis using snoc.IH Some by (auto simp: x)
  qed
qed

lemma collect_ok: "own_ok (collect read (object_entries m))"
proof -
  have "distinct (map fst (collect read es))" for es
    by (induction es rule: rev_induct) (auto simp: collect_def distinct_update split: option.splits)
  moreover have "''__proto__'' \<notin> fst ` set (collect read (object_entries m))"
    using collect_image entries_no_proto by fastforce
  ultimately show ?thesis by (simp add: own_ok_def)
qed

text \<open>Reading what was written: \<open>c\<close> is the written entry of the conductor and \<open>wr\<close> writes the others.\<close>

definition written :: "json \<Rightarrow> (string \<Rightarrow> client_entry \<Rightarrow> json) \<Rightarrow> (string, client_entry) jsmap \<Rightarrow> json" where
  "written c wr servers = JObj (own_properties (AList.update CONDUCTOR c (map (\<lambda>(n, e). (n, wr n e)) servers)))"

lemma CONDUCTOR_name [simp]: "CONDUCTOR \<noteq> ''__proto__''"
  by (simp add: CONDUCTOR_def)

lemma map_of_mapped: "map_of (map (\<lambda>(n, e). (n, g n e)) m) k = map_option (g k) (map_of m k)"
  by (induction m) auto

lemma mapped_ok: "own_ok (map (\<lambda>(n, e). (n, g n e)) m) \<longleftrightarrow> own_ok m"
  by (simp add: own_ok_def comp_def split_def image_image)

lemma written_entries:
  assumes "own_ok servers"
  shows "own_ok (object_entries (written c wr servers))"
    and "map_of (object_entries (written c wr servers)) n
       = (if n = CONDUCTOR then Some c else map_option (wr n) (map_of servers n))"
proof -
  let ?m = "AList.update CONDUCTOR c (map (\<lambda>(n, e). (n, wr n e)) servers)"
  have m: "own_ok ?m" using assms by (simp add: mapped_ok)
  then show "own_ok (object_entries (written c wr servers))" by (simp add: written_def)
  show "map_of (object_entries (written c wr servers)) n
       = (if n = CONDUCTOR then Some c else map_option (wr n) (map_of servers n))"
    using m by (simp add: written_def map_of_own map_of_mapped)
qed

lemma collect_written:
  assumes "own_ok servers"
  shows "map_of (collect read (object_entries (written c wr servers))) n
       = (if n = CONDUCTOR then read c else Option.bind (map_of servers n) (\<lambda>e. read (wr n e)))"
proof -
  have "distinct (map fst (object_entries (written c wr servers)))"
    using written_entries(1) [OF assms] by (simp add: own_ok_def)
  then show ?thesis by (auto simp: map_of_collect written_entries(2) [OF assms] Option.bind_map_option comp_def)
qed

lemma written_nonempty:
  assumes "own_ok servers"
  shows "0 < length (object_entries (written c wr servers))"
  using written_entries(2) [OF assms, of c wr CONDUCTOR] by (cases "object_entries (written c wr servers)") auto

lemma written_no_null:
  assumes "own_ok servers" "c \<noteq> JNull" "\<And>n e. wr n e \<noteq> JNull"
  shows "\<not> has_null_entry (written c wr servers)"
proof
  assume "has_null_entry (written c wr servers)"
  then obtain n where "(n, JNull) \<in> set (object_entries (written c wr servers))" by (auto simp: has_null_entry_def list_ex_iff)
  moreover have "distinct (map fst (object_entries (written c wr servers)))"
    using written_entries(1) [OF assms(1)] by (simp add: own_ok_def)
  ultimately have "map_of (object_entries (written c wr servers)) n = Some JNull" by simp
  then show False using assms(2,3) by (auto simp: written_entries(2) [OF assms(1)] split: if_splits)
qed

subsection \<open>What an adapter promises\<close>

text \<open>Entries of the declared type, the entries a conductor is registered with, and entries up to empty arguments and
  environment.\<close>

definition typed_entry :: "client_entry \<Rightarrow> bool" where
  "typed_entry e \<longleftrightarrow>
     (case en_command e of Some (JStr s) \<Rightarrow> True | _ \<Rightarrow> False)
     \<and> (case en_args e of None \<Rightarrow> True | Some (JArr xs) \<Rightarrow> True | _ \<Rightarrow> False)
     \<and> (case en_env e of None \<Rightarrow> True | Some (JObj kvs) \<Rightarrow> list_all (\<lambda>(k, v). k \<noteq> ''__proto__'') kvs | _ \<Rightarrow> False)"

definition conductor_ok :: "client_entry \<Rightarrow> bool" where
  "conductor_ok c \<longleftrightarrow>
     (case en_command c of Some (JStr s) \<Rightarrow> js_trim s \<noteq> [] | _ \<Rightarrow> False)
     \<and> (case en_args c of None \<Rightarrow> True | Some (JArr xs) \<Rightarrow> list_all is_text xs | _ \<Rightarrow> False)
     \<and> (case en_env c of None \<Rightarrow> True | Some (JObj kvs) \<Rightarrow> list_all (\<lambda>(k, v). is_text v) kvs \<and> own_properties kvs = kvs | _ \<Rightarrow> False)"

definition canon :: "client_entry \<Rightarrow> json option \<times> json \<times> json" where
  "canon e = (en_command e, nullish (en_args e) (JArr []), nullish (en_env e) (JObj []))"

text \<open>The entry \<open>e\<close> has the command of \<open>c\<close> and the fields that \<open>c\<close> gives.\<close>

definition covers :: "client_entry \<Rightarrow> client_entry \<Rightarrow> bool" where
  "covers c e \<longleftrightarrow>
     en_command e = en_command c
     \<and> (en_args c \<noteq> None \<longrightarrow> Some (nullish (en_args e) (JArr [])) = en_args c)
     \<and> (en_env c \<noteq> None \<longrightarrow> Some (nullish (en_env e) (JObj [])) = en_env c)"

definition reread :: "client_entry \<Rightarrow> bool \<Rightarrow> (string, client_entry) jsmap \<Rightarrow> (string, client_entry) jsmap \<Rightarrow> bool" where
  "reread c keepOnly servers servers' \<longleftrightarrow>
     (case map_of servers' CONDUCTOR of Some e \<Rightarrow> covers c e | None \<Rightarrow> False)
     \<and> (\<forall>n. n \<noteq> CONDUCTOR \<longrightarrow>
          map_option canon (map_of servers' n) = (if keepOnly then None else map_option canon (map_of servers n)))"

text \<open>An object that was parsed has every key once.\<close>

definition keyed_once :: "json \<Rightarrow> bool" where
  "keyed_once raw \<longleftrightarrow>
     (case raw of
        JObj kvs \<Rightarrow> distinct (map fst kvs) \<and> list_all (\<lambda>(k, v). distinct (map fst (object_entries v))) kvs
      | _ \<Rightarrow> True)"

locale client_adapter =
  fixes key :: string
    and parse :: "client_file \<Rightarrow> parse_outcome"
    and serialize :: "json \<Rightarrow> (string, client_entry) jsmap \<Rightarrow> bool \<Rightarrow> client_entry \<Rightarrow> json"
  assumes parsed: "parse f = Config servers raw \<Longrightarrow> f = FParsed raw \<and> (\<exists>kvs. raw = JObj kvs) \<and> own_ok servers"
    and keeps: "keyed_once (JObj kvs) \<Longrightarrow> k \<noteq> key \<Longrightarrow> k \<noteq> ''__proto__'' \<Longrightarrow>
      js_field k (serialize (JObj kvs) servers keepOnly c) = map_of kvs k"
    and only: "conductor_ok c \<Longrightarrow>
      \<exists>servers'. parse (FParsed (serialize (JObj kvs) servers True c)) = Config servers' (serialize (JObj kvs) servers True c)
        \<and> reread c True servers servers'"
    and merge: "parse f = Config servers raw \<Longrightarrow> keyed_once raw \<Longrightarrow> list_all (\<lambda>(n, e). typed_entry e) servers \<Longrightarrow> conductor_ok c \<Longrightarrow>
      \<exists>servers'. parse (FParsed (serialize raw servers False c)) = Config servers' (serialize raw servers False c)
        \<and> reread c False servers servers'"
begin

lemma round_trip:
  assumes "parse f = Config servers raw" "keyed_once raw" "list_all (\<lambda>(n, e). typed_entry e) servers" "conductor_ok c"
  shows "\<exists>servers'. parse (FParsed (serialize raw servers keepOnly c)) = Config servers' (serialize raw servers keepOnly c)
    \<and> reread c keepOnly servers servers'"
proof (cases keepOnly)
  case True
  obtain kvs where "raw = JObj kvs" using parsed [OF assms(1)] by blast
  then show ?thesis using only [OF assms(4), of kvs servers] True by simp
next
  case False
  then show ?thesis using merge [OF assms] by simp
qed

lemma other_keys:
  assumes "parse f = Config servers raw" "keyed_once raw" "k \<noteq> key" "k \<noteq> ''__proto__''"
  shows "js_field k (serialize raw servers keepOnly c) = js_field k raw"
proof -
  obtain kvs where raw: "raw = JObj kvs" using parsed [OF assms(1)] by blast
  show ?thesis using keeps [OF assms(2) [unfolded raw] assms(3,4)] by (simp add: raw js_field_def)
qed

text \<open>After a migration the conductor is the only server, and a file written for a new client has it too.\<close>

lemma migrated:
  assumes "conductor_ok c"
  shows "\<exists>servers'. parse (FParsed (serialize (JObj kvs) servers True c)) = Config servers' (serialize (JObj kvs) servers True c)
    \<and> dom (map_of servers') = {CONDUCTOR}"
proof -
  obtain servers' where s: "parse (FParsed (serialize (JObj kvs) servers True c)) = Config servers' (serialize (JObj kvs) servers True c)"
    "reread c True servers servers'" using only [OF assms] by blast
  have "map_of servers' CONDUCTOR \<noteq> None" using s(2) by (auto simp: reread_def split: option.splits)
  moreover have "n = CONDUCTOR" if "map_of servers' n \<noteq> None" for n
    using s(2) that unfolding reread_def by (metis option.map_disc_iff)
  ultimately have "dom (map_of servers') = {CONDUCTOR}" unfolding dom_def by blast
  then show ?thesis using s(1) by blast
qed

end

subsection \<open>Reading what an adapter wrote\<close>

lemma object_like_written [simp]: "object_like (written c wr servers)" "js_truthy (written c wr servers)"
  by (simp_all add: written_def)

lemma reread_written:
  assumes "own_ok servers" "read cj = Some e" "covers c e"
    and "\<forall>(n, e) \<in> set servers. \<not> keepOnly \<longrightarrow> (\<exists>e'. read (wr n e) = Some e' \<and> canon e' = canon e)"
  shows "reread c keepOnly servers (collect read (object_entries (written cj wr (if keepOnly then [] else servers))))"
proof -
  let ?s = "if keepOnly then [] else servers"
  have ok: "own_ok ?s" using assms(1) by simp
  note m = collect_written [OF ok, of read cj wr]
  have "map_option canon (map_of (collect read (object_entries (written cj wr ?s))) n)
      = (if keepOnly then None else map_option canon (map_of servers n))" if n: "n \<noteq> CONDUCTOR" for n
  proof (cases "map_of ?s n")
    case None
    then show ?thesis using n by (auto simp: m)
  next
    case (Some x)
    then have "(n, x) \<in> set servers" "\<not> keepOnly" by (auto split: if_splits dest: map_of_SomeD)
    then obtain e' where "read (wr n x) = Some e'" "canon e' = canon x" using assms(4) by blast
    then show ?thesis using n Some \<open>\<not> keepOnly\<close> m [of n] by simp
  qed
  then show ?thesis using assms(2,3) unfolding reread_def by (simp add: m)
qed

lemma updated_map:
  "map (\<lambda>(n, e). (n, wr e)) (AList.update n c servers) = AList.update n (wr c) (map (\<lambda>(n, e). (n, wr e)) servers)"
  by (induction servers) auto

lemma nullish_field_some [simp]: "js_field k v = Some x \<Longrightarrow> x \<noteq> JNull \<Longrightarrow> nullish_field k v d = x"
  by (cases x) (simp_all add: nullish_field_def)

lemma written_not_null [simp]: "written c wr servers \<noteq> JNull"
  by (simp add: written_def)

lemma no_entries [simp]: "object_entries (JObj []) = []" "object_entries JNull = []"
  by (simp_all add: own_properties_def)

lemma own_properties_Nil [simp]: "own_properties [] = []"
  by (simp add: own_properties_def)

lemma server_map_Nil [simp]: "server_map wr [] = []"
  by (simp add: server_map_def)

text \<open>Fields of the objects that are written.\<close>

lemma optional_simps [simp]: "optional k None = []" "optional k (Some v) = [(k, v)]"
  by (simp_all add: optional_def)

lemma js_field_JObj [simp]: "js_field k (JObj kvs) = map_of kvs k"
  by (simp add: js_field_def)

lemma typed_cases:
  assumes "typed_entry e"
  obtains s where "en_command e = Some (JStr s)" "en_args e = None \<or> (\<exists>xs. en_args e = Some (JArr xs))"
    "en_env e = None \<or> (\<exists>kvs. en_env e = Some (JObj kvs) \<and> (own_properties kvs = [] \<longrightarrow> kvs = []))"
proof -
  have "kvs = []" if "list_all (\<lambda>(k, v). k \<noteq> ''__proto__'') kvs" "own_properties kvs = []" for kvs :: "(string \<times> json) list"
  proof -
    have "set kvs = set (own_properties kvs)" using that(1) by (force simp: set_own_properties list_all_iff)
    then show ?thesis using that(2) by simp
  qed
  then show ?thesis using assms that by (auto simp: typed_entry_def split: option.splits json.splits)
qed

lemma conductor_cases:
  assumes "conductor_ok c"
  obtains s where "en_command c = Some (JStr s)" "js_trim s \<noteq> []" "s \<noteq> []"
    "en_args c = None \<or> (\<exists>xs. en_args c = Some (JArr xs) \<and> filter is_text xs = xs)"
    "en_env c = None \<or> (\<exists>kvs. en_env c = Some (JObj kvs) \<and> own_properties kvs = kvs \<and> filter (\<lambda>(k, v). is_text v) kvs = kvs)"
proof -
  obtain s where s: "en_command c = Some (JStr s)" "js_trim s \<noteq> []"
    using assms by (auto simp: conductor_ok_def split: option.splits json.splits)
  then have "s \<noteq> []" by (auto simp: js_trim_def)
  moreover have "en_args c = None \<or> (\<exists>xs. en_args c = Some (JArr xs) \<and> filter is_text xs = xs)"
    using assms by (auto simp: conductor_ok_def list_all_iff filter_id_conv split: option.splits json.splits)
  moreover have "en_env c = None \<or> (\<exists>kvs. en_env c = Some (JObj kvs) \<and> own_properties kvs = kvs \<and> filter (\<lambda>(k, v). is_text v) kvs = kvs)"
    using assms by (auto simp: conductor_ok_def list_all_iff filter_id_conv split: option.splits json.splits)
  ultimately show ?thesis using s that by blast
qed

lemmas entry_simps = canon_def covers_def nullish_def array_field_def object_field_def

lemma checked_reread:
  assumes "typed_entry e"
  shows "\<exists>e'. checked_entry (plain_json e) = Some e' \<and> canon e' = canon e"
    and "\<exists>e'. checked_entry (cursor_json e) = Some e' \<and> canon e' = canon e"
    and "\<exists>e'. copied_entry (plain_json e) = Some e' \<and> canon e' = canon e"
  using assms by (auto elim!: typed_cases simp: checked_entry_def copied_entry_def plain_json_def cursor_json_def entry_simps)

lemma checked_conductor:
  assumes "conductor_ok c"
  shows "\<exists>e. checked_entry (plain_json c) = Some e \<and> covers c e"
    and "\<exists>e. checked_entry (cursor_json c) = Some e \<and> covers c e"
    and "\<exists>e. copied_entry (plain_json c) = Some e \<and> covers c e"
  using assms by (auto elim!: conductor_cases simp: checked_entry_def copied_entry_def plain_json_def cursor_json_def entry_simps)

lemma objects_not_null [simp]: "plain_json e \<noteq> JNull" "cursor_json e \<noteq> JNull" "merged_json v e \<noteq> JNull"
  "buildStdioEntry e \<noteq> JNull" "local_json b e \<noteq> JNull" "zed_json e \<noteq> JNull" "codex_json e \<noteq> JNull"
  by (simp_all add: plain_json_def cursor_json_def merged_json_def buildStdioEntry_def local_json_def zed_json_def codex_json_def)

lemma kept_key:
  assumes "distinct (map fst kvs)" "k \<noteq> key" "k \<noteq> ''__proto__''" "key \<noteq> ''__proto__''"
  shows "js_field k (overlay key v (spread (JObj kvs))) = map_of kvs k"
  using assms by (simp add: js_field_overlay map_of_spread)

text \<open>An adapter that writes a \<open>written\<close> map over a copy of the file and reads it back entry by entry.\<close>

lemma adapter_from_writer:
  assumes key: "key \<noteq> ''__proto__''"
    and parsed: "\<And>f servers raw. parse f = Config servers raw \<Longrightarrow> f = FParsed raw \<and> (\<exists>kvs. raw = JObj kvs) \<and> own_ok servers"
    and ser: "\<And>raw servers keepOnly c. serialize raw servers keepOnly c
       = overlay key (written (wc raw keepOnly c) (wr raw) (if keepOnly then [] else servers)) (src raw)"
    and root_ok: "\<And>raw. own_ok (src raw)"
    and root: "\<And>kvs k. distinct (map fst kvs) \<Longrightarrow> k \<noteq> key \<Longrightarrow> k \<noteq> ''__proto__'' \<Longrightarrow> map_of (src (JObj kvs)) k = map_of kvs k"
    and reads: "\<And>servers base raw keepOnly c. own_ok servers \<Longrightarrow> own_ok base \<Longrightarrow>
       parse (FParsed (overlay key (written (wc raw keepOnly c) (wr raw) servers) base))
         = Config (collect read (object_entries (written (wc raw keepOnly c) (wr raw) servers)))
             (overlay key (written (wc raw keepOnly c) (wr raw) servers) base)"
    and conductor: "\<And>raw keepOnly c. conductor_ok c \<Longrightarrow> \<exists>e. read (wc raw keepOnly c) = Some e \<and> covers c e"
    and entry: "\<And>f servers raw n e. parse f = Config servers raw \<Longrightarrow> keyed_once raw \<Longrightarrow> (n, e) \<in> set servers \<Longrightarrow> typed_entry e \<Longrightarrow>
       \<exists>e'. read (wr raw n e) = Some e' \<and> canon e' = canon e"
  shows "client_adapter key parse serialize"
proof
  show "f = FParsed raw \<and> (\<exists>kvs. raw = JObj kvs) \<and> own_ok servers" if "parse f = Config servers raw" for f servers raw
    using parsed [OF that] .
  show "js_field k (serialize (JObj kvs) servers keepOnly c) = map_of kvs k"
    if "keyed_once (JObj kvs)" "k \<noteq> key" "k \<noteq> ''__proto__''" for kvs k servers keepOnly c
  proof -
    have "distinct (map fst kvs)" using that(1) by (simp add: keyed_once_def)
    from root [OF this that(2,3)] show ?thesis unfolding ser js_field_overlay [OF root_ok key] using that(2) by simp
  qed
  show "\<exists>servers'. parse (FParsed (serialize (JObj kvs) servers True c)) = Config servers' (serialize (JObj kvs) servers True c)
      \<and> reread c True servers servers'" if cok: "conductor_ok c" for c kvs servers
  proof -
    obtain e where e: "read (wc (JObj kvs) True c) = Some e" "covers c e" using conductor [OF cok] by blast
    have "own_ok ([] :: (string, client_entry) jsmap)" by simp
    note r = reads [OF this root_ok, of "JObj kvs" True c "JObj kvs"]
    have "reread c True [] (collect read (object_entries (written (wc (JObj kvs) True c) (wr (JObj kvs)) [])))"
      using reread_written [of "[]" read "wc (JObj kvs) True c" e c True "wr (JObj kvs)"] e by simp
    then have "reread c True servers (collect read (object_entries (written (wc (JObj kvs) True c) (wr (JObj kvs)) [])))"
      by (simp add: reread_def)
    then show ?thesis unfolding ser using r by simp
  qed
  show "\<exists>servers'. parse (FParsed (serialize raw servers False c)) = Config servers' (serialize raw servers False c)
      \<and> reread c False servers servers'"
    if p: "parse f = Config servers raw" and w: "keyed_once raw" and t: "list_all (\<lambda>(n, e). typed_entry e) servers" and c: "conductor_ok c"
    for f servers raw c
  proof -
    have ok: "own_ok servers" using parsed [OF p] by blast
    obtain e where e: "read (wc raw False c) = Some e" "covers c e" using conductor [OF c] by blast
    have "\<forall>(n, e) \<in> set servers. \<not> False \<longrightarrow> (\<exists>e'. read (wr raw n e) = Some e' \<and> canon e' = canon e)"
      using entry [OF p w] t by (fastforce simp: list_all_iff)
    then show ?thesis
      unfolding ser using reads [OF ok root_ok, of raw False c raw] reread_written [where keepOnly = False and read = read and wr = "wr raw", OF ok e] by simp
  qed
qed

lemma wrote_map:
  "JObj (own_properties (AList.update CONDUCTOR (wr c) (server_map wr servers))) = written (wr c) (\<lambda>_. wr) servers"
  "JObj (own_properties [(CONDUCTOR, j)]) = written j wr' []"
  by (simp_all add: written_def server_map_def)

lemmas writes = wrote_map Let_def updated_map written_def server_map_def

lemma overlay_parts [simp]: "own_ok base \<Longrightarrow> key \<noteq> ''__proto__'' \<Longrightarrow> js_field key (overlay key v base) = Some v"
  by (simp add: js_field_overlay)

lemma js_field_object: "js_field k v = Some x \<Longrightarrow> \<exists>kvs. v = JObj kvs"
  by (cases v) (auto simp: js_field_def)

interpretation claude_code: client_adapter "''mcpServers''" claude_code_parse claude_code_serialize
proof (rule adapter_from_writer [where read = checked_entry and wc = "\<lambda>raw keepOnly. plain_json" and wr = "\<lambda>raw n. plain_json" and src = spread])
  show "f = FParsed raw \<and> (\<exists>kvs. raw = JObj kvs) \<and> own_ok servers" if "claude_code_parse f = Config servers raw" for f servers raw
    using that js_field_object
    by (auto simp: claude_code_parse_def collect_ok split: client_file.splits option.splits if_splits)
  show "claude_code_parse (FParsed (overlay ''mcpServers'' (written (plain_json c) (\<lambda>_. plain_json) servers) base))
      = Config (collect checked_entry (object_entries (written (plain_json c) (\<lambda>_. plain_json) servers)))
          (overlay ''mcpServers'' (written (plain_json c) (\<lambda>_. plain_json) servers) base)"
    if "own_ok servers" "own_ok base" for servers c base
    using that written_nonempty [OF that(1)] by (simp add: claude_code_parse_def)
qed (auto simp: claude_code_serialize_def writes map_of_spread checked_conductor checked_reread)

interpretation claude_desktop: client_adapter "''mcpServers''" claude_desktop_parse claude_desktop_serialize
proof (rule adapter_from_writer [where read = checked_entry and wc = "\<lambda>raw keepOnly. plain_json" and wr = "\<lambda>raw n. plain_json"
      and src = "\<lambda>raw. if object_like raw then spread raw else []"])
  show "f = FParsed raw \<and> (\<exists>kvs. raw = JObj kvs) \<and> own_ok servers" if "claude_desktop_parse f = Config servers raw" for f servers raw
    using that js_field_object
    by (auto simp: claude_desktop_parse_def collect_ok Let_def simp del: object_entries.simps
        split: client_file.splits option.splits if_splits json.splits)
  show "claude_desktop_parse (FParsed (overlay ''mcpServers'' (written (plain_json c) (\<lambda>_. plain_json) servers) base))
      = Config (collect checked_entry (object_entries (written (plain_json c) (\<lambda>_. plain_json) servers))) (overlay ''mcpServers'' (written (plain_json c) (\<lambda>_. plain_json) servers) base)"
    if "own_ok servers" "own_ok base" for servers c base
    using that written_nonempty [OF that(1)] written_no_null [OF that(1)] by (simp add: claude_desktop_parse_def)
qed (auto simp: claude_desktop_serialize_def writes map_of_spread checked_conductor checked_reread)

interpretation cursor: client_adapter "''mcpServers''" cursor_parse cursor_serialize
proof (rule adapter_from_writer [where read = checked_entry and wc = "\<lambda>raw keepOnly. cursor_json" and wr = "\<lambda>raw n. cursor_json"
      and src = "\<lambda>raw. if object_like raw then spread raw else []"])
  show "f = FParsed raw \<and> (\<exists>kvs. raw = JObj kvs) \<and> own_ok servers" if "cursor_parse f = Config servers raw" for f servers raw
    using that js_field_object
    by (auto simp: cursor_parse_def collect_ok Let_def simp del: object_entries.simps
        split: client_file.splits option.splits if_splits json.splits)
  show "cursor_parse (FParsed (overlay ''mcpServers'' (written (cursor_json c) (\<lambda>_. cursor_json) servers) base))
      = Config (collect checked_entry (object_entries (written (cursor_json c) (\<lambda>_. cursor_json) servers))) (overlay ''mcpServers'' (written (cursor_json c) (\<lambda>_. cursor_json) servers) base)"
    if "own_ok servers" "own_ok base" for servers c base
    using that written_nonempty [OF that(1)] by (simp add: cursor_parse_def)
qed (auto simp: cursor_serialize_def writes map_of_spread checked_conductor checked_reread)

interpretation cline: client_adapter "''mcpServers''" cline_parse cline_serialize
proof (rule adapter_from_writer [where read = copied_entry and wc = "\<lambda>raw keepOnly. plain_json" and wr = "\<lambda>raw n. plain_json"
      and src = "spread"])
  show "f = FParsed raw \<and> (\<exists>kvs. raw = JObj kvs) \<and> own_ok servers" if "cline_parse f = Config servers raw" for f servers raw
    using that js_field_object
    by (auto simp: cline_parse_def collect_ok Let_def nullish_field_def simp del: object_entries.simps
        split: client_file.splits option.splits if_splits json.splits)
  show "cline_parse (FParsed (overlay ''mcpServers'' (written (plain_json c) (\<lambda>_. plain_json) servers) base))
      = Config (collect copied_entry (object_entries (written (plain_json c) (\<lambda>_. plain_json) servers))) (overlay ''mcpServers'' (written (plain_json c) (\<lambda>_. plain_json) servers) base)"
    if "own_ok servers" "own_ok base" for servers c base
    using that written_nonempty [OF that(1)] written_no_null [OF that(1)] by (simp add: cline_parse_def Let_def)
qed (auto simp: cline_serialize_def writes map_of_spread checked_conductor checked_reread)

interpretation continue_adapter: client_adapter "''mcpServers''" continue_parse continue_serialize
proof (rule adapter_from_writer [where read = checked_entry and wc = "\<lambda>raw keepOnly. plain_json" and wr = "\<lambda>raw n. plain_json"
      and src = "spread"])
  show "f = FParsed raw \<and> (\<exists>kvs. raw = JObj kvs) \<and> own_ok servers" if "continue_parse f = Config servers raw" for f servers raw
    using that js_field_object
    by (auto simp: continue_parse_def collect_ok Let_def simp del: object_entries.simps
        split: client_file.splits option.splits if_splits json.splits)
  show "continue_parse (FParsed (overlay ''mcpServers'' (written (plain_json c) (\<lambda>_. plain_json) servers) base))
      = Config (collect checked_entry (object_entries (written (plain_json c) (\<lambda>_. plain_json) servers))) (overlay ''mcpServers'' (written (plain_json c) (\<lambda>_. plain_json) servers) base)"
    if "own_ok servers" "own_ok base" for servers c base
    using that written_nonempty [OF that(1)] by (simp add: continue_parse_def)
qed (auto simp: continue_serialize_def writes map_of_spread checked_conductor checked_reread)

subsection \<open>Zed, OpenCode, Codex\<close>

lemma written_local:
  assumes "own_ok servers"
  shows "\<exists>x \<in> set (object_entries (written (local_json b c) wr servers)). js_field ''type'' (snd x) = Some (JStr ''local'')"
proof
  show "(CONDUCTOR, local_json b c) \<in> set (object_entries (written (local_json b c) wr servers))"
    using written_entries(2) [OF assms, of "local_json b c" wr CONDUCTOR] by (simp add: map_of_SomeD)
qed (simp add: local_json_def)

lemma local_reread:
  assumes "typed_entry e"
  shows "\<exists>e'. opencode_entry (local_json b e) = Some e' \<and> canon e' = canon e"
  using assms by (auto elim!: typed_cases simp: opencode_entry_def copied_entry_def local_json_def entry_simps)

lemma local_conductor:
  assumes "conductor_ok c"
  shows "\<exists>e. opencode_entry (local_json b c) = Some e \<and> covers c e"
  using assms by (auto elim!: conductor_cases simp: opencode_entry_def copied_entry_def local_json_def entry_simps)

interpretation opencode: client_adapter "''mcp''" opencode_parse opencode_serialize
proof (rule adapter_from_writer [where read = opencode_entry and wc = "\<lambda>raw keepOnly. local_json False"
      and wr = "\<lambda>raw n. local_json (disabled_in raw n)" and src = spread])
  show "f = FParsed raw \<and> (\<exists>kvs. raw = JObj kvs) \<and> own_ok servers" if "opencode_parse f = Config servers raw" for f servers raw
    using that js_field_object
    by (auto simp: opencode_parse_def collect_ok Let_def simp del: object_entries.simps
        split: client_file.splits option.splits if_splits json.splits)
  show "opencode_parse (FParsed (overlay ''mcp'' (written (local_json False c) (\<lambda>n. local_json (disabled_in raw n)) servers) base))
      = Config (collect opencode_entry (object_entries (written (local_json False c) (\<lambda>n. local_json (disabled_in raw n)) servers)))
          (overlay ''mcp'' (written (local_json False c) (\<lambda>n. local_json (disabled_in raw n)) servers) base)"
    if "own_ok servers" "own_ok base" for servers c base raw
    using that written_no_null [OF that(1), of "local_json False c" "\<lambda>n. local_json (disabled_in raw n)"]
      written_local [OF that(1), of False c "\<lambda>n. local_json (disabled_in raw n)"]
    by (auto simp: opencode_parse_def Let_def filter_empty_conv split_def)
qed (auto simp: opencode_serialize_def writes map_of_spread local_conductor local_reread)

lemma zed_reread:
  assumes "zed_entry v = Some e" "typed_entry e"
  shows "\<exists>e'. zed_entry (zed_json e) = Some e' \<and> canon e' = canon e"
proof -
  have "en_command e \<noteq> Some (JStr [])" using assms(1) by (auto simp: zed_entry_def split: if_splits option.splits json.splits)
  then show ?thesis using assms(2)
    by (auto elim!: typed_cases simp: zed_entry_def zed_json_def long_field_def keyed_field_def entry_simps)
qed

lemma zed_conductor:
  assumes "conductor_ok c"
  shows "\<exists>e. zed_entry (zed_json c) = Some e \<and> covers c e"
  using assms by (auto elim!: conductor_cases simp: zed_entry_def zed_json_def long_field_def keyed_field_def entry_simps)

lemma zed_image: "zed_parse f = Config servers raw \<Longrightarrow> (n, e) \<in> set servers \<Longrightarrow> \<exists>v. zed_entry v = Some e"
  using collect_image [of n e zed_entry]
  by (fastforce simp: zed_parse_def simp del: object_entries.simps split: client_file.splits json.splits option.splits)

interpretation zed: client_adapter "''context_servers''" zed_parse zed_serialize
proof (rule adapter_from_writer [where read = zed_entry and wc = "\<lambda>raw keepOnly. zed_json" and wr = "\<lambda>raw n. zed_json"
      and src = "\<lambda>raw. case raw of JObj kvs \<Rightarrow> spread raw | _ \<Rightarrow> []"])
  show "f = FParsed raw \<and> (\<exists>kvs. raw = JObj kvs) \<and> own_ok servers" if "zed_parse f = Config servers raw" for f servers raw
    using that collect_ok [of zed_entry]
    by (auto simp: zed_parse_def simp del: object_entries.simps split: client_file.splits option.splits json.splits)
  show "zed_parse (FParsed (overlay ''context_servers'' (written (zed_json c) (\<lambda>_. zed_json) servers) base))
      = Config (collect zed_entry (object_entries (written (zed_json c) (\<lambda>_. zed_json) servers)))
          (overlay ''context_servers'' (written (zed_json c) (\<lambda>_. zed_json) servers) base)"
    if "own_ok servers" "own_ok base" for servers c base
  proof -
    obtain ws where w: "written (zed_json c) (\<lambda>_. zed_json) servers = JObj ws" by (simp add: written_def)
    have "js_field ''context_servers'' (overlay ''context_servers'' (JObj ws) base) = Some (JObj ws)" using that by simp
    then show ?thesis unfolding w by (simp add: zed_parse_def overlay_def)
  qed
  show "\<exists>e'. zed_entry (zed_json e) = Some e' \<and> canon e' = canon e"
    if "zed_parse f = Config servers raw" "(n, e) \<in> set servers" "typed_entry e" for f servers raw n e
    using zed_image [OF that(1,2)] zed_reread that(3) by blast
qed (auto simp: zed_serialize_def writes map_of_spread zed_conductor split: json.splits)

lemma own_properties_twice: "own_properties (own_properties kvs) = own_properties kvs"
proof -
  let ?own = "filter (\<lambda>(k, v). k \<noteq> ''__proto__'') kvs"
  let ?a = "sort_key (\<lambda>(k, v). digits_value k) (filter (\<lambda>(k, v). is_array_index k) ?own)"
  let ?b = "filter (\<lambda>(k, v). \<not> is_array_index k) ?own"
  have eq: "own_properties kvs = ?a @ ?b" by (simp add: own_properties_def Let_def)
  have "filter (\<lambda>(k, v). k \<noteq> ''__proto__'') (?a @ ?b) = ?a @ ?b" by (rule filter_True) auto
  moreover have "filter (\<lambda>(k, v). is_array_index k) (?a @ ?b) = ?a"
  proof -
    have "filter (\<lambda>(k, v). is_array_index k) ?a = ?a" by (rule filter_True) auto
    moreover have "filter (\<lambda>(k, v). is_array_index k) ?b = []" by (rule filter_False) auto
    ultimately show ?thesis by simp
  qed
  moreover have "filter (\<lambda>(k, v). \<not> is_array_index k) (?a @ ?b) = ?b"
  proof -
    have "filter (\<lambda>(k, v). \<not> is_array_index k) ?a = []" by (rule filter_False) auto
    moreover have "filter (\<lambda>(k, v). \<not> is_array_index k) ?b = ?b" by (rule filter_True) auto
    ultimately show ?thesis by simp
  qed
  moreover have "sort_key (\<lambda>(k, v). digits_value k) ?a = ?a" by (simp add: sort_key_id_if_sorted)
  ultimately show ?thesis unfolding eq by (subst own_properties_def) (simp only: Let_def)
qed

lemma codex_env:
  assumes "normaliseEnvVars x = env"
  shows "normaliseEnvVars (JObj env) = env" "own_properties env = env"
proof -
  have own: "own_properties env = env" using assms own_properties_twice by (auto simp: normaliseEnvVars_def)
  have "set env \<subseteq> set (filter (\<lambda>(k, v). is_text v) (object_entries x))"
    unfolding assms [symmetric] normaliseEnvVars_def set_own_properties by blast
  then have "filter (\<lambda>(k, v). is_text v) env = env" by (intro filter_True) auto
  then show "normaliseEnvVars (JObj env) = env" "own_properties env = env" by (simp_all add: normaliseEnvVars_def own)
qed

lemma codex_image:
  assumes "codex_entry v = Some e"
  shows "\<exists>s. en_command e = Some (JStr s) \<and> js_trim s \<noteq> []"
    and "en_args e = None \<or> (\<exists>xs. en_args e = Some (JArr xs) \<and> filter is_text xs = xs)"
    and "en_env e = None \<or> (\<exists>env. en_env e = Some (JObj env) \<and> env \<noteq> [] \<and> normaliseEnvVars (JObj env) = env \<and> own_properties env = env)"
proof -
  have "en_env e = None \<or> (\<exists>x env. en_env e = Some (JObj env) \<and> env \<noteq> [] \<and> normaliseEnvVars x = env)"
    using assms by (auto simp: codex_entry_def Let_def split: option.splits json.splits if_splits)
  then show "en_env e = None \<or> (\<exists>env. en_env e = Some (JObj env) \<and> env \<noteq> [] \<and> normaliseEnvVars (JObj env) = env \<and> own_properties env = env)"
    using codex_env by blast
qed (use assms in \<open>auto simp: codex_entry_def split: option.splits json.splits if_splits\<close>)

lemma codex_reread:
  assumes "codex_entry v = Some e"
  shows "\<exists>e'. codex_entry (codex_json e) = Some e' \<and> canon e' = canon e"
  using codex_image [OF assms]
  by (auto simp: codex_entry_def codex_json_def keyed_field_def entry_simps Let_def)

lemma codex_conductor:
  assumes "conductor_ok c"
  shows "\<exists>e. codex_entry (codex_json c) = Some e \<and> covers c e"
  using assms
  by (auto elim!: conductor_cases simp: codex_entry_def codex_json_def keyed_field_def entry_simps Let_def normaliseEnvVars_def)

definition codex_rest :: "json \<Rightarrow> (string \<times> json) list" where
  "codex_rest raw =
     foldl (\<lambda>t (k, v). if k \<noteq> ''mcp_servers'' then AList.update k v t else t) [] (if object_like raw then object_entries raw else [])"

lemma codex_rest_filter:
  "foldl (\<lambda>t (k, v). if k \<noteq> ''mcp_servers'' then AList.update k v t else t) m es
     = foldl (\<lambda>t (k, v). AList.update k v t) m (filter (\<lambda>(k, v). k \<noteq> ''mcp_servers'') es)"
  by (induction es arbitrary: m) auto

lemma codex_rest_ok: "own_ok (codex_rest raw)"
proof -
  let ?es = "filter (\<lambda>(k, v). k \<noteq> ''mcp_servers'') (if object_like raw then object_entries raw else [])"
  have "''__proto__'' \<notin> fst ` set ?es" using entries_no_proto by fastforce
  then show ?thesis unfolding codex_rest_def codex_rest_filter using updates_ok [of "[]" ?es "\<lambda>k x. x"] by simp
qed

lemma map_of_codex_rest:
  assumes "distinct (map fst kvs)" "k \<noteq> ''mcp_servers''" "k \<noteq> ''__proto__''"
  shows "map_of (codex_rest (JObj kvs)) k = map_of kvs k"
proof -
  let ?es = "filter (\<lambda>(k, v). k \<noteq> ''mcp_servers'') (own_properties kvs)"
  have d: "distinct (map fst ?es)" using distinct_own [OF assms(1)] by (simp add: distinct_map_filter)
  have "map_of (filter (\<lambda>(k, v). k \<noteq> ''mcp_servers'') es) k = map_of es k" for es :: "(string \<times> json) list"
    using assms(2) by (induction es) auto
  then have "map_of ?es k = map_of (own_properties kvs) k" .
  moreover have "map_of (own_properties kvs) k = map_of (spread (JObj kvs)) k"
    using map_of_updates [OF distinct_own [OF assms(1)], of "\<lambda>k x. x" "[]" k] by (simp add: spread_def split: option.splits)
  ultimately show ?thesis
    using map_of_updates [OF d, of "\<lambda>k x. x" "[]" k] map_of_spread [OF assms(1,3)]
    by (simp add: codex_rest_def codex_rest_filter split: option.splits)
qed

lemma parsed_image:
  assumes "(n, e) \<in> set servers" "servers = collect read es"
  shows "\<exists>v. read v = Some e"
  using collect_image assms by blast

interpretation codex: client_adapter "''mcp_servers''" codex_parse codex_serialize
proof (rule adapter_from_writer [where read = codex_entry and wc = "\<lambda>raw keepOnly. codex_json" and wr = "\<lambda>raw n. codex_json"
      and src = codex_rest])
  show "f = FParsed raw \<and> (\<exists>kvs. raw = JObj kvs) \<and> own_ok servers" if "codex_parse f = Config servers raw" for f servers raw
    using that js_field_object
    by (auto simp: codex_parse_def collect_ok Let_def simp del: object_entries.simps
        split: client_file.splits option.splits if_splits json.splits)
  show "codex_parse (FParsed (overlay ''mcp_servers'' (written (codex_json c) (\<lambda>_. codex_json) servers) base))
      = Config (collect codex_entry (object_entries (written (codex_json c) (\<lambda>_. codex_json) servers)))
          (overlay ''mcp_servers'' (written (codex_json c) (\<lambda>_. codex_json) servers) base)"
    if "own_ok servers" "own_ok base" for servers c base
    using that written_nonempty [OF that(1)] by (simp add: codex_parse_def)
  show "\<exists>e'. codex_entry (codex_json e) = Some e' \<and> canon e' = canon e"
    if p: "codex_parse f = Config servers raw" and m: "(n, e) \<in> set servers" for f servers raw n e
  proof -
    obtain es where "servers = collect codex_entry es"
      using p by (auto simp: codex_parse_def split: client_file.splits option.splits if_splits)
    then show ?thesis using parsed_image [OF m] codex_reread by blast
  qed
qed (auto simp: codex_serialize_def writes codex_rest_ok map_of_codex_rest codex_conductor codex_rest_def [symmetric])

subsection \<open>Gemini\<close>

lemma spread_keys: "fst ` set (spread v) \<subseteq> fst ` set (object_entries v)"
proof -
  have "fst ` set (foldl (\<lambda>m (k, x). AList.update k x m) m es) \<subseteq> fst ` set m \<union> fst ` set es" for m es :: "(string \<times> json) list"
  proof (induction es arbitrary: m)
    case (Cons e es)
    obtain a x where e: "e = (a, x)" by (rule prod.exhaust)
    show ?case using Cons.IH [of "AList.update a x m"] by (auto simp: e dom_update)
  qed simp
  from this [of "[]"] show ?thesis by (auto simp: spread_def)
qed

definition original_fields :: "json option \<Rightarrow> (string \<times> json) list" where
  "original_fields original = spread (nullish original (JObj []))"

lemma merged_fields:
  assumes "en_command e = Some x"
  shows "js_field ''command'' (merged_json original e) = Some x"
    and "js_field ''args'' (merged_json original e)
       = (case en_args e of Some a \<Rightarrow> Some a | None \<Rightarrow> map_of (original_fields original) ''args'')"
    and "js_field ''env'' (merged_json original e)
       = (case en_env e of Some a \<Rightarrow> Some a | None \<Rightarrow> map_of (original_fields original) ''env'')"
proof -
  let ?o = "original_fields original"
  let ?m = "set_field ''env'' (en_env e) (set_field ''args'' (en_args e) (AList.update ''command'' x ?o))"
  have ok: "own_ok ?m" by (auto simp: set_field_def original_fields_def split: option.splits)
  have m: "merged_json original e = JObj (own_properties ?m)" using assms by (simp add: merged_json_def original_fields_def)
  show "js_field ''command'' (merged_json original e) = Some x"
    "js_field ''args'' (merged_json original e) = (case en_args e of Some a \<Rightarrow> Some a | None \<Rightarrow> map_of ?o ''args'')"
    "js_field ''env'' (merged_json original e) = (case en_env e of Some a \<Rightarrow> Some a | None \<Rightarrow> map_of ?o ''env'')"
    unfolding m js_field_JObj map_of_own [OF ok] by (auto simp: set_field_def split: option.splits)
qed

lemma gemini_command: "gemini_entry v = Some e \<Longrightarrow> \<exists>s. en_command e = Some (JStr s) \<and> v \<noteq> JNull"
  by (auto simp: gemini_entry_def copied_entry_def string_command_def js_field_def split: if_splits option.splits json.splits)

lemma gemini_reread:
  assumes "gemini_entry v = Some e"
  shows "\<exists>e'. gemini_entry (merged_json (Some v) e) = Some e' \<and> canon e' = canon e"
proof -
  obtain s where s: "en_command e = Some (JStr s)" using gemini_command [OF assms] by blast
  obtain kvs where v: "v = JObj kvs" "js_field ''args'' v = en_args e" "js_field ''env'' v = en_env e"
    using assms by (auto simp: gemini_entry_def copied_entry_def string_command_def js_field_def split: if_splits option.splits json.splits)
  have none: "map_of (original_fields (Some v)) k = None" if "js_field k v = None" for k
  proof -
    have "k \<notin> fst ` set (own_properties kvs)" using that v(1) by (auto simp: set_own_properties map_of_eq_None_iff)
    then have "k \<notin> fst ` set (spread v)" using spread_keys [of v] v(1) by auto
    then show ?thesis by (simp add: original_fields_def nullish_def map_of_eq_None_iff)
  qed
  have "js_field ''args'' (merged_json (Some v) e) = en_args e" "js_field ''env'' (merged_json (Some v) e) = en_env e"
    unfolding merged_fields(2,3) [OF s] using none v(2,3) by (auto split: option.splits)
  then show ?thesis using merged_fields(1) [OF s, of "Some v"] s
    by (simp add: gemini_entry_def copied_entry_def string_command_def canon_def)
qed

lemma gemini_conductor:
  assumes "conductor_ok c"
  shows "\<exists>e. gemini_entry (merged_json original c) = Some e \<and> covers c e"
    and "\<exists>e. gemini_entry (plain_json c) = Some e \<and> covers c e"
proof -
  obtain s where s: "en_command c = Some (JStr s)" using assms by (rule conductor_cases)
  show "\<exists>e. gemini_entry (merged_json original c) = Some e \<and> covers c e"
    using merged_fields [OF s, of original]
    by (auto simp: gemini_entry_def copied_entry_def string_command_def covers_def s nullish_def)
  show "\<exists>e. gemini_entry (plain_json c) = Some e \<and> covers c e"
    using checked_conductor(3) [OF assms] s by (auto simp: gemini_entry_def string_command_def plain_json_def)
qed

definition gemini_raw :: "json \<Rightarrow> (string \<times> json) list" where
  "gemini_raw raw = object_entries (nullish (js_field ''mcpServers'' raw) (JObj []))"

lemma gemini_original:
  assumes "gemini_parse f = Config servers raw" "keyed_once raw" "(n, e) \<in> set servers"
  shows "\<exists>v. map_of (gemini_raw raw) n = Some v \<and> gemini_entry v = Some e"
proof -
  obtain m where f: "js_field ''mcpServers'' raw = Some m" "servers = collect gemini_entry (object_entries m)"
    using assms(1) by (auto simp: gemini_parse_def simp del: object_entries.simps split: client_file.splits option.splits if_splits)
  obtain kvs where "raw = JObj kvs" using js_field_object [OF f(1)] by blast
  note m = f this
  then have "(''mcpServers'', m) \<in> set kvs" by (simp add: map_of_SomeD)
  then have "distinct (map fst (object_entries m))" using assms(2) m(3) by (auto simp: keyed_once_def list_all_iff)
  moreover obtain v where "(n, v) \<in> set (object_entries m)" "gemini_entry v = Some e" using collect_image assms(3) m(2) by blast
  ultimately show ?thesis using m(1) by (auto simp: gemini_raw_def nullish_def)
qed

interpretation gemini: client_adapter "''mcpServers''" gemini_parse gemini_serialize
proof (rule adapter_from_writer [where read = gemini_entry
      and wc = "\<lambda>raw keepOnly c. if keepOnly then plain_json c else merged_json (map_of (gemini_raw raw) CONDUCTOR) c"
      and wr = "\<lambda>raw n. merged_json (map_of (gemini_raw raw) n)" and src = spread])
  show "f = FParsed raw \<and> (\<exists>kvs. raw = JObj kvs) \<and> own_ok servers" if "gemini_parse f = Config servers raw" for f servers raw
    using that js_field_object
    by (auto simp: gemini_parse_def collect_ok Let_def simp del: object_entries.simps
        split: client_file.splits option.splits if_splits json.splits)
  show "\<exists>e'. gemini_entry (merged_json (map_of (gemini_raw raw) n) e) = Some e' \<and> canon e' = canon e"
    if "gemini_parse f = Config servers raw" "keyed_once raw" "(n, e) \<in> set servers" for f servers raw n e
    using gemini_original [OF that] gemini_reread by fastforce
qed (auto simp: gemini_serialize_def gemini_parse_def gemini_raw_def writes map_of_spread gemini_conductor)

subsection \<open>Kimi Code\<close>

lemma kimi_built:
  assumes "typed_entry e"
  shows "\<exists>e'. kimi_entry (buildStdioEntry e) = Some e' \<and> canon e' = canon e"
  using assms
  by (auto elim!: typed_cases simp: kimi_entry_def isHttpEntry_def string_command_def buildStdioEntry_def long_field_def
      keyed_field_def nullish_field_def canon_def nullish_def)

lemma kimi_conductor:
  assumes "conductor_ok c"
  shows "\<exists>e. kimi_entry (buildStdioEntry c) = Some e \<and> covers c e"
  using assms
  by (auto elim!: conductor_cases simp: kimi_entry_def isHttpEntry_def string_command_def buildStdioEntry_def long_field_def
      keyed_field_def nullish_field_def covers_def nullish_def)

text \<open>The merged map: the entries of the file, the servers over them and the conductor over all.\<close>

definition kimi_map :: "json \<Rightarrow> (string, client_entry) jsmap \<Rightarrow> client_entry \<Rightarrow> (string \<times> json) list" where
  "kimi_map m servers c =
     AList.update CONDUCTOR (buildStdioEntry c) (foldl (\<lambda>m (n, e). AList.update n (buildStdioEntry e) m) (spread m) servers)"

lemma kimi_fold: "own_ok servers \<Longrightarrow> own_ok m \<Longrightarrow> own_ok (foldl (\<lambda>m (n, e). AList.update n (buildStdioEntry e) m) m servers)"
  using updates_ok [of m servers "\<lambda>n. buildStdioEntry"] by (auto simp: own_ok_def)

lemma map_of_kimi_fold:
  "own_ok servers \<Longrightarrow> map_of (foldl (\<lambda>m (n, e). AList.update n (buildStdioEntry e) m) m servers) k
     = (case map_of servers k of Some e \<Rightarrow> Some (buildStdioEntry e) | None \<Rightarrow> map_of m k)"
proof (induction servers arbitrary: m)
  case (Cons s servers)
  obtain a x where s: "s = (a, x)" by (rule prod.exhaust)
  have a: "map_of servers a = None" and d: "own_ok servers" using Cons.prems by (auto simp: s own_ok_def map_of_eq_None_iff)
  show ?case using Cons.IH [OF d, of "AList.update a (buildStdioEntry x) m"] a by (auto simp: s split: option.splits)
qed simp

lemma kimi_map_ok: "own_ok servers \<Longrightarrow> own_ok (kimi_map m servers c)"
  by (simp add: kimi_map_def kimi_fold)

lemma map_of_kimi_map:
  assumes "own_ok servers"
  shows "map_of (kimi_map m servers c) n
     = (if n = CONDUCTOR then Some (buildStdioEntry c)
        else case map_of servers n of Some e \<Rightarrow> Some (buildStdioEntry e) | None \<Rightarrow> map_of (spread m) n)"
  using assms by (simp add: kimi_map_def map_of_kimi_fold)

lemma map_of_spread_entries:
  assumes "distinct (map fst (object_entries m))"
  shows "map_of (spread m) n = map_of (object_entries m) n"
  using map_of_updates [OF assms, of "\<lambda>k x. x" "[]" n] by (simp add: spread_def split: option.splits)

lemma kimi_reads:
  assumes "own_ok ws" "map_of ws CONDUCTOR = Some (buildStdioEntry c)" "\<And>n. map_of ws n \<noteq> Some JNull" "own_ok base"
  shows "kimi_parse (FParsed (overlay ''mcpServers'' (JObj (own_properties ws)) base))
     = Config (collect kimi_entry (own_properties (own_properties ws))) (overlay ''mcpServers'' (JObj (own_properties ws)) base)"
proof -
  have m: "map_of (own_properties (own_properties ws)) n = map_of ws n" for n using assms(1) by (simp add: map_of_own)
  have d: "distinct (map fst (own_properties (own_properties ws)))" using assms(1) own_ok_own own_ok_def by blast
  have "own_properties (own_properties ws) \<noteq> []" using m [of CONDUCTOR] assms(2) by auto
  moreover have "\<not> has_null_entry (JObj (own_properties ws))"
  proof
    assume "has_null_entry (JObj (own_properties ws))"
    then obtain n where "(n, JNull) \<in> set (own_properties (own_properties ws))" by (auto simp: has_null_entry_def list_ex_iff)
    then have "map_of ws n = Some JNull" using d m [of n] by simp
    then show False using assms(3) by blast
  qed
  ultimately show ?thesis using assms(4) by (simp add: kimi_parse_def)
qed

lemma kimi_collected:
  assumes "own_ok ws"
  shows "map_of (collect kimi_entry (own_properties (own_properties ws))) n = Option.bind (map_of ws n) kimi_entry"
proof -
  have "distinct (map fst (own_properties (own_properties ws)))" using assms own_ok_own own_ok_def by blast
  then show ?thesis using assms by (simp add: map_of_collect map_of_own)
qed

lemma kimi_parsed:
  assumes "kimi_parse f = Config servers raw"
  shows "f = FParsed raw \<and> (\<exists>kvs. raw = JObj kvs) \<and> own_ok servers"
    and "\<exists>m. js_field ''mcpServers'' raw = Some m \<and> \<not> has_null_entry m \<and> servers = collect kimi_entry (object_entries m) \<and> m \<noteq> JNull"
  using assms js_field_object
  by (auto simp: kimi_parse_def collect_ok simp del: object_entries.simps split: client_file.splits option.splits if_splits)

interpretation kimi: client_adapter "''mcpServers''" kimi_parse kimi_serialize
proof
  show "f = FParsed raw \<and> (\<exists>kvs. raw = JObj kvs) \<and> own_ok servers" if "kimi_parse f = Config servers raw" for f servers raw
    using kimi_parsed(1) [OF that] .
  show "js_field k (kimi_serialize (JObj kvs) servers keepOnly c) = map_of kvs k"
    if "keyed_once (JObj kvs)" "k \<noteq> ''mcpServers''" "k \<noteq> ''__proto__''" for kvs k servers keepOnly c
    using that by (simp add: kimi_serialize_def Let_def kept_key keyed_once_def)
  show "\<exists>servers'. kimi_parse (FParsed (kimi_serialize (JObj kvs) servers True c)) = Config servers' (kimi_serialize (JObj kvs) servers True c)
      \<and> reread c True servers servers'" if cok: "conductor_ok c" for c kvs servers
  proof -
    let ?ws = "[(CONDUCTOR, buildStdioEntry c)]"
    obtain e where e: "kimi_entry (buildStdioEntry c) = Some e" "covers c e" using kimi_conductor [OF cok] by blast
    have ok: "own_ok ?ws" by simp
    have "kimi_parse (FParsed (overlay ''mcpServers'' (JObj (own_properties ?ws)) (spread (JObj kvs))))
       = Config (collect kimi_entry (own_properties (own_properties ?ws)))
           (overlay ''mcpServers'' (JObj (own_properties ?ws)) (spread (JObj kvs)))"
      by (rule kimi_reads [OF ok, of c]) auto
    moreover have "reread c True servers (collect kimi_entry (own_properties (own_properties ?ws)))"
      using e by (simp add: reread_def kimi_collected [OF ok])
    ultimately show ?thesis by (simp add: kimi_serialize_def)
  qed
  show "\<exists>servers'. kimi_parse (FParsed (kimi_serialize raw servers False c)) = Config servers' (kimi_serialize raw servers False c)
      \<and> reread c False servers servers'"
    if p: "kimi_parse f = Config servers raw" and w: "keyed_once raw" and t: "list_all (\<lambda>(n, e). typed_entry e) servers"
      and cok: "conductor_ok c" for f servers raw c
  proof -
    obtain kvs where raw: "raw = JObj kvs" and sok: "own_ok servers" using kimi_parsed(1) [OF p] by blast
    obtain m where m: "js_field ''mcpServers'' raw = Some m" "\<not> has_null_entry m" "servers = collect kimi_entry (object_entries m)"
      "m \<noteq> JNull" using kimi_parsed(2) [OF p] by blast
    have "(''mcpServers'', m) \<in> set kvs" using m(1) raw by (simp add: map_of_SomeD)
    then have d: "distinct (map fst (object_entries m))" using w raw by (auto simp: keyed_once_def list_all_iff)
    let ?ws = "kimi_map m servers c"
    obtain e where e: "kimi_entry (buildStdioEntry c) = Some e" "covers c e" using kimi_conductor [OF cok] by blast
    note ok = kimi_map_ok [OF sok, of m c] and ws = map_of_kimi_map [OF sok, of m c]
    have not_null: "map_of (object_entries m) n \<noteq> Some JNull" for n
      using m(2) by (auto simp: has_null_entry_def list_ex_iff dest!: map_of_SomeD)
    have "map_of ?ws n \<noteq> Some JNull" for n
      using not_null [of n] by (auto simp: ws map_of_spread_entries [OF d] split: option.splits)
    from kimi_reads [OF ok _ this spread_ok] have parsed:
      "kimi_parse (FParsed (overlay ''mcpServers'' (JObj (own_properties ?ws)) (spread raw)))
       = Config (collect kimi_entry (own_properties (own_properties ?ws))) (overlay ''mcpServers'' (JObj (own_properties ?ws)) (spread raw))"
      by (simp add: ws)
    have "map_option canon (map_of (collect kimi_entry (own_properties (own_properties ?ws))) n) = map_option canon (map_of servers n)"
      if n: "n \<noteq> CONDUCTOR" for n
    proof (cases "map_of servers n")
      case None
      then have "Option.bind (map_of (object_entries m) n) kimi_entry = None" unfolding m(3) map_of_collect [OF d] .
      then show ?thesis using n None by (simp add: kimi_collected [OF ok] ws map_of_spread_entries [OF d])
    next
      case (Some x)
      then have "typed_entry x" using t by (auto simp: list_all_iff dest!: map_of_SomeD)
      from kimi_built [OF this] show ?thesis using n Some by (auto simp: kimi_collected [OF ok] ws)
    qed
    then have "reread c False servers (collect kimi_entry (own_properties (own_properties ?ws)))"
      using e by (simp add: reread_def kimi_collected [OF ok] ws)
    moreover have "kimi_serialize raw servers False c = overlay ''mcpServers'' (JObj (own_properties ?ws)) (spread raw)"
      using m(1,4) by (simp add: kimi_serialize_def Let_def kimi_map_def)
    ultimately show ?thesis using parsed by simp
  qed
qed

subsection \<open>All adapters\<close>

interpretation adapter: client_adapter "native_key client" "adapter_parse client" "adapter_serialize client" for client
  by (cases client)
    (simp_all add: claude_code.client_adapter_axioms claude_desktop.client_adapter_axioms codex.client_adapter_axioms
      gemini.client_adapter_axioms cursor.client_adapter_axioms cline.client_adapter_axioms zed.client_adapter_axioms
      continue_adapter.client_adapter_axioms opencode.client_adapter_axioms kimi.client_adapter_axioms)

text \<open>C35: Every adapter reads back what it wrote. The written file has the entry of the conductor; without
  \<open>keepOnlyConductor\<close> it has, with their command, arguments and environment, the servers that \<open>parse\<close> had
  understood in the old file, and no other it would understand; with it no other server; and every top-level key of
  the file but that of the server map is as it was. An absent list of arguments and an empty one are taken for the same,
  and so for the environment. The conditions: the objects of the file have every key once, as parsed ones
  do; the command of each server is a text, its arguments a list and its environment a map (\<open>typed_entry\<close>); the
  command of the conductor is not blank, its arguments and environment are texts (\<open>conductor_ok\<close>). Nothing is
  said of entries that \<open>parse\<close> does not understand, such as remote servers, and of other fields of an entry:
  most adapters lose them, as the lemmas below show.\<close>

theorem adapters_round_trip:
  assumes "adapter_parse client f = Config servers raw" "keyed_once raw" "list_all (\<lambda>(n, e). typed_entry e) servers"
    and "conductor_ok c"
  shows "(\<exists>servers'. adapter_parse client (FParsed (adapter_serialize client raw servers keepOnly c))
        = Config servers' (adapter_serialize client raw servers keepOnly c) \<and> reread c keepOnly servers servers')
    \<and> (\<forall>k. k \<noteq> native_key client \<and> k \<noteq> ''__proto__'' \<longrightarrow>
         js_field k (adapter_serialize client raw servers keepOnly c) = js_field k raw)"
  using adapter.round_trip [OF assms] adapter.other_keys [OF assms(1,2)] by blast

definition conductor_entry :: client_entry where
  "conductor_entry =
     \<lparr>en_command = Some (JStr ''npx''),
      en_args = Some (JArr [JStr ''-y'', JStr ''@darkiceinteractive/mcp-conductor@latest'']), en_env = None\<rparr>"

lemma conductor_entry_ok: "conductor_ok conductor_entry"
  by code_simp

definition demo_settings :: json where
  "demo_settings =
     JObj [(''theme'', JStr ''dark''),
       (''context_servers'', JObj [(''git'', JObj [(''source'', JStr ''custom''), (''command'', JStr ''uvx''), (''args'', JArr [JStr ''git''])])])]"

definition git_entry :: client_entry where
  "git_entry = \<lparr>en_command = Some (JStr ''uvx''), en_args = Some (JArr [JStr ''git'']), en_env = None\<rparr>"

theorem adapters_round_trip_witness:
  "adapter_parse Zed (FParsed demo_settings) = Config [(''git'', git_entry)] demo_settings
   \<and> js_field ''theme'' (adapter_serialize Zed demo_settings [(''git'', git_entry)] False conductor_entry) = Some (JStr ''dark'')"
proof -
  have p: "adapter_parse Zed (FParsed demo_settings) = Config [(''git'', git_entry)] demo_settings"
    and k: "keyed_once demo_settings" and t: "list_all (\<lambda>(n, e). typed_entry e) [(''git'', git_entry)]" by code_simp+
  have "''theme'' \<noteq> native_key Zed \<and> ''theme'' \<noteq> ''__proto__''" by simp
  moreover have "js_field ''theme'' demo_settings = Some (JStr ''dark'')" by (simp add: demo_settings_def)
  ultimately show ?thesis using adapters_round_trip [OF p k t conductor_entry_ok, of False] p by metis
qed

text \<open>What is not kept: an entry that \<open>parse\<close> does not understand, such as a remote server, and fields of an entry that
  it does not know. Gemini keeps the fields and Kimi the remote servers.\<close>

definition mixed_settings :: "string \<Rightarrow> json" where
  "mixed_settings key =
     JObj [(key, JObj
       [(''local'', JObj [(''type'', JStr ''local''), (''source'', JStr ''custom''), (''command'', JStr ''uvx''), (''timeout'', JNum 5)]),
        (''remote'', JObj [(''type'', JStr ''http''), (''source'', JStr ''extension''), (''url'', JStr ''u'')])])]"

definition after_install :: "client_id \<Rightarrow> json" where
  "after_install client =
     (case adapter_parse client (FParsed (mixed_settings (native_key client))) of
        Config servers raw \<Rightarrow> nullish (js_field (native_key client) (adapter_serialize client raw servers False conductor_entry)) JNull
      | _ \<Rightarrow> JNull)"

lemma remote_servers_are_lost:
  "list_all (\<lambda>client. js_field ''local'' (after_install client) \<noteq> None \<and> js_field ''remote'' (after_install client) = None)
     [ClaudeCode, ClaudeDesktop, Codex, GeminiCli, Cursor, Zed, Continue, OpenCode]"
  by code_simp

lemma other_fields_are_lost:
  "list_all (\<lambda>client. map_option (js_field ''timeout'') (js_field ''local'' (after_install client)) = Some None)
     [ClaudeCode, ClaudeDesktop, Codex, Cursor, Cline, Zed, Continue, OpenCode, KimiCode]"
  by code_simp

lemma kept_by_gemini_and_kimi:
  "map_option (js_field ''timeout'') (js_field ''local'' (after_install GeminiCli)) = Some (Some (JNum 5))"
  "map_option (js_field ''url'') (js_field ''remote'' (after_install KimiCode)) = Some (Some (JStr ''u''))"
  by code_simp+

text \<open>The flag \<open>enabled: false\<close> of the conductor's own entry is not kept by OpenCode, and an empty map of Claude Desktop is
  a configuration.\<close>

lemma conductor_is_enabled_again:
  "adapter_serialize OpenCode (JObj [(''mcp'', JObj [(CONDUCTOR, JObj [(''type'', JStr ''local''), (''enabled'', JBool False)])])])
     [(CONDUCTOR, conductor_entry)] False conductor_entry
   = JObj [(''mcp'', JObj [(CONDUCTOR, local_json False conductor_entry)])]"
  by code_simp

lemma desktop_empty_map:
  "adapter_parse ClaudeDesktop (FParsed (JObj [(''mcpServers'', JObj [])])) = Config [] (JObj [(''mcpServers'', JObj [])])"
  by code_simp

text \<open>Files that are JSON but not of the expected form make \<open>parse\<close> throw instead of giving \<open>null\<close>.\<close>

lemma null_files_throw:
  "list_all (\<lambda>client. adapter_parse client (FParsed JNull) = Throws)
     [ClaudeCode, ClaudeDesktop, GeminiCli, Cursor, Cline, OpenCode, KimiCode]"
  by code_simp

lemma null_entries_throw:
  "list_all (\<lambda>client. adapter_parse client (FParsed (JObj [(native_key client, JObj [(''a'', JNull)])])) = Throws)
     [ClaudeDesktop, Cline, OpenCode, KimiCode]"
  by code_simp

end
