(* ===== verification/ClientSetup.thy ===== *)
theory ClientSetup
  imports ClientAdapters ServerAdmin
begin

text \<open>
  Moving servers into the conductor: the places where the clients keep their configuration
  (\<open>src/src/cli/clients/registry.ts\<close>), backups (\<open>src/src/utils/backup.ts\<close>), the import and export commands, the setup
  wizard and the doctor (\<open>src/src/cli/commands/\<close>, \<open>src/src/cli/wizard/setup.ts\<close>), and the routing hints. Clocks, random numbers
  and answers of the user are parameters, and so is \<open>join\<close> of paths. A command is a text, arguments and environment
  values are texts; other values are outside the model, as are names that every object inherits.
\<close>

subsection \<open>Where configurations are\<close>

datatype platform = MacOS | Windows | OtherOS

datatype config_scope = GlobalScope | ProjectScope

record machine =
  ma_home :: string
  ma_cwd :: string
  ma_appData :: string
  ma_localAppData :: string
  ma_platform :: platform
  ma_join :: "string list \<Rightarrow> string"

record location =
  lo_client :: client_id
  lo_path :: string
  lo_scope :: config_scope

definition loc :: "client_id \<Rightarrow> string \<Rightarrow> location" where
  "loc client path = \<lparr>lo_client = client, lo_path = path, lo_scope = GlobalScope\<rparr>"

definition project_loc :: "client_id \<Rightarrow> string \<Rightarrow> location" where
  "project_loc client path = \<lparr>lo_client = client, lo_path = path, lo_scope = ProjectScope\<rparr>"

definition on_mac :: "machine \<Rightarrow> 'a list \<Rightarrow> 'a list" where
  "on_mac ma xs = (if ma_platform ma = MacOS then xs else [])"

definition not_windows :: "machine \<Rightarrow> 'a list \<Rightarrow> 'a list" where
  "not_windows ma xs = (if ma_platform ma \<noteq> Windows then xs else [])"

definition on_linux :: "machine \<Rightarrow> 'a list \<Rightarrow> 'a list" where
  "on_linux ma xs = (if ma_platform ma \<noteq> Windows \<and> ma_platform ma \<noteq> MacOS then xs else [])"

definition on_windows :: "machine \<Rightarrow> string \<Rightarrow> 'a list \<Rightarrow> 'a list" where
  "on_windows ma dir xs = (if ma_platform ma = Windows \<and> dir \<noteq> [] then xs else [])"

definition app_support :: "machine \<Rightarrow> string list \<Rightarrow> string" where
  "app_support ma parts = ma_join ma ([ma_home ma, ''Library'', ''Application Support''] @ parts)"

definition claude_locations :: "machine \<Rightarrow> location list" where
  "claude_locations ma =
     [loc ClaudeCode (ma_join ma [ma_home ma, ''.claude'', ''settings.json'']),
      loc ClaudeCode (ma_join ma [ma_home ma, ''.claude.json''])]
     @ on_mac ma
        [loc ClaudeCode (app_support ma [''Claude Code'', ''claude_code_config.json'']),
         loc ClaudeCode (app_support ma [''Claude'', ''claude_code_config.json''])]
     @ not_windows ma [loc ClaudeCode (ma_join ma [ma_home ma, ''.config'', ''Claude Code'', ''claude_code_config.json''])]
     @ on_windows ma (ma_appData ma) [loc ClaudeCode (ma_join ma [ma_appData ma, ''Claude Code'', ''claude_code_config.json''])]
     @ on_mac ma [loc ClaudeDesktop (app_support ma [''Claude'', ''claude_desktop_config.json''])]
     @ not_windows ma [loc ClaudeDesktop (ma_join ma [ma_home ma, ''.config'', ''claude'', ''claude_desktop_config.json''])]
     @ on_windows ma (ma_appData ma) [loc ClaudeDesktop (ma_join ma [ma_appData ma, ''Claude'', ''claude_desktop_config.json''])]"

definition editor_locations :: "machine \<Rightarrow> location list" where
  "editor_locations ma =
     (let cline = [''Code'', ''User'', ''globalStorage'', ''saoudrizwan.claude-dev'', ''settings'', ''cline_mcp_settings.json''] in
      [loc Codex (ma_join ma [ma_home ma, ''.codex'', ''config.toml'']),
       loc GeminiCli (ma_join ma [ma_home ma, ''.gemini'', ''settings.json''])]
      @ on_mac ma [loc Cursor (app_support ma [''Cursor'', ''User'', ''settings.json''])]
      @ on_linux ma [loc Cursor (ma_join ma [ma_home ma, ''.config'', ''Cursor'', ''User'', ''settings.json''])]
      @ on_windows ma (ma_appData ma) [loc Cursor (ma_join ma [ma_appData ma, ''Cursor'', ''User'', ''settings.json''])]
      @ [loc Cursor (ma_join ma [ma_home ma, ''.cursor'', ''mcp.json''])]
      @ on_mac ma [loc Cline (app_support ma cline)]
      @ on_linux ma [loc Cline (ma_join ma ([ma_home ma, ''.config''] @ cline))]
      @ on_windows ma (ma_appData ma) [loc Cline (ma_join ma (ma_appData ma # cline))]
      @ on_mac ma [loc Zed (app_support ma [''Zed'', ''settings.json''])]
      @ on_linux ma [loc Zed (ma_join ma [ma_home ma, ''.config'', ''zed'', ''settings.json''])]
      @ on_windows ma (ma_localAppData ma) [loc Zed (ma_join ma [ma_localAppData ma, ''Zed'', ''settings.json''])]
      @ [loc Continue (ma_join ma [ma_home ma, ''.continue'', ''config.yaml'']),
         loc OpenCode (ma_join ma [ma_home ma, ''.config'', ''opencode'', ''opencode.json''])]
      @ on_windows ma (ma_appData ma) [loc OpenCode (ma_join ma [ma_appData ma, ''opencode'', ''opencode.json''])]
      @ on_mac ma [loc KimiCode (app_support ma [''Kimi Code'', ''mcp_settings.json''])]
      @ on_linux ma [loc KimiCode (ma_join ma [ma_home ma, ''.config'', ''kimi-code'', ''mcp_settings.json''])]
      @ on_windows ma (ma_appData ma) [loc KimiCode (ma_join ma [ma_appData ma, ''Kimi Code'', ''mcp_settings.json''])])"

definition project_locations :: "machine \<Rightarrow> location list" where
  "project_locations ma =
     [project_loc ClaudeCode (ma_join ma [ma_cwd ma, ''.claude'', ''settings.json'']),
      project_loc ClaudeCode (ma_join ma [ma_cwd ma, ''claude_code_config.json'']),
      project_loc ClaudeCode (ma_join ma [ma_cwd ma, ''.mcp.json'']),
      project_loc ClaudeDesktop (ma_join ma [ma_cwd ma, ''claude_desktop_config.json'']),
      project_loc Continue (ma_join ma [ma_cwd ma, ''.continue'', ''config.json'']),
      project_loc OpenCode (ma_join ma [ma_cwd ma, ''opencode.json'']),
      project_loc Codex (ma_join ma [ma_cwd ma, ''.codex'', ''config.toml''])]"

definition getMCPClientConfigPaths :: "machine \<Rightarrow> bool \<Rightarrow> location list" where
  "getMCPClientConfigPaths ma includeProject =
     claude_locations ma @ editor_locations ma @ (if includeProject then project_locations ma else [])"

definition getClaudeConfigPaths :: "machine \<Rightarrow> string list" where
  "getClaudeConfigPaths ma =
     map lo_path (filter (\<lambda>l. lo_client l = ClaudeCode \<or> lo_client l = ClaudeDesktop) (getMCPClientConfigPaths ma True))"

subsection \<open>Files and backups\<close>

record setup_state =
  su_admin :: admin
  su_files :: "(string, client_file) jsmap"

text \<open>The digits of the clock and the random suffix are given.\<close>

definition backup_path :: "string \<Rightarrow> string \<Rightarrow> (string, client_file) jsmap \<Rightarrow> string \<Rightarrow> string" where
  "backup_path stamp salt files path =
     (let p = path @ ''.bak.'' @ stamp in if js_has files p then p @ ''.'' @ salt else p)"

definition writeBackup :: "string \<Rightarrow> string \<Rightarrow> string \<Rightarrow> setup_state \<Rightarrow> string \<times> setup_state" where
  "writeBackup stamp salt path st =
     (let p = backup_path stamp salt (su_files st) path
      in (p, case map_of (su_files st) path of
               Some f \<Rightarrow> st\<lparr>su_files := AList.update p f (su_files st)\<rparr>
             | None \<Rightarrow> st))"

definition write_client_file :: "string \<Rightarrow> client_file \<Rightarrow> setup_state \<Rightarrow> setup_state" where
  "write_client_file path f st = st\<lparr>su_files := AList.update path f (su_files st)\<rparr>"

definition file_at :: "setup_state \<Rightarrow> string \<Rightarrow> client_file" where
  "file_at st path = nullish (map_of (su_files st) path) FAbsent"

subsection \<open>Servers of a client as servers of the conductor\<close>

definition text_of :: "json option \<Rightarrow> string" where
  "text_of v = (case v of Some (JStr s) \<Rightarrow> s | _ \<Rightarrow> [])"

definition arg_texts :: "json option \<Rightarrow> string list" where
  "arg_texts v = (case v of Some (JArr xs) \<Rightarrow> map (\<lambda>x. text_of (Some x)) xs | _ \<Rightarrow> [])"

definition env_of :: "json option \<Rightarrow> (string, string) jsmap" where
  "env_of v = (case v of Some (JObj kvs) \<Rightarrow> map (\<lambda>(k, x). (k, text_of (Some x))) (own_properties kvs) | _ \<Rightarrow> [])"

text \<open>\<open>{ command, args: args ?? [], env: env ?? {} }\<close>.\<close>

definition config_of_entry :: "client_entry \<Rightarrow> server_config" where
  "config_of_entry e =
     \<lparr>cmd = text_of (en_command e), cmd_args = Some (arg_texts (en_args e)), cmd_env = Some (env_of (en_env e)), cfg_rateLimit = None\<rparr>"

definition put_server :: "string \<Rightarrow> server_config \<Rightarrow> conductor_config \<Rightarrow> conductor_config" where
  "put_server n s c = c\<lparr>conductor_servers := AList.update n s (conductor_servers c)\<rparr>"

subsection \<open>The import command\<close>

definition read_servers :: "client_file \<Rightarrow> (string \<times> json) list" where
  "read_servers f =
     (case f of FParsed raw \<Rightarrow> object_entries (nullish_field ''mcpServers'' raw (JObj [])) | _ \<Rightarrow> [])"

definition findClaudeConfigsWithServers :: "string list \<Rightarrow> setup_state \<Rightarrow> (string \<times> (string \<times> json) list) list" where
  "findClaudeConfigsWithServers paths st =
     List.map_filter (\<lambda>p. let ss = read_servers (file_at st p) in if 0 < length ss then Some (p, ss) else None) paths"

definition stripServersFromConfig :: "string list \<Rightarrow> client_file \<Rightarrow> client_file" where
  "stripServersFromConfig names f =
     (case f of
        FParsed (JObj kvs) \<Rightarrow>
          (case map_of kvs ''mcpServers'' of
             Some (JObj ss) \<Rightarrow>
               FParsed (JObj (AList.update ''mcpServers'' (JObj (filter (\<lambda>(n, v). n \<notin> set names) ss)) kvs))
           | _ \<Rightarrow> f)
      | _ \<Rightarrow> f)"

record import_options =
  io_removeOriginals :: bool
  io_dryRun :: bool

record import_result =
  ir_imported :: "(string \<times> json) list"
  ir_skipped :: "string list"
  ir_sourcePath :: string
  ir_backups :: "string list"
  ir_removed :: bool

text \<open>The loop over the servers of a source; the flag is whether it was left by an error (a definition that is \<open>null\<close>).\<close>

fun import_entries ::
    "(string \<times> json) list \<Rightarrow> conductor_config \<times> (string \<times> json) list \<times> string list
     \<Rightarrow> bool \<times> conductor_config \<times> (string \<times> json) list \<times> string list" where
  "import_entries [] acc = (False, acc)"
| "import_entries ((n, d) # es) (c, imported, skipped) =
     (if js_has (conductor_servers c) n then import_entries es (c, imported, skipped @ [n])
      else if d = JNull then (True, c, imported, skipped)
      else import_entries es
        (put_server n (config_of_entry \<lparr>en_command = js_field ''command'' d, en_args = js_field ''args'' d, en_env = js_field ''env'' d\<rparr>) c,
         imported @ [(n, d)], skipped))"

text \<open>One source; \<open>None\<close> is a thrown error. What \<open>saveConductorConfig\<close> returns is not looked at.\<close>

definition import_source ::
    "string option \<Rightarrow> string \<Rightarrow> string \<Rightarrow> import_options \<Rightarrow> string \<times> (string \<times> json) list \<Rightarrow> setup_state
     \<Rightarrow> import_result option \<times> setup_state" where
  "import_source err stamp salt opts source st =
     (let (path, entries) = source; a = su_admin st; loaded = loadConductorConfig a in
      case config_to_extend a of
        None \<Rightarrow>
          (if entries = []
           then (Some \<lparr>ir_imported = [], ir_skipped = [], ir_sourcePath = path, ir_backups = [], ir_removed = False\<rparr>, st)
           else (None, st))
      | Some c \<Rightarrow>
          (let (thrown, c1, imported, skipped) = import_entries entries (c, [], []);
               st1 = st\<lparr>su_admin := keep_shared loaded c1 a\<rparr>
           in if thrown then (None, st1)
              else if io_dryRun opts \<or> imported = []
              then (Some \<lparr>ir_imported = imported, ir_skipped = skipped, ir_sourcePath = path, ir_backups = [], ir_removed = False\<rparr>, st1)
              else
                (let (backup, st2) = writeBackup stamp salt path st1;
                     st3 = st2\<lparr>su_admin := snd (saveConductorConfig err c1 (su_admin st2))\<rparr>;
                     st4 = (if io_removeOriginals opts
                            then write_client_file path (stripServersFromConfig (map fst imported) (file_at st3 path)) st3
                            else st3)
                 in (Some \<lparr>ir_imported = imported, ir_skipped = skipped, ir_sourcePath = path, ir_backups = [backup],
                       ir_removed = io_removeOriginals opts\<rparr>, st4))))"

fun import_sources ::
    "string option \<Rightarrow> string \<Rightarrow> string \<Rightarrow> import_options \<Rightarrow> (string \<times> (string \<times> json) list) list \<Rightarrow> setup_state
     \<Rightarrow> import_result list option \<times> setup_state" where
  "import_sources err stamp salt opts [] st = (Some [], st)"
| "import_sources err stamp salt opts (s # ss) st =
     (case import_source err stamp salt opts s st of
        (None, st1) \<Rightarrow> (None, st1)
      | (Some r, st1) \<Rightarrow>
          (case import_sources err stamp salt opts ss st1 of
             (None, st2) \<Rightarrow> (None, st2)
           | (Some rs, st2) \<Rightarrow> (Some (r # rs), st2)))"

definition importServers ::
    "string option \<Rightarrow> string \<Rightarrow> string \<Rightarrow> import_options \<Rightarrow> string list \<Rightarrow> setup_state \<Rightarrow> import_result list option \<times> setup_state" where
  "importServers err stamp salt opts paths st =
     import_sources err stamp salt opts (findClaudeConfigsWithServers paths st) st"

subsection \<open>The wizard\<close>

fun merge_entries ::
    "(string, client_entry) jsmap \<Rightarrow> conductor_config \<times> string list \<Rightarrow> conductor_config \<times> string list" where
  "merge_entries [] acc = acc"
| "merge_entries ((n, e) # es) (c, added) =
     (if n = CONDUCTOR \<or> js_has (conductor_servers c) n then merge_entries es (c, added)
      else merge_entries es (put_server n (config_of_entry e) c, added @ [n]))"

definition mergeIntoConductor ::
    "string option \<Rightarrow> (string, client_entry) jsmap \<Rightarrow> admin \<Rightarrow> string list option \<times> admin" where
  "mergeIntoConductor err servers a =
     (case config_to_extend a of
        None \<Rightarrow> (if list_all (\<lambda>(n, e). n = CONDUCTOR) servers then (Some [], a) else (None, a))
      | Some c \<Rightarrow>
          (let (c1, added) = merge_entries servers (c, []);
               a1 = keep_shared (loadConductorConfig a) c1 a
           in (Some added, if 0 < length added then snd (saveConductorConfig err c1 a1) else a1)))"

text \<open>The adapter writes a backup of the file and the file. (The one of Zed does not look whether the file exists; in
  the uses below it does.)\<close>

definition serialize_file ::
    "string \<Rightarrow> string \<Rightarrow> client_id \<Rightarrow> string \<Rightarrow> json \<Rightarrow> (string, client_entry) jsmap \<Rightarrow> bool \<Rightarrow> client_entry \<Rightarrow> setup_state \<Rightarrow> setup_state" where
  "serialize_file stamp salt client path raw servers keepOnly c st =
     write_client_file path (FParsed (adapter_serialize client raw servers keepOnly c))
       (if js_has (su_files st) path then snd (writeBackup stamp salt path st) else st)"

text \<open>A location that needs the wizard: it has other servers, or no entry of the conductor.\<close>

definition wizard_wants :: "setup_state \<Rightarrow> location \<Rightarrow> bool" where
  "wizard_wants st l \<longleftrightarrow>
     (case adapter_parse (lo_client l) (file_at st (lo_path l)) of
        Config servers raw \<Rightarrow>
          (let names = filter (\<lambda>n. n \<noteq> CONDUCTOR) (js_keys servers) in \<not> (length names = 0 \<and> js_has servers CONDUCTOR))
      | _ \<Rightarrow> False)"

definition migrate_location ::
    "string option \<Rightarrow> string \<Rightarrow> string \<Rightarrow> location \<Rightarrow> setup_state \<Rightarrow> string list option \<times> setup_state" where
  "migrate_location err stamp salt l st =
     (case adapter_parse (lo_client l) (file_at st (lo_path l)) of
        NullResult \<Rightarrow> (Some [], st)
      | Throws \<Rightarrow> (None, st)
      | Config servers raw \<Rightarrow>
          (case mergeIntoConductor err servers (su_admin st) of
             (None, a) \<Rightarrow> (None, st\<lparr>su_admin := a\<rparr>)
           | (Some added, a) \<Rightarrow>
               (Some added, serialize_file stamp salt (lo_client l) (lo_path l) raw servers False conductor_entry (st\<lparr>su_admin := a\<rparr>))))"

fun migrate_locations ::
    "string option \<Rightarrow> string \<Rightarrow> string \<Rightarrow> (location \<Rightarrow> bool) \<Rightarrow> location list \<Rightarrow> setup_state \<Rightarrow> string list option \<times> setup_state" where
  "migrate_locations err stamp salt confirm [] st = (Some [], st)"
| "migrate_locations err stamp salt confirm (l # ls) st =
     (if \<not> confirm l then migrate_locations err stamp salt confirm ls st
      else
        (case migrate_location err stamp salt l st of
           (None, st1) \<Rightarrow> (None, st1)
         | (Some added, st1) \<Rightarrow>
             (case migrate_locations err stamp salt confirm ls st1 of
                (None, st2) \<Rightarrow> (None, st2)
              | (Some rest, st2) \<Rightarrow> (Some (added @ rest), st2))))"

definition runMultiClientSetupWizard ::
    "string option \<Rightarrow> string \<Rightarrow> string \<Rightarrow> machine \<Rightarrow> (location \<Rightarrow> bool) \<Rightarrow> setup_state \<Rightarrow> string list option \<times> setup_state" where
  "runMultiClientSetupWizard err stamp salt ma confirm st =
     (let existing = filter (\<lambda>l. js_has (su_files st) (lo_path l)) (getMCPClientConfigPaths ma True)
      in migrate_locations err stamp salt confirm (filter (wizard_wants st) existing) st)"

subsection \<open>The doctor\<close>

definition has_conductor :: "setup_state \<Rightarrow> location \<Rightarrow> bool" where
  "has_conductor st l \<longleftrightarrow>
     (case adapter_parse (lo_client l) (file_at st (lo_path l)) of Config servers raw \<Rightarrow> js_has servers CONDUCTOR | _ \<Rightarrow> False)"

definition runClientCoverage :: "machine \<Rightarrow> setup_state \<Rightarrow> (location \<times> bool) list \<times> nat \<times> nat" where
  "runClientCoverage ma st =
     (let entries = map (\<lambda>l. (l, has_conductor st l))
            (filter (\<lambda>l. js_has (su_files st) (lo_path l)) (getMCPClientConfigPaths ma False));
          covered = length (filter snd entries)
      in (entries, covered, length entries - covered))"

datatype health = HealthOk | HealthWarn | HealthError

record server_health =
  sh_name :: string
  sh_commandFound :: bool
  sh_status :: health
  sh_issues :: "string list"

definition isCommandAvailable :: "(string \<Rightarrow> bool) \<Rightarrow> string \<Rightarrow> bool" where
  "isCommandAvailable existsSync command =
     (if existsSync command then True
      else if CHR ''/'' \<in> set command \<or> CHR 0x5C \<in> set command then existsSync command
      else True)"

definition server_issues :: "(string \<Rightarrow> bool) \<Rightarrow> server_config \<Rightarrow> string list" where
  "server_issues existsSync def =
     (if cmd def = [] then [''Missing `command` field''] else [])
     @ (if cmd def \<noteq> [] \<and> \<not> isCommandAvailable existsSync (cmd def) then [''Command not found on PATH: '' @ cmd def] else [])
     @ map (\<lambda>(k, v). ''Env var '' @ k @ '' appears unset or placeholder'')
         (filter (\<lambda>(k, v). v = ''YOUR_TOKEN_HERE'' \<or> v = ''<YOUR_API_KEY>'' \<or> v = []) (nullish (cmd_env def) []))"

definition server_health_of :: "(string \<Rightarrow> bool) \<Rightarrow> string \<times> server_config \<Rightarrow> server_health" where
  "server_health_of existsSync s =
     (let (name, def) = s; issues = server_issues existsSync def
      in \<lparr>sh_name = name, sh_commandFound = (cmd def \<noteq> [] \<and> isCommandAvailable existsSync (cmd def)),
          sh_status = (if length issues = 0 then HealthOk
                       else if list_ex (\<lambda>i. js_includes i ''Missing'' \<or> js_includes i ''not found'') issues then HealthError
                       else HealthWarn),
          sh_issues = issues\<rparr>)"

record doctor_result =
  dr_found :: bool
  dr_servers :: "server_health list"
  dr_globalIssues :: "string list"
  dr_counts :: "nat \<times> nat \<times> nat"

text \<open>\<open>None\<close> is the error for a configuration without \<open>servers\<close>.\<close>

definition runDoctor :: "(string \<Rightarrow> bool) \<Rightarrow> setup_state \<Rightarrow> doctor_result option" where
  "runDoctor existsSync st =
     (let a = su_admin st; path = getDefaultConductorConfigPath a in
      if \<not> js_has (ad_files a) path
      then Some \<lparr>dr_found = False, dr_servers = [],
             dr_globalIssues = [''Conductor config not found at '' @ path,
               ''Run `mcp-conductor-cli setup` or `mcp-conductor-cli import` to create it.''], dr_counts = (0, 0, 0)\<rparr>
      else
        (case loadConductorConfig a of
           NoConfig \<Rightarrow>
             Some \<lparr>dr_found = True, dr_servers = [],
              dr_globalIssues = [''Conductor config found but could not be parsed '' @ [CHR 0x97] @ '' check JSON syntax.''],
              dr_counts = (0, 0, 0)\<rparr>
         | Own x None \<Rightarrow> None
         | _ \<Rightarrow>
             (let hs = map (server_health_of existsSync) (conductor_servers (the (hub_view a)));
                  count = (\<lambda>s. length (filter (\<lambda>h. sh_status h = s) hs))
              in Some \<lparr>dr_found = True, dr_servers = hs, dr_globalIssues = [], dr_counts = (count HealthOk, count HealthWarn, count HealthError)\<rparr>)))"

subsection \<open>The export command\<close>

definition client_name :: "client_id \<Rightarrow> string" where
  "client_name client =
     (case client of
        ClaudeCode \<Rightarrow> ''claude-code'' | ClaudeDesktop \<Rightarrow> ''claude-desktop'' | Codex \<Rightarrow> ''codex'' | GeminiCli \<Rightarrow> ''gemini-cli''
      | Cursor \<Rightarrow> ''cursor'' | Cline \<Rightarrow> ''cline'' | Zed \<Rightarrow> ''zed'' | Continue \<Rightarrow> ''continue'' | OpenCode \<Rightarrow> ''opencode''
      | KimiCode \<Rightarrow> ''kimi-code'')"

definition deriveExportFilename :: "client_id \<Rightarrow> string" where
  "deriveExportFilename client =
     (if client = Codex then client_name client @ ''-config.toml''
      else if client = Continue then client_name client @ ''-config.yaml''
      else client_name client @ ''-config.json'')"

definition exportForClient ::
    "string \<Rightarrow> string \<Rightarrow> machine \<Rightarrow> client_id option \<Rightarrow> string option \<Rightarrow> string option \<Rightarrow> setup_state \<Rightarrow> string \<times> setup_state" where
  "exportForClient stamp salt ma clientId outputDir outputPath st =
     (let client = nullish clientId ClaudeDesktop;
          path = nullish outputPath (ma_join ma [nullish outputDir (ma_cwd ma), deriveExportFilename client]);
          st1 = (if js_has (su_files st) path then st else write_client_file path (FParsed (JObj [])) st)
      in (path, serialize_file stamp salt client path (JObj []) [] True conductor_entry st1))"

definition exported_block :: "string option \<Rightarrow> json" where
  "exported_block conductorPath =
     JObj [(''command'', JStr (nullish conductorPath ''npx'')),
           (''args'', JArr (if conductorPath = None then [JStr ''-y'', JStr ''@darkiceinteractive/mcp-conductor''] else []))]"

definition exportToClaude :: "string \<Rightarrow> string option \<Rightarrow> string" where
  "exportToClaude format conductorPath =
     (let inner = JObj [(CONDUCTOR, exported_block conductorPath)]
      in if format = ''raw'' then json_pretty 0 inner else json_pretty 0 (JObj [(''mcpServers'', inner)]))"

subsection \<open>Routing hints\<close>

definition passthrough_patterns :: "string \<Rightarrow> bool" where
  "passthrough_patterns lower \<longleftrightarrow>
     list_ex (js_includes lower) [''search'', ''calendar'', ''weather'', ''echo'', ''ping'', ''todo'', ''remind'']
     \<or> list_ex (\<lambda>s. suffix s lower) [''note'', ''notes'', ''contact'', ''contacts'', ''email'', ''mail'', ''slack'', ''discord'']"

definition recommendRouting :: "string \<Rightarrow> string" where
  "recommendRouting serverName = (if passthrough_patterns (js_lower serverName) then ''passthrough'' else ''execute_code'')"

definition with_hint :: "string \<Rightarrow> server_config \<Rightarrow> server_config" where
  "with_hint hint s = s\<lparr>cmd_env := Some (AList.update ''__routing'' hint (nullish (cmd_env s) []))\<rparr>"

definition getRoutingRecommendations ::
    "string option \<Rightarrow> string option \<Rightarrow> bool \<Rightarrow> admin \<Rightarrow> ((string \<times> string) list \<times> bool) option \<times> admin" where
  "getRoutingRecommendations err serverName apply_them a =
     (case loadConductorConfig a of
        NoConfig \<Rightarrow> (Some ([], False), a)
      | Own x None \<Rightarrow> (None, a)
      | _ \<Rightarrow>
          (let c = the (hub_view a);
               names = (case serverName of
                          Some n \<Rightarrow> if n \<noteq> [] then [n] else js_keys (conductor_servers c)
                        | None \<Rightarrow> js_keys (conductor_servers c));
               recs = map (\<lambda>n. (n, recommendRouting n)) (filter (js_has (conductor_servers c)) names)
           in if apply_them \<and> 0 < length recs
              then (let c1 = c\<lparr>conductor_servers :=
                          foldl (\<lambda>m (n, hint). AList.map_entry n (with_hint hint) m) (conductor_servers c) recs\<rparr>
                    in (Some (recs, True), snd (saveConductorConfig err c1 (keep_shared (loadConductorConfig a) c1 a))))
              else (Some (recs, False), a)))"

subsection \<open>The configuration of the conductor\<close>

text \<open>The file that is read is the one that is written, and it has servers.\<close>

definition config_usable :: "admin \<Rightarrow> bool" where
  "config_usable a \<longleftrightarrow>
     findConductorConfig a \<in> {None, Some (getDefaultConductorConfigPath a)} \<and> config_to_extend a \<noteq> None"

definition configured :: "setup_state \<Rightarrow> string \<Rightarrow> server_config option" where
  "configured st n = map_of (servers_of (hub_view (su_admin st))) n"

lemma config_extends: "config_to_extend a = Some c \<Longrightarrow> servers_of (hub_view a) = conductor_servers c"
  by (auto simp: config_to_extend_def hub_view_def servers_of_def nullish_def split: loaded_config.splits)

lemma config_same: "config_to_extend a = Some c \<Longrightarrow> keep_shared (loadConductorConfig a) c a = a"
  by (auto simp: config_to_extend_def keep_shared_def split: loaded_config.splits)

lemma saved_config:
  fixes c d :: conductor_config and loaded :: loaded_config
  assumes "config_usable a"
  defines "a' \<equiv> snd (saveConductorConfig None c (keep_shared loaded d a))"
  shows "config_usable a'" "servers_of (hub_view a') = conductor_servers c"
proof -
  let ?a = "keep_shared loaded d a"
  have same: "findConductorConfig ?a = findConductorConfig a" "getDefaultConductorConfigPath ?a = getDefaultConductorConfigPath a"
    by (auto simp: keep_shared_def findConductorConfig_def getDefaultConductorConfigPath_def getConductorConfigPaths_def
        split: option.splits)
  have a': "a' = ?a\<lparr>ad_files := AList.update (getDefaultConductorConfigPath ?a) (Holds c) (ad_files ?a)\<rparr>"
    by (simp add: a'_def saveConductorConfig_def)
  have path: "getDefaultConductorConfigPath a' = getDefaultConductorConfigPath ?a"
    by (simp add: a' getDefaultConductorConfigPath_def)
  have found: "findConductorConfig a' = Some (getDefaultConductorConfigPath a')"
    unfolding a' using find_after_save [of ?a "Holds c"] assms(1) same path a' by (simp add: config_usable_def)
  have "loadConductorConfig a' = Own (exclusive c) (Some (conductor_servers c))"
    using found path by (simp add: loadConductorConfig_def) (simp add: a')
  then show "config_usable a'" using found by (simp add: config_usable_def config_to_extend_def)
  show "servers_of (hub_view a') = conductor_servers c"
    using view_after_save [of a c loaded d] assms(1) by (simp add: a'_def config_usable_def servers_of_def)
qed

subsection \<open>Merging adds and keeps\<close>

text \<open>\<open>c'\<close> has what \<open>c\<close> has and all of \<open>names\<close>; it is \<open>c\<close> if nothing was added.\<close>

definition extended :: "conductor_config \<Rightarrow> string set \<Rightarrow> bool \<Rightarrow> conductor_config \<Rightarrow> bool" where
  "extended c names nothing_added c' \<longleftrightarrow>
     (\<forall>n s. map_of (conductor_servers c) n = Some s \<longrightarrow> map_of (conductor_servers c') n = Some s)
     \<and> (\<forall>n \<in> names. map_of (conductor_servers c') n \<noteq> None)
     \<and> (nothing_added \<longrightarrow> c' = c)"

lemma has_map_of: "js_has m n \<longleftrightarrow> map_of m n \<noteq> None"
  by (simp add: js_has_def)

lemma put_new: "\<not> js_has (conductor_servers c) n \<Longrightarrow> extended (put_server n s c) names b c' \<Longrightarrow> extended c (insert n names) False c'"
proof -
  assume new: "\<not> js_has (conductor_servers c) n" and e: "extended (put_server n s c) names b c'"
  have keep: "map_of (conductor_servers c') k = Some x" if "map_of (conductor_servers (put_server n s c)) k = Some x" for k x
    using e that by (simp add: extended_def)
  have "map_of (conductor_servers c') k = Some x" if "map_of (conductor_servers c) k = Some x" for k x
    using keep [of k x] that new by (cases "k = n") (auto simp: put_server_def has_map_of)
  moreover have "map_of (conductor_servers c') n = Some s" using keep [of n s] by (simp add: put_server_def)
  ultimately show ?thesis using e by (simp add: extended_def)
qed

lemma put_old: "js_has (conductor_servers c) n \<Longrightarrow> extended c names b c' \<Longrightarrow> extended c (insert n names) b c'"
  unfolding extended_def by (auto simp: has_map_of)

lemma merge_extends:
  "merge_entries es (c, added) = (c', added') \<Longrightarrow>
     (\<exists>more. added' = added @ more) \<and> extended c (fst ` set es - {CONDUCTOR}) (length added' = length added) c'"
proof (induction es "(c, added)" arbitrary: c added rule: merge_entries.induct)
  case (1 c added)
  then show ?case by (simp add: extended_def)
next
  case (2 n e es c added)
  show ?case
  proof (cases "n = CONDUCTOR \<or> js_has (conductor_servers c) n")
    case True
    then have IH: "(\<exists>more. added' = added @ more) \<and> extended c (fst ` set es - {CONDUCTOR}) (length added' = length added) c'"
      using 2 by simp
    show ?thesis
    proof (cases "n = CONDUCTOR")
      case True
      then show ?thesis using IH by simp
    next
      case False
      then have "fst ` set ((n, e) # es) - {CONDUCTOR} = insert n (fst ` set es - {CONDUCTOR})" by auto
      then show ?thesis using IH put_old True False by metis
    qed
  next
    case False
    then have IH: "\<exists>more. added' = (added @ [n]) @ more"
      "extended (put_server n (config_of_entry e) c) (fst ` set es - {CONDUCTOR}) (length added' = length (added @ [n])) c'"
      using 2 by simp_all
    have "fst ` set ((n, e) # es) - {CONDUCTOR} = insert n (fst ` set es - {CONDUCTOR})" using False by auto
    moreover have "(length added' = length added) = False" using IH(1) by auto
    ultimately show ?thesis using IH put_new [OF _ IH(2)] False by auto
  qed
qed

text \<open>What the import makes of an entry.\<close>

definition imported_config :: "json \<Rightarrow> server_config" where
  "imported_config d =
     config_of_entry \<lparr>en_command = js_field ''command'' d, en_args = js_field ''args'' d, en_env = js_field ''env'' d\<rparr>"

lemma import_entries_exact:
  "import_entries es (c, imported, skipped) = (False, c', imported', skipped') \<Longrightarrow>
     map_of (conductor_servers c') n =
       (if map_of (conductor_servers c) n = None then map_option imported_config (map_of es n) else map_of (conductor_servers c) n)
     \<and> (n \<in> fst ` set imported' \<longleftrightarrow> n \<in> fst ` set imported \<or> map_of (conductor_servers c) n = None \<and> n \<in> fst ` set es)
     \<and> length imported \<le> length imported' \<and> (length imported' = length imported \<longrightarrow> c' = c)"
proof (induction es "(c, imported, skipped)" arbitrary: c imported skipped rule: import_entries.induct)
  case (1 c imported skipped)
  then show ?case by simp
next
  case (2 k d es c imported skipped)
  show ?case
  proof (cases "js_has (conductor_servers c) k")
    case True
    then have "import_entries es (c, imported, skipped @ [k]) = (False, c', imported', skipped')" using "2.prems" by simp
    note IH = "2.hyps"(1) [OF True this]
    obtain y where "map_of (conductor_servers c) k = Some y" using True by (auto simp: has_map_of)
    then show ?thesis using IH by (cases "n = k") simp_all
  next
    case False
    then have new: "map_of (conductor_servers c) k = None" by (simp add: has_map_of)
    have "d \<noteq> JNull" using "2.prems" False by auto
    then have "import_entries es (put_server k (imported_config d) c, imported @ [(k, d)], skipped) = (False, c', imported', skipped')"
      using "2.prems" False by (simp add: imported_config_def)
    note IH = "2.hyps"(2) [OF False \<open>d \<noteq> JNull\<close>, folded imported_config_def, OF this]
    show ?thesis using IH new by (cases "n = k") (simp_all add: put_server_def)
  qed
qed

subsection \<open>The wizard installs the conductor\<close>

lemma backup_is_new: "backup_path stamp salt files path \<noteq> path"
proof -
  have "length path < length (backup_path stamp salt files path)" by (simp add: backup_path_def Let_def)
  then show ?thesis by auto
qed

lemma file_after_serialize:
  assumes "js_has (su_files st) path"
  shows "file_at (serialize_file stamp salt client path raw servers only c st) path
       = FParsed (adapter_serialize client raw servers only c)"
    and "file_at (serialize_file stamp salt client path raw servers only c st) (backup_path stamp salt (su_files st) path)
       = file_at st path"
    and "su_admin (serialize_file stamp salt client path raw servers only c st) = su_admin st"
  using assms backup_is_new [of stamp salt "su_files st" path]
  by (auto simp: serialize_file_def write_client_file_def writeBackup_def file_at_def nullish_def js_has_def Let_def split: option.splits)

lemma merged_into_conductor:
  assumes "config_usable a" "mergeIntoConductor None servers a = (added, a')"
  shows "added \<noteq> None \<and> config_usable a'
    \<and> (\<forall>n s. map_of (servers_of (hub_view a)) n = Some s \<longrightarrow> map_of (servers_of (hub_view a')) n = Some s)
    \<and> (\<forall>n \<in> fst ` set servers - {CONDUCTOR}. map_of (servers_of (hub_view a')) n \<noteq> None)"
proof -
  obtain c where c: "config_to_extend a = Some c" using assms(1) by (auto simp: config_usable_def)
  obtain c1 new where m: "merge_entries servers (c, []) = (c1, new)" by (rule prod.exhaust)
  have ext: "extended c (fst ` set servers - {CONDUCTOR}) (new = []) c1" using merge_extends [OF m] by simp
  have a': "added = Some new" "a' = (if 0 < length new then snd (saveConductorConfig None c1 (keep_shared (loadConductorConfig a) c1 a))
      else keep_shared (loadConductorConfig a) c1 a)" using assms(2) m by (auto simp: mergeIntoConductor_def c Let_def)
  have "config_usable a' \<and> servers_of (hub_view a') = conductor_servers c1"
  proof (cases "new = []")
    case True
    then have "c1 = c" using ext by (simp add: extended_def)
    then show ?thesis using a'(2) True assms(1) config_same [OF c] config_extends [OF c] by simp
  next
    case False
    then show ?thesis using a'(2) saved_config [OF assms(1), of c1 "loadConductorConfig a" c1] by simp
  qed
  then show ?thesis using ext a'(1) config_extends [OF c] by (simp add: extended_def)
qed

text \<open>The wizard installs the conductor and loses nothing. For a client whose file is read and has servers of the declared
  types, the doctor finds the entry of the conductor afterwards, the client still has its servers, each of them is
  configured in the conductor, no configured server is changed, and the old file is in the backup.\<close>

theorem wizard_installs_conductor:
  assumes "config_usable (su_admin st)" "js_has (su_files st) (lo_path l)"
    and "adapter_parse (lo_client l) (file_at st (lo_path l)) = Config servers raw"
    and "keyed_once raw" "list_all (\<lambda>(n, e). typed_entry e) servers"
    and "migrate_location None stamp salt l st = (added, st')"
  shows "added \<noteq> None \<and> has_conductor st' l
    \<and> (\<exists>servers' raw'. adapter_parse (lo_client l) (file_at st' (lo_path l)) = Config servers' raw'
         \<and> reread conductor_entry False servers servers')
    \<and> (\<forall>n \<in> fst ` set servers - {CONDUCTOR}. configured st' n \<noteq> None)
    \<and> (\<forall>n s. configured st n = Some s \<longrightarrow> configured st' n = Some s)
    \<and> file_at st' (backup_path stamp salt (su_files st) (lo_path l)) = file_at st (lo_path l)"
proof -
  obtain new a where m: "mergeIntoConductor None servers (su_admin st) = (new, a)" by (rule prod.exhaust)
  note merged = merged_into_conductor [OF assms(1) m]
  then obtain ns where ns: "new = Some ns" by blast
  let ?st = "st\<lparr>su_admin := a\<rparr>"
  have has: "js_has (su_files ?st) (lo_path l)" using assms(2) by simp
  have st': "added = Some ns" "st' = serialize_file stamp salt (lo_client l) (lo_path l) raw servers False conductor_entry ?st"
    using assms(6) by (simp_all add: migrate_location_def assms(3) m ns)
  note files = file_after_serialize [OF has, of stamp salt "lo_client l" raw servers False conductor_entry]
  obtain servers' where s: "adapter_parse (lo_client l) (file_at st' (lo_path l))
      = Config servers' (adapter_serialize (lo_client l) raw servers False conductor_entry)"
    "reread conductor_entry False servers servers'"
    unfolding st'(2) files(1) using adapter.round_trip [OF assms(3-5) conductor_entry_ok, of False] by blast
  have "has_conductor st' l" using s by (auto simp: has_conductor_def reread_def js_has_def split: option.splits)
  moreover have "file_at st' (backup_path stamp salt (su_files st) (lo_path l)) = file_at st (lo_path l)"
    using files(2) unfolding st'(2) by (simp add: file_at_def)
  moreover have "su_admin st' = a" using files(3) unfolding st'(2) by simp
  ultimately show ?thesis using st'(1) s merged unfolding configured_def by auto
qed

definition fresh_admin :: admin where
  "fresh_admin = \<lparr>ad_env_path = None, ad_home = ''/h'', ad_files = [], ad_default = DEFAULT_CONDUCTOR_CONFIG\<rparr>"

definition zed_location :: location where
  "zed_location = loc Zed ''z''"

definition fresh_setup :: setup_state where
  "fresh_setup = \<lparr>su_admin = fresh_admin, su_files = [(''z'', FParsed demo_settings)]\<rparr>"

lemma fresh_usable: "config_usable fresh_admin"
  by (simp add: config_usable_def fresh_admin_def findConductorConfig_def config_to_extend_def loadConductorConfig_def
      getConductorConfigPaths_def js_has_def)

theorem wizard_installs_conductor_witness:
  "has_conductor (snd (migrate_location None ''1'' ''2'' zed_location fresh_setup)) zed_location
   \<and> configured (snd (migrate_location None ''1'' ''2'' zed_location fresh_setup)) ''git'' \<noteq> None"
proof -
  let ?r = "migrate_location None ''1'' ''2'' zed_location fresh_setup"
  have u: "config_usable (su_admin fresh_setup)" using fresh_usable by (simp add: fresh_setup_def)
  have h: "js_has (su_files fresh_setup) (lo_path zed_location)" by code_simp
  have p: "adapter_parse (lo_client zed_location) (file_at fresh_setup (lo_path zed_location)) = Config [(''git'', git_entry)] demo_settings"
    and k: "keyed_once demo_settings" and t: "list_all (\<lambda>(n, e). typed_entry e) [(''git'', git_entry)]" by code_simp+
  have "?r = (fst ?r, snd ?r)" by simp
  note w = wizard_installs_conductor [OF u h p k t this]
  have "''git'' \<in> fst ` set [(''git'', git_entry)] - {CONDUCTOR}" by (simp add: CONDUCTOR_def)
  then show ?thesis using w by blast
qed

text \<open>The servers of the client stay where they are: the wizard says that it moves them.\<close>

lemma wizard_copies:
  "js_field ''git'' (nullish (js_field ''context_servers'' (case file_at (snd (migrate_location None ''1'' ''2'' zed_location fresh_setup)) ''z''
     of FParsed v \<Rightarrow> v | _ \<Rightarrow> JNull)) JNull) \<noteq> None"
  by code_simp

subsection \<open>An import loses no server\<close>

lemma import_source_exact:
  assumes "config_usable (su_admin st)" "\<not> io_dryRun opts"
    and "import_source None stamp salt opts (path, entries) st = (Some r, st')"
  shows "config_usable (su_admin st')"
    and "configured st' n = (if configured st n = None then map_option imported_config (map_of entries n) else configured st n)"
    and "q = path \<or> \<not> prefix (path @ ''.bak.'') q \<Longrightarrow>
      file_at st' q = file_at st q
      \<or> q = path \<and> (\<exists>ns. file_at st' q = stripServersFromConfig ns (file_at st q)
          \<and> (\<forall>m \<in> set ns. m \<in> fst ` set entries \<and> configured st m = None))"
proof -
  let ?a = "su_admin st"
  obtain c where c: "config_to_extend ?a = Some c" using assms(1) by (auto simp: config_usable_def)
  obtain thrown c1 imported skipped where i: "import_entries entries (c, [], []) = (thrown, c1, imported, skipped)"
    by (rule prod_cases4)
  have ok: "\<not> thrown" using assms(3) by (auto simp: import_source_def c i Let_def split: if_splits)
  then have e: "import_entries entries (c, [], []) = (False, c1, imported, skipped)" using i by simp
  have conf: "configured st m = map_of (conductor_servers c) m" for m using config_extends [OF c] by (simp add: configured_def)
  have "config_usable (su_admin st') \<and> servers_of (hub_view (su_admin st')) = conductor_servers c1"
  proof (cases "imported = []")
    case True
    then have "c1 = c" using import_entries_exact [OF e] by simp
    then show ?thesis using assms(1,3) ok True config_same [OF c] config_extends [OF c]
      by (auto simp: import_source_def c i Let_def)
  next
    case False
    have "su_admin st' = snd (saveConductorConfig None c1 (keep_shared (loadConductorConfig ?a) c1 ?a))"
      using assms(2,3) ok False
      by (auto simp: import_source_def c i Let_def writeBackup_def write_client_file_def split: prod.splits option.splits if_splits)
    then show ?thesis using saved_config [OF assms(1), of c1 "loadConductorConfig ?a" c1] by simp
  qed
  then show "config_usable (su_admin st')"
    and "configured st' n = (if configured st n = None then map_option imported_config (map_of entries n) else configured st n)"
    using import_entries_exact [OF e, of n] unfolding conf by (simp_all add: configured_def)
  assume q: "q = path \<or> \<not> prefix (path @ ''.bak.'') q"
  obtain bp st2 where w: "writeBackup stamp salt path (st\<lparr>su_admin := keep_shared (loadConductorConfig ?a) c1 ?a\<rparr>) = (bp, st2)"
    by (rule prod.exhaust)
  have "bp \<noteq> q"
  proof -
    have "prefix (path @ ''.bak.'') bp" "bp \<noteq> path"
      using w by (auto simp: writeBackup_def backup_path_def Let_def backup_is_new split: if_splits)
    then show ?thesis using q by auto
  qed
  then have f2: "file_at st2 q = file_at st q"
    using w by (auto simp: writeBackup_def file_at_def Let_def split: option.splits)
  have ns: "\<forall>m \<in> set (map fst imported). m \<in> fst ` set entries \<and> configured st m = None"
    using import_entries_exact [OF e] unfolding conf by auto
  have "file_at st' q = file_at st q \<or> q = path \<and> file_at st' q = stripServersFromConfig (map fst imported) (file_at st q)"
    using assms(2,3) ok w f2
    by (auto simp: import_source_def c i Let_def write_client_file_def file_at_def nullish_def split: if_splits)
  then show "file_at st' q = file_at st q
      \<or> q = path \<and> (\<exists>ns. file_at st' q = stripServersFromConfig ns (file_at st q)
          \<and> (\<forall>m \<in> set ns. m \<in> fst ` set entries \<and> configured st m = None))"
    using ns by blast
qed

lemma strip_keeps:
  assumes "(n, d) \<in> set (read_servers f)" "n \<notin> set ns"
  shows "(n, d) \<in> set (read_servers (stripServersFromConfig ns f))"
proof (cases "\<exists>kvs ss. f = FParsed (JObj kvs) \<and> map_of kvs ''mcpServers'' = Some (JObj ss)")
  case True
  then obtain kvs ss where f: "f = FParsed (JObj kvs)" "map_of kvs ''mcpServers'' = Some (JObj ss)" by blast
  then have "(n, d) \<in> set ss" "n \<noteq> ''__proto__''"
    using assms(1) by (auto simp: read_servers_def nullish_field_def js_field_def set_own_properties)
  then show ?thesis using f assms(2)
    by (simp add: stripServersFromConfig_def read_servers_def nullish_field_def js_field_def set_own_properties)
next
  case False
  then have "stripServersFromConfig ns f = f"
    by (auto simp: stripServersFromConfig_def split: client_file.splits json.splits option.splits)
  then show ?thesis using assms(1) by simp
qed

text \<open>Every server of a source that was read is configured as that source has it, or its file still has it.\<close>

definition safe_server :: "(string \<times> (string \<times> json) list) list \<Rightarrow> setup_state \<Rightarrow> setup_state \<Rightarrow> string \<Rightarrow> string \<times> json \<Rightarrow> bool" where
  "safe_server sources st st' q e \<longleftrightarrow>
     e \<in> set (read_servers (file_at st' q))
     \<or> (\<exists>es. (q, es) \<in> set sources \<and> fst e \<in> fst ` set es \<and> configured st (fst e) = None
          \<and> configured st' (fst e) = map_option imported_config (map_of es (fst e)))"

lemma import_sources_exact:
  "import_sources None stamp salt opts sources st = (Some rs, st') \<Longrightarrow> config_usable (su_admin st) \<Longrightarrow> \<not> io_dryRun opts \<Longrightarrow>
     list_all (\<lambda>(path, entries). \<not> prefix (path @ ''.bak.'') q) sources \<Longrightarrow>
     (\<forall>n. configured st' n = (if configured st n = None then map_option imported_config (map_of (concat (map snd sources)) n)
        else configured st n))
     \<and> (\<forall>e \<in> set (read_servers (file_at st q)). safe_server sources st st' q e)"
proof (induction sources arbitrary: st rs)
  case Nil
  then show ?case by (simp add: safe_server_def)
next
  case (Cons s sources)
  obtain path entries where s: "s = (path, entries)" by (rule prod.exhaust)
  obtain r1 st1 where one: "import_source None stamp salt opts s st = (r1, st1)" by (rule prod.exhaust)
  obtain r2 st2 where two: "import_sources None stamp salt opts sources st1 = (r2, st2)" by (rule prod.exhaust)
  obtain r where r: "r1 = Some r" using Cons.prems(1) one by (cases r1) auto
  obtain rs' where rs': "r2 = Some rs'" "st2 = st'" using Cons.prems(1) one two r by (cases r2) auto
  note E = import_source_exact [OF Cons.prems(2,3) one [unfolded r s]]
  have "list_all (\<lambda>(path, entries). \<not> prefix (path @ ''.bak.'') q) sources" using Cons.prems(4) by simp
  note IH = Cons.IH [OF two [unfolded rs'] E(1) Cons.prems(3) this]
  have "configured st' n = (if configured st n = None then map_option imported_config (map_of (concat (map snd (s # sources))) n)
      else configured st n)" for n
    using IH E(2) [of n] by (cases "map_of entries n") (auto simp: s map_add_def split: option.split)
  moreover have "safe_server (s # sources) st st' q (n, d)" if e: "(n, d) \<in> set (read_servers (file_at st q))" for n d
  proof (cases "(n, d) \<in> set (read_servers (file_at st1 q))")
    case True
    then have "safe_server sources st1 st' q (n, d)" using IH by blast
    moreover have "configured st1 n = None \<Longrightarrow> configured st n = None" using E(2) [of n] by (auto split: if_splits)
    ultimately show ?thesis by (auto simp: safe_server_def)
  next
    case False
    have "q = path \<or> \<not> prefix (path @ ''.bak.'') q" using Cons.prems(4) s by simp
    from E(3) [OF this] False e obtain ns where ns: "q = path" "file_at st1 q = stripServersFromConfig ns (file_at st q)"
      "\<forall>m \<in> set ns. m \<in> fst ` set entries \<and> configured st m = None" by auto
    have "n \<in> set ns" using False strip_keeps [OF e] ns(2) by metis
    then have n: "n \<in> fst ` set entries" "configured st n = None" using ns(3) by auto
    obtain d' where d': "map_of entries n = Some d'" using n(1) by (metis map_of_eq_None_iff not_None_eq)
    then have "configured st1 n = Some (imported_config d')" using E(2) [of n] n(2) by simp
    then have "configured st' n = Some (imported_config d')" using IH by simp
    then show ?thesis using n d' ns(1) s by (auto simp: safe_server_def)
  qed
  ultimately show ?case by auto
qed


definition claude_file :: client_file where
  "claude_file = FParsed (JObj [(''mcpServers'', JObj
     [(''git'', JObj [(''command'', JStr ''uvx'')]), (CONDUCTOR, JObj [(''command'', JStr ''npx'')])])])"

definition with_removal :: import_options where
  "with_removal = \<lparr>io_removeOriginals = True, io_dryRun = False\<rparr>"

definition claude_setup :: "admin \<Rightarrow> setup_state" where
  "claude_setup a = \<lparr>su_admin = a, su_files = [(''c'', claude_file)]\<rparr>"


text \<open>Without these conditions servers are lost: with a configuration in another place, or if writing fails, the server
  is removed from its source and configured nowhere.\<close>

definition moved_admin :: admin where
  "moved_admin = fresh_admin\<lparr>ad_env_path := Some ''/e'', ad_files := [(''/e'', Holds \<lparr>exclusive = True, conductor_servers = []\<rparr>)]\<rparr>"

definition gone :: "setup_state \<Rightarrow> string \<Rightarrow> bool" where
  "gone st n \<longleftrightarrow> configured st n = None \<and> n \<notin> fst ` set (read_servers (file_at st ''c''))"

lemma import_loses_servers:
  "gone (snd (importServers None ''1'' ''2'' with_removal [''c''] (claude_setup moved_admin))) ''git''"
  "gone (snd (importServers (Some ''EACCES'') ''1'' ''2'' with_removal [''c''] (claude_setup fresh_admin))) ''git''"
  by code_simp+

text \<open>The entry of the conductor itself is imported, and with the removal of originals the client loses it.\<close>

lemma import_removes_conductor:
  "configured (snd (importServers None ''1'' ''2'' with_removal [''c''] (claude_setup fresh_admin))) CONDUCTOR \<noteq> None
   \<and> CONDUCTOR \<notin> fst ` set (read_servers (file_at (snd (importServers None ''1'' ''2'' with_removal [''c''] (claude_setup fresh_admin))) ''c''))"
  by code_simp

subsection \<open>Exports, the doctor and the hints\<close>

text \<open>An exported file is read by its client as a configuration with the conductor as its only server.\<close>

lemma export_installs_conductor:
  assumes "exportForClient stamp salt ma (Some client) outputDir outputPath st = (path, st')"
  shows "\<exists>servers raw. adapter_parse client (file_at st' path) = Config servers raw \<and> dom (map_of servers) = {CONDUCTOR}"
proof -
  let ?st = "if js_has (su_files st) path then st else write_client_file path (FParsed (JObj [])) st"
  have "st' = serialize_file stamp salt client path (JObj []) [] True conductor_entry ?st"
    using assms by (auto simp: exportForClient_def Let_def nullish_def)
  moreover have "js_has (su_files ?st) path" by (simp add: write_client_file_def)
  ultimately have "file_at st' path = FParsed (adapter_serialize client (JObj []) [] True conductor_entry)"
    using file_after_serialize(1) by simp
  then show ?thesis using adapter.migrated [OF conductor_entry_ok, of client "[]" "[]"] by auto
qed

text \<open>A file that does not parse is reported as one without servers and without issues, and a configuration in another
  place as none. A variable whose name has the word turns a warning into an error.\<close>

lemma doctor_misses_malformed_file:
  "runDoctor (\<lambda>_. False) \<lparr>su_admin = fresh_admin\<lparr>ad_files := [(''/h/.mcp-conductor.json'', Malformed)]\<rparr>, su_files = []\<rparr>
     = Some \<lparr>dr_found = True, dr_servers = [], dr_globalIssues = [], dr_counts = (0, 0, 0)\<rparr>"
  by code_simp

lemma doctor_misses_moved_file:
  "map_option dr_found (runDoctor (\<lambda>_. False) \<lparr>su_admin = moved_admin, su_files = []\<rparr>) = Some False"
  by code_simp

lemma doctor_error_by_name:
  "sh_status (server_health_of (\<lambda>_. False) (''a'', \<lparr>cmd = ''x'', cmd_args = None, cmd_env = Some [(''Missing'', [])], cfg_rateLimit = None\<rparr>))
     = HealthError"
  "sh_status (server_health_of (\<lambda>_. False) (''a'', \<lparr>cmd = ''x'', cmd_args = None, cmd_env = Some [(''KEY'', [])], cfg_rateLimit = None\<rparr>))
     = HealthWarn"
  by code_simp+

text \<open>The statuses partition the servers.\<close>

lemma doctor_counts_partition:
  assumes "runDoctor existsSync st = Some r" "dr_counts r = (ok, warn, err)"
  shows "ok + warn + err = length (dr_servers r)"
proof -
  have "length (filter (\<lambda>h. sh_status h = HealthOk) hs) + length (filter (\<lambda>h. sh_status h = HealthWarn) hs)
      + length (filter (\<lambda>h. sh_status h = HealthError) hs) = length hs" for hs :: "server_health list"
  proof (induction hs)
    case (Cons h hs)
    then show ?case by (cases "sh_status h") auto
  qed simp
  from this [of "map (server_health_of existsSync) (conductor_servers (the (hub_view (su_admin st))))"] show ?thesis using assms
    by (auto simp: runDoctor_def Let_def split: if_splits loaded_config.splits option.splits)
qed

text \<open>Hints are stored as a variable of the server's environment, which the server sees and the conductor does not read.\<close>

lemma hint_changes_environment:
  "map_of (nullish (cmd_env (with_hint hint s)) []) ''__routing'' = Some hint \<and> cmd (with_hint hint s) = cmd s
   \<and> cmd_args (with_hint hint s) = cmd_args s"
  by (simp add: with_hint_def nullish_def)

end
