(* ===== verification/DaemonClient.thy ===== *)
theory DaemonClient
  imports DaemonServer JsText "HOL-Library.Multiset"
begin

text \<open>
  The agent's end of the daemon's socket, \<open>src/src/daemon/client.ts\<close>: the map of the calls that wait
  for their answer, the buffer of the unfinished line, the listeners of broadcasts, the handshake, and
  what a closed or broken socket does to all of them. One event is one callback of the event loop or
  one call of a public method.

  Parameters: \<open>parse\<close> is \<open>JSON.parse\<close> followed by the reads of the fields the client looks at (None
  when it throws or gives \<open>null\<close>); \<open>encode\<close> is \<open>JSON.stringify\<close> of a request (None when it throws);
  \<open>nonce_of\<close> reads \<open>challenge.nonce\<close> (None when that throws, or when the HMAC does); \<open>hmac\<close> is the
  hexadecimal HMAC-SHA256; \<open>throws\<close> says whether a subscriber's handler throws on a message. A handler
  that calls the client again while it runs is not modelled. The continuation of a settled promise runs
  before the next event, after the callback that settled it.
\<close>

subsection \<open>Data\<close>

datatype client_error =
    NotConnected
  | ConnClosed
  | OpenTimedOut nat
  | SockErr string
  | EncodeErr
  | ChallengeErr
  | RpcErr int string

text \<open>The public methods, by what they send.\<close>

datatype 'j client_request =
    ToolCall string 'j
  | Ping
  | Stats
  | KvGet string
  | KvSet string 'j "int option"
  | KvDelete string
  | KvList "string option"
  | LockAcquire string "int option"
  | LockRelease string
  | Publish string 'j
  | SubscribeTo string
  | Auth string

fun method_of :: "'j client_request \<Rightarrow> string" where
  "method_of (ToolCall name args) = ''tool.call''"
| "method_of Ping = ''ping''"
| "method_of Stats = ''stats''"
| "method_of (KvGet key) = ''kv.get''"
| "method_of (KvSet key val opts) = ''kv.set''"
| "method_of (KvDelete key) = ''kv.delete''"
| "method_of (KvList pre) = ''kv.list''"
| "method_of (LockAcquire key ms) = ''lock.acquire''"
| "method_of (LockRelease key) = ''lock.release''"
| "method_of (Publish ch msg) = ''broadcast''"
| "method_of (SubscribeTo ch) = ''subscribe''"
| "method_of (Auth token) = ''__auth__''"

text \<open>What a line of the daemon is to the client: an envelope of a broadcast; a message with the id
  \<open>__push__\<close>, whose result is an object with a channel or is \<open>null\<close>; or a response. An id that is not a
  string finds no call.\<close>

datatype 'j push = PushOf "string option" 'j | PushNull

datatype 'j server_line =
    BroadcastLine "string option" 'j
  | PushLine "'j push"
  | ResponseLine "string option" "(int \<times> string) option" 'j

text \<open>Who waits for an answer: the handshake of a connection attempt, for the challenge or for the reply to
  its token, or the caller of a method. Calls are named by the number in their id.\<close>

datatype waiter = Challenged nat | Authenticating nat nat | Caller nat

text \<open>An attempt to connect has the number of its socket. \<open>c_opening\<close>: the sockets not yet open;
  \<open>c_opened\<close>: those whose callbacks are attached and whose \<open>close\<close> has not come; \<open>c_dead\<close>: the destroyed ones;
  \<open>c_leaving\<close>: calls of \<open>disconnect\<close> that wait for the close. \<open>c_sent\<close>, \<open>c_settled\<close>, \<open>c_refused\<close>, \<open>c_connects\<close>
  and \<open>c_delivered\<close> record what the client did.\<close>

record 'j daemon_client =
  c_secret :: string
  c_timeout :: nat
  c_attempts :: nat
  c_opening :: "nat list"
  c_opened :: "nat list"
  c_dead :: "nat list"
  c_socket :: "nat option"
  c_connected :: bool
  c_leaving :: nat
  c_pending :: "(string, waiter) jsmap"
  c_ready :: "(waiter \<times> (client_error + 'j)) list"
  c_buffer :: string
  c_nextId :: nat
  c_listeners :: "(nat \<times> string) list"
  c_subscribed :: nat
  c_sent :: "(nat \<times> nat \<times> 'j client_request) list"
  c_settled :: "(waiter \<times> (client_error + 'j)) list"
  c_refused :: "('j client_request \<times> client_error) list"
  c_connects :: "(nat \<times> (client_error + unit)) list"
  c_delivered :: "(nat \<times> 'j) list"

definition new_client :: "string \<Rightarrow> nat option \<Rightarrow> 'j daemon_client" where
  "new_client secret connectTimeoutMs =
     \<lparr>c_secret = secret, c_timeout = nullish connectTimeoutMs 5000, c_attempts = 0, c_opening = [],
      c_opened = [], c_dead = [], c_socket = None, c_connected = False,
      c_leaving = 0, c_pending = [], c_ready = [], c_buffer = [], c_nextId = 1, c_listeners = [],
      c_subscribed = 0, c_sent = [], c_settled = [], c_refused = [], c_connects = [], c_delivered = []\<rparr>"

text \<open>The constructor: a secret that is given and not empty, or the one of the file. \<open>field\<close> is
  \<open>JSON.parse(raw).sharedSecret\<close>.\<close>

definition loadSecret :: "(string \<Rightarrow> string option) \<Rightarrow> string \<Rightarrow> secret_file \<Rightarrow> string + string" where
  "loadSecret field authPath f =
     (case f of
        FileText raw \<Rightarrow> (case field raw of Some secret \<Rightarrow> Inr secret | None \<Rightarrow> Inl ''SyntaxError'')
      | FileMissing \<Rightarrow> Inl (''DaemonClient: auth file not found at '' @ authPath @ ''. ''
                        @ ''Start the daemon first with `mcp-conductor-cli daemon start`.'')
      | FileUnreadable code \<Rightarrow> Inl code)"

definition construct_client ::
  "(string \<Rightarrow> string option) \<Rightarrow> string \<Rightarrow> secret_file \<Rightarrow> string option \<Rightarrow> nat option \<Rightarrow>
   string + 'j daemon_client" where
  "construct_client field authPath f given ms =
     (case given of
        Some secret \<Rightarrow>
          (if secret \<noteq> [] then Inr (new_client secret ms)
           else map_sum id (\<lambda>secret. new_client secret ms) (loadSecret field authPath f))
      | None \<Rightarrow> map_sum id (\<lambda>secret. new_client secret ms) (loadSecret field authPath f))"

text \<open>The address: \<open>"host:port".split(':')\<close>, with \<open>parseInt\<close> of the port (a parameter).\<close>

datatype address = TcpAddress string "int option" | SocketPath string

definition address_of :: "(string \<Rightarrow> int option) \<Rightarrow> string option \<Rightarrow> string \<Rightarrow> address" where
  "address_of parseInt tailscale path =
     (case tailscale of
        None \<Rightarrow> SocketPath path
      | Some a \<Rightarrow>
          (if a = [] then SocketPath path
           else (let parts = split_on (CHR '':'') a
                 in TcpAddress (hd parts) (parseInt (if length parts > 1 then parts ! 1 else ''9876'')))))"

subsection \<open>Calls and their settling\<close>

text \<open>\<open>resolve\<close> and \<open>reject\<close> of the promise: its continuation is ready.\<close>

definition settle :: "waiter \<Rightarrow> client_error + 'j \<Rightarrow> 'j daemon_client \<Rightarrow> 'j daemon_client" where
  "settle w out s = s\<lparr>c_ready := c_ready s @ [(w, out)], c_settled := c_settled s @ [(w, out)]\<rparr>"

text \<open>\<open>rpc\<close>: the error it rejects with at once, or the number of the call.\<close>

definition rpc ::
  "(nat \<Rightarrow> 'j client_request \<Rightarrow> string option) \<Rightarrow> (nat \<Rightarrow> waiter) \<Rightarrow> 'j client_request \<Rightarrow> 'j daemon_client \<Rightarrow>
   (client_error + nat) \<times> 'j daemon_client" where
  "rpc encode who req s =
     (case c_socket s of
        None \<Rightarrow> (Inl NotConnected, s)
      | Some sock \<Rightarrow>
          (if sock \<in> set (c_dead s) then (Inl NotConnected, s)
           else
             (let i = c_nextId s;
                  s1 = s\<lparr>c_nextId := i + 1, c_pending := AList.update (show_nat i) (who i) (c_pending s)\<rparr>
              in case encode i req of
                   Some line \<Rightarrow> (Inr i, s1\<lparr>c_sent := c_sent s @ [(sock, i, req)]\<rparr>)
                 | None \<Rightarrow> (Inl EncodeErr, s1\<lparr>c_pending := AList.delete (show_nat i) (c_pending s1)\<rparr>))))"

definition waitForMessage :: "string \<Rightarrow> waiter \<Rightarrow> 'j daemon_client \<Rightarrow> 'j daemon_client" where
  "waitForMessage i w s = s\<lparr>c_pending := AList.update i w (c_pending s)\<rparr>"

definition rejectAllPending :: "client_error \<Rightarrow> 'j daemon_client \<Rightarrow> 'j daemon_client" where
  "rejectAllPending err s =
     fold (\<lambda>(i, w) t. settle w (Inl err) (t\<lparr>c_pending := AList.delete i (c_pending t)\<rparr>)) (c_pending s) s"

text \<open>\<open>authenticate\<close> and the end of \<open>connect\<close>, as continuations: with the challenge, with the reply to the token.\<close>

definition finish_connect :: "nat \<Rightarrow> client_error + unit \<Rightarrow> 'j daemon_client \<Rightarrow> 'j daemon_client" where
  "finish_connect a out s = s\<lparr>c_connects := c_connects s @ [(a, out)]\<rparr>"

fun continue_waiter ::
  "(nat \<Rightarrow> 'j client_request \<Rightarrow> string option) \<Rightarrow> ('j \<Rightarrow> string option) \<Rightarrow> (string \<Rightarrow> string \<Rightarrow> string) \<Rightarrow>
   waiter \<times> (client_error + 'j) \<Rightarrow> 'j daemon_client \<Rightarrow> 'j daemon_client" where
  "continue_waiter encode nonce_of hmac (Challenged a, Inl e) s = finish_connect a (Inl e) s"
| "continue_waiter encode nonce_of hmac (Challenged a, Inr v) s =
     (case nonce_of v of
        None \<Rightarrow> finish_connect a (Inl ChallengeErr) s
      | Some nonce \<Rightarrow>
          (let (r, s') = rpc encode (Authenticating a) (Auth (hmac (c_secret s) nonce)) s
           in case r of Inl e \<Rightarrow> finish_connect a (Inl e) s' | Inr i \<Rightarrow> s'))"
| "continue_waiter encode nonce_of hmac (Authenticating a i, Inl e) s = finish_connect a (Inl e) s"
| "continue_waiter encode nonce_of hmac (Authenticating a i, Inr v) s =
     finish_connect a (Inr ()) (s\<lparr>c_connected := True\<rparr>)"
| "continue_waiter encode nonce_of hmac (Caller i, out) s = s"

definition run_ready ::
  "(nat \<Rightarrow> 'j client_request \<Rightarrow> string option) \<Rightarrow> ('j \<Rightarrow> string option) \<Rightarrow> (string \<Rightarrow> string \<Rightarrow> string) \<Rightarrow>
   'j daemon_client \<Rightarrow> 'j daemon_client" where
  "run_ready encode nonce_of hmac s =
     fold (continue_waiter encode nonce_of hmac) (c_ready s) (s\<lparr>c_ready := []\<rparr>)"

subsection \<open>What the socket delivers\<close>

definition handleResponse ::
  "string option \<Rightarrow> (int \<times> string) option \<Rightarrow> 'j \<Rightarrow> 'j daemon_client \<Rightarrow> 'j daemon_client" where
  "handleResponse i err v s =
     (case Option.bind i (map_of (c_pending s)) of
        None \<Rightarrow> s
      | Some w \<Rightarrow>
          settle w (case err of Some (code, message) \<Rightarrow> Inl (RpcErr code message) | None \<Rightarrow> Inr v)
            (s\<lparr>c_pending := AList.delete (the i) (c_pending s)\<rparr>))"

text \<open>The listeners in the order they subscribed; an exception ends the loop (the \<open>catch\<close> of \<open>onData\<close> takes it).\<close>

fun deliverBroadcast ::
  "(nat \<Rightarrow> 'j \<Rightarrow> bool) \<Rightarrow> string option \<Rightarrow> 'j \<Rightarrow> (nat \<times> string) list \<Rightarrow> 'j daemon_client \<Rightarrow> 'j daemon_client" where
  "deliverBroadcast throws ch m [] s = s"
| "deliverBroadcast throws ch m ((l, own) # ls) s =
     (if ch = Some own
      then (let s' = s\<lparr>c_delivered := c_delivered s @ [(l, m)]\<rparr>
            in if throws l m then s' else deliverBroadcast throws ch m ls s')
      else deliverBroadcast throws ch m ls s)"

definition client_line ::
  "(string \<Rightarrow> 'j server_line option) \<Rightarrow> (nat \<Rightarrow> 'j \<Rightarrow> bool) \<Rightarrow> string \<Rightarrow> 'j daemon_client \<Rightarrow> 'j daemon_client" where
  "client_line parse throws line s =
     (let trimmed = js_trim line in
      if trimmed = [] then s
      else (case parse trimmed of
              None \<Rightarrow> s
            | Some (BroadcastLine ch m) \<Rightarrow> deliverBroadcast throws ch m (c_listeners s) s
            | Some (PushLine (PushOf ch m)) \<Rightarrow> deliverBroadcast throws ch m (c_listeners s) s
            | Some (PushLine PushNull) \<Rightarrow> s
            | Some (ResponseLine i err v) \<Rightarrow> handleResponse i err v s))"

definition client_on_data ::
  "(string \<Rightarrow> 'j server_line option) \<Rightarrow> (nat \<Rightarrow> 'j \<Rightarrow> bool) \<Rightarrow> string \<Rightarrow> 'j daemon_client \<Rightarrow> 'j daemon_client" where
  "client_on_data parse throws chunk s =
     (let (lines, rest) = split_pop (c_buffer s @ chunk)
      in fold (client_line parse throws) lines (s\<lparr>c_buffer := rest\<rparr>))"

subsection \<open>The events\<close>

datatype 'j client_event =
    ConnectCalled
  | Opened nat
  | OpenFailed nat string
  | OpenTimer nat
  | Received nat string
  | Closed nat
  | Errored nat string
  | DisconnectCalled
  | DisconnectDone
  | Called "'j client_request"
  | Subscribed string
  | Unsubscribed nat

definition connect_called :: "'j daemon_client \<Rightarrow> 'j daemon_client" where
  "connect_called s =
     (let a = c_attempts s; s1 = s\<lparr>c_attempts := a + 1\<rparr>
      in if c_connected s then finish_connect a (Inr ()) s1 else s1\<lparr>c_opening := c_opening s @ [a]\<rparr>)"

definition opened :: "nat \<Rightarrow> 'j daemon_client \<Rightarrow> 'j daemon_client" where
  "opened a s =
     (if a \<in> set (c_opening s)
      then waitForMessage ''__auth_challenge__'' (Challenged a)
             (s\<lparr>c_opening := removeAll a (c_opening s), c_opened := c_opened s @ [a], c_socket := Some a\<rparr>)
      else s)"

definition open_failed :: "nat \<Rightarrow> client_error \<Rightarrow> 'j daemon_client \<Rightarrow> 'j daemon_client" where
  "open_failed a err s =
     (if a \<in> set (c_opening s)
      then finish_connect a (Inl err) (s\<lparr>c_opening := removeAll a (c_opening s), c_dead := a # c_dead s\<rparr>)
      else s)"

definition client_closed :: "nat \<Rightarrow> 'j daemon_client \<Rightarrow> 'j daemon_client" where
  "client_closed a s =
     (if a \<in> set (c_opened s)
      then rejectAllPending ConnClosed
             (s\<lparr>c_opened := removeAll a (c_opened s), c_dead := a # c_dead s, c_connected := False\<rparr>)
      else s)"

definition client_errored :: "nat \<Rightarrow> string \<Rightarrow> 'j daemon_client \<Rightarrow> 'j daemon_client" where
  "client_errored a err s =
     (if a \<in> set (c_opened s) then rejectAllPending (SockErr err) (s\<lparr>c_dead := a # c_dead s\<rparr>) else s)"

definition disconnect_called :: "'j daemon_client \<Rightarrow> 'j daemon_client" where
  "disconnect_called s =
     (let s1 = s\<lparr>c_connected := False\<rparr> in
      case c_socket s of
        None \<Rightarrow> s1
      | Some a \<Rightarrow>
          (if a \<in> set (c_dead s) then s1\<lparr>c_socket := None\<rparr> else s1\<lparr>c_leaving := c_leaving s + 1\<rparr>))"

definition client_left :: "'j daemon_client \<Rightarrow> 'j daemon_client" where
  "client_left s =
     (if c_leaving s > 0 then s\<lparr>c_leaving := c_leaving s - 1, c_socket := None\<rparr> else s)"

definition subscribe_called ::
  "(nat \<Rightarrow> 'j client_request \<Rightarrow> string option) \<Rightarrow> string \<Rightarrow> 'j daemon_client \<Rightarrow> 'j daemon_client" where
  "subscribe_called encode ch s =
     snd (rpc encode Caller (SubscribeTo ch)
       (s\<lparr>c_listeners := c_listeners s @ [(c_subscribed s, ch)], c_subscribed := c_subscribed s + 1\<rparr>))"

definition call_method ::
  "(nat \<Rightarrow> 'j client_request \<Rightarrow> string option) \<Rightarrow> 'j client_request \<Rightarrow> 'j daemon_client \<Rightarrow> 'j daemon_client" where
  "call_method encode req s =
     (let (r, s') = rpc encode Caller req s
      in case r of Inl e \<Rightarrow> s'\<lparr>c_refused := c_refused s' @ [(req, e)]\<rparr> | Inr i \<Rightarrow> s')"

fun client_callback ::
  "(string \<Rightarrow> 'j server_line option) \<Rightarrow> (nat \<Rightarrow> 'j client_request \<Rightarrow> string option) \<Rightarrow>
   (nat \<Rightarrow> 'j \<Rightarrow> bool) \<Rightarrow> 'j daemon_client \<Rightarrow> 'j client_event \<Rightarrow> 'j daemon_client" where
  "client_callback parse encode throws s ConnectCalled = connect_called s"
| "client_callback parse encode throws s (Opened a) = opened a s"
| "client_callback parse encode throws s (OpenFailed a err) = open_failed a (SockErr err) s"
| "client_callback parse encode throws s (OpenTimer a) = open_failed a (OpenTimedOut (c_timeout s)) s"
| "client_callback parse encode throws s (Received a chunk) =
     (if a \<in> set (c_opened s) \<and> a \<notin> set (c_dead s) then client_on_data parse throws chunk s else s)"
| "client_callback parse encode throws s (Closed a) = client_closed a s"
| "client_callback parse encode throws s (Errored a err) = client_errored a err s"
| "client_callback parse encode throws s DisconnectCalled = disconnect_called s"
| "client_callback parse encode throws s DisconnectDone = client_left s"
| "client_callback parse encode throws s (Called req) = call_method encode req s"
| "client_callback parse encode throws s (Subscribed ch) = subscribe_called encode ch s"
| "client_callback parse encode throws s (Unsubscribed l) =
     s\<lparr>c_listeners := filter (\<lambda>(i, ch). i \<noteq> l) (c_listeners s)\<rparr>"

definition client_step ::
  "(string \<Rightarrow> 'j server_line option) \<Rightarrow> (nat \<Rightarrow> 'j client_request \<Rightarrow> string option) \<Rightarrow> ('j \<Rightarrow> string option) \<Rightarrow>
   (string \<Rightarrow> string \<Rightarrow> string) \<Rightarrow> (nat \<Rightarrow> 'j \<Rightarrow> bool) \<Rightarrow> 'j daemon_client \<Rightarrow> 'j client_event \<Rightarrow> 'j daemon_client" where
  "client_step parse encode nonce_of hmac throws s e =
     run_ready encode nonce_of hmac (client_callback parse encode throws s e)"

subsection \<open>Rejecting all\<close>

definition rejected :: "client_error \<Rightarrow> (string, waiter) jsmap \<Rightarrow> (waiter \<times> (client_error + 'j)) list" where
  "rejected err m = map (\<lambda>(i, w). (w, Inl err)) m"

lemma reject_loop:
  assumes "distinct (map fst m)" and "c_pending s = m"
  shows "fold (\<lambda>(i, w) t. settle w (Inl err) (t\<lparr>c_pending := AList.delete i (c_pending t)\<rparr>)) m s
    = s\<lparr>c_pending := [], c_ready := c_ready s @ rejected err m, c_settled := c_settled s @ rejected err m\<rparr>"
  using assms
proof (induction m arbitrary: s)
  case Nil
  then show ?case by (simp add: rejected_def)
next
  case (Cons e m)
  obtain i w where e: "e = (i, w)" by force
  have del: "AList.delete i (c_pending s) = m"
    using Cons.prems e by (force simp: AList.delete_eq filter_id_conv)
  let ?t = "settle w (Inl err) (s\<lparr>c_pending := m\<rparr>)"
  have "fold (\<lambda>(i, w) t. settle w (Inl err) (t\<lparr>c_pending := AList.delete i (c_pending t)\<rparr>)) (e # m) s
    = fold (\<lambda>(i, w) t. settle w (Inl err) (t\<lparr>c_pending := AList.delete i (c_pending t)\<rparr>)) m ?t"
    using del e by simp
  also have "\<dots> = ?t\<lparr>c_pending := [], c_ready := c_ready ?t @ rejected err m, c_settled := c_settled ?t @ rejected err m\<rparr>"
    by (rule Cons.IH) (use Cons.prems e in \<open>auto simp: settle_def\<close>)
  finally show ?case using e by (simp add: settle_def rejected_def)
qed

lemma reject_all:
  assumes "js_wf (c_pending s)"
  shows "rejectAllPending err s = s\<lparr>c_pending := [], c_ready := c_ready s @ rejected err (c_pending s),
      c_settled := c_settled s @ rejected err (c_pending s)\<rparr>"
  using assms unfolding rejectAllPending_def js_wf_def by (rule reject_loop) simp

subsection \<open>The invariant\<close>

text \<open>A call of a method, or of the handshake, has a number. Every number sent is that of one waiting call
  or of one settled call, counted with multiplicity: no answer is given twice and none is forgotten.\<close>

fun call_ids :: "waiter \<Rightarrow> nat list" where
  "call_ids (Challenged a) = []"
| "call_ids (Authenticating a i) = [i]"
| "call_ids (Caller i) = [i]"

fun key_ok :: "nat \<Rightarrow> string \<times> waiter \<Rightarrow> bool" where
  "key_ok next (k, Challenged a) = (k = ''__auth_challenge__'')"
| "key_ok next (k, Authenticating a i) = (k = show_nat i \<and> i < next)"
| "key_ok next (k, Caller i) = (k = show_nat i \<and> i < next)"

definition waiting_calls :: "'j daemon_client \<Rightarrow> nat multiset" where
  "waiting_calls s = mset (concat (map (\<lambda>(k, w). call_ids w) (c_pending s)))"

definition settled_calls :: "'j daemon_client \<Rightarrow> nat multiset" where
  "settled_calls s = mset (concat (map (\<lambda>(w, out). call_ids w) (c_settled s)))"

definition sent_calls :: "'j daemon_client \<Rightarrow> nat list" where
  "sent_calls s = map (\<lambda>(sock, i, req). i) (c_sent s)"

definition client_ok :: "'j daemon_client \<Rightarrow> bool" where
  "client_ok s \<longleftrightarrow>
     js_wf (c_pending s) \<and> list_all (key_ok (c_nextId s)) (c_pending s) \<and>
     distinct (sent_calls s) \<and> list_all (\<lambda>i. i < c_nextId s) (sent_calls s) \<and>
     mset (sent_calls s) = waiting_calls s + settled_calls s"

lemma client_okD:
  assumes "client_ok s"
  shows "js_wf (c_pending s)" "list_all (key_ok (c_nextId s)) (c_pending s)" "distinct (sent_calls s)"
    "list_all (\<lambda>i. i < c_nextId s) (sent_calls s)" "mset (sent_calls s) = waiting_calls s + settled_calls s"
  using assms by (simp_all add: client_ok_def)

lemma client_ok_new: "client_ok (new_client secret ms)"
  by (simp add: client_ok_def new_client_def waiting_calls_def settled_calls_def sent_calls_def js_wf_def)

text \<open>The invariant reads four fields.\<close>

lemma client_ok_cong:
  assumes "client_ok s" "c_pending t = c_pending s" "c_nextId t = c_nextId s" "c_sent t = c_sent s"
    "c_settled t = c_settled s"
  shows "client_ok t"
  using assms by (simp add: client_ok_def waiting_calls_def settled_calls_def sent_calls_def)

lemma client_ok_connects [simp]: "client_ok (s\<lparr>c_connects := x\<rparr>) = client_ok s"
  by (simp add: client_ok_def waiting_calls_def settled_calls_def sent_calls_def)

lemma ids_split:
  assumes "js_wf m" "map_of m k = Some w"
  shows "mset (concat (map (\<lambda>(k, w). call_ids w) m))
    = mset (call_ids w) + mset (concat (map (\<lambda>(k, w). call_ids w) (AList.delete k m)))"
  using assms
proof (induction m)
  case (Cons e m)
  obtain k' w' where e: "e = (k', w')" by force
  show ?case
  proof (cases "k' = k")
    case True
    then have "AList.delete k m = m" using Cons.prems e by (force simp: js_wf_def AList.delete_eq filter_id_conv)
    then show ?thesis using True e Cons.prems by simp
  next
    case False
    then have "mset (concat (map (\<lambda>(k, w). call_ids w) m))
      = mset (call_ids w) + mset (concat (map (\<lambda>(k, w). call_ids w) (AList.delete k m)))"
      using Cons e by (intro Cons.IH) (auto simp: js_wf_def)
    then show ?thesis using False e by simp
  qed
qed simp

lemma ids_update_new:
  "\<not> js_has m k \<Longrightarrow> concat (map (\<lambda>(k, w). call_ids w) (AList.update k w m))
    = concat (map (\<lambda>(k, w). call_ids w) m) @ call_ids w"
  by (induction m) (auto simp: js_has_def)

lemma key_challenge: "key_ok n (''__auth_challenge__'', w) \<Longrightarrow> call_ids w = []"
proof (cases w)
  case (Authenticating a i)
  assume "key_ok n (''__auth_challenge__'', w)"
  then have "show_nat i = ''__auth_challenge__''" using Authenticating by simp
  then have "CHR ''_'' \<in> set (show_nat i)" by simp
  then show ?thesis using show_nat_digits [of i] by (auto simp: list_all_iff is_digit_def)
next
  case (Caller i)
  assume "key_ok n (''__auth_challenge__'', w)"
  then have "show_nat i = ''__auth_challenge__''" using Caller by simp
  then have "CHR ''_'' \<in> set (show_nat i)" by simp
  then show ?thesis using show_nat_digits [of i] by (auto simp: list_all_iff is_digit_def)
qed simp

lemma ids_update_challenge:
  "list_all (key_ok n) m \<Longrightarrow> concat (map (\<lambda>(k, w). call_ids w) (AList.update ''__auth_challenge__'' (Challenged a) m))
    = concat (map (\<lambda>(k, w). call_ids w) m)"
proof (induction m)
  case (Cons e m)
  obtain k w where e: "e = (k, w)" by force
  show ?case using Cons e by (cases "k = ''__auth_challenge__''") (auto dest: key_challenge)
qed simp

lemma waiting_update: "list_all P m \<Longrightarrow> P (k, w) \<Longrightarrow> list_all P (AList.update k w m)"
  by (induction m) auto

lemma key_ok_mono: "key_ok n e \<Longrightarrow> n \<le> n' \<Longrightarrow> key_ok n' e"
  by (cases "(n, e)" rule: key_ok.cases) auto

lemma keys_ok_mono: "list_all (key_ok n) m \<Longrightarrow> n \<le> n' \<Longrightarrow> list_all (key_ok n') m"
  by (auto simp: list_all_iff intro: key_ok_mono)

lemma fresh_key: "list_all (key_ok n) m \<Longrightarrow> \<not> js_has m (show_nat n)"
proof (induction m)
  case (Cons e m)
  obtain k w where e: "e = (k, w)" by force
  have "k \<noteq> show_nat n"
  proof
    assume k: "k = show_nat n"
    have ok: "key_ok n (k, w)" using Cons.prems e by simp
    show False
    proof (cases w)
      case (Challenged a)
      then have "show_nat n = ''__auth_challenge__''" using ok k by simp
      then have "CHR ''_'' \<in> set (show_nat n)" by simp
      then show False using show_nat_digits [of n] by (auto simp: list_all_iff is_digit_def)
    qed (use ok k in \<open>auto dest: show_nat_inj\<close>)
  qed
  then show ?case using Cons e by (simp add: js_has_def)
qed (simp add: js_has_def)

lemma delete_update_new: "\<not> js_has m k \<Longrightarrow> AList.delete k (AList.update k w m) = m"
  by (induction m) (auto simp: js_has_def)

lemma client_ok_rpc:
  assumes ok: "client_ok s" and who: "\<And>i. call_ids (who i) = [i]"
  shows "client_ok (snd (rpc encode who req s))"
proof (cases "\<exists>sock. c_socket s = Some sock \<and> sock \<notin> set (c_dead s)")
  case True
  then obtain sock where sock: "c_socket s = Some sock" "sock \<notin> set (c_dead s)" by blast
  note inv = client_okD [OF ok]
  let ?n = "c_nextId s"
  have fresh: "\<not> js_has (c_pending s) (show_nat ?n)" using inv(2) by (rule fresh_key)
  have keys: "list_all (key_ok (Suc ?n)) (c_pending s)" using inv(2) by (rule keys_ok_mono) simp
  have sent: "list_all (\<lambda>i. i < Suc ?n) (sent_calls s)" using inv(4) by (auto simp: list_all_iff)
  have new: "key_ok (Suc ?n) (show_nat ?n, who ?n)" using who [of ?n] by (cases "who ?n") auto
  have unsent: "?n \<notin> set (sent_calls s)" using inv(4) by (auto simp: list_all_iff)
  show ?thesis
  proof (cases "encode ?n req")
    case None
    then show ?thesis using sock inv fresh keys sent
      by (simp add: rpc_def Let_def client_ok_def delete_update_new waiting_calls_def settled_calls_def
          sent_calls_def)
  next
    case (Some line)
    have "js_wf (AList.update (show_nat ?n) (who ?n) (c_pending s))" using inv(1) by simp
    moreover have "list_all (key_ok (Suc ?n)) (AList.update (show_nat ?n) (who ?n) (c_pending s))"
      using keys new by (rule waiting_update)
    ultimately show ?thesis using Some sock inv fresh sent unsent who
      by (simp add: rpc_def Let_def client_ok_def ids_update_new waiting_calls_def settled_calls_def
          sent_calls_def)
  qed
qed (auto simp: rpc_def ok split: option.split)

lemma key_in:
  assumes "list_all P m" "map_of m k = Some w"
  shows "P (k, w)"
  using assms by (auto simp: list_all_iff dest: map_of_SomeD)

lemma client_ok_settle:
  assumes ok: "client_ok s" and w: "map_of (c_pending s) k = Some w"
  shows "client_ok (settle w out (s\<lparr>c_pending := AList.delete k (c_pending s)\<rparr>))"
proof -
  note inv = client_okD [OF ok]
  have "list_all (key_ok (c_nextId s)) (AList.delete k (c_pending s))"
    using inv(2) by (auto simp: list_all_iff AList.delete_eq)
  moreover have "js_wf (AList.delete k (c_pending s))" using inv(1) by simp
  moreover have "waiting_calls s = mset (call_ids w)
      + mset (concat (map (\<lambda>(k, w). call_ids w) (AList.delete k (c_pending s))))"
    unfolding waiting_calls_def by (rule ids_split [OF inv(1) w])
  ultimately show ?thesis using inv
    by (simp add: client_ok_def settle_def waiting_calls_def settled_calls_def sent_calls_def)
qed

lemma client_ok_response: "client_ok s \<Longrightarrow> client_ok (handleResponse i err v s)"
  by (auto simp: handleResponse_def bind_eq_Some_conv split: option.split intro: client_ok_settle)

lemma client_ok_challenge: "client_ok s \<Longrightarrow> client_ok (waitForMessage ''__auth_challenge__'' (Challenged a) s)"
  by (auto simp: client_ok_def waitForMessage_def waiting_calls_def settled_calls_def sent_calls_def
      ids_update_challenge intro: waiting_update)

lemma rejected_ids: "concat (map (\<lambda>(w, out). call_ids w) (rejected err m)) = concat (map (\<lambda>(k, w). call_ids w) m)"
  by (induction m) (auto simp: rejected_def)

lemma client_ok_reject: "client_ok s \<Longrightarrow> client_ok (rejectAllPending err s)"
  by (auto simp: reject_all client_ok_def waiting_calls_def settled_calls_def sent_calls_def rejected_ids)

lemma deliver_fields [simp]:
  "c_pending (deliverBroadcast throws ch m ls s) = c_pending s"
  "c_nextId (deliverBroadcast throws ch m ls s) = c_nextId s"
  "c_sent (deliverBroadcast throws ch m ls s) = c_sent s"
  "c_settled (deliverBroadcast throws ch m ls s) = c_settled s"
  "c_ready (deliverBroadcast throws ch m ls s) = c_ready s"
  "c_buffer (deliverBroadcast throws ch m ls s) = c_buffer s"
  by (induction throws ch m ls s rule: deliverBroadcast.induct) (auto simp: Let_def)

lemma client_ok_line: "client_ok s \<Longrightarrow> client_ok (client_line parse throws line s)"
  by (auto simp: client_line_def Let_def client_ok_response
      split: option.split server_line.split push.split intro: client_ok_cong)

lemma client_ok_lines: "client_ok s \<Longrightarrow> client_ok (fold (client_line parse throws) ls s)"
  by (induction ls arbitrary: s) (auto intro: client_ok_line)

lemma client_ok_on_data: "client_ok s \<Longrightarrow> client_ok (client_on_data parse throws chunk s)"
  by (auto simp: client_on_data_def split_beta intro!: client_ok_lines intro: client_ok_cong)

lemma client_ok_continue: "client_ok s \<Longrightarrow> client_ok (continue_waiter encode nonce_of hmac wo s)"
proof (induction encode nonce_of hmac wo s rule: continue_waiter.induct)
  case (2 encode nonce_of hmac a v s)
  have "client_ok (snd (rpc encode (Authenticating a) req s))" for req
    using 2 by (rule client_ok_rpc) simp
  then show ?case using 2
    by (simp add: split_beta finish_connect_def split: option.split sum.split)
qed (auto simp: finish_connect_def intro: client_ok_cong)

lemma client_ok_continue_all:
  "client_ok s \<Longrightarrow> client_ok (fold (continue_waiter encode nonce_of hmac) ws s)"
  by (induction ws arbitrary: s) (auto intro: client_ok_continue)

lemma client_ok_run_ready: "client_ok s \<Longrightarrow> client_ok (run_ready encode nonce_of hmac s)"
  unfolding run_ready_def by (rule client_ok_continue_all) (auto intro: client_ok_cong)

lemma client_ok_call: "client_ok s \<Longrightarrow> client_ok (call_method encode req s)"
  using client_ok_rpc [of s Caller encode req]
  by (auto simp: call_method_def split_beta split: sum.split intro: client_ok_cong)

lemma client_ok_subscribe: "client_ok s \<Longrightarrow> client_ok (subscribe_called encode ch s)"
  unfolding subscribe_called_def by (rule client_ok_rpc) (auto intro: client_ok_cong)

lemma client_ok_callback: "client_ok s \<Longrightarrow> client_ok (client_callback parse encode throws s e)"
  by (cases e)
     (auto simp: connect_called_def finish_connect_def opened_def open_failed_def client_closed_def
      client_errored_def disconnect_called_def client_left_def client_ok_on_data client_ok_call
      client_ok_subscribe Let_def split: option.split intro!: client_ok_reject client_ok_challenge
      intro: client_ok_cong)

lemma client_ok_step: "client_ok s \<Longrightarrow> client_ok (client_step parse encode nonce_of hmac throws s e)"
  unfolding client_step_def by (intro client_ok_run_ready client_ok_callback)

interpretation dc: stepper "client_step parse encode nonce_of hmac throws" client_ok
  for parse encode nonce_of hmac throws
  by unfold_locales (rule client_ok_step)

text \<open>Whatever the daemon sends, in whatever chunks, and however sockets open, break and close: the numbers
  of the requests the client wrote are all different, and each request is either still waiting or has been
  settled, exactly once.\<close>

theorem calls_settle_once:
  "let s = foldl (client_step parse encode nonce_of hmac throws) (new_client secret ms) es in
     distinct (sent_calls s) \<and> mset (sent_calls s) = waiting_calls s + settled_calls s"
proof -
  have "client_ok (foldl (client_step parse encode nonce_of hmac throws) (new_client secret ms) es)"
    by (rule dc.inv_run [OF client_ok_new])
  from client_okD(3,5) [OF this] show ?thesis by (simp only: Let_def simp_thms)
qed

subsection \<open>A closed socket\<close>

lemma continue_rejected:
  "fold (continue_waiter encode nonce_of hmac) (rejected err m) s
    = s\<lparr>c_connects := c_connects s @ concat (map (\<lambda>(i, w). case w of
          Challenged a \<Rightarrow> [(a, Inl err)] | Authenticating a i \<Rightarrow> [(a, Inl err)] | Caller i \<Rightarrow> []) m)\<rparr>"
proof (induction m arbitrary: s)
  case (Cons e m)
  obtain i w where e: "e = (i, w)" by force
  show ?case using Cons.IH e by (cases w) (simp_all add: rejected_def finish_connect_def)
qed (simp add: rejected_def)

definition quiet :: "'j daemon_client \<Rightarrow> bool" where "quiet s \<longleftrightarrow> c_ready s = []"

lemma rpc_ready [simp]: "c_ready (snd (rpc encode who req s)) = c_ready s"
  by (auto simp: rpc_def Let_def split: option.split)

lemma continue_ready [simp]: "c_ready (continue_waiter encode nonce_of hmac wo s) = c_ready s"
  by (induction encode nonce_of hmac wo s rule: continue_waiter.induct)
     (simp_all add: finish_connect_def split_beta split: option.split sum.split)

lemma quiet_continue_all:
  "quiet s \<Longrightarrow> quiet (fold (continue_waiter encode nonce_of hmac) ws s)"
  by (induction ws arbitrary: s) (simp_all add: quiet_def)

lemma quiet_step: "quiet (client_step parse encode nonce_of hmac throws s e)"
  unfolding client_step_def run_ready_def by (rule quiet_continue_all) (simp add: quiet_def)

interpretation dc_quiet: stepper "client_step parse encode nonce_of hmac throws" quiet
  for parse encode nonce_of hmac throws
  by unfold_locales (rule quiet_step)

lemma quiet_new: "quiet (new_client secret ms)"
  by (simp add: quiet_def new_client_def)

text \<open>C38: When an open socket closes, nothing is left waiting: every call that had no answer is rejected with
  the error of the closed connection, once, so every request ever sent has been settled, and the client
  counts as not connected.\<close>

theorem close_settles_all:
  assumes s: "s = foldl (client_step parse encode nonce_of hmac throws) (new_client secret ms) es"
    and a: "a \<in> set (c_opened s)"
  shows "let t = client_step parse encode nonce_of hmac throws s (Closed a) in
    c_pending t = [] \<and> \<not> c_connected t \<and> settled_calls t = mset (sent_calls t) \<and>
    c_settled t = c_settled s @ map (\<lambda>(i, w). (w, Inl ConnClosed)) (c_pending s)"
proof -
  let ?t = "client_step parse encode nonce_of hmac throws s (Closed a)"
  have ok: "client_ok s" unfolding s by (rule dc.inv_run [OF client_ok_new])
  have q: "c_ready s = []" using dc_quiet.inv_run [OF quiet_new] unfolding s quiet_def .
  have ev: "client_callback parse encode throws s (Closed a)
      = s\<lparr>c_opened := removeAll a (c_opened s), c_dead := a # c_dead s, c_connected := False, c_pending := [],
          c_ready := rejected ConnClosed (c_pending s),
          c_settled := c_settled s @ rejected ConnClosed (c_pending s)\<rparr>"
    using a client_okD(1) [OF ok] q by (simp add: client_closed_def reject_all)
  have t: "c_pending ?t = []" "\<not> c_connected ?t"
    "c_settled ?t = c_settled s @ rejected ConnClosed (c_pending s)"
    by (simp_all only: client_step_def run_ready_def ev) (simp_all add: continue_rejected)
  have "mset (sent_calls ?t) = waiting_calls ?t + settled_calls ?t"
    by (rule client_okD(5) [OF client_ok_step [OF ok]])
  then have "settled_calls ?t = mset (sent_calls ?t)" using t(1) by (simp add: waiting_calls_def)
  then show ?thesis using t by (simp add: Let_def rejected_def)
qed

subsection \<open>An answer settles the call it names\<close>

lemma response_settles:
  assumes ok: "client_ok s" and w: "map_of (c_pending s) i = Some w"
  shows "c_settled (handleResponse (Some i) err v s) = c_settled s @
      [(w, case err of Some (code, message) \<Rightarrow> Inl (RpcErr code message) | None \<Rightarrow> Inr v)]"
    and "map_of (c_pending (handleResponse (Some i) err v s)) = (map_of (c_pending s))(i := None)"
  using w by (simp_all add: handleResponse_def settle_def delete_conv')

lemma caller_key:
  assumes ok: "client_ok s" and w: "map_of (c_pending s) k = Some (Caller i)"
  shows "k = show_nat i"
  using key_in [OF client_okD(2) [OF ok] w] by simp

text \<open>A second answer to the same call, and an answer to a number never given, change nothing.\<close>

lemma second_response_ignored:
  assumes ok: "client_ok s"
  shows "handleResponse i err' v' (handleResponse i err v s) = handleResponse i err v s"
proof (cases i)
  case (Some k)
  then show ?thesis
    by (cases "map_of (c_pending s) k") (auto simp: handleResponse_def settle_def delete_conv')
qed (simp add: handleResponse_def)

subsection \<open>Chunks\<close>

lemma deliver_buffer:
  "deliverBroadcast throws ch m ls (s\<lparr>c_buffer := b\<rparr>) = (deliverBroadcast throws ch m ls s)\<lparr>c_buffer := b\<rparr>"
proof (induction ls arbitrary: s ch)
  case (Cons e ls)
  obtain l own where e: "e = (l, own)" by force
  have swap: "s\<lparr>c_buffer := b, c_delivered := x\<rparr> = s\<lparr>c_delivered := x, c_buffer := b\<rparr>" for x by simp
  show ?case using e by (simp add: Let_def swap Cons.IH)
qed simp

lemma response_buffer:
  "handleResponse i err v (s\<lparr>c_buffer := b\<rparr>) = (handleResponse i err v s)\<lparr>c_buffer := b\<rparr>"
  by (simp add: handleResponse_def settle_def split: option.split)

lemma line_buffer: "client_line parse throws l (s\<lparr>c_buffer := b\<rparr>) = (client_line parse throws l s)\<lparr>c_buffer := b\<rparr>"
  by (simp add: client_line_def Let_def deliver_buffer response_buffer
      split: option.split server_line.split push.split)

lemma line_keeps_buffer: "c_buffer (client_line parse throws l s) = c_buffer s"
  by (simp add: client_line_def Let_def handleResponse_def settle_def
      split: option.split server_line.split push.split)

interpretation dc_lines: line_reader c_buffer "\<lambda>b s. s\<lparr>c_buffer := b\<rparr>" "client_line parse throws"
    "client_on_data parse throws"
  for parse throws
  by unfold_locales (simp_all add: line_buffer line_keeps_buffer client_on_data_def split_beta)

lemma client_chunking:
  "client_on_data parse throws (a @ b) s = client_on_data parse throws b (client_on_data parse throws a s)"
  by (rule dc_lines.feed_append)

subsection \<open>The handshake, with the daemon at the other end\<close>

definition clean_line :: "string \<Rightarrow> bool" where
  "clean_line l \<longleftrightarrow> newline \<notin> set l \<and> js_trim l \<noteq> []"

lemma one_line:
  assumes "clean_line l"
  shows "split_pop (l @ [newline]) = ([l], [])"
  using assms split_pop_line [of l "[]"] by (simp add: clean_line_def split_pop_plain)

text \<open>The exchange: the daemon accepts and sends its challenge, the client answers with its token, the daemon
  checks it and replies. \<open>ser\<close> is the daemon's \<open>JSON.stringify\<close>; every message travels as a line.\<close>

definition handshake ::
  "(string \<Rightarrow> 'j server_line option) \<Rightarrow> (nat \<Rightarrow> 'j client_request \<Rightarrow> string option) \<Rightarrow> ('j \<Rightarrow> string option) \<Rightarrow>
   (string \<Rightarrow> string \<Rightarrow> string) \<Rightarrow> (nat \<Rightarrow> 'j \<Rightarrow> bool) \<Rightarrow> (string \<Rightarrow> 'k rpc_request option) \<Rightarrow> ('k wire_message \<Rightarrow> string) \<Rightarrow>
   time \<Rightarrow> nat \<Rightarrow> nat \<Rightarrow> string \<Rightarrow> 'j daemon_client \<times> 'k daemon \<Rightarrow> 'j daemon_client \<times> 'k daemon" where
  "handshake cparse encode nonce_of hmac throws sparse ser now a sock nonce cd =
     (let c = fst cd; step = client_step cparse encode nonce_of hmac throws;
          said = (\<lambda>d. ser (snd (last (wire_out d))) @ [newline]);
          d1 = handleConnection sock nonce (snd cd);
          c1 = step c (Received a (said d1));
          (i, req) = snd (last (c_sent c1));
          d2 = on_data sparse hmac now sock (the (encode i req) @ [newline]) d1;
          c2 = step c1 (Received a (said d2))
      in (c2, d2))"

lemma line_received:
  assumes "c_buffer s = []" "clean_line l" "a \<in> set (c_opened s)" "a \<notin> set (c_dead s)"
    and "parse (js_trim l) = Some (ResponseLine i err v)"
  shows "client_step parse encode nonce_of hmac throws s (Received a (l @ [newline]))
    = run_ready encode nonce_of hmac (handleResponse i err v s)"
proof -
  have "client_on_data parse throws (l @ [newline]) s = client_line parse throws l (s\<lparr>c_buffer := []\<rparr>)"
    using assms(1,2) by (simp add: client_on_data_def one_line)
  also have "s\<lparr>c_buffer := []\<rparr> = s" using assms(1) by simp
  finally show ?thesis using assms by (simp add: client_step_def client_line_def Let_def clean_line_def)
qed

text \<open>The client's half: from the challenge to the token, from the reply to the end of \<open>connect\<close>.\<close>

lemma challenge_answered:
  assumes q: "quiet c" and "c_socket c = Some k" "k \<notin> set (c_dead c)"
    and w: "map_of (c_pending c) ''__auth_challenge__'' = Some (Challenged a)"
    and n: "nonce_of v = Some nonce"
    and e: "encode (c_nextId c) (Auth (hmac (c_secret c) nonce)) = Some line"
  shows "run_ready encode nonce_of hmac (handleResponse (Some ''__auth_challenge__'') None v c)
    = c\<lparr>c_pending := AList.update (show_nat (c_nextId c)) (Authenticating a (c_nextId c))
                      (AList.delete ''__auth_challenge__'' (c_pending c)),
        c_nextId := c_nextId c + 1,
        c_sent := c_sent c @ [(k, c_nextId c, Auth (hmac (c_secret c) nonce))],
        c_settled := c_settled c @ [(Challenged a, Inr v)]\<rparr>"
  using assms by (simp add: handleResponse_def settle_def run_ready_def quiet_def rpc_def Let_def)

lemma token_answered:
  assumes q: "quiet c" and w: "map_of (c_pending c) (show_nat i) = Some (Authenticating a i)"
  shows "run_ready encode nonce_of hmac (handleResponse (Some (show_nat i)) err v c)
    = (case err of
         None \<Rightarrow> finish_connect a (Inr ()) (c\<lparr>c_pending := AList.delete (show_nat i) (c_pending c),
                    c_settled := c_settled c @ [(Authenticating a i, Inr v)], c_connected := True\<rparr>)
       | Some (code, m) \<Rightarrow> finish_connect a (Inl (RpcErr code m)) (c\<lparr>c_pending := AList.delete (show_nat i) (c_pending c),
                    c_settled := c_settled c @ [(Authenticating a i, Inl (RpcErr code m))]\<rparr>))"
  using assms
  by (auto simp: handleResponse_def settle_def run_ready_def quiet_def finish_connect_def split: option.split)

text \<open>The daemon's half.\<close>

lemma token_checked:
  assumes "\<not> js_has (conns d) sock" and "clean_line l" and "sparse (js_trim l) = Some r"
    and "p_token r = Some tok" "tok \<noteq> []" and "length l < MAX_BUFFER_BYTES"
  shows "let d1 = handleConnection sock nonce d; d2 = on_data sparse hmac now sock (l @ [newline]) d1;
             good = (tok = hmac (sharedSecret d) nonce)
         in last (wire_out d1) = (sock, Challenge nonce) \<and>
            last (wire_out d2) = (sock, if good then Result (reqId r) RAuthenticated
                                        else Failure (reqId r) 401 ''Invalid auth token'') \<and>
            is_authenticated sock d2 = good \<and> is_destroyed sock d2 = (\<not> good)"
  using assms one_line [of l]
  by (simp add: handleConnection_def on_data_def Let_def sendRaw_def is_destroyed_def is_authenticated_def
      handleAuth_def clean_line_def js_has_def map_of_js_set)

text \<open>C37: The handshake of both programs, end to end: the client of a fresh socket becomes connected exactly when
  its secret gives the token that the daemon computes from its own, and then the daemon counts the
  connection as authenticated; otherwise \<open>connect\<close> rejects with the daemon's refusal, the client is not
  connected, and the daemon destroys the socket. The hypotheses on \<open>cparse\<close>, \<open>sparse\<close>, \<open>encode\<close> and \<open>ser\<close> say that the four
  messages of the exchange survive their way over the wire.\<close>

theorem handshake_iff_same_token:
  assumes client: "quiet c" "c_buffer c = []" "\<not> c_connected c" "c_socket c = Some a" "a \<in> set (c_opened c)"
      "a \<notin> set (c_dead c)" "map_of (c_pending c) ''__auth_challenge__'' = Some (Challenged a)"
    and server: "\<not> js_has (conns d) sock"
    and challenge: "clean_line (ser (Challenge nonce))" "nonce_of v = Some nonce"
      "cparse (js_trim (ser (Challenge nonce))) = Some (ResponseLine (Some ''__auth_challenge__'') None v)"
    and token: "hmac (c_secret c) nonce \<noteq> []" "encode (c_nextId c) (Auth (hmac (c_secret c) nonce)) = Some line"
      "clean_line line" "length line < MAX_BUFFER_BYTES" "sparse (js_trim line) = Some r"
      "p_token r = Some (hmac (c_secret c) nonce)"
    and accept: "clean_line (ser (Result (reqId r) RAuthenticated))"
      "cparse (js_trim (ser (Result (reqId r) RAuthenticated)))
        = Some (ResponseLine (Some (show_nat (c_nextId c))) None v')"
    and refuse: "clean_line (ser (Failure (reqId r) 401 ''Invalid auth token''))"
      "cparse (js_trim (ser (Failure (reqId r) 401 ''Invalid auth token'')))
        = Some (ResponseLine (Some (show_nat (c_nextId c))) (Some (401, ''Invalid auth token'')) v')"
  shows "let (c', d') = handshake cparse encode nonce_of hmac throws sparse ser now a sock nonce (c, d);
             same = (hmac (c_secret c) nonce = hmac (sharedSecret d) nonce)
         in c_connected c' = same \<and> is_authenticated sock d' = same \<and> is_destroyed sock d' = (\<not> same) \<and>
            last (c_connects c') = (a, if same then Inr () else Inl (RpcErr 401 ''Invalid auth token''))"
proof -
  let ?step = "client_step cparse encode nonce_of hmac throws"
  let ?tok = "hmac (c_secret c) nonce" and ?n = "c_nextId c"
  let ?same = "?tok = hmac (sharedSecret d) nonce"
  let ?d1 = "handleConnection sock nonce d"
  let ?d2 = "on_data sparse hmac now sock (line @ [newline]) ?d1"
  let ?c1 = "c\<lparr>c_pending := AList.update (show_nat ?n) (Authenticating a ?n)
                      (AList.delete ''__auth_challenge__'' (c_pending c)),
        c_nextId := ?n + 1, c_sent := c_sent c @ [(a, ?n, Auth ?tok)],
        c_settled := c_settled c @ [(Challenged a, Inr v)]\<rparr>"
  let ?w = "if ?same then Result (reqId r) RAuthenticated else Failure (reqId r) 401 ''Invalid auth token''"
  let ?err = "if ?same then None else Some (401, ''Invalid auth token'')"
  let ?c2 = "?step ?c1 (Received a (ser ?w @ [newline]))"
  have srv: "last (wire_out ?d1) = (sock, Challenge nonce)" "last (wire_out ?d2) = (sock, ?w)"
    "is_authenticated sock ?d2 = ?same" "is_destroyed sock ?d2 = (\<not> ?same)"
    using token_checked [where sparse = sparse, OF server token(3,5,6,1,4), of nonce hmac now]
    by (simp_all add: Let_def)
  have c1: "?step c (Received a (ser (Challenge nonce) @ [newline])) = ?c1"
    using line_received [where parse = cparse, OF client(2) challenge(1) client(5,6) challenge(3)]
      challenge_answered [where encode = encode and nonce_of = nonce_of and hmac = hmac,
        OF client(1,4,6,7) challenge(2) token(2)] by simp
  have w: "clean_line (ser ?w)" "cparse (js_trim (ser ?w)) = Some (ResponseLine (Some (show_nat ?n)) ?err v')"
    using accept refuse by simp_all
  have "?c2 = run_ready encode nonce_of hmac (handleResponse (Some (show_nat ?n)) ?err v' ?c1)"
    by (rule line_received) (use client w in simp_all)
  also have "\<dots> = (case ?err of
         None \<Rightarrow> finish_connect a (Inr ()) (?c1\<lparr>c_pending := AList.delete (show_nat ?n) (c_pending ?c1),
                    c_settled := c_settled ?c1 @ [(Authenticating a ?n, Inr v')], c_connected := True\<rparr>)
       | Some (code, m) \<Rightarrow> finish_connect a (Inl (RpcErr code m)) (?c1\<lparr>c_pending := AList.delete (show_nat ?n) (c_pending ?c1),
                    c_settled := c_settled ?c1 @ [(Authenticating a ?n, Inl (RpcErr code m))]\<rparr>))"
    by (rule token_answered) (use client in \<open>simp_all add: quiet_def\<close>)
  finally have c2: "c_connected ?c2 = ?same"
    "last (c_connects ?c2) = (a, if ?same then Inr () else Inl (RpcErr 401 ''Invalid auth token''))"
    using client(3) by (simp_all add: finish_connect_def)
  have "handshake cparse encode nonce_of hmac throws sparse ser now a sock nonce (c, d) = (?c2, ?d2)"
    using srv(1,2) c1 token(2) by (simp add: handshake_def Let_def)
  then show ?thesis using c2 srv(3,4) by (simp only: Let_def prod.case simp_thms)
qed

subsection \<open>The sandbox's shared API\<close>

text \<open>\<open>src/src/daemon/sandbox-api.ts\<close>: \<open>createSharedApi\<close> binds each operation to a method of the client, or to nothing when
  there is no client. \<open>Standalone\<close> holds what the stub answers: \<open>null\<close>, nothing, no keys, a lock that is no lock.\<close>

datatype 'j shared_op =
    ApiGet string
  | ApiSet string 'j "int option"
  | ApiDelete string
  | ApiList "string option"
  | ApiLock string "int option"
  | ApiUnlock string
  | ApiBroadcast string 'j
  | ApiSubscribe string

fun shared_request :: "'j shared_op \<Rightarrow> 'j client_request" where
  "shared_request (ApiGet key) = KvGet key"
| "shared_request (ApiSet key val ttl) = KvSet key val ttl"
| "shared_request (ApiDelete key) = KvDelete key"
| "shared_request (ApiList pre) = KvList pre"
| "shared_request (ApiLock key ms) = LockAcquire key ms"
| "shared_request (ApiUnlock key) = LockRelease key"
| "shared_request (ApiBroadcast ch m) = Publish ch m"
| "shared_request (ApiSubscribe ch) = SubscribeTo ch"

datatype standalone = AnswersNull | AnswersNothing | AnswersNoKeys | AnswersNoLock | AnswersNoSubscription

fun noop_shared :: "'j shared_op \<Rightarrow> standalone" where
  "noop_shared (ApiGet key) = AnswersNull"
| "noop_shared (ApiSet key val ttl) = AnswersNothing"
| "noop_shared (ApiDelete key) = AnswersNothing"
| "noop_shared (ApiList pre) = AnswersNoKeys"
| "noop_shared (ApiLock key ms) = AnswersNoLock"
| "noop_shared (ApiUnlock key) = AnswersNothing"
| "noop_shared (ApiBroadcast ch m) = AnswersNothing"
| "noop_shared (ApiSubscribe ch) = AnswersNoSubscription"

fun shared_call ::
  "(nat \<Rightarrow> 'j client_request \<Rightarrow> string option) \<Rightarrow> 'j shared_op \<Rightarrow> 'j daemon_client option \<Rightarrow>
   standalone + 'j daemon_client" where
  "shared_call encode sop None = Inl (noop_shared sop)"
| "shared_call encode (ApiSubscribe ch) (Some s) = Inr (subscribe_called encode ch s)"
| "shared_call encode sop (Some s) = Inr (call_method encode (shared_request sop) s)"

lemma client_ok_shared: "client_ok s \<Longrightarrow> shared_call encode sop (Some s) = Inr s' \<Longrightarrow> client_ok s'"
  by (cases sop) (auto intro: client_ok_call client_ok_subscribe)

text \<open>On an open socket every operation of the API sends exactly its request, under a new number.\<close>

lemma shared_call_sends:
  assumes "c_socket s = Some sock" "sock \<notin> set (c_dead s)" "encode (c_nextId s) (shared_request sop) \<noteq> None"
    and "shared_call encode sop (Some s) = Inr s'"
  shows "c_sent s' = c_sent s @ [(sock, c_nextId s, shared_request sop)]"
  using assms by (cases sop) (auto simp: call_method_def subscribe_called_def rpc_def Let_def)

text \<open>Without a daemon two holders take the same lock.\<close>

lemma standalone_lock_excludes_nobody:
  "shared_call encode (ApiLock key ms) None = Inl AnswersNoLock"
  by simp

subsection \<open>Runs\<close>

text \<open>A line format small enough to read: \<open>c:\<close> a challenge, \<open>o:\<close> a result, \<open>n:\<close> an error, \<open>b:\<close> a broadcast.\<close>

definition tiny_parse :: "string \<Rightarrow> string server_line option" where
  "tiny_parse l =
     (if prefix ''c:'' l then Some (ResponseLine (Some ''__auth_challenge__'') None (drop 2 l))
      else if prefix ''o:'' l then Some (ResponseLine (Some (drop 2 l)) None [])
      else if prefix ''n:'' l then Some (ResponseLine (Some (drop 2 l)) (Some (401, ''Invalid auth token'')) [])
      else if prefix ''b:'' l then Some (BroadcastLine (Some ''news'') (drop 2 l))
      else None)"

fun tiny_encode :: "nat \<Rightarrow> string client_request \<Rightarrow> string option" where
  "tiny_encode i (Auth t) = Some (show_nat i @ ''.'' @ t)"
| "tiny_encode i req = Some (show_nat i @ method_of req)"

definition tiny_request :: "string \<Rightarrow> string rpc_request option" where
  "tiny_request l = Some \<lparr>reqId = take 1 l, reqMethod = ''__auth__'', p_token = Some (drop 2 l), p_key = [],
     p_value = [], p_ttl = None, p_prefix = None, p_channel = [], p_message = []\<rparr>"

fun tiny_ser :: "string wire_message \<Rightarrow> string" where
  "tiny_ser (Challenge nonce) = ''c:'' @ nonce"
| "tiny_ser (Result i x) = ''o:'' @ i"
| "tiny_ser (Failure i code m) = ''n:'' @ i"
| "tiny_ser (Envelope ch m) = ''b:'' @ m"

definition tiny_run :: "string client_event list \<Rightarrow> string daemon_client" where
  "tiny_run es = foldl (client_step tiny_parse tiny_encode Some (@) (\<lambda>l m. m = ''bad'')) (new_client ''k'' None) es"

definition tiny_line :: "string \<Rightarrow> string" where "tiny_line l = l @ [newline]"

definition join_events :: "nat \<Rightarrow> nat \<Rightarrow> string client_event list" where
  "join_events a i = [ConnectCalled, Opened a, Received a (tiny_line ''c:N''), Received a (tiny_line (''o:'' @ show_nat i))]"

theorem close_settles_all_witness:
  "let s = tiny_run (join_events 0 1 @ [Called Ping]);
       t = client_step tiny_parse tiny_encode Some (@) (\<lambda>l m. m = ''bad'') s (Closed 0) in
     c_pending t = [] \<and> \<not> c_connected t \<and> settled_calls t = mset (sent_calls t) \<and>
     c_settled t = c_settled s @ map (\<lambda>(i, w). (w, Inl ConnClosed)) (c_pending s)"
proof -
  have "0 \<in> set (c_opened (tiny_run (join_events 0 1 @ [Called Ping])))" by code_simp
  from close_settles_all [OF tiny_run_def this] show ?thesis unfolding Let_def .
qed

theorem handshake_iff_same_token_witness:
  "let (c', d') = handshake tiny_parse tiny_encode Some (@) (\<lambda>l m. m = ''bad'') tiny_request tiny_ser 0 0 7 ''N''
                    (tiny_run [ConnectCalled, Opened 0], new_daemon ''z'' 0 (new_kv 0 True NoFile));
       same = (c_secret (tiny_run [ConnectCalled, Opened 0]) @ ''N''
               = sharedSecret (new_daemon ''z'' 0 (new_kv 0 True NoFile :: string kv)) @ ''N'')
   in c_connected c' = same \<and> is_authenticated 7 d' = same \<and> is_destroyed 7 d' = (\<not> same) \<and>
      last (c_connects c') = (0, if same then Inr () else Inl (RpcErr 401 ''Invalid auth token''))"
proof (rule handshake_iff_same_token [where v = "''N''" and v' = "[]" and line = "''1.kN''" and r = "the (tiny_request ''1.kN'')"])
  show "\<not> js_has (conns (new_daemon ''z'' 0 (new_kv 0 True NoFile :: string kv))) 7"
    by (simp add: new_daemon_def js_has_def)
  show "length ''1.kN'' < MAX_BUFFER_BYTES" by (simp add: MAX_BUFFER_BYTES_def)
qed code_simp+

text \<open>Behaviour to know.\<close>

lemma second_connect_hangs:
  "let s = tiny_run [ConnectCalled, ConnectCalled, Opened 0, Opened 1, Received 0 (tiny_line ''c:N''),
                     Received 1 (tiny_line ''c:M''), Received 1 (tiny_line ''n:1'')]
   in map fst (c_connects s) = [1] \<and> c_pending s = []"
  by code_simp

lemma late_close_rejects_new_calls:
  "let s = tiny_run (join_events 0 1 @ [DisconnectCalled, DisconnectDone] @ join_events 1 2 @ [Called Ping, Closed 0])
   in c_socket s = Some 1 \<and> 1 \<in> set (c_opened s) \<and> \<not> c_connected s \<and> last (c_settled s) = (Caller 3, Inl ConnClosed)"
  by code_simp

lemma stale_buffer_breaks_reconnect:
  "let s = tiny_run (join_events 0 1 @ [Received 0 ''b:hal'', Closed 0, ConnectCalled, Opened 1, Received 1 (tiny_line ''c:N'')])
   in c_pending s = [(''__auth_challenge__'', Challenged 1)] \<and> map fst (c_connects s) = [0]"
  by code_simp

lemma thrown_handler_skips_the_rest:
  "let s = tiny_run (join_events 0 1 @ [Subscribed ''news'', Subscribed ''news'', Received 0 (tiny_line ''b:bad'')])
   in c_delivered s = [(0, ''bad'')]"
  by code_simp

text \<open>The daemon keeps no subscriptions, so that a reconnect does not send them again loses nothing.\<close>

lemma subscriptions_not_renewed:
  "let s = tiny_run (join_events 0 1 @ [Subscribed ''news'', Closed 0] @ join_events 1 3)
   in c_connected s \<and> c_listeners s = [(0, ''news'')] \<and>
      filter (\<lambda>(sock, i, req). req = SubscribeTo ''news'') (c_sent s) = [(0, 2, SubscribeTo ''news'')]"
  by code_simp

end
