(* ===== verification/Discovery.thy ===== *)
theory Discovery
  imports Prelude
begin

text \<open>
  \<open>src/src/daemon/discovery.ts\<close>: what the Tailscale program says of the machines of its network, kept for ten seconds,
  and the address of a machine by its name. The program is a parameter: \<open>cli\<close> is its output after
  \<open>JSON.parse\<close>, with the fields the code reads, or None when the program, the parse or a read fails. The
  list of peers is \<open>Object.values(raw.Peer ?? {})\<close>.
\<close>

record raw_peer =
  HostName :: "string option"
  TailscaleIPs :: "string list"
  Online :: "bool option"

record tailscale_peer =
  peer_hostname :: string
  peer_ip :: string
  peer_online :: bool

record tailscale_status =
  ts_available :: bool
  ts_selfHostname :: "string option"
  ts_selfIp :: "string option"
  ts_peers :: "tailscale_peer list"

definition first_ip :: "raw_peer \<Rightarrow> string option" where
  "first_ip p = (case TailscaleIPs p of [] \<Rightarrow> None | ip # ips \<Rightarrow> Some ip)"

fun peers_of :: "raw_peer list \<Rightarrow> tailscale_peer list" where
  "peers_of [] = []"
| "peers_of (p # ps) =
     (case (first_ip p, HostName p) of
        (Some ip, Some h) \<Rightarrow>
          (if ip = [] \<or> h = [] then peers_of ps
           else \<lparr>peer_hostname = h, peer_ip = ip, peer_online = nullish (Online p) False\<rparr> # peers_of ps)
      | _ \<Rightarrow> peers_of ps)"

definition queryTailscaleCli :: "(raw_peer option \<times> raw_peer list) option \<Rightarrow> tailscale_status" where
  "queryTailscaleCli cli =
     (case cli of
        Some (self, raw) \<Rightarrow>
          \<lparr>ts_available = True, ts_selfHostname = Option.bind self HostName, ts_selfIp = Option.bind self first_ip,
           ts_peers = peers_of raw\<rparr>
      | None \<Rightarrow> \<lparr>ts_available = False, ts_selfHostname = None, ts_selfIp = None, ts_peers = []\<rparr>)"

text \<open>The cache: when it expires and what it holds. \<open>fin\<close> is the time at which the query ends.\<close>

record discovery =
  cacheTtlMs :: int
  d_cache :: "(time \<times> tailscale_status) option"

definition new_discovery :: "int option \<Rightarrow> discovery" where
  "new_discovery ttl = \<lparr>cacheTtlMs = nullish ttl 10000, d_cache = None\<rparr>"

definition cached_status :: "time \<Rightarrow> discovery \<Rightarrow> tailscale_status option" where
  "cached_status now d =
     (case d_cache d of Some (expiresAt, st) \<Rightarrow> (if now < expiresAt then Some st else None) | None \<Rightarrow> None)"

definition ts_status ::
  "time \<Rightarrow> time \<Rightarrow> (raw_peer option \<times> raw_peer list) option \<Rightarrow> discovery \<Rightarrow> tailscale_status \<times> discovery" where
  "ts_status now fin cli d =
     (case cached_status now d of
        Some st \<Rightarrow> (st, d)
      | None \<Rightarrow> (queryTailscaleCli cli, d\<lparr>d_cache := Some (fin + cacheTtlMs d, queryTailscaleCli cli)\<rparr>))"

definition resolve_host :: "string \<Rightarrow> tailscale_status \<Rightarrow> string option" where
  "resolve_host hostname st =
     (if \<not> ts_available st then None
      else if map_option js_lower (ts_selfHostname st) = Some (js_lower hostname) then ts_selfIp st
      else map_option peer_ip (find (\<lambda>p. js_lower (peer_hostname p) = js_lower hostname) (ts_peers st)))"

definition invalidateCache :: "discovery \<Rightarrow> discovery" where
  "invalidateCache d = d\<lparr>d_cache := None\<rparr>"

subsection \<open>What the answers are\<close>

lemma peers_named: "p \<in> set (peers_of ps) \<Longrightarrow> peer_hostname p \<noteq> [] \<and> peer_ip p \<noteq> []"
  by (induction ps) (auto split: option.splits if_splits)

lemma peer_reported:
  "p \<in> set (peers_of ps) \<Longrightarrow> \<exists>r \<in> set ps. HostName r = Some (peer_hostname p) \<and> first_ip r = Some (peer_ip p)"
  by (induction ps) (auto split: option.splits if_splits)

text \<open>An address that \<open>resolve\<close> gives is the first address of a machine of that name, up to case; a peer that is offline
  is given too.\<close>

lemma resolve_sound:
  assumes "resolve_host hostname (queryTailscaleCli cli) = Some ip"
  obtains r self raw where "cli = Some (self, raw)" "r \<in> set_option self \<union> set raw"
    "map_option js_lower (HostName r) = Some (js_lower hostname)" "first_ip r = Some ip"
proof (cases cli)
  case None
  then show ?thesis using assms by (simp add: resolve_host_def queryTailscaleCli_def)
next
  case (Some sr)
  obtain self raw where sr: "sr = (self, raw)" by force
  show ?thesis
  proof (cases "map_option js_lower (Option.bind self HostName) = Some (js_lower hostname)")
    case True
    then obtain r where r: "self = Some r" by (cases self) auto
    then have "first_ip r = Some ip" using assms True Some sr
      by (simp add: resolve_host_def queryTailscaleCli_def)
    then show ?thesis using that [of self raw r] True r Some sr by simp
  next
    case False
    then obtain p where p: "find (\<lambda>p. js_lower (peer_hostname p) = js_lower hostname) (peers_of raw) = Some p" "peer_ip p = ip"
      using assms Some sr by (simp add: resolve_host_def queryTailscaleCli_def if_not_P [OF False] del: map_option_eq_Some) blast
    then have "p \<in> set (peers_of raw)" "js_lower (peer_hostname p) = js_lower hostname"
      by (auto simp: find_Some_iff)
    then show ?thesis using peer_reported that [of self raw] p(2) Some sr by fastforce
  qed
qed

lemma resolve_offline_peer:
  "resolve_host ''Box'' (queryTailscaleCli (Some (None, [\<lparr>HostName = Some ''box'', TailscaleIPs = [''100.64.0.1''], Online = Some False\<rparr>])))
    = Some ''100.64.0.1''"
  by code_simp

subsection \<open>How old an answer can be\<close>

text \<open>A run of questions, each with its time, the time its query would end and what the program would say.\<close>

fun ask :: "(time \<times> time \<times> (raw_peer option \<times> raw_peer list) option) list \<Rightarrow> discovery \<Rightarrow>
    (tailscale_status \<times> discovery)" where
  "ask [] d = (queryTailscaleCli None, d)"
| "ask [(now, fin, cli)] d = ts_status now fin cli d"
| "ask ((now, fin, cli) # q # qs) d = ask (q # qs) (snd (ts_status now fin cli d))"

definition cache_from :: "(time \<times> time \<times> (raw_peer option \<times> raw_peer list) option) list \<Rightarrow> discovery \<Rightarrow> bool" where
  "cache_from qs d \<longleftrightarrow>
     (\<forall>expiresAt st. d_cache d = Some (expiresAt, st) \<longrightarrow>
        (\<exists>(now, fin, cli) \<in> set qs. expiresAt = fin + cacheTtlMs d \<and> st = queryTailscaleCli cli))"

lemma status_ttl [simp]: "cacheTtlMs (snd (ts_status now fin cli d)) = cacheTtlMs d"
  by (simp add: ts_status_def split: option.split)

lemma cache_from_status:
  assumes "cache_from qs d"
  shows "cache_from (qs @ [(now, fin, cli)]) (snd (ts_status now fin cli d))"
  using assms by (auto simp: cache_from_def ts_status_def split: option.splits)

lemma status_recent:
  assumes "cache_from qs d"
  shows "\<exists>(t, fin', cli') \<in> set (qs @ [(now, fin, cli)]). fst (ts_status now fin cli d) = queryTailscaleCli cli' \<and>
           (now < fin' + cacheTtlMs d \<or> (t, fin', cli') = (now, fin, cli))"
proof (cases "cached_status now d")
  case None
  then show ?thesis by (auto simp: ts_status_def)
next
  case (Some st)
  then obtain e where e: "d_cache d = Some (e, st)" "now < e"
    by (auto simp: cached_status_def split: option.splits if_splits)
  then obtain t fin' cli' where "(t, fin', cli') \<in> set qs" "e = fin' + cacheTtlMs d" "st = queryTailscaleCli cli'"
    using assms unfolding cache_from_def by blast
  then show ?thesis using Some e by (force simp: ts_status_def)
qed

lemma ask_recent:
  assumes "cache_from past d" "qs \<noteq> []"
  shows "\<exists>(t, fin', cli') \<in> set (past @ qs). fst (ask qs d) = queryTailscaleCli cli' \<and>
           (fst (last qs) < fin' + cacheTtlMs d \<or> (t, fin', cli') = last qs)"
  using assms
proof (induction qs d arbitrary: past rule: ask.induct)
  case (2 now fin cli d)
  then show ?case using status_recent [of past d now fin cli] by auto
next
  case (3 now fin cli q qs d)
  have "cache_from (past @ [(now, fin, cli)]) (snd (ts_status now fin cli d))"
    using 3(2) by (rule cache_from_status)
  from 3(1) [OF this] show ?case by auto
qed simp

text \<open>Every answer of a fresh object is what the program said in one of the queries so far, and one that ended less
  than the life time of the cache before, or in the query of this very call.\<close>

theorem discovery_answers_recent:
  assumes "qs \<noteq> []"
  shows "\<exists>(t, fin, cli) \<in> set qs. fst (ask qs (new_discovery ttl)) = queryTailscaleCli cli \<and>
    (fst (last qs) < fin + nullish ttl 10000 \<or> (t, fin, cli) = last qs)"
  using ask_recent [of "[]" "new_discovery ttl" qs] assms by (simp add: cache_from_def new_discovery_def)

end
