(* ===== verification/Skills.thy ===== *)
theory Skills
  imports Passthrough LineFraming
begin

text \<open>
  The skills engine, \<open>src/src/skills/skills-engine.ts\<close>: the parser of skill files, the scan of the directory, the two
  maps it fills, and the queries over them. A directory tree is a value; a file that cannot be read has no
  text and a directory that cannot be read no entries; entries are in the order \<open>readdir\<close> gives. A value of a
  skill file is a JSON scalar or a list of them; an exception is \<open>None\<close> or \<open>Inl\<close>. The queries run between two
  loads, not in the middle of one.
\<close>

subsection \<open>Skill files\<close>

datatype yaml = Scalar js_value | YamlList "js_value list"

type_synonym metadata = "(string, yaml) jsmap"

definition quoted_by :: "char \<Rightarrow> string \<Rightarrow> bool" where
  "quoted_by q v \<longleftrightarrow> v \<noteq> [] \<and> hd v = q \<and> last v = q"

text \<open>\<open>value.slice(1, -1)\<close>\<close>

definition unquote :: "string \<Rightarrow> string" where "unquote v = butlast (tl v)"

definition parseYamlValue :: "string \<Rightarrow> js_value" where
  "parseYamlValue v =
     (if quoted_by (CHR 0x22) v \<or> quoted_by (CHR 0x27) v then Json (JStr (unquote v))
      else if v = ''true'' then Json (JBool True)
      else if v = ''false'' then Json (JBool False)
      else if v = ''null'' \<or> v = ''~'' then Json JNull
      else (case js_Number v of
              Some n \<Rightarrow> (if v \<noteq> [] then n else Json (JStr v))
            | None \<Rightarrow> Json (JStr v)))"

text \<open>\<open>result[key] = value\<close> on an object literal: the keys that are array indices come first, in the order of
  their numbers, and the key \<open>__proto__\<close> makes no property.\<close>

definition put_key :: "string \<Rightarrow> yaml \<Rightarrow> metadata \<Rightarrow> metadata" where
  "put_key k v m = (if k = ''__proto__'' then m else own_properties (AList.update k v m))"

text \<open>The variables of the loop.\<close>

record yaml_state =
  y_result :: metadata
  y_key :: string
  y_inArray :: bool
  y_values :: "js_value list"

definition new_yaml_state :: yaml_state where
  "new_yaml_state = \<lparr>y_result = [], y_key = [], y_inArray = False, y_values = []\<rparr>"

definition end_array :: "yaml_state \<Rightarrow> yaml_state" where
  "end_array s = s\<lparr>y_result := put_key (y_key s) (YamlList (y_values s)) (y_result s), y_inArray := False, y_values := []\<rparr>"

definition key_line :: "string \<Rightarrow> yaml_state \<Rightarrow> yaml_state" where
  "key_line l s =
     (case js_index_of l '':'' of
        None \<Rightarrow> s
      | Some i \<Rightarrow>
          (if i = 0 then s
           else (let key = LineFraming.js_trim (take i l); v = LineFraming.js_trim (drop (i + 1) l) in
                 if v = [] then s\<lparr>y_key := key, y_inArray := True, y_values := []\<rparr>
                 else s\<lparr>y_result := put_key key (Scalar (parseYamlValue v)) (y_result s)\<rparr>)))"

definition yaml_line :: "string \<Rightarrow> yaml_state \<Rightarrow> yaml_state" where
  "yaml_line line s =
     (let l = LineFraming.js_trim line in
      if l = [] \<or> prefix ''#'' l then s
      else if prefix ''- '' l \<and> y_inArray s
      then s\<lparr>y_values := y_values s @ [parseYamlValue (LineFraming.js_trim (drop 2 l))]\<rparr>
      else key_line l (if y_inArray s \<and> \<not> prefix ''- '' l then end_array s else s))"

definition parseYaml :: "string \<Rightarrow> metadata" where
  "parseYaml content =
     (let s = fold yaml_line (split_newline content) new_yaml_state in
      if y_inArray s \<and> y_key s \<noteq> [] then put_key (y_key s) (YamlList (y_values s)) (y_result s) else y_result s)"

subsection \<open>Loading\<close>

datatype fs_entry = FsFile string "string option" | FsDir string "fs_entry list option"

text \<open>A key of a \<open>Map\<close>: a scalar by its value, a list by its identity, here the number of the load.\<close>

datatype map_key = ByValue js_value | ByIdentity nat

definition key_of :: "nat \<Rightarrow> yaml \<Rightarrow> map_key" where
  "key_of n y = (case y of Scalar v \<Rightarrow> ByValue v | YamlList vs \<Rightarrow> ByIdentity n)"

record skill =
  sk_metadata :: metadata
  sk_implementation :: string
  sk_path :: string
  sk_loadedAt :: time

record skills_engine =
  allowedCategories :: "string list option"
  e_skills :: "(map_key, skill) jsmap"
  e_categories :: "(map_key, map_key list) jsmap"
  e_loads :: nat
  e_loaded :: bool

definition new_engine :: "string list option \<Rightarrow> skills_engine" where
  "new_engine allowed =
     \<lparr>allowedCategories = allowed, e_skills = [], e_categories = [], e_loads = 0, e_loaded = False\<rparr>"

text \<open>Truth of a value: \<open>!metadata.name\<close> holds for what is missing or falsy.\<close>

fun scalar_true :: "js_value \<Rightarrow> bool" where
  "scalar_true (Json JNull) = False"
| "scalar_true (Json (JBool b)) = b"
| "scalar_true (Json (JNum n)) = (n \<noteq> 0)"
| "scalar_true (Json (JStr s)) = (s \<noteq> [])"
| "scalar_true v = True"

fun yaml_true :: "yaml option \<Rightarrow> bool" where
  "yaml_true None = False"
| "yaml_true (Some (Scalar v)) = scalar_true v"
| "yaml_true (Some (YamlList vs)) = True"

definition category_allowed :: "string list option \<Rightarrow> yaml \<Rightarrow> bool" where
  "category_allowed allowed c =
     (case allowed of
        None \<Rightarrow> True
      | Some cs \<Rightarrow> cs = [] \<or> (case c of Scalar (Json (JStr s)) \<Rightarrow> s \<in> set cs | _ \<Rightarrow> False))"

fun file_named :: "string \<Rightarrow> fs_entry list \<Rightarrow> string option option" where
  "file_named n [] = None"
| "file_named n (FsFile m c # es) = (if m = n then Some c else file_named n es)"
| "file_named n (FsDir m sub # es) = file_named n es"

fun first_file :: "string list \<Rightarrow> fs_entry list \<Rightarrow> string option option" where
  "first_file [] es = None"
| "first_file (n # ns) es = (case file_named n es of Some c \<Rightarrow> Some c | None \<Rightarrow> first_file ns es)"

definition findSkillYaml :: "fs_entry list \<Rightarrow> string option option" where
  "findSkillYaml es = first_file [''skill.yaml'', ''skill.yml''] es"

text \<open>No file found, or one with its text; None is a file that cannot be read.\<close>

definition findImplementation :: "fs_entry list \<Rightarrow> string option option" where
  "findImplementation es = first_file [''skill.ts'', ''index.ts'', ''skill.js'', ''index.js''] es"

definition implementation_text :: "fs_entry list \<Rightarrow> string option" where
  "implementation_text es = (case findImplementation es of None \<Rightarrow> Some [] | Some c \<Rightarrow> c)"

definition set_add :: "'a \<Rightarrow> 'a list \<Rightarrow> 'a list" where
  "set_add x xs = (if x \<in> set xs then xs else xs @ [x])"

definition record_skill :: "skill \<Rightarrow> yaml \<Rightarrow> yaml \<Rightarrow> skills_engine \<Rightarrow> skills_engine" where
  "record_skill sk name category s =
     (let nk = key_of (2 * e_loads s) name; ck = key_of (2 * e_loads s + 1) category in
      s\<lparr>e_skills := AList.update nk sk (e_skills s),
        e_categories := AList.update ck (set_add nk (nullish (map_of (e_categories s) ck) [])) (e_categories s),
        e_loads := e_loads s + 1\<rparr>)"

definition loadSkill :: "time \<Rightarrow> string \<Rightarrow> fs_entry list \<Rightarrow> string option \<Rightarrow> skills_engine \<Rightarrow> skills_engine" where
  "loadSkill now dir here content s =
     (case content of
        None \<Rightarrow> s
      | Some tx \<Rightarrow>
          (let m = parseYaml tx in
           case (map_of m ''name'', map_of m ''category'') of
             (Some name, Some category) \<Rightarrow>
               (if \<not> yaml_true (Some name) \<or> \<not> yaml_true (Some category) \<or> \<not> yaml_true (map_of m ''description'') then s
                else if \<not> category_allowed (allowedCategories s) category then s
                else (case implementation_text here of
                        None \<Rightarrow> s
                      | Some impl \<Rightarrow>
                          record_skill \<lparr>sk_metadata = m, sk_implementation = impl, sk_path = dir, sk_loadedAt = now\<rparr>
                            name category s))
           | _ \<Rightarrow> s))"

text \<open>\<open>scanDirectory\<close>: the error is that of a directory that cannot be read. \<open>here\<close> are all entries of the directory.\<close>

definition path_join :: "string \<Rightarrow> string \<Rightarrow> string" where
  "path_join dir n = dir @ ''/'' @ n"

fun scanDirectory ::
  "time \<Rightarrow> string \<Rightarrow> fs_entry list \<Rightarrow> fs_entry list \<Rightarrow> skills_engine \<Rightarrow> (string \<times> skills_engine) + skills_engine" where
  "scanDirectory now dir here [] s = Inr s"
| "scanDirectory now dir here (FsFile n c # es) s =
     scanDirectory now dir here es
       (if n = ''skill.yaml'' \<or> n = ''skill.yml'' then loadSkill now dir here c s else s)"
| "scanDirectory now dir here (FsDir n None # es) s = Inl (path_join dir n, s)"
| "scanDirectory now dir here (FsDir n (Some sub) # es) s =
     (case findSkillYaml sub of
        Some c \<Rightarrow> scanDirectory now dir here es (loadSkill now (path_join dir n) sub c s)
      | None \<Rightarrow>
          (case scanDirectory now (path_join dir n) sub sub s of
             Inl e \<Rightarrow> Inl e
           | Inr s' \<Rightarrow> scanDirectory now dir here es s'))"

text \<open>\<open>loadSkills\<close>: the entry at the configured path, if there is one.\<close>

definition loadSkills ::
  "time \<Rightarrow> string \<Rightarrow> fs_entry option \<Rightarrow> skills_engine \<Rightarrow> (string \<times> skills_engine) + skills_engine" where
  "loadSkills now dir at_path s =
     (let s0 = s\<lparr>e_skills := [], e_categories := []\<rparr> in
      case at_path of
        Some (FsDir n None) \<Rightarrow> Inl (dir, s0)
      | Some (FsDir n (Some es)) \<Rightarrow>
          (case scanDirectory now dir es es s0 of
             Inl e \<Rightarrow> Inl e
           | Inr s' \<Rightarrow> Inr (s'\<lparr>e_loaded := True\<rparr>))
      | _ \<Rightarrow> Inr (s0\<lparr>e_loaded := True\<rparr>))"

subsection \<open>Queries\<close>

record skill_item =
  it_name :: "yaml option"
  it_category :: "yaml option"
  it_description :: "yaml option"
  it_version :: "yaml option"
  it_tags :: "yaml option"

definition item_of :: "skill \<Rightarrow> skill_item" where
  "item_of sk =
     (let m = sk_metadata sk in
      \<lparr>it_name = map_of m ''name'', it_category = map_of m ''category'', it_description = map_of m ''description'',
       it_version = map_of m ''version'', it_tags = map_of m ''tags''\<rparr>)"

definition list_skills :: "skills_engine \<Rightarrow> skill_item list" where
  "list_skills s = map (\<lambda>(k, sk). item_of sk) (e_skills s)"

definition text_key :: "string \<Rightarrow> map_key" where "text_key n = ByValue (Json (JStr n))"

definition listByCategory :: "string \<Rightarrow> skills_engine \<Rightarrow> skill_item list" where
  "listByCategory c s =
     (case map_of (e_categories s) (text_key c) of
        None \<Rightarrow> []
      | Some names \<Rightarrow> map item_of (List.map_filter (map_of (e_skills s)) names))"

definition getCategories :: "skills_engine \<Rightarrow> map_key list" where
  "getCategories s = js_keys (e_categories s)"

definition get_skill :: "string \<Rightarrow> skills_engine \<Rightarrow> skill option" where
  "get_skill n s = map_of (e_skills s) (text_key n)"

definition getImplementation :: "string \<Rightarrow> skills_engine \<Rightarrow> string option" where
  "getImplementation n s = map_option sk_implementation (get_skill n s)"

definition getMetadata :: "string \<Rightarrow> skills_engine \<Rightarrow> metadata option" where
  "getMetadata n s = map_option sk_metadata (get_skill n s)"

definition has_skill :: "string \<Rightarrow> skills_engine \<Rightarrow> bool" where
  "has_skill n s = js_has (e_skills s) (text_key n)"

definition getSkillCount :: "skills_engine \<Rightarrow> nat" where
  "getSkillCount s = length (e_skills s)"

text \<open>\<open>value.toLowerCase()\<close> of a field: None is the \<open>TypeError\<close> for what is not a text.\<close>

definition lower_field :: "yaml option \<Rightarrow> string option" where
  "lower_field y = (case y of Some (Scalar (Json (JStr s))) \<Rightarrow> Some (js_lower s) | _ \<Rightarrow> None)"

fun some_tag :: "string \<Rightarrow> js_value list \<Rightarrow> bool option" where
  "some_tag q [] = Some False"
| "some_tag q (v # vs) =
     (case lower_field (Some (Scalar v)) of
        None \<Rightarrow> None
      | Some t \<Rightarrow> (if js_includes t q then Some True else some_tag q vs))"

definition tags_match :: "string \<Rightarrow> yaml option \<Rightarrow> bool option" where
  "tags_match q tags =
     (case tags of
        None \<Rightarrow> Some False
      | Some (YamlList vs) \<Rightarrow> some_tag q vs
      | Some (Scalar v) \<Rightarrow> (if v = Json JNull then Some False else None))"

definition relevance :: "string \<Rightarrow> metadata \<Rightarrow> nat option" where
  "relevance q m =
     (case lower_field (map_of m ''name'') of
        None \<Rightarrow> None
      | Some name \<Rightarrow>
          (if name = q then Some 100
           else if js_includes name q then Some 80
           else (case lower_field (map_of m ''category'') of
                   None \<Rightarrow> None
                 | Some category \<Rightarrow>
                     (if js_includes category q then Some 60
                      else (case lower_field (map_of m ''description'') of
                              None \<Rightarrow> None
                            | Some desc \<Rightarrow>
                                (if js_includes desc q then Some 40
                                 else map_option (\<lambda>b. if b then 50 else 0) (tags_match q (map_of m ''tags''))))))))"

fun matches_of :: "string \<Rightarrow> skill list \<Rightarrow> (skill_item \<times> nat) list option" where
  "matches_of q [] = Some []"
| "matches_of q (sk # sks) =
     (case relevance q (sk_metadata sk) of
        None \<Rightarrow> None
      | Some r \<Rightarrow> map_option (\<lambda>rs. if r > 0 then (item_of sk, r) # rs else rs) (matches_of q sks))"

text \<open>\<open>results.sort((a, b) => b.relevance - a.relevance)\<close>, which is stable.\<close>

definition search_skills :: "string \<Rightarrow> skills_engine \<Rightarrow> (skill_item \<times> nat) list option" where
  "search_skills query s =
     (if query = [] then Some []
      else map_option (sort_key (\<lambda>x. - int (snd x))) (matches_of (js_lower query) (map snd (e_skills s))))"

definition sanitiseName :: "string \<Rightarrow> string" where
  "sanitiseName n = map (\<lambda>c. let k = (of_char c :: nat) in
     if 48 \<le> k \<and> k \<le> 57 \<or> 65 \<le> k \<and> k \<le> 90 \<or> 97 \<le> k \<and> k \<le> 122 \<or> c = CHR ''_'' then c else CHR ''_'') n"

text \<open>\<open>generateSkillLoader\<close>; \<open>text_of\<close> is \<open>String(value)\<close> of a field.\<close>

definition generateSkillLoader :: "(yaml option \<Rightarrow> string) \<Rightarrow> string \<Rightarrow> skills_engine \<Rightarrow> string option" where
  "generateSkillLoader text_of n s =
     (case get_skill n s of
        None \<Rightarrow> None
      | Some sk \<Rightarrow>
          (if sk_implementation sk = [] then None
           else Some (newline # ''// Skill: '' @ text_of (map_of (sk_metadata sk) ''name'')
             @ newline # ''// Category: '' @ text_of (map_of (sk_metadata sk) ''category'')
             @ newline # ''// Description: '' @ text_of (map_of (sk_metadata sk) ''description'')
             @ newline # newline # ''const __skill_'' @ sanitiseName n @ '' = (() => '' @ [CHR 0x7B]
             @ newline # ''  '' @ sk_implementation sk
             @ newline # CHR 0x7D # '')();'' @ [newline])))"

text \<open>\<open>getSkillsEngine\<close>: the directory of the global engine, which the first call decides. A configuration is its
  directory, if it names one, and its categories.\<close>

definition resolve_config ::
  "(string option \<times> string list option) option \<Rightarrow> string option \<Rightarrow> string + (string \<times> string list option)" where
  "resolve_config config envDir =
     (let given = Option.bind config fst;
          dir = (case given of Some d \<Rightarrow> Some d | None \<Rightarrow> envDir)
      in if (dir = None \<or> dir = Some []) \<and> config = None
         then Inl ''Skills engine not initialised. Provide config on first call.''
         else Inr (nullish dir ''./skills'',
                   case Option.bind config snd of Some cs \<Rightarrow> Some cs | None \<Rightarrow> Some []))"

definition getSkillsEngine ::
  "(string option \<times> string list option) option \<Rightarrow> string option \<Rightarrow> (string \<times> skills_engine) option \<Rightarrow>
   string + (string \<times> skills_engine)" where
  "getSkillsEngine config envDir global =
     (case global of
        Some g \<Rightarrow> Inr g
      | None \<Rightarrow> map_sum id (\<lambda>(dir, cs). (dir, new_engine cs)) (resolve_config config envDir))"

subsection \<open>A skill file survives its parser\<close>

fun plain_entry :: "string \<times> yaml \<Rightarrow> bool" where
  "plain_entry (k, Scalar v) = (case v of Json (JStr s) \<Rightarrow> newline \<notin> set s | _ \<Rightarrow> False)"
| "plain_entry (k, YamlList vs) = list_all (\<lambda>v. case v of Json (JStr s) \<Rightarrow> newline \<notin> set s | _ \<Rightarrow> False) vs"

definition plain_key :: "string \<Rightarrow> bool" where
  "plain_key k \<longleftrightarrow> k \<noteq> [] \<and> \<not> is_space (hd k) \<and> \<not> is_space (last k) \<and> newline \<notin> set k \<and> CHR '':'' \<notin> set k \<and>
     hd k \<noteq> CHR ''#'' \<and> \<not> prefix ''- '' k \<and> k \<noteq> ''__proto__''"

definition quote_yaml :: "js_value \<Rightarrow> string" where
  "quote_yaml v = CHR 0x22 # (case v of Json (JStr s) \<Rightarrow> s | _ \<Rightarrow> []) @ [CHR 0x22]"

fun entry_lines :: "string \<times> yaml \<Rightarrow> string list" where
  "entry_lines (k, Scalar v) = [k @ '': '' @ quote_yaml v]"
| "entry_lines (k, YamlList vs) = (k @ '':'') # map (\<lambda>v. ''- '' @ quote_yaml v) vs"

definition render_yaml :: "metadata \<Rightarrow> string" where
  "render_yaml m = concat (map (\<lambda>l. l @ [newline]) (concat (map entry_lines m)))"

lemma trim_id: "s \<noteq> [] \<Longrightarrow> \<not> is_space (hd s) \<Longrightarrow> \<not> is_space (last s) \<Longrightarrow> LineFraming.js_trim s = s"
proof -
  assume a: "s \<noteq> []" "\<not> is_space (hd s)" "\<not> is_space (last s)"
  have "dropWhile is_space s = s" using a by (cases s) auto
  moreover have "dropWhile is_space (rev s) = rev s" using a by (cases "rev s") (auto simp: last_rev hd_rev)
  ultimately show ?thesis by (simp add: LineFraming.js_trim_def)
qed

lemma trim_space: "LineFraming.js_trim (CHR '' '' # s) = LineFraming.js_trim s"
  by (simp add: LineFraming.js_trim_def is_space_def)

lemma quote_not_space: "\<not> is_space (CHR 0x22)" "\<not> is_space (CHR ''-'')" "\<not> is_space (CHR '':'')"
  by (simp_all add: is_space_def)

lemma trim_quote: "LineFraming.js_trim (quote_yaml v) = quote_yaml v"
  by (rule trim_id) (auto simp: quote_yaml_def quote_not_space)

lemma parse_quote:
  "(case v of Json (JStr s) \<Rightarrow> newline \<notin> set s | _ \<Rightarrow> False) \<Longrightarrow> parseYamlValue (quote_yaml v) = v"
  by (auto simp: parseYamlValue_def quote_yaml_def quoted_by_def unquote_def split: js_value.splits json.splits)

lemma index_colon: "CHR '':'' \<notin> set k \<Longrightarrow> js_index_of (k @ CHR '':'' # r) '':'' = Some (length k)"
  by (induction k) auto

definition closed :: "yaml_state \<Rightarrow> metadata" where
  "closed s = (if y_inArray s then put_key (y_key s) (YamlList (y_values s)) (y_result s) else y_result s)"

lemma scalar_line:
  assumes k: "plain_key k" and v: "plain_entry (k, Scalar v)"
  shows "yaml_line (k @ '': '' @ quote_yaml v) s
    = (if y_inArray s then end_array s else s)\<lparr>y_result := put_key k (Scalar v) (closed s)\<rparr>"
proof -
  let ?l = "k @ '': '' @ quote_yaml v"
  have k': "k \<noteq> []" "\<not> is_space (hd k)" "\<not> is_space (last k)" "CHR '':'' \<notin> set k" "hd k \<noteq> CHR ''#''" "\<not> prefix ''- '' k"
    "k \<noteq> ''__proto__''" using k by (simp_all add: plain_key_def)
  have tr: "LineFraming.js_trim ?l = ?l"
    by (rule trim_id) (use k' in \<open>auto simp: quote_yaml_def quote_not_space\<close>)
  have "\<not> prefix ''#'' ?l" using k' by (cases k) auto
  moreover have "\<not> prefix ''- '' ?l"
  proof
    assume "prefix ''- '' ?l"
    then show False using k' by (cases k; cases "tl k") (auto split: if_splits)
  qed
  moreover have "js_index_of ?l '':'' = Some (length k)" using index_colon [OF k'(4), of "CHR '' '' # quote_yaml v"] by simp
  moreover have "LineFraming.js_trim k = k" using k' by (intro trim_id)
  moreover have "LineFraming.js_trim (CHR '' '' # quote_yaml v) = quote_yaml v" by (simp only: trim_space trim_quote)
  moreover have "parseYamlValue (quote_yaml v) = v" using v by (intro parse_quote) simp
  ultimately show ?thesis using tr k'
    by (simp add: yaml_line_def key_line_def Let_def closed_def end_array_def quote_yaml_def)
qed

lemma list_header:
  assumes k: "plain_key k"
  shows "yaml_line (k @ '':'') s
    = (if y_inArray s then end_array s else s)\<lparr>y_key := k, y_inArray := True, y_values := []\<rparr>"
proof -
  have k': "k \<noteq> []" "\<not> is_space (hd k)" "\<not> is_space (last k)" "CHR '':'' \<notin> set k" "hd k \<noteq> CHR ''#''" "\<not> prefix ''- '' k"
    using k by (simp_all add: plain_key_def)
  have tr: "LineFraming.js_trim (k @ '':'') = k @ '':''"
    by (rule trim_id) (use k' in \<open>auto simp: quote_not_space\<close>)
  have "\<not> prefix ''#'' (k @ '':'')" using k' by (cases k) auto
  moreover have "\<not> prefix ''- '' (k @ '':'')"
  proof
    assume "prefix ''- '' (k @ '':'')"
    then show False using k' by (cases k; cases "tl k") (auto split: if_splits)
  qed
  moreover have "js_index_of (k @ '':'') '':'' = Some (length k)" using index_colon [OF k'(4), of "[]"] by simp
  moreover have "LineFraming.js_trim k = k" using k' by (intro trim_id)
  ultimately show ?thesis using tr k'
    by (simp add: yaml_line_def key_line_def Let_def LineFraming.js_trim_def [of "[]"])
qed

lemma item_line:
  assumes "y_inArray s" "case v of Json (JStr t) \<Rightarrow> newline \<notin> set t | _ \<Rightarrow> False"
  shows "yaml_line (''- '' @ quote_yaml v) s = s\<lparr>y_values := y_values s @ [v]\<rparr>"
proof -
  have "LineFraming.js_trim (''- '' @ quote_yaml v) = ''- '' @ quote_yaml v"
    by (rule trim_id) (auto simp: quote_yaml_def quote_not_space)
  then show ?thesis using assms(1) parse_quote [OF assms(2)] trim_quote [of v]
    by (simp add: yaml_line_def Let_def)
qed

lemma item_lines:
  assumes "y_inArray s" "plain_entry (k, YamlList vs)"
  shows "fold yaml_line (map (\<lambda>v. ''- '' @ quote_yaml v) vs) s = s\<lparr>y_values := y_values s @ vs\<rparr>"
  using assms
proof (induction vs arbitrary: s)
  case (Cons v vs)
  have "yaml_line (''- '' @ quote_yaml v) s = s\<lparr>y_values := y_values s @ [v]\<rparr>"
    by (rule item_line) (use Cons.prems in auto)
  then show ?case using Cons.IH [of "s\<lparr>y_values := y_values s @ [v]\<rparr>"] Cons.prems by simp
qed simp

definition named_array :: "yaml_state \<Rightarrow> bool" where
  "named_array s \<longleftrightarrow> (y_inArray s \<longrightarrow> y_key s \<noteq> [])"

lemma entry_parsed:
  assumes "plain_key k" "plain_entry (k, y)" "named_array s"
  shows "closed (fold yaml_line (entry_lines (k, y)) s) = put_key k y (closed s)
    \<and> named_array (fold yaml_line (entry_lines (k, y)) s)"
proof (cases y)
  case (Scalar v)
  then show ?thesis using assms scalar_line [of k v s]
    by (auto simp: closed_def named_array_def end_array_def)
next
  case (YamlList vs)
  let ?s = "(if y_inArray s then end_array s else s)\<lparr>y_key := k, y_inArray := True, y_values := []\<rparr>"
  have "fold yaml_line (entry_lines (k, y)) s = ?s\<lparr>y_values := y_values ?s @ vs\<rparr>"
    using assms YamlList list_header [of k s] item_lines [of ?s k vs] by simp
  then show ?thesis using assms YamlList
    by (auto simp: closed_def named_array_def end_array_def plain_key_def)
qed

lemma entries_parsed:
  assumes "list_all (\<lambda>e. plain_key (fst e) \<and> plain_entry e) m" "named_array s"
  shows "closed (fold yaml_line (concat (map entry_lines m)) s) = fold (\<lambda>(k, y). put_key k y) m (closed s)
    \<and> named_array (fold yaml_line (concat (map entry_lines m)) s)"
  using assms
proof (induction m arbitrary: s)
  case (Cons e m)
  obtain k y where e: "e = (k, y)" by force
  then show ?case using Cons entry_parsed [of k y s] by simp
qed simp

lemma sort_key_again: "sort_key f (sort_key f xs @ ys) = sort_key f (xs @ ys)"
proof (rule properties_for_sort_key)
  show "filter (\<lambda>x. f k = f x) (sort_key f (xs @ ys)) = filter (\<lambda>x. f k = f x) (sort_key f xs @ ys)"
    for k using sort_key_stable [of f "f k"] by (simp add: eq_commute [of "f k"])
qed simp_all

lemma own_properties_add: "own_properties (own_properties xs @ [e]) = own_properties (xs @ [e])"
proof -
  define P Q where "P = (\<lambda>(k :: string, v :: 'a). k \<noteq> ''__proto__'')" and "Q = (\<lambda>(k :: string, v :: 'a). is_array_index k)"
  let ?sort = "sort_key (\<lambda>(k, v). digits_value k)"
  have own: "own_properties ys = ?sort (filter Q (filter P ys)) @ filter (\<lambda>x. \<not> Q x) (filter P ys)" for ys
    by (simp add: own_properties_def P_def Q_def Let_def case_prod_beta)
  have "filter P (own_properties xs) = own_properties xs"
    by (auto simp: filter_id_conv set_own_properties P_def)
  moreover have "filter Q (own_properties xs) = ?sort (filter Q (filter P xs))"
    "filter (\<lambda>x. \<not> Q x) (own_properties xs) = filter (\<lambda>x. \<not> Q x) (filter P xs)"
    by (auto simp: own filter_id_conv filter_empty_conv)
  ultimately show ?thesis by (simp add: own [of "_ @ [e]"] sort_key_again)
qed

lemma keys_put:
  assumes "distinct (map fst m)" "list_all (\<lambda>e. fst e \<noteq> ''__proto__'') m"
  shows "fold (\<lambda>(k, y). put_key k y) m [] = own_properties m"
  using assms
proof (induction m rule: rev_induct)
  case Nil
  then show ?case by (simp add: own_properties_def)
next
  case (snoc e m)
  obtain k y where e: "e = (k, y)" by force
  have "k \<notin> fst ` set (own_properties m)" using snoc.prems(1) e by (auto simp: set_own_properties)
  then have "AList.update k y (own_properties m) = own_properties m @ [e]" using e by (simp add: js_set_fresh)
  then show ?case using snoc e by (simp add: put_key_def own_properties_add)
qed

lemma split_lines:
  "list_all (\<lambda>l. newline \<notin> set l) ls \<Longrightarrow> split_newline (concat (map (\<lambda>l. l @ [newline]) ls)) = ls @ [[]]"
  by (induction ls) (auto simp: split_newline_line)

lemma quote_no_newline:
  "(case v of Json (JStr s) \<Rightarrow> newline \<notin> set s | _ \<Rightarrow> False) \<Longrightarrow> newline \<notin> set (quote_yaml v)"
  by (auto simp: quote_yaml_def newline_def split: js_value.splits json.splits)

lemma lines_no_newline:
  assumes "plain_key (fst e)" "plain_entry e"
  shows "list_all (\<lambda>l. newline \<notin> set l) (entry_lines e)"
proof (cases e rule: entry_lines.cases)
  case (1 k v)
  then have "newline \<notin> set (quote_yaml v)" using assms(2) by (intro quote_no_newline) simp
  then show ?thesis using assms(1) 1 by (simp add: plain_key_def newline_def)
next
  case (2 k vs)
  have "newline \<notin> set (quote_yaml v)" if "v \<in> set vs" for v
    by (rule quote_no_newline) (use assms(2) 2 that in \<open>simp add: list_all_iff\<close>)
  then show ?thesis using assms(1) 2 by (simp add: plain_key_def newline_def list_all_iff)
qed

text \<open>C39: A skill file is read as it was written. A file of keys, each with a quoted text or with a list of quoted
  texts, one per line, is parsed to exactly those keys and values: a closed list never leaks into the next key,
  and the last list of the file is kept. The keys come in the order of the file, except that an object has those
  that are array indices first, by their numbers. The keys are distinct, not empty, without a colon, a line break,
  white space at an end or a comment sign or dash at the beginning, and none is \<open>__proto__\<close>; the texts have no
  line break; \<open>plain_key\<close> and \<open>plain_entry\<close> say so.\<close>

theorem yaml_roundtrip:
  assumes "distinct (map fst m)" and "\<forall>e \<in> set m. plain_key (fst e) \<and> plain_entry e"
  shows "parseYaml (render_yaml m) = own_properties m"
proof -
  let ?ls = "concat (map entry_lines m)"
  have m: "list_all (\<lambda>e. plain_key (fst e) \<and> plain_entry e) m" using assms(2) by (simp add: list_all_iff)
  have "list_all (\<lambda>l. newline \<notin> set l) ?ls" using assms(2) lines_no_newline by (fastforce simp: list_all_iff)
  then have sp: "split_newline (render_yaml m) = ?ls @ [[]]" unfolding render_yaml_def by (rule split_lines)
  have blank: "yaml_line [] s = s" for s by (simp add: yaml_line_def LineFraming.js_trim_def)
  let ?s = "fold yaml_line ?ls new_yaml_state"
  have "named_array new_yaml_state" by (simp add: named_array_def new_yaml_state_def)
  from entries_parsed [OF m this] have s: "closed ?s = fold (\<lambda>(k, y). put_key k y) m []" "named_array ?s"
    by (simp_all add: closed_def new_yaml_state_def)
  have "parseYaml (render_yaml m) = closed ?s"
    using s(2) by (simp add: parseYaml_def sp blank Let_def closed_def named_array_def)
  also have "\<dots> = own_properties m" using keys_put [OF assms(1)] assms(2) s(1) by (simp add: list_all_iff plain_key_def)
  finally show ?thesis .
qed

theorem yaml_roundtrip_witness:
  "parseYaml (render_yaml [(''name'', Scalar (Json (JStr ''sort: fast''))), (''2'', Scalar (Json (JStr ''two''))),
     (''tags'', YamlList [Json (JStr ''a''), Json (JStr ''true'')]), (''1'', Scalar (Json (JStr ''one'')))])
   = [(''1'', Scalar (Json (JStr ''one''))), (''2'', Scalar (Json (JStr ''two''))),
      (''name'', Scalar (Json (JStr ''sort: fast''))), (''tags'', YamlList [Json (JStr ''a''), Json (JStr ''true'')])]"
proof -
  let ?m = "[(''name'', Scalar (Json (JStr ''sort: fast''))), (''2'', Scalar (Json (JStr ''two''))),
     (''tags'', YamlList [Json (JStr ''a''), Json (JStr ''true'')]), (''1'', Scalar (Json (JStr ''one'')))]"
  have "parseYaml (render_yaml ?m) = own_properties ?m" by (rule yaml_roundtrip) code_simp+
  also have "\<dots> = [(''1'', Scalar (Json (JStr ''one''))), (''2'', Scalar (Json (JStr ''two''))),
      (''name'', Scalar (Json (JStr ''sort: fast''))), (''tags'', YamlList [Json (JStr ''a''), Json (JStr ''true'')])]"
    by (simp add: own_properties_def is_array_index_def is_digit_def digits_value_def)
  finally show ?thesis .
qed

subsection \<open>What is loaded\<close>

definition skill_ok :: "skills_engine \<Rightarrow> map_key \<Rightarrow> skill \<Rightarrow> bool" where
  "skill_ok s k sk \<longleftrightarrow>
     (\<exists>name category. map_of (sk_metadata sk) ''name'' = Some name \<and> map_of (sk_metadata sk) ''category'' = Some category \<and>
        yaml_true (Some name) \<and> yaml_true (Some category) \<and> yaml_true (map_of (sk_metadata sk) ''description'') \<and>
        category_allowed (allowedCategories s) category \<and> (\<exists>n. k = key_of n name) \<and>
        (\<exists>n ns. map_of (e_categories s) (key_of n category) = Some ns \<and> k \<in> set ns))"

definition engine_ok :: "skills_engine \<Rightarrow> bool" where
  "engine_ok s \<longleftrightarrow>
     js_wf (e_skills s) \<and> (\<forall>(k, sk) \<in> set (e_skills s). skill_ok s k sk) \<and>
     (\<forall>(c, ns) \<in> set (e_categories s). distinct ns \<and> (\<forall>k \<in> set ns. js_has (e_skills s) k))"

lemma set_update: "x \<in> set (AList.update k v m) \<Longrightarrow> x = (k, v) \<or> x \<in> set m"
  by (induction m) (auto split: if_splits)

lemma set_set_add [simp]: "set (set_add x xs) = insert x (set xs)"
  by (auto simp: set_add_def)

lemma distinct_set_add: "distinct xs \<Longrightarrow> distinct (set_add x xs)"
  by (simp add: set_add_def)

lemma skill_ok_record:
  assumes "skill_ok s k sk"
  shows "skill_ok (record_skill sk' name category s) k sk"
proof -
  obtain n c where c: "map_of (sk_metadata sk) ''name'' = Some n" "map_of (sk_metadata sk) ''category'' = Some c"
    "yaml_true (Some n)" "yaml_true (Some c)" "yaml_true (map_of (sk_metadata sk) ''description'')"
    "category_allowed (allowedCategories s) c" "\<exists>i. k = key_of i n"
    "\<exists>i ns. map_of (e_categories s) (key_of i c) = Some ns \<and> k \<in> set ns"
    using assms unfolding skill_ok_def by blast
  obtain i ns where i: "map_of (e_categories s) (key_of i c) = Some ns" "k \<in> set ns" using c(8) by blast
  let ?s = "record_skill sk' name category s"
  have "\<exists>ns'. map_of (e_categories ?s) (key_of i c) = Some ns' \<and> k \<in> set ns'"
    using i by (auto simp: record_skill_def Let_def nullish_def)
  moreover have "allowedCategories ?s = allowedCategories s" by (simp add: record_skill_def Let_def)
  ultimately show ?thesis using c unfolding skill_ok_def by auto
qed

lemma engine_ok_record:
  assumes ok: "engine_ok s" and m: "map_of (sk_metadata sk) ''name'' = Some name"
      "map_of (sk_metadata sk) ''category'' = Some category"
    and req: "yaml_true (Some name)" "yaml_true (Some category)" "yaml_true (map_of (sk_metadata sk) ''description'')"
    and allowed: "category_allowed (allowedCategories s) category"
  shows "engine_ok (record_skill sk name category s)"
proof -
  let ?s = "record_skill sk name category s"
  let ?nk = "key_of (2 * e_loads s) name" and ?ck = "key_of (2 * e_loads s + 1) category"
  have new: "skill_ok ?s ?nk sk"
  proof -
    have "map_of (e_categories ?s) ?ck = Some (set_add ?nk (nullish (map_of (e_categories s) ?ck) []))"
      by (simp add: record_skill_def Let_def)
    moreover have "?nk \<in> set (set_add ?nk (nullish (map_of (e_categories s) ?ck) []))" by simp
    moreover have "allowedCategories ?s = allowedCategories s" by (simp add: record_skill_def Let_def)
    ultimately show ?thesis using m req allowed unfolding skill_ok_def by metis
  qed
  have sk: "\<forall>(k, x) \<in> set (e_skills ?s). skill_ok ?s k x"
  proof (clarify)
    fix k x
    assume "(k, x) \<in> set (e_skills ?s)"
    then have "(k, x) = (?nk, sk) \<or> (k, x) \<in> set (e_skills s)"
      using set_update [of "(k, x)" ?nk sk "e_skills s"] by (simp add: record_skill_def Let_def)
    then show "skill_ok ?s k x"
    proof
      assume "(k, x) \<in> set (e_skills s)"
      then have "skill_ok s k x" using ok by (auto simp: engine_ok_def)
      then show ?thesis by (rule skill_ok_record)
    qed (use new in simp)
  qed
  have has: "js_has (e_skills ?s) k \<longleftrightarrow> k = ?nk \<or> js_has (e_skills s) k" for k
    by (auto simp: record_skill_def Let_def js_has_def)
  have cat: "\<forall>(c, ns) \<in> set (e_categories ?s). distinct ns \<and> (\<forall>k \<in> set ns. js_has (e_skills ?s) k)"
  proof (clarify)
    fix c ns
    assume "(c, ns) \<in> set (e_categories ?s)"
    then have "(c, ns) = (?ck, set_add ?nk (nullish (map_of (e_categories s) ?ck) [])) \<or> (c, ns) \<in> set (e_categories s)"
      using set_update [of "(c, ns)" ?ck _ "e_categories s"] by (simp add: record_skill_def Let_def)
    moreover have "distinct ns' \<and> (\<forall>k \<in> set ns'. js_has (e_skills s) k)" if "(c', ns') \<in> set (e_categories s)" for c' ns'
      using ok that unfolding engine_ok_def by blast
    moreover have "distinct ns' \<and> (\<forall>k \<in> set ns'. js_has (e_skills s) k)"
      if "ns' = nullish (map_of (e_categories s) ?ck) []" for ns'
      using that calculation(2) by (auto simp: nullish_def dest: map_of_SomeD split: option.splits)
    ultimately show "distinct ns \<and> (\<forall>k \<in> set ns. js_has (e_skills ?s) k)"
      by (auto simp: has distinct_set_add)
  qed
  have "js_wf (e_skills ?s)" using ok by (simp add: engine_ok_def record_skill_def Let_def)
  then show ?thesis using sk cat by (simp add: engine_ok_def)
qed

lemma record_allowed [simp]: "allowedCategories (record_skill sk n c s) = allowedCategories s"
  by (simp add: record_skill_def Let_def)

lemma engine_ok_load: "engine_ok s \<Longrightarrow> engine_ok (loadSkill now dir here content s)"
  unfolding loadSkill_def Let_def
  by (auto split: option.split intro!: engine_ok_record)

lemma engine_ok_scan:
  "engine_ok s \<Longrightarrow> (case scanDirectory now dir here es s of Inl (e, s') \<Rightarrow> engine_ok s' | Inr s' \<Rightarrow> engine_ok s')"
proof (induction now dir here es s rule: scanDirectory.induct)
  case (4 now dir here n sub es s)
  show ?case
  proof (cases "findSkillYaml sub")
    case None
    from 4(1) [OF None 4(4)] have r: "case scanDirectory now (path_join dir n) sub sub s of Inl (e, s') \<Rightarrow> engine_ok s' | Inr s' \<Rightarrow> engine_ok s'" .
    show ?thesis
    proof (cases "scanDirectory now (path_join dir n) sub sub s")
      case (Inr s')
      then show ?thesis using 4(2) [OF None Inr] r None by simp
    qed (use r None in auto)
  next
    case (Some c)
    then show ?thesis using 4(3) [OF Some] 4(4) by (simp add: engine_ok_load)
  qed
qed (auto simp: engine_ok_load)

lemma engine_ok_loadSkills:
  assumes "loadSkills now dir at_path s = Inr s'"
  shows "engine_ok s'"
proof -
  let ?s = "s\<lparr>e_skills := [], e_categories := []\<rparr>"
  have cong: "engine_ok (t\<lparr>e_loaded := b\<rparr>) = engine_ok t" for t b by (simp add: engine_ok_def skill_ok_def)
  have empty: "engine_ok ?s" by (simp add: engine_ok_def js_wf_def)
  have scan: "engine_ok t" if "scanDirectory now dir es es ?s = Inr t" for es t
    using engine_ok_scan [OF empty, of now dir es es] that by simp
  show ?thesis
    using assms empty scan by (auto simp: loadSkills_def Let_def cong split: option.splits fs_entry.splits sum.splits)
qed

text \<open>What the queries rely on: after a load, \<open>get\<close> under a name gives a skill of that name, complete and of an allowed
  category, and every skill is listed under its category.\<close>

lemma key_of_text: "key_of n y = text_key x \<longleftrightarrow> y = Scalar (Json (JStr x))"
  by (cases y) (simp_all add: key_of_def text_key_def)

theorem loaded_skills_indexed:
  assumes load: "loadSkills now dir at_path s = Inr s'" and get: "get_skill n s' = Some sk"
  shows "map_of (sk_metadata sk) ''name'' = Some (Scalar (Json (JStr n))) \<and>
    yaml_true (map_of (sk_metadata sk) ''description'') \<and>
    (\<exists>category. map_of (sk_metadata sk) ''category'' = Some category \<and> yaml_true (Some category) \<and>
       category_allowed (allowedCategories s') category \<and>
       (\<forall>c. category = Scalar (Json (JStr c)) \<longrightarrow> item_of sk \<in> set (listByCategory c s')))"
proof -
  have "skill_ok s' (text_key n) sk"
    using engine_ok_loadSkills [OF load] get by (auto simp: engine_ok_def get_skill_def dest: map_of_SomeD)
  then obtain name category where c: "map_of (sk_metadata sk) ''name'' = Some name"
    "map_of (sk_metadata sk) ''category'' = Some category"
    "yaml_true (Some category)" "yaml_true (map_of (sk_metadata sk) ''description'')"
    "category_allowed (allowedCategories s') category" "\<exists>i. text_key n = key_of i name"
    "\<exists>i ns. map_of (e_categories s') (key_of i category) = Some ns \<and> text_key n \<in> set ns"
    unfolding skill_ok_def by blast
  have name: "name = Scalar (Json (JStr n))" using c(6) key_of_text by metis
  have "item_of sk \<in> set (listByCategory x s')" if x: "category = Scalar (Json (JStr x))" for x
  proof -
    obtain i ns where i: "map_of (e_categories s') (key_of i category) = Some ns" "text_key n \<in> set ns" using c(7) by blast
    have "key_of i category = text_key x" using x key_of_text by blast
    then have "listByCategory x s' = map item_of (List.map_filter (map_of (e_skills s')) ns)"
      using i by (simp add: listByCategory_def)
    moreover have "sk \<in> set (List.map_filter (map_of (e_skills s')) ns)"
      using i(2) get by (force simp: List.map_filter_def get_skill_def)
    ultimately show ?thesis by simp
  qed
  then show ?thesis using c name by auto
qed

subsection \<open>What a search finds\<close>

lemma matches_exact:
  assumes "matches_of q sks = Some rs"
  shows "(\<forall>x \<in> set rs. snd x > 0) \<and>
    (\<forall>k > 0. filter (\<lambda>x. snd x = k) rs = map (\<lambda>sk. (item_of sk, k)) (filter (\<lambda>sk. relevance q (sk_metadata sk) = Some k) sks))"
  using assms by (induction sks arbitrary: rs) (fastforce split: option.splits if_splits)+

text \<open>The results are in descending order of relevance, none has relevance 0, and those of one relevance are exactly the
  skills that have it, in the order of the map.\<close>

theorem search_exact:
  assumes "search_skills q s = Some rs" and "q \<noteq> []"
  shows "sorted_wrt (\<lambda>x y. snd y \<le> snd x) rs \<and> (\<forall>x \<in> set rs. snd x > 0) \<and>
    (\<forall>k > 0. filter (\<lambda>x. snd x = k) rs
       = map (\<lambda>sk. (item_of sk, k)) (filter (\<lambda>sk. relevance (js_lower q) (sk_metadata sk) = Some k) (map snd (e_skills s))))"
proof -
  let ?f = "\<lambda>x :: skill_item \<times> nat. - int (snd x)"
  obtain ms where ms: "matches_of (js_lower q) (map snd (e_skills s)) = Some ms" "rs = sort_key ?f ms"
    using assms by (auto simp: search_skills_def)
  have "sorted (map ?f rs)" using ms(2) by simp
  then have "sorted_wrt (\<lambda>x y. snd y \<le> snd x) rs" by (simp add: sorted_wrt_map)
  moreover have "filter (\<lambda>x. snd x = k) rs = filter (\<lambda>x. snd x = k) ms" for k
  proof -
    have "filter (\<lambda>x. ?f x = - int k) (sort_key ?f ms) = filter (\<lambda>x. ?f x = - int k) ms" by (rule sort_key_stable)
    then show ?thesis using ms(2) by simp
  qed
  moreover have "set rs = set ms" using ms(2) by simp
  ultimately show ?thesis using matches_exact [OF ms(1)] by simp
qed

text \<open>A search fails only where some value it reads is not of the type that the metadata declare.\<close>

definition typed_metadata :: "metadata \<Rightarrow> bool" where
  "typed_metadata m \<longleftrightarrow>
     lower_field (map_of m ''name'') \<noteq> None \<and> lower_field (map_of m ''category'') \<noteq> None \<and>
     lower_field (map_of m ''description'') \<noteq> None \<and>
     (case map_of m ''tags'' of
        None \<Rightarrow> True
      | Some (YamlList vs) \<Rightarrow> list_all (\<lambda>v. lower_field (Some (Scalar v)) \<noteq> None) vs
      | Some (Scalar v) \<Rightarrow> v = Json JNull)"

lemma some_tag_typed: "list_all (\<lambda>v. \<exists>t. lower_field (Some (Scalar v)) = Some t) vs \<Longrightarrow> \<exists>b. some_tag q vs = Some b"
  by (induction vs) auto

lemma relevance_typed: "typed_metadata m \<Longrightarrow> relevance q m \<noteq> None"
  by (auto simp: typed_metadata_def relevance_def tags_match_def split: option.splits yaml.splits
      intro: some_tag_typed)

lemma search_typed:
  assumes "\<forall>(k, sk) \<in> set (e_skills s). typed_metadata (sk_metadata sk)"
  shows "search_skills q s \<noteq> None"
proof -
  have "matches_of q' sks \<noteq> None" if "\<forall>sk \<in> set sks. typed_metadata (sk_metadata sk)" for q' sks
    using that by (induction sks) (auto split: option.split dest: relevance_typed [of _ q'])
  from this [of "map snd (e_skills s)" "js_lower q"] show ?thesis using assms by (simp add: search_skills_def case_prod_beta)
qed

lemma sanitised_name: "list_all (\<lambda>c. is_digit c \<or> c = CHR ''_'' \<or> (let k = of_char c :: nat in 65 \<le> k \<and> k \<le> 90 \<or> 97 \<le> k \<and> k \<le> 122)) (sanitiseName n)"
  by (auto simp: sanitiseName_def list_all_iff is_digit_def Let_def)

subsection \<open>Behaviour to know\<close>

definition tiny_skill :: "string \<Rightarrow> string \<Rightarrow> string \<Rightarrow> fs_entry" where
  "tiny_skill dir name category =
     FsDir dir (Some [FsFile ''skill.yaml'' (Some (''name: '' @ name @ newline # ''category: '' @ category @ newline # ''description: d''))])"

definition tiny_load :: "fs_entry list \<Rightarrow> skills_engine" where
  "tiny_load es = (case loadSkills 0 ''skills'' (Some (FsDir ''skills'' (Some es))) (new_engine None) of Inr s \<Rightarrow> s | Inl e \<Rightarrow> snd e)"

lemma listed_under_old_category:
  "map it_category (listByCategory ''old'' (tiny_load [tiny_skill ''a'' ''x'' ''old'', tiny_skill ''b'' ''x'' ''new'']))
    = [Some (Scalar (Json (JStr ''new'')))]"
  by code_simp

lemma one_numeric_name_breaks_search:
  "getSkillCount (tiny_load [tiny_skill ''a'' ''x'' ''work'', tiny_skill ''b'' ''2024'' ''work'']) = 2"
  "search_skills ''y'' (tiny_load [tiny_skill ''a'' ''x'' ''work'', tiny_skill ''b'' ''2024'' ''work'']) = None"
  by code_simp+

lemma empty_name_is_loaded:
  "getSkillCount (tiny_load [tiny_skill ''a'' [] ''work'']) = 1"
  "map it_name (list_skills (tiny_load [tiny_skill ''a'' [] ''work''])) = [Some (YamlList [])]"
  by code_simp+

lemma names_collide: "sanitiseName ''a-b'' = sanitiseName ''a.b''"
  by code_simp

end
