(* ===== verification/ConfigLoader.thy ===== *)
theory ConfigLoader
  imports ClientSetup LineFraming
begin

text \<open>
  The configuration of the program, \<open>src/src/config/loader.ts\<close> with the defaults of \<open>src/src/config/defaults.ts\<close>: defaults,
  overlaid by a file, overlaid by the environment; and which client file is taken. The seven sections of a
  configuration are a function of their names. \<open>NaN\<close> is what \<open>parseInt\<close> gives for a text that is no number. The watcher
  of \<open>src/src/watcher/config-watcher.ts\<close> is at the end. The environment is a map from names to texts; the text that
  \<open>safeJsonParse\<close> cannot parse counts as \<open>{}\<close>.
\<close>

subsection \<open>Configurations\<close>

datatype cfg_value = Plain json | NaN

datatype cfg_section = Bridge | Execution | Sandbox_section | Skills_section | HotReload | Metrics_section | Servers

type_synonym executor_config = "cfg_section \<Rightarrow> (string, cfg_value) jsmap"

fun section_name :: "cfg_section \<Rightarrow> string" where
  "section_name Bridge = ''bridge''"
| "section_name Execution = ''execution''"
| "section_name Sandbox_section = ''sandbox''"
| "section_name Skills_section = ''skills''"
| "section_name HotReload = ''hotReload''"
| "section_name Metrics_section = ''metrics''"
| "section_name Servers = ''servers''"

fun DEFAULT_CONFIG :: executor_config where
  "DEFAULT_CONFIG Bridge = [(''port'', Plain (JNum 0)), (''host'', Plain (JStr ''127.0.0.1''))]"
| "DEFAULT_CONFIG Execution = [(''mode'', Plain (JStr ''execution'')), (''defaultTimeoutMs'', Plain (JNum 30000)),
     (''maxTimeoutMs'', Plain (JNum 300000)), (''streamingEnabled'', Plain (JBool True))]"
| "DEFAULT_CONFIG Sandbox_section = [(''maxMemoryMb'', Plain (JNum 128)), (''allowedNetHosts'', Plain (JArr [JStr ''localhost''])),
     (''maxConcurrentProcesses'', Plain (JNum 8)), (''maxOutputBytes'', Plain (JNum (10 * 1024 * 1024)))]"
| "DEFAULT_CONFIG Skills_section = [(''path'', Plain JNull), (''watchForChanges'', Plain (JBool True))]"
| "DEFAULT_CONFIG HotReload = [(''enabled'', Plain (JBool True)), (''debounceMs'', Plain (JNum 500))]"
| "DEFAULT_CONFIG Metrics_section = [(''enabled'', Plain (JBool True)), (''logToFile'', Plain (JBool False)), (''logPath'', Plain JNull),
     (''alwaysShowTokenSavings'', Plain (JBool False))]"
| "DEFAULT_CONFIG Servers = [(''allowList'', Plain (JArr [JStr ''*''])), (''denyList'', Plain (JArr []))]"

subsection \<open>The file\<close>

text \<open>\<open>if (source.bridge) result.bridge = { ...result.bridge, ...source.bridge }\<close>\<close>

definition overlay_section :: "json \<Rightarrow> (string, cfg_value) jsmap \<Rightarrow> (string, cfg_value) jsmap" where
  "overlay_section v kvs = fold (\<lambda>(k, x). AList.update k (Plain x)) (spread v) kvs"

definition merge_section :: "json \<Rightarrow> cfg_section \<Rightarrow> executor_config \<Rightarrow> executor_config" where
  "merge_section src sec c =
     (case js_field (section_name sec) src of
        Some v \<Rightarrow> (if js_truthy v then c(sec := overlay_section v (c sec)) else c)
      | None \<Rightarrow> c)"

definition deepMerge :: "json \<Rightarrow> executor_config \<Rightarrow> executor_config" where
  "deepMerge src c =
     merge_section src Servers (merge_section src Metrics_section (merge_section src HotReload
       (merge_section src Skills_section (merge_section src Sandbox_section (merge_section src Execution
         (merge_section src Bridge c))))))"

definition loadFromFile :: "client_file \<Rightarrow> json option" where
  "loadFromFile f =
     (case f of FAbsent \<Rightarrow> None | FUnreadable \<Rightarrow> None | FMalformed \<Rightarrow> Some (JObj []) | FParsed v \<Rightarrow> Some v)"

subsection \<open>The environment\<close>

text \<open>\<open>parseInt(text, 10)\<close>. The number is exact: the code gets a double, which agrees up to \<open>2 ^ 53\<close>.\<close>

definition parse_int :: "string \<Rightarrow> cfg_value" where
  "parse_int tx =
     (let s = dropWhile LineFraming.is_space tx;
          neg = (s \<noteq> [] \<and> hd s = CHR ''-'');
          r = (if s \<noteq> [] \<and> (hd s = CHR ''-'' \<or> hd s = CHR ''+'') then tl s else s);
          ds = takeWhile is_digit r
      in if ds = [] then NaN
         else Plain (JNum (if neg then - int (digits_value ds) else int (digits_value ds))))"

definition parse_bool :: "string \<Rightarrow> cfg_value" where
  "parse_bool tx = Plain (JBool (tx = ''true''))"

definition parse_text :: "string \<Rightarrow> cfg_value" where
  "parse_text tx = Plain (JStr tx)"

definition parse_list :: "string \<Rightarrow> cfg_value" where
  "parse_list tx = Plain (JArr (map (\<lambda>x. JStr (LineFraming.js_trim x)) (split_on (CHR '','') tx)))"

text \<open>The variables in the order they are read, the setting each names and how its text is read.\<close>

definition env_settings :: "(string \<times> cfg_section \<times> string \<times> (string \<Rightarrow> cfg_value)) list" where
  "env_settings =
     [(''MCP_EXECUTOR_PORT'', Bridge, ''port'', parse_int),
      (''MCP_EXECUTOR_MODE'', Execution, ''mode'', parse_text),
      (''MCP_EXECUTOR_TIMEOUT'', Execution, ''defaultTimeoutMs'', parse_int),
      (''MCP_EXECUTOR_MAX_TIMEOUT'', Execution, ''maxTimeoutMs'', parse_int),
      (''MCP_EXECUTOR_SKILLS_PATH'', Skills_section, ''path'', parse_text),
      (''MCP_EXECUTOR_WATCH_CONFIG'', HotReload, ''enabled'', parse_bool),
      (''MCP_EXECUTOR_WATCH_SKILLS'', Skills_section, ''watchForChanges'', parse_bool),
      (''MCP_EXECUTOR_STREAM_ENABLED'', Execution, ''streamingEnabled'', parse_bool),
      (''MCP_EXECUTOR_MAX_MEMORY_MB'', Sandbox_section, ''maxMemoryMb'', parse_int),
      (''MCP_EXECUTOR_ALLOWED_SERVERS'', Servers, ''allowList'', parse_list)]"

definition env_value :: "(string \<Rightarrow> string option) \<Rightarrow> string \<Rightarrow> string option" where
  "env_value env n = (case env n of Some v \<Rightarrow> (if v = [] then None else Some v) | None \<Rightarrow> None)"

definition apply_setting ::
  "(string \<Rightarrow> string option) \<Rightarrow> string \<times> cfg_section \<times> string \<times> (string \<Rightarrow> cfg_value) \<Rightarrow> executor_config \<Rightarrow> executor_config" where
  "apply_setting env e c =
     (case e of (n, sec, k, conv) \<Rightarrow>
        (case env_value env n of Some v \<Rightarrow> c(sec := AList.update k (conv v) (c sec)) | None \<Rightarrow> c))"

definition loadFromEnv :: "(string \<Rightarrow> string option) \<Rightarrow> executor_config \<Rightarrow> executor_config" where
  "loadFromEnv env c = fold (apply_setting env) env_settings c"

definition config_path :: "string option \<Rightarrow> (string \<Rightarrow> string option) \<Rightarrow> string \<Rightarrow> string" where
  "config_path arg env home =
     (case arg of
        Some p \<Rightarrow> (if p \<noteq> [] then p else nullish (env_value env ''MCP_EXECUTOR_CONFIG'') (home @ ''/.mcp-executor/config.json''))
      | None \<Rightarrow> nullish (env_value env ''MCP_EXECUTOR_CONFIG'') (home @ ''/.mcp-executor/config.json''))"

definition loadConfig ::
  "string option \<Rightarrow> (string \<Rightarrow> string option) \<Rightarrow> string \<Rightarrow> (string \<Rightarrow> client_file) \<Rightarrow> executor_config" where
  "loadConfig arg env home files =
     loadFromEnv env
       (case loadFromFile (files (config_path arg env home)) of
          Some v \<Rightarrow> (if js_truthy v then deepMerge v DEFAULT_CONFIG else DEFAULT_CONFIG)
        | None \<Rightarrow> DEFAULT_CONFIG)"

subsection \<open>The file of the client\<close>

definition has_servers :: "client_file \<Rightarrow> bool" where
  "has_servers f =
     (case f of
        FParsed v \<Rightarrow>
          (case js_field ''mcpServers'' v of Some s \<Rightarrow> js_truthy s \<and> object_entries s \<noteq> [] | None \<Rightarrow> False)
      | _ \<Rightarrow> False)"

fun search_config :: "(string \<Rightarrow> client_file) \<Rightarrow> string list \<Rightarrow> string option \<Rightarrow> string option" where
  "search_config files [] first = first"
| "search_config files (p # ps) first =
     (if files p = FAbsent then search_config files ps first
      else if has_servers (files p) then Some p
      else search_config files ps (if first = None then Some p else first))"

definition findClaudeConfig ::
  "(string \<Rightarrow> string option) \<Rightarrow> (string \<Rightarrow> client_file) \<Rightarrow> string list \<Rightarrow> string option" where
  "findClaudeConfig env files paths =
     (case env_value env ''MCP_EXECUTOR_CLAUDE_CONFIG'' of
        Some p \<Rightarrow> (if p \<noteq> ''auto'' \<and> files p \<noteq> FAbsent then Some p else search_config files paths None)
      | None \<Rightarrow> search_config files paths None)"

text \<open>\<open>null\<close> in a file makes the log's read of \<open>mcpServers\<close> throw, which is caught.\<close>

definition loadClaudeConfig ::
  "string option \<Rightarrow> (string \<Rightarrow> string option) \<Rightarrow> (string \<Rightarrow> client_file) \<Rightarrow> string list \<Rightarrow> json option" where
  "loadClaudeConfig arg env files paths =
     (case (case arg of Some p \<Rightarrow> (if p \<noteq> [] then Some p else findClaudeConfig env files paths)
                        | None \<Rightarrow> findClaudeConfig env files paths) of
        None \<Rightarrow> None
      | Some p \<Rightarrow>
          (case files p of
             FAbsent \<Rightarrow> None
           | FUnreadable \<Rightarrow> None
           | FMalformed \<Rightarrow> Some (JObj [])
           | FParsed v \<Rightarrow> (if v = JNull then None else Some v)))"

subsection \<open>What overrides what\<close>

lemma overlay_value:
  "map_of (overlay_section v kvs) k = (case map_of (rev (spread v)) k of Some x \<Rightarrow> Some (Plain x) | None \<Rightarrow> map_of kvs k)"
proof -
  have "map_of (fold (\<lambda>(k, x). AList.update k (Plain x)) m kvs) k
      = (case map_of (rev m) k of Some x \<Rightarrow> Some (Plain x) | None \<Rightarrow> map_of kvs k)" for m
    by (induction m arbitrary: kvs) (auto simp: map_add_def split: option.splits)
  then show ?thesis by (simp add: overlay_section_def)
qed

definition file_value :: "json \<Rightarrow> cfg_section \<Rightarrow> string \<Rightarrow> cfg_value option" where
  "file_value src sec k =
     (case js_field (section_name sec) src of
        Some v \<Rightarrow> (if js_truthy v then map_option Plain (map_of (rev (spread v)) k) else None)
      | None \<Rightarrow> None)"

definition first_of :: "'a option \<Rightarrow> 'a option \<Rightarrow> 'a option" where
  "first_of x y = (case x of Some v \<Rightarrow> Some v | None \<Rightarrow> y)"

lemma merge_value:
  "map_of (merge_section src sec c sec') k
    = (if sec' = sec then first_of (file_value src sec k) (map_of (c sec) k) else map_of (c sec') k)"
  by (auto simp: merge_section_def file_value_def first_of_def overlay_value split: option.splits)

lemma deepMerge_value: "map_of (deepMerge src c sec) k = first_of (file_value src sec k) (map_of (c sec) k)"
  by (cases sec) (simp_all add: deepMerge_def merge_value)

definition env_override :: "(string \<Rightarrow> string option) \<Rightarrow> cfg_section \<Rightarrow> string \<Rightarrow> cfg_value option" where
  "env_override env sec k =
     (case List.find (\<lambda>(n, s, k', conv). s = sec \<and> k' = k) env_settings of
        Some (n, s, k', conv) \<Rightarrow> map_option conv (env_value env n)
      | None \<Rightarrow> None)"

lemma apply_value:
  "map_of (apply_setting env (n, s, k', conv) c sec) k
    = (if s = sec \<and> k' = k then first_of (map_option conv (env_value env n)) (map_of (c sec) k) else map_of (c sec) k)"
  by (auto simp: apply_setting_def first_of_def split: option.split)

lemma env_fold_value:
  assumes "distinct (map (\<lambda>(n, s, k, conv). (s, k)) es)"
  shows "map_of (fold (apply_setting env) es c sec) k
    = first_of (case List.find (\<lambda>(n, s, k', conv). s = sec \<and> k' = k) es of
                  Some (n, s, k', conv) \<Rightarrow> map_option conv (env_value env n) | None \<Rightarrow> None) (map_of (c sec) k)"
  using assms
proof (induction es arbitrary: c)
  case (Cons e es)
  obtain n s k' conv where e: "e = (n, s, k', conv)" using prod_cases4 by blast
  have step: "map_of (fold (apply_setting env) (e # es) c sec) k
      = first_of (case List.find (\<lambda>(n, s, k', conv). s = sec \<and> k' = k) es of
                  Some (n, s, k', conv) \<Rightarrow> map_option conv (env_value env n) | None \<Rightarrow> None)
          (map_of (apply_setting env e c sec) k)"
    using Cons by simp
  show ?case
  proof (cases "s = sec \<and> k' = k")
    case True
    then have "List.find (\<lambda>(n, s, k', conv). s = sec \<and> k' = k) es = None"
      using Cons.prems e by (force simp: find_None_iff)
    then show ?thesis using step True e by (simp add: apply_value) (simp add: first_of_def)
  next
    case False
    then have "\<not> (case e of (n, s, k', conv) \<Rightarrow> s = sec \<and> k' = k)" using e by simp
    then show ?thesis using step False e by (auto simp: apply_value)
  qed
qed (simp add: first_of_def)

lemma env_settings_distinct: "distinct (map (\<lambda>(n, s, k, conv). (s, k)) env_settings)"
  by (simp add: env_settings_def)

text \<open>C40: Every setting of the loaded configuration has the value that its environment variable gives, if it has one
  that is set and not empty; else the value of the file, if the file gives one; else its default. There is no
  other source, and a section of the file that lacks a setting does not hide the default.\<close>

theorem config_precedence:
  "map_of (loadConfig arg env home files sec) k
    = first_of (env_override env sec k)
        (first_of (case loadFromFile (files (config_path arg env home)) of
                     Some v \<Rightarrow> (if js_truthy v then file_value v sec k else None) | None \<Rightarrow> None)
          (map_of (DEFAULT_CONFIG sec) k))"
proof -
  have "map_of (loadFromEnv env c sec) k = first_of (env_override env sec k) (map_of (c sec) k)" for c
    unfolding loadFromEnv_def env_override_def by (rule env_fold_value [OF env_settings_distinct])
  then show ?thesis
    by (auto simp: loadConfig_def deepMerge_value first_of_def split: option.split)
qed

lemma search_first: "search_config files ps (Some p) \<noteq> None"
  by (induction ps) auto

lemma search_found:
  "search_config files ps None = (case List.find (\<lambda>p. files p \<noteq> FAbsent \<and> has_servers (files p)) ps of
      Some p \<Rightarrow> Some p | None \<Rightarrow> List.find (\<lambda>p. files p \<noteq> FAbsent) ps)"
proof -
  have "search_config files ps first = (case List.find (\<lambda>p. files p \<noteq> FAbsent \<and> has_servers (files p)) ps of
      Some p \<Rightarrow> Some p | None \<Rightarrow> first_of first (List.find (\<lambda>p. files p \<noteq> FAbsent) ps))" for first
    by (induction ps arbitrary: first) (auto simp: first_of_def split: option.split)
  then show ?thesis by (simp add: first_of_def split: option.split)
qed

lemma env_is_not_validated:
  "map_of (loadConfig None ((\<lambda>n. None)(''MCP_EXECUTOR_PORT'' \<mapsto> ''web'')) ''/h'' (\<lambda>p. FAbsent) Bridge) ''port'' = Some NaN"
  "map_of (loadConfig None ((\<lambda>n. None)(''MCP_EXECUTOR_MODE'' \<mapsto> ''fast'')) ''/h'' (\<lambda>p. FAbsent) Execution) ''mode''
    = Some (Plain (JStr ''fast''))"
  "map_of (loadConfig None ((\<lambda>n. None)(''MCP_EXECUTOR_WATCH_CONFIG'' \<mapsto> ''1'')) ''/h'' (\<lambda>p. FAbsent) HotReload) ''enabled''
    = Some (Plain (JBool False))"
  by code_simp+

lemma default_memory: "map_of (DEFAULT_CONFIG Sandbox_section) ''maxMemoryMb'' = Some (Plain (JNum 128))"
  by simp

end
