(* ===== verification/Watcher.thy ===== *)
theory Watcher
  imports ConfigLoader
begin

text \<open>
  The watcher of the client's configuration file, \<open>src/src/watcher/config-watcher.ts\<close>. The file events come from the
  package \<open>chokidar\<close> and are events of the model; \<open>reloads\<close> records the \<open>configChanged\<close> events, each of which makes the hub
  reload (\<open>createHubWatcher\<close>). Time is an argument, and a timer that is due fires at the next tick.
\<close>

record watcher =
  w_configPath :: string
  w_debounceMs :: int
  w_enabled :: bool
  w_watching :: bool
  w_timer :: "(time \<times> string) option"
  watchedPath :: "string option"
  isRunning :: bool
  reloads :: "(time \<times> string) list"

definition new_watcher :: "string option \<Rightarrow> int option \<Rightarrow> bool option \<Rightarrow> watcher" where
  "new_watcher path ms on =
     \<lparr>w_configPath = nullish path [], w_debounceMs = nullish ms 500, w_enabled = nullish on True, w_watching = False,
      w_timer = None, watchedPath = None, isRunning = False, reloads = []\<rparr>"

text \<open>\<open>start\<close>: what \<open>findClaudeConfig\<close> gives, and whether \<open>watch\<close> throws.\<close>

definition watcher_start :: "string option \<Rightarrow> bool \<Rightarrow> watcher \<Rightarrow> bool \<times> watcher" where
  "watcher_start found watchOk w =
     (if \<not> w_enabled w then (False, w)
      else if isRunning w then (True, w)
      else (case (if w_configPath w \<noteq> [] then Some (w_configPath w) else found) of
              None \<Rightarrow> (False, w)
            | Some p \<Rightarrow>
                (if p = [] then (False, w)
                 else if watchOk then (True, w\<lparr>watchedPath := Some p, w_watching := True, isRunning := True\<rparr>)
                 else (False, w\<lparr>watchedPath := Some p\<rparr>))))"

definition watcher_stop :: "watcher \<Rightarrow> watcher" where
  "watcher_stop w = w\<lparr>w_timer := None, w_watching := False, isRunning := False, watchedPath := None\<rparr>"

definition handleChange :: "time \<Rightarrow> string \<Rightarrow> watcher \<Rightarrow> watcher" where
  "handleChange now path w = (if w_watching w then w\<lparr>w_timer := Some (now + w_debounceMs w, path)\<rparr> else w)"

definition timer_tick :: "time \<Rightarrow> watcher \<Rightarrow> watcher" where
  "timer_tick now w =
     (case w_timer w of
        Some (due, path) \<Rightarrow> (if due \<le> now then w\<lparr>reloads := reloads w @ [(now, path)], w_timer := None\<rparr> else w)
      | None \<Rightarrow> w)"

definition setDebounceMs :: "int \<Rightarrow> watcher \<Rightarrow> watcher" where
  "setDebounceMs ms w = w\<lparr>w_debounceMs := ms\<rparr>"

definition triggerReload :: "time \<Rightarrow> watcher \<Rightarrow> watcher" where
  "triggerReload now w =
     (case watchedPath w of
        Some p \<Rightarrow> (if p \<noteq> [] then w\<lparr>reloads := reloads w @ [(now, p)]\<rparr> else w)
      | None \<Rightarrow> w)"

datatype watcher_event =
    StartCalled "string option" bool
  | StopCalled
  | FileChanged time string
  | Tick time
  | SetDebounce int
  | ReloadCalled time

fun watcher_step :: "watcher \<Rightarrow> watcher_event \<Rightarrow> watcher" where
  "watcher_step w (StartCalled found ok) = snd (watcher_start found ok w)"
| "watcher_step w StopCalled = watcher_stop w"
| "watcher_step w (FileChanged now path) = handleChange now path w"
| "watcher_step w (Tick now) = timer_tick now w"
| "watcher_step w (SetDebounce ms) = setDebounceMs ms w"
| "watcher_step w (ReloadCalled now) = triggerReload now w"

definition watcher_ok :: "watcher \<Rightarrow> bool" where
  "watcher_ok w \<longleftrightarrow>
     (isRunning w \<longleftrightarrow> w_watching w) \<and> (w_timer w \<noteq> None \<longrightarrow> isRunning w) \<and> (isRunning w \<longrightarrow> watchedPath w \<noteq> None)"

lemma watcher_ok_step: "watcher_ok w \<Longrightarrow> watcher_ok (watcher_step w e)"
  by (cases e) (auto simp: watcher_ok_def watcher_start_def watcher_stop_def handleChange_def timer_tick_def
      setDebounceMs_def triggerReload_def split: option.split)

interpretation cw: stepper watcher_step watcher_ok
  by unfold_locales (rule watcher_ok_step)

lemma watcher_ok_new: "watcher_ok (new_watcher path ms on)"
  by (simp add: watcher_ok_def new_watcher_def)

text \<open>After \<open>stop\<close> no change of the file reloads anything, until the next \<open>start\<close>.\<close>

fun not_started :: "watcher_event \<Rightarrow> bool" where
  "not_started (StartCalled found ok) = False"
| "not_started e = True"

lemma stopped_is_silent:
  assumes "list_all not_started es" "w_timer w = None" "\<not> w_watching w" "watchedPath w = None"
  shows "reloads (foldl watcher_step w es) = reloads w"
  using assms
proof (induction es arbitrary: w)
  case (Cons e es)
  have "w_timer (watcher_step w e) = None \<and> \<not> w_watching (watcher_step w e) \<and> watchedPath (watcher_step w e) = None
      \<and> reloads (watcher_step w e) = reloads w"
    using Cons.prems by (cases e) (simp_all add: watcher_stop_def handleChange_def timer_tick_def setDebounceMs_def triggerReload_def)
  then show ?case using Cons by simp
qed simp

text \<open>A burst of changes, each before the one before it was due, with ticks in between, reloads nothing; the first tick that
  is at least the delay after the last change reloads once, with the path of the last change.\<close>

fun burst :: "int \<Rightarrow> time \<Rightarrow> watcher_event list \<Rightarrow> bool" where
  "burst d due [] = True"
| "burst d due (FileChanged now path # es) = (now < due \<and> burst d (now + d) es)"
| "burst d due (Tick now # es) = (now < due \<and> burst d due es)"
| "burst d due (e # es) = False"

fun last_change :: "time \<times> string \<Rightarrow> watcher_event list \<Rightarrow> time \<times> string" where
  "last_change x [] = x"
| "last_change x (FileChanged now path # es) = last_change (now, path) es"
| "last_change x (e # es) = last_change x es"

lemma burst_waits:
  assumes "burst (w_debounceMs w) (t + w_debounceMs w) es" "w_watching w" "w_timer w = Some (t + w_debounceMs w, p)"
  shows "reloads (foldl watcher_step w es) = reloads w \<and>
    w_timer (foldl watcher_step w es) = Some (fst (last_change (t, p) es) + w_debounceMs w, snd (last_change (t, p) es))"
  using assms
proof (induction es arbitrary: w t p)
  case (Cons e es)
  show ?case
  proof (cases e)
    case (FileChanged now path)
    let ?w = "w\<lparr>w_timer := Some (now + w_debounceMs w, path)\<rparr>"
    have "foldl watcher_step w (e # es) = foldl watcher_step ?w es"
      using FileChanged Cons.prems by (simp add: handleChange_def)
    then show ?thesis using Cons.IH [of ?w now path] Cons.prems FileChanged by simp
  next
    case (Tick now)
    then have "foldl watcher_step w (e # es) = foldl watcher_step w es"
      using Cons.prems by (simp add: timer_tick_def)
    then show ?thesis using Cons.IH [of w t p] Cons.prems Tick by simp
  qed (use Cons.prems in simp_all)
qed simp

theorem burst_reloads_once:
  assumes w: "isRunning w" "watcher_ok w" and b: "burst (w_debounceMs w) (t + w_debounceMs w) es"
    and late: "fst (last_change (t, p) es) + w_debounceMs w \<le> now"
  shows "reloads (foldl watcher_step w (FileChanged t p # es @ [Tick now]))
    = reloads w @ [(now, snd (last_change (t, p) es))]"
proof -
  let ?w = "w\<lparr>w_timer := Some (t + w_debounceMs w, p)\<rparr>"
  have "w_watching w" using w by (simp add: watcher_ok_def)
  then have "watcher_step w (FileChanged t p) = ?w" by (simp add: handleChange_def)
  then show ?thesis using burst_waits [of ?w t es p] b late \<open>w_watching w\<close> by (simp add: timer_tick_def)
qed

text \<open>A failed start keeps the path, and a manual reload is announced although nothing is watched.\<close>

lemma failed_start_can_reload:
  "reloads (foldl watcher_step (new_watcher (Some ''f'') None None) [StartCalled None False, ReloadCalled 5]) = [(5, ''f'')]"
  by code_simp

end
