(* ===== verification/DiagMode.thy ===== *)
theory DiagMode
  imports Metrics JsText
begin

text \<open>
  The diagnostic trailer, \<open>src/src/server/diag-mode.ts\<close>: the mode, the estimates of tokens, the share saved and the text.
  The estimates are exact; the share is the exact quotient, which the code rounds to a double before it is
  printed. Four marks lie outside the characters of the model and have stand-ins.
\<close>

datatype diag_mode = DiagOff | DiagSummary | DiagVerbose

definition setDiagMode :: "diag_mode \<Rightarrow> diag_mode \<Rightarrow> diag_mode" where
  "setDiagMode new current = new"

record child_call_trace =
  cct_server :: string
  cct_tool :: string
  cct_wallMs :: nat
  cct_rawBytes :: nat

record diag_payload =
  dp_callType :: string
  dp_wallMs :: nat
  dp_sandboxBootMs :: "nat option"
  dp_resultTrimMs :: "nat option"
  dp_childCalls :: "child_call_trace list option"
  dp_rawBytesIn :: nat
  dp_outBytesToModel :: nat
  dp_scriptChars :: "nat option"
  dp_clientModel :: "string option"
  dp_clientEffort :: "string option"

subsection \<open>Estimates\<close>

definition estimatePassthroughTokens :: "nat \<Rightarrow> nat \<Rightarrow> int" where
  "estimatePassthroughTokens rawBytesIn childCallCount =
     \<lceil>rat_of_nat rawBytesIn / 1024 * of_nat TOKENS_PER_KB\<rceil> + int (max childCallCount 1 * TOOL_CALL_OVERHEAD_TOKENS)"

definition estimateExecutionTokens :: "nat \<Rightarrow> nat option \<Rightarrow> int" where
  "estimateExecutionTokens outBytes scriptChars =
     (let resultTokens = \<lceil>of_nat outBytes / JSON_CHARS_PER_TOKEN\<rceil> in
      case scriptChars of
        Some n \<Rightarrow> \<lceil>of_nat n / CODE_CHARS_PER_TOKEN\<rceil> + resultTokens
      | None \<Rightarrow> resultTokens + int TOOL_CALL_OVERHEAD_TOKENS)"

definition computeSavingsPct :: "int \<Rightarrow> int \<Rightarrow> rat" where
  "computeSavingsPct passthroughTokens executionTokens =
     (if passthroughTokens \<le> 0 then 0
      else min (999 / 10) (max 0 ((1 - of_int executionTokens / of_int passthroughTokens) * 100)))"

definition reduction_pct :: "nat \<Rightarrow> nat \<Rightarrow> int" where
  "reduction_pct raw out = (if raw > 0 then js_round ((1 - rat_of_nat out / of_nat raw) * 100) else 0)"

subsection \<open>The text\<close>

definition bar_mark :: char where "bar_mark = CHR 0x80"
definition arrow_mark :: char where "arrow_mark = CHR 0x81"
definition approx_mark :: char where "approx_mark = CHR 0x82"
definition dot_sep :: string where "dot_sep = [CHR '' '', CHR 0xB7, CHR '' '']"

text \<open>\<open>x.toFixed(1)\<close> for \<open>x\<close> not negative; \<open>padEnd\<close>, \<open>padStart\<close>.\<close>

definition fixed_one :: "rat \<Rightarrow> string" where
  "fixed_one x = (let n = nat (js_round (x * 10)) in show_nat (n div 10) @ ''.'' @ show_nat (n mod 10))"

definition pad_end :: "nat \<Rightarrow> string \<Rightarrow> string" where
  "pad_end n s = s @ replicate (n - length s) (CHR '' '')"

definition pad_start :: "nat \<Rightarrow> string \<Rightarrow> string" where
  "pad_start n s = replicate (n - length s) (CHR '' '') @ s"

text \<open>A hint of the client: \<open>payload.x ?? env\<close>, kept when it is not empty.\<close>

definition client_hint :: "string \<Rightarrow> string option \<Rightarrow> string option \<Rightarrow> string list" where
  "client_hint label own env =
     (case (case own of Some v \<Rightarrow> Some v | None \<Rightarrow> env) of
        Some v \<Rightarrow> (if v = [] then [] else [label @ v])
      | None \<Rightarrow> [])"

definition summary_line :: "diag_payload \<Rightarrow> int \<Rightarrow> int \<Rightarrow> rat \<Rightarrow> string list \<Rightarrow> string" where
  "summary_line p pass exec pct hints =
     bar_mark # '' [diag] wall='' @ show_nat (dp_wallMs p) @ ''ms'' @ dot_sep
     @ ''raw='' @ show_nat (dp_rawBytesIn p) @ ''b '' @ [arrow_mark] @ '' out='' @ show_nat (dp_outBytesToModel p) @ ''b'' @ dot_sep
     @ ''est_passthrough'' @ approx_mark # show_int pass @ ''t'' @ dot_sep
     @ ''est_execution'' @ approx_mark # show_int exec @ ''t'' @ dot_sep
     @ ''savings'' @ approx_mark # fixed_one pct @ ''%'' @ concat (map (\<lambda>h. dot_sep @ h) hints)"

definition wall_line :: "diag_payload \<Rightarrow> string" where
  "wall_line p =
     ''  wall:        ''
     @ join dot_sep ([show_nat (dp_wallMs p) @ ''ms'']
         @ (case dp_sandboxBootMs p of Some n \<Rightarrow> [''sandbox '' @ show_nat n @ ''ms''] | None \<Rightarrow> [])
         @ (case dp_resultTrimMs p of Some n \<Rightarrow> [''trim '' @ show_nat n @ ''ms''] | None \<Rightarrow> []))"

definition child_line :: "child_call_trace \<Rightarrow> string" where
  "child_line c =
     ''    '' @ pad_end 24 (cct_server c @ ''.'' @ cct_tool c) @ pad_start 5 (show_nat (cct_wallMs c)) @ ''ms  ''
     @ show_nat (cct_rawBytes c) @ ''b''"

definition child_lines :: "diag_payload \<Rightarrow> string list" where
  "child_lines p =
     (case dp_childCalls p of
        Some (c # cs) \<Rightarrow> ''  child calls:'' # map child_line (c # cs)
      | _ \<Rightarrow> [])"

definition verbose_lines :: "diag_payload \<Rightarrow> int \<Rightarrow> int \<Rightarrow> rat \<Rightarrow> string list \<Rightarrow> string list" where
  "verbose_lines p pass exec pct hints =
     [bar_mark # '' [diag] '' @ dp_callType p, wall_line p] @ child_lines p
     @ [''  bytes:       raw '' @ show_nat (dp_rawBytesIn p) @ '' '' @ [arrow_mark] @ '' out '' @ show_nat (dp_outBytesToModel p)
          @ '' ('' @ show_int (reduction_pct (dp_rawBytesIn p) (dp_outBytesToModel p)) @ ''% reduction)'',
        ''  tokens est:  passthrough'' @ approx_mark # show_int pass @ dot_sep @ ''execute_code'' @ approx_mark # show_int exec
          @ dot_sep @ ''savings'' @ approx_mark # fixed_one pct @ ''%'']
     @ (if hints = [] then [] else [''  client:      '' @ join '' '' hints])"

definition renderDiagTrailer :: "string option \<Rightarrow> string option \<Rightarrow> diag_payload \<Rightarrow> diag_mode \<Rightarrow> string" where
  "renderDiagTrailer envModel envEffort p mode =
     (if mode = DiagOff then []
      else
        (let hints = client_hint ''model='' (dp_clientModel p) envModel @ client_hint ''effort='' (dp_clientEffort p) envEffort;
             childCount = (case dp_childCalls p of Some cs \<Rightarrow> length cs | None \<Rightarrow> 0);
             pass = estimatePassthroughTokens (dp_rawBytesIn p) childCount;
             exec = estimateExecutionTokens (dp_outBytesToModel p) (dp_scriptChars p);
             pct = computeSavingsPct pass exec
         in if mode = DiagSummary then summary_line p pass exec pct hints
            else join [CHR 0x0A] (verbose_lines p pass exec pct hints)))"

subsection \<open>What the numbers are\<close>

text \<open>The estimate is that of the metrics for the same bytes and at least one call; the metrics charge nothing for no call.\<close>

lemma diag_estimate_is_metrics:
  "estimatePassthroughTokens raw n = passthrough_estimate (max n 1) raw"
proof -
  have "passthrough_estimate m raw
      = \<lceil>rat_of_nat raw / 1024 * of_nat TOKENS_PER_KB + of_int (int (m * TOOL_CALL_OVERHEAD_TOKENS))\<rceil>" for m
    by (simp only: passthrough_estimate_def of_int_of_nat_eq add.commute)
  then show ?thesis by (simp only: estimatePassthroughTokens_def ceiling_add_of_int)
qed

lemma passthrough_positive: "150 \<le> estimatePassthroughTokens raw n"
proof -
  have "0 \<le> \<lceil>rat_of_nat raw / 1024 * of_nat TOKENS_PER_KB\<rceil>" by (simp add: TOKENS_PER_KB_def)
  moreover have "150 \<le> int (max n 1 * TOOL_CALL_OVERHEAD_TOKENS)" by (simp add: TOOL_CALL_OVERHEAD_TOKENS_def)
  ultimately show ?thesis unfolding estimatePassthroughTokens_def by linarith
qed

lemma execution_not_negative: "0 \<le> estimateExecutionTokens out sc"
  by (auto simp: estimateExecutionTokens_def Let_def JSON_CHARS_PER_TOKEN_def CODE_CHARS_PER_TOKEN_def split: option.split)

theorem savings_bounds:
  "0 \<le> computeSavingsPct pass exec \<and> computeSavingsPct pass exec \<le> 999 / 10 \<and>
   (pass > 0 \<longrightarrow> (computeSavingsPct pass exec > 0 \<longleftrightarrow> exec < pass))"
proof -
  have pos: "0 < (1 - rat_of_int exec / of_int pass) * 100 \<longleftrightarrow> exec < pass" if "pass > 0"
    using that by (simp add: field_simps)
  show ?thesis
  proof (cases "pass > 0")
    case True
    then have "computeSavingsPct pass exec = min (999 / 10) (max 0 ((1 - of_int exec / of_int pass) * 100))"
      by (simp only: computeSavingsPct_def not_le [symmetric] if_False)
    moreover have "0 < min (999 / 10) (max 0 y) \<longleftrightarrow> 0 < y" "0 \<le> min (999 / 10) (max 0 y)" "min (999 / 10) (max 0 y) \<le> 999 / 10"
      for y :: rat by auto
    ultimately show ?thesis using pos [OF True] by simp
  qed (simp add: computeSavingsPct_def)
qed

text \<open>The share never reads 100: the printed text has at most two digits before the point.\<close>

lemma fixed_one_bound:
  assumes "0 \<le> x" "x \<le> 999 / 10"
  shows "nat (js_round (x * 10)) \<le> 999"
proof -
  have "x * 10 + 1 / 2 < of_int 1000" using assms by simp
  then have "\<lfloor>x * 10 + 1 / 2\<rfloor> < 1000" by (simp only: floor_less_iff)
  then have "\<lfloor>x * 10 + 1 / 2\<rfloor> \<le> 999" by simp
  then show ?thesis unfolding js_round_def by linarith
qed

lemma off_renders_nothing: "renderDiagTrailer m e p DiagOff = []"
  by (simp add: renderDiagTrailer_def)

lemma growth_is_no_savings:
  assumes "estimatePassthroughTokens raw n \<le> estimateExecutionTokens out sc"
  shows "computeSavingsPct (estimatePassthroughTokens raw n) (estimateExecutionTokens out sc) = 0"
  using savings_bounds [of "estimatePassthroughTokens raw n" "estimateExecutionTokens out sc"] assms passthrough_positive [of raw n]
  by linarith

lemma reduction_can_be_negative: "reduction_pct 100 250 = - 150"
proof -
  have "\<lfloor>- (299 / 2) :: rat\<rfloor> = - 150" by (rule floor_unique) simp_all
  then show ?thesis by (simp add: reduction_pct_def js_round_def)
qed

end
