(* ===== verification/FindTool.thy ===== *)
theory FindTool
  imports JsText "HOL-Library.Word" "HOL-Library.Multiset"
begin

unbundle bit_operations_syntax

text \<open>
  The search for tools by meaning, \<open>src/src/runtime/findtool\<close>: the hash of a token, the vector of a text, the index and its
  search, and the module that fills the index when it is first used. The hash is on 32-bit words. A vector
  holds twice the counts of the code, which are whole numbers then; the code divides by the length and compares
  cosines in floating point, the model compares their exact squares, which are in the same order because no count
  is negative. A call of the loader settles in a later step.
\<close>

subsection \<open>Embedding\<close>

definition EMBED_DIM :: nat where "EMBED_DIM = 256"

definition token_char :: "char \<Rightarrow> bool" where
  "token_char c \<longleftrightarrow> is_digit c \<or> (let n = of_char c :: nat in 97 \<le> n \<and> n \<le> 122) \<or> c \<in> set ''_-.''"

fun words_of :: "string \<Rightarrow> string \<Rightarrow> string list" where
  "words_of cur [] = (if cur = [] then [] else [cur])"
| "words_of cur (c # cs) =
     (if token_char c then words_of (cur @ [c]) cs
      else (if cur = [] then words_of [] cs else cur # words_of [] cs))"

definition tokenise :: "string \<Rightarrow> string list" where
  "tokenise tx = words_of [] (js_lower tx)"

text \<open>\<open>h = ((h << 5) + h) ^ s.charCodeAt(i); h = h >>> 0\<close>\<close>

definition hash_step :: "32 word \<Rightarrow> char \<Rightarrow> 32 word" where
  "hash_step h c = (push_bit 5 h + h) XOR word_of_nat (of_char c)"

definition hashBucket :: "string \<Rightarrow> nat" where
  "hashBucket s = unat (foldl hash_step 5381 s) mod EMBED_DIM"

type_synonym embedding = "nat list"

definition add_at :: "nat \<Rightarrow> nat \<Rightarrow> embedding \<Rightarrow> embedding" where
  "add_at n k v = v[k := v ! k + n]"

fun bigrams :: "string list \<Rightarrow> string list" where
  "bigrams (a # b # ts) = (a @ ''_'' @ b) # bigrams (b # ts)"
| "bigrams ts = []"

definition embed :: "string \<Rightarrow> embedding" where
  "embed tx =
     (let tokens = tokenise tx
      in fold (\<lambda>b. add_at 1 (hashBucket b)) (bigrams tokens)
           (fold (\<lambda>t. add_at 2 (hashBucket t)) tokens (replicate EMBED_DIM 0)))"

definition dot :: "embedding \<Rightarrow> embedding \<Rightarrow> nat" where
  "dot a b = sum_list (map2 (*) a b)"

text \<open>The square of the cosine; a vector of zeros stays as it is and its cosine is 0.\<close>

definition similarity :: "embedding \<Rightarrow> embedding \<Rightarrow> rat" where
  "similarity a b = of_nat (dot a b ^ 2) / of_nat (dot a a * dot b b)"

subsection \<open>The index\<close>

record indexed_tool =
  ix_server :: string
  ix_tool :: string
  ix_description :: string
  ix_vector :: embedding

type_synonym tool_entry = "string \<times> string \<times> string"

definition index_tool :: "tool_entry \<Rightarrow> indexed_tool" where
  "index_tool e =
     (case e of (server, tool, desc) \<Rightarrow>
        \<lparr>ix_server = server, ix_tool = tool, ix_description = desc, ix_vector = embed (tool @ CHR 0x0A # desc)\<rparr>)"

definition upsertServer :: "string \<Rightarrow> (string \<times> string) list \<Rightarrow> indexed_tool list \<Rightarrow> indexed_tool list" where
  "upsertServer server tools es =
     filter (\<lambda>e. ix_server e \<noteq> server) es @ map (\<lambda>(tool, desc). index_tool (server, tool, desc)) tools"

definition removeServer :: "string \<Rightarrow> indexed_tool list \<Rightarrow> indexed_tool list" where
  "removeServer server es = filter (\<lambda>e. ix_server e \<noteq> server) es"

definition rebuild :: "tool_entry list \<Rightarrow> indexed_tool list" where
  "rebuild tools = map index_tool tools"

text \<open>\<open>scored.slice(0, topK)\<close>: a negative end counts from the back.\<close>

definition js_slice_to :: "int \<Rightarrow> 'a list \<Rightarrow> 'a list" where
  "js_slice_to k xs = (if 0 \<le> k then take (nat k) xs else take (length xs - nat (- k)) xs)"

type_synonym scored_tool = "indexed_tool \<times> rat"

definition candidates_of :: "string list option \<Rightarrow> indexed_tool list \<Rightarrow> indexed_tool list" where
  "candidates_of flt es = (case flt of Some ss \<Rightarrow> filter (\<lambda>e. ix_server e \<in> set ss) es | None \<Rightarrow> es)"

definition scored_of :: "string \<Rightarrow> indexed_tool list \<Rightarrow> scored_tool list" where
  "scored_of query es = map (\<lambda>e. (e, similarity (embed query) (ix_vector e))) es"

definition search_index :: "string \<Rightarrow> int \<Rightarrow> string list option \<Rightarrow> indexed_tool list \<Rightarrow> scored_tool list" where
  "search_index query topK flt es =
     (if es = [] then []
      else js_slice_to topK (sort_key (\<lambda>r. - snd r) (scored_of query (candidates_of flt es))))"

subsection \<open>The module\<close>

text \<open>What waits for the loader: a call of \<open>reindex\<close>, or a search with its arguments. Loaders have numbers.\<close>

datatype load_for = Reindexing | Searching nat string "int option" "string list option"

record find_tool =
  ft_index :: "indexed_tool list"
  ft_initialised :: bool
  ft_loader :: "nat option"
  ft_loading :: "(nat \<times> load_for) list"
  ft_answers :: "(nat \<times> (string + scored_tool list)) list"
  ft_reindexed :: "(string + unit) list"

definition resetFindTool :: "find_tool \<Rightarrow> find_tool" where
  "resetFindTool s = s\<lparr>ft_index := [], ft_initialised := False, ft_loader := None\<rparr>"

definition new_find_tool :: find_tool where
  "new_find_tool = \<lparr>ft_index = [], ft_initialised = False, ft_loader = None, ft_loading = [], ft_answers = [], ft_reindexed = []\<rparr>"

definition registerToolLoader :: "nat \<Rightarrow> find_tool \<Rightarrow> find_tool" where
  "registerToolLoader l s = s\<lparr>ft_loader := Some l, ft_initialised := False\<rparr>"

definition seedIndex :: "tool_entry list \<Rightarrow> find_tool \<Rightarrow> find_tool" where
  "seedIndex tools s = s\<lparr>ft_index := rebuild tools, ft_initialised := True\<rparr>"

definition reindex_called :: "find_tool \<Rightarrow> find_tool" where
  "reindex_called s =
     (case ft_loader s of
        None \<Rightarrow> s\<lparr>ft_reindexed := ft_reindexed s @ [Inr ()]\<rparr>
      | Some l \<Rightarrow> s\<lparr>ft_loading := ft_loading s @ [(l, Reindexing)]\<rparr>)"

definition answer_search :: "load_for \<Rightarrow> find_tool \<Rightarrow> find_tool" where
  "answer_search w s =
     (case w of
        Reindexing \<Rightarrow> s\<lparr>ft_reindexed := ft_reindexed s @ [Inr ()]\<rparr>
      | Searching i query topK flt \<Rightarrow>
          s\<lparr>ft_initialised := True,
            ft_answers := ft_answers s @ [(i, Inr (search_index query (nullish topK 5) flt (ft_index s)))]\<rparr>)"

definition findTool_called :: "nat \<Rightarrow> string \<Rightarrow> int option \<Rightarrow> string list option \<Rightarrow> find_tool \<Rightarrow> find_tool" where
  "findTool_called i query topK flt s =
     (case ft_loader s of
        Some l \<Rightarrow>
          (if ft_initialised s then answer_search (Searching i query topK flt) s
           else s\<lparr>ft_loading := ft_loading s @ [(l, Searching i query topK flt)]\<rparr>)
      | None \<Rightarrow> answer_search (Searching i query topK flt) s)"

text \<open>The load at position \<open>n\<close> of those under way settles.\<close>

definition load_settled :: "nat \<Rightarrow> string + tool_entry list \<Rightarrow> find_tool \<Rightarrow> find_tool" where
  "load_settled n out s =
     (if n < length (ft_loading s) then
        (let (l, w) = ft_loading s ! n;
             s1 = s\<lparr>ft_loading := take n (ft_loading s) @ drop (n + 1) (ft_loading s)\<rparr>
         in case out of
              Inr tools \<Rightarrow> answer_search w (s1\<lparr>ft_index := rebuild tools, ft_initialised := True\<rparr>)
            | Inl e \<Rightarrow>
                (case w of
                   Reindexing \<Rightarrow> s1\<lparr>ft_reindexed := ft_reindexed s @ [Inl e]\<rparr>
                 | Searching i query topK flt \<Rightarrow> s1\<lparr>ft_answers := ft_answers s @ [(i, Inl e)]\<rparr>))
      else s)"

subsection \<open>Scores\<close>

lemma hash_bucket_bound: "hashBucket s < EMBED_DIM"
  by (simp add: hashBucket_def EMBED_DIM_def)

lemma length_add_at [simp]: "length (add_at n k v) = length v"
  by (simp add: add_at_def)

lemma length_adds [simp]: "length (fold (\<lambda>t. add_at n (f t)) ts v) = length v"
  by (induction ts arbitrary: v) simp_all

lemma length_embed [simp]: "length (embed tx) = EMBED_DIM"
  by (simp add: embed_def Let_def)

text \<open>Cauchy and Schwarz, for lists of whole numbers.\<close>

lemma mixed_le:
  fixes x y A B D :: int
  assumes "0 \<le> A" "0 \<le> B" "D ^ 2 \<le> A * B"
  shows "2 * (x * y * D) \<le> x ^ 2 * B + y ^ 2 * A"
proof -
  have "(2 * (x * y * D)) ^ 2 = 4 * (x ^ 2 * y ^ 2) * D ^ 2" by (simp add: power2_eq_square algebra_simps)
  also have "\<dots> \<le> 4 * (x ^ 2 * y ^ 2) * (A * B)" using assms by (intro mult_left_mono) simp_all
  also have "\<dots> \<le> (x ^ 2 * B + y ^ 2 * A) ^ 2"
  proof -
    have "(x ^ 2 * B + y ^ 2 * A) ^ 2 - 4 * (x ^ 2 * y ^ 2) * (A * B) = (x ^ 2 * B - y ^ 2 * A) ^ 2"
      by (simp add: power2_eq_square algebra_simps)
    then show ?thesis by (metis diff_ge_0_iff_ge zero_le_power2)
  qed
  finally have sq: "(2 * (x * y * D)) ^ 2 \<le> (x ^ 2 * B + y ^ 2 * A) ^ 2" .
  have nn: "0 \<le> x ^ 2 * B + y ^ 2 * A" using assms by simp
  show ?thesis by (rule power2_le_imp_le [OF sq nn])
qed

lemma dot_cauchy_schwarz:
  assumes "length a = length b"
  shows "int (dot a b) ^ 2 \<le> int (dot a a) * int (dot b b)"
  using assms
proof (induction a b rule: list_induct2)
  case (Cons x a y b)
  have e: "int (dot (x # a) (y # b)) = int x * int y + int (dot a b)" "int (dot (x # a) (x # a)) = int x ^ 2 + int (dot a a)"
    "int (dot (y # b) (y # b)) = int y ^ 2 + int (dot b b)" by (simp_all add: dot_def power2_eq_square)
  have "2 * (int x * int y * int (dot a b)) \<le> int x ^ 2 * int (dot b b) + int y ^ 2 * int (dot a a)"
    by (rule mixed_le) (use Cons in simp_all)
  then show ?case using Cons unfolding e by (simp add: power2_eq_square algebra_simps)
qed (simp add: dot_def)

lemma similarity_bounds:
  assumes "length a = length b"
  shows "0 \<le> similarity a b \<and> similarity a b \<le> 1"
proof -
  have "dot a b ^ 2 \<le> dot a a * dot b b"
    using dot_cauchy_schwarz [OF assms] by (metis of_nat_le_iff of_nat_mult of_nat_power)
  then have "rat_of_nat (dot a b ^ 2) \<le> of_nat (dot a a * dot b b)" by (simp only: of_nat_le_iff)
  then show ?thesis unfolding similarity_def by (cases "dot a a * dot b b = 0") (simp_all add: divide_le_eq_1)
qed

lemma similarity_self: "dot a a \<noteq> 0 \<Longrightarrow> similarity a a = 1"
  by (simp add: similarity_def power2_eq_square)

subsection \<open>What a search returns\<close>

text \<open>A search over an index returns the best of the tools it may look at: the results are those of the tools of the
  allowed servers with their scores between 0 and 1, in descending order, at most \<open>topK\<close> of them; what is left out
  does not score higher than what is returned; and tools of equal score keep the order of the index.\<close>

theorem search_best:
  assumes k: "0 \<le> topK" and ix: "\<forall>e \<in> set es. length (ix_vector e) = EMBED_DIM"
  shows "\<exists>rest. mset (search_index query topK flt es @ rest) = mset (scored_of query (candidates_of flt es)) \<and>
    sorted_wrt (\<lambda>x y. snd y \<le> snd x) (search_index query topK flt es @ rest) \<and>
    length (search_index query topK flt es) = min (nat topK) (length (candidates_of flt es)) \<and>
    (\<forall>r \<in> set (search_index query topK flt es). 0 \<le> snd r \<and> snd r \<le> 1) \<and>
    (\<forall>x. filter (\<lambda>r. snd r = x) (search_index query topK flt es @ rest)
          = filter (\<lambda>r. snd r = x) (scored_of query (candidates_of flt es)))"
proof -
  let ?c = "scored_of query (candidates_of flt es)"
  let ?f = "\<lambda>r :: scored_tool. - snd r"
  let ?s = "sort_key ?f ?c"
  let ?rest = "drop (nat topK) ?s"
  have res: "search_index query topK flt es = take (nat topK) ?s"
  proof (cases "es = []")
    case True
    then have "candidates_of flt es = []" by (simp add: candidates_of_def split: option.split)
    then show ?thesis using True by (simp add: search_index_def scored_of_def)
  qed (use k in \<open>simp add: search_index_def js_slice_to_def\<close>)
  have all: "search_index query topK flt es @ ?rest = ?s" by (simp add: res)
  have "sorted (map ?f ?s)" by simp
  then have srt: "sorted_wrt (\<lambda>x y. snd y \<le> snd x) ?s" by (simp add: sorted_wrt_map)
  have stable: "filter (\<lambda>r. snd r = x) ?s = filter (\<lambda>r. snd r = x) ?c" for x
  proof -
    have "filter (\<lambda>r. ?f r = - x) ?s = filter (\<lambda>r. ?f r = - x) ?c" by (rule sort_key_stable)
    then show ?thesis by simp
  qed
  have bound: "0 \<le> snd r \<and> snd r \<le> 1" if "r \<in> set (search_index query topK flt es)" for r
  proof -
    have "r \<in> set ?c" using that res by (metis in_set_takeD set_sort)
    then obtain e where e: "e \<in> set es" "r = (e, similarity (embed query) (ix_vector e))"
      by (auto simp: scored_of_def candidates_of_def split: option.splits)
    then show ?thesis using ix similarity_bounds [of "embed query" "ix_vector e"] by simp
  qed
  have len: "length (search_index query topK flt es) = min (nat topK) (length (candidates_of flt es))"
    by (simp add: res scored_of_def min.commute)
  show ?thesis
    by (rule exI [of _ ?rest]) (simp only: all srt stable len bound mset_sort simp_thms ball_simps, use bound in blast)
qed

lemma index_vectors: "e \<in> set (rebuild tools) \<Longrightarrow> length (ix_vector e) = EMBED_DIM"
  by (auto simp: rebuild_def index_tool_def split: prod.splits)

lemma upsert_vectors:
  "\<forall>e \<in> set es. length (ix_vector e) = EMBED_DIM \<Longrightarrow> e \<in> set (upsertServer s tools es) \<Longrightarrow> length (ix_vector e) = EMBED_DIM"
  by (auto simp: upsertServer_def index_tool_def)

lemma upsert_replaces:
  "filter (\<lambda>e. ix_server e = s) (upsertServer s tools es) = map (\<lambda>(tool, desc). index_tool (s, tool, desc)) tools"
  by (auto simp: upsertServer_def filter_empty_conv index_tool_def intro!: filter_True)

text \<open>A tool is found by its own text with the highest score.\<close>

lemma own_text_scores_one:
  "dot (embed (tool @ CHR 0x0A # desc)) (embed (tool @ CHR 0x0A # desc)) \<noteq> 0 \<Longrightarrow>
    similarity (embed (tool @ CHR 0x0A # desc)) (ix_vector (index_tool (s, tool, desc))) = 1"
  by (simp add: index_tool_def similarity_self)

lemma empty_filter_finds_nothing: "search_index query topK (Some []) es = []"
  by (simp add: search_index_def candidates_of_def scored_of_def js_slice_to_def)

lemma negative_count_returns_most:
  "length (search_index query (-1) None es) = length es - 1"
  by (simp add: search_index_def candidates_of_def scored_of_def js_slice_to_def)

subsection \<open>Runs of the module\<close>

text \<open>A loader that is replaced while it loads still fills the index, which then counts as filled by the new one: the new
  loader is not asked.\<close>

lemma old_loader_wins:
  "let s = load_settled 0 (Inr [(''a'', ''old'', [])])
             (registerToolLoader 2 (findTool_called 0 ''q'' None None (registerToolLoader 1 new_find_tool)));
       t = findTool_called 1 ''old'' None None s
   in ft_initialised s \<and> ft_loading t = [] \<and> map ix_tool (ft_index t) = [''old'']"
  by (simp add: new_find_tool_def registerToolLoader_def findTool_called_def load_settled_def answer_search_def
      rebuild_def index_tool_def Let_def)

text \<open>Every search is answered once its load settles; a failed load leaves the index as it was.\<close>

lemma failed_load_keeps_index:
  "ft_index (load_settled n (Inl e) s) = ft_index s \<and> ft_initialised (load_settled n (Inl e) s) = ft_initialised s"
  by (simp add: load_settled_def split_beta Let_def split: load_for.split)

end
