(* ===== verification/Support.thy ===== *)
theory Support
  imports ConfigLoader DiagMode
begin

text \<open>
  Small parts: the watchdog for a lost parent (\<open>src/src/utils/orphan-watch.ts\<close>), the helpers for texts and numbers (\<open>src/src/utils/helpers.ts\<close>), the errors of an
  execution (\<open>src/src/utils/errors.ts\<close>) and the arguments of the replay command (\<open>src/src/cli/replay.ts\<close>).
\<close>

subsection \<open>The watchdog\<close>

record orphan_watch =
  initialPpid :: int
  ow_fired :: bool
  ow_running :: bool
  ow_shutdowns :: nat

definition startOrphanWatch :: "int \<Rightarrow> orphan_watch" where
  "startOrphanWatch ppid = \<lparr>initialPpid = ppid, ow_fired = False, ow_running = True, ow_shutdowns = 0\<rparr>"

datatype orphan_event = Poll int | StopWatch

fun orphan_step :: "orphan_watch \<Rightarrow> orphan_event \<Rightarrow> orphan_watch" where
  "orphan_step w (Poll current) =
     (if \<not> ow_running w \<or> ow_fired w then w
      else if current \<noteq> initialPpid w then w\<lparr>ow_fired := True, ow_shutdowns := ow_shutdowns w + 1\<rparr>
      else w)"
| "orphan_step w StopWatch = w\<lparr>ow_running := False\<rparr>"

definition orphan_ok :: "orphan_watch \<Rightarrow> bool" where
  "orphan_ok w \<longleftrightarrow> ow_shutdowns w = (if ow_fired w then 1 else 0)"

interpretation ow: stepper orphan_step orphan_ok
proof unfold_locales
  fix w e
  assume "orphan_ok w"
  then show "orphan_ok (orphan_step w e)" by (cases e) (auto simp: orphan_ok_def)
qed

text \<open>The shutdown is called at most once, however often the parent changes.\<close>

lemma orphan_shutdown_once: "ow_shutdowns (foldl orphan_step (startOrphanWatch ppid) es) \<le> 1"
  using ow.inv_run [of "startOrphanWatch ppid" es] by (simp add: orphan_ok_def startOrphanWatch_def split: if_splits)

text \<open>While the parent stays, nothing happens, also when it is process 1 from the start; the first poll that sees another
  parent shuts down.\<close>

lemma orphan_fires_exactly:
  "ow_shutdowns (foldl orphan_step (startOrphanWatch ppid) (map Poll ps)) = (if \<forall>p \<in> set ps. p = ppid then 0 else 1)"
proof -
  have fired: "foldl orphan_step w (map Poll ps) = w" if "ow_fired w" for w
    using that by (induction ps) auto
  have "ow_shutdowns (foldl orphan_step w (map Poll ps)) = (if \<forall>p \<in> set ps. p = ppid then 0 else 1)"
    if "initialPpid w = ppid" "\<not> ow_fired w" "ow_running w" "ow_shutdowns w = 0" for w
    using that
  proof (induction ps arbitrary: w)
    case (Cons p ps)
    have stay: "foldl orphan_step v (map Poll qs) = v" if "ow_fired v" for v qs
      using that by (induction qs) auto
    show ?case using Cons stay [of "w\<lparr>ow_fired := True, ow_shutdowns := Suc 0\<rparr>"] by auto
  qed simp
  then show ?thesis by (simp add: startOrphanWatch_def)
qed

subsection \<open>Helpers\<close>

definition estimateTokens_text :: "string \<Rightarrow> nat" where
  "estimateTokens_text tx = (length tx + 3) div 4"

text \<open>\<open>str.slice(0, maxLength - 3) + '...'\<close>\<close>

definition truncate_text :: "string \<Rightarrow> int \<Rightarrow> string" where
  "truncate_text s maxLength =
     (if int (length s) \<le> maxLength then s
      else (if 0 \<le> maxLength - 3 then take (nat (maxLength - 3)) s
            else take (length s - nat (3 - maxLength)) s) @ ''...'')"

lemma truncate_fits: "3 \<le> n \<Longrightarrow> int (length (truncate_text s n)) \<le> n"
  by (simp add: truncate_text_def)

lemma truncate_below_three_overflows: "length (truncate_text ''abcdefghij'' 1) = 11"
  by code_simp

text \<open>\<open>x.toFixed(n)\<close> of a number that is not negative.\<close>

definition to_fixed :: "nat \<Rightarrow> rat \<Rightarrow> string" where
  "to_fixed d x =
     (let n = nat (js_round (x * 10 ^ d)); frac = show_nat (n mod 10 ^ d) in
      show_nat (n div 10 ^ d) @ (if d = 0 then [] else ''.'' @ replicate (d - length frac) (CHR ''0'') @ frac))"

definition formatDuration :: "nat \<Rightarrow> string" where
  "formatDuration ms =
     (if ms < 1000 then show_nat ms @ ''ms''
      else if ms < 60000 then to_fixed 2 (of_nat ms / 1000) @ ''s''
      else show_nat (ms div 60000) @ ''m '' @ to_fixed 0 (of_nat (ms mod 60000) / 1000) @ ''s'')"

text \<open>The infinite change of a zero has a stand-in for its sign of infinity.\<close>

definition percentageChange :: "int \<Rightarrow> int \<Rightarrow> string" where
  "percentageChange original new =
     (if original = 0 then (if new = 0 then ''0%'' else [CHR ''+'', CHR 0x83, CHR ''%''])
      else (let change = rat_of_int (new - original) / of_int original * 100
            in (if change \<ge> 0 then ''+'' @ to_fixed 1 change else ''-'' @ to_fixed 1 (- change)) @ ''%''))"

lemma duration_can_say_sixty_seconds: "formatDuration 119600 = ''1m 60s''"
proof -
  have "js_round (59600 / 1000 :: rat) = 60"
    unfolding js_round_def by (rule floor_unique) simp_all
  moreover have "show_nat 1 = ''1''" "show_nat 60 = ''60''" by code_simp+
  ultimately show ?thesis by (simp add: formatDuration_def to_fixed_def Let_def)
qed

lemma duration_can_say_sixty: "formatDuration 59999 = ''60.00s''"
proof -
  have "js_round (59999 / 1000 * 100 :: rat) = 6000"
    unfolding js_round_def by (rule floor_unique) simp_all
  moreover have "show_nat 0 = ''0''" "show_nat 60 = ''60''" by code_simp+
  ultimately show ?thesis by (simp add: formatDuration_def to_fixed_def Let_def)
qed

subsection \<open>Errors of an execution\<close>

datatype error_type = SyntaxKind | RuntimeKind | TimeoutKind | SecurityKind | ConnectionKind | ToolNotFoundKind | ServerNotFoundKind

fun error_type_text :: "error_type \<Rightarrow> string" where
  "error_type_text SyntaxKind = ''syntax''"
| "error_type_text RuntimeKind = ''runtime''"
| "error_type_text TimeoutKind = ''timeout''"
| "error_type_text SecurityKind = ''security''"
| "error_type_text ConnectionKind = ''connection''"
| "error_type_text ToolNotFoundKind = ''tool_not_found''"
| "error_type_text ServerNotFoundKind = ''server_not_found''"

record execution_error =
  ee_type :: error_type
  ee_message :: string
  ee_name :: string
  ee_line :: "nat option"
  ee_stack :: "string option"

definition execution_error_of :: "error_type \<Rightarrow> string \<Rightarrow> string \<Rightarrow> nat option \<Rightarrow> string option \<Rightarrow> execution_error" where
  "execution_error_of ty nm msg line stack =
     \<lparr>ee_type = ty, ee_message = msg, ee_name = nm, ee_line = line,
      ee_stack = (case stack of Some s \<Rightarrow> (if s = [] then None else Some s) | None \<Rightarrow> None)\<rparr>"

definition quote_name :: "string \<Rightarrow> string" where "quote_name s = CHR 0x27 # s @ [CHR 0x27]"

definition timeout_error :: "nat \<Rightarrow> execution_error" where
  "timeout_error ms = execution_error_of TimeoutKind ''TimeoutError'' (''Execution timed out after '' @ show_nat ms @ ''ms'') None None"

definition connection_error :: "string \<Rightarrow> string \<Rightarrow> execution_error" where
  "connection_error server msg =
     execution_error_of ConnectionKind ''ConnectionError'' (''Failed to connect to server '' @ quote_name server @ '': '' @ msg) None None"

definition tool_not_found_error :: "string \<Rightarrow> string \<Rightarrow> execution_error" where
  "tool_not_found_error server tool =
     execution_error_of ToolNotFoundKind ''ToolNotFoundError''
       (''Tool '' @ quote_name tool @ '' not found on server '' @ quote_name server) None None"

definition server_not_found_error :: "string \<Rightarrow> execution_error" where
  "server_not_found_error server =
     execution_error_of ServerNotFoundKind ''ServerNotFoundError'' (''Server '' @ quote_name server @ '' not found'') None None"

text \<open>\<open>toJSON\<close>, without the stack that the runtime makes when none is given.\<close>

definition error_to_json :: "execution_error \<Rightarrow> json" where
  "error_to_json e =
     JObj ([(''type'', JStr (error_type_text (ee_type e))), (''message'', JStr (ee_message e))]
       @ (case ee_line e of Some n \<Rightarrow> [(''line'', JNum (int n))] | None \<Rightarrow> [])
       @ (case ee_stack e of Some s \<Rightarrow> [(''stack'', JStr s)] | None \<Rightarrow> []))"

lemma error_kind_readable: "js_field ''type'' (error_to_json e) = Some (JStr (error_type_text t)) \<Longrightarrow> ee_type e = t"
  by (cases "ee_type e"; cases t) (simp_all add: error_to_json_def js_field_def)

subsection \<open>The arguments of the replay command\<close>

record replay_change =
  rc_at :: cfg_value
  rc_op :: string
  rc_with :: "json option"

record replay_args =
  ra_list :: bool
  ra_recordingPath :: "string option"
  ra_recordingsDir :: "string option"
  ra_modifications :: "replay_change list"

definition new_replay_args :: replay_args where
  "new_replay_args = \<lparr>ra_list = False, ra_recordingPath = None, ra_recordingsDir = None, ra_modifications = []\<rparr>"

definition first_or :: "string \<Rightarrow> string list \<Rightarrow> string" where
  "first_or d xs = (case xs of x # _ \<Rightarrow> x | [] \<Rightarrow> d)"

text \<open>The operation and the value that may follow \<open>--at n\<close>, and what is left; \<open>parse\<close> is \<open>JSON.parse\<close>.\<close>

definition op_of :: "string list \<Rightarrow> string \<times> string list" where
  "op_of args = (if args \<noteq> [] \<and> hd args = ''--op'' then (first_or ''replace'' (tl args), drop 2 args) else (''replace'', args))"

definition with_of :: "(string \<Rightarrow> json option) \<Rightarrow> string list \<Rightarrow> (json option \<times> string list) option" where
  "with_of parse args =
     (if args \<noteq> [] \<and> hd args = ''--with''
      then (case parse (first_or ''null'' (tl args)) of Some v \<Rightarrow> Some (Some v, drop 2 args) | None \<Rightarrow> None)
      else Some (None, args))"

lemma length_op_of: "length (snd (op_of args)) \<le> length args"
  by (simp add: op_of_def)

lemma length_with_of: "with_of parse args = Some (v, rest) \<Longrightarrow> length rest \<le> length args"
  by (auto simp: with_of_def split: if_splits option.splits)

function parseArgs :: "(string \<Rightarrow> json option) \<Rightarrow> string list \<Rightarrow> replay_args \<Rightarrow> replay_args option" where
  "parseArgs parse [] r = Some r"
| "parseArgs parse (arg # args) r =
     (if arg = ''--list'' then parseArgs parse args (r\<lparr>ra_list := True\<rparr>)
      else if arg = ''--recordings-dir''
      then parseArgs parse (drop 1 args) (r\<lparr>ra_recordingsDir := (case args of x # _ \<Rightarrow> Some x | [] \<Rightarrow> None)\<rparr>)
      else if arg = ''--at'' then
        (let posn = parse_int (first_or ''0'' args); opr = op_of (drop 1 args) in
         case with_of parse (snd opr) of
           None \<Rightarrow> None
         | Some (v, rest) \<Rightarrow>
             parseArgs parse rest
               (r\<lparr>ra_modifications := ra_modifications r @ [\<lparr>rc_at = posn, rc_op = fst opr, rc_with = v\<rparr>]\<rparr>))
      else parseArgs parse args
             (if arg \<noteq> [] \<and> \<not> prefix ''--'' arg then r\<lparr>ra_recordingPath := Some arg\<rparr> else r))"
  by pat_completeness auto
termination
proof (relation "measure (\<lambda>(parse, args, r). length args)")
  fix parse :: "string \<Rightarrow> json option" and arg and args :: "string list" and r :: replay_args and posn opr p v rest
  assume opr: "opr = op_of (drop 1 args)" and p: "with_of parse (snd opr) = Some p" "(v, rest) = p"
  have "length rest \<le> length (snd opr)" using p length_with_of by blast
  also have "\<dots> \<le> length (drop 1 args)" unfolding opr by (rule length_op_of)
  finally show "((parse, rest, r\<lparr>ra_modifications := ra_modifications r @ [\<lparr>rc_at = posn, rc_op = fst opr, rc_with = v\<rparr>]\<rparr>),
      parse, arg # args, r) \<in> measure (\<lambda>(parse, args, r). length args)" by simp
qed auto

definition replay_exit :: "replay_args \<Rightarrow> bool \<Rightarrow> nat" where
  "replay_exit r diverged =
     (if ra_list r then 0 else if ra_recordingPath r = None \<or> ra_recordingPath r = Some [] then 1 else if diverged then 2 else 0)"

end
