(* ===== verification/Spec2Isabelle.thy ===== *)
theory Spec2Isabelle
  imports Gateway RateLimiter DaemonServer ConnPool WorkerPool Sessions Modes CacheLayer Hub Streaming Redact HttpBridge
    Replay RuntimeHelpers Permissions ResultBudget Metrics SandboxResult Passthrough ServerAdmin Catalog ClientSetup DaemonClient Discovery Skills Watcher DiagMode FindTool Support
begin

text \<open>
  A model of MCP Conductor (\<open>src/src\<close>, TypeScript): a server of the Model Context Protocol that stands between
  one client and many backend servers. The client asks for \<open>execute_code\<close>; the code runs in a sandbox, whose tool calls
  come back over an HTTP bridge, pass the call path (cache, gateway, hub) to a backend, and are measured. A daemon
  shares keys and locks between several conductors.

  \<^bold>\<open>The parts and their theories.\<close> Every theory opens with the file it models.

  \<^item> \<open>Prelude\<close>, \<open>Json\<close>, \<open>JsText\<close>, \<open>JsonLine\<close> (a JSON text is one line), \<open>Pattern\<close>: what the code uses of the language. A \<open>Map\<close> is an association list in
    insertion order, a string a list of code units, \<open>JSON.stringify\<close> is a function that is proved injective, and a regular expression is
    matched by a backtracking matcher that is proved sound and complete for its language where no word boundary occurs. Locales: a store with
    put/get laws, a system with an invariant that all steps keep.
  \<^item> Reliability (\<open>src/src/reliability\<close>): \<open>Errors\<close>, \<open>Retry\<close> (deadline, retry loop), \<open>Breaker\<close> (circuit breaker), \<open>Gateway\<close> (their
    composition \<open>gw_call\<close>); \<open>RateLimiter\<close> (\<open>src/src/utils/rate-limiter.ts\<close>).
  \<^item> The daemon (\<open>src/src/daemon\<close>): \<open>SharedKV\<close>, \<open>SharedLock\<close>, \<open>LineFraming\<close>, \<open>DaemonServer\<close> (connections, authentication, requests),
    \<open>DaemonClient\<close> (the other end of the socket, with the handshake of both programs and the sandbox's shared API), \<open>Discovery\<close>.
  \<^item> The pools: \<open>ConnPool\<close> (\<open>src/src/bridge/pool.ts\<close>), \<open>WorkerPool\<close> (\<open>src/src/runtime/pool\<close>), and \<open>Sessions\<close>, the registry of bridge sessions.
  \<^item> The cache (\<open>src/src/cache\<close>): \<open>CacheKey\<close>, \<open>CachePolicy\<close>, \<open>CacheTiers\<close> (memory and disk), \<open>Delta\<close>, \<open>CacheLayer\<close>; \<open>Registry\<close>
    (\<open>src/src/registry\<close>), whose events invalidate it.
  \<^item> \<open>Hub\<close> (\<open>src/src/hub/mcp-hub.ts\<close>): the connections to the backends and their reconnection; \<open>Modes\<close>; \<open>Streaming\<close>.
  \<^item> Privacy: \<open>Redact\<close> (secrets in logs), \<open>Tokenize\<close> (personal data in results).
  \<^item> The call path: \<open>CallTool\<close>, the handler of \<open>src/src/server/mcp-server.ts\<close> that composes registry, cache, gateway, hub and
    tokenization, and \<open>HttpBridge\<close> (\<open>src/src/bridge/http-server.ts\<close>), which the sandbox calls.
  \<^item> The sandbox: \<open>Executor\<close> (\<open>src/src/runtime/executor.ts\<close>: the processes, their limits and their ends), \<open>Sandbox\<close> (the functions the
    executor puts before the code: calls over the bridge, batches, the scrubbing of results), \<open>SandboxResult\<close> (the result on its way
    out), \<open>Permissions\<close>, \<open>RuntimeHelpers\<close> (compact, summarize, budget, delta), \<open>FindTool\<close> (\<open>src/src/runtime/findtool\<close>).
  \<^item> The server around the call path: \<open>Passthrough\<close> (tools registered in the conductor's own name), \<open>ServerAdmin\<close> (the tools that add,
    remove and update servers, and the reload), \<open>Catalog\<close> (the texts that tell the client what there is), \<open>ResultBudget\<close> (the cap on
    results), \<open>DiagMode\<close>, \<open>Metrics\<close>, \<open>Observability\<close> (anomalies, hot paths, costs), \<open>Replay\<close> (journals
    as the texts of their files).
  \<^item> Setting up: \<open>ConfigLoader\<close> (defaults, file, environment), \<open>Watcher\<close>, \<open>ClientAdapters\<close> (the configuration files of ten other
    programs; the locale \<open>client_adapter\<close> states what an adapter promises and is interpreted for each of them), \<open>ClientSetup\<close>
    (import, export, wizard, doctor, routing), \<open>Skills\<close> (\<open>src/src/skills\<close>), \<open>Support\<close> (small utilities).

  \<^bold>\<open>Conventions.\<close> An operation of the code is a function of its inputs and the state; time is an argument; what another
  program answers (a backend, the file system, a child process) is an argument too. A promise that settles later is a later step: the
  state keeps what waits for it, and a theorem over runs quantifies over all orders of these steps. Thrown values are \<open>Inl\<close>. Retry loops,
  searches and rotations are functions with termination proofs; no fuel is used. Arithmetic on token counts is exact, and where the
  code divides floating-point numbers the theory says why this agrees. Code outside the repository (a JSON parser, a hash, a
  collation) is a parameter.

  \<^bold>\<open>What the lemmas show.\<close> For each component: the invariant of its state and that every step keeps it (\<open>lq_\<close>, \<open>_inv\<close>, \<open>_ok\<close>), the effect of
  each operation on every branch, errors included, and a summary theorem that names what a caller relies on. The numbered
  properties are these summaries. Lemmas named after a surprise (\<open>stale_value_served_as_fresh\<close>, \<open>rotation_deletes_a_running_recording\<close>, \<open>raw_clip_never_fits\<close>)
  record behaviour that differs from what a comment or the documentation says.

  \<^bold>\<open>Not modelled.\<close> The command line (options of a third-party parser, printing, process control), the entry point and its signal
  handlers, the logger, the generation of type declarations (a third-party package does it), the constant table of recommended
  servers, the text of the preload of the sandbox, the schemas and descriptions that the server registers with the SDK, type
  declarations, and the scripts of the repository, which are not part of the program. Floating-point rounding is not modelled where a
  theory says that it takes exact quotients.
\<close>

end
